(* ===== verification/Prelude.thy ===== *)
theory Prelude
  imports Complex_Main "HOL-Library.Char_ord" "HOL-Library.List_Lexorder"
begin

text \<open>
  Shared vocabulary of the development: Python exceptions as values, the string and list
  primitives of the Python standard library that the modelled sources call, and the generic
  lemmas about them.  Strings are character lists ordered lexicographically by character code
  (theories Char_ord and List_Lexorder), as Python's comparison of \<^verbatim>\<open>str\<close> does;
  the sources compare and normalise ASCII names only.
\<close>

named_theorems inv_intros \<open>preservation lemmas of component invariants\<close>
named_theorems run_simps \<open>equations that run a modelled program one step\<close>

section \<open>Exceptions and results\<close>

datatype py_exn = AssertionError | ValueError | RuntimeError | IndexError | KeyError | ZeroDivisionError | TypeError

text \<open>
  A method that mutates its object returns its value or exception together with the object's
  state at that point: an exception does not roll the state back.
\<close>

type_synonym ('a, 's) outcome = "(py_exn + 'a) \<times> 's"

abbreviation returns :: "'a \<Rightarrow> 's \<Rightarrow> ('a, 's) outcome" where
  "returns a s \<equiv> (Inr a, s)"

abbreviation raises :: "py_exn \<Rightarrow> 's \<Rightarrow> ('a, 's) outcome" where
  "raises e s \<equiv> (Inl e, s)"

text \<open>Continue after a call that returned; stop at the state of a call that raised.\<close>

fun on_return :: "('e + 'a) \<times> 's \<Rightarrow> ('a \<Rightarrow> 's \<Rightarrow> ('e + 'b) \<times> 's) \<Rightarrow> ('e + 'b) \<times> 's" where
  "on_return (Inr a, s) f = f a s"
| "on_return (Inl e, s) f = (Inl e, s)"

declare on_return.simps [run_simps]

section \<open>Strings\<close>

definition is_ws :: "char \<Rightarrow> bool" where
  "is_ws c = (c \<in> {CHR '' '', CHR 0x09, CHR 0x0A, CHR 0x0B, CHR 0x0C, CHR 0x0D,
     CHR 0x1C, CHR 0x1D, CHR 0x1E, CHR 0x1F})"

definition py_lstrip :: "string \<Rightarrow> string" where
  "py_lstrip s = dropWhile is_ws s"

definition py_strip :: "string \<Rightarrow> string" where
  "py_strip s = rev (dropWhile is_ws (rev (dropWhile is_ws s)))"

definition is_upper :: "char \<Rightarrow> bool" where
  "is_upper c = (CHR ''A'' \<le> c \<and> c \<le> CHR ''Z'')"

definition lower_char :: "char \<Rightarrow> char" where
  "lower_char c = (if is_upper c then char_of (of_char c + 32 :: nat) else c)"

definition py_lower :: "string \<Rightarrow> string" where
  "py_lower s = map lower_char s"

definition is_digit :: "char \<Rightarrow> bool" where
  "is_digit c = (CHR ''0'' \<le> c \<and> c \<le> CHR ''9'')"

definition digit_val :: "char \<Rightarrow> nat" where
  "digit_val c = of_char c - 48"

definition nat_of_digits :: "string \<Rightarrow> nat" where
  "nat_of_digits s = foldl (\<lambda>n c. 10 * n + digit_val c) 0 s"

fun join_with :: "string \<Rightarrow> string list \<Rightarrow> string" where
  "join_with sep [] = []"
| "join_with sep [x] = x"
| "join_with sep (x # y # ys) = x @ sep @ join_with sep (y # ys)"

text \<open>\<open>split_on c s\<close> is Python's \<^verbatim>\<open>s.split(c)\<close> for a one-character separator.\<close>

fun split_on :: "char \<Rightarrow> string \<Rightarrow> string list" where
  "split_on c [] = [[]]"
| "split_on c (x # xs) =
     (if x = c then [] # split_on c xs
      else (case split_on c xs of [] \<Rightarrow> [[x]] | p # ps \<Rightarrow> (x # p) # ps))"

text \<open>\<open>contains_sub p s\<close> is Python's \<^verbatim>\<open>p in s\<close> on strings.\<close>

fun is_prefix_of :: "string \<Rightarrow> string \<Rightarrow> bool" where
  "is_prefix_of [] s = True"
| "is_prefix_of (p # ps) [] = False"
| "is_prefix_of (p # ps) (c # cs) = (p = c \<and> is_prefix_of ps cs)"

fun contains_sub :: "string \<Rightarrow> string \<Rightarrow> bool" where
  "contains_sub p [] = (p = [])"
| "contains_sub p (c # cs) = (is_prefix_of p (c # cs) \<or> contains_sub p cs)"

text \<open>\<open>remove_sub p s\<close> is \<^verbatim>\<open>s.replace(p, "")\<close> for a non-empty \<open>p\<close>.\<close>

function remove_sub :: "string \<Rightarrow> string \<Rightarrow> string" where
  "remove_sub p [] = []"
| "remove_sub p (c # cs) =
     (if p \<noteq> [] \<and> is_prefix_of p (c # cs) then remove_sub p (drop (length p) (c # cs))
      else c # remove_sub p cs)"
  by pat_completeness auto
termination
  by (relation "measure (\<lambda>(p, s). length s)") (auto simp: length_greater_0_conv [symmetric] simp del: length_greater_0_conv)

text \<open>
  Python's \<^verbatim>\<open>int(s)\<close> on a string: surrounding white space, an optional sign, decimal
  digits with single underscores between them; None is ValueError.
\<close>

fun digit_groups_ok :: "string \<Rightarrow> bool" where
  "digit_groups_ok [] = False"
| "digit_groups_ok [c] = is_digit c"
| "digit_groups_ok (c # d # cs) =
     (is_digit c \<and> (if d = CHR ''_'' then digit_groups_ok cs else digit_groups_ok (d # cs)))"

definition py_int_digits :: "string \<Rightarrow> int option" where
  "py_int_digits s =
     (if digit_groups_ok s then Some (int (nat_of_digits (filter is_digit s))) else None)"

definition py_int :: "string \<Rightarrow> int option" where
  "py_int s = (case py_strip s of
      [] \<Rightarrow> None
    | c # cs \<Rightarrow>
        if c = CHR ''-'' then map_option uminus (py_int_digits cs)
        else if c = CHR ''+'' then py_int_digits cs
        else py_int_digits (c # cs))"

text \<open>\<^verbatim>\<open>str(n)\<close> on integers.\<close>

definition digit_char :: "nat \<Rightarrow> char" where
  "digit_char d = char_of (48 + d)"

fun show_nat :: "nat \<Rightarrow> string" where
  "show_nat n = (if n < 10 then [digit_char n] else show_nat (n div 10) @ [digit_char (n mod 10)])"

declare show_nat.simps [simp del]

definition show_int :: "int \<Rightarrow> string" where
  "show_int i = (if i < 0 then CHR ''-'' # show_nat (nat (- i)) else show_nat (nat i))"

text \<open>A scalar or other value of a JSON document.\<close>

datatype json = JNull | JBool bool | JInt int | JFloat real | JStr string | JOther

definition truncate_real :: "real \<Rightarrow> int" where
  "truncate_real x = (if 0 \<le> x then \<lfloor>x\<rfloor> else \<lceil>x\<rceil>)"

text \<open>Python's \<^verbatim>\<open>int(v)\<close>; None is ValueError or TypeError.\<close>

fun json_int :: "json \<Rightarrow> int option" where
  "json_int JNull = None"
| "json_int (JBool b) = Some (if b then 1 else 0)"
| "json_int (JInt i) = Some i"
| "json_int (JFloat x) = Some (truncate_real x)"
| "json_int (JStr s) = py_int s"
| "json_int JOther = None"

section \<open>Lists\<close>

text \<open>Python's slice \<^verbatim>\<open>xs[:n]\<close>: a negative bound counts from the end.\<close>

definition py_take :: "int \<Rightarrow> 'a list \<Rightarrow> 'a list" where
  "py_take n xs = (if 0 \<le> n then take (nat n) xs else take (length xs - nat (- n)) xs)"

text \<open>Python's \<^verbatim>\<open>xs[i]\<close>: negative indices count from the end.\<close>

definition py_get :: "'a list \<Rightarrow> int \<Rightarrow> 'a option" where
  "py_get xs i = (let n = int (length xs); j = (if i < 0 then n + i else i)
     in if 0 \<le> j \<and> j < n then Some (xs ! nat j) else None)"

text \<open>\<open>sorted(list(set(xs)))\<close>.\<close>

definition sorted_set :: "'a::linorder list \<Rightarrow> 'a list" where
  "sorted_set xs = sort (remdups xs)"

lemma set_sorted_set [simp]: "set (sorted_set xs) = set xs"
  by (simp add: sorted_set_def)

lemma distinct_sorted_set [simp]: "distinct (sorted_set xs)"
  by (simp add: sorted_set_def)

lemma sorted_sorted_set [simp]: "sorted (sorted_set xs)"
  by (simp add: sorted_set_def)

lemma sorted_set_cong: "set xs = set ys \<Longrightarrow> sorted_set xs = sorted_set ys"
  by (metis distinct_sorted_set set_sorted_set sorted_distinct_set_unique sorted_sorted_set)

lemma sorted_set_id: "sorted xs \<Longrightarrow> distinct xs \<Longrightarrow> sorted_set xs = xs"
  by (simp add: sorted_set_def distinct_remdups_id sort_key_id_if_sorted)

lemma length_filter_split:
  "length (filter P xs) + length (filter (\<lambda>x. \<not> P x) xs) = length xs"
  by (rule sum_length_filter_compl)

lemma take_drop_sort_key:
  fixes f :: "'a \<Rightarrow> 'b::linorder"
  assumes "x \<in> set (take k (sort_key f xs))" "y \<in> set (drop k (sort_key f xs))"
  shows "f x \<le> f y"
proof -
  have "sorted (map f (take k (sort_key f xs) @ drop k (sort_key f xs)))" by simp
  then show ?thesis unfolding map_append sorted_append using assms by auto
qed

section \<open>Lemmas on strings\<close>

lemma is_ws_simps [simp]:
  "is_ws CHR '' ''" "is_ws CHR 0x0A" "\<not> is_ws CHR ''#''" "\<not> is_ws CHR '',''"
  by (simp_all add: is_ws_def)

lemma dropWhile_none: "\<forall>c\<in>set s. \<not> P c \<Longrightarrow> dropWhile P s = s"
  by (cases s) auto

lemma py_strip_no_ws: "\<forall>c\<in>set s. \<not> is_ws c \<Longrightarrow> py_strip s = s"
  by (simp add: py_strip_def dropWhile_none)

lemma dropWhile_idem: "dropWhile P (dropWhile P s) = dropWhile P s"
  by (induction s) auto

lemma py_strip_idem [simp]: "py_strip (py_strip s) = py_strip s"
proof (cases "py_strip s")
  case Nil
  have "py_strip [] = []" by (simp add: py_strip_def)
  with Nil show ?thesis by simp
next
  case (Cons a as)
  let ?t = "dropWhile is_ws s"
  have t: "?t = py_strip s @ rev (takeWhile is_ws (rev ?t))"
    unfolding py_strip_def by (metis rev_append rev_rev_ident takeWhile_dropWhile_id)
  have "hd ?t = a" by (metis Cons append_Cons list.sel(1) t)
  moreover have "?t \<noteq> []" by (metis Cons append_Cons list.distinct(1) t)
  ultimately have "\<not> is_ws a" by (metis hd_dropWhile)
  then have 1: "dropWhile is_ws (py_strip s) = py_strip s" using Cons by simp
  have "dropWhile is_ws (rev (py_strip s)) = rev (py_strip s)"
    by (simp add: py_strip_def dropWhile_idem)
  with 1 show ?thesis by (simp add: py_strip_def)
qed

lemma split_on_nonempty [simp]: "split_on c s \<noteq> []"
  by (induction s) (auto split: list.splits)

lemma split_on_no_sep: "c \<notin> set s \<Longrightarrow> split_on c s = [s]"
  by (induction s) auto

lemma split_on_append: "c \<notin> set s \<Longrightarrow> split_on c (s @ c # t) = s # split_on c t"
  by (induction s) auto

lemma split_on_join:
  "\<forall>x\<in>set xs. c \<notin> set x \<Longrightarrow> xs \<noteq> [] \<Longrightarrow> split_on c (join_with [c] xs) = xs"
  by (induction xs rule: induct_list012) (auto simp: split_on_no_sep split_on_append)

section \<open>Decimal numerals\<close>

lemma digit_char_digit: "d < 10 \<Longrightarrow> is_digit (digit_char d)"
  by (simp add: is_digit_def digit_char_def less_eq_char_def of_char_of del: char_of_nat)

lemma digit_val_char: "d < 10 \<Longrightarrow> digit_val (digit_char d) = d"
  by (simp add: digit_val_def digit_char_def)

lemma show_nat_nonempty [simp]: "show_nat n \<noteq> []"
  by (subst show_nat.simps) simp

lemma show_nat_digits: "c \<in> set (show_nat n) \<Longrightarrow> is_digit c"
proof (induction n rule: show_nat.induct)
  case (1 n)
  then show ?case
    by (subst (asm) show_nat.simps) (auto simp: digit_char_digit split: if_splits)
qed

lemma nat_of_digits_snoc: "nat_of_digits (s @ [c]) = 10 * nat_of_digits s + digit_val c"
  by (simp add: nat_of_digits_def)

lemma nat_of_digits_show [simp]: "nat_of_digits (show_nat n) = n"
proof (induction n rule: show_nat.induct)
  case (1 n)
  show ?case
  proof (cases "n < 10")
    case True
    then show ?thesis by (subst show_nat.simps) (simp add: nat_of_digits_def digit_val_char)
  next
    case False
    then show ?thesis using 1
      by (subst show_nat.simps) (simp add: nat_of_digits_snoc digit_val_char)
  qed
qed

end
