(* ===== verification/Allocation.thy ===== *)
theory Allocation
  imports Prelude
begin

text \<open>
  The interface between the node pool and the blacklist manager: the result record of
  \<^verbatim>\<open>BlacklistManager.allocate_nodes\<close> and, as a locale, the laws the pool relies on.
  The blacklist (theory Blacklist) interprets the locale; the pool's lemmas (theory NodePool)
  are proved inside it.
\<close>

record allocation_result =
  healthy_nodes :: "string list"
  backup_nodes :: "string list"
  rejected_nodes :: "string list"
  total_healthy :: nat
  total_backup :: nat
  total_rejected :: nat
  alloc_shortage :: int

text \<open>
  An allocator maps a candidate list and a required count to a result, or to None when the
  query raises.  Asked for as many nodes as there are candidates it classifies every candidate,
  and the three classes do not overlap.
\<close>

locale node_allocator =
  fixes alloc :: "string list \<Rightarrow> int \<Rightarrow> allocation_result option"
  assumes alloc_complete:
      "alloc cs (int (length cs)) = Some r \<Longrightarrow>
       set cs \<subseteq> set (healthy_nodes r) \<union> set (backup_nodes r) \<union> set (rejected_nodes r)"
    and alloc_healthy_backup:
      "alloc cs (int (length cs)) = Some r \<Longrightarrow>
       set (healthy_nodes r) \<inter> set (backup_nodes r) = {}"
    and alloc_rejected:
      "alloc cs (int (length cs)) = Some r \<Longrightarrow>
       set (rejected_nodes r) \<inter> (set (healthy_nodes r) \<union> set (backup_nodes r)) = {}"

end
