(* ===== verification/Blacklist.thy ===== *)
theory Blacklist
  imports Complex_Main Allocation "HOL-Library.AList" "HOL-Library.Product_Lexorder"
begin

text \<open>
  The node blacklist (node_management/node_blacklist_manager.py): configuration, fault and node
  records, the decaying fault score, soft and permanent bans, rack-level fault detection, node
  allocation, and the JSON store with its backup file.

  Times are real numbers of seconds, scores are reals (the code uses doubles; the rounding to
  two decimals is half to even on the exact value).  A dict keyed by node name is an association
  list in insertion order: \<^verbatim>\<open>AList.update\<close> keeps the position of an existing key and
  appends a new one, as a Python dict does.
\<close>

section \<open>Configuration\<close>

datatype fault_type = NETWORK | HCU | GRADIENT_INF | MANUAL

datatype fault_severity = SevNormal | SevWarning | SevFatal

definition fatal_xid_codes :: "int list" where
  "fatal_xid_codes = [76, 61, 62, 63, 64, 65, 68]"

definition warning_xid_codes :: "int list" where
  "warning_xid_codes = [31, 32, 48, 49, 55]"

definition fatal_error_codes :: "string list" where
  "fatal_error_codes = [''HCU_RESET'', ''BAD_OP'', ''SDMA_QUEUE_ERROR'', ''CP_QUEUE_ERROR'']"

fun default_weight :: "fault_type \<Rightarrow> real" where
  "default_weight NETWORK = 10"
| "default_weight HCU = 100"
| "default_weight GRADIENT_INF = 30"
| "default_weight MANUAL = 0"

fun default_severity :: "fault_type \<Rightarrow> fault_severity" where
  "default_severity NETWORK = SevNormal"
| "default_severity HCU = SevFatal"
| "default_severity GRADIENT_INF = SevWarning"
| "default_severity MANUAL = SevNormal"

fun default_soft_ban :: "fault_type \<Rightarrow> int" where
  "default_soft_ban NETWORK = 3"
| "default_soft_ban HCU = 1"
| "default_soft_ban GRADIENT_INF = 2"
| "default_soft_ban MANUAL = 999"

fun default_auto_ban :: "fault_type \<Rightarrow> int" where
  "default_auto_ban NETWORK = 5"
| "default_auto_ban HCU = 2"
| "default_auto_ban GRADIENT_INF = 5"
| "default_auto_ban MANUAL = 999"

record bl_config =
  decay_half_life_hours :: real
  soft_ban_window_hours :: real
  auto_whitelist_hours :: real
  rack_fault_threshold :: int
  rack_fault_window_seconds :: real
  fault_weights :: "fault_type \<Rightarrow> real option"
  fault_severities :: "fault_type \<Rightarrow> fault_severity option"
  fault_soft_ban_thresholds :: "fault_type \<Rightarrow> int option"
  fault_auto_ban_thresholds :: "fault_type \<Rightarrow> int option"
  uptime_penalty_weight :: real
  uptime_reference_hours :: real
  type_description :: "fault_type \<Rightarrow> string"

text \<open>
  The descriptions of \<^verbatim>\<open>_FAULT_TYPE_DEFAULTS\<close> are Chinese text and stay a parameter of the
  configuration; everything else has the defaults of the dataclass.
\<close>

definition default_config :: bl_config where
  "default_config = \<lparr> decay_half_life_hours = 72, soft_ban_window_hours = 1,
     auto_whitelist_hours = 48, rack_fault_threshold = 5, rack_fault_window_seconds = 120,
     fault_weights = Map.empty, fault_severities = Map.empty,
     fault_soft_ban_thresholds = Map.empty, fault_auto_ban_thresholds = Map.empty,
     uptime_penalty_weight = 1/2, uptime_reference_hours = 24,
     type_description = (\<lambda>_. ''fault'') \<rparr>"

definition decay_lambda :: "bl_config \<Rightarrow> real" where
  "decay_lambda cfg = ln 2 / max (decay_half_life_hours cfg) (1/10)"

definition cfg_weight :: "bl_config \<Rightarrow> fault_type \<Rightarrow> real" where
  "cfg_weight cfg ft = (case fault_weights cfg ft of Some w \<Rightarrow> w | None \<Rightarrow> default_weight ft)"

definition cfg_severity :: "bl_config \<Rightarrow> fault_type \<Rightarrow> fault_severity" where
  "cfg_severity cfg ft =
     (case fault_severities cfg ft of Some s \<Rightarrow> s | None \<Rightarrow> default_severity ft)"

definition soft_ban_threshold :: "bl_config \<Rightarrow> fault_type \<Rightarrow> int" where
  "soft_ban_threshold cfg ft =
     (case fault_soft_ban_thresholds cfg ft of Some n \<Rightarrow> n | None \<Rightarrow> default_soft_ban ft)"

definition auto_ban_threshold :: "bl_config \<Rightarrow> fault_type \<Rightarrow> int" where
  "auto_ban_threshold cfg ft =
     (case fault_auto_ban_thresholds cfg ft of Some n \<Rightarrow> n | None \<Rightarrow> default_auto_ban ft)"

section \<open>Fault and node records\<close>

record fault_record =
  fr_type :: fault_type
  fr_time :: real
  fr_description :: string
  fr_error_code :: "string option"
  fr_hcu_id :: "int option"
  fr_micro_step :: "int option"
  fr_base_score :: real
  fr_uptime_hours :: "real option"
  fr_uptime_penalty :: real

record node_record =
  nr_name :: string
  nr_faults :: "fault_record list"
  nr_fatal :: bool
  nr_soft_banned :: bool
  nr_last_fault :: "real option"
  nr_last_healthy :: "real option"
  nr_score :: real

definition new_node :: "string \<Rightarrow> node_record" where
  "new_node n = \<lparr> nr_name = n, nr_faults = [], nr_fatal = False, nr_soft_banned = False,
     nr_last_fault = None, nr_last_healthy = None, nr_score = 0 \<rparr>"

definition total_fault_count :: "node_record \<Rightarrow> nat" where
  "total_fault_count nd = length (filter (\<lambda>r. fr_type r \<noteq> MANUAL) (nr_faults nd))"

text \<open>Rounding to two decimals, halves to even.\<close>

definition round_half_even :: "real \<Rightarrow> int" where
  "round_half_even y = (let f = \<lfloor>y\<rfloor>; d = y - of_int f
     in if d < 1/2 then f else if d > 1/2 then f + 1 else if even f then f else f + 1)"

definition round2 :: "real \<Rightarrow> real" where
  "round2 x = of_int (round_half_even (100 * x)) / 100"

text \<open>
  \<open>NodeRecord.add_fault\<close> completes the record (its uptime) before it stores it; the pair holds
  the completed record and the node.
\<close>

definition add_fault :: "node_record \<Rightarrow> fault_record \<Rightarrow> fault_record \<times> node_record" where
  "add_fault nd r =
     (let r' = (case nr_last_fault nd of
                  Some t \<Rightarrow> if nr_faults nd \<noteq> []
                            then r\<lparr> fr_uptime_hours := Some (max ((fr_time r - t) / 3600) 0) \<rparr>
                            else r
                | None \<Rightarrow> r);
          last = (case nr_last_fault nd of
                    None \<Rightarrow> Some (fr_time r)
                  | Some t \<Rightarrow> if t < fr_time r then Some (fr_time r) else Some t)
      in (r', nd\<lparr> nr_faults := nr_faults nd @ [r'], nr_last_fault := last \<rparr>))"

definition update_fault_score :: "node_record \<Rightarrow> real \<Rightarrow> node_record" where
  "update_fault_score nd s = nd\<lparr> nr_score := round2 s \<rparr>"

definition mark_healthy :: "node_record \<Rightarrow> real \<Rightarrow> node_record" where
  "mark_healthy nd now = nd\<lparr> nr_last_healthy := Some now \<rparr>"

definition clear_record :: "node_record \<Rightarrow> node_record" where
  "clear_record nd = nd\<lparr> nr_faults := [], nr_fatal := False, nr_soft_banned := False,
     nr_last_fault := None, nr_score := 0 \<rparr>"

section \<open>Scoring engine\<close>

definition compute_uptime_penalty :: "bl_config \<Rightarrow> real \<Rightarrow> real option \<Rightarrow> real" where
  "compute_uptime_penalty cfg base up =
     (case up of
        None \<Rightarrow> 0
      | Some h \<Rightarrow>
          if base \<le> 0 then 0
          else uptime_penalty_weight cfg * base /
                 (1 + h / max (uptime_reference_hours cfg) (1/100)))"

definition fault_contribution :: "bl_config \<Rightarrow> real \<Rightarrow> fault_record \<Rightarrow> real" where
  "fault_contribution cfg now r =
     (if fr_type r = MANUAL then 0
      else
        let base = (if 0 < fr_base_score r then fr_base_score r else cfg_weight cfg (fr_type r));
            penalty = (if 0 < fr_base_score r then fr_uptime_penalty r
                       else compute_uptime_penalty cfg base (fr_uptime_hours r));
            delta_h = max ((now - fr_time r) / 3600) 0
        in (base + penalty) * exp (- decay_lambda cfg * delta_h))"

definition compute_score :: "bl_config \<Rightarrow> node_record \<Rightarrow> real \<Rightarrow> real" where
  "compute_score cfg nd now =
     round2 (sum_list (map (fault_contribution cfg now) (nr_faults nd)))"

record scored_node =
  sn_name :: string
  sn_score :: real
  sn_fatal :: bool
  sn_soft_banned :: bool
  sn_count :: nat
  sn_last_weight :: real

definition score_node :: "bl_config \<Rightarrow> real \<Rightarrow> string \<times> node_record \<Rightarrow> scored_node" where
  "score_node cfg now p = (case p of (name, nd) \<Rightarrow>
     \<lparr> sn_name = name, sn_score = compute_score cfg nd now, sn_fatal = nr_fatal nd,
       sn_soft_banned = nr_soft_banned nd, sn_count = total_fault_count nd,
       sn_last_weight =
         (case find (\<lambda>r. fr_type r \<noteq> MANUAL) (rev (nr_faults nd)) of
            Some r \<Rightarrow> cfg_weight cfg (fr_type r) | None \<Rightarrow> 0) \<rparr>)"

definition get_scored_nodes ::
    "bl_config \<Rightarrow> real \<Rightarrow> (string \<times> node_record) list \<Rightarrow> scored_node list" where
  "get_scored_nodes cfg now nodes = map (score_node cfg now) nodes"

definition avail_key :: "scored_node \<Rightarrow> nat \<times> real \<times> real \<times> nat" where
  "avail_key n = (if sn_fatal n then 1 else 0, sn_score n, sn_last_weight n, sn_count n)"

definition sort_by_availability :: "scored_node list \<Rightarrow> scored_node list" where
  "sort_by_availability ns = sort_key avail_key ns"

definition all_fault_types :: "fault_type list" where
  "all_fault_types = [NETWORK, HCU, GRADIENT_INF, MANUAL]"

definition count_type :: "fault_type \<Rightarrow> fault_record list \<Rightarrow> nat" where
  "count_type ft rs = length (filter (\<lambda>r. fr_type r = ft) rs)"

definition check_soft_ban :: "bl_config \<Rightarrow> node_record \<Rightarrow> real \<Rightarrow> bool" where
  "check_soft_ban cfg nd now =
     (let window = soft_ban_window_hours cfg * 3600;
          rs = filter (\<lambda>r. 0 \<le> now - fr_time r \<and> now - fr_time r \<le> window) (nr_faults nd)
      in list_ex (\<lambda>ft. 0 < count_type ft rs \<and> soft_ban_threshold cfg ft \<le> int (count_type ft rs))
           all_fault_types)"

definition should_auto_ban :: "bl_config \<Rightarrow> node_record \<Rightarrow> bool" where
  "should_auto_ban cfg nd =
     list_ex (\<lambda>ft. 0 < count_type ft (nr_faults nd) \<and>
                    auto_ban_threshold cfg ft \<le> int (count_type ft (nr_faults nd)))
       all_fault_types"

definition should_auto_whitelist :: "bl_config \<Rightarrow> node_record \<Rightarrow> real \<Rightarrow> bool" where
  "should_auto_whitelist cfg nd now =
     (case nr_last_fault nd of
        None \<Rightarrow> False
      | Some t \<Rightarrow> auto_whitelist_hours cfg \<le> (now - t) / 3600)"

definition determine_severity :: "string option \<Rightarrow> fault_severity" where
  "determine_severity code =
     (case code of
        None \<Rightarrow> SevNormal
      | Some c \<Rightarrow>
          if c = [] then SevNormal
          else
            (case py_int (py_strip (remove_sub ''Xid'' c)) of
               Some xid \<Rightarrow>
                 if xid \<in> set fatal_xid_codes then SevFatal
                 else if xid \<in> set warning_xid_codes then SevWarning
                 else if c \<in> set fatal_error_codes then SevFatal else SevNormal
             | None \<Rightarrow> if c \<in> set fatal_error_codes then SevFatal else SevNormal))"

section \<open>Rack-level fault detection\<close>

record rack_event =
  re_nodes :: "string list"
  re_time :: real
  re_rack :: "string option"

text \<open>\<open>rd_alerts\<close> lists the events handed to the registered callbacks, oldest first.\<close>

record rack_detector =
  rd_timeline :: "(real \<times> string) list"
  rd_racks :: "(string \<times> string) list"
  rd_alerts :: "rack_event list"

definition register_node_rack :: "rack_detector \<Rightarrow> string \<Rightarrow> string \<Rightarrow> rack_detector" where
  "register_node_rack d n rk = d\<lparr> rd_racks := AList.update n rk (rd_racks d) \<rparr>"

definition rack_cleanup :: "bl_config \<Rightarrow> rack_detector \<Rightarrow> real \<Rightarrow> rack_detector" where
  "rack_cleanup cfg d now =
     d\<lparr> rd_timeline :=
          filter (\<lambda>p. now - rack_fault_window_seconds cfg < fst p) (rd_timeline d) \<rparr>"

definition rack_detect ::
    "bl_config \<Rightarrow> rack_detector \<Rightarrow> real \<Rightarrow> rack_event option \<times> rack_detector" where
  "rack_detect cfg d now =
     (let unique = remdups (map snd (rd_timeline d))
      in if int (length unique) < rack_fault_threshold cfg then (None, d)
         else
           let racks = remdups (List.map_filter (map_of (rd_racks d)) unique);
               ev = \<lparr> re_nodes = unique, re_time = now,
                      re_rack = (case racks of [rk] \<Rightarrow> Some rk | _ \<Rightarrow> None) \<rparr>
           in (Some ev, d\<lparr> rd_timeline := [], rd_alerts := rd_alerts d @ [ev] \<rparr>))"

definition record_network_fault ::
    "bl_config \<Rightarrow> rack_detector \<Rightarrow> string \<Rightarrow> real \<Rightarrow> rack_event option \<times> rack_detector" where
  "record_network_fault cfg d n ts =
     rack_detect cfg (rack_cleanup cfg (d\<lparr> rd_timeline := rd_timeline d @ [(ts, n)] \<rparr>) ts) ts"

section \<open>The JSON store\<close>

text \<open>
  What is on disk: no file, a file that does not parse, or the records of a save.  \<open>to_dict\<close>
  is what serialisation does to a record (three fields are rounded); the JSON text itself is
  not modelled, and reading a file back gives the dictionaries that were written.
\<close>

datatype bl_file = Absent | Corrupt | Stored "(string \<times> node_record) list"

record bl_store =
  st_main :: bl_file
  st_backup :: bl_file

definition fault_to_dict :: "fault_record \<Rightarrow> fault_record" where
  "fault_to_dict r = r\<lparr> fr_base_score := round2 (fr_base_score r),
     fr_uptime_hours := map_option round2 (fr_uptime_hours r),
     fr_uptime_penalty := round2 (fr_uptime_penalty r) \<rparr>"

definition node_to_dict :: "node_record \<Rightarrow> node_record" where
  "node_to_dict nd = nd\<lparr> nr_faults := map fault_to_dict (nr_faults nd) \<rparr>"

definition node_from_dict :: "node_record \<Rightarrow> node_record" where
  "node_from_dict d = d"

definition store_save ::
    "bool \<Rightarrow> bool \<Rightarrow> bl_store \<Rightarrow> (string \<times> node_record) list \<Rightarrow> bool \<times> bl_store" where
  "store_save write_ok copy_ok st nodes =
     (if write_ok then
        let main = Stored (map (\<lambda>(n, nd). (n, node_to_dict nd)) nodes)
        in (True, \<lparr> st_main = main, st_backup = (if copy_ok then main else st_backup st) \<rparr>)
      else (False, st))"

definition load_file :: "bl_file \<Rightarrow> (string \<times> node_record) list option" where
  "load_file f = (case f of
      Absent \<Rightarrow> None
    | Corrupt \<Rightarrow> None
    | Stored ns \<Rightarrow> Some (map (\<lambda>(n, d). (n, node_from_dict d)) ns))"

definition store_load ::
    "bool \<Rightarrow> bool \<Rightarrow> bl_store \<Rightarrow> (string \<times> node_record) list \<times> bl_store" where
  "store_load write_ok copy_ok st =
     (if st_main st \<noteq> Absent then
        case load_file (st_main st) of
          Some ns \<Rightarrow> (ns, st)
        | None \<Rightarrow>
            (case load_file (st_backup st) of
               Some ns \<Rightarrow> (ns, snd (store_save write_ok copy_ok st ns))
             | None \<Rightarrow> ([], st))
      else ([], if write_ok then st\<lparr> st_main := Stored [] \<rparr> else st))"

section \<open>The manager\<close>

record bl_mgr =
  bm_config :: bl_config
  bm_nodes :: "(string \<times> node_record) list"
  bm_rack :: rack_detector
  bm_dirty :: bool
  bm_store :: bl_store

definition init_manager :: "bool \<Rightarrow> bool \<Rightarrow> bl_config \<Rightarrow> bl_store \<Rightarrow> bl_mgr" where
  "init_manager write_ok copy_ok cfg st =
     (case store_load write_ok copy_ok st of (ns, st') \<Rightarrow>
        \<lparr> bm_config = cfg, bm_nodes = ns,
          bm_rack = \<lparr> rd_timeline = [], rd_racks = [], rd_alerts = [] \<rparr>,
          bm_dirty = False, bm_store = st' \<rparr>)"

definition do_persist :: "bool \<Rightarrow> bool \<Rightarrow> bl_mgr \<Rightarrow> bl_mgr" where
  "do_persist write_ok copy_ok m =
     (case store_save write_ok copy_ok (bm_store m) (bm_nodes m) of (ok, st) \<Rightarrow>
        m\<lparr> bm_store := st, bm_dirty := (if ok then False else bm_dirty m) \<rparr>)"

text \<open>
  The decisions \<open>report_fault\<close> takes on a node once its fault is stored: fatal by error code
  or by type, soft ban, ban by count, and the whitelisting test.
\<close>

definition judge_node ::
    "bl_config \<Rightarrow> fault_type \<Rightarrow> string option \<Rightarrow> real \<Rightarrow> node_record \<Rightarrow> node_record" where
  "judge_node cfg ft code now nd =
     (let nd1 = (if determine_severity code = SevFatal \<or> cfg_severity cfg ft = SevFatal
                 then nd\<lparr> nr_fatal := True \<rparr> else nd);
          nd2 = (if \<not> nr_soft_banned nd1 \<and> \<not> nr_fatal nd1 \<and> check_soft_ban cfg nd1 now
                 then nd1\<lparr> nr_soft_banned := True \<rparr> else nd1);
          nd3 = (if should_auto_ban cfg nd2 then nd2\<lparr> nr_fatal := True \<rparr> else nd2)
      in if (nr_fatal nd3 \<or> nr_soft_banned nd3) \<and> should_auto_whitelist cfg nd3 now
         then nd3\<lparr> nr_fatal := False, nr_soft_banned := False \<rparr> else nd3)"

text \<open>
  \<open>apply_fault\<close> is the body of \<open>report_fault\<close> on the node: store the fault, complete its
  penalty (the record in the list is the same object), refresh the score with a second clock
  reading \<open>now'\<close>, judge.
\<close>

definition apply_fault ::
    "bl_config \<Rightarrow> fault_record \<Rightarrow> real \<Rightarrow> real \<Rightarrow> node_record \<Rightarrow> node_record" where
  "apply_fault cfg rec0 now now' nd =
     (case add_fault nd rec0 of (r, nd1) \<Rightarrow>
        let r' = r\<lparr> fr_uptime_penalty :=
                     compute_uptime_penalty cfg (fr_base_score r) (fr_uptime_hours r) \<rparr>;
            nd2 = nd1\<lparr> nr_faults := nr_faults nd @ [r'] \<rparr>;
            nd3 = update_fault_score nd2 (compute_score cfg nd2 now')
        in judge_node cfg (fr_type rec0) (fr_error_code rec0) now nd3)"

definition report_fault ::
    "bl_mgr \<Rightarrow> string \<Rightarrow> fault_type \<Rightarrow> string \<Rightarrow> string option \<Rightarrow> int option \<Rightarrow> int option
      \<Rightarrow> real \<Rightarrow> real \<Rightarrow> bool \<times> bl_mgr" where
  "report_fault m n ft desc code hcu step now now' =
     (let cfg = bm_config m;
          (rack_ev, rk) = (if ft = NETWORK then record_network_fault cfg (bm_rack m) n now
                           else (None, bm_rack m));
          m1 = m\<lparr> bm_rack := rk \<rparr>
      in if rack_ev \<noteq> None then (False, m1)
         else
           let r = \<lparr> fr_type = ft, fr_time = now,
                     fr_description = (if desc = [] then type_description cfg ft else desc),
                     fr_error_code = code, fr_hcu_id = hcu, fr_micro_step = step,
                     fr_base_score = cfg_weight cfg ft, fr_uptime_hours = None,
                     fr_uptime_penalty = 0 \<rparr>;
               nd = (case map_of (bm_nodes m1) n of Some x \<Rightarrow> x | None \<Rightarrow> new_node n)
           in (True, m1\<lparr> bm_nodes := AList.update n (apply_fault cfg r now now' nd) (bm_nodes m1),
                         bm_dirty := True \<rparr>))"

definition report_healthy :: "bl_mgr \<Rightarrow> string \<Rightarrow> real \<Rightarrow> bl_mgr" where
  "report_healthy m n now =
     (case map_of (bm_nodes m) n of
        Some nd \<Rightarrow> m\<lparr> bm_nodes := AList.update n (mark_healthy nd now) (bm_nodes m),
                      bm_dirty := True \<rparr>
      | None \<Rightarrow> m)"

fun classify_nodes ::
    "(string \<times> node_record) list \<Rightarrow> string list
      \<Rightarrow> string list \<times> (string \<times> node_record) list \<times> string list
      \<Rightarrow> string list \<times> (string \<times> node_record) list \<times> string list" where
  "classify_nodes bl [] acc = acc"
| "classify_nodes bl (n # ns) (healthy, recov, fatal) =
     classify_nodes bl ns
       (case map_of bl n of
          Some nd \<Rightarrow> if nr_fatal nd then (healthy, recov, List.insert n fatal)
                     else (healthy, AList.update n nd recov, fatal)
        | None \<Rightarrow> (healthy @ [n], recov, fatal))"

definition allocate_nodes ::
    "bl_mgr \<Rightarrow> real \<Rightarrow> string list \<Rightarrow> int \<Rightarrow> allocation_result" where
  "allocate_nodes m now all_nodes required =
     (case classify_nodes (bm_nodes m) all_nodes ([], [], []) of (healthy, recov, fatal) \<Rightarrow>
        let short = max 0 (required - int (length healthy));
            backup =
              (if 0 < short \<and> recov \<noteq> [] then
                 map sn_name (take (nat short)
                   (sort_by_availability (get_scored_nodes (bm_config m) now recov)))
               else [])
        in \<lparr> healthy_nodes = healthy, backup_nodes = backup, rejected_nodes = fatal,
             total_healthy = length healthy, total_backup = length backup,
             total_rejected = length fatal,
             alloc_shortage = max 0 (required - int (length healthy) - int (length backup)) \<rparr>)"

definition is_blacklisted :: "bl_mgr \<Rightarrow> string \<Rightarrow> bool \<times> bool" where
  "is_blacklisted m n = (case map_of (bm_nodes m) n of
      None \<Rightarrow> (False, False)
    | Some nd \<Rightarrow> (nr_fatal nd \<or> nr_soft_banned nd, nr_fatal nd))"

definition get_ranked_list :: "bl_mgr \<Rightarrow> real \<Rightarrow> scored_node list" where
  "get_ranked_list m now =
     (if bm_nodes m = [] then []
      else sort_by_availability (get_scored_nodes (bm_config m) now (bm_nodes m)))"

record bl_stats =
  bs_total :: nat
  bs_fatal :: nat
  bs_soft :: nat
  bs_recoverable :: int
  bs_types :: "fault_type \<Rightarrow> nat"

definition get_stats :: "bl_mgr \<Rightarrow> bl_stats" where
  "get_stats m =
     (let nds = map snd (bm_nodes m);
          fatal = length (filter nr_fatal nds)
      in \<lparr> bs_total = length nds, bs_fatal = fatal,
           bs_soft = length (filter (\<lambda>nd. nr_soft_banned nd \<and> \<not> nr_fatal nd) nds),
           bs_recoverable = int (length nds) - int fatal,
           bs_types = (\<lambda>ft. count_type ft (concat (map nr_faults nds))) \<rparr>)"

definition remove_node :: "bl_mgr \<Rightarrow> string \<Rightarrow> bool \<times> bl_mgr" where
  "remove_node m n =
     (if map_of (bm_nodes m) n \<noteq> None
      then (True, m\<lparr> bm_nodes := AList.delete n (bm_nodes m), bm_dirty := True \<rparr>)
      else (False, m))"

definition clear_node_history :: "bl_mgr \<Rightarrow> string \<Rightarrow> bool \<times> bl_mgr" where
  "clear_node_history m n =
     (case map_of (bm_nodes m) n of
        Some nd \<Rightarrow> (True, m\<lparr> bm_nodes := AList.update n (clear_record nd) (bm_nodes m),
                            bm_dirty := True \<rparr>)
      | None \<Rightarrow> (False, m))"

section \<open>Lemmas\<close>

lemma round_half_even_of_int [simp]: "round_half_even (of_int k) = k"
  by (simp add: round_half_even_def)

lemma round_half_even_mono: "x \<le> y \<Longrightarrow> round_half_even x \<le> round_half_even y"
proof -
  assume xy: "x \<le> y"
  then have f: "\<lfloor>x\<rfloor> \<le> \<lfloor>y\<rfloor>" by (rule floor_mono)
  have range: "\<lfloor>z\<rfloor> \<le> round_half_even z \<and> round_half_even z \<le> \<lfloor>z\<rfloor> + 1" for z
    by (simp add: round_half_even_def Let_def)
  show ?thesis
  proof (cases "\<lfloor>x\<rfloor> = \<lfloor>y\<rfloor>")
    case True
    then show ?thesis using xy by (auto simp: round_half_even_def Let_def)
  next
    case False
    with f have "\<lfloor>x\<rfloor> + 1 \<le> \<lfloor>y\<rfloor>" by simp
    with range[of x] range[of y] show ?thesis by linarith
  qed
qed

lemma round2_mono: "x \<le> y \<Longrightarrow> round2 x \<le> round2 y"
  by (simp add: round2_def divide_right_mono round_half_even_mono)

lemma round2_nonneg: "0 \<le> x \<Longrightarrow> 0 \<le> round2 x"
  using round2_mono[of 0 x] round_half_even_of_int[of 0] by (simp add: round2_def)

lemma round2_idem [simp]: "round2 (round2 x) = round2 x"
  by (simp add: round2_def)

lemma decay_lambda_pos: "0 < decay_lambda cfg"
  by (simp add: decay_lambda_def)

definition cfg_ok :: "bl_config \<Rightarrow> bool" where
  "cfg_ok cfg \<longleftrightarrow> (\<forall>ft w. fault_weights cfg ft = Some w \<longrightarrow> 0 \<le> w) \<and> 0 \<le> uptime_penalty_weight cfg"

lemma cfg_weight_nonneg: "cfg_ok cfg \<Longrightarrow> 0 \<le> cfg_weight cfg ft"
  by (cases ft) (auto simp: cfg_ok_def cfg_weight_def split: option.splits)

definition record_ok :: "fault_record \<Rightarrow> bool" where
  "record_ok r \<longleftrightarrow> 0 \<le> fr_uptime_penalty r \<and> (\<forall>h. fr_uptime_hours r = Some h \<longrightarrow> 0 \<le> h)"

lemma uptime_penalty_bounds:
  assumes "0 \<le> uptime_penalty_weight cfg" "\<And>h. up = Some h \<Longrightarrow> 0 \<le> h"
  shows "0 \<le> compute_uptime_penalty cfg base up"
    and "0 \<le> base \<Longrightarrow> compute_uptime_penalty cfg base up \<le> uptime_penalty_weight cfg * base"
proof -
  show "0 \<le> compute_uptime_penalty cfg base up"
    using assms by (auto simp: compute_uptime_penalty_def split: option.splits)
  assume b: "0 \<le> base"
  show "compute_uptime_penalty cfg base up \<le> uptime_penalty_weight cfg * base"
  proof (cases up)
    case None
    then show ?thesis using assms b by (simp add: compute_uptime_penalty_def)
  next
    case (Some h)
    let ?d = "1 + h / max (uptime_reference_hours cfg) (1/100)"
    have "1 \<le> ?d" using assms(2)[OF Some] by simp
    then have "uptime_penalty_weight cfg * base / ?d \<le> uptime_penalty_weight cfg * base / 1"
      using assms(1) b by (intro divide_left_mono) auto
    then show ?thesis using Some assms b by (auto simp: compute_uptime_penalty_def)
  qed
qed

lemma uptime_penalty_antimono:
  assumes "0 \<le> uptime_penalty_weight cfg" "0 \<le> h" "h \<le> h'"
  shows "compute_uptime_penalty cfg base (Some h') \<le> compute_uptime_penalty cfg base (Some h)"
proof (cases "base \<le> 0")
  case False
  let ?t = "max (uptime_reference_hours cfg) (1/100)"
  have "h / ?t \<le> h' / ?t" using assms by (intro divide_right_mono) auto
  then have "uptime_penalty_weight cfg * base / (1 + h' / ?t) \<le> uptime_penalty_weight cfg * base / (1 + h / ?t)"
    using assms False by (intro divide_left_mono mult_pos_pos add_pos_nonneg) auto
  with False show ?thesis by (simp add: compute_uptime_penalty_def)
qed (simp add: compute_uptime_penalty_def)

lemma fault_contribution_nonneg:
  assumes "cfg_ok cfg" "record_ok r"
  shows "0 \<le> fault_contribution cfg now r"
proof -
  have "0 \<le> compute_uptime_penalty cfg (cfg_weight cfg (fr_type r)) (fr_uptime_hours r)"
    using assms by (intro uptime_penalty_bounds) (auto simp: cfg_ok_def record_ok_def)
  then show ?thesis
    using assms cfg_weight_nonneg[of cfg "fr_type r"]
    by (auto simp: fault_contribution_def Let_def record_ok_def)
qed

lemma fault_contribution_antimono:
  assumes "cfg_ok cfg" "record_ok r" "now \<le> now'"
  shows "fault_contribution cfg now' r \<le> fault_contribution cfg now r"
proof -
  let ?d = "\<lambda>t. max ((t - fr_time r) / 3600) 0"
  have "?d now \<le> ?d now'" using assms(3) by (intro max.mono divide_right_mono) auto
  then have e: "exp (- decay_lambda cfg * ?d now') \<le> exp (- decay_lambda cfg * ?d now)"
    using decay_lambda_pos[of cfg] by simp
  have p: "0 \<le> compute_uptime_penalty cfg (cfg_weight cfg (fr_type r)) (fr_uptime_hours r)"
    using assms by (intro uptime_penalty_bounds) (auto simp: cfg_ok_def record_ok_def)
  have "0 \<le> (if 0 < fr_base_score r then fr_base_score r else cfg_weight cfg (fr_type r)) +
      (if 0 < fr_base_score r then fr_uptime_penalty r
       else compute_uptime_penalty cfg (cfg_weight cfg (fr_type r)) (fr_uptime_hours r))"
    using assms p cfg_weight_nonneg[of cfg "fr_type r"] by (auto simp: record_ok_def)
  from mult_left_mono[OF e this] show ?thesis
    by (auto simp: fault_contribution_def Let_def)
qed

lemma compute_score_nonneg:
  "cfg_ok cfg \<Longrightarrow> \<forall>r\<in>set (nr_faults nd). record_ok r \<Longrightarrow> 0 \<le> compute_score cfg nd now"
  unfolding compute_score_def
  by (intro round2_nonneg sum_list_nonneg) (auto intro: fault_contribution_nonneg)

lemma compute_score_antimono:
  "cfg_ok cfg \<Longrightarrow> \<forall>r\<in>set (nr_faults nd). record_ok r \<Longrightarrow> now \<le> now' \<Longrightarrow>
   compute_score cfg nd now' \<le> compute_score cfg nd now"
  unfolding compute_score_def
  by (intro round2_mono sum_list_mono) (auto intro: fault_contribution_antimono)


lemma classify_healthy:
  "fst (classify_nodes bl ns (h, rc, f)) = h @ filter (\<lambda>n. map_of bl n = None) ns"
  by (induction ns arbitrary: h rc f) (auto split: option.split)

lemma classify_recov_dom:
  "fst ` set (fst (snd (classify_nodes bl ns (h, rc, f)))) =
   fst ` set rc \<union> {n \<in> set ns. \<exists>nd. map_of bl n = Some nd \<and> \<not> nr_fatal nd}"
  by (induction ns arbitrary: h rc f) (auto simp: AList.dom_update split: option.split)

lemma classify_recov_distinct:
  "distinct (map fst rc) \<Longrightarrow> distinct (map fst (fst (snd (classify_nodes bl ns (h, rc, f)))))"
  by (induction ns arbitrary: h rc f) (auto simp: AList.distinct_update split: option.split)

lemma classify_fatal:
  "set (snd (snd (classify_nodes bl ns (h, rc, f)))) =
   set f \<union> {n \<in> set ns. \<exists>nd. map_of bl n = Some nd \<and> nr_fatal nd}"
  by (induction ns arbitrary: h rc f) (auto split: option.split)

lemma set_update_subset: "set (AList.update k v al) \<subseteq> insert (k, v) (set al)"
  by (induction al) auto

lemma classify_recov_all:
  assumes P: "\<And>n nd. map_of bl n = Some nd \<Longrightarrow> \<not> nr_fatal nd \<Longrightarrow> P (n, nd)"
  shows "list_all P rc \<Longrightarrow> list_all P (fst (snd (classify_nodes bl ns (h, rc, f))))"
proof (induction ns arbitrary: h rc f)
  case Nil
  then show ?case by simp
next
  case (Cons n ns)
  have "map_of bl n = Some nd \<Longrightarrow> \<not> nr_fatal nd \<Longrightarrow> list_all P (AList.update n nd rc)" for nd
    using set_update_subset[of n nd rc] Cons.prems P by (auto simp: list_all_iff)
  then show ?case
    using Cons.prems by (simp add: Cons.IH split: option.split)
qed

lemma recov_count:
  "length (fst (snd (classify_nodes bl ns ([], [], []))))
     \<le> length ns - length (filter (\<lambda>n. map_of bl n = None) ns)"
proof -
  let ?rc = "fst (snd (classify_nodes bl ns ([], [], [])))"
  have "length ?rc = card (fst ` set ?rc)"
    using classify_recov_distinct[of "[]" bl ns "[]" "[]"]
    by (metis distinct_card length_map list.set_map list.simps(8) distinct.simps(1))
  also have "\<dots> \<le> card (set (filter (\<lambda>n. map_of bl n \<noteq> None) ns))"
    by (rule card_mono) (auto simp: classify_recov_dom)
  also have "\<dots> \<le> length (filter (\<lambda>n. map_of bl n \<noteq> None) ns)" by (rule card_length)
  finally show ?thesis
    using sum_length_filter_compl[of "\<lambda>n. map_of bl n = None" ns] by simp
qed

lemma sn_name_score_node: "sn_name (score_node cfg now p) = fst p"
  by (simp add: score_node_def split: prod.split)

lemma backup_names:
  "map sn_name (get_scored_nodes cfg now rc) = map fst rc"
  by (simp add: get_scored_nodes_def sn_name_score_node)

lemma set_sorted_names:
  "set (map sn_name (sort_by_availability (get_scored_nodes cfg now rc))) = fst ` set rc"
  by (metis backup_names list.set_map set_sort sort_by_availability_def)

lemmas alloc_defs = allocate_nodes_def Let_def case_prod_unfold

lemma alloc_healthy:
  "healthy_nodes (allocate_nodes m now cs k) = filter (\<lambda>n. map_of (bm_nodes m) n = None) cs"
  by (simp add: alloc_defs classify_healthy)

lemma alloc_fatal:
  "set (rejected_nodes (allocate_nodes m now cs k)) =
   {n \<in> set cs. \<exists>nd. map_of (bm_nodes m) n = Some nd \<and> nr_fatal nd}"
  by (simp add: alloc_defs classify_fatal)

lemma alloc_backup_subset:
  "set (backup_nodes (allocate_nodes m now cs k)) \<subseteq>
   {n \<in> set cs. \<exists>nd. map_of (bm_nodes m) n = Some nd \<and> \<not> nr_fatal nd}"
proof -
  let ?rc = "fst (snd (classify_nodes (bm_nodes m) cs ([], [], [])))"
  have "set (backup_nodes (allocate_nodes m now cs k)) \<subseteq> fst ` set ?rc"
    using set_sorted_names[of "bm_config m" now ?rc]
    by (auto simp: alloc_defs dest!: in_set_takeD)
  then show ?thesis by (simp add: classify_recov_dom)
qed

lemma alloc_backup_full:
  "set (backup_nodes (allocate_nodes m now cs (int (length cs)))) =
   {n \<in> set cs. \<exists>nd. map_of (bm_nodes m) n = Some nd \<and> \<not> nr_fatal nd}"
proof -
  obtain h rc f where c: "classify_nodes (bm_nodes m) cs ([], [], []) = (h, rc, f)"
    by (metis prod_cases3)
  let ?srt = "sort_by_availability (get_scored_nodes (bm_config m) now rc)"
  let ?k = "nat (max 0 (int (length cs) - int (length h)))"
  have "length rc \<le> length cs - length h"
    using recov_count[of "bm_nodes m" cs] classify_healthy[of "bm_nodes m" cs "[]" "[]" "[]"] c by simp
  then have le: "length rc \<le> ?k" by linarith
  have len: "length ?srt = length rc" by (simp add: sort_by_availability_def get_scored_nodes_def)
  have "set (backup_nodes (allocate_nodes m now cs (int (length cs)))) = fst ` set rc"
  proof (cases "rc = []")
    case True
    then show ?thesis by (simp add: allocate_nodes_def c Let_def)
  next
    case False
    with le have pos: "0 < max 0 (int (length cs) - int (length h))" by (cases rc) auto
    have "take ?k ?srt = ?srt" using le len by simp
    then show ?thesis using False pos set_sorted_names[of "bm_config m" now rc]
      by (simp only: allocate_nodes_def c Let_def prod.case allocation_result.select_convs simp_thms if_True)
  qed
  also have "\<dots> = {n \<in> set cs. \<exists>nd. map_of (bm_nodes m) n = Some nd \<and> \<not> nr_fatal nd}"
    using classify_recov_dom[of "bm_nodes m" cs "[]" "[]" "[]"] c by simp
  finally show ?thesis .
qed

interpretation bl: node_allocator "\<lambda>cs k. Some (allocate_nodes m now cs k)" for m now
  by unfold_locales (auto simp: alloc_healthy alloc_fatal alloc_backup_full)

lemma add_fault_last: "nr_last_fault (snd (add_fault nd r)) = Some t \<Longrightarrow> fr_time r \<le> t"
  by (auto simp: add_fault_def Let_def split: option.splits if_splits)

lemma add_fault_some: "nr_last_fault (snd (add_fault nd r)) \<noteq> None"
  by (auto simp: add_fault_def Let_def split: option.splits)

lemma judge_keeps_last [simp]: "nr_last_fault (judge_node cfg ft code now nd) = nr_last_fault nd"
  by (simp add: judge_node_def Let_def)

lemma judge_no_whitelist:
  assumes "0 < auto_whitelist_hours cfg" "\<forall>t. nr_last_fault nd = Some t \<longrightarrow> now \<le> t"
  shows "nr_fatal (judge_node cfg ft code now nd) \<longleftrightarrow>
     nr_fatal nd \<or> determine_severity code = SevFatal \<or> cfg_severity cfg ft = SevFatal
     \<or> should_auto_ban cfg nd"
proof -
  have w: "\<not> should_auto_whitelist cfg nd' now" if "nr_last_fault nd' = nr_last_fault nd" for nd'
  proof -
    { fix t assume "nr_last_fault nd = Some t"
      with assms(2) have "(now - t) / 3600 \<le> 0" by simp
      with assms(1) have "\<not> auto_whitelist_hours cfg \<le> (now - t) / 3600" by linarith }
    then show ?thesis using that by (auto simp: should_auto_whitelist_def split: option.split)
  qed
  have b: "should_auto_ban cfg (nd\<lparr>nr_fatal := x\<rparr>) = should_auto_ban cfg nd"
    "should_auto_ban cfg (nd\<lparr>nr_soft_banned := x\<rparr>) = should_auto_ban cfg nd"
    "should_auto_ban cfg (nd\<lparr>nr_fatal := x, nr_soft_banned := y\<rparr>) = should_auto_ban cfg nd" for x y
    by (simp_all add: should_auto_ban_def)
  show ?thesis by (auto simp: judge_node_def Let_def w b)
qed

lemma apply_fault_fatal:
  assumes "0 < auto_whitelist_hours cfg" "fr_time r = now"
    "nr_fatal nd \<or> determine_severity (fr_error_code r) = SevFatal
       \<or> cfg_severity cfg (fr_type r) = SevFatal"
  shows "nr_fatal (apply_fault cfg r now now' nd)"
proof -
  obtain r' nd1 where a: "add_fault nd r = (r', nd1)" by (cases "add_fault nd r")
  have f: "nr_fatal nd1 = nr_fatal nd" using a by (auto simp: add_fault_def Let_def)
  have l: "\<forall>t. nr_last_fault nd1 = Some t \<longrightarrow> now \<le> t"
    using add_fault_last[of nd r] a assms(2) by auto
  show ?thesis
    using assms(3) f l assms(1)
    by (auto simp: apply_fault_def a Let_def judge_no_whitelist update_fault_score_def)
qed

definition node_ok :: "string \<times> node_record \<Rightarrow> bool" where
  "node_ok p = list_all record_ok (nr_faults (snd p))"

definition mgr_ok :: "bl_mgr \<Rightarrow> bool" where
  "mgr_ok m \<longleftrightarrow> cfg_ok (bm_config m) \<and> distinct (map fst (bm_nodes m)) \<and> list_all node_ok (bm_nodes m)"

lemma add_fault_uptime:
  "fr_uptime_hours r = None \<Longrightarrow> fr_uptime_hours (fst (add_fault nd r)) = Some h \<Longrightarrow> 0 \<le> h"
  by (auto simp: add_fault_def Let_def split: option.splits if_splits)

lemma judge_keeps_faults [simp]: "nr_faults (judge_node cfg ft code now nd) = nr_faults nd"
  by (simp add: judge_node_def Let_def)

lemma apply_fault_ok:
  assumes "cfg_ok cfg" "list_all record_ok (nr_faults nd)" "fr_uptime_hours r = None"
  shows "list_all record_ok (nr_faults (apply_fault cfg r now now' nd))"
proof -
  obtain r' nd1 where a: "add_fault nd r = (r', nd1)" by (cases "add_fault nd r")
  have h: "\<And>h. fr_uptime_hours r' = Some h \<Longrightarrow> 0 \<le> h"
    using add_fault_uptime[OF assms(3), of nd] a by simp
  have "record_ok (r'\<lparr> fr_uptime_penalty :=
      compute_uptime_penalty cfg (fr_base_score r') (fr_uptime_hours r') \<rparr>)"
    using uptime_penalty_bounds(1)[of cfg "fr_uptime_hours r'"] h assms(1)
    by (auto simp: record_ok_def cfg_ok_def)
  then show ?thesis using assms(2)
    by (simp add: apply_fault_def a Let_def update_fault_score_def)
qed

lemma list_all_update: "list_all P al \<Longrightarrow> P (k, v) \<Longrightarrow> list_all P (AList.update k v al)"
  using set_update_subset[of k v al] by (auto simp: list_all_iff)

lemma list_all_delete: "list_all P al \<Longrightarrow> list_all P (AList.delete k al)"
  by (induction al) auto

lemma list_all_map_of: "list_all P al \<Longrightarrow> map_of al k = Some v \<Longrightarrow> P (k, v)"
  using map_of_SomeD[of al k v] by (auto simp: list_all_iff)

lemma report_fault_cases:
  obtains ev rk where "report_fault m n ft desc code hcu step now now' = (False, m\<lparr>bm_rack := rk\<rparr>)"
      "ft = NETWORK" "record_network_fault (bm_config m) (bm_rack m) n now = (Some ev, rk)"
  | r rk where "report_fault m n ft desc code hcu step now now' =
        (True, m\<lparr>bm_rack := rk, bm_nodes := AList.update n (apply_fault (bm_config m) r now now'
            (case map_of (bm_nodes m) n of Some x \<Rightarrow> x | None \<Rightarrow> new_node n)) (bm_nodes m),
            bm_dirty := True\<rparr>)"
      "fr_time r = now" "fr_type r = ft" "fr_error_code r = code" "fr_uptime_hours r = None"
      "ft = NETWORK \<Longrightarrow> fst (record_network_fault (bm_config m) (bm_rack m) n now) = None"
proof (cases "ft = NETWORK \<and> fst (record_network_fault (bm_config m) (bm_rack m) n now) \<noteq> None")
  case True
  then obtain ev rk where "record_network_fault (bm_config m) (bm_rack m) n now = (Some ev, rk)"
    by (metis not_None_eq prod.collapse)
  with True that(1)[of rk ev] show thesis by (simp add: report_fault_def Let_def)
next
  case False
  let ?r = "\<lparr> fr_type = ft, fr_time = now,
                     fr_description = (if desc = [] then type_description (bm_config m) ft else desc),
                     fr_error_code = code, fr_hcu_id = hcu, fr_micro_step = step,
                     fr_base_score = cfg_weight (bm_config m) ft, fr_uptime_hours = None,
                     fr_uptime_penalty = 0 \<rparr>"
  let ?rk = "if ft = NETWORK then snd (record_network_fault (bm_config m) (bm_rack m) n now)
             else bm_rack m"
  have "report_fault m n ft desc code hcu step now now' =
        (True, m\<lparr>bm_rack := ?rk, bm_nodes := AList.update n (apply_fault (bm_config m) ?r now now'
            (case map_of (bm_nodes m) n of Some x \<Rightarrow> x | None \<Rightarrow> new_node n)) (bm_nodes m),
            bm_dirty := True\<rparr>)"
    using False
    by (cases "record_network_fault (bm_config m) (bm_rack m) n now")
       (auto simp: report_fault_def Let_def)
  then show thesis using False by (intro that(2)) auto
qed

lemma report_fault_ok:
  assumes "mgr_ok m"
  shows "mgr_ok (snd (report_fault m n ft desc code hcu step now now'))"
proof (cases rule: report_fault_cases[of m n ft desc code hcu step now now'])
  case 1
  then show ?thesis using assms by (simp add: mgr_ok_def)
next
  case (2 r rk)
  let ?nd = "case map_of (bm_nodes m) n of Some x \<Rightarrow> x | None \<Rightarrow> new_node n"
  have "list_all record_ok (nr_faults ?nd)"
    using list_all_map_of[of node_ok "bm_nodes m" n] assms
    by (auto simp: mgr_ok_def node_ok_def new_node_def split: option.split)
  then have "node_ok (n, apply_fault (bm_config m) r now now' ?nd)"
    using apply_fault_ok[OF _ _ 2(5), of "bm_config m" ?nd now now'] assms
    by (simp add: node_ok_def mgr_ok_def)
  then show ?thesis using 2(1) assms
    by (simp add: mgr_ok_def list_all_update AList.distinct_update)
qed

lemma report_healthy_ok: "mgr_ok m \<Longrightarrow> mgr_ok (report_healthy m n now)"
  using list_all_map_of[of node_ok "bm_nodes m" n]
  by (auto simp: report_healthy_def mgr_ok_def node_ok_def mark_healthy_def
      intro!: list_all_update AList.distinct_update split: option.split)

lemma remove_node_ok: "mgr_ok m \<Longrightarrow> mgr_ok (snd (remove_node m n))"
  by (auto simp: remove_node_def mgr_ok_def intro!: list_all_delete AList.distinct_delete)

lemma clear_node_history_ok: "mgr_ok m \<Longrightarrow> mgr_ok (snd (clear_node_history m n))"
  by (auto simp: clear_node_history_def mgr_ok_def node_ok_def clear_record_def
      intro!: list_all_update AList.distinct_update split: option.split)

lemma do_persist_ok: "mgr_ok m \<Longrightarrow> mgr_ok (do_persist w c m)"
  by (simp add: do_persist_def mgr_ok_def split: prod.split)

lemma fault_to_dict_idem [simp]: "fault_to_dict (fault_to_dict r) = fault_to_dict r"
  by (cases "fr_uptime_hours r") (simp_all add: fault_to_dict_def)

lemma node_to_dict_idem [simp]: "node_to_dict (node_to_dict nd) = node_to_dict nd"
  by (simp add: node_to_dict_def)

definition image_of :: "(string \<times> node_record) list \<Rightarrow> (string \<times> node_record) list" where
  "image_of ns = map (\<lambda>(n, nd). (n, node_to_dict nd)) ns"

lemma load_file_Stored [simp]: "load_file (Stored ns) = Some ns"
  by (simp add: load_file_def node_from_dict_def)

lemma alloc_backup_length:
  "length (backup_nodes (allocate_nodes m now cs k)) =
   min (nat (k - int (length (healthy_nodes (allocate_nodes m now cs k)))))
       (card {n \<in> set cs. \<exists>nd. map_of (bm_nodes m) n = Some nd \<and> \<not> nr_fatal nd})"
proof -
  obtain h rc f where c: "classify_nodes (bm_nodes m) cs ([], [], []) = (h, rc, f)"
    by (metis prod_cases3)
  have "length rc = card (fst ` set rc)"
    using classify_recov_distinct[of "[]" "bm_nodes m" cs "[]" "[]"] c
    by (metis distinct_card length_map list.set_map list.simps(8) distinct.simps(1) fst_conv snd_conv)
  then have len: "card {n \<in> set cs. \<exists>nd. map_of (bm_nodes m) n = Some nd \<and> \<not> nr_fatal nd} = length rc"
    using classify_recov_dom[of "bm_nodes m" cs "[]" "[]" "[]"] c by simp
  show ?thesis unfolding len
    by (cases "k - int (length h) \<le> 0"; cases "rc = []")
       (simp_all add: allocate_nodes_def c Let_def sort_by_availability_def get_scored_nodes_def min.commute)
qed

lemma alloc_backup_best:
  assumes "n \<in> set (backup_nodes (allocate_nodes m now cs k))"
    and "n' \<in> set cs" "n' \<notin> set (backup_nodes (allocate_nodes m now cs k))"
    and "map_of (bm_nodes m) n = Some nd" "map_of (bm_nodes m) n' = Some nd'" "\<not> nr_fatal nd'"
  shows "avail_key (score_node (bm_config m) now (n, nd))
     \<le> avail_key (score_node (bm_config m) now (n', nd'))"
proof -
  obtain h rc f where c: "classify_nodes (bm_nodes m) cs ([], [], []) = (h, rc, f)"
    by (metis prod_cases3)
  let ?sc = "get_scored_nodes (bm_config m) now rc"
  let ?k = "nat (max 0 (k - int (length h)))"
  have bk: "backup_nodes (allocate_nodes m now cs k) = map sn_name (take ?k (sort_key avail_key ?sc))"
    by (auto simp: allocate_nodes_def c Let_def sort_by_availability_def get_scored_nodes_def)
  have val: "list_all (\<lambda>p. map_of (bm_nodes m) (fst p) = Some (snd p)) rc"
    using classify_recov_all[of "bm_nodes m" "\<lambda>p. map_of (bm_nodes m) (fst p) = Some (snd p)" "[]" cs "[]" "[]"] c
    by simp
  have sc: "s = score_node (bm_config m) now (sn_name s, the (map_of (bm_nodes m) (sn_name s)))"
    if "s \<in> set ?sc" for s
    using that val by (auto simp: get_scored_nodes_def list_all_iff sn_name_score_node)
  obtain s where s: "s \<in> set (take ?k (sort_key avail_key ?sc))" "sn_name s = n"
    using assms(1) bk by auto
  have "n' \<in> fst ` set rc"
    using classify_recov_dom[of "bm_nodes m" cs "[]" "[]" "[]"] c assms by simp
  then obtain s' where s': "s' \<in> set ?sc" "sn_name s' = n'"
    by (force simp: get_scored_nodes_def sn_name_score_node)
  then have "s' \<in> set (take ?k (sort_key avail_key ?sc)) \<union> set (drop ?k (sort_key avail_key ?sc))"
    by (metis append_take_drop_id set_append set_sort)
  then have "s' \<in> set (drop ?k (sort_key avail_key ?sc))" using assms(3) bk s' by auto
  with s have "avail_key s \<le> avail_key s'" by (blast intro: take_drop_sort_key)
  moreover have "s \<in> set ?sc" using s by (metis in_set_takeD set_sort)
  ultimately show ?thesis using sc[of s] sc[of s'] s s' assms(4,5) by simp
qed

lemma image_of_idem [simp]: "image_of (image_of ns) = image_of ns"
  by (simp add: image_of_def case_prod_unfold)

lemma save_eq: "store_save True True st ns =
   (True, \<lparr> st_main = Stored (image_of ns), st_backup = Stored (image_of ns) \<rparr>)"
  by (simp add: store_save_def image_of_def Let_def)

section \<open>Properties\<close>

text \<open>A manager with one node that is already fatal, for the witnesses.\<close>

definition sample_mgr :: bl_mgr where
  "sample_mgr = \<lparr> bm_config = default_config,
     bm_nodes = [(''n1'', (new_node ''n1'')\<lparr> nr_fatal := True \<rparr>), (''n2'', new_node ''n2'')],
     bm_rack = \<lparr> rd_timeline = [], rd_racks = [], rd_alerts = [] \<rparr>,
     bm_dirty = False, bm_store = \<lparr> st_main = Absent, st_backup = Absent \<rparr> \<rparr>"

text \<open>
  C13: fatal bans are permanent.  \<open>report_fault\<close> is the only method that runs the automatic
  whitelisting test, and it runs it right after it has stored a fault with the current time,
  so with a positive whitelisting period no report ever lifts a ban, of the reported node or of
  another one.
\<close>

theorem report_fault_never_lifts_a_fatal_ban:
  assumes "0 < auto_whitelist_hours (bm_config m)"
    and "is_blacklisted m k = (True, True)"
  shows "is_blacklisted (snd (report_fault m n ft desc code hcu step now now')) k = (True, True)"
proof (cases rule: report_fault_cases[of m n ft desc code hcu step now now'])
  case 1
  then show ?thesis using assms(2) by (simp add: is_blacklisted_def)
next
  case (2 r rk)
  obtain nd where nd: "map_of (bm_nodes m) k = Some nd" "nr_fatal nd"
    using assms(2) by (auto simp: is_blacklisted_def split: option.splits)
  then show ?thesis
    using 2(1) apply_fault_fatal[OF assms(1) 2(2), of nd now']
    by (auto simp: is_blacklisted_def AList.update_conv')
qed

lemma report_fault_never_lifts_a_fatal_ban_witness:
  "is_blacklisted (snd (report_fault sample_mgr ''n1'' NETWORK [] None None None 0 1)) ''n1''
     = (True, True)"
  by (rule report_fault_never_lifts_a_fatal_ban)
    (simp_all add: sample_mgr_def default_config_def is_blacklisted_def)

text \<open>
  C18: one HCU fault bans a node for good under the default severities: the report succeeds, the
  node is fatal, and no later allocation offers it, as healthy or as backup.
\<close>

theorem hcu_fault_excludes_node:
  assumes "0 < auto_whitelist_hours (bm_config m)"
    and "fault_severities (bm_config m) HCU = None"
  shows "\<exists>m'. report_fault m n HCU desc code hcu step now now' = (True, m') \<and>
     is_blacklisted m' n = (True, True) \<and>
     n \<notin> set (healthy_nodes (allocate_nodes m' t cs k)) \<and>
     n \<notin> set (backup_nodes (allocate_nodes m' t cs k))"
proof (cases rule: report_fault_cases[of m n HCU desc code hcu step now now'])
  case (2 r rk)
  let ?m' = "snd (report_fault m n HCU desc code hcu step now now')"
  have sev: "cfg_severity (bm_config m) (fr_type r) = SevFatal"
    using assms(2) 2(3) by (simp add: cfg_severity_def)
  obtain x where x: "map_of (bm_nodes ?m') n = Some x" "nr_fatal x"
    using 2(1) apply_fault_fatal[OF assms(1) 2(2)] sev by (auto simp: AList.update_conv')
  moreover have "report_fault m n HCU desc code hcu step now now' = (True, ?m')" using 2(1) by simp
  moreover have "n \<notin> set (backup_nodes (allocate_nodes ?m' t cs k))"
    using x alloc_backup_subset[of ?m' t cs k] by auto
  ultimately show ?thesis by (intro exI[of _ ?m']) (simp add: is_blacklisted_def alloc_healthy)
qed simp

lemma hcu_fault_excludes_node_witness:
  "\<exists>m'. report_fault sample_mgr ''n2'' HCU [] None (Some 3) None 10 10 = (True, m') \<and>
     is_blacklisted m' ''n2'' = (True, True) \<and>
     ''n2'' \<notin> set (healthy_nodes (allocate_nodes m' 20 [''n2'', ''n3''] 2)) \<and>
     ''n2'' \<notin> set (backup_nodes (allocate_nodes m' 20 [''n2'', ''n3''] 2))"
  by (rule hcu_fault_excludes_node) (simp_all add: sample_mgr_def default_config_def)

text \<open>
  C15: rack-level faults do not count against nodes.  A report is refused exactly when it is a
  network fault and the nodes that reported one within the window, this one included, reach the
  threshold; a refused report leaves every node record as it was and restarts the window.
\<close>

theorem rack_fault_suppresses_node_record:
  "(fst (report_fault m n ft desc code hcu step now now') = False \<longleftrightarrow>
     ft = NETWORK \<and>
     rack_fault_threshold (bm_config m) \<le>
       int (card {x. \<exists>t. (t, x) \<in> set (rd_timeline (bm_rack m) @ [(now, n)]) \<and>
                         now - rack_fault_window_seconds (bm_config m) < t})) \<and>
   (fst (report_fault m n ft desc code hcu step now now') \<or>
     bm_nodes (snd (report_fault m n ft desc code hcu step now now')) = bm_nodes m \<and>
     rd_timeline (bm_rack (snd (report_fault m n ft desc code hcu step now now'))) = [])"
proof -
  let ?cfg = "bm_config m"
  let ?tl = "filter (\<lambda>p. now - rack_fault_window_seconds ?cfg < fst p)
     (rd_timeline (bm_rack m) @ [(now, n)])"
  have set: "snd ` set ?tl = {x. \<exists>t. (t, x) \<in> set (rd_timeline (bm_rack m) @ [(now, n)]) \<and>
                         now - rack_fault_window_seconds ?cfg < t}" (is "_ = ?S")
    by force
  have len: "length (remdups (map snd ?tl)) = card ?S"
    unfolding set[symmetric] by (metis length_remdups_card_conv list.set_map)
  have rec: "fst (record_network_fault ?cfg (bm_rack m) n now) = None \<longleftrightarrow>
      int (card ?S) < rack_fault_threshold ?cfg"
    unfolding len[symmetric] by (simp add: record_network_fault_def rack_detect_def rack_cleanup_def Let_def)
  have clr: "record_network_fault ?cfg (bm_rack m) n now = (Some ev, rk) \<Longrightarrow> rd_timeline rk = []" for ev rk
    by (auto simp: record_network_fault_def rack_detect_def Let_def split: if_splits)
  have 1: "fst (report_fault m n ft desc code hcu step now now') = False \<longleftrightarrow>
     ft = NETWORK \<and> rack_fault_threshold ?cfg \<le> int (card ?S)"
    using rec by (cases rule: report_fault_cases[of m n ft desc code hcu step now now']) auto
  have 2: "fst (report_fault m n ft desc code hcu step now now') \<or>
     bm_nodes (snd (report_fault m n ft desc code hcu step now now')) = bm_nodes m \<and>
     rd_timeline (bm_rack (snd (report_fault m n ft desc code hcu step now now'))) = []"
    using clr by (cases rule: report_fault_cases[of m n ft desc code hcu step now now']) auto
  from 1 2 show ?thesis by blast
qed

text \<open>
  The specification of the bans: what a manager knows of a node is the list of the faults it
  accepted for it, by type and error code, since the node's record was created or last cleared; no
  list for a node without a record.  A fault that was refused (its report returned False) is not in
  it.  The ban is a function of that list.
\<close>

datatype bl_op =
    ReportFault string fault_type string "string option" "int option" "int option" real real
  | ReportHealthy string real
  | RemoveNode string
  | ClearHistory string
  | Persist bool bool

fun bl_do :: "bl_op \<Rightarrow> bl_mgr \<Rightarrow> bool \<times> bl_mgr" where
  "bl_do (ReportFault n ft desc code hcu step now now') m = report_fault m n ft desc code hcu step now now'"
| "bl_do (ReportHealthy n now) m = (True, report_healthy m n now)"
| "bl_do (RemoveNode n) m = remove_node m n"
| "bl_do (ClearHistory n) m = clear_node_history m n"
| "bl_do (Persist w c) m = (True, do_persist w c m)"

text \<open>A run gives the manager after it and what each operation returned.\<close>

fun bl_run :: "bl_op list \<Rightarrow> bl_mgr \<Rightarrow> (bl_op \<times> bool) list \<times> bl_mgr" where
  "bl_run [] m = ([], m)"
| "bl_run (x # xs) m =
     (case bl_do x m of (ok, m1) \<Rightarrow> case bl_run xs m1 of (outs, m2) \<Rightarrow> ((x, ok) # outs, m2))"

type_synonym fault_history = "string \<rightharpoonup> (fault_type \<times> string option) list"

fun note_op :: "bl_op \<times> bool \<Rightarrow> fault_history \<Rightarrow> fault_history" where
  "note_op (ReportFault n ft desc code hcu step now now', ok) k =
     (if ok then k(n \<mapsto> (case k n of None \<Rightarrow> [] | Some fs \<Rightarrow> fs) @ [(ft, code)]) else k)"
| "note_op (RemoveNode n, ok) k = k(n := None)"
| "note_op (ClearHistory n, ok) k = (if k n = None then k else k(n \<mapsto> []))"
| "note_op (ReportHealthy n now, ok) k = k"
| "note_op (Persist w c, ok) k = k"

definition fatal_fault :: "bl_config \<Rightarrow> fault_type \<times> string option \<Rightarrow> bool" where
  "fatal_fault cfg f \<longleftrightarrow> determine_severity (snd f) = SevFatal \<or> cfg_severity cfg (fst f) = SevFatal"

definition too_many :: "bl_config \<Rightarrow> (fault_type \<times> string option) list \<Rightarrow> bool" where
  "too_many cfg fs \<longleftrightarrow>
     (\<exists>ft. ft \<in> fst ` set fs \<and> auto_ban_threshold cfg ft \<le> int (length (filter (\<lambda>f. fst f = ft) fs)))"

definition deserves_ban :: "bl_config \<Rightarrow> (fault_type \<times> string option) list \<Rightarrow> bool" where
  "deserves_ban cfg fs \<longleftrightarrow> (\<exists>f\<in>set fs. fatal_fault cfg f) \<or> too_many cfg fs"

definition faults_of :: "node_record \<Rightarrow> (fault_type \<times> string option) list" where
  "faults_of nd = map (\<lambda>r. (fr_type r, fr_error_code r)) (nr_faults nd)"

definition fits :: "bl_config \<Rightarrow> fault_history \<Rightarrow> bl_mgr \<Rightarrow> bool" where
  "fits cfg k m \<longleftrightarrow> bm_config m = cfg \<and> distinct (map fst (bm_nodes m))
     \<and> (\<forall>n. map_option faults_of (map_of (bm_nodes m) n) = k n)
     \<and> (\<forall>n nd. map_of (bm_nodes m) n = Some nd \<longrightarrow> (nr_fatal nd \<longleftrightarrow> deserves_ban cfg (faults_of nd)))"

lemma count_faults_of: "count_type ft (nr_faults nd) = length (filter (\<lambda>f. fst f = ft) (faults_of nd))"
  by (simp add: count_type_def faults_of_def filter_map comp_def)

lemma should_auto_ban_faults: "should_auto_ban cfg nd \<longleftrightarrow> too_many cfg (faults_of nd)"
proof -
  have "ft \<in> set all_fault_types" for ft by (cases ft) (simp_all add: all_fault_types_def)
  moreover have "filter (\<lambda>f. fst f = ft) fs \<noteq> [] \<longleftrightarrow> ft \<in> fst ` set fs" for ft and fs :: "(fault_type \<times> string option) list"
    by (induction fs) auto
  ultimately show ?thesis by (auto simp: should_auto_ban_def list_ex_iff count_faults_of too_many_def)
qed

lemma apply_fault_faults:
  assumes "fr_time r = now"
  shows "faults_of (apply_fault cfg r now now' nd) = faults_of nd @ [(fr_type r, fr_error_code r)]"
proof -
  obtain r' nd1 where a: "add_fault nd r = (r', nd1)" by (cases "add_fault nd r")
  then have "fr_type r' = fr_type r" "fr_error_code r' = fr_error_code r"
    by (auto simp: add_fault_def Let_def split: option.splits if_splits)
  then show ?thesis by (simp add: apply_fault_def a Let_def update_fault_score_def faults_of_def)
qed

text \<open>A fault is judged with the bans the node had before; the count can only grow.\<close>

lemma apply_fault_ban:
  assumes "0 < auto_whitelist_hours cfg" "fr_time r = now"
  shows "nr_fatal (apply_fault cfg r now now' nd) \<longleftrightarrow> nr_fatal nd \<or> determine_severity (fr_error_code r) = SevFatal
    \<or> cfg_severity cfg (fr_type r) = SevFatal \<or> should_auto_ban cfg (apply_fault cfg r now now' nd)"
proof -
  obtain r' nd1 where a: "add_fault nd r = (r', nd1)" by (cases "add_fault nd r")
  have f: "nr_fatal nd1 = nr_fatal nd" using a by (auto simp: add_fault_def Let_def)
  have l: "\<forall>t. nr_last_fault nd1 = Some t \<longrightarrow> now \<le> t"
    using add_fault_last[of nd r] a assms(2) by auto
  have b: "should_auto_ban cfg (judge_node cfg ft code now x) = should_auto_ban cfg x" for ft code x
    by (simp add: should_auto_ban_def)
  show ?thesis
    using f l assms(1) by (simp add: apply_fault_def a Let_def judge_no_whitelist update_fault_score_def b)
qed

lemma too_many_snoc:
  assumes "too_many cfg fs"
  shows "too_many cfg (fs @ [f])"
proof -
  obtain ft where "ft \<in> fst ` set fs" "auto_ban_threshold cfg ft \<le> int (length (filter (\<lambda>f. fst f = ft) fs))"
    using assms by (auto simp: too_many_def)
  then show ?thesis unfolding too_many_def by (intro exI [of _ ft]) auto
qed

lemma apply_fault_deserved:
  assumes "0 < auto_whitelist_hours cfg" "fr_time r = now" "nr_fatal nd \<longleftrightarrow> deserves_ban cfg (faults_of nd)"
  shows "nr_fatal (apply_fault cfg r now now' nd) \<longleftrightarrow> deserves_ban cfg (faults_of (apply_fault cfg r now now' nd))"
proof -
  note fs = apply_fault_faults [OF assms(2), of cfg now' nd]
  have "fatal_fault cfg (fr_type r, fr_error_code r) \<longleftrightarrow>
      determine_severity (fr_error_code r) = SevFatal \<or> cfg_severity cfg (fr_type r) = SevFatal"
    by (simp add: fatal_fault_def)
  then show ?thesis
    using too_many_snoc [of cfg "faults_of nd" "(fr_type r, fr_error_code r)"]
    unfolding apply_fault_ban [OF assms(1,2)] assms(3) should_auto_ban_faults fs deserves_ban_def by auto
qed

lemma fits_lookup: "fits cfg k m \<Longrightarrow> k n = map_option faults_of (map_of (bm_nodes m) n)"
  by (simp add: fits_def)

lemma fits_fatal: "fits cfg k m \<Longrightarrow> map_of (bm_nodes m) n = Some nd \<Longrightarrow> nr_fatal nd \<longleftrightarrow> deserves_ban cfg (faults_of nd)"
  by (simp add: fits_def)

lemma fits_update:
  assumes "fits cfg k m" "nr_fatal nd \<longleftrightarrow> deserves_ban cfg (faults_of nd)" "bm_config m' = bm_config m"
    "bm_nodes m' = AList.update n nd (bm_nodes m)"
  shows "fits cfg (k(n \<mapsto> faults_of nd)) m'"
  unfolding fits_def assms(3,4) AList.update_conv'
  using assms(1,2) unfolding fits_def by (auto simp: AList.distinct_update simp del: map_of_eq_Some_iff split: if_splits)

lemma no_ban [simp]: "\<not> deserves_ban cfg []"
  by (simp add: deserves_ban_def too_many_def)

lemma fits_step:
  assumes "0 < auto_whitelist_hours cfg" "fits cfg k m" "bl_do x m = (ok, m1)"
  shows "fits cfg (note_op (x, ok) k) m1"
proof (cases x)
  case (ReportFault n ft desc code hcu step now now')
  let ?nd = "case map_of (bm_nodes m) n of Some y \<Rightarrow> y | None \<Rightarrow> new_node n"
  have k: "faults_of ?nd = (case k n of None \<Rightarrow> [] | Some fs \<Rightarrow> fs)" "nr_fatal ?nd \<longleftrightarrow> deserves_ban cfg (faults_of ?nd)"
    using fits_lookup [OF assms(2), of n] fits_fatal [OF assms(2), of n]
    by (cases "map_of (bm_nodes m) n"; simp add: faults_of_def new_node_def)+
  show ?thesis
  proof (cases rule: report_fault_cases[of m n ft desc code hcu step now now'])
    case 1
    then show ?thesis using assms(2,3) ReportFault by (auto simp: fits_def)
  next
    case (2 r rk)
    have cfg: "bm_config m = cfg" using assms(2) by (simp add: fits_def)
    have "fits cfg (k(n \<mapsto> faults_of (apply_fault cfg r now now' ?nd))) m1"
      using assms(3) 2(1) ReportFault by (intro fits_update [OF assms(2) apply_fault_deserved [OF assms(1) 2(2) k(2)]]) (auto simp: cfg)
    then show ?thesis using assms(3) 2(1) ReportFault
      unfolding apply_fault_faults [OF 2(2)] 2(3,4) k(1) by auto
  qed
next
  case (ReportHealthy n now)
  have h: "faults_of (mark_healthy nd now) = faults_of nd" "nr_fatal (mark_healthy nd now) = nr_fatal nd" for nd
    by (simp_all add: mark_healthy_def faults_of_def)
  show ?thesis
  proof (cases "map_of (bm_nodes m) n")
    case None
    then show ?thesis using assms(2,3) ReportHealthy by (auto simp: report_healthy_def)
  next
    case (Some nd)
    then have "k n = Some (faults_of nd)" "nr_fatal nd = deserves_ban cfg (faults_of nd)"
      using fits_lookup [OF assms(2), of n] fits_fatal [OF assms(2)] by simp_all
    moreover have "m1 = m\<lparr> bm_nodes := AList.update n (mark_healthy nd now) (bm_nodes m), bm_dirty := True \<rparr>"
      using assms(3) ReportHealthy Some by (simp add: report_healthy_def)
    ultimately have "fits cfg (k(n \<mapsto> faults_of (mark_healthy nd now))) m1"
      by (intro fits_update [OF assms(2)]) (simp_all add: h)
    moreover have "k(n \<mapsto> faults_of (mark_healthy nd now)) = k" using \<open>k n = Some (faults_of nd)\<close> by (simp add: h fun_upd_idem)
    ultimately show ?thesis using ReportHealthy by simp
  qed
next
  case (RemoveNode n)
  then show ?thesis using assms(2,3)
    by (auto simp: remove_node_def fits_def AList.delete_conv' AList.distinct_delete simp del: map_of_eq_Some_iff split: if_splits)
next
  case (ClearHistory n)
  have c: "faults_of (clear_record nd) = []" "\<not> nr_fatal (clear_record nd)" for nd
    by (simp_all add: clear_record_def faults_of_def)
  show ?thesis
  proof (cases "map_of (bm_nodes m) n")
    case None
    then have "k n = None" using fits_lookup [OF assms(2), of n] by simp
    then show ?thesis using None assms(2,3) ClearHistory by (auto simp: clear_node_history_def)
  next
    case (Some nd)
    then have "k n \<noteq> None" using fits_lookup [OF assms(2), of n] by simp
    moreover have "m1 = m\<lparr> bm_nodes := AList.update n (clear_record nd) (bm_nodes m), bm_dirty := True \<rparr>"
      using assms(3) ClearHistory Some by (simp add: clear_node_history_def)
    then have "fits cfg (k(n \<mapsto> faults_of (clear_record nd))) m1"
      by (intro fits_update [OF assms(2)]) (simp_all add: c)
    ultimately show ?thesis using ClearHistory by (auto simp: c)
  qed
next
  case (Persist w c)
  then show ?thesis using assms(2,3) by (auto simp: do_persist_def fits_def split: prod.splits)
qed

definition empty_manager :: "bl_config \<Rightarrow> bl_store \<Rightarrow> bl_mgr" where
  "empty_manager cfg st = init_manager True True cfg (st\<lparr> st_main := Absent \<rparr>)"

lemma empty_manager_fits: "fits cfg (\<lambda>_. None) (empty_manager cfg st)"
  by (simp add: empty_manager_def init_manager_def store_load_def fits_def)

lemma fits_run:
  assumes "0 < auto_whitelist_hours cfg" "fits cfg k m" "bl_run xs m = (outs, m')"
  shows "fits cfg (foldl (\<lambda>k x. note_op x k) k outs) m'"
  using assms(2,3)
proof (induction xs arbitrary: k m outs m')
  case (Cons x xs)
  obtain ok m1 where x: "bl_do x m = (ok, m1)" by fastforce
  then obtain rest where r: "bl_run xs m1 = (rest, m')" "outs = (x, ok) # rest" using Cons.prems(2) by (auto split: prod.splits)
  show ?case using Cons.IH [OF fits_step [OF assms(1) Cons.prems(1) x] r(1)] r(2) by simp
qed simp

text \<open>
  C14: A node is banned for good exactly when its faults deserve it.  After any sequence of reports,
  healthy marks, removals, clearings and saves that starts without a stored blacklist, a node has a
  record exactly when a fault of it was accepted after its last removal, the record lists exactly the
  faults accepted since it was created or last cleared, in order, and the node is reported as
  permanently banned exactly when one of these has a fatal code or a fatal type, or when the faults
  of one type reach the threshold of that type.
\<close>

theorem permanent_ban_is_deserved:
  assumes "0 < auto_whitelist_hours cfg" "bl_run xs (empty_manager cfg st) = (outs, m)"
  shows "let k = foldl (\<lambda>k x. note_op x k) (\<lambda>_. None) outs in
     (\<forall>n. map_option faults_of (map_of (bm_nodes m) n) = k n)
     \<and> (\<forall>n. snd (is_blacklisted m n) \<longleftrightarrow> (case k n of None \<Rightarrow> False | Some fs \<Rightarrow> deserves_ban cfg fs))"
proof -
  define k where "k = foldl (\<lambda>k x. note_op x k) (\<lambda>_. None) outs"
  have f: "fits cfg k m" unfolding k_def by (rule fits_run [OF assms(1) empty_manager_fits assms(2)])
  have "snd (is_blacklisted m n) \<longleftrightarrow> (case k n of None \<Rightarrow> False | Some fs \<Rightarrow> deserves_ban cfg fs)" for n
  proof (cases "map_of (bm_nodes m) n")
    case None
    then have "k n = None" using fits_lookup [OF f, of n] by simp
    then show ?thesis using None by (simp add: is_blacklisted_def)
  next
    case (Some nd)
    then have "k n = Some (faults_of nd)" "nr_fatal nd \<longleftrightarrow> deserves_ban cfg (faults_of nd)" using fits_lookup [OF f, of n] fits_fatal [OF f] by simp_all
    then show ?thesis using Some by (simp add: is_blacklisted_def)
  qed
  then show ?thesis using f unfolding Let_def k_def [symmetric] by (simp add: fits_def)
qed

text \<open>Two GPU resets on one node, of which the first is cleared away by hand, and a network fault of another.\<close>

lemma permanent_ban_is_deserved_witness:
  "\<exists>outs m. bl_run [ReportFault ''n1'' HCU [] None None None 5 5, ClearHistory ''n1'',
        ReportFault ''n2'' NETWORK [] None None None 6 6, ReportFault ''n1'' HCU [] None None None 7 7]
      (empty_manager default_config \<lparr>st_main = Absent, st_backup = Absent\<rparr>) = (outs, m)
    \<and> snd (is_blacklisted m ''n1'') \<and> map_option faults_of (map_of (bm_nodes m) ''n1'') = Some [(HCU, None)]
    \<and> \<not> snd (is_blacklisted m ''n2'')"
proof -
  let ?ops = "[ReportFault ''n1'' HCU [] None None None 5 5, ClearHistory ''n1'',
        ReportFault ''n2'' NETWORK [] None None None 6 6, ReportFault ''n1'' HCU [] None None None 7 7]"
  have w: "0 < auto_whitelist_hours default_config" by (simp add: default_config_def)
  have ok: "fst (report_fault x n HCU desc code hcu step now now')" for x n desc code hcu step now now'
    by (simp add: report_fault_def Let_def)
  obtain a b c d m where run: "bl_run ?ops (empty_manager default_config \<lparr>st_main = Absent, st_backup = Absent\<rparr>)
      = ([(?ops ! 0, a), (?ops ! 1, b), (?ops ! 2, c), (?ops ! 3, d)], m)" "a" "d"
    using ok by (simp add: case_prod_unfold)
  define k where "k = foldl (\<lambda>k x. note_op x k) (\<lambda>_. None) [(?ops ! 0, a), (?ops ! 1, b), (?ops ! 2, c), (?ops ! 3, d)]"
  have k: "k ''n1'' = Some [(HCU, None)]" "k ''n2'' \<in> {None, Some [(NETWORK, None)]}"
    using run(2,3) by (auto simp: k_def)
  have "deserves_ban default_config [(HCU, None)]"
    by (simp add: deserves_ban_def fatal_fault_def cfg_severity_def default_config_def)
  moreover have "\<not> deserves_ban default_config [(NETWORK, None)]"
    by (simp add: deserves_ban_def fatal_fault_def too_many_def cfg_severity_def default_config_def determine_severity_def
        auto_ban_threshold_def)
  moreover have "map_option faults_of (map_of (bm_nodes m) ''n1'') = k ''n1''"
    "snd (is_blacklisted m n) \<longleftrightarrow> (case k n of None \<Rightarrow> False | Some fs \<Rightarrow> deserves_ban default_config fs)" for n
    using permanent_ban_is_deserved [OF w run(1), folded k_def] by (simp_all add: Let_def)
  ultimately have "snd (is_blacklisted m ''n1'') \<and> map_option faults_of (map_of (bm_nodes m) ''n1'') = Some [(HCU, None)]
      \<and> \<not> snd (is_blacklisted m ''n2'')"
    using k by auto
  then show ?thesis using run(1) by (intro exI conjI) auto
qed

text \<open>
  C17: the fault score of a node is never negative and never grows while no new fault arrives.
\<close>

theorem fault_score_decays:
  assumes "mgr_ok m" and "map_of (bm_nodes m) n = Some nd" and "t \<le> t'"
  shows "0 \<le> compute_score (bm_config m) nd t' \<and>
     compute_score (bm_config m) nd t' \<le> compute_score (bm_config m) nd t"
  using list_all_map_of[of node_ok "bm_nodes m" n nd] assms
  by (auto simp: mgr_ok_def node_ok_def list_all_iff intro!: compute_score_nonneg compute_score_antimono)

lemma fault_score_decays_witness:
  "0 \<le> compute_score default_config (new_node ''n2'') 7 \<and>
   compute_score default_config (new_node ''n2'') 7 \<le> compute_score default_config (new_node ''n2'') 3"
proof -
  have "mgr_ok sample_mgr"
    by (simp add: mgr_ok_def sample_mgr_def default_config_def cfg_ok_def node_ok_def new_node_def)
  from fault_score_decays[OF this, of "''n2''" "new_node ''n2''" 3 7]
  show ?thesis by (simp add: sample_mgr_def)
qed

text \<open>
  C18: the decay constant means what its documentation says: a fault's share of the score halves
  every half-life (half-lives below six minutes are taken as six minutes).
\<close>

theorem contribution_halves_every_half_life:
  assumes "fr_time r \<le> t"
  shows "fault_contribution cfg (t + 3600 * max (decay_half_life_hours cfg) (1/10)) r
     = fault_contribution cfg t r / 2"
proof -
  let ?h = "max (decay_half_life_hours cfg) (1/10)"
  let ?d = "(t - fr_time r) / 3600"
  have pos: "0 < ?h" by simp
  have d: "max ((t + 3600 * ?h - fr_time r) / 3600) 0 = ?d + ?h" "max ?d 0 = ?d"
    using assms pos by (auto simp: field_simps max_def)
  have "decay_lambda cfg * ?h = ln 2" using pos by (simp add: decay_lambda_def)
  then have "- decay_lambda cfg * (?d + ?h) = - decay_lambda cfg * ?d + - ln 2"
    by (simp add: ring_distribs)
  then have "exp (- decay_lambda cfg * (?d + ?h)) = exp (- decay_lambda cfg * ?d) * exp (- ln 2)"
    by (simp only: exp_add)
  then have "exp (- decay_lambda cfg * (?d + ?h)) = exp (- decay_lambda cfg * ?d) / 2"
    by (simp add: exp_minus)
  then show ?thesis by (simp add: fault_contribution_def Let_def d)
qed

lemma contribution_halves_every_half_life_witness:
  "fault_contribution default_config (0 + 3600 * max (decay_half_life_hours default_config) (1/10))
     \<lparr> fr_type = HCU, fr_time = 0, fr_description = [], fr_error_code = None, fr_hcu_id = None,
       fr_micro_step = None, fr_base_score = 100, fr_uptime_hours = None, fr_uptime_penalty = 0 \<rparr>
   = fault_contribution default_config 0
     \<lparr> fr_type = HCU, fr_time = 0, fr_description = [], fr_error_code = None, fr_hcu_id = None,
       fr_micro_step = None, fr_base_score = 100, fr_uptime_hours = None, fr_uptime_penalty = 0 \<rparr> / 2"
  by (rule contribution_halves_every_half_life) simp

text \<open>
  C6: node allocation.  The healthy nodes are the candidates without a record, in order; as many
  non-fatal recorded candidates are added as the request still needs and there are; no fatal node
  is offered; a recorded candidate left out is never preferable to one that was added (key:
  score, then weight of the last fault, then number of faults); and the reported shortage is what
  is still missing.
\<close>

theorem allocate_nodes_correct:
  assumes "res = allocate_nodes m now cs k"
    and "recov = {n \<in> set cs. \<exists>nd. map_of (bm_nodes m) n = Some nd \<and> \<not> nr_fatal nd}"
  shows "healthy_nodes res = filter (\<lambda>n. map_of (bm_nodes m) n = None) cs \<and>
     set (backup_nodes res) \<subseteq> recov \<and>
     length (backup_nodes res) =
       min (nat (k - int (length (healthy_nodes res)))) (card recov) \<and>
     set (rejected_nodes res) =
       {n \<in> set cs. \<exists>nd. map_of (bm_nodes m) n = Some nd \<and> nr_fatal nd} \<and>
     (\<forall>n\<in>set (backup_nodes res). \<forall>n'\<in>recov - set (backup_nodes res).
        avail_key (score_node (bm_config m) now (n, the (map_of (bm_nodes m) n)))
          \<le> avail_key (score_node (bm_config m) now (n', the (map_of (bm_nodes m) n')))) \<and>
     alloc_shortage res =
       max 0 (k - int (length (healthy_nodes res)) - int (length (backup_nodes res)))"
proof -
  have sub: "set (backup_nodes res) \<subseteq> recov"
    using alloc_backup_subset[of m now cs k] by (simp add: assms)
  have best: "avail_key (score_node (bm_config m) now (n, the (map_of (bm_nodes m) n)))
      \<le> avail_key (score_node (bm_config m) now (n', the (map_of (bm_nodes m) n')))"
    if "n \<in> set (backup_nodes res)" "n' \<in> recov - set (backup_nodes res)" for n n'
    using that sub alloc_backup_best[of n m now cs k n'] assms by fastforce
  have "alloc_shortage res =
       max 0 (k - int (length (healthy_nodes res)) - int (length (backup_nodes res)))"
    by (simp add: assms(1) alloc_defs)
  with sub best show ?thesis
    using alloc_healthy[of m now cs k] alloc_fatal[of m now cs k] alloc_backup_length[of m now cs k]
    by (simp add: assms)
qed

lemma allocate_nodes_correct_witness:
  "healthy_nodes (allocate_nodes sample_mgr 0 [''n1'', ''n2'', ''n3''] 2) = [''n3''] \<and>
   length (backup_nodes (allocate_nodes sample_mgr 0 [''n1'', ''n2'', ''n3''] 2)) = 1"
proof -
  have r: "{n \<in> set [''n1'', ''n2'', ''n3'']. \<exists>nd. map_of (bm_nodes sample_mgr) n = Some nd
      \<and> \<not> nr_fatal nd} = {''n2''}"
    by (auto simp: sample_mgr_def new_node_def)
  show ?thesis
    using allocate_nodes_correct[OF refl refl, of sample_mgr 0 "[''n1'', ''n2'', ''n3'']" 2]
    unfolding r by (simp add: sample_mgr_def)
qed

text \<open>
  C19: save and load.  After a save the main file loads back as the records that were saved (with
  scores rounded to two decimals), the backup file holds the new version too whatever it held
  before, and a main file damaged afterwards is recovered from it; saving what was loaded changes
  nothing.
\<close>

theorem save_load_roundtrip:
  "store_load w c (snd (store_save True True st ns)) =
     (image_of ns, snd (store_save True True st ns)) \<and>
   st_backup (snd (store_save True True st ns)) = st_main (snd (store_save True True st ns)) \<and>
   fst (store_load w c ((snd (store_save True True st ns))\<lparr> st_main := Corrupt \<rparr>)) = image_of ns \<and>
   snd (store_save True True st (image_of ns)) = snd (store_save True True st ns)"
  by (simp add: save_eq store_load_def) (simp add: load_file_def node_from_dict_def)

end
