(* ===== verification/NodePool.thy ===== *)
theory NodePool
  imports Blacklist
begin

text \<open>
  The node pool (node_management/node_pool.py): the total, running, backup, abnormal and normal
  node lists, their files, the transitions between them and the blacklist-aware allocation of
  running nodes.

  A pool method that raises leaves the object as it was at that point, so methods return an
  \<open>outcome\<close>: the value or exception together with the pool.  Sets of the code that are only
  sorted afterwards are lists here.  A file of the pool holds its text; the writes of one call
  succeed or fail individually (argument \<open>w\<close>), and a failed write leaves the old text.  The
  blacklist manager is the argument \<open>alloc\<close> (locale \<open>node_allocator\<close>).
\<close>

section \<open>State\<close>

datatype pool_file = TotalF | RunningF | BackupF | AbnormalF | NormalF | SlotsF

record node_pool =
  total_nodes :: "string list"
  running_nodes :: "string list"
  backup_pool :: "string list"
  abnormal_nodes :: "string list"
  normal_nodes :: "string list"
  last_running_nodes :: "string list"
  len_running_abnormal_nodes :: nat
  pool_files :: "pool_file \<Rightarrow> string"

datatype pool_code = SUCCESS | NODE_NOT_IN_TOTAL | NODE_ALREADY_ABNORMAL | NO_VALID_NODE
  | INVALID_TARGET_POOL

section \<open>Reading and writing node lists\<close>

definition deduplicate_and_sort :: "string list \<Rightarrow> string list" where
  "deduplicate_and_sort ns = sorted_set (map py_strip (filter (\<lambda>n. py_strip n \<noteq> []) ns))"

text \<open>
  \<open>read_hostfile\<close>: the first word of every line that is neither blank nor a comment, without
  duplicates, sorted.
\<close>

definition first_word :: "string \<Rightarrow> string" where
  "first_word s = takeWhile (\<lambda>c. \<not> is_ws c) s"

definition read_hostfile :: "string \<Rightarrow> string list" where
  "read_hostfile text =
     sorted_set
       (map first_word
         (filter (\<lambda>l. l \<noteq> [] \<and> hd l \<noteq> CHR ''#'')
           (map py_strip (split_on CHR 0x0A text))))"

definition write_file ::
    "(pool_file \<Rightarrow> bool) \<Rightarrow> pool_file \<Rightarrow> string list \<Rightarrow> node_pool \<Rightarrow> node_pool" where
  "write_file w f ls p =
     (if w f then p\<lparr> pool_files := (pool_files p)(f := join_with [CHR 0x0A] ls) \<rparr> else p)"

definition persist_all_nodes :: "(pool_file \<Rightarrow> bool) \<Rightarrow> node_pool \<Rightarrow> node_pool" where
  "persist_all_nodes w p =
     write_file w NormalF (normal_nodes p)
       (write_file w AbnormalF (abnormal_nodes p)
         (write_file w BackupF (backup_pool p)
           (write_file w RunningF (running_nodes p)
             (write_file w TotalF (total_nodes p) p))))"

text \<open>Slots file; \<open>dec\<close> prints the slot count.\<close>

definition write_slots_running_nodes_file ::
    "(int \<Rightarrow> string) \<Rightarrow> (pool_file \<Rightarrow> bool) \<Rightarrow> int \<Rightarrow> node_pool \<Rightarrow> (unit, node_pool) outcome" where
  "write_slots_running_nodes_file dec w slots p =
     (if slots < 1 then raises ValueError p
      else if w SlotsF
      then returns ()
             (write_file w SlotsF (map (\<lambda>n. n @ '' slots='' @ dec slots) (running_nodes p)) p)
      else raises RuntimeError p)"

section \<open>Derived lists and the constraint check\<close>

definition set_diff :: "string list \<Rightarrow> string list \<Rightarrow> string list" where
  "set_diff xs ys = filter (\<lambda>x. x \<notin> set ys) xs"

definition set_inter :: "string list \<Rightarrow> string list \<Rightarrow> string list" where
  "set_inter xs ys = filter (\<lambda>x. x \<in> set ys) xs"

definition calculate_backup_nodes :: "node_pool \<Rightarrow> string list" where
  "calculate_backup_nodes p = deduplicate_and_sort (set_diff (normal_nodes p) (running_nodes p))"

definition calculate_normal_nodes :: "node_pool \<Rightarrow> string list" where
  "calculate_normal_nodes p = deduplicate_and_sort (set_diff (total_nodes p) (abnormal_nodes p))"

definition sync_normal_nodes :: "node_pool \<Rightarrow> node_pool" where
  "sync_normal_nodes p = p\<lparr> normal_nodes := calculate_normal_nodes p \<rparr>"

definition sync_backup_nodes :: "node_pool \<Rightarrow> node_pool" where
  "sync_backup_nodes p = p\<lparr> backup_pool := calculate_backup_nodes p \<rparr>"

definition validate_and_fix_constraints :: "node_pool \<Rightarrow> (unit, node_pool) outcome" where
  "validate_and_fix_constraints p =
     (let p' = p\<lparr> backup_pool := deduplicate_and_sort (set_inter (backup_pool p) (total_nodes p)),
                 abnormal_nodes :=
                   deduplicate_and_sort (set_inter (abnormal_nodes p) (total_nodes p)) \<rparr>
      in if set (running_nodes p) \<inter> set (abnormal_nodes p) \<noteq> {} then raises AssertionError p'
         else if set (backup_pool p) \<inter> set (abnormal_nodes p) \<noteq> {} then raises AssertionError p'
         else if set (running_nodes p) \<inter> set (backup_pool p) \<noteq> {} then raises AssertionError p'
         else if \<not> set (total_nodes p) \<subseteq>
                    set (running_nodes p') \<union> set (backup_pool p') \<union> set (abnormal_nodes p')
         then raises AssertionError p'
         else returns () p')"

section \<open>Start-up\<close>

text \<open>
  \<open>_check_and_sync_total_nodes\<close>: \<open>hostfile_nodes\<close> are the nodes of the hostfile (already
  deduplicated and sorted), \<open>succ\<close> the text of succ_additional_nodes.txt if there is one.
\<close>

definition restore_from_files :: "node_pool \<Rightarrow> node_pool" where
  "restore_from_files p = p\<lparr>
     abnormal_nodes := read_hostfile (pool_files p AbnormalF),
     running_nodes := read_hostfile (pool_files p RunningF),
     normal_nodes := read_hostfile (pool_files p NormalF),
     backup_pool := read_hostfile (pool_files p BackupF) \<rparr>"

definition start_empty :: "node_pool \<Rightarrow> node_pool" where
  "start_empty p =
     sync_backup_nodes ((sync_normal_nodes (p\<lparr> abnormal_nodes := [] \<rparr>))\<lparr> running_nodes := [] \<rparr>)"

definition check_and_sync_total_nodes :: "string option \<Rightarrow> node_pool \<Rightarrow> node_pool" where
  "check_and_sync_total_nodes succ p =
     (let file_nodes = deduplicate_and_sort (read_hostfile (pool_files p TotalF));
          p0 = p\<lparr> last_running_nodes := [] \<rparr>
      in if total_nodes p = file_nodes then restore_from_files p0
         else if file_nodes = [] then start_empty p0
         else
           let added = (case succ of Some t \<Rightarrow> read_hostfile t | None \<Rightarrow> []);
               combined = deduplicate_and_sort (total_nodes p @ added)
           in if combined = file_nodes
              then restore_from_files (p0\<lparr> total_nodes := file_nodes \<rparr>)
              else start_empty p0)"

text \<open>
  The constructor up to its exception handler, which turns any exception into the end of the
  process: None.
\<close>

definition init_pool ::
    "(pool_file \<Rightarrow> bool) \<Rightarrow> string \<Rightarrow> string option \<Rightarrow> (pool_file \<Rightarrow> string) \<Rightarrow> node_pool option" where
  "init_pool w hostfile succ files =
     (let p0 = \<lparr> total_nodes = deduplicate_and_sort (read_hostfile hostfile),
                 running_nodes = [], backup_pool = [], abnormal_nodes = [], normal_nodes = [],
                 last_running_nodes = [], len_running_abnormal_nodes = 0, pool_files = files \<rparr>
      in case validate_and_fix_constraints (check_and_sync_total_nodes succ p0) of
           (Inl e, p) \<Rightarrow> None
         | (Inr u, p) \<Rightarrow> Some (persist_all_nodes w p))"

section \<open>Transitions\<close>

definition reset_node_pool ::
    "(pool_file \<Rightarrow> bool) \<Rightarrow> string list \<Rightarrow> string list option \<Rightarrow> node_pool
      \<Rightarrow> (unit, node_pool) outcome" where
  "reset_node_pool w ns_total abnormal p =
     (let p1 = p\<lparr> total_nodes := deduplicate_and_sort ns_total, running_nodes := [],
                 last_running_nodes := [],
                 abnormal_nodes :=
                   deduplicate_and_sort (case abnormal of Some ns \<Rightarrow> ns | None \<Rightarrow> []) \<rparr>
      in if \<not> set (abnormal_nodes p1) \<subseteq> set (total_nodes p1) then raises ValueError p1
         else
           let p2 = sync_normal_nodes p1;
               p3 = p2\<lparr> backup_pool :=
                          deduplicate_and_sort (set_diff (total_nodes p2) (abnormal_nodes p2)) \<rparr>
           in on_return (validate_and_fix_constraints p3)
                (\<lambda>_ q. returns () (persist_all_nodes w q)))"

definition add_total_nodes ::
    "(pool_file \<Rightarrow> bool) \<Rightarrow> string list \<Rightarrow> node_pool \<Rightarrow> (string list option, node_pool) outcome" where
  "add_total_nodes w nodes p =
     (let new = set_diff (deduplicate_and_sort nodes) (total_nodes p)
      in if new = [] then returns None p
         else
           on_return
             (validate_and_fix_constraints
               (p\<lparr> total_nodes := deduplicate_and_sort (total_nodes p @ new),
                   backup_pool := deduplicate_and_sort (backup_pool p @ new) \<rparr>))
             (\<lambda>_ q. returns (Some new) (persist_all_nodes w q)))"

definition add_normal_nodes ::
    "(pool_file \<Rightarrow> bool) \<Rightarrow> string list \<Rightarrow> node_pool
      \<Rightarrow> (pool_code \<times> bool \<times> string list, node_pool) outcome" where
  "add_normal_nodes w nodes p =
     (let pure = deduplicate_and_sort nodes
      in if set_diff pure (total_nodes p) \<noteq> [] then returns (NODE_NOT_IN_TOTAL, False, []) p
         else
           let restore = set_inter pure (abnormal_nodes p)
           in if restore = [] then returns (SUCCESS, False, []) p
              else
                on_return
                  (validate_and_fix_constraints
                    (sync_normal_nodes
                      (p\<lparr> abnormal_nodes :=
                            deduplicate_and_sort (set_diff (abnormal_nodes p) restore),
                          backup_pool := deduplicate_and_sort (backup_pool p @ restore) \<rparr>)))
                  (\<lambda>_ q. returns (SUCCESS, True, restore) (persist_all_nodes w q)))"

definition validate_abnormal_candidates ::
    "node_pool \<Rightarrow> string list \<Rightarrow> string list \<times> pool_code" where
  "validate_abnormal_candidates p nodes =
     (let pure = deduplicate_and_sort nodes
      in if set_diff pure (total_nodes p) \<noteq> [] then ([], NODE_NOT_IN_TOTAL)
         else if set_inter pure (abnormal_nodes p) \<noteq> [] then ([], NODE_ALREADY_ABNORMAL)
         else (pure, SUCCESS))"

text \<open>The result: found, running cleared, the new abnormal nodes, those of them that ran.\<close>

type_synonym abnormal_result = "bool \<times> bool \<times> string list option \<times> string list option"

definition add_abnormal_nodes ::
    "(pool_file \<Rightarrow> bool) \<Rightarrow> string list \<Rightarrow> node_pool \<Rightarrow> (abnormal_result, node_pool) outcome" where
  "add_abnormal_nodes w nodes p =
     (case validate_abnormal_candidates p nodes of (valid, code) \<Rightarrow>
        if code \<noteq> SUCCESS then returns (False, False, None, None) p
        else if valid = [] then returns (False, False, None, None) p
        else
          let conflict = set_inter valid (running_nodes p);
              p1 = (if conflict \<noteq> []
                    then p\<lparr> last_running_nodes := running_nodes p, running_nodes := [] \<rparr> else p);
              p2 = p1\<lparr> abnormal_nodes := deduplicate_and_sort (abnormal_nodes p1 @ valid) \<rparr>;
              p3 = sync_backup_nodes (sync_normal_nodes p2)
          in on_return (validate_and_fix_constraints p3)
               (\<lambda>_ q. returns
                  (if conflict \<noteq> [] then (True, True, Some valid, Some (sort conflict))
                   else (True, False, Some valid, None))
                  (persist_all_nodes w q)))"

definition add_abnormal_runing_nodeno ::
    "(pool_file \<Rightarrow> bool) \<Rightarrow> int \<Rightarrow> node_pool \<Rightarrow> (abnormal_result, node_pool) outcome" where
  "add_abnormal_runing_nodeno w nodeno p =
     (if running_nodes p = [] \<or> \<not> nodeno < int (length (running_nodes p))
      then raises AssertionError p
      else
        case py_get (running_nodes p) nodeno of
          None \<Rightarrow> raises IndexError p
        | Some err_node \<Rightarrow>
            add_abnormal_nodes w [err_node]
              (p\<lparr> len_running_abnormal_nodes := len_running_abnormal_nodes p + 1 \<rparr>))"

text \<open>\<open>Inl\<close> is the two-element tuple of the early return.\<close>

definition add_abnormal_runing_error_nodes ::
    "(pool_file \<Rightarrow> bool) \<Rightarrow> string list \<Rightarrow> node_pool
      \<Rightarrow> ((bool \<times> bool) + abnormal_result, node_pool) outcome" where
  "add_abnormal_runing_error_nodes w err_nodes p =
     (let valid = set_inter err_nodes (running_nodes p)
      in if valid = [] then returns (Inl (False, False)) p
         else on_return
                (add_abnormal_nodes w valid (p\<lparr> len_running_abnormal_nodes := length valid \<rparr>))
                (\<lambda>r q. returns (Inr r) q))"

datatype target_pool = ToBackup | ToRunning | ToOther string

definition remove_abnormal_nodes ::
    "string list \<Rightarrow> target_pool \<Rightarrow> node_pool \<Rightarrow> (pool_code \<times> bool, node_pool) outcome" where
  "remove_abnormal_nodes nodes target p =
     (if (case target of ToOther s \<Rightarrow> True | _ \<Rightarrow> False) then returns (INVALID_TARGET_POOL, False) p
      else
        let pure = deduplicate_and_sort nodes
        in if set_diff pure (total_nodes p) \<noteq> [] then returns (NODE_NOT_IN_TOTAL, False) p
           else
             let valid = set_inter pure (abnormal_nodes p)
             in if valid = [] then returns (NO_VALID_NODE, False) p
                else
                  let p1 = p\<lparr> abnormal_nodes :=
                               deduplicate_and_sort (set_diff (abnormal_nodes p) valid) \<rparr>;
                      p2 = (if target = ToRunning
                            then p1\<lparr> running_nodes :=
                                       deduplicate_and_sort (running_nodes p1 @ valid) \<rparr>
                            else p1\<lparr> backup_pool :=
                                       deduplicate_and_sort (backup_pool p1 @ valid) \<rparr>)
                  in on_return (validate_and_fix_constraints p2)
                       (\<lambda>_ q. returns (SUCCESS, True) q))"

record consistency =
  cs_consistent :: bool
  cs_invalid :: "string list"
  cs_added :: "string list"
  cs_missing :: "string list"

definition validate_running_state_consistency :: "string list \<Rightarrow> node_pool \<Rightarrow> consistency" where
  "validate_running_state_consistency host p =
     (let input = deduplicate_and_sort (filter (\<lambda>n. n \<noteq> []) host);
          invalid = deduplicate_and_sort (set_diff input (total_nodes p));
          valid = set_inter input (total_nodes p);
          added = deduplicate_and_sort (set_diff valid (running_nodes p));
          missing = deduplicate_and_sort (set_diff (running_nodes p) valid)
      in \<lparr> cs_consistent = (invalid = [] \<and> added = [] \<and> missing = []),
           cs_invalid = invalid, cs_added = added, cs_missing = missing \<rparr>)"

definition release_runing_nodes :: "(pool_file \<Rightarrow> bool) \<Rightarrow> node_pool \<Rightarrow> node_pool" where
  "release_runing_nodes w p =
     (let p1 = p\<lparr> backup_pool := deduplicate_and_sort (running_nodes p @ backup_pool p) \<rparr>
      in if running_nodes p1 \<noteq> []
         then persist_all_nodes w
                (p1\<lparr> last_running_nodes := running_nodes p1, running_nodes := [] \<rparr>)
         else p1)"

section \<open>Allocation of running nodes\<close>

definition get_available_nodes_with_blacklist ::
    "(string list \<Rightarrow> int \<Rightarrow> allocation_result option) \<Rightarrow> string list
      \<Rightarrow> string list \<times> string list \<times> string list" where
  "get_available_nodes_with_blacklist alloc cands =
     (case alloc cands (int (length cands)) of
        None \<Rightarrow> (cands, [], [])
      | Some r \<Rightarrow> (deduplicate_and_sort (set_inter (healthy_nodes r) cands),
                  deduplicate_and_sort (set_inter (backup_nodes r) cands),
                  deduplicate_and_sort (set_inter (rejected_nodes r) cands)))"

text \<open>
  The state of the allocation loops: the replacement candidates left, the nodes chosen so far,
  and the pool's backup list, from which each chosen node is removed (ValueError if absent).
\<close>

type_synonym alloc_state = "string list \<times> string list \<times> string list"

definition take_node :: "string \<Rightarrow> alloc_state \<Rightarrow> (unit, alloc_state) outcome" where
  "take_node x st = (case st of (standby, new, bk) \<Rightarrow>
     if x \<in> set bk then returns () (standby, new @ [x], remove1 x bk)
     else raises ValueError (standby, new @ [x], bk))"

definition pick_and_assign_standby :: "alloc_state \<Rightarrow> (unit, alloc_state) outcome" where
  "pick_and_assign_standby st = (case st of (standby, new, bk) \<Rightarrow>
     (case standby of
        [] \<Rightarrow> returns () st
      | s # ss \<Rightarrow>
          if s \<in> set bk then returns () (ss, new @ [s], remove1 s bk)
          else raises ValueError (ss, new, bk)))"

text \<open>
  The recycling loop over the nodes of the last run; \<open>bk0\<close> is the backup list before the loop.
\<close>

definition recycle_step ::
    "string list \<Rightarrow> string list \<Rightarrow> string list \<Rightarrow> bool \<Rightarrow> string \<Rightarrow> alloc_state
      \<Rightarrow> (unit, alloc_state) outcome" where
  "recycle_step bk0 healthy degraded allow x st =
     (if x \<in> set bk0 then
        if x \<in> set healthy then take_node x st
        else if x \<in> set degraded then
          if allow then take_node x st else pick_and_assign_standby st
        else pick_and_assign_standby st
      else pick_and_assign_standby st)"

fun recycle_loop ::
    "int \<Rightarrow> string list \<Rightarrow> string list \<Rightarrow> string list \<Rightarrow> bool \<Rightarrow> string list \<Rightarrow> alloc_state
      \<Rightarrow> (unit, alloc_state) outcome" where
  "recycle_loop n bk0 h d allow [] st = returns () st"
| "recycle_loop n bk0 h d allow (x # xs) st =
     (if n \<le> int (length (fst (snd st))) then returns () st
      else on_return (recycle_step bk0 h d allow x st)
             (\<lambda>_ st'. recycle_loop n bk0 h d allow xs st'))"

fun remove_all :: "string list \<Rightarrow> string list \<Rightarrow> (unit, string list) outcome" where
  "remove_all [] bk = returns () bk"
| "remove_all (x # xs) bk =
     (if x \<in> set bk then remove_all xs (remove1 x bk) else raises ValueError bk)"

text \<open>The choice of the new running nodes, with the backup list that is left.\<close>

definition choose_nodes ::
    "int \<Rightarrow> string list \<Rightarrow> string list \<Rightarrow> node_pool \<Rightarrow> (string list, string list) outcome" where
  "choose_nodes n healthy degraded p =
     (let lr = last_running_nodes p; bk = backup_pool p in
      if lr \<noteq> [] \<and> n = int (length lr) then
        let standby_h = deduplicate_and_sort (set_inter (set_diff bk lr) healthy);
            standby_d = deduplicate_and_sort (set_inter (set_diff bk lr) degraded);
            needed = length (filter (\<lambda>x. \<not> (x \<in> set bk \<and> x \<in> set healthy)) lr);
            enough = needed \<le> length standby_h;
            standby = (if enough then standby_h else standby_h @ standby_d)
        in (case recycle_loop n bk healthy degraded (\<not> enough) lr (standby, [], bk) of
              (Inl e, (_, _, bk')) \<Rightarrow> raises e bk'
            | (Inr _, (_, new, bk')) \<Rightarrow> returns new bk')
      else
        let from_h = py_take n healthy;
            short = n - int (length from_h);
            from_d = (if 0 < short \<and> degraded \<noteq> [] then py_take short degraded else []);
            new = from_h @ from_d
        in (case remove_all new bk of
              (Inl e, bk') \<Rightarrow> raises e bk'
            | (Inr _, bk') \<Rightarrow> returns new bk'))"

text \<open>
  The common end of both allocation methods: extend the running nodes, check, write the slots
  file, persist, answer with the first running node.  The second component of the answer says
  whether the path of the slots file is returned.
\<close>

definition commit_running ::
    "(int \<Rightarrow> string) \<Rightarrow> (pool_file \<Rightarrow> bool) \<Rightarrow> int \<Rightarrow> string list \<Rightarrow> node_pool
      \<Rightarrow> (string option \<times> bool, node_pool) outcome" where
  "commit_running dec w slots new p =
     on_return (validate_and_fix_constraints (p\<lparr> running_nodes := running_nodes p @ new \<rparr>))
       (\<lambda>_ q. on_return (write_slots_running_nodes_file dec w slots q)
         (\<lambda>_ q'. let q'' = persist_all_nodes w q'
                 in returns (case running_nodes q'' of [] \<Rightarrow> None | x # _ \<Rightarrow> Some x, True) q''))"

definition apply_node_num_resources ::
    "(string list \<Rightarrow> int \<Rightarrow> allocation_result option) \<Rightarrow> (int \<Rightarrow> string) \<Rightarrow> (pool_file \<Rightarrow> bool)
      \<Rightarrow> int \<Rightarrow> int \<Rightarrow> node_pool \<Rightarrow> (string option \<times> bool, node_pool) outcome" where
  "apply_node_num_resources alloc dec w n slots p =
     (case get_available_nodes_with_blacklist alloc (backup_pool p) of (healthy, degraded, rejected) \<Rightarrow>
        if int (length healthy) + int (length degraded) < n then returns (None, False) p
        else
          (case choose_nodes n healthy degraded p of
             (Inl e, bk) \<Rightarrow> raises e (p\<lparr> backup_pool := bk \<rparr>)
           | (Inr new, bk) \<Rightarrow> commit_running dec w slots new (p\<lparr> backup_pool := bk \<rparr>)))"

text \<open>
  Allocation of a given node list.  The state of the loop: the healthy and degraded nodes still
  free, the replacement pool, the nodes chosen, the backup list.
\<close>

fun assign_targets ::
    "string list \<Rightarrow> string list \<times> string list \<times> string list \<times> string list \<times> string list
      \<Rightarrow> (string list, string list) outcome" where
  "assign_targets [] (hs, ds, rp, new, bk) = returns new bk"
| "assign_targets (x # xs) (hs, ds, rp, new, bk) =
     (if x \<in> set hs then
        if x \<in> set bk
        then assign_targets xs (removeAll x hs, ds, remove1 x rp, new @ [x], remove1 x bk)
        else raises ValueError bk
      else if x \<in> set ds then
        if x \<in> set bk
        then assign_targets xs (hs, removeAll x ds, remove1 x rp, new @ [x], remove1 x bk)
        else raises ValueError bk
      else
        (case rp of
           [] \<Rightarrow> returns new bk
         | r # rp' \<Rightarrow>
             if r \<in> set bk
             then assign_targets xs
                    (if r \<in> set ds then hs else removeAll r hs, removeAll r ds, rp',
                     new @ [r], remove1 r bk)
             else raises ValueError bk))"

definition apply_node_list_resources ::
    "(string list \<Rightarrow> int \<Rightarrow> allocation_result option) \<Rightarrow> (int \<Rightarrow> string) \<Rightarrow> (pool_file \<Rightarrow> bool)
      \<Rightarrow> string list \<Rightarrow> int \<Rightarrow> node_pool \<Rightarrow> (string option \<times> bool, node_pool) outcome" where
  "apply_node_list_resources alloc dec w targets slots p =
     (if targets = [] then returns (None, False) p
      else
        (case get_available_nodes_with_blacklist alloc (backup_pool p) of
           (healthy, degraded, rejected) \<Rightarrow>
             if length healthy + length degraded < length targets then returns (None, False) p
             else
               (case assign_targets targets
                       (healthy, degraded, healthy @ degraded, [], backup_pool p) of
                  (Inl e, bk) \<Rightarrow> raises e (p\<lparr> backup_pool := bk \<rparr>)
                | (Inr new, bk) \<Rightarrow> commit_running dec w slots new (p\<lparr> backup_pool := bk \<rparr>))))"

section \<open>Lemmas\<close>

subsection \<open>Node lists\<close>

text \<open>Clean names are the ones normalisation leaves alone: not empty, no outer white space.\<close>

definition clean :: "string \<Rightarrow> bool" where
  "clean n \<longleftrightarrow> n \<noteq> [] \<and> py_strip n = n"

definition clean_list :: "string list \<Rightarrow> bool" where
  "clean_list ns \<longleftrightarrow> (\<forall>n\<in>set ns. clean n)"

lemma clean_list_simps [simp]:
  "clean_list []" "clean_list (x # xs) \<longleftrightarrow> clean x \<and> clean_list xs"
  "clean_list (xs @ ys) \<longleftrightarrow> clean_list xs \<and> clean_list ys"
  by (auto simp: clean_list_def)

lemma set_set_diff [simp]: "set (set_diff xs ys) = set xs - set ys"
  by (auto simp: set_diff_def)

lemma set_set_inter [simp]: "set (set_inter xs ys) = set xs \<inter> set ys"
  by (auto simp: set_inter_def)

lemma clean_subset: "clean_list ys \<Longrightarrow> set xs \<subseteq> set ys \<Longrightarrow> clean_list xs"
  by (auto simp: clean_list_def)

lemma clean_set_diff [simp]: "clean_list xs \<Longrightarrow> clean_list (set_diff xs ys)"
  by (auto simp: clean_list_def)

lemma clean_set_inter [simp]: "clean_list xs \<Longrightarrow> clean_list (set_inter xs ys)"
  by (auto simp: clean_list_def)

lemma clean_remove1 [simp]: "clean_list xs \<Longrightarrow> clean_list (remove1 x xs)"
  by (auto simp: clean_list_def dest: set_remove1_subset [THEN subsetD])

lemma dedup_clean [simp]: "clean_list (deduplicate_and_sort ns)"
  by (auto simp: clean_list_def clean_def deduplicate_and_sort_def)

lemma dedup_distinct [simp]: "distinct (deduplicate_and_sort ns)"
  by (simp add: deduplicate_and_sort_def)

lemma dedup_sorted [simp]: "sorted (deduplicate_and_sort ns)"
  by (simp add: deduplicate_and_sort_def)

lemma dedup_set [simp]: "clean_list ns \<Longrightarrow> set (deduplicate_and_sort ns) = set ns"
  by (force simp: deduplicate_and_sort_def clean_list_def clean_def)

lemma dedup_id: "clean_list ns \<Longrightarrow> distinct ns \<Longrightarrow> sorted ns \<Longrightarrow> deduplicate_and_sort ns = ns"
  by (metis dedup_distinct dedup_set dedup_sorted sorted_distinct_set_unique)

lemma dedup_length: "clean_list ns \<Longrightarrow> distinct ns \<Longrightarrow> length (deduplicate_and_sort ns) = length ns"
  by (metis dedup_distinct dedup_set distinct_card)

subsection \<open>The pool invariant\<close>

text \<open>
  \<open>pool_ok\<close>: the total nodes are the disjoint union of the running, backup and abnormal nodes;
  no list has duplicates.  \<open>normal_ok\<close>: the normal list is the total list without the abnormal
  nodes.  The code keeps the first always, the second not (see the properties below).
\<close>

definition pool_ok :: "node_pool \<Rightarrow> bool" where
  "pool_ok p \<longleftrightarrow>
     clean_list (total_nodes p) \<and> distinct (total_nodes p) \<and> sorted (total_nodes p) \<and>
     distinct (backup_pool p) \<and> sorted (backup_pool p) \<and>
     distinct (abnormal_nodes p) \<and> sorted (abnormal_nodes p) \<and>
     distinct (running_nodes p) \<and>
     set (total_nodes p) =
       set (running_nodes p) \<union> set (backup_pool p) \<union> set (abnormal_nodes p) \<and>
     set (running_nodes p) \<inter> set (backup_pool p) = {} \<and>
     set (running_nodes p) \<inter> set (abnormal_nodes p) = {} \<and>
     set (backup_pool p) \<inter> set (abnormal_nodes p) = {}"

definition normal_ok :: "node_pool \<Rightarrow> bool" where
  "normal_ok p \<longleftrightarrow> set (normal_nodes p) = set (total_nodes p) - set (abnormal_nodes p)"

lemma write_file_fields [simp]:
  "total_nodes (write_file w f ls p) = total_nodes p"
  "running_nodes (write_file w f ls p) = running_nodes p"
  "backup_pool (write_file w f ls p) = backup_pool p"
  "abnormal_nodes (write_file w f ls p) = abnormal_nodes p"
  "normal_nodes (write_file w f ls p) = normal_nodes p"
  "last_running_nodes (write_file w f ls p) = last_running_nodes p"
  by (simp_all add: write_file_def)

lemma persist_fields [simp]:
  "total_nodes (persist_all_nodes w p) = total_nodes p"
  "running_nodes (persist_all_nodes w p) = running_nodes p"
  "backup_pool (persist_all_nodes w p) = backup_pool p"
  "abnormal_nodes (persist_all_nodes w p) = abnormal_nodes p"
  "normal_nodes (persist_all_nodes w p) = normal_nodes p"
  "last_running_nodes (persist_all_nodes w p) = last_running_nodes p"
  by (simp_all add: persist_all_nodes_def)

lemma pool_ok_persist [simp]: "pool_ok (persist_all_nodes w p) = pool_ok p"
  by (simp add: pool_ok_def)

text \<open>
  The check accepts a partition of the total nodes, whatever the order of the lists, and then
  only sorts the backup and abnormal lists.
\<close>

lemma validate_partition:
  assumes "clean_list (total_nodes p)" "distinct (total_nodes p)" "sorted (total_nodes p)"
    and "distinct (running_nodes p)"
    and "set (total_nodes p) =
       set (running_nodes p) \<union> set (backup_pool p) \<union> set (abnormal_nodes p)"
    and "set (running_nodes p) \<inter> set (backup_pool p) = {}"
    and "set (running_nodes p) \<inter> set (abnormal_nodes p) = {}"
    and "set (backup_pool p) \<inter> set (abnormal_nodes p) = {}"
  shows "validate_and_fix_constraints p =
      returns () (p\<lparr> backup_pool := deduplicate_and_sort (backup_pool p),
                     abnormal_nodes := deduplicate_and_sort (abnormal_nodes p) \<rparr>)"
    and "pool_ok (p\<lparr> backup_pool := deduplicate_and_sort (backup_pool p),
                     abnormal_nodes := deduplicate_and_sort (abnormal_nodes p) \<rparr>)"
proof -
  have c: "clean_list (backup_pool p)" "clean_list (abnormal_nodes p)"
    using assms(1,5) by (auto intro: clean_subset)
  have i: "set_inter (backup_pool p) (total_nodes p) = backup_pool p"
    "set_inter (abnormal_nodes p) (total_nodes p) = abnormal_nodes p"
    using assms(5) by (simp_all add: set_inter_def)
  show "validate_and_fix_constraints p =
      returns () (p\<lparr> backup_pool := deduplicate_and_sort (backup_pool p),
                     abnormal_nodes := deduplicate_and_sort (abnormal_nodes p) \<rparr>)"
    using assms c by (auto simp: validate_and_fix_constraints_def Let_def i)
  show "pool_ok (p\<lparr> backup_pool := deduplicate_and_sort (backup_pool p),
                     abnormal_nodes := deduplicate_and_sort (abnormal_nodes p) \<rparr>)"
    using assms c by (simp add: pool_ok_def)
qed

lemma pool_okD:
  assumes "pool_ok p"
  shows "clean_list (total_nodes p)" "distinct (total_nodes p)" "sorted (total_nodes p)"
    "distinct (backup_pool p)" "sorted (backup_pool p)" "distinct (abnormal_nodes p)"
    "sorted (abnormal_nodes p)" "distinct (running_nodes p)"
    "set (total_nodes p) =
       set (running_nodes p) \<union> set (backup_pool p) \<union> set (abnormal_nodes p)"
    "set (running_nodes p) \<inter> set (backup_pool p) = {}"
    "set (running_nodes p) \<inter> set (abnormal_nodes p) = {}"
    "set (backup_pool p) \<inter> set (abnormal_nodes p) = {}"
    "clean_list (running_nodes p)" "clean_list (backup_pool p)" "clean_list (abnormal_nodes p)"
  using assms by (auto simp: pool_ok_def intro: clean_subset)

subsection \<open>Transitions keep the partition\<close>

lemma reset_node_pool_ok:
  "set (deduplicate_and_sort (case ab of Some ns \<Rightarrow> ns | None \<Rightarrow> [])) \<subseteq> set (deduplicate_and_sort ns) \<Longrightarrow>
   \<exists>q. reset_node_pool w ns ab p = returns () q \<and> pool_ok q \<and> normal_ok q \<and>
       total_nodes q = deduplicate_and_sort ns \<and> running_nodes q = [] \<and>
       abnormal_nodes q = deduplicate_and_sort (case ab of Some ns \<Rightarrow> ns | None \<Rightarrow> [])"
  (is "set ?ab \<subseteq> set ?tot \<Longrightarrow> _")
proof -
  assume sub: "set ?ab \<subseteq> set ?tot"
  let ?p3 = "p\<lparr> total_nodes := ?tot, running_nodes := [], last_running_nodes := [],
      abnormal_nodes := ?ab, normal_nodes := deduplicate_and_sort (set_diff ?tot ?ab),
      backup_pool := deduplicate_and_sort (set_diff ?tot ?ab) \<rparr>"
  have v: "validate_and_fix_constraints ?p3 = returns () (?p3\<lparr> backup_pool := deduplicate_and_sort (backup_pool ?p3),
                     abnormal_nodes := deduplicate_and_sort (abnormal_nodes ?p3) \<rparr>)"
    "pool_ok (?p3\<lparr> backup_pool := deduplicate_and_sort (backup_pool ?p3),
                     abnormal_nodes := deduplicate_and_sort (abnormal_nodes ?p3) \<rparr>)"
    by (rule validate_partition; use sub in auto)+
  have r: "reset_node_pool w ns ab p = on_return (validate_and_fix_constraints ?p3)
                (\<lambda>_ q. returns () (persist_all_nodes w q))"
    using sub by (simp add: reset_node_pool_def Let_def sync_normal_nodes_def calculate_normal_nodes_def)
  show ?thesis unfolding r v(1) using v(2)
    by (simp add: normal_ok_def dedup_id)
qed

lemma add_total_nodes_ok:
  assumes "pool_ok p"
  shows "\<exists>q. add_total_nodes w ns p =
       returns (if set (deduplicate_and_sort ns) \<subseteq> set (total_nodes p) then None
                else Some (set_diff (deduplicate_and_sort ns) (total_nodes p))) q \<and>
     pool_ok q \<and> set (total_nodes q) = set (total_nodes p) \<union> set (deduplicate_and_sort ns) \<and>
     running_nodes q = running_nodes p \<and> abnormal_nodes q = abnormal_nodes p \<and>
     normal_nodes q = normal_nodes p"
proof -
  note ok = pool_okD[OF assms]
  let ?new = "set_diff (deduplicate_and_sort ns) (total_nodes p)"
  have new: "?new = [] \<longleftrightarrow> set (deduplicate_and_sort ns) \<subseteq> set (total_nodes p)"
    by (metis Diff_eq_empty_iff set_empty set_set_diff)
  show ?thesis
  proof (cases "?new = []")
    case True
    then show ?thesis using new assms by (auto simp: add_total_nodes_def)
  next
    case False
    let ?q = "p\<lparr> total_nodes := deduplicate_and_sort (total_nodes p @ ?new),
                   backup_pool := deduplicate_and_sort (backup_pool p @ ?new) \<rparr>"
    have v: "validate_and_fix_constraints ?q = returns () (?q\<lparr> backup_pool := deduplicate_and_sort (backup_pool ?q),
                     abnormal_nodes := deduplicate_and_sort (abnormal_nodes ?q) \<rparr>)"
      "pool_ok (?q\<lparr> backup_pool := deduplicate_and_sort (backup_pool ?q),
                     abnormal_nodes := deduplicate_and_sort (abnormal_nodes ?q) \<rparr>)"
      by (rule validate_partition; use ok in \<open>auto\<close>)+
    have r: "add_total_nodes w ns p = on_return (validate_and_fix_constraints ?q)
             (\<lambda>_ q. returns (Some ?new) (persist_all_nodes w q))"
      using False by (simp add: add_total_nodes_def Let_def)
    show ?thesis unfolding r v(1) using v(2) False new ok
      by (auto simp: dedup_id)
  qed
qed

lemma add_normal_nodes_ok:
  assumes "pool_ok p"
  shows "\<exists>r q. add_normal_nodes w ns p = returns r q \<and> pool_ok q \<and>
     running_nodes q = running_nodes p \<and> total_nodes q = total_nodes p"
proof -
  note ok = pool_okD[OF assms]
  let ?re = "set_inter (deduplicate_and_sort ns) (abnormal_nodes p)"
  let ?q0 = "p\<lparr> abnormal_nodes := deduplicate_and_sort (set_diff (abnormal_nodes p) ?re),
       backup_pool := deduplicate_and_sort (backup_pool p @ ?re) \<rparr>"
  let ?q = "sync_normal_nodes ?q0"
  have f: "total_nodes ?q = total_nodes p" "running_nodes ?q = running_nodes p"
    "backup_pool ?q = deduplicate_and_sort (backup_pool p @ ?re)"
    "abnormal_nodes ?q = deduplicate_and_sort (set_diff (abnormal_nodes p) ?re)"
    by (simp_all add: sync_normal_nodes_def)
  have v: "validate_and_fix_constraints ?q = returns () (?q\<lparr> backup_pool := deduplicate_and_sort (backup_pool ?q),
                     abnormal_nodes := deduplicate_and_sort (abnormal_nodes ?q) \<rparr>)"
    "pool_ok (?q\<lparr> backup_pool := deduplicate_and_sort (backup_pool ?q),
                     abnormal_nodes := deduplicate_and_sort (abnormal_nodes ?q) \<rparr>)"
    by (rule validate_partition; use ok in \<open>auto simp: f\<close>)+
  show ?thesis
    using assms v by (auto simp: add_normal_nodes_def Let_def f)
qed

lemma add_abnormal_nodes_eq:
  assumes "pool_ok p" and "validate_abnormal_candidates p ns = (v, SUCCESS)" "v \<noteq> []"
  shows "\<exists>q. add_abnormal_nodes w ns p =
      returns (if set v \<inter> set (running_nodes p) \<noteq> {}
               then (True, True, Some v, Some (sort (set_inter v (running_nodes p))))
               else (True, False, Some v, None)) q \<and>
     pool_ok q \<and> normal_ok q \<and> total_nodes q = total_nodes p \<and>
     set (abnormal_nodes q) = set (abnormal_nodes p) \<union> set v \<and>
     (if set v \<inter> set (running_nodes p) \<noteq> {}
      then running_nodes q = [] \<and> last_running_nodes q = running_nodes p
      else running_nodes q = running_nodes p \<and> last_running_nodes q = last_running_nodes p)"
proof -
  note ok = pool_okD[OF assms(1)]
  have v: "v = deduplicate_and_sort ns" "set v \<subseteq> set (total_nodes p)"
    "set v \<inter> set (abnormal_nodes p) = {}"
    using assms(2)
    by (auto simp: validate_abnormal_candidates_def Let_def simp flip: set_empty split: if_splits)
  let ?c = "set_inter v (running_nodes p)"
  have c: "?c = [] \<longleftrightarrow> set v \<inter> set (running_nodes p) = {}" by (simp flip: set_empty)
  have cl: "clean_list v" using v(1) by simp
  define p1 where "p1 = (if ?c \<noteq> [] then p\<lparr> last_running_nodes := running_nodes p, running_nodes := [] \<rparr> else p)"
  define q where "q = sync_backup_nodes (sync_normal_nodes
     (p1\<lparr> abnormal_nodes := deduplicate_and_sort (abnormal_nodes p1 @ v) \<rparr>))"
  have f: "total_nodes q = total_nodes p"
    "running_nodes q = (if ?c \<noteq> [] then [] else running_nodes p)"
    "last_running_nodes q = (if ?c \<noteq> [] then running_nodes p else last_running_nodes p)"
    "abnormal_nodes q = deduplicate_and_sort (abnormal_nodes p @ v)"
    by (simp_all add: q_def p1_def sync_normal_nodes_def sync_backup_nodes_def)
  have sets: "set (abnormal_nodes q) = set (abnormal_nodes p) \<union> set v"
    "set (normal_nodes q) = set (total_nodes p) - (set (abnormal_nodes p) \<union> set v)"
    "set (backup_pool q) = set (normal_nodes q) - set (running_nodes q)"
    using ok(1,15) cl
    by (simp_all add: q_def p1_def sync_normal_nodes_def sync_backup_nodes_def
        calculate_normal_nodes_def calculate_backup_nodes_def)
  have AT: "set (abnormal_nodes p) \<subseteq> set (total_nodes p)"
    and RT: "set (running_nodes q) \<subseteq> set (total_nodes p)"
    and RA: "set (running_nodes q) \<inter> set (abnormal_nodes p) = {}"
    using ok(9,11) f(2) by auto
  have RV: "set (running_nodes q) \<inter> set v = {}"
    using c f(2) by (cases "?c = []") auto
  have part: "set (total_nodes q) = set (running_nodes q) \<union> set (backup_pool q) \<union> set (abnormal_nodes q)"
    "set (running_nodes q) \<inter> set (backup_pool q) = {}"
    "set (running_nodes q) \<inter> set (abnormal_nodes q) = {}"
    "set (backup_pool q) \<inter> set (abnormal_nodes q) = {}"
    using AT RT v(2) RA RV by (simp_all only: sets f(1)) blast+
  have cld: "clean_list (total_nodes q)" "distinct (total_nodes q)" "sorted (total_nodes q)"
    "distinct (running_nodes q)"
    using ok(1-3,8) by (simp_all add: f)
  note val = validate_partition[OF cld part]
  have r: "add_abnormal_nodes w ns p = on_return (validate_and_fix_constraints q)
               (\<lambda>_ q. returns (if ?c \<noteq> [] then (True, True, Some v, Some (sort ?c))
                   else (True, False, Some v, None)) (persist_all_nodes w q))"
    unfolding add_abnormal_nodes_def assms(2) q_def p1_def using assms(3) by (simp add: Let_def)
  define q' where "q' = q\<lparr> backup_pool := deduplicate_and_sort (backup_pool q),
                     abnormal_nodes := deduplicate_and_sort (abnormal_nodes q) \<rparr>"
  have q': "set (abnormal_nodes q') = set (abnormal_nodes p) \<union> set v" "normal_ok q'"
    "running_nodes q' = running_nodes q" "last_running_nodes q' = last_running_nodes q"
    "total_nodes q' = total_nodes q" "pool_ok q'"
    using val(2) sets f(4) f(1) by (simp_all add: q'_def normal_ok_def)
  have "add_abnormal_nodes w ns p = returns (if ?c \<noteq> [] then (True, True, Some v, Some (sort ?c))
                   else (True, False, Some v, None)) (persist_all_nodes w q')"
    unfolding r val(1) q'_def by simp
  moreover have "normal_ok (persist_all_nodes w q')" using q'(2) by (simp add: normal_ok_def)
  ultimately show ?thesis using q' f c by (intro exI[of _ "persist_all_nodes w q'"]) simp
qed

lemma add_abnormal_nodes_ok:
  assumes "pool_ok p"
  shows "\<exists>r q. add_abnormal_nodes w ns p = returns r q \<and> pool_ok q \<and> total_nodes q = total_nodes p"
proof -
  obtain v c where vc: "validate_abnormal_candidates p ns = (v, c)" by fastforce
  show ?thesis
  proof (cases "c = SUCCESS \<and> v \<noteq> []")
    case True
    then show ?thesis using add_abnormal_nodes_eq[OF assms, of ns v w] vc by blast
  next
    case False
    then show ?thesis using vc assms by (auto simp: add_abnormal_nodes_def)
  qed
qed

lemma pool_ok_len [simp]: "pool_ok (p\<lparr> len_running_abnormal_nodes := k \<rparr>) = pool_ok p"
  by (simp add: pool_ok_def)

lemma remove_abnormal_nodes_ok:
  assumes "pool_ok p"
  shows "\<exists>r q. remove_abnormal_nodes ns tg p = returns r q \<and> pool_ok q \<and> total_nodes q = total_nodes p"
proof -
  note ok = pool_okD[OF assms]
  let ?v = "set_inter (deduplicate_and_sort ns) (abnormal_nodes p)"
  let ?p1 = "p\<lparr> abnormal_nodes := deduplicate_and_sort (set_diff (abnormal_nodes p) ?v) \<rparr>"
  let ?q = "if tg = ToRunning
       then ?p1\<lparr> running_nodes := deduplicate_and_sort (running_nodes ?p1 @ ?v) \<rparr>
       else ?p1\<lparr> backup_pool := deduplicate_and_sort (backup_pool ?p1 @ ?v) \<rparr>"
  have v: "validate_and_fix_constraints ?q = returns () (?q\<lparr> backup_pool := deduplicate_and_sort (backup_pool ?q),
                     abnormal_nodes := deduplicate_and_sort (abnormal_nodes ?q) \<rparr>)"
    "pool_ok (?q\<lparr> backup_pool := deduplicate_and_sort (backup_pool ?q),
                     abnormal_nodes := deduplicate_and_sort (abnormal_nodes ?q) \<rparr>)"
    by (rule validate_partition; use ok in auto)+
  have t: "total_nodes ?q = total_nodes p" by simp
  show ?thesis
    unfolding remove_abnormal_nodes_def Let_def using assms v t
    by (auto split: target_pool.split)
qed

lemma release_ok:
  assumes "pool_ok p"
  shows "pool_ok (release_runing_nodes w p)"
    "set (backup_pool (release_runing_nodes w p)) = set (running_nodes p) \<union> set (backup_pool p)"
    "running_nodes (release_runing_nodes w p) = []"
    "total_nodes (release_runing_nodes w p) = total_nodes p"
    "normal_ok p \<Longrightarrow> normal_ok (release_runing_nodes w p)"
  using pool_okD[OF assms]
  by (auto simp: release_runing_nodes_def Let_def pool_ok_def normal_ok_def)

subsection \<open>Allocation\<close>

lemma set_diff_Nil [simp]: "set_diff xs [] = xs"
  by (simp add: set_diff_def)

lemma set_diff_remove1:
  "distinct bk \<Longrightarrow> set_diff (remove1 x bk) xs = set_diff bk (x # xs)"
  by (simp add: set_diff_def distinct_remove1_removeAll removeAll_filter_not_eq conj_commute
      eq_commute)

lemma remove_all_ok:
  "distinct xs \<Longrightarrow> set xs \<subseteq> set bk \<Longrightarrow> distinct bk \<Longrightarrow>
   remove_all xs bk = returns () (set_diff bk xs)"
proof (induction xs arbitrary: bk)
  case Nil
  then show ?case by simp
next
  case (Cons x xs)
  have "set xs \<subseteq> set (remove1 x bk)" using Cons.prems by (auto simp: set_remove1_eq)
  with Cons show ?case by (simp add: set_diff_remove1)
qed

text \<open>
  The recycling loop, with \<open>reuse\<close> the nodes of the last run it takes back: it returns, chooses
  exactly one node per node of the last run, from the reusable ones and the replacement
  candidates, and removes from the backup list what it chooses.
\<close>

definition reusable :: "string list \<Rightarrow> string list \<Rightarrow> string list \<Rightarrow> bool \<Rightarrow> string \<Rightarrow> bool" where
  "reusable bk0 h d allow x \<longleftrightarrow> x \<in> set bk0 \<and> (x \<in> set h \<or> x \<in> set d \<and> allow)"

lemma recycle_step_reuse:
  "reusable bk0 h d allow x \<Longrightarrow> recycle_step bk0 h d allow x st = take_node x st"
  "\<not> reusable bk0 h d allow x \<Longrightarrow> recycle_step bk0 h d allow x st = pick_and_assign_standby st"
  by (auto simp: reusable_def recycle_step_def)

lemma recycle_loop_ok:
  assumes "n = int (length new + length xs)"
    and "length (filter (\<lambda>x. \<not> reusable bk0 h d allow x) xs) \<le> length standby"
    and "distinct (standby @ xs)" and "distinct bk" and "set standby \<subseteq> set bk"
    and "\<forall>x\<in>set xs. reusable bk0 h d allow x \<longrightarrow> x \<in> set bk"
  shows "\<exists>ss new'. recycle_loop n bk0 h d allow xs (standby, new, bk) =
       returns () (ss, new @ new', set_diff bk new') \<and>
     length new' = length xs \<and> distinct new' \<and> set new' \<subseteq> set bk \<and>
     set new' \<subseteq> set standby \<union> {x \<in> set xs. reusable bk0 h d allow x}"
  using assms
proof (induction xs arbitrary: standby new bk)
  case Nil
  then show ?case by (intro exI[of _ standby] exI[of _ "[]"]) simp
next
  case (Cons x xs)
  have brk: "\<not> n \<le> int (length new)" using Cons.prems(1) by simp
  have step: "\<exists>ss y. recycle_step bk0 h d allow x (standby, new, bk) =
        returns () (ss, new @ [y], remove1 y bk) \<and> y \<in> set bk \<and> set ss \<subseteq> set standby - {y} \<and>
        distinct ss \<and> y \<in> set standby \<union> {x. reusable bk0 h d allow x} \<inter> {x} \<and> y \<notin> set xs \<and>
        length (filter (\<lambda>x. \<not> reusable bk0 h d allow x) xs) \<le> length ss"
  proof (cases "reusable bk0 h d allow x")
    case True
    then show ?thesis
      using Cons.prems by (intro exI[of _ standby] exI[of _ x])
        (auto simp: recycle_step_reuse take_node_def)
  next
    case False
    then obtain s ss where "standby = s # ss" using Cons.prems(2) by (cases standby) auto
    then show ?thesis
      using Cons.prems False by (intro exI[of _ ss] exI[of _ s])
        (auto simp: recycle_step_reuse pick_and_assign_standby_def)
  qed
  then obtain ss y where y: "recycle_step bk0 h d allow x (standby, new, bk) =
        returns () (ss, new @ [y], remove1 y bk)" "y \<in> set bk" "set ss \<subseteq> set standby - {y}"
    "distinct ss" "y \<in> set standby \<union> {x. reusable bk0 h d allow x} \<inter> {x}" "y \<notin> set xs"
    "length (filter (\<lambda>x. \<not> reusable bk0 h d allow x) xs) \<le> length ss" by blast
  have bk': "set (remove1 y bk) = set bk - {y}" "distinct (remove1 y bk)"
    using Cons.prems(4) by (simp_all add: set_remove1_eq)
  have "\<exists>ss' new'. recycle_loop n bk0 h d allow xs (ss, new @ [y], remove1 y bk) =
       returns () (ss', (new @ [y]) @ new', set_diff (remove1 y bk) new') \<and>
     length new' = length xs \<and> distinct new' \<and> set new' \<subseteq> set (remove1 y bk) \<and>
     set new' \<subseteq> set ss \<union> {x \<in> set xs. reusable bk0 h d allow x}"
    using y Cons.prems bk' by (intro Cons.IH) auto
  then obtain ss' new' where n: "recycle_loop n bk0 h d allow xs (ss, new @ [y], remove1 y bk) =
       returns () (ss', (new @ [y]) @ new', set_diff (remove1 y bk) new')"
    "length new' = length xs" "distinct new'" "set new' \<subseteq> set (remove1 y bk)"
    "set new' \<subseteq> set ss \<union> {x \<in> set xs. reusable bk0 h d allow x}" by blast
  show ?case
  proof (rule exI[of _ ss'], rule exI[of _ "y # new'"], intro conjI)
    show "recycle_loop n bk0 h d allow (x # xs) (standby, new, bk) =
        returns () (ss', new @ y # new', set_diff bk (y # new'))"
      using brk y(1) n(1) set_diff_remove1[OF Cons.prems(4)] by simp
    show "set (y # new') \<subseteq> set standby \<union> {x' \<in> set (x # xs). reusable bk0 h d allow x'}"
      using n(5) y(3,5) by auto
  qed (use n y bk' in auto)
qed

lemma length_filter_card: "distinct xs \<Longrightarrow> length (filter P xs) = card {x \<in> set xs. P x}"
  by (metis distinct_card distinct_filter set_filter)

lemma card_split: "finite A \<Longrightarrow> card A = card (A \<inter> B) + card (A - B)"
  by (metis card_Int_Diff)

text \<open>
  What the choice of the new running nodes returns, for a request the candidates can meet.
\<close>

definition good_choice ::
    "int \<Rightarrow> string list \<Rightarrow> string list \<Rightarrow> string list \<Rightarrow> string list \<Rightarrow> bool" where
  "good_choice n h d bk new \<longleftrightarrow>
     length new = nat n \<and> distinct new \<and> set new \<subseteq> set bk \<and> set new \<subseteq> set h \<union> set d \<and>
     (n \<le> int (length h) \<longrightarrow> set new \<subseteq> set h)"

lemma choose_nodes_recycle:
  assumes bk: "distinct (backup_pool p)" "clean_list (backup_pool p)"
    and hd: "distinct h" "distinct d" "set h \<inter> set d = {}"
      "set h \<subseteq> set (backup_pool p)" "set d \<subseteq> set (backup_pool p)"
    and lr: "distinct (last_running_nodes p)" "last_running_nodes p \<noteq> []"
      "n = int (length (last_running_nodes p))"
    and n: "n \<le> int (length h) + int (length d)"
  shows "\<exists>new. choose_nodes n h d p = returns new (set_diff (backup_pool p) new) \<and>
     good_choice n h d (backup_pool p) new"
proof -
  let ?lr = "last_running_nodes p" and ?bk = "backup_pool p"
  define sh where "sh = deduplicate_and_sort (set_inter (set_diff ?bk ?lr) h)"
  define sd where "sd = deduplicate_and_sort (set_inter (set_diff ?bk ?lr) d)"
  define needed where "needed = length (filter (\<lambda>x. \<not> (x \<in> set ?bk \<and> x \<in> set h)) ?lr)"
  define enough where "enough = (needed \<le> length sh)"
  define standby where "standby = (if enough then sh else sh @ sd)"
  have sets: "set sh = set h - set ?lr" "set sd = set d - set ?lr" "distinct sh" "distinct sd"
    using bk hd by (auto simp: sh_def sd_def)
  have len: "length sh = card (set h - set ?lr)" "length sd = card (set d - set ?lr)"
    using sets distinct_card by metis+
  have H: "length h = card (set h \<inter> set ?lr) + card (set h - set ?lr)"
    and D: "length d = card (set d \<inter> set ?lr) + card (set d - set ?lr)"
    and L: "length ?lr = card (set ?lr \<inter> set h) + card (set ?lr - set h)"
    using hd lr distinct_card card_split finite_set by metis+
  have nd: "needed = card (set ?lr - set h)"
    using lr hd(4) by (auto simp: needed_def length_filter_card intro!: arg_cong[where f = card])
  have en: "enough" if "n \<le> int (length h)"
    using that H L lr(3) by (simp add: enough_def nd len Int_commute)
  have cnt: "length (filter (\<lambda>x. \<not> reusable ?bk h d (\<not> enough) x) ?lr) \<le> length standby"
  proof (cases enough)
    case True
    have "{x \<in> set ?lr. \<not> reusable ?bk h d (\<not> enough) x} = set ?lr - set h"
      using True hd(4) by (auto simp: reusable_def)
    then show ?thesis using True nd
      by (simp add: length_filter_card[OF lr(1)] standby_def enough_def)
  next
    case False
    have "{x \<in> set ?lr. \<not> reusable ?bk h d (\<not> enough) x} = set ?lr - set h - set d"
      using False hd(4,5) by (auto simp: reusable_def)
    moreover have "card (set ?lr - set h) =
        card ((set ?lr - set h) \<inter> set d) + card (set ?lr - set h - set d)"
      by (rule card_split) simp
    moreover have "(set ?lr - set h) \<inter> set d = set d \<inter> set ?lr" using hd(3) by auto
    ultimately show ?thesis using False H D L n lr(3)
      by (simp add: length_filter_card[OF lr(1)] standby_def len Int_commute)
  qed
  have "\<exists>ss new'. recycle_loop n ?bk h d (\<not> enough) ?lr (standby, [], ?bk) =
       returns () (ss, [] @ new', set_diff ?bk new') \<and>
     length new' = length ?lr \<and> distinct new' \<and> set new' \<subseteq> set ?bk \<and>
     set new' \<subseteq> set standby \<union> {x \<in> set ?lr. reusable ?bk h d (\<not> enough) x}"
    using lr bk hd sets cnt
    by (intro recycle_loop_ok) (auto simp: standby_def reusable_def)
  then obtain ss new where r: "recycle_loop n ?bk h d (\<not> enough) ?lr (standby, [], ?bk) =
       returns () (ss, new, set_diff ?bk new)" "length new = length ?lr" "distinct new"
     "set new \<subseteq> set ?bk"
     "set new \<subseteq> set standby \<union> {x \<in> set ?lr. reusable ?bk h d (\<not> enough) x}" by auto
  have "choose_nodes n h d p = returns new (set_diff ?bk new)"
    using lr r(1) unfolding standby_def enough_def needed_def sh_def sd_def
    by (simp add: choose_nodes_def Let_def)
  moreover have "set new \<subseteq> set h \<union> set d" "enough \<Longrightarrow> set new \<subseteq> set h"
    using r(5) sets by (auto simp: standby_def reusable_def split: if_splits)
  ultimately show ?thesis using r lr(3) en by (auto simp: good_choice_def)
qed

lemma choose_nodes_fresh:
  assumes bk: "distinct (backup_pool p)"
    and hd: "distinct h" "distinct d" "set h \<inter> set d = {}"
      "set h \<subseteq> set (backup_pool p)" "set d \<subseteq> set (backup_pool p)"
    and lr: "last_running_nodes p = [] \<or> n \<noteq> int (length (last_running_nodes p))"
    and n: "0 \<le> n" "n \<le> int (length h) + int (length d)"
  shows "\<exists>new. choose_nodes n h d p = returns new (set_diff (backup_pool p) new) \<and>
     good_choice n h d (backup_pool p) new"
proof -
  define fh where "fh = py_take n h"
  define sh where "sh = n - int (length fh)"
  define new where "new = fh @ (if 0 < sh \<and> d \<noteq> [] then py_take sh d else [])"
  have fh: "fh = take (nat n) h" "length fh = min (length h) (nat n)"
    using n by (simp_all add: fh_def py_take_def)
  have new: "new = take (nat n) h @ take (nat n - length h) d"
    using n by (auto simp: new_def sh_def py_take_def fh min_def nat_diff_distrib')
  have "distinct new" "set new \<subseteq> set h \<union> set d"
    using hd(1-3) unfolding new by (auto dest: in_set_takeD)
  moreover have "length new = nat n" using n unfolding new by (simp add: min_def) arith
  moreover have "set new \<subseteq> set h" if "n \<le> int (length h)"
    using that n unfolding new by (auto dest: in_set_takeD)
  moreover have "choose_nodes n h d p =
      (case remove_all new (backup_pool p) of
         (Inl e, bk') \<Rightarrow> raises e bk' | (Inr _, bk') \<Rightarrow> returns new bk')"
    using lr unfolding choose_nodes_def Let_def new_def sh_def fh_def by auto
  moreover have "set new \<subseteq> set (backup_pool p)" using hd(4,5) calculation(2) by blast
  ultimately show ?thesis
    using remove_all_ok[of new "backup_pool p"] bk
    by (intro exI[of _ new]) (simp add: good_choice_def)
qed

lemma sorted_set_diff: "sorted xs \<Longrightarrow> sorted (set_diff xs ys)"
  by (simp add: set_diff_def sorted_wrt_filter)

lemma commit_running_ok:
  assumes "pool_ok p" and "distinct new" "set new \<subseteq> set (backup_pool p)"
    and "1 \<le> slots" "w SlotsF"
  shows "\<exists>q. commit_running dec w slots new (p\<lparr> backup_pool := set_diff (backup_pool p) new \<rparr>) =
       returns (case running_nodes p @ new of [] \<Rightarrow> None | x # _ \<Rightarrow> Some x, True) q \<and>
     pool_ok q \<and> total_nodes q = total_nodes p \<and> abnormal_nodes q = abnormal_nodes p \<and>
     running_nodes q = running_nodes p @ new \<and>
     backup_pool q = set_diff (backup_pool p) new \<and> normal_nodes q = normal_nodes p"
proof -
  note ok = pool_okD[OF assms(1)]
  let ?p = "p\<lparr> backup_pool := set_diff (backup_pool p) new, running_nodes := running_nodes p @ new \<rparr>"
  let ?q = "?p\<lparr> backup_pool := deduplicate_and_sort (backup_pool ?p),
               abnormal_nodes := deduplicate_and_sort (abnormal_nodes ?p) \<rparr>"
  have v: "validate_and_fix_constraints ?p = returns () ?q" "pool_ok ?q"
    by (rule validate_partition; use ok assms in \<open>auto\<close>)+
  have b: "deduplicate_and_sort (set_diff (backup_pool p) new) = set_diff (backup_pool p) new"
    using ok by (intro dedup_id) (auto simp: set_diff_def sorted_wrt_filter clean_list_def)
  have a: "deduplicate_and_sort (abnormal_nodes p) = abnormal_nodes p"
    using ok by (intro dedup_id)
  have q: "?q = ?p" using a b by simp
  have s: "write_slots_running_nodes_file dec w slots ?p =
     returns () (write_file w SlotsF (map (\<lambda>n. n @ '' slots='' @ dec slots) (running_nodes ?p)) ?p)"
    using assms by (simp add: write_slots_running_nodes_file_def)
  have pw: "pool_ok (write_file w f ls x) = pool_ok x" for f ls x
    by (simp add: pool_ok_def)
  have r: "(p\<lparr> backup_pool := set_diff (backup_pool p) new \<rparr>)\<lparr> running_nodes :=
      running_nodes (p\<lparr> backup_pool := set_diff (backup_pool p) new \<rparr>) @ new \<rparr> = ?p" by simp
  show ?thesis
    unfolding commit_running_def r v(1) q on_return.simps s
    using v(2) unfolding q by (simp add: Let_def pw)
qed

text \<open>
  The loop of \<open>apply_node_list_resources\<close>: as long as the replacement pool holds every free
  node and there is one per target left, each target yields exactly one node.
\<close>

lemma assign_targets_ok:
  assumes "length xs \<le> length rp" and "distinct rp" and "distinct bk" and "set rp \<subseteq> set bk"
    and "set rp = set hs \<union> set ds" and "set hs \<inter> set ds = {}"
  shows "\<exists>new'. assign_targets xs (hs, ds, rp, new, bk) = returns (new @ new') (set_diff bk new') \<and>
     length new' = length xs \<and> distinct new' \<and> set new' \<subseteq> set rp \<and>
     (\<forall>i < length xs. (xs ! i) \<in> set rp \<and> (\<forall>j < i. new' ! j \<noteq> xs ! i) \<longrightarrow> new' ! i = xs ! i)"
  using assms
proof (induction xs arbitrary: hs ds rp new bk)
  case Nil
  then show ?case by (intro exI[of _ "[]"]) simp
next
  case (Cons x xs)
  have "\<exists>hs' ds' rp' y. assign_targets (x # xs) (hs, ds, rp, new, bk) =
        assign_targets xs (hs', ds', rp', new @ [y], remove1 y bk) \<and> y \<in> set rp \<and>
        (x \<in> set rp \<longrightarrow> y = x) \<and> rp' = remove1 y rp \<and>
        set hs' = set hs - {y} \<and> set ds' = set ds - {y}"
  proof (cases "x \<in> set rp")
    case True
    then have b: "x \<in> set bk" using Cons.prems by auto
    show ?thesis
    proof (cases "x \<in> set hs")
      case True
      with b Cons.prems show ?thesis
        by (intro exI[of _ "removeAll x hs"] exI[of _ ds] exI[of _ "remove1 x rp"])
          (rule exI[of _ x], auto)
    next
      case False
      then have "x \<in> set ds" using True Cons.prems by auto
      with b False Cons.prems show ?thesis
        by (rule_tac exI[of _ hs], rule_tac exI[of _ "removeAll x ds"],
            rule_tac exI[of _ "remove1 x rp"], rule_tac exI[of _ x]) auto
    qed
  next
    case False
    then have x: "x \<notin> set hs" "x \<notin> set ds" using Cons.prems by auto
    obtain r rp' where r: "rp = r # rp'" using Cons.prems(1) by (cases rp) auto
    have rb: "r \<in> set bk" using Cons.prems r by auto
    show ?thesis
      using x r rb False Cons.prems
      by (rule_tac exI[of _ "if r \<in> set ds then hs else removeAll r hs"],
          rule_tac exI[of _ "removeAll r ds"], rule_tac exI[of _ rp'], rule_tac exI[of _ r]) auto
  qed
  then obtain hs' ds' rp' y where y: "assign_targets (x # xs) (hs, ds, rp, new, bk) =
        assign_targets xs (hs', ds', rp', new @ [y], remove1 y bk)" "y \<in> set rp"
    "x \<in> set rp \<longrightarrow> y = x" "rp' = remove1 y rp"
    "set hs' = set hs - {y}" "set ds' = set ds - {y}" by blast
  have rp': "set rp' = set rp - {y}" "distinct rp'" "length rp = Suc (length rp')"
    using y(2,4) Cons.prems(2) by (auto simp: length_remove1 set_remove1_eq)
      (metis Suc_pred length_pos_if_in_set)
  have "\<exists>new'. assign_targets xs (hs', ds', rp', new @ [y], remove1 y bk) =
       returns ((new @ [y]) @ new') (set_diff (remove1 y bk) new') \<and>
     length new' = length xs \<and> distinct new' \<and> set new' \<subseteq> set rp' \<and>
     (\<forall>i < length xs. (xs ! i) \<in> set rp' \<and> (\<forall>j < i. new' ! j \<noteq> xs ! i) \<longrightarrow> new' ! i = xs ! i)"
    using Cons.prems y rp' by (intro Cons.IH) (auto simp: set_remove1_eq)
  then obtain new' where n: "assign_targets xs (hs', ds', rp', new @ [y], remove1 y bk) =
       returns ((new @ [y]) @ new') (set_diff (remove1 y bk) new')"
    "length new' = length xs" "distinct new'" "set new' \<subseteq> set rp'"
    "\<forall>i < length xs. (xs ! i) \<in> set rp' \<and> (\<forall>j < i. new' ! j \<noteq> xs ! i) \<longrightarrow> new' ! i = xs ! i" by blast
  show ?case
  proof (intro exI[of _ "y # new'"] conjI allI impI)
    show "assign_targets (x # xs) (hs, ds, rp, new, bk) =
        returns (new @ y # new') (set_diff bk (y # new'))"
      using y(1) n(1) set_diff_remove1[OF Cons.prems(3)] by simp
    show "length (y # new') = length (x # xs)" "distinct (y # new')" "set (y # new') \<subseteq> set rp"
      using n rp' y(2) by auto
    fix i assume i: "i < length (x # xs)"
      and h: "(x # xs) ! i \<in> set rp \<and> (\<forall>j<i. (y # new') ! j \<noteq> (x # xs) ! i)"
    show "(y # new') ! i = (x # xs) ! i"
    proof (cases i)
      case 0
      then show ?thesis using h y(3) by simp
    next
      case (Suc k)
      have "xs ! k \<noteq> y" using h Suc by (metis nth_Cons_0 nth_Cons_Suc zero_less_Suc)
      moreover have "\<forall>j<k. new' ! j \<noteq> xs ! k" using h Suc by (metis Suc_less_eq nth_Cons_Suc)
      ultimately show ?thesis using n(5) i h Suc rp'(1) by simp
    qed
  qed
qed

context node_allocator begin

lemma available_ok:
  assumes "clean_list cs" "distinct cs"
    and "get_available_nodes_with_blacklist alloc cs = (h, d, r)"
  shows "distinct h" "distinct d" "set h \<inter> set d = {}" "set h \<union> set d \<union> set r = set cs"
    "set r \<inter> (set h \<union> set d) = {}"
proof -
  have "distinct h \<and> distinct d \<and> set h \<inter> set d = {} \<and> set h \<union> set d \<union> set r = set cs \<and>
     set r \<inter> (set h \<union> set d) = {}"
  proof (cases "alloc cs (int (length cs))")
    case None
    then show ?thesis using assms by (auto simp: get_available_nodes_with_blacklist_def)
  next
    case (Some res)
    have c: "clean_list (set_inter xs cs)" for xs
      using assms(1) by (auto simp: clean_list_def)
    from Some show ?thesis
      using alloc_complete[OF Some] alloc_healthy_backup[OF Some] alloc_rejected[OF Some] assms(3)
      by (auto simp: get_available_nodes_with_blacklist_def c)
  qed
  then show "distinct h" "distinct d" "set h \<inter> set d = {}" "set h \<union> set d \<union> set r = set cs"
    "set r \<inter> (set h \<union> set d) = {}" by auto
qed

lemma choose_nodes_ok:
  assumes "pool_ok p" "distinct (last_running_nodes p)" "0 \<le> n"
    and "get_available_nodes_with_blacklist alloc (backup_pool p) = (h, d, r)"
    and "n \<le> int (length h) + int (length d)"
  shows "\<exists>new. choose_nodes n h d p = returns new (set_diff (backup_pool p) new) \<and>
     good_choice n h d (backup_pool p) new"
proof -
  note ok = pool_okD[OF assms(1)]
  note av = available_ok[OF ok(14) ok(4) assms(4)]
  show ?thesis
  proof (cases "last_running_nodes p \<noteq> [] \<and> n = int (length (last_running_nodes p))")
    case True
    then show ?thesis using ok av assms by (intro choose_nodes_recycle) auto
  next
    case False
    then show ?thesis using ok av assms by (intro choose_nodes_fresh) auto
  qed
qed

lemma apply_num_ok:
  assumes "pool_ok p" "distinct (last_running_nodes p)" "0 \<le> n" "1 \<le> slots" "w SlotsF"
    and "get_available_nodes_with_blacklist alloc (backup_pool p) = (h, d, r)"
    and "n \<le> int (length h) + int (length d)"
  shows "\<exists>new q. apply_node_num_resources alloc dec w n slots p =
       returns (case running_nodes p @ new of [] \<Rightarrow> None | x # _ \<Rightarrow> Some x, True) q \<and>
     pool_ok q \<and> total_nodes q = total_nodes p \<and> abnormal_nodes q = abnormal_nodes p \<and>
     running_nodes q = running_nodes p @ new \<and>
     backup_pool q = set_diff (backup_pool p) new \<and> good_choice n h d (backup_pool p) new"
proof -
  obtain new where c: "choose_nodes n h d p = returns new (set_diff (backup_pool p) new)"
    "good_choice n h d (backup_pool p) new"
    using choose_nodes_ok[OF assms(1-3,6,7)] by blast
  have "distinct new" "set new \<subseteq> set (backup_pool p)" using c(2) by (auto simp: good_choice_def)
  from commit_running_ok[where dec = dec and w = w, OF assms(1) this assms(4,5)] c assms(6,7) show ?thesis
    by (auto simp: apply_node_num_resources_def)
qed

lemma apply_num_short:
  assumes "get_available_nodes_with_blacklist alloc (backup_pool p) = (h, d, r)"
    and "int (length h) + int (length d) < n"
  shows "apply_node_num_resources alloc dec w n slots p = returns (None, False) p"
  using assms by (simp add: apply_node_num_resources_def)

lemma apply_list_ok:
  assumes "pool_ok p" "targets \<noteq> []" "1 \<le> slots" "w SlotsF"
    and "get_available_nodes_with_blacklist alloc (backup_pool p) = (h, d, r)"
    and "length targets \<le> length h + length d"
  shows "\<exists>new q. apply_node_list_resources alloc dec w targets slots p =
       returns (case running_nodes p @ new of [] \<Rightarrow> None | x # _ \<Rightarrow> Some x, True) q \<and>
     pool_ok q \<and> total_nodes q = total_nodes p \<and> abnormal_nodes q = abnormal_nodes p \<and>
     running_nodes q = running_nodes p @ new \<and>
     backup_pool q = set_diff (backup_pool p) new \<and>
     length new = length targets \<and> distinct new \<and> set new \<subseteq> set h \<union> set d \<and>
     (\<forall>i < length targets. targets ! i \<in> set h \<union> set d \<and> (\<forall>j < i. new ! j \<noteq> targets ! i)
        \<longrightarrow> new ! i = targets ! i)"
proof -
  note ok = pool_okD[OF assms(1)]
  note av = available_ok[OF ok(14) ok(4) assms(5)]
  have "\<exists>new. assign_targets targets (h, d, h @ d, [], backup_pool p) =
        returns ([] @ new) (set_diff (backup_pool p) new) \<and>
     length new = length targets \<and> distinct new \<and> set new \<subseteq> set (h @ d) \<and>
     (\<forall>i < length targets. targets ! i \<in> set (h @ d) \<and> (\<forall>j < i. new ! j \<noteq> targets ! i)
        \<longrightarrow> new ! i = targets ! i)"
    using av ok assms by (intro assign_targets_ok) auto
  then obtain new where n: "assign_targets targets (h, d, h @ d, [], backup_pool p) =
        returns new (set_diff (backup_pool p) new)" "length new = length targets" "distinct new"
     "set new \<subseteq> set (h @ d)"
     "\<forall>i < length targets. targets ! i \<in> set (h @ d) \<and> (\<forall>j < i. new ! j \<noteq> targets ! i)
        \<longrightarrow> new ! i = targets ! i" by auto
  have "set new \<subseteq> set (backup_pool p)" using n(4) av by auto
  from commit_running_ok[where dec = dec and w = w, OF assms(1) n(3) this assms(3,4)] n assms show ?thesis
    by (auto simp: apply_node_list_resources_def)
qed

end

subsection \<open>The blacklist as the pool's allocator\<close>

text \<open>None stands for a query that raises; the pool then treats every candidate as healthy.\<close>

definition blacklist_query ::
    "bl_mgr option \<Rightarrow> real \<Rightarrow> string list \<Rightarrow> int \<Rightarrow> allocation_result option" where
  "blacklist_query q now cs k = map_option (\<lambda>m. allocate_nodes m now cs k) q"

interpretation bq: node_allocator "blacklist_query q now" for q now
  using bl.alloc_complete bl.alloc_healthy_backup bl.alloc_rejected
  by unfold_locales (cases q; fastforce simp: blacklist_query_def)+

lemma available_blacklist:
  assumes "clean_list cs"
    and "get_available_nodes_with_blacklist (blacklist_query (Some m) now) cs = (h, d, r)"
  shows "set h = {x \<in> set cs. map_of (bm_nodes m) x = None}"
    and "set d = {x \<in> set cs. \<exists>nd. map_of (bm_nodes m) x = Some nd \<and> \<not> nr_fatal nd}"
proof -
  have c: "clean_list (set_inter xs cs)" for xs
    using assms(1) by (auto simp: clean_list_def)
  show "set h = {x \<in> set cs. map_of (bm_nodes m) x = None}"
    "set d = {x \<in> set cs. \<exists>nd. map_of (bm_nodes m) x = Some nd \<and> \<not> nr_fatal nd}"
    using assms(2)
    by (auto simp: get_available_nodes_with_blacklist_def blacklist_query_def c alloc_healthy
        alloc_backup_full)
qed

subsection \<open>Whatever a call does, the partition survives\<close>

definition pool_inv :: "node_pool \<Rightarrow> bool" where
  "pool_inv p \<longleftrightarrow> pool_ok p \<and> distinct (last_running_nodes p)"

lemma pool_ok_write [simp]: "pool_ok (write_file w f ls x) = pool_ok x"
  by (simp add: pool_ok_def)

lemma commit_running_inv:
  assumes "pool_inv p" and "distinct new" "set new \<subseteq> set (backup_pool p)"
  shows "pool_inv (snd (commit_running dec w slots new
     (p\<lparr> backup_pool := set_diff (backup_pool p) new \<rparr>)))"
proof -
  have pok: "pool_ok p" using assms(1) by (simp add: pool_inv_def)
  note ok = pool_okD[OF pok]
  let ?p = "p\<lparr> backup_pool := set_diff (backup_pool p) new, running_nodes := running_nodes p @ new \<rparr>"
  let ?q = "?p\<lparr> backup_pool := deduplicate_and_sort (backup_pool ?p),
               abnormal_nodes := deduplicate_and_sort (abnormal_nodes ?p) \<rparr>"
  have v: "validate_and_fix_constraints ?p = returns () ?q" "pool_ok ?q"
    by (rule validate_partition; use ok assms in \<open>auto\<close>)+
  have r: "(p\<lparr> backup_pool := set_diff (backup_pool p) new \<rparr>)\<lparr> running_nodes :=
      running_nodes (p\<lparr> backup_pool := set_diff (backup_pool p) new \<rparr>) @ new \<rparr> = ?p" by simp
  have inv: "pool_inv ?q" using v(2) assms(1) by (simp add: pool_inv_def)
  obtain q where q: "?q = q" by simp
  show ?thesis
    unfolding commit_running_def r v(1) q on_return.simps
    using inv unfolding q
    by (simp add: write_slots_running_nodes_file_def pool_inv_def Let_def)
qed

lemma recycle_not_negative: "n < 0 \<Longrightarrow> \<not> (lr \<noteq> [] \<and> n = int (length lr))"
  by auto

lemma choose_nodes_negative:
  assumes "n < 0" "distinct h" "set h \<subseteq> set (backup_pool p)" "distinct (backup_pool p)"
  shows "\<exists>new. choose_nodes n h d p = returns new (set_diff (backup_pool p) new) \<and>
     distinct new \<and> set new \<subseteq> set (backup_pool p)"
proof -
  let ?new = "py_take n h"
  have new: "distinct ?new" "set ?new \<subseteq> set (backup_pool p)"
    using assms by (auto simp: py_take_def dest: in_set_takeD)
  have "choose_nodes n h d p = returns ?new (set_diff (backup_pool p) ?new)"
    using assms remove_all_ok[OF new(1,2) assms(4)] recycle_not_negative[OF assms(1)]
    unfolding choose_nodes_def Let_def by simp
  with new show ?thesis by blast
qed

lemma apply_num_inv:
  assumes "pool_inv p"
  shows "pool_inv (snd (apply_node_num_resources (blacklist_query q now) dec w n slots p))"
proof -
  have p: "pool_ok p" "distinct (last_running_nodes p)" using assms by (simp_all add: pool_inv_def)
  note ok = pool_okD[OF p(1)]
  obtain h d r where av: "get_available_nodes_with_blacklist (blacklist_query q now) (backup_pool p) = (h, d, r)"
    by (metis prod_cases3)
  show ?thesis
  proof (cases "int (length h) + int (length d) < n")
    case True
    then show ?thesis using assms av by (simp add: apply_node_num_resources_def)
  next
    case False
    have "\<exists>new. choose_nodes n h d p = returns new (set_diff (backup_pool p) new) \<and>
       distinct new \<and> set new \<subseteq> set (backup_pool p)"
    proof (cases "0 \<le> n")
      case True
      then show ?thesis using bq.choose_nodes_ok[OF p True av] False by (auto simp: good_choice_def)
    next
      case neg: False
      then show ?thesis using bq.available_ok[OF ok(14) ok(4) av] ok
        by (intro choose_nodes_negative) auto
    qed
    then show ?thesis using av False commit_running_inv[OF assms]
      by (auto simp: apply_node_num_resources_def)
  qed
qed

lemma apply_list_inv:
  assumes "pool_inv p"
  shows "pool_inv (snd (apply_node_list_resources (blacklist_query q now) dec w targets slots p))"
proof -
  have p: "pool_ok p" using assms by (simp add: pool_inv_def)
  note ok = pool_okD[OF p]
  obtain h d r where av: "get_available_nodes_with_blacklist (blacklist_query q now) (backup_pool p) = (h, d, r)"
    by (metis prod_cases3)
  note av' = bq.available_ok[OF ok(14) ok(4) av]
  show ?thesis
  proof (cases "targets = [] \<or> length h + length d < length targets")
    case True
    then show ?thesis using assms av by (auto simp: apply_node_list_resources_def)
  next
    case False
    have "\<exists>new. assign_targets targets (h, d, h @ d, [], backup_pool p) =
        returns ([] @ new) (set_diff (backup_pool p) new) \<and>
       length new = length targets \<and> distinct new \<and> set new \<subseteq> set (h @ d) \<and>
       (\<forall>i < length targets. targets ! i \<in> set (h @ d) \<and> (\<forall>j < i. new ! j \<noteq> targets ! i)
          \<longrightarrow> new ! i = targets ! i)"
      using av' ok False by (intro assign_targets_ok) auto
    then obtain new where "assign_targets targets (h, d, h @ d, [], backup_pool p) =
        returns new (set_diff (backup_pool p) new)" "distinct new" "set new \<subseteq> set (h @ d)" by auto
    moreover from this have "set new \<subseteq> set (backup_pool p)" using av' by auto
    ultimately show ?thesis using av False commit_running_inv[OF assms]
      by (auto simp: apply_node_list_resources_def)
  qed
qed

lemma transitions_keep_last:
  "last_running_nodes (snd (validate_and_fix_constraints p)) = last_running_nodes p"
  by (simp add: validate_and_fix_constraints_def Let_def)

lemma on_return_last:
  assumes "\<And>a s. last_running_nodes (snd (f a s)) = last_running_nodes s"
  shows "last_running_nodes (snd (on_return x f)) = last_running_nodes (snd x)"
  using assms by (cases x; cases "fst x") auto

lemma last_simps:
  "last_running_nodes (snd (add_total_nodes w ns p)) = last_running_nodes p"
  "last_running_nodes (snd (add_normal_nodes w ns p)) = last_running_nodes p"
  "last_running_nodes (snd (remove_abnormal_nodes ns tg p)) = last_running_nodes p"
  by (auto simp: add_total_nodes_def add_normal_nodes_def remove_abnormal_nodes_def Let_def
      on_return_last transitions_keep_last sync_normal_nodes_def split: target_pool.splits)

lemma add_abnormal_inv:
  assumes "pool_inv p"
  shows "\<exists>r q. add_abnormal_nodes w ns p = returns r q \<and> pool_inv q"
proof -
  have p: "pool_ok p" using assms by (simp add: pool_inv_def)
  obtain v c where vc: "validate_abnormal_candidates p ns = (v, c)" by fastforce
  show ?thesis
  proof (cases "c = SUCCESS \<and> v \<noteq> []")
    case True
    then show ?thesis using add_abnormal_nodes_eq[OF p, of ns v w] vc assms pool_okD(8)[OF p]
      by (fastforce simp: pool_inv_def split: if_splits)
  next
    case False
    then show ?thesis using vc assms by (auto simp: add_abnormal_nodes_def)
  qed
qed

lemma pool_inv_len [simp]: "pool_inv (p\<lparr> len_running_abnormal_nodes := k \<rparr>) = pool_inv p"
  by (simp add: pool_inv_def)

lemma nodeno_inv:
  "pool_inv p \<Longrightarrow> pool_inv (snd (add_abnormal_runing_nodeno w i p))"
  using add_abnormal_inv[of "p\<lparr> len_running_abnormal_nodes := len_running_abnormal_nodes p + 1 \<rparr>" w]
  by (auto simp: add_abnormal_runing_nodeno_def split: option.splits)
     (metis pool_inv_len snd_conv)

lemma error_nodes_inv:
  "pool_inv p \<Longrightarrow> pool_inv (snd (add_abnormal_runing_error_nodes w ns p))"
  using add_abnormal_inv[of "p\<lparr> len_running_abnormal_nodes := length (set_inter ns (running_nodes p)) \<rparr>"
      w "set_inter ns (running_nodes p)"]
  by (auto simp: add_abnormal_runing_error_nodes_def Let_def)

lemma reset_inv:
  "reset_node_pool w ns ab p = returns () q \<Longrightarrow> pool_inv q"
proof -
  assume r: "reset_node_pool w ns ab p = returns () q"
  then have sub: "set (deduplicate_and_sort (case ab of Some ns \<Rightarrow> ns | None \<Rightarrow> []))
      \<subseteq> set (deduplicate_and_sort ns)"
    by (auto simp: reset_node_pool_def Let_def split: if_splits)
  have "last_running_nodes (snd (reset_node_pool w ns ab p)) = []"
    by (auto simp: reset_node_pool_def Let_def on_return_last transitions_keep_last sync_normal_nodes_def)
  with reset_node_pool_ok[OF sub, of w p] r show ?thesis by (auto simp: pool_inv_def)
qed

lemma release_inv: "pool_inv p \<Longrightarrow> pool_inv (release_runing_nodes w p)"
  using release_ok(1)[of p w] pool_okD(8)[of p]
  by (auto simp: pool_inv_def release_runing_nodes_def Let_def)

lemma start_empty_ok:
  assumes "clean_list (total_nodes p)" "distinct (total_nodes p)" "sorted (total_nodes p)"
  shows "pool_ok (start_empty p)" "normal_ok (start_empty p)"
    "running_nodes (start_empty p) = []" "abnormal_nodes (start_empty p) = []"
    "total_nodes (start_empty p) = total_nodes p"
    "last_running_nodes (start_empty p) = last_running_nodes p"
  using assms
  by (simp_all add: start_empty_def sync_normal_nodes_def sync_backup_nodes_def
      calculate_normal_nodes_def calculate_backup_nodes_def pool_ok_def normal_ok_def)

text \<open>An accepted pool only has its backup and abnormal lists normalised by the check.\<close>

lemma pool_ok_validate:
  assumes "pool_ok p"
  shows "validate_and_fix_constraints p = returns () p"
proof -
  note ok = pool_okD[OF assms]
  have "deduplicate_and_sort (backup_pool p) = backup_pool p"
    "deduplicate_and_sort (abnormal_nodes p) = abnormal_nodes p"
    using ok(4-7,14,15) by (simp_all add: dedup_id)
  then show ?thesis using validate_partition(1)[OF ok(1-3,8-12)] by simp
qed

subsection \<open>Persistence\<close>

text \<open>Names that survive a node file: no white space and no comment sign in front.\<close>

definition file_name_ok :: "string \<Rightarrow> bool" where
  "file_name_ok n \<longleftrightarrow> n \<noteq> [] \<and> hd n \<noteq> CHR ''#'' \<and> (\<forall>c\<in>set n. \<not> is_ws c)"

lemma file_name_okD:
  "file_name_ok n \<Longrightarrow> py_strip n = n \<and> first_word n = n \<and> clean n \<and> CHR 0x0A \<notin> set n"
  by (auto simp: file_name_ok_def py_strip_no_ws first_word_def clean_def takeWhile_eq_all_conv)

lemma read_written:
  assumes "\<forall>n\<in>set ns. file_name_ok n"
  shows "read_hostfile (join_with [CHR 0x0A] ns) = sorted_set ns"
proof (cases "ns = []")
  case True
  then show ?thesis by (simp add: read_hostfile_def py_strip_def sorted_set_def)
next
  case False
  have s: "split_on CHR 0x0A (join_with [CHR 0x0A] ns) = ns"
    using assms False file_name_okD by (intro split_on_join) auto
  have m: "map py_strip ns = ns" using assms file_name_okD by (simp add: map_idI)
  have f: "filter (\<lambda>l. l \<noteq> [] \<and> hd l \<noteq> CHR ''#'') ns = ns"
    using assms by (auto simp: file_name_ok_def filter_id_conv)
  have w: "map first_word ns = ns" using assms file_name_okD by (simp add: map_idI)
  show ?thesis unfolding read_hostfile_def s m f w ..
qed

lemma persist_files:
  assumes "\<forall>f. w f"
  shows "pool_files (persist_all_nodes w p) TotalF = join_with [CHR 0x0A] (total_nodes p)"
    "pool_files (persist_all_nodes w p) RunningF = join_with [CHR 0x0A] (running_nodes p)"
    "pool_files (persist_all_nodes w p) BackupF = join_with [CHR 0x0A] (backup_pool p)"
    "pool_files (persist_all_nodes w p) AbnormalF = join_with [CHR 0x0A] (abnormal_nodes p)"
    "pool_files (persist_all_nodes w p) NormalF = join_with [CHR 0x0A] (normal_nodes p)"
  using assms by (simp_all add: persist_all_nodes_def write_file_def)

text \<open>When nothing has to be replaced, the recycling loop takes back the last run in order.\<close>

lemma recycle_same:
  assumes "n = int (length new + length xs)" "distinct xs" "set xs \<subseteq> set bk" "distinct bk"
    and "\<forall>x\<in>set xs. reusable bk0 h d allow x"
  shows "recycle_loop n bk0 h d allow xs (standby, new, bk) =
     returns () (standby, new @ xs, set_diff bk xs)"
  using assms
proof (induction xs arbitrary: new bk)
  case Nil
  then show ?case by simp
next
  case (Cons x xs)
  have brk: "\<not> n \<le> int (length new)" using Cons.prems(1) by simp
  have "recycle_loop n bk0 h d allow xs (standby, new @ [x], remove1 x bk) =
      returns () (standby, (new @ [x]) @ xs, set_diff (remove1 x bk) xs)"
    using Cons.prems by (intro Cons.IH) (auto simp: set_remove1_eq)
  then show ?case
    using brk Cons.prems set_diff_remove1[OF Cons.prems(4), of x xs]
    by (simp add: recycle_step_reuse take_node_def)
qed

section \<open>Reachable pools\<close>

text \<open>
  The pools a process can see: a first start on empty files, then any sequence of method calls,
  with any arguments, any outcome of the file writes and any answer of the blacklist.  Calls
  that raise are steps too, to the state they leave, but for \<open>reset_node_pool\<close>: when it raises
  ValueError it has already replaced the total nodes, and it is included only when it returns.
\<close>

inductive pool_step :: "node_pool \<Rightarrow> node_pool \<Rightarrow> bool" where
  step_reset: "reset_node_pool w ns ab p = returns () q \<Longrightarrow> pool_step p q"
| step_add_total: "pool_step p (snd (add_total_nodes w ns p))"
| step_add_normal: "pool_step p (snd (add_normal_nodes w ns p))"
| step_add_abnormal: "pool_step p (snd (add_abnormal_nodes w ns p))"
| step_add_nodeno: "pool_step p (snd (add_abnormal_runing_nodeno w i p))"
| step_add_error: "pool_step p (snd (add_abnormal_runing_error_nodes w ns p))"
| step_remove: "pool_step p (snd (remove_abnormal_nodes ns tg p))"
| step_release: "pool_step p (release_runing_nodes w p)"
| step_apply_num: "pool_step p (snd (apply_node_num_resources (blacklist_query q now) dec w n slots p))"
| step_apply_list: "pool_step p (snd (apply_node_list_resources (blacklist_query q now) dec w ts slots p))"

inductive pool_reachable :: "node_pool \<Rightarrow> bool" where
  reach_init: "init_pool w hostfile succ (\<lambda>_. []) = Some p \<Longrightarrow> pool_reachable p"
| reach_step: "pool_reachable p \<Longrightarrow> pool_step p q \<Longrightarrow> pool_reachable q"

lemma init_first:
  assumes "init_pool w hostfile succ (\<lambda>_. []) = Some p"
  shows "pool_inv p"
proof -
  define p0 where "p0 = \<lparr> total_nodes = deduplicate_and_sort (read_hostfile hostfile),
      running_nodes = [], backup_pool = [], abnormal_nodes = [], normal_nodes = [],
      last_running_nodes = [], len_running_abnormal_nodes = 0, pool_files = (\<lambda>_. []) \<rparr>"
  have e: "read_hostfile [] = []"
    by (simp add: read_hostfile_def py_strip_def sorted_set_def)
  have d: "deduplicate_and_sort [] = []" by (simp add: deduplicate_and_sort_def sorted_set_def)
  define p1 where "p1 = check_and_sync_total_nodes succ p0"
  have p1: "pool_ok p1 \<and> last_running_nodes p1 = []"
  proof (cases "total_nodes p0 = []")
    case True
    then have "p1 = restore_from_files p0"
      by (simp add: p1_def check_and_sync_total_nodes_def e d p0_def)
    then show ?thesis using True by (simp add: restore_from_files_def p0_def e pool_ok_def)
  next
    case False
    then have "p1 = start_empty p0"
      by (simp add: p1_def check_and_sync_total_nodes_def e d p0_def)
    then show ?thesis using start_empty_ok[of p0] by (simp add: p0_def)
  qed
  have "p = persist_all_nodes w p1"
    using assms pool_ok_validate[of p1] p1
    by (simp add: init_pool_def flip: p0_def p1_def)
  then show ?thesis using p1 by (simp add: pool_inv_def)
qed

lemma step_inv: "pool_step p q \<Longrightarrow> pool_inv p \<Longrightarrow> pool_inv q"
proof (induction rule: pool_step.induct)
  case (step_add_total p w ns)
  then show ?case using add_total_nodes_ok[of p w ns] last_simps(1)[of w ns p]
    by (auto simp: pool_inv_def)
next
  case (step_add_normal p w ns)
  then show ?case using add_normal_nodes_ok[of p w ns] last_simps(2)[of w ns p]
    by (auto simp: pool_inv_def)
next
  case (step_remove p ns tg)
  then show ?case using remove_abnormal_nodes_ok[of p ns tg] last_simps(3)[of ns tg p]
    by (auto simp: pool_inv_def)
next
  case (step_add_abnormal p w ns)
  then show ?case using add_abnormal_inv[of p w ns] by auto
qed (simp_all add: reset_inv nodeno_inv error_nodes_inv release_inv apply_num_inv apply_list_inv)

section \<open>Properties\<close>

text \<open>A pool for the witnesses: two running nodes, two backup nodes, one abnormal node.\<close>

definition sample_pool :: node_pool where
  "sample_pool = \<lparr> total_nodes = [''a'', ''b'', ''c'', ''d'', ''e''],
     running_nodes = [''b'', ''a''], backup_pool = [''c'', ''d''], abnormal_nodes = [''e''],
     normal_nodes = [''a'', ''b'', ''c'', ''d''], last_running_nodes = [],
     len_running_abnormal_nodes = 0, pool_files = (\<lambda>_. []) \<rparr>"

lemma sample_pool_ok: "pool_ok sample_pool"
  by (simp add: pool_ok_def sample_pool_def clean_def py_strip_def is_ws_def) auto

lemma sample_pool_normal: "normal_ok sample_pool"
  by (simp add: normal_ok_def sample_pool_def) auto

text \<open>
  C1: the partition rule.  In every reachable pool the total nodes are the disjoint union of the
  running, backup and abnormal nodes, without duplicates; in particular no node that is
  isolated as abnormal is running, and the constraint check of the code never fails.
\<close>

theorem reachable_pool_is_partitioned:
  assumes "pool_reachable p"
  shows "pool_ok p \<and> validate_and_fix_constraints p = returns () p"
proof -
  have "pool_inv p" using assms by (induction) (auto intro: init_first step_inv)
  then show ?thesis by (simp add: pool_inv_def pool_ok_validate)
qed

lemma reachable_pool_is_partitioned_witness:
  "\<exists>p. pool_reachable p \<and> pool_ok p \<and> validate_and_fix_constraints p = returns () p"
proof -
  have "init_pool (\<lambda>_. True) [] None (\<lambda>_. []) \<noteq> None" by code_simp
  then obtain p where "init_pool (\<lambda>_. True) [] None (\<lambda>_. []) = Some p" by auto
  then have "pool_reachable p" by (rule reach_init)
  with reachable_pool_is_partitioned [OF this] show ?thesis by blast
qed

text \<open>
  C4: allocation by number.  When the backup nodes that are not fatal suffice, exactly the
  requested number of them is moved from the backup to the running nodes; nodes with a blacklist
  record are only used when the clean ones do not suffice; fatal nodes never are; the partition
  holds afterwards and the isolated nodes stay isolated.
\<close>

theorem apply_node_num_allocates_exactly:
  assumes "pool_ok p" "distinct (last_running_nodes p)" "0 \<le> n" "1 \<le> slots" "w SlotsF"
    and h: "h = {x \<in> set (backup_pool p). map_of (bm_nodes m) x = None}"
    and d: "d = {x \<in> set (backup_pool p). \<exists>nd. map_of (bm_nodes m) x = Some nd \<and> \<not> nr_fatal nd}"
    and n: "n \<le> int (card h) + int (card d)"
  shows "\<exists>new q. apply_node_num_resources (blacklist_query (Some m) now) dec w n slots p =
       returns (case running_nodes p @ new of [] \<Rightarrow> None | x # _ \<Rightarrow> Some x, True) q \<and>
     pool_ok q \<and> running_nodes q = running_nodes p @ new \<and>
     backup_pool q = set_diff (backup_pool p) new \<and> abnormal_nodes q = abnormal_nodes p \<and>
     length new = nat n \<and> distinct new \<and> set new \<subseteq> h \<union> d \<and>
     (n \<le> int (card h) \<longrightarrow> set new \<subseteq> h)"
proof -
  note ok = pool_okD[OF assms(1)]
  obtain hl dl r where av:
    "get_available_nodes_with_blacklist (blacklist_query (Some m) now) (backup_pool p) = (hl, dl, r)"
    by (metis prod_cases3)
  note av' = bq.available_ok[OF ok(14) ok(4) av]
  have hd: "set hl = h" "set dl = d" using available_blacklist[OF ok(14) av] h d by auto
  then have "length hl = card h" "length dl = card d" using av' distinct_card by metis+
  then show ?thesis
    using bq.apply_num_ok[where dec = dec and w = w, OF assms(1-5) av] n hd
    by (fastforce simp: good_choice_def)
qed

lemma apply_node_num_allocates_exactly_witness:
  "\<exists>new q. apply_node_num_resources (blacklist_query (Some sample_mgr) 0) (\<lambda>_. ''8'') (\<lambda>_. True) 2 8 sample_pool =
       returns (case running_nodes sample_pool @ new of [] \<Rightarrow> None | x # _ \<Rightarrow> Some x, True) q \<and>
     length new = 2 \<and> set new \<subseteq> {''c'', ''d''}"
proof -
  have c: "{x \<in> set (backup_pool sample_pool). map_of (bm_nodes sample_mgr) x = None} = {''c'', ''d''}"
    "{x \<in> set (backup_pool sample_pool). \<exists>nd. map_of (bm_nodes sample_mgr) x = Some nd \<and> \<not> nr_fatal nd} = {}"
    by (auto simp: sample_pool_def sample_mgr_def)
  have "distinct (last_running_nodes sample_pool)" by (simp add: sample_pool_def)
  from apply_node_num_allocates_exactly [OF sample_pool_ok this _ _ _ c [symmetric], of 2 8 "\<lambda>_. True" 0 "\<lambda>_. ''8''"]
  show ?thesis by fastforce
qed

text \<open>
  C5: a request the non-fatal backup nodes cannot meet is refused and changes nothing.
\<close>

theorem apply_node_num_refuses_shortage:
  assumes "pool_ok p"
    and "int (card {x \<in> set (backup_pool p).
           \<forall>nd. map_of (bm_nodes m) x = Some nd \<longrightarrow> \<not> nr_fatal nd}) < n"
  shows "apply_node_num_resources (blacklist_query (Some m) now) dec w n slots p
     = returns (None, False) p"
proof -
  note ok = pool_okD[OF assms(1)]
  obtain h d r where av:
    "get_available_nodes_with_blacklist (blacklist_query (Some m) now) (backup_pool p) = (h, d, r)"
    by (metis prod_cases3)
  note av' = bq.available_ok[OF ok(14) ok(4) av]
  have "{x \<in> set (backup_pool p). \<forall>nd. map_of (bm_nodes m) x = Some nd \<longrightarrow> \<not> nr_fatal nd}
      = set h \<union> set d"
    using available_blacklist[OF ok(14) av] by auto
  moreover have "card (set h \<union> set d) = length h + length d"
    using av' by (simp add: card_Un_disjoint distinct_card)
  ultimately show ?thesis using bq.apply_num_short[OF av] assms(2) by simp
qed

lemma apply_node_num_refuses_shortage_witness:
  "apply_node_num_resources (blacklist_query (Some sample_mgr) 0) (\<lambda>_. ''8'') (\<lambda>_. True) 3 8 sample_pool
     = returns (None, False) sample_pool"
proof (rule apply_node_num_refuses_shortage [OF sample_pool_ok])
  have "{x \<in> set (backup_pool sample_pool).
      \<forall>nd. map_of (bm_nodes sample_mgr) x = Some nd \<longrightarrow> \<not> nr_fatal nd} \<subseteq> {''c'', ''d''}"
    by (auto simp: sample_pool_def)
  then have "card {x \<in> set (backup_pool sample_pool).
      \<forall>nd. map_of (bm_nodes sample_mgr) x = Some nd \<longrightarrow> \<not> nr_fatal nd} \<le> card {''c'', ''d''}"
    by (intro card_mono) auto
  then show "int (card {x \<in> set (backup_pool sample_pool).
      \<forall>nd. map_of (bm_nodes sample_mgr) x = Some nd \<longrightarrow> \<not> nr_fatal nd}) < 3" by simp
qed

text \<open>
  C5: recovery keeps the ranks in place.  When a job whose nodes have no blacklist record is
  released and started again with the same number of nodes, it gets exactly its old nodes in
  their old order, so the first node, and with it the master, is the same.
\<close>

theorem restart_reuses_nodes_in_order:
  assumes "pool_ok p" "running_nodes p \<noteq> []" "1 \<le> slots" "w SlotsF"
    and clean: "\<forall>x\<in>set (running_nodes p). map_of (bm_nodes m) x = None"
  shows "\<exists>q. apply_node_num_resources (blacklist_query (Some m) now) dec w
         (int (length (running_nodes p))) slots (release_runing_nodes w p)
       = returns (Some (hd (running_nodes p)), True) q \<and>
     running_nodes q = running_nodes p \<and> set (backup_pool q) = set (backup_pool p)"
proof -
  let ?r = "release_runing_nodes w p" and ?run = "running_nodes p"
  have rok: "pool_ok ?r" and bset: "set (backup_pool ?r) = set ?run \<union> set (backup_pool p)"
    and rrun: "running_nodes ?r = []" using release_ok[OF assms(1)] by auto
  have last: "last_running_nodes ?r = ?run"
    using assms(2) by (simp add: release_runing_nodes_def Let_def)
  note ok = pool_okD[OF assms(1)] and okr = pool_okD[OF rok]
  obtain h d rj where av:
    "get_available_nodes_with_blacklist (blacklist_query (Some m) now) (backup_pool ?r) = (h, d, rj)"
    by (metis prod_cases3)
  note av' = bq.available_ok[OF okr(14) okr(4) av]
  have sub: "set ?run \<subseteq> set h"
    using available_blacklist(1)[OF okr(14) av] clean bset by auto
  have "card (set ?run) \<le> card (set h)" using sub by (intro card_mono) auto
  then have len: "length ?run \<le> length h" using ok(8) av'(1) by (simp add: distinct_card)
  have fl: "filter (\<lambda>x. \<not> (x \<in> set (backup_pool ?r) \<and> x \<in> set h)) ?run = []"
    using sub bset by (auto simp: filter_empty_conv)
  have loop: "recycle_loop (int (length ?run)) (backup_pool ?r) h d False ?run (st, [], backup_pool ?r)
      = returns () (st, [] @ ?run, set_diff (backup_pool ?r) ?run)" for st
    using ok okr sub bset by (intro recycle_same) (auto simp: reusable_def)
  have choose: "choose_nodes (int (length ?run)) h d ?r
      = returns ?run (set_diff (backup_pool ?r) ?run)"
    unfolding choose_nodes_def last Let_def fl using assms(2) loop by simp
  have "set ?run \<subseteq> set (backup_pool ?r)" using bset by simp
  then obtain q where q: "commit_running dec w slots ?run
        (?r\<lparr> backup_pool := set_diff (backup_pool ?r) ?run \<rparr>) =
      returns (case running_nodes ?r @ ?run of [] \<Rightarrow> None | x # _ \<Rightarrow> Some x, True) q"
    "running_nodes q = running_nodes ?r @ ?run"
    "backup_pool q = set_diff (backup_pool ?r) ?run"
    using commit_running_ok[where dec = dec and w = w, OF rok ok(8) _ assms(3,4)] by blast
  show ?thesis
    using q choose av len assms(2) bset rrun ok(10)
    by (cases ?run) (auto simp: apply_node_num_resources_def)
qed

lemma restart_reuses_nodes_in_order_witness:
  "\<exists>q. apply_node_num_resources (blacklist_query (Some sample_mgr) 0) (\<lambda>_. ''8'') (\<lambda>_. True)
         (int (length (running_nodes sample_pool))) 8 (release_runing_nodes (\<lambda>_. True) sample_pool)
       = returns (Some (hd (running_nodes sample_pool)), True) q \<and>
     running_nodes q = [''b'', ''a'']"
proof -
  have "running_nodes sample_pool \<noteq> []"
    "\<forall>x\<in>set (running_nodes sample_pool). map_of (bm_nodes sample_mgr) x = None"
    by (simp_all add: sample_pool_def sample_mgr_def)
  from restart_reuses_nodes_in_order [OF sample_pool_ok this(1) _ _ this(2), of 8 "\<lambda>_. True" 0 "\<lambda>_. ''8''"]
  show ?thesis by (auto simp: sample_pool_def)
qed

text \<open>
  C5: allocation by name.  Every target yields one node: the target itself where it is an unused
  non-fatal backup node not already handed out as a replacement, and another such node otherwise.
\<close>

theorem apply_node_list_substitutes:
  assumes "pool_ok p" "targets \<noteq> []" "1 \<le> slots" "w SlotsF"
    and u: "u = {x \<in> set (backup_pool p). \<forall>nd. map_of (bm_nodes m) x = Some nd \<longrightarrow> \<not> nr_fatal nd}"
    and "length targets \<le> card u"
  shows "\<exists>new q. apply_node_list_resources (blacklist_query (Some m) now) dec w targets slots p =
       returns (case running_nodes p @ new of [] \<Rightarrow> None | x # _ \<Rightarrow> Some x, True) q \<and>
     pool_ok q \<and> running_nodes q = running_nodes p @ new \<and>
     length new = length targets \<and> distinct new \<and> set new \<subseteq> u \<and>
     (\<forall>i < length targets. targets ! i \<in> u \<and> (\<forall>j < i. new ! j \<noteq> targets ! i)
        \<longrightarrow> new ! i = targets ! i)"
proof -
  note ok = pool_okD[OF assms(1)]
  obtain h d r where av:
    "get_available_nodes_with_blacklist (blacklist_query (Some m) now) (backup_pool p) = (h, d, r)"
    by (metis prod_cases3)
  note av' = bq.available_ok[OF ok(14) ok(4) av]
  have ueq: "u = set h \<union> set d" using available_blacklist[OF ok(14) av] u by auto
  then have "card u = length h + length d"
    using av' by (simp add: card_Un_disjoint distinct_card)
  then show ?thesis
    using bq.apply_list_ok[where dec = dec and w = w, OF assms(1-4) av] assms(6) unfolding ueq by fastforce
qed

lemma apply_node_list_substitutes_witness:
  "\<exists>new q. apply_node_list_resources (blacklist_query (Some sample_mgr) 0) (\<lambda>_. ''8'') (\<lambda>_. True)
       [''x'', ''c''] 8 sample_pool =
       returns (case running_nodes sample_pool @ new of [] \<Rightarrow> None | x # _ \<Rightarrow> Some x, True) q \<and>
     length new = 2"
proof -
  have c: "{x \<in> set (backup_pool sample_pool).
      \<forall>nd. map_of (bm_nodes sample_mgr) x = Some nd \<longrightarrow> \<not> nr_fatal nd} = {''c'', ''d''}"
    by (auto simp: sample_pool_def sample_mgr_def)
  from apply_node_list_substitutes [OF sample_pool_ok _ _ _ c [symmetric], of "[''x'', ''c'']" 8 "\<lambda>_. True" 0 "\<lambda>_. ''8''"]
  show ?thesis by fastforce
qed

text \<open>
  C5: isolating nodes.  A non-empty batch of known, not yet abnormal nodes becomes abnormal as a
  whole; if one of them was running, the run is cleared (its nodes are remembered for the
  restart and the healthy ones go back to backup) and the call says so; any other batch changes
  nothing.
\<close>

theorem add_abnormal_nodes_isolates:
  assumes "pool_ok p" and v: "v = deduplicate_and_sort ns"
  shows "(if v = [] \<or> \<not> set v \<subseteq> set (total_nodes p) - set (abnormal_nodes p)
     then add_abnormal_nodes w ns p = returns (False, False, None, None) p
     else \<exists>q. add_abnormal_nodes w ns p =
         returns (if set v \<inter> set (running_nodes p) \<noteq> {}
                  then (True, True, Some v, Some (sort (set_inter v (running_nodes p))))
                  else (True, False, Some v, None)) q \<and>
       pool_ok q \<and> normal_ok q \<and> total_nodes q = total_nodes p \<and>
       set (abnormal_nodes q) = set (abnormal_nodes p) \<union> set v \<and>
       (if set v \<inter> set (running_nodes p) \<noteq> {}
        then running_nodes q = [] \<and> last_running_nodes q = running_nodes p
        else running_nodes q = running_nodes p \<and> last_running_nodes q = last_running_nodes p))"
proof (cases "v = [] \<or> \<not> set v \<subseteq> set (total_nodes p) - set (abnormal_nodes p)")
  case True
  have "\<exists>c. validate_abnormal_candidates p ns = ([], c)"
    using True unfolding validate_abnormal_candidates_def Let_def v [symmetric]
    by (auto simp flip: set_empty)
  then obtain c where c: "validate_abnormal_candidates p ns = ([], c)" by blast
  have "add_abnormal_nodes w ns p = returns (False, False, None, None) p"
    by (simp add: add_abnormal_nodes_def c)
  then show ?thesis using True by (simp only: if_True)
next
  case False
  then have "set_diff v (total_nodes p) = []" "set_inter v (abnormal_nodes p) = []"
    by (auto simp flip: set_empty)
  then have "validate_abnormal_candidates p ns = (v, SUCCESS)"
    by (simp add: validate_abnormal_candidates_def flip: v)
  then show ?thesis using add_abnormal_nodes_eq[OF assms(1), of ns v w] False by simp
qed

lemma add_abnormal_nodes_isolates_witness:
  "\<exists>q. add_abnormal_nodes (\<lambda>_. True) [''a'', '' c''] sample_pool =
     returns (True, True, Some [''a'', ''c''], Some [''a'']) q \<and> running_nodes q = [] \<and>
     last_running_nodes q = [''b'', ''a'']"
proof -
  have v: "deduplicate_and_sort [''a'', '' c''] = [''a'', ''c'']" by code_simp
  have i: "set_inter [''a'', ''c''] (running_nodes sample_pool) = [''a'']"
    by (simp add: set_inter_def sample_pool_def)
  show ?thesis
    using add_abnormal_nodes_isolates [OF sample_pool_ok v [symmetric], of "\<lambda>_. True"]
    unfolding i by (auto simp: sample_pool_def)
qed

text \<open>
  C11: the normal list can lag behind.  \<open>add_total_nodes\<close> puts a new node into the total and the
  backup nodes but does not refresh the normal nodes, and \<open>remove_abnormal_nodes\<close> does not
  either: after a successful call of either the documented rule normal = total - abnormal is
  false, although the rule of the partition holds.
\<close>

theorem normal_nodes_not_synchronised:
  assumes "pool_ok p" "normal_ok p"
  shows "(\<forall>new q. add_total_nodes w ns p = returns (Some new) q \<longrightarrow> pool_ok q \<and> \<not> normal_ok q) \<and>
     (\<forall>q. remove_abnormal_nodes ns tg p = returns (SUCCESS, True) q \<longrightarrow> pool_ok q \<and> \<not> normal_ok q)"
proof (intro conjI allI impI)
  note ok = pool_okD[OF assms(1)]
  have nrm: "set (normal_nodes p) = set (total_nodes p) - set (abnormal_nodes p)"
    using assms(2) by (simp add: normal_ok_def)
  { fix new q assume a: "add_total_nodes w ns p = returns (Some new) q"
    from add_total_nodes_ok[OF assms(1), of w ns] a
    show "pool_ok q" by auto
    from add_total_nodes_ok[OF assms(1), of w ns] a
    have q: "\<not> set (deduplicate_and_sort ns) \<subseteq> set (total_nodes p)"
      "set (total_nodes q) = set (total_nodes p) \<union> set (deduplicate_and_sort ns)"
      "abnormal_nodes q = abnormal_nodes p" "normal_nodes q = normal_nodes p"
      by (auto split: if_splits)
    then obtain x where "x \<in> set (deduplicate_and_sort ns)" "x \<notin> set (total_nodes p)" by blast
    then show "\<not> normal_ok q" unfolding normal_ok_def q nrm using ok(9) by blast }
  { fix q assume a: "remove_abnormal_nodes ns tg p = returns (SUCCESS, True) q"
    then show "pool_ok q" using remove_abnormal_nodes_ok[OF assms(1), of ns tg] by auto
    let ?v = "set_inter (deduplicate_and_sort ns) (abnormal_nodes p)"
    have vn: "?v \<noteq> []" using a by (auto simp: remove_abnormal_nodes_def Let_def split: target_pool.splits if_splits)
    have "normal_nodes q = normal_nodes p \<and> total_nodes q = total_nodes p \<and>
      set (abnormal_nodes q) = (set (abnormal_nodes p) - set ?v) \<inter> set (total_nodes p)"
      using a ok(15) by (auto simp: remove_abnormal_nodes_def Let_def validate_and_fix_constraints_def
          split: target_pool.splits if_splits)
    moreover obtain x where "x \<in> set ?v" using vn by (cases ?v) auto
    ultimately show "\<not> normal_ok q" using nrm ok(9) unfolding normal_ok_def by auto }
qed

lemma normal_nodes_not_synchronised_witness:
  "\<exists>q. add_total_nodes (\<lambda>_. True) [''f''] sample_pool = returns (Some [''f'']) q \<and> \<not> normal_ok q"
proof -
  have d: "deduplicate_and_sort [''f''] = [''f'']" by code_simp
  obtain q where q: "add_total_nodes (\<lambda>_. True) [''f''] sample_pool = returns (Some [''f'']) q"
    using add_total_nodes_ok[OF sample_pool_ok, of "\<lambda>_. True" "[''f'']"]
    by (auto simp: d sample_pool_def set_diff_def)
  with normal_nodes_not_synchronised [OF sample_pool_ok sample_pool_normal, of "\<lambda>_. True" "[''f'']" ToBackup]
  show ?thesis by blast
qed

text \<open>
  C9: a restart restores the pool.  When the last call persisted all files, a new process started
  with the same nodes in its hostfile reads back the same total, backup, abnormal and normal
  nodes and the same set of running nodes; the running list comes back sorted, so its order, and
  with it the master node, may change.
\<close>

theorem restart_restores_pool:
  assumes "pool_ok p" "normal_ok p" "distinct (normal_nodes p)" "sorted (normal_nodes p)"
    and names: "\<forall>n\<in>set (total_nodes p). file_name_ok n"
    and w: "\<forall>f. w f"
    and hf: "deduplicate_and_sort (read_hostfile hostfile) = total_nodes p"
  shows "\<exists>p'. init_pool w' hostfile succ (pool_files (persist_all_nodes w p)) = Some p' \<and>
     total_nodes p' = total_nodes p \<and> backup_pool p' = backup_pool p \<and>
     abnormal_nodes p' = abnormal_nodes p \<and> normal_nodes p' = normal_nodes p \<and>
     running_nodes p' = sort (running_nodes p)"
proof -
  note ok = pool_okD[OF assms(1)]
  have nsub: "set (normal_nodes p) \<subseteq> set (total_nodes p)" using assms(2) by (auto simp: normal_ok_def)
  have rw: "read_hostfile (join_with [CHR 0x0A] ns) = sorted_set ns"
    if "set ns \<subseteq> set (total_nodes p)" for ns
    using that names by (intro read_written) blast
  have subs: "set (backup_pool p) \<subseteq> set (total_nodes p)" "set (abnormal_nodes p) \<subseteq> set (total_nodes p)"
    "set (running_nodes p) \<subseteq> set (total_nodes p)" using ok(9) by auto
  have rd: "read_hostfile (join_with [CHR 0x0A] (total_nodes p)) = total_nodes p"
    "read_hostfile (join_with [CHR 0x0A] (backup_pool p)) = backup_pool p"
    "read_hostfile (join_with [CHR 0x0A] (abnormal_nodes p)) = abnormal_nodes p"
    "read_hostfile (join_with [CHR 0x0A] (normal_nodes p)) = normal_nodes p"
    "read_hostfile (join_with [CHR 0x0A] (running_nodes p)) = sorted_set (running_nodes p)"
    using ok(2-7) assms(3,4) by (simp_all add: rw nsub subs sorted_set_id)
  define p0 where "p0 = \<lparr> total_nodes = total_nodes p, running_nodes = [], backup_pool = [],
      abnormal_nodes = [], normal_nodes = [], last_running_nodes = [],
      len_running_abnormal_nodes = 0, pool_files = pool_files (persist_all_nodes w p) \<rparr>"
  define p1 where "p1 = check_and_sync_total_nodes succ p0"
  have dt: "deduplicate_and_sort (total_nodes p) = total_nodes p" using ok by (simp add: dedup_id)
  have p1: "total_nodes p1 = total_nodes p" "backup_pool p1 = backup_pool p"
    "abnormal_nodes p1 = abnormal_nodes p" "normal_nodes p1 = normal_nodes p"
    "running_nodes p1 = sort (running_nodes p)"
    using ok(8) by (simp_all add: p1_def check_and_sync_total_nodes_def p0_def persist_files[OF w] rd dt
        restore_from_files_def sorted_set_def distinct_remdups_id)
  have "pool_ok p1" using assms(1) by (simp add: pool_ok_def p1)
  then have "init_pool w' hostfile succ (pool_files (persist_all_nodes w p)) = Some (persist_all_nodes w' p1)"
    using pool_ok_validate[of p1] by (simp add: init_pool_def hf flip: p0_def p1_def)
  then show ?thesis using p1 by simp
qed

lemma restart_restores_pool_witness:
  "\<exists>p'. init_pool (\<lambda>_. True) (join_with [CHR 0x0A] (total_nodes sample_pool)) None
       (pool_files (persist_all_nodes (\<lambda>_. True) sample_pool)) = Some p' \<and>
     running_nodes p' = [''a'', ''b'']"
proof -
  have n: "\<forall>n\<in>set (total_nodes sample_pool). file_name_ok n"
    by (simp add: sample_pool_def file_name_ok_def is_ws_def)
  have h: "deduplicate_and_sort (read_hostfile (join_with [CHR 0x0A] (total_nodes sample_pool)))
      = total_nodes sample_pool" by code_simp
  have d: "distinct (normal_nodes sample_pool)" "sorted (normal_nodes sample_pool)"
    by (simp_all add: sample_pool_def)
  have s: "sort (running_nodes sample_pool) = [''a'', ''b'']" by code_simp
  from restart_restores_pool [OF sample_pool_ok sample_pool_normal d n _ h, of "\<lambda>_. True" "\<lambda>_. True" None]
  show ?thesis unfolding s by auto
qed

text \<open>
  C10: the consistency report is exact: it says consistent precisely when the given hosts are the
  pool's running nodes, and its three lists are the differences.
\<close>

theorem consistency_report_exact:
  assumes "pool_ok p"
    and hs: "hs = set (deduplicate_and_sort (filter (\<lambda>n. n \<noteq> []) host))"
  shows "(cs_consistent (validate_running_state_consistency host p) \<longleftrightarrow> hs = set (running_nodes p)) \<and>
     set (cs_invalid (validate_running_state_consistency host p)) = hs - set (total_nodes p) \<and>
     set (cs_added (validate_running_state_consistency host p)) =
       hs \<inter> set (total_nodes p) - set (running_nodes p) \<and>
     set (cs_missing (validate_running_state_consistency host p)) = set (running_nodes p) - hs"
proof -
  note ok = pool_okD[OF assms(1)]
  let ?r = "validate_running_state_consistency host p"
  have c: "clean_list (set_diff (running_nodes p) xs)" for xs using ok(13) by simp
  have sets: "set (cs_invalid ?r) = hs - set (total_nodes p)"
    "set (cs_added ?r) = hs \<inter> set (total_nodes p) - set (running_nodes p)"
    "set (cs_missing ?r) = set (running_nodes p) - hs"
    using ok(9) by (auto simp: validate_running_state_consistency_def Let_def c hs)
  have "cs_consistent ?r \<longleftrightarrow> set (cs_invalid ?r) = {} \<and> set (cs_added ?r) = {} \<and> set (cs_missing ?r) = {}"
    by (simp only: validate_running_state_consistency_def Let_def consistency.select_convs set_empty)
  then show ?thesis unfolding sets using ok(9) by blast
qed

lemma consistency_report_exact_witness:
  "cs_consistent (validate_running_state_consistency ['' a'', ''b''] sample_pool)"
proof -
  have h: "{''a'', ''b''} = set (deduplicate_and_sort (filter (\<lambda>n. n \<noteq> []) ['' a'', ''b'']))"
    by code_simp
  from consistency_report_exact [OF sample_pool_ok h] show ?thesis by (auto simp: sample_pool_def)
qed

end
