(* ===== verification/Kube.thy ===== *)
theory Kube
  imports Complex_Main Prelude
begin

text \<open>
  What the operator (hygon_ft/operator/controller.py) and the recovery job see of Kubernetes.
  The API server is not part of the program: a \<open>kube\<close> record gives its answer to every
  request as an arbitrary function of the requests made before, so a theorem about all
  \<open>kube\<close> values holds for every behaviour of the server, failures and concurrent changes
  included.  A program fragment takes the list of requests made so far and returns its value or
  the exception that escapes it, together with the extended list.

  An absent or null text field of an object is the empty string: the sources test such fields
  by truth value only.
\<close>

section \<open>Objects\<close>

text \<open>\<open>ApiError s m\<close> is ApiException with HTTP status \<open>s\<close>; \<open>OtherError m\<close> any other Exception.\<close>

datatype api_exn = ApiError int string | OtherError string

fun exn_text :: "api_exn \<Rightarrow> string" where
  "exn_text (ApiError s m) = m"
| "exn_text (OtherError m) = m"

record taint =
  t_key :: string
  t_effect :: string
  t_value :: "string option"
  t_time :: "string option"

record pod =
  p_namespace :: string
  p_name :: string
  p_node :: string
  p_phase :: string
  p_role :: string
  p_job :: string

record fault_action =
  want_taint :: "bool option"
  want_delete_pod :: "bool option"
  want_delete_pods :: "bool option"

text \<open>An entry of \<^verbatim>\<open>status.actions\<close>; an action without \<^verbatim>\<open>success\<close> has None.\<close>

record action =
  act_type :: string
  act_success :: "bool option"
  act_namespace :: string
  act_pod :: string
  act_node :: string
  act_job :: string
  act_message :: string

definition no_action :: action where
  "no_action = \<lparr> act_type = [], act_success = None, act_namespace = [], act_pod = [],
     act_node = [], act_job = [], act_message = [] \<rparr>"

record fault_spec =
  fs_type :: "string option"
  fs_severity :: string
  fs_source :: string
  fs_reason :: string
  fs_message :: string
  fs_observed :: string
  fs_node :: string
  fs_pod_ns :: string
  fs_pod :: string
  fs_job :: string
  fs_kind :: string
  fs_role :: string
  fs_class :: string
  fs_confidence :: int
  fs_host :: "string option"
  fs_rank :: "int option"
  fs_local_rank :: "int option"
  fs_exit_code :: "int option"
  fs_action :: fault_action

record fault_event =
  fe_name :: string
  fe_namespace :: string
  fe_created :: string
  fe_spec :: fault_spec
  fe_processed :: bool
  fe_actions :: "action list"

text \<open>A Lease; its spec may be missing, and in it the holder and the renewal time.\<close>

type_synonym lease = "(string option \<times> real option) option"

section \<open>Requests and answers\<close>

datatype request =
    ReadNode string
  | PatchTaints string "taint list"
  | ListPodsOnNode string
  | ListPodsOfJob string string bool
  | ReadPod string string
  | DeletePod string string
  | GetPyTorchJob string string
  | GetFaultEvent string
  | CreateFaultEvent fault_event
  | PatchStatus string "action list" bool
  | ReadLease
  | CreateLease string
  | PatchLease string
  | Alert fault_event "action list"

type_synonym history = "request list"

record kube =
  k_read_node :: "history \<Rightarrow> string \<Rightarrow> api_exn + taint list"
  k_patch_taints :: "history \<Rightarrow> string \<Rightarrow> taint list \<Rightarrow> api_exn + unit"
  k_pods_on_node :: "history \<Rightarrow> string \<Rightarrow> api_exn + pod list"
  k_pods_of_job :: "history \<Rightarrow> string \<Rightarrow> string \<Rightarrow> bool \<Rightarrow> api_exn + pod list"
  k_read_pod :: "history \<Rightarrow> string \<Rightarrow> string \<Rightarrow> api_exn + string"
  k_delete_pod :: "history \<Rightarrow> string \<Rightarrow> string \<Rightarrow> api_exn + unit"
  k_get_pytorchjob :: "history \<Rightarrow> string \<Rightarrow> string \<Rightarrow> api_exn + unit"
  k_get_event :: "history \<Rightarrow> string \<Rightarrow> api_exn + fault_event"
  k_create_event :: "history \<Rightarrow> fault_event \<Rightarrow> api_exn + string"
  k_patch_status :: "history \<Rightarrow> string \<Rightarrow> action list \<Rightarrow> bool \<Rightarrow> api_exn + unit"
  k_read_lease :: "history \<Rightarrow> api_exn + lease"
  k_create_lease :: "history \<Rightarrow> string \<Rightarrow> api_exn + unit"
  k_patch_lease :: "history \<Rightarrow> string \<Rightarrow> api_exn + unit"
  k_alert :: "history \<Rightarrow> api_exn + unit"

type_synonym 'a program = "history \<Rightarrow> (api_exn + 'a) \<times> history"

text \<open>Issue one request: the answer is what the server says after the history so far.\<close>

definition call :: "request \<Rightarrow> (history \<Rightarrow> api_exn + 'a) \<Rightarrow> 'a program" where
  "call r f h = (f h, h @ [r])"

text \<open>\<open>catching p g\<close> is \<^verbatim>\<open>try: p except Exception as exc: g\<close>.\<close>

fun catching :: "(api_exn + 'a) \<times> history \<Rightarrow> (api_exn \<Rightarrow> 'a program) \<Rightarrow> (api_exn + 'a) \<times> history" where
  "catching (Inr a, h) g = (Inr a, h)"
| "catching (Inl e, h) g = g e h"

declare call_def [run_simps] catching.simps [run_simps]

definition finished :: "pod \<Rightarrow> bool" where
  "finished p = (p_phase p \<in> {''Succeeded'', ''Failed''})"

end
