(* ===== verification/FaultPolicy.thy ===== *)
theory FaultPolicy
  imports Kube "HOL-Library.Product_Lexorder"
begin

text \<open>
  The pure decisions of the operator (hygon_ft/operator/controller.py): names, timestamps, the
  class of a fault, the choice of the root fault of a group and the readiness of a processed
  fault for restart.
\<close>

section \<open>Names\<close>

definition name_char :: "char \<Rightarrow> bool" where
  "name_char c = ((CHR ''a'' \<le> c \<and> c \<le> CHR ''z'') \<or> is_digit c \<or> c = CHR ''.'' \<or> c = CHR ''-'')"

text \<open>
  \<open>sub_runs P s\<close> replaces every maximal run of characters outside \<open>P\<close> by one hyphen:
  \<^verbatim>\<open>re.sub\<close> with a negated class and a plus.  \<open>b\<close> says that a run is open.
\<close>

fun sub_runs :: "(char \<Rightarrow> bool) \<Rightarrow> bool \<Rightarrow> string \<Rightarrow> string" where
  "sub_runs P b [] = []"
| "sub_runs P b (c # cs) =
     (if P c then c # sub_runs P False cs
      else if b then sub_runs P True cs
      else CHR ''-'' # sub_runs P True cs)"

definition strip_chars :: "(char \<Rightarrow> bool) \<Rightarrow> string \<Rightarrow> string" where
  "strip_chars P s = rev (dropWhile P (rev (dropWhile P s)))"

definition is_sep :: "char \<Rightarrow> bool" where
  "is_sep c = (c = CHR ''-'' \<or> c = CHR ''.'')"

definition or_unknown :: "string \<Rightarrow> string" where
  "or_unknown s = (if s = [] then ''unknown'' else s)"

definition safe_name :: "string \<Rightarrow> nat \<Rightarrow> string" where
  "safe_name v n =
     or_unknown (strip_chars is_sep
       (take n (or_unknown (strip_chars is_sep (sub_runs name_char False (py_lower v))))))"

definition pod_name_from_host :: "string \<Rightarrow> string" where
  "pod_name_from_host h = takeWhile (\<lambda>c. c \<noteq> CHR ''.'') (py_strip h)"

definition optional_int :: "json \<Rightarrow> int option" where
  "optional_int v = (if v \<in> {JNull, JStr []} then None else json_int v)"

section \<open>Timestamps\<close>

text \<open>
  \<^verbatim>\<open>datetime.fromisoformat\<close> on its documented format: a date, and optionally any character,
  a time with fractions of 3 or 6 digits, and an offset.  Instants are microseconds since
  1970-01-01 UTC; \<open>lz\<close> is the local zone's offset, used for texts without one.
\<close>

definition digits_of :: "nat \<Rightarrow> string \<Rightarrow> nat option" where
  "digits_of n s = (if length s = n \<and> (\<forall>c\<in>set s. is_digit c) then Some (nat_of_digits s) else None)"

definition leap :: "nat \<Rightarrow> bool" where
  "leap y = (y mod 4 = 0 \<and> (y mod 100 \<noteq> 0 \<or> y mod 400 = 0))"

definition days_in_month :: "nat \<Rightarrow> nat \<Rightarrow> nat" where
  "days_in_month y m = (if m = 2 then (if leap y then 29 else 28)
     else if m \<in> {4, 6, 9, 11} then 30 else 31)"

definition days_before_month :: "nat \<Rightarrow> nat \<Rightarrow> nat" where
  "days_before_month y m = sum_list (map (days_in_month y) [1..<m])"

definition date_ordinal :: "nat \<Rightarrow> nat \<Rightarrow> nat \<Rightarrow> nat" where
  "date_ordinal y m d = (let p = y - 1 in
     365 * p + p div 4 - p div 100 + p div 400 + days_before_month y m + d)"

definition parse_date :: "string \<Rightarrow> int option" where
  "parse_date s =
     (case (digits_of 4 (take 4 s), digits_of 2 (take 2 (drop 5 s)), digits_of 2 (drop 8 s)) of
        (Some y, Some m, Some d) \<Rightarrow>
          if s ! 4 = CHR ''-'' \<and> s ! 7 = CHR ''-'' \<and> 1 \<le> y \<and> 1 \<le> m \<and> m \<le> 12
             \<and> 1 \<le> d \<and> d \<le> days_in_month y m
          then Some (int (date_ordinal y m d) - 719163) else None
      | _ \<Rightarrow> None)"

text \<open>\<open>hh[:mm[:ss[.fff[fff]]]]\<close> as hours, minutes, seconds, microseconds.\<close>

definition parse_frac :: "string \<Rightarrow> nat option" where
  "parse_frac s = (if s = [] then Some 0
     else if hd s \<noteq> CHR ''.'' then None
     else if length s = 4 then map_option (\<lambda>n. 1000 * n) (digits_of 3 (tl s))
     else if length s = 7 then digits_of 6 (tl s)
     else None)"

definition parse_clock :: "string \<Rightarrow> (nat \<times> nat \<times> nat \<times> nat) option" where
  "parse_clock s =
     (case digits_of 2 (take 2 s) of
        None \<Rightarrow> None
      | Some h \<Rightarrow> if length s = 2 then Some (h, 0, 0, 0)
          else if s ! 2 \<noteq> CHR '':'' then None
          else (case digits_of 2 (take 2 (drop 3 s)) of
             None \<Rightarrow> None
           | Some m \<Rightarrow> if length s = 5 then Some (h, m, 0, 0)
               else if s ! 5 \<noteq> CHR '':'' then None
               else (case (digits_of 2 (take 2 (drop 6 s)), parse_frac (drop 8 s)) of
                  (Some sec, Some f) \<Rightarrow> Some (h, m, sec, f)
                | _ \<Rightarrow> None)))"

definition micros :: "nat \<times> nat \<times> nat \<times> nat \<Rightarrow> int" where
  "micros t = (case t of (h, m, s, f) \<Rightarrow> int ((h * 3600 + m * 60 + s) * 1000000 + f))"

definition clock_ok :: "nat \<times> nat \<times> nat \<times> nat \<Rightarrow> bool" where
  "clock_ok t = (case t of (h, m, s, f) \<Rightarrow> h < 24 \<and> m < 60 \<and> s < 60)"

text \<open>The time part: the clock, then nothing or a signed offset of less than a day.\<close>

definition is_sign :: "char \<Rightarrow> bool" where
  "is_sign c = (c = CHR ''+'' \<or> c = CHR ''-'')"

definition parse_time_part :: "int \<Rightarrow> string \<Rightarrow> int option" where
  "parse_time_part lz s =
     (case (parse_clock (takeWhile (\<lambda>c. \<not> is_sign c) s), dropWhile (\<lambda>c. \<not> is_sign c) s) of
        (None, _) \<Rightarrow> None
      | (Some t, z) \<Rightarrow>
          if \<not> clock_ok t then None
          else (case z of
             [] \<Rightarrow> Some (micros t - lz)
           | sg # zs \<Rightarrow>
               if length zs \<notin> {5, 8, 15} then None
               else (case parse_clock zs of
                  None \<Rightarrow> None
                | Some u \<Rightarrow>
                    if micros u \<ge> 86400000000 then None
                    else Some (if sg = CHR ''-'' then micros t + micros u
                               else micros t - micros u))))"

definition from_isoformat :: "int \<Rightarrow> string \<Rightarrow> int option" where
  "from_isoformat lz s =
     (case parse_date (take 10 s) of
        None \<Rightarrow> None
      | Some d \<Rightarrow>
          map_option (\<lambda>t. d * 86400000000 + t)
            (if length s = 10 then Some (- lz) else parse_time_part lz (drop 11 s)))"

definition parse_k8s_time :: "int \<Rightarrow> string \<Rightarrow> int" where
  "parse_k8s_time lz v =
     (if v = [] then 0
      else let text = (if last v = CHR ''Z'' then butlast v @ ''+00:00'' else v)
           in case from_isoformat lz text of Some t \<Rightarrow> t | None \<Rightarrow> 0)"

section \<open>Fault classes\<close>

definition fault_class_priority :: "string \<Rightarrow> int option" where
  "fault_class_priority c =
     map_of [(''explicit_node'', 300), (''root_cause'', 200), (''communication'', 100),
             (''generic'', 0)] c"

definition infer_fault_class :: "fault_event \<Rightarrow> string" where
  "infer_fault_class f =
     (let fc = py_lower (fs_class (fe_spec f));
          ft = py_lower (case fs_type (fe_spec f) of Some t \<Rightarrow> t | None \<Rightarrow> [])
      in if fault_class_priority fc \<noteq> None then fc
         else if ft \<in> {''nodehealthcheckfailed'', ''nodenotready'', ''trainingnodefault''}
           then ''explicit_node''
         else if ft = ''trainingrootcause'' then ''root_cause''
         else if contains_sub ''communication'' ft \<or> contains_sub ''connection'' ft
           then ''communication''
         else ''generic'')"

definition class_priority :: "fault_event \<Rightarrow> int" where
  "class_priority f = the (fault_class_priority (infer_fault_class f))"

definition observed_at :: "int \<Rightarrow> fault_event \<Rightarrow> int" where
  "observed_at lz f =
     parse_k8s_time lz (if fs_observed (fe_spec f) \<noteq> [] then fs_observed (fe_spec f)
                        else fe_created f)"

definition root_key :: "int \<Rightarrow> fault_event \<Rightarrow> int \<times> int \<times> string" where
  "root_key lz f = (- class_priority f, observed_at lz f, fe_name f)"

definition select_root_fault :: "int \<Rightarrow> fault_event list \<Rightarrow> fault_event option" where
  "select_root_fault lz fs = (if fs = [] then None else Some (arg_min_list (root_key lz) fs))"

section \<open>Readiness for restart\<close>

definition messages_of :: "action list \<Rightarrow> string" where
  "messages_of as = join_with ''; ''
     (map (\<lambda>a. if act_message a = [] then ''unknown error'' else act_message a) as)"

definition required_actions :: "fault_action \<Rightarrow> string list" where
  "required_actions r =
     (if want_taint r = Some True then [''TaintNode''] else [])
     @ (if want_delete_pod r = Some True \<or> want_delete_pods r = Some True
        then [''DeletePod''] else [])"

fun check_required :: "action list \<Rightarrow> string list \<Rightarrow> bool \<times> bool \<times> string" where
  "check_required as [] = (True, True, ''FaultEvent actions completed'')"
| "check_required as (t # ts) =
     (let matching = filter (\<lambda>a. act_type a = t) as
      in if matching = [] then (True, False, ''required action '' @ t @ '' was not recorded'')
         else if \<not> (\<exists>a\<in>set matching. act_success a = Some True)
         then (True, False, ''required action '' @ t @ '' failed: '' @ messages_of matching)
         else check_required as ts)"

definition fault_event_restart_readiness :: "fault_event \<Rightarrow> bool \<times> bool \<times> string" where
  "fault_event_restart_readiness f =
     (if \<not> fe_processed f then (False, False, ''FaultEvent is still pending'')
      else if \<exists>a\<in>set (fe_actions f). act_type a = ''Suppressed'' \<and> act_success a = Some True
      then (True, True, ''FaultEvent was aggregated under the selected root fault'')
      else let failed = filter (\<lambda>a. act_type a \<in> {''TaintNode'', ''DeletePod''}
                                   \<and> act_success a = Some False) (fe_actions f)
           in if failed \<noteq> []
              then (True, False, ''fault handling action failed: '' @ messages_of failed)
              else check_required (fe_actions f) (required_actions (fs_action (fe_spec f))))"

section \<open>Lemmas\<close>

lemma fault_class_priority_infer: "fault_class_priority (infer_fault_class f) \<noteq> None"
  by (auto simp: infer_fault_class_def fault_class_priority_def Let_def)

lemma arg_min_list_le:
  fixes key :: "'a \<Rightarrow> 'b::linorder"
  shows "xs \<noteq> [] \<Longrightarrow> x \<in> set xs \<Longrightarrow> key (arg_min_list key xs) \<le> key x"
  by (induction key xs rule: arg_min_list.induct) (auto simp: Let_def split: if_splits)

lemma strip_chars_append: "\<exists>a b. s = a @ strip_chars P s @ b"
proof -
  let ?t = "dropWhile P s"
  have "?t = strip_chars P s @ rev (takeWhile P (rev ?t))"
    unfolding strip_chars_def by (metis rev_append rev_rev_ident takeWhile_dropWhile_id)
  then have "s = takeWhile P s @ strip_chars P s @ rev (takeWhile P (rev ?t))"
    by (metis takeWhile_dropWhile_id)
  then show ?thesis by blast
qed

lemma set_strip_chars: "set (strip_chars P s) \<subseteq> set s"
  by (metis strip_chars_append set_append Un_upper1 Un_upper2 subset_trans)

lemma length_strip_chars: "length (strip_chars P s) \<le> length s"
  by (metis strip_chars_append length_append le_add1 le_add2 le_trans)

lemma last_strip_chars: "strip_chars P s \<noteq> [] \<Longrightarrow> \<not> P (last (strip_chars P s))"
  by (simp add: strip_chars_def last_rev hd_dropWhile)

lemma hd_strip_chars:
  assumes "strip_chars P s \<noteq> []" shows "\<not> P (hd (strip_chars P s))"
proof -
  let ?t = "dropWhile P s"
  have t: "?t = strip_chars P s @ rev (takeWhile P (rev ?t))"
    unfolding strip_chars_def by (metis rev_append rev_rev_ident takeWhile_dropWhile_id)
  then have "hd ?t = hd (strip_chars P s)" "?t \<noteq> []"
    using assms by (metis hd_append2, metis append_is_Nil_conv)
  then show ?thesis by (metis hd_dropWhile)
qed

lemma strip_chars_id: "s = [] \<or> (\<not> P (hd s) \<and> \<not> P (last s)) \<Longrightarrow> strip_chars P s = s"
proof (cases s rule: rev_cases)
  case (snoc ys y)
  assume "s = [] \<or> (\<not> P (hd s) \<and> \<not> P (last s))"
  then have "\<not> P y" "dropWhile P s = s" using snoc by (auto simp: dropWhile_eq_self_iff)
  then show ?thesis using snoc by (simp add: strip_chars_def)
qed (simp add: strip_chars_def)

lemma strip_chars_hd_nonempty:
  assumes "s \<noteq> []" "\<not> P (hd s)" shows "strip_chars P s \<noteq> []"
proof -
  have "dropWhile P s = s" using assms by (cases s) auto
  then show ?thesis using assms
    by (simp add: strip_chars_def) (metis hd_in_set dropWhile_eq_Nil_conv set_rev)
qed

lemma set_sub_runs: "P CHR ''-'' \<Longrightarrow> c \<in> set (sub_runs P b s) \<Longrightarrow> P c"
  by (induction P b s rule: sub_runs.induct) (auto split: if_splits)

lemma sub_runs_id: "\<forall>c\<in>set s. P c \<Longrightarrow> sub_runs P b s = s"
  by (induction s arbitrary: b) auto

lemma name_char_lower: "name_char c \<Longrightarrow> lower_char c = c"
  by (auto simp: name_char_def lower_char_def is_upper_def is_digit_def less_eq_char_def)

lemma py_lower_id: "\<forall>c\<in>set s. name_char c \<Longrightarrow> py_lower s = s"
  by (simp add: py_lower_def map_idI name_char_lower)

definition good_name :: "string \<Rightarrow> bool" where
  "good_name s = (s \<noteq> [] \<and> (\<forall>c\<in>set s. name_char c) \<and> \<not> is_sep (hd s) \<and> \<not> is_sep (last s))"

lemma good_name_or_unknown:
  "(\<forall>c\<in>set s. name_char c) \<Longrightarrow> good_name (or_unknown (strip_chars is_sep s))"
proof -
  assume a: "\<forall>c\<in>set s. name_char c"
  have u: "good_name ''unknown''" by code_simp
  show ?thesis
  proof (cases "strip_chars is_sep s = []")
    case True then show ?thesis using u by (simp add: or_unknown_def)
  next
    case False
    then show ?thesis
      using a set_strip_chars [of is_sep s] hd_strip_chars [OF False] last_strip_chars [OF False]
      by (auto simp: or_unknown_def good_name_def)
  qed
qed

lemma good_name_id: "good_name s \<Longrightarrow> or_unknown (strip_chars is_sep s) = s"
  by (simp add: strip_chars_id good_name_def or_unknown_def)

lemma safe_name_id:
  assumes "good_name s" "length s \<le> n" shows "safe_name s n = s"
proof -
  have "sub_runs name_char False (py_lower s) = s"
    using assms by (simp add: good_name_def py_lower_id sub_runs_id)
  then show ?thesis using assms by (simp add: safe_name_def good_name_id)
qed

lemma safe_name_take:
  assumes "0 < n"
  shows "good_name (safe_name v n) \<and> length (safe_name v n) \<le> n"
proof -
  let ?t = "or_unknown (strip_chars is_sep (sub_runs name_char False (py_lower v)))"
  have "name_char CHR ''-''" by code_simp
  then have g: "good_name ?t"
    by (intro good_name_or_unknown) (auto dest: set_sub_runs)
  then have t: "\<forall>c\<in>set (take n ?t). name_char c" "take n ?t \<noteq> []" "\<not> is_sep (hd (take n ?t))"
    using assms by (auto simp: good_name_def dest: in_set_takeD)
  have "strip_chars is_sep (take n ?t) \<noteq> []" using t(2,3) by (rule strip_chars_hd_nonempty)
  then have "length (safe_name v n) \<le> n"
    using length_strip_chars [of is_sep "take n ?t"] by (simp add: safe_name_def or_unknown_def)
  then show ?thesis using good_name_or_unknown [OF t(1)] by (simp add: safe_name_def)
qed

lemma check_required_iff:
  "fst (snd (check_required as ts)) \<longleftrightarrow>
     (\<forall>t\<in>set ts. \<exists>a\<in>set as. act_type a = t \<and> act_success a = Some True)"
  by (induction as ts rule: check_required.induct) (auto simp: Let_def filter_empty_conv)

lemma check_required_fst: "fst (check_required as ts)"
  by (induction as ts rule: check_required.induct) (auto simp: Let_def)

lemma readiness_processed: "fst (fault_event_restart_readiness f) = fe_processed f"
  by (simp add: fault_event_restart_readiness_def Let_def check_required_fst)

lemma readiness_ready:
  "fst (snd (fault_event_restart_readiness f)) \<longleftrightarrow> fe_processed f \<and>
     ((\<exists>a\<in>set (fe_actions f). act_type a = ''Suppressed'' \<and> act_success a = Some True)
      \<or> ((\<forall>a\<in>set (fe_actions f). act_type a \<in> {''TaintNode'', ''DeletePod''}
            \<longrightarrow> act_success a \<noteq> Some False)
         \<and> fst (snd (check_required (fe_actions f) (required_actions (fs_action (fe_spec f)))))))"
proof -
  let ?P = "\<lambda>a. act_type a \<in> {''TaintNode'', ''DeletePod''} \<and> act_success a = Some False"
  have "filter ?P (fe_actions f) = [] \<longleftrightarrow> (\<forall>a\<in>set (fe_actions f).
     act_type a \<in> {''TaintNode'', ''DeletePod''} \<longrightarrow> act_success a \<noteq> Some False)"
    by (simp only: filter_empty_conv) blast
  then show ?thesis
    unfolding fault_event_restart_readiness_def Let_def by (simp del: insert_iff) blast
qed

section \<open>Properties\<close>

text \<open>
  C24: the root fault of a group.  A non-empty group has one; no other fault has a higher class
  priority, among those of the same class none was observed earlier, and ties go to the smaller
  event name.
\<close>

theorem select_root_fault_optimal:
  assumes "fs \<noteq> []"
  shows "\<exists>w\<in>set fs. select_root_fault lz fs = Some w \<and>
    (\<forall>f\<in>set fs. class_priority f \<le> class_priority w
       \<and> (class_priority f = class_priority w \<longrightarrow> observed_at lz w \<le> observed_at lz f
            \<and> (observed_at lz f = observed_at lz w \<longrightarrow> fe_name w \<le> fe_name f)))"
proof -
  let ?w = "arg_min_list (root_key lz) fs"
  have "?w \<in> set fs" using assms by (rule arg_min_list_in)
  moreover have "root_key lz ?w \<le> root_key lz f" if "f \<in> set fs" for f
    using assms that by (rule arg_min_list_le)
  ultimately show ?thesis using assms
    by (intro bexI [of _ ?w]) (fastforce simp: select_root_fault_def root_key_def)+
qed

definition sample_spec :: fault_spec where
  "sample_spec = \<lparr> fs_type = Some ''TrainingFault'', fs_severity = ''Critical'', fs_source = [],
     fs_reason = [], fs_message = [], fs_observed = ''2026-01-01T00:00:00Z'', fs_node = ''n1'',
     fs_pod_ns = ''train'', fs_pod = ''job-worker-0'', fs_job = ''job'', fs_kind = ''PyTorchJob'',
     fs_role = ''worker'', fs_class = [], fs_confidence = 0, fs_host = None, fs_rank = None,
     fs_local_rank = None, fs_exit_code = None,
     fs_action = \<lparr> want_taint = Some True, want_delete_pod = Some True, want_delete_pods = None \<rparr> \<rparr>"

definition sample_fault :: "string \<Rightarrow> string \<Rightarrow> string \<Rightarrow> fault_event" where
  "sample_fault name ty obs = \<lparr> fe_name = name, fe_namespace = ''train'', fe_created = [],
     fe_spec = sample_spec\<lparr> fs_type := Some ty, fs_observed := obs \<rparr>, fe_processed = False,
     fe_actions = [] \<rparr>"

lemmas iso_time_simps = parse_k8s_time_def from_isoformat_def parse_date_def digits_of_def
  nat_of_digits_def digit_val_def is_digit_def date_ordinal_def days_in_month_def
  days_before_month_def leap_def parse_time_part_def parse_clock_def parse_frac_def micros_def
  clock_ok_def is_sign_def less_eq_char_def Let_def

lemma parse_sample_1: "parse_k8s_time 0 ''2026-01-01T00:00:00Z'' = 1767225600000000"
  by (simp add: iso_time_simps)

lemma parse_sample_2: "parse_k8s_time 0 ''2026-01-01T09:00:05+08:00'' = 1767229205000000"
  by (simp add: iso_time_simps)

definition sample_faults :: "fault_event list" where
  "sample_faults = [sample_fault ''a'' ''ConnectionLost'' ''2026-01-01T00:00:00Z'',
     sample_fault ''b'' ''TrainingRootCause'' ''2026-01-01T09:00:05+08:00'',
     sample_fault ''c'' ''TrainingRootCause'' ''2026-01-01T00:00:00Z'']"

lemma class_sample: "map infer_fault_class sample_faults = [''communication'', ''root_cause'', ''root_cause'']"
  by code_simp

theorem select_root_fault_optimal_witness:
  "map_option fe_name (select_root_fault 0 sample_faults) = Some ''c'' \<and>
   (\<exists>w\<in>set sample_faults. select_root_fault 0 sample_faults = Some w
      \<and> (\<forall>f\<in>set sample_faults. class_priority f \<le> class_priority w))"
proof
  have "sample_faults \<noteq> []" by (simp add: sample_faults_def)
  from select_root_fault_optimal [OF this, of 0]
  show "\<exists>w\<in>set sample_faults. select_root_fault 0 sample_faults = Some w
      \<and> (\<forall>f\<in>set sample_faults. class_priority f \<le> class_priority w)" by blast
  have "map class_priority sample_faults = [100, 200, 200]"
    using class_sample by (simp add: sample_faults_def class_priority_def fault_class_priority_def)
  then show "map_option fe_name (select_root_fault 0 sample_faults) = Some ''c''"
    by (simp add: select_root_fault_def sample_faults_def root_key_def observed_at_def
        sample_fault_def sample_spec_def parse_sample_1 parse_sample_2 Let_def)
qed

text \<open>
  C25: a launcher may restart exactly when the event is processed and either it was suppressed in
  favour of the root fault, or no recorded taint or pod deletion failed and every action the
  event asked for was recorded as a success.
\<close>

theorem restart_readiness_exact:
  "fst (fault_event_restart_readiness f) = fe_processed f \<and>
   (fst (snd (fault_event_restart_readiness f)) \<longleftrightarrow>
      fe_processed f \<and>
      ((\<exists>a\<in>set (fe_actions f). act_type a = ''Suppressed'' \<and> act_success a = Some True)
       \<or> ((\<forall>a\<in>set (fe_actions f). act_type a \<in> {''TaintNode'', ''DeletePod''}
              \<longrightarrow> act_success a \<noteq> Some False)
          \<and> (want_taint (fs_action (fe_spec f)) = Some True \<longrightarrow>
               (\<exists>a\<in>set (fe_actions f). act_type a = ''TaintNode'' \<and> act_success a = Some True))
          \<and> (want_delete_pod (fs_action (fe_spec f)) = Some True
               \<or> want_delete_pods (fs_action (fe_spec f)) = Some True \<longrightarrow>
               (\<exists>a\<in>set (fe_actions f). act_type a = ''DeletePod'' \<and> act_success a = Some True)))))"
  unfolding readiness_processed readiness_ready check_required_iff by (auto simp: required_actions_def)

theorem restart_readiness_exact_witness:
  "fst (snd (fault_event_restart_readiness
     ((sample_fault ''a'' ''TrainingFault'' [])\<lparr> fe_processed := True,
        fe_actions := [no_action\<lparr> act_type := ''TaintNode'', act_success := Some True \<rparr>,
                       no_action\<lparr> act_type := ''DeletePod'', act_success := Some True \<rparr>] \<rparr>)))
   \<and> \<not> fst (snd (fault_event_restart_readiness
     ((sample_fault ''a'' ''TrainingFault'' [])\<lparr> fe_processed := True,
        fe_actions := [no_action\<lparr> act_type := ''TaintNode'', act_success := Some True \<rparr>,
                       no_action\<lparr> act_type := ''ListPods'', act_success := Some False \<rparr>] \<rparr>)))"
  by (simp add: restart_readiness_exact sample_fault_def sample_spec_def no_action_def)

text \<open>
  C40: the name part of a generated event is fit for a Kubernetes name: not empty, no longer than
  the bound, of lower-case letters, digits, dots and hyphens, with neither a dot nor a hyphen at
  either end; and a name that is already valid is kept.
\<close>

theorem safe_name_valid:
  assumes "0 < n"
  shows "safe_name v n \<noteq> [] \<and> length (safe_name v n) \<le> n
    \<and> (\<forall>c\<in>set (safe_name v n). name_char c)
    \<and> \<not> is_sep (hd (safe_name v n)) \<and> \<not> is_sep (last (safe_name v n))
    \<and> safe_name (safe_name v n) n = safe_name v n"
  using safe_name_take [OF assms, of v] safe_name_id [of "safe_name v n" n]
  by (auto simp: good_name_def)

theorem safe_name_valid_witness:
  "length (safe_name ''GPU_Node--01.Rack_7'' 12) \<le> 12 \<and> safe_name ''GPU_Node--01.Rack_7'' 12 = ''gpu-node--01''"
proof -
  have "safe_name ''GPU_Node--01.Rack_7'' 12 = ''gpu-node--01''" by code_simp
  then show ?thesis using safe_name_valid [of 12 "''GPU_Node--01.Rack_7''"] by simp
qed

end
