(* ===== verification/Operator.thy ===== *)
theory Operator
  imports FaultPolicy "HOL-Library.AList"
begin

text \<open>
  The FaultEvent controller (hygon_ft/operator/controller.py, class FaultController): node
  taints, pod deletion, fault processing, the aggregation of the faults of one job, the reports
  of the launchers, the NotReady watch and the leader lease.  A handler runs atomically between
  two events; times are arguments.
\<close>

record op_cfg =
  oc_namespace :: string
  oc_identity :: string
  oc_taint_key :: string
  oc_taint_effect :: string
  oc_delete_after_taint :: bool
  oc_alerts :: bool
  oc_lease_seconds :: int
  oc_grace :: int
  oc_window :: real
  oc_ranks_per_pod :: int
  oc_zone :: int

section \<open>Taints and pod deletion\<close>

definition taint_action :: "string \<Rightarrow> bool \<Rightarrow> string \<Rightarrow> action" where
  "taint_action node ok msg = no_action\<lparr> act_type := ''TaintNode'', act_node := node,
     act_success := Some ok, act_message := msg \<rparr>"

definition has_own_taint :: "op_cfg \<Rightarrow> taint list \<Rightarrow> bool" where
  "has_own_taint c ts = (\<exists>t\<in>set ts. t_key t = oc_taint_key c \<and> t_effect t = oc_taint_effect c)"

definition own_taint :: "op_cfg \<Rightarrow> string \<Rightarrow> taint" where
  "own_taint c reason = \<lparr> t_key = oc_taint_key c, t_effect = oc_taint_effect c,
     t_value = Some reason, t_time = None \<rparr>"

definition taint_node :: "op_cfg \<Rightarrow> kube \<Rightarrow> string \<Rightarrow> string \<Rightarrow> action program" where
  "taint_node c k node reason h =
     catching
       (on_return (call (ReadNode node) (\<lambda>h. k_read_node k h node) h) (\<lambda>ts h.
          if has_own_taint c ts
          then (Inr (taint_action node True (oc_taint_key c)), h)
          else let ts' = ts @ [own_taint c reason]
               in on_return (call (PatchTaints node ts') (\<lambda>h. k_patch_taints k h node ts') h)
                    (\<lambda>_ h. (Inr (taint_action node True (oc_taint_key c)), h))))
       (\<lambda>e h. (Inr (taint_action node False (exn_text e)), h))"

text \<open>
  The loop shared by the deletions: finished pods are skipped, a pod that is already gone is not
  reported, an API error is recorded, any other exception escapes.  \<open>mk\<close> builds the action.
\<close>

fun delete_loop :: "kube \<Rightarrow> (pod \<Rightarrow> action) \<Rightarrow> pod list \<Rightarrow> action list \<Rightarrow> action list program" where
  "delete_loop k mk [] acts h = (Inr acts, h)"
| "delete_loop k mk (p # ps) acts h =
     (if finished p then delete_loop k mk ps acts h
      else case call (DeletePod (p_namespace p) (p_name p))
                  (\<lambda>h. k_delete_pod k h (p_namespace p) (p_name p)) h of
          (Inr _, h1) \<Rightarrow>
            delete_loop k mk ps (acts @ [(mk p)\<lparr> act_success := Some True \<rparr>]) h1
        | (Inl (ApiError s m), h1) \<Rightarrow>
            if s = 404 then delete_loop k mk ps acts h1
            else delete_loop k mk ps
                   (acts @ [(mk p)\<lparr> act_success := Some False, act_message := m \<rparr>]) h1
        | (Inl (OtherError m), h1) \<Rightarrow> (Inl (OtherError m), h1))"

definition delete_action :: "string \<Rightarrow> string \<Rightarrow> string \<Rightarrow> string \<Rightarrow> action" where
  "delete_action ns p node job = no_action\<lparr> act_type := ''DeletePod'', act_namespace := ns,
     act_pod := p, act_node := node, act_job := job \<rparr>"

definition list_failed :: "string \<Rightarrow> api_exn \<Rightarrow> action list" where
  "list_failed node e = [no_action\<lparr> act_type := ''ListPods'', act_node := node,
     act_success := Some False, act_message := exn_text e \<rparr>]"

definition or_nothing_done :: "action \<Rightarrow> string \<Rightarrow> action list \<Rightarrow> action list" where
  "or_nothing_done a msg acts =
     (if acts = [] then [a\<lparr> act_success := Some True, act_message := msg \<rparr>] else acts)"

definition delete_ft_pods_on_node :: "kube \<Rightarrow> string \<Rightarrow> action list program" where
  "delete_ft_pods_on_node k node h =
     (case call (ListPodsOnNode node) (\<lambda>h. k_pods_on_node k h node) h of
        (Inl e, h1) \<Rightarrow> (Inr (list_failed node e), h1)
      | (Inr pods, h1) \<Rightarrow>
          on_return (delete_loop k (\<lambda>p. delete_action (p_namespace p) (p_name p) node []) pods [] h1)
            (\<lambda>acts h. (Inr (or_nothing_done (delete_action [] [] node []) ''no ft pods'' acts), h)))"

definition delete_ft_job_pods :: "kube \<Rightarrow> string \<Rightarrow> string \<Rightarrow> action list program" where
  "delete_ft_job_pods k ns job h =
     (case call (ListPodsOfJob ns job True) (\<lambda>h. k_pods_of_job k h ns job True) h of
        (Inl e, h1) \<Rightarrow>
          (Inr [(delete_action ns [] [] job)\<lparr> act_success := Some False,
                  act_message := ''list job pods failed: '' @ exn_text e \<rparr>], h1)
      | (Inr pods, h1) \<Rightarrow>
          on_return (delete_loop k (\<lambda>p. delete_action ns (p_name p) [] job)
                       (map (\<lambda>p. p\<lparr> p_namespace := ns \<rparr>) pods) [] h1)
            (\<lambda>acts h. (Inr (or_nothing_done (delete_action ns [] [] job)
                             ''no active PyTorchJob pods'' acts), h)))"

text \<open>The jobs of the unfinished pods, each once, in the order of their first pod.\<close>

fun jobs_of_pods :: "pod list \<Rightarrow> (string \<times> string) list \<Rightarrow> (string \<times> string) list" where
  "jobs_of_pods [] jobs = jobs"
| "jobs_of_pods (p # ps) jobs =
     (if finished p then jobs_of_pods ps jobs
      else if p_job p = [] \<or> p_namespace p = [] then jobs_of_pods ps jobs
      else if (p_namespace p, p_job p) \<in> set jobs then jobs_of_pods ps jobs
      else jobs_of_pods ps (jobs @ [(p_namespace p, p_job p)]))"

fun delete_jobs :: "kube \<Rightarrow> (string \<times> string) list \<Rightarrow> action list \<Rightarrow> action list program" where
  "delete_jobs k [] acts h = (Inr acts, h)"
| "delete_jobs k ((ns, job) # js) acts h =
     on_return (delete_ft_job_pods k ns job h) (\<lambda>as h. delete_jobs k js (acts @ as) h)"

definition delete_ft_jobs_for_node :: "kube \<Rightarrow> string \<Rightarrow> action list program" where
  "delete_ft_jobs_for_node k node h =
     (case call (ListPodsOnNode node) (\<lambda>h. k_pods_on_node k h node) h of
        (Inl e, h1) \<Rightarrow> (Inr (list_failed node e), h1)
      | (Inr pods, h1) \<Rightarrow>
          on_return (delete_jobs k (jobs_of_pods pods []) [] h1)
            (\<lambda>acts h. (Inr (or_nothing_done (delete_action [] [] node []) ''no ft job pods'' acts), h)))"

definition delete_named_pod :: "kube \<Rightarrow> string \<Rightarrow> string \<Rightarrow> string \<Rightarrow> action program" where
  "delete_named_pod k ns p node h =
     (case call (DeletePod ns p) (\<lambda>h. k_delete_pod k h ns p) h of
        (Inr _, h1) \<Rightarrow> (Inr ((delete_action ns p node [])\<lparr> act_success := Some True \<rparr>), h1)
      | (Inl (ApiError s m), h1) \<Rightarrow>
          (Inr ((delete_action ns p node [])\<lparr> act_success := Some (s = 404),
             act_message := (if s = 404 then ''pod already deleted'' else m) \<rparr>), h1)
      | (Inl (OtherError m), h1) \<Rightarrow> (Inl (OtherError m), h1))"

definition should_restart_entire_job :: "kube \<Rightarrow> string \<Rightarrow> string \<Rightarrow> string \<Rightarrow> bool program" where
  "should_restart_entire_job k ns job kind h =
     (if py_lower kind = ''volcanojob'' then (Inr False, h)
      else if py_lower kind = ''pytorchjob'' then (Inr True, h)
      else case call (GetPyTorchJob ns job) (\<lambda>h. k_get_pytorchjob k h ns job) h of
          (Inr _, h1) \<Rightarrow> (Inr True, h1)
        | (Inl (ApiError s m), h1) \<Rightarrow> (Inr (s \<noteq> 404), h1)
        | (Inl (OtherError m), h1) \<Rightarrow> (Inr True, h1))"

section \<open>Processing one fault\<close>

definition patch_status :: "kube \<Rightarrow> string \<Rightarrow> action list \<Rightarrow> bool \<Rightarrow> unit program" where
  "patch_status k name acts done h =
     (if name = [] then (Inr (), h)
      else case call (PatchStatus name acts done) (\<lambda>h. k_patch_status k h name acts done) h of
          (Inr _, h1) \<Rightarrow> (Inr (), h1)
        | (Inl (ApiError s m), h1) \<Rightarrow> (Inr (), h1)
        | (Inl (OtherError m), h1) \<Rightarrow> (Inl (OtherError m), h1))"

text \<open>
  \<open>send_alert\<close>: nothing unless a command or a webhook is configured; the errors it does not
  catch escape.
\<close>

definition send_alert :: "op_cfg \<Rightarrow> kube \<Rightarrow> fault_event \<Rightarrow> action list \<Rightarrow> unit program" where
  "send_alert c k f acts h =
     (if oc_alerts c then call (Alert f acts) (\<lambda>h. k_alert k h) h else (Inr (), h))"

definition skip_action :: action where
  "skip_action = no_action\<lparr> act_type := ''Skip'',
     act_message := ''spec.nodeName and spec.podName are both empty'' \<rparr>"

definition pod_namespace :: "fault_event \<Rightarrow> string" where
  "pod_namespace f =
     (if fs_pod_ns (fe_spec f) \<noteq> [] then fs_pod_ns (fe_spec f) else fe_namespace f)"

definition taint_requested :: "fault_event \<Rightarrow> bool" where
  "taint_requested f = (fs_node (fe_spec f) \<noteq> []
     \<and> want_taint (fs_action (fe_spec f)) \<noteq> Some False)"

definition delete_after_taint :: "op_cfg \<Rightarrow> fault_event \<Rightarrow> bool \<Rightarrow> bool" where
  "delete_after_taint c f tainted =
     (oc_delete_after_taint c \<and> taint_requested f \<and> tainted
      \<and> fs_type (fe_spec f)
          \<in> {Some ''TrainingRootCause'', Some ''TrainingNodeFault'', Some ''NodeHealthCheckFailed''}
      \<and> py_lower (fs_kind (fe_spec f)) \<in> {[], ''pytorchjob''})"

definition taint_failed_action :: "fault_event \<Rightarrow> action" where
  "taint_failed_action f =
     (delete_action (pod_namespace f) (fs_pod (fe_spec f)) (fs_node (fe_spec f)) [])
       \<lparr> act_success := Some False, act_message := ''skip delete because node taint failed'' \<rparr>"

text \<open>The taint step: the actions so far and whether the taint succeeded.\<close>

definition taint_step :: "op_cfg \<Rightarrow> kube \<Rightarrow> fault_event \<Rightarrow> (action list \<times> bool) program" where
  "taint_step c k f h =
     (if taint_requested f
      then on_return (taint_node c k (fs_node (fe_spec f))
               (case fs_type (fe_spec f) of Some t \<Rightarrow> t | None \<Rightarrow> ''NodeUnhealthy'') h)
             (\<lambda>a h. (Inr ([a], act_success a = Some True), h))
      else (Inr ([], False), h))"

text \<open>The choice of what to delete; the first condition short-circuits before it asks the API.\<close>

definition delete_step ::
    "op_cfg \<Rightarrow> kube \<Rightarrow> fault_event \<Rightarrow> bool \<Rightarrow> action list program" where
  "delete_step c k f tainted h =
     (let sp = fe_spec f; ns = pod_namespace f; after = delete_after_taint c f tainted in
      on_return
        (if after \<and> ns \<noteq> [] \<and> fs_job sp \<noteq> []
         then should_restart_entire_job k ns (fs_job sp) (fs_kind sp) h else (Inr False, h))
        (\<lambda>whole h.
          if whole then delete_ft_job_pods k ns (fs_job sp) h
          else if fs_pod sp \<noteq> [] \<and> (want_delete_pod (fs_action sp) = Some True \<or> after)
          then on_return (delete_named_pod k ns (fs_pod sp) (fs_node sp) h) (\<lambda>a h. (Inr [a], h))
          else if fs_node sp \<noteq> [] \<and> (want_delete_pods (fs_action sp) = Some True \<or> after)
          then (if after then delete_ft_jobs_for_node k (fs_node sp) h
                else delete_ft_pods_on_node k (fs_node sp) h)
          else if taint_requested f \<and> \<not> tainted \<and> oc_delete_after_taint c
          then (Inr [taint_failed_action f], h)
          else (Inr [], h)))"

definition conclude :: "op_cfg \<Rightarrow> kube \<Rightarrow> fault_event \<Rightarrow> action list \<Rightarrow> unit program" where
  "conclude c k f acts h =
     on_return (patch_status k (fe_name f) acts True h) (\<lambda>_ h. send_alert c k f acts h)"

definition process_fault :: "op_cfg \<Rightarrow> kube \<Rightarrow> fault_event \<Rightarrow> unit program" where
  "process_fault c k f h =
     (if fs_node (fe_spec f) = [] \<and> fs_pod (fe_spec f) = [] then conclude c k f [skip_action] h
      else on_return (taint_step c k f h) (\<lambda>(acts, tainted) h.
             on_return (delete_step c k f tainted h) (\<lambda>dels h.
               conclude c k f (acts @ dels) h)))"

section \<open>Aggregation\<close>

text \<open>
  The object's state: leadership, the NotReady bookkeeping, the pending faults of each group (a
  dict of dicts, in insertion order), the keys of the timer dict, and the groups of the timer
  threads that are alive.
\<close>

record op_state =
  os_leader :: bool
  os_since :: "(string \<times> real) list"
  os_sent :: "string list"
  os_pending :: "(string \<times> (string \<times> fault_event) list) list"
  os_timers :: "string list"
  os_alive :: "string list"

definition init_operator :: "bool \<Rightarrow> op_state" where
  "init_operator election = \<lparr> os_leader = (\<not> election), os_since = [], os_sent = [],
     os_pending = [], os_timers = [], os_alive = [] \<rparr>"

definition group_key :: "op_cfg \<Rightarrow> fault_event \<Rightarrow> string" where
  "group_key c f = (if fe_namespace f \<noteq> [] then fe_namespace f else oc_namespace c)
     @ ''/'' @ fs_job (fe_spec f)"

definition pending_of :: "op_state \<Rightarrow> string \<Rightarrow> (string \<times> fault_event) list" where
  "pending_of s g = (case map_of (os_pending s) g of Some p \<Rightarrow> p | None \<Rightarrow> [])"

definition start_timer :: "string \<Rightarrow> op_state \<Rightarrow> op_state" where
  "start_timer g s = s\<lparr> os_timers := List.insert g (os_timers s), os_alive := g # os_alive s \<rparr>"

definition add_pending :: "op_cfg \<Rightarrow> fault_event \<Rightarrow> op_state \<Rightarrow> op_state" where
  "add_pending c f s =
     (let g = group_key c f;
          s1 = s\<lparr> os_pending :=
                 AList.update g (AList.update (fe_name f) f (pending_of s g)) (os_pending s) \<rparr>
      in if g \<in> set (os_timers s) then s1 else start_timer g s1)"

definition reconcile ::
    "op_cfg \<Rightarrow> kube \<Rightarrow> fault_event \<Rightarrow> op_state \<times> history
      \<Rightarrow> (api_exn + unit) \<times> (op_state \<times> history)" where
  "reconcile c k f sh = (case sh of (s, h) \<Rightarrow>
     if fe_processed f then (Inr (), s, h)
     else if fs_job (fe_spec f) = [] \<or> oc_window c \<le> 0
     then (case process_fault c k f h of (r, h1) \<Rightarrow> (r, s, h1))
     else (Inr (), add_pending c f s, h))"

text \<open>One event of the watch stream: other types and the events of a standby are ignored.\<close>

definition watch_event ::
    "op_cfg \<Rightarrow> kube \<Rightarrow> string \<Rightarrow> fault_event \<Rightarrow> op_state \<times> history
      \<Rightarrow> (api_exn + unit) \<times> (op_state \<times> history)" where
  "watch_event c k ty f sh =
     (if os_leader (fst sh) \<and> ty \<in> {''ADDED'', ''MODIFIED''} then reconcile c k f sh
      else (Inr (), sh))"

definition suppressed_action :: "fault_event \<Rightarrow> action" where
  "suppressed_action w = no_action\<lparr> act_type := ''Suppressed'', act_success := Some True,
     act_message := ''aggregated under '' @ fe_name w @ '' ('' @ infer_fault_class w @ '')'' \<rparr>"

fun suppress_losers :: "kube \<Rightarrow> fault_event \<Rightarrow> fault_event list \<Rightarrow> unit program" where
  "suppress_losers k w [] h = (Inr (), h)"
| "suppress_losers k w (f # fs) h =
     (if fe_name f = [] \<or> fe_name f = fe_name w then suppress_losers k w fs h
      else on_return (patch_status k (fe_name f) [suppressed_action w] True h)
             (\<lambda>_ h. suppress_losers k w fs h))"

definition settle_group :: "op_cfg \<Rightarrow> kube \<Rightarrow> fault_event list \<Rightarrow> unit program" where
  "settle_group c k fs h =
     (case select_root_fault (oc_zone c) fs of
        None \<Rightarrow> (Inr (), h)
      | Some w \<Rightarrow> on_return (process_fault c k w h) (\<lambda>_ h. suppress_losers k w fs h))"

text \<open>
  A timer thread of the group runs: it is no longer alive, and a standby starts a new one.
\<close>

definition resolve_fault_group ::
    "op_cfg \<Rightarrow> kube \<Rightarrow> string \<Rightarrow> op_state \<times> history
      \<Rightarrow> (api_exn + unit) \<times> (op_state \<times> history)" where
  "resolve_fault_group c k g sh = (case sh of (s0, h) \<Rightarrow>
     let s = s0\<lparr> os_alive := remove1 g (os_alive s0) \<rparr> in
     if \<not> os_leader s then (Inr (), start_timer g s, h)
     else let faults = map snd (pending_of s g);
              s1 = s\<lparr> os_pending := AList.delete g (os_pending s),
                      os_timers := removeAll g (os_timers s) \<rparr>
          in (case settle_group c k faults h of (r, h1) \<Rightarrow> (r, s1, h1)))"

section \<open>Nodes that are not ready\<close>

text \<open>
  A node is its name and its conditions (type, status, reason).  \<open>t1\<close>, \<open>t2\<close> and \<open>t3\<close> are the
  clock readings of the handler in order.
\<close>

type_synonym node_condition = "string \<times> string \<times> string"

definition ready_condition :: "node_condition list \<Rightarrow> string \<times> string" where
  "ready_condition conds =
     (case find (\<lambda>(t, _, _). t = ''Ready'') conds of
        None \<Rightarrow> (''Unknown'', ''ReadyConditionMissing'')
      | Some (_, st, reason) \<Rightarrow>
          (st, if reason = [] then ''ReadyConditionMissing'' else reason))"

definition not_ready_event ::
    "op_cfg \<Rightarrow> string \<Rightarrow> string \<Rightarrow> string \<Rightarrow> int \<Rightarrow> int \<Rightarrow> string \<Rightarrow> fault_event" where
  "not_ready_event c node status reason secs first now_text =
     \<lparr> fe_name = ''node-notready-'' @ safe_name node 40 @ ''-'' @ show_int first,
       fe_namespace = oc_namespace c, fe_created = [],
       fe_spec = \<lparr> fs_type = Some ''NodeNotReady'', fs_severity = ''Critical'',
         fs_source = ''node-watch'', fs_reason = reason,
         fs_message = ''Node '' @ node @ '' Ready='' @ status @ '' for '' @ show_int secs @ ''s'',
         fs_observed = now_text, fs_node = node, fs_pod_ns = [], fs_pod = [], fs_job = [],
         fs_kind = [], fs_role = [], fs_class = [], fs_confidence = 0, fs_host = None,
         fs_rank = None, fs_local_rank = None, fs_exit_code = None,
         fs_action = \<lparr> want_taint = Some True, want_delete_pod = None,
                       want_delete_pods = Some True \<rparr> \<rparr>,
       fe_processed = False, fe_actions = [] \<rparr>"

definition create_node_not_ready_fault_event :: "kube \<Rightarrow> fault_event \<Rightarrow> unit program" where
  "create_node_not_ready_fault_event k f h =
     (case call (GetFaultEvent (fe_name f)) (\<lambda>h. k_get_event k h (fe_name f)) h of
        (Inr _, h1) \<Rightarrow> (Inr (), h1)
      | (Inl (OtherError m), h1) \<Rightarrow> (Inl (OtherError m), h1)
      | (Inl (ApiError st m), h1) \<Rightarrow>
          if st \<noteq> 404 then (Inr (), h1)
          else (case call (CreateFaultEvent f) (\<lambda>h. k_create_event k h f) h1 of
              (Inr _, h2) \<Rightarrow> (Inr (), h2)
            | (Inl (ApiError st m), h2) \<Rightarrow> (Inr (), h2)
            | (Inl (OtherError m), h2) \<Rightarrow> (Inl (OtherError m), h2)))"

definition handle_node_condition ::
    "op_cfg \<Rightarrow> kube \<Rightarrow> real \<Rightarrow> real \<Rightarrow> string \<Rightarrow> string \<Rightarrow> node_condition list
      \<Rightarrow> op_state \<times> history \<Rightarrow> (api_exn + unit) \<times> (op_state \<times> history)" where
  "handle_node_condition c k t1 t2 now_text node conds sh = (case sh of (s, h) \<Rightarrow>
     case ready_condition conds of (status, reason) \<Rightarrow>
       if status = ''True''
       then (Inr (), s\<lparr> os_since := AList.delete node (os_since s),
                        os_sent := removeAll node (os_sent s) \<rparr>, h)
       else let first = (case map_of (os_since s) node of Some t \<Rightarrow> t | None \<Rightarrow> t1);
                s1 = (if map_of (os_since s) node = None
                      then s\<lparr> os_since := os_since s @ [(node, t1)] \<rparr> else s);
                secs = truncate_real (t2 - first)
            in if secs < oc_grace c then (Inr (), s1, h)
               else if node \<in> set (os_sent s1) then (Inr (), s1, h)
               else (case create_node_not_ready_fault_event k
                       (not_ready_event c node status reason secs (truncate_real first) now_text) h of
                   (Inl e, h1) \<Rightarrow> (Inl e, s1, h1)
                 | (Inr _, h1) \<Rightarrow> (Inr (), s1\<lparr> os_sent := List.insert node (os_sent s1) \<rparr>, h1)))"

section \<open>Leader election\<close>

text \<open>One round: the new leadership, or the exception that escapes.\<close>

definition lease_free :: "op_cfg \<Rightarrow> real \<Rightarrow> lease \<Rightarrow> bool" where
  "lease_free c now l =
     (let holder = (case l of None \<Rightarrow> Some [] | Some (hold, _) \<Rightarrow> hold);
          renewed = (case l of None \<Rightarrow> 0 | Some (_, r) \<Rightarrow> (case r of None \<Rightarrow> 0 | Some t \<Rightarrow> t))
      in holder \<in> {Some [], Some (oc_identity c)} \<or> real_of_int (oc_lease_seconds c) < now - renewed)"

definition try_acquire_or_renew_lease :: "op_cfg \<Rightarrow> kube \<Rightarrow> real \<Rightarrow> bool program" where
  "try_acquire_or_renew_lease c k now h =
     (case call ReadLease (k_read_lease k) h of
        (Inl (ApiError st m), h1) \<Rightarrow>
          if st \<noteq> 404 then (Inl (ApiError st m), h1)
          else on_return (call (CreateLease (oc_identity c))
                            (\<lambda>h. k_create_lease k h (oc_identity c)) h1) (\<lambda>_ h. (Inr True, h))
      | (Inl (OtherError m), h1) \<Rightarrow> (Inl (OtherError m), h1)
      | (Inr l, h1) \<Rightarrow>
          if lease_free c now l
          then on_return (call (PatchLease (oc_identity c))
                            (\<lambda>h. k_patch_lease k h (oc_identity c)) h1) (\<lambda>_ h. (Inr True, h))
          else (Inr False, h1))"

definition leader_election_round :: "op_cfg \<Rightarrow> kube \<Rightarrow> real \<Rightarrow> op_state \<times> history \<Rightarrow> op_state \<times> history" where
  "leader_election_round c k now sh = (case sh of (s, h) \<Rightarrow>
     case try_acquire_or_renew_lease c k now h of
       (Inr b, h1) \<Rightarrow> (s\<lparr> os_leader := b \<rparr>, h1)
     | (Inl _, h1) \<Rightarrow> (s\<lparr> os_leader := False \<rparr>, h1))"

section \<open>Reports of the launchers\<close>

definition resolve_pod_node :: "kube \<Rightarrow> string \<Rightarrow> string \<Rightarrow> history \<Rightarrow> string \<times> history" where
  "resolve_pod_node k ns p h =
     (if ns = [] \<or> p = [] then ([], h)
      else case call (ReadPod ns p) (\<lambda>h. k_read_pod k h ns p) h of
          (Inr node, h1) \<Rightarrow> (node, h1)
        | (Inl _, h1) \<Rightarrow> ([], h1))"

text \<open>The number after the last hyphen of a name that ends in one: \<^verbatim>\<open>-(\d+)$\<close>.\<close>

definition name_ordinal :: "string \<Rightarrow> nat option" where
  "name_ordinal name =
     (let ds = takeWhile is_digit (rev name); rest = dropWhile is_digit (rev name)
      in if ds \<noteq> [] \<and> rest \<noteq> [] \<and> hd rest = CHR ''-'' then Some (nat_of_digits (rev ds)) else None)"

definition pod_node_rank :: "pod \<Rightarrow> int" where
  "pod_node_rank p =
     (let role = py_lower (p_role p);
          ordinal = (case name_ordinal (p_name p) of Some n \<Rightarrow> int n | None \<Rightarrow> 0)
      in if role = ''master'' then 0
         else if role = ''worker'' then ordinal + 1
         else 100000 + ordinal)"

definition resolve_pod_from_rank ::
    "op_cfg \<Rightarrow> kube \<Rightarrow> string \<Rightarrow> string \<Rightarrow> int option \<Rightarrow> history \<Rightarrow> (string \<times> string) \<times> history" where
  "resolve_pod_from_rank c k ns job rank h =
     (case rank of
        None \<Rightarrow> (([], []), h)
      | Some r \<Rightarrow>
          if ns = [] \<or> job = [] \<or> oc_ranks_per_pod c \<le> 0 then (([], []), h)
          else (case call (ListPodsOfJob ns job False) (\<lambda>h. k_pods_of_job k h ns job False) h of
              (Inl _, h1) \<Rightarrow> (([], []), h1)
            | (Inr pods, h1) \<Rightarrow>
                (case find (\<lambda>p. pod_node_rank p = r div oc_ranks_per_pod c) pods of
                   Some p \<Rightarrow> ((p_name p, p_node p), h1)
                 | None \<Rightarrow> (([], []), h1))))"

text \<open>
  The decoded body of a report: a field with two spellings has both, a field whose default
  depends on its presence is optional.
\<close>

record report =
  rp_source :: string
  rp_type :: string
  rp_pod :: "string \<times> string"
  rp_pod_ns :: "string \<times> string"
  rp_node :: "string \<times> string"
  rp_job :: "string \<times> string"
  rp_kind :: "string \<times> string"
  rp_role :: "string \<times> string"
  rp_host :: string
  rp_rank :: json
  rp_local_rank :: json
  rp_exit_code :: json
  rp_severity :: "string option"
  rp_reason :: "string option"
  rp_message :: "string option"
  rp_observed :: "string option"
  rp_class :: "string option"
  rp_confidence :: json
  rp_action :: "fault_action option"

definition or_else :: "string \<Rightarrow> string \<Rightarrow> string" where
  "or_else a b = (if a \<noteq> [] then a else b)"

definition pick :: "string \<times> string \<Rightarrow> string" where
  "pick ab = or_else (fst ab) (snd ab)"

definition default_action :: fault_action where
  "default_action = \<lparr> want_taint = Some False, want_delete_pod = Some True,
     want_delete_pods = Some False \<rparr>"

text \<open>The pod and the node of a report: by host, else by rank; then each from the other.\<close>

definition locate_report ::
    "op_cfg \<Rightarrow> kube \<Rightarrow> report \<Rightarrow> history \<Rightarrow> (string \<times> string) \<times> history" where
  "locate_report c k r h0 =
     (let ns = pick (rp_pod_ns r); job = pick (rp_job r); rank = optional_int (rp_rank r) in
      case (if rp_host r \<noteq> [] then ((pod_name_from_host (rp_host r), pick (rp_node r)), h0)
            else if rank \<noteq> None
            then (case resolve_pod_from_rank c k ns job rank h0 of
                    ((mp, mn), h) \<Rightarrow> ((or_else mp (pick (rp_pod r)), or_else mn (pick (rp_node r))), h))
            else ((pick (rp_pod r), pick (rp_node r)), h0)) of
        ((p1, n1), h1) \<Rightarrow>
      case (if p1 \<noteq> [] \<and> n1 = [] then resolve_pod_node k ns p1 h1 else (n1, h1)) of
        (n2, h2) \<Rightarrow>
      if p1 = [] \<and> rank \<noteq> None
      then (case resolve_pod_from_rank c k ns job rank h2 of
              ((mp, mn), h3) \<Rightarrow> ((mp, or_else n2 mn), h3))
      else ((p1, n2), h2))"

definition report_event :: "op_cfg \<Rightarrow> report \<Rightarrow> string \<Rightarrow> string \<Rightarrow> string \<Rightarrow> fault_event" where
  "report_event c r pod node now_text =
     (let ty = or_else (rp_type r) ''TrainingFault'' in
      \<lparr> fe_name = [], fe_namespace = oc_namespace c, fe_created = [],
        fe_spec = \<lparr> fs_type = Some ty,
          fs_severity = (case rp_severity r of Some x \<Rightarrow> x | None \<Rightarrow> ''Critical''),
          fs_source = or_else (rp_source r) ''ft-launcher'',
          fs_reason = (case rp_reason r of Some x \<Rightarrow> x | None \<Rightarrow> ty),
          fs_message = (case rp_message r of Some x \<Rightarrow> x | None \<Rightarrow> []),
          fs_observed = (case rp_observed r of Some x \<Rightarrow> x | None \<Rightarrow> now_text),
          fs_node = node, fs_pod_ns = pick (rp_pod_ns r), fs_pod = pod,
          fs_job = pick (rp_job r), fs_kind = pick (rp_kind r), fs_role = pick (rp_role r),
          fs_class = (case rp_class r of Some x \<Rightarrow> x | None \<Rightarrow> ''generic''),
          fs_confidence = (case optional_int (rp_confidence r) of Some i \<Rightarrow> i | None \<Rightarrow> 0),
          fs_host = (if rp_host r = [] then None else Some (rp_host r)),
          fs_rank = optional_int (rp_rank r), fs_local_rank = optional_int (rp_local_rank r),
          fs_exit_code = optional_int (rp_exit_code r),
          fs_action = (case rp_action r of Some a \<Rightarrow> a | None \<Rightarrow> default_action) \<rparr>,
        fe_processed = False, fe_actions = [] \<rparr>)"

definition create_fault_event_from_report ::
    "op_cfg \<Rightarrow> kube \<Rightarrow> report \<Rightarrow> string \<Rightarrow> string program" where
  "create_fault_event_from_report c k r now_text h =
     (case locate_report c k r h of
        ((p, n), h1) \<Rightarrow> let f = report_event c r p n now_text
                        in call (CreateFaultEvent f) (\<lambda>h. k_create_event k h f) h1)"

text \<open>
  \<open>GET /report/<name>\<close> for an already decoded and stripped name: the HTTP status and, when 200,
  the readiness of the event.
\<close>

definition get_report ::
    "kube \<Rightarrow> string \<Rightarrow> history \<Rightarrow> (nat \<times> (bool \<times> bool \<times> string) option) \<times> history" where
  "get_report k name h =
     (if name = [] \<or> CHR ''/'' \<in> set name then ((400, None), h)
      else case call (GetFaultEvent name) (\<lambda>h. k_get_event k h name) h of
          (Inr f, h1) \<Rightarrow> ((200, Some (fault_event_restart_readiness f)), h1)
        | (Inl (ApiError st m), h1) \<Rightarrow> ((if st = 404 then 404 else 500, None), h1)
        | (Inl (OtherError m), h1) \<Rightarrow> ((500, None), h1))"

text \<open>\<open>POST /report\<close>: 201 with the name of the new event, or 500.\<close>

definition post_report ::
    "op_cfg \<Rightarrow> kube \<Rightarrow> report \<Rightarrow> string \<Rightarrow> history \<Rightarrow> (nat \<times> string) \<times> history" where
  "post_report c k r now_text h =
     (case create_fault_event_from_report c k r now_text h of
        (Inr name, h1) \<Rightarrow> ((201, name), h1)
      | (Inl e, h1) \<Rightarrow> ((500, exn_text e), h1))"

section \<open>Lemmas\<close>

lemma name_ordinal_show: "name_ordinal (base @ ''-'' @ show_nat n) = Some n"
proof -
  have nd: "\<not> is_digit CHR ''-''" by code_simp
  have d: "\<forall>c\<in>set (rev (show_nat n)). is_digit c" using show_nat_digits by auto
  have "takeWhile is_digit (rev (show_nat n) @ CHR ''-'' # rev base) = rev (show_nat n)"
    "dropWhile is_digit (rev (show_nat n) @ CHR ''-'' # rev base) = CHR ''-'' # rev base"
    using d nd by (simp_all add: takeWhile_append dropWhile_append del: set_rev)
  then show ?thesis by (simp add: name_ordinal_def Let_def)
qed


text \<open>The client library raises ApiException only, and alerts do not fail otherwise.\<close>

definition api_only :: "op_cfg \<Rightarrow> kube \<Rightarrow> bool" where
  "api_only c k = ((\<forall>h ns p m. k_delete_pod k h ns p \<noteq> Inl (OtherError m))
     \<and> (\<forall>h n a b m. k_patch_status k h n a b \<noteq> Inl (OtherError m))
     \<and> (oc_alerts c \<longrightarrow> (\<forall>h. k_alert k h = Inr ())))"

definition active :: "pod list \<Rightarrow> pod list" where
  "active ps = filter (\<lambda>p. \<not> finished p) ps"

definition deletions :: "pod list \<Rightarrow> history" where
  "deletions ps = map (\<lambda>p. DeletePod (p_namespace p) (p_name p)) (active ps)"

text \<open>Every deletion of the loop was accepted or found the pod gone.\<close>

fun all_gone :: "kube \<Rightarrow> pod list \<Rightarrow> history \<Rightarrow> bool" where
  "all_gone k [] h = True"
| "all_gone k (p # ps) h =
     (if finished p then all_gone k ps h
      else (case k_delete_pod k h (p_namespace p) (p_name p) of
              Inr _ \<Rightarrow> True | Inl e \<Rightarrow> \<exists>m. e = ApiError 404 m)
           \<and> all_gone k ps (h @ [DeletePod (p_namespace p) (p_name p)]))"

lemma deletions_simps [simp]:
  "deletions [] = []"
  "deletions (p # ps) = (if finished p then deletions ps
     else DeletePod (p_namespace p) (p_name p) # deletions ps)"
  by (simp_all add: deletions_def active_def)

lemma delete_loop_runs:
  assumes "api_only c k"
    and mk: "\<And>p. act_type (mk p) = ''DeletePod''"
  shows "\<exists>new. delete_loop k mk ps acts h = (Inr (acts @ new), h @ deletions ps)
     \<and> (\<forall>a\<in>set new. act_type a = ''DeletePod'' \<and> act_success a \<noteq> None)
     \<and> ((\<forall>a\<in>set new. act_success a = Some True) \<longleftrightarrow> all_gone k ps h)"
proof (induction ps arbitrary: acts h)
  case Nil then show ?case by simp
next
  case (Cons p ps)
  let ?r = "DeletePod (p_namespace p) (p_name p)"
  show ?case
  proof (cases "finished p")
    case True then show ?thesis using Cons.IH [of acts h] by simp
  next
    case False
    consider (ok) "k_delete_pod k h (p_namespace p) (p_name p) = Inr ()"
      | (gone) m where "k_delete_pod k h (p_namespace p) (p_name p) = Inl (ApiError 404 m)"
      | (failed) s m where "k_delete_pod k h (p_namespace p) (p_name p) = Inl (ApiError s m)" "s \<noteq> 404"
      using assms(1) unfolding api_only_def
      by (cases "k_delete_pod k h (p_namespace p) (p_name p)") (metis api_exn.exhaust, auto)
    then show ?thesis
    proof cases
      case ok
      let ?a = "(mk p)\<lparr> act_success := Some True \<rparr>"
      obtain new where n: "delete_loop k mk ps (acts @ [?a]) (h @ [?r]) =
            (Inr ((acts @ [?a]) @ new), (h @ [?r]) @ deletions ps)"
          "\<forall>a\<in>set new. act_type a = ''DeletePod'' \<and> act_success a \<noteq> None"
          "(\<forall>a\<in>set new. act_success a = Some True) \<longleftrightarrow> all_gone k ps (h @ [?r])"
        using Cons.IH [of "acts @ [?a]" "h @ [?r]"] by blast
      show ?thesis
        by (rule exI [of _ "?a # new"]) (use n ok False mk in \<open>auto simp: call_def\<close>)
    next
      case (gone m)
      obtain new where n: "delete_loop k mk ps acts (h @ [?r]) =
            (Inr (acts @ new), (h @ [?r]) @ deletions ps)"
          "\<forall>a\<in>set new. act_type a = ''DeletePod'' \<and> act_success a \<noteq> None"
          "(\<forall>a\<in>set new. act_success a = Some True) \<longleftrightarrow> all_gone k ps (h @ [?r])"
        using Cons.IH [of acts "h @ [?r]"] by blast
      show ?thesis
        by (rule exI [of _ new]) (use n gone False in \<open>auto simp: call_def\<close>)
    next
      case (failed s m)
      let ?a = "(mk p)\<lparr> act_success := Some False, act_message := m \<rparr>"
      obtain new where n: "delete_loop k mk ps (acts @ [?a]) (h @ [?r]) =
            (Inr ((acts @ [?a]) @ new), (h @ [?r]) @ deletions ps)"
          "\<forall>a\<in>set new. act_type a = ''DeletePod'' \<and> act_success a \<noteq> None"
        using Cons.IH [of "acts @ [?a]" "h @ [?r]"] by blast
      show ?thesis
        by (rule exI [of _ "?a # new"]) (use n failed False mk in \<open>auto simp: call_def\<close>)
    qed
  qed
qed

lemma delete_ft_job_pods_runs:
  assumes "api_only c k" "k_pods_of_job k h ns job True = Inr pods"
    and "ps = map (\<lambda>p. p\<lparr> p_namespace := ns \<rparr>) pods"
  shows "\<exists>acts. delete_ft_job_pods k ns job h
      = (Inr acts, h @ [ListPodsOfJob ns job True] @ deletions ps)
     \<and> acts \<noteq> [] \<and> (\<forall>a\<in>set acts. act_type a = ''DeletePod'' \<and> act_success a \<noteq> None)
     \<and> ((\<forall>a\<in>set acts. act_success a = Some True)
          \<longleftrightarrow> all_gone k ps (h @ [ListPodsOfJob ns job True]))"
proof -
  let ?mk = "\<lambda>p. delete_action ns (p_name p) [] job"
  have mk: "\<And>p. act_type (?mk p) = ''DeletePod''" by (simp add: delete_action_def)
  obtain new where n:
    "delete_loop k ?mk ps [] (h @ [ListPodsOfJob ns job True])
       = (Inr new, (h @ [ListPodsOfJob ns job True]) @ deletions ps)"
    "\<forall>a\<in>set new. act_type a = ''DeletePod'' \<and> act_success a \<noteq> None"
    "(\<forall>a\<in>set new. act_success a = Some True) \<longleftrightarrow> all_gone k ps (h @ [ListPodsOfJob ns job True])"
    using delete_loop_runs [OF assms(1), where mk = ?mk and ps = ps and acts = "[]" and h = "h @ [ListPodsOfJob ns job True]"] mk
    by auto
  show ?thesis
    by (rule exI [of _ "or_nothing_done (delete_action ns [] [] job) ''no active PyTorchJob pods'' new"])
       (use n in \<open>auto simp: delete_ft_job_pods_def assms call_def or_nothing_done_def delete_action_def\<close>)
qed


text \<open>Once the client raises only ApiException, no handler raises.\<close>

lemma delete_jobs_runs:
  "api_only c k \<Longrightarrow> \<exists>as new. delete_jobs k js acts h = (Inr as, h @ new)"
proof (induction k js acts h rule: delete_jobs.induct)
  case (2 k ns job js acts h)
  show ?case
  proof (cases "k_pods_of_job k h ns job True")
    case (Inl e)
    then have "\<exists>a. delete_ft_job_pods k ns job h = (Inr a, h @ [ListPodsOfJob ns job True])"
      by (auto simp: delete_ft_job_pods_def call_def)
    then show ?thesis using 2 by (auto simp: delete_jobs.simps) (metis append.assoc)
  next
    case (Inr pods)
    obtain a hs where "delete_ft_job_pods k ns job h = (Inr a, h @ hs)"
      using delete_ft_job_pods_runs [OF 2(2) Inr refl] by auto
    then show ?thesis using 2 by auto (metis append.assoc)
  qed
qed simp

lemma delete_ft_job_pods_returns:
  "api_only c k \<Longrightarrow> \<exists>as new. delete_ft_job_pods k ns job h = (Inr as, h @ new)"
  using delete_jobs_runs [of c k "[(ns, job)]" "[]" h]
  by (cases "delete_ft_job_pods k ns job h"; cases "fst (delete_ft_job_pods k ns job h)") auto

lemma delete_ft_jobs_for_node_returns:
  assumes "api_only c k"
  shows "\<exists>as new. delete_ft_jobs_for_node k node h = (Inr as, h @ new)"
proof (cases "k_pods_on_node k h node")
  case (Inr pods)
  then show ?thesis using delete_jobs_runs [OF assms, of "jobs_of_pods pods []" "[]" "h @ [ListPodsOnNode node]"]
    by (auto simp: delete_ft_jobs_for_node_def call_def)
qed (simp add: delete_ft_jobs_for_node_def call_def)

lemma delete_ft_pods_on_node_returns:
  assumes "api_only c k"
  shows "\<exists>as new. delete_ft_pods_on_node k node h = (Inr as, h @ new)"
proof (cases "k_pods_on_node k h node")
  case (Inr pods)
  then show ?thesis
    using delete_loop_runs [OF assms, where mk = "\<lambda>p. delete_action (p_namespace p) (p_name p) node []"
        and ps = pods and acts = "[]" and h = "h @ [ListPodsOnNode node]"]
    by (auto simp: delete_ft_pods_on_node_def call_def delete_action_def)
qed (simp add: delete_ft_pods_on_node_def call_def)

lemma delete_named_pod_returns:
  "api_only c k \<Longrightarrow> \<exists>a. delete_named_pod k ns p node h = (Inr a, h @ [DeletePod ns p])"
  by (auto simp: delete_named_pod_def call_def api_only_def split: sum.split api_exn.split)

lemma should_restart_returns:
  "\<exists>b new. should_restart_entire_job k ns job kind h = (Inr b, h @ new)"
  by (auto simp: should_restart_entire_job_def call_def split: sum.split api_exn.split)

lemma taint_node_returns:
  "\<exists>a new. taint_node c k node reason h = (Inr a, h @ new)"
  by (cases "k_read_node k h node";
      cases "k_patch_taints k (h @ [ReadNode node]) node
        (projr (k_read_node k h node) @ [own_taint c reason])")
     (auto simp: taint_node_def Let_def run_simps)

lemma taint_step_returns: "\<exists>r new. taint_step c k f h = (Inr r, h @ new)"
proof -
  obtain a new where "taint_node c k (fs_node (fe_spec f))
      (case fs_type (fe_spec f) of Some t \<Rightarrow> t | None \<Rightarrow> ''NodeUnhealthy'') h = (Inr a, h @ new)"
    using taint_node_returns by blast
  then show ?thesis by (auto simp: taint_step_def)
qed

lemma delete_step_returns:
  assumes "api_only c k"
  shows "\<exists>as new. delete_step c k f tainted h = (Inr as, h @ new)"
proof -
  let ?sp = "fe_spec f"
  obtain b n1 where b: "(if delete_after_taint c f tainted \<and> pod_namespace f \<noteq> [] \<and> fs_job ?sp \<noteq> []
         then should_restart_entire_job k (pod_namespace f) (fs_job ?sp) (fs_kind ?sp) h
         else (Inr False, h)) = (Inr b, h @ n1)"
    using should_restart_returns by (cases "delete_after_taint c f tainted \<and> pod_namespace f \<noteq> [] \<and> fs_job ?sp \<noteq> []") (auto, metis)
  note r = delete_ft_job_pods_returns [OF assms, of "pod_namespace f" "fs_job ?sp" "h @ n1"]
    delete_named_pod_returns [OF assms, of "pod_namespace f" "fs_pod ?sp" "fs_node ?sp" "h @ n1"]
    delete_ft_jobs_for_node_returns [OF assms, of "fs_node ?sp" "h @ n1"]
    delete_ft_pods_on_node_returns [OF assms, of "fs_node ?sp" "h @ n1"]
  show ?thesis unfolding delete_step_def Let_def b using r by auto
qed

lemma patch_status_returns:
  "api_only c k \<Longrightarrow> patch_status k name acts d h
     = (Inr (), if name = [] then h else h @ [PatchStatus name acts d])"
  by (auto simp: patch_status_def call_def api_only_def split: sum.split api_exn.split)

lemma conclude_returns:
  "api_only c k \<Longrightarrow> conclude c k f acts h
     = (Inr (), h @ (if fe_name f = [] then [] else [PatchStatus (fe_name f) acts True])
                  @ (if oc_alerts c then [Alert f acts] else []))"
proof -
  assume a: "api_only c k"
  then have "oc_alerts c \<Longrightarrow> k_alert k h' = Inr ()" for h' by (simp add: api_only_def)
  then show ?thesis
    by (auto simp: conclude_def patch_status_returns [OF a] send_alert_def call_def)
qed

lemma process_fault_returns:
  assumes "api_only c k"
  shows "\<exists>acts new. process_fault c k f h
    = (Inr (), h @ new @ (if fe_name f = [] then [] else [PatchStatus (fe_name f) acts True])
                  @ (if oc_alerts c then [Alert f acts] else []))"
proof -
  obtain acts t n1 where 1: "taint_step c k f h = (Inr (acts, t), h @ n1)"
    using taint_step_returns [of c k f h] by auto
  obtain dels n2 where 2: "delete_step c k f t (h @ n1) = (Inr dels, (h @ n1) @ n2)"
    using delete_step_returns [OF assms] by blast
  show ?thesis
  proof (cases "fs_node (fe_spec f) = [] \<and> fs_pod (fe_spec f) = []")
    case True
    then show ?thesis by (intro exI [of _ "[skip_action]"] exI [of _ "[]"])
        (simp add: process_fault_def conclude_returns [OF assms])
  next
    case False
    then show ?thesis using 1 2 by (intro exI [of _ "acts @ dels"] exI [of _ "n1 @ n2"])
        (auto simp: process_fault_def conclude_returns [OF assms])
  qed
qed

definition losers :: "fault_event \<Rightarrow> fault_event list \<Rightarrow> fault_event list" where
  "losers w fs = filter (\<lambda>f. fe_name f \<noteq> [] \<and> fe_name f \<noteq> fe_name w) fs"

lemma suppress_losers_returns:
  "api_only c k \<Longrightarrow> suppress_losers k w fs h
     = (Inr (), h @ map (\<lambda>f. PatchStatus (fe_name f) [suppressed_action w] True) (losers w fs))"
  by (induction fs arbitrary: h) (auto simp: losers_def patch_status_returns)

lemmas operator_returns = taint_step_returns delete_step_returns conclude_returns
  process_fault_returns suppress_losers_returns

section \<open>The aggregation invariant\<close>

text \<open>
  The live timers, the keys of the timer dict and the pending groups are the same, each once;
  a group holds unprocessed faults of its own key under their names.
\<close>

definition group_ok :: "op_cfg \<Rightarrow> string \<times> (string \<times> fault_event) list \<Rightarrow> bool" where
  "group_ok c gp = (snd gp \<noteq> [] \<and> distinct (map fst (snd gp)) \<and>
     (\<forall>nf\<in>set (snd gp). fe_name (snd nf) = fst nf \<and> \<not> fe_processed (snd nf)
        \<and> fs_job (fe_spec (snd nf)) \<noteq> [] \<and> group_key c (snd nf) = fst gp))"

definition op_inv :: "op_cfg \<Rightarrow> op_state \<Rightarrow> bool" where
  "op_inv c s = (distinct (os_alive s) \<and> distinct (map fst (os_pending s))
     \<and> set (os_alive s) = set (os_timers s)
     \<and> set (os_alive s) = fst ` set (os_pending s)
     \<and> (\<forall>gp\<in>set (os_pending s). group_ok c gp))"

lemma in_set_update:
  "distinct (map fst xs) \<Longrightarrow> x \<in> set (AList.update k v xs)
     \<longleftrightarrow> x = (k, v) \<or> (x \<in> set xs \<and> fst x \<noteq> k)"
  by (induction xs) (auto simp: image_iff; metis fst_conv)+

lemma fst_set_update: "fst ` set (AList.update k v xs) = insert k (fst ` set xs)"
  by (induction xs) auto

lemma group_ok_update:
  assumes "group_ok c (group_key c f, p) \<or> p = []" "\<not> fe_processed f" "fs_job (fe_spec f) \<noteq> []"
  shows "group_ok c (group_key c f, AList.update (fe_name f) f p)"
  using assms
  by (auto simp: group_ok_def in_set_update AList.distinct_update update_nonempty
      intro: AList.distinct_update)

lemma pending_of_ok:
  "op_inv c s \<Longrightarrow> group_ok c (g, pending_of s g) \<or> pending_of s g = []"
  by (auto simp: op_inv_def pending_of_def split: option.split dest: map_of_SomeD)

lemma add_pending_inv [inv_intros]:
  assumes "op_inv c s" "\<not> fe_processed f" "fs_job (fe_spec f) \<noteq> []"
  shows "op_inv c (add_pending c f s)"
proof -
  have "group_ok c (group_key c f, AList.update (fe_name f) f (pending_of s (group_key c f)))"
    by (rule group_ok_update [OF pending_of_ok [OF assms(1)] assms(2,3)])
  then show ?thesis using assms(1)
    by (auto simp: op_inv_def add_pending_def Let_def start_timer_def in_set_update fst_set_update
        intro: AList.distinct_update)
qed

lemma set_delete: "set (AList.delete k xs) = {x \<in> set xs. fst x \<noteq> k}"
  by (auto simp: AList.delete_eq)

lemma distinct_delete: "distinct (map fst xs) \<Longrightarrow> distinct (map fst (AList.delete k xs))"
  by (simp add: AList.delete_eq distinct_map_filter)

lemma resolve_inv [inv_intros]:
  assumes "op_inv c s" "g \<in> set (os_alive s)" "resolve_fault_group c k g (s, h) = (r, s', h')"
  shows "op_inv c s'"
proof (cases "os_leader s")
  case True
  then have "s' = s\<lparr> os_alive := remove1 g (os_alive s), os_pending := AList.delete g (os_pending s),
     os_timers := removeAll g (os_timers s) \<rparr>"
    using assms(3) by (auto simp: resolve_fault_group_def Let_def split: prod.splits)
  then show ?thesis using assms(1,2)
    by (auto simp: op_inv_def set_delete distinct_delete distinct_remove1 set_remove1_eq image_iff)
next
  case False
  then have "s' = start_timer g (s\<lparr> os_alive := remove1 g (os_alive s) \<rparr>)"
    using assms(3) by (auto simp: resolve_fault_group_def Let_def)
  then show ?thesis using assms(1,2)
    by (auto simp: op_inv_def start_timer_def distinct_remove1 set_remove1_eq)
qed

text \<open>The events that can happen to the operator.\<close>

inductive op_step :: "op_cfg \<Rightarrow> kube \<Rightarrow> op_state \<times> history \<Rightarrow> op_state \<times> history \<Rightarrow> bool"
  for c k where
  watch: "op_step c k sh (snd (watch_event c k ty f sh))"
| timer: "g \<in> set (os_alive (fst sh)) \<Longrightarrow> op_step c k sh (snd (resolve_fault_group c k g sh))"
| node: "op_step c k sh (snd (handle_node_condition c k t1 t2 txt n conds sh))"
| election: "op_step c k sh (leader_election_round c k now sh)"

inductive op_reachable :: "op_cfg \<Rightarrow> kube \<Rightarrow> op_state \<times> history \<Rightarrow> bool" for c k where
  start: "op_reachable c k (init_operator e, [])"
| step: "op_reachable c k sh \<Longrightarrow> op_step c k sh sh' \<Longrightarrow> op_reachable c k sh'"

lemma op_inv_same [inv_intros]:
  "op_inv c s \<Longrightarrow> os_alive s' = os_alive s \<Longrightarrow> os_timers s' = os_timers s
     \<Longrightarrow> os_pending s' = os_pending s \<Longrightarrow> op_inv c s'"
  unfolding op_inv_def by metis

lemma watch_event_inv [inv_intros]:
  "op_inv c s \<Longrightarrow> op_inv c (fst (snd (watch_event c k ty f (s, h))))"
  by (auto simp: watch_event_def reconcile_def intro: inv_intros split: prod.splits)

lemma handle_node_inv [inv_intros]:
  "op_inv c s \<Longrightarrow> op_inv c (fst (snd (handle_node_condition c k t1 t2 txt n conds (s, h))))"
  by (auto simp: handle_node_condition_def Let_def intro: op_inv_same
      split: prod.splits sum.splits)

lemma election_inv [inv_intros]:
  "op_inv c s \<Longrightarrow> op_inv c (fst (leader_election_round c k now (s, h)))"
  by (auto simp: leader_election_round_def intro: op_inv_same split: prod.splits sum.splits)

lemma op_step_inv:
  assumes "op_step c k sh sh'" "op_inv c (fst sh)" shows "op_inv c (fst sh')"
  using assms
proof (cases rule: op_step.cases)
  case (timer g)
  then show ?thesis using assms(2)
    by (cases sh; cases "resolve_fault_group c k g sh") (auto intro: resolve_inv)
qed (use assms in \<open>cases sh; auto intro: inv_intros\<close>)+

lemma op_reachable_inv: "op_reachable c k sh \<Longrightarrow> op_inv c (fst sh)"
proof (induction rule: op_reachable.induct)
  case (start e) show ?case by (simp add: op_inv_def init_operator_def)
qed (rule op_step_inv)

section \<open>A sample cluster\<close>

definition sample_cfg :: op_cfg where
  "sample_cfg = \<lparr> oc_namespace = ''hygon-ft'', oc_identity = ''op-a'', oc_taint_key = ''ft/unhealthy'',
     oc_taint_effect = ''NoSchedule'', oc_delete_after_taint = True, oc_alerts = False,
     oc_lease_seconds = 30, oc_grace = 60, oc_window = 5, oc_ranks_per_pod = 8, oc_zone = 0 \<rparr>"

definition sample_pod :: "string \<Rightarrow> string \<Rightarrow> string \<Rightarrow> pod" where
  "sample_pod name role phase = \<lparr> p_namespace = ''train'', p_name = name, p_node = ''n1'',
     p_phase = phase, p_role = role, p_job = ''job'' \<rparr>"

definition sample_pods :: "pod list" where
  "sample_pods = [sample_pod ''job-worker-0'' ''worker'' ''Running'',
     sample_pod ''job-worker-1'' ''worker'' ''Failed'', sample_pod ''job-master-0'' ''Master'' ''Running'']"

definition sample_kube :: kube where
  "sample_kube = \<lparr> k_read_node = \<lambda>h n. Inr [], k_patch_taints = \<lambda>h n ts. Inr (),
     k_pods_on_node = \<lambda>h n. Inr sample_pods, k_pods_of_job = \<lambda>h ns j b. Inr sample_pods,
     k_read_pod = \<lambda>h ns p. Inr ''n1'', k_delete_pod = \<lambda>h ns p. Inr (),
     k_get_pytorchjob = \<lambda>h ns j. Inr (), k_get_event = \<lambda>h n. Inl (ApiError 404 ''not found''),
     k_create_event = \<lambda>h f. Inr (fe_name f), k_patch_status = \<lambda>h n a b. Inr (),
     k_read_lease = \<lambda>h. Inr None, k_create_lease = \<lambda>h i. Inr (), k_patch_lease = \<lambda>h i. Inr (),
     k_alert = \<lambda>h. Inr () \<rparr>"

lemma sample_api_only: "api_only sample_cfg sample_kube"
  by (simp add: api_only_def sample_cfg_def sample_kube_def)

section \<open>Properties\<close>

text \<open>
  C16: aggregation loses no fault and starts no timer twice.  Whatever the operator has been
  through, a group of pending faults has exactly one live timer, every live timer has pending
  faults, and what waits in a group are unprocessed events of that group, each name once.
\<close>

theorem aggregation_has_one_timer_per_group:
  assumes "op_reachable c k (s, h)"
  shows "distinct (os_alive s) \<and> (\<forall>g. g \<in> set (os_alive s) \<longleftrightarrow> pending_of s g \<noteq> [])
    \<and> (\<forall>g. distinct (map fst (pending_of s g)))
    \<and> (\<forall>g. \<forall>nf\<in>set (pending_of s g). fe_name (snd nf) = fst nf
          \<and> \<not> fe_processed (snd nf) \<and> group_key c (snd nf) = g)"
proof -
  have inv: "op_inv c s" using op_reachable_inv [OF assms] by simp
  have "g \<in> set (os_alive s) \<longleftrightarrow> pending_of s g \<noteq> []" for g
  proof
    assume "g \<in> set (os_alive s)"
    then have "g \<in> fst ` set (os_pending s)" using inv unfolding op_inv_def by blast
    then obtain p where p: "map_of (os_pending s) g = Some p"
      by (auto simp: image_iff dest!: weak_map_of_SomeI)
    then have "group_ok c (g, p)" using inv map_of_SomeD [OF p] by (auto simp: op_inv_def)
    then show "pending_of s g \<noteq> []" using p by (simp add: pending_of_def group_ok_def)
  next
    assume "pending_of s g \<noteq> []"
    then obtain p where "map_of (os_pending s) g = Some p"
      by (auto simp: pending_of_def split: option.splits)
    then have "g \<in> fst ` set (os_pending s)" by (metis map_of_SomeD fst_conv image_eqI)
    then show "g \<in> set (os_alive s)" using inv unfolding op_inv_def by blast
  qed
  moreover have "distinct (map fst (pending_of s g)) \<and> (\<forall>nf\<in>set (pending_of s g).
      fe_name (snd nf) = fst nf \<and> \<not> fe_processed (snd nf) \<and> group_key c (snd nf) = g)" for g
    using pending_of_ok [OF inv, of g] by (auto simp: group_ok_def)
  moreover have "distinct (os_alive s)" using inv by (simp add: op_inv_def)
  ultimately show ?thesis by blast
qed

definition sample_state :: "op_state \<times> history" where
  "sample_state = snd (watch_event sample_cfg sample_kube ''ADDED''
     (sample_fault ''a'' ''ConnectionLost'' ''2026-01-01T00:00:00Z'')
     (snd (watch_event sample_cfg sample_kube ''ADDED''
       (sample_fault ''b'' ''TrainingRootCause'' ''2026-01-01T00:00:00Z'') (init_operator False, []))))"

lemma sample_state_reachable: "op_reachable sample_cfg sample_kube sample_state"
  unfolding sample_state_def
  by (rule op_reachable.step [OF op_reachable.step [OF op_reachable.start op_step.watch] op_step.watch])

lemma sample_fault_simps [simp]:
  "fe_name (sample_fault n ty at0) = n" "fe_processed (sample_fault n ty at0) = False"
  "fs_job (fe_spec (sample_fault n ty at0)) = ''job''"
  "group_key c (sample_fault n ty at0) = ''train/job''"
  by (simp_all add: sample_fault_def sample_spec_def group_key_def)

lemma sample_first:
  "snd (watch_event sample_cfg sample_kube ''ADDED'' (sample_fault n ty at0) (init_operator False, []))
   = ((init_operator False)\<lparr> os_pending := [(''train/job'', [(n, sample_fault n ty at0)])],
        os_timers := [''train/job''], os_alive := [''train/job''] \<rparr>, [])"
  by (simp add: watch_event_def init_operator_def reconcile_def sample_cfg_def
      add_pending_def pending_of_def start_timer_def Let_def)

lemma sample_state_eq:
  "os_alive (fst sample_state) = [''train/job'']"
  "map fst (pending_of (fst sample_state) ''train/job'') = [''b'', ''a'']"
  "os_leader (fst sample_state)"
  unfolding sample_state_def sample_first
  by (simp_all add: watch_event_def init_operator_def reconcile_def sample_cfg_def
      add_pending_def pending_of_def Let_def)

theorem aggregation_has_one_timer_per_group_witness:
  "distinct (os_alive (fst sample_state)) \<and> os_alive (fst sample_state) = [''train/job'']
    \<and> map fst (pending_of (fst sample_state) ''train/job'') = [''b'', ''a'']"
  using aggregation_has_one_timer_per_group
      [of sample_cfg sample_kube "fst sample_state" "snd sample_state"] sample_state_reachable
    sample_state_eq by simp

text \<open>
  C15: when the timer of a group fires on the leader, the group is settled as a whole: the root
  fault is processed, every other named fault of the group gets the status processed with a
  successful Suppressed action and nothing else, and the group and its timer are gone.
\<close>

theorem group_resolution_settles_all:
  assumes "os_leader s" "pending_of s g \<noteq> []" "api_only c k"
  shows "\<exists>w h1 s'. select_root_fault (oc_zone c) (map snd (pending_of s g)) = Some w
    \<and> process_fault c k w h = (Inr (), h1)
    \<and> (fe_name w \<noteq> [] \<longrightarrow> (\<exists>acts. PatchStatus (fe_name w) acts True \<in> set h1))
    \<and> resolve_fault_group c k g (s, h) = (Inr (), s', h1 @ map (\<lambda>f. PatchStatus (fe_name f)
          [suppressed_action w] True) (losers w (map snd (pending_of s g))))
    \<and> pending_of s' g = [] \<and> g \<notin> set (os_timers s')
    \<and> (\<forall>g'. g' \<noteq> g \<longrightarrow> pending_of s' g' = pending_of s g')"
proof -
  let ?fs = "map snd (pending_of s g)"
  obtain w where w: "select_root_fault (oc_zone c) ?fs = Some w"
    using assms(2) by (simp add: select_root_fault_def)
  obtain acts new where p: "process_fault c k w h = (Inr (), h @ new
      @ (if fe_name w = [] then [] else [PatchStatus (fe_name w) acts True])
      @ (if oc_alerts c then [Alert w acts] else []))"
    using process_fault_returns [OF assms(3)] by blast
  let ?h1 = "snd (process_fault c k w h)"
  let ?s' = "s\<lparr> os_alive := remove1 g (os_alive s), os_pending := AList.delete g (os_pending s),
     os_timers := removeAll g (os_timers s) \<rparr>"
  have "resolve_fault_group c k g (s, h) = (Inr (), ?s', ?h1 @ map (\<lambda>f. PatchStatus (fe_name f)
          [suppressed_action w] True) (losers w ?fs))"
    using assms p w suppress_losers_returns [OF assms(3), of w ?fs ?h1]
    by (simp add: resolve_fault_group_def settle_group_def Let_def pending_of_def)
  moreover have "pending_of ?s' g = [] \<and> g \<notin> set (os_timers ?s')
      \<and> (\<forall>g'. g' \<noteq> g \<longrightarrow> pending_of ?s' g' = pending_of s g')"
    by (simp add: pending_of_def AList.delete_conv')
  moreover have "process_fault c k w h = (Inr (), ?h1)" using p by simp
  moreover have "fe_name w \<noteq> [] \<longrightarrow> (\<exists>acts. PatchStatus (fe_name w) acts True \<in> set ?h1)"
    using p by auto
  ultimately show ?thesis using w by blast
qed

theorem group_resolution_settles_all_witness:
  "pending_of (fst (snd (resolve_fault_group sample_cfg sample_kube ''train/job'' sample_state)))
     ''train/job'' = []"
proof -
  have "os_leader (fst sample_state)" by (rule sample_state_eq(3))
  moreover have "pending_of (fst sample_state) ''train/job'' \<noteq> []"
    using sample_state_eq(2) by auto
  ultimately show ?thesis
    using group_resolution_settles_all [of "fst sample_state" "''train/job''" sample_cfg sample_kube
        "snd sample_state"] sample_api_only by auto
qed

text \<open>
  C23: a failed taint never costs a job its pods by default.  When the node cannot be tainted and
  the event does not itself ask for a deletion, no pod is deleted, the failure is recorded (with
  the skipped deletion, where deletion follows taints), and the event is processed but not ready
  for restart.
\<close>

theorem failed_taint_blocks_deletion:
  assumes "taint_requested f" "api_only c k" "fe_name f \<noteq> []"
    and "want_delete_pod (fs_action (fe_spec f)) \<noteq> Some True"
    and "want_delete_pods (fs_action (fe_spec f)) \<noteq> Some True"
    and "k_read_node k h (fs_node (fe_spec f)) = Inl e"
  shows "\<exists>acts. process_fault c k f h = (Inr (), h @ ReadNode (fs_node (fe_spec f))
        # PatchStatus (fe_name f) acts True # (if oc_alerts c then [Alert f acts] else []))
    \<and> (oc_delete_after_taint c \<longrightarrow> taint_failed_action f \<in> set acts)
    \<and> fst (fault_event_restart_readiness (f\<lparr> fe_processed := True, fe_actions := acts \<rparr>))
    \<and> \<not> fst (snd (fault_event_restart_readiness (f\<lparr> fe_processed := True, fe_actions := acts \<rparr>)))"
proof -
  let ?a = "taint_action (fs_node (fe_spec f)) False (exn_text e)"
  let ?dels = "if oc_delete_after_taint c then [taint_failed_action f] else []"
  have n: "fs_node (fe_spec f) \<noteq> []" using assms(1) by (simp add: taint_requested_def)
  have t: "taint_step c k f h = (Inr ([?a], False), h @ [ReadNode (fs_node (fe_spec f))])"
    using assms(1,6) by (simp add: taint_step_def taint_node_def call_def taint_action_def)
  have d: "delete_step c k f False h' = (Inr ?dels, h')" for h'
    using assms(1,4,5) by (simp add: delete_step_def delete_after_taint_def Let_def)
  have "act_type ?a = ''TaintNode''" "act_success ?a = Some False"
    by (simp_all add: taint_action_def)
  then have r: "\<not> fst (snd (fault_event_restart_readiness
      (f\<lparr> fe_processed := True, fe_actions := [?a] @ ?dels \<rparr>)))"
    by (simp add: readiness_ready taint_failed_action_def delete_action_def)
  show ?thesis
    using n t d r assms(2,3)
    by (intro exI [of _ "[?a] @ ?dels"])
       (simp add: process_fault_def conclude_returns readiness_processed)
qed

theorem failed_taint_blocks_deletion_witness:
  "\<exists>acts. process_fault sample_cfg
      (sample_kube\<lparr> k_read_node := \<lambda>h n. Inl (ApiError 500 ''down'') \<rparr>)
      ((sample_fault ''a'' ''TrainingNodeFault'' [])\<lparr> fe_spec := sample_spec\<lparr> fs_action :=
          \<lparr> want_taint = None, want_delete_pod = None, want_delete_pods = None \<rparr> \<rparr> \<rparr>) []
     = (Inr (), [ReadNode ''n1'', PatchStatus ''a'' acts True])"
  using failed_taint_blocks_deletion [of
      "(sample_fault ''a'' ''TrainingNodeFault'' [])\<lparr> fe_spec := sample_spec\<lparr> fs_action :=
          \<lparr> want_taint = None, want_delete_pod = None, want_delete_pods = None \<rparr> \<rparr> \<rparr>"
      sample_cfg "sample_kube\<lparr> k_read_node := \<lambda>h n. Inl (ApiError 500 ''down'') \<rparr>" "[]" "ApiError 500 ''down''"]
  by (auto simp: taint_requested_def sample_fault_def sample_spec_def sample_cfg_def sample_kube_def
      api_only_def)

text \<open>
  C17: a training fault on a node restarts the whole PyTorchJob.  With deletion after taints
  enabled, a root-cause, node or health-check fault of a PyTorchJob first taints the node, then
  deletes every unfinished pod of the job, each once and in the order listed, then records the
  status; the event is ready for restart exactly when every deletion was accepted or found its
  pod gone.
\<close>

theorem node_fault_restarts_whole_job:
  fixes c k f h ns job node pods reason
  defines "sp \<equiv> fe_spec f"
  assumes "api_only c k" "oc_delete_after_taint c" "taint_requested f" "fe_name f \<noteq> []"
    and "fs_type sp = Some reason"
    and "reason \<in> {''TrainingRootCause'', ''TrainingNodeFault'', ''NodeHealthCheckFailed''}"
    and "py_lower (fs_kind sp) = ''pytorchjob''"
    and "pod_namespace f = ns" "ns \<noteq> []" "fs_job sp = job" "job \<noteq> []" "fs_node sp = node"
    and "taint_node c k node reason h = (Inr a, h1)" "act_success a = Some True" "act_type a = ''TaintNode''"
    and "k_pods_of_job k h1 ns job True = Inr pods"
    and "ps = map (\<lambda>p. p\<lparr> p_namespace := ns \<rparr>) pods"
    and "h2 = h1 @ [ListPodsOfJob ns job True]"
  shows "\<exists>acts. process_fault c k f h = (Inr (), h2
        @ map (\<lambda>p. DeletePod ns (p_name p)) (filter (\<lambda>p. \<not> finished p) pods)
        @ PatchStatus (fe_name f) (a # acts) True # (if oc_alerts c then [Alert f (a # acts)] else []))
    \<and> (fst (snd (fault_event_restart_readiness (f\<lparr> fe_processed := True, fe_actions := a # acts \<rparr>)))
         \<longleftrightarrow> all_gone k ps h2)"
proof -
  obtain acts where d: "delete_ft_job_pods k ns job h1 = (Inr acts, h2 @ deletions ps)"
      "acts \<noteq> []" "\<forall>x\<in>set acts. act_type x = ''DeletePod'' \<and> act_success x \<noteq> None"
      "(\<forall>x\<in>set acts. act_success x = Some True) \<longleftrightarrow> all_gone k ps h2"
    using delete_ft_job_pods_runs [OF assms(2) assms(17,18)] assms(19) by (auto simp: append_assoc)
  have del: "deletions ps = map (\<lambda>p. DeletePod ns (p_name p)) (filter (\<lambda>p. \<not> finished p) pods)"
    unfolding assms(18) by (induction pods) (auto simp: finished_def)
  have t: "taint_step c k f h = (Inr ([a], True), h1)"
    using assms(4,6,13,14,15) by (simp add: taint_step_def sp_def)
  have "delete_after_taint c f True"
    using assms(3,4,6,7,8) by (auto simp: delete_after_taint_def sp_def)
  then have ds: "delete_step c k f True h1 = (Inr acts, h2 @ deletions ps)"
    using d(1) assms(8-12) by (simp add: delete_step_def sp_def Let_def should_restart_entire_job_def)
  have "fs_node sp \<noteq> []" using assms(4) by (simp add: taint_requested_def sp_def)
  then have p: "process_fault c k f h = (Inr (), h2 @ deletions ps
        @ PatchStatus (fe_name f) (a # acts) True # (if oc_alerts c then [Alert f (a # acts)] else []))"
    using t ds conclude_returns [OF assms(2)] assms(5) by (simp add: process_fault_def sp_def)
  have ne: "act_type x = ''DeletePod'' \<Longrightarrow> act_type x \<noteq> ''Suppressed'' \<and> act_type x \<noteq> ''TaintNode''" for x
    by simp
  have "\<not> (\<exists>x\<in>set (a # acts). act_type x = ''Suppressed'' \<and> act_success x = Some True)"
    using d(3) assms(16) by auto
  moreover have "(\<forall>x\<in>set (a # acts). act_type x \<in> {''TaintNode'', ''DeletePod''}
        \<longrightarrow> act_success x \<noteq> Some False) \<longleftrightarrow> all_gone k ps h2"
    using d(3,4) assms(15) by (auto; metis)
  moreover have "all_gone k ps h2 \<longrightarrow> fst (snd (check_required (a # acts)
      (required_actions (fs_action (fe_spec f)))))"
    unfolding check_required_iff required_actions_def
    using d(2,3,4) assms(15,16) by (cases acts) auto
  ultimately have "fst (snd (fault_event_restart_readiness
      (f\<lparr> fe_processed := True, fe_actions := a # acts \<rparr>))) \<longleftrightarrow> all_gone k ps h2"
    by (simp only: readiness_ready fault_event.simps fault_event.select_convs
        fault_event.update_convs) (auto simp: readiness_ready)
  then show ?thesis using p del by auto
qed

lemma sample_taint:
  "taint_node sample_cfg sample_kube ''n1'' r [] =
     (Inr (taint_action ''n1'' True ''ft/unhealthy''),
      [ReadNode ''n1'', PatchTaints ''n1'' [own_taint sample_cfg r]])"
  by (simp add: taint_node_def sample_kube_def sample_cfg_def run_simps has_own_taint_def Let_def)

theorem node_fault_restarts_whole_job_witness:
  "\<exists>acts. process_fault sample_cfg sample_kube (sample_fault ''a'' ''TrainingNodeFault'' []) []
     = (Inr (), [ReadNode ''n1'', PatchTaints ''n1'' [own_taint sample_cfg ''TrainingNodeFault''],
          ListPodsOfJob ''train'' ''job'' True, DeletePod ''train'' ''job-worker-0'',
          DeletePod ''train'' ''job-master-0'', PatchStatus ''a'' acts True])"
proof -
  have "py_lower ''PyTorchJob'' = ''pytorchjob''" by code_simp
  then show ?thesis
    using node_fault_restarts_whole_job [OF sample_api_only,
        of "sample_fault ''a'' ''TrainingNodeFault'' []" "''TrainingNodeFault''" "''train''" "''job''" "''n1''" "[]",
        OF _ _ _ _ _ _ _ _ _ _ _ sample_taint _ _ _ refl refl]
    by (auto simp: sample_cfg_def sample_kube_def sample_fault_def sample_spec_def
        taint_requested_def pod_namespace_def taint_action_def sample_pods_def sample_pod_def finished_def)
qed

text \<open>
  C29: tainting adds and never removes.  When the node can be read, a node that carries the
  operator's taint is left alone, any other gets its old taints plus the operator's, in one
  patch; the action succeeds exactly when no request failed; and on a server that answers the
  next read with the patched taints, tainting again changes nothing.
\<close>

theorem taint_node_adds_only_its_taint:
  assumes "k_read_node k h node = Inr ts"
  shows "(has_own_taint c ts \<longrightarrow>
      taint_node c k node reason h = (Inr (taint_action node True (oc_taint_key c)), h @ [ReadNode node]))
    \<and> (\<not> has_own_taint c ts \<longrightarrow>
        snd (taint_node c k node reason h)
          = h @ [ReadNode node, PatchTaints node (ts @ [own_taint c reason])]
        \<and> (\<exists>a. fst (taint_node c k node reason h) = Inr a \<and> (act_success a = Some True
             \<longleftrightarrow> k_patch_taints k (h @ [ReadNode node]) node (ts @ [own_taint c reason]) = Inr ())))
    \<and> (\<forall>h2 r2. k_read_node k h2 node = Inr (ts @ [own_taint c reason]) \<longrightarrow>
          taint_node c k node r2 h2
            = (Inr (taint_action node True (oc_taint_key c)), h2 @ [ReadNode node]))"
proof -
  have "has_own_taint c (ts @ [own_taint c reason])"
    by (simp add: has_own_taint_def own_taint_def)
  then show ?thesis using assms
    by (cases "k_patch_taints k (h @ [ReadNode node]) node (ts @ [own_taint c reason])")
       (auto simp: taint_node_def run_simps Let_def taint_action_def)
qed

theorem taint_node_adds_only_its_taint_witness:
  "snd (taint_node sample_cfg sample_kube ''n1'' ''R'' [])
     = [ReadNode ''n1'', PatchTaints ''n1'' [own_taint sample_cfg ''R'']]"
  using taint_node_adds_only_its_taint [of sample_kube "[]" "''n1''" "[]" sample_cfg "''R''"]
  by (simp add: sample_kube_def has_own_taint_def)

text \<open>
  C39: a failed pod listing is taken for a finished restart.  When a node fault without a job name
  is tainted but the pods of the node cannot be listed, nothing is deleted and the only trace is
  a failed ListPods action; the readiness test looks at TaintNode and DeletePod actions only, so
  unless the event itself asked for a deletion the launcher is told it may restart.
\<close>

theorem list_failure_reported_ready:
  assumes "api_only c k" "delete_after_taint c f True" "fs_job (fe_spec f) = []"
    "fs_pod (fe_spec f) = []" "fe_name f \<noteq> []"
    "want_delete_pod (fs_action (fe_spec f)) \<noteq> Some True"
    "want_delete_pods (fs_action (fe_spec f)) \<noteq> Some True"
    "fs_type (fe_spec f) = Some reason"
    "taint_node c k (fs_node (fe_spec f)) reason h = (Inr a, h1)"
    "act_success a = Some True" "act_type a = ''TaintNode''"
    "k_pods_on_node k h1 (fs_node (fe_spec f)) = Inl e"
  shows "\<exists>acts. process_fault c k f h = (Inr (), h1 @ ListPodsOnNode (fs_node (fe_spec f))
        # PatchStatus (fe_name f) acts True # (if oc_alerts c then [Alert f acts] else []))
    \<and> (\<exists>x\<in>set acts. act_type x = ''ListPods'' \<and> act_success x = Some False)
    \<and> fst (snd (fault_event_restart_readiness (f\<lparr> fe_processed := True, fe_actions := acts \<rparr>)))"
proof -
  let ?node = "fs_node (fe_spec f)"
  have tr: "taint_requested f" "?node \<noteq> []"
    using assms(2) by (auto simp: delete_after_taint_def taint_requested_def)
  have t: "taint_step c k f h = (Inr ([a], True), h1)"
    using assms(8,9,10) tr by (simp add: taint_step_def)
  have d: "delete_step c k f True h1 = (Inr (list_failed ?node e), h1 @ [ListPodsOnNode ?node])"
    using assms(2,3,4,12) tr by (simp add: delete_step_def Let_def delete_ft_jobs_for_node_def call_def)
  have r: "fst (snd (fault_event_restart_readiness
      (f\<lparr> fe_processed := True, fe_actions := a # list_failed ?node e \<rparr>)))"
    using assms(6,7,10,11)
    by (simp add: readiness_ready list_failed_def no_action_def check_required_iff required_actions_def)
  show ?thesis using t d r assms(5) tr conclude_returns [OF assms(1)]
    by (intro exI [of _ "a # list_failed ?node e"])
       (simp add: process_fault_def list_failed_def no_action_def)
qed

theorem list_failure_reported_ready_witness:
  "\<exists>acts. process_fault sample_cfg (sample_kube\<lparr> k_pods_on_node := \<lambda>h n. Inl (OtherError ''timeout'') \<rparr>)
      ((sample_fault ''a'' ''NodeHealthCheckFailed'' [])\<lparr> fe_spec := sample_spec\<lparr>
          fs_type := Some ''NodeHealthCheckFailed'', fs_job := [], fs_pod := [], fs_action :=
          \<lparr> want_taint = Some True, want_delete_pod = None, want_delete_pods = None \<rparr> \<rparr> \<rparr>) []
     = (Inr (), [ReadNode ''n1'', PatchTaints ''n1'' [own_taint sample_cfg ''NodeHealthCheckFailed''],
          ListPodsOnNode ''n1'', PatchStatus ''a'' acts True])"
proof -
  let ?k = "sample_kube\<lparr> k_pods_on_node := \<lambda>h n. Inl (OtherError ''timeout'') \<rparr>"
  let ?f = "(sample_fault ''a'' ''NodeHealthCheckFailed'' [])\<lparr> fe_spec := sample_spec\<lparr>
          fs_type := Some ''NodeHealthCheckFailed'', fs_job := [], fs_pod := [], fs_action :=
          \<lparr> want_taint = Some True, want_delete_pod = None, want_delete_pods = None \<rparr> \<rparr> \<rparr>"
  have l: "py_lower ''PyTorchJob'' = ''pytorchjob''" by code_simp
  have t: "taint_node sample_cfg ?k ''n1'' r [] = (Inr (taint_action ''n1'' True ''ft/unhealthy''),
      [ReadNode ''n1'', PatchTaints ''n1'' [own_taint sample_cfg r]])" for r
    by (simp add: taint_node_def sample_kube_def sample_cfg_def run_simps has_own_taint_def Let_def)
  have "api_only sample_cfg ?k" by (simp add: api_only_def sample_cfg_def sample_kube_def)
  moreover have "delete_after_taint sample_cfg ?f True"
    using l by (simp add: delete_after_taint_def taint_requested_def sample_cfg_def sample_spec_def)
  moreover have "fs_node (fe_spec ?f) = ''n1''" "fs_type (fe_spec ?f) = Some ''NodeHealthCheckFailed''"
    "fe_name ?f = ''a''" by (simp_all add: sample_fault_def sample_spec_def)
  moreover have "\<not> oc_alerts sample_cfg" by (simp add: sample_cfg_def)
  ultimately show ?thesis
    using list_failure_reported_ready [of sample_cfg ?k ?f "''NodeHealthCheckFailed''" "[]"
        "taint_action ''n1'' True ''ft/unhealthy''" "[ReadNode ''n1'',
           PatchTaints ''n1'' [own_taint sample_cfg ''NodeHealthCheckFailed'']]" "OtherError ''timeout''"] t
    by (auto simp: taint_action_def)
qed

text \<open>A sequence of observations of one node: clock readings, time text and conditions.\<close>

type_synonym observation = "real \<times> real \<times> string \<times> node_condition list"

fun observe ::
    "op_cfg \<Rightarrow> kube \<Rightarrow> string \<Rightarrow> observation list \<Rightarrow> op_state \<times> history \<Rightarrow> op_state \<times> history" where
  "observe c k node [] sh = sh"
| "observe c k node ((t1, t2, tx, conds) # obs) sh =
     observe c k node obs (snd (handle_node_condition c k t1 t2 tx node conds sh))"

definition creations :: "history \<Rightarrow> nat" where
  "creations h = length (filter (\<lambda>r. \<exists>f. r = CreateFaultEvent f) h)"

definition not_ready :: "node_condition list \<Rightarrow> bool" where
  "not_ready conds = (fst (ready_condition conds) \<noteq> ''True'')"

lemma creations_simps [simp]:
  "creations (h @ h') = creations h + creations h'" "creations [] = 0"
  "creations (CreateFaultEvent f # h) = Suc (creations h)"
  "creations (GetFaultEvent n # h) = creations h"
  by (simp_all add: creations_def)

lemma create_not_ready_log:
  assumes "\<forall>h f m. k_create_event k h f \<noteq> Inl (OtherError m)"
  shows "creations (snd (create_node_not_ready_fault_event k f h)) \<le> Suc (creations h)
    \<and> (\<forall>e. fst (create_node_not_ready_fault_event k f h) = Inl e
          \<longrightarrow> creations (snd (create_node_not_ready_fault_event k f h)) = creations h)"
  using assms by (auto simp: create_node_not_ready_fault_event_def call_def
      split: sum.split api_exn.split)

lemma handle_not_ready:
  assumes "\<forall>h f m. k_create_event k h f \<noteq> Inl (OtherError m)" "not_ready conds"
    and "handle_node_condition c k t1 t2 tx node conds (s, h) = (r, s', h')"
  shows "(node \<in> set (os_sent s) \<longrightarrow> h' = h \<and> node \<in> set (os_sent s'))
    \<and> creations h' \<le> Suc (creations h)
    \<and> (node \<notin> set (os_sent s') \<longrightarrow> creations h' = creations h)"
  using assms(2,3) create_not_ready_log [OF assms(1)]
  by (auto simp: handle_node_condition_def not_ready_def Let_def split: prod.splits if_splits sum.splits option.splits)
     (metis fst_conv snd_conv)+

lemma observe_sent:
  assumes "\<forall>h f m. k_create_event k h f \<noteq> Inl (OtherError m)"
  shows "\<forall>(t1, t2, tx, conds)\<in>set obs. not_ready conds \<Longrightarrow> node \<in> set (os_sent s)
     \<Longrightarrow> snd (observe c k node obs (s, h)) = h"
proof (induction obs arbitrary: s h)
  case (Cons ob obs)
  obtain t1 t2 tx conds where ob: "ob = (t1, t2, tx, conds)" by (cases ob)
  obtain r s' h' where e: "handle_node_condition c k t1 t2 tx node conds (s, h) = (r, s', h')"
    by (cases "handle_node_condition c k t1 t2 tx node conds (s, h)") auto
  show ?case using handle_not_ready [OF assms _ e] Cons by (simp add: ob e)
qed simp

lemma observe_creations:
  assumes "\<forall>h f m. k_create_event k h f \<noteq> Inl (OtherError m)"
  shows "\<forall>(t1, t2, tx, conds)\<in>set obs. not_ready conds
     \<Longrightarrow> creations (snd (observe c k node obs (s, h))) \<le> Suc (creations h)"
proof (induction obs arbitrary: s h)
  case (Cons ob obs)
  obtain t1 t2 tx conds where ob: "ob = (t1, t2, tx, conds)" by (cases ob)
  obtain r s' h' where e: "handle_node_condition c k t1 t2 tx node conds (s, h) = (r, s', h')"
    by (cases "handle_node_condition c k t1 t2 tx node conds (s, h)") auto
  have n: "not_ready conds" "\<forall>(t1, t2, tx, conds)\<in>set obs. not_ready conds"
    using Cons.prems by (auto simp: ob)
  show ?case
  proof (cases "node \<in> set (os_sent s')")
    case True
    then show ?thesis
      using observe_sent [OF assms n(2) True, of c h'] handle_not_ready [OF assms n(1) e]
      by (simp add: ob e)
  next
    case False
    then show ?thesis using Cons.IH [OF n(2), of s' h'] handle_not_ready [OF assms n(1) e]
      by (simp add: ob e)
  qed
qed simp

text \<open>
  C30: one report per NotReady episode.  However often a node is seen not ready, at most one
  NodeNotReady event is created until it is ready again, provided the client raises ApiException
  only; and a node not yet reported whose grace period is over is reported under the name of its
  first sighting, if no event of that name exists.
\<close>

theorem not_ready_reported_once:
  assumes "\<forall>h f m. k_create_event k h f \<noteq> Inl (OtherError m)"
    and "\<forall>(t1, t2, tx, conds)\<in>set obs. not_ready conds"
  shows "creations (snd (observe c k node obs (s, h))) \<le> Suc (creations h)
    \<and> (\<forall>t1 t2 tx conds m first. not_ready conds \<and> node \<notin> set (os_sent s)
         \<and> map_of (os_since s) node = Some first \<and> oc_grace c \<le> truncate_real (t2 - first)
         \<and> (\<forall>h n. k_get_event k h n = Inl (ApiError 404 m)) \<longrightarrow>
       (\<exists>f. snd (snd (handle_node_condition c k t1 t2 tx node conds (s, h)))
              = h @ [GetFaultEvent (fe_name f), CreateFaultEvent f]
          \<and> fs_node (fe_spec f) = node
          \<and> fe_name f = ''node-notready-'' @ safe_name node 40 @ ''-'' @ show_int (truncate_real first)))"
proof -
  have "\<exists>f. snd (snd (handle_node_condition c k t1 t2 tx node conds (s, h)))
              = h @ [GetFaultEvent (fe_name f), CreateFaultEvent f]
          \<and> fs_node (fe_spec f) = node
          \<and> fe_name f = ''node-notready-'' @ safe_name node 40 @ ''-'' @ show_int (truncate_real first)"
    if a: "not_ready conds" "node \<notin> set (os_sent s)" "map_of (os_since s) node = Some first"
      "oc_grace c \<le> truncate_real (t2 - first)" "\<forall>h n. k_get_event k h n = Inl (ApiError 404 m)"
    for t1 t2 tx conds m first
  proof -
    obtain st reason where st: "ready_condition conds = (st, reason)" by fastforce
    let ?f = "not_ready_event c node st reason (truncate_real (t2 - first)) (truncate_real first) tx"
    have "create_node_not_ready_fault_event k ?f h
        = (Inr (), h @ [GetFaultEvent (fe_name ?f), CreateFaultEvent ?f])"
      using a(5) assms(1) by (auto simp: create_node_not_ready_fault_event_def call_def
          split: sum.split api_exn.split)
    then show ?thesis using a(1-4) st
      by (intro exI [of _ ?f]) (auto simp: handle_node_condition_def not_ready_def Let_def not_ready_event_def)
  qed
  then show ?thesis using observe_creations [OF assms] by blast
qed

theorem not_ready_reported_once_witness:
  "creations (snd (observe sample_cfg sample_kube ''n1''
     [(0, 0, [], [(''Ready'', ''False'', [])]), (61, 61, [], [(''Ready'', ''False'', [])]),
      (99, 99, [], [])] (init_operator False, []))) \<le> 1"
proof -
  have "not_ready [(''Ready'', ''False'', [])]" "not_ready []"
    by (simp_all add: not_ready_def ready_condition_def)
  then show ?thesis
    using not_ready_reported_once [of sample_kube "[(0, 0, [], [(''Ready'', ''False'', [])]),
        (61, 61, [], [(''Ready'', ''False'', [])]), (99, 99, [], [])]" sample_cfg "''n1''"
        "init_operator False" "[]"]
    by (simp add: sample_kube_def)
qed

text \<open>
  C23: leader election.  A round makes the operator leader exactly when the lease does not exist
  and is created, or is free (no holder, held by itself, or not renewed within the lease time)
  and the patch is accepted; a live lease of another holder is never written; every error ends
  in standby.
\<close>

theorem election_round_exact:
  "(os_leader (fst (leader_election_round c k now (s, h))) \<longleftrightarrow>
      (\<exists>m. k_read_lease k h = Inl (ApiError 404 m)
         \<and> k_create_lease k (h @ [ReadLease]) (oc_identity c) = Inr ())
      \<or> (\<exists>l. k_read_lease k h = Inr l \<and> lease_free c now l
         \<and> k_patch_lease k (h @ [ReadLease]) (oc_identity c) = Inr ()))
   \<and> (\<forall>l. k_read_lease k h = Inr l \<and> \<not> lease_free c now l
        \<longrightarrow> snd (leader_election_round c k now (s, h)) = h @ [ReadLease])"
proof (cases "k_read_lease k h")
  case (Inl e)
  then show ?thesis
    by (cases e; cases "k_create_lease k (h @ [ReadLease]) (oc_identity c)")
       (auto simp: leader_election_round_def try_acquire_or_renew_lease_def call_def)
next
  case (Inr l)
  then show ?thesis
    by (cases "lease_free c now l"; cases "k_patch_lease k (h @ [ReadLease]) (oc_identity c)")
       (auto simp: leader_election_round_def try_acquire_or_renew_lease_def call_def)
qed

definition lease_kube :: kube where
  "lease_kube = sample_kube\<lparr> k_read_lease := \<lambda>h. Inr (Some (Some ''op-b'', Some 100)) \<rparr>"

theorem election_round_exact_witness:
  "\<not> os_leader (fst (leader_election_round sample_cfg lease_kube 120 (init_operator True, [])))
   \<and> snd (leader_election_round sample_cfg lease_kube 120 (init_operator True, [])) = [ReadLease]
   \<and> os_leader (fst (leader_election_round sample_cfg lease_kube 131 (init_operator True, [])))"
proof -
  have "k_read_lease lease_kube h = Inr (Some (Some ''op-b'', Some 100))"
    "k_patch_lease lease_kube h x = Inr ()" for h x
    by (simp_all add: lease_kube_def sample_kube_def)
  moreover have "\<not> lease_free sample_cfg 120 (Some (Some ''op-b'', Some 100))"
    "lease_free sample_cfg 131 (Some (Some ''op-b'', Some 100))"
    by (simp_all add: lease_free_def sample_cfg_def)
  ultimately show ?thesis
    using election_round_exact [of sample_cfg lease_kube 120 "init_operator True" "[]"]
      election_round_exact [of sample_cfg lease_kube 131 "init_operator True" "[]"] by simp
qed

definition job_pod :: "string \<Rightarrow> (nat \<Rightarrow> string) \<Rightarrow> nat \<Rightarrow> pod" where
  "job_pod job place i = \<lparr> p_namespace = ''train'',
     p_name = (if i = 0 then job @ ''-master-0'' else (job @ ''-worker'') @ ''-'' @ show_nat (i - 1)),
     p_node = place i, p_phase = ''Running'',
     p_role = (if i = 0 then ''master'' else ''worker''), p_job = job \<rparr>"

lemma pod_node_rank_job_pod: "pod_node_rank (job_pod job place i) = int i"
proof -
  have l: "py_lower ''worker'' = ''worker''" "py_lower ''master'' = ''master''" by code_simp+
  show ?thesis
  proof (cases "i = 0")
    case False
    have "name_ordinal ((job @ ''-worker'') @ ''-'' @ show_nat (i - 1)) = Some (i - 1)"
      by (rule name_ordinal_show)
    then show ?thesis using False l by (simp add: pod_node_rank_def job_pod_def Let_def)
  qed (simp add: pod_node_rank_def job_pod_def l Let_def)
qed

text \<open>
  C32: from rank to pod.  For the pods of a PyTorchJob of \<open>Suc m\<close> nodes (a master and \<open>m\<close> workers,
  numbered from 0, listed in any order) every global rank is resolved to the pod of the node that
  runs it: node 0 is the master, node \<open>i\<close> the worker \<open>i - 1\<close>; a rank beyond them to none.
\<close>

theorem rank_resolves_to_its_pod:
  assumes "oc_ranks_per_pod c = int rpp" "0 < rpp" "ns \<noteq> []" "job \<noteq> []"
    and "k_pods_of_job k h ns job False = Inr pods"
    and "set pods = job_pod job place ` {..m}"
  shows "fst (resolve_pod_from_rank c k ns job (Some (int r)) h) =
    (if r < Suc m * rpp
     then (p_name (job_pod job place (r div rpp)), place (r div rpp)) else ([], []))"
proof -
  let ?P = "\<lambda>p. pod_node_rank p = int r div oc_ranks_per_pod c"
  have rank: "?P (job_pod job place i) \<longleftrightarrow> i = r div rpp" for i
    by (simp add: pod_node_rank_job_pod assms(1) zdiv_int [symmetric])
  have lt: "r < Suc m * rpp \<longleftrightarrow> r div rpp \<le> m"
    using assms(2) by (metis div_less_iff_less_mult less_Suc_eq_le)
  have "find ?P pods = (if r div rpp \<le> m then Some (job_pod job place (r div rpp)) else None)"
  proof (cases "find ?P pods")
    case None
    then show ?thesis using rank assms(6) by (auto simp: find_None_iff)
  next
    case (Some p)
    then have "p \<in> set pods" "?P p" by (auto simp: find_Some_iff)
    then show ?thesis using Some rank assms(6) by auto
  qed
  then show ?thesis using assms lt
    by (simp add: resolve_pod_from_rank_def call_def job_pod_def)
qed

theorem rank_resolves_to_its_pod_witness:
  "fst (resolve_pod_from_rank sample_cfg
      (sample_kube\<lparr> k_pods_of_job := \<lambda>h ns j b. Inr (map (job_pod ''llm'' (\<lambda>i. ''n'' @ show_nat i)) [2, 0, 1]) \<rparr>)
      ''train'' ''llm'' (Some 17) []) = (''llm-worker-1'', ''n2'')"
proof -
  let ?k = "sample_kube\<lparr> k_pods_of_job := \<lambda>h ns j b. Inr (map (job_pod ''llm'' (\<lambda>i. ''n'' @ show_nat i)) [2, 0, 1]) \<rparr>"
  have "set (map (job_pod ''llm'' (\<lambda>i. ''n'' @ show_nat i)) [2, 0, 1]) = job_pod ''llm'' (\<lambda>i. ''n'' @ show_nat i) ` {..2}"
    by (auto simp: numeral_2_eq_2 atMost_Suc)
  moreover have "show_nat 1 = ''1''" "show_nat 2 = ''2''" by code_simp+
  ultimately show ?thesis
    using rank_resolves_to_its_pod [of sample_cfg 8 "''train''" "''llm''" ?k "[]"
        "map (job_pod ''llm'' (\<lambda>i. ''n'' @ show_nat i)) [2, 0, 1]" "\<lambda>i. ''n'' @ show_nat i" 2 17]
    by (simp add: sample_cfg_def job_pod_def)
qed

end
