(* ===== verification/TaintRecovery.thy ===== *)
theory TaintRecovery
  imports Operator "HOL-Library.Multiset"
begin

text \<open>
  The recovery check of a tainted node (hygon_ft/nodehealth/taint_recovery.py): it runs a checker
  pod on the node once per round, with two healthy reference nodes, and removes the operator's
  taint when every round passes.

  The API server, the clock and the shuffling of the candidates answer as arbitrary functions of
  the requests so far (record \<open>recovery_api\<close>).  \<open>ra_polls\<close> is the number of polls that fit into a
  timeout.  The detail log file is not modelled, nor are the time stamps of the result.
\<close>

section \<open>Names and arguments\<close>

definition label_char :: "char \<Rightarrow> bool" where
  "label_char c = ((CHR ''a'' \<le> c \<and> c \<le> CHR ''z'') \<or> is_digit c \<or> c = CHR ''-'')"

text \<open>\<^verbatim>\<open>re.sub(r"-+", "-", s)\<close>.\<close>

fun squeeze_hyphens :: "string \<Rightarrow> string" where
  "squeeze_hyphens [] = []"
| "squeeze_hyphens [c] = [c]"
| "squeeze_hyphens (c # d # cs) =
     (if c = CHR ''-'' \<and> d = CHR ''-'' then squeeze_hyphens (d # cs)
      else c # squeeze_hyphens (d # cs))"

definition sanitize_name :: "string \<Rightarrow> string" where
  "sanitize_name v =
     (let name = strip_chars (\<lambda>c. c = CHR ''-'')
                   (squeeze_hyphens (sub_runs label_char False (py_lower v)))
      in if take 40 name = [] then ''node'' else take 40 name)"

text \<open>The pieces between runs of commas and white space, each once, in order.\<close>

definition node_sep :: "char \<Rightarrow> bool" where
  "node_sep c = (c = CHR '','' \<or> is_ws c)"

fun pieces :: "string \<Rightarrow> string \<Rightarrow> string list" where
  "pieces cur [] = (if cur = [] then [] else [rev cur])"
| "pieces cur (c # cs) =
     (if node_sep c then (if cur = [] then pieces [] cs else rev cur # pieces [] cs)
      else pieces (c # cur) cs)"

fun keep_first :: "string list \<Rightarrow> string list \<Rightarrow> string list" where
  "keep_first acc [] = acc"
| "keep_first acc (x # xs) = keep_first (if x \<in> set acc then acc else acc @ [x]) xs"

definition parse_nodes :: "string \<Rightarrow> string list" where
  "parse_nodes v = keep_first [] (pieces [] (py_strip v))"

definition build_recovery_pod_name :: "string \<Rightarrow> nat \<Rightarrow> nat \<Rightarrow> string" where
  "build_recovery_pod_name node rnd ms =
     (let suffix = show_nat rnd @ ''-'' @ show_nat ms; prefix = ''taint-recovery-'';
          n = max 1 (63 - int (length prefix) - int (length suffix) - 1)
      in prefix @ py_take n (sanitize_name node) @ ''-'' @ suffix)"

section \<open>Nodes\<close>

record node_view =
  nv_name :: string
  nv_conditions :: "(string \<times> string) list"
  nv_taints :: "taint list"

definition node_is_ready :: "node_view \<Rightarrow> bool" where
  "node_is_ready n =
     (case find (\<lambda>(t, _). t = ''Ready'') (nv_conditions n) of
        Some (_, st) \<Rightarrow> st = ''True'' | None \<Rightarrow> False)"

definition has_taint :: "node_view \<Rightarrow> string \<Rightarrow> string \<Rightarrow> bool" where
  "has_taint n key effect = (\<exists>t\<in>set (nv_taints n). t_key t = key \<and> t_effect t = effect)"

record recovery_config =
  rc_namespace :: string
  rc_image :: string
  rc_script_path :: string
  rc_taint_key :: string
  rc_taint_effect :: string
  rc_check_times :: int
  rc_check_interval :: int
  rc_pod_start_timeout :: int
  rc_pod_finish_timeout :: int
  rc_check_timeout :: int
  rc_remove_taint :: bool
  rc_delete_check_pod :: bool
  rc_log_file :: string
  rc_detail_log_file :: string

text \<open>What a checker pod is: its name, the node it is pinned to, its reference nodes, its round.\<close>

record check_pod =
  cp_name :: string
  cp_namespace :: string
  cp_node :: string
  cp_reference :: string
  cp_round :: nat
  cp_image :: string
  cp_command :: string
  cp_label_node :: string
  cp_timeout :: int
  cp_interval :: int

definition build_check_pod ::
    "string \<Rightarrow> string \<Rightarrow> string list \<Rightarrow> recovery_config \<Rightarrow> nat \<Rightarrow> check_pod" where
  "build_check_pod pod node normals cfg rnd = \<lparr> cp_name = pod, cp_namespace = rc_namespace cfg,
     cp_node = node, cp_reference = join_with '','' normals, cp_round = rnd, cp_image = rc_image cfg,
     cp_command = ''chmod +x '' @ rc_script_path cfg @ '' 2>/dev/null || true; exec bash ''
                  @ rc_script_path cfg,
     cp_label_node = sanitize_name node, cp_timeout = rc_check_timeout cfg,
     cp_interval = rc_check_interval cfg \<rparr>"

section \<open>Requests\<close>

datatype recovery_request =
    RReadNode string
  | RListNodes
  | RPatchTaints string "taint list"
  | RCreatePod check_pod
  | RReadPod string
  | RPodLog string bool
  | RDeletePod string

type_synonym rhistory = "recovery_request list"

record recovery_api =
  ra_read_node :: "rhistory \<Rightarrow> string \<Rightarrow> api_exn + node_view"
  ra_list_nodes :: "rhistory \<Rightarrow> api_exn + node_view list"
  ra_patch_taints :: "rhistory \<Rightarrow> string \<Rightarrow> taint list \<Rightarrow> api_exn + unit"
  ra_create_pod :: "rhistory \<Rightarrow> check_pod \<Rightarrow> api_exn + unit"
  ra_read_pod :: "rhistory \<Rightarrow> string \<Rightarrow> api_exn + string"
  ra_pod_log :: "rhistory \<Rightarrow> string \<Rightarrow> bool \<Rightarrow> api_exn + string"
  ra_delete_pod :: "rhistory \<Rightarrow> string \<Rightarrow> api_exn + unit"
  ra_polls :: "rhistory \<Rightarrow> int \<Rightarrow> nat"
  ra_clock_ms :: "rhistory \<Rightarrow> nat"
  ra_shuffle :: "rhistory \<Rightarrow> string list \<Rightarrow> string list"

type_synonym 'a recovery = "rhistory \<Rightarrow> (api_exn + 'a) \<times> rhistory"

definition ask :: "recovery_request \<Rightarrow> (rhistory \<Rightarrow> api_exn + 'a) \<Rightarrow> 'a recovery" where
  "ask r f h = (f h, h @ [r])"

declare ask_def [run_simps]

definition choose_normal_nodes ::
    "recovery_api \<Rightarrow> string \<Rightarrow> string \<Rightarrow> string \<Rightarrow> nat \<Rightarrow> string list recovery" where
  "choose_normal_nodes a target key effect k h =
     on_return (ask RListNodes (ra_list_nodes a) h) (\<lambda>nodes h.
       (Inr (take k (ra_shuffle a h (map nv_name (filter (\<lambda>n.
          nv_name n \<noteq> target \<and> node_is_ready n \<and> \<not> has_taint n key effect) nodes)))), h))"

section \<open>One round\<close>

text \<open>
  Polling until the phase is wanted; \<open>n\<close> polls are left before the deadline, and when none is
  the wait ends with TimeoutError.
\<close>

fun wait_loop :: "recovery_api \<Rightarrow> string \<Rightarrow> string list \<Rightarrow> nat \<Rightarrow> string recovery" where
  "wait_loop a pod wanted 0 h = (Inl (OtherError ''timeout''), h)"
| "wait_loop a pod wanted (Suc n) h =
     on_return (ask (RReadPod pod) (\<lambda>h. ra_read_pod a h pod) h) (\<lambda>phase h.
       if phase \<in> set wanted then (Inr phase, h) else wait_loop a pod wanted n h)"

definition wait_for_pod_phase ::
    "recovery_api \<Rightarrow> string \<Rightarrow> string list \<Rightarrow> int \<Rightarrow> string recovery" where
  "wait_for_pod_phase a pod wanted timeout h = wait_loop a pod wanted (ra_polls a h timeout) h"

fun log_attempts :: "recovery_api \<Rightarrow> string \<Rightarrow> bool list \<Rightarrow> string list \<Rightarrow> string recovery" where
  "log_attempts a pod [] errs h =
     (Inr (''failed to read pod logs: '' @ join_with '' | '' errs), h)"
| "log_attempts a pod (prev # ps) errs h =
     (case ask (RPodLog pod prev) (\<lambda>h. ra_pod_log a h pod prev) h of
        (Inr text, h1) \<Rightarrow> if text \<noteq> [] then (Inr text, h1) else log_attempts a pod ps errs h1
      | (Inl (ApiError s m), h1) \<Rightarrow>
          log_attempts a pod ps
            (errs @ [''previous='' @ (if prev then ''True'' else ''False'') @ '': '' @ m]) h1
      | (Inl (OtherError m), h1) \<Rightarrow> (Inl (OtherError m), h1))"

definition get_pod_logs :: "recovery_api \<Rightarrow> string \<Rightarrow> string recovery" where
  "get_pod_logs a pod h = log_attempts a pod [False, True] [] h"

text \<open>
  The captures of \<^verbatim>\<open>^\[CHECK RESULT\]:\s*(.*?)\s*$\<close> in multi-line mode: the rest of a line that
  starts with the marker, trimmed.  The white space after the marker may span line ends, so when
  nothing else follows on the line the next line that is not blank is captured (and consumed).
\<close>

definition marker :: string where "marker = ''[CHECK RESULT]:''"

definition blank :: "string \<Rightarrow> bool" where "blank l = (\<forall>c\<in>set l. is_ws c)"

function captures :: "string list \<Rightarrow> string list" where
  "captures [] = []"
| "captures (l # ls) =
     (if \<not> is_prefix_of marker l then captures ls
      else if \<not> blank (drop (length marker) l)
      then py_strip (drop (length marker) l) # captures ls
      else (case dropWhile blank ls of
              [] \<Rightarrow> [[]]
            | m # ms \<Rightarrow> py_strip m # captures ms))"
  by pat_completeness auto
termination
proof (relation "measure length", goal_cases)
  case (4 l ls m ms)
  have "length (dropWhile blank ls) \<le> length ls" by (rule length_dropWhile_le)
  then show ?case using 4 by simp
qed auto

definition nhc_result :: "string \<Rightarrow> string" where
  "nhc_result text = (let ms = captures (split_on (CHR 0x0A) text)
     in if ms = [] then [] else py_strip (last ms))"

record rec_result =
  rr_pass :: bool
  rr_failed :: "string list"
  rr_nhc :: string
  rr_detail :: string
  rr_node :: string
  rr_normal :: "string list"
  rr_round :: "nat option"
  rr_rounds :: "int option"
  rr_phase :: string
  rr_logs :: string
  rr_untaint :: "bool option"

definition blank_result :: rec_result where
  "blank_result = \<lparr> rr_pass = False, rr_failed = [], rr_nhc = [], rr_detail = [], rr_node = [],
     rr_normal = [], rr_round = None, rr_rounds = None, rr_phase = [], rr_logs = [],
     rr_untaint = None \<rparr>"

definition last_chars :: "nat \<Rightarrow> string \<Rightarrow> string" where
  "last_chars n s = drop (length s - n) s"

definition parse_nhc_recovery_result :: "string \<Rightarrow> string \<Rightarrow> rec_result" where
  "parse_nhc_recovery_result text phase =
     (let r = nhc_result text in
      if phase = ''Succeeded'' \<and> r \<in> {''PASS'', ''PASSED''}
      then blank_result\<lparr> rr_pass := True, rr_nhc := r \<rparr>
      else if r \<noteq> []
      then blank_result\<lparr> rr_failed := [''run_nhc''], rr_nhc := r,
             rr_detail := ''run_nhc reported a node health failure'' \<rparr>
      else blank_result\<lparr> rr_failed := [''checker_output''],
             rr_detail := ''run_nhc did not produce a valid [CHECK RESULT] marker'',
             rr_logs := last_chars 2000 text \<rparr>)"

text \<open>
  The body of the round's \<^verbatim>\<open>try\<close>: whether the pod was created, the logs read so far, and the
  result or the exception.
\<close>

definition round_body ::
    "recovery_api \<Rightarrow> string \<Rightarrow> string list \<Rightarrow> recovery_config \<Rightarrow> nat \<Rightarrow> check_pod \<Rightarrow> rhistory
      \<Rightarrow> (bool \<times> string \<times> (api_exn + rec_result)) \<times> rhistory" where
  "round_body a node normals cfg rnd pod h =
     (case ask (RCreatePod pod) (\<lambda>h. ra_create_pod a h pod) h of
        (Inl e, h1) \<Rightarrow> ((False, [], Inl e), h1)
      | (Inr _, h1) \<Rightarrow>
     (case wait_for_pod_phase a (cp_name pod) [''Running'', ''Succeeded'', ''Failed'']
             (rc_pod_start_timeout cfg) h1 of
        (Inl e, h2) \<Rightarrow> ((True, [], Inl e), h2)
      | (Inr _, h2) \<Rightarrow>
     (case wait_for_pod_phase a (cp_name pod) [''Succeeded'', ''Failed'']
             (rc_pod_finish_timeout cfg) h2 of
        (Inl e, h3) \<Rightarrow> ((True, [], Inl e), h3)
      | (Inr phase, h3) \<Rightarrow>
     (case get_pod_logs a (cp_name pod) h3 of
        (Inl e, h4) \<Rightarrow> ((True, [], Inl e), h4)
      | (Inr logs, h4) \<Rightarrow>
          ((True, logs, Inr ((parse_nhc_recovery_result logs phase)\<lparr> rr_node := node,
              rr_normal := take 2 normals, rr_round := Some rnd, rr_phase := phase \<rparr>)), h4)))))"

definition failed_round ::
    "string \<Rightarrow> string list \<Rightarrow> nat \<Rightarrow> string \<Rightarrow> api_exn \<Rightarrow> rec_result" where
  "failed_round node normals rnd logs e = blank_result\<lparr> rr_failed := [''checker_pod''],
     rr_node := node, rr_normal := take 2 normals, rr_round := Some rnd,
     rr_detail := exn_text e, rr_logs := last_chars 4000 logs \<rparr>"

text \<open>The \<^verbatim>\<open>finally\<close> clause: an ApiException of the deletion is swallowed, any other escapes.\<close>

definition cleanup :: "recovery_api \<Rightarrow> recovery_config \<Rightarrow> bool \<Rightarrow> string \<Rightarrow> unit recovery" where
  "cleanup a cfg created pod h =
     (if created \<and> rc_delete_check_pod cfg
      then case ask (RDeletePod pod) (\<lambda>h. ra_delete_pod a h pod) h of
          (Inl (OtherError m), h1) \<Rightarrow> (Inl (OtherError m), h1)
        | (_, h1) \<Rightarrow> (Inr (), h1)
      else (Inr (), h))"

definition run_pod_recovery_checks ::
    "recovery_api \<Rightarrow> string \<Rightarrow> string list \<Rightarrow> recovery_config \<Rightarrow> nat \<Rightarrow> rec_result recovery" where
  "run_pod_recovery_checks a node normals cfg rnd h =
     (let pod = build_check_pod (build_recovery_pod_name node rnd (ra_clock_ms a h)) node normals cfg rnd
      in case round_body a node normals cfg rnd pod h of
          ((created, logs, r), h1) \<Rightarrow>
            on_return (cleanup a cfg created (cp_name pod) h1) (\<lambda>_ h.
              (Inr (case r of Inr res \<Rightarrow> res | Inl e \<Rightarrow> failed_round node normals rnd logs e), h)))"

section \<open>The whole check\<close>

definition remove_owned_taint :: "recovery_api \<Rightarrow> recovery_config \<Rightarrow> string \<Rightarrow> bool recovery" where
  "remove_owned_taint a cfg node h =
     on_return (ask (RReadNode node) (\<lambda>h. ra_read_node a h node) h) (\<lambda>n h.
       let mine = (\<lambda>t. t_key t = rc_taint_key cfg \<and> t_effect t = rc_taint_effect cfg);
           taints = filter (\<lambda>t. \<not> mine t) (nv_taints n)
       in if \<exists>t\<in>set (nv_taints n). mine t
          then on_return (ask (RPatchTaints node taints) (\<lambda>h. ra_patch_taints a h node taints) h)
                 (\<lambda>_ h. (Inr True, h))
          else (Inr False, h))"

text \<open>Rounds \<open>i, i + 1, \<dots>\<close> (\<open>n\<close> of them): the first result that does not pass, or the last one.\<close>

fun recovery_rounds ::
    "recovery_api \<Rightarrow> string \<Rightarrow> string list \<Rightarrow> recovery_config \<Rightarrow> nat \<Rightarrow> nat \<Rightarrow> rec_result
      \<Rightarrow> rec_result recovery" where
  "recovery_rounds a node normals cfg i 0 res h = (Inr res, h)"
| "recovery_rounds a node normals cfg i (Suc n) res h =
     on_return (run_pod_recovery_checks a node normals cfg i h) (\<lambda>r h.
       if \<not> rr_pass r then (Inr r, h) else recovery_rounds a node normals cfg (Suc i) n r h)"

definition refuse :: "string \<Rightarrow> string \<Rightarrow> string \<Rightarrow> rec_result" where
  "refuse item node detail = blank_result\<lparr> rr_failed := [item], rr_node := node, rr_detail := detail \<rparr>"

definition select_references ::
    "recovery_api \<Rightarrow> string \<Rightarrow> string list \<Rightarrow> recovery_config \<Rightarrow> string list recovery" where
  "select_references a node normals cfg h =
     (if length normals < 2
      then choose_normal_nodes a node (rc_taint_key cfg) (rc_taint_effect cfg) 2 h
      else (Inr normals, h))"

definition check_taint_recovery ::
    "recovery_api \<Rightarrow> string \<Rightarrow> string list \<Rightarrow> recovery_config \<Rightarrow> rec_result recovery" where
  "check_taint_recovery a node normals cfg h =
     (case ask (RReadNode node) (\<lambda>h. ra_read_node a h node) h of
        (Inl e, h1) \<Rightarrow> (Inr (refuse ''kubernetes'' node (exn_text e)), h1)
      | (Inr n, h1) \<Rightarrow>
          if \<not> node_is_ready n
          then (Inr (refuse ''Node Ready'' node ''target node is not Ready''), h1)
          else on_return (select_references a node normals cfg h1) (\<lambda>sel h.
            if length sel < 2
            then (Inr (refuse ''ib_write_bw'' node
                   ''need at least two Ready non-tainted normal nodes for ib_write_bw baseline''), h)
            else on_return (recovery_rounds a node (take 2 sel) cfg 1 (nat (rc_check_times cfg))
                     (blank_result\<lparr> rr_pass := True, rr_node := node, rr_normal := take 2 sel \<rparr>) h)
              (\<lambda>r h.
                 if \<not> rr_pass r then (Inr r, h)
                 else let res = r\<lparr> rr_rounds := Some (rc_check_times cfg), rr_normal := take 2 sel \<rparr>
                      in if rc_remove_taint cfg
                         then on_return (remove_owned_taint a cfg node h) (\<lambda>b h.
                                (Inr (res\<lparr> rr_untaint := Some b \<rparr>), h))
                         else (Inr res, h))))"

section \<open>Configuration\<close>

record recovery_args =
  ag_node :: string
  ag_namespace :: string
  ag_image :: string
  ag_script_path :: string
  ag_taint_key :: string
  ag_taint_effect :: string
  ag_check_times :: int
  ag_check_interval :: int
  ag_run_nhc_interval :: int
  ag_pod_start_timeout :: int
  ag_pod_finish_timeout :: int
  ag_check_timeout :: int
  ag_log_file :: string
  ag_detail_log_file :: string
  ag_no_detail_log :: bool
  ag_remove_taint :: bool
  ag_keep_pod :: bool

text \<open>The environment is a map; \<open>stamp\<close> is the local time as \<^verbatim>\<open>%Y%m%d%H%M%S\<close>.\<close>

definition get_env_int :: "(string \<Rightarrow> string option) \<Rightarrow> string \<Rightarrow> int \<Rightarrow> int" where
  "get_env_int env name d = (case env name of
      None \<Rightarrow> d
    | Some v \<Rightarrow> if v = [] then d else (case py_int v of Some i \<Rightarrow> i | None \<Rightarrow> d))"

definition arg_or_env :: "string \<Rightarrow> (string \<Rightarrow> string option) \<Rightarrow> string \<Rightarrow> string \<Rightarrow> string" where
  "arg_or_env v env name d =
     (if v \<noteq> [] then v else case env name of Some x \<Rightarrow> x | None \<Rightarrow> d)"

definition default_detail_log_file :: "string \<Rightarrow> string \<Rightarrow> string" where
  "default_detail_log_file node stamp =
     ''/tmp/taint-recovery-'' @ sanitize_name node @ ''-'' @ stamp @ ''.log''"

definition config_check_times :: "(string \<Rightarrow> string option) \<Rightarrow> int \<Rightarrow> int" where
  "config_check_times env v =
     (let n = (if v \<noteq> 0 then v else get_env_int env ''CHECK_FILENODES_TIMES'' 5)
      in if n \<le> 0 then 5 else n)"

definition config_interval :: "(string \<Rightarrow> string option) \<Rightarrow> int \<Rightarrow> int \<Rightarrow> int" where
  "config_interval env v w =
     (let a = (if v < 0 then w else v);
          b = (if a < 0 then get_env_int env ''CHECK_FILENODES_INTERVAL_TIME''
                               (get_env_int env ''RUN_NHC_INTERVAL_SECONDS'' 60) else a)
      in if b < 0 then 60 else b)"

definition build_config_from_env ::
    "(string \<Rightarrow> string option) \<Rightarrow> string \<Rightarrow> recovery_args \<Rightarrow> recovery_config" where
  "build_config_from_env env stamp g =
     (let dl = arg_or_env (ag_detail_log_file g) env ''RECOVERY_DETAIL_LOG_FILE'' [] in
      \<lparr> rc_namespace = arg_or_env (ag_namespace g) env ''POD_NAMESPACE'' ''hygon-ft'',
        rc_image = arg_or_env (ag_image g) env ''TAINT_RECOVERY_IMAGE'' ''hygon/ft-controller:latest'',
        rc_script_path = arg_or_env (ag_script_path g) env ''TAINT_RECOVERY_SCRIPT_PATH''
                           ''/opt/hygon-ft/nhc/run_nhc.sh'',
        rc_taint_key = arg_or_env (ag_taint_key g) env ''FT_UNHEALTHY_TAINT_KEY''
                         ''ft.hygon.io/node-unhealthy'',
        rc_taint_effect = arg_or_env (ag_taint_effect g) env ''FT_UNHEALTHY_TAINT_EFFECT'' ''NoSchedule'',
        rc_check_times = config_check_times env (ag_check_times g),
        rc_check_interval = config_interval env (ag_check_interval g) (ag_run_nhc_interval g),
        rc_pod_start_timeout = ag_pod_start_timeout g,
        rc_pod_finish_timeout = ag_pod_finish_timeout g,
        rc_check_timeout = ag_check_timeout g, rc_remove_taint = ag_remove_taint g,
        rc_delete_check_pod = (\<not> ag_keep_pod g),
        rc_log_file = arg_or_env (ag_log_file g) env ''RECOVERY_LOG_FILE'' ''/tmp/FAILED_NODES_CHECK'',
        rc_detail_log_file =
          (if dl = [] \<and> \<not> ag_no_detail_log g then default_detail_log_file (ag_node g) stamp else dl) \<rparr>)"

section \<open>Lemmas\<close>

definition patches :: "rhistory \<Rightarrow> (string \<times> taint list) set" where
  "patches h = {(n, ts). RPatchTaints n ts \<in> set h}"

lemma patches_simps [simp]:
  "patches [] = {}" "patches (h @ h') = patches h \<union> patches h'"
  "patches (RPatchTaints n ts # h) = insert (n, ts) (patches h)"
  "patches (RReadNode n # h) = patches h" "patches (RListNodes # h) = patches h"
  "patches (RCreatePod p # h) = patches h" "patches (RReadPod s # h) = patches h"
  "patches (RPodLog s b # h) = patches h" "patches (RDeletePod s # h) = patches h"
  by (auto simp: patches_def)

lemma wait_loop_patches: "patches (snd (wait_loop a pod wanted n h)) = patches h"
proof (induction n arbitrary: h)
  case (Suc n)
  then show ?case by (cases "ra_read_pod a h pod") (auto simp: run_simps)
qed simp

lemma log_attempts_patches: "patches (snd (log_attempts a pod ps errs h)) = patches h"
proof (induction ps arbitrary: errs h)
  case (Cons p ps)
  then show ?case by (auto simp: ask_def split: sum.split api_exn.split)
qed simp

lemma round_body_patches: "patches (snd (round_body a node normals cfg rnd pod h)) = patches h"
proof -
  have w: "patches h2 = patches h1" if "wait_for_pod_phase a p ws t h1 = (r, h2)" for p ws t h1 r h2
    using wait_loop_patches [of a p ws "ra_polls a h1 t" h1] that by (simp add: wait_for_pod_phase_def)
  have l: "patches h2 = patches h1" if "get_pod_logs a p h1 = (r, h2)" for p h1 r h2
    using log_attempts_patches [of a p "[False, True]" "[]" h1] that by (simp add: get_pod_logs_def)
  show ?thesis
    unfolding round_body_def ask_def by (auto split: prod.split sum.split dest!: w l)
qed

lemma cleanup_patches: "patches (snd (cleanup a cfg c pod h)) = patches h"
  by (auto simp: cleanup_def ask_def split: sum.split api_exn.split)

lemma run_round_patches:
  "patches (snd (run_pod_recovery_checks a node normals cfg rnd h)) = patches h"
proof -
  let ?pod = "build_check_pod (build_recovery_pod_name node rnd (ra_clock_ms a h)) node normals cfg rnd"
  obtain c l r h1 where 1: "round_body a node normals cfg rnd ?pod h = ((c, l, r), h1)"
    by (metis prod.exhaust)
  obtain x h2 where 2: "cleanup a cfg c (cp_name ?pod) h1 = (x, h2)" by fastforce
  have "patches h1 = patches h" using round_body_patches [of a node normals cfg rnd ?pod h] 1 by simp
  moreover have "patches h2 = patches h1" using cleanup_patches [of a cfg c "cp_name ?pod" h1] 2 by simp
  ultimately show ?thesis using 1 2 by (cases x) (simp_all add: run_pod_recovery_checks_def Let_def)
qed

definition passed :: "(api_exn + rec_result) \<times> rhistory \<Rightarrow> bool" where
  "passed p = (case fst p of Inl _ \<Rightarrow> False | Inr r \<Rightarrow> rr_pass r)"

lemma rounds_patches: "patches (snd (recovery_rounds a node normals cfg i n r h)) = patches h"
proof (induction n arbitrary: i r h)
  case (Suc n)
  obtain x h1 where 1: "run_pod_recovery_checks a node normals cfg i h = (x, h1)" by fastforce
  then have "patches h1 = patches h" using run_round_patches [of a node normals cfg i h] by simp
  then show ?case using Suc 1 by (cases x) auto
qed simp

text \<open>
  A run of rounds that ends in a pass has passed every one of them, each starting from the requests
  the one before it ended with.
\<close>

lemma rounds_passed:
  assumes "recovery_rounds a node normals cfg i n r h = (Inr r', h')" "rr_pass r'"
  shows "\<exists>hs. length hs = Suc n \<and> hs ! 0 = h \<and> hs ! n = h'
    \<and> (\<forall>j<n. passed (run_pod_recovery_checks a node normals cfg (i + j) (hs ! j))
         \<and> hs ! Suc j = snd (run_pod_recovery_checks a node normals cfg (i + j) (hs ! j)))"
  using assms(1)
proof (induction n arbitrary: i r h)
  case 0
  then show ?case by (intro exI [of _ "[h]"]) simp
next
  case (Suc n)
  obtain x h1 where 1: "run_pod_recovery_checks a node normals cfg i h = (x, h1)" by fastforce
  then obtain r1 where x: "x = Inr r1" "rr_pass r1"
      "recovery_rounds a node normals cfg (Suc i) n r1 h1 = (Inr r', h')"
    using Suc.prems assms(2) by (cases x) (auto split: if_splits)
  obtain hs where hs: "length hs = Suc n" "hs ! 0 = h1" "hs ! n = h'"
      "\<forall>j<n. passed (run_pod_recovery_checks a node normals cfg (Suc i + j) (hs ! j))
         \<and> hs ! Suc j = snd (run_pod_recovery_checks a node normals cfg (Suc i + j) (hs ! j))"
    using Suc.IH [OF x(3)] by blast
  have "passed (run_pod_recovery_checks a node normals cfg (i + j) ((h # hs) ! j))
      \<and> (h # hs) ! Suc j = snd (run_pod_recovery_checks a node normals cfg (i + j) ((h # hs) ! j))" if "j < Suc n" for j
  proof (cases j)
    case 0
    then show ?thesis using 1 x hs(2) by (simp add: passed_def)
  next
    case (Suc k)
    then show ?thesis using that hs(4) by simp
  qed
  then show ?case using hs(1,3) by (intro exI [of _ "h # hs"]) simp
qed

text \<open>What the removal of the taint requests: a read, and with the own taint on the node one patch.\<close>

lemma remove_owned_taint_requests:
  assumes "remove_owned_taint a cfg node h = (v, h')" "(n, ts) \<in> patches h'" "patches h = {}"
  shows "\<exists>nv. ra_read_node a h node = Inr nv \<and> n = node
    \<and> ts = filter (\<lambda>t. \<not> (t_key t = rc_taint_key cfg \<and> t_effect t = rc_taint_effect cfg)) (nv_taints nv)
    \<and> h' = h @ [RReadNode node, RPatchTaints node ts]"
proof (cases "ra_read_node a h node")
  case (Inl e) then show ?thesis using assms by (auto simp: remove_owned_taint_def run_simps)
next
  case (Inr nv)
  let ?ts = "filter (\<lambda>t. t_key t = rc_taint_key cfg \<longrightarrow> t_effect t \<noteq> rc_taint_effect cfg) (nv_taints nv)"
  show ?thesis using Inr assms
    by (cases "ra_patch_taints a (h @ [RReadNode node]) node ?ts")
       (auto simp: remove_owned_taint_def run_simps Let_def split: if_splits)
qed

text \<open>The requests before the first round.\<close>

lemma select_references_requests:
  "snd (select_references a node normals cfg h) = h @ (if length normals < 2 then [RListNodes] else [])"
  "2 \<le> length normals \<Longrightarrow> select_references a node normals cfg h = (Inr normals, h)"
  by (cases "ra_list_nodes a h") (auto simp: select_references_def choose_normal_nodes_def run_simps)

lemma select_references_patches: "patches (snd (select_references a node normals cfg h)) = patches h"
  by (cases "ra_list_nodes a h") (auto simp: select_references_def choose_normal_nodes_def run_simps)

section \<open>Properties\<close>

text \<open>
  C18: a node is only untainted after every round of this run passed.  If the check ever patches
  taints, it was asked to, the patch is for the checked node and is the last request of the run;
  the run reads the node and chooses two reference nodes (the given ones, when there are two), then
  runs the configured number of rounds with them, one after the other, each of which passes, then
  reads the node again, and the patch keeps all taints of that last reading but the operator's.
\<close>

theorem untaint_only_after_all_rounds_pass:
  assumes "check_taint_recovery a node normals cfg [] = (v, h')" "RPatchTaints n ts \<in> set h'"
  shows "rc_remove_taint cfg \<and> n = node
    \<and> (\<exists>sel hs nv. let k = nat (rc_check_times cfg) in
         length sel = 2 \<and> (2 \<le> length normals \<longrightarrow> sel = take 2 normals) \<and> length hs = Suc k
         \<and> hs ! 0 = RReadNode node # (if length normals < 2 then [RListNodes] else [])
         \<and> (\<forall>j<k. passed (run_pod_recovery_checks a node sel cfg (Suc j) (hs ! j))
              \<and> hs ! Suc j = snd (run_pod_recovery_checks a node sel cfg (Suc j) (hs ! j)))
         \<and> ra_read_node a (hs ! k) node = Inr nv
         \<and> ts = filter (\<lambda>t. \<not> (t_key t = rc_taint_key cfg \<and> t_effect t = rc_taint_effect cfg)) (nv_taints nv)
         \<and> h' = hs ! k @ [RReadNode node, RPatchTaints node ts])"
proof -
  let ?h1 = "[RReadNode node]" and ?k = "nat (rc_check_times cfg)"
  have p: "(n, ts) \<in> patches h'" using assms(2) by (simp add: patches_def)
  obtain nv where nv: "ra_read_node a [] node = Inr nv" "node_is_ready nv"
    using assms(1) p by (cases "ra_read_node a [] node")
      (auto simp: check_taint_recovery_def run_simps split: if_splits)
  obtain x h2 where s: "select_references a node normals cfg ?h1 = (x, h2)" by fastforce
  have h2: "patches h2 = {}" using select_references_patches [of a node normals cfg ?h1] s by simp
  obtain sel where sel: "x = Inr sel" "2 \<le> length sel"
    using assms(1) nv s h2 p by (cases x) (auto simp: check_taint_recovery_def run_simps not_less split: if_splits)
  let ?r0 = "blank_result\<lparr> rr_pass := True, rr_node := node, rr_normal := take 2 sel \<rparr>"
  obtain y h3 where r: "recovery_rounds a node (take 2 sel) cfg 1 ?k ?r0 h2 = (y, h3)"
    by fastforce
  have h3: "patches h3 = {}"
    using rounds_patches [of a node "take 2 sel" cfg 1 ?k ?r0 h2] r h2 by simp
  obtain w h4 where rem: "remove_owned_taint a cfg node h3 = (w, h4)" by fastforce
  obtain r' where y: "y = Inr r'" "rr_pass r'" "rc_remove_taint cfg" "h' = h4"
    using assms(1) nv s sel r h3 p rem
    by (cases y; cases w) (auto simp: check_taint_recovery_def run_simps Let_def split: if_splits)
  obtain nv2 where last: "ra_read_node a h3 node = Inr nv2" "n = node" "h' = h3 @ [RReadNode node, RPatchTaints node ts]"
      "ts = filter (\<lambda>t. \<not> (t_key t = rc_taint_key cfg \<and> t_effect t = rc_taint_effect cfg)) (nv_taints nv2)"
    using remove_owned_taint_requests [OF rem _ h3] p y(4) by blast
  obtain hs where hs: "length hs = Suc ?k" "hs ! 0 = h2" "hs ! ?k = h3"
      "\<forall>j<?k. passed (run_pod_recovery_checks a node (take 2 sel) cfg (1 + j) (hs ! j))
         \<and> hs ! Suc j = snd (run_pod_recovery_checks a node (take 2 sel) cfg (1 + j) (hs ! j))"
    using rounds_passed [OF r [unfolded y(1)] y(2)] by blast
  have "h2 = RReadNode node # (if length normals < 2 then [RListNodes] else [])"
    using select_references_requests(1) [of a node normals cfg ?h1] s by simp
  moreover have "2 \<le> length normals \<longrightarrow> take 2 sel = take 2 normals"
    using select_references_requests(2) [of normals a node cfg ?h1] s sel(1) by auto
  ultimately show ?thesis using y(3) last hs sel(2)
    by (intro conjI exI [of _ "take 2 sel"] exI [of _ hs] exI [of _ nv2]) (simp_all add: Let_def)
qed

definition clean_api :: recovery_api where
  "clean_api = \<lparr> ra_read_node = \<lambda>h n. Inr \<lparr> nv_name = n, nv_conditions = [(''Ready'', ''True'')],
       nv_taints = [\<lparr> t_key = ''gpu'', t_effect = ''NoSchedule'', t_value = None, t_time = None \<rparr>,
                    own_taint sample_cfg ''R''] \<rparr>,
     ra_list_nodes = \<lambda>h. Inr [], ra_patch_taints = \<lambda>h n ts. Inr (),
     ra_create_pod = \<lambda>h p. Inr (), ra_read_pod = \<lambda>h p. Inr ''Succeeded'',
     ra_pod_log = \<lambda>h p b. Inr (''[CHECK RESULT]: PASS'' @ [CHR 0x0A]), ra_delete_pod = \<lambda>h p. Inr (),
     ra_polls = \<lambda>h t. 1, ra_clock_ms = \<lambda>h. 7, ra_shuffle = \<lambda>h xs. xs \<rparr>"

definition clean_cfg :: recovery_config where
  "clean_cfg = (build_config_from_env (\<lambda>v. None) ''t''
     \<lparr> ag_node = ''n1'', ag_namespace = [], ag_image = [], ag_script_path = [],
       ag_taint_key = ''ft/unhealthy'', ag_taint_effect = [], ag_check_times = 1,
       ag_check_interval = -1, ag_run_nhc_interval = -1, ag_pod_start_timeout = 120,
       ag_pod_finish_timeout = 1800, ag_check_timeout = 600, ag_log_file = [],
       ag_detail_log_file = [], ag_no_detail_log = True, ag_remove_taint = True,
       ag_keep_pod = False \<rparr>)"

lemma clean_cfg_simps:
  "rc_check_times clean_cfg = 1" "rc_remove_taint clean_cfg" "rc_delete_check_pod clean_cfg"
  "rc_taint_key clean_cfg = ''ft/unhealthy''" "rc_taint_effect clean_cfg = ''NoSchedule''"
  by (simp_all add: clean_cfg_def build_config_from_env_def config_check_times_def arg_or_env_def Let_def)

lemma clean_log: "nhc_result (''[CHECK RESULT]: PASS'' @ [CHR 0x0A]) = ''PASS''"
  by code_simp

lemma clean_round:
  "\<exists>r h'. run_pod_recovery_checks clean_api ''n1'' sel clean_cfg i h = (Inr r, h') \<and> rr_pass r"
  using clean_log by (simp add: run_pod_recovery_checks_def round_body_def run_simps clean_api_def
      wait_for_pod_phase_def get_pod_logs_def cleanup_def parse_nhc_recovery_result_def Let_def)

lemma clean_run:
  "\<exists>v h'. check_taint_recovery clean_api ''n1'' [''a'', ''b''] clean_cfg [] = (v, h')
     \<and> RPatchTaints ''n1'' [\<lparr> t_key = ''gpu'', t_effect = ''NoSchedule'', t_value = None, t_time = None \<rparr>] \<in> set h'"
proof -
  obtain r h' where r: "run_pod_recovery_checks clean_api ''n1'' [''a'', ''b''] clean_cfg 1 [RReadNode ''n1''] = (Inr r, h')"
      "rr_pass r"
    using clean_round by blast
  have rd: "ra_read_node clean_api h ''n1'' = Inr \<lparr> nv_name = ''n1'', nv_conditions = [(''Ready'', ''True'')],
       nv_taints = [\<lparr> t_key = ''gpu'', t_effect = ''NoSchedule'', t_value = None, t_time = None \<rparr>,
                    own_taint sample_cfg ''R''] \<rparr>" "ra_patch_taints clean_api h n ts = Inr ()" for h n ts
    by (simp_all add: clean_api_def)
  show ?thesis using r
    by (simp add: check_taint_recovery_def run_simps rd node_is_ready_def select_references_def
        clean_cfg_simps remove_owned_taint_def own_taint_def sample_cfg_def Let_def)
qed

theorem untaint_only_after_all_rounds_pass_witness:
  "\<exists>v h' ts hs. check_taint_recovery clean_api ''n1'' [''a'', ''b''] clean_cfg [] = (v, h')
     \<and> RPatchTaints ''n1'' ts \<in> set h' \<and> hs ! 0 = [RReadNode ''n1'']
     \<and> passed (run_pod_recovery_checks clean_api ''n1'' [''a'', ''b''] clean_cfg 1 (hs ! 0))
     \<and> h' = snd (run_pod_recovery_checks clean_api ''n1'' [''a'', ''b''] clean_cfg 1 (hs ! 0))
         @ [RReadNode ''n1'', RPatchTaints ''n1'' ts]"
proof -
  obtain v h' ts where 1: "check_taint_recovery clean_api ''n1'' [''a'', ''b''] clean_cfg [] = (v, h')"
      "RPatchTaints ''n1'' ts \<in> set h'"
    using clean_run by blast
  from untaint_only_after_all_rounds_pass [OF 1] obtain hs where "hs ! 0 = [RReadNode ''n1'']"
      "passed (run_pod_recovery_checks clean_api ''n1'' [''a'', ''b''] clean_cfg 1 (hs ! 0))"
      "hs ! 1 = snd (run_pod_recovery_checks clean_api ''n1'' [''a'', ''b''] clean_cfg 1 (hs ! 0))"
      "h' = hs ! 1 @ [RReadNode ''n1'', RPatchTaints ''n1'' ts]"
    by (auto simp: clean_cfg_simps Let_def)
  then show ?thesis using 1 by metis
qed

text \<open>
  C27: what a passed round means.  A checker pod pinned to the node, with the given reference nodes,
  was created, its phase became Succeeded, the last check result in its logs is PASS or PASSED,
  and unless pods are kept for debugging the last request of the round deletes it.
\<close>

theorem passed_round_saw_pass:
  assumes "run_pod_recovery_checks a node normals cfg rnd h = (Inr r, h')" "rr_pass r"
  shows "\<exists>pod logs h1 h2 h3. ra_create_pod a h pod = Inr () \<and> cp_node pod = node
    \<and> cp_round pod = rnd \<and> cp_reference pod = join_with '','' normals
    \<and> wait_for_pod_phase a (cp_name pod) [''Succeeded'', ''Failed''] (rc_pod_finish_timeout cfg) h1
        = (Inr ''Succeeded'', h2)
    \<and> get_pod_logs a (cp_name pod) h2 = (Inr logs, h3)
    \<and> nhc_result logs \<in> {''PASS'', ''PASSED''}
    \<and> (rc_delete_check_pod cfg \<longrightarrow> h' = h3 @ [RDeletePod (cp_name pod)])"
proof -
  let ?pod = "build_check_pod (build_recovery_pod_name node rnd (ra_clock_ms a h)) node normals cfg rnd"
  let ?ok = "[''Succeeded'', ''Failed'']"
  obtain c l x h3 where b: "round_body a node normals cfg rnd ?pod h = ((c, l, x), h3)"
    by (metis prod.exhaust)
  have cl: "cleanup a cfg c (cp_name ?pod) h3 = (Inr (), h')"
    and r: "r = (case x of Inr res \<Rightarrow> res | Inl e \<Rightarrow> failed_round node normals rnd l e)"
    using assms(1) b unfolding run_pod_recovery_checks_def Let_def
    by (cases "cleanup a cfg c (cp_name ?pod) h3"; cases "fst (cleanup a cfg c (cp_name ?pod) h3)"; simp)+
  have x: "x = Inr r"
    using r assms(2) by (cases x) (simp_all add: failed_round_def blank_result_def)
  obtain h1 h2 phase where p: "ra_create_pod a h ?pod = Inr ()" "c"
      "wait_for_pod_phase a (cp_name ?pod) ?ok (rc_pod_finish_timeout cfg) h1 = (Inr phase, h2)"
      "get_pod_logs a (cp_name ?pod) h2 = (Inr l, h3)"
      "r = (parse_nhc_recovery_result l phase)\<lparr> rr_node := node,
              rr_normal := take 2 normals, rr_round := Some rnd, rr_phase := phase \<rparr>"
    using b unfolding x round_body_def ask_def by (auto split: prod.splits sum.splits)
  have "phase = ''Succeeded'' \<and> nhc_result l \<in> {''PASS'', ''PASSED''}"
    using assms(2) p(5) by (simp add: parse_nhc_recovery_result_def blank_result_def Let_def split: if_splits)
  moreover have "rc_delete_check_pod cfg \<longrightarrow> h' = h3 @ [RDeletePod (cp_name ?pod)]"
    using cl p(2) by (auto simp: cleanup_def ask_def split: sum.splits api_exn.splits)
  moreover have "cp_node ?pod = node" "cp_round ?pod = rnd" "cp_reference ?pod = join_with '','' normals"
    by (simp_all add: build_check_pod_def)
  ultimately show ?thesis using p(1,3,4) by blast
qed

theorem passed_round_saw_pass_witness:
  "\<exists>r h'. \<exists>pod :: check_pod. run_pod_recovery_checks clean_api ''n1'' [''a'', ''b''] clean_cfg 1 [] = (Inr r, h')
     \<and> cp_node pod = ''n1'' \<and> last h' = RDeletePod (cp_name pod)"
proof -
  obtain r h' where 1: "run_pod_recovery_checks clean_api ''n1'' [''a'', ''b''] clean_cfg 1 [] = (Inr r, h')"
      "rr_pass r" using clean_round by blast
  obtain pod :: check_pod and h3 where "cp_node pod = ''n1''"
      "rc_delete_check_pod clean_cfg \<longrightarrow> h' = h3 @ [RDeletePod (cp_name pod)]"
    using passed_round_saw_pass [OF 1] by (elim exE conjE) (rule that; assumption)
  then have "cp_node pod = ''n1''" "h' = h3 @ [RDeletePod (cp_name pod)]"
    using clean_cfg_simps(3) by auto
  then show ?thesis using 1 by fastforce
qed

text \<open>
  C22: the check undoes the taint.  On a node the operator has tainted and whose other taints do
  not carry the operator's key and effect, the removal patches back exactly the taints the node
  had before, in their order.
\<close>

theorem untaint_undoes_taint:
  assumes "k_read_node k h node = Inr ts" "\<not> has_own_taint c ts"
    and "rc_taint_key cfg = oc_taint_key c" "rc_taint_effect cfg = oc_taint_effect c"
    and "snd (taint_node c k node reason h) = h @ [ReadNode node, PatchTaints node ts']"
    and "ra_read_node a h2 node = Inr nv" "nv_taints nv = ts'"
  shows "snd (remove_owned_taint a cfg node h2) = h2 @ [RReadNode node, RPatchTaints node ts]"
proof -
  let ?own = "own_taint c reason"
  have ts': "ts' = ts @ [?own]"
    using assms(1,2,5) by (cases "k_patch_taints k (h @ [ReadNode node]) node (ts @ [?own])")
      (auto simp: taint_node_def run_simps Let_def)
  have "filter (\<lambda>t. \<not> (t_key t = rc_taint_key cfg \<and> t_effect t = rc_taint_effect cfg)) ts' = ts"
    using assms(2,3,4) by (auto simp: ts' has_own_taint_def own_taint_def filter_id_conv)
  moreover have "\<exists>t\<in>set ts'. t_key t = rc_taint_key cfg \<and> t_effect t = rc_taint_effect cfg"
    using assms(3,4) by (simp add: ts' own_taint_def)
  ultimately show ?thesis using assms(6,7)
    by (cases "ra_patch_taints a (h2 @ [RReadNode node]) node ts")
       (simp_all add: remove_owned_taint_def run_simps Let_def)
qed

theorem untaint_undoes_taint_witness:
  "snd (remove_owned_taint (clean_api\<lparr> ra_read_node := \<lambda>h n. Inr \<lparr> nv_name = n, nv_conditions = [],
       nv_taints = [own_taint sample_cfg ''R''] \<rparr> \<rparr>) clean_cfg ''n1'' [])
     = [RReadNode ''n1'', RPatchTaints ''n1'' []]"
  using untaint_undoes_taint [of sample_kube "[]" "''n1''" "[]" sample_cfg clean_cfg "''R''"
      "[own_taint sample_cfg ''R'']" "clean_api\<lparr> ra_read_node := \<lambda>h n. Inr \<lparr> nv_name = n,
       nv_conditions = [], nv_taints = [own_taint sample_cfg ''R''] \<rparr> \<rparr>" "[]"] sample_taint
  by (simp add: clean_cfg_simps sample_kube_def has_own_taint_def sample_cfg_def)

lemma squeeze_set: "set (squeeze_hyphens s) \<subseteq> set s"
  by (induction s rule: squeeze_hyphens.induct) auto

lemma sanitize_name_chars: "\<forall>c\<in>set (sanitize_name v). label_char c"
proof -
  have "label_char CHR ''-''" by code_simp
  then have "\<forall>c\<in>set (sub_runs label_char False (py_lower v)). label_char c"
    by (auto dest: set_sub_runs)
  moreover have "\<forall>c\<in>set ''node''. label_char c" by code_simp
  ultimately show ?thesis
    unfolding sanitize_name_def Let_def
    using squeeze_set set_strip_chars by (auto dest!: in_set_takeD; blast)
qed

lemma sanitize_name_length: "length (sanitize_name v) \<le> 40"
  by (simp add: sanitize_name_def Let_def)

text \<open>A cut at 40 characters can leave a hyphen at the end, which a label value must not have.\<close>

lemma sanitize_name_may_end_in_hyphen:
  "last (sanitize_name ''gpu-worker-node-rack-0123456789-abcdefg-0042'') = CHR ''-''"
  by code_simp

text \<open>
  C34: the name of a checker pod fits the limit of 63 characters, whatever the node is called, as
  long as round and clock together have at most 45 digits, and it consists of lower-case letters,
  digits and hyphens only; and the number of rounds and the interval that the command line and
  the environment lead to are never senseless.
\<close>

theorem recovery_names_and_config_in_bounds:
  assumes "length (show_nat rnd) + length (show_nat ms) \<le> 45"
  shows "length (build_recovery_pod_name node rnd ms) \<le> 63
    \<and> (\<forall>ch\<in>set (build_recovery_pod_name node rnd ms). label_char ch)
    \<and> 1 \<le> rc_check_times (build_config_from_env env stamp g)
    \<and> 0 \<le> rc_check_interval (build_config_from_env env stamp g)"
proof -
  have "\<forall>c\<in>set ''taint-recovery-''. label_char c" "label_char CHR ''-''" by code_simp+
  moreover have "\<forall>c\<in>set (show_nat k). label_char c" for k
    using show_nat_digits by (auto simp: label_char_def)
  ultimately have "\<forall>ch\<in>set (build_recovery_pod_name node rnd ms). label_char ch"
    using sanitize_name_chars [of node]
    by (auto simp: build_recovery_pod_name_def Let_def py_take_def dest!: in_set_takeD)
  moreover have "length (build_recovery_pod_name node rnd ms) \<le> 63"
    using assms by (simp add: build_recovery_pod_name_def Let_def py_take_def)
  ultimately show ?thesis
    by (simp add: build_config_from_env_def config_check_times_def config_interval_def Let_def)
qed

theorem recovery_names_and_config_in_bounds_witness:
  "length (build_recovery_pod_name ''Rack-1.gpu_0042.example.com'' 5 1767225600000) \<le> 63"
proof -
  have "length (show_nat 5) + length (show_nat 1767225600000) \<le> 45" by (simp add: show_nat.simps)
  then show ?thesis
    using recovery_names_and_config_in_bounds by blast
qed

text \<open>
  C33: nothing is tried on an unfit node.  A target that cannot be read or is not ready, or for which
  two healthy reference nodes cannot be found, fails without a checker pod and without a patch;
  reference nodes chosen from the cluster are ready, carry no operator taint and are not the target.
\<close>

theorem unfit_node_is_left_alone:
  assumes "\<forall>h xs. mset (ra_shuffle a h xs) = mset xs"
    and "check_taint_recovery a node normals cfg [] = (Inr r, h')"
    and "(\<forall>nv. ra_read_node a [] node = Inr nv \<longrightarrow> \<not> node_is_ready nv)
       \<or> (length normals < 2 \<and> (\<exists>ns. ra_list_nodes a [RReadNode node] = Inr ns
            \<and> length (filter (\<lambda>n. nv_name n \<noteq> node \<and> node_is_ready n
                 \<and> \<not> has_taint n (rc_taint_key cfg) (rc_taint_effect cfg)) ns) < 2))"
  shows "\<not> rr_pass r \<and> set h' \<subseteq> {RReadNode node, RListNodes}"
proof -
  have len: "length (ra_shuffle a h xs) = length xs" for h xs
    using assms(1) by (metis size_mset)
  show ?thesis using assms(2,3) len
    by (cases "ra_read_node a [] node")
       (auto simp: check_taint_recovery_def run_simps refuse_def blank_result_def
          select_references_def choose_normal_nodes_def split: if_splits)
qed

theorem unfit_node_is_left_alone_witness:
  "\<exists>r h'. check_taint_recovery clean_api ''n1'' [] clean_cfg [] = (Inr r, h') \<and> \<not> rr_pass r
     \<and> set h' \<subseteq> {RReadNode ''n1'', RListNodes}"
proof -
  obtain r h' where 1: "check_taint_recovery clean_api ''n1'' [] clean_cfg [] = (Inr r, h')"
    by (simp add: check_taint_recovery_def run_simps clean_api_def node_is_ready_def
        select_references_def choose_normal_nodes_def)
  have "\<forall>h xs. mset (ra_shuffle clean_api h xs) = mset xs" "ra_list_nodes clean_api h = Inr []" for h
    by (simp_all add: clean_api_def)
  then show ?thesis using unfit_node_is_left_alone [OF _ 1] 1 by auto
qed

end
