(* ===== verification/JobState.thy ===== *)
theory JobState
  imports NodePool
begin

text \<open>
  The training job's control plane: the fault entry points of the pool proxy
  (monitor/nhc_monitor.py, NodePoolProxy), the mapping of faults to nodes
  (runtime/runtime_context.py), the persisted run state (runtime/run_state_manager.py), the state
  machine (runtime/job_state_machine.py) and the command loop of the manager
  (controller/distributed_job_manager.py).

  Clock readings are arguments.  The snapshot files, the node status file and the texts of the
  alerts are not modelled; an alert is the place that raised it.  A payload has the fields the
  handlers read, with the types the monitors send, so a handler itself never raises.
\<close>

section \<open>The pool proxy\<close>

record snapshot =
  sn_start :: "string option"
  sn_stop :: "string option"
  sn_release :: "string option"
  sn_running :: "string list"
  sn_faults :: "(string \<times> string) list"
  sn_count :: nat
  sn_first_iter :: "int option"
  sn_first_iter_time :: "string option"
  sn_last_iter :: "int option"
  sn_last_iter_time :: "string option"
  sn_ckpt_iter :: "int option"
  sn_ckpt_iter_time :: "string option"

record proxy =
  px_pool :: node_pool
  px_bl :: bl_mgr
  px_snap :: "snapshot option"
  px_last :: "snapshot option"
  px_snaps :: "(string \<times> snapshot) list"
  px_required :: int

text \<open>
  The payload of an event; \<open>pl_data_type\<close> is the \<^verbatim>\<open>type\<close> entry of its \<^verbatim>\<open>data\<close>, and so on.
\<close>

record payload =
  pl_type :: "string option"
  pl_abnormal :: "string list"
  pl_data_type :: "string option"
  pl_runtime :: "string option"
  pl_fault_info :: json
  pl_rank :: "json option"
  pl_host :: string
  pl_message :: "string option"
  pl_is_first :: bool
  pl_is_ckpt :: bool
  pl_cur_iter :: "int option"
  pl_time :: "string option"

text \<open>What a fault log says of a node (FaultDetection.parse_fault_log).\<close>

record fault_info =
  fi_type :: "fault_type option"
  fi_description :: string
  fi_error_code :: "string option"
  fi_gpu :: "int option"

text \<open>
  The surroundings of a proxy call: the health check of named nodes (the log of each node; None
  when it raises), the log parser, the outcome of the pool's file writes and two clock readings.
\<close>

record surroundings =
  su_nhc :: "string list \<Rightarrow> (string \<times> string) list option"
  su_parse :: "string \<Rightarrow> fault_info"
  su_writes :: "pool_file \<Rightarrow> bool"
  su_now :: real
  su_now2 :: real
  su_text :: string

definition report_fault_log :: "surroundings \<Rightarrow> string \<times> string \<Rightarrow> bl_mgr \<Rightarrow> bl_mgr" where
  "report_fault_log su nl m =
     (let fi = su_parse su (snd nl);
          ft = (case fi_type fi of Some t \<Rightarrow> t | None \<Rightarrow> NETWORK);
          desc = (if fi_type fi = None then snd nl else fi_description fi)
      in snd (report_fault m (fst nl) ft desc (fi_error_code fi) (fi_gpu fi) None
                (su_now su) (su_now2 su)))"

text \<open>
  The blacklist part of \<open>add_fault_nodes\<close>: the reasons per node (None when it raised before they
  were set) and the blacklist.
\<close>

definition blacklist_faults ::
    "surroundings \<Rightarrow> string list \<Rightarrow> payload option \<Rightarrow> bl_mgr
      \<Rightarrow> (string \<times> string) list option \<times> bl_mgr" where
  "blacklist_faults su nodes reason m =
     (case reason of
        Some pl \<Rightarrow>
          let inner = (case pl_data_type pl of Some t \<Rightarrow> t | None \<Rightarrow> ''unknown'');
              msg = (case pl_message pl of Some x \<Rightarrow> x | None \<Rightarrow> inner)
          in (Some (map (\<lambda>n. (n, msg)) nodes),
              snd (report_fault m (join_with '','' nodes) GRADIENT_INF msg None None
                     (pl_cur_iter pl) (su_now su) (su_now2 su)))
      | None \<Rightarrow>
          (case su_nhc su nodes of
             None \<Rightarrow> (None, m)
           | Some logs \<Rightarrow> (Some logs, fold (report_fault_log su) logs m)))"

definition update_all :: "('a \<times> 'b) list \<Rightarrow> ('a \<times> 'b) list \<Rightarrow> ('a \<times> 'b) list" where
  "update_all new old = fold (\<lambda>(k, v) d. AList.update k v d) new old"

text \<open>
  \<open>add_fault_nodes\<close>: the blacklist, then the pool; with a snapshot, the reasons are recorded in
  it, and when they were never set that is UnboundLocalError (here RuntimeError).
\<close>

definition add_fault_nodes ::
    "surroundings \<Rightarrow> string list \<Rightarrow> payload option \<Rightarrow> proxy \<Rightarrow> (unit, proxy) outcome" where
  "add_fault_nodes su nodes reason px =
     (case blacklist_faults su nodes reason (px_bl px) of (reasons, bl) \<Rightarrow>
        case add_abnormal_nodes (su_writes su) nodes (px_pool px) of
          (Inl e, pool) \<Rightarrow> raises e (px\<lparr> px_bl := bl, px_pool := pool \<rparr>)
        | (Inr _, pool) \<Rightarrow>
            let px1 = px\<lparr> px_bl := bl, px_pool := pool \<rparr>
            in case px_snap px of
                 None \<Rightarrow> returns () px1
               | Some sn \<Rightarrow>
                   (case reasons of
                      None \<Rightarrow> raises RuntimeError px1
                    | Some rs \<Rightarrow> returns () (px1\<lparr> px_snap := Some (sn\<lparr>
                        sn_faults := update_all rs (sn_faults sn), sn_count := sn_count sn + 1,
                        sn_running := running_nodes pool \<rparr>) \<rparr>)))"

definition add_fault_nodes_no ::
    "surroundings \<Rightarrow> int \<Rightarrow> payload option \<Rightarrow> proxy \<Rightarrow> (unit, proxy) outcome" where
  "add_fault_nodes_no su no reason px =
     (case (if no < int (length (running_nodes (px_pool px)))
            then py_get (running_nodes (px_pool px)) no else None) of
        Some node \<Rightarrow> add_fault_nodes su [node] reason px
      | None \<Rightarrow> returns () px)"

definition add_snapshot_param :: "(snapshot \<Rightarrow> snapshot) \<Rightarrow> proxy \<Rightarrow> proxy" where
  "add_snapshot_param f px = px\<lparr> px_snap := map_option f (px_snap px) \<rparr>"

definition proxy_release :: "surroundings \<Rightarrow> proxy \<Rightarrow> proxy" where
  "proxy_release su px =
     (let nodes = running_nodes (px_pool px);
          px1 = px\<lparr> px_pool := release_runing_nodes (su_writes su) (px_pool px), px_required := 0 \<rparr>
      in case px_snap px of
           None \<Rightarrow> px1
         | Some sn \<Rightarrow>
             let sn' = sn\<lparr> sn_release := Some (su_text su), sn_running := nodes \<rparr>
             in px1\<lparr> px_snap := None, px_last := Some sn',
                     px_snaps := AList.update (su_text su) sn' (px_snaps px) \<rparr>)"

section \<open>From faults to nodes\<close>

record runtime_args =
  ra_slots_per_node :: json
  ra_mpi_per_node :: json
  ra_required :: int
  ra_config :: "(string \<times> json) list"

text \<open>
  \<open>_parse_rank_from_fault\<close> of a scalar: only a text can hold the comma it looks for.  None is
  ValueError.
\<close>

definition after_last_comma :: "string \<Rightarrow> string option" where
  "after_last_comma s = (if CHR '','' \<in> set s
     then Some (rev (takeWhile (\<lambda>c. c \<noteq> CHR '','') (rev s))) else None)"

definition parse_rank_text :: "string \<Rightarrow> int option" where
  "parse_rank_text s =
     (if CHR ''@'' \<in> set s then
        (case split_on (CHR '','') s of
           _ # raw # _ \<Rightarrow> py_int (filter is_digit raw)
         | _ \<Rightarrow> None)
      else
        (case after_last_comma s of
           None \<Rightarrow> None
         | Some t \<Rightarrow> if CHR '']'' \<in> set t then py_int (takeWhile (\<lambda>c. c \<noteq> CHR '']'') t) else None))"

fun parse_rank_from_fault :: "json \<Rightarrow> int option" where
  "parse_rank_from_fault (JStr s) = parse_rank_text s"
| "parse_rank_from_fault _ = None"

fun positive_int :: "json \<Rightarrow> int option" where
  "positive_int (JInt n) = (if 0 < n then Some n else None)"
| "positive_int _ = None"

text \<open>The rank of a fault and the ranks per node it is counted in.\<close>

definition fault_rank :: "runtime_args \<Rightarrow> json \<Rightarrow> string \<Rightarrow> (int \<times> int) option" where
  "fault_rank ar info ft =
     (if ft = ''global_rank''
      then (case json_int info of None \<Rightarrow> None
            | Some r \<Rightarrow> map_option (Pair r) (positive_int (ra_slots_per_node ar)))
      else (case parse_rank_from_fault info of None \<Rightarrow> None
            | Some r \<Rightarrow> map_option (Pair r) (positive_int (ra_mpi_per_node ar))))"

definition fault_node_no :: "runtime_args \<Rightarrow> json \<Rightarrow> string \<Rightarrow> int option" where
  "fault_node_no ar info ft =
     (case fault_rank ar info ft of
        None \<Rightarrow> None
      | Some (r, per) \<Rightarrow>
          if r < 0 then None
          else if ra_required ar \<noteq> 0 \<and> ra_required ar \<le> r div per then None
          else Some (r div per))"

definition json_text :: "json \<Rightarrow> string" where
  "json_text v = (case v of JStr s \<Rightarrow> s | JInt i \<Rightarrow> show_int i | _ \<Rightarrow> [])"

text \<open>The outer \<^verbatim>\<open>try\<close>: True unless the call raised.\<close>

definition caught :: "(unit, proxy) outcome \<Rightarrow> bool \<times> proxy" where
  "caught r = (case fst r of Inr _ \<Rightarrow> True | Inl _ \<Rightarrow> False, snd r)"

definition handle_runtime_fault ::
    "runtime_args \<Rightarrow> surroundings \<Rightarrow> json \<Rightarrow> string \<Rightarrow> payload option \<Rightarrow> proxy \<Rightarrow> bool \<times> proxy" where
  "handle_runtime_fault ar su info ft reason px =
     (if ft \<in> {''global_rank'', ''mpi_rank'', ''rank''} then
        (case fault_node_no ar info ft of
           None \<Rightarrow> (False, px)
         | Some no \<Rightarrow> caught (add_fault_nodes_no su no reason px))
      else if ft = ''node'' then caught (add_fault_nodes su [json_text info] reason px)
      else if ft = ''proc'' then (True, px)
      else (False, px))"

section \<open>The persisted run state\<close>

datatype run_state = INIT | STARTING | PENDING | RUNNING | HANG | LOSS_DIVERGENCE | RECOVERING
  | FAULT | FAULT_RECOVER | COMPLETE

definition state_names :: "(string \<times> run_state) list" where
  "state_names = [(''INIT'', INIT), (''STARTING'', STARTING), (''PENDING'', PENDING),
     (''RUNNING'', RUNNING), (''HANG'', HANG), (''LOSS_DIVERGENCE'', LOSS_DIVERGENCE),
     (''RECOVERING'', RECOVERING), (''FAULT'', FAULT), (''FAULT_RECOVER'', FAULT_RECOVER),
     (''COMPLETE'', COMPLETE)]"

fun state_name :: "run_state \<Rightarrow> string" where
  "state_name INIT = ''INIT''" | "state_name STARTING = ''STARTING''"
| "state_name PENDING = ''PENDING''" | "state_name RUNNING = ''RUNNING''"
| "state_name HANG = ''HANG''" | "state_name LOSS_DIVERGENCE = ''LOSS_DIVERGENCE''"
| "state_name RECOVERING = ''RECOVERING''" | "state_name FAULT = ''FAULT''"
| "state_name FAULT_RECOVER = ''FAULT_RECOVER''" | "state_name COMPLETE = ''COMPLETE''"

text \<open>The state file: absent, unreadable, or a document with the model configuration and the state.\<close>

datatype state_file = NoFile | BadFile | StateFile "(string \<times> json) list" "string option"

definition config_get :: "(string \<times> json) list \<Rightarrow> string \<Rightarrow> json" where
  "config_get cfg key = (case map_of cfg key of Some v \<Rightarrow> v | None \<Rightarrow> JStr ''N/A'')"

definition compare_runtime_args ::
    "(string \<times> json) list \<Rightarrow> (string \<times> json) list \<Rightarrow> string set \<Rightarrow> bool \<times> (string \<times> json \<times> json) list" where
  "compare_runtime_args saved cur ignore =
     (let keys = filter (\<lambda>k. k \<notin> ignore) (remdups (map fst saved @ map fst cur));
          diff = map (\<lambda>k. (k, config_get saved k, config_get cur k))
                   (filter (\<lambda>k. config_get saved k \<noteq> config_get cur k) keys)
      in (diff \<noteq> [], diff))"

definition get_state :: "(string \<times> json) list \<Rightarrow> state_file \<Rightarrow> run_state" where
  "get_state cfg file =
     (case file of
        NoFile \<Rightarrow> INIT
      | BadFile \<Rightarrow> INIT
      | StateFile saved st \<Rightarrow>
          if fst (compare_runtime_args saved cfg {}) then INIT
          else (case map_of state_names (case st of Some s \<Rightarrow> s | None \<Rightarrow> ''INIT'') of
              None \<Rightarrow> INIT
            | Some s \<Rightarrow> if s = RUNNING then PENDING else s))"

text \<open>A write that fails keeps the old file when it cannot be opened, and truncates it otherwise.\<close>

datatype write_result = Written | Unopened | Truncated

fun persist_state ::
    "write_result \<Rightarrow> (string \<times> json) list \<Rightarrow> run_state \<Rightarrow> state_file \<Rightarrow> state_file" where
  "persist_state Written cfg s file = StateFile cfg (Some (state_name s))"
| "persist_state Unopened cfg s file = file"
| "persist_state Truncated cfg s file = BadFile"

section \<open>The state machine\<close>

datatype job_command = START_TRAINING | STOP_TRAINING | SBATCH_QUEUE | START_LOG_MONITOR | NO_COMMAND

datatype signal = START_SUCCESS | STOP_SUCCESS | LOG_RUNNING | LOG_HANG | LOG_LOSS | LOG_INF
  | LOG_EXIT | LOG_TIMEOUT | LOG_ITER | NODE_ABNORMAL | JOB_RELEASE

datatype phase = NoPhase | Stopping | Starting

datatype alert = HangAlert | LossAlert | InfAlert | ManualAlert | FaultReport | NoNodesAlert

record trace_entry =
  te_signal :: signal
  te_before :: run_state
  te_after :: run_state
  te_command :: job_command

record job =
  jb_args :: runtime_args
  jb_state :: run_state
  jb_phase :: phase
  jb_retries :: nat
  jb_proxy :: proxy
  jb_file :: state_file
  jb_alerts :: "alert list"
  jb_trace :: "trace_entry list"
  jb_monitoring :: bool

text \<open>What a step of the machine finds: the proxy's surroundings and the fate of state writes.\<close>

record job_env =
  je_su :: surroundings
  je_write :: write_result

definition raise_alert :: "alert \<Rightarrow> job \<Rightarrow> job" where
  "raise_alert a j = j\<lparr> jb_alerts := jb_alerts j @ [a] \<rparr>"

definition set_state :: "job_env \<Rightarrow> run_state \<Rightarrow> job \<Rightarrow> job" where
  "set_state en s j = j\<lparr> jb_state := s,
     jb_file := persist_state (je_write en) (ra_config (jb_args j)) s (jb_file j) \<rparr>"

definition on_proxy :: "(proxy \<Rightarrow> proxy) \<Rightarrow> job \<Rightarrow> job" where
  "on_proxy f j = j\<lparr> jb_proxy := f (jb_proxy j) \<rparr>"

definition next_action :: "job \<Rightarrow> job_command" where
  "next_action j =
     (if jb_state j = STARTING then START_TRAINING
      else if jb_state j = RECOVERING then
        (if jb_phase j = Stopping then STOP_TRAINING
         else if jb_phase j = Starting then START_TRAINING else NO_COMMAND)
      else NO_COMMAND)"

definition to_recovering :: "job_env \<Rightarrow> job \<Rightarrow> job_command \<times> job" where
  "to_recovering en j =
     (if jb_state j = RECOVERING then (NO_COMMAND, j)
      else (STOP_TRAINING, (set_state en RECOVERING
              (on_proxy (add_snapshot_param (\<lambda>sn. sn\<lparr> sn_stop := Some (su_text (je_su en)) \<rparr>)) j))
              \<lparr> jb_phase := Stopping \<rparr>))"

definition init_state :: "job_env \<Rightarrow> job \<Rightarrow> job" where
  "init_state en j =
     (if jb_state j = INIT then set_state en STARTING (on_proxy (proxy_release (je_su en)) j)
      else if jb_state j = RECOVERING then j\<lparr> jb_phase := Stopping \<rparr>
      else if jb_state j \<notin> {PENDING, RUNNING} then snd (to_recovering en j)
      else j)"

definition require_manual :: "job \<Rightarrow> job_command \<times> job" where
  "require_manual j = (NO_COMMAND, raise_alert ManualAlert j)"

definition report_runtime_fault ::
    "job_env \<Rightarrow> json \<Rightarrow> string \<Rightarrow> payload \<Rightarrow> job \<Rightarrow> bool \<times> job" where
  "report_runtime_fault en info ft pl j =
     (case handle_runtime_fault (jb_args j) (je_su en) info ft (Some pl) (jb_proxy j) of
        (ok, px) \<Rightarrow> (ok, j\<lparr> jb_proxy := px \<rparr>))"

definition to_pending :: "job_env \<Rightarrow> job \<Rightarrow> job_command \<times> job" where
  "to_pending en j = (NO_COMMAND, set_state en PENDING j)"

definition to_running :: "job_env \<Rightarrow> job \<Rightarrow> job_command \<times> job" where
  "to_running en j = (NO_COMMAND, set_state en RUNNING (j\<lparr> jb_retries := 0 \<rparr>))"

definition to_hang :: "job_env \<Rightarrow> job \<Rightarrow> job_command \<times> job" where
  "to_hang en j = to_recovering en (raise_alert HangAlert j)"

definition data_rank :: "payload \<Rightarrow> json" where
  "data_rank pl = (case pl_rank pl of Some r \<Rightarrow> r | None \<Rightarrow> JStr [])"

definition to_loss :: "job_env \<Rightarrow> payload \<Rightarrow> job \<Rightarrow> job_command \<times> job" where
  "to_loss en pl j =
     (let j1 = raise_alert LossAlert j in
      if pl_data_type pl \<noteq> None
      then to_recovering en (snd (report_runtime_fault en (data_rank pl) ''global_rank'' pl j1))
      else (NO_COMMAND, j1))"

definition to_inf :: "job_env \<Rightarrow> payload \<Rightarrow> job \<Rightarrow> job_command \<times> job" where
  "to_inf en pl j =
     (let j1 = raise_alert InfAlert j in
      to_recovering en
        (if pl_data_type pl \<noteq> None
         then snd (report_runtime_fault en (data_rank pl) ''global_rank'' pl j1) else j1))"

text \<open>
  An iteration message.  The first iteration is noted when the current snapshot has none;
  \<^verbatim>\<open>is_first\<close> is read and not used.
\<close>

definition to_iter :: "payload \<Rightarrow> job \<Rightarrow> job_command \<times> job" where
  "to_iter pl j =
     (NO_COMMAND, on_proxy (add_snapshot_param (\<lambda>sn.
        let s1 = (if sn_first_iter sn = None
                  then sn\<lparr> sn_first_iter := pl_cur_iter pl, sn_first_iter_time := pl_time pl \<rparr> else sn);
            s2 = (if pl_is_ckpt pl
                  then s1\<lparr> sn_ckpt_iter := pl_cur_iter pl, sn_ckpt_iter_time := pl_time pl \<rparr> else s1)
        in s2\<lparr> sn_last_iter := pl_cur_iter pl, sn_last_iter_time := pl_time pl \<rparr>)) j)"

definition handle_node_abnormal :: "job_env \<Rightarrow> payload \<Rightarrow> job \<Rightarrow> job_command \<times> job" where
  "handle_node_abnormal en pl j =
     (if pl_abnormal pl \<noteq> [] then to_recovering en j else (NO_COMMAND, j))"

text \<open>The fault must be put on a node, or a human has to look.\<close>

definition recover_or_manual :: "job_env \<Rightarrow> bool \<times> job \<Rightarrow> job_command \<times> job" where
  "recover_or_manual en r = (if fst r then to_recovering en (snd r) else require_manual (snd r))"

definition handle_log_exit :: "job_env \<Rightarrow> payload \<Rightarrow> job \<Rightarrow> job_command \<times> job" where
  "handle_log_exit en pl j =
     (let ty = (case pl_data_type pl of Some t \<Rightarrow> t | None \<Rightarrow> []); host = py_strip (pl_host pl) in
      if ty = ''root_cause'' then
        (if host \<noteq> [] then recover_or_manual en (report_runtime_fault en (JStr host) ''node'' pl j)
         else require_manual j)
      else if ty = ''proc'' \<and> pl_runtime pl = Some ''prte'' then
        recover_or_manual en (report_runtime_fault en (pl_fault_info pl) ''mpi_rank'' pl j)
      else if ty \<in> {''global_rank'', ''rank'', ''node''} then
        recover_or_manual en (report_runtime_fault en (pl_fault_info pl) ty pl j)
      else require_manual j)"

definition recovery_stop_ok :: "job \<Rightarrow> job_command \<times> job" where
  "recovery_stop_ok j = (START_TRAINING, j\<lparr> jb_phase := Starting \<rparr>)"

definition recovery_start_ok :: "job_env \<Rightarrow> job \<Rightarrow> job_command \<times> job" where
  "recovery_start_ok en j = (NO_COMMAND, set_state en PENDING (j\<lparr> jb_retries := 0 \<rparr>))"

text \<open>The common table, for a signal the state has no handler of its own for.\<close>

definition common_handler :: "job_env \<Rightarrow> signal \<Rightarrow> payload \<Rightarrow> job \<Rightarrow> job_command \<times> job" where
  "common_handler en sg pl j =
     (if sg = NODE_ABNORMAL then handle_node_abnormal en pl j
      else if sg = JOB_RELEASE then to_recovering en j
      else (NO_COMMAND, j))"

text \<open>\<open>RUNNING\<close> and \<open>FAULT_RECOVER\<close> have the same handlers.\<close>

definition running_handler :: "job_env \<Rightarrow> signal \<Rightarrow> payload \<Rightarrow> job \<Rightarrow> job_command \<times> job" where
  "running_handler en sg pl j =
     (if sg = LOG_HANG then to_hang en j
      else if sg = LOG_LOSS then to_loss en pl j
      else if sg = LOG_INF then to_inf en pl j
      else if sg = LOG_EXIT then handle_log_exit en pl j
      else if sg = LOG_ITER then to_iter pl j
      else common_handler en sg pl j)"

definition dispatch :: "job_env \<Rightarrow> signal \<Rightarrow> payload \<Rightarrow> job \<Rightarrow> job_command \<times> job" where
  "dispatch en sg pl j =
     (case jb_state j of
        STARTING \<Rightarrow> if sg = START_SUCCESS then to_pending en j else common_handler en sg pl j
      | PENDING \<Rightarrow> if sg = LOG_RUNNING then to_running en j
          else if sg = LOG_TIMEOUT then to_recovering en j
          else if sg = LOG_HANG then to_hang en j
          else common_handler en sg pl j
      | RUNNING \<Rightarrow> running_handler en sg pl j
      | RECOVERING \<Rightarrow> if sg = STOP_SUCCESS then recovery_stop_ok j
          else if sg = START_SUCCESS then recovery_start_ok en j
          else common_handler en sg pl j
      | FAULT_RECOVER \<Rightarrow> running_handler en sg pl j
      | _ \<Rightarrow> common_handler en sg pl j)"

text \<open>At most 30 trace entries are kept.\<close>

definition add_trace :: "trace_entry \<Rightarrow> job \<Rightarrow> job" where
  "add_trace e j =
     (let tr = jb_trace j @ [e] in j\<lparr> jb_trace := (if 30 < length tr then tl tr else tr) \<rparr>)"

definition dispatch_with_trace ::
    "job_env \<Rightarrow> signal \<Rightarrow> payload \<Rightarrow> job \<Rightarrow> job_command \<times> job" where
  "dispatch_with_trace en sg pl j =
     (case dispatch en sg pl j of
        (cmd, j1) \<Rightarrow> (cmd, add_trace \<lparr> te_signal = sg, te_before = jb_state j,
                          te_after = jb_state j1, te_command = cmd \<rparr> j1))"

datatype event_source = LogMonitor | NhcMonitor | OtherSource

definition log_signals :: "(string \<times> signal) list" where
  "log_signals = [(''hang'', LOG_HANG), (''exit'', LOG_EXIT), (''loss'', LOG_LOSS),
     (''normal'', LOG_RUNNING), (''timeout'', LOG_TIMEOUT), (''iter'', LOG_ITER), (''inf'', LOG_INF)]"

definition event_to_signal :: "event_source \<Rightarrow> payload \<Rightarrow> signal option" where
  "event_to_signal src pl =
     (case src of
        LogMonitor \<Rightarrow> Option.bind (pl_type pl) (map_of log_signals)
      | NhcMonitor \<Rightarrow> Some (if pl_type pl = Some ''job_release'' then JOB_RELEASE else NODE_ABNORMAL)
      | OtherSource \<Rightarrow> None)"

definition on_event :: "job_env \<Rightarrow> event_source \<Rightarrow> payload \<Rightarrow> job \<Rightarrow> job_command \<times> job" where
  "on_event en src pl j =
     (case event_to_signal src pl of
        None \<Rightarrow> (NO_COMMAND, j) | Some sg \<Rightarrow> dispatch_with_trace en sg pl j)"

definition no_payload :: payload where
  "no_payload = \<lparr> pl_type = None, pl_abnormal = [], pl_data_type = None, pl_runtime = None,
     pl_fault_info = JStr [], pl_rank = None, pl_host = [], pl_message = None, pl_is_first = False,
     pl_is_ckpt = False, pl_cur_iter = None, pl_time = None \<rparr>"

definition on_train_success :: "job_env \<Rightarrow> bool \<Rightarrow> job \<Rightarrow> job_command \<times> job" where
  "on_train_success en started j =
     (let now = Some (su_text (je_su en)) in
      dispatch_with_trace en (if started then START_SUCCESS else STOP_SUCCESS) no_payload
        (on_proxy (add_snapshot_param
           (\<lambda>sn. if started then sn\<lparr> sn_start := now \<rparr> else sn\<lparr> sn_stop := now \<rparr>)) j))"

section \<open>The manager\<close>

text \<open>One attempt to stop the training succeeds or fails; after three failures it is given up.\<close>

definition close_run :: "job_env \<Rightarrow> job \<Rightarrow> job" where
  "close_run en j = (on_proxy (proxy_release (je_su en))
     (if px_snap (jb_proxy j) \<noteq> None then raise_alert FaultReport j else j))
       \<lparr> jb_monitoring := False \<rparr>"

fun stop_attempts :: "job_env \<Rightarrow> bool list \<Rightarrow> job \<Rightarrow> job_command \<times> job" where
  "stop_attempts en [] j = (START_TRAINING, set_state en STARTING (close_run en j))"
| "stop_attempts en (ok # oks) j =
     (if ok then on_train_success en False (close_run en j) else stop_attempts en oks j)"

definition stop_training :: "job_env \<Rightarrow> (nat \<Rightarrow> bool) \<Rightarrow> job \<Rightarrow> job_command \<times> job" where
  "stop_training en ok j = stop_attempts en (map ok [0..<3]) j"

text \<open>
  Starting loops until it succeeds; each round of the loop allocates (\<open>alloc\<close> is the proxy's
  allocation), prepares containers and launches.  The list says how the rounds go; None is a loop
  still running at its end, or the RuntimeError of a bare-metal cluster without enough nodes.
\<close>

datatype start_round = NoContainers | LaunchFails | Launched

fun start_training ::
    "job_env \<Rightarrow> bool \<Rightarrow> (proxy \<Rightarrow> bool \<times> proxy) \<Rightarrow> start_round list \<Rightarrow> job \<Rightarrow> (job_command \<times> job) option" where
  "start_training en bare alloc [] j = None"
| "start_training en bare alloc (r # rs) j =
     (case alloc (jb_proxy j) of
        (False, px) \<Rightarrow>
          if bare then None
          else start_training en bare alloc rs (raise_alert NoNodesAlert (j\<lparr> jb_proxy := px \<rparr>))
      | (True, px) \<Rightarrow>
          if r = Launched
          then Some (on_train_success en True (j\<lparr> jb_proxy := px, jb_monitoring := True \<rparr>))
          else start_training en bare alloc rs
                 (on_proxy (proxy_release (je_su en)) (j\<lparr> jb_proxy := px \<rparr>)))"

definition restore_job :: "job_env \<Rightarrow> job \<Rightarrow> job" where
  "restore_job en j =
     (let j1 = init_state en j
      in j1\<lparr> jb_monitoring := (jb_state j1 \<in> {PENDING, RUNNING} \<or> jb_monitoring j1) \<rparr>)"

definition next_command ::
    "job_env \<Rightarrow> (event_source \<times> payload) option \<Rightarrow> job \<Rightarrow> job_command \<times> job" where
  "next_command en ev j =
     (case ev of Some (src, pl) \<Rightarrow> on_event en src pl j | None \<Rightarrow> (next_action j, j))"

section \<open>Lemmas\<close>

lemma job_updates [simp]:
  "jb_state (raise_alert a j) = jb_state j" "jb_phase (raise_alert a j) = jb_phase j"
  "jb_proxy (raise_alert a j) = jb_proxy j" "jb_trace (raise_alert a j) = jb_trace j"
  "jb_file (raise_alert a j) = jb_file j" "jb_args (raise_alert a j) = jb_args j"
  "jb_state (set_state en s j) = s" "jb_phase (set_state en s j) = jb_phase j"
  "jb_proxy (set_state en s j) = jb_proxy j" "jb_trace (set_state en s j) = jb_trace j"
  "jb_args (set_state en s j) = jb_args j" "jb_alerts (set_state en s j) = jb_alerts j"
  "jb_state (on_proxy f j) = jb_state j" "jb_phase (on_proxy f j) = jb_phase j"
  "jb_proxy (on_proxy f j) = f (jb_proxy j)" "jb_trace (on_proxy f j) = jb_trace j"
  "jb_args (on_proxy f j) = jb_args j" "jb_alerts (on_proxy f j) = jb_alerts j"
  "px_pool (add_snapshot_param g px) = px_pool px" "px_bl (add_snapshot_param g px) = px_bl px"
  by (simp_all add: raise_alert_def set_state_def on_proxy_def add_snapshot_param_def)

lemma add_trace_fields [simp]:
  "jb_state (add_trace e j) = jb_state j" "jb_phase (add_trace e j) = jb_phase j"
  "jb_proxy (add_trace e j) = jb_proxy j" "jb_args (add_trace e j) = jb_args j"
  "jb_alerts (add_trace e j) = jb_alerts j" "jb_file (add_trace e j) = jb_file j"
  by (simp_all add: add_trace_def Let_def)

lemma proxy_release_pool [simp]:
  "px_pool (proxy_release su px) = release_runing_nodes (su_writes su) (px_pool px)"
  by (simp add: proxy_release_def Let_def split: option.split)

lemma report_runtime_fault_fields:
  "report_runtime_fault en info ft pl j = (ok, j') \<Longrightarrow>
     jb_state j' = jb_state j \<and> jb_phase j' = jb_phase j \<and> jb_trace j' = jb_trace j
     \<and> jb_args j' = jb_args j \<and> jb_file j' = jb_file j \<and> jb_alerts j' = jb_alerts j"
  by (auto simp: report_runtime_fault_def split: prod.splits)

subsection \<open>The pool survives every proxy call\<close>

lemma add_fault_nodes_inv:
  "pool_inv (px_pool px) \<Longrightarrow> pool_inv (px_pool (snd (add_fault_nodes su ns reason px)))"
  using add_abnormal_inv [of "px_pool px" "su_writes su" ns]
  by (auto simp: add_fault_nodes_def Let_def split: prod.split option.split)

lemma add_fault_nodes_no_inv:
  "pool_inv (px_pool px) \<Longrightarrow> pool_inv (px_pool (snd (add_fault_nodes_no su no reason px)))"
  by (auto simp: add_fault_nodes_no_def intro: add_fault_nodes_inv split: option.split)

lemma handle_runtime_fault_inv:
  assumes "pool_inv (px_pool px)"
  shows "pool_inv (px_pool (snd (handle_runtime_fault ar su info ft reason px)))"
  using add_fault_nodes_inv [OF assms, of su "[json_text info]" reason]
    add_fault_nodes_no_inv [OF assms, of su _ reason] assms
  unfolding handle_runtime_fault_def caught_def by (simp split: option.split)

definition pool_of :: "job \<Rightarrow> node_pool" where
  "pool_of j = px_pool (jb_proxy j)"

lemma report_runtime_fault_inv:
  "pool_inv (pool_of j) \<Longrightarrow> report_runtime_fault en info ft pl j = (ok, j') \<Longrightarrow> pool_inv (pool_of j')"
  using handle_runtime_fault_inv [of "jb_proxy j" "jb_args j" "je_su en" info ft "Some pl"]
  by (auto simp: report_runtime_fault_def pool_of_def split: prod.splits)

subsection \<open>The job invariant\<close>

definition live_states :: "run_state set" where
  "live_states = {STARTING, PENDING, RUNNING, RECOVERING}"

definition job_inv :: "job \<Rightarrow> bool" where
  "job_inv j = (jb_state j \<in> live_states \<and> (jb_state j = RECOVERING \<longrightarrow> jb_phase j \<noteq> NoPhase)
     \<and> length (jb_trace j) \<le> 30 \<and> pool_inv (pool_of j))"

definition keeps :: "(job_command \<times> job) \<Rightarrow> bool" where
  "keeps r = job_inv (snd r)"

lemma job_inv_cong:
  "job_inv j \<Longrightarrow> jb_state j' = jb_state j \<Longrightarrow> jb_phase j' = jb_phase j
     \<Longrightarrow> jb_trace j' = jb_trace j \<Longrightarrow> pool_inv (pool_of j') \<Longrightarrow> job_inv j'"
  by (simp add: job_inv_def)

lemma job_inv_alert [inv_intros]: "job_inv j \<Longrightarrow> job_inv (raise_alert a j)"
  by (simp add: job_inv_def pool_of_def)

lemma job_inv_report [inv_intros]:
  "job_inv j \<Longrightarrow> job_inv (snd (report_runtime_fault en info ft pl j))"
  by (cases "report_runtime_fault en info ft pl j")
     (auto dest: report_runtime_fault_fields report_runtime_fault_inv simp: job_inv_def)

lemma job_inv_snapshot [inv_intros]: "job_inv j \<Longrightarrow> job_inv (on_proxy (add_snapshot_param f) j)"
  by (simp add: job_inv_def pool_of_def)

lemma job_inv_recovering [inv_intros]: "job_inv j \<Longrightarrow> job_inv (snd (to_recovering en j))"
  by (auto simp: to_recovering_def job_inv_def pool_of_def live_states_def)

lemma job_inv_set [inv_intros]: "job_inv j \<Longrightarrow> s \<in> {STARTING, PENDING, RUNNING} \<Longrightarrow> job_inv (set_state en s j)"
  by (auto simp: job_inv_def pool_of_def live_states_def)

lemma job_inv_retries [inv_intros]: "job_inv j \<Longrightarrow> job_inv (j\<lparr> jb_retries := n \<rparr>)"
  by (simp add: job_inv_def pool_of_def)

lemma job_inv_monitoring [inv_intros]: "job_inv j \<Longrightarrow> job_inv (j\<lparr> jb_monitoring := b \<rparr>)"
  by (simp add: job_inv_def pool_of_def)

lemma job_inv_phase [inv_intros]: "job_inv j \<Longrightarrow> p \<noteq> NoPhase \<Longrightarrow> job_inv (j\<lparr> jb_phase := p \<rparr>)"
  by (simp add: job_inv_def pool_of_def)

lemma job_inv_release [inv_intros]: "job_inv j \<Longrightarrow> job_inv (on_proxy (proxy_release su) j)"
  by (simp add: job_inv_def pool_of_def release_inv)

lemma job_inv_trace [inv_intros]: "job_inv j \<Longrightarrow> job_inv (add_trace e j)"
  by (cases "30 < length (jb_trace j @ [e])")
     (simp_all add: job_inv_def pool_of_def add_trace_def Let_def)

lemma exit_inv [inv_intros]: "job_inv j \<Longrightarrow> job_inv (snd (handle_log_exit en pl j))"
  by (auto simp: handle_log_exit_def Let_def recover_or_manual_def require_manual_def
      intro!: inv_intros)

lemma dispatch_inv [inv_intros]: "job_inv j \<Longrightarrow> job_inv (snd (dispatch en sg pl j))"
  by (auto simp: dispatch_def running_handler_def common_handler_def handle_node_abnormal_def
      to_pending_def to_running_def to_hang_def to_loss_def to_inf_def to_iter_def Let_def
      recovery_stop_ok_def recovery_start_ok_def intro!: inv_intros split: run_state.split)

lemma dispatch_with_trace_inv [inv_intros]:
  "job_inv j \<Longrightarrow> job_inv (snd (dispatch_with_trace en sg pl j))"
  using dispatch_inv [of j en sg pl]
  by (auto simp: dispatch_with_trace_def intro!: inv_intros split: prod.split)

lemma on_event_inv [inv_intros]: "job_inv j \<Longrightarrow> job_inv (snd (on_event en src pl j))"
  by (auto simp: on_event_def intro!: inv_intros split: option.split)

lemma on_train_success_inv [inv_intros]: "job_inv j \<Longrightarrow> job_inv (snd (on_train_success en b j))"
  unfolding on_train_success_def Let_def by (intro inv_intros)

lemma close_run_inv [inv_intros]: "job_inv j \<Longrightarrow> job_inv (close_run en j)"
  by (auto simp: close_run_def intro!: inv_intros)

lemma stop_attempts_inv [inv_intros]: "job_inv j \<Longrightarrow> job_inv (snd (stop_attempts en oks j))"
  by (induction oks arbitrary: j) (auto intro!: inv_intros)

definition alloc_keeps :: "(proxy \<Rightarrow> bool \<times> proxy) \<Rightarrow> bool" where
  "alloc_keeps alloc = (\<forall>px. pool_inv (px_pool px) \<longrightarrow> pool_inv (px_pool (snd (alloc px))))"

lemma job_inv_proxy:
  "job_inv j \<Longrightarrow> alloc_keeps alloc \<Longrightarrow> alloc (jb_proxy j) = (b, px) \<Longrightarrow> job_inv (j\<lparr> jb_proxy := px \<rparr>)"
  unfolding alloc_keeps_def job_inv_def pool_of_def
  by (metis (no_types, lifting) job.select_convs(2,3,5,8) job.surjective job.update_convs(5) snd_conv)

lemma start_training_inv:
  "job_inv j \<Longrightarrow> alloc_keeps alloc \<Longrightarrow> start_training en bare alloc rs j = Some (c, j') \<Longrightarrow> job_inv j'"
proof (induction rs arbitrary: j)
  case (Cons r rs)
  obtain b px where a: "alloc (jb_proxy j) = (b, px)" by fastforce
  have i: "job_inv (j\<lparr> jb_proxy := px \<rparr>)" using job_inv_proxy [OF Cons.prems(1,2) a] .
  have m: "job_inv (j\<lparr> jb_proxy := px, jb_monitoring := True \<rparr>)"
    using i by (simp add: job_inv_def pool_of_def)
  show ?case
  proof (cases "b \<and> r = Launched")
    case True
    then have "j' = snd (on_train_success en True (j\<lparr> jb_proxy := px, jb_monitoring := True \<rparr>))"
      using Cons.prems(3) a by (auto simp: prod_eq_iff)
    then show ?thesis using on_train_success_inv [OF m] by simp
  next
    case False
    then show ?thesis using Cons.IH Cons.prems(2,3) a i job_inv_alert [OF i] job_inv_release [OF i]
      by (cases b) (auto split: if_splits)
  qed
qed simp

section \<open>Reachable jobs\<close>

text \<open>
  A job is restored from whatever state file there was, with a pool the node pool can reach, and
  then sees events and idle turns, stops and starts, in any order and with any outcome.
\<close>

inductive job_reachable :: "job \<Rightarrow> bool" where
  restored: "pool_reachable (pool_of j) \<Longrightarrow> jb_state j = get_state (ra_config (jb_args j)) (jb_file j)
     \<Longrightarrow> jb_trace j = [] \<Longrightarrow> job_reachable (restore_job en j)"
| event: "job_reachable j \<Longrightarrow> job_reachable (snd (next_command en ev j))"
| stopped: "job_reachable j \<Longrightarrow> job_reachable (snd (stop_training en ok j))"
| started: "job_reachable j \<Longrightarrow> alloc_keeps alloc \<Longrightarrow> start_training en bare alloc rs j = Some (c, j')
     \<Longrightarrow> job_reachable j'"

lemma pool_reachable_inv: "pool_reachable p \<Longrightarrow> pool_inv p"
  by (induction rule: pool_reachable.induct) (auto intro: init_first step_inv)

lemma restore_inv:
  assumes "pool_inv (pool_of j)" "jb_trace j = []" "jb_state j \<noteq> RUNNING"
  shows "job_inv (restore_job en j)"
proof -
  have "job_inv (init_state en j)"
    using assms by (cases "jb_state j")
      (auto simp: init_state_def to_recovering_def job_inv_def live_states_def pool_of_def release_inv)
  then show ?thesis by (auto simp: restore_job_def Let_def intro: inv_intros)
qed

lemma get_state_not_running: "get_state cfg file \<noteq> RUNNING"
  by (auto simp: get_state_def split: state_file.splits option.splits)

lemma job_reachable_inv: "job_reachable j \<Longrightarrow> job_inv j"
proof (induction rule: job_reachable.induct)
  case (restored j en)
  then show ?case using restore_inv pool_reachable_inv get_state_not_running by metis
next
  case (event j en ev)
  then show ?case by (auto simp: next_command_def intro: inv_intros split: option.split prod.split)
next
  case (stopped j en ok)
  then show ?case by (auto simp: stop_training_def intro: inv_intros)
next
  case (started j alloc en bare rs c j')
  then show ?case by (blast intro: start_training_inv)
qed

section \<open>Properties\<close>

text \<open>
  C3: a job is never stuck and never half recovered.  Whatever it was restored from and whatever
  happened since, it is starting, pending, running or recovering; an idle turn of the loop yields
  a command exactly when it is starting or recovering, and then STOP_TRAINING before
  START_TRAINING as the recovery phase says; at most 30 trace entries are kept; and the pool's
  partition rule holds.
\<close>

theorem reachable_job_is_live:
  assumes "job_reachable j"
  shows "jb_state j \<in> {STARTING, PENDING, RUNNING, RECOVERING}
    \<and> (next_action j \<noteq> NO_COMMAND \<longleftrightarrow> jb_state j \<in> {STARTING, RECOVERING})
    \<and> (jb_state j = RECOVERING \<longrightarrow>
         next_action j = (if jb_phase j = Stopping then STOP_TRAINING else START_TRAINING))
    \<and> length (jb_trace j) \<le> 30 \<and> pool_ok (pool_of j)"
  using job_reachable_inv [OF assms]
  by (cases "jb_phase j") (auto simp: job_inv_def live_states_def next_action_def pool_inv_def)

definition sample_snapshot :: snapshot where
  "sample_snapshot = \<lparr> sn_start = None, sn_stop = None, sn_release = None,
     sn_running = [''b'', ''a''], sn_faults = [], sn_count = 0, sn_first_iter = None,
     sn_first_iter_time = None, sn_last_iter = None, sn_last_iter_time = None,
     sn_ckpt_iter = None, sn_ckpt_iter_time = None \<rparr>"

definition sample_job :: "node_pool \<Rightarrow> run_state \<Rightarrow> job" where
  "sample_job p st = \<lparr> jb_args = \<lparr> ra_slots_per_node = JInt 8, ra_mpi_per_node = JNull,
       ra_required = 2, ra_config = [] \<rparr>, jb_state = st, jb_phase = NoPhase, jb_retries = 0,
     jb_proxy = \<lparr> px_pool = p, px_bl = sample_mgr, px_snap = Some sample_snapshot, px_last = None,
       px_snaps = [], px_required = 2 \<rparr>, jb_file = NoFile, jb_alerts = [], jb_trace = [],
     jb_monitoring = True \<rparr>"

definition sample_env :: job_env where
  "sample_env = \<lparr> je_su = \<lparr> su_nhc = \<lambda>ns. None, su_parse = \<lambda>s. \<lparr> fi_type = None,
       fi_description = [], fi_error_code = None, fi_gpu = None \<rparr>, su_writes = \<lambda>f. True,
       su_now = 0, su_now2 = 0, su_text = ''t'' \<rparr>, je_write = Written \<rparr>"

theorem reachable_job_is_live_witness:
  "\<exists>p. jb_state (restore_job sample_env (sample_job p INIT)) = STARTING
     \<and> next_action (restore_job sample_env (sample_job p INIT)) = START_TRAINING
     \<and> pool_ok (pool_of (restore_job sample_env (sample_job p INIT)))"
proof -
  have "init_pool (\<lambda>_. True) [] None (\<lambda>_. []) \<noteq> None" by code_simp
  then obtain p where "init_pool (\<lambda>_. True) [] None (\<lambda>_. []) = Some p" by auto
  then have "pool_reachable p" by (rule reach_init)
  then have r: "job_reachable (restore_job sample_env (sample_job p INIT))"
    by (intro job_reachable.restored) (simp_all add: pool_of_def sample_job_def get_state_def)
  have "jb_state (restore_job sample_env (sample_job p INIT)) = STARTING"
    by (simp add: restore_job_def init_state_def sample_job_def Let_def)
  then show ?thesis using reachable_job_is_live [OF r]
    by (auto simp: next_action_def)
qed

lemma add_fault_nodes_running:
  assumes "pool_ok (px_pool px)" "node \<in> set (running_nodes (px_pool px))"
  shows "\<exists>px'. add_fault_nodes su [node] (Some pl) px = returns () px'
    \<and> pool_ok (px_pool px') \<and> running_nodes (px_pool px') = []
    \<and> last_running_nodes (px_pool px') = running_nodes (px_pool px)
    \<and> set (abnormal_nodes (px_pool px')) = insert node (set (abnormal_nodes (px_pool px)))
    \<and> map_of (bm_nodes (px_bl px')) node \<noteq> None"
proof -
  let ?p = "px_pool px"
  note ok = pool_okD [OF assms(1)]
  have tot: "node \<in> set (total_nodes ?p)" "node \<notin> set (abnormal_nodes ?p)"
    using assms unfolding pool_ok_def by blast+
  moreover have cl: "clean node"
    using assms(1) tot(1) by (auto simp: pool_ok_def clean_list_def)
  ultimately have v: "validate_abnormal_candidates ?p [node] = ([node], SUCCESS)"
    by (simp add: validate_abnormal_candidates_def dedup_id set_diff_def set_inter_def)
  obtain q where q: "add_abnormal_nodes (su_writes su) [node] ?p
      = returns (True, True, Some [node], Some (sort (set_inter [node] (running_nodes ?p)))) q"
      "pool_ok q" "set (abnormal_nodes q) = set (abnormal_nodes ?p) \<union> {node}"
      "running_nodes q = []" "last_running_nodes q = running_nodes ?p"
    using add_abnormal_nodes_eq [OF assms(1) v, of "su_writes su"] assms(2) by auto
  have bl: "map_of (bm_nodes (snd (report_fault m node GRADIENT_INF d None None st t t2))) node \<noteq> None"
    for m d st t t2
    by (simp add: report_fault_def Let_def update_conv')
  show ?thesis using q bl
    by (cases "px_snap px")
       (auto simp: add_fault_nodes_def blacklist_faults_def Let_def)
qed

text \<open>A payload that puts a fault on global rank \<open>r\<close>, for a signal that acts on it.\<close>

definition located :: "signal \<Rightarrow> payload \<Rightarrow> int \<Rightarrow> bool" where
  "located sg pl r =
     ((sg \<in> {LOG_LOSS, LOG_INF} \<and> pl_data_type pl \<noteq> None \<and> pl_rank pl = Some (JInt r))
      \<or> (sg = LOG_EXIT \<and> pl_data_type pl = Some ''global_rank'' \<and> pl_fault_info pl = JInt r))"

lemma dispatch_located:
  assumes "located sg pl r" "jb_state j = RUNNING"
    and "\<And>j'. jb_proxy j' = jb_proxy j \<Longrightarrow> jb_args j' = jb_args j \<Longrightarrow>
       report_runtime_fault en (JInt r) ''global_rank'' pl j' = (True, j'\<lparr> jb_proxy := px \<rparr>)"
  shows "\<exists>j1. dispatch en sg pl j = to_recovering en j1 \<and> jb_proxy j1 = px \<and> jb_state j1 = RUNNING"
proof (cases "sg = LOG_EXIT")
  case True
  then have "dispatch en sg pl j = recover_or_manual en (report_runtime_fault en (JInt r) ''global_rank'' pl j)"
    using assms(1,2) by (simp add: dispatch_def running_handler_def handle_log_exit_def located_def)
  then show ?thesis using assms(2) assms(3) [of j] by (simp add: recover_or_manual_def) fastforce
next
  case False
  then obtain a where "dispatch en sg pl j
      = to_recovering en (snd (report_runtime_fault en (JInt r) ''global_rank'' pl (raise_alert a j)))"
    using assms(1,2) by (auto simp: dispatch_def running_handler_def to_loss_def to_inf_def located_def
        data_rank_def Let_def)
  then show ?thesis using assms(2) assms(3) [of "raise_alert a j"]
    by (intro exI [of _ "(raise_alert a j)\<lparr> jb_proxy := px \<rparr>"]) simp
qed

lemma div_less_bound:
  fixes r s n :: int assumes "0 < s" "r < s * n" shows "r div s < n"
proof (rule ccontr)
  assume "\<not> r div s < n"
  then have "s * n \<le> s * (r div s)" using assms(1) by simp
  also have "\<dots> \<le> r" using assms(1) by (metis mult_div_mod_eq le_add_same_cancel1 pos_mod_sign)
  finally show False using assms(2) by simp
qed

section \<open>Properties of the fault path\<close>

text \<open>
  C2: a fault is put on the node that runs its rank.  When a running job sees a loss, inf or exit
  message that names a global rank of the allocation, the node at position rank div
  slots-per-node of the running list is blacklisted and isolated, the run is cleared (and
  remembered for the restart), and the job goes to recovery, stopping first.
\<close>

theorem located_fault_isolates_its_node:
  assumes "jb_state j = RUNNING" "pool_ok (pool_of j)" "located sg pl r" "0 \<le> r"
    and "ra_slots_per_node (jb_args j) = JInt slots" "0 < slots"
    and "ra_required (jb_args j) = int (length (running_nodes (pool_of j)))"
    and "r < slots * int (length (running_nodes (pool_of j)))"
    and "node = running_nodes (pool_of j) ! nat (r div slots)"
  shows "\<exists>j'. dispatch_with_trace en sg pl j = (STOP_TRAINING, j')
    \<and> jb_state j' = RECOVERING \<and> jb_phase j' = Stopping
    \<and> pool_ok (pool_of j') \<and> running_nodes (pool_of j') = []
    \<and> last_running_nodes (pool_of j') = running_nodes (pool_of j)
    \<and> set (abnormal_nodes (pool_of j')) = insert node (set (abnormal_nodes (pool_of j)))
    \<and> map_of (bm_nodes (px_bl (jb_proxy j'))) node \<noteq> None"
proof -
  let ?run = "running_nodes (pool_of j)"
  have no: "0 \<le> r div slots" "r div slots < int (length ?run)"
    using assms(4,6) div_less_bound [OF assms(6,8)] by (simp_all add: pos_imp_zdiv_nonneg_iff)
  have "fault_node_no (jb_args j) (JInt r) ''global_rank'' = Some (r div slots)"
    using assms(4-7) no by (simp add: fault_node_no_def fault_rank_def)
  moreover have "py_get ?run (r div slots) = Some node"
    using no assms(9) by (simp add: py_get_def Let_def)
  moreover have "node \<in> set ?run" using no assms(9) by (simp add: nat_less_iff)
  ultimately obtain px where px:
      "handle_runtime_fault (jb_args j) (je_su en) (JInt r) ''global_rank'' (Some pl) (jb_proxy j) = (True, px)"
      "pool_ok (px_pool px)" "running_nodes (px_pool px) = []" "last_running_nodes (px_pool px) = ?run"
      "set (abnormal_nodes (px_pool px)) = insert node (set (abnormal_nodes (pool_of j)))"
      "map_of (bm_nodes (px_bl px)) node \<noteq> None"
    using add_fault_nodes_running [of "jb_proxy j" node "je_su en" pl] assms(2) no
    by (auto simp: handle_runtime_fault_def add_fault_nodes_no_def caught_def pool_of_def)
  have "\<exists>j1. dispatch en sg pl j = to_recovering en j1 \<and> jb_proxy j1 = px \<and> jb_state j1 = RUNNING"
    by (rule dispatch_located [OF assms(3,1)]) (simp add: report_runtime_fault_def px(1))
  then obtain j1 where "dispatch en sg pl j = to_recovering en j1" "jb_proxy j1 = px" "jb_state j1 = RUNNING"
    by blast
  then show ?thesis using px(2-)
    by (simp add: dispatch_with_trace_def to_recovering_def pool_of_def)
qed

theorem located_fault_isolates_its_node_witness:
  "\<exists>j'. dispatch_with_trace sample_env LOG_INF (no_payload\<lparr> pl_data_type := Some ''loss_nan_inf'',
       pl_rank := Some (JInt 11) \<rparr>) (sample_job sample_pool RUNNING) = (STOP_TRAINING, j')
     \<and> set (abnormal_nodes (pool_of j')) = {''a'', ''e''}"
proof -
  have "located LOG_INF (no_payload\<lparr> pl_data_type := Some ''loss_nan_inf'', pl_rank := Some (JInt 11) \<rparr>) 11"
    by (simp add: located_def)
  moreover have "jb_state (sample_job sample_pool RUNNING) = RUNNING"
    "ra_slots_per_node (jb_args (sample_job sample_pool RUNNING)) = JInt 8"
    "ra_required (jb_args (sample_job sample_pool RUNNING)) = 2"
    "pool_of (sample_job sample_pool RUNNING) = sample_pool"
    by (simp_all add: sample_job_def pool_of_def)
  moreover have "running_nodes sample_pool = [''b'', ''a'']" "abnormal_nodes sample_pool = [''e'']"
    by (simp_all add: sample_pool_def)
  ultimately show ?thesis
    using located_fault_isolates_its_node [of "sample_job sample_pool RUNNING" LOG_INF _ 11 8 "''a''" sample_env]
      sample_pool_ok by fastforce
qed

text \<open>
  C36: an exit that cannot be put on a node is left to a human.  When a running job exits with a
  fault type other than the known ones, with a root cause that names no host, or with a rank that
  no node of the allocation runs, it stays running, no node is blamed and an alert is raised.
\<close>

theorem unlocatable_exit_needs_a_human:
  assumes "jb_state j = RUNNING" "ty = (case pl_data_type pl of Some t \<Rightarrow> t | None \<Rightarrow> [])"
    and "(ty \<notin> {''root_cause'', ''proc'', ''global_rank'', ''rank'', ''node''})
      \<or> (ty = ''root_cause'' \<and> py_strip (pl_host pl) = [])
      \<or> (ty = ''proc'' \<and> pl_runtime pl \<noteq> Some ''prte'')
      \<or> (ty = ''proc'' \<and> fault_node_no (jb_args j) (pl_fault_info pl) ''mpi_rank'' = None)
      \<or> (ty \<in> {''global_rank'', ''rank''} \<and> fault_node_no (jb_args j) (pl_fault_info pl) ty = None)"
  shows "\<exists>j'. dispatch_with_trace en LOG_EXIT pl j = (NO_COMMAND, j') \<and> jb_state j' = RUNNING
    \<and> jb_proxy j' = jb_proxy j \<and> jb_alerts j' = jb_alerts j @ [ManualAlert]"
proof -
  have d: "dispatch en LOG_EXIT pl j = handle_log_exit en pl j"
    using assms(1) by (simp add: dispatch_def running_handler_def)
  have "handle_log_exit en pl j = require_manual j"
    using assms(3) unfolding handle_log_exit_def Let_def assms(2) [symmetric]
    by (elim disjE) (auto simp: recover_or_manual_def report_runtime_fault_def handle_runtime_fault_def)
  then show ?thesis using d assms(1)
    by (simp add: dispatch_with_trace_def require_manual_def raise_alert_def)
qed

theorem unlocatable_exit_needs_a_human_witness:
  "\<exists>j'. dispatch_with_trace sample_env LOG_EXIT (no_payload\<lparr> pl_data_type := Some ''global_rank'',
       pl_fault_info := JInt 16 \<rparr>) (sample_job sample_pool RUNNING) = (NO_COMMAND, j')
     \<and> jb_state j' = RUNNING \<and> jb_alerts j' = [ManualAlert]"
proof -
  have "fault_node_no (jb_args (sample_job sample_pool RUNNING)) (JInt 16) ''global_rank'' = None"
    by (simp add: fault_node_no_def fault_rank_def sample_job_def)
  moreover have "jb_state (sample_job sample_pool RUNNING) = RUNNING" "jb_alerts (sample_job sample_pool RUNNING) = []"
    by (simp_all add: sample_job_def)
  ultimately show ?thesis
    using unlocatable_exit_needs_a_human [of "sample_job sample_pool RUNNING" "''global_rank''"
      "no_payload\<lparr> pl_data_type := Some ''global_rank'', pl_fault_info := JInt 16 \<rparr>" sample_env]
    by auto
qed

text \<open>
  C29: a fault reported after the run was cleared is lost.  Once the running nodes are gone (the
  health monitor has isolated one of them), a rank that would have been mapped to a node is
  accepted as handled although nothing is blacklisted and nothing is isolated.
\<close>

theorem fault_after_cleared_run_is_lost:
  assumes "running_nodes (px_pool px) = []" "fault_node_no ar info ft = Some no"
    and "ft \<in> {''global_rank'', ''mpi_rank'', ''rank''}"
  shows "handle_runtime_fault ar su info ft reason px = (True, px)"
proof -
  have "0 \<le> no"
    using assms(2) by (auto simp: fault_node_no_def fault_rank_def pos_imp_zdiv_nonneg_iff
        split: option.splits if_splits elim!: positive_int.elims)
  then have "add_fault_nodes_no su no reason px = returns () px"
    using assms(1) by (simp add: add_fault_nodes_no_def)
  then show ?thesis using assms(2,3) unfolding handle_runtime_fault_def caught_def by simp
qed

theorem fault_after_cleared_run_is_lost_witness:
  "handle_runtime_fault (jb_args (sample_job sample_pool RUNNING)) (je_su sample_env) (JInt 11)
     ''global_rank'' None
     ((jb_proxy (sample_job sample_pool RUNNING))\<lparr> px_pool := sample_pool\<lparr> running_nodes := [] \<rparr> \<rparr>)
   = (True, (jb_proxy (sample_job sample_pool RUNNING))\<lparr> px_pool := sample_pool\<lparr> running_nodes := [] \<rparr> \<rparr>)"
  by (rule fault_after_cleared_run_is_lost [of _ _ _ _ 1])
     (simp_all add: fault_node_no_def fault_rank_def sample_job_def)

lemma stop_attempts_result:
  assumes "jb_state j = RECOVERING" "pool_ok (pool_of j)"
  shows "\<exists>j'. stop_attempts en oks j = (START_TRAINING, j') \<and> running_nodes (pool_of j') = []
    \<and> ((\<exists>ok\<in>set oks. ok) \<longrightarrow> jb_state j' = RECOVERING \<and> jb_phase j' = Starting)
    \<and> (\<not> (\<exists>ok\<in>set oks. ok) \<longrightarrow> jb_state j' = STARTING)"
  using assms release_ok(3)
  by (induction oks)
     (auto simp: close_run_def pool_of_def on_train_success_def dispatch_with_trace_def dispatch_def
        recovery_stop_ok_def Let_def)

lemma start_training_result:
  assumes "jb_state j = STARTING \<or> jb_state j = RECOVERING" "\<And>px. fst (alloc px)"
    and "Launched \<in> set rs"
  shows "\<exists>j'. start_training en bare alloc rs j = Some (NO_COMMAND, j') \<and> jb_state j' = PENDING"
  using assms(1,3)
proof (induction rs arbitrary: j)
  case (Cons r rs)
  obtain px where a: "alloc (jb_proxy j) = (True, px)"
    using assms(2) [of "jb_proxy j"] by (cases "alloc (jb_proxy j)") auto
  show ?case
  proof (cases "r = Launched")
    case True
    then show ?thesis using a Cons.prems(1)
      by (auto simp: on_train_success_def dispatch_with_trace_def dispatch_def to_pending_def
          recovery_start_ok_def Let_def)
  next
    case False
    then show ?thesis using Cons a by simp
  qed
qed simp

text \<open>
  C19: a recovery runs to its end.  From the stopping phase the stop always leads to START_TRAINING
  with the run released, whether it succeeds within three attempts or is given up; and once a
  start succeeds, after any number of failed rounds, the job is pending.  Meanwhile further fault
  events neither change the state nor restart the recovery.
\<close>

theorem recovery_runs_to_its_end:
  assumes "jb_state j = RECOVERING" "pool_ok (pool_of j)"
    and "\<And>px. fst (alloc px)" "Launched \<in> set rs"
  shows "(\<exists>j1 j2. stop_training en ok j = (START_TRAINING, j1) \<and> running_nodes (pool_of j1) = []
      \<and> start_training en bare alloc rs j1 = Some (NO_COMMAND, j2) \<and> jb_state j2 = PENDING)
    \<and> (\<forall>src pl. fst (on_event en src pl j) = NO_COMMAND
         \<and> jb_state (snd (on_event en src pl j)) = RECOVERING
         \<and> jb_phase (snd (on_event en src pl j)) = jb_phase j
         \<and> jb_proxy (snd (on_event en src pl j)) = jb_proxy j)"
proof -
  obtain j1 where 1: "stop_training en ok j = (START_TRAINING, j1)" "running_nodes (pool_of j1) = []"
      "jb_state j1 = STARTING \<or> jb_state j1 = RECOVERING"
    using stop_attempts_result [OF assms(1,2), of en "map ok [0..<3]"]
    unfolding stop_training_def by blast
  obtain j2 where "start_training en bare alloc rs j1 = Some (NO_COMMAND, j2)" "jb_state j2 = PENDING"
    using start_training_result [where alloc = alloc, OF 1(3) assms(3) assms(4)] by blast
  moreover have "fst (on_event en src pl j) = NO_COMMAND
         \<and> jb_state (snd (on_event en src pl j)) = RECOVERING
         \<and> jb_phase (snd (on_event en src pl j)) = jb_phase j
         \<and> jb_proxy (snd (on_event en src pl j)) = jb_proxy j" for src pl
  proof (cases "event_to_signal src pl")
    case (Some sg)
    then have "sg \<noteq> START_SUCCESS \<and> sg \<noteq> STOP_SUCCESS"
      by (cases src) (auto simp: event_to_signal_def log_signals_def bind_eq_Some_conv split: if_splits)
    then show ?thesis using Some assms(1)
      by (auto simp: on_event_def dispatch_with_trace_def dispatch_def common_handler_def
          handle_node_abnormal_def to_recovering_def)
  qed (simp add: on_event_def assms(1))
  ultimately show ?thesis using 1 by blast
qed

theorem recovery_runs_to_its_end_witness:
  "\<exists>j1 j2. stop_training sample_env (\<lambda>i. i = 2) (sample_job sample_pool RECOVERING) = (START_TRAINING, j1)
     \<and> start_training sample_env False (Pair True) [LaunchFails, Launched] j1 = Some (NO_COMMAND, j2)
     \<and> jb_state j2 = PENDING"
proof -
  have "jb_state (sample_job sample_pool RECOVERING) = RECOVERING"
    "pool_of (sample_job sample_pool RECOVERING) = sample_pool"
    by (simp_all add: sample_job_def pool_of_def)
  then show ?thesis
    using recovery_runs_to_its_end [of "sample_job sample_pool RECOVERING" "Pair True"
        "[LaunchFails, Launched]" sample_env "\<lambda>i. i = 2" False] sample_pool_ok by auto
qed

text \<open>
  C37: the state file.  What a successful write stores is read back by a process with the same model
  configuration, except that a running job comes back as pending; with a configuration that
  differs in any key, an unreadable file or none, the job starts over.
\<close>

theorem state_file_roundtrip:
  "get_state cfg (persist_state Written cfg s file) = (if s = RUNNING then PENDING else s)
   \<and> (\<forall>cfg' k. config_get cfg k \<noteq> config_get cfg' k \<longrightarrow>
        get_state cfg' (persist_state Written cfg s file) = INIT)
   \<and> get_state cfg (persist_state Truncated cfg s file) = INIT"
proof -
  have same: "\<not> fst (compare_runtime_args cfg cfg {})"
    by (simp add: compare_runtime_args_def Let_def filter_empty_conv)
  have nm: "map_of state_names (state_name s) = Some s"
    by (cases s) (simp_all add: state_names_def)
  have "fst (compare_runtime_args cfg cfg' {})" if d: "config_get cfg k \<noteq> config_get cfg' k" for cfg' k
  proof -
    have "k \<in> fst ` set cfg \<or> k \<in> fst ` set cfg'"
    proof (rule ccontr)
      assume "\<not> (k \<in> fst ` set cfg \<or> k \<in> fst ` set cfg')"
      then have "map_of cfg k = None" "map_of cfg' k = None" by (simp_all add: map_of_eq_None_iff)
      then show False using d by (simp add: config_get_def)
    qed
    then show ?thesis using d
      by (auto simp: compare_runtime_args_def Let_def filter_empty_conv)
  qed
  then show ?thesis using same nm by (simp add: get_state_def)
qed

theorem state_file_roundtrip_witness:
  "get_state [(''--dp'', JInt 4)] (persist_state Written [(''--dp'', JInt 8)] PENDING NoFile) = INIT"
proof -
  have "config_get [(''--dp'', JInt 8)] ''--dp'' \<noteq> config_get [(''--dp'', JInt 4)] ''--dp''"
    by (simp add: config_get_def)
  then show ?thesis using state_file_roundtrip [of "[(''--dp'', JInt 8)]" PENDING NoFile] by blast
qed

end
