(* ===== verification/HostExpr.thy ===== *)
theory HostExpr
  imports Prelude
begin

text \<open>
  Host-list expressions of \<^verbatim>\<open>cluster_manager/utils/string_utils.py\<close>: splitting at the
  commas outside brackets, expanding bracketed ranges, reading the table of
  \<^verbatim>\<open>sinfo -R\<close>, extracting the node field of an ssh or clush error line, and the
  compressed form printed by \<^verbatim>\<open>compress_nodes\<close>.  The regular expressions are written out
  as the deterministic scans they perform.
\<close>

section \<open>Searching and slicing\<close>

text \<open>
  \<open>break_at c s\<close> is \<^verbatim>\<open>i = s.find(c)\<close> with the slices \<^verbatim>\<open>s[:i]\<close> and
  \<^verbatim>\<open>s[i+1:]\<close>; None is -1.
\<close>

fun break_at :: "char \<Rightarrow> string \<Rightarrow> (string \<times> string) option" where
  "break_at c [] = None"
| "break_at c (x # xs) =
     (if x = c then Some ([], xs)
      else map_option (\<lambda>(a, b). (x # a, b)) (break_at c xs))"

lemma break_at_Some: "break_at c s = Some (a, b) \<Longrightarrow> s = a @ c # b \<and> c \<notin> set a"
  by (induction s arbitrary: a b) (auto split: if_splits)

lemma break_at_None [simp]: "break_at c s = None \<longleftrightarrow> c \<notin> set s"
  by (induction s) auto

lemma break_at_absent [simp]: "c \<notin> set s \<Longrightarrow> break_at c s = None"
  by simp

lemma break_at_append [simp]: "c \<notin> set a \<Longrightarrow> break_at c (a @ c # b) = Some (a, b)"
  by (induction a) auto

lemma set_dropWhile_subset: "set (dropWhile P xs) \<subseteq> set xs"
  by (induction xs) auto

lemma set_py_strip: "set (py_strip s) \<subseteq> set s"
  unfolding py_strip_def using set_dropWhile_subset [of is_ws "rev (dropWhile is_ws s)"]
    set_dropWhile_subset [of is_ws s] by auto

lemma set_split_on: "p \<in> set (split_on c s) \<Longrightarrow> set p \<subseteq> set s - {c}"
proof (induction s arbitrary: p)
  case (Cons x xs)
  then show ?case by (fastforce split: if_splits list.splits)
qed simp

section \<open>Numbers padded with zeros\<close>

text \<open>\<open>fmt0 w n\<close> is the format \<^verbatim>\<open>f"{n:0{w}d}"\<close>.\<close>

definition fmt0 :: "nat \<Rightarrow> int \<Rightarrow> string" where
  "fmt0 w n =
     (let digits = show_nat (nat \<bar>n\<bar>); sign = (if n < 0 then ''-'' else '''')
      in sign @ replicate (w - length sign - length digits) CHR ''0'' @ digits)"

lemma set_fmt0: "c \<in> set (fmt0 w n) \<Longrightarrow> is_digit c \<or> c = CHR ''-''"
  by (auto simp: fmt0_def Let_def is_digit_def dest: show_nat_digits split: if_splits)

lemma fmt0_no_bracket [simp]: "CHR '']'' \<notin> set (fmt0 w n)"
proof
  assume "CHR '']'' \<in> set (fmt0 w n)"
  then have "is_digit CHR '']''" by (auto dest: set_fmt0)
  then show False by (simp add: is_digit_def)
qed

section \<open>Splitting and expanding\<close>

definition flush :: "string list \<Rightarrow> string \<Rightarrow> string list" where
  "flush parts buf = (let part = py_strip buf in if part \<noteq> [] then parts @ [part] else parts)"

fun split_loop :: "string \<Rightarrow> string list \<Rightarrow> string \<Rightarrow> nat \<Rightarrow> string list" where
  "split_loop [] parts buf depth = flush parts buf"
| "split_loop (ch # s) parts buf depth =
     (if ch = CHR ''['' then split_loop s parts (buf @ [ch]) (depth + 1)
      else if ch = CHR '']'' then split_loop s parts (buf @ [ch]) (depth - 1)
      else if ch = CHR '','' \<and> depth = 0 then split_loop s (flush parts buf) [] depth
      else split_loop s parts (buf @ [ch]) depth)"

definition split_outside_brackets :: "string \<Rightarrow> string list" where
  "split_outside_brackets s = split_loop s [] [] 0"

text \<open>One item of a bracket: an inclusive range of numbers, or the text itself.\<close>

definition range_item :: "string \<Rightarrow> string list" where
  "range_item raw =
     (let item = py_strip raw in
      case break_at CHR ''-'' item of
        None \<Rightarrow> [item]
      | Some (start_str, end_str) \<Rightarrow>
          (case py_int start_str of
             None \<Rightarrow> [item]
           | Some start \<Rightarrow>
               (case py_int end_str of
                  None \<Rightarrow> [item]
                | Some end_ \<Rightarrow>
                    map (fmt0 (max (length start_str) (length end_str))) [start..end_])))"

definition range_items :: "string \<Rightarrow> string list" where
  "range_items range_str = concat (map range_item (split_on CHR '','' range_str))"

lemma range_item_cases:
  assumes "x \<in> set (range_item raw)"
  obtains "x = py_strip raw" | w n where "x = fmt0 w n"
proof (cases "break_at CHR ''-'' (py_strip raw)")
  case None
  with assms that show ?thesis by (simp add: range_item_def)
next
  case (Some ab)
  obtain a b where "ab = (a, b)" by (cases ab)
  with Some assms that show ?thesis
    by (cases "py_int a"; cases "py_int b") (auto simp: range_item_def)
qed

lemma range_item_no_bracket:
  "x \<in> set (range_item raw) \<Longrightarrow> CHR '']'' \<notin> set raw \<Longrightarrow> CHR '']'' \<notin> set x"
  using set_py_strip [of raw] by (auto elim!: range_item_cases)

lemma range_items_no_bracket:
  assumes "x \<in> set (range_items r)" and "CHR '']'' \<notin> set r"
  shows "CHR '']'' \<notin> set x"
proof -
  obtain raw where raw: "raw \<in> set (split_on CHR '','' r)" "x \<in> set (range_item raw)"
    using assms(1) by (auto simp: range_items_def)
  have "CHR '']'' \<notin> set raw" using set_split_on [OF raw(1)] assms(2) by auto
  with raw(2) show ?thesis by (rule range_item_no_bracket)
qed

function expand_range :: "string \<Rightarrow> string list" where
  "expand_range expr =
     (case break_at CHR ''['' expr of
        None \<Rightarrow> [expr]
      | Some (prefix, rest) \<Rightarrow>
          (case break_at CHR '']'' rest of
             None \<Rightarrow> [expr]
           | Some (range_str, suffix) \<Rightarrow>
               concat (map (\<lambda>item. map (\<lambda>s. prefix @ s) (expand_range (item @ suffix)))
                 (range_items range_str))))"
  by pat_completeness auto

text \<open>
  The recursive call prepends an item to the suffix, so the text may grow; what decreases is the
  number of closing brackets, because an item never contains one.
\<close>

termination
proof (relation "measure (\<lambda>e. count_list e CHR '']'')", simp)
  fix expr and x :: "string \<times> string" and prefix rest and y :: "string \<times> string"
    and range_str suffix item
  assume a: "break_at CHR ''['' expr = Some x" "(prefix, rest) = x"
    "break_at CHR '']'' rest = Some y" "(range_str, suffix) = y"
    "item \<in> set (range_items range_str)"
  then have e: "expr = prefix @ CHR ''['' # range_str @ CHR '']'' # suffix"
    and n: "CHR '']'' \<notin> set range_str"
    by (auto dest!: break_at_Some)
  have "count_list item CHR '']'' = 0"
    using range_items_no_bracket [OF a(5) n] by (simp add: count_list_0_iff)
  then show "(item @ suffix, expr) \<in> measure (\<lambda>e. count_list e CHR '']'')"
    by (simp add: e)
qed

declare expand_range.simps [simp del]

definition node_expr_parser :: "string \<Rightarrow> string list" where
  "node_expr_parser node_expr =
     concat (map (\<lambda>expr. expand_range (py_strip (hd (split_on CHR ''('' expr))))
       (split_outside_brackets node_expr))"

section \<open>The reference: a product of segments\<close>

text \<open>
  A well-formed expression is a sequence of literal texts and brackets; a bracket lists single
  items and ranges given by two digit strings.  \<open>product\<close> is its meaning: all combinations, in
  the order of the list, ranges padded to the longer of their two ends.
\<close>

datatype part = One string | Span string string

datatype segment = Lit string | Range "part list"

fun render_part :: "part \<Rightarrow> string" where
  "render_part (One t) = t"
| "render_part (Span a b) = a @ CHR ''-'' # b"

fun render :: "segment list \<Rightarrow> string" where
  "render [] = []"
| "render (Lit t # segs) = t @ render segs"
| "render (Range ps # segs) =
     CHR ''['' # join_with '','' (map render_part ps) @ CHR '']'' # render segs"

fun part_items :: "part \<Rightarrow> string list" where
  "part_items (One t) = [t]"
| "part_items (Span a b) =
     map (\<lambda>n. fmt0 (max (length a) (length b)) (int n)) [nat_of_digits a..<Suc (nat_of_digits b)]"

fun product :: "segment list \<Rightarrow> string list" where
  "product [] = [[]]"
| "product (Lit t # segs) = map (\<lambda>s. t @ s) (product segs)"
| "product (Range ps # segs) =
     concat (map (\<lambda>i. map (\<lambda>s. i @ s) (product segs)) (concat (map part_items ps)))"

definition plain :: "string \<Rightarrow> bool" where
  "plain t = (\<forall>c\<in>set t. \<not> is_ws c \<and> c \<noteq> CHR ''['' \<and> c \<noteq> CHR '']'' \<and> c \<noteq> CHR '','' \<and> c \<noteq> CHR ''('')"

definition digits :: "string \<Rightarrow> bool" where
  "digits t = (t \<noteq> [] \<and> (\<forall>c\<in>set t. is_digit c))"

fun part_ok :: "part \<Rightarrow> bool" where
  "part_ok (One t) = (plain t \<and> CHR ''-'' \<notin> set t)"
| "part_ok (Span a b) = (digits a \<and> digits b)"

fun segment_ok :: "segment \<Rightarrow> bool" where
  "segment_ok (Lit t) = plain t"
| "segment_ok (Range ps) = (ps \<noteq> [] \<and> list_all part_ok ps)"

section \<open>Digit strings\<close>

lemma digit_not_special:
  "is_digit c \<Longrightarrow> \<not> is_ws c \<and> c \<noteq> CHR ''-'' \<and> c \<noteq> CHR ''+'' \<and> c \<noteq> CHR ''_'' \<and> c \<noteq> CHR ''[''
     \<and> c \<noteq> CHR '']'' \<and> c \<noteq> CHR '','' \<and> c \<noteq> CHR ''(''"
  by (auto simp: is_digit_def is_ws_def)

lemma digit_groups_ok_digits: "digits s \<Longrightarrow> digit_groups_ok s"
proof (induction s rule: digit_groups_ok.induct)
  case (3 c d cs)
  then have "d \<noteq> CHR ''_''" using digit_not_special [of d] by (auto simp: digits_def)
  with 3 show ?case by (auto simp: digits_def)
qed (auto simp: digits_def)

lemma py_int_digit_string: "digits s \<Longrightarrow> py_int s = Some (int (nat_of_digits s))"
proof -
  assume d: "digits s"
  then have "py_strip s = s" by (intro py_strip_no_ws) (auto simp: digits_def dest: digit_not_special)
  moreover have "filter is_digit s = s" using d by (simp add: digits_def)
  ultimately show ?thesis
    using d digit_groups_ok_digits [OF d] digit_not_special
    by (cases s) (auto simp: py_int_def py_int_digits_def digits_def)
qed

lemma digits_plain: "digits s \<Longrightarrow> plain s \<and> CHR ''-'' \<notin> set s"
  by (auto simp: digits_def plain_def dest: digit_not_special)

lemma digits_show_nat [simp]: "digits (show_nat n)"
  by (auto simp: digits_def dest: show_nat_digits)

lemma digits_fmt0 [simp]: "digits (fmt0 w (int n))"
  by (auto simp: digits_def fmt0_def Let_def is_digit_def dest!: show_nat_digits)

lemma nat_of_digits_zeros: "nat_of_digits (replicate k CHR ''0'' @ s) = nat_of_digits s"
  by (induction k) (simp_all add: nat_of_digits_def digit_val_def)

lemma nat_of_digits_fmt0 [simp]: "nat_of_digits (fmt0 w (int n)) = n"
  by (simp add: fmt0_def Let_def nat_of_digits_zeros)

lemma plain_simps [simp]: "plain []" "plain (s @ t) \<longleftrightarrow> plain s \<and> plain t"
  by (auto simp: plain_def)

lemma plain_dash [simp]: "plain (CHR ''-'' # s) \<longleftrightarrow> plain s"
  by (simp add: plain_def is_ws_def)

lemma plain_strip: "plain s \<Longrightarrow> py_strip s = s"
  by (rule py_strip_no_ws) (auto simp: plain_def)

section \<open>Expansion computes the product\<close>

lemma part_plain: "part_ok p \<Longrightarrow> plain (render_part p)"
  by (cases p) (auto simp: digits_plain)

lemma range_item_part: "part_ok p \<Longrightarrow> range_item (render_part p) = part_items p"
proof (cases p)
  case (One t)
  assume "part_ok p"
  with One show ?thesis by (simp add: range_item_def plain_strip)
next
  case (Span a b)
  assume ok: "part_ok p"
  then have s: "py_strip (a @ CHR ''-'' # b) = a @ CHR ''-'' # b"
    using Span part_plain [OF ok] plain_strip by simp
  have "CHR ''-'' \<notin> set a" using ok Span digits_plain by auto
  then have r: "range_item (a @ CHR ''-'' # b) =
      map (fmt0 (max (length a) (length b))) [int (nat_of_digits a)..int (nat_of_digits b)]"
    using ok Span by (simp add: range_item_def s py_int_digit_string)
  have "[int m..int n] = map int [m..<Suc n]" for m n
    by (rule nth_equalityI) (auto simp del: upt_Suc simp: nth_upt)
  then show ?thesis by (simp add: r Span comp_def del: upt_Suc)
qed

lemma part_items_plain: "part_ok p \<Longrightarrow> x \<in> set (part_items p) \<Longrightarrow> plain x"
  by (cases p) (auto simp del: upt_Suc simp: digits_plain)

lemma range_items_parts:
  assumes "ps \<noteq> []" "list_all part_ok ps"
  shows "range_items (join_with '','' (map render_part ps)) = concat (map part_items ps)"
proof -
  have "split_on CHR '','' (join_with '','' (map render_part ps)) = map render_part ps"
    using assms part_plain by (intro split_on_join) (auto simp: list_all_iff plain_def)
  then show ?thesis
    using assms by (simp add: range_items_def comp_def range_item_part list_all_iff cong: map_cong)
qed

lemma join_with_no_char:
  "\<forall>x\<in>set xs. c \<notin> set x \<Longrightarrow> c \<notin> set sep \<Longrightarrow> c \<notin> set (join_with sep xs)"
  by (induction sep xs rule: join_with.induct) auto

lemma expand_render_prefix:
  assumes "list_all segment_ok segs" "plain p"
  shows "expand_range (p @ render segs) = map (\<lambda>s. p @ s) (product segs)"
  using assms
proof (induction segs arbitrary: p rule: product.induct)
  case 1
  have "CHR ''['' \<notin> set p" using 1 by (auto simp: plain_def)
  then show ?case by (simp add: expand_range.simps)
next
  case (2 t segs)
  then show ?case using "2.IH" [of "p @ t"] by (simp add: comp_def)
next
  case (3 ps segs)
  let ?body = "join_with '','' (map render_part ps)"
  have p: "CHR ''['' \<notin> set p" using "3.prems" by (auto simp: plain_def)
  have body: "CHR '']'' \<notin> set ?body"
    using "3.prems" part_plain by (intro join_with_no_char) (auto simp: list_all_iff plain_def)
  have items: "range_items ?body = concat (map part_items ps)"
    using "3.prems" by (intro range_items_parts) simp_all
  have IH: "expand_range (i @ render segs) = map (\<lambda>s. i @ s) (product segs)"
    if "i \<in> set (concat (map part_items ps))" for i
  proof -
    have "plain i" using that "3.prems" part_items_plain by (auto simp: list_all_iff)
    with "3.IH" [OF that] "3.prems" show ?thesis by simp
  qed
  have "expand_range (p @ render (Range ps # segs)) =
      concat (map (\<lambda>i. map (\<lambda>s. p @ s) (expand_range (i @ render segs))) (concat (map part_items ps)))"
    using p body items by (subst expand_range.simps) simp
  also have "\<dots> = concat (map (\<lambda>i. map (\<lambda>s. p @ s) (map (\<lambda>s. i @ s) (product segs))) (concat (map part_items ps)))"
    by (rule arg_cong [where f = concat], rule map_cong [OF refl]) (simp only: IH)
  finally show ?case by (simp add: map_concat comp_def)
qed

text \<open>
  C9: On every well-formed host expression (literal texts and brackets that list single items and
  digit ranges, any number of brackets) expand_range computes the reference: all combinations, in
  order, each range padded to the longer of its two ends.
\<close>
theorem expand_range_is_product:
  assumes "list_all segment_ok segs"
  shows "expand_range (render segs) = product segs"
  using expand_render_prefix [OF assms, of "[]"] by simp

theorem expand_range_is_product_witness:
  "expand_range ''b11r[2,4]n[09-10]'' = [''b11r2n09'', ''b11r2n10'', ''b11r4n09'', ''b11r4n10'']"
proof -
  let ?segs = "[Lit ''b11r'', Range [One ''2'', One ''4''], Lit ''n'', Range [Span ''09'' ''10'']]"
  have "list_all segment_ok ?segs"
    by (simp add: plain_def digits_def is_digit_def is_ws_def)
  moreover have "product ?segs = [''b11r2n09'', ''b11r2n10'', ''b11r4n09'', ''b11r4n10'']"
    by code_simp
  ultimately show ?thesis using expand_range_is_product [of ?segs] by simp
qed

section \<open>Splitting at the commas outside brackets\<close>

definition bracketless :: "string \<Rightarrow> bool" where
  "bracketless t = (CHR ''['' \<notin> set t \<and> CHR '']'' \<notin> set t)"

text \<open>Without brackets the scan is \<^verbatim>\<open>s.split(",")\<close>, stripped, without the empty pieces.\<close>

lemma split_loop_bracketless:
  assumes "bracketless s"
  shows "split_loop s parts buf 0 =
    (case split_on CHR '','' s of p # ps \<Rightarrow> foldl flush parts ((buf @ p) # ps))"
  using assms
proof (induction s arbitrary: parts buf)
  case (Cons c s)
  obtain p ps where sp: "split_on CHR '','' s = p # ps"
    by (cases "split_on CHR '','' s") auto
  have "bracketless s" using Cons.prems by (simp add: bracketless_def)
  note IH = Cons.IH [OF this]
  show ?case
    using Cons.prems by (auto simp: IH sp bracketless_def)
qed simp

lemma foldl_flush:
  "foldl flush parts ps = parts @ filter (\<lambda>p. p \<noteq> []) (map py_strip ps)"
  by (induction ps arbitrary: parts) (auto simp: flush_def Let_def)

lemma split_bracketless:
  "bracketless s \<Longrightarrow>
    split_outside_brackets s = filter (\<lambda>p. p \<noteq> []) (map py_strip (split_on CHR '','' s))"
  by (cases "split_on CHR '','' s")
    (simp_all add: split_outside_brackets_def split_loop_bracketless foldl_flush flush_def Let_def)

lemma split_loop_text:
  "bracketless t \<Longrightarrow> 0 < d \<or> CHR '','' \<notin> set t \<Longrightarrow>
    split_loop (t @ s) parts buf d = split_loop s parts (buf @ t) d"
  by (induction t arbitrary: buf) (auto simp: bracketless_def)

lemma join_with_bracketless:
  "\<forall>x\<in>set xs. bracketless x \<Longrightarrow> bracketless (join_with '','' xs)"
  unfolding bracketless_def by (intro impI conjI join_with_no_char) auto

lemma split_loop_render:
  assumes "list_all segment_ok segs"
  shows "split_loop (render segs @ s) parts buf 0 = split_loop s parts (buf @ render segs) 0"
  using assms
proof (induction segs arbitrary: buf rule: render.induct)
  case (2 t segs)
  have "bracketless t \<and> CHR '','' \<notin> set t" using 2 by (auto simp: plain_def bracketless_def)
  then show ?case using 2 by (simp add: split_loop_text)
next
  case (3 ps segs)
  have "bracketless (join_with '','' (map render_part ps))"
    using 3 part_plain by (intro join_with_bracketless) (auto simp: list_all_iff plain_def bracketless_def)
  then show ?case using 3 by (simp add: split_loop_text)
qed simp

definition expr_ok :: "segment list \<Rightarrow> bool" where
  "expr_ok segs = (list_all segment_ok segs \<and> render segs \<noteq> [])"

lemma render_chars:
  assumes "list_all segment_ok segs" "c \<in> set (render segs)"
  shows "\<not> is_ws c \<and> c \<noteq> CHR ''(''"
  using assms
proof (induction segs rule: render.induct)
  case (2 t segs)
  then show ?case by (auto simp: plain_def)
next
  case (3 ps segs)
  have sym: "\<not> is_ws d \<and> d \<noteq> CHR ''(''" if "d \<in> set ''[],''" for d
    using that by (auto simp: is_ws_def)
  have p: "\<not> is_ws d \<and> d \<noteq> CHR ''(''" if d: "d \<in> set x" and x: "x \<in> set (map render_part ps)" for d x
  proof -
    obtain q where q: "q \<in> set ps" "x = render_part q" using x by auto
    then have "part_ok q" using "3.prems"(1) by (simp add: list_all_iff)
    then have "plain x" using part_plain q(2) by simp
    then show ?thesis using d unfolding plain_def by blast
  qed
  show ?case
  proof (rule ccontr)
    assume bad: "\<not> (\<not> is_ws c \<and> c \<noteq> CHR ''('')"
    then have "\<forall>x\<in>set (map render_part ps). c \<notin> set x" and "c \<notin> set ''[],''"
      using p sym by blast+
    then have "c \<notin> set (join_with '','' (map render_part ps))"
      by (intro join_with_no_char) auto
    with \<open>c \<notin> set ''[],''\<close> have "c \<in> set (render segs)" using "3.prems"(2) by auto
    then show False using "3.IH" "3.prems"(1) bad by simp
  qed
qed simp

lemma split_rendered:
  assumes "list_all expr_ok es"
  shows "split_outside_brackets (join_with '','' (map render es)) = map render es"
proof -
  have strip: "py_strip (render segs) = render segs" if "list_all segment_ok segs" for segs
    using that render_chars by (intro py_strip_no_ws) blast
  have "split_loop (join_with '','' (map render es)) parts [] 0 = parts @ map render es" for parts
    using assms
  proof (induction es arbitrary: parts rule: induct_list012)
    case 1
    then show ?case by (simp add: flush_def py_strip_def)
  next
    case (2 e)
    then show ?case using split_loop_render [of e "[]" parts "[]"]
      by (simp add: expr_ok_def flush_def strip Let_def)
  next
    case (3 e f es)
    then show ?case using split_loop_render [of e "CHR '','' # join_with '','' (map render (f # es))" parts "[]"]
      by (simp add: expr_ok_def flush_def strip Let_def)
  qed
  then show ?thesis by (simp add: split_outside_brackets_def)
qed

lemma node_expr_parser_rendered:
  assumes "list_all expr_ok es"
  shows "node_expr_parser (join_with '','' (map render es)) = concat (map product es)"
proof -
  have "expand_range (py_strip (hd (split_on CHR ''('' (render e)))) = product e"
    if "e \<in> set es" for e
  proof -
    have ok: "list_all segment_ok e" using that assms by (auto simp: list_all_iff expr_ok_def)
    have "split_on CHR ''('' (render e) = [render e]"
      using render_chars [OF ok] by (intro split_on_no_sep) blast
    moreover have "py_strip (render e) = render e"
      using render_chars [OF ok] by (intro py_strip_no_ws) blast
    ultimately show ?thesis using expand_render_prefix [OF ok, of "[]"] by simp
  qed
  then show ?thesis
    using split_rendered [OF assms] by (simp add: node_expr_parser_def comp_def cong: map_cong)
qed

section \<open>Compressed host lists\<close>

text \<open>
  The regular expression \<^verbatim>\<open>(.*?)(\d+)$\<close> splits off the trailing digits; the dot does not
  match a line break, and the dollar also matches before a final one.
\<close>

definition name_number :: "string \<Rightarrow> (string \<times> nat) option" where
  "name_number node =
     (let body = (if node \<noteq> [] \<and> last node = CHR 0x0A then butlast node else node);
          num = rev (takeWhile is_digit (rev body));
          prefix = rev (dropWhile is_digit (rev body))
      in if num = [] \<or> CHR 0x0A \<in> set body then None else Some (prefix, nat_of_digits num))"

text \<open>The runs of consecutive numbers, as (start, end) pairs.\<close>

fun number_ranges :: "nat list \<Rightarrow> (nat \<times> nat) list \<Rightarrow> nat \<Rightarrow> nat \<Rightarrow> (nat \<times> nat) list" where
  "number_ranges [] ranges start prev = ranges @ [(start, prev)]"
| "number_ranges (n # ns) ranges start prev =
     (if n = prev + 1 then number_ranges ns ranges start n
      else number_ranges ns (ranges @ [(start, prev)]) n n)"

definition range_text :: "nat \<times> nat \<Rightarrow> string" where
  "range_text r = (if fst r = snd r then fmt0 2 (int (fst r))
     else fmt0 2 (int (fst r)) @ ''-'' @ fmt0 2 (int (snd r)))"

definition group_text :: "string \<Rightarrow> nat list \<Rightarrow> string" where
  "group_text prefix nums =
     (case sorted_set nums of
        [] \<Rightarrow> []
      | n # ns \<Rightarrow> prefix @ ''['' @ join_with '','' (map range_text (number_ranges ns [] n n)) @ '']'')"

text \<open>A single node is returned as the list it came in; otherwise the result is a string.\<close>

definition compress_nodes :: "string list \<Rightarrow> string list + string" where
  "compress_nodes nodes =
     (if length nodes = 1 then Inl nodes
      else let parsed = List.map_filter name_number nodes in
        Inr (join_with '',''
          (map (\<lambda>p. group_text p (map snd (filter (\<lambda>g. fst g = p) parsed)))
            (sorted_set (map fst parsed)))))"

lemma number_ranges_concat:
  "start \<le> prev \<Longrightarrow>
    concat (map (\<lambda>(s, e). [s..<Suc e]) (number_ranges ns ranges start prev)) =
    concat (map (\<lambda>(s, e). [s..<Suc e]) ranges) @ [start..<Suc prev] @ ns"
  by (induction ns arbitrary: ranges start prev) auto

lemma number_ranges_nonempty [simp]: "number_ranges ns ranges start prev \<noteq> []"
  by (induction ns arbitrary: ranges start prev) auto

lemma number_ranges_bounds:
  assumes "\<forall>r\<in>set ranges. fst r < b \<and> snd r < b" "start < b" "prev < b" "\<forall>n\<in>set ns. n < b"
  shows "\<forall>r\<in>set (number_ranges ns ranges start prev). fst r < b \<and> snd r < b"
  using assms
proof (induction ns arbitrary: ranges start prev)
  case (Cons n ns)
  show ?case
  proof (cases "n = prev + 1")
    case True
    with Cons.IH [of ranges start n] Cons.prems show ?thesis by simp
  next
    case False
    have "\<forall>r\<in>set (ranges @ [(start, prev)]). fst r < b \<and> snd r < b"
      using Cons.prems by simp
    from Cons.IH [OF this, of n n] False Cons.prems show ?thesis by simp
  qed
next
  case Nil
  then show ?case by (fastforce)
qed

lemma length_show_nat_small: "n < 100 \<Longrightarrow> length (show_nat n) \<le> 2"
  using less_mult_imp_div_less [of n 10 10]
  by (subst show_nat.simps) (simp add: show_nat.simps [of "n div 10"])

lemma length_fmt0_small: "n < 100 \<Longrightarrow> length (fmt0 2 (int n)) = 2"
  using length_show_nat_small [of n] by (simp add: fmt0_def Let_def)

text \<open>The segments a compressed group stands for.\<close>

definition range_part :: "nat \<times> nat \<Rightarrow> part" where
  "range_part r = (if fst r = snd r then One (fmt0 2 (int (fst r)))
     else Span (fmt0 2 (int (fst r))) (fmt0 2 (int (snd r))))"

lemma range_text_part: "range_text = (\<lambda>r. render_part (range_part r))"
  by (rule ext) (simp add: range_text_def range_part_def)

lemma range_part_ok: "part_ok (range_part r)"
  using digits_plain digits_fmt0 by (simp add: range_part_def)

lemma range_part_items:
  "s < 100 \<Longrightarrow> e < 100 \<Longrightarrow>
    part_items (range_part (s, e)) = map (\<lambda>n. fmt0 2 (int n)) [s..<Suc e]"
  by (simp add: range_part_def length_fmt0_small del: upt_Suc) auto

lemma group_segments:
  assumes "\<forall>n\<in>set nums. n < 100" "nums \<noteq> []" "plain prefix"
  shows "\<exists>segs. expr_ok segs \<and> group_text prefix nums = render segs
    \<and> product segs = map (\<lambda>n. prefix @ fmt0 2 (int n)) (sorted_set nums)"
proof -
  obtain n ns where ns: "sorted_set nums = n # ns"
    using assms(2) by (metis list.exhaust set_empty set_sorted_set)
  then have set_ns: "insert n (set ns) = set nums" by (metis list.simps(15) set_sorted_set)
  let ?rs = "number_ranges ns [] n n"
  let ?segs = "[Lit prefix, Range (map range_part ?rs)]"
  have b: "\<forall>r\<in>set ?rs. fst r < 100 \<and> snd r < 100"
    using assms(1) set_ns by (intro number_ranges_bounds) auto
  have ok: "expr_ok ?segs"
    using assms(3) range_part_ok by (auto simp: expr_ok_def list_all_iff)
  have shown: "group_text prefix nums = render ?segs"
    by (simp add: group_text_def ns range_text_part comp_def)
  have "concat (map part_items (map range_part ?rs)) =
      concat (map (\<lambda>(s, e). map (\<lambda>n. fmt0 2 (int n)) [s..<Suc e]) ?rs)"
    using b by (intro arg_cong [where f = concat]) (auto simp: range_part_items simp del: upt_Suc)
  also have "\<dots> = map (\<lambda>n. fmt0 2 (int n)) (concat (map (\<lambda>(s, e). [s..<Suc e]) ?rs))"
    by (simp add: map_concat comp_def case_prod_unfold del: upt_Suc)
  also have "\<dots> = map (\<lambda>n. fmt0 2 (int n)) (n # ns)"
    by (subst number_ranges_concat) auto
  finally have "product ?segs = map (\<lambda>n. prefix @ fmt0 2 (int n)) (sorted_set nums)"
    by (simp add: ns comp_def map_concat [symmetric] concat_map_singleton)
  with ok shown show ?thesis by blast
qed

text \<open>Names whose trailing number is written with two digits, the form compress_nodes prints.\<close>

definition canonical_name :: "string \<Rightarrow> bool" where
  "canonical_name node = (case name_number node of
      None \<Rightarrow> False
    | Some g \<Rightarrow> snd g < 100 \<and> plain (fst g) \<and> node = fst g @ fmt0 2 (int (snd g)))"

lemma canonical_nameD:
  "canonical_name node \<Longrightarrow> \<exists>p n. name_number node = Some (p, n) \<and> n < 100 \<and> plain p
     \<and> node = p @ fmt0 2 (int n)"
  by (auto simp: canonical_name_def split: option.splits)

lemma map_filter_all:
  "\<forall>x\<in>set xs. f x = Some (g x) \<Longrightarrow> List.map_filter f xs = map g xs"
  by (induction xs) (auto simp: List.map_filter_simps)

lemma compressed_groups:
  assumes "\<forall>p\<in>set ps. nums p \<noteq> [] \<and> plain p \<and> (\<forall>n\<in>set (nums p). n < 100)"
  shows "node_expr_parser (join_with '','' (map (\<lambda>p. group_text p (nums p)) ps)) =
    concat (map (\<lambda>p. map (\<lambda>n. p @ fmt0 2 (int n)) (sorted_set (nums p))) ps)"
proof -
  have "\<forall>p\<in>set ps. \<exists>segs. expr_ok segs \<and> group_text p (nums p) = render segs
      \<and> product segs = map (\<lambda>n. p @ fmt0 2 (int n)) (sorted_set (nums p))"
    using assms by (intro ballI group_segments) auto
  then obtain f where f: "\<forall>p\<in>set ps. expr_ok (f p) \<and> group_text p (nums p) = render (f p)
      \<and> product (f p) = map (\<lambda>n. p @ fmt0 2 (int n)) (sorted_set (nums p))"
    by (rule bchoice [THEN exE])
  have "map (\<lambda>p. group_text p (nums p)) ps = map render (map f ps)" using f by simp
  moreover have "list_all expr_ok (map f ps)" using f by (simp add: list_all_iff)
  ultimately have "node_expr_parser (join_with '','' (map (\<lambda>p. group_text p (nums p)) ps)) =
      concat (map product (map f ps))"
    by (simp only: node_expr_parser_rendered)
  also have "map product (map f ps) =
      map (\<lambda>p. map (\<lambda>n. p @ fmt0 2 (int n)) (sorted_set (nums p))) ps" using f by simp
  finally show ?thesis .
qed

lemma groups_ok:
  assumes "\<forall>g\<in>set parsed. snd g < 100 \<and> plain (fst g)"
  shows "\<forall>p\<in>set (sorted_set (map fst parsed)). map snd (filter (\<lambda>g. fst g = p) parsed) \<noteq> [] \<and> plain p
    \<and> (\<forall>n\<in>set (map snd (filter (\<lambda>g. fst g = p) parsed)). n < 100)"
  using assms by (auto simp: filter_empty_conv)

lemma compress_expand:
  assumes canonical: "list_all canonical_name nodes" and many: "length nodes \<noteq> 1"
  obtains s where "compress_nodes nodes = Inr s" "set (node_expr_parser s) = set nodes"
proof -
  let ?g = "\<lambda>node. the (name_number node)"
  let ?parsed = "map ?g nodes"
  let ?nums = "\<lambda>p. map snd (filter (\<lambda>g. fst g = p) ?parsed)"
  let ?ps = "sorted_set (map fst ?parsed)"
  have node: "name_number v = Some (?g v) \<and> snd (?g v) < 100 \<and> plain (fst (?g v))
      \<and> v = fst (?g v) @ fmt0 2 (int (snd (?g v)))" if "v \<in> set nodes" for v
    using canonical_nameD [of v] canonical that by (auto simp: list_all_iff)
  have parsed: "List.map_filter name_number nodes = ?parsed"
    using node by (intro map_filter_all) blast
  have ok: "\<forall>p\<in>set ?ps. ?nums p \<noteq> [] \<and> plain p \<and> (\<forall>n\<in>set (?nums p). n < 100)"
    using node by (intro groups_ok) auto
  have "set (concat (map (\<lambda>p. map (\<lambda>n. p @ fmt0 2 (int n)) (sorted_set (?nums p))) ?ps)) =
      (\<lambda>v. fst (?g v) @ fmt0 2 (int (snd (?g v)))) ` set nodes"
    by force
  also have "\<dots> = set nodes" using node by force
  finally show ?thesis
    using that [OF _ compressed_groups [OF ok, THEN arg_cong, of set, THEN trans]] many
    by (simp add: compress_nodes_def parsed Let_def)
qed

text \<open>
  Compressing a list of two or more nodes whose trailing number has two digits and expanding
  the result again gives the same set of nodes.
\<close>
theorem compress_expand_roundtrip:
  assumes "list_all canonical_name nodes" "length nodes \<noteq> 1"
  shows "\<exists>s. compress_nodes nodes = Inr s \<and> set (node_expr_parser s) = set nodes"
  using compress_expand [OF assms] by metis

theorem compress_expand_roundtrip_witness:
  "\<exists>s. compress_nodes [''g07r4n03'', ''g07r4n01'', ''a02'', ''g07r4n02''] = Inr s
     \<and> set (node_expr_parser s) = set [''g07r4n03'', ''g07r4n01'', ''a02'', ''g07r4n02'']"
  by (rule compress_expand_roundtrip) (code_simp, simp)

text \<open>
  Outside that form the printed list names other machines: a number with another width is
  reprinted with two digits, and a run that crosses 100 is padded to three by the reader.
\<close>

lemma compress_loses_width:
  "compress_nodes [''n001'', ''n002''] = Inr ''n[01-02]''"
  "node_expr_parser ''n[01-02]'' = [''n01'', ''n02'']"
  "compress_nodes [''n99'', ''n100''] = Inr ''n[99-100]''"
  "node_expr_parser ''n[99-100]'' = [''n099'', ''n100'']"
  "compress_nodes [''login'', ''n01'', ''n02''] = Inr ''n[01-02]''"
  by code_simp+

text \<open>A range without leading zeros is read as a padded one: Slurm's n[9-11] has n9, not n09.\<close>

lemma unpadded_range_is_padded:
  "expand_range ''n[9-11]'' = [''n09'', ''n10'', ''n11'']"
  by code_simp

section \<open>Lines and words\<close>

definition is_line_break :: "char \<Rightarrow> bool" where
  "is_line_break c = (c \<in> {CHR 0x0A, CHR 0x0B, CHR 0x0C, CHR 0x0D, CHR 0x1C, CHR 0x1D, CHR 0x1E})"

text \<open>\<^verbatim>\<open>s.splitlines()\<close> on ASCII text: a carriage return and line feed are one break.\<close>

fun lines_loop :: "string \<Rightarrow> string \<Rightarrow> string list" where
  "lines_loop buf [] = (if buf = [] then [] else [buf])"
| "lines_loop buf (c # s) =
     (if c = CHR 0x0D \<and> s \<noteq> [] \<and> hd s = CHR 0x0A then lines_loop buf s
      else if is_line_break c then buf # lines_loop [] s
      else lines_loop (buf @ [c]) s)"

definition py_splitlines :: "string \<Rightarrow> string list" where
  "py_splitlines s = lines_loop [] s"

text \<open>\<^verbatim>\<open>s.split()\<close>: the maximal runs without white space.\<close>

fun words_loop :: "string \<Rightarrow> string \<Rightarrow> string list" where
  "words_loop buf [] = (if buf = [] then [] else [buf])"
| "words_loop buf (c # s) =
     (if is_ws c then (if buf = [] then words_loop [] s else buf # words_loop [] s)
      else words_loop (buf @ [c]) s)"

definition py_words :: "string \<Rightarrow> string list" where
  "py_words s = words_loop [] s"

lemma words_loop_word:
  "\<forall>c\<in>set w. \<not> is_ws c \<Longrightarrow> words_loop buf (w @ s) = words_loop (buf @ w) s"
  by (induction w arbitrary: buf) auto

definition word_ok :: "string \<Rightarrow> bool" where
  "word_ok w = (w \<noteq> [] \<and> (\<forall>c\<in>set w. \<not> is_ws c))"

lemma py_words_join: "list_all word_ok ws \<Longrightarrow> py_words (join_with '' '' ws) = ws"
proof (induction ws rule: induct_list012)
  case (2 w)
  then show ?case using words_loop_word [of w "[]" "[]"] by (simp add: py_words_def word_ok_def)
next
  case (3 v w ws)
  then show ?case using words_loop_word [of v "[]" "'' '' @ join_with '' '' (w # ws)"]
    by (simp add: py_words_def word_ok_def)
qed (simp add: py_words_def)

section \<open>The drain table of sinfo\<close>

text \<open>One row below the header; the reason may hold spaces, the last four columns do not.\<close>

definition sinfo_row :: "(string \<rightharpoonup> string) \<Rightarrow> string \<Rightarrow> (string \<rightharpoonup> string)" where
  "sinfo_row node_reason_map line =
     (let parts = py_words (py_strip line) in
      if py_strip line = [] \<or> length parts < 5 then node_reason_map
      else let reason = join_with '' '' (take (length parts - 4) parts) in
        foldl (\<lambda>m node. m(node \<mapsto> reason)) node_reason_map (node_expr_parser (last parts)))"

definition parse_sinfo_R :: "string \<Rightarrow> (string \<rightharpoonup> string)" where
  "parse_sinfo_R raw_text =
     (let lines = py_splitlines (py_strip raw_text) in
      if length lines \<le> 1 then (\<lambda>_. None) else foldl sinfo_row (\<lambda>_. None) (tl lines))"

definition match_failed_nodes :: "string \<Rightarrow> string list \<Rightarrow> (string \<rightharpoonup> string)" where
  "match_failed_nodes raw_text check_nodes =
     (let node_reason_map = parse_sinfo_R raw_text in
      foldl (\<lambda>result node. case node_reason_map node of
          None \<Rightarrow> result | Some reason \<Rightarrow> result(node \<mapsto> reason)) (\<lambda>_. None) check_nodes)"

lemma foldl_update_const:
  "foldl (\<lambda>m x. m(x \<mapsto> v)) m xs = (\<lambda>x. if x \<in> set xs then Some v else m x)"
  by (induction xs arbitrary: m) auto

lemma match_fold:
  "foldl (\<lambda>result node. case m node of None \<Rightarrow> result | Some reason \<Rightarrow> result(node \<mapsto> reason)) r ns x =
    (if x \<in> set ns \<and> m x \<noteq> None then m x else r x)"
  by (induction ns arbitrary: r) (auto split: option.splits)

lemma match_failed_nodes_eq:
  "match_failed_nodes raw nodes x = (if x \<in> set nodes then parse_sinfo_R raw x else None)"
  by (simp add: match_failed_nodes_def Let_def match_fold)

text \<open>A rendered row: the words of the reason, user, time, state, and the host expressions.\<close>

definition row_text :: "string list \<Rightarrow> string \<Rightarrow> string \<Rightarrow> string \<Rightarrow> segment list list \<Rightarrow> string" where
  "row_text reason user time state es =
     join_with '' '' (reason @ [user, time, state, join_with '','' (map render es)])"

lemma py_strip_ends:
  assumes "s \<noteq> []" "\<not> is_ws (hd s)" "\<not> is_ws (last s)"
  shows "py_strip s = s"
proof -
  have "dropWhile is_ws s = s" using assms by (cases s) auto
  moreover have "dropWhile is_ws (rev s) = rev s" using assms by (cases s rule: rev_cases) auto
  ultimately show ?thesis by (simp add: py_strip_def)
qed

definition solid :: "string \<Rightarrow> bool" where
  "solid s = (s \<noteq> [] \<and> \<not> is_ws (hd s) \<and> \<not> is_ws (last s))"

lemma solid_join: "list_all solid ws \<Longrightarrow> ws \<noteq> [] \<Longrightarrow> solid (join_with sep ws)"
  by (induction sep ws rule: join_with.induct) (auto simp: solid_def hd_append)

lemma word_solid: "word_ok w \<Longrightarrow> solid w"
  by (simp add: word_ok_def solid_def)

lemma strip_of_words:
  assumes "list_all word_ok ws"
  shows "py_strip (join_with '' '' ws) = join_with '' '' ws"
proof (cases ws)
  case (Cons w vs)
  have "solid (join_with '' '' ws)"
    using assms Cons word_solid by (intro solid_join) (auto simp: list_all_iff)
  then show ?thesis by (intro py_strip_ends) (auto simp: solid_def)
qed (simp add: py_strip_def)

lemma lines_loop_line:
  "\<forall>c\<in>set w. \<not> is_line_break c \<Longrightarrow> lines_loop buf (w @ s) = lines_loop (buf @ w) s"
  by (induction w arbitrary: buf) (auto simp: is_line_break_def)

lemma py_splitlines_join:
  assumes "\<forall>l\<in>set ls. l \<noteq> [] \<and> (\<forall>c\<in>set l. \<not> is_line_break c)"
  shows "py_splitlines (join_with [CHR 0x0A] ls) = ls"
  using assms
proof (induction ls rule: induct_list012)
  case (2 l)
  then show ?case using lines_loop_line [of l "[]" "[]"] by (simp add: py_splitlines_def)
next
  case (3 k l ls)
  then show ?case using lines_loop_line [of k "[]" "CHR 0x0A # join_with [CHR 0x0A] (l # ls)"]
    by (simp add: py_splitlines_def is_line_break_def)
qed (simp add: py_splitlines_def)

lemma word_ok_hosts:
  assumes "list_all expr_ok es" "es \<noteq> []"
  shows "word_ok (join_with '','' (map render es))"
proof -
  have "\<not> is_ws c" if "c \<in> set (join_with '','' (map render es))" for c
  proof (rule ccontr)
    assume "\<not> \<not> is_ws c"
    moreover have "c \<notin> set (render e)" if "e \<in> set es" for e
      using that assms(1) render_chars calculation by (auto simp: list_all_iff expr_ok_def)
    ultimately have "c \<notin> set (join_with '','' (map render es))"
      by (intro join_with_no_char) auto
    with that show False by simp
  qed
  moreover have "join_with '','' (map render es) \<noteq> []"
    using assms by (cases es; cases "tl es") (auto simp: expr_ok_def)
  ultimately show ?thesis by (auto simp: word_ok_def)
qed

lemma sinfo_row_text:
  assumes "list_all word_ok reason" "reason \<noteq> []" "list_all word_ok [user, time, state]"
    "list_all expr_ok es" "es \<noteq> []"
  shows "sinfo_row m (row_text reason user time state es) =
    (\<lambda>x. if x \<in> set (concat (map product es)) then Some (join_with '' '' reason) else m x)"
proof -
  let ?ws = "reason @ [user, time, state, join_with '','' (map render es)]"
  have ws: "list_all word_ok ?ws" using assms word_ok_hosts by simp
  have strip: "py_strip (row_text reason user time state es) = join_with '' '' ?ws"
    unfolding row_text_def by (rule strip_of_words [OF ws])
  have "join_with '' '' ?ws \<noteq> []" using py_words_join [OF ws] by (auto simp: py_words_def)
  then show ?thesis
    using assms by (simp add: sinfo_row_def strip py_words_join [OF ws] Let_def
        foldl_update_const node_expr_parser_rendered)
qed

text \<open>A row of the table as data, its text, and the words it is made of.\<close>

record drain_row =
  row_reason :: "string list"
  row_user :: string
  row_time :: string
  row_state :: string
  row_hosts :: "segment list list"

definition drain_ok :: "drain_row \<Rightarrow> bool" where
  "drain_ok r = (row_reason r \<noteq> [] \<and> row_hosts r \<noteq> [] \<and> list_all expr_ok (row_hosts r)
     \<and> list_all word_ok (row_reason r @ [row_user r, row_time r, row_state r]))"

definition drain_text :: "drain_row \<Rightarrow> string" where
  "drain_text r = row_text (row_reason r) (row_user r) (row_time r) (row_state r) (row_hosts r)"

definition drain_nodes :: "drain_row \<Rightarrow> string list" where
  "drain_nodes r = concat (map product (row_hosts r))"

lemma drain_line:
  assumes "drain_ok r"
  shows "solid (drain_text r) \<and> (\<forall>c\<in>set (drain_text r). \<not> is_line_break c)"
proof -
  let ?ws = "row_reason r @ [row_user r, row_time r, row_state r, join_with '','' (map render (row_hosts r))]"
  have ws: "list_all word_ok ?ws" using assms word_ok_hosts by (auto simp: drain_ok_def)
  then have "solid (join_with '' '' ?ws)"
    using word_solid by (intro solid_join) (auto simp: list_all_iff)
  moreover have "c \<notin> set (join_with '' '' ?ws)" if "is_line_break c" for c
  proof (rule join_with_no_char)
    have "is_ws c" "c \<noteq> CHR '' ''" using that by (auto simp: is_line_break_def is_ws_def)
    then show "\<forall>x\<in>set ?ws. c \<notin> set x" "c \<notin> set '' ''"
      using ws by (auto simp: list_all_iff word_ok_def)
  qed
  ultimately show ?thesis unfolding drain_text_def row_text_def by blast
qed

lemma drain_rows_fold:
  assumes "list_all drain_ok rows"
  shows "foldl sinfo_row m (map drain_text rows) = foldl (\<lambda>m r. \<lambda>x.
    if x \<in> set (drain_nodes r) then Some (join_with '' '' (row_reason r)) else m x) m rows"
  using assms
proof (induction rows arbitrary: m)
  case (Cons r rows)
  then have "sinfo_row m (drain_text r) = (\<lambda>x. if x \<in> set (drain_nodes r)
      then Some (join_with '' '' (row_reason r)) else m x)"
    unfolding drain_text_def drain_nodes_def by (intro sinfo_row_text) (auto simp: drain_ok_def)
  with Cons show ?case by simp
qed simp

lemma parse_sinfo_table:
  assumes "list_all drain_ok rows" "word_ok header"
  shows "parse_sinfo_R (join_with [CHR 0x0A] (header # map drain_text rows)) = foldl (\<lambda>m r. \<lambda>x.
    if x \<in> set (drain_nodes r) then Some (join_with '' '' (row_reason r)) else m x) (\<lambda>_. None) rows"
proof -
  let ?t = "join_with [CHR 0x0A] (header # map drain_text rows)"
  have "list_all solid (header # map drain_text rows)"
    using assms drain_line word_solid by (auto simp: list_all_iff)
  then have "solid ?t" by (rule solid_join) simp
  then have strip: "py_strip ?t = ?t" by (intro py_strip_ends) (auto simp: solid_def)
  have "\<forall>c\<in>set header. \<not> is_line_break c"
    using assms(2) by (auto simp: word_ok_def is_line_break_def is_ws_def)
  then have lines: "py_splitlines ?t = header # map drain_text rows"
    using assms drain_line by (intro py_splitlines_join) (auto simp: list_all_iff solid_def word_ok_def)
  show ?thesis
    using drain_rows_fold [OF assms(1)]
    unfolding parse_sinfo_R_def strip lines Let_def by (cases rows) simp_all
qed

lemma fold_rows_last:
  "foldl (\<lambda>m r. \<lambda>x. if x \<in> N r then Some (v r) else m x) m rows x =
    (case filter (\<lambda>r. x \<in> N r) (rev rows) of [] \<Rightarrow> m x | r # _ \<Rightarrow> Some (v r))"
  by (induction rows arbitrary: m) (auto split: list.splits simp: filter_empty_conv Cons_eq_append_conv)

text \<open>
  From a drain table (a header and rows of a reason, user, time, state and host expressions)
  match_failed_nodes gives every checked node the reason of the last row whose host expressions
  cover it, and gives no reason to any other node.
\<close>
theorem drain_table_matched:
  assumes "list_all drain_ok rows" "word_ok header"
  shows "match_failed_nodes (join_with [CHR 0x0A] (header # map drain_text rows)) nodes node =
    (if node \<notin> set nodes then None
     else case filter (\<lambda>r. node \<in> set (drain_nodes r)) (rev rows) of
         [] \<Rightarrow> None
       | r # _ \<Rightarrow> Some (join_with '' '' (row_reason r)))"
  using fold_rows_last [where N = "\<lambda>r. set (drain_nodes r)" and v = "\<lambda>r. join_with '' '' (row_reason r)"
      and m = "\<lambda>_. None" and rows = rows and x = node]
  by (simp add: match_failed_nodes_eq parse_sinfo_table [OF assms])

theorem drain_table_matched_witness:
  "match_failed_nodes (join_with [CHR 0x0A] [''REASON'', ''disk full root 12:00 drain n[01-02]'']) [''n02''] ''n02''
     = Some ''disk full''"
proof -
  let ?r = "\<lparr>row_reason = [''disk'', ''full''], row_user = ''root'', row_time = ''12:00'',
    row_state = ''drain'', row_hosts = [[Lit ''n'', Range [Span ''01'' ''02'']]]\<rparr>"
  have ok: "list_all drain_ok [?r]"
    by (simp add: drain_ok_def word_ok_def expr_ok_def plain_def digits_def is_digit_def is_ws_def)
  have w: "word_ok ''REASON''" by (simp add: word_ok_def is_ws_def)
  have t: "drain_text ?r = ''disk full root 12:00 drain n[01-02]''"
    by (simp add: drain_text_def row_text_def)
  have n: "drain_nodes ?r = [''n01'', ''n02'']" by code_simp
  show ?thesis using drain_table_matched [OF ok w, of "[''n02'']" "''n02''"] by (simp add: t n)
qed

section \<open>Failed nodes in command output\<close>

definition error_keywords :: "string list" where
  "error_keywords = [''ssh: Could not resolve hostname'', ''Connection closed by'',
     ''Access denied by'', ''Connection reset by'', ''exited with exit code'']"

definition field_char :: "char \<Rightarrow> bool" where
  "field_char c = (\<not> is_ws c \<and> c \<noteq> CHR '':'')"

text \<open>
  \<^verbatim>\<open>[^\s:]+\[[^\]]+\]\<close> at the start of \<open>s\<close>: the greedy run backs off to its last bracket that
  is preceded by a field character and followed by a non-empty text and a closing bracket.
\<close>

fun bracket_field :: "nat \<Rightarrow> string \<Rightarrow> string option" where
  "bracket_field 0 s = None"
| "bracket_field (Suc k) s =
     (if k \<noteq> 0 \<and> drop k s \<noteq> [] \<and> hd (drop k s) = CHR ''['' then
        (case break_at CHR '']'' (drop (Suc k) s) of
           None \<Rightarrow> bracket_field k s
         | Some (inner, _) \<Rightarrow>
             if inner = [] then bracket_field k s
             else Some (take (Suc k) s @ inner @ '']''))
      else bracket_field k s)"

text \<open>\<^verbatim>\<open>[^\s:]+(?=[: ])\<close> at the start of \<open>s\<close>.\<close>

definition plain_field :: "string \<Rightarrow> string option" where
  "plain_field s =
     (let field = takeWhile field_char s; rest = dropWhile field_char s in
      if field \<noteq> [] \<and> rest \<noteq> [] \<and> (hd rest = CHR '':'' \<or> hd rest = CHR '' '') then Some field
      else None)"

definition field_at :: "string \<Rightarrow> string option" where
  "field_at s = (case bracket_field (length (takeWhile field_char s)) s of
      Some f \<Rightarrow> Some f | None \<Rightarrow> plain_field s)"

text \<open>The optional clush prefix is tried first; the search moves right until a match.\<close>

definition field_here :: "string \<Rightarrow> string option" where
  "field_here s =
     (case (if is_prefix_of ''clush:'' s then field_at (dropWhile is_ws (drop 6 s)) else None) of
        Some f \<Rightarrow> Some f | None \<Rightarrow> field_at s)"

fun node_field :: "string \<Rightarrow> string option" where
  "node_field [] = None"
| "node_field (c # s) = (case field_here (c # s) of Some f \<Rightarrow> Some f | None \<Rightarrow> node_field s)"

definition extract_failed_nodes_from_line :: "string \<Rightarrow> string list" where
  "extract_failed_nodes_from_line line =
     (if \<not> list_ex (\<lambda>key. contains_sub key line) error_keywords then []
      else case node_field line of None \<Rightarrow> [] | Some f \<Rightarrow> node_expr_parser f)"

text \<open>The nodes of a whole output, each once, in the order of their first occurrence.\<close>

definition keep_first :: "'a list \<Rightarrow> 'a list" where
  "keep_first xs = rev (remdups (rev xs))"

definition parse_mpi_command_result :: "string \<Rightarrow> string list" where
  "parse_mpi_command_result raw_text =
     keep_first (concat (map extract_failed_nodes_from_line (py_splitlines (py_strip raw_text))))"

lemma parse_mpi_command_result_examples:
  "extract_failed_nodes_from_line ''b11r4n21: ssh: Could not resolve hostname b11r4n21'' = [''b11r4n21'']"
  "extract_failed_nodes_from_line ''clush: b11r4n[20-22] (3): exited with exit code 255'' =
     [''b11r4n20'', ''b11r4n21'', ''b11r4n22'']"
  by code_simp+

text \<open>
  A bracket in the first member of a list ends the match: of the third documented form, a list of
  expressions, only the members up to the first closing bracket that the greedy run reaches are
  read.
\<close>

lemma parse_mpi_command_result_list_forms:
  "extract_failed_nodes_from_line ''clush: b11r4n20,b11r4n[22-23] (2): exited with exit code 255'' =
     [''b11r4n20'', ''b11r4n22'', ''b11r4n23'']"
  "extract_failed_nodes_from_line ''clush: b11r4n[22-23],b11r4n25 (3): exited with exit code 255'' =
     [''b11r4n22'', ''b11r4n23'']"
  by code_simp+

text \<open>
  The status file reader, over the stripped non-empty lines: the nodes of the separator blocks
  and the failed nodes, in that order.
\<close>

fun status_lines :: "string list \<Rightarrow> string list \<times> string list \<Rightarrow> string list \<times> string list" where
  "status_lines [] acc = acc"
| "status_lines (line # rest) (nodes, failed_nodes) =
     (let failed = extract_failed_nodes_from_line line in
      if failed \<noteq> [] then status_lines rest (nodes, failed_nodes @ failed)
      else if is_prefix_of ''---------------'' line \<and> 2 \<le> length rest then
        status_lines rest
          (nodes @ concat (map expand_range
             (split_outside_brackets (py_strip (hd (split_on CHR ''('' (hd rest)))))), failed_nodes)
      else status_lines rest (nodes, failed_nodes))"

definition parse_proc_status_check :: "string list \<Rightarrow> string list \<times> string list" where
  "parse_proc_status_check raw_lines =
     status_lines (filter (\<lambda>l. l \<noteq> []) (map py_strip raw_lines)) ([], [])"

lemma status_lines_failed:
  "snd (status_lines ls (nodes, failed)) = failed @ concat (map extract_failed_nodes_from_line ls)"
  by (induction ls arbitrary: nodes failed) (auto simp: Let_def)

end
