(* ===== verification/StackModel.thy ===== *)
theory StackModel
  imports HostExpr "HOL-Library.Product_Lexorder"
begin

text \<open>
  Data of the stack analyzer (\<^verbatim>\<open>stack_analyzer/models.py\<close>,
  \<^verbatim>\<open>aggregation_result.py\<close>, \<^verbatim>\<open>snapshot_prep.py\<close>): frames, snapshots, parallel
  topologies, the choice of one snapshot per rank and the result of an aggregation.  Sets of
  ranks and machines are HOL sets; where the code lists the members of a set the model lists them
  in increasing order, which no field of the result shows.  Ratios are compared as reals.
\<close>

section \<open>Frames and snapshots\<close>

datatype process_role = TRAINER | DATALOADER | CHECKPOINT | OTHER

datatype aggregation_method = TRIE | SIGNATURE

datatype aggregation_strategy = AUTO | ONLY_TRIE | ONLY_SIGNATURE

record stack_frame =
  function_name :: string
  file_name :: string
  line_no :: int

definition normalized :: "stack_frame \<Rightarrow> string" where
  "normalized f = (if file_name f \<noteq> [] then function_name f @ '' ('' @ file_name f @ '')''
     else function_name f)"

record stack_snapshot =
  machine_id :: string
  snap_rank :: int
  snap_pid :: int
  snap_role :: process_role
  frames :: "stack_frame list"
  raw_text :: string

definition signature_text :: "int \<Rightarrow> stack_snapshot \<Rightarrow> string" where
  "signature_text depth snap = join_with '' | '' (map normalized (py_take depth (frames snap)))"

section \<open>Parallel groups\<close>

record parallel_topology =
  pp_groups :: "int set list"
  tp_groups :: "int set list"
  dp_groups :: "int set list"

datatype group_label = PP | TP | DP

definition labelled_groups :: "parallel_topology \<Rightarrow> (group_label \<times> int set) list" where
  "labelled_groups t = map (Pair PP) (pp_groups t) @ map (Pair TP) (tp_groups t) @ map (Pair DP) (dp_groups t)"

definition groups_for_rank :: "parallel_topology \<Rightarrow> int \<Rightarrow> (group_label \<times> int set) list" where
  "groups_for_rank t r = filter (\<lambda>g. r \<in> snd g) (labelled_groups t)"

fun label_order :: "group_label \<Rightarrow> nat" where
  "label_order PP = 0" | "label_order TP = 1" | "label_order DP = 2"

definition covering :: "int set \<Rightarrow> real \<Rightarrow> int set \<Rightarrow> bool" where
  "covering ranks min_coverage members =
     (ranks \<inter> members \<noteq> {} \<and> min_coverage \<le> real (card (ranks \<inter> members)) / real (card ranks))"

definition tightness :: "group_label \<times> int set \<Rightarrow> nat \<times> nat" where
  "tightness g = (card (snd g), label_order (fst g))"

definition shared_group :: "parallel_topology \<Rightarrow> int set \<Rightarrow> real \<Rightarrow> (group_label \<times> int set) option" where
  "shared_group t ranks min_coverage =
     (if ranks = {} then None
      else case sort_key tightness
          (filter (\<lambda>g. covering ranks min_coverage (snd g)) (labelled_groups t)) of
        [] \<Rightarrow> None
      | g # _ \<Rightarrow> Some g)"

lemma hd_sort_key_least:
  assumes "sort_key f xs = y # ys"
  shows "y \<in> set xs" and "x \<in> set xs \<Longrightarrow> f y \<le> f x"
proof -
  have s: "set (y # ys) = set xs" using assms by (metis set_sort)
  then show "y \<in> set xs" by auto
  have "sorted (map f (y # ys))" using assms by (metis sorted_sort_key)
  then show "x \<in> set xs \<Longrightarrow> f y \<le> f x" using s by auto
qed

lemma shared_group_None:
  "shared_group t ranks c = None \<longleftrightarrow> ranks = {} \<or> (\<forall>g\<in>set (labelled_groups t). \<not> covering ranks c (snd g))"
proof -
  have "sort_key tightness xs = [] \<longleftrightarrow> xs = []" for xs :: "(group_label \<times> int set) list"
    by (metis length_0_conv length_sort)
  then show ?thesis by (auto simp: shared_group_def filter_empty_conv split: list.splits)
qed

lemma shared_group_Some:
  assumes "shared_group t ranks c = Some g"
  shows "g \<in> set (labelled_groups t)" "covering ranks c (snd g)"
    "\<And>h. h \<in> set (labelled_groups t) \<Longrightarrow> covering ranks c (snd h) \<Longrightarrow> tightness g \<le> tightness h"
proof -
  obtain gs where gs: "sort_key tightness
      (filter (\<lambda>g. covering ranks c (snd g)) (labelled_groups t)) = g # gs"
    using assms by (auto simp: shared_group_def split: if_splits list.splits)
  show "g \<in> set (labelled_groups t)" "covering ranks c (snd g)"
    using hd_sort_key_least(1) [OF gs] by auto
  show "tightness g \<le> tightness h" if "h \<in> set (labelled_groups t)" "covering ranks c (snd h)" for h
    using hd_sort_key_least(2) [OF gs, of h] that by auto
qed

text \<open>
  shared_group finds the tightest parallel group that covers the required share of the
  ranks: it returns nothing exactly when the ranks are empty or no group covers them, and
  otherwise a covering group of least size, preferring PP to TP to DP among those of equal size.
\<close>
theorem shared_group_is_tightest:
  "case shared_group t ranks c of
     None \<Rightarrow> ranks = {} \<or> (\<forall>g\<in>set (labelled_groups t). \<not> covering ranks c (snd g))
   | Some g \<Rightarrow> g \<in> set (labelled_groups t) \<and> covering ranks c (snd g)
       \<and> (\<forall>h\<in>set (labelled_groups t). covering ranks c (snd h) \<longrightarrow>
            card (snd g) < card (snd h)
            \<or> card (snd g) = card (snd h) \<and> label_order (fst g) \<le> label_order (fst h))"
proof (cases "shared_group t ranks c")
  case None
  show ?thesis using shared_group_None [THEN iffD1, OF None] unfolding None option.case .
next
  case (Some g)
  then show ?thesis using shared_group_Some [OF Some]
    by (force simp: tightness_def less_eq_prod_def)
qed

theorem shared_group_is_tightest_witness:
  "shared_group \<lparr>pp_groups = [{0, 2}, {1, 3}], tp_groups = [{0, 1}, {2, 3}], dp_groups = []\<rparr> {2, 3} 1
     = Some (TP, {2, 3})"
proof -
  let ?t = "\<lparr>pp_groups = [{0, 2}, {1, 3}], tp_groups = [{0, 1}, {2, 3}], dp_groups = []\<rparr>"
  have c: "covering {2, 3} 1 {2, 3}" by (simp add: covering_def)
  have n: "\<not> covering {2, 3} 1 {0, 2}" "\<not> covering {2, 3} 1 {1, 3}" "\<not> covering {2, 3} 1 {0, 1}"
    by (simp_all add: covering_def)
  show ?thesis using shared_group_is_tightest [where t = ?t and ranks = "{2, 3}" and c = 1] c n
    by (auto simp: labelled_groups_def split: option.splits)
qed

section \<open>Dictionaries\<close>

text \<open>A dictionary entry is replaced in place; a new key goes to the end.\<close>

fun dict_update :: "'k \<Rightarrow> 'v \<Rightarrow> ('k \<times> 'v) list \<Rightarrow> ('k \<times> 'v) list" where
  "dict_update k v [] = [(k, v)]"
| "dict_update k v ((k', v') # d) = (if k' = k then (k, v) # d else (k', v') # dict_update k v d)"

lemma map_of_dict_update: "map_of (dict_update k v d) = (map_of d)(k \<mapsto> v)"
  by (induction d) (auto simp: fun_eq_iff)

lemma keys_dict_update:
  "map fst (dict_update k v d) = (if k \<in> fst ` set d then map fst d else map fst d @ [k])"
  by (induction d) force+

lemma distinct_dict_update: "distinct (map fst d) \<Longrightarrow> distinct (map fst (dict_update k v d))"
  by (simp add: keys_dict_update)

lemma key_set_dict_update [simp]: "fst ` set (dict_update k v d) = insert k (fst ` set d)"
  by (induction d) (simp_all add: insert_commute split: prod.split, force)

lemma dict_update_members: "x \<in> set (dict_update k v d) \<Longrightarrow> x = (k, v) \<or> x \<in> set d"
  by (induction d) (auto split: if_splits)

section \<open>One snapshot per rank\<close>

fun role_priority :: "process_role \<Rightarrow> nat" where
  "role_priority TRAINER = 0" | "role_priority DATALOADER = 1"
| "role_priority CHECKPOINT = 2" | "role_priority OTHER = 3"

definition pick_key :: "process_role \<Rightarrow> stack_snapshot \<Rightarrow> nat \<times> nat \<times> int" where
  "pick_key wanted s =
     (if snap_role s = wanted then 0 else 1, role_priority (snap_role s), - int (length (frames s)))"

text \<open>Python's \<^verbatim>\<open>min(xs, key=f)\<close> and \<^verbatim>\<open>max(xs, key=f)\<close>: the first extreme element.\<close>

fun first_min :: "('a \<Rightarrow> 'b::linorder) \<Rightarrow> 'a \<Rightarrow> 'a list \<Rightarrow> 'a" where
  "first_min f best [] = best"
| "first_min f best (x # xs) = (if f x < f best then first_min f x xs else first_min f best xs)"

fun first_max :: "('a \<Rightarrow> 'b::linorder) \<Rightarrow> 'a \<Rightarrow> 'a list \<Rightarrow> 'a" where
  "first_max f best [] = best"
| "first_max f best (x # xs) = (if f best < f x then first_max f x xs else first_max f best xs)"

lemma first_min_in: "first_min f b xs \<in> insert b (set xs)"
  by (induction xs arbitrary: b) auto

lemma first_min_le: "x \<in> insert b (set xs) \<Longrightarrow> f (first_min f b xs) \<le> f x"
proof (induction xs arbitrary: b x)
  case (Cons y ys)
  show ?case
  proof (cases "f y < f b")
    case True
    then show ?thesis using Cons.IH [of x y] Cons.IH [of y y] Cons.prems by auto
  next
    case False
    then show ?thesis using Cons.IH [of x b] Cons.IH [of b b] Cons.prems by auto
  qed
qed simp

lemma first_max_in: "first_max f b xs \<in> insert b (set xs)"
  by (induction xs arbitrary: b) auto

lemma first_max_ge: "x \<in> insert b (set xs) \<Longrightarrow> f x \<le> f (first_max f b xs)"
proof (induction xs arbitrary: b x)
  case (Cons y ys)
  show ?case
  proof (cases "f b < f y")
    case True
    then show ?thesis using Cons.IH [of x y] Cons.IH [of y y] Cons.prems by auto
  next
    case False
    then show ?thesis using Cons.IH [of x b] Cons.IH [of b b] Cons.prems by auto
  qed
qed simp

definition pick_best :: "process_role \<Rightarrow> stack_snapshot list \<Rightarrow> stack_snapshot" where
  "pick_best wanted snaps = first_min (pick_key wanted) (hd snaps) (tl snaps)"

text \<open>
  Grouping by a key with a dictionary of lists: the keys in order of first occurrence, with the
  elements of each in their order.
\<close>

definition group_by :: "('a \<Rightarrow> 'k) \<Rightarrow> 'a list \<Rightarrow> ('k \<times> 'a list) list" where
  "group_by key xs = map (\<lambda>k. (k, filter (\<lambda>x. key x = k) xs)) (keep_first (map key xs))"

lemma set_keep_first [simp]: "set (keep_first xs) = set xs"
  by (simp add: keep_first_def)

lemma distinct_keep_first [simp]: "distinct (keep_first xs)"
  by (simp add: keep_first_def)

lemma group_by_keys: "map fst (group_by key xs) = keep_first (map key xs)"
  by (simp add: group_by_def comp_def)

lemma group_by_member:
  assumes "(k, g) \<in> set (group_by key xs)"
  shows "g \<noteq> []" "set g = {x \<in> set xs. key x = k}"
  using assms by (auto simp: group_by_def filter_empty_conv)

definition select_primary_snapshots :: "bool \<Rightarrow> process_role \<Rightarrow> stack_snapshot list \<Rightarrow> stack_snapshot list" where
  "select_primary_snapshots one_per_rank wanted snapshots =
     (if \<not> one_per_rank then snapshots
      else let ranked = filter (\<lambda>s. 0 \<le> snap_rank s) snapshots;
               unranked = filter (\<lambda>s. \<not> 0 \<le> snap_rank s) snapshots in
        if ranked \<noteq> [] then map (\<lambda>g. pick_best wanted (snd g)) (group_by snap_rank ranked)
        else map (\<lambda>g. pick_best wanted (snd g)) (group_by machine_id unranked))"

lemma pick_best_in: "g \<noteq> [] \<Longrightarrow> pick_best wanted g \<in> set g"
  using first_min_in [of "pick_key wanted" "hd g" "tl g"] by (cases g) (simp_all add: pick_best_def)

lemma pick_best_least: "x \<in> set g \<Longrightarrow> pick_key wanted (pick_best wanted g) \<le> pick_key wanted x"
  using first_min_le [of x "hd g" "tl g" "pick_key wanted"] by (cases g) (simp_all add: pick_best_def)

lemma select_groups:
  "map key (map (\<lambda>g. pick_best wanted (snd g)) (group_by key xs)) = keep_first (map key xs)"
proof -
  have "key (pick_best wanted (snd g)) = fst g" if "g \<in> set (group_by key xs)" for g
    using group_by_member [of "fst g" "snd g" key xs] pick_best_in [of "snd g" wanted] that by auto
  then have "map key (map (\<lambda>g. pick_best wanted (snd g)) (group_by key xs)) = map fst (group_by key xs)"
    by simp
  then show ?thesis by (simp add: group_by_keys)
qed

lemma select_groups_best:
  assumes "s \<in> set (map (\<lambda>g. pick_best wanted (snd g)) (group_by key xs))"
  shows "s \<in> set xs" "t \<in> set xs \<Longrightarrow> key t = key s \<Longrightarrow> pick_key wanted s \<le> pick_key wanted t"
proof -
  obtain k g where g: "(k, g) \<in> set (group_by key xs)" "s = pick_best wanted g"
    using assms by auto
  note m = group_by_member [OF g(1)]
  have s: "s \<in> set g" using pick_best_in m(1) g(2) by simp
  then show "s \<in> set xs" using m(2) by auto
  show "pick_key wanted s \<le> pick_key wanted t" if "t \<in> set xs" "key t = key s"
    using pick_best_least [of t g wanted] that s m(2) g(2) by auto
qed

text \<open>
  When any process has a rank, snapshot selection keeps exactly one snapshot for every rank
  present and none without a rank, and the one kept is a best one of that rank: the preferred
  role, then the role order, then the deepest stack.
\<close>
theorem selection_keeps_best_per_rank:
  assumes ranked: "\<exists>s\<in>set snapshots. 0 \<le> snap_rank s"
    and chosen: "sel = select_primary_snapshots True wanted snapshots"
  shows "distinct (map snap_rank sel)
    \<and> set (map snap_rank sel) = {r. 0 \<le> r \<and> (\<exists>s\<in>set snapshots. snap_rank s = r)}
    \<and> (\<forall>s\<in>set sel. s \<in> set snapshots
        \<and> (\<forall>t\<in>set snapshots. snap_rank t = snap_rank s \<longrightarrow> pick_key wanted s \<le> pick_key wanted t))"
proof -
  let ?ranked = "filter (\<lambda>s. 0 \<le> snap_rank s) snapshots"
  have sel: "sel = map (\<lambda>g. pick_best wanted (snd g)) (group_by snap_rank ?ranked)"
    using assms by (simp add: select_primary_snapshots_def filter_empty_conv)
  have ranks: "map snap_rank sel = keep_first (map snap_rank ?ranked)"
    unfolding sel by (rule select_groups)
  have "s \<in> set ?ranked \<and> (\<forall>t\<in>set ?ranked. snap_rank t = snap_rank s \<longrightarrow> pick_key wanted s \<le> pick_key wanted t)"
    if "s \<in> set sel" for s
    using select_groups_best [of s wanted snap_rank ?ranked] that unfolding sel by blast
  then have "\<forall>s\<in>set sel. s \<in> set snapshots
      \<and> (\<forall>t\<in>set snapshots. snap_rank t = snap_rank s \<longrightarrow> pick_key wanted s \<le> pick_key wanted t)"
    by auto
  then show ?thesis by (auto simp: ranks)
qed

theorem selection_keeps_best_per_rank_witness:
  "map snap_pid (select_primary_snapshots True TRAINER
     [\<lparr>machine_id = ''a'', snap_rank = 0, snap_pid = 1, snap_role = DATALOADER, frames = [], raw_text = []\<rparr>,
      \<lparr>machine_id = ''a'', snap_rank = 0, snap_pid = 2, snap_role = TRAINER, frames = [], raw_text = []\<rparr>])
   = [2]"
proof -
  let ?s = "[\<lparr>machine_id = ''a'', snap_rank = 0, snap_pid = 1, snap_role = DATALOADER, frames = [], raw_text = []\<rparr>,
      \<lparr>machine_id = ''a'', snap_rank = 0, snap_pid = 2, snap_role = TRAINER, frames = [], raw_text = []\<rparr>]"
  have "distinct (map snap_rank (select_primary_snapshots True TRAINER ?s))"
    using selection_keeps_best_per_rank [OF _ refl, of ?s TRAINER] by simp
  then show ?thesis
    by (simp add: select_primary_snapshots_def group_by_def keep_first_def pick_best_def pick_key_def)
qed

section \<open>The result of an aggregation\<close>

record stack_group =
  group_signature :: string
  group_snapshots :: "stack_snapshot list"

definition group_machines :: "stack_group \<Rightarrow> string set" where
  "group_machines g = machine_id ` set (group_snapshots g)"

definition group_ranks :: "stack_group \<Rightarrow> int set" where
  "group_ranks g = snap_rank ` {s \<in> set (group_snapshots g). 0 \<le> snap_rank s}"

record aggregation_result =
  dominant_signature :: string
  dominant_group :: stack_group
  outlier_groups :: "stack_group list"
  outlier_machines :: "string set"
  outlier_ranks :: "int set"
  isolation_group :: "(group_label \<times> int set) option"
  machines_to_evict :: "string set"
  result_method :: aggregation_method

text \<open>An absent topology or rank map is None; an empty rank map is falsy, like an absent one.\<close>

definition build_aggregation_result ::
    "aggregation_method \<Rightarrow> stack_group \<Rightarrow> stack_group list \<Rightarrow> parallel_topology option \<Rightarrow>
     (int \<times> string) list option \<Rightarrow> real \<Rightarrow> aggregation_result" where
  "build_aggregation_result m dominant outliers topology rank_to_machine min_outlier_coverage =
     (let machines = (\<Union>g\<in>set outliers. group_machines g);
          ranks = (\<Union>g\<in>set outliers. group_ranks g);
          isolation = (case topology of
              None \<Rightarrow> None
            | Some t \<Rightarrow> if ranks = {} then None else shared_group t ranks min_outlier_coverage);
          evict = (case isolation of
              None \<Rightarrow> machines
            | Some g \<Rightarrow> (case rank_to_machine of
                None \<Rightarrow> machines
              | Some [] \<Rightarrow> machines
              | Some rm \<Rightarrow> (\<lambda>r. the (map_of rm r)) ` {r \<in> snd g. map_of rm r \<noteq> None}))
      in \<lparr>dominant_signature = group_signature dominant, dominant_group = dominant,
          outlier_groups = outliers, outlier_machines = machines, outlier_ranks = ranks,
          isolation_group = isolation, machines_to_evict = evict, result_method = m\<rparr>)"

end
