(* ===== verification/StackTrie.thy ===== *)
theory StackTrie
  imports StackModel
begin

text \<open>
  The stack trie of \<^verbatim>\<open>stack_analyzer/stack_trie.py\<close> with the ranks recorded at its
  nodes, and its abstraction: the map from a stack (cut at the first link-time-optimised frame)
  to the ranks whose stack it is.
\<close>

section \<open>The trie\<close>

datatype trie_node =
  TrieNode (children: "(string \<times> trie_node) list") (is_end_of_stack: bool)
    (node_ranks: "int set") (end_ranks: "int set")

definition new_node :: trie_node where
  "new_node = TrieNode [] False {} {}"

definition add_rank :: "int \<Rightarrow> trie_node \<Rightarrow> trie_node" where
  "add_rank rank node = TrieNode (children node) (is_end_of_stack node) (insert rank (node_ranks node)) (end_ranks node)"

definition mark_end :: "int \<Rightarrow> trie_node \<Rightarrow> trie_node" where
  "mark_end rank node = TrieNode (children node) True (node_ranks node) (insert rank (end_ranks node))"

definition lto_frame :: "string \<Rightarrow> bool" where
  "lto_frame word = contains_sub ''lto_priv'' word"

fun trie_insert :: "string list \<Rightarrow> int \<Rightarrow> trie_node \<Rightarrow> trie_node" where
  "trie_insert [] rank node = mark_end rank node"
| "trie_insert (word # rest) rank node =
     (if lto_frame word then mark_end rank node
      else let child = (case map_of (children node) word of None \<Rightarrow> new_node | Some c \<Rightarrow> c) in
        TrieNode (dict_update word (trie_insert rest rank (add_rank rank child)) (children node))
          (is_end_of_stack node) (node_ranks node) (end_ranks node))"

text \<open>The leaves in the order of the depth-first walk.\<close>

function trie_walk :: "trie_node \<Rightarrow> string list \<Rightarrow> (string list \<times> int set) list" where
  "trie_walk node path =
     (if is_end_of_stack node \<and> end_ranks node \<noteq> {} then [(path, end_ranks node)] else []) @
     concat (map (\<lambda>(word, child). trie_walk child (path @ [word])) (children node))"
  by pat_completeness auto

lemma child_size: "(w, c) \<in> set (children t) \<Longrightarrow> size c < size t"
proof (cases t)
  case (TrieNode cs e r er)
  assume "(w, c) \<in> set (children t)"
  then have "(w, c) \<in> set cs" using TrieNode by simp
  then have "size c < size_list (size_prod (\<lambda>_. 0) size) cs"
    by (induction cs) auto
  then show ?thesis using TrieNode by simp
qed

termination trie_walk
  by (relation "measure (\<lambda>(t, p). size t)") (auto dest: child_size)

declare trie_walk.simps [simp del]

record leaf_cluster =
  leaf_signature :: string
  leaf_ranks :: "int set"

definition leaf_clusters :: "trie_node \<Rightarrow> leaf_cluster list" where
  "leaf_clusters trie = map (\<lambda>(path, ranks). \<lparr>leaf_signature = join_with '' | '' path, leaf_ranks = ranks\<rparr>)
     (trie_walk trie [])"

section \<open>The abstraction: ranks by stack\<close>

definition stack_path :: "string list \<Rightarrow> string list" where
  "stack_path fs = takeWhile (\<lambda>w. \<not> lto_frame w) fs"

fun ranks_at :: "trie_node \<Rightarrow> string list \<Rightarrow> int set" where
  "ranks_at node [] = end_ranks node"
| "ranks_at node (w # ws) = (case map_of (children node) w of None \<Rightarrow> {} | Some c \<Rightarrow> ranks_at c ws)"

lemma ranks_at_new [simp]: "ranks_at new_node p = {}"
  by (cases p) (simp_all add: new_node_def)

lemma ranks_at_add_rank [simp]: "ranks_at (add_rank r t) p = ranks_at t p"
  by (cases p) (simp_all add: add_rank_def)

lemma ranks_at_mark_end [simp]:
  "ranks_at (mark_end r t) p = (if p = [] then insert r (ranks_at t []) else ranks_at t p)"
  by (cases p) (simp_all add: mark_end_def)

lemma ranks_at_insert:
  "ranks_at (trie_insert fs rank t) =
     (ranks_at t)(stack_path fs := insert rank (ranks_at t (stack_path fs)))"
proof (induction fs rank t rule: trie_insert.induct)
  case (1 rank node)
  show ?case by (rule ext) (simp add: stack_path_def)
next
  case (2 word rest rank node)
  show ?case
  proof (cases "lto_frame word")
    case True
    then show ?thesis by (intro ext) (simp add: stack_path_def)
  next
    case False
    let ?c = "case map_of (children node) word of None \<Rightarrow> new_node | Some c \<Rightarrow> c"
    have IH: "ranks_at (trie_insert rest rank (add_rank rank ?c)) =
        (ranks_at ?c)(stack_path rest := insert rank (ranks_at ?c (stack_path rest)))"
      using "2.IH" [OF False refl] by (simp add: fun_eq_iff)
    have c: "ranks_at ?c ws = ranks_at node (word # ws)" for ws
      by (simp split: option.split)
    have path: "stack_path (word # rest) = word # stack_path rest"
      using False by (simp add: stack_path_def)
    show ?thesis
    proof (rule ext)
      fix p
      show "ranks_at (trie_insert (word # rest) rank node) p =
          ((ranks_at node)(stack_path (word # rest) := insert rank (ranks_at node (stack_path (word # rest))))) p"
      proof (cases p)
        case Nil
        then show ?thesis using False by (simp add: path Let_def)
      next
        case (Cons w ws)
        show ?thesis
        proof (cases "w = word")
          case True
          have "ranks_at (trie_insert (word # rest) rank node) (word # ws) =
              ranks_at (trie_insert rest rank (add_rank rank ?c)) ws"
            using False by (simp add: Let_def map_of_dict_update)
          then show ?thesis using Cons True by (simp only: IH path c fun_upd_apply list.inject simp_thms)
        next
          case other: False
          then show ?thesis using False Cons by (simp add: path Let_def map_of_dict_update)
        qed
      qed
    qed
  qed
qed

section \<open>The invariant\<close>

text \<open>
  Every dictionary has distinct keys, a node is an end exactly when some rank ends there, and a
  node below the root records exactly the ranks whose stack passes through it.
\<close>

inductive trie_ok :: "trie_node \<Rightarrow> bool" where
  "distinct (map fst cs) \<Longrightarrow> (e \<longleftrightarrow> er \<noteq> {}) \<Longrightarrow>
   (\<And>w c. (w, c) \<in> set cs \<Longrightarrow> trie_ok c \<and> node_ranks c = (\<Union>p. ranks_at c p)) \<Longrightarrow>
   trie_ok (TrieNode cs e r er)"

inductive_cases trie_ok_nodeE: "trie_ok (TrieNode cs e r er)"

lemma trie_okD:
  assumes "trie_ok t"
  shows "distinct (map fst (children t))" "is_end_of_stack t \<longleftrightarrow> end_ranks t \<noteq> {}"
    "\<And>w c. (w, c) \<in> set (children t) \<Longrightarrow> trie_ok c \<and> node_ranks c = (\<Union>p. ranks_at c p)"
  using assms by (cases t; auto elim: trie_ok_nodeE)+

lemma trie_okI:
  assumes "distinct (map fst (children t))" "is_end_of_stack t \<longleftrightarrow> end_ranks t \<noteq> {}"
    "\<And>w c. (w, c) \<in> set (children t) \<Longrightarrow> trie_ok c \<and> node_ranks c = (\<Union>p. ranks_at c p)"
  shows "trie_ok t"
proof -
  obtain cs e r er where t: "t = TrieNode cs e r er" by (cases t)
  show ?thesis unfolding t by (rule trie_ok.intros) (use assms t in simp_all)
qed

lemma trie_ok_new [simp]: "trie_ok new_node"
  by (rule trie_okI) (simp_all add: new_node_def)

lemma trie_ok_mark_end: "trie_ok t \<Longrightarrow> trie_ok (mark_end r t)"
  by (rule trie_okI) (auto simp: mark_end_def dest: trie_okD)

lemma trie_ok_add_rank: "trie_ok (add_rank r t) \<longleftrightarrow> trie_ok t"
  by (cases t) (auto simp: add_rank_def intro!: trie_ok.intros elim!: trie_ok_nodeE)

lemma set_dict_update:
  "distinct (map fst d) \<Longrightarrow> (w, x) \<in> set (dict_update k v d) \<Longrightarrow> w = k \<and> x = v \<or> w \<noteq> k \<and> (w, x) \<in> set d"
  by (induction d) (auto split: if_splits, force)

lemma node_ranks_insert [simp]: "node_ranks (trie_insert fs r t) = node_ranks t"
  by (cases fs) (simp_all add: mark_end_def Let_def)

lemma Union_insert_at: "(\<Union>p. (f(q := insert r (f q))) p) = insert r (\<Union>p. f p)"
  by (auto split: if_splits)

lemma Union_ranks_insert: "(\<Union>p. ranks_at (trie_insert fs r t) p) = insert r (\<Union>p. ranks_at t p)"
  unfolding ranks_at_insert by (rule Union_insert_at)

lemma node_ranks_add_rank [simp]: "node_ranks (add_rank r t) = insert r (node_ranks t)"
  by (simp add: add_rank_def)

lemma trie_ok_insert: "trie_ok t \<Longrightarrow> trie_ok (trie_insert fs rank t)"
proof (induction fs rank t rule: trie_insert.induct)
  case (1 rank node)
  then show ?case by (simp add: trie_ok_mark_end)
next
  case (2 word rest rank node)
  show ?case
  proof (cases "lto_frame word")
    case True
    then show ?thesis using 2 by (simp add: trie_ok_mark_end)
  next
    case False
    let ?c = "case map_of (children node) word of None \<Rightarrow> new_node | Some c \<Rightarrow> c"
    let ?new = "trie_insert rest rank (add_rank rank ?c)"
    note ok = trie_okD [OF "2.prems"]
    have c: "trie_ok ?c \<and> node_ranks ?c = (\<Union>p. ranks_at ?c p)"
    proof (cases "map_of (children node) word")
      case None
      then show ?thesis by (simp add: new_node_def [symmetric]) (simp add: new_node_def)
    next
      case (Some d)
      then show ?thesis using ok(3) [OF map_of_SomeD [OF Some]] by simp
    qed
    have "trie_ok ?new" using "2.IH" [OF False refl] c by (simp add: trie_ok_add_rank)
    moreover have "node_ranks ?new = (\<Union>p. ranks_at ?new p)"
      unfolding Union_ranks_insert node_ranks_insert node_ranks_add_rank using c by simp
    ultimately have new: "trie_ok ?new \<and> node_ranks ?new = (\<Union>p. ranks_at ?new p)" by blast
    have eq: "trie_insert (word # rest) rank node = TrieNode (dict_update word ?new (children node))
        (is_end_of_stack node) (node_ranks node) (end_ranks node)"
      using False by (simp add: Let_def)
    show ?thesis
    proof (rule trie_okI)
      show "distinct (map fst (children (trie_insert (word # rest) rank node)))"
        unfolding eq using ok(1) by (simp add: distinct_dict_update)
      show "is_end_of_stack (trie_insert (word # rest) rank node) \<longleftrightarrow>
          end_ranks (trie_insert (word # rest) rank node) \<noteq> {}"
        unfolding eq using ok(2) by simp
      fix w d assume "(w, d) \<in> set (children (trie_insert (word # rest) rank node))"
      then have "w = word \<and> d = ?new \<or> (w, d) \<in> set (children node)"
        unfolding eq using set_dict_update [OF ok(1)] by auto
      then show "trie_ok d \<and> node_ranks d = (\<Union>p. ranks_at d p)"
        using new ok(3) by blast
    qed
  qed
qed

section \<open>The walk lists the abstraction\<close>

lemma trie_walk_set:
  assumes "trie_ok t"
  shows "(q, R) \<in> set (trie_walk t path) \<longleftrightarrow> (\<exists>p. q = path @ p \<and> R = ranks_at t p \<and> R \<noteq> {})"
  using assms
proof (induction t path arbitrary: q R rule: trie_walk.induct)
  case (1 node path)
  note ok = trie_okD [OF "1.prems"]
  have kid: "map_of (children node) w = Some c \<longleftrightarrow> (w, c) \<in> set (children node)" for w c
    using ok(1) by (metis map_of_eq_Some_iff)
  have IH: "(q, R) \<in> set (trie_walk c (path @ [w])) \<longleftrightarrow>
      (\<exists>p. q = path @ w # p \<and> R = ranks_at c p \<and> R \<noteq> {})" if "(w, c) \<in> set (children node)" for w c q R
    using "1.IH" [OF that refl] ok(3) [OF that] by simp
  have "(q, R) \<in> set (trie_walk node path) \<longleftrightarrow>
      (q = path \<and> R = end_ranks node \<and> R \<noteq> {}) \<or>
      (\<exists>(w, c)\<in>set (children node). \<exists>p. q = path @ w # p \<and> R = ranks_at c p \<and> R \<noteq> {})"
    using ok(2) IH by (subst trie_walk.simps) fastforce
  also have "\<dots> \<longleftrightarrow> (q = path \<and> R = ranks_at node [] \<and> R \<noteq> {}) \<or>
      (\<exists>w p. q = path @ w # p \<and> R = ranks_at node (w # p) \<and> R \<noteq> {})"
    using kid by (fastforce split: option.splits)
  also have "\<dots> \<longleftrightarrow> (\<exists>p. q = path @ p \<and> R = ranks_at node p \<and> R \<noteq> {})"
    by (metis append_Nil2 list.exhaust)
  finally show ?case .
qed

lemma distinct_concat_tagged:
  assumes "distinct (map fst cs)" "\<And>w c. (w, c) \<in> set cs \<Longrightarrow> distinct (f w c)"
    "\<And>w c q. (w, c) \<in> set cs \<Longrightarrow> q \<in> set (f w c) \<Longrightarrow> tag q = w"
  shows "distinct (concat (map (\<lambda>(w, c). f w c) cs))"
  using assms
proof (induction cs)
  case (Cons a cs)
  obtain w c where a: "a = (w, c)" by (cases a)
  have w: "w \<notin> fst ` set cs" using Cons.prems(1) a by simp
  have d: "distinct (f w c)" and t: "\<And>q. q \<in> set (f w c) \<Longrightarrow> tag q = w"
    using Cons.prems(2,3) [of w c] a by auto
  have rest: "tag q \<in> fst ` set cs" if q: "q \<in> set (concat (map (\<lambda>(w, c). f w c) cs))" for q
  proof -
    obtain w' c' where "(w', c') \<in> set cs" "q \<in> set (f w' c')" using q by auto
    then show ?thesis using Cons.prems(3) [of w' c' q] by force
  qed
  have "distinct (concat (map (\<lambda>(w, c). f w c) cs))"
  proof (rule Cons.IH)
    show "distinct (map fst cs)" using Cons.prems(1) by simp
    show "distinct (f w c)" if "(w, c) \<in> set cs" for w c using that Cons.prems(2) by simp
    show "tag q = w" if "(w, c) \<in> set cs" "q \<in> set (f w c)" for w c q
      using that(1) by (intro Cons.prems(3) [OF _ that(2)]) simp
  qed
  moreover have "set (f w c) \<inter> set (concat (map (\<lambda>(w, c). f w c) cs)) = {}"
  proof (rule equals0I)
    fix q assume "q \<in> set (f w c) \<inter> set (concat (map (\<lambda>(w, c). f w c) cs))"
    then have "q \<in> set (f w c)" "q \<in> set (concat (map (\<lambda>(w, c). f w c) cs))" by (rule IntD1, rule IntD2)
    then show False using t [of q] rest [of q] w by metis
  qed
  ultimately show ?case using d a by simp
qed simp

lemma trie_walk_distinct:
  assumes "trie_ok t"
  shows "distinct (map fst (trie_walk t path))"
  using assms
proof (induction t path rule: trie_walk.induct)
  case (1 node path)
  note ok = trie_okD [OF "1.prems"]
  have pre: "\<exists>p. q = path @ w # p" if "(w, c) \<in> set (children node)" "q \<in> set (map fst (trie_walk c (path @ [w])))"
    for w c q
    using that trie_walk_set [of c] ok(3) [OF that(1)] by fastforce
  let ?f = "\<lambda>w c. map fst (trie_walk c (path @ [w]))"
  have d: "distinct (concat (map (\<lambda>(w, c). ?f w c) (children node)))"
  proof (rule distinct_concat_tagged [where tag = "\<lambda>q. q ! length path"])
    show "distinct (map fst (children node))" by (rule ok(1))
    show "distinct (?f w c)" if "(w, c) \<in> set (children node)" for w c
      using "1.IH" [OF that refl] ok(3) [OF that] by simp
    show "q ! length path = w" if "(w, c) \<in> set (children node)" "q \<in> set (?f w c)" for w c q
      using pre [OF that] by auto
  qed
  have "path \<notin> set (concat (map (\<lambda>(w, c). ?f w c) (children node)))"
    using pre by fastforce
  with d show ?case
    by (subst trie_walk.simps) (auto simp: map_concat comp_def case_prod_unfold)
qed

section \<open>The trie of a list of snapshots\<close>

definition frame_key :: "stack_frame \<Rightarrow> string" where
  "frame_key f = (if file_name f \<noteq> [] then function_name f @ ''@'' @ file_name f else function_name f)"

definition insert_snapshot :: "trie_node \<Rightarrow> stack_snapshot \<Rightarrow> trie_node" where
  "insert_snapshot trie snap =
     (if snap_rank snap < 0 then trie
      else let keys = map frame_key (frames snap) in
        if keys \<noteq> [] then trie_insert keys (snap_rank snap) trie else trie)"

definition build_trie :: "stack_snapshot list \<Rightarrow> trie_node" where
  "build_trie snapshots = foldl insert_snapshot new_node snapshots"

text \<open>The specification: which ranks have a given stack.\<close>

definition snap_path :: "stack_snapshot \<Rightarrow> string list" where
  "snap_path snap = stack_path (map frame_key (frames snap))"

definition counted :: "stack_snapshot \<Rightarrow> bool" where
  "counted snap = (0 \<le> snap_rank snap \<and> frames snap \<noteq> [])"

definition stack_ranks :: "stack_snapshot list \<Rightarrow> string list \<Rightarrow> int set" where
  "stack_ranks snapshots p = snap_rank ` {s \<in> set snapshots. counted s \<and> snap_path s = p}"

lemma insert_snapshot_ranks:
  "ranks_at (insert_snapshot t s) p =
    (if counted s \<and> snap_path s = p then insert (snap_rank s) (ranks_at t p) else ranks_at t p)"
  by (auto simp: insert_snapshot_def counted_def snap_path_def ranks_at_insert Let_def)

lemma insert_snapshot_ok: "trie_ok t \<Longrightarrow> trie_ok (insert_snapshot t s)"
  by (simp add: insert_snapshot_def Let_def trie_ok_insert)

lemma fold_snapshots_ranks:
  "ranks_at (foldl insert_snapshot t snaps) p = ranks_at t p \<union> stack_ranks snaps p"
  by (induction snaps arbitrary: t) (auto simp: stack_ranks_def insert_snapshot_ranks)

lemma fold_snapshots_ok: "trie_ok t \<Longrightarrow> trie_ok (foldl insert_snapshot t snaps)"
  by (induction snaps arbitrary: t) (auto simp: insert_snapshot_ok)

lemma build_trie_ok: "trie_ok (build_trie snaps)"
  by (simp add: build_trie_def fold_snapshots_ok)

lemma build_trie_ranks: "ranks_at (build_trie snaps) p = stack_ranks snaps p"
  by (simp add: build_trie_def fold_snapshots_ranks)

lemma set_leaf_clusters:
  "c \<in> set (leaf_clusters (build_trie snaps)) \<longleftrightarrow>
    (\<exists>p. leaf_signature c = join_with '' | '' p \<and> leaf_ranks c = stack_ranks snaps p \<and> stack_ranks snaps p \<noteq> {})"
proof -
  have "c \<in> set (leaf_clusters (build_trie snaps)) \<longleftrightarrow>
      (\<exists>p. c = \<lparr>leaf_signature = join_with '' | '' p, leaf_ranks = stack_ranks snaps p\<rparr> \<and> stack_ranks snaps p \<noteq> {})"
    unfolding leaf_clusters_def set_map
    by (force simp: trie_walk_set [OF build_trie_ok] build_trie_ranks)
  then show ?thesis by (cases c) simp
qed

text \<open>
  C8: The trie of any list of snapshots implements the map from stacks to ranks: its dictionaries
  are well formed, every node below the root records exactly the ranks passing through it, and
  the walk lists every stack that some rank has exactly once, with exactly the ranks that have it.
\<close>
theorem trie_implements_stack_map:
  "trie_ok (build_trie snapshots)
   \<and> distinct (map fst (trie_walk (build_trie snapshots) []))
   \<and> set (trie_walk (build_trie snapshots) []) =
       {(p, stack_ranks snapshots p) | p. stack_ranks snapshots p \<noteq> {}}"
  using trie_walk_set [OF build_trie_ok, of _ _ snapshots "[]"]
  by (auto simp: build_trie_ok trie_walk_distinct build_trie_ranks)

end
