(* ===== verification/StackAnalysis.thy ===== *)
theory StackAnalysis
  imports StackTrie "HOL-Library.Multiset"
begin

text \<open>
  The two clustering back ends (\<^verbatim>\<open>trie_aggregator.py\<close>, \<^verbatim>\<open>aggregator.py\<close>) and the
  analyzer that chooses between them (\<^verbatim>\<open>runtime_analyzer.py\<close>).
\<close>

section \<open>Clustering by the trie\<close>

record trie_config =
  min_dominant_ratio :: real
  trie_outlier_coverage :: real

type_synonym rank_map = "(int \<times> string) list option"

definition placeholder_snapshot :: "rank_map \<Rightarrow> int \<Rightarrow> stack_snapshot" where
  "placeholder_snapshot rank_to_machine rank =
     (let default = ''rank-'' @ show_int rank;
          mach = (case rank_to_machine of
            None \<Rightarrow> default
          | Some rm \<Rightarrow> (case map_of rm rank of None \<Rightarrow> default | Some m \<Rightarrow> m))
      in \<lparr>machine_id = mach, snap_rank = rank, snap_pid = 0, snap_role = TRAINER,
          frames = [\<lparr>function_name = ''?'', file_name = [], line_no = 0\<rparr>], raw_text = []\<rparr>)"

text \<open>The dictionary from ranks to snapshots: the last snapshot of a rank stays.\<close>

definition by_rank :: "stack_snapshot list \<Rightarrow> int \<Rightarrow> stack_snapshot option" where
  "by_rank snapshots = map_of (rev (map (\<lambda>s. (snap_rank s, s)) snapshots))"

definition snapshot_of :: "(int \<Rightarrow> stack_snapshot option) \<Rightarrow> rank_map \<Rightarrow> int \<Rightarrow> stack_snapshot" where
  "snapshot_of br rank_to_machine r = (case br r of
      Some s \<Rightarrow> s | None \<Rightarrow> placeholder_snapshot rank_to_machine r)"

definition outlier_leaf_groups ::
    "leaf_cluster list \<Rightarrow> int set \<Rightarrow> (int \<Rightarrow> stack_snapshot option) \<Rightarrow> rank_map \<Rightarrow> stack_group list" where
  "outlier_leaf_groups clusters dominant_ranks br rank_to_machine =
     map (\<lambda>leaf. \<lparr>group_signature = leaf_signature leaf,
         group_snapshots = map (snapshot_of br rank_to_machine)
           (sorted_list_of_set (leaf_ranks leaf - dominant_ranks))\<rparr>)
       (filter (\<lambda>leaf. \<not> leaf_ranks leaf \<subseteq> dominant_ranks) clusters)"

definition result_from_trie ::
    "trie_config \<Rightarrow> trie_node \<Rightarrow> int set \<Rightarrow> (int \<Rightarrow> stack_snapshot option) \<Rightarrow>
     parallel_topology option \<Rightarrow> rank_map \<Rightarrow> aggregation_result option" where
  "result_from_trie cfg trie all_ranks br topology rank_to_machine =
     (case leaf_clusters trie of
        [] \<Rightarrow> None
      | c # cs \<Rightarrow>
        let dominant_leaf = first_max (\<lambda>c. card (leaf_ranks c)) c cs;
            dominant_ranks = leaf_ranks dominant_leaf;
            others = all_ranks - dominant_ranks in
        if real (card dominant_ranks) < real (card all_ranks) * min_dominant_ratio cfg then None
        else if others = {} then None
        else
          let known = filter (\<lambda>r. br r \<noteq> None) (sorted_list_of_set dominant_ranks);
              dominant_snaps = (if known \<noteq> [] then map (\<lambda>r. the (br r)) known
                else map (placeholder_snapshot rank_to_machine) (sorted_list_of_set dominant_ranks));
              dominant = \<lparr>group_signature = leaf_signature dominant_leaf, group_snapshots = dominant_snaps\<rparr>;
              leaves = outlier_leaf_groups (c # cs) dominant_ranks br rank_to_machine;
              outliers = (if leaves \<noteq> [] then leaves
                else [\<lparr>group_signature = ''trie-outlier'',
                       group_snapshots = map (snapshot_of br rank_to_machine) (sorted_list_of_set others)\<rparr>])
          in Some (build_aggregation_result TRIE dominant outliers topology rank_to_machine
               (trie_outlier_coverage cfg)))"

definition ranked_set :: "stack_snapshot list \<Rightarrow> int set" where
  "ranked_set snapshots = snap_rank ` {s \<in> set snapshots. 0 \<le> snap_rank s}"

definition aggregate_snapshots ::
    "trie_config \<Rightarrow> stack_snapshot list \<Rightarrow> parallel_topology option \<Rightarrow> rank_map \<Rightarrow> aggregation_result option" where
  "aggregate_snapshots cfg snapshots topology rank_to_machine =
     (if snapshots = [] \<or> ranked_set snapshots = {} then None
      else result_from_trie cfg (build_trie snapshots) (ranked_set snapshots) (by_rank snapshots)
        topology rank_to_machine)"

definition is_confident :: "trie_config \<Rightarrow> aggregation_result \<Rightarrow> bool" where
  "is_confident cfg result =
     (let total_ranks = card (group_ranks (dominant_group result)) + card (outlier_ranks result) in
      total_ranks \<noteq> 0
      \<and> min_dominant_ratio cfg \<le> real (card (group_ranks (dominant_group result))) / real total_ranks
      \<and> outlier_ranks result \<noteq> {})"

section \<open>Clustering by signature\<close>

record signature_config =
  signature_depth :: int
  fuzzy_match :: bool
  sig_outlier_coverage :: real

definition fuzzy_key :: "int \<Rightarrow> stack_snapshot \<Rightarrow> string" where
  "fuzzy_key depth snap = join_with '' | '' (map function_name (py_take depth (frames snap)))"

definition cluster :: "signature_config \<Rightarrow> stack_snapshot list \<Rightarrow> stack_group list" where
  "cluster cfg snapshots =
     (let d = signature_depth cfg in
      if \<not> fuzzy_match cfg then
        map (\<lambda>(sig, items). \<lparr>group_signature = sig, group_snapshots = items\<rparr>)
          (group_by (signature_text d) snapshots)
      else
        map (\<lambda>(key, items).
            \<lparr>group_signature = signature_text d
                (first_max (\<lambda>s. length (signature_text d s)) (hd items) (tl items)),
             group_snapshots = items\<rparr>)
          (group_by (fuzzy_key d) snapshots))"

definition aggregate ::
    "signature_config \<Rightarrow> stack_snapshot list \<Rightarrow> parallel_topology option \<Rightarrow> rank_map \<Rightarrow>
     py_exn + aggregation_result" where
  "aggregate cfg snapshots topology rank_to_machine =
     (case cluster cfg snapshots of
        [] \<Rightarrow> Inl ValueError
      | g # gs \<Rightarrow>
        let dominant = first_max (\<lambda>g. length (group_snapshots g)) g gs;
            outliers = filter (\<lambda>g. group_signature g \<noteq> group_signature dominant) (g # gs)
        in Inr (build_aggregation_result SIGNATURE dominant outliers topology rank_to_machine
             (sig_outlier_coverage cfg)))"

text \<open>The hang patterns, in the order of the counter.\<close>

definition hang_patterns :: "(string \<times> string list) list" where
  "hang_patterns =
     [(''backward_collective_hang'', [''all_gather_into_tensor'', ''all_gather'', ''reduce_scatter'', ''broadcast'']),
      (''p2p_gradient_hang'', [''isend'', ''irecv'', ''batch_isend_irecv'']),
      (''optimizer_sync'', [''step'', ''optimizer'', ''allreduce'', ''distributed'']),
      (''dataloader_block'', [''dataloader'', ''fetch'']),
      (''checkpoint_io'', [''checkpoint'', ''save''])]"

definition diagnose_hang_pattern :: "aggregation_result \<Rightarrow> string list" where
  "diagnose_hang_pattern result =
     (let hay = py_lower (join_with '' ''
          (dominant_signature result # map group_signature (outlier_groups result)))
      in map fst (filter (\<lambda>(name, tokens). list_ex (\<lambda>t. contains_sub t hay) tokens) hang_patterns))"

section \<open>The analyzer\<close>

record analyzer =
  strategy :: aggregation_strategy
  one_stack_per_rank :: bool
  trie_aggregator :: trie_config
  signature_aggregator :: signature_config

definition analyze ::
    "analyzer \<Rightarrow> stack_snapshot list \<Rightarrow> parallel_topology option \<Rightarrow> rank_map \<Rightarrow> py_exn + aggregation_result" where
  "analyze a snapshots topology rank_to_machine =
     (let fallback = aggregate (signature_aggregator a) snapshots topology rank_to_machine in
      if strategy a \<in> {AUTO, ONLY_TRIE} then
        (case aggregate_snapshots (trie_aggregator a) snapshots topology rank_to_machine of
           None \<Rightarrow> fallback
         | Some result \<Rightarrow>
             if strategy a = ONLY_TRIE \<or> is_confident (trie_aggregator a) result then Inr result
             else fallback)
      else fallback)"

definition locate_abnormal_nodes ::
    "analyzer \<Rightarrow> stack_snapshot list \<Rightarrow> parallel_topology option \<Rightarrow> rank_map \<Rightarrow> py_exn + aggregation_result" where
  "locate_abnormal_nodes a snapshots topology rank_to_machine =
     (let prepared = select_primary_snapshots (one_stack_per_rank a) TRAINER snapshots in
      if list_ex (\<lambda>s. frames s = []) prepared then Inl RuntimeError
      else analyze a prepared topology rank_to_machine)"

section \<open>What the trie decides\<close>

lemma by_rank_Some: "by_rank snaps r = Some s \<Longrightarrow> s \<in> set snaps \<and> snap_rank s = r"
  by (auto simp: by_rank_def dest!: map_of_SomeD)

lemma by_rank_domain: "by_rank snaps r \<noteq> None \<longleftrightarrow> r \<in> snap_rank ` set snaps"
  by (force simp: by_rank_def map_of_eq_None_iff)

lemma snapshot_of_rank [simp]: "snap_rank (snapshot_of (by_rank snaps) rm r) = r"
  by (auto simp: snapshot_of_def placeholder_snapshot_def Let_def split: option.split dest: by_rank_Some)

lemma stack_ranks_subset: "stack_ranks snaps p \<subseteq> ranked_set snaps"
  by (auto simp: stack_ranks_def ranked_set_def counted_def)

lemma finite_stack_ranks [simp]: "finite (stack_ranks snaps p)"
  by (simp add: stack_ranks_def)

lemma finite_ranked_set [simp]: "finite (ranked_set snaps)"
  by (simp add: ranked_set_def)

lemma Union_stack_ranks:
  assumes "\<forall>s\<in>set snaps. 0 \<le> snap_rank s \<longrightarrow> frames s \<noteq> []"
  shows "(\<Union>p. stack_ranks snaps p) = ranked_set snaps"
  using assms by (fastforce simp: stack_ranks_def ranked_set_def counted_def)

lemma group_ranks_nonneg:
  "(\<And>s. s \<in> set (group_snapshots g) \<Longrightarrow> 0 \<le> snap_rank s) \<Longrightarrow>
    group_ranks g = snap_rank ` set (group_snapshots g)"
  by (auto simp: group_ranks_def)

lemma ranked_set_eq: "ranked_set snaps = set (filter (\<lambda>r. 0 \<le> r) (map snap_rank snaps))"
  by (auto simp: ranked_set_def)

lemma result_fields:
  "dominant_group (build_aggregation_result m d os t rm c) = d"
  "outlier_groups (build_aggregation_result m d os t rm c) = os"
  "outlier_ranks (build_aggregation_result m d os t rm c) = (\<Union>g\<in>set os. group_ranks g)"
  "outlier_machines (build_aggregation_result m d os t rm c) = (\<Union>g\<in>set os. group_machines g)"
  "result_method (build_aggregation_result m d os t rm c) = m"
  by (simp_all add: build_aggregation_result_def Let_def)

lemma stack_ranks_nonneg: "r \<in> stack_ranks snaps p \<Longrightarrow> 0 \<le> r"
  by (auto simp: stack_ranks_def counted_def)

lemma ranked_set_nonneg: "r \<in> ranked_set snaps \<Longrightarrow> 0 \<le> r"
  by (auto simp: ranked_set_def)

lemma group_ranks_of:
  assumes "finite R" "\<forall>r\<in>R. 0 \<le> r"
  shows "group_ranks \<lparr>group_signature = g, group_snapshots = map (snapshot_of (by_rank snaps) rm) (sorted_list_of_set R)\<rparr> = R"
  using assms by (subst group_ranks_nonneg) (auto simp: image_comp)

lemma leaf_group_ranks:
  assumes "leaf \<in> set (leaf_clusters (build_trie snaps))"
  shows "group_ranks \<lparr>group_signature = g, group_snapshots = map (snapshot_of (by_rank snaps) rm)
      (sorted_list_of_set (leaf_ranks leaf - D))\<rparr> = leaf_ranks leaf - D"
  using assms by (intro group_ranks_of) (auto simp: set_leaf_clusters dest: stack_ranks_nonneg)

lemma known_dominant:
  assumes "D \<subseteq> ranked_set snaps" "D \<noteq> {}"
  defines "known \<equiv> filter (\<lambda>r. by_rank snaps r \<noteq> None) (sorted_list_of_set D)"
  shows "known \<noteq> []" "group_ranks \<lparr>group_signature = g, group_snapshots = map (\<lambda>r. the (by_rank snaps r)) known\<rparr> = D"
proof -
  have fin: "finite D" using assms(1) finite_ranked_set by (rule finite_subset)
  have dom: "by_rank snaps r \<noteq> None" if "r \<in> D" for r
  proof -
    have "r \<in> snap_rank ` set snaps" using that assms(1) by (auto simp: ranked_set_def)
    then show ?thesis by (simp only: by_rank_domain)
  qed
  then have set_known: "set known = D" by (auto simp: known_def fin)
  then show "known \<noteq> []" using assms(2) by auto
  have rank: "snap_rank (the (by_rank snaps r)) = r" if "r \<in> D" for r
    using dom [OF that] by_rank_Some by fastforce
  have "group_ranks \<lparr>group_signature = g, group_snapshots = map (\<lambda>r. the (by_rank snaps r)) known\<rparr>
      = (\<lambda>r. snap_rank (the (by_rank snaps r))) ` D"
  proof (subst group_ranks_nonneg)
    show "0 \<le> snap_rank s"
      if "s \<in> set (group_snapshots \<lparr>group_signature = g, group_snapshots = map (\<lambda>r. the (by_rank snaps r)) known\<rparr>)" for s
      using that rank assms(1) by (auto simp: set_known dest!: ranked_set_nonneg subsetD)
  qed (simp add: set_known image_comp comp_def)
  also have "\<dots> = D" using rank by (simp cong: image_cong)
  finally show "group_ranks \<lparr>group_signature = g, group_snapshots = map (\<lambda>r. the (by_rank snaps r)) known\<rparr> = D" .
qed

lemma result_from_trie_Some:
  assumes frames: "\<forall>s\<in>set snaps. 0 \<le> snap_rank s \<longrightarrow> frames s \<noteq> []"
    and res: "aggregate_snapshots cfg snaps topo rm = Some res"
  shows "\<exists>p. group_ranks (dominant_group res) = stack_ranks snaps p
    \<and> (\<forall>q. card (stack_ranks snaps q) \<le> card (stack_ranks snaps p))
    \<and> real (card (ranked_set snaps)) * min_dominant_ratio cfg \<le> real (card (stack_ranks snaps p))
    \<and> outlier_ranks res = ranked_set snaps - stack_ranks snaps p
    \<and> outlier_ranks res \<noteq> {} \<and> result_method res = TRIE"
proof -
  obtain c cs where leaves: "leaf_clusters (build_trie snaps) = c # cs"
    using res by (auto simp: aggregate_snapshots_def result_from_trie_def split: if_splits list.splits)
  let ?leaf = "first_max (\<lambda>c. card (leaf_ranks c)) c cs"
  have leaf: "?leaf \<in> set (leaf_clusters (build_trie snaps))"
    using first_max_in [of _ c cs] leaves by simp
  then obtain p where p: "leaf_ranks ?leaf = stack_ranks snaps p" "stack_ranks snaps p \<noteq> {}"
    by (auto simp: set_leaf_clusters)
  let ?D = "stack_ranks snaps p" and ?all = "ranked_set snaps"
  have sub: "?D \<subseteq> ?all" by (rule stack_ranks_subset)
  have maximal: "card (stack_ranks snaps q) \<le> card ?D" for q
  proof (cases "stack_ranks snaps q = {}")
    case False
    let ?l = "\<lparr>leaf_signature = join_with '' | '' q, leaf_ranks = stack_ranks snaps q\<rparr>"
    have "?l \<in> set (c # cs)" unfolding leaves [symmetric] set_leaf_clusters using False by auto
    then show ?thesis using first_max_ge [of ?l c cs "\<lambda>c. card (leaf_ranks c)"] p by simp
  qed simp
  let ?outs = "outlier_leaf_groups (c # cs) ?D (by_rank snaps) rm"
  have not_none: "\<not> real (card ?D) < real (card ?all) * min_dominant_ratio cfg" "?all - ?D \<noteq> {}"
    using res leaves p by (auto simp: aggregate_snapshots_def result_from_trie_def Let_def split: if_splits)
  have outs_ranks: "(\<Union>g\<in>set ?outs. group_ranks g) = (\<Union>l\<in>set (c # cs). leaf_ranks l - ?D)"
    using leaf_group_ranks [of _ snaps _ rm ?D] unfolding outlier_leaf_groups_def leaves [symmetric]
    by auto
  also have "\<dots> = ?all - ?D"
  proof -
    have "(\<Union>l\<in>set (c # cs). leaf_ranks l) = (\<Union>q. stack_ranks snaps q)"
    proof (rule equalityI; rule subsetI)
      fix r assume "r \<in> (\<Union>q. stack_ranks snaps q)"
      then obtain q where q: "r \<in> stack_ranks snaps q" by auto
      then have "\<lparr>leaf_signature = join_with '' | '' q, leaf_ranks = stack_ranks snaps q\<rparr> \<in> set (c # cs)"
        unfolding leaves [symmetric] set_leaf_clusters by auto
      with q show "r \<in> (\<Union>l\<in>set (c # cs). leaf_ranks l)" by (metis UN_I leaf_cluster.select_convs(2))
    qed (unfold leaves [symmetric], auto simp: set_leaf_clusters)
    then show ?thesis using Union_stack_ranks [OF frames] by auto
  qed
  finally have ranks: "(\<Union>g\<in>set ?outs. group_ranks g) = ?all - ?D" .
  then have "?outs \<noteq> []" using not_none(2) by auto
  moreover note known = known_dominant [OF sub p(2)]
  ultimately have eq: "res = build_aggregation_result TRIE
      \<lparr>group_signature = leaf_signature ?leaf,
       group_snapshots = map (\<lambda>r. the (by_rank snaps r)) (filter (\<lambda>r. by_rank snaps r \<noteq> None) (sorted_list_of_set ?D))\<rparr>
      ?outs topo rm (trie_outlier_coverage cfg)"
    using res leaves p not_none
    by (simp add: aggregate_snapshots_def result_from_trie_def Let_def split: if_splits)
  have "group_ranks (dominant_group res) = ?D" "outlier_ranks res = ?all - ?D" "result_method res = TRIE"
    unfolding eq by (simp_all only: result_fields known ranks)
  then show ?thesis using maximal not_none by (intro exI [of _ p]) auto
qed

text \<open>
  When trie clustering reaches a verdict on snapshots that all have frames, its dominant group
  is exactly the set of ranks sharing one stack, no stack is shared by more ranks, it holds at least the
  configured share of all ranks, and the outliers are exactly the other ranks, of which there are
  some.
\<close>
theorem trie_verdict_is_majority:
  assumes "\<forall>s\<in>set snaps. 0 \<le> snap_rank s \<longrightarrow> frames s \<noteq> []"
    and "aggregate_snapshots cfg snaps topo rm = Some res"
  shows "\<exists>p. group_ranks (dominant_group res) = stack_ranks snaps p
    \<and> (\<forall>q. card (stack_ranks snaps q) \<le> card (stack_ranks snaps p))
    \<and> real (card (ranked_set snaps)) * min_dominant_ratio cfg \<le> real (card (stack_ranks snaps p))
    \<and> outlier_ranks res = ranked_set snaps - stack_ranks snaps p
    \<and> outlier_ranks res \<noteq> {}"
  using result_from_trie_Some [OF assms] by blast

definition demo_snapshot :: "int \<Rightarrow> string \<Rightarrow> stack_snapshot" where
  "demo_snapshot r f = \<lparr>machine_id = ''m'', snap_rank = r, snap_pid = r, snap_role = TRAINER,
     frames = [\<lparr>function_name = f, file_name = [], line_no = 0\<rparr>], raw_text = []\<rparr>"

theorem trie_verdict_is_majority_witness:
  "\<exists>res p. aggregate_snapshots \<lparr>min_dominant_ratio = 1 / 2, trie_outlier_coverage = 3 / 4\<rparr>
      [demo_snapshot 0 ''a'', demo_snapshot 1 ''a'', demo_snapshot 2 ''b''] None None = Some res
    \<and> group_ranks (dominant_group res) = stack_ranks [demo_snapshot 0 ''a'', demo_snapshot 1 ''a'', demo_snapshot 2 ''b''] p"
proof -
  let ?cfg = "\<lparr>min_dominant_ratio = 1 / 2, trie_outlier_coverage = 3 / 4\<rparr>"
  let ?s = "[demo_snapshot 0 ''a'', demo_snapshot 1 ''a'', demo_snapshot 2 ''b'']"
  have trie: "build_trie ?s = TrieNode [(''a'', TrieNode [] True {0, 1} {0, 1}), (''b'', TrieNode [] True {2} {2})] False {} {}"
    by (simp add: build_trie_def insert_snapshot_def demo_snapshot_def frame_key_def lto_frame_def
        new_node_def add_rank_def mark_end_def insert_commute)
  have leaves: "leaf_clusters (build_trie ?s) =
      [\<lparr>leaf_signature = ''a'', leaf_ranks = {0, 1}\<rparr>, \<lparr>leaf_signature = ''b'', leaf_ranks = {2}\<rparr>]"
    by (simp add: leaf_clusters_def trie trie_walk.simps [of "TrieNode cs e rs er" for cs e rs er])
  have ranked: "ranked_set ?s = {0, 1, 2}"
    by (simp add: ranked_set_eq demo_snapshot_def insert_commute)
  have "aggregate_snapshots ?cfg ?s None None \<noteq> None"
    unfolding aggregate_snapshots_def result_from_trie_def leaves ranked by (simp add: Let_def)
  then obtain res where "aggregate_snapshots ?cfg ?s None None = Some res" by auto
  with trie_verdict_is_majority [OF _ this] show ?thesis by (auto simp: demo_snapshot_def)
qed

section \<open>What the signature clusters hold\<close>

lemma keep_first_Nil [simp]: "keep_first xs = [] \<longleftrightarrow> xs = []"
  by (metis set_empty set_keep_first)

lemma group_by_Nil [simp]: "group_by key xs = [] \<longleftrightarrow> xs = []"
  by (simp add: group_by_def)

lemma cluster_snapshots:
  "map group_snapshots (cluster cfg snaps) =
     map snd (group_by (if fuzzy_match cfg then fuzzy_key (signature_depth cfg)
       else signature_text (signature_depth cfg)) snaps)"
  by (auto simp: cluster_def Let_def)

lemma cluster_Nil [simp]: "cluster cfg snaps = [] \<longleftrightarrow> snaps = []"
  using cluster_snapshots [of cfg snaps] by (metis group_by_Nil list.map_disc_iff)

lemma cluster_empty [simp]: "cluster cfg [] = []"
  by simp

lemma mset_partition_by_keys:
  assumes "distinct ks" "\<forall>x\<in>set xs. key x \<in> set ks"
  shows "mset (concat (map (\<lambda>k. filter (\<lambda>x. key x = k) xs) ks)) = mset xs"
  using assms
proof (induction ks arbitrary: xs)
  case (Cons k ks)
  let ?rest = "filter (\<lambda>x. key x \<noteq> k) xs"
  have eq: "map (\<lambda>k'. filter (\<lambda>x. key x = k') xs) ks = map (\<lambda>k'. filter (\<lambda>x. key x = k') ?rest) ks"
    using Cons.prems(1) by (auto intro!: filter_cong)
  have "mset (concat (map (\<lambda>k'. filter (\<lambda>x. key x = k') xs) ks)) = mset ?rest"
    unfolding eq using Cons.prems by (intro Cons.IH) auto
  then show ?case by (simp add: multiset_partition [symmetric])
qed simp

lemma group_by_partition: "mset (concat (map snd (group_by key xs))) = mset xs"
  using mset_partition_by_keys [of "keep_first (map key xs)" xs key]
  by (simp add: group_by_def comp_def)

text \<open>
  Signature clustering partitions the snapshots: every snapshot is in exactly one group (as
  often as it occurs), and two snapshots are in the same group exactly when their signatures (with
  fuzzy matching, their function names) to the configured depth agree.
\<close>
theorem signature_clusters_partition:
  "mset (concat (map group_snapshots (cluster cfg snaps))) = mset snaps
   \<and> distinct (map (\<lambda>g. key (hd (group_snapshots g))) (cluster cfg snaps))
   \<and> (\<forall>g\<in>set (cluster cfg snaps). set (group_snapshots g) =
        {s \<in> set snaps. key s = key (hd (group_snapshots g))} \<and> group_snapshots g \<noteq> [])"
  if "key = (if fuzzy_match cfg then fuzzy_key (signature_depth cfg)
       else signature_text (signature_depth cfg))"
proof -
  let ?gs = "group_by key snaps"
  have snaps_eq: "map group_snapshots (cluster cfg snaps) = map snd ?gs"
    unfolding that by (rule cluster_snapshots)
  have members: "snd g \<noteq> [] \<and> set (snd g) = {s \<in> set snaps. key s = fst g} \<and> key (hd (snd g)) = fst g"
    if "g \<in> set ?gs" for g
  proof -
    have m: "snd g \<noteq> []" "set (snd g) = {x \<in> set snaps. key x = fst g}"
      using group_by_member [of "fst g" "snd g" key snaps] that by auto
    then have "hd (snd g) \<in> {x \<in> set snaps. key x = fst g}" by (metis list.set_sel(1))
    with m show ?thesis by simp
  qed
  have "map (\<lambda>g. key (hd (group_snapshots g))) (cluster cfg snaps) = map (\<lambda>l. key (hd l)) (map snd ?gs)"
    unfolding snaps_eq [symmetric] by simp
  also have "\<dots> = keep_first (map key snaps)"
    unfolding group_by_keys [symmetric] using members by simp
  finally have keys: "map (\<lambda>g. key (hd (group_snapshots g))) (cluster cfg snaps) = keep_first (map key snaps)" .
  have "set (group_snapshots g) = {s \<in> set snaps. key s = key (hd (group_snapshots g))} \<and> group_snapshots g \<noteq> []"
    if g: "g \<in> set (cluster cfg snaps)" for g
  proof -
    have "group_snapshots g \<in> set (map snd ?gs)" unfolding snaps_eq [symmetric] using g by simp
    then obtain p where p: "p \<in> set ?gs" "group_snapshots g = snd p" by auto
    show ?thesis using members [OF p(1)] unfolding p(2) by simp
  qed
  moreover have "mset (concat (map group_snapshots (cluster cfg snaps))) = mset snaps"
    unfolding snaps_eq by (rule group_by_partition)
  ultimately show ?thesis using keys by simp
qed

theorem signature_clusters_partition_witness:
  "mset (concat (map group_snapshots (cluster \<lparr>signature_depth = 8, fuzzy_match = True, sig_outlier_coverage = 3 / 4\<rparr>
      [demo_snapshot 0 ''a'', demo_snapshot 1 ''b'']))) = {#demo_snapshot 0 ''a'', demo_snapshot 1 ''b''#}"
  using signature_clusters_partition [OF refl, of "\<lparr>signature_depth = 8, fuzzy_match = True, sig_outlier_coverage = 3 / 4\<rparr>"
    "[demo_snapshot 0 ''a'', demo_snapshot 1 ''b'']"] by simp

section \<open>When the analyzer fails\<close>

lemma select_Nil [simp]: "select_primary_snapshots one wanted snaps = [] \<longleftrightarrow> snaps = []"
  by (cases snaps) (auto simp: select_primary_snapshots_def Let_def filter_empty_conv)

lemma select_empty [simp]: "select_primary_snapshots one wanted [] = []"
  by simp

lemma aggregate_error: "aggregate cfg snaps t rm = Inl e \<longleftrightarrow> snaps = [] \<and> e = ValueError"
  by (cases "cluster cfg snaps") (auto simp: aggregate_def Let_def dest: arg_cong [where f = "\<lambda>x. x = []"])

lemma aggregate_snapshots_Nil [simp]: "aggregate_snapshots cfg [] t rm = None"
  by (simp add: aggregate_snapshots_def)

text \<open>
  The analyzer fails in exactly two ways: with RuntimeError when a selected snapshot has no
  frames, and with ValueError when there is no snapshot at all; otherwise it returns a verdict,
  under every strategy.
\<close>
theorem analyzer_errors_exact:
  "locate_abnormal_nodes a snaps topo rm = Inl e \<longleftrightarrow>
     (if \<exists>s\<in>set (select_primary_snapshots (one_stack_per_rank a) TRAINER snaps). frames s = []
      then e = RuntimeError else snaps = [] \<and> e = ValueError)"
proof -
  let ?p = "select_primary_snapshots (one_stack_per_rank a) TRAINER snaps"
  have "analyze a ?p topo rm = Inl e \<longleftrightarrow> snaps = [] \<and> e = ValueError"
    by (auto simp: analyze_def Let_def aggregate_error split: option.splits if_splits)
  then show ?thesis by (auto simp: locate_abnormal_nodes_def Let_def list_ex_iff)
qed

text \<open>
  Under the automatic strategy a trie verdict is returned only when its majority, measured on the
  verdict itself, still holds the configured share.
\<close>

lemma auto_trie_confident:
  assumes "strategy a = AUTO" "locate_abnormal_nodes a snaps topo rm = Inr res" "result_method res = TRIE"
  shows "is_confident (trie_aggregator a) res"
  using assms
  by (auto simp: locate_abnormal_nodes_def analyze_def aggregate_def Let_def result_fields
      split: if_splits option.splits list.splits)

end
