(* ===== verification/RankLayout.thy ===== *)
theory RankLayout
  imports StackModel
begin

text \<open>
  Megatron's assignment of ranks to parallel groups (\<^verbatim>\<open>stack_analyzer/megatron_topology.py\<close>)
  and the MPI host file that assigns ranks to machines (\<^verbatim>\<open>hostfile.py\<close>).  Sizes are
  unbounded integers as in Python, whose floor division and remainder are HOL's on \<^verbatim>\<open>int\<close>.
\<close>

section \<open>Orthogonal rank groups\<close>

fun prefix_product :: "int list \<Rightarrow> int \<Rightarrow> int list" where
  "prefix_product [] init = [init]"
| "prefix_product (v # vs) init = init # prefix_product vs (init * v)"

definition inner_product :: "int list \<Rightarrow> int list \<Rightarrow> int" where
  "inner_product a b = sum_list (map2 (*) a b)"

definition decompose :: "int \<Rightarrow> int list \<Rightarrow> int list" where
  "decompose index shape = map2 (\<lambda>n step. (index div step) mod n) shape (prefix_product shape 1)"

definition masked :: "bool \<Rightarrow> bool list \<Rightarrow> 'a list \<Rightarrow> 'a list" where
  "masked b flags xs = map fst (filter (\<lambda>p. snd p = b) (zip xs flags))"

definition rank_groups :: "int \<Rightarrow> int list \<Rightarrow> bool list \<Rightarrow> py_exn + int list list" where
  "rank_groups world_size parallel_size flags =
     (let masked_shape = masked True flags parallel_size;
          unmasked_shape = masked False flags parallel_size;
          global_stride = prefix_product parallel_size 1;
          masked_stride = masked True flags global_stride;
          unmasked_stride = masked False flags global_stride;
          group_size = last (prefix_product masked_shape 1) in
      if group_size = 0 then Inl ZeroDivisionError
      else
        let num_groups = world_size div group_size in
        if 0 \<in> set unmasked_shape \<and> 0 < num_groups then Inl ZeroDivisionError
        else Inr (map (\<lambda>group_index.
            let decomposed_group_idx = decompose group_index unmasked_shape in
            map (\<lambda>rank_in_group.
                inner_product (decompose rank_in_group masked_shape) masked_stride
                + inner_product decomposed_group_idx unmasked_stride)
              [0..group_size - 1])
          [0..num_groups - 1]))"

section \<open>The rank generator\<close>

record rank_generator =
  gen_order :: "string list"
  gen_sizes :: "int list"
  gen_world :: int
  rank_offset :: int

fun normalize_order :: "(string \<times> int) list \<Rightarrow> string \<Rightarrow> py_exn + string" where
  "normalize_order [] order = Inr order"
| "normalize_order ((name, n) # rest) order =
     (if \<not> contains_sub name order then
        (if n \<noteq> 1 then Inl ValueError else normalize_order rest (order @ ''-'' @ name))
      else normalize_order rest order)"

fun sizes_of :: "(string \<times> int) list \<Rightarrow> string list \<Rightarrow> py_exn + int list" where
  "sizes_of names [] = Inr []"
| "sizes_of names (t # ts) =
     (case map_of names t of
        None \<Rightarrow> Inl KeyError
      | Some n \<Rightarrow> (case sizes_of names ts of Inl e \<Rightarrow> Inl e | Inr ns \<Rightarrow> Inr (n # ns)))"

definition name_to_size :: "int \<Rightarrow> int \<Rightarrow> int \<Rightarrow> int \<Rightarrow> int \<Rightarrow> (string \<times> int) list" where
  "name_to_size tp ep dp pp cp = [(''tp'', tp), (''pp'', pp), (''dp'', dp), (''ep'', ep), (''cp'', cp)]"

definition new_generator ::
    "int \<Rightarrow> int \<Rightarrow> int \<Rightarrow> int \<Rightarrow> int \<Rightarrow> string \<Rightarrow> int \<Rightarrow> py_exn + rank_generator" where
  "new_generator tp ep dp pp cp order offset =
     (if ep \<noteq> 1 \<and> cp \<noteq> 1 then Inl ValueError
      else case normalize_order (name_to_size tp ep dp pp cp) (py_lower order) of
        Inl e \<Rightarrow> Inl e
      | Inr normalized_order \<Rightarrow>
          let tokens = split_on CHR ''-'' normalized_order in
          (case sizes_of (name_to_size tp ep dp pp cp) tokens of
             Inl e \<Rightarrow> Inl e
           | Inr sizes \<Rightarrow> Inr \<lparr>gen_order = tokens, gen_sizes = sizes,
               gen_world = tp * dp * pp * cp * ep, rank_offset = offset\<rparr>))"

text \<open>\<^verbatim>\<open>mask[ordered_tokens.index(item)] = True\<close> sets the first occurrence; an absent item raises.\<close>

fun set_first :: "string \<Rightarrow> string list \<Rightarrow> bool list \<Rightarrow> bool list" where
  "set_first item (t # ts) (b # bs) = (if t = item then True # bs else b # set_first item ts bs)"
| "set_first item ts bs = bs"

definition get_ranks :: "rank_generator \<Rightarrow> string \<Rightarrow> py_exn + int list list" where
  "get_ranks g token =
     (let items = split_on CHR ''-'' token in
      if list_ex (\<lambda>i. i \<notin> set (gen_order g)) items then Inl ValueError
      else
        let flags = foldl (\<lambda>m i. set_first i (gen_order g) m) (replicate (length (gen_order g)) False) items in
        (case rank_groups (gen_world g) (gen_sizes g) flags of
           Inl e \<Rightarrow> Inl e
         | Inr groups \<Rightarrow> Inr (if rank_offset g = 0 then groups else map (map (\<lambda>r. r + rank_offset g)) groups)))"

section \<open>Inferring the topology\<close>

definition DEFAULT_PARALLEL_ORDER :: string where
  "DEFAULT_PARALLEL_ORDER = ''tp-cp-ep-dp-pp''"

definition TP_PP_DP_MAPPING_ORDER :: string where
  "TP_PP_DP_MAPPING_ORDER = ''tp-cp-ep-pp-dp''"

definition resolve_parallel_order :: "string option \<Rightarrow> bool \<Rightarrow> string" where
  "resolve_parallel_order order use_tp_pp_dp_mapping =
     (if use_tp_pp_dp_mapping then TP_PP_DP_MAPPING_ORDER
      else case order of None \<Rightarrow> DEFAULT_PARALLEL_ORDER
        | Some ord \<Rightarrow> if ord = [] then DEFAULT_PARALLEL_ORDER else ord)"

definition group_sets :: "py_exn + int list list \<Rightarrow> py_exn + int set list" where
  "group_sets r = (case r of Inl e \<Rightarrow> Inl e | Inr gs \<Rightarrow> Inr (map set gs))"

definition topology_of :: "rank_generator \<Rightarrow> int \<Rightarrow> py_exn + parallel_topology" where
  "topology_of g tp_size =
     (case group_sets (get_ranks g ''pp'') of Inl e \<Rightarrow> Inl e | Inr pps \<Rightarrow>
       (case (if 1 < tp_size then group_sets (get_ranks g ''tp'') else Inr []) of Inl e \<Rightarrow> Inl e | Inr tps \<Rightarrow>
         (case group_sets (get_ranks g ''dp'') of Inl e \<Rightarrow> Inl e | Inr dps \<Rightarrow>
            Inr \<lparr>pp_groups = pps, tp_groups = tps, dp_groups = dps\<rparr>)))"

definition infer_parallel_topology ::
    "int \<Rightarrow> int \<Rightarrow> int \<Rightarrow> int option \<Rightarrow> int \<Rightarrow> int \<Rightarrow> string option \<Rightarrow> bool \<Rightarrow> py_exn + parallel_topology" where
  "infer_parallel_topology world_size pp_size tp_size dp_size cp_size ep_size order mapping =
     (if world_size < 1 then Inl ValueError
      else if pp_size * tp_size = 0 then Inl ZeroDivisionError
      else if world_size mod (pp_size * tp_size) \<noteq> 0 then Inl ValueError
      else
        let dp = (case dp_size of None \<Rightarrow> world_size div (pp_size * tp_size) | Some d \<Rightarrow> d) in
        if tp_size * pp_size * dp * cp_size * ep_size \<noteq> world_size then Inl ValueError
        else (case new_generator tp_size ep_size dp pp_size cp_size (resolve_parallel_order order mapping) 0 of
            Inl e \<Rightarrow> Inl e
          | Inr g \<Rightarrow> topology_of g tp_size))"

section \<open>The groups partition the ranks\<close>

text \<open>The mixed-radix number of a group index and a rank within the group.\<close>

fun layout_rank :: "(int \<times> bool) list \<Rightarrow> int \<Rightarrow> int \<Rightarrow> int" where
  "layout_rank [] g r = 0"
| "layout_rank ((n, b) # xs) g r =
     (if b then r mod n + n * layout_rank xs g (r div n)
      else g mod n + n * layout_rank xs (g div n) r)"

definition shape_prod :: "bool \<Rightarrow> (int \<times> bool) list \<Rightarrow> int" where
  "shape_prod b xs = prod_list (map fst (filter (\<lambda>p. snd p = b) xs))"

lemma shape_prod_simps [simp]:
  "shape_prod b [] = 1"
  "shape_prod b ((n, c) # xs) = (if c = b then n * shape_prod b xs else shape_prod b xs)"
  by (auto simp: shape_prod_def)

lemma shape_prod_pos: "\<forall>p\<in>set xs. 1 \<le> fst p \<Longrightarrow> 1 \<le> shape_prod b xs"
proof (induction xs)
  case (Cons p xs)
  obtain n c where p: "p = (n, c)" by (cases p)
  have "1 \<le> shape_prod b xs" "1 \<le> n" using Cons p by auto
  then show ?case using mult_mono [of 1 n 1 "shape_prod b xs"] by (simp add: p)
qed simp

lemma last_prefix_product: "last (prefix_product vs i) = i * prod_list vs"
  by (induction vs i rule: prefix_product.induct) (auto simp: mult.assoc, (case_tac vs; simp)+)

lemma layout_rank_bounds:
  assumes "\<forall>p\<in>set xs. 1 \<le> fst p"
  shows "0 \<le> layout_rank xs g r \<and> layout_rank xs g r < prod_list (map fst xs)"
  using assms
proof (induction xs g r rule: layout_rank.induct)
  case (2 n b xs g r)
  have step: "0 \<le> k mod n + n * m \<and> k mod n + n * m < n * N" if "0 \<le> m" "m < N" "1 \<le> n" for k m N :: int
  proof -
    have k: "0 \<le> k mod n" "k mod n < n" using that by simp_all
    have "n * (m + 1) \<le> n * N" using that by (intro mult_left_mono) auto
    moreover have "0 \<le> n * m" using that by simp
    ultimately show ?thesis using k by (simp add: algebra_simps)
  qed
  show ?case using 2 step by auto
qed simp

lemma layout_rank_inj:
  assumes "\<forall>p\<in>set xs. 1 \<le> fst p"
    and "g \<in> {0..<shape_prod False xs}" "r \<in> {0..<shape_prod True xs}"
    and "g' \<in> {0..<shape_prod False xs}" "r' \<in> {0..<shape_prod True xs}"
    and "layout_rank xs g r = layout_rank xs g' r'"
  shows "g = g' \<and> r = r'"
  using assms
proof (induction xs arbitrary: g r g' r')
  case (Cons p xs)
  obtain n b where p: "p = (n, b)" by (cases p)
  have n: "1 \<le> n" using Cons.prems(1) p by simp
  have digit: "k mod n = k' mod n \<and> m = m'" if "k mod n + n * m = k' mod n + n * m'" for k k' m m' :: int
  proof -
    have "(k mod n + n * m) mod n = k mod n" "(k mod n + n * m) div n = m" for k m :: int
      using n by simp_all
    then show ?thesis using that by metis
  qed
  have quot: "k div n \<in> {0..<N}" if "k \<in> {0..<n * N}" for k N :: int
  proof -
    have "k div n * n \<le> k" using n by (simp add: div_mult_mod_eq mult.commute minus_mod_eq_mult_div [symmetric])
    then have "k div n * n < N * n" using that by (simp add: mult.commute)
    then show ?thesis using that n by (simp add: pos_imp_zdiv_nonneg_iff)
  qed
  have whole: "k = k'" if "k mod n = k' mod n" "k div n = k' div n" for k k' :: int
    using that by (metis mult_div_mod_eq)
  show ?case
  proof (cases b)
    case True
    then have "r mod n = r' mod n" "layout_rank xs g (r div n) = layout_rank xs g' (r' div n)"
      using digit Cons.prems(6) p by auto
    moreover have "g = g' \<and> r div n = r' div n"
      using Cons.prems p True calculation quot by (intro Cons.IH) auto
    ultimately show ?thesis using whole by blast
  next
    case False
    then have "g mod n = g' mod n" "layout_rank xs (g div n) r = layout_rank xs (g' div n) r'"
      using digit Cons.prems(6) p by auto
    moreover have "g div n = g' div n \<and> r = r'"
      using Cons.prems p False calculation quot by (intro Cons.IH) auto
    ultimately show ?thesis using whole by blast
  qed
qed simp

lemma layout_rank_surj:
  assumes "\<forall>p\<in>set xs. 1 \<le> fst p" "x \<in> {0..<prod_list (map fst xs)}"
  shows "\<exists>g\<in>{0..<shape_prod False xs}. \<exists>r\<in>{0..<shape_prod True xs}. layout_rank xs g r = x"
  using assms
proof (induction xs arbitrary: x)
  case (Cons p xs)
  obtain n b where p: "p = (n, b)" by (cases p)
  have n: "1 \<le> n" and x: "x \<in> {0..<n * prod_list (map fst xs)}" using Cons.prems p by auto
  have "x div n * n \<le> x" using n by (simp add: minus_mod_eq_mult_div [symmetric] mult.commute)
  then have "x div n * n < prod_list (map fst xs) * n" using x by (simp add: mult.commute)
  then have "x div n \<in> {0..<prod_list (map fst xs)}" using n x by (simp add: pos_imp_zdiv_nonneg_iff)
  then obtain g r where gr: "g \<in> {0..<shape_prod False xs}" "r \<in> {0..<shape_prod True xs}"
      "layout_rank xs g r = x div n"
    using Cons.IH Cons.prems(1) by force
  have up: "k * n + x mod n \<in> {0..<n * N} \<and> (k * n + x mod n) mod n = x mod n \<and> (k * n + x mod n) div n = k"
    if "k \<in> {0..<N}" for k N
  proof -
    have m: "0 \<le> x mod n" "x mod n < n" using n by simp_all
    have "(k + 1) * n \<le> N * n" using that n by (intro mult_right_mono) auto
    then have "k * n + n \<le> N * n" by (simp add: distrib_right)
    then have "k * n + x mod n < n * N" using m(2) by (simp add: mult.commute)
    moreover have "0 \<le> k * n" using that n by simp
    ultimately show ?thesis using m(1) n by simp
  qed
  show ?case
  proof (cases b)
    case True
    then have "layout_rank (p # xs) g (r * n + x mod n) = x" using up [OF gr(2)] gr(3) p by simp
    then show ?thesis using up [OF gr(2)] gr(1) True p by (intro bexI [of _ g] bexI [of _ "r * n + x mod n"]) auto
  next
    case False
    then have "layout_rank (p # xs) (g * n + x mod n) r = x" using up [OF gr(1)] gr(3) p by simp
    then show ?thesis using up [OF gr(1)] gr(2) False p by (intro bexI [of _ "g * n + x mod n"] bexI [of _ r]) auto
  qed
qed (auto intro: exI [of _ 0])

text \<open>The strides and digits of the code compute that number.\<close>

definition decompose_from :: "int \<Rightarrow> int \<Rightarrow> int list \<Rightarrow> int list" where
  "decompose_from p index shape = map2 (\<lambda>n step. (index div step) mod n) shape (prefix_product shape p)"

lemma masked_simps [simp]:
  "masked b [] xs = []"
  "masked b (f # fs) (x # xs) = (if f = b then x # masked b fs xs else masked b fs xs)"
  by (simp_all add: masked_def)

lemma decompose_from_simps [simp]:
  "decompose_from p i [] = []"
  "decompose_from p i (n # ns) = (i div p mod n) # decompose_from (p * n) i ns"
  by (simp_all add: decompose_from_def)

lemma inner_product_simps [simp]:
  "inner_product [] ys = 0" "inner_product xs [] = 0"
  "inner_product (x # xs) (y # ys) = x * y + inner_product xs ys"
  by (simp_all add: inner_product_def)

lemma strides_layout:
  assumes "length sizes = length flags" "\<forall>n\<in>set sizes. 1 \<le> n"
  shows "inner_product (decompose_from p r (masked True flags sizes)) (masked True flags (prefix_product sizes s))
    + inner_product (decompose_from q g (masked False flags sizes)) (masked False flags (prefix_product sizes s))
    = s * layout_rank (zip sizes flags) (g div q) (r div p)"
  using assms
proof (induction sizes flags arbitrary: p q s rule: list_induct2)
  case (Cons n ns f fs)
  have n: "0 \<le> n" using Cons.prems by simp
  have d: "i div (k * n) = i div k div n" for i k by (rule zdiv_zmult2_eq [OF n])
  have pos: "\<forall>n\<in>set ns. 1 \<le> n" using Cons.prems by simp
  show ?case
  proof (cases f)
    case True
    then show ?thesis using Cons.IH [OF pos, of "p * n" "s * n" q] by (simp add: d distrib_left mult.assoc)
  next
    case False
    then show ?thesis using Cons.IH [OF pos, of p "s * n" "q * n"] by (simp add: d distrib_left mult.assoc)
  qed
qed simp

lemma masked_zip: "length sizes = length flags \<Longrightarrow> prod_list (masked b flags sizes) = shape_prod b (zip sizes flags)"
  by (simp add: masked_def shape_prod_def)

lemma shape_prod_mult: "shape_prod False xs * shape_prod True xs = prod_list (map fst xs)"
  by (induction xs) (auto simp: algebra_simps)

definition layout_groups :: "(int \<times> bool) list \<Rightarrow> int list list" where
  "layout_groups xs = map (\<lambda>g. map (layout_rank xs g) [0..shape_prod True xs - 1]) [0..shape_prod False xs - 1]"

lemma rank_groups_layout:
  assumes len: "length sizes = length flags" and pos: "\<forall>n\<in>set sizes. 1 \<le> n"
  shows "rank_groups (prod_list sizes) sizes flags = Inr (layout_groups (zip sizes flags))"
proof -
  let ?xs = "zip sizes flags"
  have xs: "\<forall>p\<in>set ?xs. 1 \<le> fst p" using pos by (auto dest: set_zip_leftD)
  have M: "1 \<le> shape_prod True ?xs" using xs by (rule shape_prod_pos)
  have "prod_list sizes = shape_prod False ?xs * shape_prod True ?xs"
    using len by (simp add: shape_prod_mult)
  then have G: "prod_list sizes div shape_prod True ?xs = shape_prod False ?xs" using M by simp
  have nz: "0 \<notin> set (masked False flags sizes)"
    using pos by (fastforce simp: masked_def dest: set_zip_leftD)
  have "inner_product (decompose r (masked True flags sizes)) (masked True flags (prefix_product sizes 1))
      + inner_product (decompose g (masked False flags sizes)) (masked False flags (prefix_product sizes 1))
      = layout_rank ?xs g r" for g r
    using strides_layout [OF len pos, of 1 r 1 1 g] by (simp add: decompose_def decompose_from_def)
  then show ?thesis
    using M G nz len by (simp add: rank_groups_def last_prefix_product masked_zip Let_def layout_groups_def)
qed

lemma set_layout_groups:
  assumes "\<forall>p\<in>set xs. 1 \<le> fst p"
  shows "set (concat (layout_groups xs)) = {0..<prod_list (map fst xs)}"
proof (rule equalityI; rule subsetI)
  fix x assume "x \<in> {0..<prod_list (map fst xs)}"
  then obtain g r where "g \<in> {0..<shape_prod False xs}" "r \<in> {0..<shape_prod True xs}" "layout_rank xs g r = x"
    using layout_rank_surj [OF assms] by blast
  then show "x \<in> set (concat (layout_groups xs))" by (force simp: layout_groups_def)
qed (use layout_rank_bounds [OF assms] in \<open>auto simp: layout_groups_def\<close>)

lemma distinct_rows:
  assumes inj: "\<And>g g' r r'. g \<in> A \<Longrightarrow> g' \<in> A \<Longrightarrow> r \<in> B \<Longrightarrow> r' \<in> B \<Longrightarrow> f g r = f g' r' \<Longrightarrow> g = g' \<and> r = r'"
    and "distinct gs" "set gs \<subseteq> A" "distinct rs" "set rs \<subseteq> B"
  shows "distinct (concat (map (\<lambda>g. map (f g) rs) gs))"
  using assms(2,3)
proof (induction gs)
  case (Cons g gs)
  have "inj_on (f g) (set rs)"
    using inj [of g g] Cons.prems assms(5) by (intro inj_onI) (simp add: subset_iff)
  then have "distinct (map (f g) rs)" using assms(4) by (simp add: distinct_map)
  moreover have "f g r \<noteq> f g' r'" if "g' \<in> set gs" "r \<in> set rs" "r' \<in> set rs" for g' r r'
    using inj [of g g' r r'] that Cons.prems assms(5) by auto
  ultimately show ?case using Cons by fastforce
qed simp

lemma distinct_layout_groups:
  assumes "\<forall>p\<in>set xs. 1 \<le> fst p"
  shows "distinct (concat (layout_groups xs))"
  unfolding layout_groups_def
proof (rule distinct_rows)
  show "g = g' \<and> r = r'" if "g \<in> {0..<shape_prod False xs}" "g' \<in> {0..<shape_prod False xs}"
    "r \<in> {0..<shape_prod True xs}" "r' \<in> {0..<shape_prod True xs}"
    "layout_rank xs g r = layout_rank xs g' r'" for g g' r r'
    using layout_rank_inj [OF assms] that by blast
qed auto

text \<open>
  C7: For positive sizes, whatever dimensions the mask selects, the rank groups partition the
  ranks: every rank of the world is in exactly one group, exactly once, and every group has as many
  ranks as the product of the selected dimensions.
\<close>
theorem rank_groups_partition_world:
  assumes "length sizes = length flags" "\<forall>n\<in>set sizes. 1 \<le> n"
  shows "\<exists>groups. rank_groups (prod_list sizes) sizes flags = Inr groups
    \<and> distinct (concat groups) \<and> set (concat groups) = {0..<prod_list sizes}
    \<and> (\<forall>g\<in>set groups. int (length g) = prod_list (masked True flags sizes))"
proof -
  let ?xs = "zip sizes flags"
  have xs: "\<forall>p\<in>set ?xs. 1 \<le> fst p" using assms by (auto dest: set_zip_leftD)
  have "\<forall>g\<in>set (layout_groups ?xs). int (length g) = prod_list (masked True flags sizes)"
    using shape_prod_pos [OF xs, of True] assms(1) by (auto simp: layout_groups_def masked_zip)
  then show ?thesis
    using rank_groups_layout [OF assms] distinct_layout_groups [OF xs] set_layout_groups [OF xs] assms(1)
    by simp
qed

theorem rank_groups_partition_world_witness:
  "\<exists>groups. rank_groups 8 [2, 4] [False, True] = Inr groups \<and> set (concat groups) = {0..<8}"
  using rank_groups_partition_world [of "[2, 4]" "[False, True]"] by auto

section \<open>The default layout\<close>

text \<open>
  The reference: tensor-parallel groups are blocks of consecutive ranks, data-parallel groups run
  through a pipeline stage with stride tp, and pipeline groups run through the world with stride
  tp * dp.
\<close>

definition stride_set :: "int \<Rightarrow> int \<Rightarrow> int \<Rightarrow> int set" where
  "stride_set start step n = (\<lambda>k. start + step * k) ` {0..<n}"

definition reference_topology :: "int \<Rightarrow> int \<Rightarrow> int \<Rightarrow> parallel_topology" where
  "reference_topology tp dp pp =
     \<lparr>pp_groups = map (\<lambda>i. stride_set i (tp * dp) pp) [0..tp * dp - 1],
      tp_groups = (if 1 < tp then map (\<lambda>i. stride_set (tp * i) 1 tp) [0..dp * pp - 1] else []),
      dp_groups = map (\<lambda>i. stride_set (i mod tp + tp * dp * (i div tp)) tp dp) [0..tp * pp - 1]\<rparr>"

lemma default_generator:
  "new_generator tp 1 dp pp 1 DEFAULT_PARALLEL_ORDER 0 = Inr
    \<lparr>gen_order = [''tp'', ''cp'', ''ep'', ''dp'', ''pp''], gen_sizes = [tp, 1, 1, dp, pp],
     gen_world = tp * dp * pp, rank_offset = 0\<rparr>"
  by (simp add: new_generator_def DEFAULT_PARALLEL_ORDER_def name_to_size_def py_lower_def
      lower_char_def is_upper_def)

lemma div_mod_block:
  fixes g :: int
  assumes "1 \<le> a" "g \<in> {0..<a * b}"
  shows "(g div a) mod b = g div a"
proof -
  have "g div a * a \<le> g" using assms(1) by (simp add: minus_mod_eq_mult_div [symmetric] mult.commute)
  then have "g div a * a < b * a" using assms(2) by (simp add: mult.commute)
  then have "g div a < b" using assms(1) by simp
  moreover have "0 \<le> g div a" using assms by (simp add: pos_imp_zdiv_nonneg_iff)
  ultimately show ?thesis by simp
qed

lemma one_le_mult: "1 \<le> a \<Longrightarrow> 1 \<le> b \<Longrightarrow> 1 \<le> a * b" for a b :: int
  using mult_mono [of 1 a 1 b] by simp

lemma map_interval_cong: "(\<And>x. x \<in> {0..<n} \<Longrightarrow> f x = h x) \<Longrightarrow> map f [0..n - 1] = map h [0..n - 1]"
  for n :: int
  by simp

lemma default_groups:
  assumes "1 \<le> tp" "1 \<le> dp" "1 \<le> pp"
  shows "group_sets (rank_groups (tp * dp * pp) [tp, 1, 1, dp, pp] [False, False, False, False, True]) =
      Inr (pp_groups (reference_topology tp dp pp))" (is ?pp)
    and "group_sets (rank_groups (tp * dp * pp) [tp, 1, 1, dp, pp] [True, False, False, False, False]) =
      Inr (map (\<lambda>i. stride_set (tp * i) 1 tp) [0..dp * pp - 1])" (is ?tp)
    and "group_sets (rank_groups (tp * dp * pp) [tp, 1, 1, dp, pp] [False, False, False, True, False]) =
      Inr (dp_groups (reference_topology tp dp pp))" (is ?dp)
proof -
  let ?sizes = "[tp, 1, 1, dp, pp]"
  have groups: "rank_groups (tp * dp * pp) ?sizes flags = Inr (layout_groups (zip ?sizes flags))"
    if "length flags = 5" for flags
    using rank_groups_layout [of ?sizes flags] that assms by (simp add: mult.assoc)
  have sets: "group_sets (rank_groups (tp * dp * pp) ?sizes flags) = Inr (map f [0..n - 1])"
    if "length flags = 5" "shape_prod False (zip ?sizes flags) = n"
      "\<And>g. g \<in> {0..<n} \<Longrightarrow> layout_rank (zip ?sizes flags) g ` {0..<shape_prod True (zip ?sizes flags)} = f g"
    for flags n f
  proof -
    have "map set (layout_groups xs) =
        map (\<lambda>g. layout_rank xs g ` {0..<shape_prod True xs}) [0..shape_prod False xs - 1]" for xs
      by (auto simp: layout_groups_def)
    then show ?thesis
      using that by (simp add: groups group_sets_def del: layout_rank.simps shape_prod_simps)
  qed
  show ?pp
  proof -
    have "layout_rank (zip ?sizes [False, False, False, False, True]) g ` {0..<pp} = stride_set g (tp * dp) pp"
      if "g \<in> {0..<tp * dp}" for g
    proof -
      have "g mod tp + tp * (g div tp) = g" by simp
      then have "layout_rank (zip ?sizes [False, False, False, False, True]) g r = g + tp * dp * r"
        if "r \<in> {0..<pp}" for r
        using that div_mod_block [OF assms(1) \<open>g \<in> {0..<tp * dp}\<close>] by (simp add: distrib_left mult.assoc)
      then show ?thesis by (simp add: stride_set_def cong: image_cong_simp)
    qed
    then show ?thesis
      unfolding reference_topology_def parallel_topology.simps by (intro sets) simp_all
  qed
  show ?tp
  proof -
    have "layout_rank (zip ?sizes [True, False, False, False, False]) g ` {0..<tp} = stride_set (tp * g) 1 tp"
      if "g \<in> {0..<dp * pp}" for g
    proof -
      have "g mod dp + dp * (g div dp mod pp) = g" using div_mod_block [OF assms(2) that] by simp
      then have "layout_rank (zip ?sizes [True, False, False, False, False]) g r = tp * g + r"
        if "r \<in> {0..<tp}" for r using that by simp
      then show ?thesis by (simp add: stride_set_def cong: image_cong_simp)
    qed
    then show ?thesis by (intro sets) simp_all
  qed
  show ?dp
  proof -
    have "layout_rank (zip ?sizes [False, False, False, True, False]) g ` {0..<dp} =
        stride_set (g mod tp + tp * dp * (g div tp)) tp dp" if "g \<in> {0..<tp * pp}" for g
    proof -
      have "layout_rank (zip ?sizes [False, False, False, True, False]) g r = g mod tp + tp * dp * (g div tp) + tp * r"
        if "r \<in> {0..<dp}" for r
        using that div_mod_block [OF assms(1) \<open>g \<in> {0..<tp * pp}\<close>] by (simp add: distrib_left mult.assoc)
      then show ?thesis unfolding stride_set_def by (rule image_cong [OF refl])
    qed
    then show ?thesis
      unfolding reference_topology_def parallel_topology.simps by (intro sets) simp_all
  qed
qed

lemma infer_default:
  assumes "1 \<le> tp" "1 \<le> pp" "1 \<le> dp"
  shows "infer_parallel_topology (tp * dp * pp) pp tp None 1 1 None False = Inr (reference_topology tp dp pp)"
proof -
  have world: "1 \<le> tp * dp * pp" using assms by (simp add: one_le_mult)
  have eq: "tp * dp * pp = dp * (pp * tp)" by simp
  have div: "tp * dp * pp div (pp * tp) = dp" "tp * dp * pp mod (pp * tp) = 0"
    unfolding eq using assms by simp_all
  let ?g = "\<lparr>gen_order = [''tp'', ''cp'', ''ep'', ''dp'', ''pp''], gen_sizes = [tp, 1, 1, dp, pp],
     gen_world = tp * dp * pp, rank_offset = 0\<rparr>"
  have "group_sets (get_ranks ?g ''pp'') = Inr (pp_groups (reference_topology tp dp pp))"
    "group_sets (get_ranks ?g ''tp'') = Inr (map (\<lambda>i. stride_set (tp * i) 1 tp) [0..dp * pp - 1])"
    "group_sets (get_ranks ?g ''dp'') = Inr (dp_groups (reference_topology tp dp pp))"
    using default_groups [OF assms(1,3,2)]
    by (auto simp: get_ranks_def Let_def group_sets_def eval_nat_numeral split: sum.splits)
  then have "topology_of ?g tp = Inr (reference_topology tp dp pp)"
    by (simp add: topology_of_def reference_topology_def)
  moreover have "new_generator tp 1 dp pp 1 (resolve_parallel_order None False) 0 = Inr ?g"
    by (simp add: resolve_parallel_order_def default_generator)
  moreover have "tp * pp * dp * 1 * 1 = tp * dp * pp" "pp * tp \<noteq> 0" using assms by simp_all
  ultimately show ?thesis
    using world div unfolding infer_parallel_topology_def Let_def option.case div by simp
qed

text \<open>
  With the default order and no context or expert parallelism the inferred topology equals the
  reference layout for every world that pp * tp divides: tensor groups of consecutive ranks, data
  groups with stride tp, pipeline groups with stride tp * dp.
\<close>
theorem default_topology_is_reference:
  assumes "1 \<le> tp" "1 \<le> pp" "1 \<le> dp"
  shows "infer_parallel_topology (tp * dp * pp) pp tp None 1 1 None False = Inr (reference_topology tp dp pp)"
  using assms by (rule infer_default)

theorem default_topology_is_reference_witness:
  "infer_parallel_topology 8 2 2 None 1 1 None False = Inr (reference_topology 2 2 2)"
  using default_topology_is_reference [of 2 2 2] by simp

text \<open>
  Without an explicit data-parallel size the default divides the world by pp * tp only, so
  every layout with context or expert parallelism is refused as inconsistent.
\<close>
theorem default_dp_rejects_cp_and_ep:
  assumes "1 \<le> tp" "1 \<le> pp" "1 < cp * ep"
  shows "infer_parallel_topology world pp tp None cp ep order mapping = Inl ValueError"
proof (cases "1 \<le> world \<and> world mod (pp * tp) = 0")
  case True
  have n: "1 \<le> pp * tp" using assms by (simp add: one_le_mult)
  then have "tp * pp * (world div (pp * tp)) = world"
    using True by (metis mult.commute mult_div_mod_eq add.right_neutral)
  then have "tp * pp * (world div (pp * tp)) * cp * ep = world * (cp * ep)" by simp
  moreover have "world * (cp * ep) \<noteq> world" using True assms(3) by simp
  ultimately have "tp * pp * (world div (pp * tp)) * cp * ep \<noteq> world" by (simp only:) simp
  then show ?thesis using True n
    unfolding infer_parallel_topology_def Let_def option.case by (simp only: if_True if_False simp_thms) auto
next
  case False
  moreover have "1 \<le> pp * tp" using assms by (simp add: one_le_mult)
  ultimately show ?thesis by (auto simp: infer_parallel_topology_def Let_def)
qed

theorem default_dp_rejects_cp_and_ep_witness:
  "infer_parallel_topology 8 2 2 None 2 1 None False = Inl ValueError"
  by (rule default_dp_rejects_cp_and_ep) simp_all

section \<open>The host file\<close>

record host_entry =
  hostname :: string
  slots :: int
  ansible_host :: "string option"
  ansible_user :: "string option"
  rank_start :: int
  host_ranks :: "int list"

definition is_word :: "char \<Rightarrow> bool" where
  "is_word c = (is_digit c \<or> is_upper c \<or> (CHR ''a'' \<le> c \<and> c \<le> CHR ''z'') \<or> c = CHR ''_'')"

text \<open>\<^verbatim>\<open>re.findall(r"(\w+)=(\S+)", s)\<close>.\<close>

function kv_findall :: "string \<Rightarrow> (string \<times> string) list" where
  "kv_findall [] = []"
| "kv_findall (c # s) =
     (let word = takeWhile is_word (c # s); rest = dropWhile is_word (c # s) in
      if word \<noteq> [] \<and> rest \<noteq> [] \<and> hd rest = CHR ''='' \<and> takeWhile (\<lambda>c. \<not> is_ws c) (tl rest) \<noteq> [] then
        (word, takeWhile (\<lambda>c. \<not> is_ws c) (tl rest)) # kv_findall (dropWhile (\<lambda>c. \<not> is_ws c) (tl rest))
      else kv_findall s)"
  by pat_completeness auto
termination
proof (relation "measure length", goal_cases)
  case (2 c s word rest)
  have "length (dropWhile (\<lambda>c. \<not> is_ws c) (tl rest)) \<le> length (tl rest)" by (rule length_dropWhile_le)
  also have "\<dots> < length rest" using 2 by simp
  also have "\<dots> \<le> length (c # s)" unfolding 2(2) by (rule length_dropWhile_le)
  finally show ?case by simp
qed simp_all

text \<open>The parameters of a line: the last value of a key stays; a bad slot count raises.\<close>

fun host_params :: "(string \<times> string) list \<Rightarrow> int \<Rightarrow> string option \<Rightarrow> string option \<Rightarrow>
    py_exn + int \<times> string option \<times> string option" where
  "host_params [] n host user = Inr (n, host, user)"
| "host_params ((key, v) # kvs) n host user =
     (if key = ''slots'' then
        (case py_int v of None \<Rightarrow> Inl ValueError | Some m \<Rightarrow> host_params kvs m host user)
      else if key = ''ansible_host'' then host_params kvs n (Some v) user
      else if key = ''ansible_user'' then host_params kvs n host (Some v)
      else host_params kvs n host user)"

text \<open>A stripped non-empty line: the name is its first word, the parameters are the rest.\<close>

definition host_line :: "string \<Rightarrow> int \<Rightarrow> py_exn + host_entry" where
  "host_line line next_rank =
     (let name = takeWhile (\<lambda>c. \<not> is_ws c) line;
          params = dropWhile is_ws (dropWhile (\<lambda>c. \<not> is_ws c) line) in
      case host_params (kv_findall params) 1 None None of
        Inl e \<Rightarrow> Inl e
      | Inr (n, host, user) \<Rightarrow>
          if n < 1 then Inl ValueError
          else Inr \<lparr>hostname = name, slots = n, ansible_host = host, ansible_user = user,
              rank_start = next_rank, host_ranks = [next_rank..next_rank + n - 1]\<rparr>)"

fun host_lines :: "string list \<Rightarrow> int \<Rightarrow> host_entry list \<Rightarrow> py_exn + host_entry list" where
  "host_lines [] next_rank hosts = Inr hosts"
| "host_lines (raw # rest) next_rank hosts =
     (let line = py_strip (hd (split_on CHR ''#'' raw)) in
      if line = [] then host_lines rest next_rank hosts
      else case host_line line next_rank of
          Inl e \<Rightarrow> Inl e
        | Inr h \<Rightarrow> host_lines rest (next_rank + slots h) (hosts @ [h]))"

definition parse_hostfile :: "string \<Rightarrow> py_exn + host_entry list" where
  "parse_hostfile contents =
     (case host_lines (py_splitlines contents) 0 [] of
        Inl e \<Rightarrow> Inl e
      | Inr hosts \<Rightarrow> if hosts = [] then Inl ValueError else Inr hosts)"

definition world_size :: "host_entry list \<Rightarrow> int" where
  "world_size hosts = sum_list (map slots hosts)"

definition rank_to_machine :: "host_entry list \<Rightarrow> (int \<times> string) list" where
  "rank_to_machine hosts =
     foldl (\<lambda>m (r, mach). (r, mach) # filter (\<lambda>p. fst p \<noteq> r) m) []
       (concat (map (\<lambda>h. map (\<lambda>r. (r, hostname h)) (host_ranks h)) hosts))"

text \<open>The lines of the Ansible inventory.\<close>

definition inventory_host :: "string option \<Rightarrow> host_entry \<Rightarrow> string" where
  "inventory_host default_user h =
     join_with '' '' ([hostname h]
       @ (case ansible_host h of Some a \<Rightarrow> if a \<noteq> [] then [''ansible_host='' @ a] else [] | None \<Rightarrow> [])
       @ (let user = (case ansible_user h of Some u \<Rightarrow> if u \<noteq> [] then Some u else default_user | None \<Rightarrow> default_user)
          in case user of Some u \<Rightarrow> if u \<noteq> [] then [''ansible_user='' @ u] else [] | None \<Rightarrow> [])
       @ [''rank_start='' @ show_int (rank_start h), ''slots='' @ show_int (slots h)])"

definition ansible_inventory :: "host_entry list \<Rightarrow> string option \<Rightarrow> string" where
  "ansible_inventory hosts default_user =
     join_with [CHR 0x0A] ([''[training]''] @ map (inventory_host default_user) hosts
       @ [[], ''[training:vars]'', ''ansible_python_interpreter=auto_silent'']) @ [CHR 0x0A]"

definition infer_topology ::
    "host_entry list \<Rightarrow> int \<Rightarrow> int \<Rightarrow> int option \<Rightarrow> int \<Rightarrow> int \<Rightarrow> string option \<Rightarrow> bool \<Rightarrow> py_exn + parallel_topology" where
  "infer_topology hosts pp tp dp cp ep order mapping =
     infer_parallel_topology (world_size hosts) pp tp dp cp ep order mapping"

definition topology_from_hostfile ::
    "string \<Rightarrow> int \<Rightarrow> int \<Rightarrow> int option \<Rightarrow> int \<Rightarrow> int \<Rightarrow> string option \<Rightarrow> bool \<Rightarrow>
     py_exn + parallel_topology \<times> host_entry list \<times> (int \<times> string) list" where
  "topology_from_hostfile contents pp tp dp cp ep order mapping =
     (case parse_hostfile contents of
        Inl e \<Rightarrow> Inl e
      | Inr hosts \<Rightarrow> (case infer_topology hosts pp tp dp cp ep order mapping of
          Inl e \<Rightarrow> Inl e | Inr t \<Rightarrow> Inr (t, hosts, rank_to_machine hosts)))"

section \<open>Ranks follow the host file\<close>

text \<open>The invariant of the reading loop: the hosts so far hold the ranks below the next one.\<close>

definition ranks_below :: "host_entry list \<Rightarrow> int \<Rightarrow> bool" where
  "ranks_below hosts n \<longleftrightarrow> 0 \<le> n \<and> concat (map host_ranks hosts) = [0..n - 1] \<and> world_size hosts = n
     \<and> (\<forall>h\<in>set hosts. 1 \<le> slots h \<and> host_ranks h = [rank_start h..rank_start h + slots h - 1])"

lemma host_line_ranks:
  assumes "host_line line n = Inr h"
  shows "1 \<le> slots h \<and> rank_start h = n \<and> host_ranks h = [n..n + slots h - 1]"
  using assms by (auto simp: host_line_def Let_def split: sum.splits prod.splits if_splits)

lemma upto_append: "a \<le> b \<Longrightarrow> b \<le> c \<Longrightarrow> [a..b - 1] @ [b..c - 1] = [a..c - 1]" for a b c :: int
  by (metis upto_split1 upto_split2 upto.simps append_Nil2 append_Cons append_assoc diff_add_cancel
      order.order_iff_strict upto_empty diff_less less_add_one linorder_not_le zless_imp_add1_zle
      upto_rec1 upto_rec2 self_append_conv2)

lemma host_lines_ranks:
  assumes "host_lines ls n hosts = Inr res" "ranks_below hosts n"
  shows "\<exists>m. ranks_below res m"
  using assms
proof (induction ls n hosts rule: host_lines.induct)
  case (2 raw rest n hosts)
  let ?line = "py_strip (hd (split_on CHR ''#'' raw))"
  show ?case
  proof (cases "?line = []")
    case True
    then show ?thesis using 2 by simp
  next
    case False
    then obtain h where h: "host_line ?line n = Inr h"
      using "2.prems"(1) by (auto simp: Let_def split: sum.splits)
    note hr = host_line_ranks [OF h]
    have "ranks_below (hosts @ [h]) (n + slots h)"
      using "2.prems"(2) hr upto_append [of 0 n "n + slots h"]
      by (auto simp: ranks_below_def world_size_def)
    then show ?thesis using "2.IH"(2) [OF refl False h] "2.prems"(1) h False by (simp add: Let_def)
  qed
qed auto

lemma parse_hostfile_ranks: "parse_hostfile contents = Inr hosts \<Longrightarrow> ranks_below hosts (world_size hosts) \<and> hosts \<noteq> []"
proof -
  assume "parse_hostfile contents = Inr hosts"
  then have "host_lines (py_splitlines contents) 0 [] = Inr hosts" "hosts \<noteq> []"
    by (auto simp: parse_hostfile_def split: sum.splits if_splits)
  then show ?thesis using host_lines_ranks [of _ 0 "[]" hosts]
    by (auto simp: ranks_below_def world_size_def)
qed

lemma rank_fold_map:
  "map_of (foldl (\<lambda>m (r, mach). (r, mach) # filter (\<lambda>p. fst p \<noteq> r) m) m ps) = map_of m ++ map_of (rev ps)"
proof (induction ps arbitrary: m)
  case (Cons p ps)
  obtain r mach where p: "p = (r, mach)" by (cases p)
  have "map_of (filter (\<lambda>p. fst p \<noteq> r) m) k = (if k = r then None else map_of m k)" for k
    by (induction m) auto
  then have "map_of ((r, mach) # filter (\<lambda>p. fst p \<noteq> r) m) = (map_of m)(r \<mapsto> mach)"
    by (auto simp: fun_eq_iff)
  then show ?case using Cons.IH [of "(r, mach) # filter (\<lambda>p. fst p \<noteq> r) m"] p
    by (simp add: fun_eq_iff map_add_def split: option.splits)
qed simp

lemma rank_to_machine_lookup:
  assumes "ranks_below hosts n" "h \<in> set hosts" "r \<in> set (host_ranks h)"
  shows "map_of (rank_to_machine hosts) r = Some (hostname h)"
proof -
  let ?ps = "concat (map (\<lambda>h. map (\<lambda>r. (r, hostname h)) (host_ranks h)) hosts)"
  have "map fst ?ps = concat (map host_ranks hosts)" by (induction hosts) (simp_all add: comp_def)
  then have "distinct (map fst (rev ?ps))" using assms(1) by (simp add: rev_map [symmetric] ranks_below_def)
  moreover have "(r, hostname h) \<in> set (rev ?ps)" using assms(2,3) by auto
  ultimately have "map_of (rev ?ps) r = Some (hostname h)" by (rule map_of_is_SomeI)
  then show ?thesis unfolding rank_to_machine_def rank_fold_map by simp
qed

text \<open>
  A host file that is accepted numbers the ranks 0 to world_size - 1 without gap or overlap, in
  file order, as many per host as it has slots (at least one), and the rank map sends every rank
  to the host that holds it.
\<close>
theorem hostfile_numbers_all_ranks:
  assumes "parse_hostfile contents = Inr hosts"
  shows "concat (map host_ranks hosts) = [0..world_size hosts - 1]
    \<and> (\<forall>h\<in>set hosts. 1 \<le> slots h \<and> int (length (host_ranks h)) = slots h
        \<and> (\<forall>r\<in>set (host_ranks h). map_of (rank_to_machine hosts) r = Some (hostname h)))"
  using parse_hostfile_ranks [OF assms] rank_to_machine_lookup
  by (auto simp: ranks_below_def)

theorem hostfile_numbers_all_ranks_witness:
  "\<exists>hosts. parse_hostfile ''a slots=2'' = Inr hosts \<and> concat (map host_ranks hosts) = [0..1]"
proof -
  obtain hosts where h: "parse_hostfile ''a slots=2'' = Inr hosts" "world_size hosts = 2"
    by (simp add: parse_hostfile_def py_splitlines_def is_line_break_def py_strip_def host_line_def
        is_word_def is_upper_def is_digit_def is_ws_def py_int_def py_int_digits_def nat_of_digits_def
        digit_val_def world_size_def Let_def)
  then show ?thesis using hostfile_numbers_all_ranks [OF h(1)] by simp
qed

text \<open>Every rank of the inferred groups is one that the host file assigned.\<close>

lemma reference_members:
  assumes "1 \<le> tp" "1 \<le> dp" "1 \<le> pp" "g \<in> set (labelled_groups (reference_topology tp dp pp))" "r \<in> snd g"
  shows "r \<in> {0..<tp * dp * pp}"
proof -
  have pos: "\<forall>n\<in>set [tp, 1, 1, dp, pp]. 1 \<le> n" using assms by simp
  have world: "prod_list [tp, 1, 1, dp, pp] = tp * dp * pp" by (simp add: mult.assoc)
  have inside: "\<Union> (set sets) = {0..<tp * dp * pp}"
    if "length flags = 5" "group_sets (rank_groups (tp * dp * pp) [tp, 1, 1, dp, pp] flags) = Inr sets" for flags sets
  proof -
    have len: "length [tp, 1, 1, dp, pp] = length flags" using that(1) by simp
    let ?xs = "zip [tp, 1, 1, dp, pp] flags"
    have "\<forall>p\<in>set ?xs. 1 \<le> fst p" using pos by (auto dest: set_zip_leftD)
    then have "set (concat (layout_groups ?xs)) = {0..<prod_list (map fst ?xs)}"
      by (rule set_layout_groups)
    also have "map fst ?xs = [tp, 1, 1, dp, pp]" using len by (intro map_fst_zip) simp
    finally have all: "set (concat (layout_groups ?xs)) = {0..<tp * dp * pp}" by (simp only: world)
    have "rank_groups (tp * dp * pp) [tp, 1, 1, dp, pp] flags = Inr (layout_groups ?xs)"
      using rank_groups_layout [OF len pos] by (simp only: world)
    then have "sets = map set (layout_groups ?xs)" using that(2) by (simp add: group_sets_def)
    then show ?thesis using all by simp
  qed
  note ref = default_groups [OF assms(1-3), THEN inside [rotated]]
  have "snd g \<in> set (pp_groups (reference_topology tp dp pp))
      \<or> snd g \<in> set (map (\<lambda>i. stride_set (tp * i) 1 tp) [0..dp * pp - 1])
      \<or> snd g \<in> set (dp_groups (reference_topology tp dp pp))"
    using assms(4) by (auto simp: labelled_groups_def reference_topology_def)
  then show ?thesis using ref assms(5) by auto
qed

text \<open>
  A topology inferred from a host file with the default layout mentions only ranks that the
  host file assigned: every rank of every group has a machine in the rank map returned with it.
\<close>
theorem group_ranks_have_machines:
  assumes "topology_from_hostfile contents pp tp None 1 1 None False = Inr (t, hosts, rm)"
    and "1 \<le> tp" "1 \<le> pp" "g \<in> set (labelled_groups t)" "r \<in> snd g"
  shows "\<exists>h\<in>set hosts. r \<in> set (host_ranks h) \<and> map_of rm r = Some (hostname h)"
proof -
  have h: "parse_hostfile contents = Inr hosts" and rm: "rm = rank_to_machine hosts"
    and t: "infer_parallel_topology (world_size hosts) pp tp None 1 1 None False = Inr t"
    using assms(1) by (auto simp: topology_from_hostfile_def infer_topology_def split: sum.splits)
  let ?w = "world_size hosts" and ?dp = "world_size hosts div (pp * tp)"
  have n: "1 \<le> pp * tp" using assms(2,3) by (simp add: one_le_mult)
  have w: "1 \<le> ?w" "?w mod (pp * tp) = 0"
    using t by (auto simp: infer_parallel_topology_def Let_def split: if_splits)
  have "?w = ?dp * (pp * tp)" using w(2) by (metis add.right_neutral div_mult_mod_eq)
  then have eq: "?w = tp * ?dp * pp" by (metis mult.assoc mult.commute)
  have "1 \<le> ?dp" using w(1) \<open>?w = ?dp * (pp * tp)\<close> n by (metis int_one_le_iff_zero_less zero_less_mult_pos2 zero_less_one order_less_le_trans)
  then have "t = reference_topology tp ?dp pp"
    using infer_default [OF assms(2,3)] t eq by (metis Inr_inject)
  then have "r \<in> {0..<?w}" using reference_members [OF assms(2) \<open>1 \<le> ?dp\<close> assms(3)] assms(4,5) eq by metis
  then have "r \<in> set (concat (map host_ranks hosts))"
    using parse_hostfile_ranks [OF h] by (simp add: ranks_below_def)
  then obtain e where "e \<in> set hosts" "r \<in> set (host_ranks e)" by auto
  with rank_to_machine_lookup parse_hostfile_ranks [OF h] show ?thesis unfolding rm by blast
qed

theorem group_ranks_have_machines_witness:
  "\<exists>t hosts rm. topology_from_hostfile ''a slots=2'' 1 2 None 1 1 None False = Inr (t, hosts, rm)
    \<and> (\<exists>h\<in>set hosts. 1 \<in> set (host_ranks h) \<and> map_of rm 1 = Some (hostname h))"
proof -
  obtain hosts where h: "parse_hostfile ''a slots=2'' = Inr hosts" "world_size hosts = 2"
    by (simp add: parse_hostfile_def py_splitlines_def is_line_break_def py_strip_def host_line_def
        is_word_def is_upper_def is_digit_def is_ws_def py_int_def py_int_digits_def nat_of_digits_def
        digit_val_def world_size_def Let_def)
  have "infer_parallel_topology (2 * 1 * 1) 1 2 None 1 1 None False = Inr (reference_topology 2 1 1)"
    by (rule infer_default) simp_all
  then have eq: "topology_from_hostfile ''a slots=2'' 1 2 None 1 1 None False
      = Inr (reference_topology 2 1 1, hosts, rank_to_machine hosts)"
    using h by (simp add: topology_from_hostfile_def infer_topology_def)
  have "(TP, stride_set 0 1 2) \<in> set (labelled_groups (reference_topology 2 1 1))"
    by (simp add: labelled_groups_def reference_topology_def)
  moreover have "1 \<in> stride_set 0 1 2" by (simp add: stride_set_def)
  ultimately show ?thesis using group_ranks_have_machines [OF eq] eq by fastforce
qed

end
