(* ===== verification/ProcessTree.thy ===== *)
theory ProcessTree
  imports StackModel
begin

text \<open>
  Discovery of the training processes of a node: \<^verbatim>\<open>stack_analyzer/process_tree.py\<close> and
  the script that runs on every node, \<^verbatim>\<open>scripts/remote_capture.py\<close>.  The listing of
  processes and their environments is a parameter.
\<close>

section \<open>Roles and ranks from the command line\<close>

text \<open>\<^verbatim>\<open>re.search\<close> of an alternation of literals, ignoring case.\<close>

definition mentions :: "string list \<Rightarrow> string \<Rightarrow> bool" where
  "mentions literals cmdline = list_ex (\<lambda>l. contains_sub l (py_lower cmdline)) literals"

definition TRAINING_CMD_PATTERNS :: "(string list \<times> process_role) list" where
  "TRAINING_CMD_PATTERNS =
     [([''torchrun'', ''torch.distributed.run''], TRAINER),
      ([''train.py'', ''pretrain'', ''finetune'', ''megatron'', ''deepspeed''], TRAINER),
      ([''dataloader'', ''dataloader'', ''webdataset'', ''prefetch''], DATALOADER),
      ([''checkpoint'', ''bytecheckpoint'', ''save_ckpt'', ''load_ckpt''], CHECKPOINT)]"

definition ROLE_MAP :: "(string list \<times> process_role) list" where
  "ROLE_MAP =
     [([''torchrun'', ''torch.distributed.run'', ''train.py'', ''pretrain'', ''megatron'', ''deepspeed''], TRAINER),
      ([''dataloader'', ''dataloader'', ''webdataset'', ''prefetch''], DATALOADER),
      ([''checkpoint'', ''bytecheckpoint'', ''save_ckpt'', ''load_ckpt''], CHECKPOINT)]"

fun first_role :: "(string list \<times> process_role) list \<Rightarrow> string \<Rightarrow> process_role" where
  "first_role [] cmdline = OTHER"
| "first_role ((literals, role) # rest) cmdline =
     (if mentions literals cmdline then role else first_role rest cmdline)"

definition classify_process :: "string \<Rightarrow> process_role" where
  "classify_process cmdline = first_role TRAINING_CMD_PATTERNS cmdline"

definition classify_role :: "string \<Rightarrow> process_role" where
  "classify_role cmdline = first_role ROLE_MAP cmdline"

text \<open>\<open>number_after key s\<close> is the group of \<^verbatim>\<open>re.search(key + r"[= ](\d+)", s)\<close>.\<close>

fun number_after :: "string \<Rightarrow> string \<Rightarrow> nat option" where
  "number_after key [] = None"
| "number_after key (c # s) =
     (let rest = drop (length key) (c # s) in
      if is_prefix_of key (c # s) \<and> rest \<noteq> [] \<and> (hd rest = CHR ''='' \<or> hd rest = CHR '' '')
         \<and> takeWhile is_digit (tl rest) \<noteq> []
      then Some (nat_of_digits (takeWhile is_digit (tl rest)))
      else number_after key s)"

definition extract_rank_local :: "string \<Rightarrow> int" where
  "extract_rank_local cmdline =
     (case number_after ''rank'' (py_lower cmdline) of
        Some n \<Rightarrow> int n
      | None \<Rightarrow> (case number_after ''--local_rank'' (py_lower cmdline) of Some n \<Rightarrow> int n | None \<Rightarrow> -1))"

definition env_number :: "(string \<Rightarrow> string option) \<Rightarrow> string \<Rightarrow> int" where
  "env_number env key = (case env key of
      None \<Rightarrow> -1
    | Some v \<Rightarrow> if digits v then int (nat_of_digits v) else -1)"

fun first_number :: "string list \<Rightarrow> string \<Rightarrow> int" where
  "first_number [] cmdline = -1"
| "first_number (key # keys) cmdline =
     (case number_after key cmdline of Some n \<Rightarrow> int n | None \<Rightarrow> first_number keys cmdline)"

definition extract_rank :: "string \<Rightarrow> (string \<Rightarrow> string option) \<Rightarrow> int \<times> int" where
  "extract_rank cmdline env =
     (let global_rank = env_number env ''RANK''; local_rank = env_number env ''LOCAL_RANK'' in
      (if 0 \<le> global_rank then global_rank else first_number [''rank''] (py_lower cmdline),
       if 0 \<le> local_rank then local_rank
       else first_number [''local_rank'', ''--local_rank'', ''--local-rank''] (py_lower cmdline)))"

definition resolve_global_rank :: "int \<Rightarrow> int \<Rightarrow> int \<Rightarrow> int" where
  "resolve_global_rank global_rank local_rank rank_start =
     (if 0 \<le> global_rank then global_rank
      else if 0 \<le> local_rank \<and> 0 \<le> rank_start then rank_start + local_rank
      else -1)"

lemma number_after_suffix:
  assumes "number_after (pre @ key) s = Some n" "key \<noteq> []"
  shows "number_after key s \<noteq> None"
  using assms
proof (induction s)
  case (Cons c s)
  have prefix_shift: "is_prefix_of (pre @ key) t \<Longrightarrow> is_prefix_of key (drop (length pre) t)" for t
    by (induction pre arbitrary: t) (case_tac t; auto)+
  have found: "number_after key (u @ v) \<noteq> None"
    if "is_prefix_of key v" "drop (length key) v \<noteq> []"
      "hd (drop (length key) v) = CHR ''='' \<or> hd (drop (length key) v) = CHR '' ''"
      "takeWhile is_digit (tl (drop (length key) v)) \<noteq> []" for u v
  proof (induction u)
    case Nil
    from that assms(2) show ?case by (cases v) (auto simp: Let_def)
  next
    case (Cons a u)
    then show ?case by (simp add: Let_def)
  qed
  let ?rest = "drop (length (pre @ key)) (c # s)"
  show ?case
  proof (cases "is_prefix_of (pre @ key) (c # s) \<and> ?rest \<noteq> [] \<and> (hd ?rest = CHR ''='' \<or> hd ?rest = CHR '' '')
         \<and> takeWhile is_digit (tl ?rest) \<noteq> []")
    case True
    then have "number_after key (take (length pre) (c # s) @ drop (length pre) (c # s)) \<noteq> None"
      using prefix_shift [of "c # s"] by (intro found) (auto simp: drop_drop add.commute)
    then show ?thesis by simp
  next
    case False
    then have "number_after (pre @ key) s = Some n"
      using Cons.prems(1) by (simp only: number_after.simps Let_def if_False)
    then show ?thesis using Cons.IH assms(2) by (simp add: Let_def)
  qed
qed simp

text \<open>
  A local rank given on the command line is taken for the global rank: without a numeric RANK
  in the environment, whenever the command line states a local rank in any of the recognised
  forms, the global rank is read from the same kind of text and the node's first rank is never
  used.
\<close>
theorem local_rank_is_taken_for_global:
  assumes "env_number env ''RANK'' < 0"
    and "0 \<le> first_number [''local_rank'', ''--local_rank'', ''--local-rank''] (py_lower cmdline)"
  shows "0 \<le> fst (extract_rank cmdline env)
    \<and> resolve_global_rank (fst (extract_rank cmdline env)) (snd (extract_rank cmdline env)) rank_start
        = first_number [''rank''] (py_lower cmdline)"
proof -
  let ?low = "py_lower cmdline"
  have "\<exists>pre n. number_after (pre @ ''rank'') ?low = Some n"
    using assms(2) number_after_suffix [of "''local_''" "''rank''"]
    by (auto split: option.splits intro: exI [of _ "''local_''"] exI [of _ "''--local_''"] exI [of _ "''--local-''"])
  then obtain n where n: "number_after ''rank'' ?low = Some n"
    using number_after_suffix by blast
  then show ?thesis using assms(1) by (simp add: extract_rank_def resolve_global_rank_def Let_def)
qed

theorem local_rank_is_taken_for_global_witness:
  "resolve_global_rank (fst (extract_rank ''train.py --local_rank=3'' (\<lambda>_. None)))
     (snd (extract_rank ''train.py --local_rank=3'' (\<lambda>_. None))) 8 = 3"
proof -
  let ?cmd = "''train.py --local_rank=3''"
  have low: "py_lower ?cmd = ?cmd" by (simp add: py_lower_def lower_char_def is_upper_def)
  have n: "first_number [''rank''] ?cmd = 3"
    "first_number [''local_rank'', ''--local_rank'', ''--local-rank''] ?cmd = 3"
    by (simp_all add: Let_def is_digit_def nat_of_digits_def digit_val_def)
  show ?thesis
    using local_rank_is_taken_for_global [of "\<lambda>_. None" ?cmd 8]
    by (simp only: low n) (simp add: env_number_def)
qed

text \<open>The two tables differ: a fine-tuning run is a trainer here and nothing on the node.\<close>

lemma finetune_not_a_trainer_on_the_node:
  "classify_process ''python finetune.py'' = TRAINER"
  "classify_role ''python finetune.py'' = OTHER"
  by (simp_all add: classify_process_def classify_role_def TRAINING_CMD_PATTERNS_def ROLE_MAP_def
      mentions_def py_lower_def lower_char_def is_upper_def)

section \<open>Discovery\<close>

record process_snapshot =
  pid :: int
  ppid :: int
  cmdline :: string
  environ :: "(string \<times> string) list"
  role :: process_role

type_synonym selection = "(int \<times> process_snapshot) list"

text \<open>The children of one process, in order: an unseen pid is selected and queued.\<close>

fun visit_children :: "process_snapshot list \<Rightarrow> selection \<Rightarrow> int list \<Rightarrow> selection \<times> int list" where
  "visit_children [] selected queue = (selected, queue)"
| "visit_children (child # rest) selected queue =
     (if pid child \<in> fst ` set selected then visit_children rest selected queue
      else visit_children rest (selected @ [(pid child, child)]) (queue @ [pid child]))"

lemma visit_keys:
  "fst ` set (fst (visit_children cs sel q)) = fst ` set sel \<union> pid ` set cs"
  by (induction cs sel q rule: visit_children.induct) auto

lemma visit_queue:
  "set (snd (visit_children cs sel q)) = set q \<union> (pid ` set cs - fst ` set sel)"
  by (induction cs sel q rule: visit_children.induct) auto

lemma visit_length:
  "length (snd (visit_children cs sel q)) = length q + length (fst (visit_children cs sel q)) - length sel
   \<and> length sel \<le> length (fst (visit_children cs sel q))
   \<and> distinct (map fst sel) = distinct (map fst (fst (visit_children cs sel q)))"
  by (induction cs sel q rule: visit_children.induct) auto

definition unselected :: "process_snapshot list \<Rightarrow> selection \<Rightarrow> nat" where
  "unselected procs selected = card (pid ` set procs - fst ` set selected)"

definition children_of :: "process_snapshot list \<Rightarrow> int \<Rightarrow> process_snapshot list" where
  "children_of procs parent = filter (\<lambda>p. ppid p = parent) procs"

text \<open>The loop over the queue: each round selects a new process or shortens the queue.\<close>

function discover_loop :: "process_snapshot list \<Rightarrow> selection \<Rightarrow> int list \<Rightarrow> selection" where
  "discover_loop procs selected queue =
     (if queue = [] then selected
      else let found = visit_children (children_of procs (last queue)) selected (butlast queue)
        in discover_loop procs (fst found) (snd found))"
  by pat_completeness auto
termination
proof (relation "measures [\<lambda>(procs, sel, q). unselected procs sel, \<lambda>(procs, sel, q). length q]", goal_cases)
  case 1
  show ?case by simp
next
  case (2 procs selected queue found)
  let ?cs = "children_of procs (last queue)"
  have keys: "fst ` set (fst found) = fst ` set selected \<union> pid ` set ?cs"
    unfolding 2(2) by (rule visit_keys)
  have sub: "pid ` set ?cs \<subseteq> pid ` set procs" by (auto simp: children_of_def)
  show ?case
  proof (cases "pid ` set ?cs \<subseteq> fst ` set selected")
    case True
    then have "unselected procs (fst found) = unselected procs selected"
      by (simp add: unselected_def keys Un_absorb2)
    moreover have "snd found = butlast queue"
    proof -
      have "visit_children cs selected q = (selected, q)" if "pid ` set cs \<subseteq> fst ` set selected" for cs q
        using that by (induction cs) auto
      then show ?thesis using True 2(2) by simp
    qed
    ultimately show ?thesis using 2(1) by (cases found) simp
  next
    case False
    then have "pid ` set procs - fst ` set (fst found) \<subset> pid ` set procs - fst ` set selected"
    proof -
      obtain x where x: "x \<in> pid ` set ?cs" "x \<notin> fst ` set selected" using False unfolding subset_iff by metis
      have "x \<in> pid ` set procs" using x(1) sub unfolding subset_iff by metis
      with x show ?thesis unfolding keys by blast
    qed
    then have "unselected procs (fst found) < unselected procs selected"
      unfolding unselected_def by (intro psubset_card_mono) auto
    then show ?thesis by (cases found) simp
  qed
qed

declare discover_loop.simps [simp del]

definition discover_training_processes :: "bool \<Rightarrow> process_snapshot list \<Rightarrow> process_snapshot list" where
  "discover_training_processes include_other_children_of_trainer procs =
     (let selected = foldl (\<lambda>d p. dict_update (pid p) p d) [] (filter (\<lambda>p. role p \<noteq> OTHER) procs);
          trainers = filter (\<lambda>p. role p = TRAINER) procs
      in map snd (if include_other_children_of_trainer
            then discover_loop procs selected (map pid trainers) else selected))"

text \<open>
  The specification: the pids reached from the trainers by steps to children that are not
  training processes themselves.
\<close>

inductive tracked :: "process_snapshot list \<Rightarrow> int \<Rightarrow> bool" for procs where
  trainer: "p \<in> set procs \<Longrightarrow> role p = TRAINER \<Longrightarrow> tracked procs (pid p)"
| child: "tracked procs x \<Longrightarrow> c \<in> set procs \<Longrightarrow> ppid c = x \<Longrightarrow>
    \<not> (\<exists>p\<in>set procs. pid p = pid c \<and> role p \<noteq> OTHER) \<Longrightarrow> tracked procs (pid c)"

definition related_pids :: "process_snapshot list \<Rightarrow> int set" where
  "related_pids procs = pid ` {p \<in> set procs. role p \<noteq> OTHER}"

definition selection_ok :: "process_snapshot list \<Rightarrow> selection \<Rightarrow> bool" where
  "selection_ok procs selected = (\<forall>p\<in>set selected. fst p = pid (snd p) \<and> snd p \<in> set procs)"

definition discovery_inv :: "process_snapshot list \<Rightarrow> selection \<Rightarrow> int list \<Rightarrow> bool" where
  "discovery_inv procs selected queue \<longleftrightarrow>
     related_pids procs \<subseteq> fst ` set selected
     \<and> fst ` set selected \<subseteq> related_pids procs \<union> {x. tracked procs x}
     \<and> (\<forall>x\<in>set queue. tracked procs x)
     \<and> (\<forall>x\<in>fst ` set selected. tracked procs x \<longrightarrow> x \<in> set queue \<or> pid ` set (children_of procs x) \<subseteq> fst ` set selected)
     \<and> selection_ok procs selected"

lemma discovery_inv_done:
  assumes "discovery_inv procs sel []"
  shows "related_pids procs \<subseteq> fst ` set sel"
    "fst ` set sel \<subseteq> related_pids procs \<union> {x. tracked procs x}"
    "\<forall>x\<in>fst ` set sel. tracked procs x \<longrightarrow> pid ` set (children_of procs x) \<subseteq> fst ` set sel"
  using assms unfolding discovery_inv_def by simp_all

lemma visit_members:
  "p \<in> set (fst (visit_children cs sel q)) \<Longrightarrow> p \<in> set sel \<or> fst p = pid (snd p) \<and> snd p \<in> set cs"
  by (induction cs sel q rule: visit_children.induct) (auto split: if_splits)

lemma discovery_inv_step:
  assumes inv: "discovery_inv procs sel q" and q: "q \<noteq> []"
  shows "discovery_inv procs (fst (visit_children (children_of procs (last q)) sel (butlast q)))
    (snd (visit_children (children_of procs (last q)) sel (butlast q)))"
proof -
  let ?cs = "children_of procs (last q)"
  let ?sel = "fst (visit_children ?cs sel (butlast q))" and ?q = "snd (visit_children ?cs sel (butlast q))"
  have keys: "fst ` set ?sel = fst ` set sel \<union> pid ` set ?cs" by (rule visit_keys)
  have queue: "set ?q = set (butlast q) \<union> (pid ` set ?cs - fst ` set sel)" by (rule visit_queue)
  have split_q: "set q = insert (last q) (set (butlast q))"
    using q by (metis append_butlast_last_id list.simps(15) rotate1.simps(2) set_rotate1)
  have last: "tracked procs (last q)" using inv q by (auto simp: discovery_inv_def)
  have new: "tracked procs x" if fresh: "x \<in> pid ` set ?cs - fst ` set sel" for x
  proof -
    obtain c where c: "c \<in> set procs" "ppid c = last q" "x = pid c" using fresh by (auto simp: children_of_def)
    have "x \<notin> related_pids procs" using fresh inv by (auto simp: discovery_inv_def)
    then have "\<not> (\<exists>p\<in>set procs. pid p = pid c \<and> role p \<noteq> OTHER)" using c(3) unfolding related_pids_def by (metis (mono_tags, lifting) image_eqI mem_Collect_eq)
    then show ?thesis unfolding c(3) using tracked.child [OF last c(1,2)] by simp
  qed
  have "x \<in> set ?q \<or> pid ` set (children_of procs x) \<subseteq> fst ` set ?sel"
    if "x \<in> fst ` set ?sel" "tracked procs x" for x
  proof (cases "x \<in> fst ` set sel")
    case True
    then have "x \<in> set q \<or> pid ` set (children_of procs x) \<subseteq> fst ` set sel"
      using inv that(2) unfolding discovery_inv_def by blast
    then consider "x = last q" | "x \<in> set (butlast q)" | "pid ` set (children_of procs x) \<subseteq> fst ` set sel"
      unfolding split_q by (elim disjE insertE)
    then show ?thesis unfolding keys queue by cases (simp_all add: le_supI1)
  next
    case False
    then show ?thesis using that(1) unfolding keys queue by blast
  qed
  moreover have "selection_ok procs ?sel"
    using visit_members inv by (fastforce simp: discovery_inv_def selection_ok_def children_of_def)
  moreover have "\<forall>x\<in>set ?q. tracked procs x"
  proof
    fix x assume "x \<in> set ?q"
    then consider "x \<in> set (butlast q)" | "x \<in> pid ` set ?cs - fst ` set sel" unfolding queue by blast
    then show "tracked procs x"
    proof cases
      case 1
      then show ?thesis using inv split_q by (simp add: discovery_inv_def)
    qed (rule new)
  qed
  moreover have "related_pids procs \<subseteq> fst ` set ?sel"
    unfolding keys using inv by (intro le_supI1) (simp add: discovery_inv_def)
  moreover have "fst ` set ?sel \<subseteq> related_pids procs \<union> {x. tracked procs x}"
  proof
    fix x assume "x \<in> fst ` set ?sel"
    then consider "x \<in> fst ` set sel" | "x \<in> pid ` set ?cs - fst ` set sel" unfolding keys by blast
    then show "x \<in> related_pids procs \<union> {x. tracked procs x}"
    proof cases
      case 1
      moreover have "fst ` set sel \<subseteq> related_pids procs \<union> {x. tracked procs x}"
        using inv by (simp add: discovery_inv_def)
      ultimately show ?thesis by (rule rev_subsetD)
    qed (simp add: new)
  qed
  ultimately show ?thesis unfolding discovery_inv_def by (intro conjI ballI impI) simp_all
qed

lemma discover_loop_result:
  assumes "discovery_inv procs sel q"
  shows "discovery_inv procs (discover_loop procs sel q) []"
  using assms
proof (induction procs sel q rule: discover_loop.induct)
  case (1 procs sel q)
  then show ?case
    using discovery_inv_step [of procs sel q]
    by (subst discover_loop.simps) (auto simp: Let_def)
qed

lemma initial_selection:
  "fst ` set (foldl (\<lambda>d p. dict_update (pid p) p d) d ps) = fst ` set d \<union> pid ` set ps"
  by (induction ps arbitrary: d) auto

lemma initial_members:
  "x \<in> set (foldl (\<lambda>d p. dict_update (pid p) p d) d ps) \<Longrightarrow> x \<in> set d \<or> fst x = pid (snd x) \<and> snd x \<in> set ps"
proof (induction ps arbitrary: d)
  case (Cons p ps)
  then have "x \<in> set (dict_update (pid p) p d) \<or> fst x = pid (snd x) \<and> snd x \<in> set ps" by simp
  then show ?case by (auto dest!: dict_update_members)
qed simp

lemma discovery_inv_init:
  "discovery_inv procs (foldl (\<lambda>d p. dict_update (pid p) p d) [] (filter (\<lambda>p. role p \<noteq> OTHER) procs))
     (map pid (filter (\<lambda>p. role p = TRAINER) procs))"
proof -
  let ?sel = "foldl (\<lambda>d p. dict_update (pid p) p d) [] (filter (\<lambda>p. role p \<noteq> OTHER) procs)"
  have keys: "fst ` set ?sel = related_pids procs" by (auto simp: initial_selection related_pids_def)
  have "x \<in> pid ` {p \<in> set procs. role p = TRAINER}" if "tracked procs x" "x \<in> related_pids procs" for x
    using that by cases (auto simp: related_pids_def)
  then show ?thesis
    unfolding discovery_inv_def selection_ok_def keys using initial_members [of _ "[]"]
    by (fastforce intro: tracked.trainer)
qed

text \<open>
  C10: Discovery ends on every process table, cyclic ones included, and selects exactly the pids of
  the training processes and of the processes reached from a trainer through children that are not
  training processes; each selected process is one of the table.
\<close>
theorem discovery_is_exact:
  "pid ` set (discover_training_processes True procs) = related_pids procs \<union> {x. tracked procs x}
   \<and> set (discover_training_processes True procs) \<subseteq> set procs"
proof -
  let ?sel = "foldl (\<lambda>d p. dict_update (pid p) p d) [] (filter (\<lambda>p. role p \<noteq> OTHER) procs)"
  let ?res = "discover_loop procs ?sel (map pid (filter (\<lambda>p. role p = TRAINER) procs))"
  have inv: "discovery_inv procs ?res []" by (rule discover_loop_result [OF discovery_inv_init])
  then have pids: "pid ` snd ` set ?res = fst ` set ?res" and sub: "snd ` set ?res \<subseteq> set procs"
    unfolding image_image by (auto simp: discovery_inv_def selection_ok_def intro!: image_cong)
  have kids: "\<forall>x\<in>fst ` set ?res. tracked procs x \<longrightarrow> pid ` set (children_of procs x) \<subseteq> fst ` set ?res"
    and related: "related_pids procs \<subseteq> fst ` set ?res"
    and bound: "fst ` set ?res \<subseteq> related_pids procs \<union> {x. tracked procs x}"
    using discovery_inv_done [OF inv] by blast+
  have closed: "x \<in> fst ` set ?res" if "tracked procs x" for x
    using that
  proof induction
    case (trainer p)
    then have "pid p \<in> related_pids procs" by (auto simp: related_pids_def)
    then show ?case using related by blast
  next
    case (child x c)
    then have "pid c \<in> pid ` set (children_of procs x)" by (auto simp: children_of_def)
    moreover have "pid ` set (children_of procs x) \<subseteq> fst ` set ?res"
      using kids child.IH child.hyps(1) by blast
    ultimately show ?case by blast
  qed
  then have "fst ` set ?res = related_pids procs \<union> {x. tracked procs x}"
    using related bound by blast
  then show ?thesis using pids sub by (simp add: discover_training_processes_def Let_def)
qed

section \<open>One worker per rank\<close>

definition resolved_rank :: "int \<Rightarrow> process_snapshot \<Rightarrow> int" where
  "resolved_rank rank_start p =
     (let r = extract_rank (cmdline p) (map_of (environ p)) in resolve_global_rank (fst r) (snd r) rank_start)"

definition is_launcher :: "process_snapshot \<Rightarrow> bool" where
  "is_launcher p = mentions [''torchrun'', ''torch.distributed.run''] (cmdline p)"

definition worker_candidates :: "int \<Rightarrow> process_snapshot list \<Rightarrow> process_snapshot list" where
  "worker_candidates rank_start procs =
     filter (\<lambda>p. 0 \<le> resolved_rank rank_start p \<and> \<not> is_launcher p) procs"

definition by_pid :: "process_snapshot list \<Rightarrow> (int \<times> process_snapshot) list" where
  "by_pid procs = foldl (\<lambda>d p. dict_update (pid p) p d) [] procs"

text \<open>The walk up the parents; the visited set ends it on a cyclic table.\<close>

function same_rank_ancestor ::
    "(int \<times> process_snapshot) list \<Rightarrow> (int \<Rightarrow> process_snapshot \<Rightarrow> bool) \<Rightarrow> int \<Rightarrow> int set \<Rightarrow> bool" where
  "same_rank_ancestor table found parent visited =
     (case map_of table parent of
        None \<Rightarrow> False
      | Some p \<Rightarrow>
          if parent \<in> visited then False
          else found parent p \<or> same_rank_ancestor table found (ppid p) (insert parent visited))"
  by pat_completeness auto
termination
proof (relation "measure (\<lambda>(table, f, x, v). card (fst ` set table - v))", goal_cases)
  case (2 table found parent visited p)
  then have "parent \<in> fst ` set table - visited" by (force dest: map_of_SomeD)
  then have "card (fst ` set table - insert parent visited) < card (fst ` set table - visited)"
    by (intro psubset_card_mono) auto
  then show ?case by simp
qed simp

declare same_rank_ancestor.simps [simp del]

definition select_rank_worker_roots :: "process_snapshot list \<Rightarrow> int \<Rightarrow> process_snapshot list" where
  "select_rank_worker_roots procs rank_start =
     (let candidates = worker_candidates rank_start procs;
          candidate_pids = set (map pid candidates) in
      filter (\<lambda>proc. \<not> same_rank_ancestor (by_pid procs)
          (\<lambda>x p. x \<in> candidate_pids \<and> resolved_rank rank_start p = resolved_rank rank_start proc)
          (ppid proc) {}) candidates)"

text \<open>The specification: the pids on the chain of parents.\<close>

inductive on_chain :: "(int \<times> process_snapshot) list \<Rightarrow> int \<Rightarrow> int \<Rightarrow> bool" for table where
  start: "map_of table x \<noteq> None \<Longrightarrow> on_chain table x x"
| up: "map_of table x = Some p \<Longrightarrow> on_chain table (ppid p) y \<Longrightarrow> on_chain table x y"

inductive_cases on_chainE: "on_chain table x y"

text \<open>The same, with the number of steps; the chain is the orbit of a partial function.\<close>

fun ancestor :: "(int \<times> process_snapshot) list \<Rightarrow> nat \<Rightarrow> int \<Rightarrow> int option" where
  "ancestor table 0 x = (case map_of table x of None \<Rightarrow> None | Some _ \<Rightarrow> Some x)"
| "ancestor table (Suc n) x = (case map_of table x of None \<Rightarrow> None | Some p \<Rightarrow> ancestor table n (ppid p))"

lemma on_chain_ancestor: "on_chain table x y \<longleftrightarrow> (\<exists>n. ancestor table n x = Some y)"
proof
  assume "on_chain table x y"
  then show "\<exists>n. ancestor table n x = Some y"
  proof induction
    case (start x)
    then show ?case by (intro exI [of _ 0]) auto
  next
    case (up x p y)
    then obtain n where "ancestor table n (ppid p) = Some y" by blast
    then show ?case using up(1) by (intro exI [of _ "Suc n"]) simp
  qed
next
  assume "\<exists>n. ancestor table n x = Some y"
  then obtain n where "ancestor table n x = Some y" by blast
  then show "on_chain table x y"
    by (induction n arbitrary: x) (auto split: option.splits intro: on_chain.intros)
qed

lemma ancestor_in_table: "ancestor table n x = Some y \<Longrightarrow> map_of table y \<noteq> None"
  by (induction n arbitrary: x) (auto split: option.splits)

lemma ancestor_add:
  "ancestor table (m + n) x = (case ancestor table m x of None \<Rightarrow> None | Some y \<Rightarrow> ancestor table n y)"
proof (induction m arbitrary: x)
  case 0
  show ?case by (cases n) (auto split: option.splits)
qed (auto split: option.splits)

text \<open>
  Whatever is on the chain is met on a first visit: with the least number of steps to it, no
  pid before it repeats.
\<close>

lemma same_rank_ancestor_complete:
  assumes "ancestor table n x = Some y" "map_of table y = Some p" "found y p"
    and "\<forall>m\<le>n. \<forall>z. ancestor table m x = Some z \<longrightarrow> z \<notin> visited"
    and "\<forall>i j z. i < j \<longrightarrow> j \<le> n \<longrightarrow> ancestor table i x = Some z \<longrightarrow> ancestor table j x \<noteq> Some z"
  shows "same_rank_ancestor table found x visited"
  using assms
proof (induction n arbitrary: x visited)
  case 0
  then have x: "x = y" "map_of table x = Some p" by (auto split: option.splits)
  moreover have "x \<notin> visited" using 0(4) x by simp
  ultimately show ?case using 0 by (subst same_rank_ancestor.simps) simp
next
  case (Suc n)
  then obtain q where q: "map_of table x = Some q" by (auto split: option.splits)
  have x0: "ancestor table 0 x = Some x" using q by simp
  have fresh: "x \<notin> visited" using Suc.prems(4) x0 by blast
  have step: "ancestor table (Suc k) x = ancestor table k (ppid q)" for k using q by simp
  have "same_rank_ancestor table found (ppid q) (insert x visited)"
  proof (rule Suc.IH)
    show "ancestor table n (ppid q) = Some y" using Suc.prems(1) q by simp
    show "map_of table y = Some p" "found y p" by fact+
    show "\<forall>m\<le>n. \<forall>z. ancestor table m (ppid q) = Some z \<longrightarrow> z \<notin> insert x visited"
    proof (intro allI impI)
      fix m z assume m: "m \<le> n" "ancestor table m (ppid q) = Some z"
      then have "ancestor table (Suc m) x = Some z" by (simp only: step)
      moreover have "Suc m \<le> Suc n" using m(1) by simp
      ultimately show "z \<notin> insert x visited" using Suc.prems(4,5) x0 by (metis insertE zero_less_Suc)
    qed
    show "\<forall>i j z. i < j \<longrightarrow> j \<le> n \<longrightarrow> ancestor table i (ppid q) = Some z \<longrightarrow> ancestor table j (ppid q) \<noteq> Some z"
      using Suc.prems(5) step by (metis Suc_le_mono Suc_less_eq)
  qed
  then show ?case using q fresh by (subst same_rank_ancestor.simps) simp
qed

lemma same_rank_ancestor_sound:
  "same_rank_ancestor table found x visited \<Longrightarrow> \<exists>y p. on_chain table x y \<and> map_of table y = Some p \<and> found y p"
proof (induction table found x visited rule: same_rank_ancestor.induct)
  case (1 table found x visited)
  obtain p where p: "map_of table x = Some p" "x \<notin> visited"
    and go: "found x p \<or> same_rank_ancestor table found (ppid p) (insert x visited)"
    using "1.prems" by (subst (asm) same_rank_ancestor.simps) (auto split: option.splits if_splits)
  from go show ?case
  proof
    assume "found x p"
    then show ?thesis using p(1) by (metis on_chain.start option.distinct(1))
  next
    assume "same_rank_ancestor table found (ppid p) (insert x visited)"
    then show ?thesis using "1.IH" [OF p] p(1) by (metis on_chain.up)
  qed
qed

lemma same_rank_ancestor_iff:
  "same_rank_ancestor table found x {} \<longleftrightarrow> (\<exists>y p. on_chain table x y \<and> map_of table y = Some p \<and> found y p)"
proof
  assume "\<exists>y p. on_chain table x y \<and> map_of table y = Some p \<and> found y p"
  then obtain y p where yp: "map_of table y = Some p" "found y p" and ex: "\<exists>n. ancestor table n x = Some y"
    by (auto simp: on_chain_ancestor)
  define n where "n = (LEAST n. ancestor table n x = Some y)"
  have n: "ancestor table n x = Some y" unfolding n_def using ex by (rule LeastI_ex)
  have least: "ancestor table m x \<noteq> Some y" if "m < n" for m
    using that unfolding n_def by (rule not_less_Least)
  have "ancestor table j x \<noteq> Some z" if "i < j" "j \<le> n" "ancestor table i x = Some z" for i j z
  proof
    assume j: "ancestor table j x = Some z"
    have "ancestor table (j + (n - j)) x = ancestor table (n - j) z" using j by (simp only: ancestor_add) simp
    then have "ancestor table (n - j) z = Some y" using n that by simp
    then have "ancestor table (i + (n - j)) x = Some y" using that(3) by (simp add: ancestor_add)
    moreover have "i + (n - j) < n" using that by simp
    ultimately show False using least by blast
  qed
  then show "same_rank_ancestor table found x {}"
    using same_rank_ancestor_complete [where found = found and visited = "{}", OF n yp] by blast
qed (rule same_rank_ancestor_sound)

text \<open>
  Worker selection ends on every process table and keeps exactly the ranked processes that are
  not launchers and have, anywhere on the chain of their parents, no such process of the same
  rank.
\<close>
theorem worker_roots_exact:
  "w \<in> set (select_rank_worker_roots procs rank_start) \<longleftrightarrow>
     w \<in> set procs \<and> 0 \<le> resolved_rank rank_start w \<and> \<not> is_launcher w
     \<and> \<not> (\<exists>y p. on_chain (by_pid procs) (ppid w) y \<and> map_of (by_pid procs) y = Some p
          \<and> y \<in> pid ` set (worker_candidates rank_start procs)
          \<and> resolved_rank rank_start p = resolved_rank rank_start w)"
  by (auto simp: select_rank_worker_roots_def Let_def same_rank_ancestor_iff worker_candidates_def)

end
