(* ===== verification/ProxyAlloc.thy ===== *)
theory ProxyAlloc
  imports JobState HostExpr
begin

text \<open>
  The allocation loop of the pool proxy (\<^verbatim>\<open>NodePoolProxy.apply_node_num_resources\<close> with
  \<^verbatim>\<open>_resubmit_job\<close> and \<^verbatim>\<open>_try_load_additional_nodes\<close> in
  \<^verbatim>\<open>monitor/nhc_monitor.py\<close>), one round of the loop at a time.  What a round asks of the
  scheduler, the health probe, the blacklist and the files is its environment; the pool is the one
  of theory NodePool.  The file of accepted additional nodes and the alerts are not modelled.
\<close>

section \<open>The environment of a round\<close>

text \<open>
  The answers to the submissions of a job: it was submitted (with the host file written then), or
  it failed and the queue was counted after the pause.
\<close>

datatype resubmit_event = Submitted "string list" | SubmitFailed int "string list"

record round_env =
  rd_su :: surroundings
  rd_alloc :: "string list \<Rightarrow> int \<Rightarrow> allocation_result option"
  rd_queue :: int
  rd_queue_again :: int
  rd_added :: "string list option"
  rd_nodes_nhc :: "string list \<Rightarrow> string list"
  rd_abnormal_file :: bool
  rd_recovery :: "int \<times> string list"
  rd_probe :: "int \<times> string list"
  rd_resubmit :: "resubmit_event list"

text \<open>
  \<open>run_nhc\<close>: the exit code of the command and the nodes that passed; a failed command gives no
  verdict, otherwise every node of the host file that did not pass has failed.
\<close>

definition run_nhc :: "int \<times> string list \<Rightarrow> string \<Rightarrow> string list \<times> string list \<times> bool" where
  "run_nhc probe hostfile =
     (if fst probe \<noteq> 0 then ([], [], False)
      else (snd probe, filter (\<lambda>n. n \<notin> set (snd probe)) (read_hostfile hostfile), True))"

definition try_load_additional_nodes :: "round_env \<Rightarrow> node_pool \<Rightarrow> (string list, node_pool) outcome" where
  "try_load_additional_nodes e p =
     (case rd_added e of
        None \<Rightarrow> returns [] p
      | Some lines \<Rightarrow>
          let nodes = filter (\<lambda>n. n \<noteq> []) (map py_strip lines);
              passed = (if nodes = [] then [] else rd_nodes_nhc e (keep_first nodes)) in
          if passed = [] then returns [] p
          else on_return (add_total_nodes (su_writes (rd_su e)) passed p)
            (\<lambda>added q. returns (case added of None \<Rightarrow> [] | Some ns \<Rightarrow> ns) q))"

text \<open>
  \<open>_resubmit_job\<close>: None while it is still trying; a retry limit of 0 is no limit.
\<close>

fun resubmit_job ::
    "(pool_file \<Rightarrow> bool) \<Rightarrow> nat \<Rightarrow> nat \<Rightarrow> resubmit_event list \<Rightarrow> node_pool \<Rightarrow> (bool, node_pool) outcome option" where
  "resubmit_job w max_retries tries [] p = None"
| "resubmit_job w max_retries tries (Submitted hosts # events) p =
     Some (on_return (reset_node_pool w hosts (Some []) p) (\<lambda>_ q. returns True q))"
| "resubmit_job w max_retries tries (SubmitFailed found hosts # events) p =
     (if 0 < max_retries \<and> max_retries \<le> tries + 1 then Some (returns False p)
      else if 0 < found then Some (on_return (reset_node_pool w hosts (Some []) p) (\<lambda>_ q. returns True q))
      else resubmit_job w max_retries (tries + 1) events p)"

section \<open>One round\<close>

text \<open>The local variables of the loop with the proxy; \<open>as_slots\<close>: the slots file is bound.\<close>

record apply_state =
  as_proxy :: proxy
  as_actual :: int
  as_need :: bool
  as_slots :: bool

datatype round_result = Again | Waiting | Refused | Failed py_exn | Granted string

abbreviation pool_of_state :: "apply_state \<Rightarrow> node_pool" where
  "pool_of_state s \<equiv> px_pool (as_proxy s)"

definition set_pool :: "node_pool \<Rightarrow> apply_state \<Rightarrow> apply_state" where
  "set_pool q s = s\<lparr> as_proxy := (as_proxy s)\<lparr> px_pool := q \<rparr> \<rparr>"

definition request_nodes :: "round_env \<Rightarrow> int \<Rightarrow> apply_state \<Rightarrow> (string list, apply_state) outcome" where
  "request_nodes e slots s =
     (if as_need s then
        (case apply_node_num_resources (rd_alloc e) show_int (su_writes (rd_su e)) (as_actual s) slots
            (pool_of_state s) of
           (Inl ex, q) \<Rightarrow> raises ex (set_pool q s)
         | (Inr (master, has_file), q) \<Rightarrow>
             if has_file then returns (running_nodes q) ((set_pool q s)\<lparr> as_slots := True \<rparr>)
             else returns [] (set_pool q s))
      else returns (running_nodes (pool_of_state s)) s)"

text \<open>The recovery of abnormal nodes when the queue is large enough.\<close>

definition recover_nodes :: "round_env \<Rightarrow> node_pool \<Rightarrow> (unit, node_pool) outcome" where
  "recover_nodes e p =
     (if \<not> rd_abnormal_file e then returns () p
      else case run_nhc (rd_recovery e) (pool_files p AbnormalF) of (recovered, still_faulty, ok) \<Rightarrow>
        if ok \<and> recovered \<noteq> [] then
          on_return (add_normal_nodes (su_writes (rd_su e)) recovered p) (\<lambda>_ q. returns () q)
        else returns () p)"

definition shortage_round ::
    "round_env \<Rightarrow> bool \<Rightarrow> int \<Rightarrow> string list \<Rightarrow> apply_state \<Rightarrow> round_result \<times> apply_state" where
  "shortage_round e slurm required raw s =
     (let deficit = as_actual s - int (length raw) in
      if \<not> slurm then (Refused, s)
      else if rd_queue e < 0 then (Again, s\<lparr> as_need := False \<rparr>)
      else if rd_queue e = 0 then
        let s1 = s\<lparr> as_proxy := proxy_release (rd_su e) (as_proxy s), as_actual := required \<rparr> in
        (case resubmit_job (su_writes (rd_su e)) 0 0 (rd_resubmit e) (pool_of_state s1) of
           None \<Rightarrow> (Waiting, s1)
         | Some (Inl ex, q) \<Rightarrow> (Failed ex, set_pool q s1)
         | Some (Inr ok, q) \<Rightarrow> (if ok then Again else Refused, set_pool q s1))
      else
        (case try_load_additional_nodes e (pool_of_state s) of
           (Inl ex, q) \<Rightarrow> (Failed ex, set_pool q s)
         | (Inr added, q) \<Rightarrow>
             if rd_queue e < as_actual s \<or> deficit \<le> int (length added) then
               (Again, (set_pool q s)\<lparr> as_actual := deficit \<rparr>)
             else
               (case recover_nodes e q of
                  (Inl ex, r) \<Rightarrow> (Failed ex, set_pool r s)
                | (Inr _, r) \<Rightarrow> (Again, (set_pool r s)\<lparr> as_actual := deficit \<rparr>))))"

definition slots_line :: "string \<Rightarrow> string" where
  "slots_line host = host @ '' slots=8'' @ [CHR 0x0A]"

text \<open>\<open>write_slotsfile\<close> with its default of eight slots per host; failures are logged.\<close>

definition write_slotsfile :: "(pool_file \<Rightarrow> bool) \<Rightarrow> string list \<Rightarrow> node_pool \<Rightarrow> node_pool" where
  "write_slotsfile w host_list p =
     (if host_list = [] \<or> \<not> w SlotsF then p
      else p\<lparr> pool_files := (pool_files p)(SlotsF := concat (map slots_line (sorted_set host_list))) \<rparr>)"

definition new_snapshot :: "string list \<Rightarrow> snapshot" where
  "new_snapshot nodes = \<lparr>sn_start = None, sn_stop = None, sn_release = None, sn_running = nodes,
     sn_faults = [], sn_count = 0, sn_first_iter = None, sn_first_iter_time = None, sn_last_iter = None,
     sn_last_iter_time = None, sn_ckpt_iter = None, sn_ckpt_iter_time = None\<rparr>"

text \<open>The end of a successful request; an unbound slots file is an UnboundLocalError.\<close>

definition grant :: "round_env \<Rightarrow> string list \<Rightarrow> apply_state \<Rightarrow> round_result \<times> apply_state" where
  "grant e healthy s =
     (if \<not> as_slots s then (Failed RuntimeError, s)
      else
        let px = as_proxy s;
            px1 = px\<lparr> px_pool := write_slotsfile (su_writes (rd_su e)) healthy (px_pool px),
                     px_snap := Some (new_snapshot healthy) \<rparr>;
            s1 = s\<lparr> as_proxy := px1 \<rparr>
        in case healthy of [] \<Rightarrow> (Failed IndexError, s1) | master # _ \<Rightarrow> (Granted master, s1))"

definition report_probe_faults :: "round_env \<Rightarrow> string list \<Rightarrow> proxy \<Rightarrow> proxy" where
  "report_probe_faults e faulty px =
     px\<lparr> px_bl := fold (\<lambda>n m. snd (report_fault m n HCU ''run_nhc'' None None None
            (su_now (rd_su e)) (su_now2 (rd_su e)))) faulty (px_bl px) \<rparr>"

definition probe_round ::
    "round_env \<Rightarrow> bool \<Rightarrow> int \<Rightarrow> apply_state \<Rightarrow> round_result \<times> apply_state" where
  "probe_round e slurm required s =
     (case run_nhc (rd_probe e) (pool_files (pool_of_state s) RunningF) of (healthy, faulty, ok) \<Rightarrow>
        if \<not> ok then (Again, s\<lparr> as_need := False \<rparr>)
        else if faulty \<noteq> [] then
          (case add_abnormal_nodes (su_writes (rd_su e)) faulty (pool_of_state s) of
             (Inl ex, q) \<Rightarrow> (Failed ex, (set_pool q s)\<lparr> as_need := True \<rparr>)
           | (Inr (valid, cleared, _), q) \<Rightarrow>
               let s1 = (set_pool q s)\<lparr> as_need := True \<rparr> in
               if cleared then (Again, s1\<lparr> as_actual := required \<rparr>)
               else if required = int (length faulty) \<and> slurm \<and> rd_queue_again e < 0 then (Again, s1)
               else if required = int (length faulty) \<and> slurm \<and> rd_queue_again e = 0 then
                 (Again, s1\<lparr> as_actual := required \<rparr>)
               else
                 let left = required - int (length healthy); s2 = s1\<lparr> as_actual := left \<rparr> in
                 if \<not> slurm \<and> 0 < left then (Refused, s2)
                 else
                   let s3 = s2\<lparr> as_proxy := report_probe_faults e faulty (as_proxy s2) \<rparr> in
                   if left \<le> 0 then grant e healthy s3 else (Again, s3))
        else if healthy = [] then (Again, s\<lparr> as_actual := required \<rparr>)
        else grant e healthy s)"

definition apply_round ::
    "bool \<Rightarrow> int \<Rightarrow> int \<Rightarrow> round_env \<Rightarrow> apply_state \<Rightarrow> round_result \<times> apply_state" where
  "apply_round slurm required slots e s =
     (case request_nodes e slots s of
        (Inl ex, s1) \<Rightarrow> (Failed ex, s1)
      | (Inr raw, s1) \<Rightarrow>
          if int (length raw) < as_actual s1 then shortage_round e slurm required raw s1
          else probe_round e slurm required s1)"

text \<open>The loop over the rounds that happen; Waiting when they are used up.\<close>

fun apply_rounds ::
    "bool \<Rightarrow> int \<Rightarrow> int \<Rightarrow> round_env list \<Rightarrow> apply_state \<Rightarrow> round_result \<times> apply_state" where
  "apply_rounds slurm required slots [] s = (Waiting, s)"
| "apply_rounds slurm required slots (e # es) s =
     (case apply_round slurm required slots e s of
        (Again, s1) \<Rightarrow> apply_rounds slurm required slots es s1
      | done \<Rightarrow> done)"

definition start_apply :: "int \<Rightarrow> proxy \<Rightarrow> apply_state" where
  "start_apply required px = \<lparr>as_proxy = px\<lparr> px_required := required \<rparr>, as_actual = required,
     as_need = True, as_slots = False\<rparr>"

definition proxy_apply_node_num ::
    "bool \<Rightarrow> int \<Rightarrow> int \<Rightarrow> round_env list \<Rightarrow> proxy \<Rightarrow> round_result \<times> proxy" where
  "proxy_apply_node_num slurm required slots es px =
     (case apply_rounds slurm required slots es (start_apply required px) of (r, s) \<Rightarrow> (r, as_proxy s))"

section \<open>What does not change the running nodes\<close>

lemma validate_running [simp]: "running_nodes (snd (validate_and_fix_constraints p)) = running_nodes p"
  by (simp add: validate_and_fix_constraints_def Let_def)

lemma on_return_running:
  assumes "\<And>a q. running_nodes (snd (f a q)) = running_nodes q"
  shows "running_nodes (snd (on_return x f)) = running_nodes (snd x)"
  using assms by (cases x; cases "fst x") auto

lemma add_total_running [simp]: "running_nodes (snd (add_total_nodes w ns p)) = running_nodes p"
  by (simp add: add_total_nodes_def Let_def on_return_running)

lemma add_normal_running [simp]: "running_nodes (snd (add_normal_nodes w ns p)) = running_nodes p"
  by (simp add: add_normal_nodes_def Let_def on_return_running sync_normal_nodes_def)

lemma load_running [simp]: "running_nodes (snd (try_load_additional_nodes e p)) = running_nodes p"
  by (simp add: try_load_additional_nodes_def Let_def on_return_running split: option.split)

lemma recover_running [simp]: "running_nodes (snd (recover_nodes e p)) = running_nodes p"
  by (simp add: recover_nodes_def on_return_running split: prod.split)

lemma release_running [simp]: "running_nodes (release_runing_nodes w p) = []"
  by (simp add: release_runing_nodes_def Let_def)

lemma reset_running [simp]: "running_nodes (snd (reset_node_pool w ns ab p)) = []"
  by (simp add: reset_node_pool_def Let_def on_return_running sync_normal_nodes_def)

lemma proxy_release_running [simp]: "running_nodes (px_pool (proxy_release su px)) = []"
  by (simp add: proxy_release_def Let_def split: option.split)

lemma resubmit_running:
  "resubmit_job w m n es p = Some (r, q) \<Longrightarrow> running_nodes p = [] \<Longrightarrow> running_nodes q = []"
proof (induction w m n es p rule: resubmit_job.induct)
  case (2 w m n hosts events p)
  then show ?case by (metis option.inject on_return_running prod.sel(2) reset_running resubmit_job.simps(2))
next
  case (3 w m n found hosts events p)
  have "running_nodes (snd (on_return (reset_node_pool w hosts (Some []) p) (\<lambda>_ q. returns True q))) = []"
    by (simp add: on_return_running)
  then show ?case using 3 by (auto split: if_splits simp: prod_eq_iff)
qed simp

lemma resubmit_unlimited: "resubmit_job w 0 n es p \<noteq> Some (Inr False, q)"
proof (induction w "0::nat" n es p rule: resubmit_job.induct)
  case (2 w n hosts events p)
  show ?case by (cases "reset_node_pool w hosts (Some []) p"; cases "fst (reset_node_pool w hosts (Some []) p)") auto
next
  case (3 w n found hosts events p)
  then show ?case
    by (cases "reset_node_pool w hosts (Some []) p"; cases "fst (reset_node_pool w hosts (Some []) p)") auto
qed simp

section \<open>A failed queue query starves the request\<close>

text \<open>
  The trap: after a failed query the loop no longer applies for nodes, so with nothing running it
  finds a shortage in every later round and never applies again.
\<close>

definition starved :: "int \<Rightarrow> apply_state \<Rightarrow> bool" where
  "starved required s \<longleftrightarrow> \<not> as_need s \<and> running_nodes (pool_of_state s) = [] \<and> 1 \<le> as_actual s \<and> 1 \<le> required"

lemma set_pool_simps [simp]:
  "as_need (set_pool q s) = as_need s" "as_actual (set_pool q s) = as_actual s"
  "as_slots (set_pool q s) = as_slots s" "px_pool (as_proxy (set_pool q s)) = q"
  by (simp_all add: set_pool_def)

lemma starved_shortage:
  assumes "starved required s"
  shows "case shortage_round e True required [] s of
      (Again, s1) \<Rightarrow> starved required s1
    | (r, s1) \<Rightarrow> r \<noteq> Refused \<and> (\<forall>m. r \<noteq> Granted m)"
proof -
  have run: "running_nodes (pool_of_state s) = []" using assms by (simp add: starved_def)
  consider "rd_queue e < 0" | "rd_queue e = 0" | "0 < rd_queue e" by linarith
  then show ?thesis
  proof cases
    case 1
    then show ?thesis using assms by (simp add: shortage_round_def starved_def Let_def)
  next
    case 2
    let ?s1 = "s\<lparr> as_proxy := proxy_release (rd_su e) (as_proxy s), as_actual := required \<rparr>"
    show ?thesis
    proof (cases "resubmit_job (su_writes (rd_su e)) 0 0 (rd_resubmit e) (pool_of_state ?s1)")
      case None
      then show ?thesis using 2 by (simp add: shortage_round_def Let_def)
    next
      case (Some rq)
      obtain r q where rq: "rq = (r, q)" by (cases rq)
      have q: "running_nodes q = []"
        using resubmit_running [of "su_writes (rd_su e)" 0 0 "rd_resubmit e" "pool_of_state ?s1" r q] Some rq
        by simp
      have "r \<noteq> Inr False"
        using resubmit_unlimited [of "su_writes (rd_su e)" 0 "rd_resubmit e" "pool_of_state ?s1" q] Some rq
        by auto
      then show ?thesis using 2 Some rq q assms
        by (cases r) (auto simp: shortage_round_def starved_def Let_def)
    qed
  next
    case 3
    obtain r q where load: "try_load_additional_nodes e (pool_of_state s) = (r, q)" by (cases "try_load_additional_nodes e (pool_of_state s)")
    have q: "running_nodes q = []" using load_running [of e "pool_of_state s"] load run by simp
    obtain r' q' where rec: "recover_nodes e q = (r', q')" by (cases "recover_nodes e q")
    have q': "running_nodes q' = []" using recover_running [of e q] rec q by simp
    show ?thesis using 3 load rec q q' assms
      by (cases r; cases r') (auto simp: shortage_round_def starved_def Let_def)
  qed
qed

lemma starved_round:
  assumes "starved required s"
  shows "case apply_round True required slots e s of
      (Again, s1) \<Rightarrow> starved required s1
    | (r, s1) \<Rightarrow> r \<noteq> Refused \<and> (\<forall>m. r \<noteq> Granted m)"
proof -
  have "apply_round True required slots e s = shortage_round e True required [] s"
    using assms by (simp add: apply_round_def request_nodes_def starved_def)
  then show ?thesis using starved_shortage [OF assms, of e] by simp
qed

lemma starved_rounds:
  assumes "starved required s"
  shows "fst (apply_rounds True required slots es s) \<noteq> Refused
    \<and> (\<forall>m. fst (apply_rounds True required slots es s) \<noteq> Granted m)"
  using assms
proof (induction es arbitrary: s)
  case (Cons e es)
  obtain r s1 where r: "apply_round True required slots e s = (r, s1)" by (cases "apply_round True required slots e s")
  show ?case using starved_round [OF Cons.prems, of slots e] Cons.IH [of s1] r by (cases r) auto
qed simp

text \<open>
  C11: One failed queue query during a shortage starves the request for good: when the first round
  finds too few nodes, with none running, and the scheduler does not answer, then whatever the
  scheduler, the probe and the files answer in any number of later rounds, even when nodes and queue
  are plentiful again, the request is neither granted nor refused (as long as no other thread
  changes the running nodes).
\<close>
theorem failed_query_starves_request:
  assumes "get_available_nodes_with_blacklist (rd_alloc e) (backup_pool (px_pool px)) = (h, d, rej)"
    and "int (length h) + int (length d) < required"
    and "running_nodes (px_pool px) = []" "1 \<le> required" "rd_queue e < 0"
  shows "fst (proxy_apply_node_num True required slots (e # es) px) \<noteq> Refused
    \<and> (\<forall>m. fst (proxy_apply_node_num True required slots (e # es) px) \<noteq> Granted m)"
proof -
  let ?s = "start_apply required px"
  have req: "request_nodes e slots ?s = returns [] (set_pool (px_pool px) ?s)"
    using assms(1,2) by (simp add: request_nodes_def start_apply_def apply_node_num_resources_def)
  have s1: "apply_round True required slots e ?s = (Again, (set_pool (px_pool px) ?s)\<lparr> as_need := False \<rparr>)"
    using assms(4,5) unfolding apply_round_def req
    by (simp add: shortage_round_def Let_def) (simp add: start_apply_def set_pool_def)
  have "starved required ((set_pool (px_pool px) ?s)\<lparr> as_need := False \<rparr>)"
    using assms(3,4) by (simp add: starved_def start_apply_def set_pool_def)
  from starved_rounds [OF this, of slots es] show ?thesis
    by (simp add: proxy_apply_node_num_def s1 case_prod_unfold)
qed

definition quiet_su :: surroundings where
  "quiet_su = \<lparr>su_nhc = \<lambda>ns. None, su_parse = \<lambda>t. \<lparr>fi_type = None, fi_description = [], fi_error_code = None, fi_gpu = None\<rparr>,
     su_writes = \<lambda>f. True, su_now = 0, su_now2 = 0, su_text = ''t''\<rparr>"

definition sample_round :: "int \<Rightarrow> int \<times> string list \<Rightarrow> round_env" where
  "sample_round queue probe = \<lparr>rd_su = quiet_su, rd_alloc = \<lambda>_ _. None, rd_queue = queue, rd_queue_again = queue,
     rd_added = None, rd_nodes_nhc = \<lambda>ns. ns, rd_abnormal_file = True, rd_recovery = (0, []),
     rd_probe = probe, rd_resubmit = []\<rparr>"

definition sample_proxy :: "node_pool \<Rightarrow> proxy" where
  "sample_proxy p = \<lparr>px_pool = p, px_bl = sample_mgr, px_snap = None, px_last = None, px_snaps = [], px_required = 0\<rparr>"

theorem failed_query_starves_request_witness:
  "\<exists>e px. rd_queue e = - 1 \<and> (\<forall>es m. fst (proxy_apply_node_num True 2 8 (e # es) px) \<noteq> Granted m)"
proof -
  let ?px = "sample_proxy (sample_pool\<lparr> running_nodes := [], backup_pool := [] \<rparr>)"
  let ?e = "sample_round (- 1) (0, [])"
  have "get_available_nodes_with_blacklist (rd_alloc ?e) (backup_pool (px_pool ?px)) = ([], [], [])"
    by (simp add: get_available_nodes_with_blacklist_def sample_round_def sample_proxy_def)
  from failed_query_starves_request [OF this, of 2] show ?thesis
    by (intro exI [of _ ?e] exI [of _ ?px]) (simp add: sample_round_def sample_proxy_def)
qed

section \<open>What a grant hands out\<close>

lemma grant_Granted:
  assumes "grant e healthy s = (Granted master, s1)"
  shows "healthy \<noteq> [] \<and> master = hd healthy
    \<and> px_snap (as_proxy s1) = Some (new_snapshot healthy)
    \<and> pool_of_state s1 = write_slotsfile (su_writes (rd_su e)) healthy (pool_of_state s)"
  using assms by (auto simp: grant_def Let_def split: if_splits list.splits)

lemma shortage_not_granted: "fst (shortage_round e slurm required raw s) \<noteq> Granted m"
  by (auto simp: shortage_round_def Let_def split: option.splits prod.splits sum.splits)

lemma probe_Granted:
  assumes "probe_round e slurm required s = (Granted master, s1)"
  shows "\<exists>s0. fst (rd_probe e) = 0 \<and> grant e (snd (rd_probe e)) s0 = (Granted master, s1)
    \<and> (\<forall>n\<in>set (read_hostfile (pool_files (pool_of_state s) RunningF)). n \<in> set (snd (rd_probe e))
         \<or> required \<le> int (length (snd (rd_probe e))))"
  using assms
  by (auto simp: probe_round_def run_nhc_def Let_def filter_empty_conv split: if_splits prod.splits sum.splits intro: exI [of _ s])

lemma round_Granted:
  assumes "apply_round slurm required slots e s = (Granted master, s1)"
  shows "\<exists>s0. fst (rd_probe e) = 0 \<and> grant e (snd (rd_probe e)) s0 = (Granted master, s1)"
proof -
  obtain r s' where r: "request_nodes e slots s = (r, s')" by (cases "request_nodes e slots s")
  have "probe_round e slurm required s' = (Granted master, s1)"
    using assms r shortage_not_granted [of e slurm required _ s' master]
    by (auto simp: apply_round_def split: sum.splits if_splits) (metis fst_conv)
  then show ?thesis using probe_Granted by blast
qed

lemma rounds_Granted:
  assumes "apply_rounds slurm required slots es s = (Granted master, s1)"
  shows "\<exists>e\<in>set es. \<exists>s0. fst (rd_probe e) = 0 \<and> grant e (snd (rd_probe e)) s0 = (Granted master, s1)"
  using assms
proof (induction es arbitrary: s)
  case (Cons e es)
  obtain r s' where r: "apply_round slurm required slots e s = (r, s')" by (cases "apply_round slurm required slots e s")
  show ?case
  proof (cases "r = Again")
    case True
    then show ?thesis using Cons.IH [of s'] Cons.prems r by auto
  next
    case False
    then have "r = Granted master \<and> s' = s1" using Cons.prems r by (cases r) auto
    then show ?thesis using round_Granted r by auto
  qed
qed simp

text \<open>
  C12: A granted request hands out exactly the nodes that passed a health probe which itself
  succeeded: for some round of the loop the probe command returned 0, the master is the first node
  it passed, the snapshot of the new run lists exactly the nodes it passed, and the slots file the
  launcher reads lists exactly these nodes, in alphabetical order with eight slots each, whatever
  order the pool assigned and whatever number of slots per node was requested.  Only when the slots
  file cannot be written, which the code logs and ignores, it keeps what the pool wrote before.
\<close>
theorem grant_hands_out_probed_nodes:
  assumes "proxy_apply_node_num slurm required slots es px = (Granted master, px1)"
  shows "\<exists>e\<in>set es. fst (rd_probe e) = 0 \<and> snd (rd_probe e) \<noteq> [] \<and> master = hd (snd (rd_probe e))
    \<and> px_snap px1 = Some (new_snapshot (snd (rd_probe e)))
    \<and> (su_writes (rd_su e) SlotsF \<longrightarrow>
         pool_files (px_pool px1) SlotsF = concat (map slots_line (sorted_set (snd (rd_probe e)))))"
proof -
  obtain s where s: "apply_rounds slurm required slots es (start_apply required px) = (Granted master, s)" "px1 = as_proxy s"
    using assms by (auto simp: proxy_apply_node_num_def split: prod.splits)
  then obtain e s0 where e: "e \<in> set es" "fst (rd_probe e) = 0" "grant e (snd (rd_probe e)) s0 = (Granted master, s)"
    using rounds_Granted by blast
  show ?thesis using grant_Granted [OF e(3)] e(1,2) s(2) by (auto simp: write_slotsfile_def)
qed

definition running_proxy :: proxy where
  "running_proxy = sample_proxy (sample_pool\<lparr> running_nodes := [], backup_pool := [''a'', ''b'', ''c'', ''d''],
     last_running_nodes := [''b'', ''a''] \<rparr>)"

lemma running_proxy_granted:
  "\<exists>px1. proxy_apply_node_num True 2 4 [sample_round 2 (0, [''a'', ''b''])] running_proxy = (Granted ''a'', px1)
    \<and> running_nodes (px_pool px1) = [''b'', ''a''] \<and> px_snap px1 = Some (new_snapshot [''a'', ''b''])"
proof -
  let ?e = "sample_round 2 (0, [''a'', ''b''])"
  define x where "x = apply_node_num_resources (\<lambda>_ _. None) show_int (\<lambda>_. True) 2 4 (px_pool running_proxy)"
  have x: "fst x = Inr (Some ''b'', True)" unfolding x_def by code_simp
  have run: "running_nodes (snd x) = [''b'', ''a'']" unfolding x_def by code_simp
  have hostfile: "read_hostfile (pool_files (snd x) RunningF) = [''a'', ''b'']" unfolding x_def by code_simp
  define s1 where "s1 = (set_pool (snd x) (start_apply 2 running_proxy))\<lparr> as_slots := True \<rparr>"
  have req: "request_nodes ?e 4 (start_apply 2 running_proxy) = returns [''b'', ''a''] s1"
  proof -
    have "apply_node_num_resources (\<lambda>_ _. None) show_int (\<lambda>_. True) 2 4 (px_pool running_proxy) = (Inr (Some ''b'', True), snd x)"
      unfolding x_def [symmetric] using x by (metis prod.collapse)
    then show ?thesis using run
      by (simp add: request_nodes_def s1_def) (simp add: start_apply_def sample_round_def quiet_su_def)
  qed
  have s1: "pool_of_state s1 = snd x" "as_actual s1 = 2" "as_slots s1"
    by (simp_all add: s1_def start_apply_def set_pool_def)
  have "apply_round True 2 4 ?e (start_apply 2 running_proxy) = grant ?e [''a'', ''b''] s1"
    unfolding apply_round_def req using s1 hostfile
    by (simp add: probe_round_def run_nhc_def sample_round_def)
  moreover have "\<exists>s2. grant ?e [''a'', ''b''] s1 = (Granted ''a'', s2) \<and> running_nodes (pool_of_state s2) = [''b'', ''a'']
      \<and> px_snap (as_proxy s2) = Some (new_snapshot [''a'', ''b''])"
    using s1 run by (simp add: grant_def Let_def write_slotsfile_def)
  ultimately obtain s2 where "apply_round True 2 4 ?e (start_apply 2 running_proxy) = (Granted ''a'', s2)"
    "running_nodes (pool_of_state s2) = [''b'', ''a'']" "px_snap (as_proxy s2) = Some (new_snapshot [''a'', ''b''])" by auto
  then show ?thesis by (simp add: proxy_apply_node_num_def)
qed

text \<open>
  Here the pool hands out b before a, as in the previous run, and four slots per node were asked
  for; the file the launcher reads lists a before b, with eight.
\<close>
theorem grant_hands_out_probed_nodes_witness:
  "\<exists>px1. proxy_apply_node_num True 2 4 [sample_round 2 (0, [''a'', ''b''])] running_proxy = (Granted ''a'', px1)
    \<and> running_nodes (px_pool px1) = [''b'', ''a''] \<and> px_snap px1 = Some (new_snapshot [''a'', ''b''])
    \<and> pool_files (px_pool px1) SlotsF = ''a slots=8'' @ [CHR 0x0A] @ ''b slots=8'' @ [CHR 0x0A]"
proof -
  obtain px1 where g: "proxy_apply_node_num True 2 4 [sample_round 2 (0, [''a'', ''b''])] running_proxy = (Granted ''a'', px1)"
    and run: "running_nodes (px_pool px1) = [''b'', ''a'']"
    using running_proxy_granted by blast
  have "concat (map slots_line (sorted_set [''a'', ''b''])) = ''a slots=8'' @ [CHR 0x0A] @ ''b slots=8'' @ [CHR 0x0A]"
    by (simp add: slots_line_def sorted_set_def less_eq_char_def)
  then show ?thesis using grant_hands_out_probed_nodes [OF g] g run by (simp add: sample_round_def quiet_su_def)
qed

end
