(* ===== verification/RegexMatch.thy ===== *)
theory RegexMatch
  imports Prelude
begin

text \<open>
  The part of Python's \<^verbatim>\<open>re\<close> module that the sources use: a backtracking matcher whose
  results are listed in the order in which the module tries them (greedy repetitions longest first,
  lazy ones shortest first, alternatives from the left), so that the first result is the match.
  The classes \<^verbatim>\<open>\s\<close>, \<^verbatim>\<open>\d\<close>, \<^verbatim>\<open>\w\<close> are those of ASCII text.
\<close>

section \<open>Patterns and matching\<close>

datatype rx =
    Nothing
  | Cls "char \<Rightarrow> bool"
  | Txt string
  | Seq rx rx
  | Alt rx rx
  | Star rx
  | Lazy rx
  | Grp nat rx
  | AtStart
  | AtEnd
  | WordBound

text \<open>A position in the text (what was passed, reversed; what is ahead) with the groups set so far.\<close>

datatype spot = At (passed: string) (ahead: string) (groups: "(nat \<times> string) list")

definition is_word_char :: "char \<Rightarrow> bool" where
  "is_word_char c \<longleftrightarrow> is_digit c \<or> is_upper c \<or> (CHR ''a'' \<le> c \<and> c \<le> CHR ''z'') \<or> c = CHR ''_''"

definition at_word_bound :: "string \<Rightarrow> string \<Rightarrow> bool" where
  "at_word_bound p a =
     ((p \<noteq> [] \<and> is_word_char (hd p)) \<noteq> (a \<noteq> [] \<and> is_word_char (hd a)))"

text \<open>
  A repetition stops at an iteration that consumes nothing; the length of the text ahead bounds the
  number of iterations.
\<close>

primrec greedy :: "(spot \<Rightarrow> spot list) \<Rightarrow> nat \<Rightarrow> spot \<Rightarrow> spot list" where
  "greedy f 0 m = [m]"
| "greedy f (Suc n) m =
     concat (map (greedy f n) (filter (\<lambda>m'. length (ahead m') < length (ahead m)) (f m))) @ [m]"

primrec lazily :: "(spot \<Rightarrow> spot list) \<Rightarrow> nat \<Rightarrow> spot \<Rightarrow> spot list" where
  "lazily f 0 m = [m]"
| "lazily f (Suc n) m =
     m # concat (map (lazily f n) (filter (\<lambda>m'. length (ahead m') < length (ahead m)) (f m)))"

definition set_group :: "nat \<Rightarrow> string \<Rightarrow> spot \<Rightarrow> spot" where
  "set_group k p m =
     At (passed m) (ahead m) ((k, rev (take (length (passed m) - length p) (passed m))) # groups m)"

primrec results :: "rx \<Rightarrow> spot \<Rightarrow> spot list" where
  "results Nothing m = [m]"
| "results (Cls p) m = (case ahead m of [] \<Rightarrow> []
     | c # cs \<Rightarrow> if p c then [At (c # passed m) cs (groups m)] else [])"
| "results (Txt w) m = (if is_prefix_of w (ahead m)
     then [At (rev w @ passed m) (drop (length w) (ahead m)) (groups m)] else [])"
| "results (Seq r s) m = concat (map (results s) (results r m))"
| "results (Alt r s) m = results r m @ results s m"
| "results (Star r) m = greedy (results r) (length (ahead m)) m"
| "results (Lazy r) m = lazily (results r) (length (ahead m)) m"
| "results (Grp k r) m = map (set_group k (passed m)) (results r m)"
| "results AtStart m = (if passed m = [] then [m] else [])"
| "results AtEnd m = (if ahead m = [] \<or> ahead m = [CHR 0x0A] then [m] else [])"
| "results WordBound m = (if at_word_bound (passed m) (ahead m) then [m] else [])"

fun rx_scan :: "rx \<Rightarrow> string \<Rightarrow> string \<Rightarrow> spot option" where
  "rx_scan r p [] = (case results r (At p [] []) of [] \<Rightarrow> None | m # _ \<Rightarrow> Some m)"
| "rx_scan r p (c # cs) =
     (case results r (At p (c # cs) []) of [] \<Rightarrow> rx_scan r (c # p) cs | m # _ \<Rightarrow> Some m)"

text \<open>\<^verbatim>\<open>re.search\<close>, \<^verbatim>\<open>re.match\<close>, \<^verbatim>\<open>re.fullmatch\<close>; group 0 is the whole match.\<close>

definition rx_search :: "rx \<Rightarrow> string \<Rightarrow> spot option" where
  "rx_search r s = rx_scan (Grp 0 r) [] s"

definition rx_match :: "rx \<Rightarrow> string \<Rightarrow> spot option" where
  "rx_match r s = (case results (Grp 0 r) (At [] s []) of [] \<Rightarrow> None | m # _ \<Rightarrow> Some m)"

definition rx_fullmatch :: "rx \<Rightarrow> string \<Rightarrow> spot option" where
  "rx_fullmatch r s =
     (case filter (\<lambda>m. ahead m = []) (results (Grp 0 r) (At [] s [])) of [] \<Rightarrow> None | m # _ \<Rightarrow> Some m)"

definition rx_group :: "nat \<Rightarrow> spot \<Rightarrow> string option" where
  "rx_group k m = map_of (groups m) k"

definition cap_text :: "nat \<Rightarrow> spot \<Rightarrow> string" where
  "cap_text k m = (case rx_group k m of None \<Rightarrow> [] | Some s \<Rightarrow> s)"

section \<open>Abbreviations of the pattern language\<close>

definition seqs :: "rx list \<Rightarrow> rx" where
  "seqs rs = foldr Seq rs Nothing"

definition plus :: "rx \<Rightarrow> rx" where
  "plus r = Seq r (Star r)"

definition opt :: "rx \<Rightarrow> rx" where
  "opt r = Alt r Nothing"

definition times_rx :: "nat \<Rightarrow> rx \<Rightarrow> rx" where
  "times_rx n r = seqs (replicate n r)"

definition ws :: rx where "ws = Cls is_ws"

definition dig :: rx where "dig = Cls is_digit"

definition any_char :: rx where "any_char = Cls (\<lambda>c. c \<noteq> CHR 0x0A)"

lemma results_seqs [simp]:
  "results (seqs []) m = [m]"
  "results (seqs (r # rs)) m = concat (map (results (seqs rs)) (results r m))"
  by (simp_all add: seqs_def)

section \<open>Facts about matching\<close>

lemma is_prefix_of_append: "is_prefix_of w s \<longleftrightarrow> (\<exists>t. s = w @ t)"
  by (induction w s rule: is_prefix_of.induct) auto

text \<open>No match changes the text.\<close>

definition text_of :: "spot \<Rightarrow> string" where
  "text_of m = rev (passed m) @ ahead m"

lemma greedy_invariant:
  assumes "\<And>m m'. m' \<in> set (f m) \<Longrightarrow> g m' = g m" "m' \<in> set (greedy f n m)"
  shows "g m' = g m"
  using assms(2) by (induction n arbitrary: m) (auto dest: assms(1))

lemma lazily_invariant:
  assumes "\<And>m m'. m' \<in> set (f m) \<Longrightarrow> g m' = g m" "m' \<in> set (lazily f n m)"
  shows "g m' = g m"
  using assms(2) by (induction n arbitrary: m) (auto dest: assms(1))

lemma results_text: "m' \<in> set (results r m) \<Longrightarrow> text_of m' = text_of m"
proof (induction r arbitrary: m m')
  case (Txt w)
  then show ?case by (auto simp: text_of_def is_prefix_of_append split: if_splits)
next
  case (Cls p)
  then show ?case by (cases "ahead m") (auto simp: text_of_def split: if_splits)
next
  case (Seq r s)
  then obtain m1 where "m1 \<in> set (results r m)" "m' \<in> set (results s m1)" by auto
  then show ?case using Seq.IH(1) [of m1 m] Seq.IH(2) [of m' m1] by simp
next
  case (Star r)
  then have "m' \<in> set (greedy (results r) (length (ahead m)) m)" by simp
  then show ?case by (rule greedy_invariant [where f = "results r", rotated]) (rule Star.IH)
next
  case (Lazy r)
  then have "m' \<in> set (lazily (results r) (length (ahead m)) m)" by simp
  then show ?case by (rule lazily_invariant [where f = "results r", rotated]) (rule Lazy.IH)
next
  case (Grp k r)
  then show ?case by (auto simp: set_group_def text_of_def)
qed (auto split: if_splits)

text \<open>Matching only goes forward: what is ahead afterwards was ahead before.\<close>

lemma greedy_ahead:
  assumes "\<And>m m'. m' \<in> set (f m) \<Longrightarrow> set (ahead m') \<subseteq> set (ahead m)" "m' \<in> set (greedy f n m)"
  shows "set (ahead m') \<subseteq> set (ahead m)"
  using assms(2) by (induction n arbitrary: m) (auto dest: assms(1))

lemma lazily_ahead:
  assumes "\<And>m m'. m' \<in> set (f m) \<Longrightarrow> set (ahead m') \<subseteq> set (ahead m)" "m' \<in> set (lazily f n m)"
  shows "set (ahead m') \<subseteq> set (ahead m)"
  using assms(2) by (induction n arbitrary: m) (auto dest: assms(1))

lemma results_ahead: "m' \<in> set (results r m) \<Longrightarrow> set (ahead m') \<subseteq> set (ahead m)"
proof (induction r arbitrary: m m')
  case (Seq r s)
  then show ?case by simp blast
next
  case (Txt w)
  then show ?case by (auto split: if_splits dest: in_set_dropD)
next
  case (Cls p)
  then show ?case by (cases "ahead m") (auto split: if_splits)
next
  case (Star r)
  then have "m' \<in> set (greedy (results r) (length (ahead m)) m)" by simp
  then show ?case by (rule greedy_ahead [where f = "results r", rotated]) (rule Star.IH)
next
  case (Lazy r)
  then have "m' \<in> set (lazily (results r) (length (ahead m)) m)" by simp
  then show ?case by (rule lazily_ahead [where f = "results r", rotated]) (rule Lazy.IH)
next
  case (Alt r s)
  then show ?case by simp blast
next
  case (Grp k r)
  then show ?case by (fastforce simp: set_group_def)
qed (auto split: if_splits)

text \<open>A character that every match consumes: without it in the text there is no match.\<close>

primrec needs :: "char \<Rightarrow> rx \<Rightarrow> bool" where
  "needs c Nothing = False"
| "needs c (Cls p) = False"
| "needs c (Txt w) = (c \<in> set w)"
| "needs c (Seq r s) = (needs c r \<or> needs c s)"
| "needs c (Alt r s) = (needs c r \<and> needs c s)"
| "needs c (Star r) = False"
| "needs c (Lazy r) = False"
| "needs c (Grp k r) = needs c r"
| "needs c AtStart = False"
| "needs c AtEnd = False"
| "needs c WordBound = False"

lemma needs_seqs [simp]: "needs c (seqs rs) = (\<exists>r\<in>set rs. needs c r)"
  by (induction rs) (auto simp: seqs_def)

lemma needs_none: "needs c r \<Longrightarrow> c \<notin> set (ahead m) \<Longrightarrow> results r m = []"
proof (induction r arbitrary: m)
  case (Txt w)
  then show ?case by (cases m) (auto simp: is_prefix_of_append)
next
  case (Seq r s)
  have "c \<notin> set (ahead m')" if "m' \<in> set (results r m)" for m'
    using results_ahead [OF that] Seq.prems(2) by auto
  then show ?case using Seq by auto
qed auto

lemma scan_none: "(\<And>p a. \<exists>q. s = q @ a \<Longrightarrow> results r (At p a []) = []) \<Longrightarrow> rx_scan r p0 s = None"
proof (induction s arbitrary: p0)
  case (Cons c cs)
  have "results r (At p0 (c # cs) []) = []" using Cons.prems [of "c # cs" p0] by simp
  moreover have "rx_scan r (c # p0) cs = None" using Cons.IH Cons.prems by (metis append_Cons)
  ultimately show ?case by simp
qed simp

lemma search_none: "needs c r \<Longrightarrow> c \<notin> set s \<Longrightarrow> rx_search r s = None"
  unfolding rx_search_def by (rule scan_none) (auto intro!: needs_none)

text \<open>A match found at once is the match of the search.\<close>

lemma search_at_start:
  "results r (At [] s []) = m # ms \<Longrightarrow> rx_search r s = Some (set_group 0 [] m)"
  by (cases s) (simp_all add: rx_search_def)

text \<open>A greedy run over a class: all its prefixes, the longest first.\<close>

lemma star_cls:
  "results (Star (Cls p)) (At q s g) =
     map (\<lambda>k. At (rev (take k s) @ q) (drop k s) g) (rev [0..<Suc (length (takeWhile p s))])"
proof -
  have "greedy (results (Cls p)) n (At q s g) =
      map (\<lambda>k. At (rev (take k s) @ q) (drop k s) g) (rev [0..<Suc (length (takeWhile p s))])"
    if "length s \<le> n" for n
    using that
  proof (induction n arbitrary: q s)
    case (Suc n)
    show ?case
    proof (cases s)
      case (Cons c cs)
      show ?thesis
      proof (cases "p c")
        case True
        have "[0..<Suc (Suc k)] = 0 # map Suc [0..<Suc k]" for k
          by (simp add: map_Suc_upt upt_conv_Cons del: upt_Suc)
        then show ?thesis using Suc.IH [of cs "c # q"] Suc.prems True Cons
          by (simp add: rev_map comp_def del: upt_Suc)
      qed (simp add: Cons)
    qed simp
  qed simp
  from this [of "length s"] show ?thesis by simp
qed

lemma star_cls_hd:
  "\<exists>ms. results (Star (Cls p)) (At q s g) =
     At (rev (takeWhile p s) @ q) (dropWhile p s) g # ms"
  by (simp add: star_cls takeWhile_eq_take [symmetric] dropWhile_eq_drop [symmetric] del: results.simps)

section \<open>What a group can hold\<close>

text \<open>Patterns without groups leave the groups alone; a bounded pattern consumes only certain characters.\<close>

primrec no_groups :: "rx \<Rightarrow> bool" where
  "no_groups Nothing = True"
| "no_groups (Cls p) = True"
| "no_groups (Txt w) = True"
| "no_groups (Seq r s) = (no_groups r \<and> no_groups s)"
| "no_groups (Alt r s) = (no_groups r \<and> no_groups s)"
| "no_groups (Star r) = no_groups r"
| "no_groups (Lazy r) = no_groups r"
| "no_groups (Grp k r) = False"
| "no_groups AtStart = True"
| "no_groups AtEnd = True"
| "no_groups WordBound = True"

lemma no_groups_results: "no_groups r \<Longrightarrow> m' \<in> set (results r m) \<Longrightarrow> groups m' = groups m"
proof (induction r arbitrary: m m')
  case (Seq r s)
  then obtain m1 where "m1 \<in> set (results r m)" "m' \<in> set (results s m1)" by auto
  then show ?case using Seq.IH(1) [of m1 m] Seq.IH(2) [of m' m1] Seq.prems by simp
next
  case (Cls p)
  then show ?case by (cases "ahead m") (auto split: if_splits)
next
  case (Star r)
  then have "m' \<in> set (greedy (results r) (length (ahead m)) m)" by simp
  then show ?case by (rule greedy_invariant [where f = "results r", rotated]) (use Star in auto)
next
  case (Lazy r)
  then have "m' \<in> set (lazily (results r) (length (ahead m)) m)" by simp
  then show ?case by (rule lazily_invariant [where f = "results r", rotated]) (use Lazy in auto)
qed (auto split: if_splits)

primrec only :: "(char \<Rightarrow> bool) \<Rightarrow> rx \<Rightarrow> bool" where
  "only P Nothing = True"
| "only P (Cls p) = (\<forall>c. p c \<longrightarrow> P c)"
| "only P (Txt w) = list_all P w"
| "only P (Seq r s) = (only P r \<and> only P s)"
| "only P (Alt r s) = (only P r \<and> only P s)"
| "only P (Star r) = only P r"
| "only P (Lazy r) = only P r"
| "only P (Grp k r) = only P r"
| "only P AtStart = True"
| "only P AtEnd = True"
| "only P WordBound = True"

definition consumed :: "(char \<Rightarrow> bool) \<Rightarrow> spot \<Rightarrow> spot \<Rightarrow> bool" where
  "consumed P m m' \<longleftrightarrow> (\<exists>w. passed m' = w @ passed m \<and> list_all P w)"

lemma consumed_refl: "consumed P m m"
  by (simp add: consumed_def)

lemma consumed_trans: "consumed P m m1 \<Longrightarrow> consumed P m1 m2 \<Longrightarrow> consumed P m m2"
  by (force simp: consumed_def)

lemma greedy_consumed:
  assumes "\<And>m m'. m' \<in> set (f m) \<Longrightarrow> consumed P m m'" "m' \<in> set (greedy f n m)"
  shows "consumed P m m'"
  using assms(2)
proof (induction n arbitrary: m)
  case (Suc n)
  then show ?case by (auto simp: consumed_refl intro: consumed_trans [OF assms(1)])
qed (simp add: consumed_refl)

lemma lazily_consumed:
  assumes "\<And>m m'. m' \<in> set (f m) \<Longrightarrow> consumed P m m'" "m' \<in> set (lazily f n m)"
  shows "consumed P m m'"
  using assms(2)
proof (induction n arbitrary: m)
  case (Suc n)
  then show ?case by (auto simp: consumed_refl intro: consumed_trans [OF assms(1)])
qed (simp add: consumed_refl)

lemma only_results: "only P r \<Longrightarrow> m' \<in> set (results r m) \<Longrightarrow> consumed P m m'"
proof (induction r arbitrary: m m')
  case (Seq r s)
  then obtain m1 where "m1 \<in> set (results r m)" "m' \<in> set (results s m1)" by auto
  then show ?case using Seq.IH(1) [of m1 m] Seq.IH(2) [of m' m1] Seq.prems consumed_trans by fastforce
next
  case (Cls p)
  then show ?case by (cases "ahead m") (auto simp: consumed_def split: if_splits)
next
  case (Txt w)
  then show ?case by (auto simp: consumed_def split: if_splits)
next
  case (Star r)
  then have "m' \<in> set (greedy (results r) (length (ahead m)) m)" by simp
  then show ?case by (rule greedy_consumed [where f = "results r", rotated]) (use Star in auto)
next
  case (Lazy r)
  then have "m' \<in> set (lazily (results r) (length (ahead m)) m)" by simp
  then show ?case by (rule lazily_consumed [where f = "results r", rotated]) (use Lazy in auto)
next
  case (Grp k r)
  then show ?case by (force simp: set_group_def consumed_def)
qed (auto simp: consumed_refl split: if_splits)

text \<open>After a prefix without groups, group \<open>k\<close> holds only characters of its pattern.\<close>

lemma group_after_prefix:
  assumes "no_groups r" "no_groups s" "only P s" "m' \<in> set (results (Seq r (Grp k s)) m)" "groups m = []"
  shows "\<exists>w. groups m' = [(k, w)] \<and> list_all P w"
proof -
  obtain m1 m2 where m: "m1 \<in> set (results r m)" "m2 \<in> set (results s m1)" "m' = set_group k (passed m1) m2"
    using assms(4) by auto
  obtain w where "passed m2 = w @ passed m1" "list_all P w"
    using only_results [OF assms(3) m(2)] by (auto simp: consumed_def)
  then show ?thesis
    using no_groups_results [OF assms(1) m(1)] no_groups_results [OF assms(2) m(2)] assms(5) m(3)
    by (simp add: set_group_def list_all_rev)
qed

lemma rx_scan_results:
  "rx_scan r p s = Some m \<Longrightarrow> \<exists>p' a. m \<in> set (results r (At p' a []))"
proof (induction s arbitrary: p)
  case Nil
  then have "m \<in> set (results r (At p [] []))" by (auto split: list.splits)
  then show ?case by blast
next
  case (Cons c cs)
  show ?case
  proof (cases "results r (At p (c # cs) [])")
    case Nil
    then show ?thesis using Cons by simp
  next
    case (Cons m1 ms)
    then show ?thesis using Cons.prems by (intro exI [of _ p] exI [of _ "c # cs"]) simp
  qed
qed

lemma search_group_only:
  assumes "rx_search (Seq r (Grp k s)) line = Some m" "no_groups r" "no_groups s" "only P s" "k \<noteq> 0"
  shows "list_all P (cap_text k m)"
proof -
  obtain p a where "m \<in> set (results (Grp 0 (Seq r (Grp k s))) (At p a []))"
    using assms(1) rx_scan_results unfolding rx_search_def by blast
  then obtain m1 where m: "m1 \<in> set (results (Seq r (Grp k s)) (At p a []))" "m = set_group 0 p m1"
    by auto
  obtain w where "groups m1 = [(k, w)]" "list_all P w"
    using group_after_prefix [OF assms(2-4) m(1)] by auto
  then show ?thesis using m(2) assms(5) by (simp add: cap_text_def rx_group_def set_group_def)
qed


lemma rx_scan_cong: "(\<And>m. results r m = results s m) \<Longrightarrow> rx_scan r p line = rx_scan s p line"
  by (induction line arbitrary: p) (simp_all split: list.split)

lemma rx_search_cong: "(\<And>m. results r m = results s m) \<Longrightarrow> rx_search r line = rx_search s line"
  unfolding rx_search_def by (rule rx_scan_cong) simp

lemma concat_concat_map: "concat (map f (concat xss)) = concat (map (\<lambda>xs. concat (map f xs)) xss)"
  by (induction xss) simp_all

lemma results_seqs_last: "results (seqs (rs @ [r])) m = results (Seq (seqs rs) r) m"
proof (induction rs arbitrary: m)
  case Nil
  have "results (seqs []) = (\<lambda>m. [m])" by (rule ext) simp
  then show ?case by simp
next
  case (Cons a rs)
  have "results (seqs (rs @ [r])) = (\<lambda>m. concat (map (results r) (results (seqs rs) m)))"
    by (rule ext) (simp add: Cons.IH)
  then show ?case by (simp add: concat_concat_map comp_def)
qed

lemma search_last_group_only:
  assumes "rx_search (seqs (rs @ [Grp k s])) line = Some m" "list_all no_groups rs" "no_groups s" "only P s" "k \<noteq> 0"
  shows "list_all P (cap_text k m)"
proof -
  have "no_groups (seqs rs)" using assms(2) by (induction rs) (simp_all add: seqs_def)
  moreover have "rx_search (seqs (rs @ [Grp k s])) line = rx_search (Seq (seqs rs) (Grp k s)) line"
    by (rule rx_search_cong) (rule results_seqs_last)
  ultimately show ?thesis using search_group_only [of "seqs rs" k s line m P] assms by simp
qed

end
