(* ===== verification/LogParser.thy ===== *)
theory LogParser
  imports RegexMatch
begin

text \<open>
  The parsing of training logs (monitor/log_patterns.py, monitor/log_parser.py,
  monitor/mega/analyze_mega_log.py and monitor/special/analyze_special_log.py): the pattern tables,
  the classification of error lines and of training lines, the torchrun root-cause block, and the
  two line parsers.  Numbers of the patterns are ASCII digits; finite floats are real numbers.
\<close>

section \<open>Floating-point texts\<close>

datatype py_float = Fin real | PosInf | NegInf | NaN

text \<open>A value that rounds beyond the largest double is an infinity.\<close>

definition round_double :: "real \<Rightarrow> py_float" where
  "round_double x = (if 2 ^ 1024 - 2 ^ 970 \<le> x then PosInf
     else if x \<le> - (2 ^ 1024 - 2 ^ 970) then NegInf else Fin x)"

definition ten_to :: "int \<Rightarrow> real" where
  "ten_to e = (if 0 \<le> e then 10 ^ nat e else 1 / 10 ^ nat (- e))"

text \<open>Digits before and after a point; at least one digit.\<close>

definition mantissa :: "string \<Rightarrow> (nat \<times> nat) option" where
  "mantissa s =
     (let a = takeWhile is_digit s; r = dropWhile is_digit s;
          b = (case r of [] \<Rightarrow> [] | c # cs \<Rightarrow> cs) in
      if (r = [] \<or> hd r = CHR ''.'') \<and> list_all is_digit b \<and> a @ b \<noteq> []
      then Some (nat_of_digits (a @ b), length b) else None)"

definition sign_split :: "string \<Rightarrow> bool \<times> string" where
  "sign_split s = (case s of [] \<Rightarrow> (False, [])
     | c # cs \<Rightarrow> if c = CHR ''-'' then (True, cs) else if c = CHR ''+'' then (False, cs) else (False, s))"

definition exponent :: "string \<Rightarrow> int option" where
  "exponent s = (case sign_split s of (neg, d) \<Rightarrow>
     if d \<noteq> [] \<and> list_all is_digit d
     then Some (if neg then - int (nat_of_digits d) else int (nat_of_digits d)) else None)"

definition is_exp_mark :: "char \<Rightarrow> bool" where
  "is_exp_mark c \<longleftrightarrow> c = CHR ''e'' \<or> c = CHR ''E''"

text \<open>
  \<^verbatim>\<open>float(s)\<close>: None is ValueError.  The texts come from patterns without underscores.
\<close>

definition py_float_of :: "string \<Rightarrow> py_float option" where
  "py_float_of s =
     (case sign_split (py_strip s) of (neg, t) \<Rightarrow>
        if py_lower t \<in> {''inf'', ''infinity''} then Some (if neg then NegInf else PosInf)
        else if py_lower t = ''nan'' then Some NaN
        else
          (let m = takeWhile (\<lambda>c. \<not> is_exp_mark c) t; r = dropWhile (\<lambda>c. \<not> is_exp_mark c) t in
           case mantissa m of
             None \<Rightarrow> None
           | Some (n, k) \<Rightarrow>
               (case (if r = [] then Some 0 else exponent (tl r)) of
                  None \<Rightarrow> None
                | Some e \<Rightarrow> let x = real n * ten_to (e - int k) in
                    Some (round_double (if neg then - x else x)))))"

section \<open>The pattern tables\<close>

definition name_chars :: rx where
  "name_chars = plus (Cls (\<lambda>c. is_word_char c \<or> c = CHR ''-''))"

definition alnums :: rx where
  "alnums = plus (Cls (\<lambda>c. is_word_char c \<and> c \<noteq> CHR ''_''))"

definition digs :: rx where "digs = plus dig"

definition spaces :: rx where "spaces = Star ws"

definition spaces1 :: rx where "spaces1 = plus ws"

definition decimal :: rx where
  "decimal = plus (Cls (\<lambda>c. is_digit c \<or> c = CHR ''.''))"

definition scientific :: "char list \<Rightarrow> rx" where
  "scientific extra = plus (Cls (\<lambda>c. is_digit c \<or> c = CHR ''.'' \<or> c \<in> set extra))"

definition jobid :: rx where
  "jobid = seqs [Txt ''[['', digs, Txt '','', digs, Txt ''],'', digs, Txt '']'']"

definition ipv4 :: rx where
  "ipv4 = seqs [digs, Txt ''.'', digs, Txt ''.'', digs, Txt ''.'', digs]"

definition traceback_text :: string where
  "traceback_text = ''Traceback (most recent call last):''"

definition error_patterns :: "(string \<times> rx) list" where
  "error_patterns = [
     (''prte_process_exit'', seqs [Txt ''Process name:'', spaces,
        Grp 1 (seqs [Txt ''[prterun-'', plus (Cls (\<lambda>c. c \<noteq> CHR '']'')), Txt '']'']), spaces,
        Txt ''Exit code:'', spaces, Grp 2 (Seq (opt (Txt ''-'')) digs)]),
     (''fault_pid'', seqs [Txt ''Process name:'', spaces, Grp 1 jobid]),
     (''remote_node'', seqs [Txt ''Remote daemon:'', spaces, Grp 1 jobid, spaces, Txt ''on node'', spaces,
        Grp 2 name_chars]),
     (''target_node'', seqs [Txt ''target node:'', spaces, Grp 1 name_chars]),
     (''remote_daemon'', seqs [Txt ''Remote daemon: ['', Grp 1 (seqs [Txt ''prterun-'', any_char, Lazy any_char]),
        Txt ''] on node '', Grp 2 (plus (Cls (\<lambda>c. \<not> is_ws c)))]),
     (''rank_traceback'', seqs [AtStart, Txt ''[rank'', Grp 1 digs, Txt '']:'', spaces, Txt traceback_text]),
     (''traceback_error'', Txt traceback_text),
     (''connection_closed'', seqs [Txt ''RuntimeError'', Star any_char, Txt ''Connection closed by peer'',
        Lazy any_char, Txt ''['', Grp 1 ipv4, Txt '']:'', Grp 2 digs]),
     (''ib_error'', seqs [Txt ''['', plus (Cls (\<lambda>c. c \<noteq> CHR '']'')), Txt '']:['', Grp 1 alnums, Txt '':'',
        Grp 2 digs, Txt '':'', digs, Txt '':'', digs, Txt '']'', Star any_char,
        Txt ''send completion with error: Work Request Flushed Error'']),
     (''rank_pattern'', seqs [Grp 1 (seqs [digs, Txt ''.'', digs]), Txt ''/'', Grp 2 digs]),
     (''nan_loss'', seqs [Txt ''AssertionError: Rank '', Grp 1 digs,
        Txt '': found NaN in local forward loss calculation. Device: '', digs, Txt '', node: '', Grp 2 name_chars]),
     (''inf'', seqs [Txt ''RuntimeError:'', Lazy any_char, WordBound, Txt ''Rank'', spaces1, Grp 1 digs,
        Lazy any_char, WordBound, Txt ''inf'', WordBound]),
     (''nan_grad'', seqs [Txt ''RuntimeError: Rank '', Grp 1 digs, Txt '', node '', Grp 2 name_chars,
        Txt '', device '', digs, Txt '', iteration '', digs, Txt '': Unexpected result nan (message='',
        Lazy any_char, Txt ''found NaN in local grad norm'', Lazy any_char, Txt '')''])]"

definition epoch_pattern :: rx where
  "epoch_pattern = seqs [Txt ''epoch'', spaces1, Grp 1 digs, Txt '':'', spaces1, Grp 2 digs, spaces1,
     Txt ''/'', spaces1, Grp 3 digs]"

definition epoch_patterns :: "(string \<times> rx) list" where
  "epoch_patterns = [
     (''epoch'', epoch_pattern),
     (''loss'', seqs [Txt ''loss'', opt (Seq (Star (Cls is_word_char)) Nothing), Txt ''='', Grp 1 decimal]),
     (''ntokens'', Seq (Txt ''ntokens='') (Grp 1 decimal)),
     (''nsentences'', Seq (Txt ''nsentences='') (Grp 1 decimal)),
     (''wps'', Seq (Txt ''wps='') (Grp 1 decimal)),
     (''ups'', Seq (Txt ''ups='') (Grp 1 decimal)),
     (''wpb'', Seq (Txt ''wpb='') (Grp 1 decimal)),
     (''batch_size'', Seq (Txt ''bsz='') (Grp 1 decimal)),
     (''num_updates'', Seq (Txt ''num_updates='') (Grp 1 digs)),
     (''learning_rate'', Seq (Txt ''lr='') (Grp 1 (scientific ''eE-''))),
     (''gradient_norm'', Seq (Txt ''gnorm='') (Grp 1 decimal)),
     (''clip'', Seq (Txt ''clip='') (Grp 1 decimal)),
     (''train_time'', Seq (Txt ''train_wall='') (Grp 1 decimal)),
     (''fetch_data_time'', Seq (Txt ''fetch_data='') (Grp 1 decimal)),
     (''cuda_active_gb'', Seq (Txt ''cuda_gb_active='') (Grp 1 decimal)),
     (''cuda_allocated_gb'', Seq (Txt ''cuda_gb_allocated='') (Grp 1 decimal)),
     (''cuda_reserved_gb'', Seq (Txt ''cuda_gb_reserved='') (Grp 1 decimal)),
     (''cuda_free_gb'', Seq (Txt ''cuda_gb_free='') (Grp 1 decimal)),
     (''wall_time'', Seq (Txt ''wall='') (Grp 1 decimal))]"

definition iteration_patterns :: "(string \<times> rx) list" where
  "iteration_patterns = [
     (''iteration'', seqs [Txt ''iteration'', spaces1, Grp 1 digs, Txt ''/'', spaces, Grp 2 digs]),
     (''consumed_samples'', seqs [Txt ''consumed samples:'', spaces1, Grp 1 digs]),
     (''elapsed_time_ms'', seqs [Txt ''elapsed time per iteration (ms):'', spaces1, Grp 1 decimal]),
     (''throughput_tflops_per_gpu'', seqs [Txt ''throughput per GPU (TFLOP/s/GPU):'', spaces1, Grp 1 decimal]),
     (''learning_rate'', seqs [Txt ''learning rate:'', spaces1, Grp 1 (scientific ''Ee+-'')]),
     (''global_batch_size'', seqs [Txt ''global batch size:'', spaces1, Grp 1 digs]),
     (''lm_loss'', seqs [Txt ''lm loss:'', spaces1, Grp 1 (scientific ''Ee+-'')]),
     (''loss_scale'', seqs [Txt ''loss scale:'', spaces1, Grp 1 decimal]),
     (''gradient_norm'', seqs [Txt ''grad norm:'', spaces1, Grp 1 decimal]),
     (''skipped_iterations'', seqs [Txt ''number of skipped iterations:'', spaces1, Grp 1 digs]),
     (''nan_iterations'', seqs [Txt ''number of nan iterations:'', spaces1, Grp 1 digs])]"

definition stamp_rx :: rx where
  "stamp_rx = seqs [times_rx 4 dig, Txt ''-'', times_rx 2 dig, Txt ''-'', times_rx 2 dig, Txt '' '',
     times_rx 2 dig, Txt '':'', times_rx 2 dig, Txt '':'', times_rx 2 dig]"

text \<open>Groups 1 to 4: timestamp, iter_num, total_iter, iter_time.\<close>

definition iteration_line :: rx where
  "iteration_line = seqs [AtStart, spaces, Txt ''['', Grp 1 stamp_rx, Txt '']'', spaces, Txt ''iteration'',
     spaces1, Grp 2 digs, Txt ''/'', spaces, Grp 3 digs, Lazy any_char,
     Txt ''elapsed time per iteration (ms):'', spaces1, Grp 4 decimal]"

definition timer_line :: "string \<Rightarrow> rx" where
  "timer_line name = seqs [Txt name, spaces1, plus (Txt ''.''), Txt '':'', spaces, Txt ''('', Grp 1 decimal,
     spaces, Txt '','', spaces, Grp 2 decimal, Txt '')'']"

definition ckpt_iter_line :: rx where
  "ckpt_iter_line = seqs [Txt ''saving checkpoint at iteration'', spaces1, Grp 1 digs, spaces1, Txt ''to'']"

section \<open>Error lines\<close>

text \<open>The \<^verbatim>\<open>data\<close> dictionary of a fault; a missing key is None.\<close>

record fault_data =
  fd_type :: string
  fd_pid :: "string option"
  fd_exit :: "int option"
  fd_runtime :: "string option"
  fd_signal :: "int option"
  fd_traceback_rank :: "int option"
  fd_peer :: "(string \<times> int) option"
  fd_host :: "string option"
  fd_node :: "string option"
  fd_rank :: "json option"
  fd_local_rank :: "int option"
  fd_time :: "string option"
  fd_info :: "string option"
  fd_message :: "string option"
  fd_traceback_ranks :: "int list option"
  fd_traceback_node :: "int option"

record fault_msg =
  fm_type :: string
  fm_data :: fault_data

definition plain_data :: "string \<Rightarrow> fault_data" where
  "plain_data ty = \<lparr>fd_type = ty, fd_pid = None, fd_exit = None, fd_runtime = None, fd_signal = None,
     fd_traceback_rank = None, fd_peer = None, fd_host = None, fd_node = None, fd_rank = None,
     fd_local_rank = None, fd_time = None, fd_info = None, fd_message = None, fd_traceback_ranks = None,
     fd_traceback_node = None\<rparr>"

definition exit_data :: "string \<Rightarrow> string \<Rightarrow> fault_data" where
  "exit_data ty p = (plain_data ty)\<lparr> fd_pid := Some p, fd_exit := Some 1 \<rparr>"

definition digits_int :: "string \<Rightarrow> int" where
  "digits_int s = (case py_int s of None \<Rightarrow> 0 | Some n \<Rightarrow> n)"

definition fault_of_match :: "string \<Rightarrow> spot \<Rightarrow> fault_msg" where
  "fault_of_match key m =
     (if key = ''prte_process_exit'' then
        let code = digits_int (cap_text 2 m) in
        \<lparr>fm_type = ''exit'', fm_data = (plain_data ''proc'')\<lparr> fd_pid := Some (cap_text 1 m),
           fd_exit := Some code, fd_runtime := Some ''prte'',
           fd_signal := (if 128 \<le> code then Some (code - 128) else None) \<rparr>\<rparr>
      else if key = ''fault_pid'' then \<lparr>fm_type = ''exit'', fm_data = exit_data ''rank'' (cap_text 1 m)\<rparr>
      else if key \<in> {''remote_node'', ''remote_daemon''} then
        \<lparr>fm_type = ''exit'', fm_data = exit_data ''node'' (cap_text 2 m)\<rparr>
      else if key = ''target_node'' then \<lparr>fm_type = ''exit'', fm_data = exit_data ''node'' (cap_text 1 m)\<rparr>
      else if key = ''rank_traceback'' then
        \<lparr>fm_type = ''exit'', fm_data = (exit_data ''proc'' traceback_text)
           \<lparr> fd_traceback_rank := Some (digits_int (cap_text 1 m)) \<rparr>\<rparr>
      else if key = ''connection_closed'' then
        \<lparr>fm_type = ''exit'', fm_data = (plain_data ''communication'')
           \<lparr> fd_pid := Some (cap_text 0 m), fd_peer := Some (cap_text 1 m, digits_int (cap_text 2 m)) \<rparr>\<rparr>
      else if key = ''ib_error'' then
        \<lparr>fm_type = ''exit'', fm_data = (plain_data ''communication'')
           \<lparr> fd_pid := Some (cap_text 0 m), fd_host := Some (cap_text 1 m) \<rparr>\<rparr>
      else if key \<in> {''nan_loss'', ''nan_grad''} then
        \<lparr>fm_type = ''loss'', fm_data = (plain_data ''NaN'')
           \<lparr> fd_rank := Some (JStr (cap_text 1 m)), fd_node := Some (cap_text 2 m) \<rparr>\<rparr>
      else if key = ''inf'' then
        \<lparr>fm_type = ''inf'', fm_data = (plain_data ''INF'')\<lparr> fd_rank := Some (JStr (cap_text 1 m)) \<rparr>\<rparr>
      else \<lparr>fm_type = ''exit'', fm_data = exit_data ''proc'' (cap_text 0 m)\<rparr>)"

text \<open>The first pattern of the table that occurs in the stripped line decides.\<close>

fun first_pattern :: "(string \<times> rx) list \<Rightarrow> string \<Rightarrow> (string \<times> spot) option" where
  "first_pattern [] s = None"
| "first_pattern ((key, r) # ps) s =
     (case rx_search r s of Some m \<Rightarrow> Some (key, m) | None \<Rightarrow> first_pattern ps s)"

definition parse_error_log :: "string \<Rightarrow> fault_msg option" where
  "parse_error_log line =
     map_option (\<lambda>(key, m). fault_of_match key m) (first_pattern error_patterns (py_strip line))"

section \<open>Training lines\<close>

text \<open>\<open>ll_fields\<close>: the texts that \<^verbatim>\<open>extract_patterns\<close> added.\<close>

record log_line =
  ll_text :: "string option"
  ll_iter :: int
  ll_total :: "int option"
  ll_stamp :: "string option"
  ll_iter_time :: "py_float option"
  ll_fields :: "(string \<times> string) list"

datatype parsed = FaultMsg fault_msg | TrainLine log_line | CkptTime py_float | CkptStart int

definition extract_patterns :: "string \<Rightarrow> (string \<times> rx) list \<Rightarrow> (string \<times> string) list" where
  "extract_patterns line ps =
     concat (map (\<lambda>(key, r). case rx_search r line of None \<Rightarrow> [] | Some m \<Rightarrow> [(key, cap_text 1 m)]) ps)"

definition ll_field :: "string \<Rightarrow> log_line \<Rightarrow> string option" where
  "ll_field key l = map_of (ll_fields l) key"

definition parse_training_log :: "string \<Rightarrow> py_exn + parsed option" where
  "parse_training_log line =
     (case rx_search epoch_pattern line of
        Some m \<Rightarrow> Inr (Some (TrainLine \<lparr>ll_text = Some line, ll_iter = digits_int (cap_text 2 m),
          ll_total = Some (digits_int (cap_text 3 m)), ll_stamp = None, ll_iter_time = None,
          ll_fields = extract_patterns line epoch_patterns\<rparr>))
      | None \<Rightarrow>
     case rx_search iteration_line line of
        Some m \<Rightarrow>
          (case py_float_of (cap_text 4 m) of
             None \<Rightarrow> Inl ValueError
           | Some t \<Rightarrow> Inr (Some (TrainLine \<lparr>ll_text = Some line, ll_iter = digits_int (cap_text 2 m),
               ll_total = Some (digits_int (cap_text 3 m)), ll_stamp = Some (cap_text 1 m),
               ll_iter_time = Some t, ll_fields = extract_patterns line iteration_patterns\<rparr>)))
      | None \<Rightarrow>
     case rx_search (timer_line ''save-checkpoint'') line of
        Some m \<Rightarrow> (case py_float_of (cap_text 2 m) of None \<Rightarrow> Inl ValueError | Some t \<Rightarrow> Inr (Some (CkptTime t)))
      | None \<Rightarrow>
     case rx_search ckpt_iter_line line of
        Some m \<Rightarrow> Inr (Some (CkptStart (digits_int (cap_text 1 m))))
      | None \<Rightarrow> Inr None)"

text \<open>
  The two results are merged into one dictionary: the error's type wins, and of a fault only the
  type and the data are read.
\<close>

definition analyze_mega_log :: "string \<Rightarrow> py_exn + parsed option" where
  "analyze_mega_log line =
     (case parse_training_log line of
        Inl e \<Rightarrow> Inl e
      | Inr t \<Rightarrow> Inr (case parse_error_log line of Some f \<Rightarrow> Some (FaultMsg f) | None \<Rightarrow> t))"

section \<open>The parser of the other framework\<close>

text \<open>
  Its error lines give a flat dictionary: a type and the fault text, no \<^verbatim>\<open>data\<close>.  The
  one non-ASCII character of the table is written as its UTF-8 bytes.
\<close>

definition special_error_patterns :: "(string \<times> rx) list" where
  "special_error_patterns = [
     (''fault_pid'', seqs [Txt ''Process name: ['', Grp 1 (seqs [Txt ''prterun-'', any_char, Lazy any_char]), Txt '']'']),
     (''remote_node'', seqs [Txt ''Remote daemon:'', spaces, Grp 1 jobid, spaces, Txt ''on node'', spaces,
        Grp 2 name_chars]),
     (''remote_daemon'', seqs [Txt ''Remote daemon: ['', Grp 1 (seqs [Txt ''prterun-'', any_char, Lazy any_char]),
        Txt ''] on node '', Grp 2 (plus (Cls (\<lambda>c. \<not> is_ws c)))]),
     (''traceback_error'', Txt traceback_text),
     (''primary_message'', seqs [Txt ''Primary job'', spaces1, Txt ''terminated normally, but'', spaces1,
        Txt ''1 process returned'']),
     (''connection_closed'', seqs [Txt ''RuntimeError'', Star any_char, Txt ''Connection closed by peer'',
        Lazy any_char, Txt ''['', Grp 1 ipv4, Txt '']:'', Grp 2 digs]),
     (''ib_error'', seqs [Txt ''['', plus (Cls (\<lambda>c. c \<noteq> CHR '']'')), Txt '']:['', Grp 1 alnums, Txt '':'',
        Grp 2 digs, Txt '':'', digs, Txt '':'', digs, Txt '']'', Star any_char,
        Txt ''send completion with error: Work Request Flushed Error'']),
     (''rank_pattern'', seqs [Grp 1 (seqs [digs, Txt ''.'', digs]), Txt ''/'', Grp 2 digs]),
     (''terminated'', seqs [Star any_char, Txt [CHR 0xE8, CHR 0xA1, CHR 0x8C], spaces1, digs, Txt '':'', spaces1,
        digs, spaces1, Txt ''Terminated'', Star any_char])]"

definition flat_fault :: "string \<Rightarrow> spot \<Rightarrow> string \<times> string" where
  "flat_fault key m =
     (if key = ''fault_pid'' then (''rank'', cap_text 1 m)
      else if key \<in> {''remote_node'', ''remote_daemon''} then (''node'', cap_text 2 m)
      else (''proc'', cap_text 0 m))"

definition special_parse_error_log :: "string \<Rightarrow> (string \<times> string) option" where
  "special_parse_error_log line =
     map_option (\<lambda>(key, m). flat_fault key m) (first_pattern special_error_patterns (py_strip line))"

definition log_timestamp :: rx where
  "log_timestamp = seqs [Txt ''['', Grp 1 stamp_rx, Txt '','', digs, Txt '']'']"

definition extract_log_timestamp :: "string \<Rightarrow> string \<Rightarrow> string" where
  "extract_log_timestamp now line =
     (case rx_search log_timestamp line of Some m \<Rightarrow> cap_text 1 m | None \<Rightarrow> now)"

definition special_parse_training_log :: "string \<Rightarrow> string \<Rightarrow> log_line option" where
  "special_parse_training_log now line =
     (case rx_search epoch_pattern line of
        Some m \<Rightarrow>
          let fields = extract_patterns line epoch_patterns in
          Some \<lparr>ll_text = Some line,
            ll_iter = (case map_of fields ''num_updates'' of Some s \<Rightarrow> digits_int s | None \<Rightarrow> digits_int (cap_text 2 m)),
            ll_total = Some (digits_int (cap_text 3 m)), ll_stamp = Some (extract_log_timestamp now line),
            ll_iter_time = None, ll_fields = fields\<rparr>
      | None \<Rightarrow>
     case rx_search (seqs [Txt ''iteration'', spaces1, Grp 1 digs, Txt ''/'', spaces, Grp 2 digs]) line of
        Some m \<Rightarrow> Some \<lparr>ll_text = None, ll_iter = digits_int (cap_text 1 m),
            ll_total = Some (digits_int (cap_text 2 m)), ll_stamp = None, ll_iter_time = None,
            ll_fields = extract_patterns line iteration_patterns\<rparr>
      | None \<Rightarrow> None)"

section \<open>Line parsers\<close>

text \<open>What a line parser gives: a dictionary with the type of a flat fault, or one of the others.\<close>

datatype line_result = Parsed parsed | FlatFault string string

definition analyze_special_log :: "string \<Rightarrow> string \<Rightarrow> line_result option" where
  "analyze_special_log now line =
     (case special_parse_error_log line of
        Some (ty, p) \<Rightarrow> Some (FlatFault ty p)
      | None \<Rightarrow> map_option (\<lambda>l. Parsed (TrainLine l)) (special_parse_training_log now line))"

datatype parser_kind = BaseParser | SpecialParser

definition line_parser :: "parser_kind \<Rightarrow> string \<Rightarrow> string \<Rightarrow> py_exn + line_result option" where
  "line_parser k now line =
     (case k of
        BaseParser \<Rightarrow> (case analyze_mega_log line of Inl e \<Rightarrow> Inl e | Inr r \<Rightarrow> Inr (map_option Parsed r))
      | SpecialParser \<Rightarrow> Inr (analyze_special_log now line))"

definition create_log_parser :: "string \<Rightarrow> py_exn + parser_kind" where
  "create_log_parser ty =
     (if ty = ''base'' then Inr BaseParser else if ty = ''special'' then Inr SpecialParser else Inl ValueError)"

section \<open>The root-cause block of torchrun\<close>

record root_parser =
  tc_active :: bool
  tc_time :: "string option"
  tc_host :: "string option"
  tc_rank :: "(int \<times> int) option"
  tc_lines :: nat

definition idle_parser :: root_parser where
  "idle_parser = \<lparr>tc_active = False, tc_time = None, tc_host = None, tc_rank = None, tc_lines = 0\<rparr>"

definition signed_rx :: rx where "signed_rx = Seq (opt (Txt ''-'')) digs"

definition field_start :: "string \<Rightarrow> rx list \<Rightarrow> rx" where
  "field_start name rs = seqs ([AtStart, spaces, Txt name, spaces, Txt '':'', spaces] @ rs @ [spaces, AtEnd])"

definition root_start :: rx where "root_start = Txt ''Root Cause (first observed failure):''"

definition root_time :: rx where
  "root_time = field_start ''time'' [Grp 1 (seqs [any_char, Lazy any_char])]"

definition root_host :: rx where
  "root_host = field_start ''host'' [Grp 1 (plus (Cls (\<lambda>c. \<not> is_ws c)))]"

definition root_rank :: rx where
  "root_rank = field_start ''rank'' [Grp 1 signed_rx, spaces, Txt ''(local_rank:'', spaces, Grp 2 signed_rx, Txt '')'']"

definition root_exit :: rx where
  "root_exit = field_start ''exitcode'' [Grp 1 signed_rx, opt (seqs [spaces, Txt ''('', Star any_char, Txt '')''])]"

definition root_fault :: "root_parser \<Rightarrow> int \<Rightarrow> line_result option" where
  "root_fault p code =
     (case (tc_host p, tc_rank p) of
        (Some h, Some (r, l)) \<Rightarrow> Some (Parsed (FaultMsg \<lparr>fm_type = ''exit'', fm_data = (plain_data ''root_cause'')
           \<lparr> fd_host := Some h, fd_rank := Some (JInt r), fd_local_rank := Some l, fd_exit := Some code,
              fd_time := tc_time p \<rparr>\<rparr>))
      | _ \<Rightarrow> None)"

text \<open>
  One line.  The exit code is stored even when fields are missing, but a later one overwrites it
  before it is used, so it is not part of the state.
\<close>

definition parse_line ::
    "(string \<Rightarrow> py_exn + line_result option) \<Rightarrow> string \<Rightarrow> root_parser \<Rightarrow> (line_result option, root_parser) outcome" where
  "parse_line lp line p =
     (if rx_search root_start line \<noteq> None then returns None (idle_parser\<lparr> tc_active := True \<rparr>)
      else if \<not> tc_active p then (lp line, p)
      else
        let p1 = p\<lparr> tc_lines := tc_lines p + 1 \<rparr> in
        if 100 < tc_lines p1 then (lp line, idle_parser)
        else case rx_search root_time line of
          Some m \<Rightarrow> returns None (p1\<lparr> tc_time := Some (cap_text 1 m) \<rparr>)
        | None \<Rightarrow>
        case rx_search root_host line of
          Some m \<Rightarrow> returns None (p1\<lparr> tc_host := Some (cap_text 1 m) \<rparr>)
        | None \<Rightarrow>
        case rx_search root_rank line of
          Some m \<Rightarrow> returns None (p1\<lparr> tc_rank := Some (digits_int (cap_text 1 m), digits_int (cap_text 2 m)) \<rparr>)
        | None \<Rightarrow>
        case rx_search root_exit line of
          Some m \<Rightarrow>
            (case root_fault p1 (digits_int (cap_text 1 m)) of
               None \<Rightarrow> returns None p1
             | Some f \<Rightarrow> returns (Some f) idle_parser)
        | None \<Rightarrow> returns None p1)"

end
