(* ===== verification/LogFaults.thy ===== *)
theory LogFaults
  imports LogParser
begin

text \<open>
  The delayed reporting of faults (\<^verbatim>\<open>FaultHandler\<close> in monitor/log_fault_handler.py): the
  cache of exit messages, its timers with their generations, the choice of the one fault to report,
  and what is published.  A timer that was cancelled may still call back, as the comments of the
  source say: every timer ever started stays pending until it fires.
\<close>

section \<open>The choice of the reported fault\<close>

definition traceback_rank_of :: "fault_msg \<Rightarrow> int option" where
  "traceback_rank_of f =
     (if py_lower (fd_type (fm_data f)) \<noteq> ''proc'' then None
      else case fd_traceback_rank (fm_data f) of
             None \<Rightarrow> None | Some r \<Rightarrow> if 0 \<le> r then Some r else None)"

definition ranked_tracebacks :: "fault_msg list \<Rightarrow> (int \<times> fault_msg) list" where
  "ranked_tracebacks cache =
     concat (map (\<lambda>f. case traceback_rank_of f of None \<Rightarrow> [] | Some r \<Rightarrow> [(r, f)]) cache)"

definition promote :: "int list \<Rightarrow> int \<Rightarrow> int \<times> fault_msg \<Rightarrow> fault_msg" where
  "promote ranks node rf = (snd rf)\<lparr> fm_data := (fm_data (snd rf))\<lparr> fd_type := ''global_rank'',
     fd_pid := Some (show_int (fst rf)), fd_rank := Some (JInt (fst rf)), fd_traceback_ranks := Some ranks,
     fd_traceback_node := Some node, fd_message := Some ''single-node traceback aggregation'' \<rparr> \<rparr>"

definition fault_text :: "fault_data \<Rightarrow> string option" where
  "fault_text d = (case fd_pid d of Some (c # cs) \<Rightarrow> Some (c # cs) | _ \<Rightarrow> fd_info d)"

definition priority :: "fault_msg \<Rightarrow> int" where
  "priority f =
     (let d = fm_data f; ty = py_lower (fd_type d) in
      if (case fd_node d of Some (_ # _) \<Rightarrow> True | _ \<Rightarrow> False) \<or> ty = ''node'' then 300
      else if ty = ''root_cause'' then 200
      else if ty \<in> {''rank'', ''loss'', ''inf'', ''nan''} then 150
      else if ty = ''communication'' then 100
      else if ty = ''proc'' \<and> fault_text d \<noteq> None then
        (if (case fd_exit d of None \<Rightarrow> 0 | Some c \<Rightarrow> c) \<noteq> 0 then 125
         else if is_prefix_of traceback_text (the (fault_text d)) then 0 else - 1)
      else - 1)"

text \<open>The first of the faults with the highest priority.\<close>

fun best_fault :: "fault_msg list \<Rightarrow> fault_msg option" where
  "best_fault [] = None"
| "best_fault (f # fs) =
     (case best_fault fs of
        None \<Rightarrow> if 0 \<le> priority f then Some f else None
      | Some g \<Rightarrow> if priority g \<le> priority f then Some f else Some g)"

definition traceback_nodes :: "int \<Rightarrow> fault_msg list \<Rightarrow> int list" where
  "traceback_nodes slots cache = remdups (map (\<lambda>(r, f). r div slots) (ranked_tracebacks cache))"

definition induce_fault_cache :: "int \<Rightarrow> fault_msg list \<Rightarrow> fault_msg option" where
  "induce_fault_cache slots cache =
     (case (ranked_tracebacks cache, traceback_nodes slots cache) of
        (rf # _, [node]) \<Rightarrow>
          Some (promote (sorted_set (map fst (ranked_tracebacks cache))) node rf)
      | _ \<Rightarrow> best_fault cache)"

section \<open>The handler\<close>

record fault_handler =
  fh_slots :: int
  fh_cache :: "fault_msg list"
  fh_generation :: nat
  fh_timers :: "nat list"

definition new_handler :: "int \<Rightarrow> fault_handler" where
  "new_handler slots = \<lparr>fh_slots = max slots 1, fh_cache = [], fh_generation = 0, fh_timers = []\<rparr>"

definition add_fault_msg :: "fault_msg \<Rightarrow> fault_handler \<Rightarrow> fault_handler" where
  "add_fault_msg f h = h\<lparr> fh_cache := fh_cache h @ [f], fh_timers := fh_timers h @ [fh_generation h] \<rparr>"

definition clear_faults :: "fault_handler \<Rightarrow> fault_handler" where
  "clear_faults h = h\<lparr> fh_generation := fh_generation h + 1, fh_cache := [] \<rparr>"

text \<open>What is published: the fault's text goes by another name.\<close>

definition published :: "fault_msg \<Rightarrow> fault_msg" where
  "published f = (case fd_pid (fm_data f) of
      None \<Rightarrow> f
    | Some p \<Rightarrow> f\<lparr> fm_data := (fm_data f)\<lparr> fd_pid := None, fd_info := Some p \<rparr> \<rparr>)"

definition send_fault_message :: "nat \<Rightarrow> fault_handler \<Rightarrow> fault_msg option \<times> fault_handler" where
  "send_fault_message gen h =
     (if gen \<noteq> fh_generation h then (None, h)
      else case induce_fault_cache (fh_slots h) (fh_cache h) of
             None \<Rightarrow> (None, h)
           | Some f \<Rightarrow> (Some (published f), h\<lparr> fh_cache := [] \<rparr>))"

text \<open>Timer number \<open>i\<close> fires and is gone.\<close>

definition fire_timer :: "nat \<Rightarrow> fault_handler \<Rightarrow> fault_msg option \<times> fault_handler" where
  "fire_timer i h =
     (if i < length (fh_timers h)
      then send_fault_message (fh_timers h ! i)
             (h\<lparr> fh_timers := take i (fh_timers h) @ drop (Suc i) (fh_timers h) \<rparr>)
      else (None, h))"

datatype handler_event = AddFault fault_msg | ClearFaults | FireTimer nat

fun handler_step :: "handler_event \<Rightarrow> fault_handler \<Rightarrow> fault_msg option \<times> fault_handler" where
  "handler_step (AddFault f) h = (None, add_fault_msg f h)"
| "handler_step ClearFaults h = (None, clear_faults h)"
| "handler_step (FireTimer i) h = fire_timer i h"

fun handler_run :: "handler_event list \<Rightarrow> fault_handler \<Rightarrow> fault_msg list \<times> fault_handler" where
  "handler_run [] h = ([], h)"
| "handler_run (e # es) h =
     (case handler_step e h of (m, h1) \<Rightarrow> case handler_run es h1 of (ms, h2) \<Rightarrow>
        ((case m of None \<Rightarrow> ms | Some f \<Rightarrow> f # ms), h2))"

section \<open>The choice is the first best fault\<close>

lemma best_fault_None: "best_fault fs = None \<longleftrightarrow> (\<forall>f\<in>set fs. priority f < 0)"
  by (induction fs) (auto split: option.splits)

lemma best_fault_Some:
  "best_fault fs = Some f \<Longrightarrow>
     \<exists>xs ys. fs = xs @ f # ys \<and> 0 \<le> priority f \<and> (\<forall>g\<in>set fs. priority g \<le> priority f)
       \<and> (\<forall>g\<in>set xs. priority g < priority f)"
proof (induction fs arbitrary: f)
  case (Cons h fs)
  show ?case
  proof (cases "best_fault fs")
    case None
    then have "f = h" "0 \<le> priority h" using Cons.prems by (auto split: if_splits)
    moreover have "\<forall>g\<in>set fs. priority g < 0" using None by (simp add: best_fault_None)
    ultimately show ?thesis by (intro exI [of _ "[]"] exI [of _ fs]) (auto intro: less_imp_le order_less_le_trans)
  next
    case (Some g)
    note IH = Cons.IH [OF Some]
    show ?thesis
    proof (cases "priority g \<le> priority h")
      case True
      then have "f = h" using Cons.prems Some by simp
      moreover have "\<forall>x\<in>set fs. priority x \<le> priority h" "0 \<le> priority h" using IH True by force+
      ultimately show ?thesis by (intro exI [of _ "[]"] exI [of _ fs]) auto
    next
      case False
      then have "f = g" using Cons.prems Some by simp
      moreover obtain xs ys where "fs = xs @ g # ys" "0 \<le> priority g" "\<forall>x\<in>set fs. priority x \<le> priority g"
        "\<forall>x\<in>set xs. priority x < priority g" using IH by blast
      ultimately show ?thesis using False by (intro exI [of _ "h # xs"] exI [of _ ys]) auto
    qed
  qed
qed simp

lemma ranked_tracebacks_iff:
  "(r, f) \<in> set (ranked_tracebacks cache) \<longleftrightarrow> f \<in> set cache \<and> traceback_rank_of f = Some r"
  by (auto simp: ranked_tracebacks_def split: option.splits)

lemma remdups_single: "remdups xs = [x] \<longleftrightarrow> xs \<noteq> [] \<and> (\<forall>y\<in>set xs. y = x)"
proof -
  have "remdups xs = [x] \<longleftrightarrow> set (remdups xs) = {x}"
  proof
    assume s: "set (remdups xs) = {x}"
    then have "length (remdups xs) = 1" using distinct_card [OF distinct_remdups [of xs]] by (simp only: card.insert finite.emptyI empty_iff card.empty) simp
    then obtain y where "remdups xs = [y]" unfolding One_nat_def length_Suc_conv by blast
    then show "remdups xs = [x]" using s by simp
  qed simp
  also have "\<dots> \<longleftrightarrow> xs \<noteq> [] \<and> (\<forall>y\<in>set xs. y = x)"
    unfolding set_remdups set_empty [symmetric] by (metis insert_not_empty singletonD singletonI subsetI subset_singletonD)
  finally show ?thesis .
qed

lemma one_node:
  "traceback_nodes slots cache = [node] \<longleftrightarrow>
     ranked_tracebacks cache \<noteq> [] \<and> (\<forall>(r, f)\<in>set (ranked_tracebacks cache). r div slots = node)"
  by (auto simp: traceback_nodes_def remdups_single)

text \<open>Where a reported fault comes from.\<close>

definition reports :: "fault_msg \<Rightarrow> fault_msg \<Rightarrow> bool" where
  "reports g f \<longleftrightarrow> g = published f \<or> (\<exists>ranks node r. traceback_rank_of f = Some r \<and> g = published (promote ranks node (r, f)))"

lemma induce_from_cache:
  assumes "induce_fault_cache slots cache = Some g"
  shows "\<exists>f\<in>set cache. reports (published g) f"
proof -
  consider rf rfs node where "ranked_tracebacks cache = rf # rfs" "traceback_nodes slots cache = [node]"
      "g = promote (sorted_set (map fst (ranked_tracebacks cache))) node rf"
    | "best_fault cache = Some g"
    using assms by (auto simp: induce_fault_cache_def split: list.splits)
  then show ?thesis
  proof cases
    case 1
    obtain r f where "rf = (r, f)" by (cases rf)
    then show ?thesis using 1 ranked_tracebacks_iff [of r f cache] by (auto simp: reports_def)
  next
    case 2
    then show ?thesis using best_fault_Some by (fastforce simp: reports_def)
  qed
qed

lemma induce_None: "induce_fault_cache slots cache = None \<Longrightarrow> \<forall>f\<in>set cache. priority f < 0"
  by (auto simp: induce_fault_cache_def best_fault_None split: list.splits)

section \<open>Runs of the handler\<close>

definition handler_ok :: "fault_handler \<Rightarrow> bool" where
  "handler_ok h \<longleftrightarrow> 1 \<le> fh_slots h \<and> (\<forall>g\<in>set (fh_timers h). g \<le> fh_generation h)"

lemma handler_ok_step [inv_intros]:
  assumes "handler_ok h"
  shows "handler_ok (snd (handler_step e h))"
proof (cases e)
  case (FireTimer i)
  have "set (take i ts @ drop (Suc i) ts) \<subseteq> set ts" for ts :: "nat list"
    using set_take_subset set_drop_subset by fastforce
  then show ?thesis using assms FireTimer
    by (fastforce simp: handler_ok_def fire_timer_def send_fault_message_def split: option.split)
qed (use assms in \<open>auto simp: handler_ok_def add_fault_msg_def clear_faults_def\<close>)

lemma handler_ok_run: "handler_ok h \<Longrightarrow> handler_ok (snd (handler_run es h))"
proof (induction es arbitrary: h)
  case (Cons e es)
  then show ?case using handler_ok_step [OF Cons.prems, of e]
    by (auto split: prod.splits) (metis snd_conv)
qed simp

lemma handler_ok_new [inv_intros]: "handler_ok (new_handler slots)"
  by (simp add: handler_ok_def new_handler_def)

text \<open>Every timer is void once the cache was cleared.\<close>

lemma cleared_timers: "handler_ok h \<Longrightarrow> \<forall>g\<in>set (fh_timers (clear_faults h)). g < fh_generation (clear_faults h)"
  by (auto simp: handler_ok_def clear_faults_def)

lemma stale_timers_silent:
  assumes "\<forall>j<length is. is ! j < k - j" "k \<le> length (fh_timers h)"
    and "\<forall>g\<in>set (take k (fh_timers h)). g \<noteq> fh_generation h"
  shows "fst (handler_run (map FireTimer is) h) = [] \<and> fh_cache (snd (handler_run (map FireTimer is) h)) = fh_cache h"
  using assms
proof (induction "is" arbitrary: h k)
  case (Cons i js)
  let ?ts = "fh_timers h" and ?h1 = "h\<lparr> fh_timers := take i (fh_timers h) @ drop (Suc i) (fh_timers h) \<rparr>"
  have i: "i < k" using Cons.prems(1) by force
  then have "?ts ! i \<in> set (take k ?ts)"
    using Cons.prems(2) by (metis in_set_conv_nth length_take min_absorb2 nth_take)
  then have step: "handler_step (FireTimer i) h = (None, ?h1)"
    using i Cons.prems(2,3) by (simp add: fire_timer_def send_fault_message_def)
  have take: "take (k - 1) (fh_timers ?h1) = take i ?ts @ take (k - 1 - i) (drop (Suc i) ?ts)"
  proof -
    obtain d where "k = Suc (i + d)" using i less_iff_Suc_add by blast
    then show ?thesis using Cons.prems(2) by simp
  qed
  have "set (take (k - 1) (fh_timers ?h1)) \<subseteq> set (take k ?ts)"
  proof -
    have "take (k - 1 - i) (drop (Suc i) ?ts) = drop (Suc i) (take k ?ts)"
      using i by (simp add: take_drop)
    moreover have "take i ?ts = take i (take k ?ts)" using i by simp
    ultimately show ?thesis unfolding take using set_take_subset set_drop_subset by fastforce
  qed
  moreover have "\<forall>j<length js. js ! j < k - 1 - j" using Cons.prems(1) by fastforce
  ultimately have "fst (handler_run (map FireTimer js) ?h1) = [] \<and> fh_cache (snd (handler_run (map FireTimer js) ?h1)) = fh_cache ?h1"
    using Cons.prems(2,3) i by (intro Cons.IH [of "k - 1"]) auto
  then show ?case using step by (simp add: case_prod_unfold)
qed simp

text \<open>
  C21: Clearing the fault cache voids everything before it: the timers started before it, even those
  that still call back, send nothing, and a fault added afterwards waits in the cache for a timer of
  its own.
\<close>
theorem clear_voids_old_timers:
  assumes "handler_run es (new_handler slots) = (ms, h)"
    and "\<forall>j<length is. is ! j < length (fh_timers h) - j"
  shows "handler_run (ClearFaults # AddFault f # map FireTimer is) h =
      ([], snd (handler_run (ClearFaults # AddFault f # map FireTimer is) h))
    \<and> fh_cache (snd (handler_run (ClearFaults # AddFault f # map FireTimer is) h)) = [f]"
proof -
  have "handler_ok h" using handler_ok_run [OF handler_ok_new, of es slots] assms(1) by simp
  let ?h = "add_fault_msg f (clear_faults h)"
  have "\<forall>g\<in>set (take (length (fh_timers h)) (fh_timers ?h)). g \<noteq> fh_generation ?h"
    using cleared_timers [OF \<open>handler_ok h\<close>] by (auto simp: add_fault_msg_def clear_faults_def)
  moreover have "length (fh_timers h) \<le> length (fh_timers ?h)" by (simp add: add_fault_msg_def clear_faults_def)
  ultimately have "fst (handler_run (map FireTimer is) ?h) = [] \<and> fh_cache (snd (handler_run (map FireTimer is) ?h)) = fh_cache ?h"
    using stale_timers_silent assms(2) by blast
  moreover have "fh_cache ?h = [f]" by (simp add: add_fault_msg_def clear_faults_def)
  ultimately show ?thesis by (simp add: case_prod_unfold prod_eq_iff)
qed

definition traceback_fault :: "int \<Rightarrow> fault_msg" where
  "traceback_fault r = \<lparr>fm_type = ''exit'', fm_data = (exit_data ''proc'' traceback_text)\<lparr> fd_traceback_rank := Some r \<rparr>\<rparr>"

theorem clear_voids_old_timers_witness:
  "fst (handler_run [AddFault (traceback_fault 3), AddFault (traceback_fault 4), ClearFaults,
      AddFault (traceback_fault 9), FireTimer 1, FireTimer 0] (new_handler 8)) = []"
proof -
  let ?es = "[AddFault (traceback_fault 3), AddFault (traceback_fault 4)]"
  let ?h = "snd (handler_run ?es (new_handler 8))"
  have ts: "handler_run ?es (new_handler 8) = ([], ?h)" "fh_timers ?h = [0, 0]"
    by (simp_all add: new_handler_def add_fault_msg_def)
  have "\<forall>j<length [1, 0]. [1, 0] ! j < length (fh_timers ?h) - j"
    unfolding ts(2) by (auto simp: less_Suc_eq)
  from clear_voids_old_timers [OF ts(1) this, of "traceback_fault 9", THEN conjunct1, THEN arg_cong [where f = fst]]
  have run: "fst (handler_run [ClearFaults, AddFault (traceback_fault 9), FireTimer 1, FireTimer 0] ?h) = []"
    by (simp only: list.map fst_conv)
  have "handler_run (?es @ es2) h = (let r = handler_run ?es h; q = handler_run es2 (snd r) in (fst r @ fst q, snd q))" for es2 h
    by (simp add: case_prod_unfold Let_def)
  from this [of "[ClearFaults, AddFault (traceback_fault 9), FireTimer 1, FireTimer 0]" "new_handler 8"]
  show ?thesis using arg_cong [where f = fst, OF ts(1)] run
    by (simp only: append.simps append_Nil2 Let_def fst_conv)
qed

section \<open>Which fault is reported\<close>

definition same_node :: "int \<Rightarrow> fault_msg list \<Rightarrow> int \<Rightarrow> bool" where
  "same_node slots cache node \<longleftrightarrow> ranked_tracebacks cache \<noteq> []
     \<and> (\<forall>(r, f)\<in>set (ranked_tracebacks cache). r div slots = node)"

lemma induce_single: "same_node slots cache node \<Longrightarrow>
  induce_fault_cache slots cache = Some (promote (sorted_set (map fst (ranked_tracebacks cache))) node (hd (ranked_tracebacks cache)))"
  using one_node [of slots cache node]
  by (cases "ranked_tracebacks cache") (simp_all add: same_node_def induce_fault_cache_def)

lemma induce_best: "\<forall>node. \<not> same_node slots cache node \<Longrightarrow> induce_fault_cache slots cache = best_fault cache"
  unfolding same_node_def one_node [symmetric] by (auto simp: induce_fault_cache_def split: list.splits)

text \<open>
  C20: What the handler reports of its cache.  When there are tracebacks with a rank and all of
  them lie on one node, it is the first of them, promoted to a fault of that node's global rank with
  all the ranks seen, whatever else the cache holds: also a fault that names its node, of priority
  300, is then not reported, against the comments, which put node faults before tracebacks.  Otherwise it is
  the first of the cached faults of highest priority, in particular a fault that names its node before
  any other, and nothing exactly when no fault has a priority.  What is sent is that fault, and the
  cache is empty afterwards; when there is none, nothing is sent and the cache is kept.
\<close>
theorem reported_fault_is_best:
  "(\<forall>node\<in>{n. same_node slots cache n}. induce_fault_cache slots cache =
       Some (promote (sorted_set (map fst (ranked_tracebacks cache))) node (hd (ranked_tracebacks cache))))
   \<and> ((\<exists>n. same_node slots cache n) \<or>
      (case induce_fault_cache slots cache of
         None \<Rightarrow> \<forall>f\<in>set cache. priority f < 0
       | Some f \<Rightarrow> \<exists>xs ys. cache = xs @ f # ys \<and> 0 \<le> priority f
           \<and> (\<forall>g\<in>set cache. priority g \<le> priority f) \<and> (\<forall>g\<in>set xs. priority g < priority f)))
   \<and> (let h = \<lparr>fh_slots = slots, fh_cache = cache, fh_generation = gen, fh_timers = ts\<rparr> in
       send_fault_message gen h = (case induce_fault_cache slots cache of
         None \<Rightarrow> (None, h) | Some f \<Rightarrow> (Some (published f), h\<lparr> fh_cache := [] \<rparr>)))"
proof -
  have "case best_fault cache of None \<Rightarrow> \<forall>f\<in>set cache. priority f < 0
       | Some f \<Rightarrow> \<exists>xs ys. cache = xs @ f # ys \<and> 0 \<le> priority f
           \<and> (\<forall>g\<in>set cache. priority g \<le> priority f) \<and> (\<forall>g\<in>set xs. priority g < priority f)"
    using best_fault_None [of cache] best_fault_Some [of cache] by (cases "best_fault cache") auto
  then have best: "(\<exists>n. same_node slots cache n) \<or>
      (case induce_fault_cache slots cache of
         None \<Rightarrow> \<forall>f\<in>set cache. priority f < 0
       | Some f \<Rightarrow> \<exists>xs ys. cache = xs @ f # ys \<and> 0 \<le> priority f
           \<and> (\<forall>g\<in>set cache. priority g \<le> priority f) \<and> (\<forall>g\<in>set xs. priority g < priority f))"
    by (cases "\<exists>n. same_node slots cache n") (simp_all only: induce_best simp_thms not_ex)
  have sent: "let h = \<lparr>fh_slots = slots, fh_cache = cache, fh_generation = gen, fh_timers = ts\<rparr> in
       send_fault_message gen h = (case induce_fault_cache slots cache of
         None \<Rightarrow> (None, h) | Some f \<Rightarrow> (Some (published f), h\<lparr> fh_cache := [] \<rparr>))"
    by (simp add: send_fault_message_def Let_def)
  show ?thesis by (intro conjI ballI best sent) (simp add: induce_single)
qed

theorem reported_fault_is_best_witness:
  "induce_fault_cache 8 [traceback_fault 13, traceback_fault 9] = Some (promote [9, 13] 1 (13, traceback_fault 13))"
proof -
  let ?cache = "[traceback_fault 13, traceback_fault 9]"
  have r: "ranked_tracebacks ?cache = [(13, traceback_fault 13), (9, traceback_fault 9)]"
    by (simp add: ranked_tracebacks_def traceback_rank_of_def traceback_fault_def exit_data_def plain_data_def
        py_lower_def lower_char_def is_upper_def less_eq_char_def)
  then have "1 \<in> {n. same_node 8 ?cache n}" by (simp add: same_node_def)
  from reported_fault_is_best [of 8 ?cache, THEN conjunct1, THEN bspec, OF this] r
  show ?thesis by (simp add: sorted_set_def)
qed

text \<open>
  The comments put a fault that names its node before every traceback; a traceback with a rank,
  alone on its node, hides such a fault, of priority 300, even of another node.
\<close>

lemma traceback_hides_node_fault:
  assumes "traceback_rank_of f = Some r" "traceback_rank_of g = None" "fd_node (fm_data g) = Some (c # cs)"
  shows "priority g = 300 \<and> induce_fault_cache slots [g, f] = Some (promote [r] (r div slots) (r, f))"
proof -
  have r: "ranked_tracebacks [g, f] = [(r, f)]" using assms(1,2) by (simp add: ranked_tracebacks_def)
  then have "same_node slots [g, f] (r div slots)" by (simp add: same_node_def)
  then show ?thesis using induce_single r assms(3) by (simp add: sorted_set_def priority_def Let_def)
qed

text \<open>
  The parser gives every process fault that is not a PRTE message the exit code 1: the branch of
  the priorities for a bare traceback is never reached, and a traceback outranks the evidence of a
  broken network link.
\<close>

lemma lower_texts [simp]: "py_lower ''proc'' = ''proc''" "py_lower ''communication'' = ''communication''"
  by (simp_all add: py_lower_def lower_char_def is_upper_def less_eq_char_def)

lemma parsed_proc:
  assumes "parse_error_log line = Some f" "fd_type (fm_data f) = ''proc''" "fd_runtime (fm_data f) = None"
  shows "fd_exit (fm_data f) = Some 1 \<and> fd_node (fm_data f) = None"
proof -
  obtain key m where f: "f = fault_of_match key m"
    using assms(1) by (cases "first_pattern error_patterns (py_strip line)") (auto simp: parse_error_log_def)
  show ?thesis using assms(2,3)
    unfolding f fault_of_match_def exit_data_def plain_data_def Let_def by (simp split: if_splits)
qed

text \<open>
  A plain traceback hides a communication fault: of a cache that holds a communication fault and
  then any non-empty process fault read from a line (other than a PRTE exit), without ranks, the
  handler reports the process fault.
\<close>
theorem traceback_hides_communication_fault:
  assumes "parse_error_log line = Some f" "fd_type (fm_data f) = ''proc''" "fd_runtime (fm_data f) = None"
    and "fd_pid (fm_data f) = Some (c # cs)" "fd_traceback_rank (fm_data f) = None"
    and "fd_type (fm_data g) = ''communication''" "fd_node (fm_data g) = None"
  shows "priority f = 125 \<and> induce_fault_cache slots [g, f] = Some f"
proof -
  have pf: "priority f = 125"
    using parsed_proc [OF assms(1-3)] assms(2,4) by (simp add: priority_def Let_def fault_text_def)
  have pg: "priority g = 100" using assms(6,7) by (simp add: priority_def Let_def)
  have "ranked_tracebacks [g, f] = []"
    using assms(5,6) by (simp add: ranked_tracebacks_def traceback_rank_of_def)
  then have "induce_fault_cache slots [g, f] = best_fault [g, f]"
    by (simp add: induce_fault_cache_def)
  then show ?thesis using pf pg by simp
qed

theorem traceback_hides_communication_fault_witness:
  "\<exists>f g. parse_error_log ''Traceback (most recent call last):'' = Some f
     \<and> parse_error_log ''[x]:[n1:2:3:4] send completion with error: Work Request Flushed Error'' = Some g
     \<and> induce_fault_cache 8 [g, f] = Some f"
proof -
  obtain f where f: "parse_error_log ''Traceback (most recent call last):'' = Some f"
    "f = \<lparr>fm_type = ''exit'', fm_data = exit_data ''proc'' traceback_text\<rparr>"
  proof -
    have "parse_error_log ''Traceback (most recent call last):'' = Some \<lparr>fm_type = ''exit'', fm_data = exit_data ''proc'' traceback_text\<rparr>"
      by code_simp
    then show ?thesis using that by blast
  qed
  obtain g where g: "parse_error_log ''[x]:[n1:2:3:4] send completion with error: Work Request Flushed Error'' = Some g"
    "fd_type (fm_data g) = ''communication''" "fd_node (fm_data g) = None"
  proof -
    have "map_option (\<lambda>g. (fd_type (fm_data g), fd_node (fm_data g)))
        (parse_error_log ''[x]:[n1:2:3:4] send completion with error: Work Request Flushed Error'')
        = Some (''communication'', None)" by code_simp
    then show ?thesis using that by auto
  qed
  have "fd_type (fm_data f) = ''proc''" "fd_runtime (fm_data f) = None" "fd_traceback_rank (fm_data f) = None"
    "fd_pid (fm_data f) = Some (CHR ''T'' # tl traceback_text)"
    by (simp_all add: f(2) exit_data_def plain_data_def traceback_text_def)
  from traceback_hides_communication_fault [OF f(1) this(1,2,4,3) g(2,3)] f(1) g(1)
  show ?thesis by blast
qed

end
