(* ===== verification/LogMetrics.thy ===== *)
theory LogMetrics
  imports LogParser StackModel
begin

text \<open>
  What the log monitor keeps of the training (\<^verbatim>\<open>TrainingDataRecorder\<close> in
  monitor/mega/training_data_recorder.py) and how it judges it (\<^verbatim>\<open>AnomalyDetector\<close> in
  monitor/log_anomaly_detector.py).  Finite floats are real numbers: sums and means are exact.  The
  checks that no code calls (performance, trajectory) and the printing of averages are left out.
\<close>

section \<open>Arithmetic of floats\<close>

fun pf_less :: "py_float \<Rightarrow> py_float \<Rightarrow> bool" where
  "pf_less (Fin x) (Fin y) = (x < y)"
| "pf_less NegInf (Fin y) = True"
| "pf_less NegInf PosInf = True"
| "pf_less (Fin x) PosInf = True"
| "pf_less _ _ = False"

fun pf_add :: "py_float \<Rightarrow> py_float \<Rightarrow> py_float" where
  "pf_add (Fin x) (Fin y) = Fin (x + y)"
| "pf_add NaN _ = NaN"
| "pf_add _ NaN = NaN"
| "pf_add PosInf NegInf = NaN"
| "pf_add NegInf PosInf = NaN"
| "pf_add PosInf _ = PosInf"
| "pf_add _ PosInf = PosInf"
| "pf_add NegInf _ = NegInf"
| "pf_add _ NegInf = NegInf"

text \<open>Multiplication by a positive number.\<close>

fun pf_scale :: "real \<Rightarrow> py_float \<Rightarrow> py_float" where
  "pf_scale k (Fin x) = Fin (k * x)"
| "pf_scale k v = v"

fun pf_abs :: "py_float \<Rightarrow> py_float" where
  "pf_abs (Fin x) = Fin \<bar>x\<bar>"
| "pf_abs NegInf = PosInf"
| "pf_abs v = v"

definition pf_sum :: "py_float list \<Rightarrow> py_float" where
  "pf_sum xs = foldl pf_add (Fin 0) xs"

definition pf_mean :: "py_float list \<Rightarrow> py_float" where
  "pf_mean xs = pf_scale (1 / real (length xs)) (pf_sum xs)"

definition pf_finite :: "py_float \<Rightarrow> bool" where
  "pf_finite v \<longleftrightarrow> v \<notin> {NaN, PosInf, NegInf}"

definition differs :: "py_float \<Rightarrow> py_float \<Rightarrow> bool" where
  "differs a b \<longleftrightarrow> a = NaN \<or> a \<noteq> b"

section \<open>The recorder\<close>

type_synonym metric = "(int \<times> py_float) list"

record recorder =
  rec_iter_times :: "py_float list"
  rec_ckpt_times :: "py_float list"
  rec_eval_times :: "py_float list"
  rec_extra :: "(int \<times> (string \<times> py_float) list) list"
  rec_loss :: metric
  rec_grad :: metric
  rec_lr :: metric
  rec_tflops :: metric
  rec_elapsed :: metric
  rec_last_iter :: "int option"

definition new_recorder :: recorder where
  "new_recorder = \<lparr>rec_iter_times = [], rec_ckpt_times = [], rec_eval_times = [], rec_extra = [], rec_loss = [],
     rec_grad = [], rec_lr = [], rec_tflops = [], rec_elapsed = [], rec_last_iter = None\<rparr>"

definition add_iter_time :: "py_float \<Rightarrow> recorder \<Rightarrow> recorder" where
  "add_iter_time t r = r\<lparr> rec_iter_times := rec_iter_times r @ [t] \<rparr>"

text \<open>A value equal to the last one is not added again.\<close>

definition add_changed :: "py_float \<Rightarrow> py_float list \<Rightarrow> py_float list" where
  "add_changed t ts = (if ts = [] \<or> differs (last ts) t then ts @ [t] else ts)"

definition add_ckpt_time :: "py_float \<Rightarrow> recorder \<Rightarrow> recorder" where
  "add_ckpt_time t r = r\<lparr> rec_ckpt_times := add_changed t (rec_ckpt_times r) \<rparr>"

definition add_eval_time :: "py_float \<Rightarrow> recorder \<Rightarrow> recorder" where
  "add_eval_time t r = r\<lparr> rec_eval_times := add_changed t (rec_eval_times r) \<rparr>"

definition add_iter_extra_time :: "int \<Rightarrow> string \<Rightarrow> py_float \<Rightarrow> recorder \<Rightarrow> recorder" where
  "add_iter_extra_time i kind t r =
     r\<lparr> rec_extra := dict_update i
         (dict_update kind t (case map_of (rec_extra r) i of None \<Rightarrow> [] | Some d \<Rightarrow> d)) (rec_extra r) \<rparr>"

text \<open>\<^verbatim>\<open>float(data_dict.get(key, 0.0))\<close>: the value 0.0 when the key is missing.\<close>

definition field_float :: "string \<Rightarrow> log_line \<Rightarrow> py_float option" where
  "field_float key l = (case ll_field key l of None \<Rightarrow> Some (Fin 0) | Some s \<Rightarrow> py_float_of s)"

text \<open>\<open>lm_loss\<close> unless it is missing or empty.\<close>

definition loss_field :: "bool \<Rightarrow> log_line \<Rightarrow> py_float option" where
  "loss_field base l =
     (if base then (case ll_field ''lm_loss'' l of
        Some (c # cs) \<Rightarrow> py_float_of (c # cs) | _ \<Rightarrow> field_float ''loss'' l)
      else field_float ''loss'' l)"

text \<open>
  The conversions happen in the order of the source, so a bad learning rate leaves the loss and
  the gradient recorded.  Outside the base parser the training time in seconds comes first.
\<close>

definition record_iter_metrics ::
    "bool \<Rightarrow> int \<Rightarrow> log_line \<Rightarrow> recorder \<Rightarrow> (py_float \<times> py_float, recorder) outcome" where
  "record_iter_metrics base i l r =
     (case (if base then Some (Fin 0) else field_float ''train_time'' l) of
        None \<Rightarrow> raises ValueError r
      | Some train \<Rightarrow>
     case loss_field base l of
        None \<Rightarrow> raises ValueError r
      | Some loss \<Rightarrow>
     case field_float ''gradient_norm'' l of
        None \<Rightarrow> raises ValueError r
      | Some grad \<Rightarrow>
     let r1 = r\<lparr> rec_loss := dict_update i loss (rec_loss r), rec_grad := dict_update i grad (rec_grad r) \<rparr> in
     case field_float ''learning_rate'' l of
        None \<Rightarrow> raises ValueError r1
      | Some lr \<Rightarrow>
     let r2 = r1\<lparr> rec_lr := dict_update i lr (rec_lr r1) \<rparr> in
     case (if base then field_float ''throughput_tflops_per_gpu'' l else Some (Fin 0)) of
        None \<Rightarrow> raises ValueError r2
      | Some tf \<Rightarrow>
     let r3 = (if base then r2\<lparr> rec_tflops := dict_update i tf (rec_tflops r2) \<rparr> else r2) in
     case (if base then field_float ''elapsed_time_ms'' l else Some (pf_scale 1000 train)) of
        None \<Rightarrow> raises ValueError r3
      | Some el \<Rightarrow>
          returns (loss, grad) (r3\<lparr> rec_elapsed := dict_update i el (rec_elapsed r3), rec_last_iter := Some i \<rparr>))"

text \<open>The values of a metric in the order of the iterations.\<close>

definition by_iteration :: "metric \<Rightarrow> py_float list" where
  "by_iteration m = map snd (sort_key fst m)"

section \<open>The judgement\<close>

datatype loss_alert = LossNanInf | LossNegative | LossContinueRise | LossAbnormalHigh
  | GradNanInf | GradZero | GradTooLarge | GradTooSmall

fun rising :: "py_float list \<Rightarrow> bool" where
  "rising (x # y # ys) = (pf_less x y \<and> rising (y # ys))"
| "rising _ = True"

definition last_n :: "nat \<Rightarrow> 'a list \<Rightarrow> 'a list" where
  "last_n n xs = drop (length xs - n) xs"

definition loss_alert_of :: "py_float \<Rightarrow> py_float list \<Rightarrow> loss_alert option" where
  "loss_alert_of loss history =
     (let a1 = (if \<not> pf_finite loss then Some LossNanInf
                else if pf_less loss (Fin 0) then Some LossNegative else None);
          a2 = (if 10 \<le> length history \<and> rising (last_n 10 history) then Some LossContinueRise else a1)
      in if 10 \<le> length history \<and> pf_less (pf_scale 3 (pf_mean (butlast history))) loss
         then Some LossAbnormalHigh else a2)"

definition grad_alert_of :: "py_float \<Rightarrow> loss_alert option" where
  "grad_alert_of grad =
     (if \<not> pf_finite grad then Some GradNanInf
      else if pf_less (pf_abs grad) (Fin (1 / 10 ^ 10)) then Some GradZero
      else if pf_less (Fin 30) grad then Some GradTooLarge
      else if pf_less grad (Fin (1 / 10 ^ 6)) then Some GradTooSmall
      else None)"

text \<open>A gradient alert replaces one of the loss.\<close>

definition check_loss_and_grad :: "py_float \<Rightarrow> py_float \<Rightarrow> recorder \<Rightarrow> loss_alert option" where
  "check_loss_and_grad loss grad r =
     (case grad_alert_of grad of
        Some a \<Rightarrow> Some a
      | None \<Rightarrow> loss_alert_of loss (by_iteration (rec_loss r)))"

text \<open>Slower than five times the mean of the last 100 recorded iterations; a slow one is not recorded.\<close>

definition check_iteration_time :: "py_float \<Rightarrow> recorder \<Rightarrow> (py_float option) \<times> recorder" where
  "check_iteration_time t r =
     (let recent = last_n 100 (rec_iter_times r) in
      if length recent < 2 then (None, add_iter_time t r)
      else let avg = pf_mean recent in
        if pf_less (pf_scale 5 avg) t then (Some avg, r) else (None, add_iter_time t r))"

end
