(* ===== verification/LogMonitor.thy ===== *)
theory LogMonitor
  imports LogFaults LogMetrics FaultPolicy
begin

text \<open>
  The log monitor (\<^verbatim>\<open>LogMonitor\<close> in monitor/log_monitor.py with the offset files of
  monitor/log_tracker.py): what a line of the log does, the reading of the file with its saved
  offset, and the detection of a hang.  Every event that a step publishes is returned in order.
  Clock readings are arguments; times are seconds.  The regular notifications and the dump of
  iteration lines (both off unless configured), the search for the newest log file and the reopening
  of a truncated file are left out; an overflow of a time difference is a ValueError here.
\<close>

section \<open>Events and state\<close>

datatype event_kind = ExitEvent | LossEvent | InfEvent | IterEvent | SlowEvent | HangEvent | NormalEvent

record log_event =
  ev_kind :: event_kind
  ev_data :: "fault_data option"
  ev_alert :: "loss_alert option"
  ev_iter :: "int option"
  ev_time :: "real option"
  ev_first :: bool
  ev_ckpt :: bool

definition simple_event :: "event_kind \<Rightarrow> log_event" where
  "simple_event k = \<lparr>ev_kind = k, ev_data = None, ev_alert = None, ev_iter = None, ev_time = None,
     ev_first = False, ev_ckpt = False\<rparr>"

datatype process_status = OtherStatus | CkptStatus | EvalStatus

record monitor_cfg =
  mc_kind :: parser_kind
  mc_eval_interval :: int
  mc_no_update :: real
  mc_startup :: real
  mc_check_loss :: bool

record monitor =
  mo_parser :: root_parser
  mo_rec :: recorder
  mo_handler :: fault_handler
  mo_iter :: "int option"
  mo_stamp :: "real option"
  mo_total :: "int option"
  mo_status :: process_status
  mo_eval_start :: "real option"
  mo_last_update :: real
  mo_last_normal :: real
  mo_first_log :: bool
  mo_alerted :: bool

definition new_monitor :: "int \<Rightarrow> real \<Rightarrow> monitor" where
  "new_monitor slots now = \<lparr>mo_parser = idle_parser, mo_rec = new_recorder, mo_handler = new_handler slots,
     mo_iter = None, mo_stamp = None, mo_total = None, mo_status = OtherStatus, mo_eval_start = None,
     mo_last_update = now, mo_last_normal = now, mo_first_log = False, mo_alerted = False\<rparr>"

text \<open>\<^verbatim>\<open>strptime\<close> with the format of the log's time stamps.\<close>

definition parse_stamp :: "string \<Rightarrow> real option" where
  "parse_stamp s =
     (case (parse_date (take 10 s), parse_clock (drop 11 s)) of
        (Some d, Some c) \<Rightarrow>
          if length s = 19 \<and> s ! 10 = CHR '' '' \<and> clock_ok c
          then Some (real_of_int (86400 * 1000000 * d + micros c) / 1000000) else None
      | _ \<Rightarrow> None)"

text \<open>A step: the published events, or the exception that ended it with what was published before.\<close>

type_synonym monitor_step = "(log_event list \<times> py_exn option) \<times> monitor"

definition publish :: "log_event list \<Rightarrow> monitor_step \<Rightarrow> monitor_step" where
  "publish evs s = ((evs @ fst (fst s), snd (fst s)), snd s)"

definition done_with :: "log_event list \<Rightarrow> monitor \<Rightarrow> monitor_step" where
  "done_with evs m = ((evs, None), m)"

definition failed :: "py_exn \<Rightarrow> monitor \<Rightarrow> monitor_step" where
  "failed e m = (([], Some e), m)"

section \<open>A parsed line\<close>

definition fault_event :: "monitor \<Rightarrow> event_kind \<Rightarrow> fault_data \<Rightarrow> log_event" where
  "fault_event m k d = (simple_event k)\<lparr> ev_data := Some d, ev_iter := mo_iter m, ev_time := mo_stamp m \<rparr>"

definition on_rec :: "(recorder \<Rightarrow> recorder) \<Rightarrow> monitor \<Rightarrow> monitor" where
  "on_rec f m = m\<lparr> mo_rec := f (mo_rec m) \<rparr>"

definition handle_checkpoint_time :: "int option \<Rightarrow> py_float \<Rightarrow> monitor \<Rightarrow> monitor" where
  "handle_checkpoint_time i t m =
     (case i of None \<Rightarrow> m
      | Some i \<Rightarrow> on_rec (\<lambda>r. add_ckpt_time t (add_iter_extra_time i ''ckpt'' t r)) m)"

definition handle_evaluate_time :: "int \<Rightarrow> py_float \<Rightarrow> monitor \<Rightarrow> monitor" where
  "handle_evaluate_time i t m = on_rec (\<lambda>r. add_eval_time t (add_iter_extra_time i ''eval'' t r)) m"

text \<open>The duration of an evaluation is known when the first iteration after it is logged.\<close>

definition track_eval :: "int \<Rightarrow> int \<Rightarrow> real \<Rightarrow> monitor \<Rightarrow> monitor" where
  "track_eval interval i stamp m0 =
     (let m = m0\<lparr> mo_status := OtherStatus \<rparr> in
      if interval \<noteq> 0 \<and> i mod interval = 0 then m\<lparr> mo_eval_start := Some stamp, mo_status := EvalStatus \<rparr>
      else case mo_eval_start m of
             None \<Rightarrow> m
           | Some s \<Rightarrow> if i mod interval = 1
               then (handle_evaluate_time (i - 1) (Fin ((stamp - s) * 1000)) m)\<lparr> mo_eval_start := None \<rparr>
               else m)"

definition iter_event :: "bool \<Rightarrow> int \<Rightarrow> real \<Rightarrow> log_event" where
  "iter_event first i stamp = (simple_event IterEvent)\<lparr> ev_iter := Some i, ev_time := Some stamp, ev_first := first \<rparr>"

definition loss_event :: "int \<Rightarrow> loss_alert \<Rightarrow> log_event" where
  "loss_event i a = (simple_event LossEvent)\<lparr> ev_alert := Some a, ev_iter := Some i \<rparr>"

definition slow_events :: "int \<Rightarrow> py_float option \<Rightarrow> log_event list" where
  "slow_events i slow = (case slow of None \<Rightarrow> [] | Some _ \<Rightarrow> [(simple_event SlowEvent)\<lparr> ev_iter := Some i \<rparr>])"

definition iteration_time_of :: "log_line \<Rightarrow> py_float option" where
  "iteration_time_of l = (case ll_iter_time l of
      Some t \<Rightarrow> Some t
    | None \<Rightarrow> map_option (pf_scale 1000) (field_float ''train_time'' l))"

definition judge_metrics :: "monitor_cfg \<Rightarrow> log_line \<Rightarrow> monitor \<Rightarrow> monitor_step" where
  "judge_metrics cfg l m =
     (case record_iter_metrics (mc_kind cfg = BaseParser) (ll_iter l) l (mo_rec m) of
        (Inl e, r) \<Rightarrow> failed e (m\<lparr> mo_rec := r \<rparr>)
      | (Inr (loss, grad), r) \<Rightarrow>
          done_with (case (if mc_check_loss cfg then check_loss_and_grad loss grad r else None) of
              None \<Rightarrow> [] | Some a \<Rightarrow> [loss_event (ll_iter l) a]) (m\<lparr> mo_rec := r \<rparr>))"

definition handle_log_event :: "monitor_cfg \<Rightarrow> real \<Rightarrow> log_line \<Rightarrow> monitor \<Rightarrow> monitor_step" where
  "handle_log_event cfg now l m =
     (case iteration_time_of l of
        None \<Rightarrow> failed ValueError m
      | Some t \<Rightarrow>
     case ll_stamp l of
        None \<Rightarrow> failed KeyError m
      | Some text \<Rightarrow>
     case parse_stamp text of
        None \<Rightarrow> failed ValueError m
      | Some stamp \<Rightarrow>
     let i = ll_iter l;
         m1 = (if mo_total m \<in> {None, Some 0} \<and> ll_total l \<noteq> None then m\<lparr> mo_total := ll_total l \<rparr> else m);
         first = (mo_iter m1 = None);
         m2 = m1\<lparr> mo_iter := Some i, mo_stamp := Some stamp, mo_last_normal := now \<rparr>;
         m3 = track_eval (mc_eval_interval cfg) i stamp m2
     in case check_iteration_time t (mo_rec m3) of (slow, r) \<Rightarrow>
          publish (iter_event first i stamp # slow_events i slow) (judge_metrics cfg l (m3\<lparr> mo_rec := r \<rparr>)))"

definition handle_ckpt :: "real \<Rightarrow> py_float \<Rightarrow> monitor \<Rightarrow> monitor_step" where
  "handle_ckpt now t m =
     (let m1 = handle_checkpoint_time (rec_last_iter (mo_rec m)) t (m\<lparr> mo_status := OtherStatus \<rparr>) in
      case (mo_stamp m, t) of
        (None, _) \<Rightarrow> done_with [(simple_event IterEvent)\<lparr> ev_iter := mo_iter m, ev_time := Some now, ev_ckpt := True \<rparr>] m1
      | (Some s, Fin x) \<Rightarrow> done_with [(simple_event IterEvent)\<lparr> ev_iter := mo_iter m,
            ev_time := Some (s + x / 1000), ev_ckpt := True \<rparr>] m1
      | _ \<Rightarrow> failed ValueError m1)"

definition handle_fault :: "fault_msg \<Rightarrow> monitor \<Rightarrow> monitor_step" where
  "handle_fault f m =
     (if fm_type f = ''exit'' then
        (if fd_type (fm_data f) = ''root_cause''
         then done_with [fault_event m ExitEvent (fm_data f)] (m\<lparr> mo_handler := clear_faults (mo_handler m) \<rparr>)
         else done_with [] (m\<lparr> mo_handler := add_fault_msg f (mo_handler m) \<rparr>))
      else if fm_type f = ''loss'' then done_with [fault_event m LossEvent (fm_data f)] m
      else if fm_type f = ''inf'' then done_with [fault_event m InfEvent (fm_data f)] m
      else done_with [] m)"

text \<open>\<open>_handle_parsed_event\<close>: the type of a flat fault is none it knows.\<close>

definition handle_parsed_event :: "monitor_cfg \<Rightarrow> real \<Rightarrow> line_result option \<Rightarrow> monitor \<Rightarrow> monitor_step" where
  "handle_parsed_event cfg now r m0 =
     (let m = m0\<lparr> mo_last_update := now \<rparr> in
      case r of
        None \<Rightarrow> done_with [] m
      | Some (FlatFault ty p) \<Rightarrow> done_with [] m
      | Some (Parsed (FaultMsg f)) \<Rightarrow> handle_fault f m
      | Some (Parsed (TrainLine l)) \<Rightarrow> handle_log_event cfg now l m
      | Some (Parsed (CkptTime t)) \<Rightarrow> handle_ckpt now t m
      | Some (Parsed (CkptStart i)) \<Rightarrow> done_with [] (m\<lparr> mo_status := CkptStatus \<rparr>))"

section \<open>A line that was read\<close>

text \<open>The first line, and a reminder every minute, report that the log is alive.\<close>

definition note_line :: "real \<Rightarrow> monitor \<Rightarrow> log_event list \<times> monitor" where
  "note_line now m =
     (if \<not> mo_first_log m then ([simple_event NormalEvent], m\<lparr> mo_first_log := True, mo_last_normal := now \<rparr>)
      else if 60 \<le> now - mo_last_normal m then ([simple_event NormalEvent], m\<lparr> mo_last_normal := now \<rparr>)
      else ([], m))"

definition handle_line :: "monitor_cfg \<Rightarrow> real \<Rightarrow> string \<Rightarrow> string \<Rightarrow> monitor \<Rightarrow> monitor_step" where
  "handle_line cfg now now_text line m =
     (case note_line now m of (evs, m1) \<Rightarrow>
        case parse_line (line_parser (mc_kind cfg) now_text) line (mo_parser m1) of
          (Inl e, p) \<Rightarrow> publish evs (failed e (m1\<lparr> mo_parser := p \<rparr>))
        | (Inr r, p) \<Rightarrow> publish evs (handle_parsed_event cfg now r (m1\<lparr> mo_parser := p \<rparr>)))"

section \<open>Reading the file\<close>

text \<open>
  Universal newlines: a line ends with a line feed, a carriage return or both, and is returned
  with a line feed.  The second component is the rest of the file.
\<close>

fun read_line :: "string \<Rightarrow> string \<times> string" where
  "read_line [] = ([], [])"
| "read_line (c # cs) =
     (if c = CHR 0x0A then ([CHR 0x0A], cs)
      else if c = CHR 0x0D then ([CHR 0x0A], (case cs of [] \<Rightarrow> [] | d # ds \<Rightarrow> if d = CHR 0x0A then ds else cs))
      else case read_line cs of (l, rest) \<Rightarrow> (c # l, rest))"

record tail_state =
  ts_monitor :: monitor
  ts_offset :: nat
  ts_saved :: string
  ts_counter :: nat
  ts_last_save :: real

text \<open>The offset file.\<close>

definition offset_text :: "nat \<Rightarrow> bool \<Rightarrow> string" where
  "offset_text n stopped = show_nat n @ (if stopped then '',stopped'' else [])"

definition ends_with :: "string \<Rightarrow> string \<Rightarrow> bool" where
  "ends_with suffix s = is_prefix_of (rev suffix) (rev s)"

definition read_file_offset :: "bool \<Rightarrow> bool \<Rightarrow> string \<Rightarrow> int" where
  "read_file_offset persist resume_stopped content =
     (let c = py_strip content; part = hd (split_on (CHR '','') c) in
      if \<not> persist \<or> c = [] then 0
      else if ends_with '',stopped'' c \<and> \<not> resume_stopped then - 1
      else if part \<noteq> [] \<and> list_all is_digit part then int (nat_of_digits part) else 0)"

definition should_save_offset :: "real \<Rightarrow> tail_state \<Rightarrow> bool" where
  "should_save_offset now t \<longleftrightarrow> 500 \<le> ts_counter t \<or> 30 \<le> now - ts_last_save t"

definition save_offset :: "real \<Rightarrow> tail_state \<Rightarrow> tail_state" where
  "save_offset now t = t\<lparr> ts_saved := offset_text (ts_offset t) False, ts_counter := 0, ts_last_save := now \<rparr>"

text \<open>
  One round of the tail loop on the present contents of the file.  A line whose handling raises is
  logged, and the file is opened again at the offset before that line.
\<close>

definition tail_step ::
    "monitor_cfg \<Rightarrow> real \<Rightarrow> string \<Rightarrow> string \<Rightarrow> tail_state \<Rightarrow> log_event list \<times> tail_state" where
  "tail_step cfg now now_text contents t =
     (case read_line (drop (ts_offset t) contents) of (line, rest) \<Rightarrow>
        if line = [] then
          ([], if ts_counter t \<noteq> 0 \<and> 30 \<le> now - ts_last_save t then save_offset now t else t)
        else
          (case handle_line cfg now now_text line (ts_monitor t) of
             ((evs, Some e), m) \<Rightarrow> (evs, t\<lparr> ts_monitor := m \<rparr>)
           | ((evs, None), m) \<Rightarrow>
               let t1 = t\<lparr> ts_monitor := m, ts_offset := length contents - length rest,
                           ts_counter := ts_counter t + 1 \<rparr>
               in (evs, if should_save_offset now t1 then save_offset now t1 else t1)))"

section \<open>Hang detection\<close>

definition mean_seconds :: "py_float list \<Rightarrow> py_float" where
  "mean_seconds ts = (if ts = [] then Fin 0 else pf_scale (1 / 1000) (pf_mean ts))"

text \<open>During a checkpoint or an evaluation only a silence of twice its usual time counts.\<close>

definition hang_suspected :: "real \<Rightarrow> monitor \<Rightarrow> bool" where
  "hang_suspected silence m =
     (if mo_iter m = None \<or> mo_status m = OtherStatus then True
      else let avg = mean_seconds (if mo_status m = CkptStatus then rec_ckpt_times (mo_rec m)
                                   else rec_eval_times (mo_rec m))
        in pf_less (Fin 0) avg \<and> pf_less (pf_scale 2 avg) (Fin silence))"

definition hang_event :: "monitor \<Rightarrow> log_event" where
  "hang_event m = (simple_event HangEvent)\<lparr> ev_iter := mo_iter m, ev_time := mo_stamp m \<rparr>"

definition no_update_round :: "monitor_cfg \<Rightarrow> real \<Rightarrow> monitor \<Rightarrow> log_event list \<times> monitor" where
  "no_update_round cfg now m =
     (let silence = now - mo_last_update m;
          limit = (if mo_iter m = None then mc_startup cfg else mc_no_update cfg);
          hang = (limit < silence \<and> \<not> mo_alerted m \<and> hang_suspected silence m);
          m1 = (if hang then m\<lparr> mo_alerted := True \<rparr> else m);
          never = (\<not> mo_first_log m1 \<and> \<not> mo_alerted m1 \<and> mc_startup cfg \<le> now - mo_last_normal m1)
      in ((if hang then [hang_event m] else []) @ (if never then [hang_event m] else []),
          if never then m1\<lparr> mo_first_log := True \<rparr> else m1))"

section \<open>Runs\<close>

datatype monitor_input = LineRead real string string | RoundCheck real | TimerFires nat

definition timer_event :: "monitor \<Rightarrow> fault_msg \<Rightarrow> log_event" where
  "timer_event m f = fault_event m (if fm_type f = ''exit'' then ExitEvent else LossEvent) (fm_data f)"

fun monitor_on :: "monitor_cfg \<Rightarrow> monitor_input \<Rightarrow> monitor \<Rightarrow> log_event list \<times> monitor" where
  "monitor_on cfg (LineRead now tx line) m =
     (case handle_line cfg now tx line m of ((evs, e), m1) \<Rightarrow> (evs, m1))"
| "monitor_on cfg (RoundCheck now) m = no_update_round cfg now m"
| "monitor_on cfg (TimerFires i) m =
     (case fire_timer i (mo_handler m) of (sent, h) \<Rightarrow>
        ((case sent of None \<Rightarrow> [] | Some f \<Rightarrow> [timer_event m f]), m\<lparr> mo_handler := h \<rparr>))"

fun monitor_run :: "monitor_cfg \<Rightarrow> monitor_input list \<Rightarrow> monitor \<Rightarrow> log_event list \<times> monitor" where
  "monitor_run cfg [] m = ([], m)"
| "monitor_run cfg (x # xs) m =
     (case monitor_on cfg x m of (evs, m1) \<Rightarrow> case monitor_run cfg xs m1 of (evs2, m2) \<Rightarrow> (evs @ evs2, m2))"

section \<open>A hang is reported once\<close>

text \<open>What no handler of a line touches, and what it publishes.\<close>

definition quiet :: "monitor \<Rightarrow> monitor_step \<Rightarrow> bool" where
  "quiet m s \<longleftrightarrow> mo_alerted (snd s) = mo_alerted m \<and> (mo_first_log m \<longrightarrow> mo_first_log (snd s))
     \<and> (\<forall>e\<in>set (fst (fst s)). ev_kind e \<noteq> HangEvent)"

lemma step_simps [simp]:
  "fst (done_with evs m) = (evs, None)" "snd (done_with evs m) = m"
  "fst (failed e m) = ([], Some e)" "snd (failed e m) = m"
  "fst (publish evs s) = (evs @ fst (fst s), snd (fst s))" "snd (publish evs s) = snd s"
  "ev_kind (simple_event k) = k" "ev_data (simple_event k) = None"
  by (simp_all add: done_with_def failed_def publish_def simple_event_def)

lemma track_eval_fields [simp]:
  "mo_alerted (track_eval n i s m) = mo_alerted m" "mo_first_log (track_eval n i s m) = mo_first_log m"
  "mo_handler (track_eval n i s m) = mo_handler m" "mo_parser (track_eval n i s m) = mo_parser m"
  by (simp_all add: track_eval_def Let_def handle_evaluate_time_def on_rec_def split: option.split)

lemma checkpoint_fields [simp]:
  "mo_alerted (handle_checkpoint_time i t m) = mo_alerted m"
  "mo_first_log (handle_checkpoint_time i t m) = mo_first_log m"
  by (simp_all add: handle_checkpoint_time_def on_rec_def split: option.split)

lemma judge_quiet: "quiet m (judge_metrics cfg l m)"
  by (auto simp: judge_metrics_def quiet_def loss_event_def split: prod.split sum.split option.split)

lemma quiet_publish:
  assumes "quiet m' s" "mo_alerted m' = mo_alerted m" "mo_first_log m \<longrightarrow> mo_first_log m'"
    "\<forall>e\<in>set evs. ev_kind e \<noteq> HangEvent"
  shows "quiet m (publish evs s)"
  using assms by (auto simp: quiet_def)

lemma log_event_quiet: "quiet m (handle_log_event cfg now l m)"
proof -
  have "\<forall>e\<in>set (iter_event f i s # slow_events i slow). ev_kind e \<noteq> HangEvent" for f i s slow
    by (auto simp: iter_event_def slow_events_def split: option.splits)
  then show ?thesis unfolding handle_log_event_def Let_def
    by (auto simp: quiet_def [of _ "failed _ _"] split: option.split prod.split intro!: quiet_publish [OF judge_quiet])
qed

lemma parsed_event_quiet: "quiet m (handle_parsed_event cfg now r m)"
proof -
  have "quiet m' (handle_fault f m')" for f m'
    by (auto simp: handle_fault_def quiet_def fault_event_def)
  moreover have "quiet m' (handle_ckpt now t m')" for t m'
    by (auto simp: handle_ckpt_def Let_def quiet_def split: option.split py_float.split)
  moreover note log_event_quiet
  ultimately have "quiet (m\<lparr> mo_last_update := now \<rparr>) (handle_parsed_event cfg now r m)"
    by (auto simp: handle_parsed_event_def Let_def quiet_def [of _ "done_with _ _"]
        split: option.split line_result.split parsed.split)
  then show ?thesis by (simp add: quiet_def)
qed

lemma line_quiet: "quiet m (handle_line cfg now tx line m)"
proof -
  obtain evs m1 where n: "note_line now m = (evs, m1)" by (cases "note_line now m")
  then have m1: "mo_alerted m1 = mo_alerted m" "mo_first_log m \<longrightarrow> mo_first_log m1" "\<forall>e\<in>set evs. ev_kind e \<noteq> HangEvent"
    by (auto simp: note_line_def split: if_splits)
  obtain r p where pl: "parse_line (line_parser (mc_kind cfg) tx) line (mo_parser m1) = (r, p)"
    by (cases "parse_line (line_parser (mc_kind cfg) tx) line (mo_parser m1)")
  have fields: "mo_alerted (m1\<lparr> mo_parser := p \<rparr>) = mo_alerted m" "mo_first_log m \<longrightarrow> mo_first_log (m1\<lparr> mo_parser := p \<rparr>)"
    using m1 by simp_all
  show ?thesis
  proof (cases r)
    case (Inl e)
    have "quiet (m1\<lparr> mo_parser := p \<rparr>) (failed e (m1\<lparr> mo_parser := p \<rparr>))" by (simp add: quiet_def)
    then show ?thesis using quiet_publish [OF _ fields m1(3)] by (simp add: handle_line_def n pl Inl)
  next
    case (Inr r')
    show ?thesis using quiet_publish [OF parsed_event_quiet fields m1(3)] by (simp add: handle_line_def n pl Inr)
  qed
qed

definition hang_budget :: "monitor \<Rightarrow> nat" where
  "hang_budget m = (if mo_alerted m then 0 else 1) + (if mo_first_log m then 0 else 1)"

definition hangs :: "log_event list \<Rightarrow> nat" where
  "hangs evs = length (filter (\<lambda>e. ev_kind e = HangEvent) evs)"

lemma hangs_append: "hangs (xs @ ys) = hangs xs + hangs ys"
  by (simp add: hangs_def)

lemma monitor_on_budget:
  "hangs (fst (monitor_on cfg x m)) + hang_budget (snd (monitor_on cfg x m)) \<le> hang_budget m"
proof (cases x)
  case (LineRead now tx line)
  obtain evs e m1 where s: "handle_line cfg now tx line m = ((evs, e), m1)"
    by (metis prod.exhaust)
  then have "hangs evs = 0" "mo_alerted m1 = mo_alerted m" "mo_first_log m \<longrightarrow> mo_first_log m1"
    using line_quiet [of m cfg now tx line] by (auto simp: quiet_def hangs_def filter_empty_conv)
  then show ?thesis using s LineRead by (auto simp: hang_budget_def)
next
  case (RoundCheck now)
  then show ?thesis
    by (auto simp: no_update_round_def Let_def hangs_def hang_budget_def hang_event_def)
next
  case (TimerFires i)
  then show ?thesis
    by (auto simp: hangs_def hang_budget_def timer_event_def fault_event_def split: prod.split option.split)
qed

lemma monitor_run_budget: "hangs (fst (monitor_run cfg xs m)) + hang_budget (snd (monitor_run cfg xs m)) \<le> hang_budget m"
proof (induction xs arbitrary: m)
  case (Cons x xs)
  obtain evs m1 where x: "monitor_on cfg x m = (evs, m1)" by (cases "monitor_on cfg x m")
  obtain evs2 m2 where xs: "monitor_run cfg xs m1 = (evs2, m2)" by (cases "monitor_run cfg xs m1")
  show ?case using monitor_on_budget [of cfg x m] Cons.IH [of m1] x xs by (simp add: hangs_append)
qed (simp add: hangs_def)

text \<open>
  C22: A monitor reports at most one silence and one missing start, whatever lines, checks and
  timers follow: the mark of the first report is never taken back, so once a hang was reported and
  a line was read, no later hang is reported, even when the log resumed in between.
\<close>
theorem hang_is_reported_once:
  "hangs (fst (monitor_run cfg inputs m)) \<le> (if mo_alerted m then 0 else 1) + (if mo_first_log m then 0 else 1)"
  using monitor_run_budget [of cfg inputs m] by (simp add: hang_budget_def)

section \<open>The other framework's faults\<close>

text \<open>
  With the parser of the other framework no fault is ever reported: an error line it recognises
  (outside a root-cause block) publishes nothing but the sign of life, raises nothing, and leaves
  the fault cache, its timers and the iteration unchanged.
\<close>
theorem special_faults_are_dropped:
  assumes "mc_kind cfg = SpecialParser" "special_parse_error_log line = Some fault"
    and "\<not> tc_active (mo_parser m)" "rx_search root_start line = None"
  shows "handle_line cfg now tx line m =
      ((fst (note_line now m), None), (snd (note_line now m))\<lparr> mo_last_update := now \<rparr>)
    \<and> mo_handler (snd (handle_line cfg now tx line m)) = mo_handler m
    \<and> (\<forall>e\<in>set (fst (note_line now m)). ev_kind e = NormalEvent)"
proof -
  obtain evs m1 where n: "note_line now m = (evs, m1)" by (cases "note_line now m")
  then have m1: "mo_parser m1 = mo_parser m" "mo_handler m1 = mo_handler m" "\<forall>e\<in>set evs. ev_kind e = NormalEvent"
    by (auto simp: note_line_def split: if_splits)
  have "parse_line (line_parser (mc_kind cfg) tx) line (mo_parser m) = returns (Some (FlatFault (fst fault) (snd fault))) (mo_parser m)"
    using assms by (simp add: parse_line_def line_parser_def analyze_special_log_def split: prod.split)
  then have "handle_line cfg now tx line m = ((evs, None), m1\<lparr> mo_last_update := now \<rparr>)"
    by (simp add: handle_line_def n m1(1) handle_parsed_event_def Let_def publish_def done_with_def)
  then show ?thesis using n m1 by simp
qed

definition special_cfg :: monitor_cfg where
  "special_cfg = \<lparr>mc_kind = SpecialParser, mc_eval_interval = 0, mc_no_update = 600, mc_startup = 1800, mc_check_loss = True\<rparr>"

theorem special_faults_are_dropped_witness:
  "fh_cache (mo_handler (snd (handle_line special_cfg 5 [] ''Process name: [prterun-n1-7@1,3]'' (new_monitor 8 0)))) = []"
proof -
  have a: "mc_kind special_cfg = SpecialParser" by (simp add: special_cfg_def)
  have b: "special_parse_error_log ''Process name: [prterun-n1-7@1,3]'' = Some (''rank'', ''prterun-n1-7@1,3'')"
    by code_simp
  have c: "\<not> tc_active (mo_parser (new_monitor 8 0))" by (simp add: new_monitor_def idle_parser_def)
  have d: "rx_search root_start ''Process name: [prterun-n1-7@1,3]'' = None" by code_simp
  from special_faults_are_dropped [OF a b c d, of 5 "[]", THEN conjunct2, THEN conjunct1]
  have "mo_handler (snd (handle_line special_cfg 5 [] ''Process name: [prterun-n1-7@1,3]'' (new_monitor 8 0))) = new_handler 8"
    by (simp only: new_monitor_def monitor.simps)
  then show ?thesis by (simp add: new_handler_def)
qed

section \<open>A line that cannot be handled blocks the log\<close>

fun tail_run :: "monitor_cfg \<Rightarrow> (real \<times> string \<times> string) list \<Rightarrow> tail_state \<Rightarrow> log_event list \<times> tail_state" where
  "tail_run cfg [] t = ([], t)"
| "tail_run cfg ((now, tx, contents) # xs) t =
     (case tail_step cfg now tx contents t of (evs, t1) \<Rightarrow>
        case tail_run cfg xs t1 of (evs2, t2) \<Rightarrow> (evs @ evs2, t2))"

lemma read_line_complete:
  "CHR 0x0A \<notin> set body \<Longrightarrow> CHR 0x0D \<notin> set body \<Longrightarrow>
     read_line (body @ CHR 0x0A # rest) = (body @ [CHR 0x0A], rest)"
  by (induction body) auto

lemma epoch_line_fails:
  assumes "rx_search epoch_pattern line \<noteq> None" "parse_error_log line = None" "rx_search root_start line = None"
    and "mc_kind cfg = BaseParser" "\<not> tc_active (mo_parser m)"
  shows "\<exists>e. handle_line cfg now tx line m =
      ((fst (note_line now m), Some e), (snd (note_line now m))\<lparr> mo_last_update := now \<rparr>)"
proof -
  obtain evs m1 where n: "note_line now m = (evs, m1)" by (cases "note_line now m")
  then have m1: "mo_parser m1 = mo_parser m" by (auto simp: note_line_def split: if_splits)
  obtain k where k: "rx_search epoch_pattern line = Some k" using assms(1) by blast
  obtain l where l: "parse_training_log line = Inr (Some (TrainLine l))" "ll_stamp l = None"
    using k by (simp add: parse_training_log_def)
  have "parse_line (line_parser (mc_kind cfg) tx) line (mo_parser m1) = returns (Some (Parsed (TrainLine l))) (mo_parser m1)"
    using assms l by (simp add: parse_line_def line_parser_def analyze_mega_log_def m1)
  moreover obtain e where "handle_log_event cfg now l (m1\<lparr> mo_last_update := now \<rparr>) = failed e (m1\<lparr> mo_last_update := now \<rparr>)"
    using l(2) by (cases "iteration_time_of l") (auto simp: handle_log_event_def)
  ultimately show ?thesis
    by (simp add: handle_line_def n handle_parsed_event_def Let_def publish_def failed_def)
qed

definition blocked :: "string \<Rightarrow> tail_state \<Rightarrow> bool" where
  "blocked line t \<longleftrightarrow> \<not> tc_active (mo_parser (ts_monitor t)) \<and> rx_search epoch_pattern line \<noteq> None
     \<and> parse_error_log line = None \<and> rx_search root_start line = None"

lemma blocked_step:
  assumes "blocked (body @ [CHR 0x0A]) t" "mc_kind cfg = BaseParser"
    and "CHR 0x0A \<notin> set body" "CHR 0x0D \<notin> set body"
    and "drop (ts_offset t) contents = body @ CHR 0x0A # rest"
  shows "tail_step cfg now tx contents t = (fst (note_line now (ts_monitor t)),
      t\<lparr> ts_monitor := (snd (note_line now (ts_monitor t)))\<lparr> mo_last_update := now \<rparr> \<rparr>)"
proof -
  obtain e where "handle_line cfg now tx (body @ [CHR 0x0A]) (ts_monitor t) =
      ((fst (note_line now (ts_monitor t)), Some e), (snd (note_line now (ts_monitor t)))\<lparr> mo_last_update := now \<rparr>)"
    using epoch_line_fails assms(1,2) unfolding blocked_def by blast
  then show ?thesis by (simp add: tail_step_def assms(5) read_line_complete assms(3,4))
qed

lemma blocked_after:
  "blocked line t \<Longrightarrow> blocked line (t\<lparr> ts_monitor := (snd (note_line now (ts_monitor t)))\<lparr> mo_last_update := now \<rparr> \<rparr>)"
  by (simp add: blocked_def note_line_def)

text \<open>
  In the default (base) mode a line in the epoch format stops the monitor for good: the handler
  fails on it, so the loop reads it again for ever, however much is appended to the log; the offset
  never moves and nothing but signs of life is published.  No hang is found either, because
  every failed attempt counts as an update of the log.
\<close>
theorem epoch_line_blocks_the_log:
  assumes "mc_kind cfg = BaseParser" "blocked (body @ [CHR 0x0A]) t"
    and "CHR 0x0A \<notin> set body" "CHR 0x0D \<notin> set body"
    and "\<forall>(now, tx, contents)\<in>set rounds. \<exists>rest. drop (ts_offset t) contents = body @ CHR 0x0A # rest"
    and "rounds \<noteq> []" "now2 \<le> fst (last rounds) + min (mc_startup cfg) (mc_no_update cfg)"
  shows "ts_offset (snd (tail_run cfg rounds t)) = ts_offset t
    \<and> (\<forall>e\<in>set (fst (tail_run cfg rounds t)). ev_kind e = NormalEvent)
    \<and> fst (no_update_round cfg now2 (ts_monitor (snd (tail_run cfg rounds t)))) = []"
proof -
  have "ts_offset (snd (tail_run cfg rounds t)) = ts_offset t
    \<and> (\<forall>e\<in>set (fst (tail_run cfg rounds t)). ev_kind e = NormalEvent)
    \<and> (rounds \<noteq> [] \<longrightarrow> mo_last_update (ts_monitor (snd (tail_run cfg rounds t))) = fst (last rounds)
         \<and> mo_first_log (ts_monitor (snd (tail_run cfg rounds t))))"
    using assms(2,5)
  proof (induction rounds arbitrary: t)
    case (Cons r rounds)
    obtain now tx contents where r: "r = (now, tx, contents)" by (metis prod.exhaust)
    obtain rest where rest: "drop (ts_offset t) contents = body @ CHR 0x0A # rest"
      using Cons.prems(2) r by auto
    let ?n = "note_line now (ts_monitor t)"
    let ?t1 = "t\<lparr> ts_monitor := (snd ?n)\<lparr> mo_last_update := now \<rparr> \<rparr>"
    have step: "tail_step cfg now tx contents t = (fst ?n, ?t1)"
      using blocked_step [OF Cons.prems(1) assms(1,3,4) rest] .
    have n: "\<forall>e\<in>set (fst ?n). ev_kind e = NormalEvent" "mo_first_log (snd ?n)"
      by (auto simp: note_line_def)
    have "\<forall>(now, tx, contents)\<in>set rounds. \<exists>rest. drop (ts_offset ?t1) contents = body @ CHR 0x0A # rest"
      using Cons.prems(2) by auto
    from Cons.IH [OF blocked_after [OF Cons.prems(1)] this]
    show ?case using step n r by (cases "rounds = []") (auto simp: case_prod_unfold)
  qed simp
  then show ?thesis using assms(6,7)
    by (auto simp: no_update_round_def Let_def min_def split: if_splits)
qed

definition base_cfg :: monitor_cfg where
  "base_cfg = \<lparr>mc_kind = BaseParser, mc_eval_interval = 0, mc_no_update = 600, mc_startup = 1800, mc_check_loss = True\<rparr>"

definition tail_start :: "int \<Rightarrow> real \<Rightarrow> tail_state" where
  "tail_start slots now = \<lparr>ts_monitor = new_monitor slots now, ts_offset = 0, ts_saved = [], ts_counter = 0, ts_last_save = now\<rparr>"

theorem epoch_line_blocks_the_log_witness:
  "\<exists>later. ts_offset (snd (tail_run base_cfg [(1, [], ''epoch 1: 2 / 3'' @ [CHR 0x0A]),
      (2, [], ''epoch 1: 2 / 3'' @ CHR 0x0A # later)] (tail_start 8 0))) = 0 \<and> later \<noteq> []"
proof -
  let ?body = "''epoch 1: 2 / 3''" and ?t = "tail_start 8 0"
  let ?later = "''[rank3]: Traceback (most recent call last):'' @ [CHR 0x0A]"
  let ?rounds = "[(1, [], ?body @ [CHR 0x0A]), (2, [], ?body @ CHR 0x0A # ?later)] :: (real \<times> string \<times> string) list"
  have a: "mc_kind base_cfg = BaseParser" by (simp add: base_cfg_def)
  have "rx_search epoch_pattern (?body @ [CHR 0x0A]) \<noteq> None" "parse_error_log (?body @ [CHR 0x0A]) = None"
    "rx_search root_start (?body @ [CHR 0x0A]) = None"
    by code_simp+
  then have b: "blocked (?body @ [CHR 0x0A]) ?t"
    by (simp only: blocked_def) (simp add: tail_start_def new_monitor_def idle_parser_def)
  have c: "CHR 0x0A \<notin> set ?body" "CHR 0x0D \<notin> set ?body" by simp_all
  have d: "\<forall>(now, tx, contents)\<in>set ?rounds. \<exists>rest. drop (ts_offset ?t) contents = ?body @ CHR 0x0A # rest"
    by (simp add: tail_start_def)
  have e: "?rounds \<noteq> []" "3 \<le> fst (last ?rounds) + min (mc_startup base_cfg) (mc_no_update base_cfg)"
    by (simp_all add: base_cfg_def)
  from epoch_line_blocks_the_log [OF a b c d e, THEN conjunct1]
  have "ts_offset (snd (tail_run base_cfg ?rounds ?t)) = 0" by (simp only: tail_start_def tail_state.simps)
  then show ?thesis by (intro exI [of _ ?later]) simp
qed

section \<open>A loss that is not a number is never seen\<close>

definition number_char :: "char \<Rightarrow> bool" where
  "number_char c \<longleftrightarrow> is_digit c \<or> c \<in> {CHR ''.'', CHR ''e'', CHR ''E'', CHR ''+'', CHR ''-''}"

text \<open>A text without letters other than the exponent mark is not the word \<^verbatim>\<open>nan\<close>.\<close>

lemma sign_split_chars: "sign_split u = (neg, t) \<Longrightarrow> set t \<subseteq> set u"
  by (cases u) (auto simp: sign_split_def split: if_splits)

lemma number_not_nan:
  assumes "list_all number_char s"
  shows "py_float_of s \<noteq> Some NaN"
proof -
  have strip: "set (py_strip s) \<subseteq> set s"
    unfolding py_strip_def by (auto dest!: set_dropWhileD)
  obtain neg t where t: "sign_split (py_strip s) = (neg, t)" by (cases "sign_split (py_strip s)")
  then have "set t \<subseteq> set (py_strip s)" by (rule sign_split_chars)
  then have chars: "\<forall>c\<in>set t. number_char c" using strip assms by (auto simp: list_all_iff)
  have "py_lower t \<noteq> ''nan''"
  proof
    assume "py_lower t = ''nan''"
    then obtain c where "c \<in> set t" "lower_char c = CHR ''n''"
      by (cases t) (auto simp: py_lower_def)
    moreover have "lower_char CHR ''E'' = CHR ''e''" by code_simp
    then have "number_char c \<Longrightarrow> lower_char c \<noteq> CHR ''n''"
      by (cases "c = CHR ''E''") (auto simp: number_char_def lower_char_def is_upper_def is_digit_def less_eq_char_def)
    ultimately show False using chars by blast
  qed
  then show ?thesis using t
    by (auto simp: py_float_of_def Let_def round_double_def split: option.splits if_splits)
qed

lemma extracted_field:
  assumes "map_of (extract_patterns line ps) key = Some s"
  shows "\<exists>r m. (key, r) \<in> set ps \<and> rx_search r line = Some m \<and> s = cap_text 1 m"
proof -
  obtain r where r: "(key, r) \<in> set ps" "(key, s) \<in> set (case rx_search r line of None \<Rightarrow> [] | Some m \<Rightarrow> [(key, cap_text 1 m)])"
    using map_of_SomeD [OF assms] by (force simp: extract_patterns_def split: option.splits)
  then show ?thesis by (cases "rx_search r line") auto
qed

lemma no_groups_pieces [simp]:
  "no_groups ws" "no_groups spaces" "no_groups spaces1" "no_groups dig" "no_groups digs" "no_groups decimal"
  "no_groups (scientific x)" "no_groups (opt r) = no_groups r" "no_groups (plus r) = no_groups r"
  by (simp_all add: ws_def spaces_def spaces1_def dig_def digs_def decimal_def scientific_def opt_def plus_def)

lemma only_pieces [simp]:
  "only number_char decimal" "only number_char (scientific ''eE-'')" "only number_char (scientific ''Ee+-'')"
  by (auto simp: decimal_def scientific_def plus_def number_char_def)

text \<open>The fields that the recorder reads hold number characters only.\<close>

lemma seqs2: "seqs [a, b] = seqs ([a] @ [b])" and seqs3: "seqs [a, b, c] = seqs ([a, b] @ [c])"
  and seqs4: "seqs [a, b, c, d] = seqs ([a, b, c] @ [d])"
  by simp_all

lemma search_pair_only:
  "rx_search (Seq (Txt w) (Grp 1 s)) line = Some m \<Longrightarrow> no_groups s \<Longrightarrow> only P s \<Longrightarrow> list_all P (cap_text 1 m)"
  using search_group_only [of "Txt w" 1 s line m P] by simp

lemma iteration_field_chars:
  assumes "map_of (extract_patterns line iteration_patterns) key = Some s" "key \<in> {''lm_loss'', ''gradient_norm''}"
  shows "list_all number_char s"
proof -
  obtain r m where r: "(key, r) \<in> set iteration_patterns" "rx_search r line = Some m" "s = cap_text 1 m"
    using extracted_field [OF assms(1)] by blast
  then consider "r = seqs [Txt ''lm loss:'', spaces1, Grp 1 (scientific ''Ee+-'')]"
    | "r = seqs [Txt ''grad norm:'', spaces1, Grp 1 decimal]"
    using assms(2) by (auto simp: iteration_patterns_def)
  then show ?thesis
  proof cases
    case 1
    then show ?thesis using r(2,3) search_last_group_only [of "[Txt ''lm loss:'', spaces1]" 1 "scientific ''Ee+-''" line m number_char]
      by (simp only: seqs3) simp
  next
    case 2
    then show ?thesis using r(2,3) search_last_group_only [of "[Txt ''grad norm:'', spaces1]" 1 decimal line m number_char]
      by (simp only: seqs3) simp
  qed
qed

lemma iteration_no_loss: "map_of (extract_patterns line iteration_patterns) ''loss'' = None"
proof (cases "map_of (extract_patterns line iteration_patterns) ''loss''")
  case (Some s)
  then show ?thesis using extracted_field [OF Some] by (auto simp: iteration_patterns_def)
qed

lemma epoch_field_chars:
  assumes "map_of (extract_patterns line epoch_patterns) key = Some s" "key \<in> {''loss'', ''gradient_norm''}"
  shows "list_all number_char s"
proof -
  obtain r m where r: "(key, r) \<in> set epoch_patterns" "rx_search r line = Some m" "s = cap_text 1 m"
    using extracted_field [OF assms(1)] by blast
  then consider "r = seqs [Txt ''loss'', opt (Seq (Star (Cls is_word_char)) Nothing), Txt ''='', Grp 1 decimal]"
    | "r = Seq (Txt ''gnorm='') (Grp 1 decimal)"
    using assms(2) by (auto simp: epoch_patterns_def)
  then show ?thesis
  proof cases
    case 1
    then show ?thesis using r(2,3) search_last_group_only
        [of "[Txt ''loss'', opt (Seq (Star (Cls is_word_char)) Nothing), Txt ''='']" 1 decimal line m number_char]
      by (simp only: seqs4) simp
  next
    case 2
    then show ?thesis using r(2,3) search_pair_only [of "''gnorm=''" decimal line m number_char] by simp
  qed
qed

lemma epoch_no_lm_loss: "map_of (extract_patterns line epoch_patterns) ''lm_loss'' = None"
proof (cases "map_of (extract_patterns line epoch_patterns) ''lm_loss''")
  case (Some s)
  then show ?thesis using extracted_field [OF Some] by (auto simp: epoch_patterns_def)
qed

lemma parsed_fields_not_nan:
  assumes "parse_training_log line = Inr (Some (TrainLine l))"
  shows "loss_field True l \<noteq> Some NaN \<and> field_float ''gradient_norm'' l \<noteq> Some NaN"
proof -
  consider "ll_fields l = extract_patterns line epoch_patterns" | "ll_fields l = extract_patterns line iteration_patterns"
    using assms by (auto simp: parse_training_log_def split: option.splits)
  then show ?thesis
  proof cases
    case 1
    then show ?thesis
      using epoch_field_chars [of line "''loss''"] epoch_field_chars [of line "''gradient_norm''"] epoch_no_lm_loss [of line]
        number_not_nan
      by (auto simp: loss_field_def field_float_def ll_field_def split: option.splits)
  next
    case 2
    then show ?thesis
      using iteration_field_chars [of line "''lm_loss''"] iteration_field_chars [of line "''gradient_norm''"]
        iteration_no_loss [of line] number_not_nan
      by (auto simp: loss_field_def field_float_def ll_field_def split: option.splits list.splits)
  qed
qed

lemma record_values:
  assumes "record_iter_metrics base i l r = (Inr (loss, grad), r1)"
  shows "loss_field base l = Some loss \<and> field_float ''gradient_norm'' l = Some grad"
  using assms by (auto simp: record_iter_metrics_def Let_def split: option.splits if_splits)

text \<open>
  No line of the default framework's log ever gives a loss or gradient that is not a number:
  the patterns take only digits, points, signs and exponents, so a loss printed as NaN is not found
  at all and counts as 0.0, and the check for NaN never fires on it.
\<close>
theorem logged_nan_is_never_seen:
  assumes "analyze_mega_log line = Inr (Some (TrainLine l))"
    and "record_iter_metrics True i l r = (Inr (loss, grad), r1)"
  shows "loss \<noteq> NaN \<and> grad \<noteq> NaN"
proof -
  have "parse_training_log line = Inr (Some (TrainLine l))"
    using assms(1) by (auto simp: analyze_mega_log_def split: sum.splits option.splits)
  from parsed_fields_not_nan [OF this] record_values [OF assms(2)] show ?thesis by auto
qed

definition nan_line :: string where
  "nan_line = ''[2025-01-01 00:00:00] iteration 7/ 9 elapsed time per iteration (ms): 5.0 lm loss: NaN grad norm: 1.0''"

theorem logged_nan_is_never_seen_witness:
  "\<exists>l r1. analyze_mega_log nan_line = Inr (Some (TrainLine l))
     \<and> record_iter_metrics True 7 l new_recorder = (Inr (Fin 0, Fin 1), r1) \<and> Fin 0 \<noteq> NaN"
proof -
  have err: "parse_error_log nan_line = None" and epoch: "rx_search epoch_pattern nan_line = None"
    and fields: "extract_patterns nan_line iteration_patterns =
      [(''iteration'', ''7''), (''elapsed_time_ms'', ''5.0''), (''gradient_norm'', ''1.0'')]"
    and "map_option (cap_text 4) (rx_search iteration_line nan_line) = Some ''5.0''"
    by code_simp+
  then obtain m where m: "rx_search iteration_line nan_line = Some m" "cap_text 4 m = ''5.0''" by auto
  have "py_float_of ''5.0'' = Some (Fin 5)"
    by (simp add: py_float_of_def py_strip_def sign_split_def mantissa_def
        is_digit_def less_eq_char_def is_exp_mark_def nat_of_digits_def digit_val_def ten_to_def round_double_def
        py_lower_def lower_char_def is_upper_def is_ws_def Let_def)
  then obtain l where l: "analyze_mega_log nan_line = Inr (Some (TrainLine l))"
    "ll_fields l = [(''iteration'', ''7''), (''elapsed_time_ms'', ''5.0''), (''gradient_norm'', ''1.0'')]"
    using err epoch fields m by (simp add: analyze_mega_log_def parse_training_log_def)
  have "field_float ''gradient_norm'' l = Some (Fin 1)" "field_float ''elapsed_time_ms'' l = Some (Fin 5)"
    by (simp_all add: field_float_def ll_field_def l(2) py_float_of_def py_strip_def sign_split_def mantissa_def
        is_digit_def less_eq_char_def is_exp_mark_def nat_of_digits_def digit_val_def ten_to_def round_double_def
        py_lower_def lower_char_def is_upper_def is_ws_def Let_def)
  then obtain r1 where r1: "record_iter_metrics True 7 l new_recorder = (Inr (Fin 0, Fin 1), r1)"
    by (simp add: record_iter_metrics_def Let_def loss_field_def field_float_def ll_field_def l(2))
  from logged_nan_is_never_seen [OF l(1) r1] l(1) r1 show ?thesis by blast
qed

section \<open>The offset file\<close>

lemma offset_digit_plain: "is_digit c \<Longrightarrow> \<not> is_ws c \<and> c \<noteq> CHR '',''"
  by (auto simp: is_digit_def is_ws_def less_eq_char_def)

lemma offset_text_strip: "py_strip (offset_text n b) = offset_text n b"
proof (rule py_strip_no_ws)
  have "\<forall>c\<in>set '',stopped''. \<not> is_ws c" by (simp add: is_ws_def)
  then show "\<forall>c\<in>set (offset_text n b). \<not> is_ws c"
    using show_nat_digits offset_digit_plain by (fastforce simp: offset_text_def)
qed

lemma offset_text_part: "hd (split_on (CHR '','') (offset_text n b)) = show_nat n"
proof -
  have "CHR '','' \<notin> set (show_nat n)" using show_nat_digits offset_digit_plain by blast
  then show ?thesis by (cases b) (simp_all add: offset_text_def split_on_no_sep split_on_append)
qed

lemma ends_with_stopped: "ends_with '',stopped'' (offset_text n b) = b"
proof (cases b)
  case True
  then show ?thesis by (simp add: ends_with_def offset_text_def)
next
  case False
  have "\<not> is_prefix_of (CHR ''d'' # w) (rev (show_nat n))" for w
  proof
    assume "is_prefix_of (CHR ''d'' # w) (rev (show_nat n))"
    then have "CHR ''d'' \<in> set (rev (show_nat n))" by (auto simp: is_prefix_of_append simp del: set_rev)
    then have "is_digit CHR ''d''" using show_nat_digits by simp
    then show False by (simp add: is_digit_def less_eq_char_def)
  qed
  then show ?thesis using False by (simp add: ends_with_def offset_text_def)
qed

text \<open>
  The offset file is read back as written: an offset of a log still followed gives the same
  offset; one marked as stopped gives -1, so that the log is not followed again, unless the caller
  resumes a stopped log (a fixed log file), which then goes on at the same offset; without
  persistence reading starts at 0.
\<close>
theorem offset_file_roundtrip:
  "read_file_offset persist resume (offset_text n stopped) =
     (if \<not> persist then 0 else if stopped \<and> \<not> resume then - 1 else int n)"
  by (simp add: read_file_offset_def offset_text_strip offset_text_part ends_with_stopped Let_def list_all_iff
      show_nat_digits) (simp add: offset_text_def)

text \<open>The saved offset is never ahead of what was handled.\<close>

lemma read_saved_offset: "read_file_offset True True (offset_text n b) = int n"
  by (simp add: read_file_offset_def offset_text_strip offset_text_part Let_def list_all_iff show_nat_digits)
    (simp add: offset_text_def)

definition saved_behind :: "tail_state \<Rightarrow> bool" where
  "saved_behind t \<longleftrightarrow> read_file_offset True True (ts_saved t) \<le> int (ts_offset t)"

lemma save_offset_behind: "saved_behind (save_offset now s)"
  by (simp add: saved_behind_def save_offset_def read_saved_offset)

text \<open>
  What a line of a text is, whatever the loop does: \<open>piece\<close>, in front of \<open>rest\<close>, is a body without
  line ends and one line end (LF, CR, or CR LF), which is missing only at the end of the text; it
  is handed on with LF for its line end.
\<close>

definition first_line :: "string \<Rightarrow> string \<Rightarrow> string \<Rightarrow> bool" where
  "first_line piece rest line \<longleftrightarrow> (\<exists>body ending. piece = body @ ending \<and> CHR 0x0A \<notin> set body \<and> CHR 0x0D \<notin> set body
     \<and> ending \<in> {[], [CHR 0x0A], [CHR 0x0D], [CHR 0x0D, CHR 0x0A]} \<and> piece \<noteq> []
     \<and> (ending = [] \<longrightarrow> rest = []) \<and> (ending = [CHR 0x0D] \<longrightarrow> take 1 rest \<noteq> [CHR 0x0A])
     \<and> line = body @ (if ending = [] then [] else [CHR 0x0A]))"

lemma first_lineI:
  assumes "CHR 0x0A \<notin> set body" "CHR 0x0D \<notin> set body" "ending \<in> {[], [CHR 0x0A], [CHR 0x0D], [CHR 0x0D, CHR 0x0A]}"
    "body @ ending \<noteq> []" "ending = [] \<Longrightarrow> rest = []" "ending = [CHR 0x0D] \<Longrightarrow> take 1 rest \<noteq> [CHR 0x0A]"
  shows "first_line (body @ ending) rest (body @ (if ending = [] then [] else [CHR 0x0A]))"
  unfolding first_line_def using assms by blast

lemma read_line_first: "s \<noteq> [] \<Longrightarrow> \<exists>piece. s = piece @ snd (read_line s) \<and> first_line piece (snd (read_line s)) (fst (read_line s))"
proof (induction s)
  case (Cons c cs)
  consider "c = CHR 0x0A" | "c = CHR 0x0D" | "c \<noteq> CHR 0x0A" "c \<noteq> CHR 0x0D" by blast
  then show ?case
  proof cases
    case 1
    then show ?thesis using first_lineI [of "[]" "[CHR 0x0A]" cs] by (intro exI [of _ "[CHR 0x0A]"]) simp
  next
    case 2
    show ?thesis
    proof (cases "take 1 cs = [CHR 0x0A]")
      case True
      then obtain ds where "cs = CHR 0x0A # ds" by (cases cs) auto
      then show ?thesis using 2 first_lineI [of "[]" "[CHR 0x0D, CHR 0x0A]" ds]
        by (intro exI [of _ "[CHR 0x0D, CHR 0x0A]"]) simp
    next
      case False
      then have "(case cs of [] \<Rightarrow> [] | d # ds \<Rightarrow> if d = CHR 0x0A then ds else cs) = cs" by (cases cs) auto
      then show ?thesis using 2 False first_lineI [of "[]" "[CHR 0x0D]" cs]
        by (intro exI [of _ "[CHR 0x0D]"]) simp
    qed
  next
    case 3
    show ?thesis
    proof (cases cs)
      case Nil
      then show ?thesis using 3 first_lineI [of "[c]" "[]" "[]"] by (intro exI [of _ "[c]"]) simp
    next
      case (Cons d ds)
      obtain piece where p: "cs = piece @ snd (read_line cs)" "first_line piece (snd (read_line cs)) (fst (read_line cs))"
        using Cons.IH Cons by blast
      then obtain body ending where "piece = body @ ending" "CHR 0x0A \<notin> set body" "CHR 0x0D \<notin> set body"
        "ending \<in> {[], [CHR 0x0A], [CHR 0x0D], [CHR 0x0D, CHR 0x0A]}" "ending = [] \<longrightarrow> snd (read_line cs) = []"
        "ending = [CHR 0x0D] \<longrightarrow> take 1 (snd (read_line cs)) \<noteq> [CHR 0x0A]"
        "fst (read_line cs) = body @ (if ending = [] then [] else [CHR 0x0A])"
        unfolding first_line_def by blast
      then have "first_line (c # piece) (snd (read_line cs)) (c # fst (read_line cs))"
        unfolding first_line_def using 3 by (intro exI [of _ "c # body"] exI [of _ ending]) simp
      moreover have "read_line (c # cs) = (c # fst (read_line cs), snd (read_line cs))" using 3 by (simp add: case_prod_unfold)
      ultimately show ?thesis using p(1) by (intro exI [of _ "c # piece"]) simp
    qed
  qed
qed simp

text \<open>
  The specification of the reading: \<open>reads cfg rounds n m evs pieces n' m'\<close> says that the rounds took
  the monitor from \<open>m\<close> to \<open>m'\<close> and the position from \<open>n\<close> to \<open>n'\<close>, publishing \<open>evs\<close>, by handing it the
  lines \<open>pieces\<close> of the file one after the other: each round hands over the line at the position, stays
  there when the handling raised, and goes to the end of that line otherwise; a round does nothing only
  when the file has nothing after the position.
\<close>

inductive reads :: "monitor_cfg \<Rightarrow> (real \<times> string \<times> string) list \<Rightarrow> nat \<Rightarrow> monitor \<Rightarrow> log_event list \<Rightarrow> string list \<Rightarrow> nat
    \<Rightarrow> monitor \<Rightarrow> bool" for cfg where
  reads_end: "reads cfg [] n m [] [] n m"
| reads_nothing: "\<lbrakk>length contents \<le> n; reads cfg rounds n m evs pieces n' m'\<rbrakk>
    \<Longrightarrow> reads cfg ((now, tx, contents) # rounds) n m evs pieces n' m'"
| reads_handled: "\<lbrakk>drop n contents = piece @ rest; first_line piece rest line; handle_line cfg now tx line m = ((evs1, None), m1);
      reads cfg rounds (n + length piece) m1 evs pieces n' m'\<rbrakk>
    \<Longrightarrow> reads cfg ((now, tx, contents) # rounds) n m (evs1 @ evs) (piece # pieces) n' m'"
| reads_again: "\<lbrakk>drop n contents = piece @ rest; first_line piece rest line; handle_line cfg now tx line m = ((evs1, Some e), m1);
      reads cfg rounds n m1 evs pieces n' m'\<rbrakk>
    \<Longrightarrow> reads cfg ((now, tx, contents) # rounds) n m (evs1 @ evs) pieces n' m'"

text \<open>One round of the loop.\<close>

lemma save_offset_fields [simp]:
  "ts_offset (save_offset now s) = ts_offset s" "ts_monitor (save_offset now s) = ts_monitor s"
  by (simp_all add: save_offset_def)

lemma tail_step_cases:
  assumes "tail_step cfg now tx contents t = (evs, t1)"
  obtains "length contents \<le> ts_offset t" "evs = []" "ts_offset t1 = ts_offset t" "ts_monitor t1 = ts_monitor t"
      "saved_behind t \<Longrightarrow> saved_behind t1"
  | piece rest line where "drop (ts_offset t) contents = piece @ rest" "first_line piece rest line"
      "handle_line cfg now tx line (ts_monitor t) = ((evs, None), ts_monitor t1)" "ts_offset t1 = ts_offset t + length piece"
      "saved_behind t \<Longrightarrow> saved_behind t1"
  | piece rest line e where "drop (ts_offset t) contents = piece @ rest" "first_line piece rest line"
      "handle_line cfg now tx line (ts_monitor t) = ((evs, Some e), ts_monitor t1)" "ts_offset t1 = ts_offset t"
      "saved_behind t \<Longrightarrow> saved_behind t1"
proof (cases "length contents \<le> ts_offset t")
  case True
  then show thesis using assms that(1)
    by (auto simp: tail_step_def save_offset_behind split: if_splits)
next
  case False
  define s where "s = drop (ts_offset t) contents"
  have "s \<noteq> []" using False by (simp add: s_def)
  then obtain piece where p: "s = piece @ snd (read_line s)" "first_line piece (snd (read_line s)) (fst (read_line s))"
    using read_line_first by blast
  have line: "fst (read_line s) \<noteq> []" using p(2) by (auto simp: first_line_def)
  have "length s = length contents - ts_offset t" by (simp add: s_def)
  moreover have "length s = length piece + length (snd (read_line s))" using p(1) by (metis length_append)
  ultimately have len: "length contents - length (snd (read_line s)) = ts_offset t + length piece"
    using False by linarith
  obtain ev1 e m where h: "handle_line cfg now tx (fst (read_line s)) (ts_monitor t) = ((ev1, e), m)" by (metis prod.exhaust)
  show thesis
  proof (cases e)
    case None
    define u where "u = t\<lparr> ts_monitor := m, ts_offset := ts_offset t + length piece, ts_counter := ts_counter t + 1 \<rparr>"
    have "evs = ev1 \<and> t1 = (if should_save_offset now u then save_offset now u else u)"
      using assms h line len None by (auto simp: tail_step_def s_def [symmetric] case_prod_unfold Let_def u_def)
    then have "evs = ev1" "ts_monitor t1 = m" "ts_offset t1 = ts_offset t + length piece" "saved_behind t \<Longrightarrow> saved_behind t1"
      by (auto simp: save_offset_behind u_def) (simp add: saved_behind_def)
    then show thesis using that(2) [of piece "snd (read_line s)" "fst (read_line s)"] p h None by (simp add: s_def)
  next
    case (Some x)
    then have "evs = ev1" "ts_monitor t1 = m" "ts_offset t1 = ts_offset t" "saved_behind t \<Longrightarrow> saved_behind t1"
      using assms h line by (auto simp: tail_step_def s_def [symmetric] case_prod_unfold saved_behind_def)
    then show thesis using that(3) [of piece "snd (read_line s)" "fst (read_line s)" x] p h Some by (simp add: s_def)
  qed
qed

lemma tail_run_reads:
  "\<exists>pieces. reads cfg rounds (ts_offset t) (ts_monitor t) (fst (tail_run cfg rounds t)) pieces
     (ts_offset (snd (tail_run cfg rounds t))) (ts_monitor (snd (tail_run cfg rounds t)))"
proof (induction rounds arbitrary: t)
  case Nil
  show ?case using reads_end by fastforce
next
  case (Cons r rounds)
  obtain now tx contents where r: "r = (now, tx, contents)" by (metis prod.exhaust)
  obtain evs t1 where step: "tail_step cfg now tx contents t = (evs, t1)" by (cases "tail_step cfg now tx contents t")
  obtain pieces where IH: "reads cfg rounds (ts_offset t1) (ts_monitor t1) (fst (tail_run cfg rounds t1)) pieces
     (ts_offset (snd (tail_run cfg rounds t1))) (ts_monitor (snd (tail_run cfg rounds t1)))"
    using Cons.IH by blast
  have run: "tail_run cfg (r # rounds) t = (evs @ fst (tail_run cfg rounds t1), snd (tail_run cfg rounds t1))"
    by (simp add: r step case_prod_unfold)
  have "\<exists>pieces. reads cfg ((now, tx, contents) # rounds) (ts_offset t) (ts_monitor t) (evs @ fst (tail_run cfg rounds t1)) pieces
        (ts_offset (snd (tail_run cfg rounds t1))) (ts_monitor (snd (tail_run cfg rounds t1)))"
  proof (cases rule: tail_step_cases [OF step])
    case 1
    have "reads cfg ((now, tx, contents) # rounds) (ts_offset t) (ts_monitor t) (fst (tail_run cfg rounds t1)) pieces
        (ts_offset (snd (tail_run cfg rounds t1))) (ts_monitor (snd (tail_run cfg rounds t1)))"
      using reads_nothing [OF 1(1) IH [unfolded 1(3,4)]] .
    then show ?thesis using 1(2) by auto
  next
    case (2 piece rest line)
    show ?thesis using reads_handled [OF 2(1-3) IH [unfolded 2(4)]] by blast
  next
    case (3 piece rest line e)
    show ?thesis using reads_again [OF 3(1-3) IH [unfolded 3(4)]] by blast
  qed
  then show ?case by (simp add: run r step case_prod_unfold)
qed

lemma tail_run_saved: "saved_behind t \<Longrightarrow> saved_behind (snd (tail_run cfg rounds t))"
proof (induction rounds arbitrary: t)
  case (Cons r rounds)
  obtain now tx contents where r: "r = (now, tx, contents)" by (metis prod.exhaust)
  obtain evs t1 where step: "tail_step cfg now tx contents t = (evs, t1)" by (cases "tail_step cfg now tx contents t")
  have "saved_behind t1" using Cons.prems by (cases rule: tail_step_cases [OF step]) auto
  then show ?case using Cons.IH by (simp add: r step case_prod_unfold)
qed simp

text \<open>
  A line that is still being written is handed over in parts: without a line end the text so far is
  handled as a line, and the position moves behind it, so the rest of it is a line of its own.
\<close>

lemma partial_line_is_handled:
  assumes "drop (ts_offset t) contents = body" "body \<noteq> []" "CHR 0x0A \<notin> set body" "CHR 0x0D \<notin> set body"
    and "handle_line cfg now tx body (ts_monitor t) = ((evs, None), m)"
  shows "ts_offset (snd (tail_step cfg now tx contents t)) = length contents"
proof -
  have "CHR 0x0A \<notin> set s \<Longrightarrow> CHR 0x0D \<notin> set s \<Longrightarrow> read_line s = (s, [])" for s by (induction s) auto
  then have "read_line body = (body, [])" using assms(3,4) by blast
  then show ?thesis using assms(1,2,5) by (simp add: tail_step_def Let_def)
qed

text \<open>On a log that only grows the lines handed over are the text between the positions.\<close>

lemma reads_slice:
  assumes "reads cfg rounds n m evs pieces n' m'" "\<forall>r\<in>set rounds. \<exists>more. final = snd (snd r) @ more"
  shows "n' = n + length (concat pieces) \<and> take (length (concat pieces)) (drop n final) = concat pieces"
  using assms
proof (induction rule: reads.induct)
  case (reads_handled n contents piece rest line now tx m evs1 m1 rounds evs pieces n' m')
  obtain more where "final = contents @ more" using reads_handled.prems by force
  moreover have "n \<le> length contents" using reads_handled.hyps(1,2) by (cases "n \<le> length contents") (auto simp: first_line_def)
  ultimately have d: "drop n final = piece @ (rest @ more)" using reads_handled.hyps(1) by simp
  then have "drop (n + length piece) final = rest @ more" by (metis add.commute append_eq_conv_conj drop_drop)
  then show ?case using reads_handled.IH reads_handled.prems d by simp
qed simp_all

text \<open>
  C23: The tail loop reads every line once it can be handled, and skips none.  On a log that only
  grows, whatever the rounds find, the monitor was handed the lines of the log one after the
  other, each again until its handling did not raise, and a round passes only when nothing was
  left to read; the lines whose handling succeeded are exactly the text between the first and the
  last position; and the position in the offset file, which a restarted monitor starts from, is
  never past them.
\<close>
theorem saved_offset_skips_no_line:
  assumes "saved_behind t" "\<forall>r\<in>set rounds. \<exists>more. final = snd (snd r) @ more"
  shows "\<exists>pieces. let t' = snd (tail_run cfg rounds t) in
     reads cfg rounds (ts_offset t) (ts_monitor t) (fst (tail_run cfg rounds t)) pieces (ts_offset t') (ts_monitor t')
     \<and> ts_offset t' = ts_offset t + length (concat pieces)
     \<and> take (length (concat pieces)) (drop (ts_offset t) final) = concat pieces
     \<and> read_file_offset True True (ts_saved t') \<le> int (ts_offset t')"
proof -
  obtain pieces where r: "reads cfg rounds (ts_offset t) (ts_monitor t) (fst (tail_run cfg rounds t)) pieces
     (ts_offset (snd (tail_run cfg rounds t))) (ts_monitor (snd (tail_run cfg rounds t)))"
    using tail_run_reads by blast
  show ?thesis using r reads_slice [OF r assms(2)] tail_run_saved [OF assms(1), of cfg rounds]
    unfolding saved_behind_def Let_def by blast
qed

theorem saved_offset_skips_no_line_witness:
  "\<exists>pieces. ts_offset (snd (tail_run base_cfg [(1, [], ''a'' @ [CHR 0x0A])] (tail_start 8 0))) = length (concat pieces)
     \<and> take (length (concat pieces)) (''a'' @ [CHR 0x0A] @ ''b'') = concat pieces"
proof -
  have s: "saved_behind (tail_start 8 0)"
    by (simp add: saved_behind_def tail_start_def read_file_offset_def py_strip_def Let_def)
  have "\<forall>r\<in>set [(1 :: real, [] :: string, ''a'' @ [CHR 0x0A])]. \<exists>more. ''a'' @ [CHR 0x0A] @ ''b'' = snd (snd r) @ more" by simp
  from saved_offset_skips_no_line [OF s this, of base_cfg] show ?thesis by (auto simp: tail_start_def Let_def)
qed

end
