(* ===== verification/NetTopology.thy ===== *)
theory NetTopology
  imports RankLayout
begin

text \<open>
  The network topology check (\<^verbatim>\<open>cluster_manager/parallel/net_topology_validator.py\<close>):
  the sizes of the parallel dimensions, the process groups built from them, the validation, and
  the communication benchmark that every rank runs.  A rank's run is the list of the collective
  and point-to-point calls it makes of the communication library, which is not part of the
  repository: what the code relies on is that a call returns when every rank that takes part in
  it has made the matching call.
\<close>

section \<open>Sizes\<close>

text \<open>\<^verbatim>\<open>int(x or 1)\<close>.\<close>

definition or_one :: "int \<Rightarrow> int" where
  "or_one x = (if x = 0 then 1 else x)"

definition get_world_size :: "int option \<Rightarrow> int option \<Rightarrow> int" where
  "get_world_size nodes per_node =
     (case nodes of None \<Rightarrow> 1 | Some n \<Rightarrow> n) * (case per_node of None \<Rightarrow> 1 | Some k \<Rightarrow> k)"

definition calc_dp :: "int \<Rightarrow> int \<Rightarrow> int \<Rightarrow> int \<Rightarrow> py_exn + int" where
  "calc_dp world tp pp cp =
     (let denom = or_one tp * or_one pp * or_one cp in
      if denom = 0 then Inl ValueError
      else if world mod denom \<noteq> 0 then Inl ValueError
      else Inr (world div denom))"

definition calc_edp :: "int \<Rightarrow> int \<Rightarrow> int \<Rightarrow> int \<Rightarrow> py_exn + int" where
  "calc_edp world ep etp pp =
     (let denom = or_one ep * or_one etp * or_one pp in
      if denom = 0 then Inl ValueError
      else if world mod denom \<noteq> 0 then Inl ValueError
      else Inr (world div denom))"

section \<open>Process groups\<close>

record process_group =
  pg_name :: string
  pg_ranks :: "int list"
  pg_size :: int

definition new_pg :: "string \<Rightarrow> int \<Rightarrow> int list \<Rightarrow> int \<Rightarrow> process_group" where
  "new_pg prefix i ranks n = \<lparr>pg_name = prefix @ show_int i, pg_ranks = ranks, pg_size = n\<rparr>"

definition build_tp_groups :: "int \<Rightarrow> int \<Rightarrow> int \<Rightarrow> int \<Rightarrow> process_group list" where
  "build_tp_groups tp pp dp cp =
     map (\<lambda>i. let pp_rank = i div (dp * cp); dp_cp_rank = i mod (dp * cp);
                  base = pp_rank * (tp * dp * cp) + dp_cp_rank * tp
              in new_pg ''tp_group_'' i (map (\<lambda>j. base + j) [0..tp - 1]) tp)
       [0..pp * dp * cp - 1]"

definition build_pp_groups :: "int \<Rightarrow> int \<Rightarrow> int \<Rightarrow> int \<Rightarrow> process_group list" where
  "build_pp_groups tp pp dp cp =
     (let stride = tp * dp * cp in
      map (\<lambda>i. new_pg ''pp_group_'' i (map (\<lambda>j. i + j * stride) [0..pp - 1]) pp) [0..stride - 1])"

definition build_dp_groups :: "int \<Rightarrow> int \<Rightarrow> int \<Rightarrow> int \<Rightarrow> process_group list" where
  "build_dp_groups tp pp dp cp =
     map (\<lambda>i. let pp_rank = i div tp; tp_rank = i mod tp;
                  ranks = concat (map (\<lambda>d. map (\<lambda>c.
                    pp_rank * tp * dp * cp + d * tp * cp + c * tp + tp_rank) [0..cp - 1]) [0..dp - 1])
              in new_pg ''dp_group_'' i (sort ranks) (dp * cp))
       [0..tp * pp - 1]"

definition build_dp_cp_groups :: "int \<Rightarrow> int \<Rightarrow> int \<Rightarrow> int \<Rightarrow> process_group list" where
  "build_dp_cp_groups tp pp dp cp =
     map (\<lambda>i. let ranks = concat (map (\<lambda>p. concat (map (\<lambda>d. map (\<lambda>c.
                    p * tp * dp * cp + d * tp * cp + c * tp + i) [0..cp - 1]) [0..dp - 1])) [0..pp - 1])
              in new_pg ''dp_cp_group_'' i (sort ranks) (pp * dp * cp))
       [0..tp - 1]"

definition build_ep_groups :: "int \<Rightarrow> int \<Rightarrow> int \<Rightarrow> int \<Rightarrow> py_exn + process_group list" where
  "build_ep_groups world pp ep etp =
     (if ep \<le> 1 then Inr []
      else if world = 0 \<and> 0 < etp * pp then Inl ZeroDivisionError
      else Inr (map (\<lambda>i. new_pg ''ep_group_'' i (sort (map (\<lambda>j. (i * ep + j) mod world) [0..ep - 1])) ep)
                  [0..etp * pp - 1]))"

section \<open>The validation\<close>

record net_params =
  np_tp :: int
  np_pp :: int
  np_cp :: int
  np_ep :: int
  np_etp :: int

text \<open>The training configuration as a map; the values are integers.\<close>

definition get_parallel_params_from_config :: "(string \<Rightarrow> int option) \<Rightarrow> net_params" where
  "get_parallel_params_from_config conf =
     (let param = (\<lambda>key. case conf key of None \<Rightarrow> 1 | Some v \<Rightarrow> v) in
      \<lparr>np_tp = param ''--tensor-model-parallel-size'', np_pp = param ''--pipeline-model-parallel-size'',
       np_cp = param ''--context-parallel-size'', np_ep = param ''--expert-model-parallel-size'',
       np_etp = param ''--expert-tensor-parallel-size''\<rparr>)"

record topology_info =
  ti_world :: int
  ti_params :: net_params
  ti_dp :: int
  ti_edp :: int
  ti_tp_groups :: "process_group list"
  ti_pp_groups :: "process_group list"
  ti_dp_groups :: "process_group list"
  ti_dp_cp_groups :: "process_group list"
  ti_ep_groups :: "process_group list"

definition is_moe :: "net_params \<Rightarrow> bool" where
  "is_moe p \<longleftrightarrow> 1 < np_ep p"

definition validate_topology :: "topology_info \<Rightarrow> bool" where
  "validate_topology t =
     (let p = ti_params t in
      if is_moe p then np_etp p * np_ep p * np_pp p * ti_edp t = ti_world t
      else np_tp p * np_pp p * np_cp p * ti_dp t = ti_world t)"

definition check_experts :: "int option \<Rightarrow> int \<Rightarrow> py_exn + unit" where
  "check_experts experts ep =
     (case experts of None \<Rightarrow> Inr ()
      | Some n \<Rightarrow>
          if n = 0 then Inr ()
          else if ep = 0 then Inl ZeroDivisionError
          else if n mod ep \<noteq> 0 then Inl RuntimeError else Inr ())"

record world_cfg =
  wc_world :: "int option"
  wc_nodes :: "int option"
  wc_per_node :: "int option"

definition configured_world :: "world_cfg \<Rightarrow> int" where
  "configured_world c =
     (let w = (case wc_world c of None \<Rightarrow> 1 | Some w \<Rightarrow> w) in
      if w = 1 then get_world_size (wc_nodes c) (wc_per_node c) else w)"

definition topology_groups :: "int \<Rightarrow> net_params \<Rightarrow> int \<Rightarrow> int \<Rightarrow> process_group list \<Rightarrow> topology_info" where
  "topology_groups world p dp edp eps =
     (let tp = np_tp p; pp = np_pp p; cp = np_cp p in
      \<lparr>ti_world = world, ti_params = p, ti_dp = dp, ti_edp = edp,
       ti_tp_groups = build_tp_groups tp pp dp cp, ti_pp_groups = build_pp_groups tp pp dp cp,
       ti_dp_groups = build_dp_groups tp pp dp cp, ti_dp_cp_groups = build_dp_cp_groups tp pp dp cp,
       ti_ep_groups = eps\<rparr>)"

definition validate :: "(string \<Rightarrow> int option) \<Rightarrow> world_cfg \<Rightarrow> py_exn + topology_info" where
  "validate conf c =
     (let world = configured_world c; p = get_parallel_params_from_config conf in
      case calc_dp world (np_tp p) (np_pp p) (np_cp p) of
        Inl e \<Rightarrow> Inl e
      | Inr dp \<Rightarrow>
     case (if 1 < np_ep p then calc_edp world (np_ep p) (np_etp p) (np_pp p) else Inr 1) of
        Inl e \<Rightarrow> Inl e
      | Inr edp \<Rightarrow>
     case build_ep_groups world (np_pp p) (np_ep p) (np_etp p) of
        Inl e \<Rightarrow> Inl e
      | Inr eps \<Rightarrow>
     let t = topology_groups world p dp edp eps in
      if \<not> validate_topology t then Inl ValueError
      else case check_experts (conf ''--num-experts'') (np_ep p) of
             Inl e \<Rightarrow> Inl e
           | Inr _ \<Rightarrow> Inr t)"

section \<open>The groups as rank layouts\<close>

text \<open>Adjacent dimensions with the same flag count as one; a dimension of size one counts for nothing.\<close>

lemma layout_rank_merge:
  assumes "0 \<le> c"
  shows "layout_rank ((a, b) # (c, b) # xs) g r = layout_rank ((a * c, b) # xs) g r"
proof -
  have "k mod a + a * (k div a mod c + c * m) = k mod (a * c) + a * c * m" "k div a div c = k div (a * c)"
    for k m :: int
    using assms by (simp_all add: zmod_zmult2_eq zdiv_zmult2_eq distrib_left)
  then show ?thesis by (cases b) (simp_all only: layout_rank.simps if_True if_False)
qed

lemma layout_groups_cong:
  assumes "shape_prod True xs = shape_prod True ys" "shape_prod False xs = shape_prod False ys"
    and "\<And>g r. layout_rank xs g r = layout_rank ys g r"
  shows "layout_groups xs = layout_groups ys"
proof -
  have "layout_rank xs = layout_rank ys" using assms(3) by blast
  then show ?thesis using assms(1,2) by (simp add: layout_groups_def)
qed

lemma shift_interval: "map (\<lambda>k. a + k) [0..c - 1] = [a..a + c - 1]" for a c :: int
  by (rule nth_equalityI) auto

lemma grid_concat:
  assumes "0 \<le> n" "0 \<le> c"
  shows "concat (map (\<lambda>d. map (\<lambda>k. f (d * c + k)) [0..c - 1]) [0..n - 1]) = map f [0..n * c - 1]"
  using assms(1)
proof (induction n rule: int_ge_induct)
  case (step n)
  have "map (\<lambda>k. f (n * c + k)) [0..c - 1] = map f (map (\<lambda>k. n * c + k) [0..c - 1])" by simp
  also have "\<dots> = map f [n * c..n * c + c - 1]" by (simp only: shift_interval)
  finally have row: "map (\<lambda>k. f (n * c + k)) [0..c - 1] = map f [n * c..n * c + c - 1]" .
  have rows: "[0..n + 1 - 1] = [0..n - 1] @ [n]" using step.hyps by (simp add: upto_rec2)
  have "[0..n * c - 1] @ [n * c..n * c + c - 1] = [0..n * c + c - 1]"
    using step.hyps assms(2) by (intro upto_append) simp_all
  then show ?case by (simp only: rows map_append concat_append step.IH list.map concat.simps append_Nil2 row
      distrib_right mult_1 map_append [symmetric])
qed simp

lemma sort_stride:
  assumes "0 \<le> step"
  shows "sort (map (\<lambda>k. a + step * k) [m..n]) = map (\<lambda>k. a + step * k) [m..n]"
proof -
  have "sorted (map (\<lambda>k. a + step * k) [m..n])"
    using assms by (auto simp: sorted_iff_nth_mono mult_left_mono)
  then show ?thesis by (rule sorted_sort_id)
qed

abbreviation ranks_of :: "process_group list \<Rightarrow> int list list" where
  "ranks_of gs \<equiv> map pg_ranks gs"

lemma new_pg_ranks [simp]: "pg_ranks (new_pg s i rs n) = rs"
  by (simp add: new_pg_def)

lemma tp_groups_layout:
  assumes "1 \<le> tp" "1 \<le> pp" "1 \<le> dp" "1 \<le> cp"
  shows "ranks_of (build_tp_groups tp pp dp cp) = layout_groups [(tp, True), (dp * cp, False), (pp, False)]"
proof -
  let ?l = "layout_rank [(tp, True), (dp * cp, False), (pp, False)]"
  have m: "1 \<le> dp * cp" using assms by (simp add: one_le_mult)
  have "?l i j = i div (dp * cp) * (tp * dp * cp) + i mod (dp * cp) * tp + j"
    if "i \<in> {0..<dp * cp * pp}" "j \<in> {0..<tp}" for i j
    using that div_mod_block [OF m that(1)] by (simp add: algebra_simps)
  then show ?thesis
    by (simp add: build_tp_groups_def layout_groups_def Let_def mult.commute [of pp] mult.assoc)
qed

lemma pp_groups_layout:
  assumes "1 \<le> tp" "1 \<le> pp" "1 \<le> dp" "1 \<le> cp"
  shows "ranks_of (build_pp_groups tp pp dp cp) = layout_groups [(tp * dp * cp, False), (pp, True)]"
proof -
  have "layout_rank [(tp * dp * cp, False), (pp, True)] i j = i + j * (tp * dp * cp)"
    if "i \<in> {0..<tp * dp * cp}" "j \<in> {0..<pp}" for i j
    using that by (simp add: algebra_simps)
  then show ?thesis by (simp add: build_pp_groups_def layout_groups_def Let_def)
qed

lemma dp_ranks:
  assumes "0 \<le> tp" "0 \<le> dp" "0 \<le> cp"
  shows "sort (concat (map (\<lambda>d. map (\<lambda>c. a * tp * dp * cp + d * tp * cp + c * tp + q) [0..cp - 1]) [0..dp - 1]))
    = map (\<lambda>k. (a * tp * dp * cp + q) + tp * k) [0..dp * cp - 1]"
proof -
  have "concat (map (\<lambda>d. map (\<lambda>c. a * tp * dp * cp + d * tp * cp + c * tp + q) [0..cp - 1]) [0..dp - 1])
      = map (\<lambda>k. (a * tp * dp * cp + q) + tp * k) [0..dp * cp - 1]"
    by (subst grid_concat [OF assms(2,3), symmetric]) (simp add: algebra_simps)
  then show ?thesis by (simp only: sort_stride [OF assms(1)])
qed

lemma dp_groups_layout:
  assumes "1 \<le> tp" "1 \<le> pp" "1 \<le> dp" "1 \<le> cp"
  shows "ranks_of (build_dp_groups tp pp dp cp) = layout_groups [(tp, False), (dp * cp, True), (pp, False)]"
proof -
  let ?l = "layout_rank [(tp, False), (dp * cp, True), (pp, False)]"
  have "?l i k = i div tp * tp * dp * cp + i mod tp + tp * k"
    if "i \<in> {0..<tp * pp}" "k \<in> {0..<dp * cp}" for i k
    using that div_mod_block [OF assms(1) that(1)] by (simp add: algebra_simps)
  then show ?thesis
    using assms by (simp add: build_dp_groups_def layout_groups_def Let_def dp_ranks del: sort_upto)
qed

lemma dp_cp_groups_layout:
  assumes "1 \<le> tp" "1 \<le> pp" "1 \<le> dp" "1 \<le> cp"
  shows "ranks_of (build_dp_cp_groups tp pp dp cp) = layout_groups [(tp, False), (pp * dp * cp, True)]"
proof -
  let ?l = "layout_rank [(tp, False), (pp * dp * cp, True)]"
  have m: "0 \<le> dp * cp" using one_le_mult [OF assms(3,4)] by simp
  have rows: "concat (map (\<lambda>d. map (\<lambda>c. p * tp * dp * cp + d * tp * cp + c * tp + q) [0..cp - 1]) [0..dp - 1])
      = map (\<lambda>k. q + tp * (p * (dp * cp) + k)) [0..dp * cp - 1]" for p q
    using assms by (subst grid_concat [symmetric]) (simp_all add: algebra_simps)
  have "sort (concat (map (\<lambda>p. concat (map (\<lambda>d. map (\<lambda>c. p * tp * dp * cp + d * tp * cp + c * tp + q)
      [0..cp - 1]) [0..dp - 1])) [0..pp - 1])) = map (\<lambda>k. q + tp * k) [0..pp * (dp * cp) - 1]" for q
  proof -
    have "concat (map (\<lambda>p. map (\<lambda>k. q + tp * (p * (dp * cp) + k)) [0..dp * cp - 1]) [0..pp - 1]) =
        map (\<lambda>k. q + tp * k) [0..pp * (dp * cp) - 1]"
      using assms m by (intro grid_concat) simp_all
    then show ?thesis using assms by (simp only: rows) (simp add: sort_stride)
  qed
  moreover have "?l i k = i + tp * k" if "i \<in> {0..<tp}" "k \<in> {0..<pp * dp * cp}" for i k
    using that by simp
  ultimately show ?thesis
    by (simp add: build_dp_cp_groups_def layout_groups_def Let_def mult.assoc)
qed

lemma net_groups_partition:
  assumes "1 \<le> tp" "1 \<le> pp" "1 \<le> dp" "1 \<le> cp"
    and "gs \<in> {build_tp_groups tp pp dp cp, build_pp_groups tp pp dp cp,
      build_dp_groups tp pp dp cp, build_dp_cp_groups tp pp dp cp}"
  shows "distinct (concat (ranks_of gs)) \<and> set (concat (ranks_of gs)) = {0..<tp * pp * dp * cp}"
proof -
  note pos = assms(1-4) one_le_mult [OF assms(3,4)] one_le_mult [OF one_le_mult [OF assms(1,3)] assms(4)]
    one_le_mult [OF one_le_mult [OF assms(2,3)] assms(4)]
  have "\<exists>xs. ranks_of gs = layout_groups xs \<and> (\<forall>p\<in>set xs. 1 \<le> fst p) \<and> prod_list (map fst xs) = tp * pp * dp * cp"
    using assms(5)
  proof (elim insertE emptyE)
    assume "gs = build_tp_groups tp pp dp cp"
    then show ?thesis
      using tp_groups_layout [OF assms(1-4)] pos by (intro exI [of _ "[(tp, True), (dp * cp, False), (pp, False)]"]) simp
  next
    assume "gs = build_pp_groups tp pp dp cp"
    then show ?thesis
      using pp_groups_layout [OF assms(1-4)] pos by (intro exI [of _ "[(tp * dp * cp, False), (pp, True)]"]) simp
  next
    assume "gs = build_dp_groups tp pp dp cp"
    then show ?thesis
      using dp_groups_layout [OF assms(1-4)] pos by (intro exI [of _ "[(tp, False), (dp * cp, True), (pp, False)]"]) simp
  next
    assume "gs = build_dp_cp_groups tp pp dp cp"
    then show ?thesis
      using dp_cp_groups_layout [OF assms(1-4)] pos by (intro exI [of _ "[(tp, False), (pp * dp * cp, True)]"]) simp
  qed
  then show ?thesis using distinct_layout_groups set_layout_groups by force
qed

text \<open>
  For positive sizes every one of the tensor, pipeline, data and data-context groupings
  partitions the ranks of the world: each rank is in exactly one group, exactly once.
\<close>
theorem net_groups_partition_world:
  assumes "1 \<le> tp" "1 \<le> pp" "1 \<le> dp" "1 \<le> cp"
    and "gs \<in> {build_tp_groups tp pp dp cp, build_pp_groups tp pp dp cp,
      build_dp_groups tp pp dp cp, build_dp_cp_groups tp pp dp cp}"
  shows "distinct (concat (ranks_of gs)) \<and> set (concat (ranks_of gs)) = {0..<tp * pp * dp * cp}"
  using assms by (rule net_groups_partition)

theorem net_groups_partition_world_witness:
  "set (concat (ranks_of (build_dp_groups 2 2 2 1))) = {0..<8}"
  using net_groups_partition_world [of 2 2 2 1 "build_dp_groups 2 2 2 1"] by simp

section \<open>Agreement with the stack analyzer's layout\<close>

lemma layout_rank_cons:
  "(\<And>g r. layout_rank xs g r = layout_rank ys g r) \<Longrightarrow> layout_rank (p # xs) g r = layout_rank (p # ys) g r"
  by (cases p; cases "snd p") simp_all

lemma layout_rank_merge3:
  assumes "0 \<le> b" "0 \<le> c"
  shows "layout_rank ((a, f) # (b, f) # (c, f) # xs) g r = layout_rank ((a * b * c, f) # xs) g r"
  using assms by (simp only: layout_rank_merge)

lemma layout_rank_unit: "layout_rank (p # (1, b) # xs) g r = layout_rank (p # xs) g r"
  by (rule layout_rank_cons) simp

lemma stack_generator:
  "new_generator tp 1 dp pp cp DEFAULT_PARALLEL_ORDER 0 = Inr
    \<lparr>gen_order = [''tp'', ''cp'', ''ep'', ''dp'', ''pp''], gen_sizes = [tp, cp, 1, dp, pp],
     gen_world = tp * dp * pp * cp, rank_offset = 0\<rparr>"
  by (simp add: new_generator_def DEFAULT_PARALLEL_ORDER_def name_to_size_def py_lower_def
      lower_char_def is_upper_def)

text \<open>
  Without expert parallelism the validator and the stack analyzer, two separate
  implementations, build the same groups in the same order: tensor groups, pipeline groups, and
  the validator's data groups are the analyzer's combined data and context groups.
\<close>
theorem net_groups_are_the_analyzers:
  assumes "1 \<le> tp" "1 \<le> pp" "1 \<le> dp" "1 \<le> cp"
  shows "\<exists>g. new_generator tp 1 dp pp cp DEFAULT_PARALLEL_ORDER 0 = Inr g
    \<and> get_ranks g ''tp'' = Inr (ranks_of (build_tp_groups tp pp dp cp))
    \<and> get_ranks g ''pp'' = Inr (ranks_of (build_pp_groups tp pp dp cp))
    \<and> get_ranks g ''dp-cp'' = Inr (ranks_of (build_dp_groups tp pp dp cp))"
proof -
  let ?sizes = "[tp, cp, 1, dp, pp]"
  have world: "tp * dp * pp * cp = prod_list ?sizes" by (simp add: algebra_simps)
  have groups: "rank_groups (tp * dp * pp * cp) ?sizes flags = Inr (layout_groups (zip ?sizes flags))"
    if "length flags = 5" for flags
    using rank_groups_layout [of ?sizes flags] that assms by (simp only: world) simp
  have tp: "layout_groups [(tp, True), (cp, False), (1, False), (dp, False), (pp, False)] =
      layout_groups [(tp, True), (dp * cp, False), (pp, False)]"
    using assms by (intro layout_groups_cong layout_rank_cons)
      (simp_all add: layout_rank_merge3 mult.commute del: layout_rank.simps)
  have pp: "layout_groups [(tp, False), (cp, False), (1, False), (dp, False), (pp, True)] =
      layout_groups [(tp * dp * cp, False), (pp, True)]"
    using assms by (intro layout_groups_cong)
      (simp_all add: layout_rank_merge3 layout_rank_merge mult.commute mult.left_commute del: layout_rank.simps)
  have dp: "layout_groups [(tp, False), (cp, True), (1, False), (dp, True), (pp, False)] =
      layout_groups [(tp, False), (dp * cp, True), (pp, False)]"
    using assms by (intro layout_groups_cong layout_rank_cons)
      (simp_all add: layout_rank_unit layout_rank_merge mult.commute del: layout_rank.simps)
  let ?g = "\<lparr>gen_order = [''tp'', ''cp'', ''ep'', ''dp'', ''pp''], gen_sizes = ?sizes,
     gen_world = tp * dp * pp * cp, rank_offset = 0\<rparr>"
  have "get_ranks ?g ''tp'' = Inr (ranks_of (build_tp_groups tp pp dp cp))"
    "get_ranks ?g ''pp'' = Inr (ranks_of (build_pp_groups tp pp dp cp))"
    "get_ranks ?g ''dp-cp'' = Inr (ranks_of (build_dp_groups tp pp dp cp))"
    using assms by (simp_all add: get_ranks_def Let_def eval_nat_numeral groups tp pp dp
        tp_groups_layout pp_groups_layout dp_groups_layout del: layout_rank.simps)
  then show ?thesis using stack_generator by blast
qed

theorem net_groups_are_the_analyzers_witness:
  "\<exists>g. new_generator 2 1 2 2 2 DEFAULT_PARALLEL_ORDER 0 = Inr g
    \<and> get_ranks g ''dp-cp'' = Inr (ranks_of (build_dp_groups 2 2 2 2))"
  using net_groups_are_the_analyzers [of 2 2 2 2] by auto

section \<open>What validation accepts\<close>

text \<open>The expert groups are blocks of consecutive ranks that end at etp * pp * ep.\<close>

lemma ep_groups_blocks:
  assumes "1 < ep" "1 \<le> etp * pp" "1 \<le> edp" "world = ep * etp * pp * edp"
  obtains gs where "build_ep_groups world pp ep etp = Inr gs"
    and "concat (ranks_of gs) = [0..etp * pp * ep - 1]"
proof -
  have le: "etp * pp * ep * 1 \<le> etp * pp * ep * edp"
    using assms(1,2,3) one_le_mult [OF assms(2), of ep] by (intro mult_left_mono) simp_all
  then have world: "etp * pp * ep \<le> world" using assms(4) by (simp add: algebra_simps)
  have pos: "0 < world" using world assms(1,2) one_le_mult [OF assms(2), of ep] by simp
  have block: "sort (map (\<lambda>j. (i * ep + j) mod world) [0..ep - 1]) = map (\<lambda>j. i * ep + j) [0..ep - 1]"
    if "i \<in> {0..<etp * pp}" for i
  proof -
    have "(i + 1) * ep \<le> etp * pp * ep" using that assms(1) by (intro mult_right_mono) simp_all
    then have "(i * ep + j) mod world = i * ep + j" if "j \<in> {0..<ep}" for j
      using that \<open>i \<in> {0..<etp * pp}\<close> world assms(1) by (simp add: distrib_right)
    then have "map (\<lambda>j. (i * ep + j) mod world) [0..ep - 1] = map (\<lambda>j. i * ep + j) [0..ep - 1]"
      by (intro map_interval_cong) simp
    then show ?thesis by (simp add: shift_interval)
  qed
  let ?gs = "map (\<lambda>i. new_pg ''ep_group_'' i (sort (map (\<lambda>j. (i * ep + j) mod world) [0..ep - 1])) ep) [0..etp * pp - 1]"
  have "ranks_of ?gs = map (\<lambda>i. map (\<lambda>j. i * ep + j) [0..ep - 1]) [0..etp * pp - 1]"
    by (simp add: block)
  moreover have "concat (map (\<lambda>i. map (\<lambda>j. i * ep + j) [0..ep - 1]) [0..etp * pp - 1]) = [0..etp * pp * ep - 1]"
    using grid_concat [of "etp * pp" ep "\<lambda>k. k"] assms(1,2) by simp
  ultimately have "concat (ranks_of ?gs) = [0..etp * pp * ep - 1]" by (simp only:)
  moreover have "build_ep_groups world pp ep etp = Inr ?gs"
    using assms(1) pos by (simp add: build_ep_groups_def)
  ultimately show ?thesis using that by blast
qed

definition params_positive :: "net_params \<Rightarrow> bool" where
  "params_positive p \<longleftrightarrow> 1 \<le> np_tp p \<and> 1 \<le> np_pp p \<and> 1 \<le> np_cp p \<and> 1 \<le> np_ep p \<and> 1 \<le> np_etp p"

lemma calc_dp_Inr:
  assumes "1 \<le> tp" "1 \<le> pp" "1 \<le> cp"
  shows "calc_dp world tp pp cp = Inr dp \<longleftrightarrow> world = tp * pp * cp * dp"
    and "(\<exists>dp. calc_dp world tp pp cp = Inr dp) \<longleftrightarrow> tp * pp * cp dvd world"
proof -
  have n: "1 \<le> tp * pp * cp" using assms by (simp add: one_le_mult)
  then show "calc_dp world tp pp cp = Inr dp \<longleftrightarrow> world = tp * pp * cp * dp"
    using assms by (auto simp: calc_dp_def or_one_def Let_def)
  show "(\<exists>dp. calc_dp world tp pp cp = Inr dp) \<longleftrightarrow> tp * pp * cp dvd world"
    using n assms by (auto simp: calc_dp_def or_one_def Let_def dvd_eq_mod_eq_0)
qed

lemma calc_edp_eq: "calc_edp world ep etp pp = calc_dp world ep etp pp"
  by (simp add: calc_edp_def calc_dp_def)

lemma check_experts_ok: "1 \<le> ep \<Longrightarrow> check_experts n ep = Inr () \<longleftrightarrow> (case n of None \<Rightarrow> True | Some k \<Rightarrow> ep dvd k)"
  by (auto simp: check_experts_def dvd_eq_mod_eq_0 split: option.splits)

lemma ep_groups_distinct:
  assumes "build_ep_groups world pp ep etp = Inr eps" "1 \<le> pp" "1 \<le> etp" "1 \<le> edp" "1 < ep \<Longrightarrow> world = ep * etp * pp * edp"
  shows "distinct (concat (ranks_of eps)) \<and> (\<forall>r\<in>set (concat (ranks_of eps)). 0 \<le> r \<and> r < etp * pp * ep)"
proof (cases "1 < ep")
  case True
  then obtain gs where "build_ep_groups world pp ep etp = Inr gs" "concat (ranks_of gs) = [0..etp * pp * ep - 1]"
    using ep_groups_blocks [of ep etp pp edp world] assms one_le_mult [of etp pp] by blast
  then show ?thesis using assms(1) by (simp del: set_concat)
qed (use assms in \<open>auto simp: build_ep_groups_def\<close>)

lemma pos_factor: "1 \<le> a * b \<Longrightarrow> 1 \<le> a \<Longrightarrow> 1 \<le> b" for a b :: int
  by (metis int_one_le_iff_zero_less less_le_trans zero_less_mult_pos zero_less_one)

lemma validate_Inr:
  assumes "validate conf c = Inr t" "1 \<le> configured_world c"
    and "params_positive (get_parallel_params_from_config conf)"
  obtains p dp edp eps where "p = get_parallel_params_from_config conf"
    and "t = topology_groups (configured_world c) p dp edp eps"
    and "configured_world c = np_tp p * np_pp p * np_cp p * dp" "1 \<le> dp"
    and "build_ep_groups (configured_world c) (np_pp p) (np_ep p) (np_etp p) = Inr eps"
    and "1 \<le> edp" "1 < np_ep p \<Longrightarrow> configured_world c = np_ep p * np_etp p * np_pp p * edp"
proof -
  let ?p = "get_parallel_params_from_config conf" and ?w = "configured_world c"
  have pos: "1 \<le> np_tp ?p" "1 \<le> np_pp ?p" "1 \<le> np_cp ?p" "1 \<le> np_ep ?p" "1 \<le> np_etp ?p"
    using assms(3) by (simp_all add: params_positive_def)
  obtain dp edp eps where parts: "calc_dp ?w (np_tp ?p) (np_pp ?p) (np_cp ?p) = Inr dp"
      "(if 1 < np_ep ?p then calc_edp ?w (np_ep ?p) (np_etp ?p) (np_pp ?p) else Inr 1) = Inr edp"
      "build_ep_groups ?w (np_pp ?p) (np_ep ?p) (np_etp ?p) = Inr eps"
      "t = topology_groups ?w ?p dp edp eps"
    using assms(1) unfolding validate_def Let_def by (auto split: sum.splits if_splits)
  have w: "?w = np_tp ?p * np_pp ?p * np_cp ?p * dp" using parts(1) pos by (simp add: calc_dp_Inr)
  have e: "?w = np_ep ?p * np_etp ?p * np_pp ?p * edp" if "1 < np_ep ?p"
    using parts(2) pos that by (simp add: calc_edp_eq calc_dp_Inr)
  have dp: "1 \<le> dp"
    by (rule pos_factor [of "np_tp ?p * np_pp ?p * np_cp ?p"]) (use w assms(2) pos in \<open>simp_all add: one_le_mult\<close>)
  have edp: "1 \<le> edp"
  proof (cases "1 < np_ep ?p")
    case True
    show ?thesis
      by (rule pos_factor [of "np_ep ?p * np_etp ?p * np_pp ?p"]) (use e True assms(2) pos in \<open>simp_all add: one_le_mult\<close>)
  qed (use parts(2) in simp)
  show ?thesis by (rule that [OF refl parts(4) w dp parts(3) edp e])
qed

lemma validate_defined:
  assumes "1 \<le> configured_world c" "p = get_parallel_params_from_config conf" "params_positive p"
  shows "(\<exists>t. validate conf c = Inr t) \<longleftrightarrow>
    np_tp p * np_pp p * np_cp p dvd configured_world c
    \<and> (1 < np_ep p \<longrightarrow> np_ep p * np_etp p * np_pp p dvd configured_world c)
    \<and> (case conf ''--num-experts'' of None \<Rightarrow> True | Some n \<Rightarrow> np_ep p dvd n)"
proof -
  let ?w = "configured_world c"
  have pos: "1 \<le> np_tp p" "1 \<le> np_pp p" "1 \<le> np_cp p" "1 \<le> np_ep p" "1 \<le> np_etp p"
    using assms(3) by (simp_all add: params_positive_def)
  have ok: "validate_topology (topology_groups ?w p dp edp eps)"
    if "calc_dp ?w (np_tp p) (np_pp p) (np_cp p) = Inr dp"
      "(if 1 < np_ep p then calc_edp ?w (np_ep p) (np_etp p) (np_pp p) else Inr 1) = Inr edp" for dp edp eps
    using that pos
    by (auto simp: validate_topology_def topology_groups_def is_moe_def Let_def calc_edp_eq calc_dp_Inr split: if_splits)
  have eps: "\<exists>eps. build_ep_groups ?w (np_pp p) (np_ep p) (np_etp p) = Inr eps"
    using assms(1) by (auto simp: build_ep_groups_def)
  have "(\<exists>t. validate conf c = Inr t) \<longleftrightarrow> (\<exists>dp. calc_dp ?w (np_tp p) (np_pp p) (np_cp p) = Inr dp)
    \<and> (1 < np_ep p \<longrightarrow> (\<exists>edp. calc_edp ?w (np_ep p) (np_etp p) (np_pp p) = Inr edp))
    \<and> check_experts (conf ''--num-experts'') (np_ep p) = Inr ()"
    using ok eps by (auto simp: validate_def Let_def assms(2) [symmetric] split: sum.splits if_splits)
  then show ?thesis using pos by (simp add: calc_edp_eq calc_dp_Inr(2) check_experts_ok)
qed

text \<open>
  For a non-empty world and positive sizes the validation succeeds exactly when tp * pp * cp
  divides the world, with expert parallelism also ep * etp * pp does, and ep divides a configured
  number of experts; its own consistency check never fails.
\<close>
theorem validation_exact:
  assumes "1 \<le> configured_world c" "p = get_parallel_params_from_config conf" "params_positive p"
  shows "(\<exists>t. validate conf c = Inr t) \<longleftrightarrow>
    np_tp p * np_pp p * np_cp p dvd configured_world c
    \<and> (1 < np_ep p \<longrightarrow> np_ep p * np_etp p * np_pp p dvd configured_world c)
    \<and> (case conf ''--num-experts'' of None \<Rightarrow> True | Some n \<Rightarrow> np_ep p dvd n)"
  using assms by (rule validate_defined)

theorem validation_exact_witness:
  "(\<exists>t. validate [''--tensor-model-parallel-size'' \<mapsto> 2] \<lparr>wc_world = Some 8, wc_nodes = None, wc_per_node = None\<rparr> = Inr t)"
  using validation_exact [of "\<lparr>wc_world = Some 8, wc_nodes = None, wc_per_node = None\<rparr>" _
      "[''--tensor-model-parallel-size'' \<mapsto> 2]", OF _ refl]
  by (simp add: configured_world_def get_parallel_params_from_config_def params_positive_def Let_def)

text \<open>
  With expert parallelism a rank belongs to an expert group exactly when it is below
  etp * pp * ep, so when the expert data-parallel size exceeds one the ranks of all but the
  first replica are in no expert group and their all-to-all traffic is never tested.
\<close>
theorem expert_groups_cover_one_replica:
  assumes "validate conf c = Inr t" "1 \<le> configured_world c" "p = get_parallel_params_from_config conf"
    and "params_positive p" "1 < np_ep p" "0 \<le> r"
  shows "(\<exists>g\<in>set (ti_ep_groups t). r \<in> set (pg_ranks g)) \<longleftrightarrow> r * ti_edp t < configured_world c"
proof -
  from validate_Inr [OF assms(1,2) assms(4) [unfolded assms(3)]]
  obtain dp edp eps where t: "t = topology_groups (configured_world c) p dp edp eps"
    and eps: "build_ep_groups (configured_world c) (np_pp p) (np_ep p) (np_etp p) = Inr eps"
    and edp: "1 \<le> edp" and w: "configured_world c = np_ep p * np_etp p * np_pp p * edp"
    using assms(3,5) by metis
  have "1 \<le> np_etp p * np_pp p" using assms(4) by (simp add: params_positive_def one_le_mult)
  then have all: "concat (ranks_of eps) = [0..np_etp p * np_pp p * np_ep p - 1]"
    using ep_groups_blocks [OF assms(5) _ edp w] eps by (metis sum.inject(2))
  have "(\<exists>g\<in>set eps. r \<in> set (pg_ranks g)) \<longleftrightarrow> r \<in> set (concat (ranks_of eps))" by auto
  also have "\<dots> \<longleftrightarrow> r < np_etp p * np_pp p * np_ep p" using assms(6) by (simp only: all) auto
  also have "\<dots> \<longleftrightarrow> r * edp < np_etp p * np_pp p * np_ep p * edp" using edp by (simp only: mult_less_cancel_right) simp
  finally show ?thesis using w by (simp add: t topology_groups_def Let_def algebra_simps)
qed

theorem expert_groups_cover_one_replica_witness:
  "\<exists>t. validate [''--tensor-model-parallel-size'' \<mapsto> 2, ''--expert-model-parallel-size'' \<mapsto> 2]
      \<lparr>wc_world = Some 8, wc_nodes = None, wc_per_node = None\<rparr> = Inr t
    \<and> (\<forall>g\<in>set (ti_ep_groups t). 5 \<notin> set (pg_ranks g))"
proof -
  let ?conf = "[''--tensor-model-parallel-size'' \<mapsto> 2, ''--expert-model-parallel-size'' \<mapsto> 2] :: string \<Rightarrow> int option"
  let ?c = "\<lparr>wc_world = Some 8, wc_nodes = None, wc_per_node = None\<rparr>"
  let ?p = "\<lparr>np_tp = 2, np_pp = 1, np_cp = 1, np_ep = 2, np_etp = 1\<rparr>"
  have p: "get_parallel_params_from_config ?conf = ?p"
    by (simp add: get_parallel_params_from_config_def Let_def)
  have ok: "configured_world ?c = 8" "params_positive ?p"
    by (simp_all add: configured_world_def params_positive_def Let_def)
  have "\<exists>t. validate ?conf ?c = Inr t"
    using validate_defined [OF _ p [symmetric] ok(2)] ok(1) by simp
  then obtain t where t: "validate ?conf ?c = Inr t" ..
  have edp: "ti_edp t = 4"
  proof (rule validate_Inr [OF t])
    fix q dp edp eps
    assume "q = get_parallel_params_from_config ?conf" "t = topology_groups (configured_world ?c) q dp edp eps"
      "1 < np_ep q \<Longrightarrow> configured_world ?c = np_ep q * np_etp q * np_pp q * edp"
    then show ?thesis using p ok(1) by (simp add: topology_groups_def Let_def)
  qed (use p ok in simp_all)
  show ?thesis
    using t expert_groups_cover_one_replica [OF t _ p [symmetric] ok(2), of 5] ok(1) edp by auto
qed

section \<open>The benchmark of one rank\<close>

text \<open>
  The calls a rank makes of the communication library: a collective operation of a group (creating
  a group and the barriers are operations of the whole world), and sending to and receiving from a
  rank of a group.
\<close>

datatype comm_call = Collective string string "int list" | Send int string | Recv int string

definition world_ranks :: "topology_info \<Rightarrow> int list" where
  "world_ranks t = [0..ti_world t - 1]"

definition torch_groups :: "topology_info \<Rightarrow> process_group list" where
  "torch_groups t = filter (\<lambda>g. 2 \<le> length (pg_ranks g))
     (ti_tp_groups t @ ti_pp_groups t @ ti_dp_groups t @ ti_ep_groups t)"

text \<open>Every rank calls \<^verbatim>\<open>new_group\<close> for every group; it keeps the ones it belongs to.\<close>

definition create_torch_groups :: "topology_info \<Rightarrow> int \<Rightarrow> string list \<times> comm_call list" where
  "create_torch_groups t rank =
     (map pg_name (filter (\<lambda>g. rank \<in> set (pg_ranks g)) (torch_groups t)),
      map (\<lambda>g. Collective ''new_group'' (pg_name g) (world_ranks t)) (torch_groups t))"

text \<open>
  A measurement: ten warm-up rounds, then the measured ones.  A group of one rank needs none, and
  a group that was not created gives an error.
\<close>

definition benchmark_collective :: "string \<Rightarrow> string list \<Rightarrow> nat \<Rightarrow> process_group \<Rightarrow> comm_call list" where
  "benchmark_collective kind created n g =
     (if length (pg_ranks g) < 2 \<or> pg_name g \<notin> set created then []
      else replicate (10 + n) (Collective kind (pg_name g) (pg_ranks g)))"

definition index_in :: "'a \<Rightarrow> 'a list \<Rightarrow> nat" where
  "index_in x xs = length (takeWhile (\<lambda>y. y \<noteq> x) xs)"

definition benchmark_send_recv :: "string list \<Rightarrow> nat \<Rightarrow> int \<Rightarrow> process_group \<Rightarrow> comm_call list" where
  "benchmark_send_recv created n rank g =
     (let ranks = pg_ranks g; group_size = length ranks; local_rank = index_in rank ranks;
          is_sender = (local_rank mod 2 = 0 \<and> local_rank + 1 < group_size);
          is_receiver = (local_rank mod 2 = 1) in
      if group_size < 2 \<or> pg_name g \<notin> set created then []
      else if local_rank + 1 = group_size \<and> group_size mod 2 = 1 then []
      else if is_sender then replicate (10 + n) (Send (ranks ! (local_rank + 1)) (pg_name g))
      else if is_receiver then replicate (10 + n) (Recv (ranks ! (local_rank - 1)) (pg_name g))
      else [])"

text \<open>One test: the first group of the rank, or a note that it is skipped; then the barrier.\<close>

definition barrier :: "topology_info \<Rightarrow> comm_call" where
  "barrier t = Collective ''barrier'' [] (world_ranks t)"

definition benchmark_phase ::
    "topology_info \<Rightarrow> int \<Rightarrow> string \<Rightarrow> process_group list \<Rightarrow> (process_group \<Rightarrow> comm_call list)
     \<Rightarrow> (string \<times> string) \<times> comm_call list" where
  "benchmark_phase t rank kind gs calls =
     (case List.find (\<lambda>g. rank \<in> set (pg_ranks g)) gs of
        Some g \<Rightarrow> ((kind, pg_name g), calls g @ [barrier t])
      | None \<Rightarrow> ((kind, ''N/A''), [barrier t]))"

definition benchmark_all_groups ::
    "topology_info \<Rightarrow> string list \<Rightarrow> nat \<Rightarrow> int \<Rightarrow> (string \<times> string) list \<times> comm_call list" where
  "benchmark_all_groups t created n rank =
     (let phases = [benchmark_phase t rank ''TP'' (ti_tp_groups t) (benchmark_collective ''all_reduce'' created n),
        benchmark_phase t rank ''PP'' (ti_pp_groups t) (benchmark_send_recv created n rank),
        benchmark_phase t rank ''DP'' (ti_dp_groups t) (benchmark_collective ''all_reduce'' created n),
        benchmark_phase t rank ''EP'' (ti_ep_groups t) (benchmark_collective ''all_to_all'' created n)]
      in (map fst phases, concat (map snd phases)))"

text \<open>The run of a rank: the groups, the benchmark, and gathering the results.\<close>

definition rank_run :: "topology_info \<Rightarrow> nat \<Rightarrow> int \<Rightarrow> comm_call list" where
  "rank_run t n rank =
     (case create_torch_groups t rank of (created, calls) \<Rightarrow>
        calls @ snd (benchmark_all_groups t created n rank)
          @ [Collective ''gather'' [] (world_ranks t), barrier t])"

section \<open>Matching calls\<close>

text \<open>
  The calls of all ranks, as a schedule of operations of the whole system: a collective operation
  involves its ranks, a message its sender and its receiver.
\<close>

datatype comm_event = AllCall string string "int list" | Message int int string

fun event_ranks :: "comm_event \<Rightarrow> int set" where
  "event_ranks (AllCall k g rs) = set rs"
| "event_ranks (Message a b g) = {a, b}"

fun well_formed_event :: "comm_event \<Rightarrow> bool" where
  "well_formed_event (AllCall k g rs) = (rs \<noteq> [])"
| "well_formed_event (Message a b g) = (a \<noteq> b)"

fun call_of :: "comm_event \<Rightarrow> int \<Rightarrow> comm_call" where
  "call_of (AllCall k g rs) r = Collective k g rs"
| "call_of (Message a b g) r = (if r = a then Send b g else Recv a g)"

definition calls_of :: "comm_event list \<Rightarrow> int \<Rightarrow> comm_call list" where
  "calls_of es r = map (\<lambda>e. call_of e r) (filter (\<lambda>e. r \<in> event_ranks e) es)"

text \<open>
  The system's state: the calls each rank has still to make.  What the program relies on is that
  the library completes operations that every participant has called, and nothing else.
\<close>

type_synonym comm_state = "int \<Rightarrow> comm_call list"

definition all_called :: "comm_event \<Rightarrow> comm_state \<Rightarrow> bool" where
  "all_called e s \<longleftrightarrow> (\<forall>r\<in>event_ranks e. \<exists>cs. s r = call_of e r # cs)"

definition completed :: "comm_event \<Rightarrow> comm_state \<Rightarrow> comm_state" where
  "completed e s = (\<lambda>r. if r \<in> event_ranks e then tl (s r) else s r)"

definition library_law :: "(comm_state \<Rightarrow> comm_state \<Rightarrow> bool) \<Rightarrow> bool" where
  "library_law step \<longleftrightarrow>
     (\<forall>s s'. step s s' \<longrightarrow> (\<exists>e. well_formed_event e \<and> all_called e s \<and> s' = completed e s))
     \<and> (\<forall>s e. well_formed_event e \<and> all_called e s \<longrightarrow> (\<exists>s'. step s s'))"

lemma calls_of_simps [simp]:
  "calls_of [] r = []"
  "calls_of (e # es) r = (if r \<in> event_ranks e then call_of e r # calls_of es r else calls_of es r)"
  "calls_of (es @ fs) r = calls_of es r @ calls_of fs r"
  by (simp_all add: calls_of_def)

lemma same_call_same_event:
  assumes "call_of e r = call_of f r" "r \<in> event_ranks e" "r \<in> event_ranks f"
    and "well_formed_event e" "well_formed_event f"
  shows "e = f"
  using assms by (cases e; cases f) (auto split: if_splits)

lemma first_event_called: "s = calls_of (e # es) \<Longrightarrow> all_called e s"
  by (auto simp: all_called_def)

lemma participant: "well_formed_event e \<Longrightarrow> \<exists>r. r \<in> event_ranks e"
  by (cases e) (auto simp: neq_Nil_conv)

lemma called_event_scheduled:
  assumes "\<forall>e\<in>set es. well_formed_event e" "well_formed_event f" "all_called f (calls_of es)"
  shows "\<exists>as bs. es = as @ f # bs \<and> (\<forall>e\<in>set as. event_ranks e \<inter> event_ranks f = {})"
  using assms
proof (induction es)
  case Nil
  then show ?case using participant [of f] by (auto simp: all_called_def)
next
  case (Cons e es)
  show ?case
  proof (cases "event_ranks e \<inter> event_ranks f = {}")
    case True
    have "\<exists>cs. calls_of es r = call_of f r # cs" if "r \<in> event_ranks f" for r
    proof -
      have "r \<notin> event_ranks e" using True that by blast
      then show ?thesis using Cons.prems(3) that by (fastforce simp: all_called_def)
    qed
    then have "all_called f (calls_of es)" by (simp add: all_called_def)
    then obtain as bs where "es = as @ f # bs" "\<forall>e\<in>set as. event_ranks e \<inter> event_ranks f = {}"
      using Cons by fastforce
    then show ?thesis using True by (intro exI [of _ "e # as"] exI [of _ bs]) simp
  next
    case False
    then obtain r where r: "r \<in> event_ranks e" "r \<in> event_ranks f" by blast
    then have "call_of e r = call_of f r" using Cons.prems(3) by (auto simp: all_called_def)
    then have "e = f" using same_call_same_event r Cons.prems by simp
    then show ?thesis by (intro exI [of _ "[]"] exI [of _ es]) simp
  qed
qed

lemma calls_of_skip: "\<forall>e\<in>set as. event_ranks e \<inter> A = {} \<Longrightarrow> r \<in> A \<Longrightarrow> calls_of as r = []"
  by (induction as) auto

lemma completed_schedule:
  assumes "\<forall>e\<in>set as. event_ranks e \<inter> event_ranks f = {}"
  shows "completed f (calls_of (as @ f # bs)) = calls_of (as @ bs)"
  using calls_of_skip [OF assms] by (auto simp: completed_def fun_eq_iff)

text \<open>A system whose ranks run the projections of one schedule never gets stuck.\<close>

lemma schedule_runs:
  assumes law: "library_law step" and "step\<^sup>*\<^sup>* (calls_of es) s" "\<forall>e\<in>set es. well_formed_event e"
  shows "\<exists>fs. s = calls_of fs \<and> (\<forall>e\<in>set fs. well_formed_event e)"
  using assms(2,3)
proof (induction rule: rtranclp_induct)
  case (step s s')
  then obtain fs where fs: "s = calls_of fs" "\<forall>e\<in>set fs. well_formed_event e" by blast
  obtain e where e: "well_formed_event e" "all_called e s" "s' = completed e s"
    using law step.hyps(2) unfolding library_law_def by blast
  obtain as bs where "fs = as @ e # bs" "\<forall>f\<in>set as. event_ranks f \<inter> event_ranks e = {}"
    using called_event_scheduled [OF fs(2) e(1)] e(2) fs(1) by blast
  then have "s' = calls_of (as @ bs)" "\<forall>f\<in>set (as @ bs). well_formed_event f"
    using completed_schedule e(3) fs by auto
  then show ?case by blast
qed blast

lemma schedule_not_stuck:
  assumes "library_law step" "step\<^sup>*\<^sup>* (calls_of es) s" "\<forall>e\<in>set es. well_formed_event e"
  shows "(\<forall>r. s r = []) \<or> (\<exists>s'. step s s')"
proof -
  obtain fs where fs: "s = calls_of fs" "\<forall>e\<in>set fs. well_formed_event e" using schedule_runs [OF assms] by blast
  show ?thesis
  proof (cases fs)
    case (Cons e gs)
    then have "all_called e s" using first_event_called fs(1) by simp
    then have "\<exists>s'. step s s'" using assms(1) fs(2) Cons unfolding library_law_def by auto
    then show ?thesis ..
  qed (use fs in simp)
qed

lemma schedule_bounded:
  assumes "library_law step" "(step ^^ k) (calls_of es) s" "\<forall>e\<in>set es. well_formed_event e"
  shows "k \<le> length es"
  using assms(2,3)
proof (induction k arbitrary: es)
  case (Suc k)
  obtain s1 where s1: "step (calls_of es) s1" "(step ^^ k) s1 s" using relpowp_Suc_D2 [OF Suc.prems(1)] by blast
  obtain e where e: "well_formed_event e" "all_called e (calls_of es)" "s1 = completed e (calls_of es)"
    using assms(1) s1(1) unfolding library_law_def by blast
  obtain as bs where es: "es = as @ e # bs" "\<forall>f\<in>set as. event_ranks f \<inter> event_ranks e = {}"
    using called_event_scheduled [OF Suc.prems(2) e(1,2)] by blast
  have "s1 = calls_of (as @ bs)" using completed_schedule [OF es(2)] e(3) es(1) by simp
  then have "(step ^^ k) (calls_of (as @ bs)) s" using s1(2) by simp
  then have "k \<le> length (as @ bs)" by (rule Suc.IH) (use Suc.prems(2) es(1) in simp)
  then show ?case using es(1) by simp
qed simp

section \<open>The schedule of the benchmark\<close>

definition group_events :: "string \<Rightarrow> nat \<Rightarrow> process_group \<Rightarrow> comm_event list" where
  "group_events kind n g =
     (if length (pg_ranks g) < 2 then [] else replicate (10 + n) (AllCall kind (pg_name g) (pg_ranks g)))"

fun pair_events :: "string \<Rightarrow> nat \<Rightarrow> int list \<Rightarrow> comm_event list" where
  "pair_events g n (a # b # rs) = replicate (10 + n) (Message a b g) @ pair_events g n rs"
| "pair_events g n _ = []"

definition barrier_event :: "topology_info \<Rightarrow> comm_event" where
  "barrier_event t = AllCall ''barrier'' [] (world_ranks t)"

definition run_schedule :: "topology_info \<Rightarrow> nat \<Rightarrow> comm_event list" where
  "run_schedule t n =
     map (\<lambda>g. AllCall ''new_group'' (pg_name g) (world_ranks t)) (torch_groups t)
     @ concat (map (group_events ''all_reduce'' n) (ti_tp_groups t)) @ [barrier_event t]
     @ concat (map (\<lambda>g. pair_events (pg_name g) n (pg_ranks g)) (ti_pp_groups t)) @ [barrier_event t]
     @ concat (map (group_events ''all_reduce'' n) (ti_dp_groups t)) @ [barrier_event t]
     @ concat (map (group_events ''all_to_all'' n) (ti_ep_groups t)) @ [barrier_event t]
     @ [AllCall ''gather'' [] (world_ranks t), barrier_event t]"

lemma calls_of_replicate [simp]:
  "calls_of (replicate k e) r = (if r \<in> event_ranks e then replicate k (call_of e r) else [])"
  by (simp add: calls_of_def map_replicate)

text \<open>With disjoint groups only the rank's own group gives it calls.\<close>

lemma calls_of_groups:
  assumes "distinct (concat (ranks_of gs))"
    and "\<And>g r. g \<in> set gs \<Longrightarrow> r \<notin> set (pg_ranks g) \<Longrightarrow> calls_of (f g) r = []"
  shows "calls_of (concat (map f gs)) r =
    (case List.find (\<lambda>g. r \<in> set (pg_ranks g)) gs of None \<Rightarrow> [] | Some g \<Rightarrow> calls_of (f g) r)"
  using assms
proof (induction gs)
  case (Cons g gs)
  have rest: "calls_of (concat (map f gs)) r =
      (case List.find (\<lambda>g. r \<in> set (pg_ranks g)) gs of None \<Rightarrow> [] | Some g \<Rightarrow> calls_of (f g) r)"
    using Cons by auto
  show ?case
  proof (cases "r \<in> set (pg_ranks g)")
    case True
    then have "List.find (\<lambda>g. r \<in> set (pg_ranks g)) gs = None"
      using Cons.prems(1) by (auto simp: find_None_iff)
    then show ?thesis using True rest by simp
  next
    case False
    then show ?thesis using rest Cons.prems(2) [of g r] by simp
  qed
qed simp

lemma calls_of_pairs_other: "r \<notin> set rs \<Longrightarrow> calls_of (pair_events g n rs) r = []"
  by (induction g n rs rule: pair_events.induct) auto

text \<open>Ranks at even positions send to the next one, ranks at odd positions receive from the one before.\<close>

definition pair_calls :: "string \<Rightarrow> nat \<Rightarrow> int \<Rightarrow> int list \<Rightarrow> comm_call list" where
  "pair_calls g n r rs =
     (let i = index_in r rs in
      if i mod 2 = 0 then (if i + 1 < length rs then replicate (10 + n) (Send (rs ! (i + 1)) g) else [])
      else replicate (10 + n) (Recv (rs ! (i - 1)) g))"

lemma calls_of_pairs:
  "distinct rs \<Longrightarrow> r \<in> set rs \<Longrightarrow> calls_of (pair_events g n rs) r = pair_calls g n r rs"
proof (induction g n rs rule: pair_events.induct)
  case (1 g n a b rs)
  consider "r = a" | "r = b" "r \<noteq> a" | "r \<in> set rs" "r \<noteq> a" "r \<noteq> b" using "1.prems" by auto
  then show ?case
  proof cases
    case 3
    then have i: "index_in r (a # b # rs) = Suc (Suc (index_in r rs))" by (simp add: index_in_def)
    have p: "rs ! (index_in r rs - 1) = (a # b # rs) ! (Suc (index_in r rs))" if "index_in r rs mod 2 = 1"
      using that by (cases "index_in r rs") auto
    show ?thesis using 1 3 p by (auto simp: pair_calls_def i Let_def)
  qed (use "1.prems" in \<open>auto simp: pair_calls_def index_in_def Let_def calls_of_pairs_other\<close>)
qed (auto simp: pair_calls_def index_in_def)

lemma index_in_less: "r \<in> set rs \<Longrightarrow> index_in r rs < length rs"
  unfolding index_in_def by (induction rs) auto

lemma send_recv_pairs:
  assumes "r \<in> set (pg_ranks g)" "pg_name g \<in> set created"
  shows "benchmark_send_recv created n r g = pair_calls (pg_name g) n r (pg_ranks g)"
proof -
  let ?i = "index_in r (pg_ranks g)"
  have i: "?i < length (pg_ranks g)" using assms(1) by (rule index_in_less)
  have "?i mod 2 = 0" if "?i + 1 = length (pg_ranks g)" "length (pg_ranks g) mod 2 = 1" using that by presburger
  moreover have "?i = 0" if "length (pg_ranks g) < 2" using i that by simp
  ultimately show ?thesis using i assms(2) by (auto simp: benchmark_send_recv_def pair_calls_def Let_def)
qed

lemma find_rank:
  "List.find (\<lambda>g. r \<in> set (pg_ranks g)) gs = Some g \<Longrightarrow> g \<in> set gs \<and> r \<in> set (pg_ranks g)"
  by (auto simp: find_Some_iff)

lemma phase_calls:
  assumes "distinct (concat (ranks_of gs))"
    and "\<And>g r. g \<in> set gs \<Longrightarrow> r \<notin> set (pg_ranks g) \<Longrightarrow> calls_of (f g) r = []"
    and "\<And>g. g \<in> set gs \<Longrightarrow> r \<in> set (pg_ranks g) \<Longrightarrow> calls_of (f g) r = calls g"
  shows "calls_of (concat (map f gs)) r @ [barrier t] = snd (benchmark_phase t r kind gs calls)"
  using calls_of_groups [OF assms(1,2), where r = r] assms(3) find_rank [where r = r and gs = gs]
  by (auto simp: benchmark_phase_def split: option.splits)

lemma created_group:
  "g \<in> set gs \<Longrightarrow> set gs \<subseteq> set (ti_tp_groups t @ ti_pp_groups t @ ti_dp_groups t @ ti_ep_groups t)
    \<Longrightarrow> r \<in> set (pg_ranks g) \<Longrightarrow> 2 \<le> length (pg_ranks g) \<Longrightarrow> pg_name g \<in> set (fst (create_torch_groups t r))"
  by (auto simp: create_torch_groups_def torch_groups_def)

lemma collective_phase:
  assumes "distinct (concat (ranks_of gs))"
    and "set gs \<subseteq> set (ti_tp_groups t @ ti_pp_groups t @ ti_dp_groups t @ ti_ep_groups t)"
  shows "calls_of (concat (map (group_events op n) gs)) r @ [barrier t] =
    snd (benchmark_phase t r kind gs (benchmark_collective op (fst (create_torch_groups t r)) n))"
proof (rule phase_calls [OF assms(1)])
  show "calls_of (group_events op n g) r = benchmark_collective op (fst (create_torch_groups t r)) n g"
    if "g \<in> set gs" "r \<in> set (pg_ranks g)" for g
    using that created_group [OF that(1) assms(2) that(2)] by (simp add: group_events_def benchmark_collective_def)
qed (simp add: group_events_def)

lemma pair_phase:
  assumes "distinct (concat (ranks_of gs))"
    and "set gs \<subseteq> set (ti_tp_groups t @ ti_pp_groups t @ ti_dp_groups t @ ti_ep_groups t)"
  shows "calls_of (concat (map (\<lambda>g. pair_events (pg_name g) n (pg_ranks g)) gs)) r @ [barrier t] =
    snd (benchmark_phase t r kind gs (benchmark_send_recv (fst (create_torch_groups t r)) n r))"
proof (rule phase_calls [OF assms(1)])
  show "calls_of (pair_events (pg_name g) n (pg_ranks g)) r =
      benchmark_send_recv (fst (create_torch_groups t r)) n r g"
    if g: "g \<in> set gs" "r \<in> set (pg_ranks g)" for g
  proof (cases "2 \<le> length (pg_ranks g)")
    case True
    have "distinct (pg_ranks g)" using g(1) assms(1) by (auto simp: distinct_concat_iff)
    then show ?thesis
      using g created_group [OF g(1) assms(2) g(2) True] by (simp add: calls_of_pairs send_recv_pairs)
  next
    case False
    then obtain x where "pg_ranks g = [x]" using g(2) by (cases "pg_ranks g"; cases "tl (pg_ranks g)") auto
    then show ?thesis by (simp add: benchmark_send_recv_def Let_def)
  qed
qed (simp add: calls_of_pairs_other)

lemma run_is_scheduled:
  assumes "distinct (concat (ranks_of (ti_tp_groups t)))" "distinct (concat (ranks_of (ti_pp_groups t)))"
    "distinct (concat (ranks_of (ti_dp_groups t)))" "distinct (concat (ranks_of (ti_ep_groups t)))"
    and "r \<in> {0..<ti_world t}"
  shows "calls_of (run_schedule t n) r = rank_run t n r"
proof -
  let ?created = "fst (create_torch_groups t r)"
  have w: "r \<in> set (world_ranks t)" using assms(5) by (simp add: world_ranks_def)
  have groups: "calls_of (map (\<lambda>g. AllCall ''new_group'' (pg_name g) (world_ranks t)) gs) r =
      map (\<lambda>g. Collective ''new_group'' (pg_name g) (world_ranks t)) gs" for gs
    using w by (induction gs) auto
  have barrier: "r \<in> event_ranks (barrier_event t)" "call_of (barrier_event t) r = barrier t"
    using w by (simp_all add: barrier_event_def barrier_def)
  have gather: "call_of (AllCall ''gather'' [] (world_ranks t)) r = Collective ''gather'' [] (world_ranks t)"
    "r \<in> event_ranks (AllCall ''gather'' [] (world_ranks t))" using w by simp_all
  have created: "snd (create_torch_groups t r) =
      map (\<lambda>g. Collective ''new_group'' (pg_name g) (world_ranks t)) (torch_groups t)"
    by (simp add: create_torch_groups_def)
  note tp = collective_phase [OF assms(1), of t "''all_reduce''" n r "''TP''", symmetric]
  note pp = pair_phase [OF assms(2), of t n r "''PP''", symmetric]
  note dp = collective_phase [OF assms(3), of t "''all_reduce''" n r "''DP''", symmetric]
  note ep = collective_phase [OF assms(4), of t "''all_to_all''" n r "''EP''", symmetric]
  show ?thesis
    by (simp add: rank_run_def case_prod_beta benchmark_all_groups_def Let_def run_schedule_def groups barrier gather
        created tp pp dp ep subset_iff del: event_ranks.simps call_of.simps)
qed

lemma pair_events_formed: "distinct rs \<Longrightarrow> e \<in> set (pair_events g n rs) \<Longrightarrow> well_formed_event e"
  by (induction g n rs rule: pair_events.induct) auto

lemma run_schedule_formed:
  assumes "distinct (concat (ranks_of (ti_pp_groups t)))" "1 \<le> ti_world t" "e \<in> set (run_schedule t n)"
  shows "well_formed_event e"
proof -
  have w: "world_ranks t \<noteq> []" using assms(2) by (simp add: world_ranks_def)
  have "well_formed_event e" if "e \<in> set (group_events kind n g)" for kind g
    using that by (auto simp: group_events_def split: if_splits)
  moreover have "well_formed_event e" if "g \<in> set (ti_pp_groups t)" "e \<in> set (pair_events (pg_name g) n (pg_ranks g))" for g
    using that assms(1) pair_events_formed by (auto simp: distinct_concat_iff)
  ultimately show ?thesis
    using assms(3) w unfolding run_schedule_def by (auto simp: barrier_event_def)
qed

lemma pair_events_ranks: "e \<in> set (pair_events g n rs) \<Longrightarrow> event_ranks e \<subseteq> set rs"
  by (induction g n rs rule: pair_events.induct) auto

lemma run_outside_world:
  assumes "\<And>gs g. gs \<in> {ti_tp_groups t, ti_pp_groups t, ti_dp_groups t, ti_ep_groups t} \<Longrightarrow> g \<in> set gs \<Longrightarrow>
      set (pg_ranks g) \<subseteq> {0..<ti_world t}"
    and "r \<notin> {0..<ti_world t}"
  shows "calls_of (run_schedule t n) r = []"
proof -
  have grp: "event_ranks e \<subseteq> set (pg_ranks g)" if "e \<in> set (group_events kind n g)" for e kind g
    using that by (auto simp: group_events_def split: if_splits)
  have coll: "event_ranks e \<subseteq> {0..<ti_world t}"
    if e: "e \<in> set (concat (map (group_events kind n) gs))"
      "gs \<in> {ti_tp_groups t, ti_pp_groups t, ti_dp_groups t, ti_ep_groups t}" for e kind gs
  proof -
    obtain g where "g \<in> set gs" "e \<in> set (group_events kind n g)" using e(1) by auto
    then show ?thesis using grp assms(1) [OF e(2)] by blast
  qed
  have pair: "event_ranks e \<subseteq> {0..<ti_world t}"
    if e: "e \<in> set (concat (map (\<lambda>g. pair_events (pg_name g) n (pg_ranks g)) (ti_pp_groups t)))" for e
  proof -
    obtain g where "g \<in> set (ti_pp_groups t)" "e \<in> set (pair_events (pg_name g) n (pg_ranks g))" using e by auto
    then show ?thesis using pair_events_ranks assms(1) by blast
  qed
  have world: "set (world_ranks t) = {0..<ti_world t}" by (auto simp: world_ranks_def)
  have "event_ranks e \<subseteq> {0..<ti_world t}" if "e \<in> set (run_schedule t n)" for e
    using that unfolding run_schedule_def barrier_event_def set_append Un_iff
  proof (elim disjE)
    assume "e \<in> set (concat (map (group_events ''all_reduce'' n) (ti_tp_groups t)))"
    then show ?thesis by (rule coll) simp
  next
    assume "e \<in> set (concat (map (\<lambda>g. pair_events (pg_name g) n (pg_ranks g)) (ti_pp_groups t)))"
    then show ?thesis by (rule pair)
  next
    assume "e \<in> set (concat (map (group_events ''all_reduce'' n) (ti_dp_groups t)))"
    then show ?thesis by (rule coll) simp
  next
    assume "e \<in> set (concat (map (group_events ''all_to_all'' n) (ti_ep_groups t)))"
    then show ?thesis by (rule coll) simp
  qed (auto simp: world)
  then have "\<forall>e\<in>set (run_schedule t n). event_ranks e \<inter> {r} = {}" using assms(2) by blast
  then show ?thesis using calls_of_skip by blast
qed

text \<open>All ranks at the start of their runs.\<close>

definition benchmark_start :: "topology_info \<Rightarrow> nat \<Rightarrow> comm_state" where
  "benchmark_start t n = (\<lambda>r. if r \<in> {0..<ti_world t} then rank_run t n r else [])"

lemma validated_groups:
  assumes "validate conf c = Inr t" "1 \<le> configured_world c"
    and "params_positive (get_parallel_params_from_config conf)"
  shows "ti_world t = configured_world c"
    and "gs \<in> {ti_tp_groups t, ti_pp_groups t, ti_dp_groups t, ti_ep_groups t} \<Longrightarrow>
      distinct (concat (ranks_of gs)) \<and> set (concat (ranks_of gs)) \<subseteq> {0..<ti_world t}"
proof -
  from validate_Inr [OF assms] obtain p dp edp eps where p: "p = get_parallel_params_from_config conf"
    and t: "t = topology_groups (configured_world c) p dp edp eps"
    and w: "configured_world c = np_tp p * np_pp p * np_cp p * dp" "1 \<le> dp"
    and eps: "build_ep_groups (configured_world c) (np_pp p) (np_ep p) (np_etp p) = Inr eps"
    and edp: "1 \<le> edp" "1 < np_ep p \<Longrightarrow> configured_world c = np_ep p * np_etp p * np_pp p * edp"
    by blast
  have pos: "1 \<le> np_tp p" "1 \<le> np_pp p" "1 \<le> np_cp p" "1 \<le> np_etp p"
    using assms(3) by (simp_all add: params_positive_def p)
  show world: "ti_world t = configured_world c" by (simp add: t topology_groups_def Let_def)
  have ep: "distinct (concat (ranks_of eps)) \<and> (\<forall>r\<in>set (concat (ranks_of eps)). 0 \<le> r \<and> r < np_etp p * np_pp p * np_ep p)"
    by (rule ep_groups_distinct [OF eps pos(2) pos(4) edp(1) edp(2)])
  have "set (concat (ranks_of eps)) \<subseteq> {0..<configured_world c}"
  proof (cases "1 < np_ep p")
    case True
    then have "np_etp p * np_pp p * np_ep p * 1 \<le> np_etp p * np_pp p * np_ep p * edp"
      using pos edp(1) by (intro mult_left_mono) simp_all
    then have "np_etp p * np_pp p * np_ep p \<le> configured_world c" using edp(2) [OF True] by (simp add: algebra_simps)
    then show ?thesis using ep by force
  next
    case False
    then show ?thesis using eps by (simp add: build_ep_groups_def)
  qed
  then show "distinct (concat (ranks_of gs)) \<and> set (concat (ranks_of gs)) \<subseteq> {0..<ti_world t}"
    if "gs \<in> {ti_tp_groups t, ti_pp_groups t, ti_dp_groups t, ti_ep_groups t}"
    using that ep net_groups_partition [OF pos(1,2) w(2) pos(3), of gs] w(1)
    unfolding world by (auto simp: t topology_groups_def Let_def mult.assoc mult.commute mult.left_commute simp del: set_concat)
qed

text \<open>
  C25: On every topology the validation accepts the benchmark never deadlocks: whatever library
  completes matching calls, no reachable state of the ranks' runs is stuck before every rank has
  finished, and every run ends after a bounded number of completed operations.
\<close>
theorem benchmark_never_deadlocks:
  assumes "validate conf c = Inr t" "1 \<le> configured_world c"
    and "params_positive (get_parallel_params_from_config conf)" "library_law step"
  shows "(\<forall>s. step\<^sup>*\<^sup>* (benchmark_start t n) s \<longrightarrow> (\<forall>r. s r = []) \<or> (\<exists>s'. step s s'))
    \<and> (\<exists>bound. \<forall>k s. (step ^^ k) (benchmark_start t n) s \<longrightarrow> k \<le> bound)"
proof -
  note groups = validated_groups [OF assms(1-3)]
  have start: "benchmark_start t n = calls_of (run_schedule t n)"
  proof
    fix r
    have "set (pg_ranks g) \<subseteq> {0..<ti_world t}"
      if "gs \<in> {ti_tp_groups t, ti_pp_groups t, ti_dp_groups t, ti_ep_groups t}" "g \<in> set gs" for gs g
      using groups(2) [OF that(1)] that(2) by auto
    then show "benchmark_start t n r = calls_of (run_schedule t n) r"
      using run_is_scheduled [of t r n] run_outside_world [of t r n] groups(2) by (auto simp: benchmark_start_def)
  qed
  have "\<forall>e\<in>set (run_schedule t n). well_formed_event e"
    using run_schedule_formed [of t _ n] groups assms(2) by simp
  then show ?thesis
    unfolding start using schedule_not_stuck [OF assms(4)] schedule_bounded [OF assms(4)] by blast
qed

text \<open>The most permissive library: any event all participants have called completes.\<close>

definition rendezvous :: "comm_state \<Rightarrow> comm_state \<Rightarrow> bool" where
  "rendezvous s s' \<longleftrightarrow> (\<exists>e. well_formed_event e \<and> all_called e s \<and> s' = completed e s)"

lemma rendezvous_law: "library_law rendezvous"
  by (auto simp: library_law_def rendezvous_def)

definition sample_conf :: "string \<Rightarrow> int option" where
  "sample_conf = [''--tensor-model-parallel-size'' \<mapsto> 2, ''--pipeline-model-parallel-size'' \<mapsto> 3]"

definition sample_world :: world_cfg where
  "sample_world = \<lparr>wc_world = Some 12, wc_nodes = None, wc_per_node = None\<rparr>"

lemma sample_validates:
  "1 \<le> configured_world sample_world" "params_positive (get_parallel_params_from_config sample_conf)"
  "\<exists>t. validate sample_conf sample_world = Inr t"
proof -
  show 1: "1 \<le> configured_world sample_world" "params_positive (get_parallel_params_from_config sample_conf)"
    by (simp_all add: configured_world_def get_parallel_params_from_config_def params_positive_def
        sample_conf_def sample_world_def Let_def)
  show "\<exists>t. validate sample_conf sample_world = Inr t"
    using validate_defined [OF 1(1) refl 1(2)]
    by (simp add: configured_world_def get_parallel_params_from_config_def sample_conf_def sample_world_def Let_def)
qed

theorem benchmark_never_deadlocks_witness:
  "\<exists>t. validate sample_conf sample_world = Inr t \<and>
    (\<forall>s. rendezvous\<^sup>*\<^sup>* (benchmark_start t 100) s \<longrightarrow> (\<forall>r. s r = []) \<or> (\<exists>s'. rendezvous s s'))"
  using sample_validates benchmark_never_deadlocks [OF _ sample_validates(1,2) rendezvous_law] by blast

section \<open>The stand-alone check\<close>

text \<open>
  The rank a process reports and the rank it joins the communication with: the two functions
  prefer different variables of the environment.
\<close>

definition env_int :: "(string \<Rightarrow> string option) \<Rightarrow> string \<Rightarrow> int \<Rightarrow> int option" where
  "env_int env key dflt = (case env key of None \<Rightarrow> Some dflt | Some s \<Rightarrow> py_int s)"

definition reported_rank :: "(string \<Rightarrow> string option) \<Rightarrow> int option" where
  "reported_rank env =
     (if env ''RANK'' \<noteq> None then env_int env ''RANK'' 0 else env_int env ''OMPI_COMM_WORLD_RANK'' 0)"

definition joined_rank :: "(string \<Rightarrow> string option) \<Rightarrow> int option" where
  "joined_rank env =
     (if env ''OMPI_COMM_WORLD_RANK'' \<noteq> None then env_int env ''OMPI_COMM_WORLD_RANK'' 0 else env_int env ''RANK'' 0)"

text \<open>The command line; in script mode the sizes come from the configuration.\<close>

record main_args =
  ma_world :: "int option"
  ma_tp :: "int option"
  ma_pp :: "int option"
  ma_dp :: "int option"
  ma_cp :: int
  ma_ep :: int
  ma_etp :: int

definition main_params :: "bool \<Rightarrow> main_args \<Rightarrow> (string \<Rightarrow> int option) \<Rightarrow> (net_params \<times> int) option" where
  "main_params script a conf =
     (if script then Some (get_parallel_params_from_config conf, 1)
      else case (ma_tp a, ma_pp a, ma_dp a) of
          (Some tp, Some pp, Some dp) \<Rightarrow>
            Some (\<lparr>np_tp = tp, np_pp = pp, np_cp = ma_cp a, np_ep = ma_ep a, np_etp = ma_etp a\<rparr>, dp)
        | _ \<Rightarrow> None)"

definition main_world :: "main_args \<Rightarrow> int \<Rightarrow> net_params \<Rightarrow> int \<Rightarrow> int" where
  "main_world a env_world p dp =
     (case ma_world a of
        Some w \<Rightarrow> w
      | None \<Rightarrow> if 0 < env_world then env_world else np_tp p * np_pp p * np_cp p * dp)"

text \<open>Sizes that are not zero replace the configured ones.\<close>

definition set_size :: "string \<Rightarrow> int \<Rightarrow> (string \<Rightarrow> int option) \<Rightarrow> string \<Rightarrow> int option" where
  "set_size key v conf = (if v = 0 then conf else conf(key \<mapsto> v))"

definition store_params :: "net_params \<Rightarrow> (string \<Rightarrow> int option) \<Rightarrow> string \<Rightarrow> int option" where
  "store_params p conf =
     set_size ''--expert-tensor-parallel-size'' (np_etp p)
       (set_size ''--expert-model-parallel-size'' (np_ep p)
         (set_size ''--context-parallel-size'' (np_cp p)
           (set_size ''--pipeline-model-parallel-size'' (np_pp p)
             (set_size ''--tensor-model-parallel-size'' (np_tp p) conf))))"

definition topology_status :: "py_exn + topology_info \<Rightarrow> string" where
  "topology_status r =
     (case r of
        Inl e \<Rightarrow> ''error''
      | Inr t \<Rightarrow>
          if np_tp (ti_params t) * np_pp (ti_params t) * np_cp (ti_params t) * ti_dp t \<noteq> ti_world t
          then ''mismatch'' else ''valid'')"

text \<open>The exit code.\<close>

definition test_topology_validator :: "bool \<Rightarrow> main_args \<Rightarrow> int \<Rightarrow> (string \<Rightarrow> int option) \<Rightarrow> nat" where
  "test_topology_validator script a env_world conf =
     (case main_params script a conf of
        None \<Rightarrow> 1
      | Some (p, dp) \<Rightarrow>
          if topology_status (validate (store_params p conf)
               \<lparr>wc_world = Some (main_world a env_world p dp), wc_nodes = None, wc_per_node = None\<rparr>) = ''valid''
          then 0 else 1)"

lemma stored_params:
  assumes "params_positive p"
  shows "get_parallel_params_from_config (store_params p conf) = p"
  using assms by (cases p) (simp add: params_positive_def get_parallel_params_from_config_def store_params_def set_size_def Let_def)

lemma stored_experts: "store_params p conf ''--num-experts'' = conf ''--num-experts''"
  by (simp add: store_params_def set_size_def)

lemma validated_is_valid:
  assumes "params_positive (get_parallel_params_from_config conf)" "1 \<le> configured_world c" "validate conf c = Inr t"
  shows "topology_status (Inr t) = ''valid''"
proof -
  from validate_Inr [OF assms(3,2,1)] obtain p dp edp eps
    where "t = topology_groups (configured_world c) p dp edp eps"
      "configured_world c = np_tp p * np_pp p * np_cp p * dp" by metis
  then show ?thesis by (simp only: topology_status_def topology_groups_def Let_def sum.case topology_info.simps) simp
qed

text \<open>
  In manual mode, with the world given and positive sizes, the exit code is 0 exactly when the
  sizes divide the world: the data-parallel size of the command line is required but never
  compared with the world, so a wrong one is reported as valid.
\<close>
theorem manual_dp_is_never_checked:
  assumes "ma_tp a = Some tp" "ma_pp a = Some pp" "ma_dp a = Some dp" "ma_world a = Some w" "1 \<le> w"
    and p: "p = \<lparr>np_tp = tp, np_pp = pp, np_cp = ma_cp a, np_ep = ma_ep a, np_etp = ma_etp a\<rparr>" "params_positive p"
  shows "test_topology_validator False a env_world conf = 0 \<longleftrightarrow>
    tp * pp * ma_cp a dvd w \<and> (1 < ma_ep a \<longrightarrow> ma_ep a * ma_etp a * pp dvd w)
    \<and> (case conf ''--num-experts'' of None \<Rightarrow> True | Some n \<Rightarrow> ma_ep a dvd n)"
proof -
  let ?conf = "store_params p conf" and ?c = "\<lparr>wc_world = Some w, wc_nodes = None, wc_per_node = None\<rparr>"
  have world: "configured_world ?c = w" by (simp add: configured_world_def get_world_size_def Let_def)
  have stored: "get_parallel_params_from_config ?conf = p" by (rule stored_params [OF p(2)])
  have "topology_status (validate ?conf ?c) = ''valid'' \<longleftrightarrow> (\<exists>t. validate ?conf ?c = Inr t)"
    using validated_is_valid [of ?conf ?c] assms(5) p(2) by (auto simp: world stored topology_status_def split: sum.splits)
  also have "\<dots> \<longleftrightarrow> np_tp p * np_pp p * np_cp p dvd w \<and> (1 < np_ep p \<longrightarrow> np_ep p * np_etp p * np_pp p dvd w)
      \<and> (case conf ''--num-experts'' of None \<Rightarrow> True | Some n \<Rightarrow> np_ep p dvd n)"
    using validate_defined [of ?c p ?conf] assms(5) p(2) by (simp add: world stored stored_experts)
  finally show ?thesis
    using assms(1-4) by (simp add: test_topology_validator_def main_params_def main_world_def p(1) cong: option.case_cong)
qed

theorem manual_dp_is_never_checked_witness:
  "test_topology_validator False \<lparr>ma_world = Some 8, ma_tp = Some 2, ma_pp = Some 2, ma_dp = Some 7,
     ma_cp = 1, ma_ep = 1, ma_etp = 1\<rparr> 0 Map.empty = 0"
  using manual_dp_is_never_checked [of "\<lparr>ma_world = Some 8, ma_tp = Some 2, ma_pp = Some 2, ma_dp = Some 7,
     ma_cp = 1, ma_ep = 1, ma_etp = 1\<rparr>" 2 2 7 8 _ 0 Map.empty, OF _ _ _ _ _ refl]
  by (simp add: params_positive_def)

text \<open>When both launchers' variables are set to different ranks, a process joins with one and reports the other.\<close>

lemma ranks_may_differ:
  "reported_rank [''RANK'' \<mapsto> ''0'', ''OMPI_COMM_WORLD_RANK'' \<mapsto> ''3''] = Some 0
   \<and> joined_rank [''RANK'' \<mapsto> ''0'', ''OMPI_COMM_WORLD_RANK'' \<mapsto> ''3''] = Some 3"
  by code_simp

end
