(* ===== verification/LogSink.thy ===== *)
theory LogSink
  imports LogMonitor Operator
begin

text \<open>
  Where the log monitor's events go (\<^verbatim>\<open>monitor/log_event_sink.py\<close>): the filter of the
  fault events, the report in the operator's format, and the marker file that the launcher reads.
  The text of a report's message, the time and the environment are arguments; the outcome of a
  write is one too.
\<close>

section \<open>Fault events\<close>

definition kind_text :: "event_kind \<Rightarrow> string" where
  "kind_text k = (case k of
      ExitEvent \<Rightarrow> ''exit'' | LossEvent \<Rightarrow> ''loss'' | InfEvent \<Rightarrow> ''inf'' | IterEvent \<Rightarrow> ''iter''
    | SlowEvent \<Rightarrow> ''slow'' | HangEvent \<Rightarrow> ''hang'' | NormalEvent \<Rightarrow> ''normal'')"

definition fault_event_types :: "string list" where
  "fault_event_types = [''hang'', ''exit'', ''loss'', ''inf'', ''slow'', ''timeout'']"

definition marker_event_types :: "string list" where
  "marker_event_types = filter (\<lambda>t. t \<noteq> ''slow'') fault_event_types"

definition is_fault_event :: "log_event \<Rightarrow> bool" where
  "is_fault_event e = (kind_text (ev_kind e) \<in> set fault_event_types)"

definition fault_type_map :: "(string \<times> string) list" where
  "fault_type_map = [(''hang'', ''TrainingHang''), (''exit'', ''TrainingProcessExit''), (''loss'', ''TrainingLoss''),
     (''inf'', ''TrainingInf''), (''slow'', ''TrainingSlow''), (''timeout'', ''TrainingTimeout'')]"

definition fault_reason_map :: "(string \<times> string) list" where
  "fault_reason_map = [(''hang'', ''training_log_hang''), (''exit'', ''training_process_exit''),
     (''loss'', ''training_loss_abnormal''), (''inf'', ''training_inf_detected''),
     (''slow'', ''training_step_slow''), (''timeout'', ''training_log_timeout'')]"

definition get_or :: "(string \<times> string) list \<Rightarrow> string \<Rightarrow> string \<Rightarrow> string" where
  "get_or m key dflt = (case map_of m key of None \<Rightarrow> dflt | Some v \<Rightarrow> v)"

section \<open>The report\<close>

text \<open>\<open>_first_value\<close>: the first value that is neither missing nor empty.\<close>

fun first_value :: "string option list \<Rightarrow> string" where
  "first_value [] = []"
| "first_value (v # vs) = (case v of Some (c # cs) \<Rightarrow> c # cs | _ \<Rightarrow> first_value vs)"

text \<open>An event without data is one whose data has no key.\<close>

definition event_data :: "log_event \<Rightarrow> fault_data" where
  "event_data e = (case ev_data e of None \<Rightarrow> plain_data [] | Some d \<Rightarrow> d)"

definition detected_node :: "fault_data \<Rightarrow> string \<Rightarrow> string" where
  "detected_node d detail =
     (let n = first_value [fd_node d] in
      if detail = ''node'' then first_value [Some n, fd_info d, fd_pid d] else n)"

text \<open>\<^verbatim>\<open>env.get(key, "")\<close>.\<close>

definition env_text :: "(string \<Rightarrow> string option) \<Rightarrow> string \<Rightarrow> string" where
  "env_text env key = (case env key of None \<Rightarrow> [] | Some v \<Rightarrow> v)"

definition report_pod :: "(string \<Rightarrow> string option) \<Rightarrow> fault_data \<Rightarrow> string \<times> string" where
  "report_pod env d =
     (let detail = py_lower (fd_type d); current = env_text env ''FT_POD_NAME'';
          root_pod = (if detail = ''root_cause'' then pod_name_from_host (first_value [fd_host d]) else []);
          contextual = (if root_pod \<noteq> [] \<and> current \<noteq> [] \<and> root_pod \<noteq> current then [] else env_text env ''FT_NODE_NAME'')
      in (first_value [Some root_pod, Some current], first_value [Some (detected_node d detail), Some contextual]))"

definition report_fault_type :: "string \<Rightarrow> string \<Rightarrow> string" where
  "report_fault_type ty detail =
     (if ty = ''loss'' \<and> contains_sub ''nan'' detail then ''TrainingNaN''
      else if ty = ''exit'' \<and> detail = ''node'' then ''TrainingNodeFault''
      else if detail = ''root_cause'' then ''TrainingRootCause''
      else get_or fault_type_map ty ''TrainingFault'')"

definition report_class :: "fault_data \<Rightarrow> string \<times> int" where
  "report_class d =
     (let detail = py_lower (fd_type d) in
      if detected_node d detail \<noteq> [] then (''explicit_node'', 100)
      else if detail = ''root_cause'' then (''root_cause'', 80)
      else if detail = ''communication'' then (''communication'', 40)
      else (''generic'', 20))"

text \<open>Empty optional fields are left out of the report.\<close>

definition int_field :: "int option \<Rightarrow> json" where
  "int_field v = (case v of None \<Rightarrow> JNull | Some i \<Rightarrow> JInt i)"

definition build_k8s_fault_report ::
    "(string \<Rightarrow> string option) \<Rightarrow> string \<Rightarrow> string \<Rightarrow> log_event \<Rightarrow> report" where
  "build_k8s_fault_report env message now_text e =
     (let d = event_data e; ty = kind_text (ev_kind e); detail = py_lower (fd_type d);
          pn = report_pod env d; cls = report_class d in
      \<lparr>rp_source = ''log-monitor'', rp_type = report_fault_type ty detail, rp_pod = (fst pn, []),
       rp_pod_ns = (env_text env ''FT_POD_NAMESPACE'', []), rp_node = (snd pn, []),
       rp_job = (env_text env ''FT_JOB_NAME'', []), rp_kind = (env_text env ''FT_WORKLOAD_KIND'', []),
       rp_role = (env_text env ''FT_REPLICA_ROLE'', []), rp_host = first_value [fd_host d],
       rp_rank = (case fd_rank d of None \<Rightarrow> JNull | Some r \<Rightarrow> r), rp_local_rank = int_field (fd_local_rank d),
       rp_exit_code = int_field (fd_exit d),
       rp_severity = Some (case env ''LOG_MONITOR_K8S_FAULT_SEVERITY'' of None \<Rightarrow> ''Critical'' | Some s \<Rightarrow> s),
       rp_reason = Some (get_or fault_reason_map ty ''log_monitor_fault''),
       rp_message = Some message, rp_observed = Some now_text, rp_class = Some (fst cls),
       rp_confidence = JInt (snd cls),
       rp_action = Some \<lparr>want_taint = Some (detected_node d detail \<noteq> [] \<or> detail = ''root_cause''),
         want_delete_pod = Some False, want_delete_pods = Some False\<rparr>\<rparr>)"

section \<open>The sink\<close>

record k8s_sink =
  ks_audit :: "report list"
  ks_marker :: "report option"

text \<open>A marker that exists is kept.\<close>

definition write_marker :: "bool \<Rightarrow> report \<Rightarrow> k8s_sink \<Rightarrow> bool \<times> k8s_sink" where
  "write_marker ok r s =
     (if ks_marker s \<noteq> None then (False, s)
      else if ok then (True, s\<lparr> ks_marker := Some r \<rparr>) else (False, s))"

record sink_write =
  sw_env :: "string \<Rightarrow> string option"
  sw_message :: string
  sw_now :: string
  sw_audit_ok :: bool
  sw_marker_ok :: bool

definition publish_k8s :: "sink_write \<Rightarrow> log_event \<Rightarrow> k8s_sink \<Rightarrow> k8s_sink" where
  "publish_k8s w e s =
     (if \<not> is_fault_event e then s
      else
        let r = build_k8s_fault_report (sw_env w) (sw_message w) (sw_now w) e;
            s1 = (if sw_audit_ok w then s\<lparr> ks_audit := ks_audit s @ [r] \<rparr> else s)
        in if kind_text (ev_kind e) \<in> set marker_event_types then snd (write_marker (sw_marker_ok w) r s1) else s1)"

fun publish_all :: "(sink_write \<times> log_event) list \<Rightarrow> k8s_sink \<Rightarrow> k8s_sink" where
  "publish_all [] s = s"
| "publish_all ((w, e) # es) s = publish_all es (publish_k8s w e s)"

datatype sink_kind = BusSink | K8sSink | FeishuSink

definition create_log_event_sink :: "string \<Rightarrow> bool \<Rightarrow> sink_kind" where
  "create_log_event_sink mode has_bus =
     (let m = py_lower mode in
      if m \<in> {''fault_tolerance'', ''cluster'', ''event_bus''} then BusSink
      else if m = ''k8s'' then K8sSink
      else if m = ''standalone'' then FeishuSink
      else if has_bus then BusSink else FeishuSink)"

section \<open>The first fault is the one the launcher sees\<close>

lemma publish_k8s_marker:
  "ks_marker (publish_k8s w e s) =
    (if ks_marker s = None \<and> kind_text (ev_kind e) \<in> set marker_event_types \<and> sw_marker_ok w
     then Some (build_k8s_fault_report (sw_env w) (sw_message w) (sw_now w) e) else ks_marker s)"
  by (auto simp: publish_k8s_def write_marker_def Let_def is_fault_event_def marker_event_types_def)

definition writes_marker :: "sink_write \<times> log_event \<Rightarrow> bool" where
  "writes_marker we \<longleftrightarrow> kind_text (ev_kind (snd we)) \<in> set marker_event_types \<and> sw_marker_ok (fst we)"

lemma published_marker:
  "ks_marker (publish_all es s) =
    (case ks_marker s of Some r \<Rightarrow> Some r
     | None \<Rightarrow> map_option (\<lambda>(w, e). build_k8s_fault_report (sw_env w) (sw_message w) (sw_now w) e)
         (List.find writes_marker es))"
proof (induction es arbitrary: s)
  case (Cons we es)
  obtain w e where "we = (w, e)" by (cases we)
  then show ?case using Cons [of "publish_k8s w e s"]
    by (auto simp: publish_k8s_marker writes_marker_def split: option.splits)
qed (auto split: option.splits)

text \<open>
  The marker the launcher acts on is the report of the first fault whose marker could be
  written, whatever is published later: slow iterations are never one, and a root cause or an
  explicit node that is logged after a hang was reported does not reach the operator.
\<close>
theorem marker_is_first_fault:
  "ks_marker (publish_all es \<lparr>ks_audit = [], ks_marker = None\<rparr>) =
    map_option (\<lambda>(w, e). build_k8s_fault_report (sw_env w) (sw_message w) (sw_now w) e)
      (List.find (\<lambda>(w, e). ev_kind e \<in> {HangEvent, ExitEvent, LossEvent, InfEvent} \<and> sw_marker_ok w) es)"
proof -
  have "kind_text k \<in> set marker_event_types \<longleftrightarrow> k \<in> {HangEvent, ExitEvent, LossEvent, InfEvent}" for k
    by (cases k) (simp_all add: marker_event_types_def fault_event_types_def kind_text_def)
  then have "writes_marker = (\<lambda>(w, e). ev_kind e \<in> {HangEvent, ExitEvent, LossEvent, InfEvent} \<and> sw_marker_ok w)"
    by (simp add: writes_marker_def fun_eq_iff)
  then show ?thesis by (simp add: published_marker)
qed

section \<open>The operator's view of a report\<close>

lemma class_texts: "py_lower ''explicit_node'' = ''explicit_node''" "py_lower ''root_cause'' = ''root_cause''"
  "py_lower ''communication'' = ''communication''" "py_lower ''generic'' = ''generic''"
  by code_simp+

lemma report_fields [simp]:
  "rp_class (build_k8s_fault_report env m now e) = Some (fst (report_class (event_data e)))"
  "rp_host (build_k8s_fault_report env m now e) = first_value [fd_host (event_data e)]"
  "rp_pod (build_k8s_fault_report env m now e) = (fst (report_pod env (event_data e)), [])"
  "rp_node (build_k8s_fault_report env m now e) = (snd (report_pod env (event_data e)), [])"
  "rp_pod_ns (build_k8s_fault_report env m now e) = (env_text env ''FT_POD_NAMESPACE'', [])"
  "rp_job (build_k8s_fault_report env m now e) = (env_text env ''FT_JOB_NAME'', [])"
  "rp_rank (build_k8s_fault_report env m now e) = (case fd_rank (event_data e) of None \<Rightarrow> JNull | Some r \<Rightarrow> r)"
  by (simp_all add: build_k8s_fault_report_def Let_def)

lemma operator_class:
  "infer_fault_class (report_event c (build_k8s_fault_report env m now e) pod node t) = fst (report_class (event_data e))"
  by (auto simp: infer_fault_class_def report_event_def report_class_def Let_def class_texts fault_class_priority_def)

text \<open>A fault of type node names the node in its text.\<close>

definition names_node :: "fault_data \<Rightarrow> bool" where
  "names_node d \<longleftrightarrow> (py_lower (fd_type d) = ''node'' \<longrightarrow> first_value [fd_node d, fd_info d, fd_pid d] \<noteq> [])"

lemma first_value_empty: "first_value vs = [] \<longleftrightarrow> (\<forall>v\<in>set vs. v \<in> {None, Some []})"
  by (induction vs) (auto split: option.splits list.splits)

lemma class_of_priority:
  "fst (report_class (fm_data f)) = (if priority f = 300 \<and> names_node (fm_data f) then ''explicit_node''
    else if priority f = 200 then ''root_cause'' else if priority f = 100 then ''communication'' else ''generic'')"
proof -
  have node: "detected_node (fm_data f) (py_lower (fd_type (fm_data f))) \<noteq> [] \<longleftrightarrow> priority f = 300 \<and> names_node (fm_data f)"
    by (auto simp: detected_node_def Let_def names_node_def priority_def split: option.splits list.splits if_splits)
  have "priority f = 200 \<longleftrightarrow> priority f \<noteq> 300 \<and> py_lower (fd_type (fm_data f)) = ''root_cause''"
    "priority f = 100 \<longleftrightarrow> priority f \<noteq> 300 \<and> py_lower (fd_type (fm_data f)) = ''communication''"
    "priority f = 300 \<and> \<not> names_node (fm_data f) \<longrightarrow> py_lower (fd_type (fm_data f)) = ''node''"
    by (auto simp: priority_def names_node_def Let_def split: option.splits list.splits if_splits)
  then show ?thesis using node by (auto simp: report_class_def Let_def)
qed

text \<open>The rank the operator gives to a fault that the log monitor publishes and the sink reports.\<close>

definition operator_rank :: "op_cfg \<Rightarrow> (string \<rightharpoonup> string) \<Rightarrow> string \<Rightarrow> string \<Rightarrow> string \<Rightarrow> string \<Rightarrow> string \<Rightarrow> monitor \<Rightarrow> event_kind
    \<Rightarrow> fault_msg \<Rightarrow> int" where
  "operator_rank c env marker now pod node t mo kind f =
     class_priority (report_event c (build_k8s_fault_report env marker now (fault_event mo kind (fm_data f))) pod node t)"

lemma operator_rank_of_priority:
  "operator_rank c env marker now pod node t mo kind f =
     (if priority f = 300 \<and> names_node (fm_data f) \<or> priority f = 200 \<or> priority f = 100 then priority f else 0)"
  unfolding operator_rank_def class_priority_def operator_class
  by (auto simp: event_data_def fault_event_def class_of_priority fault_class_priority_def)

text \<open>
  C26: Where the operator ranks a fault of the log monitor.  A fault that names a node, a root
  cause and a communication fault keep the monitor's rank of 300, 200 and 100; every other fault
  gets 0, among them one of type node without any text and the process and rank faults that the
  monitor ranks 125 and 150.  So the operator keeps the monitor's order above 150, and inverts it
  between a process or rank fault and a communication fault.
\<close>
theorem operator_rank_of_monitor_fault:
  fixes c env marker now pod node t mo kind
  defines "rank \<equiv> operator_rank c env marker now pod node t mo kind"
  shows "rank f = (if priority f = 300 \<and> names_node (fm_data f) \<or> priority f = 200 \<or> priority f = 100 then priority f else 0)
    \<and> (200 \<le> priority f \<and> names_node (fm_data f) \<and> priority g < priority f \<longrightarrow> rank g < rank f)
    \<and> (priority f \<in> {125, 150} \<and> priority g = 100 \<longrightarrow> priority g < priority f \<and> rank f < rank g)"
proof -
  have "priority x \<in> {300, 200, 150, 125, 100, 0, - 1}" for x
    by (simp add: priority_def Let_def)
  from this [of f] this [of g] show ?thesis unfolding rank_def operator_rank_of_priority by auto
qed

definition sample_node_fault :: fault_msg where
  "sample_node_fault = \<lparr>fm_type = ''exit'', fm_data = (plain_data ''node'')\<lparr> fd_info := Some ''node7'' \<rparr>\<rparr>"

theorem operator_rank_of_monitor_fault_witness:
  "operator_rank sample_cfg Map.empty ''m'' ''t'' ''p'' ''n'' ''t'' (new_monitor 8 0) ExitEvent (traceback_fault 3)
     < operator_rank sample_cfg Map.empty ''m'' ''t'' ''p'' ''n'' ''t'' (new_monitor 8 0) ExitEvent sample_node_fault"
proof -
  have ty: "py_lower ''node'' = ''node''" "py_lower ''proc'' = ''proc''" by code_simp+
  have f: "priority sample_node_fault = 300" "names_node (fm_data sample_node_fault)"
    by (simp_all add: sample_node_fault_def priority_def plain_data_def ty Let_def names_node_def)
  have "priority (traceback_fault 3) \<le> 125"
    by (simp add: traceback_fault_def priority_def exit_data_def plain_data_def ty Let_def)
  then show ?thesis
    using operator_rank_of_monitor_fault [where f = sample_node_fault and g = "traceback_fault 3", THEN conjunct2, THEN conjunct1] f by simp
qed

section \<open>Where the operator looks for the fault\<close>

lemma first_value_or:
  "first_value (None # vs) = first_value vs" "first_value (Some s # vs) = or_else s (first_value vs)"
  by (simp_all add: or_else_def split: list.splits)

lemma or_else_simps: "or_else [] b = b" "or_else a [] = a" "a \<noteq> [] \<Longrightarrow> or_else a b = a" "pick (a, []) = a"
  by (simp_all add: or_else_def pick_def)

lemma locate_host_report:
  assumes "rp_host r \<noteq> []" "pod_name_from_host (rp_host r) \<noteq> []"
  shows "locate_report c k r h =
    (if pick (rp_node r) = [] then map_prod (Pair (pod_name_from_host (rp_host r))) id
       (resolve_pod_node k (pick (rp_pod_ns r)) (pod_name_from_host (rp_host r)) h)
     else ((pod_name_from_host (rp_host r), pick (rp_node r)), h))"
  using assms by (auto simp: locate_report_def Let_def split: prod.splits)

lemma locate_rank_report:
  assumes "rp_host r = []" "optional_int (rp_rank r) = Some i"
    and "resolve_pod_from_rank c k (pick (rp_pod_ns r)) (pick (rp_job r)) (Some i) h = ((p, n), h1)" "p \<noteq> []" "n \<noteq> []"
  shows "locate_report c k r h = ((p, n), h1)"
  unfolding locate_report_def Let_def assms(2) assms(3) using assms(1,4,5) by (simp add: or_else_simps)

lemma root_cause_pod:
  assumes "py_lower (fd_type d) = ''root_cause''" "fd_host d = Some host" "pod_name_from_host host \<noteq> []"
  shows "report_pod env d = (pod_name_from_host host,
    or_else (first_value [fd_node d])
      (if env_text env ''FT_POD_NAME'' \<in> {[], pod_name_from_host host} then env_text env ''FT_NODE_NAME'' else []))"
proof -
  have "detected_node d ''root_cause'' = first_value [fd_node d]" by (simp add: detected_node_def Let_def)
  then show ?thesis
    using assms(3) unfolding report_pod_def Let_def assms(1,2)
    by (simp add: first_value_or or_else_simps del: first_value.simps(2))
qed

text \<open>
  A root cause with a host is attributed to the pod that the host names.  Its node is the node
  the log names, or the reporter's own node when the reporter is that pod or does not know its own
  pod, and otherwise the node on which the operator finds the pod.
\<close>
theorem root_cause_goes_to_its_pod:
  assumes "ev_data e = Some d" "py_lower (fd_type d) = ''root_cause''" "fd_host d = Some host" "fd_node d = None"
    and "pod = pod_name_from_host host" "pod \<noteq> []"
    and "own = env_text env ''FT_POD_NAME''" "node = env_text env ''FT_NODE_NAME''"
  shows "locate_report c k (build_k8s_fault_report env m now e) h =
    (if own \<in> {[], pod} \<and> node \<noteq> [] then ((pod, node), h)
     else map_prod (Pair pod) id (resolve_pod_node k (env_text env ''FT_POD_NAMESPACE'') pod h))"
proof -
  let ?r = "build_k8s_fault_report env m now e"
  have d: "event_data e = d" using assms(1) by (simp add: event_data_def)
  have "host \<noteq> []" using assms(5,6) by (auto simp: pod_name_from_host_def py_strip_def)
  then have host: "rp_host ?r = host"
    using assms(3) by (simp add: d first_value_or or_else_simps del: first_value.simps(2))
  have "pick (rp_node ?r) = (if own \<in> {[], pod} then node else [])"
    using root_cause_pod [OF assms(2,3)] assms(4-8) by (simp add: d or_else_simps)
  moreover have "pod_name_from_host host \<noteq> []" using assms(5,6) by simp
  ultimately show ?thesis
    using locate_host_report [of ?r c k h] \<open>host \<noteq> []\<close> assms(5) unfolding host by (auto simp: or_else_simps)
qed

text \<open>
  A fault without host that carries both a node from the log and a rank is attributed to the
  pod and the node of the rank whenever the operator finds a pod for it: the node that the log
  names, the strongest evidence by the sink's own account, is then dropped.
\<close>
theorem rank_overrides_the_logged_node:
  assumes "ev_data e = Some d" "fd_host d = None" "fd_rank d = Some r" "optional_int r = Some i"
    and "resolve_pod_from_rank c k (env_text env ''FT_POD_NAMESPACE'') (env_text env ''FT_JOB_NAME'') (Some i) h = ((p, n), h1)"
    and "p \<noteq> []" "n \<noteq> []"
  shows "locate_report c k (build_k8s_fault_report env m now e) h = ((p, n), h1)"
  by (rule locate_rank_report) (use assms in \<open>simp_all add: event_data_def or_else_simps\<close>)

definition sample_env :: "string \<Rightarrow> string option" where
  "sample_env = [''FT_POD_NAME'' \<mapsto> ''job-worker-1'', ''FT_NODE_NAME'' \<mapsto> ''n9'',
     ''FT_POD_NAMESPACE'' \<mapsto> ''train'', ''FT_JOB_NAME'' \<mapsto> ''job'']"

definition sample_root_cause :: log_event where
  "sample_root_cause = (simple_event ExitEvent)\<lparr> ev_data := Some ((plain_data ''root_cause'')
     \<lparr> fd_host := Some ''job-worker-0.train.svc'', fd_rank := Some (JInt 3) \<rparr>) \<rparr>"

theorem root_cause_goes_to_its_pod_witness:
  "fst (locate_report sample_cfg sample_kube (build_k8s_fault_report sample_env ''m'' ''t'' sample_root_cause) [])
    = (''job-worker-0'', ''n1'')"
proof -
  have "pod_name_from_host ''job-worker-0.train.svc'' = ''job-worker-0''" "py_lower ''root_cause'' = ''root_cause''"
    by code_simp+
  then show ?thesis
    by (simp add: root_cause_goes_to_its_pod [OF _ _ _ _ refl _ refl refl] sample_root_cause_def plain_data_def
        sample_env_def env_text_def resolve_pod_node_def sample_kube_def call_def)
qed

definition sample_nan :: log_event where
  "sample_nan = (simple_event LossEvent)\<lparr> ev_data := Some ((plain_data ''NaN'')
     \<lparr> fd_rank := Some (JStr ''3''), fd_node := Some ''n5'' \<rparr>) \<rparr>"

theorem rank_overrides_the_logged_node_witness:
  "snd (report_pod sample_env (event_data sample_nan)) = ''n5''
   \<and> fst (locate_report sample_cfg sample_kube (build_k8s_fault_report sample_env ''m'' ''t'' sample_nan) [])
    = (''job-master-0'', ''n1'')"
proof
  show "snd (report_pod sample_env (event_data sample_nan)) = ''n5''" by code_simp
  have r: "optional_int (JStr ''3'') = Some 3" by code_simp
  have "resolve_pod_from_rank sample_cfg sample_kube ''train'' ''job'' (Some 3) [] =
      ((''job-master-0'', ''n1''), [ListPodsOfJob ''train'' ''job'' False])"
    by code_simp
  then show "fst (locate_report sample_cfg sample_kube (build_k8s_fault_report sample_env ''m'' ''t'' sample_nan) [])
    = (''job-master-0'', ''n1'')"
    using rank_overrides_the_logged_node [of sample_nan "the (ev_data sample_nan)" "JStr ''3''" 3 sample_cfg sample_kube sample_env "[]"
        "''job-master-0''" "''n1''" _ "''m''" "''t''"] r
    by (simp add: sample_nan_def plain_data_def sample_env_def env_text_def)
qed

end
