(* ===== verification/JsonTree.thy ===== *)
theory JsonTree
  imports StackModel
begin

text \<open>
  JSON documents as the sources handle them after \<^verbatim>\<open>json.load\<close>: trees of Python
  values, with the conversions \<^verbatim>\<open>str\<close>, \<^verbatim>\<open>bool\<close> and \<^verbatim>\<open>int\<close>
  and \<^verbatim>\<open>dict.get\<close>.  Objects are association lists; numbers are integers; texts are ASCII.
\<close>

section \<open>JSON documents\<close>

datatype jval = JvNull | JvBool bool | JvNum int | JvText string | JvList "jval list" | JvObj "(string \<times> jval) list"

type_synonym fields = "(string \<times> jval) list"

text \<open>\<^verbatim>\<open>repr\<close> of an ASCII string.\<close>

definition hex_digit :: "nat \<Rightarrow> char" where
  "hex_digit n = (if n < 10 then char_of (48 + n) else char_of (87 + n))"

definition repr_char :: "char \<Rightarrow> char \<Rightarrow> string" where
  "repr_char q c =
     (if c = q \<or> c = CHR 0x5C then [CHR 0x5C, c]
      else if c = CHR 0x0A then [CHR 0x5C, CHR ''n'']
      else if c = CHR 0x0D then [CHR 0x5C, CHR ''r'']
      else if c = CHR 0x09 then [CHR 0x5C, CHR ''t'']
      else if c < CHR '' '' \<or> c = CHR 0x7F
        then [CHR 0x5C, CHR ''x'', hex_digit (of_char c div 16), hex_digit (of_char c mod 16)]
      else [c])"

definition repr_text :: "string \<Rightarrow> string" where
  "repr_text s =
     (let q = (if CHR 0x27 \<in> set s \<and> CHR 0x22 \<notin> set s then CHR 0x22 else CHR 0x27)
      in q # concat (map (repr_char q) s) @ [q])"

fun py_repr :: "jval \<Rightarrow> string" where
  "py_repr JvNull = ''None''"
| "py_repr (JvBool b) = (if b then ''True'' else ''False'')"
| "py_repr (JvNum n) = show_int n"
| "py_repr (JvText s) = repr_text s"
| "py_repr (JvList vs) = ''['' @ join_with '', '' (map py_repr vs) @ '']''"
| "py_repr (JvObj kvs) = ''{'' @ join_with '', '' (map (\<lambda>kv. repr_text (fst kv) @ '': '' @ py_repr (snd kv)) kvs) @ ''}''"

definition py_str :: "jval \<Rightarrow> string" where
  "py_str v = (case v of JvText s \<Rightarrow> s | _ \<Rightarrow> py_repr v)"

definition py_true :: "jval \<Rightarrow> bool" where
  "py_true v = (v \<notin> {JvNull, JvBool False, JvNum 0, JvText [], JvList [], JvObj []})"

text \<open>\<^verbatim>\<open>int(v)\<close>; None is an exception.\<close>

definition jval_int :: "jval \<Rightarrow> int option" where
  "jval_int v = (case v of JvNum n \<Rightarrow> Some n | JvBool b \<Rightarrow> Some (if b then 1 else 0) | JvText s \<Rightarrow> py_int s | _ \<Rightarrow> None)"

definition as_fields :: "jval \<Rightarrow> fields option" where
  "as_fields v = (case v of JvObj d \<Rightarrow> Some d | _ \<Rightarrow> None)"

definition get_field :: "fields \<Rightarrow> string \<Rightarrow> jval \<Rightarrow> jval" where
  "get_field d key dflt = (case map_of d key of None \<Rightarrow> dflt | Some v \<Rightarrow> v)"

end
