(* ===== verification/Webhook.thy ===== *)
theory Webhook
  imports JsonTree "HOL-Library.Monad_Syntax"
begin

text \<open>
  The admission webhook (\<^verbatim>\<open>hygon_ft/webhook/server.py\<close>): it rewrites the pod templates of an
  enabled PyTorchJob or Volcano job so that the launcher wraps the training command, and answers
  with a JSON patch.  JSON objects are association lists in insertion order; Python compares
  dictionaries without regard to order, which makes no difference here because every change keeps
  the order of the keys it finds.  None stands for an exception, which the handler turns into a
  refusal.
\<close>

section \<open>Reading and writing objects\<close>

text \<open>A missing or ill-typed entry becomes an empty one.\<close>

definition ensure_dict :: "fields \<Rightarrow> string \<Rightarrow> fields" where
  "ensure_dict parent key = (case map_of parent key of Some (JvObj d) \<Rightarrow> d | _ \<Rightarrow> [])"

definition ensure_list :: "fields \<Rightarrow> string \<Rightarrow> jval list" where
  "ensure_list parent key = (case map_of parent key of Some (JvList l) \<Rightarrow> l | _ \<Rightarrow> [])"

definition set_dict :: "string \<Rightarrow> fields \<Rightarrow> fields \<Rightarrow> fields" where
  "set_dict key d parent = dict_update key (JvObj d) parent"

definition set_text :: "string \<Rightarrow> string \<Rightarrow> fields \<Rightarrow> fields" where
  "set_text key s parent = dict_update key (JvText s) parent"

section \<open>Switches\<close>

definition ENABLE_KEY :: string where "ENABLE_KEY = ''ft.hygon.io/enabled''"
definition INJECTED_KEY :: string where "INJECTED_KEY = ''ft.hygon.io/injected''"
definition JOB_LABEL :: string where "JOB_LABEL = ''ft.hygon.io/job-name''"
definition DEFAULT_LAUNCHER_PATH :: string where "DEFAULT_LAUNCHER_PATH = ''/opt/hygon-ft/ft-launcher''"

definition truthy :: "jval \<Rightarrow> bool" where
  "truthy v = (py_lower (py_str v) \<in> {''true'', ''1'', ''yes'', ''on''})"

text \<open>The labels are only looked at when the annotation does not enable the workload.\<close>

definition workload_enabled :: "fields \<Rightarrow> bool option" where
  "workload_enabled metadata =
     do {
       annotations \<leftarrow> as_fields (get_field metadata ''annotations'' (JvObj []));
       if truthy (get_field annotations ENABLE_KEY (JvText ''false'')) then Some True
       else do {
         labels \<leftarrow> as_fields (get_field metadata ''labels'' (JvObj []));
         Some (truthy (get_field labels ENABLE_KEY (JvText ''false'')))
       }
     }"

definition monitor_enabled_for_role :: "string \<Rightarrow> fields \<Rightarrow> bool option" where
  "monitor_enabled_for_role role annotations =
     (case get_field annotations ''ft.hygon.io/log-monitor-roles'' (JvText ''all'') of
        JvText tx \<Rightarrow>
          let roles = map (\<lambda>r. py_lower (py_strip r)) (filter (\<lambda>r. py_strip r \<noteq> []) (split_on CHR '','' tx)) in
          Some (roles = [] \<or> ''*'' \<in> set roles \<or> ''all'' \<in> set roles \<or> py_lower role \<in> set roles)
      | _ \<Rightarrow> None)"

section \<open>Lists of named entries\<close>

definition update_fields :: "fields \<Rightarrow> fields \<Rightarrow> fields" where
  "update_fields d item = fold (\<lambda>(k, v). dict_update k v) item d"

text \<open>The entries before the one that is replaced must be objects.\<close>

fun upsert_by_name :: "string \<Rightarrow> fields \<Rightarrow> jval list \<Rightarrow> jval list option" where
  "upsert_by_name name item [] = Some [JvObj item]"
| "upsert_by_name name item (e # es) =
     do {
       d \<leftarrow> as_fields e;
       if map_of d ''name'' = Some (JvText name) then Some (JvObj (update_fields d item) # es)
       else do { rest \<leftarrow> upsert_by_name name item es; Some (e # rest) }
     }"

text \<open>An environment variable with a value, or with the path of a field of the pod.\<close>

definition env_value :: "jval \<Rightarrow> string \<times> jval" where
  "env_value v = (''value'', JvText (py_str v))"

definition env_field :: "string \<Rightarrow> string \<times> jval" where
  "env_field path = (''valueFrom'', JvObj [(''fieldRef'', JvObj [(''fieldPath'', JvText path)])])"

definition add_env :: "string \<Rightarrow> string \<times> jval \<Rightarrow> fields \<Rightarrow> fields option" where
  "add_env name entry container =
     do {
       env \<leftarrow> upsert_by_name name [(''name'', JvText name), entry] (ensure_list container ''env'');
       Some (dict_update ''env'' (JvList env) container)
     }"

fun add_envs :: "(string \<times> string \<times> jval) list \<Rightarrow> fields \<Rightarrow> fields option" where
  "add_envs [] container = Some container"
| "add_envs ((name, entry) # es) container = do { c \<leftarrow> add_env name entry container; add_envs es c }"

section \<open>Injecting the launcher\<close>

definition ann :: "fields \<Rightarrow> string \<Rightarrow> string \<Rightarrow> jval" where
  "ann annotations key dflt = get_field annotations (''ft.hygon.io/'' @ key) (JvText dflt)"

text \<open>The image is read from the environment of the webhook when it starts.\<close>

definition runtime_image :: "(string \<Rightarrow> string option) \<Rightarrow> string" where
  "runtime_image env = (case env ''FT_RUNTIME_IMAGE'' of None \<Rightarrow> ''hygon/ft-controller:latest'' | Some v \<Rightarrow> v)"

text \<open>The volume and the init container that provide the default launcher.\<close>

definition bin_volume :: fields where
  "bin_volume = [(''name'', JvText ''hygon-ft-bin''), (''emptyDir'', JvObj [])]"

definition bin_mount :: fields where
  "bin_mount = [(''name'', JvText ''hygon-ft-bin''), (''mountPath'', JvText ''/opt/hygon-ft''), (''readOnly'', JvBool True)]"

definition init_container :: "(string \<Rightarrow> string option) \<Rightarrow> fields \<Rightarrow> fields" where
  "init_container env annotations =
     [(''name'', JvText ''hygon-ft-init''), (''image'', ann annotations ''runtime-image'' (runtime_image env)),
      (''imagePullPolicy'', ann annotations ''runtime-image-pull-policy'' ''IfNotPresent''),
      (''command'', JvList [JvText ''bash'', JvText ''-lc'']),
      (''args'', JvList [JvText ''cp /opt/hygon-ft/ft-launcher /hygon-ft-bin/ft-launcher && chmod +x /hygon-ft-bin/ft-launcher'']),
      (''volumeMounts'', JvList [JvObj [(''name'', JvText ''hygon-ft-bin''), (''mountPath'', JvText ''/hygon-ft-bin'')]])]"

definition upsert_in :: "string \<Rightarrow> string \<Rightarrow> fields \<Rightarrow> fields \<Rightarrow> fields option" where
  "upsert_in key name item parent =
     do { l \<leftarrow> upsert_by_name name item (ensure_list parent key); Some (dict_update key (JvList l) parent) }"

text \<open>The first container of a known name, otherwise the first one.\<close>

fun find_target :: "nat \<Rightarrow> jval list \<Rightarrow> nat option" where
  "find_target i [] = Some 0"
| "find_target i (c # cs) =
     do {
       d \<leftarrow> as_fields c;
       (case get_field d ''name'' JvNull of
          JvList l \<Rightarrow> None
        | JvObj kvs \<Rightarrow> None
        | n \<Rightarrow> if n \<in> {JvText ''pytorch'', JvText ''training'', JvText ''trainer''} then Some i
               else find_target (Suc i) cs)
     }"

text \<open>The environment of the launcher, in the order in which it is added.\<close>

definition log_env :: "fields \<Rightarrow> (string \<times> string \<times> jval) list" where
  "log_env annotations =
     (let dir = get_field annotations ''ft.hygon.io/log-dir'' JvNull; file = get_field annotations ''ft.hygon.io/log-file'' JvNull in
      (if py_true dir then [(''FT_LOG_DIR'', env_value dir)] else [])
      @ (if py_true file then [(''FT_LOG_FILE'', env_value file)]
         else if \<not> py_true dir then [(''FT_LOG_FILE'', env_value (JvText ''/tmp/hygon-ft-train.log''))] else []))"

definition launcher_env ::
    "string \<Rightarrow> jval \<Rightarrow> jval \<Rightarrow> fields \<Rightarrow> string \<Rightarrow> (string \<times> string \<times> jval) list" where
  "launcher_env role replicas job annotations kind =
     [(''FT_ENABLE'', env_value (JvText ''true'')), (''FT_JOB_NAME'', env_value job),
      (''FT_WORKLOAD_KIND'', env_value (JvText kind)), (''FT_REPLICA_ROLE'', env_value (JvText role)),
      (''FT_REPLICA_COUNT'', env_value replicas), (''FT_POD_NAME'', env_field ''metadata.name''),
      (''FT_POD_UID'', env_field ''metadata.uid''), (''FT_POD_NAMESPACE'', env_field ''metadata.namespace''),
      (''FT_NODE_NAME'', env_field ''spec.nodeName'')]
     @ log_env annotations
     @ [(''FT_FAULT_MARKER_FILE'', env_value (ann annotations ''fault-marker-file'' ''/tmp/hygon-ft-fault.json'')),
      (''FT_FAULT_EVENT_ENABLED'', env_value (ann annotations ''fault-event-enabled'' ''true'')),
      (''FT_FAULT_REPORT_URL'', env_value (ann annotations ''fault-report-url''
         ''http://ft-operator.hygon-ft.svc.cluster.local:8080/report'')),
      (''FT_EXIT_AFTER_FAULT_EVENT_REPORT'', env_value (ann annotations ''exit-after-fault-event-report'' ''true'')),
      (''FT_FAULT_EVENT_ACK_TIMEOUT_SECONDS'', env_value (ann annotations ''fault-event-ack-timeout-seconds'' ''30'')),
      (''FT_FAULT_EVENT_ACK_INTERVAL_SECONDS'', env_value (ann annotations ''fault-event-ack-interval-seconds'' ''1'')),
      (''FT_SCAN_INTERVAL_SECONDS'', env_value (ann annotations ''scan-interval-seconds'' ''10''))]"

definition monitor_env :: "string \<Rightarrow> fields \<Rightarrow> bool \<Rightarrow> (string \<times> string \<times> jval) list option" where
  "monitor_env role annotations last_group =
     (let cmd = get_field annotations ''ft.hygon.io/log-monitor-command'' JvNull in
      if \<not> py_true cmd then Some []
      else do {
        enabled \<leftarrow> monitor_enabled_for_role role annotations;
        Some (if enabled then
          [(''FT_EXTERNAL_MONITOR_CMD'', env_value cmd),
           (''LOG_MONITOR_ENABLE_NO_UPDATE'', env_value (JvText (if last_group then ''true'' else ''false''))),
           (''LOG_MONITOR_LAST_NODE_ONLY'', env_value (JvText ''true''))]
          @ (if py_lower role \<noteq> ''master'' then [(''ENABLE_REGULAR_NOTIFY'', env_value (JvText ''false''))] else [])
          else [])
      })"

text \<open>Iterating over a value that should be a list; numbers and null cannot be iterated.\<close>

definition iter_items :: "jval \<Rightarrow> jval list option" where
  "iter_items v = (case v of JvList l \<Rightarrow> Some l | JvText s \<Rightarrow> Some (map (\<lambda>c. JvText [c]) s)
     | JvObj d \<Rightarrow> Some (map (\<lambda>kv. JvText (fst kv)) d) | _ \<Rightarrow> None)"

definition has_suffix :: "string \<Rightarrow> string \<Rightarrow> bool" where
  "has_suffix suffix s = is_prefix_of (rev suffix) (rev s)"

definition is_launcher :: "jval \<Rightarrow> bool" where
  "is_launcher v = has_suffix ''ft-launcher'' (rev (dropWhile (\<lambda>c. c = CHR ''/'') (rev (py_str v))))"

definition list_items :: "jval \<Rightarrow> jval list" where
  "list_items v = (case v of JvList l \<Rightarrow> l | _ \<Rightarrow> [])"

definition wrap_command :: "jval \<Rightarrow> jval \<Rightarrow> fields \<Rightarrow> fields option" where
  "wrap_command interpreter launcher container =
     (let command = get_field container ''command'' (JvList []); args = get_field container ''args'' (JvList []);
          original = list_items command @ list_items args
      in do {
        items \<leftarrow> iter_items command;
        Some (if original \<noteq> [] \<and> \<not> list_ex is_launcher items then
          dict_update ''args'' (JvList (JvText ''--'' # original))
            (dict_update ''command'' (JvList (if py_true interpreter then [interpreter, launcher] else [launcher])) container)
          else container)
      })"

definition inject_container ::
    "string \<Rightarrow> jval \<Rightarrow> jval \<Rightarrow> fields \<Rightarrow> string \<Rightarrow> bool \<Rightarrow> fields \<Rightarrow> fields option" where
  "inject_container role replicas job annotations kind last_group container0 =
     (let inject = truthy (ann annotations ''inject-launcher'' ''true'');
          launcher = ann annotations ''launcher-path'' DEFAULT_LAUNCHER_PATH;
          interpreter = ann annotations ''launcher-interpreter'' []
      in do {
        c1 \<leftarrow> (if inject \<and> launcher = JvText DEFAULT_LAUNCHER_PATH
               then upsert_in ''volumeMounts'' ''hygon-ft-bin'' bin_mount container0 else Some container0);
        c2 \<leftarrow> add_envs (launcher_env role replicas job annotations kind) c1;
        menv \<leftarrow> monitor_env role annotations last_group;
        c3 \<leftarrow> add_envs menv c2;
        if inject then wrap_command interpreter launcher c3 else Some c3
      })"

text \<open>The pod template's metadata.\<close>

definition inject_metadata :: "string \<Rightarrow> jval \<Rightarrow> fields \<Rightarrow> fields" where
  "inject_metadata role job metadata =
     (let annotations = set_text INJECTED_KEY ''true'' (ensure_dict metadata ''annotations'');
          labels = set_text ''ft.hygon.io/replica-role'' (py_lower role)
            (dict_update JOB_LABEL job (set_text ENABLE_KEY ''true'' (ensure_dict metadata ''labels'')))
      in set_dict ''labels'' labels (set_dict ''annotations'' annotations metadata))"

definition inject_pod_spec ::
    "(string \<Rightarrow> string option) \<Rightarrow> string \<Rightarrow> jval \<Rightarrow> jval \<Rightarrow> fields \<Rightarrow> string \<Rightarrow> bool \<Rightarrow> fields \<Rightarrow> fields option" where
  "inject_pod_spec env role replicas job annotations kind last_group spec0 =
     do {
       spec1 \<leftarrow> (if truthy (ann annotations ''inject-launcher'' ''true'')
                   \<and> ann annotations ''launcher-path'' DEFAULT_LAUNCHER_PATH = JvText DEFAULT_LAUNCHER_PATH
                 then do {
                   s \<leftarrow> upsert_in ''volumes'' ''hygon-ft-bin'' bin_volume spec0;
                   upsert_in ''initContainers'' ''hygon-ft-init'' (init_container env annotations) s
                 } else Some spec0);
       let containers = ensure_list spec1 ''containers'';
       if containers = [] then Some (dict_update ''containers'' (JvList []) spec1)
       else do {
         i \<leftarrow> find_target 0 containers;
         c0 \<leftarrow> as_fields (containers ! i);
         c \<leftarrow> inject_container role replicas job annotations kind last_group c0;
         Some (dict_update ''containers'' (JvList (containers[i := JvObj c])) spec1)
       }
     }"

definition inject_replica_template ::
    "(string \<Rightarrow> string option) \<Rightarrow> string \<Rightarrow> jval \<Rightarrow> fields \<Rightarrow> string \<Rightarrow> bool \<Rightarrow> fields \<Rightarrow> fields option" where
  "inject_replica_template env role job annotations kind last_group replica =
     (let template = ensure_dict replica ''template'';
          t1 = set_dict ''metadata'' (inject_metadata role job (ensure_dict template ''metadata'')) template
      in do {
        spec \<leftarrow> inject_pod_spec env role (get_field replica ''replicas'' (JvNum 1)) job annotations kind last_group
                  (ensure_dict t1 ''spec'');
        Some (set_dict ''template'' (set_dict ''spec'' spec t1) replica)
      })"

section \<open>Mutating a workload\<close>

definition active :: "jval \<Rightarrow> bool option" where
  "active replica =
     (case replica of
        JvObj d \<Rightarrow>
          let n = get_field d ''replicas'' (JvNum 1) in
          (if py_true n then map_option (\<lambda>i. 0 < i) (jval_int n) else Some False)
      | _ \<Rightarrow> Some False)"

text \<open>
  The active replicas in their order; the last of them is the group that watches for a log
  without updates.  The names are the keys of a PyTorchJob's replicas and the name fields of a
  Volcano job's tasks.
\<close>

fun all_active :: "jval list \<Rightarrow> bool list option" where
  "all_active [] = Some []"
| "all_active (r # rs) = do { b \<leftarrow> active r; bs \<leftarrow> all_active rs; Some (b # bs) }"

fun inject_replicas ::
    "(string \<Rightarrow> bool \<Rightarrow> fields \<Rightarrow> fields option) \<Rightarrow> ((string \<times> jval) \<times> bool) list \<Rightarrow> (string \<times> jval) list option" where
  "inject_replicas f [] = Some []"
| "inject_replicas f (((name, r), b) # rs) =
     do {
       r' \<leftarrow> (if b then do { d \<leftarrow> as_fields r; d' \<leftarrow> f name (True \<notin> set (map snd rs)) d; Some (JvObj d') } else Some r);
       rest \<leftarrow> inject_replicas f rs;
       Some ((name, r') # rest)
     }"

definition inject_groups ::
    "(string \<Rightarrow> string option) \<Rightarrow> jval \<Rightarrow> fields \<Rightarrow> string \<Rightarrow> (string \<times> jval) list \<Rightarrow> (string \<times> jval) list option" where
  "inject_groups env job annotations kind groups =
     do {
       flags \<leftarrow> all_active (map snd groups);
       inject_replicas (\<lambda>role last_group. inject_replica_template env role job annotations kind last_group)
         (zip groups flags)
     }"

definition task_name :: "jval \<Rightarrow> string" where
  "task_name task =
     (case task of
        JvObj d \<Rightarrow> (let n = get_field d ''name'' JvNull in if py_true n then py_str n else ''worker'')
      | _ \<Rightarrow> ''worker'')"

datatype workload = PyTorchJob | VolcanoJob

definition inject_spec :: "(string \<Rightarrow> string option) \<Rightarrow> workload \<Rightarrow> jval \<Rightarrow> fields \<Rightarrow> fields \<Rightarrow> fields option" where
  "inject_spec env w job annotations spec =
     (case w of
        PyTorchJob \<Rightarrow>
          do {
            rs \<leftarrow> inject_groups env job annotations ''PyTorchJob'' (ensure_dict spec ''pytorchReplicaSpecs'');
            Some (set_dict ''pytorchReplicaSpecs'' rs spec)
          }
      | VolcanoJob \<Rightarrow>
          do {
            ts \<leftarrow> inject_groups env job annotations ''VolcanoJob'' (map (\<lambda>t. (task_name t, t)) (ensure_list spec ''tasks''));
            Some (dict_update ''tasks'' (JvList (map snd ts)) spec)
          })"

definition mutate :: "(string \<Rightarrow> string option) \<Rightarrow> workload \<Rightarrow> fields \<Rightarrow> fields option" where
  "mutate env w obj =
     (let metadata0 = ensure_dict obj ''metadata''; annotations0 = ensure_dict metadata0 ''annotations'';
          metadata1 = set_dict ''annotations'' annotations0 metadata0
      in do {
        enabled \<leftarrow> workload_enabled metadata1;
        if \<not> enabled \<or> truthy (get_field annotations0 INJECTED_KEY (JvText ''false'')) then Some obj
        else
          let annotations = set_text INJECTED_KEY ''true'' annotations0;
              obj1 = set_dict ''metadata'' (set_dict ''annotations'' annotations metadata1) obj
          in do {
            spec \<leftarrow> inject_spec env w (get_field metadata1 ''name'' (JvText ''unknown'')) annotations (ensure_dict obj1 ''spec'');
            Some (set_dict ''spec'' spec obj1)
          }
      })"

section \<open>The patch and the response\<close>

record patch_op =
  po_add :: bool
  po_path :: "string list"
  po_value :: jval

text \<open>\<^verbatim>\<open>obj.get(outer, {}).get(key)\<close>; a missing value is null.\<close>

definition get_path :: "fields \<Rightarrow> string \<Rightarrow> string \<Rightarrow> jval option" where
  "get_path obj outer key =
     do { d \<leftarrow> as_fields (get_field obj outer (JvObj [])); Some (get_field d key JvNull) }"

definition patch_for :: "fields \<Rightarrow> fields \<Rightarrow> string \<times> string \<times> jval \<Rightarrow> patch_op list option" where
  "patch_for original mutated okd =
     (case okd of (outer, key, dflt) \<Rightarrow>
        do {
          a \<leftarrow> get_path original outer key;
          b \<leftarrow> get_path mutated outer key;
          Some (if a = b then []
                else [\<lparr>po_add = (a = JvNull), po_path = [outer, key], po_value = (if py_true b then b else dflt)\<rparr>])
        })"

definition build_patch :: "fields \<Rightarrow> fields \<Rightarrow> patch_op list option" where
  "build_patch original mutated =
     (if original = mutated then Some []
      else do {
        p1 \<leftarrow> patch_for original mutated (''metadata'', ''annotations'', JvObj []);
        p2 \<leftarrow> patch_for original mutated (''spec'', ''pytorchReplicaSpecs'', JvObj []);
        p3 \<leftarrow> patch_for original mutated (''spec'', ''tasks'', JvList []);
        Some (p1 @ p2 @ p3)
      })"

definition workload_of :: "fields \<Rightarrow> workload option option" where
  "workload_of obj =
     (let version = get_field obj ''apiVersion'' (JvText []); kind = get_field obj ''kind'' (JvText []) in
      if version = JvText ''kubeflow.org/v1'' \<and> kind = JvText ''PyTorchJob'' then Some (Some PyTorchJob)
      else case version of
             JvText v \<Rightarrow> Some (if is_prefix_of ''batch.volcano.sh/'' v \<and> kind = JvText ''Job'' then Some VolcanoJob else None)
           | _ \<Rightarrow> None)"

text \<open>The answer: refused, or allowed with a patch.\<close>

datatype admission = Refused | Allowed "patch_op list"

definition build_admission_response :: "(string \<Rightarrow> string option) \<Rightarrow> jval \<Rightarrow> admission" where
  "build_admission_response env object =
     (case (do {
        obj \<leftarrow> as_fields object;
        w \<leftarrow> workload_of obj;
        (case w of None \<Rightarrow> Some []
         | Some w \<Rightarrow> do { m \<leftarrow> mutate env w obj; build_patch obj m })
      }) of None \<Rightarrow> Refused | Some p \<Rightarrow> Allowed p)"

section \<open>The patch reproduces the mutation\<close>

text \<open>JSON patch (RFC 6902) on a member of a member of the document.\<close>

definition apply_op :: "patch_op \<Rightarrow> fields \<Rightarrow> fields option" where
  "apply_op op obj =
     (case po_path op of
        [outer, key] \<Rightarrow>
          (case map_of obj outer of
             Some (JvObj d) \<Rightarrow>
               if po_add op \<or> map_of d key \<noteq> None then Some (set_dict outer (dict_update key (po_value op) d) obj) else None
           | _ \<Rightarrow> None)
      | _ \<Rightarrow> None)"

fun apply_patch :: "patch_op list \<Rightarrow> fields \<Rightarrow> fields option" where
  "apply_patch [] obj = Some obj"
| "apply_patch (p # ps) obj = do { o1 \<leftarrow> apply_op p obj; apply_patch ps o1 }"

lemma dict_update_twice [simp]: "dict_update k v (dict_update k w d) = dict_update k v d"
  by (induction d) auto

lemma dict_update_nonempty [simp]: "dict_update k v d \<noteq> []"
  by (cases "(k, v, d)" rule: dict_update.cases) auto

lemma dict_update_same: "map_of d k = Some v \<Longrightarrow> dict_update k v d = d"
  by (induction d) (auto split: if_splits)

lemma map_of_update [simp]: "map_of (dict_update k v d) x = (if x = k then Some v else map_of d x)"
  by (simp add: map_of_dict_update)

lemma ensure_dict_set [simp]:
  "ensure_dict (set_dict k d parent) k = d" "k \<noteq> k' \<Longrightarrow> ensure_dict (set_dict k d parent) k' = ensure_dict parent k'"
  by (simp_all add: ensure_dict_def set_dict_def)

lemma apply_patch_append: "apply_patch (p @ q) obj = do { o1 \<leftarrow> apply_patch p obj; apply_patch q o1 }"
  by (induction p arbitrary: obj) (auto split: Option.bind_splits)

text \<open>One entry of the patch brings one member to its new value.\<close>

lemma patch_for_applies:
  assumes "map_of original outer = Some (JvObj d)" "map_of mutated outer = Some (JvObj d')"
    and "map_of d' key = Some v" "py_true v \<or> v = dflt" "v \<noteq> JvNull"
    and "map_of obj outer = Some (JvObj d)"
  shows "\<exists>p. patch_for original mutated (outer, key, dflt) = Some p
    \<and> apply_patch p obj = Some (set_dict outer (dict_update key v d) obj)"
proof -
  have a: "get_path original outer key = Some (get_field d key JvNull)" "get_path mutated outer key = Some v"
    using assms(1-3) by (simp_all add: get_path_def get_field_def as_fields_def)
  show ?thesis
  proof (cases "get_field d key JvNull = v")
    case True
    then have "map_of d key = Some v" using assms(5) by (simp add: get_field_def split: option.splits)
    then have "set_dict outer (dict_update key v d) obj = obj"
      using assms(6) by (simp add: dict_update_same set_dict_def)
    then show ?thesis using True a by (simp add: patch_for_def)
  next
    case False
    have "po = JvNull \<or> map_of d key \<noteq> None" if "po = get_field d key JvNull" for po
      using that by (simp add: get_field_def split: option.splits)
    then show ?thesis using False a assms(4,6) by (auto simp: patch_for_def apply_op_def)
  qed
qed

lemma patch_for_same:
  assumes "get_path original outer key = get_path mutated outer key" "get_path original outer key \<noteq> None"
  shows "patch_for original mutated (outer, key, dflt) = Some []"
  using assms by (auto simp: patch_for_def)

definition spec_key :: "workload \<Rightarrow> string" where
  "spec_key w = (case w of PyTorchJob \<Rightarrow> ''pytorchReplicaSpecs'' | VolcanoJob \<Rightarrow> ''tasks'')"

lemma inject_spec_shape:
  assumes "inject_spec env w job annotations spec = Some spec'"
  obtains v where "spec' = dict_update (spec_key w) v spec" "v \<noteq> JvNull"
    "py_true v \<or> v = (case w of PyTorchJob \<Rightarrow> JvObj [] | VolcanoJob \<Rightarrow> JvList [])"
  using assms
  by (cases w) (auto simp: inject_spec_def spec_key_def set_dict_def py_true_def split: Option.bind_splits)

text \<open>What a mutation changes: the annotations, and the member of the spec that holds the replicas.\<close>

lemma mutate_shape:
  assumes "mutate env w obj = Some m" "m \<noteq> obj"
  obtains md v ann where "map_of obj ''metadata'' = Some (JvObj md)" "workload_enabled (set_dict ''annotations'' (ensure_dict md ''annotations'') md) = Some True"
    "ann = set_text INJECTED_KEY ''true'' (ensure_dict md ''annotations'')"
    "m = set_dict ''spec'' (dict_update (spec_key w) v (ensure_dict obj ''spec''))
           (set_dict ''metadata'' (set_dict ''annotations'' ann md) obj)"
    "v \<noteq> JvNull" "py_true v \<or> v = (case w of PyTorchJob \<Rightarrow> JvObj [] | VolcanoJob \<Rightarrow> JvList [])"
proof -
  define md where "md = ensure_dict obj ''metadata''"
  define md1 where "md1 = set_dict ''annotations'' (ensure_dict md ''annotations'') md"
  define ann where "ann = set_text INJECTED_KEY ''true'' (ensure_dict md ''annotations'')"
  have enabled: "workload_enabled md1 = Some True"
    and spec: "do { spec \<leftarrow> inject_spec env w (get_field md1 ''name'' (JvText ''unknown'')) ann (ensure_dict obj ''spec'');
        Some (set_dict ''spec'' spec (set_dict ''metadata'' (set_dict ''annotations'' ann md1) obj)) } = Some m"
    using assms unfolding mutate_def Let_def md_def [symmetric] md1_def [symmetric] ann_def [symmetric]
    by (auto split: Option.bind_splits if_splits)
  have "md \<noteq> []"
  proof
    assume "md = []"
    then have "md1 = [(''annotations'', JvObj [])]" by (simp add: md1_def set_dict_def ensure_dict_def)
    moreover have "\<not> truthy (JvText ''false'')" by code_simp
    ultimately show False using enabled by (simp add: workload_enabled_def get_field_def as_fields_def)
  qed
  then have obj: "map_of obj ''metadata'' = Some (JvObj md)"
    unfolding md_def by (auto simp: ensure_dict_def split: option.splits jval.splits)
  obtain spec' where spec': "inject_spec env w (get_field md1 ''name'' (JvText ''unknown'')) ann (ensure_dict obj ''spec'') = Some spec'"
    and m: "m = set_dict ''spec'' spec' (set_dict ''metadata'' (set_dict ''annotations'' ann md1) obj)"
    using spec by (auto split: Option.bind_splits)
  have md1: "set_dict ''annotations'' ann md1 = set_dict ''annotations'' ann md"
    by (simp add: md1_def set_dict_def)
  show ?thesis
  proof (rule inject_spec_shape [OF spec'])
    fix v
    assume v: "spec' = dict_update (spec_key w) v (ensure_dict obj ''spec'')" "v \<noteq> JvNull"
      "py_true v \<or> v = (case w of PyTorchJob \<Rightarrow> JvObj [] | VolcanoJob \<Rightarrow> JvList [])"
    show ?thesis
      by (rule that [OF obj enabled [unfolded md1_def] ann_def m [unfolded v(1) md1] v(2,3)])
  qed
qed

text \<open>
  C27: For an object with a spec, the patch of a mutation turns the original object into exactly
  the mutated one, so what the API server stores is what the webhook computed.
\<close>
theorem patch_reproduces_mutation:
  assumes "mutate env w obj = Some m" "map_of obj ''spec'' = Some (JvObj s)"
  shows "\<exists>p. build_patch obj m = Some p \<and> apply_patch p obj = Some m"
proof (cases "m = obj")
  case False
  obtain md v ann where md: "map_of obj ''metadata'' = Some (JvObj md)"
    and m: "m = set_dict ''spec'' (dict_update (spec_key w) v (ensure_dict obj ''spec''))
           (set_dict ''metadata'' (set_dict ''annotations'' ann md) obj)"
    and ann: "ann = set_text INJECTED_KEY ''true'' (ensure_dict md ''annotations'')"
    and v: "v \<noteq> JvNull" "py_true v \<or> v = (case w of PyTorchJob \<Rightarrow> JvObj [] | VolcanoJob \<Rightarrow> JvList [])"
    using mutate_shape [OF assms(1) False] by metis
  have s: "ensure_dict obj ''spec'' = s" using assms(2) by (simp add: ensure_dict_def)
  have "ann \<noteq> []" by (simp add: ann set_text_def)
  then have true: "py_true (JvObj ann)" by (simp add: py_true_def)
  obtain p1 where p1: "patch_for obj m (''metadata'', ''annotations'', JvObj []) = Some p1"
      "apply_patch p1 obj = Some (set_dict ''metadata'' (dict_update ''annotations'' (JvObj ann) md) obj)"
    using patch_for_applies [OF md, of m "dict_update ''annotations'' (JvObj ann) md" "''annotations''" "JvObj ann" "JvObj []" obj] md true
    by (auto simp: m set_dict_def)
  let ?o1 = "set_dict ''metadata'' (dict_update ''annotations'' (JvObj ann) md) obj"
  obtain p2 where p2: "patch_for obj m (''spec'', spec_key w, case w of PyTorchJob \<Rightarrow> JvObj [] | VolcanoJob \<Rightarrow> JvList []) = Some p2"
      "apply_patch p2 ?o1 = Some (set_dict ''spec'' (dict_update (spec_key w) v s) ?o1)"
    using patch_for_applies [OF assms(2), of m "dict_update (spec_key w) v s" "spec_key w" v _ ?o1] v
    by (auto simp: m s set_dict_def assms(2))
  have other: "patch_for obj m (''spec'', key, dflt) = Some []" if "key \<noteq> spec_key w" for key dflt
    using that by (intro patch_for_same) (simp_all add: get_path_def get_field_def as_fields_def m s set_dict_def assms(2))
  have "build_patch obj m = Some (p1 @ p2)"
    using p1(1) p2(1) other False by (cases w) (simp_all add: build_patch_def spec_key_def)
  moreover have "apply_patch (p1 @ p2) obj = Some m"
    using p1(2) p2(2) by (simp add: apply_patch_append m s set_dict_def)
  ultimately show ?thesis by blast
qed (simp add: build_patch_def)

section \<open>Mutating twice\<close>

lemma truthy_true: "truthy (JvText ''true'')" "\<not> truthy (JvText ''false'')"
  by code_simp+

lemma key_names: "INJECTED_KEY \<noteq> ENABLE_KEY" "JOB_LABEL \<noteq> ENABLE_KEY"
  by (simp_all add: INJECTED_KEY_def ENABLE_KEY_def JOB_LABEL_def)

lemma get_field_update:
  "get_field (dict_update k v d) k dflt = v" "k \<noteq> k' \<Longrightarrow> get_field (dict_update k v d) k' dflt = get_field d k' dflt"
  by (simp_all add: get_field_def)

lemma as_fields_JvObj [simp]: "as_fields (JvObj d) = Some d"
  by (simp add: as_fields_def)

lemma workload_enabled_set:
  "workload_enabled (set_dict ''annotations'' a md) =
    (if truthy (get_field a ENABLE_KEY (JvText ''false'')) then Some True
     else do {
       labels \<leftarrow> as_fields (get_field md ''labels'' (JvObj []));
       Some (truthy (get_field labels ENABLE_KEY (JvText ''false'')))
     })"
  by (simp add: workload_enabled_def set_dict_def get_field_update)

lemma enabled_after:
  assumes "workload_enabled (set_dict ''annotations'' a md) = Some b"
  shows "workload_enabled (set_dict ''annotations'' (set_text INJECTED_KEY v a) md) = Some b"
  using assms key_names(1) by (simp add: workload_enabled_set set_text_def get_field_update)

text \<open>
  Mutating is idempotent: the mutation of a mutated object is the object itself, and its
  patch is empty, so a webhook that is called again changes nothing.
\<close>
theorem mutation_is_idempotent:
  assumes "mutate env w obj = Some m"
  shows "mutate env w m = Some m \<and> build_patch m m = Some []"
proof (cases "m = obj")
  case False
  obtain md v ann where on: "workload_enabled (set_dict ''annotations'' (ensure_dict md ''annotations'') md) = Some True"
    and ann: "ann = set_text INJECTED_KEY ''true'' (ensure_dict md ''annotations'')"
    and m: "m = set_dict ''spec'' (dict_update (spec_key w) v (ensure_dict obj ''spec''))
           (set_dict ''metadata'' (set_dict ''annotations'' ann md) obj)"
    using mutate_shape [OF assms False] by metis
  have meta: "ensure_dict m ''metadata'' = set_dict ''annotations'' ann md" by (simp add: m)
  have "workload_enabled (set_dict ''annotations'' ann md) = Some True"
    using enabled_after [OF on] by (simp add: ann)
  moreover have "set_dict ''annotations'' ann (set_dict ''annotations'' ann md) = set_dict ''annotations'' ann md"
    by (simp add: set_dict_def)
  moreover have "get_field ann INJECTED_KEY (JvText ''false'') = JvText ''true''"
    by (simp add: ann get_field_def set_text_def)
  ultimately show ?thesis
    by (simp add: mutate_def meta truthy_true build_patch_def)
qed (use assms in \<open>simp add: build_patch_def\<close>)

text \<open>
  An object that does not enable the tool, or that carries no metadata at all, is admitted
  unchanged, with an empty patch.
\<close>
theorem disabled_workload_is_untouched:
  assumes "workload_of obj = Some w"
    and "workload_enabled (set_dict ''annotations'' (ensure_dict (ensure_dict obj ''metadata'') ''annotations'')
      (ensure_dict obj ''metadata'')) = Some False"
  shows "build_admission_response env (JvObj obj) = Allowed []"
  using assms
  by (auto simp: build_admission_response_def as_fields_def mutate_def build_patch_def Let_def split: option.splits)

section \<open>What a container gets\<close>

lemma upsert_keeps: "upsert_by_name name item l = Some l' \<Longrightarrow> map_of item ''name'' = Some (JvText name) \<Longrightarrow>
    n \<noteq> name \<Longrightarrow> JvObj d \<in> set l \<Longrightarrow> map_of d ''name'' = Some (JvText n) \<Longrightarrow> JvObj d \<in> set l'"
  by (induction name item l arbitrary: l' rule: upsert_by_name.induct)
    (auto simp: as_fields_def split: Option.bind_splits if_splits jval.splits)

lemma map_of_update_fields:
  "distinct (map fst item) \<Longrightarrow> map_of (update_fields d item) k = (case map_of item k of Some v \<Rightarrow> Some v | None \<Rightarrow> map_of d k)"
  unfolding update_fields_def
proof (induction item arbitrary: d)
  case (Cons kv item)
  then show ?case by (cases kv) (auto split: option.splits simp: map_of_eq_None_iff [symmetric])
qed simp

lemma upsert_adds:
  assumes "upsert_by_name name item l = Some l'" "distinct (map fst item)" "map_of item ''name'' = Some (JvText name)"
  shows "\<exists>d. JvObj d \<in> set l' \<and> (\<forall>k v. map_of item k = Some v \<longrightarrow> map_of d k = Some v)"
  using assms
proof (induction name item l arbitrary: l' rule: upsert_by_name.induct)
  case (2 name item e es)
  then obtain d where e: "e = JvObj d" by (auto simp: as_fields_def split: Option.bind_splits jval.splits)
  show ?case
  proof (cases "map_of d ''name'' = Some (JvText name)")
    case True
    then have "l' = JvObj (update_fields d item) # es" using "2.prems"(1) by (simp add: e as_fields_def)
    then show ?thesis using map_of_update_fields [OF "2.prems"(2)] by (intro exI [of _ "update_fields d item"]) simp
  next
    case False
    then obtain rest where "upsert_by_name name item es = Some rest" "l' = e # rest"
      using "2.prems"(1) by (auto simp: e as_fields_def split: Option.bind_splits)
    moreover have "as_fields e = Some d" by (simp add: e)
    ultimately have "\<exists>d. JvObj d \<in> set rest \<and> (\<forall>k v. map_of item k = Some v \<longrightarrow> map_of d k = Some v)"
      using "2.IH" False "2.prems"(2,3) by blast
    then show ?thesis using \<open>l' = e # rest\<close> by auto
  qed
qed auto

text \<open>A container has a variable when its environment has an entry with that name and source.\<close>

definition has_env :: "fields \<Rightarrow> string \<times> string \<times> jval \<Rightarrow> bool" where
  "has_env c v = (\<exists>d. JvObj d \<in> set (ensure_list c ''env'') \<and> map_of d ''name'' = Some (JvText (fst v))
     \<and> map_of d (fst (snd v)) = Some (snd (snd v)))"

lemma ensure_list_set: "ensure_list (dict_update k (JvList l) c) k = l"
  by (simp add: ensure_list_def)

lemma add_env_has:
  assumes "add_env name entry c = Some c'" "fst entry \<noteq> ''name''"
  shows "has_env c' (name, entry)"
    and "n \<noteq> name \<Longrightarrow> has_env c (n, e) \<Longrightarrow> has_env c' (n, e)"
    and "k \<noteq> ''env'' \<Longrightarrow> map_of c' k = map_of c k"
proof -
  obtain env where env: "upsert_by_name name [(''name'', JvText name), entry] (ensure_list c ''env'') = Some env"
    and c': "c' = dict_update ''env'' (JvList env) c"
    using assms(1) by (auto simp: add_env_def split: Option.bind_splits)
  show "has_env c' (name, entry)"
    using upsert_adds [OF env] assms(2) by (cases entry) (auto simp: has_env_def c' ensure_list_set)
  show "has_env c' (n, e)" if "n \<noteq> name" "has_env c (n, e)"
    using upsert_keeps [OF env _ that(1)] that(2) by (fastforce simp: has_env_def c' ensure_list_set)
  show "map_of c' k = map_of c k" if "k \<noteq> ''env''" using that by (simp add: c')
qed

lemma add_envs_fields: "add_envs es c = Some c' \<Longrightarrow> \<forall>v\<in>set es. fst (snd v) \<noteq> ''name'' \<Longrightarrow> k \<noteq> ''env'' \<Longrightarrow> map_of c' k = map_of c k"
proof (induction es c rule: add_envs.induct)
  case (2 name entry es c)
  then obtain c1 where "add_env name entry c = Some c1" "add_envs es c1 = Some c'" by (auto split: Option.bind_splits)
  then show ?case using 2 add_env_has(3) [of name entry c c1 k] by simp
qed simp

lemma add_envs_keeps:
  "add_envs es c = Some c' \<Longrightarrow> \<forall>v\<in>set es. fst (snd v) \<noteq> ''name'' \<Longrightarrow> n \<notin> fst ` set es \<Longrightarrow> has_env c (n, e) \<Longrightarrow> has_env c' (n, e)"
proof (induction es c rule: add_envs.induct)
  case (2 name entry es c)
  then obtain c1 where "add_env name entry c = Some c1" "add_envs es c1 = Some c'" by (auto split: Option.bind_splits)
  then show ?case using 2 add_env_has(2) [of name entry c c1 n e] by simp
qed simp

lemma add_envs_has:
  "add_envs es c = Some c' \<Longrightarrow> \<forall>v\<in>set es. fst (snd v) \<noteq> ''name'' \<Longrightarrow> distinct (map fst es) \<Longrightarrow> v \<in> set es \<Longrightarrow> has_env c' v"
proof (induction es c rule: add_envs.induct)
  case (2 name entry es c)
  then obtain c1 where c1: "add_env name entry c = Some c1" "add_envs es c1 = Some c'" by (auto split: Option.bind_splits)
  show ?case
  proof (cases "v \<in> set es")
    case False
    then have "has_env c1 v" using add_env_has(1) [OF c1(1)] "2.prems" by auto
    then show ?thesis using add_envs_keeps [OF c1(2), of name entry] False "2.prems" by auto
  qed (use 2 c1 in simp)
qed simp

definition launcher_names :: "string list \<Rightarrow> string list" where
  "launcher_names logs = [''FT_ENABLE'', ''FT_JOB_NAME'', ''FT_WORKLOAD_KIND'', ''FT_REPLICA_ROLE'', ''FT_REPLICA_COUNT'',
     ''FT_POD_NAME'', ''FT_POD_UID'', ''FT_POD_NAMESPACE'', ''FT_NODE_NAME''] @ logs
     @ [''FT_FAULT_MARKER_FILE'', ''FT_FAULT_EVENT_ENABLED'', ''FT_FAULT_REPORT_URL'',
        ''FT_EXIT_AFTER_FAULT_EVENT_REPORT'', ''FT_FAULT_EVENT_ACK_TIMEOUT_SECONDS'',
        ''FT_FAULT_EVENT_ACK_INTERVAL_SECONDS'', ''FT_SCAN_INTERVAL_SECONDS'']"

definition monitor_names :: "string list" where
  "monitor_names = [''FT_EXTERNAL_MONITOR_CMD'', ''LOG_MONITOR_ENABLE_NO_UPDATE'', ''LOG_MONITOR_LAST_NODE_ONLY'',
     ''ENABLE_REGULAR_NOTIFY'']"

lemma launcher_env_names:
  obtains logs where "map fst (launcher_env role replicas job annotations kind) = launcher_names logs"
    "logs \<in> {[''FT_LOG_DIR''], [''FT_LOG_FILE''], [''FT_LOG_DIR'', ''FT_LOG_FILE'']}"
  by (cases "py_true (get_field annotations ''ft.hygon.io/log-dir'' JvNull)";
      cases "py_true (get_field annotations ''ft.hygon.io/log-file'' JvNull)")
    (simp_all add: launcher_env_def launcher_names_def log_env_def Let_def)

lemma names_ok:
  "list_all (\<lambda>logs. distinct (launcher_names logs) \<and> list_all (\<lambda>n. n \<notin> set monitor_names) (launcher_names logs))
    [[''FT_LOG_DIR''], [''FT_LOG_FILE''], [''FT_LOG_DIR'', ''FT_LOG_FILE'']]"
  by code_simp

lemma launcher_env_ok:
  "\<forall>v\<in>set (launcher_env role replicas job annotations kind). fst (snd v) \<noteq> ''name''"
  "distinct (map fst (launcher_env role replicas job annotations kind))"
proof -
  show "\<forall>v\<in>set (launcher_env role replicas job annotations kind). fst (snd v) \<noteq> ''name''"
    by (auto simp add: launcher_env_def log_env_def env_value_def env_field_def Let_def)
  show "distinct (map fst (launcher_env role replicas job annotations kind))"
    using names_ok by (rule_tac launcher_env_names [of role replicas job annotations kind]) auto
qed

lemma monitor_env_cases:
  assumes "monitor_env role annotations last_group = Some es"
  obtains "es = []" | "\<And>v. v \<in> set es \<Longrightarrow> fst (snd v) = ''value''" "map fst es = take 3 monitor_names \<or> map fst es = monitor_names"
proof (cases "es = []")
  case False
  define cmd where "cmd = env_value (get_field annotations ''ft.hygon.io/log-monitor-command'' JvNull)"
  define nu where "nu = env_value (JvText (if last_group then ''true'' else ''false''))"
  have es: "es = [(''FT_EXTERNAL_MONITOR_CMD'', cmd), (''LOG_MONITOR_ENABLE_NO_UPDATE'', nu),
      (''LOG_MONITOR_LAST_NODE_ONLY'', env_value (JvText ''true''))]
      @ (if py_lower role \<noteq> ''master'' then [(''ENABLE_REGULAR_NOTIFY'', env_value (JvText ''false''))] else [])"
    using assms False unfolding monitor_env_def Let_def cmd_def nu_def by (simp split: Option.bind_split_asm if_split_asm)
  have "fst cmd = ''value''" "fst nu = ''value''" by (simp_all add: cmd_def nu_def env_value_def)
  then have "fst (snd v) = ''value''" if "v \<in> set es" for v
    using that by (auto simp: es env_value_def split: if_split_asm)
  moreover have "map fst es = take 3 monitor_names \<or> map fst es = monitor_names"
    by (cases "py_lower role = ''master''") (simp_all add: es monitor_names_def)
  ultimately show ?thesis using that(2) by blast
qed (use that(1) in blast)

lemma monitor_env_ok:
  assumes "monitor_env role annotations last_group = Some es"
  shows "\<forall>v\<in>set es. fst (snd v) \<noteq> ''name''" "fst ` set (launcher_env role replicas job annotations kind) \<inter> fst ` set es = {}"
proof -
  show "\<forall>v\<in>set es. fst (snd v) \<noteq> ''name''"
    by (rule monitor_env_cases [OF assms]) simp_all
  have es: "fst ` set es \<subseteq> set monitor_names"
  proof (rule monitor_env_cases [OF assms])
    assume "map fst es = take 3 monitor_names \<or> map fst es = monitor_names"
    then have "set (map fst es) \<subseteq> set monitor_names" by (metis order_refl set_take_subset)
    then show ?thesis by simp
  qed simp
  have "n \<notin> set monitor_names" if "n \<in> set (map fst (launcher_env role replicas job annotations kind))" for n
  proof (rule launcher_env_names [of role replicas job annotations kind])
    fix logs
    assume logs: "map fst (launcher_env role replicas job annotations kind) = launcher_names logs"
      "logs \<in> {[''FT_LOG_DIR''], [''FT_LOG_FILE''], [''FT_LOG_DIR'', ''FT_LOG_FILE'']}"
    have "logs \<in> set [[''FT_LOG_DIR''], [''FT_LOG_FILE''], [''FT_LOG_DIR'', ''FT_LOG_FILE'']]" using logs(2) by (simp only: list.set)
    then have "list_all (\<lambda>n. n \<notin> set monitor_names) (launcher_names logs)"
      using names_ok unfolding list_all_iff [of "\<lambda>logs. distinct (launcher_names logs) \<and> _ logs"] by blast
    then show ?thesis using that unfolding logs(1) list_all_iff by blast
  qed
  then show "fst ` set (launcher_env role replicas job annotations kind) \<inter> fst ` set es = {}"
    using es by fastforce
qed

text \<open>The body of an injection after the variables, and what it leaves alone.\<close>

lemma inject_container_steps:
  assumes "inject_container role replicas job annotations kind last_group c0 = Some c"
    and "truthy (ann annotations ''inject-launcher'' ''true'')"
  obtains c3 where "wrap_command (ann annotations ''launcher-interpreter'' []) (ann annotations ''launcher-path'' DEFAULT_LAUNCHER_PATH) c3 = Some c"
    and "\<forall>v\<in>set (launcher_env role replicas job annotations kind). has_env c3 v"
    and "\<And>k. k \<notin> {''env'', ''volumeMounts''} \<Longrightarrow> map_of c3 k = map_of c0 k"
proof -
  obtain c1 c2 c3 menv where c1: "(if ann annotations ''launcher-path'' DEFAULT_LAUNCHER_PATH = JvText DEFAULT_LAUNCHER_PATH
        then upsert_in ''volumeMounts'' ''hygon-ft-bin'' bin_mount c0 else Some c0) = Some c1"
    and c2: "add_envs (launcher_env role replicas job annotations kind) c1 = Some c2"
    and menv: "monitor_env role annotations last_group = Some menv" and c3: "add_envs menv c2 = Some c3"
    and wrap: "wrap_command (ann annotations ''launcher-interpreter'' []) (ann annotations ''launcher-path'' DEFAULT_LAUNCHER_PATH) c3 = Some c"
    using assms by (auto simp: inject_container_def Let_def split: Option.bind_splits)
  have "map_of c1 k = map_of c0 k" if "k \<noteq> ''volumeMounts''" for k
    using c1 that by (auto simp: upsert_in_def split: Option.bind_splits if_splits)
  then have "map_of c3 k = map_of c0 k" if "k \<notin> {''env'', ''volumeMounts''}" for k
    using that add_envs_fields [OF c2 launcher_env_ok(1)] add_envs_fields [OF c3 monitor_env_ok(1) [OF menv]] by simp
  moreover have "has_env c3 v" if "v \<in> set (launcher_env role replicas job annotations kind)" for v
  proof -
    have "has_env c2 v" using add_envs_has [OF c2 launcher_env_ok that] .
    moreover have "fst v \<notin> fst ` set menv" using monitor_env_ok(2) [OF menv] that by blast
    ultimately show ?thesis using add_envs_keeps [OF c3 monitor_env_ok(1) [OF menv], of "fst v" "snd v"] by simp
  qed
  ultimately show ?thesis using that [OF wrap] by blast
qed

text \<open>
  An injected container has every variable of the launcher with the intended source, and a
  container with a command or arguments runs the launcher, which gets the original command
  followed by the original arguments after a separator, unless the command is a launcher already.
\<close>
theorem injected_container_runs_launcher:
  assumes "inject_container role replicas job annotations kind last_group c0 = Some c"
    and "truthy (ann annotations ''inject-launcher'' ''true'')"
    and "get_field c0 ''command'' (JvList []) = JvList cmd" "get_field c0 ''args'' (JvList []) = JvList args"
    and "cmd @ args \<noteq> []" "\<not> list_ex is_launcher cmd"
    and "ann annotations ''launcher-interpreter'' [] = JvText []"
  shows "(\<forall>v\<in>set (launcher_env role replicas job annotations kind). has_env c v)
    \<and> map_of c ''command'' = Some (JvList [ann annotations ''launcher-path'' DEFAULT_LAUNCHER_PATH])
    \<and> map_of c ''args'' = Some (JvList (JvText ''--'' # cmd @ args))"
proof (rule inject_container_steps [OF assms(1,2)])
  fix c3
  assume wrap: "wrap_command (ann annotations ''launcher-interpreter'' []) (ann annotations ''launcher-path'' DEFAULT_LAUNCHER_PATH) c3 = Some c"
    and env: "\<forall>v\<in>set (launcher_env role replicas job annotations kind). has_env c3 v"
    and other: "\<And>k. k \<notin> {''env'', ''volumeMounts''} \<Longrightarrow> map_of c3 k = map_of c0 k"
  have "get_field c3 ''command'' (JvList []) = JvList cmd" "get_field c3 ''args'' (JvList []) = JvList args"
    using assms(3,4) other by (simp_all add: get_field_def)
  then have c: "c = dict_update ''args'' (JvList (JvText ''--'' # cmd @ args))
      (dict_update ''command'' (JvList [ann annotations ''launcher-path'' DEFAULT_LAUNCHER_PATH]) c3)"
    using wrap assms(5-7) by (auto simp: wrap_command_def list_items_def iter_items_def py_true_def Let_def)
  have "ensure_list c ''env'' = ensure_list c3 ''env''" by (simp add: c ensure_list_def)
  then show ?thesis using env by (simp add: c has_env_def)
qed

text \<open>Injecting into a container whose named lists hold objects never fails.\<close>

definition all_objects :: "jval list \<Rightarrow> bool" where
  "all_objects l = list_all (\<lambda>e. as_fields e \<noteq> None) l"

lemma upsert_total: "all_objects l \<Longrightarrow> \<exists>l'. upsert_by_name name item l = Some l' \<and> all_objects l'"
proof (induction l)
  case (Cons e es)
  then obtain l' where "upsert_by_name name item es = Some l'" "all_objects l'" by (auto simp: all_objects_def)
  then show ?case using Cons.prems by (auto simp: all_objects_def)
qed (simp add: all_objects_def)

lemma add_envs_total: "all_objects (ensure_list c ''env'') \<Longrightarrow> \<exists>c'. add_envs es c = Some c' \<and> all_objects (ensure_list c' ''env'')"
proof (induction es c rule: add_envs.induct)
  case (2 name entry es c)
  obtain l where "upsert_by_name name [(''name'', JvText name), entry] (ensure_list c ''env'') = Some l" "all_objects l"
    using upsert_total [OF "2.prems"] by blast
  then have "add_env name entry c = Some (dict_update ''env'' (JvList l) c)"
    "all_objects (ensure_list (dict_update ''env'' (JvList l) c) ''env'')"
    by (simp_all add: add_env_def ensure_list_set)
  then show ?case using "2.IH" by simp
qed simp

lemma inject_container_total:
  assumes "all_objects (ensure_list c ''env'')" "all_objects (ensure_list c ''volumeMounts'')"
    and "get_field c ''command'' (JvList []) = JvList cmd" "monitor_env role annotations last_group \<noteq> None"
  shows "inject_container role replicas job annotations kind last_group c \<noteq> None"
proof -
  obtain c1 where c1: "(if truthy (ann annotations ''inject-launcher'' ''true'')
        \<and> ann annotations ''launcher-path'' DEFAULT_LAUNCHER_PATH = JvText DEFAULT_LAUNCHER_PATH
        then upsert_in ''volumeMounts'' ''hygon-ft-bin'' bin_mount c else Some c) = Some c1"
      "ensure_list c1 ''env'' = ensure_list c ''env''" "map_of c1 ''command'' = map_of c ''command''"
    using upsert_total [OF assms(2), of "''hygon-ft-bin''" bin_mount]
    by (cases "truthy (ann annotations ''inject-launcher'' ''true'')
        \<and> ann annotations ''launcher-path'' DEFAULT_LAUNCHER_PATH = JvText DEFAULT_LAUNCHER_PATH")
      (auto simp: upsert_in_def ensure_list_def)
  obtain c2 where c2: "add_envs (launcher_env role replicas job annotations kind) c1 = Some c2" "all_objects (ensure_list c2 ''env'')"
    using add_envs_total assms(1) c1(2) by metis
  obtain menv where menv: "monitor_env role annotations last_group = Some menv" using assms(4) by blast
  obtain c3 where c3: "add_envs menv c2 = Some c3" using add_envs_total [OF c2(2)] by blast
  have "map_of c3 ''command'' = map_of c ''command''"
    using add_envs_fields [OF c2(1) launcher_env_ok(1)] add_envs_fields [OF c3 monitor_env_ok(1) [OF menv]] c1(3) by simp
  then have "get_field c3 ''command'' (JvList []) = JvList cmd" using assms(3) by (simp add: get_field_def)
  then show ?thesis
    unfolding inject_container_def Let_def c1(1) using c2(1) menv c3 by (simp add: wrap_command_def iter_items_def Let_def)
qed

definition sample_container :: fields where
  "sample_container = [(''name'', JvText ''pytorch''), (''command'', JvList [JvText ''torchrun'']),
     (''args'', JvList [JvText ''train.py''])]"

theorem injected_container_runs_launcher_witness:
  "\<exists>c. inject_container ''Worker'' (JvNum 2) (JvText ''llm'') [] ''PyTorchJob'' True sample_container = Some c
    \<and> map_of c ''args'' = Some (JvList [JvText ''--'', JvText ''torchrun'', JvText ''train.py''])"
proof -
  have "inject_container ''Worker'' (JvNum 2) (JvText ''llm'') [] ''PyTorchJob'' True sample_container \<noteq> None"
    by (rule inject_container_total)
      (simp_all add: sample_container_def ensure_list_def all_objects_def get_field_def monitor_env_def py_true_def)
  then obtain c where c: "inject_container ''Worker'' (JvNum 2) (JvText ''llm'') [] ''PyTorchJob'' True sample_container = Some c" by blast
  have "truthy (ann [] ''inject-launcher'' ''true'')" "\<not> list_ex is_launcher [JvText ''torchrun'']" by code_simp+
  then show ?thesis
    using injected_container_runs_launcher [OF c, of "[JvText ''torchrun'']" "[JvText ''train.py'']"] c
    by (simp add: sample_container_def get_field_def ann_def)
qed

text \<open>
  A container that relies on the entry point of its image and gives arguments only loses that
  entry point: the launcher is made the command and receives the bare arguments.
\<close>

lemma entry_point_is_lost:
  "wrap_command (JvText []) (JvText ''/opt/hygon-ft/ft-launcher'') [(''args'', JvList [JvText ''--epochs'', JvText ''3''])] =
    Some [(''args'', JvList [JvText ''--'', JvText ''--epochs'', JvText ''3'']),
      (''command'', JvList [JvText ''/opt/hygon-ft/ft-launcher''])]"
  by code_simp

text \<open>A variable the user set by value keeps that value beside the source the webhook adds.\<close>

lemma variable_with_two_sources:
  "add_env ''FT_NODE_NAME'' (env_field ''spec.nodeName'')
     [(''env'', JvList [JvObj [(''name'', JvText ''FT_NODE_NAME''), (''value'', JvText ''n1'')]])] =
   Some [(''env'', JvList [JvObj [(''name'', JvText ''FT_NODE_NAME''), (''value'', JvText ''n1''),
     env_field ''spec.nodeName'']])]"
  by code_simp

text \<open>A patch of an object without spec adds a member to a member that does not exist.\<close>

definition specless_job :: fields where
  "specless_job = [(''apiVersion'', JvText ''kubeflow.org/v1''), (''kind'', JvText ''PyTorchJob''),
     (''metadata'', JvObj [(''annotations'', JvObj [(ENABLE_KEY, JvText ''true'')])])]"

lemma specless_patch_fails:
  "case build_admission_response Map.empty (JvObj specless_job) of Allowed p \<Rightarrow> apply_patch p specless_job = None | Refused \<Rightarrow> False"
  by code_simp

definition sample_job :: fields where
  "sample_job = [(''metadata'', JvObj [(''name'', JvText ''llm''), (''labels'', JvObj [(ENABLE_KEY, JvText ''true'')])]),
     (''spec'', JvObj [(''pytorchReplicaSpecs'', JvObj [(''Worker'', JvObj [(''replicas'', JvNum 2)])])])]"

lemma sample_job_mutates: "mutate Map.empty PyTorchJob sample_job \<notin> {None, Some sample_job}"
  by code_simp

theorem patch_reproduces_mutation_witness:
  "\<exists>m p. mutate Map.empty PyTorchJob sample_job = Some m \<and> m \<noteq> sample_job
    \<and> build_patch sample_job m = Some p \<and> apply_patch p sample_job = Some m"
proof -
  obtain m where m: "mutate Map.empty PyTorchJob sample_job = Some m" "m \<noteq> sample_job"
    using sample_job_mutates by (cases "mutate Map.empty PyTorchJob sample_job") auto
  then show ?thesis
    using patch_reproduces_mutation [OF m(1)] by (simp add: sample_job_def)
qed

theorem mutation_is_idempotent_witness:
  "\<exists>m. mutate Map.empty PyTorchJob sample_job = Some m \<and> m \<noteq> sample_job \<and> mutate Map.empty PyTorchJob m = Some m"
proof -
  obtain m where m: "mutate Map.empty PyTorchJob sample_job = Some m" "m \<noteq> sample_job"
    using sample_job_mutates by (cases "mutate Map.empty PyTorchJob sample_job") auto
  then show ?thesis using mutation_is_idempotent [OF m(1)] by blast
qed

theorem disabled_workload_is_untouched_witness:
  "build_admission_response Map.empty (JvObj [(''apiVersion'', JvText ''kubeflow.org/v1''), (''kind'', JvText ''PyTorchJob'')]) = Allowed []"
proof (rule disabled_workload_is_untouched)
  show "workload_of [(''apiVersion'', JvText ''kubeflow.org/v1''), (''kind'', JvText ''PyTorchJob'')] = Some (Some PyTorchJob)"
    by (simp add: workload_of_def get_field_def Let_def)
qed (simp add: workload_enabled_set ensure_dict_def get_field_def truthy_true)

end
