(* ===== verification/HealthAgent.thy ===== *)
theory HealthAgent
  imports Operator
begin

text \<open>
  The node health agent (\<^verbatim>\<open>hygon_ft/nodehealth/agent.py\<close>): a loop that runs the node
  health check and creates a FaultEvent for a failed one, at most once per suppression time.  A
  round gets the outcome of the check and the time; printing is not modelled.
\<close>

section \<open>The event\<close>

definition trim :: "string \<Rightarrow> nat \<Rightarrow> string" where
  "trim s limit = (if length s \<le> limit then s else drop (length s - limit) s)"

record agent_cfg =
  ac_namespace :: string
  ac_node :: string
  ac_suppress :: int
  ac_timeout_is_failure :: bool
  ac_taint :: bool
  ac_delete_pods :: bool

definition nhc_event_name :: "string \<Rightarrow> int \<Rightarrow> string" where
  "nhc_event_name node ts = ''nhc-'' @ map (\<lambda>c. if c = CHR ''_'' then CHR ''-'' else c) (py_lower node) @ ''-'' @ show_int ts"

definition nhc_message :: "int \<Rightarrow> string \<Rightarrow> string \<Rightarrow> string" where
  "nhc_message code out err =
     trim (''run_nhc.sh exit='' @ show_int code @ [CHR 0x0A] @ ''stdout:'' @ [CHR 0x0A] @ out @ [CHR 0x0A]
       @ ''stderr:'' @ [CHR 0x0A] @ err) 3500"

definition nhc_event :: "agent_cfg \<Rightarrow> int \<Rightarrow> string \<Rightarrow> string \<Rightarrow> string \<Rightarrow> fault_event" where
  "nhc_event c ts reason message checked_at =
     \<lparr>fe_name = nhc_event_name (ac_node c) ts, fe_namespace = ac_namespace c, fe_created = [],
      fe_spec = \<lparr>fs_type = Some ''NodeHealthCheckFailed'', fs_severity = ''Critical'', fs_source = ''nodehealth-agent'',
        fs_reason = reason, fs_message = message, fs_observed = checked_at, fs_node = ac_node c, fs_pod_ns = [],
        fs_pod = [], fs_job = [], fs_kind = [], fs_role = [], fs_class = [], fs_confidence = 0, fs_host = None,
        fs_rank = None, fs_local_rank = None, fs_exit_code = None,
        fs_action = \<lparr>want_taint = Some (ac_taint c), want_delete_pod = None,
          want_delete_pods = Some (ac_delete_pods c)\<rparr>\<rparr>,
      fe_processed = False, fe_actions = []\<rparr>"

section \<open>A round\<close>

text \<open>How the check ended: with an exit code and its output, by the time limit, or with another exception.\<close>

datatype probe = ProbeDone int string string | ProbeTimeout string string | ProbeFailed

datatype verdict = Healthy | Unhealthy | ReportOnly | BrokenProbe

definition classify_probe :: "int \<Rightarrow> string \<Rightarrow> string \<Rightarrow> verdict" where
  "classify_probe code out err =
     (let probe_text = out @ [CHR 0x0A] @ err in
      if code = 0 \<and> \<not> contains_sub ''[NHC PROBE ERROR]'' probe_text then Healthy
      else if code = 2 then Unhealthy
      else if code = 3 \<or> contains_sub ''[NHC REPORT ONLY]'' probe_text then ReportOnly
      else BrokenProbe)"

text \<open>
  The state is the time of the last report, or None when the process has ended: an exception of
  the report of a failed check is caught by the loop, one of the report of a timeout is raised
  inside an exception handler, where the loop's other handlers do not catch it.
\<close>

type_synonym agent_state = "real option"

definition due :: "agent_cfg \<Rightarrow> real \<Rightarrow> real \<Rightarrow> bool" where
  "due c now prev \<longleftrightarrow> real_of_int (ac_suppress c) \<le> now - prev"

definition report_failure ::
    "agent_cfg \<Rightarrow> kube \<Rightarrow> int \<Rightarrow> string \<Rightarrow> string \<Rightarrow> string \<Rightarrow> string program" where
  "report_failure c k ts checked_at reason message =
     (let f = nhc_event c ts reason message checked_at in call (CreateFaultEvent f) (\<lambda>h. k_create_event k h f))"

fun agent_round ::
    "agent_cfg \<Rightarrow> kube \<Rightarrow> real \<times> int \<times> string \<times> probe \<Rightarrow> real \<Rightarrow> history \<Rightarrow> (bool \<times> agent_state) \<times> history" where
  "agent_round c k (now, ts, checked_at, ProbeDone code out err) prev h =
     (if classify_probe code out err = Unhealthy \<and> due c now prev
      then case report_failure c k ts checked_at ''run_nhc_failed'' (nhc_message code out err) h of
             (Inr name, h1) \<Rightarrow> ((True, Some now), h1)
           | (Inl e, h1) \<Rightarrow> ((False, Some prev), h1)
      else ((False, Some prev), h))"
| "agent_round c k (now, ts, checked_at, ProbeTimeout out err) prev h =
     (if ac_timeout_is_failure c \<and> due c now prev
      then case report_failure c k ts checked_at ''run_nhc_timeout'' (nhc_message 124 out err) h of
             (Inr name, h1) \<Rightarrow> ((True, Some now), h1)
           | (Inl e, h1) \<Rightarrow> ((False, None), h1)
      else ((False, Some prev), h))"
| "agent_round c k (now, ts, checked_at, ProbeFailed) prev h = ((False, Some prev), h)"

text \<open>A run gives the times of the reports that were created.\<close>

fun agent_run ::
    "agent_cfg \<Rightarrow> kube \<Rightarrow> (real \<times> int \<times> string \<times> probe) list \<Rightarrow> agent_state \<Rightarrow> history \<Rightarrow> (real list \<times> agent_state) \<times> history" where
  "agent_run c k [] s h = (([], s), h)"
| "agent_run c k (r # rs) None h = (([], None), h)"
| "agent_run c k (r # rs) (Some prev) h =
     (case agent_round c k r prev h of
        ((sent, s), h1) \<Rightarrow>
          case agent_run c k rs s h1 of
            ((ts, s2), h2) \<Rightarrow> (((if sent then fst r # ts else ts), s2), h2))"

section \<open>Properties\<close>

lemma agent_round_sent:
  "agent_round c k r prev h = ((True, s), h1) \<Longrightarrow> s = Some (fst r) \<and> real_of_int (ac_suppress c) \<le> fst r - prev"
  by (cases "(c, k, r, prev, h)" rule: agent_round.cases) (auto simp: due_def split: if_splits prod.splits sum.splits)

lemma agent_round_not_sent:
  "agent_round c k r prev h = ((False, s), h1) \<Longrightarrow> s \<in> {Some prev, None}"
  by (cases "(c, k, r, prev, h)" rule: agent_round.cases) (auto split: if_splits prod.splits sum.splits)

lemma agent_run_spaced:
  assumes "agent_run c k rs (Some prev) h = ((ts, s), h1)" "0 \<le> ac_suppress c"
  shows "sorted_wrt (\<lambda>a b. real_of_int (ac_suppress c) \<le> b - a) (prev # ts)"
  using assms(1)
proof (induction rs arbitrary: prev h ts s h1)
  case (Cons r rs)
  obtain sent s1 h2 where round: "agent_round c k r prev h = ((sent, s1), h2)" by (metis prod.exhaust)
  obtain ts1 s2 h3 where run: "agent_run c k rs s1 h2 = ((ts1, s2), h3)" by (metis prod.exhaust)
  have ts: "ts = (if sent then fst r # ts1 else ts1)" using Cons.prems round run by simp
  show ?case
  proof (cases sent)
    case True
    then have s1: "s1 = Some (fst r)" "real_of_int (ac_suppress c) \<le> fst r - prev"
      using agent_round_sent round by auto
    have "sorted_wrt (\<lambda>a b. real_of_int (ac_suppress c) \<le> b - a) (fst r # ts1)"
      using Cons.IH run s1(1) by simp
    then show ?thesis using s1(2) assms(2) by (auto simp: ts True)
  next
    case False
    then have "s1 \<in> {Some prev, None}" using agent_round_not_sent round by auto
    moreover have "ts1 = []" if "s1 = None" using run that by (cases rs) simp_all
    ultimately show ?thesis using Cons.IH run ts False by auto
  qed
qed simp

text \<open>
  However the checks end and whatever the API answers, two reports of one agent process are
  at least the suppression time apart, and no report comes earlier than that after the start of
  the epoch's clock.
\<close>
theorem health_reports_are_spaced:
  assumes "0 \<le> ac_suppress c"
  shows "sorted_wrt (\<lambda>a b. real_of_int (ac_suppress c) \<le> b - a) (0 # fst (fst (agent_run c k rs (Some 0) h)))"
  using agent_run_spaced [OF _ assms] by (metis prod.collapse)

text \<open>
  The operator treats every event of the agent as explicit evidence about its node, the
  highest class, although the agent states no class.
\<close>
theorem agent_events_are_explicit:
  "infer_fault_class (nhc_event c ts reason message checked_at) = ''explicit_node''
   \<and> class_priority (nhc_event c ts reason message checked_at) = 300
   \<and> fs_node (fe_spec (nhc_event c ts reason message checked_at)) = ac_node c"
proof -
  have "py_lower ''NodeHealthCheckFailed'' = ''nodehealthcheckfailed''" "py_lower [] = []" by code_simp+
  then show ?thesis
    by (simp add: infer_fault_class_def class_priority_def nhc_event_def fault_class_priority_def Let_def)
qed

text \<open>
  When a report is due and the API refuses it, a failed check leaves the agent running with
  the report still due, but a timed-out check that counts as a failure ends the process, with
  every later round lost.
\<close>
theorem refused_timeout_report_ends_the_agent:
  assumes "due c now prev" "\<forall>f. \<exists>e. k_create_event k h f = Inl e"
    and "classify_probe code out err = Unhealthy" "ac_timeout_is_failure c"
  shows "snd (fst (agent_round c k (now, ts, tx, ProbeDone code out err) prev h)) = Some prev
    \<and> agent_run c k ((now, ts, tx, ProbeTimeout out2 err2) # rs) (Some prev) h =
      (([], None), h @ [CreateFaultEvent (nhc_event c ts ''run_nhc_timeout'' (nhc_message 124 out2 err2) tx)])"
proof -
  have "\<exists>e. report_failure c k ts tx reason message h
      = (Inl e, h @ [CreateFaultEvent (nhc_event c ts reason message tx)])" for reason message
    using assms(2) by (simp add: report_failure_def call_def Let_def)
  note refused = this [of "''run_nhc_failed''" "nhc_message code out err"] this [of "''run_nhc_timeout''" "nhc_message 124 out2 err2"]
  have "agent_run c k rs None h1 = (([], None), h1)" for h1 by (cases rs) simp_all
  then show ?thesis using refused assms(1,3,4) by auto
qed

subsection \<open>Concrete runs\<close>

definition sample_agent :: agent_cfg where
  "sample_agent = \<lparr>ac_namespace = ''ft'', ac_node = ''Node_1'', ac_suppress = 300, ac_timeout_is_failure = True,
     ac_taint = False, ac_delete_pods = False\<rparr>"

theorem health_reports_are_spaced_witness:
  "sorted_wrt (\<lambda>a b. 300 \<le> b - a)
    (0 # fst (fst (agent_run sample_agent sample_kube
       [(400, 400, [], ProbeDone 2 [] []), (500, 500, [], ProbeDone 2 [] []), (700, 700, [], ProbeTimeout [] [])]
       (Some 0) [])))"
  using health_reports_are_spaced [of sample_agent sample_kube
    "[(400, 400, [], ProbeDone 2 [] []), (500, 500, [], ProbeDone 2 [] []), (700, 700, [], ProbeTimeout [] [])]" "[]"]
  by (simp add: sample_agent_def)

definition refusing_kube :: kube where
  "refusing_kube = sample_kube \<lparr>k_create_event := \<lambda>h f. Inl (ApiError 409 [])\<rparr>"

theorem refused_timeout_report_ends_the_agent_witness:
  "snd (fst (agent_round sample_agent refusing_kube (400, 400, [], ProbeDone 2 [] []) 0 [])) = Some 0
    \<and> agent_run sample_agent refusing_kube [(400, 400, [], ProbeTimeout [] []), (800, 800, [], ProbeDone 2 [] [])] (Some 0) [] =
      (([], None), [CreateFaultEvent (nhc_event sample_agent 400 ''run_nhc_timeout'' (nhc_message 124 [] []) [])])"
  using refused_timeout_report_ends_the_agent [of sample_agent 400 0 refusing_kube "[]" 2 "[]" "[]" 400 "[]" "[]" "[]"
      "[(800, 800, [], ProbeDone 2 [] [])]"]
  by (simp add: sample_agent_def refusing_kube_def due_def classify_probe_def)

lemma sample_agent_reports:
  "fst (fst (agent_run sample_agent sample_kube
       [(400, 400, [], ProbeDone 2 [] []), (500, 500, [], ProbeDone 2 [] []), (700, 700, [], ProbeTimeout [] [])]
       (Some 0) [])) = [400, 700]"
  by (simp add: sample_agent_def due_def classify_probe_def report_failure_def call_def sample_kube_def Let_def)

end
