(* ===== verification/EnvResult.thy ===== *)
theory EnvResult
  imports StackModel LogParser
begin

text \<open>
  The conclusion about one task of the environment check
  (\<^verbatim>\<open>hcu_envcheck/reporting/model.py\<close> and \<^verbatim>\<open>parsers.py\<close>): the execution facts of the
  task, the evidence found in its logs, and the status that both justify.  A log is the list of
  its cleaned lines; a TSV row is an association list with its columns.  The texts of details,
  the paths of evidence and the metrics that no status depends on are left out, and so are the
  rules behind the health checks (environment.py, preflight.py): their findings are an argument.
\<close>

section \<open>Rows, numbers and reasons\<close>

type_synonym row = "(string \<times> string) list"

definition cell :: "row \<Rightarrow> string \<Rightarrow> string \<Rightarrow> string" where
  "cell r key dflt = (case map_of r key of None \<Rightarrow> dflt | Some v \<Rightarrow> v)"

text \<open>\<^verbatim>\<open>number(value)\<close>: a finite float, otherwise None.\<close>

definition number :: "string \<Rightarrow> real option" where
  "number s = (case py_float_of s of Some (Fin x) \<Rightarrow> Some x | _ \<Rightarrow> None)"

definition number_or :: "real \<Rightarrow> string \<Rightarrow> real" where
  "number_or dflt s = (case number s of None \<Rightarrow> dflt | Some x \<Rightarrow> x)"

definition terminal_states :: "string list" where
  "terminal_states = [''PASS'', ''FAIL'', ''TIMEOUT'', ''BLOCKED'', ''NA'', ''CANCELLED'', ''WARN'']"

definition valid_conclusions :: "string list" where
  "valid_conclusions = [''PASS'', ''WARN'']"

definition reason_codes :: "string list" where
  "reason_codes = [''OK'', ''PASS'', ''NA'', ''RUNNING'', ''PENDING'', ''EXECUTION_FAILED'', ''INCOMPLETE'',
     ''TIMEOUT'', ''CANCELLED'', ''LOG_WRITE_FAILED'', ''CHECK_FAILED'', ''CHECK_WARN'', ''CHECK_INCOMPLETE'',
     ''BELOW_BASELINE'', ''BASELINE_MISSING'', ''METRIC_MISSING'', ''CASE_FAILED'', ''STABILITY_FAILED'',
     ''CLEANUP_UNCONFIRMED'', ''CONTAINER_ABSENT'', ''CONTAINER_STOPPED'', ''IMAGE_MISMATCH'', ''NODE_UNREACHABLE'']"

definition execution_reasons :: "string list" where
  "execution_reasons = [''EXECUTION_FAILED'', ''INCOMPLETE'', ''TIMEOUT'', ''CANCELLED'', ''LOG_WRITE_FAILED'', ''CHECK_INCOMPLETE'']"

definition performance_reasons :: "string list" where
  "performance_reasons = [''BELOW_BASELINE'', ''BASELINE_MISSING'', ''METRIC_MISSING'', ''STABILITY_FAILED'', ''CASE_FAILED'']"

definition correctness_reasons :: "string list" where
  "correctness_reasons = [''CHECK_FAILED'', ''CHECK_WARN'', ''PASS'', ''OK'', ''NA'']"

datatype category = CleanupCat | ExecutionCat | PerformanceCat | CorrectnessCat | SchedulingCat | OtherCat

definition reason_category :: "string \<Rightarrow> string \<Rightarrow> category" where
  "reason_category status reason =
     (let code = py_strip reason in
      if code = ''CLEANUP_UNCONFIRMED'' then CleanupCat
      else if code \<in> set execution_reasons then ExecutionCat
      else if code \<in> set performance_reasons then PerformanceCat
      else if code \<in> set correctness_reasons then CorrectnessCat
      else if status \<in> {''PENDING'', ''RUNNING''} \<or> code \<in> {''RUNNING'', ''PENDING''} then SchedulingCat
      else OtherCat)"

section \<open>A result\<close>

record check =
  ck_node :: string
  ck_name :: string
  ck_status :: string

record result =
  rs_stage :: string
  rs_item :: string
  rs_iter :: string
  rs_group :: string
  rs_nodes :: string
  rs_status :: string
  rs_exit :: string
  rs_cleanup :: string
  rs_reason :: string
  rs_dispatched :: bool
  rs_checks :: "check list"

definition fail_with :: "string \<Rightarrow> result \<Rightarrow> result" where
  "fail_with code r = r \<lparr>rs_status := ''FAIL'', rs_reason := code\<rparr>"

section \<open>The collective bandwidth test\<close>

text \<open>
  The evidence of a log: the planned sizes, the processes with their devices, the end marker, and
  the rows of the table with their bandwidths and their counters of wrong elements.
\<close>

record rccl_evidence =
  ev_header :: "(nat \<times> nat \<times> real) option"
  ev_ids :: "nat list"
  ev_devices :: "(string \<times> nat) list"
  ev_dups :: nat
  ev_ended :: bool
  ev_sizes :: "nat list"
  ev_buses :: "real list"
  ev_invalid :: nat
  ev_wrong_out :: nat
  ev_wrong_in :: nat

definition no_evidence :: rccl_evidence where
  "no_evidence = \<lparr>ev_header = None, ev_ids = [], ev_devices = [], ev_dups = 0, ev_ended = False,
     ev_sizes = [], ev_buses = [], ev_invalid = 0, ev_wrong_out = 0, ev_wrong_in = 0\<rparr>"

definition header_rx :: rx where
  "header_rx = seqs [Txt ''minBytes '', Grp 1 digs, Txt '' maxBytes '', Grp 2 digs, Txt '' step: '', Grp 3 decimal,
     Txt ''(factor)'']"

definition rank_rx :: rx where
  "rank_rx = seqs [Txt ''#'', spaces1, Txt ''Rank'', spaces1, Grp 1 digs, spaces1, Txt ''Group'', spaces1, digs, spaces1,
     Txt ''Pid'', spaces1, digs, spaces1, Txt ''on'', spaces1, Grp 2 (plus (Cls (\<lambda>c. \<not> is_ws c))), spaces1,
     Txt ''device'', spaces1, Grp 3 digs]"

text \<open>A planned header; its factor may be no number (\<^verbatim>\<open>float\<close> raises).\<close>

definition header_of :: "string \<Rightarrow> (nat \<times> nat \<times> py_float option) option" where
  "header_of line = (case rx_search header_rx line of None \<Rightarrow> None
     | Some m \<Rightarrow> Some (nat_of_digits (cap_text 1 m), nat_of_digits (cap_text 2 m), py_float_of (cap_text 3 m)))"

definition rank_of :: "string \<Rightarrow> (nat \<times> string \<times> nat) option" where
  "rank_of line = (case rx_match rank_rx line of None \<Rightarrow> None
     | Some m \<Rightarrow> Some (nat_of_digits (cap_text 1 m), cap_text 2 m, nat_of_digits (cap_text 3 m)))"

definition all_digits :: "string \<Rightarrow> bool" where
  "all_digits s = (s \<noteq> [] \<and> list_all is_digit s)"

text \<open>A line of the table: the size, the two bus bandwidths and the two counters, or a broken row.\<close>

datatype table_line = NoRow | BadRow | GoodRow nat real real nat nat

definition table_line_of :: "string \<Rightarrow> table_line" where
  "table_line_of line =
     (let cs = py_words line in
      if 8 \<le> length cs \<and> all_digits (cs ! 0) \<and> all_digits (cs ! 1) then
        if length cs < 13 \<or> \<not> all_digits (cs ! 8) \<or> \<not> (all_digits (cs ! 12) \<or> cs ! 12 = ''N/A'') then BadRow
        else case (number (cs ! 6), number (cs ! 7), number (cs ! 10), number (cs ! 11)) of
               (Some a, Some b, Some c, Some d) \<Rightarrow>
                 GoodRow (nat_of_digits (cs ! 0)) b d (nat_of_digits (cs ! 8))
                   (if all_digits (cs ! 12) then nat_of_digits (cs ! 12) else 0)
             | _ \<Rightarrow> BadRow
      else NoRow)"

definition see_header :: "string \<Rightarrow> rccl_evidence \<Rightarrow> rccl_evidence option" where
  "see_header line ev =
     (if ev_header ev \<noteq> None then Some ev
      else case header_of line of
             None \<Rightarrow> Some ev
           | Some (a, b, Some (Fin f)) \<Rightarrow> Some (ev \<lparr>ev_header := Some (a, b, f)\<rparr>)
           | Some _ \<Rightarrow> None)"

definition see_rank :: "string \<Rightarrow> rccl_evidence \<Rightarrow> rccl_evidence" where
  "see_rank line ev =
     (case rank_of line of
        None \<Rightarrow> ev
      | Some (i, node, dev) \<Rightarrow>
          (let known = (node, dev) \<in> set (ev_devices ev) \<or> i \<in> set (ev_ids ev) in
           ev \<lparr>ev_ids := ev_ids ev @ [i], ev_dups := (if known then Suc (ev_dups ev) else ev_dups ev),
               ev_devices := (if known then ev_devices ev else ev_devices ev @ [(node, dev)])\<rparr>))"

definition see_end :: "string \<Rightarrow> rccl_evidence \<Rightarrow> rccl_evidence" where
  "see_end line ev = (if contains_sub ''rccl test done'' line then ev \<lparr>ev_ended := True\<rparr> else ev)"

definition see_row :: "string \<Rightarrow> rccl_evidence \<Rightarrow> rccl_evidence" where
  "see_row line ev =
     (case table_line_of line of
        NoRow \<Rightarrow> ev
      | BadRow \<Rightarrow> ev \<lparr>ev_invalid := Suc (ev_invalid ev)\<rparr>
      | GoodRow sz bus_out bus_in wrong_out wrong_in \<Rightarrow>
          ev \<lparr>ev_sizes := ev_sizes ev @ [sz], ev_buses := ev_buses ev @ [bus_out, bus_in],
              ev_wrong_out := ev_wrong_out ev + wrong_out, ev_wrong_in := ev_wrong_in ev + wrong_in\<rparr>)"

text \<open>None is an exception that escapes the parser.\<close>

fun collect :: "string list \<Rightarrow> rccl_evidence \<Rightarrow> rccl_evidence option" where
  "collect [] ev = Some ev"
| "collect (line # lines) ev =
     (case see_header line ev of
        None \<Rightarrow> None
      | Some ev1 \<Rightarrow> collect lines (see_row line (see_end line (see_rank line ev1))))"

text \<open>The planned sizes, at most 128.\<close>

fun ladder :: "nat \<Rightarrow> nat \<Rightarrow> nat \<Rightarrow> real \<Rightarrow> nat list" where
  "ladder 0 sz most factor = []"
| "ladder (Suc n) sz most factor =
     (if sz \<le> most then sz # ladder n (if 1 < factor then nat \<lfloor>real sz * factor\<rfloor> else Suc most) most factor
      else [])"

definition positive_sizes :: "rccl_evidence \<Rightarrow> nat list" where
  "positive_sizes ev = sorted_set (filter (\<lambda>s. 0 < s) (ev_sizes ev))"

definition expected_sizes :: "rccl_evidence \<Rightarrow> nat list" where
  "expected_sizes ev =
     (case (ev_header ev, positive_sizes ev) of
        (Some (least, most, factor), first # rest) \<Rightarrow> filter (\<lambda>s. first \<le> s) (ladder 128 least most factor)
      | _ \<Rightarrow> [])"

definition missing_sizes :: "rccl_evidence \<Rightarrow> nat list" where
  "missing_sizes ev = sorted_set (filter (\<lambda>s. s \<notin> set (positive_sizes ev)) (expected_sizes ev))"

text \<open>The largest value of a list, None when it is empty.\<close>

definition peak_of :: "real list \<Rightarrow> real option" where
  "peak_of xs = (case xs of [] \<Rightarrow> None | x # rest \<Rightarrow> Some (fold max rest x))"

definition rccl_verdict :: "row \<Rightarrow> row \<Rightarrow> rccl_evidence \<Rightarrow> result \<Rightarrow> result" where
  "rccl_verdict plan execution ev r =
     (let baseline = number (cell plan ''baseline_busbw_gbps'' []); margin = number (cell plan ''margin_pct'' []);
          np = number (cell plan ''np'' []) in
      if number_or (- 1) (rs_exit r) \<noteq> 0 \<or> number_or (- 1) (cell execution ''exit_code'' []) \<noteq> 0
      then fail_with ''EXECUTION_FAILED'' r
      else case (baseline, margin, np) of
        (Some b, Some m, Some n) \<Rightarrow>
          if b \<le> 0 \<or> n \<le> 0 \<or> \<not> (0 \<le> m \<and> m \<le> 100) then fail_with ''BASELINE_MISSING'' r
          else if ev_sizes ev = [] then fail_with ''DATA_TABLE_MISSING'' r
          else if ev_header ev = None then fail_with ''PLAN_HEADER_MISSING'' r
          else if positive_sizes ev = [] then fail_with ''DATA_TABLE_INCOMPLETE'' r
          else if ev_invalid ev \<noteq> 0 then fail_with ''DATA_ROWS_INVALID'' r
          else if missing_sizes ev \<noteq> [] then fail_with ''DATA_TABLE_INCOMPLETE'' r
          else if ev_wrong_out ev \<noteq> 0 \<or> ev_wrong_in ev \<noteq> 0 then fail_with ''CORRECTNESS_FAILED'' r
          else if \<not> ev_ended ev then fail_with ''END_EVIDENCE_MISSING'' r
          else if ev_devices ev = [] then fail_with ''ACTUAL_SCALE_MISSING'' r
          else if ev_dups ev \<noteq> 0 then fail_with ''ACTUAL_SCALE_DUPLICATE'' r
          else if int (length (ev_devices ev)) \<noteq> \<lfloor>n\<rfloor> then fail_with ''SCALE_MISMATCH'' r
          else (case peak_of (ev_buses ev) of
                  None \<Rightarrow> fail_with ''METRIC_MISSING'' r
                | Some peak \<Rightarrow>
                    if peak < b * (1 - m / 100) then fail_with ''BELOW_BASELINE'' r
                    else if rs_status r = ''PASS'' then r \<lparr>rs_reason := ''PASS''\<rparr> else r)
      | _ \<Rightarrow> fail_with ''BASELINE_MISSING'' r)"

definition rccl :: "row \<Rightarrow> row \<Rightarrow> string list \<Rightarrow> result \<Rightarrow> result option" where
  "rccl plan execution lns r =
     (if execution = [] \<and> rs_status r = ''FAIL'' then Some r
      else case collect lns no_evidence of
             None \<Rightarrow> None
           | Some ev \<Rightarrow> Some (if rs_status r \<in> {''PASS'', ''FAIL''} then rccl_verdict plan execution ev r else r))"

section \<open>The bandwidth of DeepEP\<close>

definition lowl_rx :: rx where
  "lowl_rx = seqs [Txt ''Dispatch + combine bandwidth:'', spaces, Grp 1 decimal, Txt '' GB/s'']"

definition tuning_rx :: rx where
  "tuning_rx = seqs [Txt ''[tuning] Best dispatch'', Lazy any_char, Grp 1 decimal, Txt '' GB/s ('',
     Alt (Txt ''RDMA'') (Txt ''NVL''), Txt '')'']"

definition deepep_values :: "string \<Rightarrow> string list \<Rightarrow> real list" where
  "deepep_values item lns =
     List.map_filter (\<lambda>line. case rx_search (if item = ''lowl'' then lowl_rx else tuning_rx) line of
       None \<Rightarrow> None | Some m \<Rightarrow> number (cap_text 1 m)) lns"

definition deepep :: "string list \<Rightarrow> result \<Rightarrow> result" where
  "deepep lns r =
     (let values = deepep_values (rs_item r) lns in
      if rs_status r = ''PASS'' \<and> (values = [] \<or> Min (set values) \<le> 0) then fail_with ''METRIC_MISSING'' r else r)"

section \<open>The byte-flux sweep\<close>

definition flux_sizes :: "nat list" where
  "flux_sizes = [2048, 2176, 2304, 2560, 3072, 4096, 4160, 4352, 4608, 5120, 6144, 8192, 16384, 32768, 65536, 131072]"

definition flux_expected_cases :: "string list" where
  "flux_expected_cases =
     map (\<lambda>s. ''ag-'' @ show_nat s @ ''x10240'') flux_sizes @ map (\<lambda>s. ''ag-'' @ show_nat s @ ''x57344'') flux_sizes
     @ map (\<lambda>s. ''gemmrs-'' @ show_nat s @ ''x8192x8192'') flux_sizes
     @ map (\<lambda>s. ''gemmrs-'' @ show_nat s @ ''x8192x28672'') flux_sizes"

record flux_case =
  fc_starts :: nat
  fc_retries :: nat
  fc_outcomes :: "bool list"

record flux_state =
  fx_declared :: "real option"
  fx_finished :: nat
  fx_cases :: "(string \<times> flux_case) list"

definition flux_start_rx :: rx where
  "flux_start_rx = seqs [AtStart, Txt ''flux-70b sweep start cases='', Grp 1 digs, AtEnd]"

definition flux_end_rx :: rx where
  "flux_end_rx = seqs [AtStart, Txt ''flux-70b sweep '', Alt (Txt ''PASS'') (Txt ''FAIL''), AtEnd]"

definition flux_case_rx :: rx where
  "flux_case_rx = seqs [AtStart, Txt ''flux-70b case '', Grp 1 (plus (Cls (\<lambda>c. \<not> is_ws c))), Txt '' '',
     Grp 2 (Alt (Txt ''start'') (Alt (Txt ''retry'') (Alt (Txt ''PASS'') (Seq (Txt ''FAIL rc='') digs)))), AtEnd]"

definition flux_outcome :: "string \<Rightarrow> flux_case \<Rightarrow> flux_case" where
  "flux_outcome outcome c =
     (if outcome = ''start'' then c \<lparr>fc_starts := Suc (fc_starts c)\<rparr>
      else if outcome = ''retry'' then c \<lparr>fc_retries := Suc (fc_retries c)\<rparr>
      else c \<lparr>fc_outcomes := fc_outcomes c @ [outcome = ''PASS'']\<rparr>)"

definition flux_line :: "string \<Rightarrow> flux_state \<Rightarrow> flux_state" where
  "flux_line line s =
     (let tx = py_strip line in
      case rx_search flux_start_rx tx of
        Some m \<Rightarrow> s \<lparr>fx_declared := number (cap_text 1 m)\<rparr>
      | None \<Rightarrow>
          if rx_search flux_end_rx tx \<noteq> None then s \<lparr>fx_finished := Suc (fx_finished s)\<rparr>
          else case rx_search flux_case_rx tx of
                 None \<Rightarrow> s
               | Some m \<Rightarrow>
                   (let name = cap_text 1 m;
                        c = (case map_of (fx_cases s) name of None \<Rightarrow> \<lparr>fc_starts = 0, fc_retries = 0, fc_outcomes = []\<rparr>
                             | Some c \<Rightarrow> c) in
                    s \<lparr>fx_cases := dict_update name (flux_outcome (cap_text 2 m) c) (fx_cases s)\<rparr>))"

definition flux_read :: "string list list \<Rightarrow> flux_state" where
  "flux_read logs = fold flux_line (concat logs) \<lparr>fx_declared = None, fx_finished = 0, fx_cases = []\<rparr>"

definition final_fail :: "flux_state \<Rightarrow> string list" where
  "final_fail s = map fst (filter (\<lambda>(n, c). fc_outcomes c \<noteq> [] \<and> \<not> List.last (fc_outcomes c)) (fx_cases s))"

definition missing_cases :: "flux_state \<Rightarrow> string list" where
  "missing_cases s =
     filter (\<lambda>n. case map_of (fx_cases s) n of None \<Rightarrow> True | Some c \<Rightarrow> fc_outcomes c = []) flux_expected_cases"

definition unknown_cases :: "flux_state \<Rightarrow> string list" where
  "unknown_cases s = sort (filter (\<lambda>n. n \<notin> set flux_expected_cases) (map fst (fx_cases s)))"

definition duplicate_cases :: "flux_state \<Rightarrow> string list" where
  "duplicate_cases s = sort (map fst (filter (\<lambda>(n, c). 1 < fc_starts c \<or> 2 < length (fc_outcomes c)) (fx_cases s)))"

definition byte_flux :: "string list list \<Rightarrow> result \<Rightarrow> result" where
  "byte_flux logs r =
     (let s = flux_read logs in
      if rs_status r = ''PASS'' then
        if final_fail s \<noteq> [] then fail_with ''CASE_FAILED'' r
        else if missing_cases s \<noteq> [] then fail_with ''INCOMPLETE'' r
        else if unknown_cases s \<noteq> [] then fail_with ''INCOMPLETE'' r
        else if duplicate_cases s \<noteq> [] then fail_with ''CASE_DUPLICATED'' r
        else if fx_declared s \<noteq> None \<and> fx_declared s \<noteq> Some (real (length flux_expected_cases))
        then fail_with ''MARKER_CONFLICT'' r
        else if fx_finished s < length logs then fail_with ''INCOMPLETE'' r
        else r \<lparr>rs_reason := ''PASS''\<rparr>
      else r)"

section \<open>The deep check\<close>

definition section_names :: "string list" where
  "section_names = [''ACS'', ''XDP'', ''RDMA'', ''ibv_devinfo'']"

definition section_rx :: rx where
  "section_rx = seqs [Txt ''===='', spaces, Grp 1 (Cls (\<lambda>c. CHR ''1'' \<le> c \<and> c \<le> CHR ''4'')), Txt ''. '',
     Star any_char, Txt ''===='']"

definition mark_rx :: rx where
  "mark_rx = seqs [Txt ''['', Grp 1 (Alt (Txt ''PASS'') (Alt (Txt ''WARN'') (Txt ''FAIL''))), Txt '']'', spaces, Star any_char]"

text \<open>The marks of every section, and the section that is open.\<close>

type_synonym deep_state = "(string \<times> string list) list \<times> string option"

definition deep_line :: "string \<Rightarrow> deep_state \<Rightarrow> deep_state" where
  "deep_line line s =
     (case rx_search section_rx line of
        Some m \<Rightarrow> (let name = section_names ! (nat_of_digits (cap_text 1 m) - 1) in (dict_update name [] (fst s), Some name))
      | None \<Rightarrow>
          if contains_sub ''===='' line then (fst s, None)
          else case (snd s, rx_search mark_rx line) of
                 (Some name, Some m) \<Rightarrow>
                   (dict_update name ((case map_of (fst s) name of None \<Rightarrow> [] | Some ms \<Rightarrow> ms) @ [cap_text 1 m]) (fst s), Some name)
               | _ \<Rightarrow> s)"

definition mark_severity :: "string \<Rightarrow> nat" where
  "mark_severity m = (if m = ''PASS'' then 0 else if m = ''WARN'' then 1 else 2)"

text \<open>The first of the most severe marks.\<close>

definition worst_mark :: "string list \<Rightarrow> string" where
  "worst_mark ms = (case ms of [] \<Rightarrow> ''INCOMPLETE''
     | m # rest \<Rightarrow> fold (\<lambda>x best. if mark_severity best < mark_severity x then x else best) rest m)"

definition deep_checks :: "string \<Rightarrow> string \<Rightarrow> string list \<Rightarrow> check list" where
  "deep_checks node exit_code lns =
     (let sections = fst (fold deep_line lns ([], None)); rc = number_or (- 1) exit_code in
      map (\<lambda>name. \<lparr>ck_node = node, ck_name = name,
             ck_status = worst_mark (case map_of sections name of None \<Rightarrow> [] | Some ms \<Rightarrow> ms)\<rparr>) section_names
      @ (if rc \<in> {0, 1, 2} then [] else [\<lparr>ck_node = node, ck_name = ''execution'', ck_status = ''FAIL''\<rparr>]))"

definition check_deep :: "(string \<times> string \<times> string list) list \<Rightarrow> result \<Rightarrow> result" where
  "check_deep nodes r =
     (let checks = concat (map (\<lambda>(node, rc, lns). deep_checks node rc lns) nodes); r = r \<lparr>rs_checks := checks\<rparr> in
      if rs_status r \<in> {''PASS'', ''FAIL'', ''WARN''} \<and> checks \<noteq> [] then
        if list_ex (\<lambda>c. ck_status c \<in> {''FAIL'', ''INCOMPLETE''}) checks then fail_with ''CHECK_FAILED'' r
        else if number_or (- 1) (rs_exit r) \<notin> {0, 2} then fail_with ''EXECUTION_FAILED'' r
        else if list_ex (\<lambda>c. ck_status c = ''WARN'') checks then r \<lparr>rs_status := ''WARN'', rs_reason := ''CHECK_WARN''\<rparr>
        else if rs_status r = ''PASS'' then r \<lparr>rs_reason := ''PASS''\<rparr> else r
      else r)"

section \<open>Health checks\<close>

definition health_conclusion :: "check list \<Rightarrow> string \<Rightarrow> result \<Rightarrow> result" where
  "health_conclusion checks label r =
     (if rs_reason r \<in> {''EXECUTION_FAILED'', ''INCOMPLETE''} \<or> rs_status r \<notin> {''PASS'', ''FAIL'', ''WARN''} then r
      else if list_ex (\<lambda>c. ck_status c = ''FAIL'') checks
      then (if rs_status r \<noteq> ''FAIL'' then fail_with (label @ ''_HEALTH_FAILED'') r else r)
      else if list_ex (\<lambda>c. ck_status c \<in> {''WARN'', ''UNKNOWN''}) checks
      then (if rs_status r = ''PASS'' then r \<lparr>rs_status := ''WARN'', rs_reason := label @ ''_HEALTH_WARN''\<rparr> else r)
      else if rs_status r = ''PASS'' then r \<lparr>rs_reason := label @ ''_HEALTH_PASS''\<rparr> else r)"

section \<open>A task\<close>

record stage =
  st_id :: string
  st_item :: string
  st_iter :: string

record group_plan =
  gp_name :: string
  gp_nodes :: string

text \<open>
  The files of a task: its row as first read and as read again, the rows of its nodes, the plan
  and the execution rows of the collective test, and its logs by the name in the row (a separate
  function for the log of the collective test, whose names are relative to another directory).
\<close>

record task_files =
  tf_task :: "row list"
  tf_reread :: "row list"
  tf_nodes :: "row list"
  tf_plan :: "row list"
  tf_execution :: "row list"
  tf_log :: "string \<Rightarrow> string list"
  tf_test_log :: "string \<Rightarrow> string list"

definition first_row :: "row list \<Rightarrow> row" where
  "first_row rs = (case rs of [] \<Rightarrow> [] | r # _ \<Rightarrow> r)"

definition row_of :: "string \<Rightarrow> string \<Rightarrow> row list \<Rightarrow> row" where
  "row_of key value rs = (case List.find (\<lambda>r. map_of r key = Some value) rs of None \<Rightarrow> [] | Some r \<Rightarrow> r)"

definition node_log :: "task_files \<Rightarrow> row \<Rightarrow> string list" where
  "node_log f n = tf_log f (cell n ''log'' [])"

text \<open>The rows that count: on the final pass a task that has not ended is read once more.\<close>

definition task_rows :: "task_files \<Rightarrow> bool \<Rightarrow> row list" where
  "task_rows f final =
     (if final \<and> cell (first_row (tf_task f)) ''status'' ''PENDING'' \<notin> set terminal_states then tf_reread f else tf_task f)"

definition task_fact :: "task_files \<Rightarrow> bool \<Rightarrow> row" where
  "task_fact f final = first_row (task_rows f final)"

definition start_result :: "task_files \<Rightarrow> stage \<Rightarrow> group_plan \<Rightarrow> bool \<Rightarrow> result" where
  "start_result f st g final =
     (let facts = task_fact f final in
      \<lparr>rs_stage = st_id st, rs_item = st_item st, rs_iter = st_iter st, rs_group = gp_name g, rs_nodes = gp_nodes g,
       rs_status = cell facts ''status'' ''PENDING'', rs_exit = cell facts ''exit_code'' [],
       rs_cleanup = cell facts ''cleanup'' ''NOT_STARTED'', rs_reason = cell facts ''reason_code'' [],
       rs_dispatched = (task_rows f final \<noteq> [] \<and> map_of facts ''status'' \<noteq> Some ''BLOCKED''), rs_checks = []\<rparr>)"

definition planned_nodes :: "group_plan \<Rightarrow> string list" where
  "planned_nodes g = filter (\<lambda>n. n \<noteq> []) (split_on CHR '','' (gp_nodes g))"

definition first_node :: "group_plan \<Rightarrow> string" where
  "first_node g = hd (split_on CHR '','' (gp_nodes g))"

text \<open>Which nodes must have a row, and which exit codes a node may have.\<close>

definition required_nodes :: "string \<Rightarrow> group_plan \<Rightarrow> string list" where
  "required_nodes operation g =
     (if operation \<in> {''rccl'', ''deepep'', ''ib-write-bw''} then [first_node g] else planned_nodes g)"

definition allowed_codes :: "string \<Rightarrow> real list" where
  "allowed_codes operation = (if operation = ''check_deep'' then [0, 2] else [0])"

definition node_names :: "task_files \<Rightarrow> string option list" where
  "node_names f = map (\<lambda>n. map_of n ''node'') (tf_nodes f)"

definition node_codes_ok :: "string \<Rightarrow> task_files \<Rightarrow> bool" where
  "node_codes_ok operation f =
     list_all (\<lambda>n. number_or (- 1) (cell n ''exit_code'' []) \<in> set (allowed_codes operation)) (tf_nodes f)"

definition check_rows :: "string \<Rightarrow> task_files \<Rightarrow> group_plan \<Rightarrow> result \<Rightarrow> result" where
  "check_rows operation f g r =
     (if \<not> distinct (node_names f) \<or> \<not> Some ` set (required_nodes operation g) \<subseteq> set (node_names f)
      then fail_with ''INCOMPLETE'' r
      else if \<not> node_codes_ok operation f then fail_with ''EXECUTION_FAILED'' r
      else r)"

text \<open>The master's log of a DeepEP test: the one its row names, otherwise the task's.\<close>

definition deepep_log :: "task_files \<Rightarrow> group_plan \<Rightarrow> row \<Rightarrow> string list" where
  "deepep_log f g facts =
     (let n = row_of ''node'' (first_node g) (tf_nodes f) in tf_log f (cell n ''log'' (cell facts ''log'' [])))"

text \<open>
  The evidence of the operation.  The health checks of the nodes (of the platform and of the
  resources) are an argument.
\<close>

definition judge :: "string \<Rightarrow> (row list \<Rightarrow> check list) \<Rightarrow> (row list \<Rightarrow> check list) \<Rightarrow> task_files \<Rightarrow> group_plan \<Rightarrow> row
    \<Rightarrow> result \<Rightarrow> result option" where
  "judge operation platform resource f g facts r =
     (if operation = ''rccl'' then
        (let execution = row_of ''test'' (rs_item r) (tf_execution f) in
         rccl (row_of ''test'' (rs_item r) (tf_plan f)) execution (tf_test_log f (cell execution ''log'' [])) r)
      else if operation = ''deepep'' then Some (deepep (deepep_log f g facts) r)
      else if operation = ''byte-flux'' then Some (byte_flux (map (node_log f) (tf_nodes f)) r)
      else if operation = ''check_deep'' then
        Some (check_deep (map (\<lambda>n. (cell n ''node'' [], cell n ''exit_code'' [], node_log f n)) (tf_nodes f)) r)
      else
        (let r1 = (if operation \<in> {''platform'', ''platform,resource''}
                   then (let cs = platform (tf_nodes f) in health_conclusion cs ''PLATFORM'' (r \<lparr>rs_checks := cs\<rparr>)) else r)
         in Some (if operation \<in> {''resource'', ''platform,resource''}
                  then (let cs = rs_checks r1 @ resource (tf_nodes f) in health_conclusion cs ''RESOURCE'' (r1 \<lparr>rs_checks := cs\<rparr>))
                  else r1)))"

definition check_cleanup :: "result \<Rightarrow> result" where
  "check_cleanup r = (if rs_cleanup r \<noteq> ''CONFIRMED'' then fail_with ''CLEANUP_UNCONFIRMED'' r else r)"

definition parse :: "string \<Rightarrow> (row list \<Rightarrow> check list) \<Rightarrow> (row list \<Rightarrow> check list) \<Rightarrow> task_files \<Rightarrow> stage \<Rightarrow> group_plan
    \<Rightarrow> bool \<Rightarrow> result option" where
  "parse operation platform resource f st g final =
     (let r0 = start_result f st g final;
          r = (if final \<and> rs_status r0 \<notin> set terminal_states
               then r0 \<lparr>rs_status := ''INCOMPLETE'', rs_reason := ''INCOMPLETE''\<rparr> else r0) in
      if rs_status r = ''NA'' then
        Some (if rs_cleanup r \<noteq> ''CONFIRMED'' then r \<lparr>rs_reason := ''CLEANUP_UNCONFIRMED''\<rparr> else r)
      else if rs_status r \<notin> set terminal_states \<or> rs_status r \<in> {''BLOCKED'', ''CANCELLED'', ''TIMEOUT''} then Some r
      else map_option check_cleanup
             (judge operation platform resource f g (task_fact f final) (check_rows operation f g r)))"

section \<open>What an accepted bandwidth test shows\<close>

text \<open>The evidence read off the log directly.\<close>

definition log_rows :: "string list \<Rightarrow> (nat \<times> real list \<times> nat \<times> nat) list" where
  "log_rows lns = List.map_filter (\<lambda>line. case table_line_of line of
     GoodRow sz a b u v \<Rightarrow> Some (sz, [a, b], u, v) | _ \<Rightarrow> None) lns"

definition log_ranks :: "string list \<Rightarrow> (nat \<times> string \<times> nat) list" where
  "log_ranks lns = List.map_filter rank_of lns"

definition log_header :: "string list \<Rightarrow> (nat \<times> nat \<times> py_float option) option" where
  "log_header lns = (case List.map_filter header_of lns of [] \<Rightarrow> None | h # _ \<Rightarrow> Some h)"

definition log_broken :: "string list \<Rightarrow> bool" where
  "log_broken lns = list_ex (\<lambda>line. table_line_of line = BadRow) lns"

definition log_ended :: "string list \<Rightarrow> bool" where
  "log_ended lns = list_ex (contains_sub ''rccl test done'') lns"

lemma log_simps [simp]:
  "log_rows [] = []" "log_ranks [] = []" "log_header [] = None" "\<not> log_broken []" "\<not> log_ended []"
  "log_rows (l # ls) = (case table_line_of l of GoodRow sz a b u v \<Rightarrow> (sz, [a, b], u, v) # log_rows ls | _ \<Rightarrow> log_rows ls)"
  "log_ranks (l # ls) = (case rank_of l of None \<Rightarrow> log_ranks ls | Some x \<Rightarrow> x # log_ranks ls)"
  "log_header (l # ls) = (case header_of l of None \<Rightarrow> log_header ls | Some h \<Rightarrow> Some h)"
  "log_broken (l # ls) = (table_line_of l = BadRow \<or> log_broken ls)"
  "log_ended (l # ls) = (contains_sub ''rccl test done'' l \<or> log_ended ls)"
  by (simp_all add: log_rows_def log_ranks_def log_header_def log_broken_def log_ended_def map_filter_simps
      split: table_line.split option.split)

lemma see_fields [simp]:
  "ev_header (see_rank l ev) = ev_header ev" "ev_header (see_end l ev) = ev_header ev" "ev_header (see_row l ev) = ev_header ev"
  "ev_ids (see_end l ev) = ev_ids ev" "ev_ids (see_row l ev) = ev_ids ev"
  "ev_devices (see_end l ev) = ev_devices ev" "ev_devices (see_row l ev) = ev_devices ev"
  "ev_dups (see_end l ev) = ev_dups ev" "ev_dups (see_row l ev) = ev_dups ev"
  "ev_ended (see_rank l ev) = ev_ended ev" "ev_ended (see_row l ev) = ev_ended ev"
  "ev_ended (see_end l ev) = (contains_sub ''rccl test done'' l \<or> ev_ended ev)"
  "ev_sizes (see_rank l ev) = ev_sizes ev" "ev_sizes (see_end l ev) = ev_sizes ev"
  "ev_buses (see_rank l ev) = ev_buses ev" "ev_buses (see_end l ev) = ev_buses ev"
  "ev_invalid (see_rank l ev) = ev_invalid ev" "ev_invalid (see_end l ev) = ev_invalid ev"
  "ev_wrong_out (see_rank l ev) = ev_wrong_out ev" "ev_wrong_out (see_end l ev) = ev_wrong_out ev"
  "ev_wrong_in (see_rank l ev) = ev_wrong_in ev" "ev_wrong_in (see_end l ev) = ev_wrong_in ev"
  by (simp_all add: see_rank_def see_end_def see_row_def Let_def split: option.split table_line.split)

lemma see_header_fields:
  assumes "see_header l ev = Some ev1"
  shows "ev_ids ev1 = ev_ids ev" "ev_devices ev1 = ev_devices ev" "ev_dups ev1 = ev_dups ev" "ev_ended ev1 = ev_ended ev"
    "ev_sizes ev1 = ev_sizes ev" "ev_buses ev1 = ev_buses ev" "ev_invalid ev1 = ev_invalid ev"
    "ev_wrong_out ev1 = ev_wrong_out ev" "ev_wrong_in ev1 = ev_wrong_in ev"
  using assms by (auto simp: see_header_def split: if_splits option.splits prod.splits py_float.splits)

text \<open>The table of the log.\<close>

lemma collect_table:
  "collect lns ev = Some ev' \<Longrightarrow>
     ev_sizes ev' = ev_sizes ev @ map fst (log_rows lns)
     \<and> ev_buses ev' = ev_buses ev @ concat (map (fst \<circ> snd) (log_rows lns))
     \<and> (ev_invalid ev' = 0 \<longleftrightarrow> ev_invalid ev = 0 \<and> \<not> log_broken lns)
     \<and> ev_wrong_out ev' = ev_wrong_out ev + sum_list (map (fst \<circ> snd \<circ> snd) (log_rows lns))
     \<and> ev_wrong_in ev' = ev_wrong_in ev + sum_list (map (snd \<circ> snd \<circ> snd) (log_rows lns))
     \<and> (ev_ended ev' \<longleftrightarrow> ev_ended ev \<or> log_ended lns)"
proof (induction lns arbitrary: ev)
  case (Cons l lns)
  obtain ev1 where ev1: "see_header l ev = Some ev1" "collect lns (see_row l (see_end l (see_rank l ev1))) = Some ev'"
    using Cons.prems by (auto split: option.splits)
  show ?case
    using Cons.IH [OF ev1(2)] see_header_fields [OF ev1(1)] by (auto simp: see_row_def split: table_line.splits)
qed simp

lemma collect_header:
  "collect lns ev = Some ev' \<Longrightarrow>
     (case ev_header ev of Some h \<Rightarrow> ev_header ev' = Some h
      | None \<Rightarrow> (case log_header lns of None \<Rightarrow> ev_header ev' = None
                 | Some (a, b, f) \<Rightarrow> \<exists>x. f = Some (Fin x) \<and> ev_header ev' = Some (a, b, x)))"
proof (induction lns arbitrary: ev)
  case (Cons l lns)
  obtain ev1 where ev1: "see_header l ev = Some ev1" "collect lns (see_row l (see_end l (see_rank l ev1))) = Some ev'"
    using Cons.prems by (auto split: option.splits)
  show ?case
    using Cons.IH [OF ev1(2)] ev1(1)
    by (auto simp: see_header_def split: option.splits if_splits py_float.splits prod.splits)
qed (simp split: option.split)

text \<open>The processes of the log.\<close>

lemma collect_dups_mono: "collect lns ev = Some ev' \<Longrightarrow> ev_dups ev \<le> ev_dups ev'"
proof (induction lns arbitrary: ev)
  case (Cons l lns)
  obtain ev1 where ev1: "see_header l ev = Some ev1" "collect lns (see_row l (see_end l (see_rank l ev1))) = Some ev'"
    using Cons.prems by (auto split: option.splits)
  show ?case
    using Cons.IH [OF ev1(2)] see_header_fields [OF ev1(1)]
    by (auto simp: see_rank_def Let_def split: option.splits if_splits)
qed simp

lemma collect_ranks:
  "collect lns ev = Some ev' \<Longrightarrow> ev_dups ev = 0 \<Longrightarrow> distinct (ev_ids ev) \<Longrightarrow> distinct (ev_devices ev) \<Longrightarrow>
     (ev_dups ev' = 0 \<longleftrightarrow> distinct (ev_ids ev @ map fst (log_ranks lns)) \<and> distinct (ev_devices ev @ map snd (log_ranks lns)))
     \<and> (ev_dups ev' = 0 \<longrightarrow> ev_devices ev' = ev_devices ev @ map snd (log_ranks lns))"
proof (induction lns arbitrary: ev)
  case (Cons l lns)
  obtain ev1 where ev1: "see_header l ev = Some ev1" "collect lns (see_row l (see_end l (see_rank l ev1))) = Some ev'"
    using Cons.prems by (auto split: option.splits)
  note fields = see_header_fields [OF ev1(1)]
  show ?case
  proof (cases "rank_of l")
    case None
    then show ?thesis using Cons.IH [OF ev1(2)] Cons.prems fields by (simp add: see_rank_def)
  next
    case (Some x)
    obtain i node dev where x: "x = (i, node, dev)" by (cases x)
    show ?thesis
    proof (cases "(node, dev) \<in> set (ev_devices ev) \<or> i \<in> set (ev_ids ev)")
      case True
      then have "0 < ev_dups (see_row l (see_end l (see_rank l ev1)))"
        using Some fields by (simp add: see_rank_def x Let_def)
      then have "0 < ev_dups ev'" using collect_dups_mono [OF ev1(2)] by simp
      then show ?thesis using True Some by (auto simp: x)
    next
      case False
      then show ?thesis using Cons.IH [OF ev1(2)] Cons.prems(2-) fields Some
        by (simp add: see_rank_def x Let_def)
    qed
  qed
qed simp

lemma fold_max_less: "fold max xs x < t \<longleftrightarrow> x < t \<and> (\<forall>y\<in>set xs. y < t)" for x :: real
  by (induction xs arbitrary: x) auto

lemma peak_less: "peak_of xs = Some p \<Longrightarrow> p < t \<longleftrightarrow> (\<forall>y\<in>set xs. y < t)"
  by (auto simp: peak_of_def fold_max_less split: list.splits)

text \<open>
  The planned sizes from the smallest measured one upwards are all measured; only sizes above zero
  count.
\<close>

definition covers_plan :: "nat list \<Rightarrow> nat list \<Rightarrow> bool" where
  "covers_plan planned measured \<longleftrightarrow>
     (\<exists>first\<in>set measured. 0 < first \<and> (\<forall>s\<in>set measured. 0 < s \<longrightarrow> first \<le> s)
        \<and> (\<forall>s\<in>set planned. first \<le> s \<longrightarrow> s \<in> set measured))"

definition bandwidth_shown :: "row \<Rightarrow> row \<Rightarrow> string list \<Rightarrow> result \<Rightarrow> bool" where
  "bandwidth_shown plan execution lns r \<longleftrightarrow>
     number_or (- 1) (rs_exit r) = 0 \<and> number_or (- 1) (cell execution ''exit_code'' []) = 0
     \<and> (\<exists>b m n. number (cell plan ''baseline_busbw_gbps'' []) = Some b \<and> number (cell plan ''margin_pct'' []) = Some m
          \<and> number (cell plan ''np'' []) = Some n \<and> 0 < b \<and> 0 < n \<and> 0 \<le> m \<and> m \<le> 100
          \<and> int (length (log_ranks lns)) = \<lfloor>n\<rfloor>
          \<and> (\<exists>row\<in>set (log_rows lns). \<exists>x\<in>set (fst (snd row)). b * (1 - m / 100) \<le> x))
     \<and> (\<exists>least most factor. log_header lns = Some (least, most, Some (Fin factor))
          \<and> covers_plan (ladder 128 least most factor) (map fst (log_rows lns)))
     \<and> \<not> log_broken lns \<and> (\<forall>row\<in>set (log_rows lns). snd (snd row) = (0, 0)) \<and> log_ended lns
     \<and> log_ranks lns \<noteq> [] \<and> distinct (map fst (log_ranks lns)) \<and> distinct (map snd (log_ranks lns))"

lemma sorted_set_Cons:
  "sorted_set xs = x # rest \<longleftrightarrow> x \<in> set xs \<and> (\<forall>y\<in>set xs. x \<le> y) \<and> rest = sorted_set (filter (\<lambda>y. y \<noteq> x) xs)"
  (is "?l \<longleftrightarrow> ?r")
proof
  assume l: ?l
  then have "sorted (x # rest)" "distinct (x # rest)" "set (x # rest) = set xs"
    by (metis sorted_sorted_set, metis distinct_sorted_set, metis set_sorted_set)
  moreover from this have "sorted_set (filter (\<lambda>y. y \<noteq> x) xs) = sorted_set rest" by (intro sorted_set_cong) auto
  ultimately show ?r by (auto simp: sorted_set_id)
next
  assume r: ?r
  then have "sorted_set xs \<noteq> []" by (metis empty_iff list.set(1) set_sorted_set)
  then obtain y ys where y: "sorted_set xs = y # ys" by (cases "sorted_set xs") auto
  then have s: "sorted (y # ys)" "distinct (y # ys)" "set (y # ys) = set xs"
    by (metis sorted_sorted_set, metis distinct_sorted_set, metis set_sorted_set)
  then have "y = x" using r by (metis antisym list.set_intros(1) set_ConsD sorted_simps(2))
  moreover have "sorted_set (filter (\<lambda>z. z \<noteq> x) xs) = sorted_set ys" using s \<open>y = x\<close> by (intro sorted_set_cong) auto
  ultimately show ?l using r y s by (simp add: sorted_set_id)
qed

lemma sorted_set_Nil [simp]: "sorted_set xs = [] \<longleftrightarrow> xs = []"
  by (metis set_empty set_sorted_set)

lemma plan_covered:
  assumes "ev_header ev = Some (least, most, factor)"
  shows "positive_sizes ev \<noteq> [] \<and> missing_sizes ev = [] \<longleftrightarrow> covers_plan (ladder 128 least most factor) (ev_sizes ev)"
proof (cases "positive_sizes ev")
  case Nil
  then show ?thesis by (auto simp: positive_sizes_def covers_plan_def filter_empty_conv)
next
  case (Cons first rest)
  then have first: "first \<in> set (ev_sizes ev)" "0 < first" "\<forall>s\<in>set (ev_sizes ev). 0 < s \<longrightarrow> first \<le> s"
    by (auto simp: positive_sizes_def sorted_set_Cons)
  have "set (positive_sizes ev) = {s \<in> set (ev_sizes ev). 0 < s}" by (auto simp: positive_sizes_def)
  then have "missing_sizes ev = [] \<longleftrightarrow> (\<forall>s\<in>set (ladder 128 least most factor). first \<le> s \<longrightarrow> s \<in> set (ev_sizes ev))"
    using first(2) by (auto simp: missing_sizes_def expected_sizes_def assms Cons filter_empty_conv)
  moreover have "f = first" if "f \<in> set (ev_sizes ev)" "0 < f" "\<forall>s\<in>set (ev_sizes ev). 0 < s \<longrightarrow> f \<le> s" for f
    using that first by (simp add: le_antisym)
  then have "covers_plan (ladder 128 least most factor) (ev_sizes ev)
      \<longleftrightarrow> (\<forall>s\<in>set (ladder 128 least most factor). first \<le> s \<longrightarrow> s \<in> set (ev_sizes ev))"
    unfolding covers_plan_def using first by blast
  ultimately show ?thesis using Cons by simp
qed

lemma fail_with_status [simp]: "rs_status (fail_with c r) = ''FAIL''"
  by (simp add: fail_with_def)

lemma evidence_header:
  assumes "collect lns no_evidence = Some ev"
  shows "ev_header ev = Some (a, z, f) \<longleftrightarrow> log_header lns = Some (a, z, Some (Fin f))"
proof -
  have "case log_header lns of None \<Rightarrow> ev_header ev = None
     | Some (a, b, f) \<Rightarrow> \<exists>x. f = Some (Fin x) \<and> ev_header ev = Some (a, b, x)"
    using collect_header [OF assms] by (simp add: no_evidence_def)
  then show ?thesis by (cases "log_header lns") auto
qed

lemma evidence_ranks:
  assumes "collect lns no_evidence = Some ev"
  shows "ev_dups ev = 0 \<longleftrightarrow> distinct (map fst (log_ranks lns)) \<and> distinct (map snd (log_ranks lns))"
    and "ev_dups ev = 0 \<Longrightarrow> ev_devices ev = map snd (log_ranks lns)"
  using collect_ranks [OF assms] by (simp_all add: no_evidence_def)

lemma evidence_table:
  assumes "collect lns no_evidence = Some ev"
  shows "ev_sizes ev = map fst (log_rows lns)" "ev_ended ev = log_ended lns" "ev_invalid ev = 0 \<longleftrightarrow> \<not> log_broken lns"
    and "ev_wrong_out ev = 0 \<and> ev_wrong_in ev = 0 \<longleftrightarrow> (\<forall>row\<in>set (log_rows lns). snd (snd row) = (0, 0))"
    and "ev_buses ev = concat (map (fst \<circ> snd) (log_rows lns))"
proof -
  have "sum_list (map f xs) = 0 \<longleftrightarrow> (\<forall>x\<in>set xs. f x = 0)" for f :: "'a \<Rightarrow> nat" and xs by (induction xs) auto
  then show "ev_wrong_out ev = 0 \<and> ev_wrong_in ev = 0 \<longleftrightarrow> (\<forall>row\<in>set (log_rows lns). snd (snd row) = (0, 0))"
    using collect_table [OF assms] by (auto simp: no_evidence_def prod_eq_iff)
qed (use collect_table [OF assms] in \<open>simp_all add: no_evidence_def\<close>)

lemma fail_if [simp]: "rs_status (if c then fail_with code r else r') = ''PASS'' \<longleftrightarrow> \<not> c \<and> rs_status r' = ''PASS''"
  by simp

lemma verdict_pass:
  assumes "rs_status r = ''PASS''"
  shows "rs_status (rccl_verdict plan execution ev r) = ''PASS'' \<longleftrightarrow>
     number_or (- 1) (rs_exit r) = 0 \<and> number_or (- 1) (cell execution ''exit_code'' []) = 0
     \<and> (\<exists>b m n. number (cell plan ''baseline_busbw_gbps'' []) = Some b \<and> number (cell plan ''margin_pct'' []) = Some m
          \<and> number (cell plan ''np'' []) = Some n \<and> 0 < b \<and> 0 < n \<and> 0 \<le> m \<and> m \<le> 100
          \<and> int (length (ev_devices ev)) = \<lfloor>n\<rfloor> \<and> (\<exists>x\<in>set (ev_buses ev). b * (1 - m / 100) \<le> x))
     \<and> ev_sizes ev \<noteq> [] \<and> ev_header ev \<noteq> None \<and> positive_sizes ev \<noteq> [] \<and> ev_invalid ev = 0 \<and> missing_sizes ev = []
     \<and> (ev_wrong_out ev = 0 \<and> ev_wrong_in ev = 0) \<and> ev_ended ev \<and> ev_devices ev \<noteq> [] \<and> ev_dups ev = 0"
proof -
  have peak: "rs_status (case peak_of bs of None \<Rightarrow> fail_with c1 r
      | Some p \<Rightarrow> if p < t then fail_with c2 r else if rs_status r = ''PASS'' then r \<lparr>rs_reason := c3\<rparr> else r) = ''PASS''
      \<longleftrightarrow> (\<exists>x\<in>set bs. t \<le> x)" for bs t c1 c2 c3
  proof (cases "peak_of bs")
    case None
    then show ?thesis by (cases bs) (simp_all add: peak_of_def)
  next
    case (Some p)
    then show ?thesis using assms peak_less [OF Some, of t] by (auto simp: not_less)
  qed
  show ?thesis
    by (cases "number (cell plan ''baseline_busbw_gbps'' [])"; cases "number (cell plan ''margin_pct'' [])";
        cases "number (cell plan ''np'' [])") (simp_all only: rccl_verdict_def Let_def fail_if option.case prod.case peak
          fail_with_status; auto simp: not_le)+
qed

lemma bandwidth_exact:
  assumes "rccl plan execution lns r = Some r'" "rs_status r = ''PASS''"
  shows "rs_status r' = ''PASS'' \<longleftrightarrow> bandwidth_shown plan execution lns r"
proof -
  obtain ev where ev: "collect lns no_evidence = Some ev" and r': "r' = rccl_verdict plan execution ev r"
    using assms by (auto simp: rccl_def split: option.splits)
  note table = evidence_table [OF ev] and ranks = evidence_ranks [OF ev] and header = evidence_header [OF ev]
  have covered: "positive_sizes ev \<noteq> [] \<and> missing_sizes ev = [] \<and> ev_header ev \<noteq> None
      \<longleftrightarrow> (\<exists>a z f. log_header lns = Some (a, z, Some (Fin f)) \<and> covers_plan (ladder 128 a z f) (map fst (log_rows lns)))"
    using plan_covered [of ev] header table(1) by auto
  have nonempty: "ev_sizes ev \<noteq> []" if "positive_sizes ev \<noteq> []" using that by (auto simp: positive_sizes_def)
  have peak: "(\<exists>x\<in>set (ev_buses ev). t \<le> x) \<longleftrightarrow> (\<exists>row\<in>set (log_rows lns). \<exists>x\<in>set (fst (snd row)). t \<le> x)" for t
    by (simp add: table)
  show ?thesis
  proof (cases "ev_dups ev = 0")
    case True
    have devices: "length (ev_devices ev) = length (log_ranks lns)" "ev_devices ev \<noteq> [] \<longleftrightarrow> log_ranks lns \<noteq> []"
      using ranks(2) [OF True] by simp_all
    show ?thesis
      unfolding r' bandwidth_shown_def verdict_pass [OF assms(2)] devices peak table(2-4)
      using covered nonempty ranks(1) True by blast
  next
    case False
    then have "\<not> (distinct (map fst (log_ranks lns)) \<and> distinct (map snd (log_ranks lns)))" using ranks(1) by simp
    then show ?thesis unfolding r' bandwidth_shown_def verdict_pass [OF assms(2)] using False by blast
  qed
qed

text \<open>
  A bandwidth test that was executed successfully keeps its PASS exactly when its log shows
  it: exit codes zero; a valid baseline; an intact table without wrong elements that covers every
  planned size from its first one upwards; the end marker; pairwise distinct processes on pairwise
  distinct devices, as many as planned; and a bus bandwidth of at least the tolerated baseline.
\<close>
theorem bandwidth_pass_exact:
  assumes "rccl plan execution lns r = Some r'" "rs_status r = ''PASS''"
  shows "rs_status r' = ''PASS'' \<longleftrightarrow> bandwidth_shown plan execution lns r"
  using assms by (rule bandwidth_exact)

section \<open>What the other operations need\<close>

lemma deepep_pass:
  "rs_status (deepep lns r) = ''PASS'' \<longleftrightarrow>
     rs_status r = ''PASS'' \<and> deepep_values (rs_item r) lns \<noteq> [] \<and> (\<forall>v\<in>set (deepep_values (rs_item r) lns). 0 < v)"
  by (auto simp: deepep_def Let_def Min_gr_iff not_le [symmetric] Min_le_iff)

text \<open>The marks of a case in the logs.\<close>

definition flux_mark_of :: "string \<Rightarrow> (string \<times> string) option" where
  "flux_mark_of line =
     (let tx = py_strip line in
      if rx_search flux_start_rx tx \<noteq> None \<or> rx_search flux_end_rx tx \<noteq> None then None
      else map_option (\<lambda>m. (cap_text 1 m, cap_text 2 m)) (rx_search flux_case_rx tx))"

definition case_marks :: "string \<Rightarrow> string list \<Rightarrow> string list" where
  "case_marks name lns = map snd (filter (\<lambda>x. fst x = name) (List.map_filter flux_mark_of lns))"

definition case_of_marks :: "string list \<Rightarrow> flux_case" where
  "case_of_marks ms = \<lparr>fc_starts = length (filter (\<lambda>m. m = ''start'') ms), fc_retries = length (filter (\<lambda>m. m = ''retry'') ms),
     fc_outcomes = map (\<lambda>m. m = ''PASS'') (filter (\<lambda>m. m \<notin> {''start'', ''retry''}) ms)\<rparr>"

lemma flux_line_cases:
  "fx_cases (flux_line line s) =
     (case flux_mark_of line of None \<Rightarrow> fx_cases s
      | Some (name, m) \<Rightarrow> dict_update name (flux_outcome m (case map_of (fx_cases s) name of
          None \<Rightarrow> \<lparr>fc_starts = 0, fc_retries = 0, fc_outcomes = []\<rparr> | Some c \<Rightarrow> c)) (fx_cases s))"
  by (auto simp: flux_line_def flux_mark_of_def Let_def split: option.split)

lemma flux_outcome_snoc: "flux_outcome m (case_of_marks ms) = case_of_marks (ms @ [m])"
  by (simp add: flux_outcome_def case_of_marks_def)

lemma case_marks_snoc:
  "case_marks name (lns @ [l]) = case_marks name lns
     @ (case flux_mark_of l of None \<Rightarrow> [] | Some (n, m) \<Rightarrow> if n = name then [m] else [])"
  by (simp add: case_marks_def map_filter_def split: option.split)

lemma flux_read_cases:
  "map_of (fx_cases (fold flux_line lns \<lparr>fx_declared = None, fx_finished = 0, fx_cases = []\<rparr>)) name =
     (if case_marks name lns = [] then None else Some (case_of_marks (case_marks name lns)))"
proof (induction lns rule: rev_induct)
  case (snoc l lns)
  have empty: "\<lparr>fc_starts = 0, fc_retries = 0, fc_outcomes = []\<rparr> = case_of_marks []" by (simp add: case_of_marks_def)
  show ?case
    using snoc by (auto simp: flux_line_cases case_marks_snoc map_of_dict_update empty flux_outcome_snoc split: option.split)
qed (simp add: case_marks_def map_filter_simps)

lemma flux_read_distinct: "distinct (map fst (fx_cases (fold flux_line lns s))) \<longleftrightarrow> distinct (map fst (fx_cases s))" if
  "distinct (map fst (fx_cases s))"
  using that
proof (induction lns arbitrary: s)
  case (Cons l lns)
  then show ?case by (auto simp: flux_line_cases distinct_dict_update split: option.split)
qed simp

text \<open>The outcomes of a case, in order.\<close>

definition case_outcomes :: "string \<Rightarrow> string list \<Rightarrow> string list" where
  "case_outcomes name lns = filter (\<lambda>m. m \<notin> {''start'', ''retry''}) (case_marks name lns)"

definition sweep_shown :: "string list list \<Rightarrow> bool" where
  "sweep_shown logs \<longleftrightarrow>
     (\<forall>name\<in>set flux_expected_cases.
        case_outcomes name (concat logs) \<noteq> [] \<and> List.last (case_outcomes name (concat logs)) = ''PASS''
        \<and> length (case_outcomes name (concat logs)) \<le> 2
        \<and> length (filter (\<lambda>m. m = ''start'') (case_marks name (concat logs))) \<le> 1)
     \<and> (\<forall>name. case_marks name (concat logs) \<noteq> [] \<longrightarrow> name \<in> set flux_expected_cases)
     \<and> fx_declared (flux_read logs) \<in> {None, Some 64} \<and> length logs \<le> fx_finished (flux_read logs)"

lemma expected_case_count: "length flux_expected_cases = 64"
  by (simp add: flux_expected_cases_def flux_sizes_def)

lemma sort_Nil [simp]: "sort xs = [] \<longleftrightarrow> xs = []"
  by (metis length_0_conv length_sort)

lemma sweep_pass:
  "rs_status (byte_flux logs r) = ''PASS'' \<longleftrightarrow> rs_status r = ''PASS'' \<and> sweep_shown logs"
proof -
  define s where "s = flux_read logs"
  define marks where "marks name = case_marks name (concat logs)" for name
  have look: "map_of (fx_cases s) name = (if marks name = [] then None else Some (case_of_marks (marks name)))" for name
    unfolding s_def marks_def flux_read_def by (rule flux_read_cases)
  have dist: "distinct (map fst (fx_cases s))" unfolding s_def flux_read_def by (subst flux_read_distinct) simp_all
  have entry: "(name, c) \<in> set (fx_cases s) \<longleftrightarrow> marks name \<noteq> [] \<and> c = case_of_marks (marks name)" for name c
    by (simp add: map_of_eq_Some_iff [OF dist, symmetric] look eq_commute)
  have all: "(\<forall>x\<in>set (fx_cases s). P x) \<longleftrightarrow> (\<forall>name. marks name \<noteq> [] \<longrightarrow> P (name, case_of_marks (marks name)))" for P
    using entry by force
  have outcomes: "fc_outcomes (case_of_marks (marks name)) = map (\<lambda>m. m = ''PASS'') (case_outcomes name (concat logs))"
    and starts: "fc_starts (case_of_marks (marks name)) = length (filter (\<lambda>m. m = ''start'') (marks name))" for name
    by (simp_all add: case_of_marks_def case_outcomes_def marks_def)
  have none: "case_outcomes name (concat logs) = []" if "marks name = []" for name
    using that by (simp add: case_outcomes_def marks_def)
  have failed: "final_fail s = [] \<longleftrightarrow> (\<forall>name. case_outcomes name (concat logs) \<noteq> [] \<longrightarrow> List.last (case_outcomes name (concat logs)) = ''PASS'')"
  proof -
    have "List.last (map (\<lambda>m. m = ''PASS'') ms) \<longleftrightarrow> List.last ms = ''PASS''" if "ms \<noteq> []" for ms :: "string list"
      using that by (simp add: last_map)
    then show ?thesis unfolding final_fail_def filter_empty_conv map_is_Nil_conv all using none by (auto simp: outcomes)
  qed
  have missing: "missing_cases s = [] \<longleftrightarrow> (\<forall>name\<in>set flux_expected_cases. case_outcomes name (concat logs) \<noteq> [])"
    using none by (auto simp: missing_cases_def filter_empty_conv look outcomes)
  have unknown: "unknown_cases s = [] \<longleftrightarrow> (\<forall>name. marks name \<noteq> [] \<longrightarrow> name \<in> set flux_expected_cases)"
    by (simp add: unknown_cases_def filter_empty_conv all)
  have twice: "duplicate_cases s = [] \<longleftrightarrow> (\<forall>name. marks name \<noteq> [] \<longrightarrow> length (filter (\<lambda>m. m = ''start'') (marks name)) \<le> 1
      \<and> length (case_outcomes name (concat logs)) \<le> 2)"
    by (auto simp: duplicate_cases_def filter_empty_conv all outcomes starts not_less)
  have "rs_status (byte_flux logs r) = ''PASS'' \<longleftrightarrow> rs_status r = ''PASS'' \<and> final_fail s = [] \<and> missing_cases s = []
      \<and> unknown_cases s = [] \<and> duplicate_cases s = [] \<and> fx_declared s \<in> {None, Some 64} \<and> length logs \<le> fx_finished s"
    by (auto simp: byte_flux_def s_def [symmetric] Let_def expected_case_count not_less)
  also have "\<dots> \<longleftrightarrow> rs_status r = ''PASS'' \<and> sweep_shown logs"
    unfolding failed missing unknown twice sweep_shown_def s_def [symmetric] marks_def [symmetric]
    using none by blast
  finally show ?thesis .
qed

text \<open>The deep check.\<close>

lemma worst_mark_pass:
  "worst_mark ms = ''PASS'' \<longleftrightarrow> ms \<noteq> [] \<and> (\<forall>m\<in>set ms. m = ''PASS'')"
proof -
  have zero: "mark_severity m = 0 \<longleftrightarrow> m = ''PASS''" for m by (simp add: mark_severity_def)
  have "fold (\<lambda>x best. if mark_severity best < mark_severity x then x else best) rest m = ''PASS''
      \<longleftrightarrow> m = ''PASS'' \<and> (\<forall>x\<in>set rest. x = ''PASS'')" for rest m
  proof (induction rest arbitrary: m)
    case (Cons x rest)
    have "(if mark_severity m < mark_severity x then x else m) = ''PASS'' \<longleftrightarrow> m = ''PASS'' \<and> x = ''PASS''"
      using zero [of m] zero [of x] by (cases "mark_severity m < mark_severity x") auto
    then show ?case using Cons.IH by simp
  qed simp
  then show ?thesis unfolding worst_mark_def by (cases ms) simp_all
qed

definition deep_bad :: "check \<Rightarrow> bool" where
  "deep_bad c \<longleftrightarrow> ck_status c \<in> {''FAIL'', ''INCOMPLETE'', ''WARN''}"

lemma deep_pass:
  "rs_status (check_deep nodes r) = ''PASS'' \<longleftrightarrow>
     rs_status r = ''PASS''
     \<and> (let checks = concat (map (\<lambda>(node, rc, lns). deep_checks node rc lns) nodes) in
        checks \<noteq> [] \<longrightarrow> list_all (\<lambda>c. \<not> deep_bad c) checks \<and> number_or (- 1) (rs_exit r) \<in> {0, 2})"
  by (simp add: check_deep_def Let_def list_ex_iff list_all_iff deep_bad_def) blast

lemma health_pass:
  "rs_status (health_conclusion checks label r) = ''PASS'' \<longleftrightarrow>
     rs_status r = ''PASS''
     \<and> (rs_reason r \<notin> {''EXECUTION_FAILED'', ''INCOMPLETE''} \<longrightarrow>
        list_all (\<lambda>c. ck_status c \<notin> {''FAIL'', ''WARN'', ''UNKNOWN''}) checks)"
  by (auto simp: health_conclusion_def list_ex_iff list_all_iff)

section \<open>An accepted task\<close>

text \<open>What each operation must show beside the rows of its nodes.\<close>

definition evidence_shown :: "string \<Rightarrow> (row list \<Rightarrow> check list) \<Rightarrow> (row list \<Rightarrow> check list) \<Rightarrow> task_files \<Rightarrow> group_plan \<Rightarrow> row
    \<Rightarrow> result \<Rightarrow> bool" where
  "evidence_shown operation platform resource f g facts r \<longleftrightarrow>
     (operation = ''rccl'' \<longrightarrow>
        (let execution = row_of ''test'' (rs_item r) (tf_execution f) in
         bandwidth_shown (row_of ''test'' (rs_item r) (tf_plan f)) execution (tf_test_log f (cell execution ''log'' [])) r))
     \<and> (operation = ''deepep'' \<longrightarrow>
        (let values = deepep_values (rs_item r) (deepep_log f g facts) in values \<noteq> [] \<and> (\<forall>v\<in>set values. 0 < v)))
     \<and> (operation = ''byte-flux'' \<longrightarrow> sweep_shown (map (node_log f) (tf_nodes f)))
     \<and> (operation = ''check_deep'' \<longrightarrow>
        (\<forall>n\<in>set (tf_nodes f). list_all (\<lambda>c. \<not> deep_bad c) (deep_checks (cell n ''node'' []) (cell n ''exit_code'' []) (node_log f n)))
        \<and> (tf_nodes f \<noteq> [] \<longrightarrow> number_or (- 1) (rs_exit r) \<in> {0, 2}))
     \<and> (rs_reason r \<notin> {''EXECUTION_FAILED'', ''INCOMPLETE''} \<longrightarrow>
        (operation \<in> {''platform'', ''platform,resource''} \<longrightarrow>
           list_all (\<lambda>c. ck_status c \<notin> {''FAIL'', ''WARN'', ''UNKNOWN''}) (platform (tf_nodes f)))
        \<and> (operation \<in> {''resource'', ''platform,resource''} \<longrightarrow>
           list_all (\<lambda>c. ck_status c \<notin> {''FAIL'', ''WARN'', ''UNKNOWN''}) (resource (tf_nodes f))))"

definition rows_complete :: "string \<Rightarrow> task_files \<Rightarrow> group_plan \<Rightarrow> bool" where
  "rows_complete operation f g \<longleftrightarrow>
     distinct (node_names f) \<and> Some ` set (required_nodes operation g) \<subseteq> set (node_names f) \<and> node_codes_ok operation f"

lemma check_rows_pass:
  "rs_status (check_rows operation f g r) = ''PASS'' \<longleftrightarrow> rs_status r = ''PASS'' \<and> rows_complete operation f g"
  by (auto simp: check_rows_def rows_complete_def)

lemma check_rows_unchanged: "rows_complete operation f g \<Longrightarrow> check_rows operation f g r = r"
  by (simp add: check_rows_def rows_complete_def)

lemma rccl_upgrades_nothing: "rccl plan execution lns r = Some r' \<Longrightarrow> rs_status r' = ''PASS'' \<Longrightarrow> rs_status r = ''PASS''"
proof (rule ccontr)
  assume r: "rccl plan execution lns r = Some r'" "rs_status r' = ''PASS''" "rs_status r \<noteq> ''PASS''"
  have "rs_status (rccl_verdict plan execution ev r) \<noteq> ''PASS''" for ev
    using r(3) unfolding rccl_verdict_def Let_def by (simp split: option.split)
  then show False using r by (auto simp: rccl_def split: if_splits option.splits)
qed

lemma deep_checks_nonempty: "deep_checks node rc lns \<noteq> []"
  by (simp add: deep_checks_def section_names_def Let_def)

lemma judge_pass:
  assumes "judge operation platform resource f g facts r = Some r'" and assms2: "rs_checks r = []"
  shows "rs_status r' = ''PASS'' \<longleftrightarrow> rs_status r = ''PASS'' \<and> evidence_shown operation platform resource f g facts r"
proof -
  consider "operation = ''rccl''" | "operation = ''check_deep''" | "operation = ''platform,resource''"
    | "operation = ''deepep''" | "operation = ''byte-flux''" | "operation = ''platform''" | "operation = ''resource''"
    | "operation \<notin> {''rccl'', ''check_deep'', ''platform,resource'', ''deepep'', ''byte-flux'', ''platform'', ''resource''}" unfolding insert_iff empty_iff by argo
  then show ?thesis
  proof cases
    case 1
    then have rccl: "rccl (row_of ''test'' (rs_item r) (tf_plan f)) (row_of ''test'' (rs_item r) (tf_execution f))
        (tf_test_log f (cell (row_of ''test'' (rs_item r) (tf_execution f)) ''log'' [])) r = Some r'"
      using assms by (simp add: judge_def Let_def)
    show ?thesis
      using bandwidth_exact [OF rccl] rccl_upgrades_nothing [OF rccl] 1 by (auto simp: evidence_shown_def Let_def)
  next
    case 2
    have "concat (map (\<lambda>(node, rc, lns). deep_checks node rc lns)
        (map (\<lambda>n. (cell n ''node'' [], cell n ''exit_code'' [], node_log f n)) (tf_nodes f))) = [] \<longleftrightarrow> tf_nodes f = []"
      by (auto simp: deep_checks_nonempty)
    then show ?thesis
      using assms 2 by (auto simp: judge_def evidence_shown_def deep_pass Let_def list_all_iff)
  next
    case 3
    define r1 where "r1 = health_conclusion (platform (tf_nodes f)) ''PLATFORM'' (r \<lparr>rs_checks := platform (tf_nodes f)\<rparr>)"
    have checks: "rs_checks r1 = platform (tf_nodes f)"
      by (simp add: r1_def health_conclusion_def fail_with_def)
    have status: "rs_status r1 = ''PASS'' \<longleftrightarrow> rs_status r = ''PASS'' \<and> (rs_reason r \<notin> {''EXECUTION_FAILED'', ''INCOMPLETE''} \<longrightarrow>
        list_all (\<lambda>c. ck_status c \<notin> {''FAIL'', ''WARN'', ''UNKNOWN''}) (platform (tf_nodes f)))"
      by (simp add: r1_def health_pass)
    have reason: "rs_reason r1 \<in> {''EXECUTION_FAILED'', ''INCOMPLETE''} \<longleftrightarrow> rs_reason r \<in> {''EXECUTION_FAILED'', ''INCOMPLETE''}"
      if "rs_status r1 = ''PASS''"
      using that by (auto simp: r1_def health_conclusion_def fail_with_def)
    have "r' = health_conclusion (platform (tf_nodes f) @ resource (tf_nodes f)) ''RESOURCE''
        (r1 \<lparr>rs_checks := platform (tf_nodes f) @ resource (tf_nodes f)\<rparr>)"
      using assms(1) 3 checks by (simp add: judge_def Let_def r1_def)
    then show ?thesis
      using 3 status reason by (auto simp: evidence_shown_def health_pass)
  next
    case 4
    then have "r' = deepep (deepep_log f g facts) r" using assms by (simp add: judge_def)
    then show ?thesis by (simp add: 4 evidence_shown_def deepep_pass Let_def)
  next
    case 5
    then have "r' = byte_flux (map (node_log f) (tf_nodes f)) r" using assms by (simp add: judge_def)
    then show ?thesis by (simp add: 5 evidence_shown_def sweep_pass)
  next
    case 6
    then have "r' = health_conclusion (platform (tf_nodes f)) ''PLATFORM'' (r \<lparr>rs_checks := platform (tf_nodes f)\<rparr>)"
      using assms by (simp add: judge_def Let_def)
    then show ?thesis by (simp add: 6 evidence_shown_def health_pass)
  next
    case 7
    then have "r' = health_conclusion (rs_checks r @ resource (tf_nodes f)) ''RESOURCE''
        (r \<lparr>rs_checks := rs_checks r @ resource (tf_nodes f)\<rparr>)"
      using assms by (simp add: judge_def Let_def)
    then show ?thesis using assms2 by (simp add: 7 evidence_shown_def health_pass)
  next
    case 8
    then have "r' = r" using assms by (simp add: judge_def Let_def)
    then show ?thesis using 8 by (simp add: evidence_shown_def)
  qed
qed

lemma judge_cleanup:
  assumes "judge operation platform resource f g facts r = Some r'"
  shows "rs_cleanup r' = rs_cleanup r"
proof -
  have fw [simp]: "rs_cleanup (fail_with code x) = rs_cleanup x" for code x by (simp add: fail_with_def)
  have rccl: "rs_cleanup y = rs_cleanup x" if "rccl p e lns x = Some y" for p e lns x y
  proof -
    have "rs_cleanup (rccl_verdict p e ev x) = rs_cleanup x" for ev
      unfolding rccl_verdict_def Let_def by (simp split: option.split)
    then show ?thesis using that by (auto simp: rccl_def split: if_splits option.splits)
  qed
  have [simp]: "rs_cleanup (deepep lns x) = rs_cleanup x" "rs_cleanup (byte_flux ls x) = rs_cleanup x"
    "rs_cleanup (check_deep ns x) = rs_cleanup x" "rs_cleanup (health_conclusion cs label x) = rs_cleanup x" for lns ls ns cs label x
    by (simp_all add: deepep_def byte_flux_def check_deep_def health_conclusion_def Let_def)
  show ?thesis
  proof (cases "operation = ''rccl''")
    case True
    then show ?thesis using assms by (simp add: judge_def Let_def) (rule rccl)
  next
    case False
    have if_cleanup: "rs_cleanup (if c then x else y) = rs_cleanup z" if "rs_cleanup x = rs_cleanup z" "rs_cleanup y = rs_cleanup z"
      for c and x y z :: result using that by simp
    have if_Some: "(if c then Some x else Some y) = Some (if c then x else y)" for c and x y :: result by simp
    show ?thesis
      using assms False unfolding judge_def Let_def if_not_P [OF False] if_Some option.inject
      by (elim subst) (intro if_cleanup; simp)
  qed
qed

lemma accepted_exact:
  assumes "parse operation platform resource f st g final = Some r"
  shows "rs_status r = ''PASS'' \<longleftrightarrow>
     cell (task_fact f final) ''status'' ''PENDING'' = ''PASS'' \<and> cell (task_fact f final) ''cleanup'' ''NOT_STARTED'' = ''CONFIRMED''
     \<and> rows_complete operation f g
     \<and> evidence_shown operation platform resource f g (task_fact f final) (start_result f st g final)"
proof -
  define r0 where "r0 = start_result f st g final"
  have r0: "rs_status r0 = cell (task_fact f final) ''status'' ''PENDING''"
    "rs_cleanup r0 = cell (task_fact f final) ''cleanup'' ''NOT_STARTED''"
    by (simp_all add: r0_def start_result_def Let_def)
  define r1 where "r1 = (if final \<and> rs_status r0 \<notin> set terminal_states
      then r0 \<lparr>rs_status := ''INCOMPLETE'', rs_reason := ''INCOMPLETE''\<rparr> else r0)"
  have parse: "(if rs_status r1 = ''NA'' then
        Some (if rs_cleanup r1 \<noteq> ''CONFIRMED'' then r1 \<lparr>rs_reason := ''CLEANUP_UNCONFIRMED''\<rparr> else r1)
      else if rs_status r1 \<notin> set terminal_states \<or> rs_status r1 \<in> {''BLOCKED'', ''CANCELLED'', ''TIMEOUT''} then Some r1
      else map_option check_cleanup
             (judge operation platform resource f g (task_fact f final) (check_rows operation f g r1))) = Some r"
    using assms unfolding parse_def Let_def r0_def [symmetric] r1_def [symmetric] by simp
  have r1: "rs_status r1 = ''PASS'' \<longleftrightarrow> rs_status r0 = ''PASS''" "rs_status r0 = ''PASS'' \<Longrightarrow> r1 = r0"
    by (auto simp: r1_def terminal_states_def)
  have cleanup: "rs_status (check_cleanup x) = ''PASS'' \<longleftrightarrow> rs_cleanup x = ''CONFIRMED'' \<and> rs_status x = ''PASS''" for x
    by (simp add: check_cleanup_def)
  show ?thesis
  proof (cases "rs_status r0 = ''PASS''")
    case True
    then have "rs_status r1 = ''PASS''" using r1 by simp
    then obtain r2 where r2: "judge operation platform resource f g (task_fact f final) (check_rows operation f g r0) = Some r2"
      "r = check_cleanup r2"
      using parse r1(2) [OF True] by (auto simp: terminal_states_def)
    have "rs_checks (check_rows operation f g r0) = []"
      by (simp add: check_rows_def fail_with_def r0_def start_result_def Let_def)
    note pass = judge_pass [OF r2(1) this]
    have "rs_cleanup r2 = rs_cleanup r0" using judge_cleanup [OF r2(1)] by (simp add: check_rows_def fail_with_def)
    then have r: "rs_status r = ''PASS'' \<longleftrightarrow> rs_cleanup r0 = ''CONFIRMED'' \<and> rs_status r2 = ''PASS''"
      by (simp add: r2(2) cleanup)
    show ?thesis
    proof (cases "rows_complete operation f g")
      case complete: True
      show ?thesis
        unfolding r pass check_rows_unchanged [OF complete] using True complete by (simp add: r0 r0_def [symmetric])
    next
      case False
      then have "rs_status r2 \<noteq> ''PASS''" using pass check_rows_pass by blast
      then show ?thesis using r False by simp
    qed
  next
    case False
    then have not: "rs_status r1 \<noteq> ''PASS''" using r1 by simp
    have "rs_status x \<noteq> ''PASS''" if "judge operation platform resource f g (task_fact f final) (check_rows operation f g r1) = Some x" for x
    proof -
      have "rs_checks (check_rows operation f g r1) = []"
        by (simp add: check_rows_def fail_with_def r1_def r0_def start_result_def Let_def)
      then show ?thesis using judge_pass [OF that] check_rows_pass not by blast
    qed
    then have "rs_status r \<noteq> ''PASS''" using parse not by (auto simp: cleanup split: if_splits)
    then show ?thesis using False r0 by simp
  qed
qed

text \<open>
  C29: A task is accepted with PASS exactly when the last read of its row says PASS with a confirmed
  cleanup, every required node has exactly one row and every row a permitted exit code, and the
  logs show what the operation asks for; nothing in the parser ever turns another status into it.
\<close>
theorem accepted_task_exact:
  assumes "parse operation platform resource f st g final = Some r"
  shows "rs_status r = ''PASS'' \<longleftrightarrow>
     cell (task_fact f final) ''status'' ''PENDING'' = ''PASS'' \<and> cell (task_fact f final) ''cleanup'' ''NOT_STARTED'' = ''CONFIRMED''
     \<and> rows_complete operation f g
     \<and> evidence_shown operation platform resource f g (task_fact f final) (start_result f st g final)"
  using assms by (rule accepted_exact)

subsection \<open>The planned sizes\<close>

text \<open>With a whole factor the planned sizes are the multiples of the least one by its powers.\<close>

lemma ladder_powers:
  assumes "2 \<le> k"
  shows "set (ladder n least most (real k)) = {least * k ^ i |i. i < n \<and> (\<forall>j\<le>i. least * k ^ j \<le> most)}"
proof (induction n arbitrary: least)
  case (Suc n)
  have "nat \<lfloor>real least * real k\<rfloor> = least * k" by (metis floor_of_nat nat_int of_nat_mult)
  then have "set (ladder (Suc n) least most (real k)) =
      (if least \<le> most then insert least (set (ladder n (least * k) most (real k))) else {})"
    using assms by auto
  also have "\<dots> = {least * k ^ i |i. i < Suc n \<and> (\<forall>j\<le>i. least * k ^ j \<le> most)}" (is "?l = ?r")
  proof (cases "least \<le> most")
    case True
    have "?r = insert least {least * k ^ Suc i |i. i < n \<and> (\<forall>j\<le>Suc i. least * k ^ j \<le> most)}"
    proof (rule set_eqI, rule iffI)
      fix x assume "x \<in> ?r"
      then obtain i where "x = least * k ^ i" "i < Suc n" "\<forall>j\<le>i. least * k ^ j \<le> most" by blast
      then show "x \<in> insert least {least * k ^ Suc i |i. i < n \<and> (\<forall>j\<le>Suc i. least * k ^ j \<le> most)}"
        by (cases i) auto
    qed (use True in \<open>fastforce intro: exI [of _ 0]\<close>)
    moreover have "(\<forall>j\<le>Suc i. least * k ^ j \<le> most) \<longleftrightarrow> (\<forall>j\<le>i. least * k * k ^ j \<le> most)" for i
      using True by (metis (no_types, opaque_lifting) Suc_le_mono bot_nat_0.extremum mult.assoc mult.right_neutral not0_implies_Suc power_0 power_Suc)
    ultimately show ?thesis using True Suc.IH [of "least * k"] by (simp add: mult.assoc)
  qed (use le0 in force)
  finally show ?case .
qed simp

section \<open>Concrete tasks\<close>

definition sample_log :: "string list" where
  "sample_log = [
     ''# nThread 1 nGpus 1 minBytes 8 maxBytes 16 step: 2(factor) warmup iters: 5'',
     ''#  Rank  0 Group  0 Pid 11 on n1 device  0'',
     ''#  Rank  1 Group  0 Pid 12 on n2 device  0'',
     ''8 2 float sum -1 10.0 0.5 90.0 0 10.0 0.5 91.5 0'',
     ''16 4 float sum -1 10.0 0.5 95.0 0 10.0 0.5 92.5 N/A'',
     ''# rccl test done'']"

definition sample_plan :: row where
  "sample_plan = [(''test'', ''all_reduce''), (''baseline_busbw_gbps'', ''100''), (''margin_pct'', ''10''), (''np'', ''2'')]"

definition sample_execution :: row where
  "sample_execution = [(''test'', ''all_reduce''), (''exit_code'', ''0''), (''log'', ''all_reduce.log'')]"

definition sample_files :: task_files where
  "sample_files = \<lparr>tf_task = [[(''status'', ''PASS''), (''exit_code'', ''0''), (''cleanup'', ''CONFIRMED'')]], tf_reread = [],
     tf_nodes = [[(''node'', ''n1''), (''exit_code'', ''0''), (''log'', ''n1.log'')]], tf_plan = [sample_plan],
     tf_execution = [sample_execution], tf_log = (\<lambda>_. []), tf_test_log = (\<lambda>name. if name = ''all_reduce.log'' then sample_log else [])\<rparr>"

definition sample_stage :: stage where "sample_stage = \<lparr>st_id = ''s1'', st_item = ''all_reduce'', st_iter = ''1''\<rparr>"

definition sample_group :: group_plan where "sample_group = \<lparr>gp_name = ''group-01'', gp_nodes = ''n1,n2''\<rparr>"

lemma sample_numbers:
  "number ''0'' = Some 0" "number ''2'' = Some 2" "number ''100'' = Some 100" "number ''10'' = Some 10"
  "number ''10.0'' = Some 10" "number ''0.5'' = Some (1 / 2)" "number ''90.0'' = Some 90" "number ''95.0'' = Some 95"
  "number ''91.5'' = Some (183 / 2)" "number ''92.5'' = Some (185 / 2)" "py_float_of ''2'' = Some (Fin 2)"
  by (simp_all add: number_def py_float_of_def py_strip_def sign_split_def mantissa_def is_ws_def py_lower_def lower_char_def
      is_upper_def is_digit_def less_eq_char_def is_exp_mark_def nat_of_digits_def digit_val_def ten_to_def round_double_def)

lemma sample_header: "header_of (sample_log ! 0) = Some (8, 16, Some (Fin 2))"
proof -
  have "map_option (\<lambda>m. (cap_text 1 m, cap_text 2 m, cap_text 3 m)) (rx_search header_rx (sample_log ! 0)) = Some (''8'', ''16'', ''2'')"
    by code_simp
  then show ?thesis
    by (auto simp: header_of_def sample_numbers nat_of_digits_def digit_val_def)
qed

lemma sample_ranks:
  "rank_of (sample_log ! 0) = None" "rank_of (sample_log ! 1) = Some (0, ''n1'', 0)" "rank_of (sample_log ! 2) = Some (1, ''n2'', 0)"
  "rank_of (sample_log ! 3) = None" "rank_of (sample_log ! 4) = None" "rank_of (sample_log ! 5) = None"
  by code_simp+

lemma sample_words:
  "table_line_of (sample_log ! 0) = NoRow" "table_line_of (sample_log ! 1) = NoRow" "table_line_of (sample_log ! 2) = NoRow"
  "table_line_of (sample_log ! 5) = NoRow"
  by code_simp+

lemma sample_rows:
  "table_line_of (sample_log ! 3) = GoodRow 8 90 (183 / 2) 0 0" "table_line_of (sample_log ! 4) = GoodRow 16 95 (185 / 2) 0 0"
proof -
  have "py_words (sample_log ! 3) = [''8'', ''2'', ''float'', ''sum'', ''-1'', ''10.0'', ''0.5'', ''90.0'', ''0'', ''10.0'', ''0.5'', ''91.5'', ''0'']"
    "py_words (sample_log ! 4) = [''16'', ''4'', ''float'', ''sum'', ''-1'', ''10.0'', ''0.5'', ''95.0'', ''0'', ''10.0'', ''0.5'', ''92.5'', ''N/A'']"
    by code_simp+
  then show "table_line_of (sample_log ! 3) = GoodRow 8 90 (183 / 2) 0 0" "table_line_of (sample_log ! 4) = GoodRow 16 95 (185 / 2) 0 0"
    by (simp_all add: table_line_of_def sample_numbers all_digits_def is_digit_def less_eq_char_def nat_of_digits_def digit_val_def)
qed

lemma sample_ends:
  "contains_sub ''rccl test done'' (sample_log ! 5)"
  by code_simp

lemma sample_lines:
  "[sample_log ! 0, sample_log ! 1, sample_log ! 2, sample_log ! 3, sample_log ! 4, sample_log ! 5] = sample_log"
  by (simp add: sample_log_def)

lemma sample_evidence:
  "log_rows sample_log = [(8, [90, 183 / 2], 0, 0), (16, [95, 185 / 2], 0, 0)]"
  "log_ranks sample_log = [(0, ''n1'', 0), (1, ''n2'', 0)]"
  "log_header sample_log = Some (8, 16, Some (Fin 2))" "\<not> log_broken sample_log" "log_ended sample_log"
  by (subst sample_lines [symmetric], simp add: sample_rows sample_words sample_ranks sample_header sample_ends del: One_nat_def)+

text \<open>A log whose planned header is a number never makes the parser raise.\<close>

lemma collect_defined:
  "\<forall>l\<in>set lns. header_of l \<in> {None, Some (a, b, Some (Fin x))} \<Longrightarrow> collect lns ev \<noteq> None"
  by (induction lns arbitrary: ev) (auto simp: see_header_def split: option.splits)

lemma no_header: "rx_search header_rx line = None \<Longrightarrow> header_of line = None"
  by (simp add: header_of_def)

lemma sample_collect: "collect sample_log ev \<noteq> None"
proof (rule collect_defined)
  have "header_of (sample_log ! 1) = None" "header_of (sample_log ! 2) = None" "header_of (sample_log ! 3) = None"
    "header_of (sample_log ! 4) = None" "header_of (sample_log ! 5) = None"
    by (rule no_header, code_simp)+
  then show "\<forall>l\<in>set sample_log. header_of l \<in> {None, Some (8, 16, Some (Fin 2))}"
    by (subst sample_lines [symmetric]) (simp add: sample_header del: One_nat_def)
qed

definition sample_result :: result where
  "sample_result = start_result sample_files sample_stage sample_group True"

lemma sample_result_fields:
  "rs_status sample_result = ''PASS''" "rs_exit sample_result = ''0''" "rs_item sample_result = ''all_reduce''"
  "rs_cleanup sample_result = ''CONFIRMED''"
  by code_simp+

lemma sample_ladder: "ladder 128 8 16 2 = [8, 16]"
  by code_simp

lemma sample_shown: "bandwidth_shown sample_plan sample_execution sample_log sample_result"
proof -
  have "covers_plan (ladder 128 8 16 2) [8, 16]"
    unfolding sample_ladder by (simp add: covers_plan_def)
  then show ?thesis
    by (simp add: bandwidth_shown_def sample_evidence sample_result_fields sample_plan_def sample_execution_def cell_def
        number_or_def sample_numbers)
qed

lemma sample_rccl: "\<exists>r. rccl sample_plan sample_execution sample_log sample_result = Some r \<and> rs_status r = ''PASS''"
proof -
  obtain r where r: "rccl sample_plan sample_execution sample_log sample_result = Some r"
    using sample_collect [of no_evidence] by (auto simp: rccl_def sample_result_fields)
  show ?thesis using bandwidth_exact [OF r sample_result_fields(1)] sample_shown r by blast
qed

theorem bandwidth_pass_exact_witness:
  "bandwidth_shown sample_plan sample_execution sample_log sample_result"
proof -
  obtain r where "rccl sample_plan sample_execution sample_log sample_result = Some r" "rs_status r = ''PASS''"
    using sample_rccl by blast
  then show ?thesis using bandwidth_pass_exact [OF _ sample_result_fields(1)] by blast
qed

lemma sample_facts: "task_fact sample_files True = [(''status'', ''PASS''), (''exit_code'', ''0''), (''cleanup'', ''CONFIRMED'')]"
  by code_simp

lemma sample_rows_complete: "rows_complete ''rccl'' sample_files sample_group"
  by (simp add: rows_complete_def node_names_def node_codes_ok_def required_nodes_def first_node_def allowed_codes_def
      sample_files_def sample_group_def cell_def number_or_def sample_numbers)

lemma sample_lookup:
  "row_of ''test'' ''all_reduce'' (tf_plan sample_files) = sample_plan"
  "row_of ''test'' ''all_reduce'' (tf_execution sample_files) = sample_execution"
  "tf_test_log sample_files (cell sample_execution ''log'' []) = sample_log"
  by (simp_all add: row_of_def sample_files_def sample_plan_def sample_execution_def cell_def)

theorem accepted_task_exact_witness:
  "\<exists>r. parse ''rccl'' (\<lambda>_. []) (\<lambda>_. []) sample_files sample_stage sample_group True = Some r \<and> rs_status r = ''PASS''"
proof -
  have shown: "evidence_shown ''rccl'' (\<lambda>_. []) (\<lambda>_. []) sample_files sample_group (task_fact sample_files True) sample_result"
    using sample_shown by (simp add: evidence_shown_def sample_result_fields sample_lookup)
  have "parse ''rccl'' (\<lambda>_. []) (\<lambda>_. []) sample_files sample_stage sample_group True \<noteq> None"
    using sample_collect [of no_evidence] sample_result_fields check_rows_unchanged [OF sample_rows_complete]
    by (simp add: parse_def Let_def sample_result_def [symmetric] judge_def rccl_def sample_lookup terminal_states_def split: option.split)
  then obtain r where r: "parse ''rccl'' (\<lambda>_. []) (\<lambda>_. []) sample_files sample_stage sample_group True = Some r" by blast
  show ?thesis
    using accepted_task_exact [OF r] sample_rows_complete shown r by (simp add: sample_facts cell_def sample_result_def)
qed

section \<open>Deviations\<close>

text \<open>The parsers use reasons that the enumeration of reasons does not list; all of them count as other.\<close>

lemma unlisted_reasons:
  "\<forall>code\<in>set [''DATA_TABLE_MISSING'', ''PLAN_HEADER_MISSING'', ''DATA_TABLE_INCOMPLETE'', ''DATA_ROWS_INVALID'', ''CORRECTNESS_FAILED'',
      ''END_EVIDENCE_MISSING'', ''ACTUAL_SCALE_MISSING'', ''ACTUAL_SCALE_DUPLICATE'', ''SCALE_MISMATCH'', ''CASE_DUPLICATED'',
      ''MARKER_CONFLICT'', ''PLATFORM_HEALTH_FAILED'', ''RESOURCE_HEALTH_FAILED''].
     code \<notin> set reason_codes \<and> reason_category ''FAIL'' code = OtherCat"
  by code_simp

text \<open>A damaged factor in the planned header is not a failed test: it makes the whole report raise.\<close>

definition damaged_header :: string where
  "damaged_header = ''# minBytes 8 maxBytes 16 step: 1.2.3(factor)''"

lemma damaged_header_raises:
  assumes "rs_status r = ''PASS''"
  shows "rccl plan execution (damaged_header # lns) r = None"
proof -
  have "map_option (\<lambda>m. cap_text 3 m) (rx_search header_rx damaged_header) = Some ''1.2.3''" by code_simp
  moreover have "py_float_of ''1.2.3'' = None"
    by (simp add: py_float_of_def py_strip_def sign_split_def mantissa_def is_ws_def py_lower_def lower_char_def
        is_upper_def is_digit_def less_eq_char_def is_exp_mark_def)
  ultimately have "\<exists>a b. header_of damaged_header = Some (a, b, None)" by (auto simp: header_of_def)
  then show ?thesis using assms by (auto simp: rccl_def see_header_def no_evidence_def)
qed

text \<open>A section of the deep check that is printed again forgets the failure it reported first.\<close>

lemma repeated_section_hides_failure:
  "ck_status (hd (deep_checks ''n1'' ''0'' [''==== 1. ACS ===='', ''[FAIL] enabled'', ''==== 1. ACS ===='', ''[PASS] again''])) = ''PASS''"
proof -
  have marks: "fst (fold deep_line [''==== 1. ACS ===='', ''[FAIL] enabled'', ''==== 1. ACS ===='', ''[PASS] again''] ([], None))
      = [(''ACS'', [''PASS''])]" by code_simp
  show ?thesis
    unfolding deep_checks_def Let_def marks by (simp add: section_names_def worst_mark_def)
qed

end
