(* ===== verification/EnvSnapshot.thy ===== *)
theory EnvSnapshot
  imports EnvResult
begin

text \<open>
  The snapshot of a run of the environment check (\<^verbatim>\<open>hcu_envcheck/reporting/aggregate.py\<close>):
  the results of all planned cells with the caches of the reader, the summary of each stage, the
  list of failures, and the overall status.  The consistency summary, the evidence paths and the
  scale of GPU plans are left out.
\<close>

section \<open>Reading the results\<close>

text \<open>
  A task is read again only when its signature changes; ended tasks and others have a cache each.
  A world gives the signature and the outcome of parsing a task at the time of a snapshot.
\<close>

type_synonym task_key = "string \<times> string"

record 's run_cache =
  rc_ended :: "task_key \<rightharpoonup> ('s \<times> bool) \<times> result"
  rc_open :: "task_key \<rightharpoonup> 's \<times> result \<times> bool"

record 's task_world =
  tw_sig :: "task_key \<Rightarrow> 's"
  tw_parse :: "stage \<Rightarrow> group_plan \<Rightarrow> bool \<Rightarrow> result option"

definition new_run :: "'s run_cache" where
  "new_run = \<lparr>rc_ended = Map.empty, rc_open = Map.empty\<rparr>"

definition cached :: "'s run_cache \<Rightarrow> task_key \<Rightarrow> 's \<Rightarrow> bool \<Rightarrow> result option" where
  "cached c key sig final =
     (case rc_ended c key of
        Some (mark, r) \<Rightarrow> if mark = (sig, final) then Some r else None
      | None \<Rightarrow> None)"

definition memo :: "'s run_cache \<Rightarrow> task_key \<Rightarrow> 's \<Rightarrow> bool \<Rightarrow> result option" where
  "memo c key sig final =
     (case rc_open c key of
        Some (s, r, f) \<Rightarrow> if s = sig \<and> f = final then Some r else None
      | None \<Rightarrow> None)"

definition one_result :: "'s task_world \<Rightarrow> bool \<Rightarrow> stage \<times> group_plan \<Rightarrow> 's run_cache \<Rightarrow> (result \<times> 's run_cache) option" where
  "one_result w final slot c =
     (case slot of (st, g) \<Rightarrow>
        let key = (st_id st, gp_name g); sig = tw_sig w key in
        case cached c key sig final of
          Some r \<Rightarrow> Some (r, c)
        | None \<Rightarrow>
            (case memo c key sig final of
               Some r \<Rightarrow> Some (r, c)
             | None \<Rightarrow>
                 (case tw_parse w st g final of
                    None \<Rightarrow> None
                  | Some r \<Rightarrow> Some (r, if rs_status r \<in> set terminal_states
                      then c \<lparr>rc_ended := (rc_ended c)(key \<mapsto> ((sig, final), r))\<rparr>
                      else c \<lparr>rc_open := (rc_open c)(key \<mapsto> (sig, r, final))\<rparr>))))"

fun all_results :: "'s task_world \<Rightarrow> bool \<Rightarrow> (stage \<times> group_plan) list \<Rightarrow> 's run_cache \<Rightarrow> (result list \<times> 's run_cache) option" where
  "all_results w final [] c = Some ([], c)"
| "all_results w final (slot # slots) c =
     (case one_result w final slot c of
        None \<Rightarrow> None
      | Some (r, c1) \<Rightarrow> map_option (\<lambda>(rs, c2). (r # rs, c2)) (all_results w final slots c1))"

definition cells_of :: "stage list \<Rightarrow> group_plan list \<Rightarrow> (stage \<times> group_plan) list" where
  "cells_of stages gs = List.product stages gs"

section \<open>The plan\<close>

definition bad_identifier :: "string \<Rightarrow> bool" where
  "bad_identifier s \<longleftrightarrow> s = [] \<or> s \<in> {''.'', ''..''} \<or> CHR ''/'' \<in> set s \<or> CHR 0x5C \<in> set s"

definition plan_ok :: "stage list \<Rightarrow> group_plan list \<Rightarrow> bool" where
  "plan_ok stages gs \<longleftrightarrow> distinct (map st_id stages) \<and> distinct (map gp_name gs)
     \<and> list_all (\<lambda>s. \<not> bad_identifier s) (map st_id stages @ map gp_name gs)"

section \<open>What is derived from the results\<close>

definition result_valid :: "result \<Rightarrow> bool" where
  "result_valid r \<longleftrightarrow> rs_status r \<in> set valid_conclusions \<and> rs_cleanup r = ''CONFIRMED''"

record preflight =
  pf_group :: string
  pf_nodes :: string
  pf_status :: string
  pf_reason :: string
  pf_cleanup :: string

text \<open>A group without a row of its preparation has no preflight entry.\<close>

definition preflight_of :: "(string \<Rightarrow> row list) \<Rightarrow> group_plan \<Rightarrow> preflight option" where
  "preflight_of prepared g =
     (case prepared (gp_name g) of
        [] \<Rightarrow> None
      | row # _ \<Rightarrow> Some \<lparr>pf_group = gp_name g, pf_nodes = gp_nodes g, pf_status = cell row ''status'' ''INCOMPLETE'',
          pf_reason = cell row ''reason_code'' [], pf_cleanup = cell row ''cleanup'' []\<rparr>)"

record stage_summary =
  sm_stage :: stage
  sm_planned :: nat
  sm_passed :: nat
  sm_warned :: nat
  sm_failed :: nat
  sm_na :: nat
  sm_incomplete :: nat
  sm_running :: nat
  sm_pending :: nat
  sm_completed :: nat
  sm_status :: string

definition count_status :: "(string \<Rightarrow> bool) \<Rightarrow> result list \<Rightarrow> nat" where
  "count_status P rs = length (filter (\<lambda>r. P (rs_status r)) rs)"

definition accepted_states :: "string list" where
  "accepted_states = [''PASS'', ''WARN'', ''NA'']"

definition summarize :: "result list \<Rightarrow> stage \<Rightarrow> stage_summary" where
  "summarize rs st =
     (let selected = filter (\<lambda>r. rs_stage r = st_id st) rs; n = (\<lambda>s. count_status (\<lambda>x. x = s) selected) in
      \<lparr>sm_stage = st, sm_planned = length selected, sm_passed = n ''PASS'', sm_warned = n ''WARN'',
       sm_failed = n ''FAIL'' + n ''TIMEOUT'', sm_na = n ''NA'',
       sm_incomplete = count_status (\<lambda>s. s \<notin> set terminal_states \<or> s \<in> {''BLOCKED'', ''CANCELLED''}) selected,
       sm_running = n ''RUNNING'', sm_pending = n ''PENDING'',
       sm_completed = count_status (\<lambda>s. s \<in> set terminal_states) selected,
       sm_status = (if list_ex (\<lambda>r. rs_status r \<notin> set accepted_states) selected then ''FAIL''
         else if n ''WARN'' \<noteq> 0 then ''WARN'' else if n ''NA'' = length selected then ''NA'' else ''PASS'')\<rparr>)"

record failure =
  fl_stage :: string
  fl_item :: string
  fl_group :: string
  fl_nodes :: string
  fl_status :: string
  fl_reason :: string

definition check_reason :: "string \<Rightarrow> string" where
  "check_reason status = (if status = ''WARN'' then ''CHECK_WARN'' else if status = ''INCOMPLETE'' then ''CHECK_INCOMPLETE''
     else ''CHECK_FAILED'')"

definition check_failures :: "result \<Rightarrow> failure list" where
  "check_failures r =
     map (\<lambda>c. \<lparr>fl_stage = rs_stage r, fl_item = ck_name c, fl_group = rs_group r, fl_nodes = ck_node c,
             fl_status = ck_status c, fl_reason = check_reason (ck_status c)\<rparr>)
       (filter (\<lambda>c. ck_status c \<noteq> ''PASS'') (rs_checks r))"

definition own_failure :: "result \<Rightarrow> failure list" where
  "own_failure r =
     (if (rs_status r \<notin> {''PASS'', ''NA'', ''PENDING'', ''RUNNING''} \<or> rs_status r = ''NA'' \<and> rs_reason r = ''CLEANUP_UNCONFIRMED'')
         \<and> (rs_checks r = [] \<or> rs_reason r \<notin> {''CHECK_FAILED'', ''CHECK_WARN''})
      then [\<lparr>fl_stage = rs_stage r, fl_item = rs_item r, fl_group = rs_group r, fl_nodes = rs_nodes r,
             fl_status = rs_status r, fl_reason = rs_reason r\<rparr>]
      else [])"

definition preflight_failures :: "preflight list \<Rightarrow> failure list" where
  "preflight_failures ps =
     map (\<lambda>p. \<lparr>fl_stage = ''preflight'', fl_item = [], fl_group = pf_group p, fl_nodes = pf_nodes p,
             fl_status = pf_status p, fl_reason = pf_reason p\<rparr>)
       (filter (\<lambda>p. pf_status p \<notin> set accepted_states) ps)"

definition failures_of :: "row \<Rightarrow> result list \<Rightarrow> preflight list \<Rightarrow> failure list" where
  "failures_of info rs ps =
     (if cell info ''status'' [] = ''PRECHECK_FAILED'' then [] else concat (map (\<lambda>r. check_failures r @ own_failure r) rs))
     @ preflight_failures ps"

definition plan_complete :: "row \<Rightarrow> stage list \<Rightarrow> group_plan list \<Rightarrow> result list \<Rightarrow> bool" where
  "plan_complete info stages gs rs \<longleftrightarrow>
     stages \<noteq> [] \<and> gs \<noteq> [] \<and> list_all (\<lambda>r. rs_status r \<in> set accepted_states) rs
     \<and> number (cell info ''group_count'' []) \<in> {None, Some (real (length gs))}"

definition overall_status :: "row \<Rightarrow> stage list \<Rightarrow> group_plan list \<Rightarrow> result list \<Rightarrow> preflight list \<Rightarrow> string" where
  "overall_status info stages gs rs ps =
     (if cell info ''status'' [] \<in> {''CANCELLED'', ''PRECHECK_FAILED''} then ''FAIL''
      else if \<not> plan_complete info stages gs rs
         \<or> list_ex (\<lambda>p. pf_status p \<notin> set accepted_states) ps
         \<or> list_ex (\<lambda>r. rs_reason r = ''CLEANUP_UNCONFIRMED'') rs
      then ''FAIL''
      else if list_ex (\<lambda>r. rs_status r = ''WARN'') rs \<or> length (filter result_valid rs) \<noteq> length rs
      then ''WARN'' else ''PASS'')"

record run_report =
  sn_results :: "result list"
  sn_preflight :: "preflight list"
  sn_stages :: "stage_summary list"
  sn_failures :: "failure list"
  sn_status :: string
  sn_planned :: nat
  sn_completed :: nat
  sn_executed :: nat
  sn_valid :: nat

definition build_snapshot :: "row \<Rightarrow> stage list \<Rightarrow> group_plan list \<Rightarrow> (string \<Rightarrow> row list) \<Rightarrow> result list \<Rightarrow> run_report" where
  "build_snapshot info stages gs prepared rs =
     (let ps = List.map_filter (preflight_of prepared) gs in
      \<lparr>sn_results = rs, sn_preflight = ps, sn_stages = map (summarize rs) stages,
       sn_failures = failures_of info rs ps, sn_status = overall_status info stages gs rs ps,
       sn_planned = length stages * length gs,
       sn_completed = count_status (\<lambda>s. s \<in> set terminal_states) rs,
       sn_executed = length (filter rs_dispatched rs), sn_valid = length (filter result_valid rs)\<rparr>)"

definition take_snapshot :: "row \<Rightarrow> stage list \<Rightarrow> group_plan list \<Rightarrow> (string \<Rightarrow> row list) \<Rightarrow> 's task_world \<Rightarrow> bool \<Rightarrow> 's run_cache
    \<Rightarrow> (run_report \<times> 's run_cache) option" where
  "take_snapshot info stages gs prepared w final c =
     (if \<not> plan_ok stages gs then None
      else map_option (\<lambda>(rs, c'). (build_snapshot info stages gs prepared rs, c')) (all_results w final (cells_of stages gs) c))"

section \<open>The caches are transparent\<close>

text \<open>Every world gives a task with a known signature its known outcome.\<close>

definition signed_by :: "(task_key \<Rightarrow> 's \<Rightarrow> bool \<Rightarrow> result option) \<Rightarrow> 's task_world \<Rightarrow> stage \<times> group_plan \<Rightarrow> bool" where
  "signed_by content w slot \<longleftrightarrow>
     (\<forall>final. tw_parse w (fst slot) (snd slot) final =
        content (st_id (fst slot), gp_name (snd slot)) (tw_sig w (st_id (fst slot), gp_name (snd slot))) final)"

definition cache_ok :: "(task_key \<Rightarrow> 's \<Rightarrow> bool \<Rightarrow> result option) \<Rightarrow> 's run_cache \<Rightarrow> bool" where
  "cache_ok content c \<longleftrightarrow>
     (\<forall>key sig final r. cached c key sig final = Some r \<longrightarrow> content key sig final = Some r)
     \<and> (\<forall>key sig final r. memo c key sig final = Some r \<longrightarrow> content key sig final = Some r)"

lemma cache_ok_new: "cache_ok content new_run"
  by (simp add: cache_ok_def cached_def memo_def new_run_def)

lemma one_result_fresh:
  assumes "cache_ok content c" "signed_by content w slot"
  shows "map_option fst (one_result w final slot c) = tw_parse w (fst slot) (snd slot) final
    \<and> (\<forall>r c'. one_result w final slot c = Some (r, c') \<longrightarrow> cache_ok content c')"
proof -
  obtain st g where slot: "slot = (st, g)" by (cases slot)
  define key where "key = (st_id st, gp_name g)"
  define sig where "sig = tw_sig w key"
  have parse: "tw_parse w st g final = content key sig final"
    using assms(2) by (simp add: signed_by_def slot key_def sig_def)
  have hit: "cached c key sig final = Some r \<Longrightarrow> content key sig final = Some r"
    "memo c key sig final = Some r \<Longrightarrow> content key sig final = Some r" for r
    using assms(1) unfolding cache_ok_def by blast+
  have "cache_ok content (c \<lparr>rc_ended := (rc_ended c)(key \<mapsto> ((sig, final), r))\<rparr>)"
    "cache_ok content (c \<lparr>rc_open := (rc_open c)(key \<mapsto> (sig, r, final))\<rparr>)" if "content key sig final = Some r" for r
    using assms(1) that by (simp_all add: cache_ok_def cached_def memo_def)
  then show ?thesis
    using hit assms(1) parse
    by (auto simp: one_result_def slot Let_def key_def [symmetric] sig_def [symmetric] split: option.splits)
qed

lemma all_results_fresh:
  "cache_ok content c \<Longrightarrow> \<forall>slot\<in>set slots. signed_by content w slot \<Longrightarrow>
     map_option fst (all_results w final slots c) = those (map (\<lambda>(st, g). tw_parse w st g final) slots)
     \<and> (\<forall>rs c'. all_results w final slots c = Some (rs, c') \<longrightarrow> cache_ok content c')"
proof (induction slots arbitrary: c)
  case (Cons slot slots)
  note one = one_result_fresh [OF Cons.prems(1), of w slot final]
  show ?case
  proof (cases "one_result w final slot c")
    case None
    then show ?thesis using one Cons.prems(2) by (auto split: prod.split)
  next
    case (Some x)
    obtain r c1 where x: "x = (r, c1)" by (cases x)
    have "cache_ok content c1" using one Some x Cons.prems(2) by simp
    note IH = Cons.IH [OF this]
    have "tw_parse w (fst slot) (snd slot) final = Some r" using one Some x Cons.prems(2) by simp
    moreover have "those (map (\<lambda>(st, g). tw_parse w st g final) slots) = map_option fst (all_results w final slots c1)"
      using IH Cons.prems(2) by simp
    ultimately show ?thesis
      using IH Cons.prems(2) by (cases "all_results w final slots c1") (auto simp: Some x split: prod.splits)
  qed
qed simp

text \<open>A run takes snapshots of a changing world with one cache.\<close>

fun watch :: "row \<Rightarrow> stage list \<Rightarrow> group_plan list \<Rightarrow> (string \<Rightarrow> row list) \<Rightarrow> ('s task_world \<times> bool) list \<Rightarrow> 's run_cache
    \<Rightarrow> run_report option list" where
  "watch info stages gs prepared [] c = []"
| "watch info stages gs prepared ((w, final) # worlds) c =
     (case take_snapshot info stages gs prepared w final c of
        None \<Rightarrow> [None]
      | Some (s, c') \<Rightarrow> Some s # watch info stages gs prepared worlds c')"

definition fresh_snapshot :: "row \<Rightarrow> stage list \<Rightarrow> group_plan list \<Rightarrow> (string \<Rightarrow> row list) \<Rightarrow> 's task_world \<Rightarrow> bool \<Rightarrow> run_report option" where
  "fresh_snapshot info stages gs prepared w final =
     map_option fst (take_snapshot info stages gs prepared w final new_run)"

lemma snapshot_fresh:
  assumes "cache_ok content c" "\<forall>slot\<in>set (cells_of stages gs). signed_by content w slot"
  shows "map_option fst (take_snapshot info stages gs prepared w final c) = fresh_snapshot info stages gs prepared w final
    \<and> (\<forall>s c'. take_snapshot info stages gs prepared w final c = Some (s, c') \<longrightarrow> cache_ok content c')"
proof -
  have pair: "map_option fst (map_option (\<lambda>(rs, c'). (f rs, c')) x) = map_option f (map_option fst x)"
    for f :: "result list \<Rightarrow> run_report" and x :: "(result list \<times> 'a run_cache) option"
    by (cases x) auto
  show ?thesis
    using all_results_fresh [OF assms, of final] all_results_fresh [OF cache_ok_new [of content] assms(2), of final]
    by (auto simp: take_snapshot_def fresh_snapshot_def pair split: prod.splits)
qed


section \<open>Accounting\<close>

lemma count_status_split:
  "count_status P rs + count_status (\<lambda>s. \<not> P s) rs = length rs"
  unfolding count_status_def by (rule length_filter_split)

lemma count_status_or:
  "(\<And>s. \<not> (P s \<and> Q s)) \<Longrightarrow> count_status (\<lambda>s. P s \<or> Q s) rs = count_status P rs + count_status Q rs"
  by (induction rs) (auto simp: count_status_def)

lemma count_status_cong: "(\<And>s. P s = Q s) \<Longrightarrow> count_status P rs = count_status Q rs"
  by (simp add: count_status_def)

text \<open>
  In every stage summary each cell is counted exactly once: as passed, warned, failed, not
  applicable or incomplete; and either as completed or as one whose task has not ended.
\<close>
theorem stage_counts_add_up:
  "sm_passed (summarize rs st) + sm_warned (summarize rs st) + sm_failed (summarize rs st) + sm_na (summarize rs st)
      + sm_incomplete (summarize rs st) = sm_planned (summarize rs st)
   \<and> sm_completed (summarize rs st)
      + count_status (\<lambda>s. s \<notin> set terminal_states) (filter (\<lambda>r. rs_stage r = st_id st) rs) = sm_planned (summarize rs st)"
proof -
  have "count_status (\<lambda>s. s = ''PASS'') xs + count_status (\<lambda>s. s = ''WARN'') xs
      + (count_status (\<lambda>s. s = ''FAIL'') xs + count_status (\<lambda>s. s = ''TIMEOUT'') xs) + count_status (\<lambda>s. s = ''NA'') xs
      + count_status (\<lambda>s. s \<notin> set terminal_states \<or> s \<in> {''BLOCKED'', ''CANCELLED''}) xs = length xs" for xs
    by (induction xs) (auto simp: count_status_def terminal_states_def)
  moreover have "count_status (\<lambda>s. s \<in> set terminal_states) xs + count_status (\<lambda>s. s \<notin> set terminal_states) xs = length xs" for xs
    by (rule count_status_split)
  ultimately show ?thesis by (simp add: summarize_def Let_def)
qed

section \<open>The overall status\<close>

lemma overall_pass:
  "overall_status info stages gs rs ps = ''PASS'' \<longleftrightarrow>
     cell info ''status'' [] \<notin> {''CANCELLED'', ''PRECHECK_FAILED''} \<and> stages \<noteq> [] \<and> gs \<noteq> []
     \<and> number (cell info ''group_count'' []) \<in> {None, Some (real (length gs))}
     \<and> list_all (\<lambda>p. pf_status p \<in> set accepted_states) ps
     \<and> list_all (\<lambda>r. rs_status r = ''PASS'' \<and> rs_cleanup r = ''CONFIRMED'' \<and> rs_reason r \<noteq> ''CLEANUP_UNCONFIRMED'') rs"
proof -
  have "length (filter result_valid rs) = length rs \<longleftrightarrow> list_all result_valid rs"
    by (metis filter_True filter_id_conv length_filter_less linorder_neq_iff list_all_iff)
  moreover have "rs_status r = ''PASS'' \<and> rs_cleanup r = ''CONFIRMED''
      \<longleftrightarrow> rs_status r \<in> set accepted_states \<and> rs_status r \<noteq> ''WARN'' \<and> result_valid r" for r
    by (auto simp: accepted_states_def result_valid_def valid_conclusions_def)
  ultimately show ?thesis
    unfolding overall_status_def plan_complete_def list_ex_iff list_all_iff by (simp split: if_split) blast
qed

text \<open>The outcome of the parser at the time of the snapshot.\<close>

definition file_world :: "(task_key \<Rightarrow> 's) \<Rightarrow> string \<Rightarrow> (row list \<Rightarrow> check list) \<Rightarrow> (row list \<Rightarrow> check list)
    \<Rightarrow> (task_key \<Rightarrow> task_files) \<Rightarrow> 's task_world" where
  "file_world sig operation platform resource files =
     \<lparr>tw_sig = sig,
      tw_parse = (\<lambda>st g final. parse operation platform resource (files (st_id st, gp_name g)) st g final)\<rparr>"

definition slot_key :: "stage \<times> group_plan \<Rightarrow> task_key" where
  "slot_key slot = (st_id (fst slot), gp_name (snd slot))"

lemma distinct_keys:
  assumes "plan_ok stages gs" "slot \<in> set (cells_of stages gs)" "slot' \<in> set (cells_of stages gs)" "slot_key slot = slot_key slot'"
  shows "slot = slot'"
  using assms by (auto simp: plan_ok_def cells_of_def slot_key_def distinct_map inj_on_def prod_eq_iff)

lemma fresh_snapshot_results:
  assumes "plan_ok stages gs"
  shows "fresh_snapshot info stages gs prepared w final =
    map_option (build_snapshot info stages gs prepared) (those (map (\<lambda>(st, g). tw_parse w st g final) (cells_of stages gs)))"
proof -
  define content where "content = (\<lambda>key (sig :: 'a) final.
    case List.find (\<lambda>slot. slot_key slot = key) (cells_of stages gs) of None \<Rightarrow> None | Some slot \<Rightarrow> tw_parse w (fst slot) (snd slot) final)"
  have "signed_by content w slot" if slot: "slot \<in> set (cells_of stages gs)" for slot
  proof -
    have "List.find (\<lambda>x. slot_key x = slot_key slot) (cells_of stages gs) = Some slot"
    proof (cases "List.find (\<lambda>x. slot_key x = slot_key slot) (cells_of stages gs)")
      case None
      then show ?thesis using slot unfolding find_None_iff by blast
    next
      case (Some x)
      then have "x \<in> set (cells_of stages gs)" "slot_key x = slot_key slot" by (auto simp: find_Some_iff)
      then show ?thesis using distinct_keys [OF assms _ slot] Some by simp
    qed
    then show ?thesis by (simp add: signed_by_def content_def slot_key_def)
  qed
  then have "those (map (\<lambda>(st, g). tw_parse w st g final) (cells_of stages gs)) =
      map_option fst (all_results w final (cells_of stages gs) new_run)"
    using all_results_fresh [OF cache_ok_new, of "cells_of stages gs" content w final] by simp
  then show ?thesis
    using assms by (cases "all_results w final (cells_of stages gs) new_run")
      (auto simp: fresh_snapshot_def take_snapshot_def split: prod.splits)
qed

lemma those_member: "those xs = Some ys \<Longrightarrow> Some y \<in> set xs \<Longrightarrow> y \<in> set ys"
  by (induction xs arbitrary: ys) (auto split: option.splits)

lemma those_all: "those xs = Some ys \<Longrightarrow> x \<in> set xs \<Longrightarrow> \<exists>y. x = Some y"
  by (induction xs arbitrary: ys) (auto split: option.splits)

lemma those_back: "those xs = Some ys \<Longrightarrow> y \<in> set ys \<Longrightarrow> Some y \<in> set xs"
  by (induction xs arbitrary: ys) (auto split: option.splits)

text \<open>Where a result of a reader with caches comes from: a world of \<open>W\<close> in which the task had the same signature.\<close>

definition origin :: "'s task_world set \<Rightarrow> (task_key \<Rightarrow> 's) \<Rightarrow> bool \<Rightarrow> stage \<times> group_plan \<Rightarrow> result \<Rightarrow> bool" where
  "origin W sig final slot r \<longleftrightarrow>
     (\<exists>w\<in>W. tw_sig w (slot_key slot) = sig (slot_key slot) \<and> tw_parse w (fst slot) (snd slot) final = Some r)"

definition cache_known :: "'s task_world set \<Rightarrow> (stage \<times> group_plan) set \<Rightarrow> 's run_cache \<Rightarrow> bool" where
  "cache_known W slots c \<longleftrightarrow>
     (\<forall>slot\<in>slots. \<forall>s final r. (cached c (slot_key slot) s final = Some r \<or> memo c (slot_key slot) s final = Some r)
        \<longrightarrow> origin W (\<lambda>_. s) final slot r)"

lemma cache_known_new: "cache_known W slots new_run"
  by (simp add: cache_known_def cached_def memo_def new_run_def)

lemma origin_mono: "origin W sig final slot r \<Longrightarrow> W \<subseteq> W' \<Longrightarrow> origin W' sig final slot r"
  by (auto simp: origin_def)

lemma cache_known_mono: "cache_known W slots c \<Longrightarrow> W \<subseteq> W' \<Longrightarrow> cache_known W' slots c"
  unfolding cache_known_def using origin_mono by blast

lemma cache_knownI:
  assumes "cache_known W slots c" "origin W (\<lambda>_. s) final slot r" "\<forall>slot'\<in>slots. slot_key slot' = slot_key slot \<longrightarrow> slot' = slot"
    and "\<And>k s' f r'. cached c' k s' f = Some r' \<or> memo c' k s' f = Some r' \<Longrightarrow>
      cached c k s' f = Some r' \<or> memo c k s' f = Some r' \<or> (k = slot_key slot \<and> s' = s \<and> f = final \<and> r' = r)"
  shows "cache_known W slots c'"
  unfolding cache_known_def
proof (intro ballI allI impI)
  fix slot' s' f r' assume a: "slot' \<in> slots" "cached c' (slot_key slot') s' f = Some r' \<or> memo c' (slot_key slot') s' f = Some r'"
  from assms(4) [OF a(2)] consider "cached c (slot_key slot') s' f = Some r' \<or> memo c (slot_key slot') s' f = Some r'"
    | "slot_key slot' = slot_key slot" "s' = s" "f = final" "r' = r" by blast
  then show "origin W (\<lambda>_. s') f slot' r'"
  proof cases
    case 1
    then show ?thesis using assms(1) a(1) unfolding cache_known_def by blast
  next
    case 2
    then have "slot' = slot" using assms(3) a(1) by blast
    then show ?thesis using 2 assms(2) by simp
  qed
qed

lemma cache_known_insert:
  assumes "cache_known W slots c" "origin W (\<lambda>_. s) final slot r" "\<forall>slot'\<in>slots. slot_key slot' = slot_key slot \<longrightarrow> slot' = slot"
  shows "cache_known W slots (c \<lparr>rc_ended := (rc_ended c)(slot_key slot \<mapsto> ((s, final), r))\<rparr>)"
    "cache_known W slots (c \<lparr>rc_open := (rc_open c)(slot_key slot \<mapsto> (s, r, final))\<rparr>)"
proof -
  have c: "cached (c \<lparr>rc_ended := (rc_ended c)(slot_key slot \<mapsto> ((s, final), r))\<rparr>) k s' f =
      (if k = slot_key slot then if (s, final) = (s', f) then Some r else None else cached c k s' f)"
    "memo (c \<lparr>rc_open := (rc_open c)(slot_key slot \<mapsto> (s, r, final))\<rparr>) k s' f =
      (if k = slot_key slot then if s = s' \<and> final = f then Some r else None else memo c k s' f)"
    "memo (c \<lparr>rc_ended := x\<rparr>) k s' f = memo c k s' f" "cached (c \<lparr>rc_open := y\<rparr>) k s' f = cached c k s' f" for k s' f x y
    by (simp_all add: cached_def memo_def)
  show "cache_known W slots (c \<lparr>rc_ended := (rc_ended c)(slot_key slot \<mapsto> ((s, final), r))\<rparr>)"
    by (rule cache_knownI [OF assms], simp only: c) (metis option.inject option.distinct(1) prod.inject)
  show "cache_known W slots (c \<lparr>rc_open := (rc_open c)(slot_key slot \<mapsto> (s, r, final))\<rparr>)"
    by (rule cache_knownI [OF assms], simp only: c) (metis option.inject option.distinct(1))
qed

lemma one_result_origin:
  assumes "cache_known W slots c" "w \<in> W" "\<forall>slot'\<in>slots. slot_key slot' = slot_key slot \<longrightarrow> slot' = slot" "slot \<in> slots"
    and "one_result w final slot c = Some (r, c')"
  shows "origin W (tw_sig w) final slot r \<and> cache_known W slots c'"
proof -
  obtain st g where slot: "slot = (st, g)" by (cases slot)
  define key where "key = slot_key slot"
  define s where "s = tw_sig w key"
  consider "cached c (key) s final = Some r" "c' = c" | "memo c (key) s final = Some r" "c' = c"
    | "tw_parse w st g final = Some r" "c' = (if rs_status r \<in> set terminal_states
                      then c \<lparr>rc_ended := (rc_ended c)(key \<mapsto> ((s, final), r))\<rparr>
                      else c \<lparr>rc_open := (rc_open c)(key \<mapsto> (s, r, final))\<rparr>)"
  proof -
    have key: "(st_id st, gp_name g) = key" by (simp add: slot_key_def slot key_def)
    note one = assms(5) [unfolded one_result_def Let_def, unfolded slot prod.case key, folded s_def]
    show thesis
    proof (cases "cached c (key) s final")
      case (Some x)
      then show thesis using that(1) one by simp
    next
      case uncached: None
      show thesis
      proof (cases "memo c (key) s final")
        case (Some x)
        then show thesis using that(2) one uncached by simp
      next
        case None
        then show thesis using that(3) one uncached by (cases "tw_parse w st g final") simp_all
      qed
    qed
  qed
  moreover have sig: "origin W (\<lambda>_. s) final slot r = origin W (tw_sig w) final slot r" by (simp add: origin_def s_def key_def)
  ultimately show ?thesis
  proof cases
    case 1
    then have "origin W (\<lambda>_. s) final slot r" using assms(1,4) unfolding cache_known_def key_def by blast
    then show ?thesis using 1(2) assms(1) sig by simp
  next
    case 2
    then have "origin W (\<lambda>_. s) final slot r" using assms(1,4) unfolding cache_known_def key_def by blast
    then show ?thesis using 2(2) assms(1) sig by simp
  next
    case 3
    have "tw_parse w (fst slot) (snd slot) final = Some r" using 3(1) by (simp add: slot)
    then have o: "origin W (\<lambda>_. s) final slot r" using assms(2) unfolding origin_def s_def key_def by blast
    have "cache_known W slots c'" unfolding 3(2) key_def using cache_known_insert [OF assms(1) o assms(3)] by simp
    then show ?thesis using o sig by simp
  qed
qed

lemma all_results_origin:
  assumes "cache_known W slots c" "w \<in> W" "\<forall>slot\<in>slots. \<forall>slot'\<in>slots. slot_key slot' = slot_key slot \<longrightarrow> slot' = slot"
    and "all_results w final ss c = Some (rs, c')" "set ss \<subseteq> slots"
  shows "list_all2 (origin W (tw_sig w) final) ss rs \<and> cache_known W slots c'"
  using assms(1,4,5)
proof (induction ss arbitrary: c rs)
  case (Cons slot ss)
  obtain r c1 rest where one: "one_result w final slot c = Some (r, c1)" "all_results w final ss c1 = Some (rest, c')" "rs = r # rest"
    using Cons.prems(2) by (auto split: option.splits)
  have o: "origin W (tw_sig w) final slot r" "cache_known W slots c1"
    using one_result_origin [OF Cons.prems(1) assms(2) _ _ one(1)] assms(3) Cons.prems(3) by auto
  then show ?case using Cons.IH [OF o(2) one(2)] Cons.prems(3) one(3) by simp
qed simp

lemma all_results_None:
  "all_results w final ss c = None \<Longrightarrow> \<exists>slot\<in>set ss. tw_parse w (fst slot) (snd slot) final = None"
proof (induction ss arbitrary: c)
  case (Cons slot ss)
  then show ?case by (auto simp: one_result_def Let_def split: option.splits prod.splits if_splits)
qed simp

text \<open>
  A watched run never shows a result of another task or of another state of its task.  The
  i-th snapshot with the reader's caches is built from results that were each parsed for their own
  cell, with the final flag of this snapshot, in this or an earlier world of the watch in which the
  task had the signature it has now; and a snapshot is only missing, which ends the watch, when the
  plan is damaged or some cell cannot be parsed in its world.  (That a signature of file sizes and times
  may miss a rewrite is a limit of the code that this does not remove.)
\<close>
theorem watched_results_have_the_signature:
  assumes "i < length (watch info stages gs prepared worlds new_run)"
  shows "case watch info stages gs prepared worlds new_run ! i of
      None \<Rightarrow> Suc i = length (watch info stages gs prepared worlds new_run)
        \<and> (\<not> plan_ok stages gs \<or> (\<exists>(st, g)\<in>set (cells_of stages gs). tw_parse (fst (worlds ! i)) st g (snd (worlds ! i)) = None))
    | Some s \<Rightarrow> \<exists>rs. s = build_snapshot info stages gs prepared rs
        \<and> list_all2 (\<lambda>(st, g) r. \<exists>j\<le>i. tw_sig (fst (worlds ! j)) (st_id st, gp_name g) = tw_sig (fst (worlds ! i)) (st_id st, gp_name g)
              \<and> tw_parse (fst (worlds ! j)) st g (snd (worlds ! i)) = Some r) (cells_of stages gs) rs"
proof -
  have known: "case watch info stages gs prepared ws c ! i of
      None \<Rightarrow> Suc i = length (watch info stages gs prepared ws c)
        \<and> (\<not> plan_ok stages gs \<or> (\<exists>(st, g)\<in>set (cells_of stages gs). tw_parse (fst (ws ! i)) st g (snd (ws ! i)) = None))
    | Some s \<Rightarrow> \<exists>rs. s = build_snapshot info stages gs prepared rs
        \<and> list_all2 (origin (W \<union> fst ` set (take (Suc i) ws)) (tw_sig (fst (ws ! i))) (snd (ws ! i))) (cells_of stages gs) rs"
    if "cache_known W (set (cells_of stages gs)) c" "i < length (watch info stages gs prepared ws c)" for W c i ws
    using that
  proof (induction ws arbitrary: c W i)
    case (Cons x ws)
    obtain w final where x: "x = (w, final)" by (cases x)
    let ?W = "insert w W"
    show ?case
    proof (cases "take_snapshot info stages gs prepared w final c")
      case None
      then have "\<not> plan_ok stages gs \<or> (\<exists>slot\<in>set (cells_of stages gs). tw_parse w (fst slot) (snd slot) final = None)"
        using all_results_None by (auto simp: take_snapshot_def split: if_splits)
      then show ?thesis using Cons.prems(2) None by (auto simp: x)
    next
      case (Some y)
      obtain s c1 where y: "y = (s, c1)" by (cases y)
      then obtain rs where rs: "all_results w final (cells_of stages gs) c = Some (rs, c1)" "s = build_snapshot info stages gs prepared rs"
        and plan: "plan_ok stages gs"
        using Some by (auto simp: take_snapshot_def split: if_splits)
      have keys: "\<forall>slot\<in>set (cells_of stages gs). \<forall>slot'\<in>set (cells_of stages gs). slot_key slot' = slot_key slot \<longrightarrow> slot' = slot"
        using distinct_keys [OF plan] by blast
      have o: "list_all2 (origin ?W (tw_sig w) final) (cells_of stages gs) rs" "cache_known ?W (set (cells_of stages gs)) c1"
        using all_results_origin [OF cache_known_mono [OF Cons.prems(1)] _ keys rs(1), of ?W] by auto
      show ?thesis
      proof (cases i)
        case 0
        then show ?thesis using o(1) rs(2) Some by (auto simp: x y)
      next
        case (Suc k)
        then have "k < length (watch info stages gs prepared ws c1)" using Cons.prems(2) Some by (simp add: x y)
        from Cons.IH [OF o(2) this] show ?thesis using Suc Some by (simp add: x y split: option.splits)
      qed
    qed
  qed simp
  have o: "case slot of (st, g) \<Rightarrow> \<exists>j\<le>i. tw_sig (fst (worlds ! j)) (st_id st, gp_name g) = tw_sig (fst (worlds ! i)) (st_id st, gp_name g)
      \<and> tw_parse (fst (worlds ! j)) st g (snd (worlds ! i)) = Some r"
    if og: "origin ({} \<union> fst ` set (take (Suc i) worlds)) (tw_sig (fst (worlds ! i))) (snd (worlds ! i)) slot r" for slot r
  proof -
    obtain x where x: "x \<in> set (take (Suc i) worlds)" "tw_sig (fst x) (slot_key slot) = tw_sig (fst (worlds ! i)) (slot_key slot)"
      "tw_parse (fst x) (fst slot) (snd slot) (snd (worlds ! i)) = Some r"
      using og by (auto simp: origin_def)
    then obtain j where j: "j < length (take (Suc i) worlds)" "take (Suc i) worlds ! j = x"
      unfolding in_set_conv_nth by blast
    then have "j \<le> i" "worlds ! j = x" by simp_all
    then show ?thesis using x(2,3) by (cases slot) (auto simp: slot_key_def intro!: exI [of _ j])
  qed
  show ?thesis
  proof (cases "watch info stages gs prepared worlds new_run ! i")
    case None
    then show ?thesis using known [OF cache_known_new [of "{}"] assms] by simp
  next
    case (Some s)
    then obtain rs where rs: "s = build_snapshot info stages gs prepared rs"
      "list_all2 (origin ({} \<union> fst ` set (take (Suc i) worlds)) (tw_sig (fst (worlds ! i))) (snd (worlds ! i))) (cells_of stages gs) rs"
      using known [OF cache_known_new [of "{}"] assms] by auto
    have "list_all2 (\<lambda>(st, g) r. \<exists>j\<le>i. tw_sig (fst (worlds ! j)) (st_id st, gp_name g) = tw_sig (fst (worlds ! i)) (st_id st, gp_name g)
        \<and> tw_parse (fst (worlds ! j)) st g (snd (worlds ! i)) = Some r) (cells_of stages gs) rs"
      by (rule list_all2_mono [OF rs(2)]) (drule o, simp only: case_prod_unfold)
    then show ?thesis unfolding Some option.case using rs(1) by blast
  qed
qed

text \<open>
  C28: A report says PASS only for a run that was neither cancelled nor stopped by the preflight,
  whose plan is not empty and has the declared number of groups, whose preflights all succeeded,
  and in which every stage of every group has the row, the node rows, the confirmed cleanup and
  the log evidence that its operation asks for.
\<close>
theorem passing_report_shows_everything:
  assumes "fresh_snapshot info stages gs prepared (file_world sig operation platform resource files) final = Some s"
    and "sn_status s = ''PASS''" "st \<in> set stages" "g \<in> set gs"
  shows "cell info ''status'' [] \<notin> {''CANCELLED'', ''PRECHECK_FAILED''}
    \<and> number (cell info ''group_count'' []) \<in> {None, Some (real (length gs))}
    \<and> (\<forall>row rest. prepared (gp_name g) = row # rest \<longrightarrow> cell row ''status'' ''INCOMPLETE'' \<in> set accepted_states)
    \<and> (let f = files (st_id st, gp_name g) in
       cell (task_fact f final) ''status'' ''PENDING'' = ''PASS''
       \<and> cell (task_fact f final) ''cleanup'' ''NOT_STARTED'' = ''CONFIRMED'' \<and> rows_complete operation f g
       \<and> evidence_shown operation platform resource f g (task_fact f final) (start_result f st g final))"
proof -
  let ?f = "files (st_id st, gp_name g)"
  have plan: "plan_ok stages gs" using assms(1) by (auto simp: fresh_snapshot_def take_snapshot_def split: if_splits)
  define w where "w = file_world sig operation platform resource files"
  obtain rs where rs: "those (map (\<lambda>(st, g). tw_parse w st g final) (cells_of stages gs)) = Some rs"
    "s = build_snapshot info stages gs prepared rs"
    using assms(1) unfolding w_def [symmetric] fresh_snapshot_results [OF plan] by auto
  define ps where "ps = List.map_filter (preflight_of prepared) gs"
  have pass: "overall_status info stages gs rs ps = ''PASS''"
    using assms(2) by (simp add: rs(2) build_snapshot_def Let_def ps_def)
  have slot: "Some r \<in> set (map (\<lambda>(st, g). tw_parse w st g final) (cells_of stages gs))" if "tw_parse w st g final = Some r" for r
    using assms(3,4) that by (force simp: cells_of_def image_iff)
  have "tw_parse w st g final \<in> set (map (\<lambda>(st, g). tw_parse w st g final) (cells_of stages gs))"
    using assms(3,4) by (force simp: cells_of_def)
  then obtain r where r: "tw_parse w st g final = Some r" using those_all [OF rs(1)] by blast
  then have "r \<in> set rs" using those_member [OF rs(1) slot] by blast
  then have "rs_status r = ''PASS''" using pass unfolding overall_pass list_all_iff by blast
  moreover have "parse operation platform resource ?f st g final = Some r" using r by (simp add: w_def file_world_def)
  ultimately have task: "cell (task_fact ?f final) ''status'' ''PENDING'' = ''PASS''
      \<and> cell (task_fact ?f final) ''cleanup'' ''NOT_STARTED'' = ''CONFIRMED'' \<and> rows_complete operation ?f g
      \<and> evidence_shown operation platform resource ?f g (task_fact ?f final) (start_result ?f st g final)"
    using accepted_exact by blast
  have "cell row ''status'' ''INCOMPLETE'' \<in> set accepted_states" if "prepared (gp_name g) = row # rest" for row rest
  proof -
    have "the (preflight_of prepared g) \<in> set ps" "pf_status (the (preflight_of prepared g)) = cell row ''status'' ''INCOMPLETE''"
      using that assms(4) by (auto simp: ps_def preflight_of_def map_filter_def image_iff intro!: bexI [of _ g])
    then show ?thesis using pass unfolding overall_pass list_all_iff by metis
  qed
  then show ?thesis using pass task unfolding overall_pass Let_def by blast
qed

section \<open>No failure is silent\<close>

text \<open>
  Where a result that failed its checks comes from: a check that is not PASS, or a row that
  already said so.
\<close>

lemma fail_with_simps [simp]: "rs_reason (fail_with code r) = code" "rs_checks (fail_with code r) = rs_checks r"
  by (simp_all add: fail_with_def)

definition check_codes :: "string set" where
  "check_codes = {''CHECK_FAILED'', ''CHECK_WARN''}"

definition quiet :: "result \<Rightarrow> result \<Rightarrow> bool" where
  "quiet r x \<longleftrightarrow> x = r \<or> rs_reason x \<notin> check_codes"

lemma quiet_refl: "quiet r r"
  by (simp add: quiet_def)

lemma quiet_fail: "code \<notin> check_codes \<Longrightarrow> quiet r (fail_with code y)"
  by (simp add: quiet_def)

lemma quiet_reason: "code \<notin> check_codes \<Longrightarrow> quiet r (y \<lparr>rs_reason := code\<rparr>)"
  by (simp add: quiet_def)

lemma quiet_if: "quiet r x \<Longrightarrow> quiet r y \<Longrightarrow> quiet r (if c then x else y)"
  by simp

lemma quiet_case: "quiet r a \<Longrightarrow> (\<And>x. quiet r (f x)) \<Longrightarrow> quiet r (case v of None \<Rightarrow> a | Some x \<Rightarrow> f x)"
  by (cases v) simp_all

lemmas quiet_rules = quiet_if quiet_case quiet_refl quiet_fail quiet_reason

lemma quiet_same:
  "quiet (r \<lparr>rs_checks := cs\<rparr>) x \<Longrightarrow> rs_reason x \<in> check_codes \<Longrightarrow> rs_reason x = rs_reason r \<and> rs_status x = rs_status r"
  by (auto simp: quiet_def)

lemma rccl_quiet: "rccl plan execution lns r = Some r' \<Longrightarrow> quiet r r'"
proof -
  assume r': "rccl plan execution lns r = Some r'"
  have "quiet r (rccl_verdict plan execution ev r)" for ev
    unfolding rccl_verdict_def Let_def prod.case by (intro quiet_rules; simp add: check_codes_def)
  then show ?thesis using r' quiet_refl by (auto simp: rccl_def split: if_splits option.splits)
qed

lemma other_quiet:
  "quiet r (deepep lns r)" "quiet r (byte_flux lnss r)"
  unfolding deepep_def byte_flux_def Let_def by (intro quiet_rules; simp add: check_codes_def)+

lemma health_quiet:
  assumes "label = ''PLATFORM'' \<or> label = ''RESOURCE''"
  shows "quiet r (health_conclusion checks label r)"
proof -
  have "label @ ''_HEALTH_FAILED'' \<notin> check_codes" "label @ ''_HEALTH_WARN'' \<notin> check_codes" "label @ ''_HEALTH_PASS'' \<notin> check_codes"
    using assms by (auto simp: check_codes_def)
  then show ?thesis unfolding health_conclusion_def by (intro quiet_rules)
qed

lemma check_deep_reason:
  assumes "rs_reason (check_deep nodes r) \<in> check_codes" "rs_status (check_deep nodes r) = ''FAIL''"
  shows "list_ex (\<lambda>c. ck_status c \<noteq> ''PASS'') (rs_checks (check_deep nodes r))
    \<or> rs_status r = ''FAIL'' \<and> rs_reason r = rs_reason (check_deep nodes r)"
proof -
  define checks where "checks = concat (map (\<lambda>(node, rc, lns). deep_checks node rc lns) nodes)"
  have x: "rs_checks (check_deep nodes r) = checks"
    by (simp add: check_deep_def checks_def Let_def)
  show ?thesis
  proof (cases "list_ex (\<lambda>c. ck_status c \<in> {''FAIL'', ''INCOMPLETE''}) checks")
    case True
    then show ?thesis unfolding x by (auto simp: list_ex_iff)
  next
    case False
    have "quiet (r \<lparr>rs_checks := checks\<rparr>) (check_deep nodes r) \<or> rs_status (check_deep nodes r) \<noteq> ''FAIL''"
      unfolding check_deep_def Let_def checks_def [symmetric] using False
      by (simp add: quiet_def check_codes_def)
    then show ?thesis using assms by (auto simp: quiet_def)
  qed
qed

lemma check_rows_quiet: "quiet r (check_rows operation f g r)"
  unfolding check_rows_def by (intro quiet_rules; simp add: check_codes_def)

lemma cleanup_quiet: "quiet r (check_cleanup r)"
  unfolding check_cleanup_def by (intro quiet_rules; simp add: check_codes_def)

lemma judge_reason:
  assumes "judge operation platform resource f g facts r = Some r'" "rs_reason r' \<in> check_codes" "rs_status r' = ''FAIL''"
  shows "list_ex (\<lambda>c. ck_status c \<noteq> ''PASS'') (rs_checks r') \<or> rs_status r = ''FAIL'' \<and> rs_reason r \<in> check_codes"
proof -
  have same: "rs_status r = ''FAIL'' \<and> rs_reason r \<in> check_codes"
    if "quiet y r'" "rs_status y = rs_status r" "rs_reason y = rs_reason r" for y
    using that assms(2,3) by (auto simp: quiet_def)
  consider "operation = ''rccl''" | "operation = ''check_deep''" | "operation = ''deepep''" | "operation = ''byte-flux''"
    | "operation \<notin> {''rccl'', ''check_deep'', ''deepep'', ''byte-flux''}" unfolding insert_iff empty_iff by argo
  then show ?thesis
  proof cases
    case 1
    then have "quiet r r'" using assms(1) by (auto simp: judge_def Let_def dest: rccl_quiet)
    then show ?thesis using same by simp
  next
    case 2
    then obtain nodes where "r' = check_deep nodes r" using assms(1) by (auto simp: judge_def)
    then show ?thesis using check_deep_reason assms(2,3) by metis
  next
    case 3
    then have "quiet r r'" using assms(1) other_quiet(1) by (auto simp: judge_def)
    then show ?thesis using same by simp
  next
    case 4
    then have "quiet r r'" using assms(1) other_quiet(2) by (auto simp: judge_def)
    then show ?thesis using same by simp
  next
    case 5
    define r1 where "r1 = (if operation \<in> {''platform'', ''platform,resource''}
        then health_conclusion (platform (tf_nodes f)) ''PLATFORM'' (r \<lparr>rs_checks := platform (tf_nodes f)\<rparr>) else r)"
    define cs where "cs = rs_checks r1 @ resource (tf_nodes f)"
    have r': "r' = (if operation \<in> {''resource'', ''platform,resource''}
        then health_conclusion cs ''RESOURCE'' (r1 \<lparr>rs_checks := cs\<rparr>) else r1)"
    proof -
      have n: "operation \<noteq> ''rccl''" "operation \<noteq> ''check_deep''" "operation \<noteq> ''deepep''" "operation \<noteq> ''byte-flux''"
        using 5 by simp_all
      show ?thesis
        using assms(1) unfolding judge_def Let_def if_not_P [OF n(1)] if_not_P [OF n(2)] if_not_P [OF n(3)] if_not_P [OF n(4)]
          option.inject r1_def cs_def by (rule sym)
    qed
    have first: "quiet (r \<lparr>rs_checks := rs_checks r1\<rparr>) r1"
    proof (cases "operation \<in> {''platform'', ''platform,resource''}")
      case True
      then have "rs_checks r1 = platform (tf_nodes f)" by (simp add: r1_def health_conclusion_def)
      then show ?thesis using True health_quiet [of "''PLATFORM''"] by (simp add: r1_def)
    qed (simp add: r1_def quiet_def)
    have "quiet (r1 \<lparr>rs_checks := rs_checks r'\<rparr>) r'"
    proof (cases "operation \<in> {''resource'', ''platform,resource''}")
      case True
      then have "rs_checks r' = cs" by (simp add: r' health_conclusion_def)
      then show ?thesis using True health_quiet [of "''RESOURCE''"] by (simp add: r')
    qed (simp add: r' quiet_def)
    then have final_step: "rs_reason r' = rs_reason r1 \<and> rs_status r' = rs_status r1" using quiet_same assms(2) by blast
    then have "rs_reason r1 = rs_reason r \<and> rs_status r1 = rs_status r" using quiet_same [OF first] assms(2) by simp
    then show ?thesis using final_step assms(2,3) by simp
  qed
qed

text \<open>Judging a task that ended normally leaves it in one of three states.\<close>

definition judged :: "result \<Rightarrow> bool" where
  "judged r \<longleftrightarrow> rs_status r \<in> {''PASS'', ''FAIL'', ''WARN''}"

lemma judged_rules:
  "judged (fail_with code y)" "judged r \<Longrightarrow> judged (r \<lparr>rs_reason := code\<rparr>)" "judged r \<Longrightarrow> judged (r \<lparr>rs_checks := cs\<rparr>)"
  "judged (r \<lparr>rs_status := ''WARN'', rs_reason := code\<rparr>)"
  "judged x \<Longrightarrow> judged y \<Longrightarrow> judged (if c then x else y)"
  "judged a \<Longrightarrow> (\<And>z. judged (h z)) \<Longrightarrow> judged (case v of None \<Rightarrow> a | Some z \<Rightarrow> h z)"
  by (auto simp: judged_def split: option.split)

lemma judge_judged:
  assumes "judge operation platform resource f g facts r = Some r'" "judged r"
  shows "judged r'"
proof -
  have rccl: "judged y" if "rccl p e lns x = Some y" "judged x" for p e lns x y
  proof -
    have "judged (rccl_verdict p e ev x)" for ev
      unfolding rccl_verdict_def Let_def prod.case using that(2) by (intro judged_rules)
    then show ?thesis using that by (auto simp: rccl_def split: if_splits option.splits)
  qed
  have other: "judged (deepep lns x)" "judged (byte_flux ls x)" "judged (check_deep ns x)" "judged (health_conclusion cs label x)"
    if "judged x" for lns ls ns cs label x
    unfolding deepep_def byte_flux_def check_deep_def health_conclusion_def Let_def by (intro judged_rules that)+
  have Some_if: "(if c then Some x else Some y) = Some (if c then x else y)" for c and x y :: result by simp
  show ?thesis
  proof (cases "operation = ''rccl''")
    case True
    then show ?thesis using assms by (auto simp: judge_def Let_def dest: rccl)
  next
    case False
    have r': "r' = (if operation = ''deepep'' then deepep (deepep_log f g facts) r
      else if operation = ''byte-flux'' then byte_flux (map (node_log f) (tf_nodes f)) r
      else if operation = ''check_deep'' then
        check_deep (map (\<lambda>n. (cell n ''node'' [], cell n ''exit_code'' [], node_log f n)) (tf_nodes f)) r
      else
        (let r1 = (if operation \<in> {''platform'', ''platform,resource''}
                   then (let cs = platform (tf_nodes f) in health_conclusion cs ''PLATFORM'' (r \<lparr>rs_checks := cs\<rparr>)) else r)
         in if operation \<in> {''resource'', ''platform,resource''}
            then (let cs = rs_checks r1 @ resource (tf_nodes f) in health_conclusion cs ''RESOURCE'' (r1 \<lparr>rs_checks := cs\<rparr>))
            else r1))"
      using assms(1) unfolding judge_def Let_def if_not_P [OF False] Some_if option.inject by (rule sym)
    show ?thesis unfolding r' Let_def by (intro judged_rules other assms(2))
  qed
qed

lemma check_rows_judged: "judged r \<Longrightarrow> judged (check_rows operation f g r)"
  unfolding check_rows_def by (intro judged_rules)

lemma parse_failure:
  assumes "parse operation platform resource f st g final = Some r"
    and "rs_status r \<notin> {''PASS'', ''WARN'', ''NA'', ''PENDING'', ''RUNNING''}"
    and "\<not> (cell (task_fact f final) ''status'' ''PENDING'' = ''FAIL'' \<and> cell (task_fact f final) ''reason_code'' [] \<in> check_codes)"
  shows "check_failures r @ own_failure r \<noteq> []"
proof -
  define r0 where "r0 = start_result f st g final"
  define r1 where "r1 = (if final \<and> rs_status r0 \<notin> set terminal_states
      then r0 \<lparr>rs_status := ''INCOMPLETE'', rs_reason := ''INCOMPLETE''\<rparr> else r0)"
  have parse: "(if rs_status r1 = ''NA'' then
        Some (if rs_cleanup r1 \<noteq> ''CONFIRMED'' then r1 \<lparr>rs_reason := ''CLEANUP_UNCONFIRMED''\<rparr> else r1)
      else if rs_status r1 \<notin> set terminal_states \<or> rs_status r1 \<in> {''BLOCKED'', ''CANCELLED'', ''TIMEOUT''} then Some r1
      else map_option check_cleanup
             (judge operation platform resource f g (task_fact f final) (check_rows operation f g r1))) = Some r"
    using assms(1) unfolding parse_def Let_def r0_def [symmetric] r1_def [symmetric] by simp
  have checks: "rs_checks r1 = []" by (simp add: r1_def r0_def start_result_def Let_def)
  have own: ?thesis if "rs_checks r = [] \<or> rs_reason r \<notin> check_codes"
    using that assms(2) by (auto simp: own_failure_def check_codes_def)
  consider "rs_status r1 = ''NA''" | "r = r1"
    | "rs_status r1 \<in> set terminal_states \<and> rs_status r1 \<notin> {''BLOCKED'', ''CANCELLED'', ''TIMEOUT'', ''NA''}"
      "map_option check_cleanup (judge operation platform resource f g (task_fact f final) (check_rows operation f g r1)) = Some r"
    using parse by (auto split: if_splits)
  then show ?thesis
  proof cases
    case 1
    then have "rs_status r = ''NA''" using parse by (auto split: if_splits)
    then show ?thesis using assms(2) by simp
  next
    case 2
    then show ?thesis using own checks by simp
  next
    case 3
    obtain r2 where r2: "judge operation platform resource f g (task_fact f final) (check_rows operation f g r1) = Some r2"
      "r = check_cleanup r2"
      using 3(2) by auto
    have "judged r1" using 3(1) by (auto simp: judged_def terminal_states_def)
    then have "judged r2" using judge_judged [OF r2(1)] check_rows_judged by blast
    show ?thesis
    proof (cases "rs_reason r \<in> check_codes")
      case True
      then have "r = r2" using cleanup_quiet [of r2] by (simp add: r2(2) quiet_def)
      then have "rs_status r2 = ''FAIL''" using assms(2) \<open>judged r2\<close> by (auto simp: judged_def)
      then have "list_ex (\<lambda>c. ck_status c \<noteq> ''PASS'') (rs_checks r2)
          \<or> rs_status (check_rows operation f g r1) = ''FAIL'' \<and> rs_reason (check_rows operation f g r1) \<in> check_codes"
        using judge_reason [OF r2(1)] True \<open>r = r2\<close> by blast
      moreover have False if "rs_status (check_rows operation f g r1) = ''FAIL''" "rs_reason (check_rows operation f g r1) \<in> check_codes"
      proof -
        have "check_rows operation f g r1 = r1" using that(2) check_rows_quiet [of r1 operation f g] by (simp add: quiet_def)
        then have "r1 = r0" using that(1) by (auto simp: r1_def split: if_splits)
        then show False
          using that assms(3) \<open>check_rows operation f g r1 = r1\<close> by (simp add: r0_def start_result_def Let_def)
      qed
      ultimately show ?thesis using \<open>r = r2\<close> by (auto simp: check_failures_def list_ex_iff filter_empty_conv)
    qed (use own in blast)
  qed
qed

text \<open>A result belongs to the cell it was parsed for.\<close>

definition same_cell :: "result \<Rightarrow> result \<Rightarrow> bool" where
  "same_cell r x \<longleftrightarrow> rs_stage x = rs_stage r \<and> rs_group x = rs_group r"

lemma same_cell_fail: "same_cell r y \<Longrightarrow> same_cell r (fail_with code y)"
  by (simp add: same_cell_def fail_with_def)

lemma same_cell_updates:
  "same_cell r (y \<lparr>rs_status := s\<rparr>) = same_cell r y" "same_cell r (y \<lparr>rs_reason := s\<rparr>) = same_cell r y"
  "same_cell r (y \<lparr>rs_checks := cs\<rparr>) = same_cell r y" "same_cell r r"
  by (simp_all add: same_cell_def)

lemma same_cell_if: "same_cell r x \<Longrightarrow> same_cell r y \<Longrightarrow> same_cell r (if c then x else y)"
  by simp

lemma judge_same_cell:
  assumes "judge operation platform resource f g facts r = Some r'"
  shows "same_cell r r'"
proof -
  have fw [simp]: "rs_stage (fail_with code x) = rs_stage x" "rs_group (fail_with code x) = rs_group x" for code x
    by (simp_all add: fail_with_def)
  have rccl: "same_cell x y" if "rccl p e lns x = Some y" for p e lns x y
  proof -
    have "same_cell x (rccl_verdict p e ev x)" for ev
      unfolding rccl_verdict_def Let_def by (simp add: same_cell_def split: option.split)
    then show ?thesis using that by (auto simp: rccl_def same_cell_updates split: if_splits option.splits)
  qed
  have other: "same_cell z x \<Longrightarrow> same_cell z (deepep lns x)" "same_cell z x \<Longrightarrow> same_cell z (byte_flux ls x)"
    "same_cell z x \<Longrightarrow> same_cell z (check_deep ns x)" "same_cell z x \<Longrightarrow> same_cell z (health_conclusion cs label x)" for z lns ls ns cs label x
    by (simp_all add: same_cell_def deepep_def byte_flux_def check_deep_def health_conclusion_def Let_def)
  show ?thesis
  proof (cases "operation = ''rccl''")
    case True
    then show ?thesis using assms by (simp add: judge_def Let_def) (rule rccl)
  next
    case False
    have if_Some: "(if c then Some x else Some y) = Some (if c then x else y)" for c and x y :: result by simp
    show ?thesis
      using assms False unfolding judge_def Let_def if_not_P [OF False] if_Some option.inject
      by (elim subst) (intro same_cell_if other; simp add: same_cell_updates other)
  qed
qed

lemma parse_cell:
  assumes "parse operation platform resource f st g final = Some r"
  shows "rs_stage r = st_id st \<and> rs_group r = gp_name g"
proof -
  define r0 where "r0 = start_result f st g final"
  have r0: "rs_stage r0 = st_id st" "rs_group r0 = gp_name g" by (simp_all add: r0_def start_result_def Let_def)
  have c: "same_cell x (check_cleanup x)" "same_cell x (check_rows operation f g x)" for x
    by (simp_all add: check_cleanup_def check_rows_def same_cell_fail same_cell_updates)
  have "same_cell x z" if "judge operation platform resource f g facts (check_rows operation f g x) = Some y" "z = check_cleanup y"
    for facts x y z using judge_same_cell [OF that(1)] c that(2) unfolding same_cell_def by metis
  then have "same_cell r0 r"
    using assms unfolding parse_def Let_def r0_def [symmetric]
    by (auto simp: same_cell_updates same_cell_def split: if_splits)
  then show ?thesis using r0 by (simp add: same_cell_def)
qed

text \<open>
  C31: A result that is neither accepted nor still open is never lost, in any report.  The report
  then says FAIL, and either the cell has its own row, or the row of one of its checks, in the list of
  failures; or the run says that its preflight failed, when the list holds exactly the groups whose
  preparation failed; or the one silent case: the task's own row says FAIL because of its checks, while
  every check that its logs show passed.
\<close>
theorem no_failure_is_silent:
  assumes "fresh_snapshot info stages gs prepared (file_world sig operation platform resource files) final = Some s"
    and "r \<in> set (sn_results s)" "rs_status r \<notin> {''PASS'', ''WARN'', ''NA'', ''PENDING'', ''RUNNING''}"
  shows "sn_status s = ''FAIL''
    \<and> ((\<exists>fl\<in>set (sn_failures s). fl_stage fl = rs_stage r \<and> fl_group fl = rs_group r \<and> fl_status fl \<noteq> ''PASS'')
      \<or> cell info ''status'' [] = ''PRECHECK_FAILED'' \<and> sn_failures s = preflight_failures (sn_preflight s)
      \<or> (let row = task_fact (files (rs_stage r, rs_group r)) final in
          cell row ''status'' ''PENDING'' = ''FAIL'' \<and> cell row ''reason_code'' [] \<in> check_codes
          \<and> rs_checks r \<noteq> [] \<and> list_all (\<lambda>c. ck_status c = ''PASS'') (rs_checks r)))"
proof -
  have plan: "plan_ok stages gs" using assms(1) by (auto simp: fresh_snapshot_def take_snapshot_def split: if_splits)
  define w where "w = file_world sig operation platform resource files"
  obtain rs where rs: "those (map (\<lambda>(st, g). tw_parse w st g final) (cells_of stages gs)) = Some rs"
    "s = build_snapshot info stages gs prepared rs"
    using assms(1) unfolding w_def [symmetric] fresh_snapshot_results [OF plan] by auto
  have r: "r \<in> set rs" using assms(2) by (simp add: rs(2) build_snapshot_def Let_def)
  then obtain st g where "tw_parse w st g final = Some r" using those_back [OF rs(1)] by force
  then have parse: "parse operation platform resource (files (st_id st, gp_name g)) st g final = Some r"
    by (simp add: w_def file_world_def)
  note key = parse_cell [OF parse]
  have "\<not> plan_complete info stages gs rs"
    using r assms(3) by (auto simp: plan_complete_def list_all_iff accepted_states_def)
  then have fail: "sn_status s = ''FAIL''" by (simp add: rs(2) build_snapshot_def overall_status_def Let_def)
  show ?thesis
  proof (cases "check_failures r @ own_failure r = []")
    case True
    then have "cell (task_fact (files (rs_stage r, rs_group r)) final) ''status'' ''PENDING'' = ''FAIL''"
      "cell (task_fact (files (rs_stage r, rs_group r)) final) ''reason_code'' [] \<in> check_codes"
      using parse_failure [OF parse assms(3)] key by auto
    moreover have "rs_checks r \<noteq> []" "list_all (\<lambda>c. ck_status c = ''PASS'') (rs_checks r)"
      using True assms(3) by (auto simp: own_failure_def check_failures_def filter_empty_conv list_all_iff split: if_splits)
    ultimately show ?thesis using fail unfolding Let_def by blast
  next
    case False
    then obtain fl where fl: "fl \<in> set (check_failures r @ own_failure r)" by (meson last_in_set)
    then have "fl_stage fl = rs_stage r \<and> fl_group fl = rs_group r \<and> fl_status fl \<noteq> ''PASS''"
      by (auto simp: check_failures_def own_failure_def split: if_splits)
    moreover have "fl \<in> set (sn_failures s)" if "cell info ''status'' [] \<noteq> ''PRECHECK_FAILED''"
      using fl r that by (auto simp: rs(2) build_snapshot_def failures_of_def Let_def)
    moreover have "sn_failures s = preflight_failures (sn_preflight s)" if "cell info ''status'' [] = ''PRECHECK_FAILED''"
      using that by (simp add: rs(2) build_snapshot_def failures_of_def Let_def)
    ultimately show ?thesis using fail by blast
  qed
qed

text \<open>
  A deep check that ends with code 2 is a warning by its row; when its log shows no mark but PASS,
  the warning has no row among the failures.
\<close>

lemma warning_without_row:
  assumes "rs_status r = ''WARN''" "rs_reason r = ''CHECK_WARN''" "number_or (- 1) (rs_exit r) = 2" "nodes \<noteq> []"
    and "\<forall>(node, rc, lns)\<in>set nodes. list_all (\<lambda>c. ck_status c = ''PASS'') (deep_checks node rc lns)"
  shows "check_failures (check_deep nodes r) @ own_failure (check_deep nodes r) = []
    \<and> overall_status info stages gs [check_deep nodes r] [] \<noteq> ''PASS''"
proof -
  define checks where "checks = concat (map (\<lambda>(node, rc, lns). deep_checks node rc lns) nodes)"
  have pass: "\<forall>c\<in>set checks. ck_status c = ''PASS''" using assms(5) by (auto simp: checks_def list_all_iff)
  have "checks \<noteq> []" using assms(4) deep_checks_nonempty by (cases nodes) (auto simp: checks_def)
  then have "check_deep nodes r = r \<lparr>rs_checks := checks\<rparr>"
    unfolding check_deep_def Let_def checks_def [symmetric] using pass assms(1,3) by (auto simp: list_ex_iff)
  then show ?thesis
    using pass \<open>checks \<noteq> []\<close> assms(1,2) by (simp add: check_failures_def own_failure_def overall_pass filter_empty_conv)
qed

section \<open>A concrete run\<close>

definition sample_info :: row where
  "sample_info = [(''status'', ''RUNNING'')]"

definition sample_world :: "nat task_world" where
  "sample_world = file_world (\<lambda>_. 0) ''rccl'' (\<lambda>_. []) (\<lambda>_. []) (\<lambda>_. sample_files)"

lemma sample_plan_ok: "plan_ok [sample_stage] [sample_group]"
  by code_simp

lemma sample_cells: "cells_of [sample_stage] [sample_group] = [(sample_stage, sample_group)]"
  by (simp add: cells_of_def)

text \<open>A test that keeps its PASS gets the reason PASS.\<close>

lemma rccl_pass_reason:
  assumes "rccl plan execution lns r = Some r'" "rs_status r = ''PASS''" "rs_status r' = ''PASS''"
  shows "rs_reason r' = ''PASS''"
proof -
  define Q where "Q x \<longleftrightarrow> rs_status x \<noteq> ''PASS'' \<or> rs_reason x = ''PASS''" for x :: result
  have rules: "Q (fail_with code y)" "Q (y \<lparr>rs_reason := ''PASS''\<rparr>)" "Q x \<Longrightarrow> Q y \<Longrightarrow> Q (if c then x else y)"
    "Q x \<Longrightarrow> (\<And>z. Q (h z)) \<Longrightarrow> Q (case v of None \<Rightarrow> x | Some z \<Rightarrow> h z)" for code x y c v and h :: "real \<Rightarrow> result"
    by (auto simp: Q_def split: option.split)
  have "Q (rccl_verdict plan execution ev r)" for ev
    unfolding rccl_verdict_def Let_def prod.case if_P [OF assms(2)] by (intro rules)
  then show ?thesis using assms by (auto simp: Q_def rccl_def split: option.splits)
qed

lemma sample_report:
  "\<exists>s. fresh_snapshot sample_info [sample_stage] [sample_group] (\<lambda>_. []) sample_world True = Some s \<and> sn_status s = ''PASS''"
proof -
  obtain r0 where r0: "rccl sample_plan sample_execution sample_log sample_result = Some r0" "rs_status r0 = ''PASS''"
    using sample_rccl by blast
  have judge: "judge ''rccl'' (\<lambda>_. []) (\<lambda>_. []) sample_files sample_group (task_fact sample_files True) sample_result = Some r0"
    using r0 by (simp add: judge_def sample_lookup sample_result_fields)
  have confirmed: "rs_cleanup r0 = ''CONFIRMED''" using judge_cleanup [OF judge] sample_result_fields by simp
  then have parse: "parse ''rccl'' (\<lambda>_. []) (\<lambda>_. []) sample_files sample_stage sample_group True = Some r0"
    using judge sample_result_fields check_rows_unchanged [OF sample_rows_complete]
    by (simp add: parse_def Let_def sample_result_def [symmetric] terminal_states_def check_cleanup_def)
  then have "fresh_snapshot sample_info [sample_stage] [sample_group] (\<lambda>_. []) sample_world True =
      Some (build_snapshot sample_info [sample_stage] [sample_group] (\<lambda>_. []) [r0])"
    by (simp add: fresh_snapshot_results [OF sample_plan_ok] sample_cells sample_world_def file_world_def)
  moreover have "number [] = None"
    by (simp add: number_def py_float_of_def py_strip_def sign_split_def mantissa_def py_lower_def)
  then have "overall_status sample_info [sample_stage] [sample_group] [r0] [] = ''PASS''"
    using r0 confirmed rccl_pass_reason [OF r0(1) sample_result_fields(1) r0(2)]
    by (simp add: overall_pass sample_info_def cell_def)
  ultimately show ?thesis by (simp add: build_snapshot_def map_filter_simps preflight_of_def Let_def)
qed

theorem passing_report_shows_everything_witness:
  "evidence_shown ''rccl'' (\<lambda>_. []) (\<lambda>_. []) sample_files sample_group (task_fact sample_files True)
     (start_result sample_files sample_stage sample_group True)"
proof -
  obtain s where "fresh_snapshot sample_info [sample_stage] [sample_group] (\<lambda>_. []) sample_world True = Some s" "sn_status s = ''PASS''"
    using sample_report by blast
  then show ?thesis
    using passing_report_shows_everything [of sample_info "[sample_stage]" "[sample_group]" "\<lambda>_. []" "\<lambda>_. 0 :: nat" "''rccl''" "\<lambda>_. []" "\<lambda>_. []"
        "\<lambda>_. sample_files" True s sample_stage sample_group] by (simp add: sample_world_def Let_def)
qed

theorem watched_results_have_the_signature_witness:
  "\<exists>s rs. watch sample_info [sample_stage] [sample_group] (\<lambda>_. []) [(sample_world, True), (sample_world, True)] new_run ! 1 = Some s
     \<and> s = build_snapshot sample_info [sample_stage] [sample_group] (\<lambda>_. []) rs
     \<and> (\<exists>r. rs = [r] \<and> tw_parse sample_world sample_stage sample_group True = Some r)"
proof -
  let ?watch = "watch sample_info [sample_stage] [sample_group] (\<lambda>_. []) [(sample_world, True), (sample_world, True)] new_run"
  have c: "cache_ok (\<lambda>key sig final. tw_parse sample_world sample_stage sample_group final) new_run"
    by (rule cache_ok_new)
  have sig: "\<forall>slot\<in>set (cells_of [sample_stage] [sample_group]).
      signed_by (\<lambda>key sig final. tw_parse sample_world sample_stage sample_group final) sample_world slot"
    by (simp add: sample_cells signed_by_def)
  obtain s where s: "fresh_snapshot sample_info [sample_stage] [sample_group] (\<lambda>_. []) sample_world True = Some s"
    using sample_report by blast
  then obtain c1 where one: "take_snapshot sample_info [sample_stage] [sample_group] (\<lambda>_. []) sample_world True new_run = Some (s, c1)"
    by (auto simp: fresh_snapshot_def)
  then have "cache_ok (\<lambda>key sig final. tw_parse sample_world sample_stage sample_group final) c1"
    using snapshot_fresh [OF c sig] by blast
  then obtain c2 where "take_snapshot sample_info [sample_stage] [sample_group] (\<lambda>_. []) sample_world True c1 = Some (s, c2)"
    using snapshot_fresh [OF _ sig, of c1 sample_info "\<lambda>_. []" True] s by auto
  then have w: "?watch = [Some s, Some s]" using one by simp
  then show ?thesis using watched_results_have_the_signature [of 1 sample_info "[sample_stage]" "[sample_group]" "\<lambda>_. []"
      "[(sample_world, True), (sample_world, True)]"]
    by (auto simp: sample_cells list_all2_Cons1 le_Suc_eq)
qed

definition failing_files :: task_files where
  "failing_files = sample_files \<lparr>tf_task := [[(''status'', ''TIMEOUT''), (''exit_code'', ''124''), (''cleanup'', ''CONFIRMED''),
     (''reason_code'', ''TIMEOUT'')]]\<rparr>"

theorem no_failure_is_silent_witness:
  "case fresh_snapshot sample_info [sample_stage] [sample_group] (\<lambda>_. [])
      (file_world (\<lambda>_. 0::nat) ''rccl'' (\<lambda>_. []) (\<lambda>_. []) (\<lambda>_. failing_files)) True of
    None \<Rightarrow> False
  | Some s \<Rightarrow> sn_status s = ''FAIL'' \<and> (\<exists>fl\<in>set (sn_failures s). fl_stage fl = ''s1'' \<and> fl_group fl = ''group-01'' \<and> fl_status fl \<noteq> ''PASS'')"
proof -
  have "parse ''rccl'' (\<lambda>_. []) (\<lambda>_. []) failing_files sample_stage sample_group True =
      Some (start_result failing_files sample_stage sample_group True)"
    by (simp add: parse_def start_result_def failing_files_def sample_files_def task_fact_def task_rows_def first_row_def cell_def
        terminal_states_def Let_def)
  then have s: "fresh_snapshot sample_info [sample_stage] [sample_group] (\<lambda>_. [])
      (file_world (\<lambda>_. 0::nat) ''rccl'' (\<lambda>_. []) (\<lambda>_. []) (\<lambda>_. failing_files)) True =
      Some (build_snapshot sample_info [sample_stage] [sample_group] (\<lambda>_. []) [start_result failing_files sample_stage sample_group True])"
    by (simp add: fresh_snapshot_results [OF sample_plan_ok] sample_cells file_world_def)
  have facts: "task_fact failing_files True = [(''status'', ''TIMEOUT''), (''exit_code'', ''124''), (''cleanup'', ''CONFIRMED''),
     (''reason_code'', ''TIMEOUT'')]" by code_simp
  define r where "r = start_result failing_files sample_stage sample_group True"
  have r: "rs_status r = ''TIMEOUT''" "rs_stage r = ''s1''" "rs_group r = ''group-01''"
    by (simp_all add: r_def start_result_def facts cell_def sample_stage_def sample_group_def Let_def)
  have "r \<in> set (sn_results (build_snapshot sample_info [sample_stage] [sample_group] (\<lambda>_. []) [r]))"
    "cell sample_info ''status'' [] \<noteq> ''PRECHECK_FAILED''"
    by (simp_all add: build_snapshot_def Let_def sample_info_def cell_def)
  then show ?thesis
    using no_failure_is_silent [OF s, folded r_def, of r] unfolding s option.case r_def [symmetric]
    by (simp add: r facts cell_def Let_def)
qed

end
