(* ===== verification/EnvRerun.thy ===== *)
theory EnvRerun
  imports EnvSnapshot JsonTree "HOL-Library.Monad_Syntax" "HOL-Library.Multiset"
begin

text \<open>
  Running failed work again: the export of the failed and unfinished cells of a run
  (\<^verbatim>\<open>hcu_envcheck/reporting/export.py\<close>), the planned scale
  (\<^verbatim>\<open>scale.py\<close>), and the validation of an exported list before it becomes a new plan
  (\<^verbatim>\<open>cluster_run/rerun_plan.py\<close>).  Hash values are computed by a parameter; detail texts
  and evidence paths of the export are left out.
\<close>

section \<open>The planned scale\<close>

text \<open>\<^verbatim>\<open>positive(value, name)\<close>; None is ValueError.\<close>

definition positive :: "string \<Rightarrow> nat option" where
  "positive s = (if s \<noteq> [] \<and> list_all is_digit s \<and> 1 \<le> nat_of_digits s then Some (nat_of_digits s) else None)"

text \<open>
  The allocation files of a group: whether \<^verbatim>\<open>allocation_path\<close> accepts them, the lines of
  the host file when there is one, and the rows of the saved bandwidth plan.
\<close>

record allocation =
  al_valid :: bool
  al_lines :: "string list option"
  al_plans :: "row list"

record scale =
  sc_group_size :: nat
  sc_gpus :: nat
  sc_ranks :: nat
  sc_planned :: nat
  sc_workers :: "nat option"

definition is_group_name :: "string \<Rightarrow> bool" where
  "is_group_name s = (take 6 s = ''group-'' \<and> drop 6 s \<noteq> [] \<and> list_all is_digit (drop 6 s))"

text \<open>The cards of each node of an old bandwidth plan; None is ValueError.\<close>

fun slot_count :: "string list \<Rightarrow> nat option" where
  "slot_count [node, s] = (if is_prefix_of ''slots='' s then positive (drop 6 s) else None)"
| "slot_count _ = None"

definition legacy_count :: "nat \<Rightarrow> allocation \<Rightarrow> group_plan \<Rightarrow> nat option" where
  "legacy_count group_size al g =
     (if \<not> is_group_name (gp_name g) then None
      else if \<not> al_valid al \<or> al_lines al = None \<or> al_plans al = [] then None
      else
        (let rows = map py_words (filter (\<lambda>l. py_strip l \<noteq> [] \<and> take 1 (py_lstrip l) \<noteq> ''#'') (the (al_lines al))) in
         if map hd rows \<noteq> split_on CHR '','' (gp_nodes g) \<or> length rows \<noteq> group_size then None
         else do {
           counts \<leftarrow> those (map slot_count rows);
           if length (remdups counts) \<noteq> 1 then None
           else if list_ex (\<lambda>p. positive (cell p ''np'' []) \<noteq> Some (sum_list counts)) (al_plans al) then None
           else Some (hd counts)
         }))"

definition gpu_operation :: "string \<Rightarrow> bool" where
  "gpu_operation operation \<longleftrightarrow> operation = ''rccl'' \<or> operation = ''deepep''"

definition card_count :: "row \<Rightarrow> nat \<Rightarrow> (string \<Rightarrow> allocation) \<Rightarrow> group_plan list \<Rightarrow> nat option" where
  "card_count control group_size alloc gs =
     (let explicit = cell control ''gpus_per_node'' []; operation = cell control ''operation'' [] in
      if explicit \<noteq> [] then positive explicit
      else if operation = ''rccl'' then
        do {
          counts \<leftarrow> those (map (\<lambda>g. legacy_count group_size (alloc (gp_name g)) g) gs);
          if length (remdups counts) = 1 then Some (hd counts) else None
        }
      else None)"

definition resolve_scale :: "row \<Rightarrow> (string \<Rightarrow> allocation) \<Rightarrow> group_plan list \<Rightarrow> scale option" where
  "resolve_scale control alloc gs =
     (let operation = cell control ''operation'' [] in
      do {
        group_size \<leftarrow> positive (cell control ''group_size'' ''None'');
        if gpu_operation operation \<and> list_ex (\<lambda>g. \<not> al_valid (alloc (gp_name g))) gs then None
        else do {
          n \<leftarrow> card_count control group_size alloc gs;
          Some \<lparr>sc_group_size = group_size, sc_gpus = n,
            sc_ranks = (if 1 < group_size then (if operation = ''rccl'' then group_size * n else group_size) else 0),
            sc_planned = group_size * n, sc_workers = (if operation = ''deepep'' then Some n else None)\<rparr>
        }
      })"

definition scale_fields :: "scale \<Rightarrow> (string \<times> nat) list" where
  "scale_fields s =
     [(''group_size'', sc_group_size s), (''gpus_per_node'', sc_gpus s), (''mpi_ranks_per_group'', sc_ranks s),
      (''planned_gpus_per_group'', sc_planned s)]
     @ (case sc_workers s of None \<Rightarrow> [] | Some n \<Rightarrow> [(''planned_deepep_gpu_workers_per_node'', n)])"

section \<open>The export\<close>

definition fingerprint_exclude :: "string list" where
  "fingerprint_exclude = [''started_epoch'', ''status'', ''current_stage'', ''entry_run_dir'', ''public_run_dir'', ''report_host'']"

text \<open>The text whose hash is the fingerprint of a plan's configuration.\<close>

definition fingerprint_text :: "row \<Rightarrow> string" where
  "fingerprint_text control =
     concat (map (\<lambda>k. k @ ''='' @ cell control k [] @ [CHR 0x0A])
       (sorted_set (filter (\<lambda>k. k \<notin> set fingerprint_exclude) (map fst control))))"

record deployment =
  dp_version :: int
  dp_stamp :: string

definition failed_statuses :: "string list" where "failed_statuses = [''FAIL'', ''TIMEOUT'']"

definition unfinished_statuses :: "string list" where
  "unfinished_statuses = [''PENDING'', ''RUNNING'', ''INCOMPLETE'', ''BLOCKED'', ''CANCELLED'']"

definition group_order :: "group_plan list \<Rightarrow> string \<Rightarrow> nat" where
  "group_order gs name = (case filter (\<lambda>(i, g). gp_name g = name) (zip [1..<Suc (length gs)] gs) of
     [] \<Rightarrow> 0 | x # xs \<Rightarrow> fst (List.last (x # xs)))"

definition group_members :: "group_plan list \<Rightarrow> string \<Rightarrow> string list" where
  "group_members gs name = (case filter (\<lambda>g. gp_name g = name) gs of
     [] \<Rightarrow> [] | g # rest \<Rightarrow> planned_nodes (List.last (g # rest)))"

definition stage_entry :: "group_plan list \<Rightarrow> result \<Rightarrow> fields" where
  "stage_entry gs r =
     [(''kind'', JvText ''stage''), (''stage_id'', JvText (rs_stage r)), (''group'', JvText (rs_group r)),
      (''group_order'', JvNum (int (group_order gs (rs_group r)))),
      (''members'', JvList (map JvText (group_members gs (rs_group r)))), (''item'', JvText (rs_item r)),
      (''iteration'', JvText (rs_iter r)), (''mode'', JvText (rs_item r)), (''status'', JvText (rs_status r)),
      (''reason_code'', JvText (rs_reason r)), (''cleanup'', JvText (rs_cleanup r)), (''exit_code'', JvText (rs_exit r))]"

definition preflight_entry :: "group_plan list \<Rightarrow> preflight \<Rightarrow> fields" where
  "preflight_entry gs p =
     [(''kind'', JvText ''preflight''), (''stage_id'', JvText ''preflight''), (''group'', JvText (pf_group p)),
      (''group_order'', JvNum (int (group_order gs (pf_group p)))),
      (''members'', JvList (map JvText (group_members gs (pf_group p)))), (''iteration'', JvText []),
      (''mode'', JvText ''preflight''), (''status'', JvText (pf_status p)), (''reason_code'', JvText (pf_reason p)),
      (''cleanup'', JvText (pf_cleanup p))]"

definition failed_entries :: "group_plan list \<Rightarrow> run_report \<Rightarrow> fields list" where
  "failed_entries gs s =
     map (stage_entry gs) (filter (\<lambda>r. rs_status r \<in> set failed_statuses) (sn_results s))
     @ map (preflight_entry gs) (filter (\<lambda>p. pf_status p = ''FAIL'') (sn_preflight s))"

definition unfinished_entries :: "group_plan list \<Rightarrow> run_report \<Rightarrow> fields list" where
  "unfinished_entries gs s =
     map (stage_entry gs) (filter (\<lambda>r. rs_status r \<in> set unfinished_statuses) (sn_results s))"

definition unconfirmed_entries :: "group_plan list \<Rightarrow> run_report \<Rightarrow> fields list" where
  "unconfirmed_entries gs s =
     map (stage_entry gs) (filter (\<lambda>r. rs_cleanup r \<noteq> ''CONFIRMED'') (sn_results s))
     @ map (preflight_entry gs) (filter (\<lambda>p. pf_cleanup p \<noteq> ''CONFIRMED'') (sn_preflight s))"

definition non_participating :: "row \<Rightarrow> jval" where
  "non_participating info =
     (let nodes = filter (\<lambda>n. n \<noteq> []) (split_on CHR '','' (cell info ''unparticipated_nodes'' [])) in
      if nodes \<noteq> [] \<or> cell info ''source_node_count'' [] \<noteq> []
      then JvObj [(''nodes'', JvList (map JvText nodes)), (''reason'', JvText (cell info ''unparticipated_reason'' []))]
      else JvNull)"

text \<open>The scale of the envelope; None is an exception.\<close>

definition export_scale :: "row \<Rightarrow> (string \<Rightarrow> allocation) \<Rightarrow> group_plan list \<Rightarrow> fields option" where
  "export_scale control alloc gs =
     (let old = map (\<lambda>k. (k, JvText (cell control k []))) [''node_count'', ''participating_node_count'', ''group_count'', ''group_size''] in
      if gpu_operation (cell control ''operation'' []) \<and> cell control ''gpus_per_node'' [] \<noteq> []
      then map_option (\<lambda>s. fold (\<lambda>(k, n). dict_update k (JvNum (int n))) (scale_fields s) old
          @ [(''semantics'', JvText ''group-nodes-gpus-v1'')]) (resolve_scale control alloc gs)
      else Some (old @ [(''slots'', JvText (cell control ''slots'' []))]))"

definition export_envelope :: "(string \<Rightarrow> string) \<Rightarrow> deployment \<Rightarrow> string \<Rightarrow> row \<Rightarrow> (string \<Rightarrow> allocation) \<Rightarrow> group_plan list \<Rightarrow> fields option" where
  "export_envelope digest dep source control alloc gs =
     map_option (\<lambda>scale.
       [(''schema_version'', JvNum (if gpu_operation (cell control ''operation'' []) \<and> cell control ''gpus_per_node'' [] \<noteq> [] then 2 else 1)),
        (''source_run'', JvText source), (''operation'', JvText (cell control ''operation'' [])), (''scale'', JvObj scale),
        (''config_fingerprint'', JvText (digest (fingerprint_text control))),
        (''deployment'', JvObj [(''protocol_version'', JvNum (dp_version dep)), (''reporting_md5'', JvText (dp_stamp dep))]),
        (''non_participating_context'', non_participating control)])
       (export_scale control alloc gs)"

definition export_file :: "fields \<Rightarrow> fields list \<Rightarrow> jval" where
  "export_file envelope entries =
     JvObj (envelope @ [(''entry_count'', JvNum (int (length entries))), (''entries'', JvList (map JvObj entries))])"

text \<open>
  The host file of the failed groups: the first line of every wanted node in the host files of the
  groups, the bare name for GPU operations; None is the ValueError of \<^verbatim>\<open>allocation_path\<close>.
\<close>

definition entry_members :: "fields \<Rightarrow> string list" where
  "entry_members e = (case get_field e ''members'' (JvList []) of JvList vs \<Rightarrow> map py_str vs | _ \<Rightarrow> [])"

definition keep_line :: "string \<Rightarrow> string set \<Rightarrow> string \<Rightarrow> string list \<times> string list \<Rightarrow> string list \<times> string list" where
  "keep_line operation wanted line s =
     (let node = (case py_words line of [] \<Rightarrow> [] | w # _ \<Rightarrow> w) in
      if node \<noteq> [] \<and> node \<in> wanted \<and> node \<notin> set (fst s)
      then (node # fst s, snd s @ [if gpu_operation operation then node else line])
      else s)"

definition failed_hostfile :: "string \<Rightarrow> (string \<Rightarrow> allocation) \<Rightarrow> group_plan list \<Rightarrow> fields list \<Rightarrow> string list option" where
  "failed_hostfile operation alloc gs failed =
     (if list_ex (\<lambda>g. \<not> al_valid (alloc (gp_name g))) gs then None
      else Some (snd (fold (keep_line operation (set (concat (map entry_members failed))))
        (concat (map (\<lambda>g. case al_lines (alloc (gp_name g)) of None \<Rightarrow> [] | Some ls \<Rightarrow> ls) gs)) ([], []))))"

section \<open>The validation of a list\<close>

text \<open>
  The outcome: a rejection with its exit code, or the lines for the controller.  Values of types
  that no export has (a group that is no text, say) are outside the model: None.
\<close>

datatype rerun = Rejected nat | Accepted "string list list"

record rerun_group =
  rg_order :: int
  rg_members :: "string list"

type_synonym stage_key = "string \<times> string \<times> string"

record rerun_state =
  rr_groups :: "(string \<times> rerun_group) list"
  rr_stages :: "stage_key list"
  rr_cells :: "(stage_key \<times> string) list"
  rr_identity :: "(string \<times> string \<times> string) list"
  rr_stage_cells :: "(string \<times> string) list"
  rr_single :: "(string \<times> string) list"
  rr_unconfirmed :: nat

definition no_entries :: rerun_state where
  "no_entries = \<lparr>rr_groups = [], rr_stages = [], rr_cells = [], rr_identity = [], rr_stage_cells = [], rr_single = [], rr_unconfirmed = 0\<rparr>"

definition text_of_jval :: "jval \<Rightarrow> string option" where
  "text_of_jval v = (case v of JvText s \<Rightarrow> Some s | JvNull \<Rightarrow> Some [] | _ \<Rightarrow> None)"

definition int_of_jval :: "jval \<Rightarrow> int option" where
  "int_of_jval v = (case v of JvNum n \<Rightarrow> Some n | _ \<Rightarrow> None)"

definition is_member_name :: "string \<Rightarrow> bool" where
  "is_member_name s =
     (case s of [] \<Rightarrow> False
      | c # cs \<Rightarrow> is_word_char c \<and> c \<noteq> CHR ''_'' \<and> list_all (\<lambda>d. is_word_char d \<or> d = CHR ''.'' \<or> d = CHR ''-'') cs)"

definition bad_gpu_group :: "string \<Rightarrow> string \<Rightarrow> string list \<Rightarrow> bool" where
  "bad_gpu_group operation name members \<longleftrightarrow>
     gpu_operation operation \<and> (\<not> is_group_name name \<or> \<not> distinct members \<or> \<not> list_all is_member_name members)"

text \<open>One entry: None is outside the model, \<open>Inl\<close> a rejection.\<close>

definition add_stage :: "string \<Rightarrow> string \<Rightarrow> fields \<Rightarrow> rerun_state \<Rightarrow> nat + rerun_state" where
  "add_stage operation name e s =
     (let sid = py_str (get_field e ''stage_id'' JvNull); item = py_str (get_field e ''item'' JvNull);
          iter = py_str (get_field e ''iteration'' (JvText [])); key = (sid, item, iter) in
      if map_of (rr_identity s) sid \<notin> {None, Some (item, iter)} then Inl 9
      else if (sid, name) \<in> set (rr_stage_cells s) then Inl 9
      else if operation \<in> {''deepep'', ''byte-flux''} \<and> (name, item) \<in> set (rr_single s) then Inl 11
      else Inr (s \<lparr>rr_identity := dict_update sid (item, iter) (rr_identity s),
                 rr_stage_cells := (sid, name) # rr_stage_cells s,
                 rr_single := (if operation \<in> {''deepep'', ''byte-flux''} then (name, item) # rr_single s else rr_single s),
                 rr_stages := (if key \<in> set (rr_stages s) then rr_stages s else rr_stages s @ [key]),
                 rr_cells := (key, name) # rr_cells s\<rparr>))"

definition add_entry :: "string \<Rightarrow> jval \<Rightarrow> rerun_state \<Rightarrow> (nat + rerun_state) option" where
  "add_entry operation entry s =
     (case entry of
        JvObj e \<Rightarrow>
          do {
            name \<leftarrow> text_of_jval (get_field e ''group'' JvNull);
            (case get_field e ''members'' (JvList []) of
               JvList vs \<Rightarrow>
                 do {
                   texts \<leftarrow> those (map text_of_jval vs);
                   order \<leftarrow> int_of_jval (get_field e ''group_order'' (JvNum 0));
                   let members = filter (\<lambda>m. m \<noteq> []) texts in
                   if name = [] \<or> members = [] then Some (Inl 9)
                   else if bad_gpu_group operation name members then Some (Inl 9)
                   else if (case map_of (rr_groups s) name of None \<Rightarrow> False | Some g \<Rightarrow> rg_members g \<noteq> members) then Some (Inl 9)
                   else
                     (let s1 = s \<lparr>rr_groups := (if map_of (rr_groups s) name = None
                                   then rr_groups s @ [(name, \<lparr>rg_order = order, rg_members = members\<rparr>)] else rr_groups s),
                                 rr_unconfirmed := (if get_field e ''cleanup'' JvNull \<noteq> JvText ''CONFIRMED''
                                   then Suc (rr_unconfirmed s) else rr_unconfirmed s)\<rparr> in
                      Some (if get_field e ''kind'' JvNull = JvText ''stage'' then add_stage operation name e s1 else Inr s1))
                 }
             | _ \<Rightarrow> Some (Inl 9))
          }
      | _ \<Rightarrow> Some (Inl 2))"

fun add_entries :: "string \<Rightarrow> jval list \<Rightarrow> rerun_state \<Rightarrow> (nat + rerun_state) option" where
  "add_entries operation [] s = Some (Inr s)"
| "add_entries operation (e # es) s =
     (case add_entry operation e s of
        None \<Rightarrow> None
      | Some (Inl code) \<Rightarrow> Some (Inl code)
      | Some (Inr s1) \<Rightarrow> add_entries operation es s1)"

definition ordered_groups :: "rerun_state \<Rightarrow> (string \<times> rerun_group) list" where
  "ordered_groups s = sort_key (\<lambda>(name, g). (rg_order g, name)) (rr_groups s)"

text \<open>What is known of the source run.\<close>

record source_run =
  sr_control :: row
  sr_alloc :: "string \<Rightarrow> allocation"

definition read_dict :: "fields \<Rightarrow> string \<Rightarrow> fields option" where
  "read_dict d key = (let v = get_field d key JvNull in if py_true v then as_fields v else Some [])"

definition scale_drift :: "string \<Rightarrow> row \<Rightarrow> fields \<Rightarrow> bool" where
  "scale_drift operation control scale =
     list_ex (\<lambda>key. cell control key [] \<noteq> py_str (get_field scale key (JvText [])))
       (if cell control ''gpus_per_node'' [] \<noteq> [] \<and> gpu_operation operation then [''group_size'', ''gpus_per_node'']
        else [''group_size'', ''slots''])"

definition gpu_scale_ok :: "source_run \<Rightarrow> fields \<Rightarrow> (string \<times> rerun_group) list \<Rightarrow> bool" where
  "gpu_scale_ok src scale ordered =
     (case resolve_scale (sr_control src) (sr_alloc src)
        (map (\<lambda>(name, g). \<lparr>gp_name = name, gp_nodes = join_with '','' (rg_members g)\<rparr>) ordered) of
        None \<Rightarrow> False
      | Some n \<Rightarrow> list_all (\<lambda>(name, g). length (rg_members g) = sc_group_size n) ordered
          \<and> (cell (sr_control src) ''gpus_per_node'' [] \<noteq> [] \<longrightarrow>
             list_all (\<lambda>(key, v). py_str (get_field scale key (JvText [])) = show_nat v) (scale_fields n)))"

definition grid_complete :: "rerun_state \<Rightarrow> bool" where
  "grid_complete s = list_all (\<lambda>key. list_all (\<lambda>name. (key, name) \<in> set (rr_cells s)) (map fst (rr_groups s))) (rr_stages s)"

definition output_lines :: "string \<Rightarrow> source_run \<Rightarrow> string \<Rightarrow> string \<Rightarrow> string \<Rightarrow> (string \<times> string) list \<Rightarrow> rerun_state
    \<Rightarrow> string list \<Rightarrow> string \<Rightarrow> string list list" where
  "output_lines operation src source fp stamp scale_env s ctx_nodes reason =
     (let control = sr_control src in
      map (\<lambda>k. [''ENV'', k, cell control k []]) [''scenario'', ''operation'']
      @ map (\<lambda>(k, v). [''ENV'', k, v]) scale_env
      @ [[''ENV'', ''source_run'', source], [''ENV'', ''fingerprint'', fp], [''ENV'', ''deployment_md5'', stamp],
         [''ENV'', ''source_status'', cell control ''status'' []]]
      @ map (\<lambda>(name, g). [''GROUP'', name, show_int (rg_order g), join_with '','' (rg_members g)]) (ordered_groups s)
      @ map (\<lambda>(sid, item, iter). [''STAGE'', sid, item, iter]) (rr_stages s)
      @ [[''CTX'', join_with '','' ctx_nodes, reason], [''UNCONFIRMED'', show_nat (rr_unconfirmed s)]])"

text \<open>The scale lines of the output: the resolved ones of a GPU operation, otherwise the recorded ones.\<close>

definition scale_env :: "string \<Rightarrow> source_run \<Rightarrow> rerun_state \<Rightarrow> (string \<times> string) list" where
  "scale_env operation src s =
     (case (if gpu_operation operation
            then resolve_scale (sr_control src) (sr_alloc src)
              (map (\<lambda>(name, g). \<lparr>gp_name = name, gp_nodes = join_with '','' (rg_members g)\<rparr>) (ordered_groups s))
            else None) of
        Some n \<Rightarrow> [(''group_size'', show_nat (sc_group_size n)), (''gpus_per_node'', show_nat (sc_gpus n))]
      | None \<Rightarrow> map (\<lambda>k. (k, cell (sr_control src) k [])) [''group_size'', ''slots''])"

definition validate_entries :: "string \<Rightarrow> source_run \<Rightarrow> string \<Rightarrow> string \<Rightarrow> fields \<Rightarrow> fields \<Rightarrow> jval list \<Rightarrow> rerun option" where
  "validate_entries operation src source stamp data scale entries =
     (case add_entries operation entries no_entries of
        None \<Rightarrow> None
      | Some (Inl code) \<Rightarrow> Some (Rejected code)
      | Some (Inr s) \<Rightarrow>
          if gpu_operation operation \<and> \<not> gpu_scale_ok src scale (ordered_groups s) then Some (Rejected 8)
          else if \<not> grid_complete s then Some (Rejected 10)
          else do {
            context \<leftarrow> read_dict data ''non_participating_context'';
            nodes \<leftarrow> (case get_field context ''nodes'' (JvList []) of JvList vs \<Rightarrow> those (map text_of_jval vs) | _ \<Rightarrow> None);
            let ctx_nodes = filter (\<lambda>n. n \<noteq> []) nodes in
            if list_ex (\<lambda>n. list_ex (\<lambda>(name, g). n \<in> set (rg_members g)) (rr_groups s)) ctx_nodes then Some (Rejected 9)
            else Some (Accepted (output_lines operation src source (py_str (get_field data ''config_fingerprint'' (JvText []))) stamp
                   (scale_env operation src s) s ctx_nodes (py_str (get_field context ''reason'' (JvText [])))))
          })"

definition rerun_plan :: "(string \<Rightarrow> string) \<Rightarrow> deployment \<Rightarrow> (string \<Rightarrow> source_run) \<Rightarrow> jval option \<Rightarrow> string \<Rightarrow> rerun option" where
  "rerun_plan digest dep runs file operation =
     (case file of
        Some (JvObj data) \<Rightarrow>
          (if (case get_field data ''schema_version'' JvNull of JvList l \<Rightarrow> True | JvObj d \<Rightarrow> True | _ \<Rightarrow> False) then None
           else if get_field data ''schema_version'' JvNull \<notin> {JvNum 1, JvNum 2, JvBool True} then Some (Rejected 2)
           else if get_field data ''operation'' JvNull \<noteq> JvText operation then Some (Rejected 3)
           else
             (let listed = get_field data ''entries'' JvNull in
              case (if py_true listed then (case listed of JvList l \<Rightarrow> Some l | _ \<Rightarrow> None) else Some []) of
                None \<Rightarrow> Some (Rejected 2)
              | Some entries \<Rightarrow>
                  (if entries = [] then Some (Rejected 7)
                   else
                     (let named = get_field data ''source_run'' JvNull; source = (if py_true named then py_str named else []);
                          src = runs source; control = sr_control src in
                      if control = [] then Some (Rejected 4)
                      else if get_field data ''config_fingerprint'' JvNull \<noteq> JvText (digest (fingerprint_text control)) then Some (Rejected 5)
                      else case read_dict data ''deployment'' of
                        None \<Rightarrow> Some (Rejected 2)
                      | Some deployment \<Rightarrow>
                          (if get_field deployment ''reporting_md5'' JvNull \<noteq> JvText (dp_stamp dep) then Some (Rejected 6)
                           else case read_dict data ''scale'' of
                             None \<Rightarrow> Some (Rejected 2)
                           | Some scale \<Rightarrow>
                               (if scale_drift operation control scale then Some (Rejected 8)
                                else validate_entries operation src source (dp_stamp dep) data scale entries))))))
      | _ \<Rightarrow> Some (Rejected 2))"

section \<open>What an accepted list becomes\<close>

text \<open>The content of a well-typed entry: its group, members, order, cleanup and the stage it lists.\<close>

record entry_view =
  en_group :: string
  en_members :: "string list"
  en_order :: int
  en_confirmed :: bool
  en_stage :: "stage_key option"

definition view_entry :: "jval \<Rightarrow> entry_view option" where
  "view_entry entry =
     (case entry of
        JvObj e \<Rightarrow>
          (case get_field e ''members'' (JvList []) of
             JvList vs \<Rightarrow>
               do {
                 name \<leftarrow> text_of_jval (get_field e ''group'' JvNull);
                 texts \<leftarrow> those (map text_of_jval vs);
                 order \<leftarrow> int_of_jval (get_field e ''group_order'' (JvNum 0));
                 Some \<lparr>en_group = name, en_members = filter (\<lambda>m. m \<noteq> []) texts, en_order = order,
                   en_confirmed = (get_field e ''cleanup'' JvNull = JvText ''CONFIRMED''),
                   en_stage = (if get_field e ''kind'' JvNull = JvText ''stage''
                     then Some (py_str (get_field e ''stage_id'' JvNull), py_str (get_field e ''item'' JvNull),
                            py_str (get_field e ''iteration'' (JvText [])))
                     else None)\<rparr>
               }
           | _ \<Rightarrow> None)
      | _ \<Rightarrow> None)"

definition take_view :: "string \<Rightarrow> entry_view \<Rightarrow> rerun_state \<Rightarrow> rerun_state" where
  "take_view operation v s =
     (let s1 = s \<lparr>rr_groups := (if map_of (rr_groups s) (en_group v) = None
                    then rr_groups s @ [(en_group v, \<lparr>rg_order = en_order v, rg_members = en_members v\<rparr>)] else rr_groups s),
                  rr_unconfirmed := (if en_confirmed v then rr_unconfirmed s else Suc (rr_unconfirmed s))\<rparr> in
      case en_stage v of
        None \<Rightarrow> s1
      | Some (sid, item, iter) \<Rightarrow>
          s1 \<lparr>rr_identity := dict_update sid (item, iter) (rr_identity s),
              rr_stage_cells := (sid, en_group v) # rr_stage_cells s,
              rr_single := (if operation \<in> {''deepep'', ''byte-flux''} then (en_group v, item) # rr_single s else rr_single s),
              rr_stages := (if (sid, item, iter) \<in> set (rr_stages s) then rr_stages s else rr_stages s @ [(sid, item, iter)]),
              rr_cells := ((sid, item, iter), en_group v) # rr_cells s\<rparr>)"

definition view_ok :: "string \<Rightarrow> entry_view \<Rightarrow> rerun_state \<Rightarrow> bool" where
  "view_ok operation v s \<longleftrightarrow>
     en_group v \<noteq> [] \<and> en_members v \<noteq> [] \<and> \<not> bad_gpu_group operation (en_group v) (en_members v)
     \<and> (\<forall>g. map_of (rr_groups s) (en_group v) = Some g \<longrightarrow> rg_members g = en_members v)
     \<and> (\<forall>sid item iter. en_stage v = Some (sid, item, iter) \<longrightarrow>
          map_of (rr_identity s) sid \<in> {None, Some (item, iter)} \<and> (sid, en_group v) \<notin> set (rr_stage_cells s)
          \<and> \<not> (operation \<in> {''deepep'', ''byte-flux''} \<and> (en_group v, item) \<in> set (rr_single s)))"

lemma reject_if: "(if c then Some (Inl n) else x) = Some (Inr y) \<longleftrightarrow> \<not> c \<and> x = Some (Inr y)"
  by simp

lemma no_conflict:
  "\<not> (case m of None \<Rightarrow> False | Some g \<Rightarrow> rg_members g \<noteq> members) \<longleftrightarrow> (\<forall>g. m = Some g \<longrightarrow> rg_members g = members)"
  by (cases m) simp_all

lemma add_stage_exact:
  "add_stage operation name e s = Inr s' \<longleftrightarrow>
     (let sid = py_str (get_field e ''stage_id'' JvNull); item = py_str (get_field e ''item'' JvNull);
          iter = py_str (get_field e ''iteration'' (JvText [])) in
      map_of (rr_identity s) sid \<in> {None, Some (item, iter)} \<and> (sid, name) \<notin> set (rr_stage_cells s)
      \<and> \<not> (operation \<in> {''deepep'', ''byte-flux''} \<and> (name, item) \<in> set (rr_single s))
      \<and> s \<lparr>rr_identity := dict_update sid (item, iter) (rr_identity s),
                 rr_stage_cells := (sid, name) # rr_stage_cells s,
                 rr_single := (if operation \<in> {''deepep'', ''byte-flux''} then (name, item) # rr_single s else rr_single s),
                 rr_stages := (if (sid, item, iter) \<in> set (rr_stages s) then rr_stages s else rr_stages s @ [(sid, item, iter)]),
                 rr_cells := ((sid, item, iter), name) # rr_cells s\<rparr> = s')"
proof -
  have r: "((if c then Inl n else x) = Inr y) = (\<not> c \<and> x = Inr y)" for c n and x :: "nat + rerun_state" and y by simp
  show ?thesis unfolding add_stage_def Let_def r not_not sum.inject(2) by (rule refl)
qed

lemma add_entry_exact:
  "add_entry operation entry s = Some (Inr s') \<longleftrightarrow>
     (\<exists>v. view_entry entry = Some v \<and> view_ok operation v s \<and> s' = take_view operation v s)"
proof (cases entry)
  case (JvObj e)
  show ?thesis
  proof (cases "get_field e ''members'' (JvList [])")
    case (JvList vs)
    show ?thesis
    proof (cases "text_of_jval (get_field e ''group'' JvNull)"; cases "those (map text_of_jval vs)";
        cases "int_of_jval (get_field e ''group_order'' (JvNum 0))")
      fix name texts order
      assume a: "text_of_jval (get_field e ''group'' JvNull) = Some name" "those (map text_of_jval vs) = Some texts"
        "int_of_jval (get_field e ''group_order'' (JvNum 0)) = Some order"
      define stg where "stg = (if get_field e ''kind'' JvNull = JvText ''stage''
        then Some (py_str (get_field e ''stage_id'' JvNull), py_str (get_field e ''item'' JvNull), py_str (get_field e ''iteration'' (JvText [])))
        else None)"
      define v where "v = \<lparr>en_group = name, en_members = filter (\<lambda>m. m \<noteq> []) texts, en_order = order,
                   en_confirmed = (get_field e ''cleanup'' JvNull = JvText ''CONFIRMED''), en_stage = stg\<rparr>"
      have v: "view_entry entry = Some v"
        by (simp add: view_entry_def JvObj JvList a v_def stg_def)
      define s1 where "s1 = s \<lparr>rr_groups := (if map_of (rr_groups s) name = None
          then rr_groups s @ [(name, \<lparr>rg_order = order, rg_members = en_members v\<rparr>)] else rr_groups s),
        rr_unconfirmed := (if get_field e ''cleanup'' JvNull \<noteq> JvText ''CONFIRMED''
          then Suc (rr_unconfirmed s) else rr_unconfirmed s)\<rparr>"
      have entry: "add_entry operation entry s = Some (Inr s') \<longleftrightarrow> name \<noteq> [] \<and> en_members v \<noteq> []
          \<and> \<not> bad_gpu_group operation name (en_members v)
          \<and> (\<forall>g. map_of (rr_groups s) name = Some g \<longrightarrow> rg_members g = en_members v)
          \<and> (if get_field e ''kind'' JvNull = JvText ''stage'' then add_stage operation name e s1 else Inr s1) = Inr s'"
        by (simp add: add_entry_def JvObj JvList a Let_def reject_if s1_def v_def no_conflict del: not_None_eq if_split)
      show ?thesis
      proof (cases "get_field e ''kind'' JvNull = JvText ''stage''")
        case True
        then show ?thesis
          unfolding entry by (simp add: v add_stage_exact view_ok_def take_view_def stg_def v_def s1_def Let_def) blast
      next
        case False
        then show ?thesis
          unfolding entry by (simp add: v view_ok_def take_view_def stg_def v_def s1_def Let_def eq_commute [of s'])
      qed
    qed (simp_all add: add_entry_def view_entry_def JvObj JvList)
  qed (simp_all add: add_entry_def view_entry_def JvObj Option.bind_eq_Some_conv split: option.split)
qed (simp_all add: add_entry_def view_entry_def)

definition stage_cells :: "entry_view list \<Rightarrow> (stage_key \<times> string) list" where
  "stage_cells vs = concat (map (\<lambda>v. case en_stage v of None \<Rightarrow> [] | Some k \<Rightarrow> [(k, en_group v)]) vs)"

text \<open>What the validation has established after the entries \<open>vs\<close>: the groups, and the cells.\<close>

definition groups_inv :: "string \<Rightarrow> entry_view list \<Rightarrow> (string \<times> rerun_group) list \<Rightarrow> bool" where
  "groups_inv operation vs gs \<longleftrightarrow>
     distinct (map fst gs) \<and> fst ` set gs = en_group ` set vs
     \<and> (\<forall>v\<in>set vs. map_option rg_members (map_of gs (en_group v)) = Some (en_members v))
     \<and> (\<forall>v\<in>set vs. en_members v \<noteq> [] \<and> \<not> bad_gpu_group operation (en_group v) (en_members v))"

definition once_per_item :: "string \<Rightarrow> bool" where
  "once_per_item operation \<longleftrightarrow> operation \<in> {''deepep'', ''byte-flux''}"

definition cells_inv :: "string \<Rightarrow> (stage_key \<times> string) list \<Rightarrow> rerun_state \<Rightarrow> bool" where
  "cells_inv operation cs s \<longleftrightarrow>
     rr_cells s = rev cs \<and> rr_stage_cells s = map (\<lambda>c. (fst (fst c), snd c)) (rev cs) \<and> distinct (rr_stage_cells s)
     \<and> distinct (rr_stages s) \<and> set (rr_stages s) = fst ` set cs
     \<and> (\<forall>sid x. map_of (rr_identity s) sid = Some x \<longleftrightarrow> (sid, x) \<in> set (rr_stages s))
     \<and> (once_per_item operation \<longrightarrow>
          rr_single s = map (\<lambda>c. (snd c, fst (snd (fst c)))) (rev cs) \<and> distinct (rr_single s))"

lemma stage_cells_snoc:
  "stage_cells (vs @ [v]) = stage_cells vs @ (case en_stage v of None \<Rightarrow> [] | Some k \<Rightarrow> [(k, en_group v)])"
  by (simp add: stage_cells_def)

lemma groups_inv_members:
  "groups_inv operation vs gs \<Longrightarrow> v \<in> set vs \<Longrightarrow> map_option rg_members (map_of gs (en_group v)) = Some (en_members v)"
  unfolding groups_inv_def by blast

lemma groups_inv_step:
  assumes "groups_inv operation vs (rr_groups s)" and "view_ok operation v s"
  shows "groups_inv operation (vs @ [v]) (rr_groups (take_view operation v s))"
proof (cases "map_of (rr_groups s) (en_group v)")
  case None
  have gs: "rr_groups (take_view operation v s) = rr_groups s @ [(en_group v, \<lparr>rg_order = en_order v, rg_members = en_members v\<rparr>)]"
    using None by (simp add: take_view_def Let_def split: option.split)
  have new: "en_group v \<notin> fst ` set (rr_groups s)" using None by (simp add: map_of_eq_None_iff)
  have keep: "map_of (rr_groups s @ [(en_group v, g)]) (en_group w) = map_of (rr_groups s) (en_group w)" if "w \<in> set vs" for w g
  proof -
    have "en_group w \<in> fst ` set (rr_groups s)" using assms(1) that by (auto simp: groups_inv_def)
    then have "en_group w \<noteq> en_group v" using new by metis
    then show ?thesis by (simp add: map_add_def split: option.split)
  qed
  have at_v: "map_of (rr_groups s @ [(en_group v, g)]) (en_group v) = Some g" for g
    using None by (simp add: map_add_def)
  show ?thesis
    unfolding groups_inv_def gs
  proof (intro conjI ballI)
    fix w assume "w \<in> set (vs @ [v])"
    then consider "w \<in> set vs" | "w = v" by auto
    then show "map_option rg_members (map_of (rr_groups s @ [(en_group v, \<lparr>rg_order = en_order v, rg_members = en_members v\<rparr>)]) (en_group w))
        = Some (en_members w)"
      using assms(1) by cases (simp_all add: groups_inv_def keep at_v del: map_of_append map_option_eq_Some)
  qed (use assms new in \<open>auto simp: groups_inv_def view_ok_def\<close>)
next
  case (Some g)
  have gs: "rr_groups (take_view operation v s) = rr_groups s"
    using Some by (simp add: take_view_def Let_def split: option.split)
  have "en_group v \<in> en_group ` set vs"
    using Some assms(1) unfolding groups_inv_def by (metis map_of_SomeD fst_conv image_eqI)
  then show ?thesis using assms Some unfolding groups_inv_def gs view_ok_def
    by (simp add: insert_absorb del: map_of_eq_Some_iff)
qed

lemma cells_inv_distinct:
  assumes "cells_inv operation cs s"
  shows "distinct (map (\<lambda>c. (fst (fst c), snd c)) cs)"
    and "once_per_item operation \<Longrightarrow> distinct (map (\<lambda>c. (snd c, fst (snd (fst c)))) cs)"
proof -
  have "distinct (map (\<lambda>c. (fst (fst c), snd c)) (rev cs))"
    using assms unfolding cells_inv_def by (elim conjE) (simp only:)
  then show "distinct (map (\<lambda>c. (fst (fst c), snd c)) cs)" by (simp only: rev_map [symmetric] distinct_rev)
  have "distinct (map (\<lambda>c. (snd c, fst (snd (fst c)))) (rev cs))" if "once_per_item operation"
    using assms that unfolding cells_inv_def by (elim conjE impE) (simp only:)+
  then show "once_per_item operation \<Longrightarrow> distinct (map (\<lambda>c. (snd c, fst (snd (fst c)))) cs)"
    by (simp only: rev_map [symmetric] distinct_rev)
qed

lemma cells_inv_identity:
  assumes "cells_inv operation cs s"
  shows "map_of (rr_identity s) sid = Some x \<longleftrightarrow> (sid, x) \<in> set (rr_stages s)"
proof -
  from assms have "\<forall>sid x. map_of (rr_identity s) sid = Some x \<longleftrightarrow> (sid, x) \<in> set (rr_stages s)"
    unfolding cells_inv_def by (elim conjE)
  then show ?thesis by (elim allE)
qed

lemma cells_inv_step:
  assumes "cells_inv operation (stage_cells vs) s" and "view_ok operation v s"
  shows "cells_inv operation (stage_cells (vs @ [v])) (take_view operation v s)"
proof (cases "en_stage v")
  case None
  have "cells_inv operation cs (take_view operation v s) = cells_inv operation cs s" for cs
    unfolding cells_inv_def by (simp add: None take_view_def Let_def)
  moreover have "stage_cells (vs @ [v]) = stage_cells vs" by (simp add: None stage_cells_snoc)
  ultimately show ?thesis using assms(1) by simp
next
  case (Some k)
  obtain sid item iter where k: "k = (sid, item, iter)" by (cases k)
  have ok: "map_of (rr_identity s) sid \<in> {None, Some (item, iter)}" "(sid, en_group v) \<notin> set (rr_stage_cells s)"
      "once_per_item operation \<Longrightarrow> (en_group v, item) \<notin> set (rr_single s)"
    using assms(2) Some k by (simp_all add: view_ok_def once_per_item_def)
  have same: "x = (item, iter)" if "(sid, x) \<in> set (rr_stages s)" for x
  proof -
    have "map_of (rr_identity s) sid = Some x" using cells_inv_identity [OF assms(1)] that by simp
    then show ?thesis using ok(1) by simp
  qed
  let ?t = "take_view operation v s"
  have t: "rr_cells ?t = (k, en_group v) # rr_cells s" "rr_stage_cells ?t = (sid, en_group v) # rr_stage_cells s"
      "rr_stages ?t = (if k \<in> set (rr_stages s) then rr_stages s else rr_stages s @ [k])"
      "rr_identity ?t = dict_update sid (item, iter) (rr_identity s)"
      "once_per_item operation \<Longrightarrow> rr_single ?t = (en_group v, item) # rr_single s"
    using Some k by (simp_all add: take_view_def Let_def once_per_item_def)
  have ident: "map_of (rr_identity ?t) a = Some x \<longleftrightarrow> (a, x) \<in> set (rr_stages ?t)" for a x
    using cells_inv_identity [OF assms(1), of a x] same [of x] unfolding t map_of_dict_update k by auto
  show ?thesis
    unfolding cells_inv_def
  proof (intro conjI allI impI)
    show "rr_cells ?t = rev (stage_cells (vs @ [v]))" using assms(1) Some by (simp add: t cells_inv_def stage_cells_snoc)
    show "rr_stage_cells ?t = map (\<lambda>c. (fst (fst c), snd c)) (rev (stage_cells (vs @ [v])))"
      using assms(1) Some k by (simp add: t cells_inv_def stage_cells_snoc)
    have "distinct (rr_stage_cells s)" using assms(1) unfolding cells_inv_def by (elim conjE)
    then show "distinct (rr_stage_cells ?t)" using ok(2) by (simp add: t)
    show "distinct (rr_stages ?t)" using assms(1) by (simp add: t cells_inv_def)
    show "set (rr_stages ?t) = fst ` set (stage_cells (vs @ [v]))"
      using assms(1) Some unfolding cells_inv_def by (simp add: t stage_cells_snoc insert_absorb)
    show "(map_of (rr_identity ?t) a = Some x) = ((a, x) \<in> set (rr_stages ?t))" for a x by (rule ident)
    show "rr_single ?t = map (\<lambda>c. (snd c, fst (snd (fst c)))) (rev (stage_cells (vs @ [v])))" if "once_per_item operation"
      using assms(1) Some k that by (simp add: t cells_inv_def stage_cells_snoc)
    show "distinct (rr_single ?t)" if once: "once_per_item operation"
    proof -
      have "distinct (rr_single s)" using assms(1) once unfolding cells_inv_def by (elim conjE impE)
      then show ?thesis using ok(3) once by (simp add: t)
    qed
  qed
qed

lemma add_entries_views:
  assumes "add_entries operation es s = Some (Inr s')"
    and "groups_inv operation vs (rr_groups s)" and "cells_inv operation (stage_cells vs) s"
    and "rr_unconfirmed s = length (filter (\<lambda>v. \<not> en_confirmed v) vs)"
  shows "\<exists>ws. those (map view_entry es) = Some ws \<and> groups_inv operation (vs @ ws) (rr_groups s')
    \<and> cells_inv operation (stage_cells (vs @ ws)) s' \<and> rr_unconfirmed s' = length (filter (\<lambda>v. \<not> en_confirmed v) (vs @ ws))"
  using assms
proof (induction es arbitrary: s vs)
  case Nil
  then show ?case by simp
next
  case (Cons e es)
  from Cons.prems(1) obtain s1 where e: "add_entry operation e s = Some (Inr s1)" and es: "add_entries operation es s1 = Some (Inr s')"
    by (auto split: option.splits sum.splits)
  from e obtain v where v: "view_entry e = Some v" "view_ok operation v s" "s1 = take_view operation v s"
    unfolding add_entry_exact by blast
  have u: "rr_unconfirmed s1 = length (filter (\<lambda>v. \<not> en_confirmed v) (vs @ [v]))"
    using Cons.prems(4) by (simp add: v(3) take_view_def Let_def split: option.split)
  obtain ws where "those (map view_entry es) = Some ws" "groups_inv operation ((vs @ [v]) @ ws) (rr_groups s')"
      "cells_inv operation (stage_cells ((vs @ [v]) @ ws)) s'"
      "rr_unconfirmed s' = length (filter (\<lambda>v. \<not> en_confirmed v) ((vs @ [v]) @ ws))"
    using Cons.IH [OF es] groups_inv_step [OF Cons.prems(2) v(2)] cells_inv_step [OF Cons.prems(3) v(2)] u
    unfolding v(3) by blast
  then show ?case using v(1) by (intro exI [of _ "v # ws"]) simp
qed

section \<open>The accepted list\<close>

text \<open>The fields of the output lines with a tag.\<close>

definition tagged :: "string \<Rightarrow> string list list \<Rightarrow> string list list" where
  "tagged tag out = map tl (filter (\<lambda>l. take 1 l = [tag]) out)"

lemma tagged_append: "tagged tag (xs @ ys) = tagged tag xs @ tagged tag ys"
  by (simp add: tagged_def)

lemma tagged_map_same: "(\<And>x. x \<in> set xs \<Longrightarrow> take 1 (f x) = [tag]) \<Longrightarrow> tagged tag (map f xs) = map (tl \<circ> f) xs"
  by (induction xs) (auto simp: tagged_def)

lemma tagged_map_other: "(\<And>x. x \<in> set xs \<Longrightarrow> take 1 (f x) \<noteq> [tag]) \<Longrightarrow> tagged tag (map f xs) = []"
  by (induction xs) (auto simp: tagged_def)

lemma tagged_groups:
  "tagged ''GROUP'' (output_lines operation src source fp stamp env s ctx reason)
     = map (\<lambda>(name, g). [name, show_int (rg_order g), join_with '','' (rg_members g)]) (ordered_groups s)"
proof -
  have "tagged ''GROUP'' (map (\<lambda>(name, g). [''GROUP'', name, show_int (rg_order g), join_with '','' (rg_members g)]) xs)
      = map (\<lambda>(name, g). [name, show_int (rg_order g), join_with '','' (rg_members g)]) xs" for xs :: "(string \<times> rerun_group) list"
    by (subst tagged_map_same) (auto simp: case_prod_beta)
  moreover have "tagged ''GROUP'' (map (\<lambda>(k, v). [''ENV'', k, v]) xs) = []" for xs
    by (rule tagged_map_other) auto
  moreover have "tagged ''GROUP'' (map (\<lambda>(sid, item, iter). [''STAGE'', sid, item, iter]) xs) = []" for xs
    by (rule tagged_map_other) auto
  moreover have "tagged ''GROUP'' (map (\<lambda>k. [''ENV'', k, f k]) xs) = []" for xs f
    by (rule tagged_map_other) auto
  ultimately show ?thesis unfolding output_lines_def Let_def tagged_append by (simp add: tagged_def)
qed

lemma tagged_stages:
  "tagged ''STAGE'' (output_lines operation src source fp stamp env s ctx reason)
     = map (\<lambda>(sid, item, iter). [sid, item, iter]) (rr_stages s)"
proof -
  have "tagged ''STAGE'' (map (\<lambda>(name, g). [''GROUP'', name, show_int (rg_order g), join_with '','' (rg_members g)]) xs) = []" for xs
    by (rule tagged_map_other) auto
  moreover have "tagged ''STAGE'' (map (\<lambda>(k, v). [''ENV'', k, v]) xs) = []" for xs
    by (rule tagged_map_other) auto
  moreover have "tagged ''STAGE'' (map (\<lambda>(sid, item, iter). [''STAGE'', sid, item, iter]) xs)
      = map (\<lambda>(sid, item, iter). [sid, item, iter]) xs" for xs
    by (subst tagged_map_same) (auto simp: case_prod_beta)
  moreover have "tagged ''STAGE'' (map (\<lambda>k. [''ENV'', k, f k]) xs) = []" for xs f
    by (rule tagged_map_other) auto
  ultimately show ?thesis unfolding output_lines_def Let_def tagged_append by (simp add: tagged_def)
qed

lemma grid_is_product:
  assumes "cells_inv operation (stage_cells vs) s" and "groups_inv operation vs (rr_groups s)" and "grid_complete s"
    and "mset names = mset (map fst (rr_groups s))"
  shows "mset (stage_cells vs) = mset (List.product (rr_stages s) names)"
proof -
  have members: "set names = fst ` set (rr_groups s)" using arg_cong [OF assms(4), of set_mset] by simp
  have names: "set names = en_group ` set vs" using assms(2) by (simp add: members groups_inv_def)
  have "distinct names" using assms(2) mset_eq_imp_distinct_iff [OF assms(4)] by (simp add: groups_inv_def)
  have "set (stage_cells vs) \<subseteq> set (rr_stages s) \<times> set names"
  proof
    fix c assume c: "c \<in> set (stage_cells vs)"
    then have "fst c \<in> set (rr_stages s)" using assms(1) by (simp add: cells_inv_def)
    moreover have "snd c \<in> set names" using c by (auto simp: stage_cells_def names split: option.splits)
    ultimately show "c \<in> set (rr_stages s) \<times> set names" by (cases c) simp
  qed
  moreover have "set (rr_stages s) \<times> set names \<subseteq> set (stage_cells vs)"
  proof -
    have c: "set (rr_cells s) = set (stage_cells vs)" using assms(1) by (simp add: cells_inv_def)
    have "(k, x) \<in> set (rr_cells s)" if "k \<in> set (rr_stages s)" "x \<in> set names" for k x
      using assms(3) that unfolding grid_complete_def list_all_iff set_map members by blast
    then show ?thesis unfolding c by (intro subrelI) simp
  qed
  ultimately have "set (stage_cells vs) = set (List.product (rr_stages s) names)" unfolding set_product by (rule subset_antisym)
  moreover have "distinct (stage_cells vs)"
  proof -
    have "distinct (map (\<lambda>c. (fst (fst c), snd c)) (stage_cells vs))" using cells_inv_distinct(1) [OF assms(1)] .
    then show ?thesis by (simp add: distinct_map)
  qed
  moreover have "distinct (List.product (rr_stages s) names)"
    using assms(1) \<open>distinct names\<close> by (simp add: cells_inv_def distinct_product)
  ultimately show ?thesis using set_eq_iff_mset_eq_distinct by blast
qed

lemma stage_ids_distinct: "cells_inv operation cs s \<Longrightarrow> distinct (map fst (rr_stages s))"
  unfolding distinct_map inj_on_def
  by (intro conjI ballI impI, simp add: cells_inv_def)
    (metis cells_inv_identity option.inject prod.collapse)

lemma those_map_Some:
  "those (map f xs) = Some ys \<Longrightarrow> y \<in> set ys \<Longrightarrow> \<exists>x\<in>set xs. f x = Some y"
  by (induction xs arbitrary: ys) (auto split: option.splits)

lemma those_length: "those xs = Some ys \<Longrightarrow> length ys = length xs"
  by (induction xs arbitrary: ys) (auto split: option.splits)

lemma view_members_named: "view_entry e = Some v \<Longrightarrow> n \<in> set (en_members v) \<Longrightarrow> n \<noteq> []"
  by (auto simp: view_entry_def Option.bind_eq_Some_conv split: jval.splits)

lemma add_entries_from_start:
  assumes "add_entries operation es no_entries = Some (Inr s)"
  obtains vs where "those (map view_entry es) = Some vs" "groups_inv operation vs (rr_groups s)"
    "cells_inv operation (stage_cells vs) s" "rr_unconfirmed s = length (filter (\<lambda>v. \<not> en_confirmed v) vs)"
proof -
  have "groups_inv operation [] (rr_groups no_entries)" "cells_inv operation (stage_cells []) no_entries"
      "rr_unconfirmed no_entries = length (filter (\<lambda>v. \<not> en_confirmed v) [])"
    by (simp_all add: groups_inv_def cells_inv_def no_entries_def stage_cells_def)
  from add_entries_views [OF assms this] show ?thesis using that by auto
qed

lemma validate_accepted:
  assumes "validate_entries operation src source stamp data scale entries = Some (Accepted out)"
  obtains s outside nodes where "add_entries operation entries no_entries = Some (Inr s)" "grid_complete s"
    "read_dict data ''non_participating_context'' = Some outside"
    "get_field outside ''nodes'' (JvList []) = JvList nodes"
    "\<And>n name g. n \<noteq> [] \<Longrightarrow> JvText n \<in> set nodes \<Longrightarrow> (name, g) \<in> set (rr_groups s) \<Longrightarrow> n \<notin> set (rg_members g)"
    "\<exists>env fp ctx reason. out = output_lines operation src source fp stamp env s ctx reason"
proof -
  obtain s where s: "add_entries operation entries no_entries = Some (Inr s)" "grid_complete s"
    using assms by (auto simp: validate_entries_def split: option.splits sum.splits if_splits)
  have "(do {
            outside \<leftarrow> read_dict data ''non_participating_context'';
            nodes \<leftarrow> (case get_field outside ''nodes'' (JvList []) of JvList vs \<Rightarrow> those (map text_of_jval vs) | _ \<Rightarrow> None);
            let ctx_nodes = filter (\<lambda>n. n \<noteq> []) nodes in
            if list_ex (\<lambda>n. list_ex (\<lambda>(name, g). n \<in> set (rg_members g)) (rr_groups s)) ctx_nodes then Some (Rejected 9)
            else Some (Accepted (output_lines operation src source (py_str (get_field data ''config_fingerprint'' (JvText []))) stamp
                   (scale_env operation src s) s ctx_nodes (py_str (get_field outside ''reason'' (JvText [])))))
          }) = Some (Accepted out)"
    using assms s by (simp add: validate_entries_def split: if_splits)
  then obtain outside texts where c: "read_dict data ''non_participating_context'' = Some outside"
    and texts: "(case get_field outside ''nodes'' (JvList []) of JvList vs \<Rightarrow> those (map text_of_jval vs) | _ \<Rightarrow> None) = Some texts"
    and apart: "\<not> list_ex (\<lambda>n. list_ex (\<lambda>(name, g). n \<in> set (rg_members g)) (rr_groups s)) (filter (\<lambda>n. n \<noteq> []) texts)"
    and out: "out = output_lines operation src source (py_str (get_field data ''config_fingerprint'' (JvText []))) stamp
        (scale_env operation src s) s (filter (\<lambda>n. n \<noteq> []) texts) (py_str (get_field outside ''reason'' (JvText [])))"
    by (auto simp: Option.bind_eq_Some_conv Let_def split: if_splits)
  from texts obtain nodes where nodes: "get_field outside ''nodes'' (JvList []) = JvList nodes"
    and t: "those (map text_of_jval nodes) = Some texts"
    by (auto split: jval.splits)
  have "n \<notin> set (rg_members g)" if "n \<noteq> []" "JvText n \<in> set nodes" "(name, g) \<in> set (rr_groups s)" for n name g
  proof -
    have "n \<in> set texts" using t that(2)
      by (induction nodes arbitrary: texts) (auto simp: text_of_jval_def split: option.splits jval.splits)
    then show ?thesis using apart that by (fastforce simp: list_ex_iff)
  qed
  then show ?thesis using that [OF s c nodes] out by blast
qed

lemma rerun_accepted:
  assumes "rerun_plan digest dep runs file operation = Some (Accepted out)"
  obtains data entries src source scale where "file = Some (JvObj data)"
    "get_field data ''operation'' JvNull = JvText operation" "get_field data ''entries'' JvNull = JvList entries"
    "get_field data ''config_fingerprint'' JvNull = JvText (digest (fingerprint_text (sr_control src)))" "sr_control src \<noteq> []"
    "src = runs source"
    "validate_entries operation src source (dp_stamp dep) data scale entries = Some (Accepted out)"
proof -
  from assms obtain data where f: "file = Some (JvObj data)"
    by (auto simp: rerun_plan_def split: option.splits jval.splits)
  note run = assms [unfolded rerun_plan_def f option.case jval.case Let_def]
  show ?thesis
    using run that [OF f] by (auto simp: py_true_def split: if_splits option.splits jval.splits)
qed

text \<open>
  The output runs the listed work: its groups are the groups of the entries with their members, its
  stages their stages, each stage of each group is listed exactly once, and with once-only
  operations no item runs twice in a group.
\<close>

definition runs_the_list :: "string \<Rightarrow> entry_view list \<Rightarrow> string list list \<Rightarrow> bool" where
  "runs_the_list operation views out =
     (let gs = map (\<lambda>l. (l ! 0, l ! 2)) (tagged ''GROUP'' out);
          stages = map (\<lambda>l. (l ! 0, l ! 1, l ! 2)) (tagged ''STAGE'' out) in
      distinct (map fst gs) \<and> distinct (map fst stages)
      \<and> set gs = (\<lambda>v. (en_group v, join_with '','' (en_members v))) ` set views
      \<and> mset (stage_cells views) = mset (List.product stages (map fst gs))
      \<and> (once_per_item operation \<longrightarrow> distinct (map (\<lambda>c. (snd c, fst (snd (fst c)))) (stage_cells views))))"

lemma group_lines:
  assumes "groups_inv operation vs gs"
  shows "(\<lambda>(name, g). (name, f (rg_members g))) ` set gs = (\<lambda>v. (en_group v, f (en_members v))) ` set vs" (is "?l = ?r")
proof (intro equalityI subsetI)
  fix x assume "x \<in> ?l"
  then obtain name g where g: "(name, g) \<in> set gs" "x = (name, f (rg_members g))" by auto
  have "name \<in> en_group ` set vs" using assms g(1) unfolding groups_inv_def by (metis fst_conv image_eqI)
  then obtain v where v: "v \<in> set vs" "name = en_group v" by blast
  have "map_of gs name = Some g" using assms g(1) by (simp add: groups_inv_def)
  moreover have "map_option rg_members (map_of gs (en_group v)) = Some (en_members v)"
    by (rule groups_inv_members [OF assms v(1)])
  ultimately show "x \<in> ?r" using g(2) v by auto
next
  fix x assume "x \<in> ?r"
  then obtain v where v: "v \<in> set vs" "x = (en_group v, f (en_members v))" by blast
  have "map_option rg_members (map_of gs (en_group v)) = Some (en_members v)"
    by (rule groups_inv_members [OF assms v(1)])
  then obtain g where "map_of gs (en_group v) = Some g" "rg_members g = en_members v" by blast
  then show "x \<in> ?l" using v(2) by (force dest: map_of_SomeD)
qed

lemma output_runs_the_list:
  assumes "groups_inv operation vs (rr_groups s)" and "cells_inv operation (stage_cells vs) s" and "grid_complete s"
  shows "runs_the_list operation vs (output_lines operation src source fp stamp env s ctx reason)"
proof -
  let ?out = "output_lines operation src source fp stamp env s ctx reason"
  have stages: "map (\<lambda>l. (l ! 0, l ! 1, l ! 2)) (tagged ''STAGE'' ?out) = rr_stages s"
    by (simp add: tagged_stages case_prod_beta o_def)
  have gs: "map (\<lambda>l. (l ! 0, l ! 2)) (tagged ''GROUP'' ?out)
      = map (\<lambda>(name, g). (name, join_with '','' (rg_members g))) (ordered_groups s)"
    by (simp add: tagged_groups case_prod_beta o_def)
  have names: "map fst (map (\<lambda>(name, g). (name, join_with '','' (rg_members g))) xs) = map fst xs" for xs
    by (simp add: case_prod_beta o_def)
  have perm: "mset (map fst (ordered_groups s)) = mset (map fst (rr_groups s))"
    by (simp add: ordered_groups_def)
  have "distinct (map fst (ordered_groups s))"
    using assms(1) mset_eq_imp_distinct_iff [OF perm] by (simp add: groups_inv_def)
  moreover have "set (map (\<lambda>(name, g). (name, join_with '','' (rg_members g))) (ordered_groups s))
      = (\<lambda>v. (en_group v, join_with '','' (en_members v))) ` set vs"
    using group_lines [OF assms(1)] by (simp add: ordered_groups_def)
  moreover note stage_ids_distinct [OF assms(2)] grid_is_product [OF assms(2,1,3) perm] cells_inv_distinct(2) [OF assms(2)]
  ultimately show ?thesis
    unfolding runs_the_list_def Let_def stages gs names by (intro conjI impI)
qed

lemma accepted_rerun_exact:
  assumes "rerun_plan digest dep runs file operation = Some (Accepted out)"
  shows "\<exists>data entries views outside nodes source. file = Some (JvObj data)
    \<and> get_field data ''operation'' JvNull = JvText operation
    \<and> get_field data ''config_fingerprint'' JvNull = JvText (digest (fingerprint_text (sr_control (runs source))))
    \<and> get_field data ''entries'' JvNull = JvList entries \<and> those (map view_entry entries) = Some views
    \<and> runs_the_list operation views out
    \<and> read_dict data ''non_participating_context'' = Some outside
    \<and> get_field outside ''nodes'' (JvList []) = JvList nodes
    \<and> (\<forall>v\<in>set views. \<forall>n\<in>set (en_members v). JvText n \<notin> set nodes)"
proof -
  from assms obtain data entries source scale where
      d: "file = Some (JvObj data)" "get_field data ''operation'' JvNull = JvText operation"
        "get_field data ''entries'' JvNull = JvList entries"
        "get_field data ''config_fingerprint'' JvNull = JvText (digest (fingerprint_text (sr_control (runs source))))"
    and ok: "validate_entries operation (runs source) source (dp_stamp dep) data scale entries = Some (Accepted out)"
    by (rule rerun_accepted) blast
  from ok obtain s outside nodes where s: "add_entries operation entries no_entries = Some (Inr s)" "grid_complete s"
    and c: "read_dict data ''non_participating_context'' = Some outside" "get_field outside ''nodes'' (JvList []) = JvList nodes"
    and apart: "\<And>n name g. n \<noteq> [] \<Longrightarrow> JvText n \<in> set nodes \<Longrightarrow> (name, g) \<in> set (rr_groups s) \<Longrightarrow> n \<notin> set (rg_members g)"
    and out: "\<exists>env fp ctx reason. out = output_lines operation (runs source) source fp (dp_stamp dep) env s ctx reason"
    by (rule validate_accepted) blast
  from s(1) obtain vs where vs: "those (map view_entry entries) = Some vs" "groups_inv operation vs (rr_groups s)"
      "cells_inv operation (stage_cells vs) s"
    by (rule add_entries_from_start)
  have "runs_the_list operation vs out" using out output_runs_the_list [OF vs(2,3) s(2)] by blast
  moreover have "\<forall>v\<in>set vs. \<forall>n\<in>set (en_members v). JvText n \<notin> set nodes"
  proof (intro ballI notI)
    fix v n assume v: "v \<in> set vs" and n: "n \<in> set (en_members v)" "JvText n \<in> set nodes"
    obtain e where "view_entry e = Some v" using those_map_Some [OF vs(1) v] by blast
    then have named: "n \<noteq> []" using n(1) by (rule view_members_named)
    have "map_option rg_members (map_of (rr_groups s) (en_group v)) = Some (en_members v)"
      by (rule groups_inv_members [OF vs(2) v])
    then obtain g where "(en_group v, g) \<in> set (rr_groups s)" "rg_members g = en_members v" by (auto dest: map_of_SomeD)
    then show False using apart [OF named n(2)] n(1) by metis
  qed
  ultimately show ?thesis using d c vs(1) by blast
qed

section \<open>An exported list can be run again\<close>

text \<open>The conditions under which a list of entries is accepted entry by entry.\<close>

definition views_ok :: "string \<Rightarrow> entry_view list \<Rightarrow> bool" where
  "views_ok operation vs \<longleftrightarrow>
     (\<forall>v\<in>set vs. en_group v \<noteq> [] \<and> en_members v \<noteq> [] \<and> \<not> bad_gpu_group operation (en_group v) (en_members v))
     \<and> (\<forall>v\<in>set vs. \<forall>w\<in>set vs. en_group v = en_group w \<longrightarrow> en_members v = en_members w)
     \<and> (\<forall>c\<in>set (stage_cells vs). \<forall>d\<in>set (stage_cells vs). fst (fst c) = fst (fst d) \<longrightarrow> fst c = fst d)
     \<and> distinct (map (\<lambda>c. (fst (fst c), snd c)) (stage_cells vs))
     \<and> (once_per_item operation \<longrightarrow> distinct (map (\<lambda>c. (snd c, fst (snd (fst c)))) (stage_cells vs)))"

lemma stage_cells_append: "stage_cells (vs @ new) = stage_cells vs @ stage_cells new"
  by (simp add: stage_cells_def)

lemma stage_cells_Cons:
  "stage_cells (v # vs) = (case en_stage v of None \<Rightarrow> [] | Some k \<Rightarrow> [(k, en_group v)]) @ stage_cells vs"
  by (simp add: stage_cells_def)

lemma next_view_ok:
  assumes "views_ok operation (vs @ v # rest)" and "groups_inv operation vs (rr_groups s)"
    and "cells_inv operation (stage_cells vs) s"
  shows "view_ok operation v s"
  unfolding view_ok_def
proof (intro conjI allI impI)
  show "en_group v \<noteq> []" "en_members v \<noteq> []" "\<not> bad_gpu_group operation (en_group v) (en_members v)"
    using assms(1) by (simp_all add: views_ok_def)
next
  fix g assume g: "map_of (rr_groups s) (en_group v) = Some g"
  then have "en_group v \<in> en_group ` set vs"
    using assms(2) unfolding groups_inv_def by (metis map_of_SomeD fst_conv image_eqI)
  then obtain w where w: "w \<in> set vs" "en_group w = en_group v" by force
  then have "en_members w = en_members v" using assms(1) by (simp add: views_ok_def)
  moreover have "map_option rg_members (map_of (rr_groups s) (en_group w)) = Some (en_members w)"
    by (rule groups_inv_members [OF assms(2) w(1)])
  ultimately show "rg_members g = en_members v" using g w(2) by simp
next
  fix sid item iter assume stg: "en_stage v = Some (sid, item, iter)"
  let ?c = "((sid, item, iter), en_group v)"
  have cells: "stage_cells (vs @ v # rest) = stage_cells vs @ ?c # stage_cells rest"
    by (simp add: stage_cells_append stage_cells_Cons stg)
  have all: "\<forall>c\<in>set (stage_cells (vs @ v # rest)). \<forall>d\<in>set (stage_cells (vs @ v # rest)). fst (fst c) = fst (fst d) \<longrightarrow> fst c = fst d"
    using assms(1) unfolding views_ok_def by (elim conjE)
  have same: "fst d = (sid, item, iter)" if "d \<in> set (stage_cells vs)" "fst (fst d) = sid" for d
    using bspec [OF bspec [OF all, of d], of ?c] that by (simp add: cells)
  show "map_of (rr_identity s) sid \<in> {None, Some (item, iter)}"
  proof (cases "map_of (rr_identity s) sid")
    case (Some x)
    then have "(sid, x) \<in> set (rr_stages s)" using cells_inv_identity [OF assms(3)] by blast
    moreover have "set (rr_stages s) = fst ` set (stage_cells vs)" using assms(3) by (simp only: cells_inv_def)
    ultimately obtain d where d: "d \<in> set (stage_cells vs)" "fst d = (sid, x)" by auto
    then have "fst d = (sid, item, iter)" using same by simp
    then show ?thesis using d(2) Some by simp
  qed simp
  have "distinct (map (\<lambda>c. (fst (fst c), snd c)) (stage_cells vs @ ?c # stage_cells rest))"
    using assms(1) unfolding views_ok_def cells by (elim conjE)
  then have new: "(sid, en_group v) \<notin> set (map (\<lambda>c. (fst (fst c), snd c)) (stage_cells vs))" by simp
  have "rr_stage_cells s = map (\<lambda>c. (fst (fst c), snd c)) (rev (stage_cells vs))"
    using assms(3) by (simp only: cells_inv_def)
  then show "(sid, en_group v) \<notin> set (rr_stage_cells s)" using new by simp
  show "\<not> (operation \<in> {''deepep'', ''byte-flux''} \<and> (en_group v, item) \<in> set (rr_single s))"
  proof (cases "once_per_item operation")
    case True
    then have "distinct (map (\<lambda>c. (snd c, fst (snd (fst c)))) (stage_cells vs @ ?c # stage_cells rest))"
      using assms(1) unfolding views_ok_def cells by (elim conjE impE)
    then have "(en_group v, item) \<notin> set (map (\<lambda>c. (snd c, fst (snd (fst c)))) (stage_cells vs))" by simp
    moreover have "rr_single s = map (\<lambda>c. (snd c, fst (snd (fst c)))) (rev (stage_cells vs))"
      using assms(3) True by (simp only: cells_inv_def)
    ultimately show ?thesis by simp
  qed (simp add: once_per_item_def)
qed

lemma add_entries_accepts:
  assumes "those (map view_entry es) = Some new" and "views_ok operation (vs @ new)"
    and "groups_inv operation vs (rr_groups s)" and "cells_inv operation (stage_cells vs) s"
  shows "\<exists>s'. add_entries operation es s = Some (Inr s') \<and> groups_inv operation (vs @ new) (rr_groups s')
    \<and> cells_inv operation (stage_cells (vs @ new)) s'"
  using assms
proof (induction es arbitrary: s vs new)
  case (Cons e es)
  from Cons.prems(1) obtain v us where v: "view_entry e = Some v" and us: "those (map view_entry es) = Some us" and new: "new = v # us"
    by (auto split: option.splits)
  have ok: "view_ok operation v s" using next_view_ok Cons.prems(2,3,4) unfolding new by blast
  then have e: "add_entry operation e s = Some (Inr (take_view operation v s))" using v by (simp add: add_entry_exact)
  have "\<exists>s'. add_entries operation es (take_view operation v s) = Some (Inr s')
      \<and> groups_inv operation ((vs @ [v]) @ us) (rr_groups s') \<and> cells_inv operation (stage_cells ((vs @ [v]) @ us)) s'"
    by (rule Cons.IH [OF us _ groups_inv_step [OF Cons.prems(3) ok] cells_inv_step [OF Cons.prems(4) ok]])
      (use Cons.prems(2) new in simp)
  then show ?case by (simp add: e new)
qed simp

text \<open>The failed cells of a report, and the view of their entries.\<close>

definition failed_cells :: "run_report \<Rightarrow> result list" where
  "failed_cells s = filter (\<lambda>r. rs_status r \<in> set failed_statuses) (sn_results s)"

definition cell_view :: "group_plan list \<Rightarrow> result \<Rightarrow> entry_view" where
  "cell_view gs r =
     \<lparr>en_group = rs_group r, en_members = group_members gs (rs_group r), en_order = int (group_order gs (rs_group r)),
      en_confirmed = (rs_cleanup r = ''CONFIRMED''), en_stage = Some (rs_stage r, rs_item r, rs_iter r)\<rparr>"

lemma those_texts: "those (map text_of_jval (map JvText xs)) = Some xs"
  by (induction xs) (simp_all add: text_of_jval_def)

lemma group_members_named: "[] \<notin> set (group_members gs name)"
  by (auto simp: group_members_def planned_nodes_def split: list.splits)

lemma view_stage_entry: "view_entry (JvObj (stage_entry gs r)) = Some (cell_view gs r)"
proof -
  have "filter (\<lambda>m. m \<noteq> []) (group_members gs (rs_group r)) = group_members gs (rs_group r)"
    using group_members_named [of gs "rs_group r"] by (auto intro: filter_True)
  moreover have "those (map (\<lambda>x. text_of_jval (JvText x)) xs) = Some xs" for xs using those_texts [of xs] by (simp add: o_def)
  ultimately show ?thesis
    by (simp add: view_entry_def stage_entry_def get_field_def text_of_jval_def [of "JvText (rs_group r)"] int_of_jval_def py_str_def cell_view_def o_def)
qed

lemma views_of_cells: "those (map view_entry (map JvObj (map (stage_entry gs) rs))) = Some (map (cell_view gs) rs)"
  by (induction rs) (simp_all add: view_stage_entry)

lemma stage_cells_of_cells: "stage_cells (map (cell_view gs) rs) = map (\<lambda>r. ((rs_stage r, rs_item r, rs_iter r), rs_group r)) rs"
  by (simp add: stage_cells_def cell_view_def o_def)

text \<open>A list of cells that the validation accepts: it fills its groups and stages.\<close>

definition full_grid :: "group_plan list \<Rightarrow> result list \<Rightarrow> bool" where
  "full_grid gs rs \<longleftrightarrow>
     rs \<noteq> [] \<and> (\<forall>r\<in>set rs. rs_group r \<noteq> [] \<and> group_members gs (rs_group r) \<noteq> [])
     \<and> (\<forall>r\<in>set rs. \<forall>q\<in>set rs. rs_stage r = rs_stage q \<longrightarrow> rs_item r = rs_item q \<and> rs_iter r = rs_iter q)
     \<and> distinct (map (\<lambda>r. (rs_stage r, rs_group r)) rs)
     \<and> (\<forall>r\<in>set rs. \<forall>q\<in>set rs. \<exists>c\<in>set rs. rs_stage c = rs_stage r \<and> rs_group c = rs_group q)"

lemma full_gridD:
  assumes "full_grid gs rs"
  shows "rs \<noteq> []" and "r \<in> set rs \<Longrightarrow> rs_group r \<noteq> []" and "r \<in> set rs \<Longrightarrow> group_members gs (rs_group r) \<noteq> []"
    and "distinct (map (\<lambda>r. (rs_stage r, rs_group r)) rs)"
  using assms by (simp_all add: full_grid_def)

lemma full_grid_key:
  assumes "full_grid gs rs" and "r \<in> set rs" and "q \<in> set rs" and "rs_stage r = rs_stage q"
  shows "(rs_stage r, rs_item r, rs_iter r) = (rs_stage q, rs_item q, rs_iter q)"
proof -
  have "\<forall>r\<in>set rs. \<forall>q\<in>set rs. rs_stage r = rs_stage q \<longrightarrow> rs_item r = rs_item q \<and> rs_iter r = rs_iter q"
    using assms(1) unfolding full_grid_def by (elim conjE)
  from bspec [OF bspec [OF this assms(2)] assms(3)] assms(4) show ?thesis by simp
qed

lemma full_grid_cell:
  assumes "full_grid gs rs" and "r \<in> set rs" and "q \<in> set rs"
  obtains c where "c \<in> set rs" "rs_stage c = rs_stage r" "rs_group c = rs_group q"
proof -
  have "\<forall>r\<in>set rs. \<forall>q\<in>set rs. \<exists>c\<in>set rs. rs_stage c = rs_stage r \<and> rs_group c = rs_group q"
    using assms(1) unfolding full_grid_def by (elim conjE)
  from bspec [OF bspec [OF this assms(2)] assms(3)] show ?thesis using that by blast
qed

lemma views_of_grid_ok:
  assumes "full_grid gs rs" and "\<not> gpu_operation operation" and "\<not> once_per_item operation"
  shows "views_ok operation (map (cell_view gs) rs)"
  unfolding views_ok_def stage_cells_of_cells
proof (intro conjI ballI impI)
  fix v assume "v \<in> set (map (cell_view gs) rs)"
  then obtain r where r: "r \<in> set rs" "v = cell_view gs r" by auto
  show "en_group v \<noteq> []" "en_members v \<noteq> []" "\<not> bad_gpu_group operation (en_group v) (en_members v)"
    using full_gridD(2,3) [OF assms(1) r(1)] assms(2) by (simp_all add: r(2) cell_view_def bad_gpu_group_def)
next
  fix v w assume "v \<in> set (map (cell_view gs) rs)" "w \<in> set (map (cell_view gs) rs)" "en_group v = en_group w"
  then show "en_members v = en_members w" by (auto simp: cell_view_def)
next
  fix c d assume "c \<in> set (map (\<lambda>r. ((rs_stage r, rs_item r, rs_iter r), rs_group r)) rs)"
      "d \<in> set (map (\<lambda>r. ((rs_stage r, rs_item r, rs_iter r), rs_group r)) rs)" "fst (fst c) = fst (fst d)"
  then obtain r q where rq: "r \<in> set rs" "q \<in> set rs" "fst c = (rs_stage r, rs_item r, rs_iter r)"
      "fst d = (rs_stage q, rs_item q, rs_iter q)" "rs_stage r = rs_stage q" by auto
  show "fst c = fst d" unfolding rq(3,4) by (rule full_grid_key [OF assms(1) rq(1,2,5)])
next
  show "distinct (map (\<lambda>c. (fst (fst c), snd c)) (map (\<lambda>r. ((rs_stage r, rs_item r, rs_iter r), rs_group r)) rs))"
    using full_gridD(4) [OF assms(1)] by (simp add: o_def)
qed (use assms(3) in simp)

lemma grid_of_cells_complete:
  assumes "full_grid gs rs" and "groups_inv operation (map (cell_view gs) rs) (rr_groups s)"
    and "cells_inv operation (stage_cells (map (cell_view gs) rs)) s"
  shows "grid_complete s"
proof -
  let ?key = "\<lambda>r. (rs_stage r, rs_item r, rs_iter r)"
  have cells: "set (rr_cells s) = (\<lambda>r. (?key r, rs_group r)) ` set rs"
    using assms(3) by (simp add: cells_inv_def stage_cells_of_cells)
  have stages: "set (rr_stages s) = ?key ` set rs"
    using assms(3) by (simp add: cells_inv_def stage_cells_of_cells image_image)
  have names: "fst ` set (rr_groups s) = rs_group ` set rs"
    using assms(2) by (simp add: groups_inv_def image_image cell_view_def)
  have "(?key r, rs_group q) \<in> set (rr_cells s)" if rq: "r \<in> set rs" "q \<in> set rs" for r q
  proof -
    obtain c where c: "c \<in> set rs" "rs_stage c = rs_stage r" "rs_group c = rs_group q"
      using full_grid_cell [OF assms(1) rq] .
    then have "(?key r, rs_group q) = (?key c, rs_group c)" using full_grid_key [OF assms(1) c(1) rq(1) c(2)] c(3) by simp
    then show ?thesis unfolding cells using c(1) by (metis (mono_tags, lifting) image_eqI)
  qed
  then show ?thesis unfolding grid_complete_def list_all_iff set_map stages names by blast
qed

text \<open>The record of the source run an export leads back to.\<close>

lemma read_dict_listed: "get_field d key JvNull = JvObj (kv # kvs) \<Longrightarrow> read_dict d key = Some (kv # kvs)"
  by (simp add: read_dict_def py_true_def as_fields_def)

lemma exported_context:
  assumes "get_field data ''non_participating_context'' JvNull = non_participating control"
  shows "\<exists>outside nodes. read_dict data ''non_participating_context'' = Some outside
    \<and> get_field outside ''nodes'' (JvList []) = JvList (map JvText nodes)
    \<and> set nodes \<subseteq> set (split_on CHR '','' (cell control ''unparticipated_nodes'' []))"
proof (cases "filter (\<lambda>n. n \<noteq> []) (split_on CHR '','' (cell control ''unparticipated_nodes'' [])) \<noteq> []
    \<or> cell control ''source_node_count'' [] \<noteq> []")
  case True
  let ?nodes = "filter (\<lambda>n. n \<noteq> []) (split_on CHR '','' (cell control ''unparticipated_nodes'' []))"
  let ?outside = "[(''nodes'', JvList (map JvText ?nodes)), (''reason'', JvText (cell control ''unparticipated_reason'' []))]"
  have "read_dict data ''non_participating_context'' = Some ?outside"
    by (rule read_dict_listed) (use True assms in \<open>simp only: non_participating_def Let_def if_True\<close>)
  moreover have "get_field ?outside ''nodes'' (JvList []) = JvList (map JvText ?nodes)" by (simp add: get_field_def)
  moreover have "set ?nodes \<subseteq> set (split_on CHR '','' (cell control ''unparticipated_nodes'' []))" by auto
  ultimately show ?thesis by blast
next
  case False
  have "read_dict data ''non_participating_context'' = Some []"
    using False assms by (simp add: read_dict_def non_participating_def Let_def py_true_def)
  then show ?thesis by (intro exI [of _ "[]"]) (simp add: get_field_def)
qed

lemma validate_full_grid:
  assumes "full_grid gs rs" and "\<not> gpu_operation operation" and "\<not> once_per_item operation"
    and "get_field data ''non_participating_context'' JvNull = non_participating (sr_control src)"
    and "\<forall>r\<in>set rs. \<forall>n\<in>set (group_members gs (rs_group r)). n \<notin> set (split_on CHR '','' (cell (sr_control src) ''unparticipated_nodes'' []))"
  shows "\<exists>out. validate_entries operation src source stamp data scale (map JvObj (map (stage_entry gs) rs)) = Some (Accepted out)
    \<and> set (map hd (tagged ''GROUP'' out)) = rs_group ` set rs
    \<and> set (tagged ''STAGE'' out) = (\<lambda>r. [rs_stage r, rs_item r, rs_iter r]) ` set rs"
proof -
  have empty: "groups_inv operation [] (rr_groups no_entries)" "cells_inv operation (stage_cells []) no_entries"
    by (simp_all add: groups_inv_def cells_inv_def no_entries_def stage_cells_def)
  obtain s where s: "add_entries operation (map JvObj (map (stage_entry gs) rs)) no_entries = Some (Inr s)"
      "groups_inv operation (map (cell_view gs) rs) (rr_groups s)"
      "cells_inv operation (stage_cells (map (cell_view gs) rs)) s"
    using add_entries_accepts [OF views_of_cells _ empty, of gs rs] views_of_grid_ok [OF assms(1-3)] by auto
  have grid: "grid_complete s" by (rule grid_of_cells_complete [OF assms(1) s(2,3)])
  obtain outside nodes where o: "read_dict data ''non_participating_context'' = Some outside"
      "get_field outside ''nodes'' (JvList []) = JvList (map JvText nodes)"
      "set nodes \<subseteq> set (split_on CHR '','' (cell (sr_control src) ''unparticipated_nodes'' []))"
    using exported_context [OF assms(4)] by blast
  have apart: "\<not> list_ex (\<lambda>n. list_ex (\<lambda>(name, g). n \<in> set (rg_members g)) (rr_groups s)) (filter (\<lambda>n. n \<noteq> []) nodes)"
  proof
    assume "list_ex (\<lambda>n. list_ex (\<lambda>(name, g). n \<in> set (rg_members g)) (rr_groups s)) (filter (\<lambda>n. n \<noteq> []) nodes)"
    then obtain n name g where n: "n \<in> set nodes" "(name, g) \<in> set (rr_groups s)" "n \<in> set (rg_members g)"
      by (auto simp: list_ex_iff)
    have "name \<in> en_group ` set (map (cell_view gs) rs)" using s(2) n(2) unfolding groups_inv_def by (metis fst_conv image_eqI)
    then obtain r where r: "r \<in> set rs" "name = rs_group r" by (auto simp: cell_view_def)
    have "map_of (rr_groups s) name = Some g" using s(2) n(2) by (simp add: groups_inv_def)
    moreover have "map_option rg_members (map_of (rr_groups s) (en_group (cell_view gs r))) = Some (en_members (cell_view gs r))"
      using groups_inv_members [OF s(2)] r(1) by simp
    ultimately have m: "rg_members g = group_members gs (rs_group r)" by (simp add: r(2) cell_view_def)
    have "n \<in> set (group_members gs (rs_group r))" using n(3) unfolding m .
    from bspec [OF bspec [OF assms(5) r(1)] this] subsetD [OF o(3) n(1)] show False by (rule notE)
  qed
  let ?out = "output_lines operation src source (py_str (get_field data ''config_fingerprint'' (JvText []))) stamp
      (scale_env operation src s) s (filter (\<lambda>n. n \<noteq> []) nodes) (py_str (get_field outside ''reason'' (JvText [])))"
  have "validate_entries operation src source stamp data scale (map JvObj (map (stage_entry gs) rs)) = Some (Accepted ?out)"
    unfolding validate_entries_def s(1) option.case sum.case
    by (simp only: assms(2) simp_thms if_False grid not_True_eq_False o(1,2) jval.case those_texts
      Option.bind.bind_lunit Let_def apart)
  moreover have "set (map hd (tagged ''GROUP'' ?out)) = rs_group ` set rs"
  proof -
    have "map hd (tagged ''GROUP'' ?out) = map fst (ordered_groups s)" by (simp add: tagged_groups case_prod_beta o_def)
    moreover have "set (ordered_groups s) = set (rr_groups s)" by (simp add: ordered_groups_def)
    moreover have "fst ` set (rr_groups s) = rs_group ` set rs"
      using s(2) by (simp add: groups_inv_def image_image cell_view_def)
    ultimately show ?thesis by simp
  qed
  moreover have "set (tagged ''STAGE'' ?out) = (\<lambda>r. [rs_stage r, rs_item r, rs_iter r]) ` set rs"
  proof -
    have "set (rr_stages s) = fst ` set (stage_cells (map (cell_view gs) rs))" using s(3) by (simp only: cells_inv_def)
    then show ?thesis by (simp add: tagged_stages stage_cells_of_cells image_image)
  qed
  ultimately show ?thesis by blast
qed

lemma failed_entries_cells:
  assumes "\<forall>p\<in>set (sn_preflight s). pf_status p \<noteq> ''FAIL''"
  shows "failed_entries gs s = map (stage_entry gs) (failed_cells s)"
  using assms by (simp add: failed_entries_def failed_cells_def filter_empty_conv)

lemma exported_list_exact:
  assumes "sr_control (runs source) = control" and "control \<noteq> []" and "operation = cell control ''operation'' []"
    and "\<not> gpu_operation operation" and "\<not> once_per_item operation"
    and "\<forall>p\<in>set (sn_preflight s). pf_status p \<noteq> ''FAIL''" and "full_grid gs (failed_cells s)"
    and "\<forall>r\<in>set (failed_cells s). \<forall>n\<in>set (group_members gs (rs_group r)).
          n \<notin> set (split_on CHR '','' (cell control ''unparticipated_nodes'' []))"
    and "export_envelope digest dep source control alloc gs = Some envelope"
  shows "\<exists>out. rerun_plan digest dep runs (Some (export_file envelope (failed_entries gs s))) operation = Some (Accepted out)
    \<and> set (map hd (tagged ''GROUP'' out)) = rs_group ` set (failed_cells s)
    \<and> set (tagged ''STAGE'' out) = (\<lambda>r. [rs_stage r, rs_item r, rs_iter r]) ` set (failed_cells s)"
proof -
  let ?old = "map (\<lambda>k. (k, JvText (cell control k []))) [''node_count'', ''participating_node_count'', ''group_count'', ''group_size'']"
  let ?scale = "?old @ [(''slots'', JvText (cell control ''slots'' []))]"
  let ?dep = "[(''protocol_version'', JvNum (dp_version dep)), (''reporting_md5'', JvText (dp_stamp dep))]"
  let ?entries = "map JvObj (map (stage_entry gs) (failed_cells s))"
  have envelope: "envelope = [(''schema_version'', JvNum 1), (''source_run'', JvText source), (''operation'', JvText operation),
      (''scale'', JvObj ?scale), (''config_fingerprint'', JvText (digest (fingerprint_text control))),
      (''deployment'', JvObj ?dep), (''non_participating_context'', non_participating control)]"
    using assms(9) assms(3,4) unfolding export_envelope_def export_scale_def Let_def by simp
  let ?data = "envelope @ [(''entry_count'', JvNum (int (length (failed_cells s)))), (''entries'', JvList ?entries)]"
  have written: "export_file envelope (failed_entries gs s) = JvObj ?data"
    by (simp add: export_file_def failed_entries_cells [OF assms(6)])
  have get: "get_field ?data ''schema_version'' JvNull = JvNum 1" "get_field ?data ''operation'' JvNull = JvText operation"
      "get_field ?data ''source_run'' JvNull = JvText source" "get_field ?data ''entries'' JvNull = JvList ?entries"
      "get_field ?data ''config_fingerprint'' JvNull = JvText (digest (fingerprint_text control))"
      "get_field ?data ''deployment'' JvNull = JvObj ?dep" "get_field ?data ''scale'' JvNull = JvObj ?scale"
      "get_field ?data ''non_participating_context'' JvNull = non_participating control"
    unfolding envelope by (simp_all add: get_field_def)
  have entries: "failed_cells s \<noteq> []" using full_gridD(1) [OF assms(7)] .
  have listed: "py_true (JvList ?entries)" using entries by (simp add: py_true_def)
  have dep: "read_dict ?data ''deployment'' = Some ?dep" by (rule read_dict_listed) (rule get(6))
  have scale: "read_dict ?data ''scale'' = Some ?scale"
    by (subst read_dict_listed) (subst get(7), simp, simp)
  have drift: "\<not> scale_drift operation control ?scale"
    using assms(4) by (simp add: scale_drift_def get_field_def py_str_def)
  have source: "(if py_true (JvText source) then py_str (JvText source) else []) = source"
    by (simp add: py_true_def py_str_def)
  have "rerun_plan digest dep runs (Some (JvObj ?data)) operation
      = validate_entries operation (runs source) source (dp_stamp dep) ?data ?scale ?entries"
    unfolding rerun_plan_def option.case jval.case get Let_def listed source assms(1) if_True dep scale
    using entries assms(2) drift by (simp add: get_field_def py_true_def)
  then show ?thesis
    unfolding written
    using validate_full_grid [OF assms(7,4,5), of ?data "runs source" source "dp_stamp dep" ?scale] get(8) assms(1,8) by simp
qed

text \<open>
  A group of the list without any listed stage (its preflight failed): such a list is accepted only
  when it lists no stage at all.
\<close>

lemma group_without_stage_blocks_the_list:
  assumes "runs_the_list operation views out" and "v \<in> set views" and "\<forall>c\<in>set (stage_cells views). snd c \<noteq> en_group v"
  shows "tagged ''STAGE'' out = []"
proof (rule ccontr)
  assume "tagged ''STAGE'' out \<noteq> []"
  then obtain l where l: "l \<in> set (tagged ''STAGE'' out)" by (cases "tagged ''STAGE'' out") auto
  let ?gs = "map (\<lambda>l. (l ! 0, l ! 2)) (tagged ''GROUP'' out)"
  let ?stages = "map (\<lambda>l. (l ! 0, l ! 1, l ! 2)) (tagged ''STAGE'' out)"
  have gs: "set ?gs = (\<lambda>v. (en_group v, join_with '','' (en_members v))) ` set views"
    and cells: "mset (stage_cells views) = mset (List.product ?stages (map fst ?gs))"
    using assms(1) by (simp_all only: runs_the_list_def Let_def)
  have "en_group v \<in> fst ` set ?gs" unfolding gs using assms(2) by (simp add: image_image)
  then have "((l ! 0, l ! 1, l ! 2), en_group v) \<in> set (List.product ?stages (map fst ?gs))" using l by force
  then have "((l ! 0, l ! 1, l ! 2), en_group v) \<in> set (stage_cells views)" using arg_cong [OF cells, of set_mset] by simp
  then show False using assms(3) by force
qed

section \<open>Properties\<close>

text \<open>
  C32: A list that the validation accepts becomes exactly the listed work.
\<close>

theorem accepted_rerun_is_the_list:
  assumes "rerun_plan digest dep runs file operation = Some (Accepted out)"
  shows "\<exists>data entries views outside nodes source. file = Some (JvObj data)
    \<and> get_field data ''operation'' JvNull = JvText operation
    \<and> get_field data ''config_fingerprint'' JvNull = JvText (digest (fingerprint_text (sr_control (runs source))))
    \<and> get_field data ''entries'' JvNull = JvList entries \<and> those (map view_entry entries) = Some views
    \<and> runs_the_list operation views out
    \<and> read_dict data ''non_participating_context'' = Some outside
    \<and> get_field outside ''nodes'' (JvList []) = JvList nodes
    \<and> (\<forall>v\<in>set views. \<forall>n\<in>set (en_members v). JvText n \<notin> set nodes)"
  by (rule accepted_rerun_exact [OF assms])

definition sample_cell :: "string \<Rightarrow> string \<Rightarrow> result" where
  "sample_cell stg name =
     \<lparr>rs_stage = stg, rs_item = ''ib-write-bw'', rs_iter = ''1'', rs_group = name, rs_nodes = [], rs_status = ''FAIL'', rs_exit = ''1'',
      rs_cleanup = ''CONFIRMED'', rs_reason = ''EXIT_NONZERO'', rs_dispatched = True, rs_checks = []\<rparr>"

definition sample_failures :: run_report where
  "sample_failures = \<lparr>sn_results = [sample_cell ''01'' ''group-1'', sample_cell ''01'' ''group-2''], sn_preflight = [], sn_stages = [],
     sn_failures = [], sn_status = ''FAIL'', sn_planned = 2, sn_completed = 2, sn_executed = 2, sn_valid = 0\<rparr>"

definition sample_groups :: "group_plan list" where
  "sample_groups = [\<lparr>gp_name = ''group-1'', gp_nodes = ''n1,n2''\<rparr>, \<lparr>gp_name = ''group-2'', gp_nodes = ''n3,n4''\<rparr>]"

definition sample_control :: row where
  "sample_control = [(''operation'', ''ib-write-bw''), (''group_size'', ''2''), (''unparticipated_nodes'', ''n5'')]"

definition sample_dep :: deployment where "sample_dep = \<lparr>dp_version = 1, dp_stamp = ''abc''\<rparr>"

definition no_alloc :: "string \<Rightarrow> allocation" where
  "no_alloc name = \<lparr>al_valid = True, al_lines = None, al_plans = []\<rparr>"

definition sample_envelope :: fields where
  "sample_envelope = the (export_envelope (take 16) sample_dep ''runs/7'' sample_control no_alloc sample_groups)"

lemma sample_report_exports:
  shows "sr_control \<lparr>sr_control = sample_control, sr_alloc = no_alloc\<rparr> = sample_control" and "sample_control \<noteq> []"
    and "cell sample_control ''operation'' [] = ''ib-write-bw''"
    and "\<not> gpu_operation ''ib-write-bw''" and "\<not> once_per_item ''ib-write-bw''"
    and "\<forall>p\<in>set (sn_preflight sample_failures). pf_status p \<noteq> ''FAIL''"
    and "full_grid sample_groups (failed_cells sample_failures)"
    and "\<forall>r\<in>set (failed_cells sample_failures). \<forall>n\<in>set (group_members sample_groups (rs_group r)).
          n \<notin> set (split_on CHR '','' (cell sample_control ''unparticipated_nodes'' []))"
    and "export_envelope (take 16) sample_dep ''runs/7'' sample_control no_alloc sample_groups = Some sample_envelope"
proof -
  have members: "group_members sample_groups ''group-1'' = [''n1'', ''n2'']" "group_members sample_groups ''group-2'' = [''n3'', ''n4'']"
    by code_simp+
  show "full_grid sample_groups (failed_cells sample_failures)"
    by (simp add: full_grid_def members sample_failures_def sample_cell_def failed_cells_def failed_statuses_def)
  have "split_on CHR '','' (cell sample_control ''unparticipated_nodes'' []) = [''n5'']" by code_simp
  then show "\<forall>r\<in>set (failed_cells sample_failures). \<forall>n\<in>set (group_members sample_groups (rs_group r)).
      n \<notin> set (split_on CHR '','' (cell sample_control ''unparticipated_nodes'' []))"
    by (simp add: members sample_failures_def sample_cell_def failed_cells_def failed_statuses_def)
  show "export_envelope (take 16) sample_dep ''runs/7'' sample_control no_alloc sample_groups = Some sample_envelope"
    by (simp add: sample_envelope_def export_envelope_def export_scale_def sample_control_def cell_def gpu_operation_def)
qed (simp_all add: sample_control_def cell_def gpu_operation_def once_per_item_def sample_failures_def)

theorem accepted_rerun_is_the_list_witness:
  "\<exists>out views. those (map view_entry (map JvObj (failed_entries sample_groups sample_failures))) = Some views
     \<and> length views = 2 \<and> runs_the_list ''ib-write-bw'' views out"
proof -
  let ?src = "\<lparr>sr_control = sample_control, sr_alloc = no_alloc\<rparr>"
  let ?file = "export_file sample_envelope (failed_entries sample_groups sample_failures)"
  obtain out where out: "rerun_plan (take 16) sample_dep (\<lambda>_. ?src) (Some ?file) ''ib-write-bw'' = Some (Accepted out)"
    using exported_list_exact [of "\<lambda>_. ?src" "''runs/7''" sample_control "''ib-write-bw''" sample_failures sample_groups
        "take 16" sample_dep no_alloc sample_envelope] sample_report_exports by auto
  obtain data entries views where d: "?file = JvObj data" "get_field data ''entries'' JvNull = JvList entries"
      "those (map view_entry entries) = Some views" "runs_the_list ''ib-write-bw'' views out"
    using accepted_rerun_is_the_list [OF out] by auto
  have "map_of sample_envelope ''entries'' = None" by code_simp
  then have "entries = map JvObj (failed_entries sample_groups sample_failures)"
    using d(1,2) by (auto simp: export_file_def get_field_def map_add_def)
  moreover have "length (failed_entries sample_groups sample_failures) = 2"
    by (simp add: failed_entries_def sample_failures_def sample_cell_def failed_statuses_def)
  ultimately show ?thesis using d(3,4) those_length [OF d(3)] by auto
qed



end
