(* ===== verification/FaultProbe.thy ===== *)
theory FaultProbe
  imports ProxyAlloc LogParser JsonTree "HOL-Library.Monad_Syntax"
begin

text \<open>
  What the pool proxy and its monitor learn from the nodes
  (\<^verbatim>\<open>launcher/fault_detection.py\<close>): the commands that are run, the parsers of
  their output, the fault a health log names, and the watch over the memory of the cards.  The
  answers to the commands are a function of the command line; floats are real numbers; the JSON
  decoder is a parameter.
\<close>

section \<open>Command lines\<close>

text \<open>\<^verbatim>\<open>shlex.quote\<close> and \<^verbatim>\<open>shlex.join\<close>.\<close>

definition shell_safe :: "char \<Rightarrow> bool" where
  "shell_safe c \<longleftrightarrow> is_word_char c \<or> c \<in> set ''@%+=:,./-''"

definition shlex_quote :: "string \<Rightarrow> string" where
  "shlex_quote s =
     (if s = [] then [CHR 0x27, CHR 0x27]
      else if list_all shell_safe s then s
      else [CHR 0x27] @ concat (map (\<lambda>c. if c = CHR 0x27 then [CHR 0x27, CHR 0x22, CHR 0x27, CHR 0x22, CHR 0x27] else [c]) s)
        @ [CHR 0x27])"

definition shlex_join :: "string list \<Rightarrow> string" where
  "shlex_join args = join_with '' '' (map shlex_quote args)"

text \<open>
  The surroundings: the environment variables, whether Slurm schedules the cluster, the clock as
  text, and the answer of \<^verbatim>\<open>execute_command\<close> to every command (exit code, output).
\<close>

record probe_env =
  pe_mode :: "string option"
  pe_docker_name :: "string option"
  pe_container_name :: "string option"
  pe_slurm :: bool
  pe_now :: string
  pe_run :: "string \<Rightarrow> int \<times> string"

text \<open>\<open>_run_nhc_command\<close>; None is ValueError.\<close>

definition run_nhc_command :: "probe_env \<Rightarrow> string option" where
  "run_nhc_command e =
     (let mode = py_lower (py_strip (case pe_mode e of None \<Rightarrow> ''host'' | Some s \<Rightarrow> s)) in
      if mode = ''host'' then Some ''run_nhc''
      else if mode = ''container'' then
        (let named = (case pe_docker_name e of None \<Rightarrow> [] | Some s \<Rightarrow> s);
             other = (case pe_container_name e of None \<Rightarrow> [] | Some s \<Rightarrow> s);
             name = py_strip (if named \<noteq> [] then named else if other \<noteq> [] then other else ''cluster-manager'') in
         if name = [] then None
         else Some (shlex_join [''docker'', ''exec'', ''-u'', ''root'', name, ''bash'', ''-lc'', ''run_nhc'']))
      else None)"

definition error_like :: "string list" where
  "error_like = [''error executing '', ''command not found'', ''no such file or directory'', ''permission denied'']"

text \<open>\<open>_run_clush\<close>: the output of a successful command that does not look like an error.\<close>

definition run_clush :: "probe_env \<Rightarrow> string \<Rightarrow> string option" where
  "run_clush e cmd =
     (case pe_run e cmd of
        (code, output) \<Rightarrow>
          if code \<noteq> 0 then None
          else if py_strip output \<noteq> [] \<and> list_ex (\<lambda>p. contains_sub p (py_lower (py_strip output))) error_like then None
          else Some output)"

section \<open>The verdicts of the health check\<close>

definition bar :: string where "bar = replicate 15 CHR ''-''"

text \<open>\<^verbatim>\<open>re.sub(r, "", s)\<close> for a pattern that matches at most once.\<close>

definition cut_match :: "rx \<Rightarrow> string \<Rightarrow> string" where
  "cut_match r s =
     (case rx_search r s of None \<Rightarrow> s
      | Some m \<Rightarrow> take (length (passed m) - length (cap_text 0 m)) s @ ahead m)"

definition count_rx :: rx where
  "count_rx = seqs [spaces, Txt ''('', digs, Txt '')'', AtEnd]"

definition node_expr_of :: "string \<Rightarrow> string" where
  "node_expr_of node_line = py_strip (cut_match count_rx node_line)"

definition counter_rx :: rx where
  "counter_rx = seqs [Txt ''Counter:'', spaces, Grp 1 digs]"

text \<open>The result and the counter of a block: its last lines of each kind.\<close>

definition block_line :: "string option \<times> nat option \<Rightarrow> string \<Rightarrow> string option \<times> nat option" where
  "block_line s line =
     (if is_prefix_of ''[CHECK RESULT]:'' line then (Some (py_strip (drop 15 line)), snd s)
      else if contains_sub ''Counter:'' line then
        (case rx_search counter_rx line of None \<Rightarrow> s | Some m \<Rightarrow> (fst s, Some (nat_of_digits (cap_text 1 m))))
      else s)"

definition read_block :: "string list \<Rightarrow> string option \<times> nat option" where
  "read_block block = foldl block_line (None, None) block"

definition wrong_packet_rx :: rx where
  "wrong_packet_rx = seqs [AtStart, Txt ''ib_wrong_packet_error'', plus (seqs [Txt ''[HCA'', digs, Txt '']'']), AtEnd]"

definition link_down_rx :: rx where
  "link_down_rx = seqs [AtStart, Txt ''ib_pcs_link_down[HCA'', digs, plus (Txt '']''), AtEnd]"

definition result_passes :: "string \<Rightarrow> nat option \<Rightarrow> bool" where
  "result_passes result counter \<longleftrightarrow>
     result = ''PASSED''
     \<or> result \<noteq> [] \<and>
       (contains_sub ''vpc_high_latency'' result \<or> contains_sub ''hcu_xid_1'' result
        \<or> rx_search wrong_packet_rx result \<noteq> None
        \<or> list_all (\<lambda>err. rx_match link_down_rx err \<noteq> None) (map py_strip (split_on CHR '','' result))
          \<and> (case counter of None \<Rightarrow> False | Some n \<Rightarrow> n < 20))"

definition block_passes :: "string list \<Rightarrow> bool" where
  "block_passes block =
     (case read_block block of (None, _) \<Rightarrow> False | (Some result, counter) \<Rightarrow> result_passes result counter)"

text \<open>\<open>parse_clush_output\<close>: the nodes of the blocks that pass.\<close>

function clush_blocks :: "string list \<Rightarrow> (string \<times> string list) list" where
  "clush_blocks [] = []"
| "clush_blocks (line # rest) =
     (if line \<noteq> bar then clush_blocks rest
      else
        (case rest of
           [] \<Rightarrow> []
         | node_line # rest1 \<Rightarrow>
             (let rest2 = (if rest1 \<noteq> [] \<and> hd rest1 = bar then tl rest1 else rest1) in
              (node_line, takeWhile (\<lambda>l. l \<noteq> bar) rest2) # clush_blocks (dropWhile (\<lambda>l. l \<noteq> bar) rest2))))"
  by pat_completeness auto
termination
proof (relation "measure length")
  fix line rest node_line rest1 rest2
  assume a: "rest = node_line # rest1" "rest2 = (if rest1 \<noteq> [] \<and> hd rest1 = bar then tl rest1 else rest1)"
  have "length (dropWhile (\<lambda>l. l \<noteq> bar) rest2) \<le> length rest2" by (rule length_dropWhile_le)
  also have "length rest2 \<le> length rest1" by (simp add: a(2))
  finally show "(dropWhile (\<lambda>l. l \<noteq> bar) rest2, line # rest) \<in> measure length" by (simp add: a(1))
qed auto

definition clean_lines :: "string \<Rightarrow> string list" where
  "clean_lines output = filter (\<lambda>l. l \<noteq> []) (map py_strip (py_splitlines output))"

definition parse_clush_output :: "string \<Rightarrow> string list" where
  "parse_clush_output output =
     concat (map (\<lambda>(node_line, block). if block_passes block then node_expr_parser (node_expr_of node_line) else [])
       (clush_blocks (clean_lines output)))"

text \<open>
  \<open>run_nhc\<close> on a host file: the command, its verdict on the nodes of the file, and whether it ran;
  None is ValueError.
\<close>

definition run_nhc_on :: "probe_env \<Rightarrow> string \<Rightarrow> string \<Rightarrow> (string list \<times> string list \<times> bool) option" where
  "run_nhc_on e path hosts =
     map_option (\<lambda>command.
       case pe_run e (''clush -f 1000 -b --hostfile '' @ shlex_quote path @ '' '' @ shlex_quote command) of
         (code, output) \<Rightarrow> run_nhc (code, parse_clush_output output) hosts)
       (run_nhc_command e)"

definition clush_nodes :: "probe_env \<Rightarrow> string \<Rightarrow> string option option" where
  "clush_nodes e nodes =
     map_option (\<lambda>command. run_clush e (''clush -f 1024 -b -w '' @ shlex_quote nodes @ '' '' @ shlex_quote command))
       (run_nhc_command e)"

text \<open>\<open>_run_nodes_nhc\<close>: None is ValueError, Some None no output.\<close>

definition run_nodes_nhc :: "probe_env \<Rightarrow> string list \<Rightarrow> string list option option" where
  "run_nodes_nhc e nodes =
     map_option (\<lambda>out. case out of None \<Rightarrow> None | Some s \<Rightarrow> if s = [] then None else Some (parse_clush_output s))
       (clush_nodes e (join_with '','' nodes))"

definition lines_with :: "string \<Rightarrow> string \<Rightarrow> string" where
  "lines_with mark s = join_with ('' '' @ [CHR 0x0A]) (filter (contains_sub mark) (py_splitlines s))"

text \<open>\<open>_run_nhc\<close> of one node: the result lines, nothing without output.\<close>

definition run_one_nhc :: "probe_env \<Rightarrow> string \<Rightarrow> string option option" where
  "run_one_nhc e node =
     map_option (\<lambda>out. case out of None \<Rightarrow> None | Some s \<Rightarrow> if s = [] then None else Some (lines_with ''[CHECK RESULT]'' s))
       (clush_nodes e node)"

definition run_scontrol :: "probe_env \<Rightarrow> string \<Rightarrow> string option" where
  "run_scontrol e node =
     (if \<not> pe_slurm e then Some []
      else case run_clush e (''scontrol show nodes '' @ node) of
        None \<Rightarrow> None
      | Some s \<Rightarrow> if s = [] then None else Some (lines_with ''Reason='' s))"

definition or_empty :: "string option \<Rightarrow> string" where
  "or_empty v = (case v of None \<Rightarrow> [] | Some s \<Rightarrow> s)"

definition mode_error :: string where
  "mode_error = ''RUN_NHC_EXEC_MODE must be host or container''"

definition name_error :: string where
  "name_error = ''DOCKER_CONTAINER_NAME or CONTAINER_NAME must be set when RUN_NHC_EXEC_MODE=container''"

definition command_error :: "probe_env \<Rightarrow> string" where
  "command_error e =
     (if py_lower (py_strip (case pe_mode e of None \<Rightarrow> ''host'' | Some s \<Rightarrow> s)) = ''container'' then name_error else mode_error)"

definition health_log :: "probe_env \<Rightarrow> string \<Rightarrow> string" where
  "health_log e node =
     (let nhc = (case run_one_nhc e node of None \<Rightarrow> ''[NHC ERROR]: '' @ command_error e | Some v \<Rightarrow> or_empty v) in
      ''>>>= '' @ [CHR 0x0A] @ pe_now e @ [CHR 0x0A] @ '' <<<='' @ [CHR 0x0A] @ nhc @ [CHR 0x0A] @ or_empty (run_scontrol e node))"

text \<open>\<open>run_nhc_nodes\<close>: the log of every node; a node named twice has one log.\<close>

definition run_nhc_nodes :: "probe_env \<Rightarrow> string list \<Rightarrow> (string \<times> string) list" where
  "run_nhc_nodes e nodes = foldl (\<lambda>d node. dict_update node (health_log e node) d) [] nodes"

definition get_success_nodes :: "probe_env \<Rightarrow> string list \<Rightarrow> string list" where
  "get_success_nodes e nodes =
     filter (\<lambda>node.
       case run_one_nhc e node of
         None \<Rightarrow> False
       | Some nhc \<Rightarrow>
           list_ex (\<lambda>l. contains_sub ''[CHECK RESULT]'' l \<and> contains_sub ''PASSED'' l) (py_splitlines (or_empty nhc))
           \<and> \<not> list_ex (contains_sub ''Reason='') (py_splitlines (or_empty (run_scontrol e node)))) nodes"

text \<open>\<open>check_sinfo_R\<close>: the drained nodes of the host file with their reasons.\<close>

definition check_sinfo_R :: "probe_env \<Rightarrow> string \<Rightarrow> (string \<rightharpoonup> string)" where
  "check_sinfo_R e hosts =
     (if \<not> pe_slurm e then (\<lambda>_. None)
      else case pe_run e (''sinfo -R -o '' @ [CHR 0x27] @ ''%50E %12U %19H %6t %N'' @ [CHR 0x27]) of
        (code, out) \<Rightarrow>
          if code \<noteq> 0 \<or> py_strip out = [] then (\<lambda>_. None) else match_failed_nodes (py_strip out) (read_hostfile hosts))"

section \<open>The fault a log names\<close>

definition bracketed :: rx where
  "bracketed = seqs [Txt ''['', Grp 1 (plus (Cls (\<lambda>c. c \<noteq> CHR '']''))), Txt '']'']"

definition xid_rx :: rx where
  "xid_rx = seqs [Txt ''hcu_xid_'', Grp 1 digs, Txt ''[HCU'', Grp 2 digs, Txt '']'']"

definition lose_rx :: rx where "lose_rx = seqs [Txt ''hcu_lose[HCU'', Grp 1 digs, Txt '']'']"

definition link_rx :: rx where "link_rx = Seq (Txt ''ib_pcs_link_down'') bracketed"

definition readreq_rx :: rx where "readreq_rx = Seq (Txt ''ib_maxreadreq_error'') bracketed"

definition port_rx :: rx where "port_rx = Seq (Txt ''ib_port_state_error'') bracketed"

definition storage_rx :: rx where
  "storage_rx = Seq (Txt ''storage_not_mount'') (plus (seqs [Txt ''['', Lazy any_char, Txt '']'']))"

definition host_part :: rx where
  "host_part = seqs [Grp 1 (plus (Cls (\<lambda>c. c \<noteq> CHR '':''))), Txt '':'', spaces]"

definition closed_rx :: rx where
  "closed_rx = seqs [host_part, Txt ''Connection closed by '', Star any_char]"

definition no_route_rx :: rx where
  "no_route_rx = seqs [host_part, Txt ''ssh: connect to host '', Star any_char, Txt '' No route to host'']"

definition latency_rx :: rx where
  "latency_rx = seqs [WordBound, Star (Cls (\<lambda>c. is_word_char c \<or> c = CHR ''-'')), Txt ''vpc_high_latency'', WordBound]"

definition type_number :: "fault_type \<Rightarrow> nat" where
  "type_number t = (case t of NETWORK \<Rightarrow> 1 | HCU \<Rightarrow> 2 | GRADIENT_INF \<Rightarrow> 3 | MANUAL \<Rightarrow> 4)"

definition plain_fault :: "fault_type \<Rightarrow> rx \<Rightarrow> string \<Rightarrow> fault_info list" where
  "plain_fault ty r s =
     (case rx_search r s of None \<Rightarrow> []
      | Some m \<Rightarrow> [\<lparr>fi_type = Some ty, fi_description = cap_text 0 m, fi_error_code = None, fi_gpu = None\<rparr>])"

definition xid_fault :: "string \<Rightarrow> fault_info list" where
  "xid_fault s =
     (case rx_search xid_rx s of None \<Rightarrow> []
      | Some m \<Rightarrow> [\<lparr>fi_type = Some HCU, fi_description = cap_text 0 m, fi_error_code = Some (cap_text 1 m),
                    fi_gpu = Some (int (nat_of_digits (cap_text 2 m)))\<rparr>])"

definition lose_fault :: "string \<Rightarrow> fault_info list" where
  "lose_fault s =
     (case rx_search lose_rx s of None \<Rightarrow> []
      | Some m \<Rightarrow> [\<lparr>fi_type = Some HCU, fi_description = cap_text 0 m, fi_error_code = None,
                    fi_gpu = Some (int (nat_of_digits (cap_text 1 m)))\<rparr>])"

definition latency_fault :: "string \<Rightarrow> fault_info list" where
  "latency_fault s =
     (if rx_search latency_rx s = None then []
      else [\<lparr>fi_type = Some NETWORK, fi_description = ''vpc_high_latency'', fi_error_code = None, fi_gpu = None\<rparr>])"

text \<open>The fault types are the numbers of the code: 3, given to storage and connections, is GRADIENT_INF.\<close>

definition fault_candidates :: "string \<Rightarrow> fault_info list" where
  "fault_candidates s =
     xid_fault s @ lose_fault s @ plain_fault NETWORK link_rx s @ plain_fault NETWORK readreq_rx s
     @ plain_fault NETWORK port_rx s @ plain_fault GRADIENT_INF storage_rx s @ plain_fault GRADIENT_INF closed_rx s
     @ plain_fault GRADIENT_INF no_route_rx s @ latency_fault s"

definition info_number :: "fault_info \<Rightarrow> nat" where
  "info_number f = (case fi_type f of None \<Rightarrow> 0 | Some t \<Rightarrow> type_number t)"

definition no_fault :: fault_info where
  "no_fault = \<lparr>fi_type = None, fi_description = [], fi_error_code = None, fi_gpu = None\<rparr>"

definition parse_fault_log :: "string \<Rightarrow> fault_info" where
  "parse_fault_log s =
     (case sort_key (\<lambda>f. - int (info_number f)) (fault_candidates s) of [] \<Rightarrow> no_fault | f # _ \<Rightarrow> f)"

section \<open>Memory, node and queue listings\<close>

record mem_info =
  mi_node :: string
  mi_mem :: "nat list"
  mi_swap :: "nat list"

definition gap_digits :: "nat \<Rightarrow> rx list" where
  "gap_digits n = concat (map (\<lambda>k. [spaces1, Grp k digs]) [1..<Suc n])"

definition mem_rx :: rx where
  "mem_rx = seqs ([AtStart, spaces, Txt ''Mem:''] @ gap_digits 6 @ [spaces, AtEnd])"

definition swap_rx :: rx where
  "swap_rx = seqs ([AtStart, spaces, Txt ''Swap:''] @ gap_digits 3 @ [spaces, AtEnd])"

definition captured_numbers :: "nat \<Rightarrow> spot \<Rightarrow> nat list" where
  "captured_numbers n m = map (\<lambda>k. nat_of_digits (cap_text k m)) [1..<Suc n]"

definition mem_line :: "nat list option \<times> nat list option \<Rightarrow> string \<Rightarrow> nat list option \<times> nat list option" where
  "mem_line s line =
     (case rx_match mem_rx line of
        Some m \<Rightarrow> (Some (captured_numbers 6 m), snd s)
      | None \<Rightarrow> (case rx_match swap_rx line of Some m \<Rightarrow> (fst s, Some (captured_numbers 3 m)) | None \<Rightarrow> s))"

definition mem_block :: "string \<Rightarrow> string list \<Rightarrow> mem_info list" where
  "mem_block node_line block =
     (case foldl mem_line (None, None) block of
        (Some mem, Some swap) \<Rightarrow> [\<lparr>mi_node = py_strip node_line, mi_mem = mem, mi_swap = swap\<rparr>]
      | _ \<Rightarrow> [])"

definition py_rstrip :: "string \<Rightarrow> string" where
  "py_rstrip s = rev (dropWhile is_ws (rev s))"

function mem_blocks :: "string list \<Rightarrow> mem_info list" where
  "mem_blocks [] = []"
| "mem_blocks (line # rest) =
     (if line \<noteq> bar \<or> length rest < 2 \<or> rest ! 1 \<noteq> bar then mem_blocks rest
      else mem_block (hd rest) (takeWhile (\<lambda>l. l \<noteq> bar) (drop 2 rest)) @ mem_blocks (dropWhile (\<lambda>l. l \<noteq> bar) (drop 2 rest)))"
  by pat_completeness auto
termination
proof (relation "measure length")
  fix line :: string and rest :: "string list"
  have "length (dropWhile (\<lambda>l. l \<noteq> bar) (drop 2 rest)) \<le> length (drop 2 rest)" by (rule length_dropWhile_le)
  then show "(dropWhile (\<lambda>l. l \<noteq> bar) (drop 2 rest), line # rest) \<in> measure length" by simp
qed auto

definition parse_mem_info :: "string \<Rightarrow> mem_info list" where
  "parse_mem_info output = mem_blocks (map py_rstrip (py_splitlines output))"

text \<open>\<^verbatim>\<open>re.split\<close> before every line that begins with \<^verbatim>\<open>NodeName=\<close>.\<close>

fun split_nodes :: "string \<Rightarrow> string \<Rightarrow> string list" where
  "split_nodes buf [] = [buf]"
| "split_nodes buf (c # s) =
     (if c = CHR 0x0A \<and> is_prefix_of ''NodeName='' s then buf # split_nodes [] s else split_nodes (buf @ [c]) s)"

definition node_name_rx :: rx where
  "node_name_rx = seqs [Txt ''NodeName='', Grp 1 (plus (Cls (\<lambda>c. \<not> is_ws c)))]"

definition reason_rx :: rx where "reason_rx = seqs [Txt ''Reason='', Grp 1 (Star any_char)]"

text \<open>The name and the reason of a block; a text for a missing reason is given.\<close>

definition node_reason :: "string \<Rightarrow> (string \<times> string) option" where
  "node_reason block =
     map_option (\<lambda>m. (cap_text 1 m, case rx_search reason_rx block of None \<Rightarrow> [] | Some r \<Rightarrow> py_strip (cap_text 1 r)))
       (rx_search node_name_rx block)"

definition node_reasons :: "string \<Rightarrow> (string \<times> string) list" where
  "node_reasons output = List.map_filter node_reason (split_nodes [] (py_strip output))"

definition parse_nodes_output :: "(string \<Rightarrow> string) \<Rightarrow> string \<Rightarrow> (string \<times> string) list" where
  "parse_nodes_output nothing output =
     map (\<lambda>(node, reason). (node, if reason = [] then nothing node else reason)) (if output = [] then [] else node_reasons output)"

definition check_nodes_output :: "string \<Rightarrow> string list" where
  "check_nodes_output output = map fst (filter (\<lambda>(node, reason). reason = []) (if output = [] then [] else node_reasons output))"

text \<open>\<open>check_squeue_nodes\<close>; None is ValueError.\<close>

definition index_of_word :: "string \<Rightarrow> string list \<Rightarrow> nat option" where
  "index_of_word w ws' = (let n = length (takeWhile (\<lambda>x. x \<noteq> w) ws') in if n < length ws' then Some n else None)"

definition squeue_total :: "nat \<Rightarrow> nat \<Rightarrow> string list \<Rightarrow> int" where
  "squeue_total nodes_at state_at rows =
     sum_list (map (\<lambda>row. let cols = py_words row in
       if length cols \<le> max nodes_at state_at then 0
       else case py_int (cols ! nodes_at) of None \<Rightarrow> 0 | Some n \<Rightarrow> n) rows)"

definition check_squeue_nodes :: "string \<Rightarrow> nat \<Rightarrow> bool option" where
  "check_squeue_nodes output threshold =
     (case clean_lines (py_strip output) of
        header # row # rows \<Rightarrow>
          (case (index_of_word ''NODES'' (py_words header), index_of_word ''ST'' (py_words header)) of
             (Some nodes_at, Some state_at) \<Rightarrow>
               if rows = [] then
                 (let cols = py_words row in
                  if length cols \<le> max nodes_at state_at then Some False
                  else map_option (\<lambda>n. cols ! state_at = ''R'' \<and> int threshold \<le> n) (py_int (cols ! nodes_at)))
               else Some (int threshold \<le> squeue_total nodes_at state_at (row # rows))
           | _ \<Rightarrow> Some False)
      | _ \<Rightarrow> Some False)"

text \<open>The node list is a text or a list; its length is taken as it comes.\<close>

definition check_nodes_in_squeue :: "probe_env \<Rightarrow> string + string list \<Rightarrow> bool option" where
  "check_nodes_in_squeue e nodes =
     (if \<not> pe_slurm e then Some False
      else
        (let names = (case nodes of Inl s \<Rightarrow> s | Inr l \<Rightarrow> join_with '','' l);
             n = (case nodes of Inl s \<Rightarrow> length s | Inr l \<Rightarrow> length l) in
         case run_clush e (''squeue --nodelist='' @ names) of
           None \<Rightarrow> Some False
         | Some out \<Rightarrow> if out = [] then Some False else check_squeue_nodes out n))"

section \<open>The metrics of the cards\<close>

record metrics =
  mt_vram :: real
  mt_power :: real
  mt_use :: real
  mt_available :: real

type_synonym node_cards = "(string \<times> metrics) list"

function fix_json_format :: "string \<Rightarrow> string" where
  "fix_json_format [] = []"
| "fix_json_format (c # s) =
     (if c = CHR 0x22 \<and> is_prefix_of [CHR 0x22] (dropWhile is_ws s)
      then [CHR 0x22, CHR '','', CHR '' '', CHR 0x22] @ fix_json_format (dropWhile is_ws (tl (dropWhile is_ws s)))
      else c # fix_json_format s)"
  by pat_completeness auto
termination
proof (relation "measure length")
  fix c :: char and s :: string
  have "length (dropWhile is_ws (tl (dropWhile is_ws s))) \<le> length (tl (dropWhile is_ws s))" by (rule length_dropWhile_le)
  also have "\<dots> \<le> length s" using length_dropWhile_le [of is_ws s] by simp
  finally show "(dropWhile is_ws (tl (dropWhile is_ws s)), c # s) \<in> measure length" by simp
qed auto

text \<open>\<^verbatim>\<open>float(v)\<close> of a JSON value; None is ValueError or TypeError.\<close>

definition jval_float :: "jval \<Rightarrow> py_float option" where
  "jval_float v = (case v of JvText s \<Rightarrow> py_float_of s | JvNum n \<Rightarrow> Some (Fin (of_int n))
     | JvBool b \<Rightarrow> Some (Fin (if b then 1 else 0)) | _ \<Rightarrow> None)"

definition finite_of :: "jval \<Rightarrow> real option" where
  "finite_of v = (case jval_float v of Some (Fin x) \<Rightarrow> Some x | _ \<Rightarrow> None)"

text \<open>The four numbers of a card; a card with a missing, damaged or infinite one is skipped.\<close>

definition card_metrics :: "fields \<Rightarrow> metrics option" where
  "card_metrics d =
     do {
       vram \<leftarrow> finite_of (get_field d ''HCU memory use (%)'' (JvText ''0''));
       power \<leftarrow> finite_of (get_field d ''Average Graphics Package Power (W)'' (JvText ''0''));
       used \<leftarrow> finite_of (get_field d ''HCU use (%)'' (JvText ''0''));
       available \<leftarrow> finite_of (get_field d ''Available memory size (MiB)'' (JvText ''0''));
       Some \<lparr>mt_vram = vram, mt_power = power, mt_use = used, mt_available = available\<rparr>
     }"

text \<open>The cards of a line; None is AttributeError (a value that is no object).\<close>

fun read_cards :: "fields \<Rightarrow> node_cards \<Rightarrow> node_cards option" where
  "read_cards [] d = Some d"
| "read_cards ((key, v) # rest) d =
     (case v of
        JvObj f \<Rightarrow> read_cards rest (case card_metrics f of None \<Rightarrow> d | Some m \<Rightarrow> dict_update key m d)
      | _ \<Rightarrow> None)"

definition node_prefix_rx :: rx where
  "node_prefix_rx = seqs [AtStart, Grp 1 (plus (Cls (\<lambda>c. \<not> is_ws c))), Txt '':'']"

definition hcu_line :: "(string \<Rightarrow> jval option) \<Rightarrow> string \<Rightarrow> (string \<times> node_cards) list \<Rightarrow> (string \<times> node_cards) list option" where
  "hcu_line loads raw data =
     (let line = py_strip raw in
      case rx_match node_prefix_rx line of
        None \<Rightarrow> Some data
      | Some m \<Rightarrow>
          (let node = cap_text 1 m; rest = py_strip (ahead m) in
           if rest = [] then Some data
           else case loads rest of
             None \<Rightarrow> Some data
           | Some (JvObj f) \<Rightarrow>
               map_option (\<lambda>cards. dict_update node cards data)
                 (read_cards f (case map_of data node of None \<Rightarrow> [] | Some cards \<Rightarrow> cards))
           | Some _ \<Rightarrow> None))"

fun hcu_lines :: "(string \<Rightarrow> jval option) \<Rightarrow> string list \<Rightarrow> (string \<times> node_cards) list \<Rightarrow> (string \<times> node_cards) list option" where
  "hcu_lines loads [] data = Some data"
| "hcu_lines loads (l # ls) data = (case hcu_line loads l data of None \<Rightarrow> None | Some d \<Rightarrow> hcu_lines loads ls d)"

definition parse_hcu_output :: "(string \<Rightarrow> jval option) \<Rightarrow> string \<Rightarrow> (string \<times> node_cards) list option" where
  "parse_hcu_output loads output = hcu_lines loads (py_splitlines (fix_json_format output)) []"

section \<open>The watch over the cards\<close>

text \<open>A \<^verbatim>\<open>deque(maxlen=30)\<close>.\<close>

definition window :: nat where "window = 30"

definition keep_last :: "nat \<Rightarrow> 'a list \<Rightarrow> 'a list" where
  "keep_last n xs = drop (length xs - n) xs"

definition push :: "real \<Rightarrow> real list \<Rightarrow> real list" where
  "push x h = keep_last window (h @ [x])"

definition mean :: "real list \<Rightarrow> real" where
  "mean xs = sum_list xs / real (length xs)"

definition pstdev :: "real list \<Rightarrow> real" where
  "pstdev xs = sqrt (sum_list (map (\<lambda>x. (x - mean xs) ^ 2) xs) / real (length xs))"

definition stdev :: "real list \<Rightarrow> real" where
  "stdev xs = sqrt (sum_list (map (\<lambda>x. (x - mean xs) ^ 2) xs) / real (length xs - 1))"

definition calc_slope :: "real list \<Rightarrow> real" where
  "calc_slope ys =
     (let n = length ys; x_mean = (real n - 1) / 2; y_mean = mean ys;
          numerator = sum_list (map (\<lambda>i. (real i - x_mean) * (ys ! i - y_mean)) [0..<n]);
          denominator = sum_list (map (\<lambda>i. (real i - x_mean) ^ 2) [0..<n]) in
      if n < 2 then 0 else if denominator = 0 then 0 else numerator / denominator)"

definition is_stable :: "real list \<Rightarrow> bool" where
  "is_stable xs \<longleftrightarrow> 2 \<le> length xs \<and> (mean xs = 0 \<or> pstdev xs / mean xs < 5 / 100)"

text \<open>What is remembered of a card between two rounds.\<close>

record card_state =
  cs_vram :: "real list"
  cs_use :: "real list"
  cs_power :: "real list"

definition fresh_card :: card_state where
  "fresh_card = \<lparr>cs_vram = [], cs_use = [], cs_power = []\<rparr>"

type_synonym watch_state = "string \<times> string \<Rightarrow> card_state option"

definition state_of_card :: "watch_state \<Rightarrow> string \<times> string \<Rightarrow> card_state" where
  "state_of_card st key = (case st key of None \<Rightarrow> fresh_card | Some c \<Rightarrow> c)"

datatype anomaly_kind = MemLeak | SingleCardOom | AllCardOom | Imbalance | ImbalanceWarn | Hang

record anomaly =
  an_node :: string
  an_card :: "string option"
  an_kind :: anomaly_kind

definition card_usage :: "metrics \<Rightarrow> real" where
  "card_usage m = (if 0 < mt_available m then mt_vram m / mt_available m else 0)"

definition leaks :: "real list \<Rightarrow> bool" where
  "leaks history \<longleftrightarrow>
     length history = window \<and> calc_slope history / max (mean history) 1 > 1 / 100
     \<and> pstdev history / max (mean history) 1 < 1 / 10"

text \<open>One card of \<open>analyze_node_cards\<close>: its reading is appended to the remembered history.\<close>

definition analyze_card :: "string \<Rightarrow> string \<times> metrics \<Rightarrow> watch_state \<times> anomaly list \<Rightarrow> watch_state \<times> anomaly list" where
  "analyze_card node cm s =
     (case (cm, s) of
        ((name, m), (st, found)) \<Rightarrow>
          (let old = state_of_card st (node, name); history = push (mt_vram m) (cs_vram old) in
           (st((node, name) \<mapsto> old \<lparr>cs_vram := history\<rparr>),
            found @ (if leaks history then [\<lparr>an_node = node, an_card = Some name, an_kind = MemLeak\<rparr>] else [])
              @ (if 95 / 100 < card_usage m then [\<lparr>an_node = node, an_card = Some name, an_kind = SingleCardOom\<rparr>] else []))))"

definition node_anomalies :: "string \<Rightarrow> real list \<Rightarrow> anomaly list" where
  "node_anomalies node usages =
     (if usages = [] then []
      else
        (let most = Max (set usages); least = Min (set usages) in
         (if 95 / 100 < least then [\<lparr>an_node = node, an_card = None, an_kind = AllCardOom\<rparr>] else [])
         @ (if 95 / 100 < most \<and> least < 8 / 10 then [\<lparr>an_node = node, an_card = None, an_kind = Imbalance\<rparr>] else [])
         @ (if 1 < length usages \<and> 15 / 100 < stdev usages then [\<lparr>an_node = node, an_card = None, an_kind = ImbalanceWarn\<rparr>] else [])))"

definition analyze_node_cards :: "string \<Rightarrow> node_cards \<Rightarrow> watch_state \<times> anomaly list \<Rightarrow> watch_state \<times> anomaly list" where
  "analyze_node_cards node cards s =
     (case fold (analyze_card node) cards s of
        (st, found) \<Rightarrow> (st, found @ node_anomalies node (map (card_usage \<circ> snd) cards)))"

definition hangs :: "card_state \<Rightarrow> bool" where
  "hangs c \<longleftrightarrow>
     length (cs_vram c) = window \<and> length (cs_use c) = window \<and> length (cs_power c) = window
     \<and> is_stable (cs_vram c) \<and> is_stable (cs_use c) \<and> is_stable (cs_power c) \<and> mean (cs_use c) < 5"

record watch_round =
  wr_old :: watch_state
  wr_new :: watch_state
  wr_found :: "anomaly list"
  wr_unhealthy :: "(string \<times> string list) list"

text \<open>
  The second pass over a card.  The histories are shared objects: the VRAM history it appends to is
  the one \<open>analyze_node_cards\<close> has just extended, so every reading is in it twice.
\<close>

definition update_card :: "string \<Rightarrow> string \<times> metrics \<Rightarrow> watch_round \<Rightarrow> watch_round" where
  "update_card node cm r =
     (case cm of
        (name, m) \<Rightarrow>
          (let prev = state_of_card (wr_old r) (node, name);
               next = \<lparr>cs_vram = push (mt_vram m) (cs_vram prev), cs_use = push (mt_use m) (cs_use prev),
                       cs_power = push (mt_power m) (cs_power prev)\<rparr> in
           \<lparr>wr_old = wr_old r, wr_new = (wr_new r)((node, name) \<mapsto> next),
            wr_found = (if hangs next then wr_found r @ [\<lparr>an_node = node, an_card = Some name, an_kind = Hang\<rparr>] else wr_found r),
            wr_unhealthy = (if hangs next
              then dict_update node ((case map_of (wr_unhealthy r) node of None \<Rightarrow> [] | Some l \<Rightarrow> l) @ [name]) (wr_unhealthy r)
              else wr_unhealthy r)\<rparr>))"

definition update_node :: "string \<times> node_cards \<Rightarrow> watch_round \<Rightarrow> watch_round" where
  "update_node nc r =
     (case nc of
        (node, cards) \<Rightarrow>
          (case analyze_node_cards node cards (wr_old r, wr_found r) of
             (st, found) \<Rightarrow> fold (update_card node) cards (r \<lparr>wr_old := st, wr_found := found\<rparr>)))"

text \<open>\<open>_update_state_and_detect\<close>: the new state, the unhealthy cards and the anomalies.\<close>

definition update_state_and_detect ::
    "watch_state \<Rightarrow> (string \<times> node_cards) list \<Rightarrow> watch_state \<times> (string \<times> string list) list \<times> anomaly list" where
  "update_state_and_detect st data =
     (let r = fold update_node data \<lparr>wr_old = st, wr_new = (\<lambda>_. None), wr_found = [], wr_unhealthy = []\<rparr> in
      (wr_new r, wr_unhealthy r, wr_found r))"

text \<open>
  \<open>check_hcu_info\<close>: without output nothing happens; with output it calls a method the class does
  not have.
\<close>

datatype probe_error = NoAttribute string

definition check_hcu_info :: "string option \<Rightarrow> watch_state \<Rightarrow> probe_error + watch_state" where
  "check_hcu_info output st = (case output of None \<Rightarrow> Inr st | Some s \<Rightarrow> Inl (NoAttribute ''_save_log''))"

section \<open>Windows and their statistics\<close>

definition doubled :: "real list \<Rightarrow> real list" where
  "doubled xs = concat (map (\<lambda>x. [x, x]) xs)"

lemma keep_last_append: "keep_last n (keep_last n xs @ [x]) = keep_last n (xs @ [x])"
  by (cases "n \<le> length xs"; cases "n = 0") (auto simp: keep_last_def not_le Suc_diff_le)

lemma push_keep_last: "push x (keep_last window xs) = keep_last window (xs @ [x])"
  by (simp add: push_def keep_last_append)

lemma length_keep_last: "length (keep_last n xs) = min n (length xs)"
  by (simp add: keep_last_def)

lemma length_doubled: "length (doubled xs) = 2 * length xs"
  by (induction xs) (simp_all add: doubled_def)

lemma doubled_append: "doubled (xs @ ys) = doubled xs @ doubled ys"
  by (simp add: doubled_def)

lemma drop_doubled: "drop (2 * k) (doubled xs) = doubled (drop k xs)"
proof (induction xs arbitrary: k)
  case (Cons x xs)
  then show ?case by (cases k) (simp_all add: doubled_def)
qed (simp add: doubled_def)

lemma keep_last_doubled: "keep_last (2 * n) (doubled xs) = doubled (keep_last n xs)"
  by (simp add: keep_last_def length_doubled drop_doubled flip: diff_mult_distrib2)

lemma sum_list_doubled: "sum_list (map f (doubled xs)) = 2 * (\<Sum>x\<leftarrow>xs. f x)" for f :: "real \<Rightarrow> real"
  by (induction xs) (simp_all add: doubled_def)

lemma mean_doubled: "mean (doubled xs) = mean xs"
  using sum_list_doubled [of "\<lambda>x. x" xs] by (simp add: mean_def length_doubled)

lemma pstdev_doubled: "pstdev (doubled xs) = pstdev xs"
  by (simp add: pstdev_def mean_doubled sum_list_doubled length_doubled)

lemma is_stable_doubled: "2 \<le> length xs \<Longrightarrow> is_stable (doubled xs) = is_stable xs"
  by (simp add: is_stable_def mean_doubled pstdev_doubled length_doubled)

section \<open>One round of the watch\<close>

definition reading :: "(string \<times> node_cards) list \<Rightarrow> string \<Rightarrow> string \<Rightarrow> metrics option" where
  "reading data node name = (case map_of data node of None \<Rightarrow> None | Some cards \<Rightarrow> map_of cards name)"

definition wf_data :: "(string \<times> node_cards) list \<Rightarrow> bool" where
  "wf_data data \<longleftrightarrow> distinct (map fst data) \<and> (\<forall>nc\<in>set data. distinct (map fst (snd nc)))"

definition hang_of :: "string \<Rightarrow> string \<Rightarrow> anomaly" where
  "hang_of node name = \<lparr>an_node = node, an_card = Some name, an_kind = Hang\<rparr>"

lemma analyze_cards_state:
  assumes "distinct (map fst cards)"
  shows "fst (fold (analyze_card node) cards (st, found)) key =
    (if fst key = node \<and> map_of cards (snd key) \<noteq> None
     then Some ((state_of_card st key) \<lparr>cs_vram := push (mt_vram (the (map_of cards (snd key)))) (cs_vram (state_of_card st key))\<rparr>)
     else st key)"
  using assms
proof (induction cards arbitrary: st found)
  case (Cons cm cards)
  obtain name m where cm: "cm = (name, m)" by (cases cm)
  obtain st1 found1 where s1: "analyze_card node cm (st, found) = (st1, found1)" by (cases "analyze_card node cm (st, found)")
  have st1: "st1 = st((node, name) \<mapsto> (state_of_card st (node, name)) \<lparr>cs_vram := push (mt_vram m) (cs_vram (state_of_card st (node, name)))\<rparr>)"
    using s1 by (simp add: analyze_card_def cm Let_def)
  have new: "map_of cards name = None" using Cons.prems by (simp add: cm map_of_eq_None_iff)
  have "fst (fold (analyze_card node) (cm # cards) (st, found)) key = fst (fold (analyze_card node) cards (st1, found1)) key"
    by (simp add: s1)
  also have "\<dots> = (if fst key = node \<and> map_of cards (snd key) \<noteq> None
     then Some ((state_of_card st1 key) \<lparr>cs_vram := push (mt_vram (the (map_of cards (snd key)))) (cs_vram (state_of_card st1 key))\<rparr>)
     else st1 key)"
    by (rule Cons.IH) (use Cons.prems in simp)
  also have "\<dots> = (if fst key = node \<and> map_of (cm # cards) (snd key) \<noteq> None
     then Some ((state_of_card st key) \<lparr>cs_vram := push (mt_vram (the (map_of (cm # cards) (snd key)))) (cs_vram (state_of_card st key))\<rparr>)
     else st key)"
  proof -
    have "state_of_card st1 key = state_of_card st key" if "snd key \<noteq> name"
      using that by (cases key) (simp add: st1 state_of_card_def)
    then show ?thesis using new by (cases key) (auto simp: st1 cm)
  qed
  finally show ?case .
qed simp

lemma analyze_cards_no_hang:
  "hang_of n c \<in> set (snd (fold (analyze_card node) cards (st, found))) \<longleftrightarrow> hang_of n c \<in> set found"
proof (induction cards arbitrary: st found)
  case (Cons cm cards)
  obtain st1 found1 where s1: "analyze_card node cm (st, found) = (st1, found1)" by (cases "analyze_card node cm (st, found)")
  have "hang_of n c \<in> set found1 \<longleftrightarrow> hang_of n c \<in> set found"
    using s1 by (cases cm) (auto simp: analyze_card_def Let_def hang_of_def)
  then show ?case using Cons.IH by (simp add: s1)
qed simp

lemma analyze_node_no_hang:
  "hang_of n c \<in> set (snd (analyze_node_cards node cards (st, found))) \<longleftrightarrow> hang_of n c \<in> set found"
proof -
  obtain st1 found1 where s1: "fold (analyze_card node) cards (st, found) = (st1, found1)"
    by (cases "fold (analyze_card node) cards (st, found)")
  have "hang_of n c \<notin> set (node_anomalies node us)" for us by (simp add: node_anomalies_def hang_of_def Let_def)
  then show ?thesis using analyze_cards_no_hang [of n c node cards st found] by (simp add: analyze_node_cards_def s1)
qed

text \<open>What the second pass makes of a card.\<close>

definition next_card :: "metrics \<Rightarrow> card_state \<Rightarrow> card_state" where
  "next_card m prev = \<lparr>cs_vram = push (mt_vram m) (cs_vram prev), cs_use = push (mt_use m) (cs_use prev),
     cs_power = push (mt_power m) (cs_power prev)\<rparr>"

lemma update_card_fields:
  "wr_old (update_card node (name, m) r) = wr_old r"
  "wr_new (update_card node (name, m) r) = (wr_new r)((node, name) \<mapsto> next_card m (state_of_card (wr_old r) (node, name)))"
  "hang_of n c \<in> set (wr_found (update_card node (name, m) r)) \<longleftrightarrow> hang_of n c \<in> set (wr_found r)
     \<or> n = node \<and> c = name \<and> hangs (next_card m (state_of_card (wr_old r) (node, name)))"
  by (auto simp: update_card_def Let_def next_card_def hang_of_def)

lemma update_cards_old: "wr_old (fold (update_card node) cards r) = wr_old r"
  by (induction cards arbitrary: r) (auto simp: update_card_fields)

lemma update_cards_new:
  assumes "distinct (map fst cards)"
  shows "wr_new (fold (update_card node) cards r) (n, c) =
      (if n = node \<and> map_of cards c \<noteq> None
       then Some (next_card (the (map_of cards c)) (state_of_card (wr_old r) (n, c))) else wr_new r (n, c))"
  using assms
proof (induction cards arbitrary: r)
  case (Cons cm cards)
  obtain name m where cm: "cm = (name, m)" by (cases cm)
  have new: "map_of cards name = None" using Cons.prems by (simp add: cm map_of_eq_None_iff)
  have d: "distinct (map fst cards)" using Cons.prems by simp
  show ?case
    using Cons.IH [OF d, of "update_card node cm r"] new
    by (cases "c = name"; cases "map_of cards c") (simp_all add: cm update_card_fields)
qed simp

lemma update_cards_hang:
  assumes "distinct (map fst cards)"
  shows "hang_of n c \<in> set (wr_found (fold (update_card node) cards r)) \<longleftrightarrow>
       hang_of n c \<in> set (wr_found r) \<or> n = node \<and> (\<exists>m. map_of cards c = Some m \<and> hangs (next_card m (state_of_card (wr_old r) (node, c))))"
  using assms
proof (induction cards arbitrary: r)
  case (Cons cm cards)
  obtain name m where cm: "cm = (name, m)" by (cases cm)
  have new: "map_of cards name = None" using Cons.prems by (simp add: cm map_of_eq_None_iff)
  have d: "distinct (map fst cards)" using Cons.prems by simp
  show ?case
    using Cons.IH [OF d, of "update_card node cm r"] new by (cases "c = name") (simp_all add: cm update_card_fields)
qed simp

text \<open>One node: its cards get their next states, nothing else changes.\<close>

lemma update_node_fields:
  fixes r :: watch_round and node :: string and cards :: node_cards
  assumes "distinct (map fst cards)"
  defines "r1 \<equiv> update_node (node, cards) r"
  shows "wr_new r1 (n, c) =
      (case (if n = node then map_of cards c else None) of
         None \<Rightarrow> wr_new r (n, c)
       | Some m \<Rightarrow> (let old = state_of_card (wr_old r) (n, c) in Some (next_card m (old \<lparr>cs_vram := push (mt_vram m) (cs_vram old)\<rparr>))))"
    and "n \<noteq> node \<Longrightarrow> wr_old r1 (n, c) = wr_old r (n, c)"
    and "hang_of n c \<in> set (wr_found r1) \<longleftrightarrow> hang_of n c \<in> set (wr_found r) \<or>
      (\<exists>m. (if n = node then map_of cards c else None) = Some m
        \<and> (let old = state_of_card (wr_old r) (n, c) in hangs (next_card m (old \<lparr>cs_vram := push (mt_vram m) (cs_vram old)\<rparr>))))"
proof -
  obtain st found where s: "analyze_node_cards node cards (wr_old r, wr_found r) = (st, found)"
    by (cases "analyze_node_cards node cards (wr_old r, wr_found r)")
  have st: "st key = (if fst key = node \<and> map_of cards (snd key) \<noteq> None
     then Some ((state_of_card (wr_old r) key) \<lparr>cs_vram := push (mt_vram (the (map_of cards (snd key)))) (cs_vram (state_of_card (wr_old r) key))\<rparr>)
     else wr_old r key)" for key
    using analyze_cards_state [OF assms(1), of node "wr_old r" "wr_found r" key] s
    by (cases "map_of cards (snd key)") (auto simp: analyze_node_cards_def split: prod.splits)
  have found: "hang_of n c \<in> set found \<longleftrightarrow> hang_of n c \<in> set (wr_found r)"
    using analyze_node_no_hang [of n c node cards "wr_old r" "wr_found r"] by (simp add: s)
  have r1: "r1 = fold (update_card node) cards (r \<lparr>wr_old := st, wr_found := found\<rparr>)"
    by (simp add: r1_def update_node_def s)
  have now: "state_of_card st (node, c) = (state_of_card (wr_old r) (node, c)) \<lparr>cs_vram := push (mt_vram m) (cs_vram (state_of_card (wr_old r) (node, c)))\<rparr>"
    if "map_of cards c = Some m" for c m
    using that by (simp add: state_of_card_def [of st] st)
  show "wr_new r1 (n, c) =
      (case (if n = node then map_of cards c else None) of
         None \<Rightarrow> wr_new r (n, c)
       | Some m \<Rightarrow> (let old = state_of_card (wr_old r) (n, c) in Some (next_card m (old \<lparr>cs_vram := push (mt_vram m) (cs_vram old)\<rparr>))))"
    unfolding r1 update_cards_new [OF assms(1)] by (auto simp: now Let_def split: option.split)
  show "n \<noteq> node \<Longrightarrow> wr_old r1 (n, c) = wr_old r (n, c)"
    by (simp add: r1 update_cards_old st)
  show "hang_of n c \<in> set (wr_found r1) \<longleftrightarrow> hang_of n c \<in> set (wr_found r) \<or>
      (\<exists>m. (if n = node then map_of cards c else None) = Some m
        \<and> (let old = state_of_card (wr_old r) (n, c) in hangs (next_card m (old \<lparr>cs_vram := push (mt_vram m) (cs_vram old)\<rparr>))))"
    unfolding r1 update_cards_hang [OF assms(1)] by (auto simp: now found Let_def split: if_splits)
qed

lemma update_nodes:
  fixes r :: watch_round and data :: "(string \<times> node_cards) list"
  assumes "wf_data data"
  defines "r1 \<equiv> fold update_node data r"
  shows "wr_new r1 (n, c) =
      (case reading data n c of
         None \<Rightarrow> wr_new r (n, c)
       | Some m \<Rightarrow> (let old = state_of_card (wr_old r) (n, c) in Some (next_card m (old \<lparr>cs_vram := push (mt_vram m) (cs_vram old)\<rparr>))))"
    and "hang_of n c \<in> set (wr_found r1) \<longleftrightarrow> hang_of n c \<in> set (wr_found r) \<or>
      (\<exists>m. reading data n c = Some m
        \<and> (let old = state_of_card (wr_old r) (n, c) in hangs (next_card m (old \<lparr>cs_vram := push (mt_vram m) (cs_vram old)\<rparr>))))"
  unfolding r1_def using assms(1)
proof (induction data arbitrary: r)
  case Nil
  { case 1 show ?case by (simp add: reading_def) }
  { case 2 show ?case by (simp add: reading_def) }
next
  case (Cons nc data)
  obtain node cards where nc: "nc = (node, cards)" by (cases nc)
  { case (1 r)
    define r1 where "r1 = update_node (node, cards) r"
    from 1 have d: "distinct (map fst cards)" "wf_data data" "map_of data node = None"
      by (auto simp: wf_data_def nc map_of_eq_None_iff)
    show ?case
    proof (cases "n = node")
      case True
      then have rd: "reading data n c = None" "reading (nc # data) n c = map_of cards c" using d(3) by (simp_all add: reading_def nc)
      have first: "wr_new (fold update_node (nc # data) r) (n, c) = wr_new r1 (n, c)"
        using Cons.IH(1) [OF d(2), of r1] rd(1) by (simp add: nc r1_def)
      show ?thesis unfolding first rd(2) using update_node_fields(1) [OF d(1), of node r n c] True
        by (simp add: r1_def)
    next
      case False
      have "reading (nc # data) n c = reading data n c" using False by (simp add: reading_def nc)
      moreover have "state_of_card (wr_old r1) (n, c) = state_of_card (wr_old r) (n, c)"
        using update_node_fields(2) [OF d(1) False] by (simp add: r1_def state_of_card_def)
      moreover have "wr_new r1 (n, c) = wr_new r (n, c)" using update_node_fields(1) [OF d(1), of node r n c] False by (simp add: r1_def)
      ultimately show ?thesis using Cons.IH(1) [OF d(2), of r1] by (simp add: nc r1_def [symmetric] cong: option.case_cong)
    qed }
  { case (2 r)
    define r1 where "r1 = update_node (node, cards) r"
    from 2 have d: "distinct (map fst cards)" "wf_data data" "map_of data node = None"
      by (auto simp: wf_data_def nc map_of_eq_None_iff)
    show ?case
    proof (cases "n = node")
      case True
      then have rd: "reading data n c = None" "reading (nc # data) n c = map_of cards c" using d(3) by (simp_all add: reading_def nc)
      have first: "hang_of n c \<in> set (wr_found (fold update_node (nc # data) r)) \<longleftrightarrow> hang_of n c \<in> set (wr_found r1)"
        using Cons.IH(2) [OF d(2), of r1] rd(1) by (simp add: nc r1_def)
      show ?thesis unfolding first rd(2) using update_node_fields(3) [OF d(1), of n c node r] True
        by (simp add: r1_def)
    next
      case False
      have "reading (nc # data) n c = reading data n c" using False by (simp add: reading_def nc)
      moreover have "state_of_card (wr_old r1) (n, c) = state_of_card (wr_old r) (n, c)"
        using update_node_fields(2) [OF d(1) False] by (simp add: r1_def state_of_card_def)
      moreover have "hang_of n c \<in> set (wr_found r1) \<longleftrightarrow> hang_of n c \<in> set (wr_found r)"
        using update_node_fields(3) [OF d(1), of n c node r] False by (simp add: r1_def)
      ultimately show ?thesis using Cons.IH(2) [OF d(2), of r1] by (simp add: nc r1_def [symmetric])
    qed }
qed

section \<open>The watch over many rounds\<close>

definition watch :: "(string \<times> node_cards) list list \<Rightarrow> watch_state" where
  "watch rounds = foldl (\<lambda>st data. fst (update_state_and_detect st data)) (\<lambda>_. None) rounds"

definition twice :: "metrics \<Rightarrow> card_state \<Rightarrow> card_state" where
  "twice m old = next_card m (old \<lparr>cs_vram := push (mt_vram m) (cs_vram old)\<rparr>)"

lemma detect_state:
  "wf_data data \<Longrightarrow> fst (update_state_and_detect st data) (n, c) = map_option (\<lambda>m. twice m (state_of_card st (n, c))) (reading data n c)"
  by (cases "reading data n c") (simp_all add: update_state_and_detect_def update_nodes(1) twice_def Let_def)

lemma detect_hang:
  "wf_data data \<Longrightarrow> hang_of n c \<in> set (snd (snd (update_state_and_detect st data)))
     \<longleftrightarrow> (\<exists>m. reading data n c = Some m \<and> hangs (twice m (state_of_card st (n, c))))"
  by (simp add: update_state_and_detect_def update_nodes(2) twice_def Let_def)

text \<open>The state of a card that was read in every round so far.\<close>

definition recorded :: "metrics list \<Rightarrow> card_state" where
  "recorded ms = \<lparr>cs_vram = keep_last window (doubled (map mt_vram ms)), cs_use = keep_last window (map mt_use ms),
     cs_power = keep_last window (map mt_power ms)\<rparr>"

lemma twice_recorded: "twice m (recorded ms) = recorded (ms @ [m])"
  by (simp add: twice_def next_card_def recorded_def push_keep_last doubled_append) (simp add: doubled_def)

lemma recorded_Nil: "recorded [] = fresh_card"
  by (simp add: recorded_def fresh_card_def keep_last_def doubled_def)

lemma watch_snoc: "watch (rounds @ [data]) = fst (update_state_and_detect (watch rounds) data)"
  by (simp add: watch_def)

lemma watch_recorded:
  assumes "\<forall>data\<in>set rounds. wf_data data" and "map (\<lambda>data. reading data n c) rounds = map Some ms"
  shows "state_of_card (watch rounds) (n, c) = recorded ms"
  using assms
proof (induction rounds arbitrary: ms rule: rev_induct)
  case Nil
  then show ?case by (simp add: watch_def state_of_card_def recorded_Nil)
next
  case (snoc data rounds)
  then obtain ms' m where ms: "ms = ms' @ [m]" by (cases ms rule: rev_cases) auto
  then have "state_of_card (watch rounds) (n, c) = recorded ms'" using snoc by auto
  moreover have "reading data n c = Some m" "wf_data data" using snoc.prems ms by auto
  ultimately show ?case by (simp add: watch_snoc state_of_card_def [of "fst _"] detect_state ms twice_recorded)
qed

lemma hangs_recorded:
  "hangs (recorded ms) \<longleftrightarrow> 30 \<le> length ms \<and> is_stable (keep_last 15 (map mt_vram ms))
     \<and> is_stable (keep_last 30 (map mt_use ms)) \<and> is_stable (keep_last 30 (map mt_power ms))
     \<and> mean (keep_last 30 (map mt_use ms)) < 5"
proof -
  have vram: "keep_last 30 (doubled (map mt_vram ms)) = doubled (keep_last 15 (map mt_vram ms))"
    using keep_last_doubled [of 15] by simp
  have "is_stable (doubled (keep_last 15 (map mt_vram ms))) = is_stable (keep_last 15 (map mt_vram ms))" if "30 \<le> length ms"
    by (rule is_stable_doubled) (use that in \<open>simp add: length_keep_last\<close>)
  then show ?thesis
    by (auto simp: hangs_def recorded_def vram length_doubled length_keep_last window_def)
qed

lemma hang_watch:
  assumes "\<forall>data\<in>set (rounds @ [data]). wf_data data"
    and "map (\<lambda>data. reading data n c) (rounds @ [data]) = map Some ms"
  shows "hang_of n c \<in> set (snd (snd (update_state_and_detect (watch rounds) data))) \<longleftrightarrow> hangs (recorded ms)"
proof -
  obtain ms' m where ms: "ms = ms' @ [m]" using assms(2) by (cases ms rule: rev_cases) auto
  then have "state_of_card (watch rounds) (n, c) = recorded ms'" using assms by (intro watch_recorded) auto
  moreover have "reading data n c = Some m" "wf_data data" using assms ms by auto
  ultimately show ?thesis by (simp add: detect_hang ms twice_recorded)
qed

section \<open>The slope is the one of least squares\<close>

definition squared_error :: "real list \<Rightarrow> real \<Rightarrow> real \<Rightarrow> real" where
  "squared_error ys a b = (\<Sum>i<length ys. (ys ! i - (a + b * real i)) ^ 2)"

lemma sum_list_upt: "sum_list (map f [0..<n]) = (\<Sum>i<n. f i)" for f :: "nat \<Rightarrow> real"
  by (simp add: interv_sum_list_conv_sum_set_nat atLeast0LessThan)

lemma slope_least_squares:
  fixes ys :: "real list"
  assumes "2 \<le> length ys"
  defines "n \<equiv> length ys" and "x \<equiv> \<lambda>i. real i - (real (length ys) - 1) / 2" and "y \<equiv> \<lambda>i. ys ! i - mean ys"
  shows "squared_error ys (mean ys - calc_slope ys * ((real n - 1) / 2)) (calc_slope ys) \<le> squared_error ys a b"
proof -
  define S where "S = (\<Sum>i<n. x i ^ 2)"
  define T where "T = (\<Sum>i<n. x i * y i)"
  have x0: "(\<Sum>i<n. x i) = 0"
  proof -
    have "(\<Sum>i<k. real i) = real k * (real k - 1) / 2" for k by (induction k) (auto simp: field_simps)
    then show ?thesis by (simp add: x_def sum_subtractf n_def)
  qed
  have y0: "(\<Sum>i<n. y i) = 0"
  proof -
    have "(\<Sum>i<n. ys ! i) = sum_list ys" unfolding n_def by (simp add: sum_list_sum_nth atLeast0LessThan)
    then show ?thesis using assms(1) by (simp add: y_def sum_subtractf mean_def n_def)
  qed
  have S: "0 < S"
  proof -
    have "0 < x 0 ^ 2" using assms(1) by (simp add: x_def)
    moreover have "x 0 ^ 2 \<le> S" unfolding S_def by (rule member_le_sum) (use assms(1) in \<open>auto simp: n_def\<close>)
    ultimately show ?thesis by linarith
  qed
  have slope: "calc_slope ys = T / S"
    using assms(1) S by (simp add: calc_slope_def Let_def sum_list_upt S_def T_def x_def y_def n_def)
  have square: "(q - b * p + e) ^ 2 = q ^ 2 - 2 * b * (p * q) + b ^ 2 * p ^ 2 + 2 * e * q - 2 * e * b * p + e ^ 2" for q b p e :: real
    by (simp add: power2_eq_square algebra_simps)
  have err: "squared_error ys a b = (\<Sum>i<n. y i ^ 2) - 2 * b * T + b ^ 2 * S + real n * (mean ys - a - b * ((real n - 1) / 2)) ^ 2" for a b
  proof -
    let ?d = "mean ys - a - b * ((real n - 1) / 2)"
    have "squared_error ys a b = (\<Sum>i<n. (y i - b * x i + ?d) ^ 2)"
      unfolding squared_error_def n_def x_def y_def by (intro sum.cong) (auto simp: algebra_simps diff_divide_distrib)
    also have "\<dots> = (\<Sum>i<n. y i ^ 2 - 2 * b * (x i * y i) + b ^ 2 * x i ^ 2 + 2 * ?d * y i - 2 * ?d * b * x i + ?d ^ 2)"
      by (intro sum.cong refl square)
    also have "\<dots> = (\<Sum>i<n. y i ^ 2) - 2 * b * T + b ^ 2 * S + 2 * ?d * (\<Sum>i<n. y i) - 2 * ?d * b * (\<Sum>i<n. x i) + real n * ?d ^ 2"
      by (simp add: sum.distrib sum_subtractf S_def T_def flip: sum_distrib_left)
    finally show ?thesis by (simp add: x0 y0)
  qed
  let ?Y = "\<Sum>i<n. y i ^ 2"
  have "2 * (T / S) * T = 2 * (T ^ 2 / S)" "(T / S) ^ 2 * S = T ^ 2 / S" using S by (simp_all add: power2_eq_square field_simps)
  then have best: "squared_error ys (mean ys - calc_slope ys * ((real n - 1) / 2)) (calc_slope ys) = ?Y - T ^ 2 / S"
    unfolding err slope by (simp only:) simp
  have "b ^ 2 * S - 2 * b * T + T ^ 2 / S = S * (b - T / S) ^ 2" using S by (simp add: power2_eq_square field_simps)
  moreover have "0 \<le> S * (b - T / S) ^ 2" using S by simp
  moreover have "0 \<le> real n * (mean ys - a - b * ((real n - 1) / 2)) ^ 2" by simp
  ultimately show ?thesis unfolding best unfolding err [of a b] by linarith
qed

section \<open>Output in the form of the parallel shell\<close>

definition render_clush :: "(string \<times> string list) list \<Rightarrow> string" where
  "render_clush blocks = join_with [CHR 0x0A] (concat (map (\<lambda>(node_line, block). bar # node_line # bar # block) blocks))"

text \<open>A line that the reader keeps as it is.\<close>

definition plain_line :: "string \<Rightarrow> bool" where
  "plain_line l \<longleftrightarrow> l \<noteq> [] \<and> py_strip l = l \<and> (\<forall>c\<in>set l. \<not> is_line_break c)"

lemma bar_plain: "plain_line bar"
  by (simp add: plain_line_def bar_def py_strip_def py_lstrip_def is_ws_def is_line_break_def dropWhile_replicate
      numeral_eq_Suc)

lemma clush_blocks_render:
  assumes "\<forall>(node_line, block)\<in>set blocks. bar \<notin> set block"
  shows "clush_blocks (concat (map (\<lambda>(node_line, block). bar # node_line # bar # block) blocks)) = blocks"
  using assms
proof (induction blocks)
  case (Cons nb blocks)
  obtain node_line block where nb: "nb = (node_line, block)" by (cases nb)
  let ?rest = "concat (map (\<lambda>(node_line, block). bar # node_line # bar # block) blocks)"
  have b: "\<forall>l\<in>set block. l \<noteq> bar" using Cons.prems by (auto simp: nb)
  have rest: "takeWhile (\<lambda>l. l \<noteq> bar) ?rest = []" "dropWhile (\<lambda>l. l \<noteq> bar) ?rest = ?rest"
    by (cases blocks; simp add: case_prod_beta)+
  have "takeWhile (\<lambda>l. l \<noteq> bar) (block @ ?rest) = block" "dropWhile (\<lambda>l. l \<noteq> bar) (block @ ?rest) = ?rest"
    using b rest by (simp_all add: takeWhile_append2 dropWhile_append2)
  then show ?case using Cons by (simp add: nb)
qed simp

lemma clean_render:
  assumes "\<forall>(node_line, block)\<in>set blocks. plain_line node_line \<and> (\<forall>l\<in>set block. plain_line l)"
  shows "clean_lines (render_clush blocks) = concat (map (\<lambda>(node_line, block). bar # node_line # bar # block) blocks)"
proof -
  let ?ls = "concat (map (\<lambda>(node_line, block). bar # node_line # bar # block) blocks)"
  have plain: "\<forall>l\<in>set ?ls. plain_line l" using assms bar_plain by fastforce
  then have "py_splitlines (render_clush blocks) = ?ls"
    unfolding render_clush_def by (intro py_splitlines_join) (auto simp: plain_line_def)
  moreover have "filter (\<lambda>l. l \<noteq> []) (map py_strip ls) = ls" if "\<forall>l\<in>set ls. plain_line l" for ls
    using that by (induction ls) (simp_all add: plain_line_def)
  ultimately show ?thesis using plain unfolding clean_lines_def by metis
qed

lemma parse_rendered:
  assumes "\<forall>(node_line, block)\<in>set blocks. plain_line node_line \<and> (\<forall>l\<in>set block. plain_line l \<and> l \<noteq> bar)"
  shows "parse_clush_output (render_clush blocks)
    = concat (map (\<lambda>(node_line, block). if block_passes block then node_expr_parser (node_expr_of node_line) else []) blocks)"
proof -
  have "clean_lines (render_clush blocks) = concat (map (\<lambda>(node_line, block). bar # node_line # bar # block) blocks)"
    by (rule clean_render) (use assms in auto)
  moreover have "clush_blocks (concat (map (\<lambda>(node_line, block). bar # node_line # bar # block) blocks)) = blocks"
    by (rule clush_blocks_render) (use assms in auto)
  ultimately show ?thesis by (simp add: parse_clush_output_def)
qed

section \<open>Which fault a log names\<close>

lemma candidate_types:
  "f \<in> set (fault_candidates s) \<Longrightarrow> fi_type f \<in> {Some NETWORK, Some HCU, Some GRADIENT_INF}"
  by (auto simp: fault_candidates_def plain_fault_def xid_fault_def lose_fault_def latency_fault_def split: option.splits if_splits)

lemma sorted_first:
  fixes k :: "'a \<Rightarrow> int"
  assumes "sort_key k xs = y # ys"
  shows "y \<in> set xs" and "x \<in> set xs \<Longrightarrow> k y \<le> k x"
    and "\<exists>pre post. xs = pre @ y # post \<and> (\<forall>x\<in>set pre. k y < k x)"
proof -
  have set: "set xs = insert y (set ys)" using assms by (metis list.simps(15) set_sort)
  then show y: "y \<in> set xs" by simp
  have sorted: "sorted (map k (y # ys))" using sorted_sort_key [of k xs] assms by simp
  then show le: "x \<in> set xs \<Longrightarrow> k y \<le> k x" for x unfolding set by auto
  have "filter (\<lambda>x. k x = k y) xs = filter (\<lambda>x. k x = k y) (y # ys)" using sort_key_stable [of k "k y" xs] assms by metis
  then obtain zs where "filter (\<lambda>x. k x = k y) xs = y # zs" by simp
  then obtain pre post where p: "xs = pre @ y # post" "\<forall>x\<in>set pre. k x \<noteq> k y"
    unfolding filter_eq_Cons_iff by blast
  have "k y < k x" if "x \<in> set pre" for x using p le [of x] that by (force simp: order.strict_iff_order)
  then show "\<exists>pre post. xs = pre @ y # post \<and> (\<forall>x\<in>set pre. k y < k x)" using p(1) by blast
qed

lemma parse_picks:
  assumes "fault_candidates s \<noteq> []"
  shows "\<exists>pre post. fault_candidates s = pre @ parse_fault_log s # post
    \<and> (\<forall>f\<in>set pre. info_number f < info_number (parse_fault_log s))
    \<and> (\<forall>f\<in>set (fault_candidates s). info_number f \<le> info_number (parse_fault_log s))"
proof -
  let ?k = "\<lambda>f. - int (info_number f)"
  have "sort_key ?k (fault_candidates s) \<noteq> []" using assms by (metis length_0_conv length_sort)
  then obtain f fs where f: "sort_key ?k (fault_candidates s) = f # fs" by (cases "sort_key ?k (fault_candidates s)") auto
  then have "parse_fault_log s = f" by (simp add: parse_fault_log_def)
  then show ?thesis using sorted_first(2,3) [OF f] by force
qed

lemma closed_connection_wins:
  assumes "rx_search closed_rx s \<noteq> None"
  shows "fi_type (parse_fault_log s) = Some GRADIENT_INF \<and> fi_error_code (parse_fault_log s) = None"
proof -
  obtain m where m: "rx_search closed_rx s = Some m" using assms by blast
  let ?f = "\<lparr>fi_type = Some GRADIENT_INF, fi_description = cap_text 0 m, fi_error_code = None, fi_gpu = None\<rparr>"
  have f: "?f \<in> set (fault_candidates s)" by (simp add: fault_candidates_def plain_fault_def [of _ closed_rx] m)
  then have "fault_candidates s \<noteq> []" by auto
  from parse_picks [OF this] have p: "parse_fault_log s \<in> set (fault_candidates s)"
      and "info_number ?f \<le> info_number (parse_fault_log s)"
    using f by (auto simp: in_set_conv_decomp)
  then have "fi_type (parse_fault_log s) = Some GRADIENT_INF"
    using candidate_types [OF p] by (auto simp: info_number_def type_number_def)
  moreover have "fi_error_code g = None" if "g \<in> set (fault_candidates s)" "fi_type g = Some GRADIENT_INF" for g
    using that by (auto simp: fault_candidates_def plain_fault_def xid_fault_def lose_fault_def latency_fault_def split: option.splits if_splits)
  ultimately show ?thesis using p by blast
qed

section \<open>Behaviour shown by examples\<close>

text \<open>
  A tolerated fault excuses every other fault of its line: a node that lost a card passes when its
  network is slow as well, and so does every Xid whose number begins with 1.
\<close>

lemma lost_card_passes:
  "block_passes [''[CHECK RESULT]: hcu_lose[HCU3],node_vpc_high_latency'']"
  "block_passes [''[CHECK RESULT]: hcu_xid_13[HCU0],storage_not_mount[/data]'']"
  "\<not> block_passes [''[CHECK RESULT]: hcu_lose[HCU3]'']"
  by code_simp+

text \<open>The counter of a link that was down is tolerated up to 19.\<close>

lemma link_counter:
  "block_passes [''[CHECK RESULT]: ib_pcs_link_down[HCA0]'', ''ib_pcs_link_down[HCA0] Counter: 19'']"
  "\<not> block_passes [''[CHECK RESULT]: ib_pcs_link_down[HCA0]'', ''ib_pcs_link_down[HCA0] Counter: 20'']"
  "\<not> block_passes [''[CHECK RESULT]: ib_pcs_link_down[HCA0]'']"
  by code_simp+

text \<open>The repair of missing commas destroys empty texts.\<close>

lemma empty_text_is_destroyed:
  "fix_json_format [CHR ''x'', CHR 0x22, CHR 0x22] = [CHR ''x'', CHR 0x22, CHR '','', CHR '' '', CHR 0x22]"
  by (simp add: is_ws_def)

text \<open>One node that answers with an error hides the answers of all others.\<close>

lemma one_denied_node_hides_all:
  assumes "pe_run e cmd = (0, out)" and "py_strip out \<noteq> []" and "contains_sub ''permission denied'' (py_lower (py_strip out))"
  shows "run_clush e cmd = None"
  using assms by (simp add: run_clush_def error_like_def)

text \<open>A single node given as a text needs as many nodes as its name has letters.\<close>

lemma text_is_counted_by_letters:
  "check_squeue_nodes (''JOBID ST NODES'' @ [CHR 0x0A] @ ''7 R 1'') 1 = Some True"
  "check_squeue_nodes (''JOBID ST NODES'' @ [CHR 0x0A] @ ''7 R 1'') (length ''n01'') = Some False"
  by code_simp+

text \<open>With several jobs the nodes of pending ones count as well.\<close>

lemma pending_jobs_count:
  "check_squeue_nodes (''JOBID ST NODES'' @ [CHR 0x0A] @ ''7 R 1'' @ [CHR 0x0A] @ ''8 PD 3'') 4 = Some True"
  by code_simp

text \<open>The round that would use the watch fails before it is reached.\<close>

lemma hcu_check_always_fails: "check_hcu_info (Some output) st = Inl (NoAttribute ''_save_log'')"
  by (simp add: check_hcu_info_def)

section \<open>Properties\<close>

text \<open>
  C34: The verdicts are those of the blocks: from output in the form of the parallel shell exactly
  the nodes of the passing blocks are read.
\<close>

theorem passed_nodes_exact:
  assumes "\<forall>(node_line, block)\<in>set blocks. plain_line node_line \<and> (\<forall>l\<in>set block. plain_line l \<and> l \<noteq> bar)"
  shows "parse_clush_output (render_clush blocks)
    = concat (map (\<lambda>(node_line, block). if block_passes block then node_expr_parser (node_expr_of node_line) else []) blocks)"
  by (rule parse_rendered [OF assms])

theorem passed_nodes_exact_witness:
  "parse_clush_output (render_clush [(''n[01-02] (2)'', [''[CHECK RESULT]: PASSED'']), (''n07'', [''[CHECK RESULT]: hcu_lose[HCU1]''])])
     = [''n01'', ''n02'']"
proof -
  have "plain_line ''n[01-02] (2)''" "plain_line ''n07''" "plain_line ''[CHECK RESULT]: PASSED''"
      "plain_line ''[CHECK RESULT]: hcu_lose[HCU1]''"
    by code_simp+
  moreover have "''[CHECK RESULT]: PASSED'' \<noteq> bar" "''[CHECK RESULT]: hcu_lose[HCU1]'' \<noteq> bar"
    by (simp_all add: bar_def numeral_eq_Suc)
  moreover have "block_passes [''[CHECK RESULT]: PASSED'']" "\<not> block_passes [''[CHECK RESULT]: hcu_lose[HCU1]'']"
      "node_expr_parser (node_expr_of ''n[01-02] (2)'') = [''n01'', ''n02'']"
    by code_simp+
  ultimately show ?thesis
    using passed_nodes_exact [of "[(''n[01-02] (2)'', [''[CHECK RESULT]: PASSED'']), (''n07'', [''[CHECK RESULT]: hcu_lose[HCU1]''])]"]
    by simp
qed

text \<open>
  C37: A closed connection hides a fatal card fault: whatever else the log says, it is reported as a
  training fault of the gradients, without its Xid code.
\<close>

theorem closed_connection_hides_fatal_xid:
  assumes "rx_search closed_rx log_text \<noteq> None" and "su_parse su = parse_fault_log"
  shows "\<exists>desc gpu. report_fault_log su (node, log_text) m
    = snd (report_fault m node GRADIENT_INF desc None gpu None (su_now su) (su_now2 su))"
  using closed_connection_wins [OF assms(1)] by (auto simp: report_fault_log_def assms(2) Let_def)

definition sample_surroundings :: surroundings where
  "sample_surroundings = \<lparr>su_nhc = (\<lambda>_. None), su_parse = parse_fault_log, su_writes = (\<lambda>_. True), su_now = 0, su_now2 = 0, su_text = []\<rparr>"

definition sample_fault_log :: string where
  "sample_fault_log = ''[CHECK RESULT]: hcu_xid_76[HCU0]'' @ [CHR 0x0A] @ ''n07: Connection closed by 10.0.0.7''"

theorem closed_connection_hides_fatal_xid_witness:
  "map (\<lambda>f. (fi_type f, fi_error_code f)) (xid_fault sample_fault_log) = [(Some HCU, Some ''76'')]
   \<and> (\<forall>m. \<exists>desc gpu. report_fault_log sample_surroundings (''n07'', sample_fault_log) m
        = snd (report_fault m ''n07'' GRADIENT_INF desc None gpu None 0 0))"
proof -
  have "rx_search closed_rx sample_fault_log \<noteq> None" by code_simp
  moreover have "map (\<lambda>f. (fi_type f, fi_error_code f)) (xid_fault sample_fault_log) = [(Some HCU, Some ''76'')]"
    by code_simp
  ultimately show ?thesis
    using closed_connection_hides_fatal_xid [of sample_fault_log sample_surroundings "''n07''"]
    by (simp add: sample_surroundings_def)
qed

text \<open>
  C35: When a hanging card is reported: exactly when it was read in at least thirty rounds, its use
  and power were stable over the last thirty, its memory over the last fifteen, and it was idle.
\<close>

theorem hang_report_exact:
  assumes "\<forall>data\<in>set (rounds @ [data]). wf_data data"
    and "map (\<lambda>data. reading data n c) (rounds @ [data]) = map Some ms"
  shows "hang_of n c \<in> set (snd (snd (update_state_and_detect (watch rounds) data)))
    \<longleftrightarrow> 30 \<le> length ms \<and> is_stable (keep_last 15 (map mt_vram ms))
      \<and> is_stable (keep_last 30 (map mt_use ms)) \<and> is_stable (keep_last 30 (map mt_power ms))
      \<and> mean (keep_last 30 (map mt_use ms)) < 5"
  by (simp add: hang_watch [OF assms] hangs_recorded)

definition idle_round :: "(string \<times> node_cards) list" where
  "idle_round = [(''n07'', [(''card0'', \<lparr>mt_vram = 40, mt_power = 90, mt_use = 0, mt_available = 64\<rparr>)])]"

lemma is_stable_replicate: "2 \<le> k \<Longrightarrow> is_stable (replicate k x)"
proof -
  assume k: "2 \<le> k"
  then have m: "mean (replicate k x) = x" by (simp add: mean_def sum_list_replicate)
  have "pstdev (replicate k x) = 0" by (simp add: pstdev_def m sum_list_replicate)
  then show ?thesis using k by (simp add: is_stable_def m)
qed

theorem hang_report_exact_witness:
  "hang_of ''n07'' ''card0'' \<in> set (snd (snd (update_state_and_detect (watch (replicate 29 idle_round)) idle_round)))"
proof -
  let ?m = "\<lparr>mt_vram = 40, mt_power = 90, mt_use = 0, mt_available = 64\<rparr>"
  have wf: "\<forall>data\<in>set (replicate 29 idle_round @ [idle_round]). wf_data data" by (simp add: wf_data_def idle_round_def)
  have r: "reading idle_round ''n07'' ''card0'' = Some ?m" by (simp add: reading_def idle_round_def)
  then have readings: "map (\<lambda>data. reading data ''n07'' ''card0'') (replicate 29 idle_round @ [idle_round]) = map Some (replicate 30 ?m)"
    by (simp add: map_replicate_const replicate_append_same [symmetric] numeral_eq_Suc)
  have last: "keep_last k (replicate 30 x) = replicate (min k 30) x" for k and x :: real
    by (simp add: keep_last_def min_def)
  have "mean (replicate 30 0) < 5" by (simp add: mean_def sum_list_replicate)
  then show ?thesis
    using hang_report_exact [OF wf readings] by (simp add: last is_stable_replicate)
qed

text \<open>C40: The slope of a history is that of the line with the least squared error.\<close>

theorem slope_is_least_squares:
  assumes "2 \<le> length ys"
  shows "squared_error ys (mean ys - calc_slope ys * ((real (length ys) - 1) / 2)) (calc_slope ys) \<le> squared_error ys a b"
  by (rule slope_least_squares [OF assms])

theorem slope_is_least_squares_witness:
  "squared_error [1, 2, 4] (mean [1, 2, 4] - calc_slope [1, 2, 4]) (calc_slope [1, 2, 4]) \<le> squared_error [1, 2, 4] 1 1"
  using slope_is_least_squares [of "[1, 2, 4]" 1 1] by simp

end
