(* ===== verification/NhcMonitor.thy ===== *)
theory NhcMonitor
  imports FaultProbe LogMonitor
begin

text \<open>
  The periodic node check (\<^verbatim>\<open>NHCMonitor\<close> in \<^verbatim>\<open>monitor/nhc_monitor.py\<close>): one pass of its
  loop at a time, with the status records, the hardware summaries and the events it publishes.  The
  commands, the queue and the additional nodes are answered by the environment of a pass; writing
  files always succeeds; times are seconds of local time.
\<close>

section \<open>Hardware summaries\<close>

definition get_mem_info :: "probe_env \<Rightarrow> string \<Rightarrow> mem_info list option" where
  "get_mem_info e path =
     (case run_clush e (''clush --hostfile='' @ path @ '' -f 1024 -b '' @ [CHR 0x27] @ ''free -m | grep -E '' @ [CHR 0x22]
         @ ''Mem|Swap'' @ [CHR 0x22, CHR 0x27]) of
        None \<Rightarrow> None | Some s \<Rightarrow> if s = [] then None else Some (parse_mem_info s))"

text \<open>None is the exception of the parser.\<close>

definition get_hcu_info :: "(string \<Rightarrow> jval option) \<Rightarrow> probe_env \<Rightarrow> string \<Rightarrow> (string \<times> node_cards) list option option" where
  "get_hcu_info loads e path =
     (case run_clush e (''clush --hostfile='' @ path @ '' -f 1024  '' @ [CHR 0x27]
         @ ''hy-smi -P -u --showmemuse --showmemavailable --json'' @ [CHR 0x27]) of
        None \<Rightarrow> Some None
      | Some s \<Rightarrow> if s = [] then Some None else map_option Some (parse_hcu_output loads s))"

definition get_nodes_info :: "(string \<Rightarrow> string) \<Rightarrow> probe_env \<Rightarrow> string \<Rightarrow> string \<Rightarrow> (string \<times> string) list option" where
  "get_nodes_info nothing e path hosts =
     (if \<not> pe_slurm e then Some []
      else case run_clush e (''clush --hostfile='' @ path @ '' -f 1024 -b '' @ [CHR 0x27] @ ''scontrol show nodes ''
          @ join_with '','' (read_hostfile hosts) @ [CHR 0x27]) of
        None \<Rightarrow> None | Some s \<Rightarrow> if s = [] then None else Some (parse_nodes_output nothing s))"

record hcu_alert =
  ha_node :: string
  ha_card :: string
  ha_usage :: real
  ha_use :: real
  ha_power :: real

record mem_alert =
  ma_node :: string
  ma_swap :: bool
  ma_usage :: real
  ma_used :: nat
  ma_total :: nat

record hw_summary =
  hw_nodes :: nat
  hw_cards :: nat
  hw_vram :: real
  hw_power :: real
  hw_use :: real
  hw_mem :: real
  hw_swap :: real
  hw_hcu_alerts :: "hcu_alert list"
  hw_mem_alerts :: "mem_alert list"
  hw_node_alerts :: "(string \<times> string) list"

definition all_cards :: "(string \<times> node_cards) list \<Rightarrow> (string \<times> string \<times> metrics) list" where
  "all_cards data = concat (map (\<lambda>(node, cards). map (\<lambda>(key, m). (node, key, m)) cards) data)"

definition hcu_alerts_of :: "(string \<times> string \<times> metrics) list \<Rightarrow> hcu_alert list" where
  "hcu_alerts_of cs =
     concat (map (\<lambda>(node, key, m).
       if 9 / 10 < card_usage m \<or> 95 < mt_use m
       then [\<lparr>ha_node = node, ha_card = key, ha_usage = round2 (card_usage m * 100), ha_use = mt_use m, ha_power = mt_power m\<rparr>]
       else []) cs)"

definition average :: "real list \<Rightarrow> real" where
  "average xs = (if xs = [] then 0 else round2 (sum_list xs / real (length xs)))"

definition percent_of :: "nat list \<Rightarrow> real option" where
  "percent_of ns = (if 0 < ns ! 0 then Some (real (ns ! 1) / real (ns ! 0) * 100) else None)"

definition usage_alert :: "string \<Rightarrow> bool \<Rightarrow> real \<Rightarrow> nat list \<Rightarrow> mem_alert list" where
  "usage_alert node swap limit ns =
     (case percent_of ns of
        None \<Rightarrow> []
      | Some p \<Rightarrow> if limit < p
          then [\<lparr>ma_node = node, ma_swap = swap, ma_usage = round2 p, ma_used = ns ! 1, ma_total = ns ! 0\<rparr>] else [])"

definition generate_hw_summary ::
    "string \<Rightarrow> mem_info list option \<Rightarrow> (string \<times> node_cards) list option \<Rightarrow> (string \<times> string) list option \<Rightarrow> hw_summary" where
  "generate_hw_summary calm mem hcu infos =
     (let data = (case hcu of None \<Rightarrow> [] | Some d \<Rightarrow> d); cs = all_cards data; ms = map (snd \<circ> snd) cs;
          mems = (case mem of None \<Rightarrow> [] | Some l \<Rightarrow> l) in
      \<lparr>hw_nodes = length data, hw_cards = length cs, hw_vram = average (map mt_vram ms), hw_power = average (map mt_power ms),
       hw_use = average (map mt_use ms), hw_mem = average (List.map_filter (\<lambda>i. percent_of (mi_mem i)) mems),
       hw_swap = average (List.map_filter (\<lambda>i. percent_of (mi_swap i)) mems), hw_hcu_alerts = hcu_alerts_of cs,
       hw_mem_alerts = concat (map (\<lambda>i. usage_alert (mi_node i) False 80 (mi_mem i) @ usage_alert (mi_node i) True 50 (mi_swap i)) mems),
       hw_node_alerts = filter (\<lambda>(node, reason). reason \<noteq> [] \<and> \<not> contains_sub calm reason)
         (case infos of None \<Rightarrow> [] | Some l \<Rightarrow> l)\<rparr>)"

text \<open>The detail files: one per node of any listing.\<close>

record hw_detail =
  hd_cards :: node_cards
  hd_mem :: "mem_info option"
  hd_info :: "(string \<times> string) option"

definition save_hw_detail_by_node ::
    "mem_info list option \<Rightarrow> (string \<times> node_cards) list option \<Rightarrow> (string \<times> string) list option \<Rightarrow> (string \<rightharpoonup> hw_detail)" where
  "save_hw_detail_by_node mem hcu infos node =
     (let data = (case hcu of None \<Rightarrow> [] | Some d \<Rightarrow> d); mems = (case mem of None \<Rightarrow> [] | Some l \<Rightarrow> l);
          is = (case infos of None \<Rightarrow> [] | Some l \<Rightarrow> l) in
      if node \<in> set (map fst data) \<union> set (map mi_node mems) \<union> set (map fst is)
      then Some \<lparr>hd_cards = (case map_of data node of None \<Rightarrow> [] | Some cs \<Rightarrow> cs),
                 hd_mem = find (\<lambda>i. mi_node i = node) mems, hd_info = find (\<lambda>i. fst i = node) is\<rparr>
      else None)"

section \<open>The state of the monitor\<close>

record status_entry =
  se_status :: string
  se_time :: string
  se_source :: string

type_synonym status_line = "(string \<times> (string \<times> status_entry) list) list"

text \<open>
  The status records by time stamp, in memory and as lines of the file (None: a line that is no
  JSON; the file may be missing), the summaries, and the published events.
\<close>

record nhc_monitor =
  nm_cycle :: nat
  nm_status :: status_line
  nm_file :: "status_line option list option"
  nm_summary :: "(string \<times> hw_summary) list"
  nm_details :: "(string \<times> (string \<rightharpoonup> hw_detail)) list"
  nm_events :: "payload list"

record nhc_cfg =
  nc_hw :: bool
  nc_fault_handle :: bool
  nc_slurm_check :: bool
  nc_running_path :: string
  nc_abnormal_path :: string

text \<open>\<open>_load_node_status\<close> and \<open>__init__\<close>, which does not keep what it returns.\<close>

definition load_node_status :: "status_line option list option \<Rightarrow> status_line" where
  "load_node_status file =
     (case file of None \<Rightarrow> []
      | Some ls \<Rightarrow> fold (\<lambda>l d. case l of None \<Rightarrow> d | Some data \<Rightarrow> fold (\<lambda>(k, v) d. dict_update k v d) data d) ls [])"

definition load_hw_summary :: "(string \<times> hw_summary) list option list option \<Rightarrow> (string \<times> hw_summary) list" where
  "load_hw_summary file =
     (case file of None \<Rightarrow> []
      | Some ls \<Rightarrow> fold (\<lambda>l d. case l of None \<Rightarrow> d | Some data \<Rightarrow> fold (\<lambda>(k, v) d. dict_update k v d) data d) ls [])"

definition new_nhc_monitor ::
    "status_line option list option \<Rightarrow> (string \<times> hw_summary) list option list option \<Rightarrow> nhc_monitor" where
  "new_nhc_monitor file summaries =
     \<lparr>nm_cycle = 0, nm_status = [], nm_file = file, nm_summary = load_hw_summary summaries, nm_details = [], nm_events = []\<rparr>"

definition update_node_status :: "string list \<Rightarrow> string \<Rightarrow> string \<Rightarrow> string \<Rightarrow> nhc_monitor \<Rightarrow> nhc_monitor" where
  "update_node_status nodes status now source m =
     (if nodes = [] then m
      else
        (let entry = \<lparr>se_status = status, se_time = now, se_source = source\<rparr>;
             entries = map (\<lambda>n. (n, entry)) (keep_first nodes) in
         m \<lparr>nm_status := dict_update now entries (nm_status m),
            nm_file := Some ((case nm_file m of None \<Rightarrow> [] | Some ls \<Rightarrow> ls) @ [Some [(now, entries)]])\<rparr>))"

text \<open>
  \<open>_parse_ts_key\<close> on a text: a date as \<^verbatim>\<open>strftime\<close> writes it, or seconds since the epoch
  (\<open>epoch\<close> gives the local time, None when out of range).  The outer None is OverflowError.
\<close>

definition parse_ts_key :: "(real \<Rightarrow> real option) \<Rightarrow> string \<Rightarrow> real option option" where
  "parse_ts_key epoch key =
     (let s = py_strip key in
      if s = [] then Some None
      else case parse_stamp s of
        Some x \<Rightarrow> Some (Some x)
      | None \<Rightarrow> (case py_float_of s of
            Some (Fin x) \<Rightarrow> Some (epoch x)
          | Some PosInf \<Rightarrow> None
          | Some NegInf \<Rightarrow> None
          | _ \<Rightarrow> Some None))"

text \<open>Whether a line of the file is kept: its first readable key that is young enough; None raises.\<close>

fun line_is_young :: "(real \<Rightarrow> real option) \<Rightarrow> real \<Rightarrow> status_line \<Rightarrow> bool option" where
  "line_is_young epoch cutoff [] = Some False"
| "line_is_young epoch cutoff ((key, v) # rest) =
     (case parse_ts_key epoch key of
        None \<Rightarrow> None
      | Some None \<Rightarrow> line_is_young epoch cutoff rest
      | Some (Some x) \<Rightarrow> if cutoff \<le> x then Some True else line_is_young epoch cutoff rest)"

definition clean_file :: "(real \<Rightarrow> real option) \<Rightarrow> real \<Rightarrow> status_line option list \<Rightarrow> status_line option list" where
  "clean_file epoch cutoff ls =
     (if list_ex (\<lambda>l. case l of None \<Rightarrow> False | Some d \<Rightarrow> line_is_young epoch cutoff d = None) ls then ls
      else filter (\<lambda>l. case l of None \<Rightarrow> False | Some d \<Rightarrow> line_is_young epoch cutoff d = Some True) ls)"

text \<open>\<open>_clean_old_node_status\<close>: what is older than a day goes; None is OverflowError.\<close>

definition clean_old_node_status :: "(real \<Rightarrow> real option) \<Rightarrow> real \<Rightarrow> nhc_monitor \<Rightarrow> nhc_monitor option" where
  "clean_old_node_status epoch now m =
     (let cutoff = now - 86400 in
      if list_ex (\<lambda>(key, v). parse_ts_key epoch key = None) (nm_status m) then None
      else Some (m \<lparr>nm_status := filter (\<lambda>(key, v). case parse_ts_key epoch key of Some (Some x) \<Rightarrow> cutoff \<le> x | _ \<Rightarrow> True) (nm_status m),
                    nm_file := map_option (clean_file epoch cutoff) (nm_file m)\<rparr>))"

definition get_hw_summary :: "string \<Rightarrow> nhc_monitor \<Rightarrow> hw_summary option" where
  "get_hw_summary stamp m =
     (if stamp \<noteq> [] then map_of (nm_summary m) stamp
      else if nm_summary m = [] then None
      else map_of (nm_summary m) (Max (set (map fst (nm_summary m)))))"

section \<open>One pass of the loop\<close>

record nhc_state =
  ns_mon :: nhc_monitor
  ns_proxy :: proxy

record nhc_env =
  ne_probe :: probe_env
  ne_round :: round_env
  ne_queue :: "int option"
  ne_loads :: "string \<Rightarrow> jval option"
  ne_nothing :: "string \<Rightarrow> string"
  ne_quiet :: string

datatype pass_end = PassDone | PassSkipped | PassFailed string

definition on_mon :: "(nhc_monitor \<Rightarrow> nhc_monitor) \<Rightarrow> nhc_state \<Rightarrow> nhc_state" where
  "on_mon f s = s \<lparr>ns_mon := f (ns_mon s)\<rparr>"

definition publish_event :: "payload \<Rightarrow> nhc_monitor \<Rightarrow> nhc_monitor" where
  "publish_event pl m = m \<lparr>nm_events := nm_events m @ [pl]\<rparr>"

definition mentions_xid :: "(string \<times> string) list \<Rightarrow> bool" where
  "mentions_xid reasons = list_ex (\<lambda>(node, reason). contains_sub ''hcu_xid'' (py_lower reason)) reasons"

text \<open>
  \<open>_notify_hcu_xid_faults\<close>: without such a fault it returns; otherwise it uses an attribute the
  class does not have.
\<close>

definition notify_hcu_xid_faults :: "(string \<times> string) list \<Rightarrow> string option" where
  "notify_hcu_xid_faults reasons = (if mentions_xid reasons then Some ''_notify'' else None)"

definition handle_faults :: "string list \<Rightarrow> string list \<Rightarrow> (string \<times> string) list \<Rightarrow> nhc_state \<Rightarrow> nhc_state" where
  "handle_faults faulty running reasons s =
     (let s1 = on_mon (publish_event (no_payload \<lparr>pl_type := Some ''fault'', pl_abnormal := faulty\<rparr>)) s in
      if set faulty \<inter> set running = {} then s1
      else case px_snap (ns_proxy s1) of
        None \<Rightarrow> s1
      | Some sn \<Rightarrow> s1 \<lparr>ns_proxy := (ns_proxy s1) \<lparr>px_snap := Some (sn \<lparr>sn_faults := update_all reasons (sn_faults sn),
            sn_count := sn_count sn + 1, sn_running := running_nodes (px_pool (ns_proxy s1))\<rparr>)\<rparr>\<rparr>)"

definition perform_nhc_check :: "nhc_cfg \<Rightarrow> nhc_env \<Rightarrow> nhc_state \<Rightarrow> pass_end \<times> nhc_state" where
  "perform_nhc_check cfg e s =
     (let pool = px_pool (ns_proxy s); pe = ne_probe e in
      case run_nhc_on pe (nc_running_path cfg) (pool_files pool RunningF) of
        None \<Rightarrow> (PassFailed ''ValueError'', s)
      | Some (good, faulty, ok) \<Rightarrow>
          if \<not> ok then (PassDone, s)
          else
            (let s1 = on_mon (\<lambda>m. update_node_status faulty ''abnormal'' (pe_now pe) ''periodic_nhc''
                    (update_node_status good ''normal'' (pe_now pe) ''periodic_nhc'' m)) s in
             if faulty = [] then (PassDone, s1)
             else
               (let reasons = run_nhc_nodes pe faulty in
                case notify_hcu_xid_faults reasons of
                  Some attr \<Rightarrow> (PassFailed attr, s1)
                | None \<Rightarrow>
                    (PassDone, if nc_fault_handle cfg then handle_faults faulty (running_nodes pool) reasons s1 else s1))))"

definition perform_hw_check :: "nhc_cfg \<Rightarrow> nhc_env \<Rightarrow> nhc_state \<Rightarrow> pass_end \<times> nhc_state" where
  "perform_hw_check cfg e s =
     (let pe = ne_probe e; path = nc_running_path cfg; hosts = pool_files (px_pool (ns_proxy s)) RunningF;
          mem = get_mem_info pe path in
      case get_hcu_info (ne_loads e) pe path of
        None \<Rightarrow> (PassFailed ''AttributeError'', s)
      | Some hcu \<Rightarrow>
          (let infos = get_nodes_info (ne_nothing e) pe path hosts in
           (PassDone, on_mon (\<lambda>m. m \<lparr>nm_summary := dict_update (pe_now pe) (generate_hw_summary (ne_quiet e) mem hcu infos) (nm_summary m),
              nm_details := nm_details m @ [(pe_now pe, save_hw_detail_by_node mem hcu infos)]\<rparr>) s)))"

definition set_px_pool :: "node_pool \<Rightarrow> nhc_state \<Rightarrow> nhc_state" where
  "set_px_pool q s = s \<lparr>ns_proxy := (ns_proxy s) \<lparr>px_pool := q\<rparr>\<rparr>"

definition recovery_check :: "nhc_cfg \<Rightarrow> nhc_env \<Rightarrow> nhc_state \<Rightarrow> pass_end \<times> nhc_state" where
  "recovery_check cfg e s =
     (let pool = px_pool (ns_proxy s); bad = set (abnormal_nodes pool); spare = set (backup_pool pool) in
      if bad \<noteq> {} \<and> (spare = {} \<or> card spare \<le> card bad) then
        (case run_nhc_on (ne_probe e) (nc_abnormal_path cfg) (pool_files pool AbnormalF) of
           None \<Rightarrow> (PassFailed ''ValueError'', s)
         | Some (good, faulty, ok) \<Rightarrow>
             if \<not> ok \<or> good = [] then (PassDone, s)
             else (case add_normal_nodes (su_writes (rd_su (ne_round e))) good pool of
               (Inl ex, q) \<Rightarrow> (PassFailed ''add_normal_nodes'', set_px_pool q s)
             | (Inr v, q) \<Rightarrow> (PassDone, set_px_pool q s)))
      else (PassDone, s))"

text \<open>The additional nodes; an exception of this step is caught on the spot.\<close>

definition additional_check :: "nhc_env \<Rightarrow> nhc_state \<Rightarrow> nhc_state" where
  "additional_check e s =
     (let probe = (\<lambda>ns. case run_nodes_nhc (ne_probe e) ns of Some (Some good) \<Rightarrow> good | _ \<Rightarrow> []) in
      set_px_pool (snd (try_load_additional_nodes ((ne_round e) \<lparr>rd_nodes_nhc := probe\<rparr>) (px_pool (ns_proxy s)))) s)"

definition and_then :: "pass_end \<times> nhc_state \<Rightarrow> (nhc_state \<Rightarrow> pass_end \<times> nhc_state) \<Rightarrow> pass_end \<times> nhc_state" where
  "and_then r f = (case r of (PassDone, s) \<Rightarrow> f s | _ \<Rightarrow> r)"

text \<open>The steps after the queue.\<close>

definition pass_checks :: "nhc_cfg \<Rightarrow> nhc_env \<Rightarrow> nhc_state \<Rightarrow> pass_end \<times> nhc_state" where
  "pass_checks cfg e s =
     (let n = nm_cycle (ns_mon s) in
      and_then (if n mod 3 = 0 \<and> running_nodes (px_pool (ns_proxy s)) \<noteq> [] then perform_nhc_check cfg e s else (PassDone, s))
        (\<lambda>s1. and_then (if n mod 5 = 0 \<and> nc_hw cfg \<and> running_nodes (px_pool (ns_proxy s1)) \<noteq> [] then perform_hw_check cfg e s1 else (PassDone, s1))
          (\<lambda>s2. and_then (if n mod 10 = 0 then recovery_check cfg e s2 else (PassDone, s2))
            (\<lambda>s3. (PassDone, additional_check e s3)))))"

text \<open>A pass; None while a lost job is still being submitted again.\<close>

definition nhc_pass :: "nhc_cfg \<Rightarrow> nhc_env \<Rightarrow> nhc_state \<Rightarrow> (pass_end \<times> nhc_state) option" where
  "nhc_pass cfg e s0 =
     (let s = on_mon (\<lambda>m. m \<lparr>nm_cycle := Suc (nm_cycle m)\<rparr>) s0 in
      case ne_queue e of
        None \<Rightarrow> Some (pass_checks cfg e s)
      | Some count \<Rightarrow>
          if count < 0 then Some (PassSkipped, s)
          else if count = 0 \<and> nc_slurm_check cfg then
            (let s1 = on_mon (publish_event (no_payload \<lparr>pl_type := Some ''job_release''\<rparr>)) s in
             map_option (\<lambda>out. (case fst out of Inl ex \<Rightarrow> PassFailed ''resubmit'' | Inr ok \<Rightarrow> PassSkipped, set_px_pool (snd out) s1))
               (resubmit_job (su_writes (rd_su (ne_round e))) 0 0 (rd_resubmit (ne_round e)) (px_pool (ns_proxy s1))))
          else Some (pass_checks cfg e s))"

text \<open>\<open>_perform_backup_cross_check\<close> subtracts a number from a text.\<close>

definition perform_backup_cross_check :: "string \<Rightarrow> nhc_monitor \<Rightarrow> py_exn + nhc_monitor" where
  "perform_backup_cross_check now m = Inl TypeError"

section \<open>What a pass does\<close>

lemma run_nhc_nodes_lookup: "map_of (run_nhc_nodes e nodes) n = (if n \<in> set nodes then Some (health_log e n) else None)"
proof -
  have "map_of (foldl (\<lambda>d node. dict_update node (health_log e node) d) d nodes) n
      = (if n \<in> set nodes then Some (health_log e n) else map_of d n)" for d
    by (induction nodes arbitrary: d) (auto simp: map_of_dict_update)
  then show ?thesis by (simp add: run_nhc_nodes_def)
qed

lemma run_nhc_nodes_keys: "fst ` set (run_nhc_nodes e nodes) = set nodes"
proof -
  have "fst ` set (foldl (\<lambda>d node. dict_update node (health_log e node) d) d nodes) = fst ` set d \<union> set nodes" for d
    by (induction nodes arbitrary: d) auto
  then show ?thesis by (simp add: run_nhc_nodes_def)
qed

lemma run_nhc_nodes_logs:
  "set (run_nhc_nodes e nodes) = (\<lambda>n. (n, health_log e n)) ` set nodes"
proof -
  have "distinct (map fst (foldl (\<lambda>d node. dict_update node (health_log e node) d) d nodes))" if "distinct (map fst d)" for d
    using that by (induction nodes arbitrary: d) (auto simp: distinct_dict_update)
  from this [of "[]"] have d: "distinct (map fst (run_nhc_nodes e nodes))" by (simp add: run_nhc_nodes_def)
  have "(n, v) \<in> set (run_nhc_nodes e nodes) \<longleftrightarrow> n \<in> set nodes \<and> v = health_log e n" for n v
    using map_of_eq_Some_iff [OF d, of n v] run_nhc_nodes_lookup [of e nodes n] by (auto split: if_splits)
  then show ?thesis by auto
qed

lemma mentions_xid_iff:
  "mentions_xid (run_nhc_nodes e nodes) \<longleftrightarrow> (\<exists>n\<in>set nodes. contains_sub ''hcu_xid'' (py_lower (health_log e n)))"
  by (auto simp: mentions_xid_def list_ex_iff run_nhc_nodes_logs)

lemma update_node_status_events [simp]: "nm_events (update_node_status ns st now src m) = nm_events m"
  by (simp add: update_node_status_def Let_def)

lemma update_node_status_cycle [simp]: "nm_cycle (update_node_status ns st now src m) = nm_cycle m"
  by (simp add: update_node_status_def Let_def)

lemma on_mon_simps [simp]:
  "ns_mon (on_mon f s) = f (ns_mon s)" "ns_proxy (on_mon f s) = ns_proxy s"
  by (simp_all add: on_mon_def)

lemma set_px_pool_simps [simp]:
  "ns_mon (set_px_pool q s) = ns_mon s" "px_pool (ns_proxy (set_px_pool q s)) = q"
  by (simp_all add: set_px_pool_def)

definition queue_lets_through :: "nhc_cfg \<Rightarrow> nhc_env \<Rightarrow> bool" where
  "queue_lets_through cfg e =
     (case ne_queue e of None \<Rightarrow> True | Some n \<Rightarrow> 0 < n \<or> n = 0 \<and> \<not> nc_slurm_check cfg)"

lemma nhc_pass_through:
  "queue_lets_through cfg e \<Longrightarrow>
   nhc_pass cfg e s = Some (pass_checks cfg e (on_mon (\<lambda>m. m \<lparr>nm_cycle := Suc (nm_cycle m)\<rparr>) s))"
  by (auto simp: queue_lets_through_def nhc_pass_def Let_def split: option.splits)

lemma xid_check_fails:
  assumes "run_nhc_on (ne_probe e) (nc_running_path cfg) (pool_files (px_pool (ns_proxy s)) RunningF) = Some (good, faulty, True)"
    and "n \<in> set faulty" "contains_sub ''hcu_xid'' (py_lower (health_log (ne_probe e) n))"
  shows "\<exists>s1. perform_nhc_check cfg e s = (PassFailed ''_notify'', s1) \<and> ns_proxy s1 = ns_proxy s
      \<and> nm_events (ns_mon s1) = nm_events (ns_mon s)"
proof -
  have x: "mentions_xid (run_nhc_nodes (ne_probe e) faulty)" using assms(2,3) by (auto simp: mentions_xid_iff)
  have "faulty \<noteq> []" using assms(2) by auto
  then show ?thesis using x unfolding perform_nhc_check_def Let_def assms(1)
    by (simp add: notify_hcu_xid_faults_def)
qed

text \<open>
  C36: a fatal card fault stops the periodic check.  When a pass of the node check finds a faulty
  node whose health log names an Xid, the alert fails on an attribute the class does not have: the
  pass ends there with no fault event, the snapshot and the pool as they were, and none of its
  later steps (hardware check, recovery, additional nodes) runs.
\<close>

theorem xid_fault_blocks_handling:
  assumes "queue_lets_through cfg e" "Suc (nm_cycle (ns_mon s)) mod 3 = 0" "running_nodes (px_pool (ns_proxy s)) \<noteq> []"
    and "run_nhc_on (ne_probe e) (nc_running_path cfg) (pool_files (px_pool (ns_proxy s)) RunningF) = Some (good, faulty, True)"
    and "n \<in> set faulty" "contains_sub ''hcu_xid'' (py_lower (health_log (ne_probe e) n))"
  shows "\<exists>s1. nhc_pass cfg e s = Some (PassFailed ''_notify'', s1) \<and> ns_proxy s1 = ns_proxy s
      \<and> nm_events (ns_mon s1) = nm_events (ns_mon s)"
proof -
  let ?s = "on_mon (\<lambda>m. m \<lparr>nm_cycle := Suc (nm_cycle m)\<rparr>) s"
  obtain s1 where "perform_nhc_check cfg e ?s = (PassFailed ''_notify'', s1)" "ns_proxy s1 = ns_proxy s"
      "nm_events (ns_mon s1) = nm_events (ns_mon s)"
    using xid_check_fails [of e cfg ?s good faulty n] assms(4-6) by auto
  then show ?thesis
    unfolding nhc_pass_through [OF assms(1)] pass_checks_def Let_def by (simp add: assms(2,3) and_then_def)
qed

definition sample_cfg :: nhc_cfg where
  "sample_cfg = \<lparr>nc_hw = True, nc_fault_handle = True, nc_slurm_check = True, nc_running_path = ''running'', nc_abnormal_path = ''abnormal''\<rparr>"

definition sample_probe :: probe_env where
  "sample_probe = \<lparr>pe_mode = None, pe_docker_name = None, pe_container_name = None, pe_slurm = False, pe_now = ''2026-01-01 00:00:00'',
     pe_run = (\<lambda>_. (0, ''[CHECK RESULT]: hcu_xid_76[HCU0]''))\<rparr>"

definition sample_nhc_env :: "int option \<Rightarrow> nhc_env" where
  "sample_nhc_env queue = \<lparr>ne_probe = sample_probe, ne_round = (sample_round 0 (0, [])) \<lparr>rd_resubmit := [Submitted [''a'']]\<rparr>, ne_queue = queue,
     ne_loads = (\<lambda>_. None), ne_nothing = (\<lambda>_. ''none''), ne_quiet = ''none''\<rparr>"

definition sample_nhc_state :: "node_pool \<Rightarrow> nhc_state" where
  "sample_nhc_state p = \<lparr>ns_mon = (new_nhc_monitor None None) \<lparr>nm_cycle := 2\<rparr>, ns_proxy = sample_proxy p\<rparr>"

lemma xid_fault_blocks_handling_witness:
  "\<exists>s1. nhc_pass sample_cfg (sample_nhc_env None) (sample_nhc_state (sample_pool \<lparr>pool_files := \<lambda>_. ''a''\<rparr>)) = Some (PassFailed ''_notify'', s1)
     \<and> ns_proxy s1 = sample_proxy (sample_pool \<lparr>pool_files := \<lambda>_. ''a''\<rparr>) \<and> nm_events (ns_mon s1) = []"
proof -
  let ?s = "sample_nhc_state (sample_pool \<lparr>pool_files := \<lambda>_. ''a''\<rparr>)" and ?e = "sample_nhc_env None"
  have q: "queue_lets_through sample_cfg ?e" by (simp add: queue_lets_through_def sample_nhc_env_def)
  have c: "Suc (nm_cycle (ns_mon ?s)) mod 3 = 0" by (simp add: sample_nhc_state_def)
  have r: "running_nodes (px_pool (ns_proxy ?s)) \<noteq> []" by (simp add: sample_nhc_state_def sample_proxy_def sample_pool_def)
  have f: "pool_files (px_pool (ns_proxy ?s)) RunningF = ''a''" by (simp add: sample_nhc_state_def sample_proxy_def)
  have n: "run_nhc_on (ne_probe ?e) (nc_running_path sample_cfg) ''a'' = Some ([], [''a''], True)" unfolding sample_nhc_env_def by code_simp
  have x: "contains_sub ''hcu_xid'' (py_lower (health_log (ne_probe ?e) ''a''))" unfolding sample_nhc_env_def by code_simp
  have m: "ns_proxy ?s = sample_proxy (sample_pool \<lparr>pool_files := \<lambda>_. ''a''\<rparr>)" "nm_events (ns_mon ?s) = []"
    by (simp_all add: sample_nhc_state_def new_nhc_monitor_def)
  show ?thesis using xid_fault_blocks_handling [OF q c r, unfolded f, OF n _ x] unfolding m by simp
qed

section \<open>The pool over a pass\<close>

lemma add_total_reachable: "pool_reachable p \<Longrightarrow> pool_reachable (snd (add_total_nodes w ns p))"
  by (rule reach_step [OF _ step_add_total])

lemma add_normal_reachable: "pool_reachable p \<Longrightarrow> pool_reachable (snd (add_normal_nodes w ns p))"
  by (rule reach_step [OF _ step_add_normal])

lemma reset_reachable:
  assumes "pool_reachable p"
  shows "pool_reachable (snd (on_return (reset_node_pool w ns (Some []) p) (\<lambda>_ q. returns True q)))"
proof -
  obtain q where "reset_node_pool w ns (Some []) p = returns () q"
    using reset_node_pool_ok [of "Some []" ns w p] by (auto simp: deduplicate_and_sort_def)
  then show ?thesis using reach_step [OF assms step_reset] by simp
qed

lemma resubmit_reachable:
  "resubmit_job w k tries events p = Some out \<Longrightarrow> pool_reachable p \<Longrightarrow> pool_reachable (snd out)"
  by (induction w k tries events p rule: resubmit_job.induct) (auto simp: reset_reachable split: if_splits)

lemma additional_reachable: "pool_reachable p \<Longrightarrow> pool_reachable (snd (try_load_additional_nodes e p))"
proof -
  assume p: "pool_reachable p"
  have "snd (on_return (add_total_nodes w ns p) (\<lambda>added q. returns (case added of None \<Rightarrow> [] | Some l \<Rightarrow> l) q))
      = snd (add_total_nodes w ns p)" for w ns
    by (cases "(add_total_nodes w ns p, \<lambda>added q. returns (case added of None \<Rightarrow> [] | Some l \<Rightarrow> l) q :: (string list, node_pool) outcome)"
        rule: on_return.cases) auto
  then show ?thesis
    using p add_total_reachable [OF p] by (auto simp: try_load_additional_nodes_def Let_def split: option.split)
qed

abbreviation state_pool :: "nhc_state \<Rightarrow> node_pool" where
  "state_pool s \<equiv> px_pool (ns_proxy s)"

lemma handle_faults_pool [simp]: "state_pool (handle_faults f r reasons s) = state_pool s"
  by (simp add: handle_faults_def Let_def split: option.split)

lemma nhc_check_pool: "state_pool (snd (perform_nhc_check cfg e s)) = state_pool s"
  by (simp add: perform_nhc_check_def Let_def split: option.split prod.split)

lemma hw_check_pool: "state_pool (snd (perform_hw_check cfg e s)) = state_pool s"
  by (simp add: perform_hw_check_def Let_def split: option.split)

lemma recovery_check_pool:
  "pool_reachable (state_pool s) \<Longrightarrow> pool_reachable (state_pool (snd (recovery_check cfg e s)))"
  using add_normal_reachable [of "state_pool s"]
  by (auto simp: recovery_check_def Let_def split: option.split prod.split sum.split) (metis snd_conv)+

lemma and_then_keeps:
  assumes "P (snd r)" "\<And>s. P s \<Longrightarrow> P (snd (f s))"
  shows "P (snd (and_then r f))"
  using assms by (cases r; cases "fst r") (auto simp: and_then_def)

lemma pass_checks_pool:
  "pool_reachable (state_pool s) \<Longrightarrow> pool_reachable (state_pool (snd (pass_checks cfg e s)))"
  unfolding pass_checks_def Let_def
  by (intro and_then_keeps [where P = "\<lambda>s. pool_reachable (state_pool s)"])
    (auto simp: nhc_check_pool hw_check_pool recovery_check_pool additional_check_def additional_reachable)

text \<open>
  C37: every pass of the periodic check keeps the pool in order.  Whatever the commands answer and
  however the pass ends (skipped, failed half way, a lost job submitted again, abnormal nodes taken
  back, additional nodes accepted), the pool it leaves is again a reachable one, so its total nodes
  are the disjoint union of running, backup and abnormal nodes.
\<close>

theorem every_pass_keeps_the_pool:
  assumes "pool_reachable (px_pool (ns_proxy s))" "nhc_pass cfg e s = Some (r, s1)"
  shows "pool_reachable (px_pool (ns_proxy s1)) \<and> pool_ok (px_pool (ns_proxy s1))"
proof -
  let ?s = "on_mon (\<lambda>m. m \<lparr>nm_cycle := Suc (nm_cycle m)\<rparr>) s"
  have "pool_reachable (state_pool s1)"
  proof (cases "queue_lets_through cfg e")
    case True
    then show ?thesis using assms(2) pass_checks_pool [of ?s cfg e] assms(1) by (simp add: nhc_pass_through)
  next
    case False
    then show ?thesis using assms resubmit_reachable [OF _ assms(1)]
      by (auto simp: nhc_pass_def queue_lets_through_def Let_def split: option.splits if_splits)
  qed
  then show ?thesis using pool_reachable_inv [of "state_pool s1"] by (simp add: pool_inv_def)
qed

lemma every_pass_keeps_the_pool_witness:
  "\<exists>p r s1. pool_reachable p \<and> nhc_pass sample_cfg (sample_nhc_env (Some 0)) (sample_nhc_state p) = Some (r, s1)
     \<and> pool_ok (px_pool (ns_proxy s1)) \<and> total_nodes (px_pool (ns_proxy s1)) = [''a'']"
proof -
  have "init_pool (\<lambda>_. True) [] None (\<lambda>_. []) \<noteq> None" by code_simp
  then obtain p where "init_pool (\<lambda>_. True) [] None (\<lambda>_. []) = Some p" by auto
  then have p: "pool_reachable p" by (rule reach_init)
  have d: "deduplicate_and_sort [''a''] = [''a'']" by code_simp
  obtain q where q: "reset_node_pool (su_writes quiet_su) [''a''] (Some []) p = returns () q" "total_nodes q = [''a'']"
    using reset_node_pool_ok [of "Some []" "[''a'']" "su_writes quiet_su" p] unfolding d by (auto simp: deduplicate_and_sort_def)
  have e: "px_pool (ns_proxy (sample_nhc_state p)) = p" by (simp add: sample_nhc_state_def sample_proxy_def)
  obtain r s1 where s: "nhc_pass sample_cfg (sample_nhc_env (Some 0)) (sample_nhc_state p) = Some (r, s1)" "px_pool (ns_proxy s1) = q"
    by (simp add: nhc_pass_def sample_nhc_env_def sample_cfg_def sample_round_def e q)
  from every_pass_keeps_the_pool [OF _ s(1)] p s q(2) show ?thesis unfolding e by blast
qed

section \<open>What is lost on the way\<close>

lemma loaded_status_is_discarded: "nm_status (new_nhc_monitor file summaries) = []"
  by (simp add: new_nhc_monitor_def)

lemma later_status_wins:
  "faulty \<noteq> [] \<Longrightarrow> map_of (nm_status (update_node_status faulty st2 now src (update_node_status good st1 now src m))) now
     = Some (map (\<lambda>n. (n, \<lparr>se_status = st2, se_time = now, se_source = src\<rparr>)) (keep_first faulty))"
  by (simp add: update_node_status_def Let_def map_of_dict_update)

lemma unreadable_line_is_dropped:
  "clean_file epoch cutoff [None, Some []] = []"
  by (simp add: clean_file_def)

lemma cross_check_always_fails: "perform_backup_cross_check now m = Inl TypeError"
  by (simp add: perform_backup_cross_check_def)

end
