(* ===== verification/ClusterChecks.thy ===== *)
theory ClusterChecks
  imports FaultProbe "HOL-Library.Multiset" "HOL-Library.Product_Lexorder"
begin

text \<open>
  The InfiniBand checks across a cluster (\<^verbatim>\<open>cluster_checks.py\<close> of the environment check and the
  bandwidth parser of \<^verbatim>\<open>verbs.py\<close>): reading \<^verbatim>\<open>ibstat\<close>, the plan of all directions, the remote
  commands of one test, the verdicts and what they do to the records of the nodes.  What a command
  answers, whether the task is cancelled and the order in which tests end are inputs; messages,
  evidence files, durations and the endpoint metadata are left out.
\<close>

section \<open>Configuration\<close>

definition safe_char :: "char \<Rightarrow> bool" where
  "safe_char c = (is_word_char c \<or> c \<in> set ''./:@%+=,-'')"

definition hca_char :: "char \<Rightarrow> bool" where
  "hca_char c = (is_word_char c \<or> c \<in> set ''.:-'')"

definition safe_token :: "string \<Rightarrow> bool" where
  "safe_token v = (v \<noteq> [] \<and> \<not> is_prefix_of ''-'' v \<and> list_all safe_char v)"

definition safe_command :: "string list \<Rightarrow> bool" where
  "safe_command command =
     (command \<noteq> [] \<and> list_all (\<lambda>v. v \<noteq> [] \<and> list_all safe_char v) command \<and> \<not> is_prefix_of ''-'' (hd command))"

definition hca_name :: "string \<Rightarrow> bool" where
  "hca_name s = (s \<noteq> [] \<and> list_all hca_char s)"

record ib_state_cfg =
  is_enabled :: bool
  is_command :: "string list"
  is_timeout :: real

definition ib_state_valid :: "ib_state_cfg \<Rightarrow> bool" where
  "ib_state_valid c = (is_enabled c \<longrightarrow> safe_command (is_command c) \<and> 0 < is_timeout c \<and> is_timeout c \<le> 300)"

text \<open>\<open>bw_minimum\<close> may be a float that is not finite.\<close>

record bw_cfg =
  bw_enabled :: bool
  bw_tool :: string
  bw_protocol :: string
  bw_device :: "string option"
  bw_ib_port :: int
  bw_gid :: "int option"
  bw_port :: int
  bw_bytes :: int
  bw_iterations :: int
  bw_minimum :: "py_float option"
  bw_grace :: real
  bw_timeout :: real
  bw_concurrency :: int
  bw_max_tests :: int

definition bw_valid :: "bw_cfg \<Rightarrow> bool" where
  "bw_valid c =
     (bw_enabled c \<longrightarrow>
        safe_token (bw_tool c) \<and> bw_tool c \<in> {''ib_write_bw'', ''ib_send_bw'', ''ib_read_bw''}
        \<and> bw_protocol c \<in> {''ib'', ''roce''}
        \<and> (case bw_device c of None \<Rightarrow> True | Some d \<Rightarrow> hca_name d)
        \<and> 1 \<le> bw_ib_port c \<and> bw_ib_port c \<le> 255
        \<and> (bw_protocol c = ''roce'' \<longrightarrow> bw_gid c \<noteq> None)
        \<and> (case bw_gid c of None \<Rightarrow> True | Some g \<Rightarrow> 0 \<le> g \<and> g \<le> 255)
        \<and> 1024 \<le> bw_port c \<and> bw_port c \<le> 65535
        \<and> 1 \<le> bw_bytes c \<and> bw_bytes c \<le> 64 * 1024 * 1024
        \<and> 1 \<le> bw_iterations c \<and> bw_iterations c \<le> 100000
        \<and> (case bw_minimum c of None \<Rightarrow> True | Some (Fin x) \<Rightarrow> 0 \<le> x | Some _ \<Rightarrow> False)
        \<and> 0 \<le> bw_grace c \<and> bw_grace c \<le> 30
        \<and> 0 < bw_timeout c \<and> bw_timeout c \<le> 1800
        \<and> 1 \<le> bw_concurrency c \<and> bw_concurrency c \<le> 128
        \<and> 1 \<le> bw_max_tests c \<and> bw_max_tests c \<le> 4096)"

text \<open>The command of a test; None is ValueError.\<close>

definition perftest_argv :: "bw_cfg \<Rightarrow> string option \<Rightarrow> string option \<Rightarrow> int option \<Rightarrow> string list option" where
  "perftest_argv c server device port =
     (let dev = (case device of None \<Rightarrow> bw_device c | Some d \<Rightarrow> Some d);
          named = (case dev of None \<Rightarrow> [] | Some d \<Rightarrow> d) in
      if \<not> bw_valid c \<or> named \<noteq> [] \<and> \<not> hca_name named then None
      else Some ([bw_tool c, ''--connection=RC'', ''--ib-port='' @ show_int (bw_ib_port c),
          ''--port='' @ show_int (case port of None \<Rightarrow> bw_port c | Some p \<Rightarrow> p), ''--size='' @ show_int (bw_bytes c),
          ''--iters='' @ show_int (bw_iterations c), ''--report_gbits'']
        @ (if named = [] then [] else [''--ib-dev='' @ named])
        @ (case bw_gid c of None \<Rightarrow> [] | Some g \<Rightarrow> [''--gid-index='' @ show_int g])
        @ (case server of None \<Rightarrow> [] | Some s \<Rightarrow> [s])))"

section \<open>The plan\<close>

record ib_spec =
  sp_source :: string
  sp_destination :: string
  sp_source_hca :: string
  sp_destination_hca :: string
  sp_rail :: nat

definition spec_name :: "ib_spec \<Rightarrow> string" where
  "spec_name s = sp_source s @ '':'' @ sp_source_hca s @ ''->'' @ sp_destination s @ '':'' @ sp_destination_hca s"

definition hcas_of :: "(string \<rightharpoonup> string list) \<Rightarrow> string \<Rightarrow> string list" where
  "hcas_of hcas node = (case hcas node of None \<Rightarrow> [] | Some l \<Rightarrow> l)"

definition direction :: "(string \<rightharpoonup> string list) \<Rightarrow> string \<Rightarrow> string \<Rightarrow> nat \<Rightarrow> ib_spec" where
  "direction hcas s d k =
     \<lparr>sp_source = s, sp_destination = d, sp_source_hca = hcas_of hcas s ! k, sp_destination_hca = hcas_of hcas d ! k, sp_rail = k\<rparr>"

text \<open>None is ValueError: no adapter on some node, or different numbers of them.\<close>

definition build_ib_test_plan :: "string list \<Rightarrow> (string \<rightharpoonup> string list) \<Rightarrow> ib_spec list option" where
  "build_ib_test_plan nodes hcas =
     (let ordered = keep_first nodes in
      if length ordered < 2 then Some []
      else if list_ex (\<lambda>n. hcas_of hcas n = []) ordered then None
      else if list_ex (\<lambda>n. length (hcas_of hcas n) \<noteq> length (hcas_of hcas (hd ordered))) ordered then None
      else Some (concat (map (\<lambda>s. concat (map (\<lambda>d. if s = d then []
          else map (direction hcas s d) [0..<length (hcas_of hcas (hd ordered))]) ordered)) ordered)))"

section \<open>Reading ibstat\<close>

text \<open>
  \<open>_natural_key\<close>: the pieces alternate between text and numbers, so that two keys compare text
  with text and number with number; a text is \<^verbatim>\<open>(0, t)\<close>, a number \<^verbatim>\<open>(n, "")\<close>.
\<close>

function natural_key :: "string \<Rightarrow> (nat \<times> string) list" where
  "natural_key s =
     (let t = takeWhile (\<lambda>c. \<not> is_digit c) s; r = dropWhile (\<lambda>c. \<not> is_digit c) s in
      if r = [] then [(0, py_lower t)]
      else (0, py_lower t) # (nat_of_digits (takeWhile is_digit r), []) # natural_key (dropWhile is_digit r))"
  by pat_completeness auto
termination
proof (relation "measure length")
  fix s :: string and t r
  assume r: "r = dropWhile (\<lambda>c. \<not> is_digit c) s" "r \<noteq> []"
  then have "is_digit (hd r)" using hd_dropWhile [of "\<lambda>c. \<not> is_digit c" s] by simp
  then have "length (dropWhile is_digit r) < length r"
    using r(2) by (cases r) (auto simp: le_imp_less_Suc length_dropWhile_le)
  also have "length r \<le> length s" unfolding r(1) by (rule length_dropWhile_le)
  finally show "(dropWhile is_digit r, s) \<in> measure length" by simp
qed simp

record ib_port =
  pt_number :: nat
  pt_fields :: "(string \<times> string) list"

record ib_device =
  dv_name :: string
  dv_ports :: "ib_port list"

definition ca_rx :: rx where
  "ca_rx = seqs [AtStart, Star ws, Txt ''CA'', plus ws, Txt [CHR 0x27], Grp 1 (plus (Cls (\<lambda>c. c \<noteq> CHR 0x27))), Txt [CHR 0x27]]"

definition port_number_rx :: rx where
  "port_number_rx = seqs [AtStart, Star ws, Txt ''Port'', plus ws, Grp 1 (plus dig), Txt '':'']"

definition port_field_rx :: rx where
  "port_field_rx = seqs [AtStart, Star ws, Grp 1 (Alt (Txt ''State'') (Alt (Txt ''Physical state'') (Alt (Txt ''Rate'') (Txt ''Link layer'')))),
     Txt '':'', Star ws, Grp 2 (Lazy any_char), Star ws, AtEnd]"

definition on_last :: "('a \<Rightarrow> 'a) \<Rightarrow> 'a list \<Rightarrow> 'a list" where
  "on_last f xs = (if xs = [] then [] else butlast xs @ [f (last xs)])"

definition field_key :: "string \<Rightarrow> string" where
  "field_key s = map (\<lambda>c. if c = CHR '' '' then CHR ''_'' else c) (py_lower s)"

text \<open>The devices so far and whether the last one has a current port.\<close>

definition ibstat_line :: "ib_device list \<times> bool \<Rightarrow> string \<Rightarrow> ib_device list \<times> bool" where
  "ibstat_line s line =
     (case rx_match ca_rx line of
        Some m \<Rightarrow> (fst s @ [\<lparr>dv_name = cap_text 1 m, dv_ports = []\<rparr>], False)
      | None \<Rightarrow>
          if fst s = [] then s
          else case rx_match port_number_rx line of
            Some m \<Rightarrow> (on_last (\<lambda>d. d \<lparr>dv_ports := dv_ports d @ [\<lparr>pt_number = nat_of_digits (cap_text 1 m), pt_fields = []\<rparr>]\<rparr>) (fst s), True)
          | None \<Rightarrow>
              if \<not> snd s then s
              else case rx_match port_field_rx line of
                None \<Rightarrow> s
              | Some m \<Rightarrow>
                  (on_last (\<lambda>d. d \<lparr>dv_ports := on_last (\<lambda>p. p \<lparr>pt_fields :=
                     dict_update (field_key (cap_text 1 m)) (cap_text 2 m) (pt_fields p)\<rparr>) (dv_ports d)\<rparr>) (fst s), True))"

definition parse_ibstat_output :: "string \<Rightarrow> ib_device list" where
  "parse_ibstat_output s = fst (foldl ibstat_line ([], False) (py_splitlines s))"

definition port_value :: "string \<Rightarrow> ib_port \<Rightarrow> string" where
  "port_value key p = (case map_of (pt_fields p) key of None \<Rightarrow> [] | Some v \<Rightarrow> v)"

definition supported_hca :: "string \<Rightarrow> bool" where
  "supported_hca name =
     ((is_prefix_of ''mlx'' name \<or> is_prefix_of ''shca'' name) \<and> \<not> contains_sub ''bond'' (py_lower name) \<and> hca_name name)"

definition port_incomplete :: "ib_port \<Rightarrow> bool" where
  "port_incomplete p = (port_value ''state'' p = [] \<or> port_value ''physical_state'' p = [])"

definition port_inactive :: "ib_port \<Rightarrow> bool" where
  "port_inactive p = (\<not> port_incomplete p \<and> (port_value ''state'' p \<noteq> ''Active'' \<or> port_value ''physical_state'' p \<noteq> ''LinkUp''))"

datatype check_status = Pass | Fail | NotVerified | Cancelled | NotRequested

record ib_state_result =
  st_status :: check_status
  st_reason :: string
  st_devices :: "ib_device list"
  st_supported :: "string list"

definition evaluate_ib_state_output :: "int \<Rightarrow> string \<Rightarrow> bool \<Rightarrow> ib_state_result" where
  "evaluate_ib_state_output code out timed_out =
     (let devices = parse_ibstat_output out;
          supported = sort_key natural_key (filter supported_hca (map dv_name devices));
          verdict = (if timed_out then (NotVerified, ''IB_STATE_TIMEOUT'')
            else if code = 127 then (NotVerified, ''IBSTAT_COMMAND_NOT_FOUND'')
            else if code \<noteq> 0 then (NotVerified, ''IBSTAT_EXECUTION_FAILED'')
            else if devices = [] then (Fail, ''IB_HCA_NOT_FOUND'')
            else if supported = [] then (Fail, ''SUPPORTED_IB_HCA_NOT_FOUND'')
            else if list_ex (\<lambda>d. list_ex port_inactive (dv_ports d)) devices then (Fail, ''IB_PORT_NOT_ACTIVE'')
            else if list_ex (\<lambda>d. dv_ports d = [] \<or> list_ex port_incomplete (dv_ports d)) devices
              then (NotVerified, ''IB_STATE_EVIDENCE_INCOMPLETE'')
            else (Pass, ''IB_STATE_PASSED'')) in
      \<lparr>st_status = fst verdict, st_reason = snd verdict, st_devices = devices, st_supported = supported\<rparr>)"

section \<open>Reading the bandwidth\<close>

definition bandwidth_row :: "string \<Rightarrow> real list" where
  "bandwidth_row line =
     (case py_words (py_strip line) of
        a # b # c # d # rest \<Rightarrow>
          if list_all is_digit a \<and> list_all is_digit b
          then (case py_float_of d of Some (Fin x) \<Rightarrow> if 0 < x then [x] else [] | _ \<Rightarrow> []) else []
      | _ \<Rightarrow> [])"

definition parse_verbs_average_gbps :: "string \<Rightarrow> real option" where
  "parse_verbs_average_gbps s =
     (if \<not> contains_sub ''BW average'' s \<and> \<not> contains_sub ''BW avg'' s then None
      else (let rows = concat (map bandwidth_row (py_splitlines s)) in if rows = [] then None else Some (last rows)))"

definition below :: "py_float option \<Rightarrow> real \<Rightarrow> bool" where
  "below minimum x = (case minimum of Some (Fin m) \<Rightarrow> x < m | Some PosInf \<Rightarrow> True | _ \<Rightarrow> False)"

definition evaluate_ib_write_bw_output ::
    "int \<Rightarrow> string \<Rightarrow> string \<Rightarrow> bool \<Rightarrow> py_float option \<Rightarrow> check_status \<times> string \<times> real option" where
  "evaluate_ib_write_bw_output code out err timed_out minimum =
     (let avg = parse_verbs_average_gbps (out @ [CHR 0x0A] @ err) in
      if timed_out then (NotVerified, ''IB_WRITE_BW_TIMEOUT'', avg)
      else if code \<noteq> 0 then (Fail, ''IB_WRITE_BW_FAILED'', avg)
      else case avg of
        None \<Rightarrow> (NotVerified, ''IB_WRITE_BW_METRIC_MISSING'', avg)
      | Some x \<Rightarrow> if below minimum x then (Fail, ''IB_BANDWIDTH_BELOW_THRESHOLD'', avg) else (Pass, ''IB_WRITE_BW_PASSED'', avg))"

section \<open>The records of the nodes\<close>

record ib_check =
  ck_name :: string
  ck_status :: check_status
  ck_reason :: string
  ck_peer :: string
  ck_direction :: "string \<times> string"
  ck_rail :: nat

definition simple_check :: "string \<Rightarrow> check_status \<Rightarrow> string \<Rightarrow> ib_check" where
  "simple_check name st reason =
     \<lparr>ck_name = name, ck_status = st, ck_reason = reason, ck_peer = [], ck_direction = ([], []), ck_rail = 0\<rparr>"

record cluster_record =
  cl_status :: string
  cl_checks :: "ib_check list"
  cl_findings :: "(string \<times> string) list"

type_synonym record_table = "string \<rightharpoonup> cluster_record"

definition set_record_status :: "check_status \<Rightarrow> string \<Rightarrow> string" where
  "set_record_status st current =
     (if st = Cancelled then ''CANCELLED''
      else if st = Fail then ''BLOCKED''
      else if st = NotVerified \<and> current = ''READY'' then ''INCOMPLETE''
      else current)"

definition add_check_to_record :: "ib_check \<Rightarrow> cluster_record \<Rightarrow> cluster_record" where
  "add_check_to_record c r =
     (let r1 = r \<lparr>cl_checks := cl_checks r @ [c]\<rparr> in
      if ck_status c = Pass then r1
      else r1 \<lparr>cl_findings := cl_findings r1 @ [(if ck_status c = Fail then ''FAIL'' else ''UNKNOWN'', ck_reason c)],
               cl_status := set_record_status (ck_status c) (cl_status r1)\<rparr>)"

definition add_check :: "string \<Rightarrow> ib_check \<Rightarrow> record_table \<Rightarrow> record_table" where
  "add_check node c t = (case t node of None \<Rightarrow> t | Some r \<Rightarrow> t(node \<mapsto> add_check_to_record c r))"

definition aggregate_status :: "check_status list \<Rightarrow> check_status" where
  "aggregate_status l =
     (if l = [] then NotVerified
      else if Cancelled \<in> set l then Cancelled
      else if Fail \<in> set l then Fail
      else if NotVerified \<in> set l then NotVerified
      else Pass)"

section \<open>The state check\<close>

record command_output =
  co_code :: int
  co_out :: string
  co_err :: string
  co_timed_out :: bool

definition state_of_output :: "command_output \<Rightarrow> ib_state_result" where
  "state_of_output o1 = evaluate_ib_state_output (co_code o1) (co_out o1) (co_timed_out o1 \<or> co_code o1 \<in> {124, 137})"

definition consume_state :: "string \<times> command_output \<Rightarrow> (string \<times> ib_state_result) list \<times> record_table
    \<Rightarrow> (string \<times> ib_state_result) list \<times> record_table" where
  "consume_state answer s =
     (let v = state_of_output (snd answer) in
      (dict_update (fst answer) v (fst s), add_check (fst answer) (simple_check ''ib_state'' (st_status v) (st_reason v)) (snd s)))"

text \<open>
  \<open>_run_simple_node_checks\<close> with the evaluator of \<^verbatim>\<open>ibstat\<close>: \<open>answers\<close> are the results the
  executor hands to the handler, in their order, \<open>all\<close> the results it returns.
\<close>

definition run_state_checks ::
    "string list \<Rightarrow> (string \<times> command_output) list \<Rightarrow> (string \<times> command_output) list \<Rightarrow> record_table
     \<Rightarrow> (string \<times> ib_state_result) list \<times> record_table" where
  "run_state_checks nodes answers all t =
     (let s = fold consume_state answers ([], t);
          s2 = fold (\<lambda>a s. if fst a \<in> fst ` set (fst s) then s else consume_state a s) all s in
      (List.map_filter (\<lambda>n. map_option (Pair n) (map_of (fst s2) n)) nodes, snd s2))"

section \<open>Remote commands\<close>

text \<open>\<open>keep_lines\<close>: \<^verbatim>\<open>splitlines(keepends=True)\<close>.\<close>

fun keep_lines :: "string \<Rightarrow> string \<Rightarrow> string list" where
  "keep_lines buf [] = (if buf = [] then [] else [buf])"
| "keep_lines buf (c # s) =
     (if c = CHR 0x0D \<and> s \<noteq> [] \<and> hd s = CHR 0x0A then keep_lines (buf @ [c]) s
      else if is_line_break c then (buf @ [c]) # keep_lines [] s
      else keep_lines (buf @ [c]) s)"

definition strip_newline :: "string \<Rightarrow> string" where
  "strip_newline s = rev (dropWhile (\<lambda>c. c \<in> {CHR 0x0A, CHR 0x0D}) (rev s))"

definition sentinel_rx :: rx where
  "sentinel_rx = seqs [Txt ''__HCU_ENVCHECK_IB_RC_'', plus (Cls (\<lambda>c. is_digit c \<or> c \<in> set ''abcdef'')), Txt ''__='',
     Grp 1 (Seq (opt (Txt ''-'')) (plus dig)), opt (Txt [CHR 0x0D])]"

definition sentinel_code :: "string \<Rightarrow> string \<Rightarrow> int option" where
  "sentinel_code sentinel line =
     (if is_prefix_of (sentinel @ ''='') (strip_newline line)
      then (case rx_fullmatch sentinel_rx (strip_newline line) of None \<Rightarrow> None | Some m \<Rightarrow> py_int (cap_text 1 m))
      else None)"

definition extract_sentinel :: "string \<Rightarrow> string \<Rightarrow> string \<times> int option" where
  "extract_sentinel out sentinel =
     (let ls = keep_lines [] out; codes = List.map_filter (sentinel_code sentinel) ls in
      (concat (filter (\<lambda>l. sentinel_code sentinel l = None) ls), if codes = [] then None else Some (last codes)))"

definition ssh_destination :: "string \<Rightarrow> string \<Rightarrow> string" where
  "ssh_destination user node = (if user \<noteq> [] then user @ ''@'' @ node else node)"

definition remote_shell :: "string list \<Rightarrow> string \<Rightarrow> string" where
  "remote_shell command sentinel =
     ''sh -c '' @ shlex_quote (shlex_join command @ [CHR 0x0A] @ ''rc=$?'' @ [CHR 0x0A] @ ''printf '' @ [CHR 0x27, CHR 0x0A] @ sentinel
       @ ''=%s'' @ [CHR 0x0A, CHR 0x27] @ '' '' @ [CHR 0x22] @ ''$rc'' @ [CHR 0x22, CHR 0x0A] @ ''exit '' @ [CHR 0x22] @ ''$rc'' @ [CHR 0x22])"

text \<open>What the local ssh process does: it ends (or is ended by the executor), times out, or cannot start.\<close>

datatype ssh_end = SshEnded int string string bool | SshTimeout string string | SshMissing string

definition run_remote_command :: "bool \<Rightarrow> string \<Rightarrow> ssh_end \<Rightarrow> command_output" where
  "run_remote_command cancelled sentinel e =
     (if cancelled then \<lparr>co_code = 130, co_out = [], co_err = ''task cancelled'', co_timed_out = False\<rparr>
      else case e of
        SshEnded code out err late \<Rightarrow>
          (case extract_sentinel out sentinel of
             (kept, remote) \<Rightarrow>
               let rc = (if code \<noteq> 0 then code else case remote of None \<Rightarrow> 255 | Some n \<Rightarrow> n) in
               \<lparr>co_code = rc, co_out = kept, co_err = err, co_timed_out = rc \<in> {124, 137} \<or> late\<rparr>)
      | SshTimeout out err \<Rightarrow> \<lparr>co_code = 124, co_out = out, co_err = err, co_timed_out = True\<rparr>
      | SshMissing err \<Rightarrow> \<lparr>co_code = 127, co_out = [], co_err = err, co_timed_out = False\<rparr>)"

section \<open>One test\<close>

record pair_result =
  pr_spec :: ib_spec
  pr_port :: "int option"
  pr_status :: check_status
  pr_reason :: string
  pr_average :: "real option"

text \<open>
  The server and the client of a test, each with whether the task was cancelled when it was to
  start; no server means that its result could not be collected.
\<close>

record spec_run =
  sr_server :: "(bool \<times> string \<times> ssh_end) option"
  sr_client :: "bool \<times> string \<times> ssh_end"
  sr_cancelled :: bool

definition command_answer :: "bool \<times> string \<times> ssh_end \<Rightarrow> command_output" where
  "command_answer r = run_remote_command (fst r) (fst (snd r)) (snd (snd r))"

definition spec_verdict :: "bw_cfg \<Rightarrow> spec_run \<Rightarrow> check_status \<times> string \<times> real option" where
  "spec_verdict c run =
     (let server = (case sr_server run of None \<Rightarrow> \<lparr>co_code = 125, co_out = [], co_err = [], co_timed_out = False\<rparr> | Some r \<Rightarrow> command_answer r);
          client = command_answer (sr_client run);
          code = (if co_code client \<noteq> 0 then co_code client else co_code server);
          verdict = evaluate_ib_write_bw_output code (co_out server @ [CHR 0x0A] @ co_out client)
            (co_err server @ [CHR 0x0A] @ co_err client) (co_timed_out client \<or> co_timed_out server) (bw_minimum c) in
      if sr_cancelled run then (Cancelled, ''TASK_CANCELLED'', snd (snd verdict)) else verdict)"

text \<open>None is the exception of a command that cannot be built.\<close>

definition run_ib_spec :: "bw_cfg \<Rightarrow> ib_spec \<Rightarrow> int \<Rightarrow> spec_run \<Rightarrow> pair_result option" where
  "run_ib_spec c sp port run =
     (if perftest_argv c None (Some (sp_destination_hca sp)) (Some port) = None
         \<or> perftest_argv c (Some (sp_destination sp)) (Some (sp_source_hca sp)) (Some port) = None then None
      else Some \<lparr>pr_spec = sp, pr_port = Some port, pr_status = fst (spec_verdict c run), pr_reason = fst (snd (spec_verdict c run)),
                 pr_average = snd (snd (spec_verdict c run))\<rparr>)"

definition pair_of :: "bw_cfg \<Rightarrow> ib_spec \<Rightarrow> int \<Rightarrow> spec_run option \<Rightarrow> pair_result" where
  "pair_of c sp port run =
     (case Option.bind run (run_ib_spec c sp port) of
        Some r \<Rightarrow> r
      | None \<Rightarrow> \<lparr>pr_spec = sp, pr_port = None, pr_status = NotVerified, pr_reason = ''IB_WRITE_BW_EXECUTOR_ERROR'', pr_average = None\<rparr>)"

definition pair_check :: "pair_result \<Rightarrow> string \<Rightarrow> ib_check" where
  "pair_check r peer =
     \<lparr>ck_name = ''ib_write_bw'', ck_status = pr_status r, ck_reason = pr_reason r, ck_peer = peer,
      ck_direction = (sp_source (pr_spec r), sp_destination (pr_spec r)), ck_rail = sp_rail (pr_spec r)\<rparr>"

definition record_pair :: "pair_result \<Rightarrow> record_table \<Rightarrow> record_table" where
  "record_pair r t =
     add_check (sp_destination (pr_spec r)) (pair_check r (sp_source (pr_spec r)))
       (add_check (sp_source (pr_spec r)) (pair_check r (sp_destination (pr_spec r))) t)"

section \<open>The bandwidth check\<close>

record bw_report =
  br_status :: check_status
  br_reason :: "string option"
  br_pairs :: "pair_result list"
  br_planned :: nat
  br_lowest :: "real option"

definition prerequisite_failure :: "string list \<Rightarrow> check_status \<Rightarrow> string \<Rightarrow> record_table \<Rightarrow> bw_report \<times> record_table" where
  "prerequisite_failure nodes st reason t =
     (\<lparr>br_status = st, br_reason = Some reason, br_pairs = [], br_planned = 0, br_lowest = None\<rparr>,
      fold (\<lambda>n. add_check n (simple_check ''ib_write_bw'' st reason)) nodes t)"

definition pair_key :: "pair_result \<Rightarrow> string \<times> string \<times> nat" where
  "pair_key r = (sp_source (pr_spec r), sp_destination (pr_spec r), sp_rail (pr_spec r))"

text \<open>
  The tests of a plan.  \<open>run\<close> gives what happens to a test, None an exception of the pool; \<open>order\<close>
  lists the tests in the order in which they end.
\<close>

definition pairs_of :: "bw_cfg \<Rightarrow> (nat \<Rightarrow> spec_run option) \<Rightarrow> ib_spec list \<Rightarrow> nat list \<Rightarrow> pair_result list" where
  "pairs_of c run plan order = map (\<lambda>i. pair_of c (plan ! i) (bw_port c + int i) (run i)) order"

definition bw_summary :: "ib_spec list \<Rightarrow> pair_result list \<Rightarrow> bw_report" where
  "bw_summary plan rs =
     (let pairs = sort_key pair_key rs; averages = List.map_filter pr_average pairs in
      \<lparr>br_status = aggregate_status (map pr_status pairs), br_reason = None, br_pairs = pairs, br_planned = length plan,
       br_lowest = (if averages = [] then None else Some (Min (set averages)))\<rparr>)"

datatype prerequisite = Refusal check_status string | Planned "ib_spec list"

definition state_hcas :: "(string \<times> ib_state_result) list \<Rightarrow> string \<Rightarrow> string list" where
  "state_hcas states node = (case map_of (rev states) node of None \<Rightarrow> [] | Some v \<Rightarrow> st_supported v)"

definition chosen_hcas :: "bw_cfg \<Rightarrow> (string \<times> ib_state_result) list \<Rightarrow> string list \<Rightarrow> (string \<rightharpoonup> string list)" where
  "chosen_hcas c states nodes =
     (\<lambda>n. if n \<in> set nodes
          then Some (case bw_device c of Some d \<Rightarrow> if d \<noteq> [] then [d] else state_hcas states n | None \<Rightarrow> state_hcas states n)
          else None)"

definition state_passed :: "(string \<times> ib_state_result) list \<Rightarrow> string \<Rightarrow> bool" where
  "state_passed states node = (case map_of (rev states) node of None \<Rightarrow> False | Some v \<Rightarrow> st_status v = Pass)"

definition bw_prerequisites :: "bw_cfg \<Rightarrow> bool \<Rightarrow> (string \<times> ib_state_result) list \<Rightarrow> string list \<Rightarrow> prerequisite" where
  "bw_prerequisites c cancelled states nodes =
     (let device = (case bw_device c of None \<Rightarrow> [] | Some d \<Rightarrow> d);
          hcas = chosen_hcas c states nodes;
          counts = remdups (map (\<lambda>n. length (hcas_of hcas n)) nodes);
          planned = int (length nodes) * (int (length nodes) - 1) * (case counts of [] \<Rightarrow> 0 | k # _ \<Rightarrow> int k) in
      if cancelled then Refusal Cancelled ''TASK_CANCELLED''
      else if device \<noteq> [] \<and> list_ex (\<lambda>n. device \<notin> set (state_hcas states n)) nodes then Refusal Fail ''IB_DEVICE_NOT_FOUND''
      else if list_ex (\<lambda>n. \<not> state_passed states n) nodes then Refusal NotVerified ''IB_WRITE_BW_PREREQUISITE_FAILED''
      else if length counts = 1 \<and> bw_max_tests c < planned then Refusal NotVerified ''IB_WRITE_BW_TEST_LIMIT_EXCEEDED''
      else case build_ib_test_plan nodes hcas of
        None \<Rightarrow> Refusal Fail ''IB_HCA_INVENTORY_MISMATCH''
      | Some plan \<Rightarrow>
          if plan = [] then Refusal NotVerified ''IB_WRITE_BW_NOT_ENOUGH_NODES''
          else if bw_max_tests c < int (length plan) then Refusal NotVerified ''IB_WRITE_BW_TEST_LIMIT_EXCEEDED''
          else Planned plan)"

text \<open>\<open>_run_ib_checks\<close> with the check enabled; None is ValueError.\<close>

definition run_ib_checks ::
    "bw_cfg \<Rightarrow> bool \<Rightarrow> (string \<times> ib_state_result) list \<Rightarrow> (nat \<Rightarrow> spec_run option) \<Rightarrow> nat list \<Rightarrow> string list \<Rightarrow> record_table
     \<Rightarrow> (bw_report \<times> record_table) option" where
  "run_ib_checks c cancelled states run order nodes t =
     (if \<not> bw_valid c then None
      else case bw_prerequisites c cancelled states nodes of
        Refusal st reason \<Rightarrow> Some (prerequisite_failure nodes st reason t)
      | Planned plan \<Rightarrow>
          if 65535 - bw_port c + 1 < int (length plan) then None
          else let pairs = pairs_of c run plan order in Some (bw_summary plan pairs, fold record_pair pairs t))"

section \<open>Both checks\<close>

record cluster_report =
  cr_enabled :: bool
  cr_status :: check_status
  cr_states :: "(string \<times> ib_state_result) list"
  cr_bandwidth :: "bw_report option"

record cluster_env =
  ce_answers :: "(string \<times> command_output) list"
  ce_all :: "(string \<times> command_output) list"
  ce_cancelled :: bool
  ce_run :: "nat \<Rightarrow> spec_run option"
  ce_order :: "nat list"

definition run_cluster_extra_checks ::
    "ib_state_cfg \<Rightarrow> bw_cfg \<Rightarrow> cluster_env \<Rightarrow> string list \<Rightarrow> record_table \<Rightarrow> (cluster_report \<times> record_table) option" where
  "run_cluster_extra_checks sc c e nodes t =
     (if \<not> ib_state_valid sc \<or> \<not> bw_valid c then None
      else
        (let on = (is_enabled sc \<or> bw_enabled c);
             s = (if on then run_state_checks nodes (ce_answers e) (ce_all e) t else ([], t));
             state_status = aggregate_status (map (st_status \<circ> snd) (fst s)) in
         if \<not> bw_enabled c then
           Some (\<lparr>cr_enabled = on, cr_status = aggregate_status (if on then [state_status] else []), cr_states = fst s, cr_bandwidth = None\<rparr>, snd s)
         else map_option (\<lambda>(b, t2).
             (\<lparr>cr_enabled = True, cr_status = aggregate_status [state_status, br_status b], cr_states = fst s, cr_bandwidth = Some b\<rparr>, t2))
           (run_ib_checks c (ce_cancelled e) (fst s) (ce_run e) (ce_order e) nodes (snd s))))"

section \<open>The plan is all directions\<close>

lemma directions_as_product:
  "concat (map (\<lambda>s. concat (map (\<lambda>d. if s = d then [] else map (f s d) ks) ys)) xs)
   = map (\<lambda>(s, d, k). f s d k) (filter (\<lambda>(s, d, k). s \<noteq> d) (List.product xs (List.product ys ks)))"
proof (induction xs)
  case (Cons x xs)
  have "concat (map (\<lambda>d. if x = d then [] else map (f x d) ks) ys)
      = map (\<lambda>(s, d, k). f s d k) (filter (\<lambda>(s, d, k). s \<noteq> d) (map (Pair x) (List.product ys ks)))"
    by (induction ys) (auto simp: filter_map o_def)
  then show ?case using Cons by simp
qed simp

definition spec_key :: "ib_spec \<Rightarrow> string \<times> string \<times> nat" where
  "spec_key s = (sp_source s, sp_destination s, sp_rail s)"

lemma spec_key_direction [simp]: "spec_key (direction h s d k) = (s, d, k)"
  by (simp add: spec_key_def direction_def)

lemma build_plan_product:
  assumes "build_ib_test_plan nodes hcas = Some plan" "plan \<noteq> []"
  shows "plan = map (\<lambda>(s, d, k). direction hcas s d k) (filter (\<lambda>(s, d, k). s \<noteq> d)
      (List.product (keep_first nodes) (List.product (keep_first nodes) [0..<length (hcas_of hcas (hd (keep_first nodes)))])))"
    and "\<forall>n\<in>set nodes. length (hcas_of hcas n) = length (hcas_of hcas (hd (keep_first nodes)))"
  using assms by (auto simp: build_ib_test_plan_def Let_def directions_as_product list_ex_iff keep_first_def split: if_splits)

text \<open>
  C0: the bandwidth plan is exact.  A plan that is built holds one test for every ordered pair of
  different selected nodes and every rail, and none twice; the adapters of a test are those of its
  rail on both sides.
\<close>

theorem plan_is_all_directions:
  assumes "build_ib_test_plan nodes hcas = Some plan" "plan \<noteq> []"
  shows "set plan = {direction hcas s d k | s d k. s \<in> set nodes \<and> d \<in> set nodes \<and> s \<noteq> d \<and> k < length (hcas_of hcas s)}
    \<and> distinct (map spec_key plan)"
proof -
  let ?l = "filter (\<lambda>(s, d, k). s \<noteq> d) (List.product (keep_first nodes) (List.product (keep_first nodes)
      [0..<length (hcas_of hcas (hd (keep_first nodes)))]))"
  note p = build_plan_product [OF assms]
  have k: "set (keep_first nodes) = set nodes" "distinct (keep_first nodes)" by (simp_all add: keep_first_def)
  have "map spec_key plan = ?l" unfolding p(1) by (auto simp: comp_def split_beta intro: map_idI)
  moreover have "distinct ?l" using k(2) by (simp add: distinct_product)
  moreover have "set plan = {direction hcas s d k | s d k. s \<in> set nodes \<and> d \<in> set nodes \<and> s \<noteq> d \<and> k < length (hcas_of hcas s)}"
    unfolding p(1) using p(2) k(1) by (fastforce simp: image_iff)
  ultimately show ?thesis by simp
qed

lemma plan_is_all_directions_witness:
  "\<exists>plan. build_ib_test_plan [''b'', ''a''] (\<lambda>_. Some [''mlx5_0'']) = Some plan \<and> length plan = 2
     \<and> set plan = {direction (\<lambda>_. Some [''mlx5_0'']) ''a'' ''b'' 0, direction (\<lambda>_. Some [''mlx5_0'']) ''b'' ''a'' 0}"
proof -
  let ?h = "\<lambda>_. Some [''mlx5_0'']"
  have b: "build_ib_test_plan [''b'', ''a''] ?h = Some [direction ?h ''b'' ''a'' 0, direction ?h ''a'' ''b'' 0]" by code_simp
  show ?thesis using plan_is_all_directions [OF b] b by (auto simp: hcas_of_def)
qed

section \<open>The status of a record\<close>

definition change_status :: "check_status \<Rightarrow> string \<Rightarrow> string" where
  "change_status s current = (if s = Pass then current else set_record_status s current)"

lemma add_check_status: "cl_status (add_check_to_record c r) = change_status (ck_status c) (cl_status r)"
  by (simp add: add_check_to_record_def change_status_def Let_def)

lemma add_check_table: "map_option cl_status (add_check n c t x) =
    (if x = n then map_option (change_status (ck_status c)) (map_option cl_status (t x)) else map_option cl_status (t x))"
  by (cases "t n") (auto simp: add_check_def add_check_status option.map_comp)

definition statuses_at :: "string \<Rightarrow> pair_result list \<Rightarrow> check_status list" where
  "statuses_at n rs = concat (map (\<lambda>r. (if sp_source (pr_spec r) = n then [pr_status r] else [])
     @ (if sp_destination (pr_spec r) = n then [pr_status r] else [])) rs)"

lemma record_pairs_status:
  "map_option cl_status (fold record_pair rs t n) = map_option (fold change_status (statuses_at n rs)) (map_option cl_status (t n))"
proof (induction rs arbitrary: t)
  case (Cons r rs)
  have "map_option cl_status (record_pair r t n) = map_option (fold change_status (statuses_at n [r])) (map_option cl_status (t n))"
    unfolding record_pair_def add_check_table by (simp add: statuses_at_def pair_check_def option.map_comp o_def option.map_ident)
  then show ?case using Cons.IH [of "record_pair r t"] by (simp add: statuses_at_def option.map_comp o_def)
qed (simp add: statuses_at_def option.map_id)

lemma fold_change_blocked: "Cancelled \<notin> set l \<Longrightarrow> fold change_status l ''BLOCKED'' = ''BLOCKED''"
  by (induction l) (auto simp: change_status_def set_record_status_def)

text \<open>Without a cancelled check the status depends on which statuses occur, not on their order.\<close>

lemma fold_change_status:
  "Cancelled \<notin> set l \<Longrightarrow> fold change_status l st =
     (if Fail \<in> set l then ''BLOCKED'' else if NotVerified \<in> set l \<and> st = ''READY'' then ''INCOMPLETE'' else st)"
proof (induction l arbitrary: st)
  case (Cons s l)
  then show ?case using fold_change_blocked [of l] by (cases s) (auto simp: change_status_def set_record_status_def)
qed simp

lemma fold_change_ready:
  "fold change_status l st = ''READY'' \<longleftrightarrow> st = ''READY'' \<and> set l \<subseteq> {Pass, NotRequested}"
proof (induction l arbitrary: st)
  case (Cons s l)
  then show ?case by (cases s) (auto simp: change_status_def set_record_status_def)
qed simp

text \<open>A cancelled and a failed test leave whatever the later one says.\<close>

lemma cancelled_record_depends_on_order:
  "fold change_status [Fail, Cancelled] ''READY'' = ''CANCELLED''" "fold change_status [Cancelled, Fail] ''READY'' = ''BLOCKED''"
  by (simp_all add: change_status_def set_record_status_def)

lemma set_statuses_at:
  "set (statuses_at n rs) = pr_status ` {r \<in> set rs. n \<in> {sp_source (pr_spec r), sp_destination (pr_spec r)}}"
  by (auto simp: statuses_at_def split: if_splits)

section \<open>The report\<close>

lemma pair_of_spec [simp]: "pr_spec (pair_of c sp port run) = sp"
  by (auto simp: pair_of_def run_ib_spec_def Let_def split: option.split bind_split)

lemma spec_verdict_requested: "fst (spec_verdict c run) \<noteq> NotRequested"
  by (simp add: spec_verdict_def Let_def evaluate_ib_write_bw_output_def split: option.split)

lemma pair_of_requested: "pr_status (pair_of c sp port run) \<noteq> NotRequested"
  using spec_verdict_requested by (auto simp: pair_of_def run_ib_spec_def Let_def split: option.split bind_split)

lemma pairs_of_set:
  "set (pairs_of c run plan order) = (\<lambda>i. pair_of c (plan ! i) (bw_port c + int i) (run i)) ` set order"
  by (simp add: pairs_of_def)

lemma pair_key_pair_of [simp]: "pair_key (pair_of c sp port run) = spec_key sp"
  by (simp add: pair_key_def spec_key_def)

lemma summary_order:
  assumes "distinct (map spec_key plan)" "mset o1 = mset o2" "set o1 \<subseteq> {..<length plan}"
  shows "sort_key pair_key (pairs_of c run plan o1) = sort_key pair_key (pairs_of c run plan o2)"
proof (rule sort_key_inj_key_eq [where f = pair_key, THEN trans, OF _ _ sorted_sort_key refl])
  show "mset (pairs_of c run plan o1) = mset (sort_key pair_key (pairs_of c run plan o2))"
    using assms(2) by (simp add: pairs_of_def)
  have "inj_on (\<lambda>i. spec_key (plan ! i)) (set o1)"
    using assms(1,3) by (auto simp: inj_on_def distinct_conv_nth subset_iff)
  then show "inj_on pair_key (set (pairs_of c run plan o1))"
    unfolding pairs_of_set by (auto simp: inj_on_def)
qed

lemma run_planned:
  assumes "run_ib_checks c cancelled states run order nodes t = Some (b, u)" "bw_prerequisites c cancelled states nodes = Planned plan"
  shows "b = bw_summary plan (pairs_of c run plan order)" "u = fold record_pair (pairs_of c run plan order) t"
  using assms by (simp_all add: run_ib_checks_def Let_def split: if_splits)

lemma planned_plan:
  assumes "bw_prerequisites c cancelled states nodes = Planned plan"
  shows "build_ib_test_plan nodes (chosen_hcas c states nodes) = Some plan" "plan \<noteq> []"
    "\<forall>n\<in>set nodes. state_passed states n" "int (length plan) \<le> bw_max_tests c"
  using assms by (simp_all add: bw_prerequisites_def Let_def list_ex_iff split: if_splits option.splits)

lemma planned_keys:
  assumes "bw_prerequisites c cancelled states nodes = Planned plan"
  shows "distinct (map spec_key plan)"
proof -
  note p = build_plan_product [OF planned_plan(1,2) [OF assms]]
  have "map spec_key plan = filter (\<lambda>(s, d, k). s \<noteq> d) (List.product (keep_first nodes) (List.product (keep_first nodes)
      [0..<length (hcas_of (chosen_hcas c states nodes) (hd (keep_first nodes)))]))"
    unfolding p(1) by (auto simp: comp_def split_beta intro: map_idI)
  then show ?thesis by (simp add: distinct_product keep_first_def)
qed

text \<open>
  C38: the bandwidth report does not depend on which test ends first.  For the same tests ending in
  two different orders the reports are equal, and unless a test was cancelled every node record
  ends with the same status.
\<close>

theorem report_ignores_completion_order:
  assumes "run_ib_checks c cancelled states run o1 nodes t = Some (b1, u1)"
    and "run_ib_checks c cancelled states run o2 nodes t = Some (b2, u2)"
    and "mset o1 = mset o2" "\<forall>plan. bw_prerequisites c cancelled states nodes = Planned plan \<longrightarrow> set o1 \<subseteq> {..<length plan}"
  shows "b1 = b2 \<and> (Cancelled \<notin> pr_status ` set (br_pairs b1) \<longrightarrow> (\<forall>n. map_option cl_status (u1 n) = map_option cl_status (u2 n)))"
proof (cases "bw_prerequisites c cancelled states nodes")
  case (Refusal st reason)
  then show ?thesis using assms(1,2) by (auto simp: run_ib_checks_def split: if_splits)
next
  case (Planned plan)
  note r1 = run_planned [OF assms(1) Planned] and r2 = run_planned [OF assms(2) Planned]
  have s: "sort_key pair_key (pairs_of c run plan o1) = sort_key pair_key (pairs_of c run plan o2)"
    using assms(3,4) Planned by (intro summary_order planned_keys [OF Planned]) auto
  have e: "set (pairs_of c run plan o1) = set (pairs_of c run plan o2)"
    using mset_eq_setD [OF assms(3)] by (simp add: pairs_of_set)
  have p: "set (br_pairs b1) = set (pairs_of c run plan o1)" unfolding r1 by (simp add: bw_summary_def Let_def)
  have same: "map_option cl_status (u1 n) = map_option cl_status (u2 n)"
    if "Cancelled \<notin> pr_status ` set (pairs_of c run plan o1)" for n
  proof -
    have k: "set (statuses_at n (pairs_of c run plan o1)) = set (statuses_at n (pairs_of c run plan o2))"
      unfolding set_statuses_at e ..
    have "Cancelled \<notin> set (statuses_at n (pairs_of c run plan o1))" using that unfolding set_statuses_at by blast
    note this this [unfolded k]
    note fold_change_status [OF this(1)] fold_change_status [OF this(2)]
    then have "fold change_status (statuses_at n (pairs_of c run plan o1)) = fold change_status (statuses_at n (pairs_of c run plan o2))"
      unfolding k by (intro ext) (rule trans [OF _ sym])
    then show ?thesis unfolding r1(2) r2(2) record_pairs_status by (rule arg_cong)
  qed
  show ?thesis
  proof (intro conjI impI allI)
    show "b1 = b2" unfolding r1(1) r2(1) bw_summary_def s ..
    fix n
    assume "Cancelled \<notin> pr_status ` set (br_pairs b1)"
    then show "map_option cl_status (u1 n) = map_option cl_status (u2 n)" unfolding p by (rule same)
  qed
qed

lemma ne_of_mem: "x \<in> A \<Longrightarrow> A \<noteq> {}"
  by blast

lemma image_pass:
  assumes "\<And>x. x \<in> A \<Longrightarrow> f x \<noteq> NotRequested"
  shows "f ` {x \<in> A. P x} \<subseteq> {Pass, NotRequested} \<longleftrightarrow> (\<forall>x\<in>A. P x \<longrightarrow> f x = Pass)"
proof
  assume s: "f ` {x \<in> A. P x} \<subseteq> {Pass, NotRequested}"
  show "\<forall>x\<in>A. P x \<longrightarrow> f x = Pass"
  proof (intro ballI impI)
    fix x assume "x \<in> A" "P x"
    then show "f x = Pass" using assms [of x] s by blast
  qed
qed auto

lemma aggregate_pass: "aggregate_status l = Pass \<longleftrightarrow> l \<noteq> [] \<and> set l \<subseteq> {Pass, NotRequested}"
proof
  assume "aggregate_status l = Pass"
  then have l: "l \<noteq> []" "Cancelled \<notin> set l" "Fail \<notin> set l" "NotVerified \<notin> set l"
    by (simp_all add: aggregate_status_def split: if_splits)
  have "s \<in> {Pass, NotRequested}" if "s \<in> set l" for s
    using that l(2-4) check_status.exhaust [of s] by blast
  then show "l \<noteq> [] \<and> set l \<subseteq> {Pass, NotRequested}" using l(1) by blast
qed (auto simp: aggregate_status_def)

text \<open>
  C39: a node stays ready only if every direction passed.  When the tests of a plan have all ended,
  a node that was ready is still ready exactly when every test from it or to it passed, and the
  report says PASS exactly when all tests of the plan did.
\<close>

theorem ready_means_every_direction_passed:
  assumes "run_ib_checks c cancelled states run order nodes t = Some (b, u)"
    and "bw_prerequisites c cancelled states nodes = Planned plan" "set order = {..<length plan}"
    and "t n = Some r" "cl_status r = ''READY''"
  shows "((map_option cl_status (u n) = Some ''READY'') \<longleftrightarrow>
      (\<forall>i<length plan. n \<in> {sp_source (plan ! i), sp_destination (plan ! i)}
         \<longrightarrow> pr_status (pair_of c (plan ! i) (bw_port c + int i) (run i)) = Pass))
    \<and> (br_status b = Pass \<longleftrightarrow> (\<forall>i<length plan. pr_status (pair_of c (plan ! i) (bw_port c + int i) (run i)) = Pass))"
proof (intro conjI)
  let ?r = "\<lambda>i. pair_of c (plan ! i) (bw_port c + int i) (run i)"
  let ?l = "pairs_of c run plan order"
  note r = run_planned [OF assms(1,2)]
  have l: "set ?l = ?r ` {..<length plan}" unfolding pairs_of_set assms(3) ..
  have q: "pr_status x \<noteq> NotRequested" if "x \<in> set ?l" for x
    using that pair_of_requested unfolding l by blast
  have "(map_option cl_status (u n) = Some ''READY'') \<longleftrightarrow> set (statuses_at n ?l) \<subseteq> {Pass, NotRequested}"
    unfolding r record_pairs_status using assms(4,5) fold_change_ready by simp
  also have "\<dots> \<longleftrightarrow> (\<forall>x\<in>set ?l. n \<in> {sp_source (pr_spec x), sp_destination (pr_spec x)} \<longrightarrow> pr_status x = Pass)"
    unfolding set_statuses_at by (rule image_pass) (rule q)
  also have "\<dots> \<longleftrightarrow> (\<forall>i<length plan. n \<in> {sp_source (plan ! i), sp_destination (plan ! i)} \<longrightarrow> pr_status (?r i) = Pass)"
    unfolding l ball_simps pair_of_spec by (simp only: lessThan_iff Ball_def)
  finally show "(map_option cl_status (u n) = Some ''READY'') \<longleftrightarrow>
      (\<forall>i<length plan. n \<in> {sp_source (plan ! i), sp_destination (plan ! i)} \<longrightarrow> pr_status (?r i) = Pass)" .
  have "plan \<noteq> []" by (rule planned_plan(2) [OF assms(2)])
  then have "0 \<in> set order" unfolding assms(3) by simp
  then have "set order \<noteq> {}" by (rule ne_of_mem)
  then have "set (map pr_status (sort_key pair_key ?l)) \<noteq> {}" unfolding set_map set_sort pairs_of_set image_is_empty .
  then have e: "map pr_status (sort_key pair_key ?l) \<noteq> []" by (metis list.set(1))
  have "br_status b = Pass \<longleftrightarrow> set (map pr_status (sort_key pair_key ?l)) \<subseteq> {Pass, NotRequested}"
    unfolding r bw_summary_def Let_def using e by (simp add: aggregate_pass)
  also have "\<dots> \<longleftrightarrow> (\<forall>x\<in>set ?l. pr_status x = Pass)" unfolding set_map set_sort
    using image_pass [of "set ?l" pr_status "\<lambda>_. True", OF q] by (simp only: simp_thms Collect_mem_eq)
  also have "\<dots> \<longleftrightarrow> (\<forall>i<length plan. pr_status (?r i) = Pass)"
    unfolding l ball_simps by (simp only: lessThan_iff Ball_def)
  finally show "br_status b = Pass \<longleftrightarrow> (\<forall>i<length plan. pr_status (?r i) = Pass)" .
qed

section \<open>A sample run\<close>

definition sample_bw :: bw_cfg where
  "sample_bw = \<lparr>bw_enabled = True, bw_tool = ''ib_write_bw'', bw_protocol = ''ib'', bw_device = None, bw_ib_port = 1, bw_gid = None,
     bw_port = 18515, bw_bytes = 1048576, bw_iterations = 1000, bw_minimum = None, bw_grace = 1, bw_timeout = 120,
     bw_concurrency = 1, bw_max_tests = 1024\<rparr>"

definition sample_states :: "(string \<times> ib_state_result) list" where
  "sample_states = map (\<lambda>n. (n, \<lparr>st_status = Pass, st_reason = [], st_devices = [], st_supported = [''mlx5_0'']\<rparr>)) [''a'', ''b'']"

definition sample_sentinel :: string where "sample_sentinel = ''__HCU_ENVCHECK_IB_RC_0__''"

definition sample_run :: "nat \<Rightarrow> spec_run option" where
  "sample_run i =
     (let good = (False, sample_sentinel, SshEnded 0 (''BW average'' @ [CHR 0x0A] @ ''1 1 1 2'' @ [CHR 0x0A] @ sample_sentinel @ ''=0'') [] False);
          lost = (False, sample_sentinel, SshEnded 0 [] [] False) in
      Some \<lparr>sr_server = Some good, sr_client = (if i = 0 then good else lost), sr_cancelled = False\<rparr>)"

lemma sample_bw_valid: "bw_valid sample_bw"
  by (simp add: bw_valid_def sample_bw_def safe_token_def safe_char_def is_word_char_def is_digit_def is_upper_def less_eq_char_def)

lemma sample_argv: "perftest_argv sample_bw server (Some ''mlx5_0'') port \<noteq> None"
  by (simp add: perftest_argv_def sample_bw_valid hca_name_def hca_char_def is_word_char_def is_digit_def is_upper_def less_eq_char_def)

definition sample_plan :: "ib_spec list" where
  "sample_plan = [direction (\<lambda>_. Some [''mlx5_0'']) ''a'' ''b'' 0, direction (\<lambda>_. Some [''mlx5_0'']) ''b'' ''a'' 0]"

lemma sample_planned: "bw_prerequisites sample_bw False sample_states [''a'', ''b''] = Planned sample_plan"
  by code_simp

lemma sample_out:
  "command_answer (False, sample_sentinel, SshEnded 0 (''BW average'' @ [CHR 0x0A] @ ''1 1 1 2'' @ [CHR 0x0A] @ sample_sentinel @ ''=0'') [] False)
     = \<lparr>co_code = 0, co_out = ''BW average'' @ [CHR 0x0A] @ ''1 1 1 2'' @ [CHR 0x0A], co_err = [], co_timed_out = False\<rparr>"
  "command_answer (False, sample_sentinel, SshEnded 0 [] [] False) = \<lparr>co_code = 255, co_out = [], co_err = [], co_timed_out = False\<rparr>"
  by code_simp+

lemma sample_bandwidth:
  "parse_verbs_average_gbps ((''BW average'' @ [CHR 0x0A] @ ''1 1 1 2'' @ [CHR 0x0A]) @ [CHR 0x0A]
     @ (''BW average'' @ [CHR 0x0A] @ ''1 1 1 2'' @ [CHR 0x0A]) @ [CHR 0x0A] @ [CHR 0x0A]) = Some 2"
proof -
  have f: "py_float_of ''2'' = Some (Fin 2)"
    by (simp add: py_float_of_def py_strip_def sign_split_def mantissa_def is_ws_def py_lower_def lower_char_def
      is_upper_def is_digit_def less_eq_char_def is_exp_mark_def nat_of_digits_def digit_val_def ten_to_def round_double_def)
  have w: "py_words (py_strip ''BW average'') = [''BW'', ''average'']" "py_words (py_strip ''1 1 1 2'') = [''1'', ''1'', ''1'', ''2'']"
    "py_words (py_strip []) = []" by code_simp+
  have r: "bandwidth_row ''BW average'' = []" "bandwidth_row ''1 1 1 2'' = [2]" "bandwidth_row [] = []"
    unfolding bandwidth_row_def w by (simp_all add: f is_digit_def less_eq_char_def)
  let ?s = "(''BW average'' @ [CHR 0x0A] @ ''1 1 1 2'' @ [CHR 0x0A]) @ [CHR 0x0A]
     @ (''BW average'' @ [CHR 0x0A] @ ''1 1 1 2'' @ [CHR 0x0A]) @ [CHR 0x0A] @ [CHR 0x0A]"
  have "py_splitlines ?s = [''BW average'', ''1 1 1 2'', [], ''BW average'', ''1 1 1 2'', [], []]" by code_simp
  moreover have "contains_sub ''BW average'' ?s" by code_simp
  ultimately show ?thesis unfolding parse_verbs_average_gbps_def by (simp add: r)
qed

lemma sample_minimum: "bw_minimum sample_bw = None"
  by (simp add: sample_bw_def)

lemma sample_pairs:
  "pr_status (pair_of sample_bw (sample_plan ! 0) 18515 (sample_run 0)) = Pass"
  "pr_status (pair_of sample_bw (sample_plan ! 1) 18516 (sample_run 1)) = Fail"
  using sample_argv sample_out sample_bandwidth sample_minimum
  by (simp_all add: pair_of_def run_ib_spec_def spec_verdict_def sample_run_def sample_plan_def direction_def hcas_of_def
      evaluate_ib_write_bw_output_def below_def Let_def)

definition sample_table :: record_table where
  "sample_table = (\<lambda>n. if n \<in> {''a'', ''b''} then Some \<lparr>cl_status = ''READY'', cl_checks = [], cl_findings = []\<rparr> else None)"

lemma sample_ib_run:
  "run_ib_checks sample_bw False sample_states run order [''a'', ''b''] sample_table
     = Some (bw_summary sample_plan (pairs_of sample_bw run sample_plan order), fold record_pair (pairs_of sample_bw run sample_plan order) sample_table)"
  by (simp add: run_ib_checks_def sample_bw_valid sample_planned) (simp add: sample_bw_def sample_plan_def Let_def)

lemma report_ignores_completion_order_witness:
  "\<exists>b u1 u2. run_ib_checks sample_bw False sample_states sample_run [0, 1] [''a'', ''b''] sample_table = Some (b, u1)
     \<and> run_ib_checks sample_bw False sample_states sample_run [1, 0] [''a'', ''b''] sample_table = Some (b, u2)
     \<and> map_option cl_status (u1 ''a'') = map_option cl_status (u2 ''a'')"
proof -
  let ?p = "\<lambda>o1. pairs_of sample_bw sample_run sample_plan o1" and ?o = "[0, 1] :: nat list" and ?q = "[1, 0] :: nat list"
  have c: "Cancelled \<notin> pr_status ` set (br_pairs (bw_summary sample_plan (?p ?o)))"
    using sample_pairs by (simp add: bw_summary_def Let_def pairs_of_def sample_bw_def)
  have l: "\<forall>plan. bw_prerequisites sample_bw False sample_states [''a'', ''b''] = Planned plan \<longrightarrow> set ?o \<subseteq> {..<length plan}"
    by (simp add: sample_planned sample_plan_def)
  show ?thesis
    using report_ignores_completion_order [OF sample_ib_run sample_ib_run _ l, of ?q sample_run] c
    by (simp add: sample_ib_run)
qed

lemma ready_means_every_direction_passed_witness:
  "\<exists>b u. run_ib_checks sample_bw False sample_states sample_run [1, 0] [''a'', ''b''] sample_table = Some (b, u)
     \<and> map_option cl_status (u ''a'') \<noteq> Some ''READY'' \<and> br_status b \<noteq> Pass"
proof -
  let ?q = "[1, 0] :: nat list"
  have r: "sample_table ''a'' = Some \<lparr>cl_status = ''READY'', cl_checks = [], cl_findings = []\<rparr>" by (simp add: sample_table_def)
  have n: "length sample_plan = 2" "bw_port sample_bw + int 1 = 18516" by (simp_all add: sample_plan_def sample_bw_def)
  have o1: "set ?q = {..<length sample_plan}" unfolding n by auto
  have "pr_status (pair_of sample_bw (sample_plan ! 1) (bw_port sample_bw + int 1) (sample_run 1)) \<noteq> Pass"
    unfolding n using sample_pairs(2) by simp
  moreover have "''a'' \<in> {sp_source (sample_plan ! 1), sp_destination (sample_plan ! 1)}" by (simp add: sample_plan_def direction_def)
  moreover have "1 < length sample_plan" unfolding n by simp
  ultimately show ?thesis
    using ready_means_every_direction_passed [OF sample_ib_run sample_planned o1 r] sample_ib_run by fastforce
qed

section \<open>What a pass rests on\<close>

lemma extract_code_line:
  "snd (extract_sentinel out sentinel) = Some n \<Longrightarrow> \<exists>l\<in>set (keep_lines [] out). sentinel_code sentinel l = Some n"
proof -
  assume s: "snd (extract_sentinel out sentinel) = Some n"
  let ?codes = "List.map_filter (sentinel_code sentinel) (keep_lines [] out)"
  have "?codes \<noteq> []" "last ?codes = n" using s by (simp_all add: extract_sentinel_def Let_def split: if_splits)
  then have "n \<in> set ?codes" using last_in_set by blast
  then show ?thesis by (auto simp: List.map_filter_def)
qed

definition proven_success :: "bool \<times> string \<times> ssh_end \<Rightarrow> bool" where
  "proven_success r =
     (case r of (cancelled, sentinel, e) \<Rightarrow> \<not> cancelled \<and> (\<exists>out err. e = SshEnded 0 out err False
        \<and> (\<exists>l\<in>set (keep_lines [] out). sentinel_code sentinel l = Some 0)))"

lemma zero_is_proven:
  assumes "co_code (command_answer r) = 0" "\<not> co_timed_out (command_answer r)"
  shows "proven_success r"
proof -
  obtain cancelled sentinel e where r: "r = (cancelled, sentinel, e)" by (cases r)
  have c: "\<not> cancelled" using assms(1) unfolding r by (auto simp: command_answer_def run_remote_command_def)
  show ?thesis
  proof (cases e)
    case (SshEnded code out err late)
    obtain kept remote where x: "extract_sentinel out sentinel = (kept, remote)" by (cases "extract_sentinel out sentinel")
    have z: "code = 0" "remote = Some 0" "\<not> late"
      using assms c unfolding r by (auto simp: command_answer_def run_remote_command_def SshEnded x Let_def split: if_splits option.splits)
    then have "\<exists>l\<in>set (keep_lines [] out). sentinel_code sentinel l = Some 0" using x by (intro extract_code_line) simp
    then show ?thesis unfolding r by (simp add: proven_success_def c SshEnded z)
  qed (use assms c r in \<open>simp_all add: command_answer_def run_remote_command_def\<close>)
qed

lemma write_bw_pass:
  "fst (evaluate_ib_write_bw_output code out err late minimum) = Pass \<longleftrightarrow>
     \<not> late \<and> code = 0 \<and> (\<exists>x. parse_verbs_average_gbps (out @ [CHR 0x0A] @ err) = Some x \<and> \<not> below minimum x)"
  by (auto simp: evaluate_ib_write_bw_output_def Let_def split: option.split)

text \<open>
  C40: a passed test is proven.  A bandwidth test counts as passed only if the task was not
  cancelled, both the server and the client ended with 0 and printed their end mark with 0 (a
  missing mark is never a success), and a bandwidth not below the minimum was read.
\<close>

theorem passed_test_is_proven:
  assumes "pr_status (pair_of c sp port (Some run)) = Pass"
  shows "\<not> sr_cancelled run \<and> (\<exists>server. sr_server run = Some server \<and> proven_success server)
    \<and> proven_success (sr_client run)
    \<and> (\<exists>x. pr_average (pair_of c sp port (Some run)) = Some x \<and> \<not> below (bw_minimum c) x)"
proof -
  have p: "fst (spec_verdict c run) = Pass" "pr_average (pair_of c sp port (Some run)) = snd (snd (spec_verdict c run))"
    using assms by (auto simp: pair_of_def run_ib_spec_def split: if_splits)
  let ?server = "case sr_server run of None \<Rightarrow> \<lparr>co_code = 125, co_out = [], co_err = [], co_timed_out = False\<rparr> | Some r \<Rightarrow> command_answer r"
  let ?client = "command_answer (sr_client run)"
  let ?v = "evaluate_ib_write_bw_output (if co_code ?client \<noteq> 0 then co_code ?client else co_code ?server)
      (co_out ?server @ [CHR 0x0A] @ co_out ?client) (co_err ?server @ [CHR 0x0A] @ co_err ?client)
      (co_timed_out ?client \<or> co_timed_out ?server) (bw_minimum c)"
  have c: "\<not> sr_cancelled run" and v: "fst ?v = Pass" "snd (snd (spec_verdict c run)) = snd (snd ?v)"
    using p(1) unfolding spec_verdict_def Let_def by (simp_all split: if_splits)
  have w: "\<not> co_timed_out ?client" "\<not> co_timed_out ?server" "co_code ?client = 0" "co_code ?server = 0"
    using v(1) unfolding write_bw_pass by (simp_all split: if_splits)
  obtain server where s: "sr_server run = Some server" using w(4) by (cases "sr_server run") auto
  obtain x where x: "parse_verbs_average_gbps ((co_out ?server @ [CHR 0x0A] @ co_out ?client) @ [CHR 0x0A] @ co_err ?server @ [CHR 0x0A] @ co_err ?client) = Some x"
      "\<not> below (bw_minimum c) x"
    using v(1) unfolding write_bw_pass by blast
  then have "pr_average (pair_of c sp port (Some run)) = Some x"
    unfolding p(2) v(2) using w by (simp add: evaluate_ib_write_bw_output_def)
  then show ?thesis using c s x(2) zero_is_proven [OF w(3,1)] zero_is_proven [of server] w(2,4) by simp
qed

lemma passed_test_is_proven_witness:
  "\<exists>run. sample_run 0 = Some run \<and> proven_success (sr_client run)
     \<and> (\<exists>x. pr_average (pair_of sample_bw (sample_plan ! 0) 18515 (Some run)) = Some x)"
proof -
  obtain run where r: "sample_run 0 = Some run" by (simp add: sample_run_def Let_def)
  from passed_test_is_proven [OF sample_pairs(1) [unfolded r]] r show ?thesis by blast
qed

section \<open>The state check\<close>

lemma ib_state_pass:
  "st_status (evaluate_ib_state_output code out late) = Pass \<longleftrightarrow>
     \<not> late \<and> code = 0 \<and> (\<exists>d\<in>set (parse_ibstat_output out). supported_hca (dv_name d))
     \<and> (\<forall>d\<in>set (parse_ibstat_output out). dv_ports d \<noteq> []
         \<and> (\<forall>p\<in>set (dv_ports d). port_value ''state'' p = ''Active'' \<and> port_value ''physical_state'' p = ''LinkUp''))"
  (is "?l \<longleftrightarrow> ?r")
proof -
  have ready: "\<not> port_inactive p \<and> \<not> port_incomplete p \<longleftrightarrow>
      port_value ''state'' p = ''Active'' \<and> port_value ''physical_state'' p = ''LinkUp''" for p
    by (auto simp: port_inactive_def port_incomplete_def)
  have e: "sort_key natural_key (filter supported_hca (map dv_name ds)) = [] \<longleftrightarrow> \<not> (\<exists>d\<in>set ds. supported_hca (dv_name d))" for ds
  proof -
    have "sort_key natural_key l = [] \<longleftrightarrow> l = []" for l using length_sort [of natural_key l] by (metis length_0_conv)
    then show ?thesis by (simp add: filter_empty_conv)
  qed
  let ?D = "parse_ibstat_output out"
  have q: "(\<forall>d\<in>set ?D. dv_ports d \<noteq> []
         \<and> (\<forall>p\<in>set (dv_ports d). port_value ''state'' p = ''Active'' \<and> port_value ''physical_state'' p = ''LinkUp''))
      \<longleftrightarrow> \<not> list_ex (\<lambda>d. list_ex port_inactive (dv_ports d)) ?D
        \<and> \<not> list_ex (\<lambda>d. dv_ports d = [] \<or> list_ex port_incomplete (dv_ports d)) ?D"
    unfolding ready [symmetric] list_ex_iff by blast
  have s: "(\<exists>d\<in>set ?D. supported_hca (dv_name d)) \<Longrightarrow> ?D \<noteq> []" by auto
  show ?thesis unfolding q
    by (cases late; cases "code = 0"; cases "\<exists>d\<in>set ?D. supported_hca (dv_name d)")
      (simp_all only: evaluate_ib_state_output_def Let_def e ib_state_result.simps if_True if_False simp_thms fst_conv snd_conv s,
       simp_all split: if_splits)
qed

text \<open>Every adapter that \<^verbatim>\<open>ibstat\<close> lists counts, also one that is not supported.\<close>

lemma unsupported_adapter_fails_the_check:
  "st_reason (evaluate_ib_state_output 0 (join_with [CHR 0x0A] [''CA '' @ [CHR 0x27] @ ''mlx5_0'' @ [CHR 0x27],
      ''Port 1:'', ''State: Active'', ''Physical state: LinkUp'', ''CA '' @ [CHR 0x27] @ ''hfi1_0'' @ [CHR 0x27],
      ''Port 1:'', ''State: Down'', ''Physical state: Disabled'']) False) = ''IB_PORT_NOT_ACTIVE''"
  by code_simp

end
