(* ===== verification/IpAddr.thy ===== *)
theory IpAddr
  imports HostExpr "HOL-Library.Code_Target_Nat"
begin

text \<open>
  What the sources use of Python's \<^verbatim>\<open>ipaddress\<close> module and of \<^verbatim>\<open>int(s, base)\<close>:
  reading addresses and networks from ASCII text, and membership.  An address is its version, its
  value and, for version 6, its scope; its text is not modelled, since equal texts of the module
  are equal addresses.
\<close>

section \<open>Numbers in a given base\<close>

definition is_hex :: "char \<Rightarrow> bool" where
  "is_hex c = (is_digit c \<or> lower_char c \<in> set ''abcdef'')"

definition hex_val :: "char \<Rightarrow> nat" where
  "hex_val c = (if is_digit c then digit_val c else of_char (lower_char c) - 87)"

definition nat_of_base :: "nat \<Rightarrow> string \<Rightarrow> nat" where
  "nat_of_base b s = foldl (\<lambda>n c. b * n + hex_val c) 0 s"

text \<open>Digits of a base with single underscores between them.\<close>

definition grouped :: "nat \<Rightarrow> string \<Rightarrow> nat option" where
  "grouped b s =
     (let parts = split_on (CHR ''_'') s in
      if list_all (\<lambda>p. p \<noteq> [] \<and> list_all (\<lambda>c. is_hex c \<and> hex_val c < b) p) parts then Some (nat_of_base b (concat parts)) else None)"

definition after_prefix :: "string \<Rightarrow> string" where
  "after_prefix s = (if is_prefix_of ''_'' s then tl s else s)"

definition split_sign :: "string \<Rightarrow> bool \<times> string" where
  "split_sign s = (if is_prefix_of ''-'' s then (True, tl s) else if is_prefix_of ''+'' s then (False, tl s) else (False, s))"

definition signed :: "bool \<Rightarrow> nat option \<Rightarrow> int option" where
  "signed neg n = map_option (\<lambda>k. if neg then - int k else int k) n"

text \<open>\<^verbatim>\<open>int(s, 0)\<close> and \<^verbatim>\<open>int(s, 16)\<close>; None is ValueError.\<close>

definition py_int_auto :: "string \<Rightarrow> int option" where
  "py_int_auto s =
     (case split_sign (py_strip s) of (neg, t) \<Rightarrow>
        signed neg
          (if is_prefix_of ''0x'' (py_lower t) then grouped 16 (after_prefix (drop 2 t))
           else if is_prefix_of ''0o'' (py_lower t) then grouped 8 (after_prefix (drop 2 t))
           else if is_prefix_of ''0b'' (py_lower t) then grouped 2 (after_prefix (drop 2 t))
           else (case grouped 10 t of None \<Rightarrow> None | Some n \<Rightarrow> if is_prefix_of ''0'' t \<and> n \<noteq> 0 then None else Some n)))"

definition py_int_hex :: "string \<Rightarrow> int option" where
  "py_int_hex s =
     (case split_sign (py_strip s) of (neg, t) \<Rightarrow>
        signed neg (if is_prefix_of ''0x'' (py_lower t) then grouped 16 (after_prefix (drop 2 t)) else grouped 16 t))"

section \<open>Addresses\<close>

record ip_addr =
  ip_v6 :: bool
  ip_value :: nat
  ip_scope :: "string option"

definition octet :: "string \<Rightarrow> nat option" where
  "octet s =
     (if s \<noteq> [] \<and> list_all is_digit s \<and> length s \<le> 3 \<and> (s = ''0'' \<or> \<not> is_prefix_of ''0'' s) \<and> nat_of_digits s \<le> 255
      then Some (nat_of_digits s) else None)"

fun all_some :: "'a option list \<Rightarrow> 'a list option" where
  "all_some [] = Some []"
| "all_some (None # xs) = None"
| "all_some (Some x # xs) = map_option ((#) x) (all_some xs)"

definition v4_value :: "string \<Rightarrow> nat option" where
  "v4_value s =
     (let parts = split_on (CHR ''.'') s in
      if length parts \<noteq> 4 then None
      else map_option (foldl (\<lambda>n k. 256 * n + k) 0) (all_some (map octet parts)))"

definition hextet :: "string \<Rightarrow> nat option" where
  "hextet s = (if s \<noteq> [] \<and> list_all is_hex s \<and> length s \<le> 4 then Some (nat_of_base 16 s) else None)"

text \<open>The last group may be an address of version 4; it counts as two groups.\<close>

definition v6_parts :: "string \<Rightarrow> (nat option list \<times> string list) option" where
  "v6_parts s =
     (let parts = split_on (CHR '':'') s in
      if length parts < 3 then None
      else if CHR ''.'' \<in> set (last parts) then
        (case v4_value (last parts) of
           None \<Rightarrow> None
         | Some v \<Rightarrow> Some (map hextet (butlast parts) @ [Some (v div 65536), Some (v mod 65536)], butlast parts @ [''x'', ''x'']))
      else Some (map hextet parts, parts))"

text \<open>The inner empty groups: at most one is allowed, it stands for the missing groups.\<close>

definition skips :: "string list \<Rightarrow> nat list" where
  "skips parts = filter (\<lambda>i. parts ! i = []) [1..<length parts - 1]"

definition v6_groups :: "nat option list \<times> string list \<Rightarrow> nat list option" where
  "v6_groups p =
     (let vals = fst p; parts = snd p; n = length parts in
      if 9 < n then None
      else case skips parts of
        [] \<Rightarrow> if n \<noteq> 8 \<or> hd parts = [] \<or> last parts = [] then None else all_some vals
      | [i] \<Rightarrow>
          (let hi = (if hd parts = [] then i - 1 else i); lo = (if last parts = [] then n - i - 2 else n - i - 1) in
           if hd parts = [] \<and> hi \<noteq> 0 \<or> last parts = [] \<and> lo \<noteq> 0 \<or> 8 < hi + lo + 1 then None
           else case (all_some (take hi vals), all_some (drop (n - lo) vals)) of
             (Some a, Some b) \<Rightarrow> Some (a @ replicate (8 - (hi + lo)) 0 @ b)
           | _ \<Rightarrow> None)
      | _ \<Rightarrow> None)"

definition v6_value :: "string \<Rightarrow> nat option" where
  "v6_value s = map_option (foldl (\<lambda>n k. 65536 * n + k) 0) (Option.bind (v6_parts s) v6_groups)"

definition ip4_of :: "string \<Rightarrow> ip_addr option" where
  "ip4_of s = (if CHR ''/'' \<in> set s then None else map_option (\<lambda>v. \<lparr>ip_v6 = False, ip_value = v, ip_scope = None\<rparr>) (v4_value s))"

definition ip6_of :: "string \<Rightarrow> ip_addr option" where
  "ip6_of s =
     (if CHR ''/'' \<in> set s then None
      else let t = takeWhile (\<lambda>c. c \<noteq> CHR ''%'') s; rest = dropWhile (\<lambda>c. c \<noteq> CHR ''%'') s in
        if rest \<noteq> [] \<and> (tl rest = [] \<or> CHR ''%'' \<in> set (tl rest)) then None
        else map_option (\<lambda>v. \<lparr>ip_v6 = True, ip_value = v, ip_scope = (if rest = [] then None else Some (tl rest))\<rparr>) (v6_value t))"

text \<open>\<^verbatim>\<open>ip_address\<close> tries version 4 first.\<close>

definition ip_of :: "string \<Rightarrow> ip_addr option" where
  "ip_of s = (case ip4_of s of Some a \<Rightarrow> Some a | None \<Rightarrow> ip6_of s)"

text \<open>The version 4 address inside \<^verbatim>\<open>::ffff:0:0/96\<close>.\<close>

definition ipv4_mapped :: "ip_addr \<Rightarrow> ip_addr option" where
  "ipv4_mapped a =
     (if ip_value a div 2 ^ 32 = 65535 then Some \<lparr>ip_v6 = False, ip_value = ip_value a mod 2 ^ 32, ip_scope = None\<rparr> else None)"

section \<open>Networks\<close>

record ip_net =
  nw_v6 :: bool
  nw_value :: nat
  nw_length :: nat

definition ip_bits :: "bool \<Rightarrow> nat" where
  "ip_bits v6 = (if v6 then 128 else 32)"

definition prefix_number :: "bool \<Rightarrow> string \<Rightarrow> nat option" where
  "prefix_number v6 s =
     (if s \<noteq> [] \<and> list_all is_digit s \<and> nat_of_digits s \<le> ip_bits v6 then Some (nat_of_digits s) else None)"

text \<open>A mask of version 4 may be written as an address, of ones first or of zeros first.\<close>

definition mask_length :: "nat \<Rightarrow> nat option" where
  "mask_length v = find (\<lambda>k. v = 2 ^ 32 - 2 ^ (32 - k)) [0..<33]"

definition mask_text :: "string \<Rightarrow> nat option" where
  "mask_text s =
     (case v4_value s of
        None \<Rightarrow> None
      | Some v \<Rightarrow> (case mask_length v of Some k \<Rightarrow> Some k | None \<Rightarrow> mask_length (2 ^ 32 - 1 - v)))"

definition net_parts :: "bool \<Rightarrow> string \<Rightarrow> (string \<times> nat) option" where
  "net_parts v6 s =
     (case split_on (CHR ''/'') s of
        [a] \<Rightarrow> Some (a, ip_bits v6)
      | [a, m] \<Rightarrow> (case prefix_number v6 m of
            Some k \<Rightarrow> Some (a, k)
          | None \<Rightarrow> if v6 then None else map_option (Pair a) (mask_text m))
      | _ \<Rightarrow> None)"

definition net_from :: "bool \<Rightarrow> string \<Rightarrow> ip_net option" where
  "net_from v6 s =
     (case net_parts v6 s of
        None \<Rightarrow> None
      | Some (a, k) \<Rightarrow>
          map_option (\<lambda>x. \<lparr>nw_v6 = v6, nw_value = ip_value x div 2 ^ (ip_bits v6 - k) * 2 ^ (ip_bits v6 - k), nw_length = k\<rparr>)
            (if v6 then ip6_of a else ip4_of a))"

text \<open>\<^verbatim>\<open>ip_network(s, strict=False)\<close>; None is ValueError.\<close>

definition net_of :: "string \<Rightarrow> ip_net option" where
  "net_of s = (case net_from False s of Some n \<Rightarrow> Some n | None \<Rightarrow> net_from True s)"

definition in_net :: "ip_addr \<Rightarrow> ip_net \<Rightarrow> bool" where
  "in_net a n =
     (ip_v6 a = nw_v6 n \<and>
      ip_value a div 2 ^ (ip_bits (nw_v6 n) - nw_length n) * 2 ^ (ip_bits (nw_v6 n) - nw_length n) = nw_value n)"

section \<open>Facts\<close>

lemma all_some_length: "all_some xs = Some ys \<Longrightarrow> length ys = length xs"
  by (induction xs arbitrary: ys rule: all_some.induct) auto

lemma all_some_bound: "all_some xs = Some ys \<Longrightarrow> (\<And>y. Some y \<in> set xs \<Longrightarrow> y < b) \<Longrightarrow> \<forall>y\<in>set ys. y < b"
  by (induction xs arbitrary: ys rule: all_some.induct) auto

lemma foldl_base_bound:
  "\<forall>k\<in>set ks. k < b \<Longrightarrow> n < b ^ m \<Longrightarrow> foldl (\<lambda>n k. b * n + k) n ks < b ^ (m + length ks)" for b :: nat
proof (induction ks arbitrary: n m)
  case (Cons k ks)
  have "b * n + k < b * (n + 1)" using Cons.prems by simp
  also have "\<dots> \<le> b * b ^ m" using Cons.prems(2) by (intro mult_left_mono) auto
  finally have "b * n + k < b ^ Suc m" by simp
  then show ?case using Cons.IH [of "b * n + k" "Suc m"] Cons.prems(1) by simp
qed simp

text \<open>An address read from text fits its version.\<close>

lemma v4_value_bound: "v4_value s = Some v \<Longrightarrow> v < 2 ^ 32"
proof -
  assume "v4_value s = Some v"
  then obtain ks where k: "length (split_on (CHR ''.'') s) = 4" "all_some (map octet (split_on (CHR ''.'') s)) = Some ks"
      "v = foldl (\<lambda>n k. 256 * n + k) 0 ks"
    by (auto simp: v4_value_def Let_def split: if_splits)
  have "\<forall>k\<in>set ks. k < 256" by (rule all_some_bound [OF k(2)]) (auto simp: octet_def split: if_splits)
  from foldl_base_bound [OF this, of 0 0] all_some_length [OF k(2)] k(1,3) show ?thesis by simp
qed

text \<open>Membership is an interval: the address lies in the block that the network begins.\<close>

lemma in_net_interval:
  assumes "net_from v6 s = Some n"
  shows "in_net a n \<longleftrightarrow> ip_v6 a = v6 \<and> nw_value n \<le> ip_value a \<and> ip_value a < nw_value n + 2 ^ (ip_bits v6 - nw_length n)"
proof -
  obtain x where v: "nw_v6 n = v6" "nw_value n = x * 2 ^ (ip_bits v6 - nw_length n)"
    using assms by (auto simp: net_from_def split: option.splits prod.splits)
  let ?b = "2 ^ (ip_bits v6 - nw_length n) :: nat"
  have "ip_value a div ?b * ?b = x * ?b \<longleftrightarrow> x * ?b \<le> ip_value a \<and> ip_value a < x * ?b + ?b"
  proof
    assume "ip_value a div ?b * ?b = x * ?b"
    then have "ip_value a = x * ?b + ip_value a mod ?b" by (metis div_mult_mod_eq)
    moreover have "ip_value a mod ?b < ?b" by simp
    ultimately show "x * ?b \<le> ip_value a \<and> ip_value a < x * ?b + ?b" by linarith
  next
    assume i: "x * ?b \<le> ip_value a \<and> ip_value a < x * ?b + ?b"
    then have "ip_value a div ?b = x" by (intro div_nat_eqI) (auto simp: algebra_simps)
    then show "ip_value a div ?b * ?b = x * ?b" by simp
  qed
  then show ?thesis unfolding in_net_def v by auto
qed

lemma sample_addresses:
  "ip_of ''10.0.0.7'' = Some \<lparr>ip_v6 = False, ip_value = 167772167, ip_scope = None\<rparr>"
  "ip_of ''::ffff:10.0.0.7'' = Some \<lparr>ip_v6 = True, ip_value = 65535 * 2 ^ 32 + 167772167, ip_scope = None\<rparr>"
  "ip_of ''fe80::1%eth0'' = Some \<lparr>ip_v6 = True, ip_value = 65152 * 2 ^ 112 + 1, ip_scope = Some ''eth0''\<rparr>"
  "ip_of ''::'' = Some \<lparr>ip_v6 = True, ip_value = 0, ip_scope = None\<rparr>"
  "ip_of ''1:2:3:4:5:6:7::'' = ip_of ''1:2:3:4:5:6:7:0''"
  "ip_of ''10.0.0.07'' = None" "ip_of ''1::2::3'' = None" "ip_of '':1:2:3:4:5:6:7'' = None" "ip_of ''1:2:3'' = None"
  "map_option nw_length (net_of ''10.1.2.3/255.255.0.0'') = Some 16"
  "map_option nw_value (net_of ''10.1.2.3/16'') = Some (10 * 2 ^ 24 + 2 ^ 16)"
  "net_of ''10.0.0.0/33'' = None"
  by code_simp+

end
