(* ===== verification/RocePolicy.thy ===== *)
theory RocePolicy
  imports IpAddr JsonTree LogParser
begin

text \<open>
  The RoCE check (\<^verbatim>\<open>roce_health.py\<close>), first part: reading values, validating and normalising a
  policy, and parsing the output of the commands.  Documents are JSON trees; rates are real numbers;
  None stands for ValueError where the code raises it.
\<close>

section \<open>Reading values\<close>

definition is_lower :: "char \<Rightarrow> bool" where
  "is_lower c = (CHR ''a'' \<le> c \<and> c \<le> CHR ''z'')"

definition upper_char :: "char \<Rightarrow> char" where
  "upper_char c = (if is_lower c then char_of (of_char c - 32 :: nat) else c)"

definition py_upper :: "string \<Rightarrow> string" where
  "py_upper s = map upper_char s"

definition or_blank :: "jval \<Rightarrow> string" where
  "or_blank v = (if py_true v then py_str v else [])"

definition without :: "char \<Rightarrow> string \<Rightarrow> string" where
  "without c s = filter (\<lambda>x. x \<noteq> c) s"

definition as_int :: "jval \<Rightarrow> int option" where
  "as_int v = (case v of JvNum n \<Rightarrow> Some n | JvText s \<Rightarrow> py_int_auto s | _ \<Rightarrow> None)"

definition mtu_of :: "jval \<Rightarrow> int option" where
  "mtu_of v =
     (let digits = takeWhile is_digit (dropWhile (\<lambda>c. \<not> is_digit c) (or_blank v)) in
      if digits = [] \<or> nat_of_digits digits = 0 then None else Some (int (nat_of_digits digits)))"

definition cls_of :: "string \<Rightarrow> rx" where
  "cls_of s = Cls (\<lambda>c. lower_char c \<in> set s)"

definition decimal_rx :: rx where
  "decimal_rx = Seq (plus dig) (opt (Seq (Txt ''.'') (plus dig)))"

text \<open>A text in any case.\<close>

definition any_case :: "string \<Rightarrow> rx" where
  "any_case w = seqs (map (\<lambda>c. cls_of [c]) w)"

definition rate_rx :: rx where
  "rate_rx = seqs [Grp 1 decimal_rx, Star ws, opt (Grp 2 (cls_of ''kmgt'')), Star ws, any_case ''b'', opt (any_case ''it''),
     Alt (any_case ''/s'') (Alt (any_case ''/sec'') (any_case ''ps''))]"

definition real_of_text :: "string \<Rightarrow> real option" where
  "real_of_text s = (case py_float_of s of Some (Fin x) \<Rightarrow> Some x | _ \<Rightarrow> None)"

definition unit_factor :: "string option \<Rightarrow> real" where
  "unit_factor u =
     (case u of None \<Rightarrow> 1 / 1000
      | Some s \<Rightarrow> if py_lower s = ''k'' then 1 / 1000 else if py_lower s = ''m'' then 1 else if py_lower s = ''g'' then 1000 else 1000000)"

definition rate_mbps :: "jval \<Rightarrow> real option" where
  "rate_mbps v =
     (let s = py_strip (or_blank v) in
      if rx_fullmatch decimal_rx s \<noteq> None then real_of_text s
      else case rx_search rate_rx s of
        None \<Rightarrow> None
      | Some m \<Rightarrow> map_option (\<lambda>x. x * unit_factor (rx_group 2 m)) (real_of_text (cap_text 1 m)))"

definition link_state :: "jval \<Rightarrow> string" where
  "link_state v =
     (let s = or_blank v; rest = dropWhile (\<lambda>c. c \<noteq> CHR '':'') s in
      without (CHR ''_'') (py_upper (py_strip (if rest = [] then s else tl rest))))"

definition link_layer :: "jval \<Rightarrow> string" where
  "link_layer v =
     (let s = without (CHR ''_'') (py_upper (py_strip (or_blank v))) in if s \<in> {''ETHERNET'', ''INFINIBAND''} then s else ''UNKNOWN'')"

definition gid_of :: "jval \<Rightarrow> ip_addr option" where
  "gid_of v = (case ip6_of (py_strip (or_blank v)) of None \<Rightarrow> None | Some a \<Rightarrow> if ip_value a = 0 then None else Some a)"

definition gid_version :: "jval \<Rightarrow> string option" where
  "gid_version v =
     (let s = py_lower (py_strip (or_blank v)) in
      if contains_sub ''roce v2'' s then Some ''v2'' else if contains_sub ''roce v1'' s then Some ''v1'' else None)"

definition normalize_family :: "jval \<Rightarrow> string" where
  "normalize_family v =
     (let s = py_lower (py_strip (or_blank v)) in
      if s \<in> {''inet'', ''4''} then ''ipv4'' else if s \<in> {''inet6'', ''6''} then ''ipv6'' else s)"

definition list_value :: "jval \<Rightarrow> jval list option" where
  "list_value v = (case v of JvText s \<Rightarrow> Some [v] | JvList l \<Rightarrow> Some l | _ \<Rightarrow> None)"

section \<open>The policy\<close>

type_synonym prio_map = "(int \<times> int) list"

type_synonym app_map = "(string \<times> prio_map) list"

record roce_policy =
  rp_protocol :: "string option"
  rp_versions :: "string list option"
  rp_families :: "string list option"
  rp_prefixes :: "ip_net list option"
  rp_vlans :: "int list option"
  rp_mtu :: "int option"
  rp_rate :: "int option"
  rp_lossless :: "int list option"
  rp_dscp :: "prio_map option"
  rp_app :: "app_map option"
  rp_tc :: "prio_map option"
  rp_dcbx :: "string list option"
  rp_pause :: "(bool \<times> bool) option"
  rp_fec :: "string list option"

definition policy_keys :: "string list" where
  "policy_keys = [''protocol'', ''versions'', ''address_families'', ''allowed_prefixes'', ''vlan_ids'', ''minimum_mtu'',
     ''minimum_rate_mbps'', ''lossless_priorities'', ''dscp_to_priority'', ''app_mappings'', ''priority_to_tc'', ''dcbx_mode'',
     ''global_pause'', ''fec_mode'']"

definition put_prio :: "int \<Rightarrow> int option \<Rightarrow> int option \<Rightarrow> prio_map option \<Rightarrow> prio_map option" where
  "put_prio key_max key prio acc =
     (case (acc, key, prio) of
        (Some d, Some k, Some p) \<Rightarrow> if 0 \<le> k \<and> k \<le> key_max \<and> 0 \<le> p \<and> p \<le> 7 then Some (dict_update k p d) else None
      | _ \<Rightarrow> None)"

definition priority_map :: "jval \<Rightarrow> int \<Rightarrow> prio_map option" where
  "priority_map v key_max =
     (case v of
        JvObj d \<Rightarrow> foldl (\<lambda>acc (key, p). put_prio key_max (as_int (JvText key)) (as_int p) acc) (Some []) d
      | _ \<Rightarrow> None)"

definition selector_aliases :: "(string \<times> string) list" where
  "selector_aliases =
     [(''dscp'', ''dscp-prio''), (''dscp-prio'', ''dscp-prio''), (''pcp'', ''pcp-prio''), (''pcp-prio'', ''pcp-prio''),
      (''port'', ''port-prio''), (''port-prio'', ''port-prio''), (''stream-port'', ''stream-port-prio''),
      (''stream-port-prio'', ''stream-port-prio''), (''dgram-port'', ''dgram-port-prio''), (''dgram-port-prio'', ''dgram-port-prio''),
      (''ethertype'', ''ethtype-prio''), (''ethtype'', ''ethtype-prio''), (''ethtype-prio'', ''ethtype-prio'')]"

definition selector_max :: "string \<Rightarrow> int" where
  "selector_max s = (if s = ''dscp-prio'' then 63 else if s = ''pcp-prio'' then 7 else 65535)"

text \<open>\<open>_app_selector_key\<close>, on the texts it is called with.\<close>

definition app_selector_key :: "string \<Rightarrow> string \<Rightarrow> int option" where
  "app_selector_key v selector =
     (let s = py_lower (py_strip v);
          n = (if selector = ''ethtype-prio'' then py_int_hex (if is_prefix_of ''0x'' s then drop 2 s else s) else py_int_auto s) in
      case n of None \<Rightarrow> None | Some k \<Rightarrow> if 0 \<le> k \<and> k \<le> selector_max selector then Some k else None)"

definition app_mapping :: "string \<Rightarrow> jval \<Rightarrow> prio_map option" where
  "app_mapping selector v =
     (case v of
        JvObj d \<Rightarrow> foldl (\<lambda>acc (key, p). put_prio (selector_max selector) (app_selector_key key selector) (as_int p) acc) (Some []) d
      | _ \<Rightarrow> None)"

definition put_selector :: "app_map option \<Rightarrow> string \<times> jval \<Rightarrow> app_map option" where
  "put_selector acc entry =
     (case (acc, map_of selector_aliases (py_lower (py_strip (fst entry)))) of
        (Some d, Some selector) \<Rightarrow>
          if selector \<in> fst ` set d then None else map_option (\<lambda>mp. d @ [(selector, mp)]) (app_mapping selector (snd entry))
      | _ \<Rightarrow> None)"

definition normalize_app_policy :: "jval \<Rightarrow> app_map option" where
  "normalize_app_policy v =
     (case v of
        JvObj d \<Rightarrow> (case foldl put_selector (Some []) d of Some r \<Rightarrow> if r = [] then None else Some r | None \<Rightarrow> None)
      | _ \<Rightarrow> None)"

definition drop_roce :: "string \<Rightarrow> string" where
  "drop_roce s = (if is_prefix_of ''roce-'' s then drop 5 s else s)"

text \<open>The items of a policy, one function each.\<close>

definition norm_protocol :: "jval \<Rightarrow> string option" where
  "norm_protocol v =
     (let s = map (\<lambda>c. if c = CHR ''_'' then CHR ''-'' else c) (py_lower (py_strip (py_str v))) in
      if s \<in> {''roce'', ''roce-v1'', ''roce-v2''} then Some s else None)"

definition norm_words :: "(jval \<Rightarrow> string) \<Rightarrow> string list \<Rightarrow> jval \<Rightarrow> string list option" where
  "norm_words f allowed v =
     (case list_value v of None \<Rightarrow> None
      | Some l \<Rightarrow> if l = [] \<or> allowed \<noteq> [] \<and> \<not> set (map f l) \<subseteq> set allowed then None else Some (sorted_set (map f l)))"

definition norm_prefixes :: "jval \<Rightarrow> ip_net list option" where
  "norm_prefixes v =
     (case list_value v of None \<Rightarrow> None
      | Some l \<Rightarrow> (case all_some (map (net_of \<circ> py_str) l) of Some ns \<Rightarrow> if ns = [] then None else Some ns | None \<Rightarrow> None))"

definition norm_ints :: "int \<Rightarrow> jval \<Rightarrow> int list option" where
  "norm_ints limit v =
     (case list_value v of None \<Rightarrow> None
      | Some l \<Rightarrow> (case all_some (map as_int l) of
            Some ns \<Rightarrow> if list_all (\<lambda>n. 0 \<le> n \<and> n \<le> limit) ns then Some (sorted_set ns) else None
          | None \<Rightarrow> None))"

definition norm_positive :: "jval \<Rightarrow> int option" where
  "norm_positive v = (case as_int v of Some n \<Rightarrow> if 0 < n then Some n else None | None \<Rightarrow> None)"

definition norm_pause :: "jval \<Rightarrow> (bool \<times> bool) option" where
  "norm_pause v =
     (case v of
        JvBool b \<Rightarrow> Some (b, b)
      | JvText s \<Rightarrow> (let w = py_lower (py_strip s) in if w \<in> {''on'', ''off''} then Some (w = ''on'', w = ''on'') else None)
      | JvObj d \<Rightarrow>
          if set (map fst d) = {''rx'', ''tx''}
          then (case (map_of d ''rx'', map_of d ''tx'') of (Some (JvBool r), Some (JvBool x)) \<Rightarrow> Some (r, x) | _ \<Rightarrow> None)
          else None
      | _ \<Rightarrow> None)"

definition lower_word :: "jval \<Rightarrow> string" where
  "lower_word v = py_lower (py_strip (py_str v))"

definition item_of :: "fields \<Rightarrow> string \<Rightarrow> (jval \<Rightarrow> 'a option) \<Rightarrow> 'a option option" where
  "item_of d key f = (case map_of d key of None \<Rightarrow> Some None | Some v \<Rightarrow> map_option Some (f v))"

definition same_map :: "prio_map \<Rightarrow> prio_map \<Rightarrow> bool" where
  "same_map a b = (set a = set b)"

definition dscp_of :: "app_map \<Rightarrow> prio_map" where
  "dscp_of apps = (case map_of apps ''dscp-prio'' of None \<Rightarrow> [] | Some d \<Rightarrow> d)"

definition no_policy :: roce_policy where
  "no_policy = \<lparr>rp_protocol = None, rp_versions = None, rp_families = None, rp_prefixes = None, rp_vlans = None, rp_mtu = None,
     rp_rate = None, rp_lossless = None, rp_dscp = None, rp_app = None, rp_tc = None, rp_dcbx = None, rp_pause = None, rp_fec = None\<rparr>"

definition policy_of_fields :: "fields \<Rightarrow> roce_policy option" where
  "policy_of_fields d =
     (case (item_of d ''protocol'' norm_protocol, item_of d ''versions'' (norm_words (drop_roce \<circ> lower_word) [''v1'', ''v2'']),
            item_of d ''address_families'' (norm_words normalize_family [''ipv4'', ''ipv6'']), item_of d ''allowed_prefixes'' norm_prefixes,
            item_of d ''vlan_ids'' (norm_ints 4094), item_of d ''minimum_mtu'' norm_positive, item_of d ''minimum_rate_mbps'' norm_positive) of
        (Some a, Some b, Some c, Some e, Some f, Some g, Some h) \<Rightarrow>
          (case (item_of d ''lossless_priorities'' (norm_ints 7), item_of d ''dscp_to_priority'' (\<lambda>v. priority_map v 63),
                 item_of d ''app_mappings'' normalize_app_policy, item_of d ''priority_to_tc'' (\<lambda>v. priority_map v 7),
                 item_of d ''dcbx_mode'' (norm_words lower_word []), item_of d ''global_pause'' norm_pause,
                 item_of d ''fec_mode'' (norm_words lower_word [])) of
             (Some i, Some j, Some k, Some l, Some m, Some n, Some q) \<Rightarrow>
               if (case (j, k) of (Some dscp, Some apps) \<Rightarrow> \<not> same_map (dscp_of apps) dscp | _ \<Rightarrow> False) then None
               else Some \<lparr>rp_protocol = a, rp_versions = b, rp_families = c, rp_prefixes = e, rp_vlans = f, rp_mtu = g, rp_rate = h,
                  rp_lossless = i, rp_dscp = j, rp_app = k, rp_tc = l, rp_dcbx = m, rp_pause = n, rp_fec = q\<rparr>
           | _ \<Rightarrow> None)
      | _ \<Rightarrow> None)"

definition normalize_roce_policy :: "jval option \<Rightarrow> roce_policy option" where
  "normalize_roce_policy p =
     (case p of
        None \<Rightarrow> Some no_policy
      | Some (JvObj d) \<Rightarrow> if set (map fst d) \<subseteq> set policy_keys then policy_of_fields d else None
      | _ \<Rightarrow> None)"

section \<open>The output of the commands\<close>

datatype evidence = MissingEv | FailedEv | TruncatedEv | CompleteEv | EmptyEv

definition command_evidence :: "jval \<Rightarrow> evidence \<times> string" where
  "command_evidence v =
     (case v of
        JvObj d \<Rightarrow>
          (let out = or_blank (get_field d ''stdout'' JvNull); s = py_strip out in
           if get_field d ''rc'' JvNull \<notin> {JvNum 0, JvBool False} then (FailedEv, out)
           else if list_ex (\<lambda>k. py_true (get_field d k JvNull)) [''output_truncated'', ''stdout_truncated'', ''stderr_truncated'', ''truncated'']
             then (TruncatedEv, s)
           else if s = [] then (EmptyEv, []) else (CompleteEv, s))
      | _ \<Rightarrow> (MissingEv, []))"

text \<open>\<^verbatim>\<open>re.finditer\<close>, for patterns that never match the empty text.\<close>

fun find_from :: "nat \<Rightarrow> rx \<Rightarrow> string \<Rightarrow> string \<Rightarrow> spot list" where
  "find_from 0 r p s = []"
| "find_from (Suc n) r p s =
     (case results (Grp 0 r) (At p s []) of
        m # _ \<Rightarrow> m # find_from n r (passed m) (ahead m)
      | [] \<Rightarrow> (case s of [] \<Rightarrow> [] | c # cs \<Rightarrow> find_from n r (c # p) cs))"

definition find_all :: "rx \<Rightarrow> string \<Rightarrow> spot list" where
  "find_all r s = find_from (Suc (length s)) r [] s"

fun after_sub :: "string \<Rightarrow> string \<Rightarrow> string" where
  "after_sub p [] = []"
| "after_sub p (c # cs) = (if is_prefix_of p (c # cs) then drop (length p) (c # cs) else after_sub p cs)"

definition number_pair_rx :: rx where
  "number_pair_rx = seqs [WordBound, Grp 1 (plus dig), Star ws, Txt '':'', Star ws, Grp 2 (plus dig), WordBound]"

definition state_pair_rx :: rx where
  "state_pair_rx = seqs [WordBound, Grp 1 (plus dig), Star ws, Txt '':'', Star ws, Grp 2 (plus (Cls is_lower)), WordBound]"

text \<open>
  A table of unique keys: what was read, whether a line of the table was seen, whether an entry was
  damaged, and the number of entries.
\<close>

record 'v table_state =
  tb_map :: "(nat \<times> 'v) list"
  tb_seen :: bool
  tb_invalid :: bool
  tb_count :: nat

definition table_entry :: "nat \<Rightarrow> ('v \<Rightarrow> bool) \<Rightarrow> 'v table_state \<Rightarrow> nat \<times> 'v \<Rightarrow> 'v table_state" where
  "table_entry key_max ok t e =
     (let t1 = t \<lparr>tb_count := Suc (tb_count t)\<rparr> in
      if key_max < fst e \<or> \<not> ok (snd e) \<or> fst e \<in> fst ` set (tb_map t) then t1 \<lparr>tb_invalid := True\<rparr>
      else t1 \<lparr>tb_map := tb_map t @ [e]\<rparr>)"

definition prio_line :: "string \<Rightarrow> (string \<Rightarrow> (nat \<times> 'v) list) \<Rightarrow> nat \<Rightarrow> ('v \<Rightarrow> bool) \<Rightarrow> 'v table_state \<Rightarrow> string \<Rightarrow> 'v table_state" where
  "prio_line label pairs key_max ok t line =
     (let s = py_lower line in
      if \<not> contains_sub label s then t
      else (let es = pairs (after_sub label s) in
        foldl (table_entry key_max ok) (t \<lparr>tb_seen := True, tb_invalid := tb_invalid t \<or> es = []\<rparr>) es))"

definition read_table :: "string \<Rightarrow> (string \<Rightarrow> (nat \<times> 'v) list) \<Rightarrow> nat \<Rightarrow> ('v \<Rightarrow> bool) \<Rightarrow> string list \<Rightarrow> 'v table_state" where
  "read_table label pairs key_max ok ls =
     foldl (prio_line label pairs key_max ok) \<lparr>tb_map = [], tb_seen = False, tb_invalid = False, tb_count = 0\<rparr> ls"

definition table_complete :: "nat \<Rightarrow> 'v table_state \<Rightarrow> bool" where
  "table_complete key_max t =
     (tb_seen t \<and> \<not> tb_invalid t \<and> tb_count t = Suc key_max \<and> set (map fst (tb_map t)) = {0..key_max})"

definition number_pairs :: "string \<Rightarrow> (nat \<times> nat) list" where
  "number_pairs s = map (\<lambda>m. (nat_of_digits (cap_text 1 m), nat_of_digits (cap_text 2 m))) (find_all number_pair_rx s)"

definition state_pairs :: "string \<Rightarrow> (nat \<times> string) list" where
  "state_pairs s = map (\<lambda>m. (nat_of_digits (cap_text 1 m), cap_text 2 m)) (find_all state_pair_rx s)"

definition parse_pairs :: "string \<Rightarrow> string \<Rightarrow> nat \<Rightarrow> (nat \<times> nat) list \<times> bool \<times> bool" where
  "parse_pairs s label key_max =
     (let t = read_table (py_lower label) number_pairs key_max (\<lambda>v. v \<le> 7) (py_splitlines s) in
      (tb_map t, tb_seen t, table_complete key_max t))"

definition parse_pfc :: "string \<Rightarrow> nat list \<times> bool \<times> bool" where
  "parse_pfc s =
     (let t = read_table ''prio-pfc'' state_pairs 7 (\<lambda>v. v \<in> {''on'', ''off''}) (py_splitlines s) in
      (sort (map fst (filter (\<lambda>e. snd e = ''on'') (tb_map t))), tb_seen t, table_complete 7 t))"

definition selector_rx :: rx where
  "selector_rx = seqs [WordBound, Grp 1 (seqs [Cls (\<lambda>c. is_lower (lower_char c)), Star (Cls (\<lambda>c. is_lower (lower_char c) \<or> c = CHR ''-'')),
     any_case ''-prio'']), WordBound]"

definition app_pair_rx :: rx where
  "app_pair_rx = seqs [WordBound, Grp 1 (Seq (opt (any_case ''0x'')) (plus (Cls is_hex))), Star ws, Txt '':'', Star ws,
     Grp 2 (plus dig), WordBound]"

text \<open>The mappings so far, what could not be read, and whether this selector had a readable pair.\<close>

type_synonym app_state = "app_map \<times> string list \<times> bool"

definition app_entry :: "string \<Rightarrow> string \<Rightarrow> app_state \<Rightarrow> spot \<Rightarrow> app_state" where
  "app_entry raw selector s m =
     (case s of (apps, bad, any) \<Rightarrow>
        (case (app_selector_key (cap_text 1 m) selector, as_int (JvText (cap_text 2 m))) of
           (Some k, Some p) \<Rightarrow>
             if p < 0 \<or> 7 < p then (apps, bad @ [raw @ '' '' @ cap_text 1 m @ '':'' @ cap_text 2 m], any)
             else (let d = (case map_of apps selector of None \<Rightarrow> [] | Some d \<Rightarrow> d) in
               case map_of d k of
                 Some q \<Rightarrow>
                   if q \<noteq> p then (dict_update selector d apps,
                       bad @ [raw @ '' conflicting '' @ cap_text 1 m @ '':'' @ show_int q @ ''/'' @ show_int p], True)
                   else (dict_update selector (dict_update k p d) apps, bad, True)
               | None \<Rightarrow> (dict_update selector (dict_update k p d) apps, bad, True))
         | _ \<Rightarrow> (apps, bad @ [raw @ '' '' @ cap_text 1 m @ '':'' @ cap_text 2 m], any)))"

definition app_fragment :: "string \<Rightarrow> string \<Rightarrow> app_map \<times> string list \<Rightarrow> app_map \<times> string list" where
  "app_fragment name fragment s =
     (let raw = py_lower name in
      case map_of selector_aliases raw of
        None \<Rightarrow> (fst s, snd s @ [py_strip (raw @ fragment)])
      | Some selector \<Rightarrow>
          (case foldl (app_entry raw selector) (fst s, snd s, False) (find_all app_pair_rx fragment) of
             (apps, bad, any) \<Rightarrow> (apps, if any then bad else bad @ [py_strip (raw @ fragment)])))"

text \<open>The texts between one selector of a line and the next.\<close>

fun fragments :: "spot list \<Rightarrow> (string \<times> string) list" where
  "fragments [] = []"
| "fragments [m] = [(cap_text 1 m, ahead m)]"
| "fragments (m # n # ms) =
     (cap_text 1 m, take (length (ahead m) - length (ahead n) - length (cap_text 0 n)) (ahead m)) # fragments (n # ms)"

definition parse_app_mappings :: "string \<Rightarrow> app_map \<times> string list" where
  "parse_app_mappings s =
     (case foldl (\<lambda>acc line. foldl (\<lambda>acc (name, fragment). app_fragment name fragment acc) acc (fragments (find_all selector_rx line)))
         ([], []) (py_splitlines s) of
        (apps, bad) \<Rightarrow> (apps, sorted_set bad))"

definition dcbx_modes :: "string list" where
  "dcbx_modes = [''host'', ''ieee'', ''cee'', ''static'', ''firmware'']"

definition dcbx_rx :: rx where
  "dcbx_rx = seqs [Alt (Seq (Txt ''mode'') (plus ws)) (Seq (Txt ''dcbx'') (plus ws)),
     Grp 1 (foldr Alt (map Txt (butlast dcbx_modes)) (Txt (last dcbx_modes))), WordBound]"

definition parse_dcbx :: "string \<Rightarrow> string option" where
  "parse_dcbx s =
     (let w = join_with '' '' (py_words (py_lower s)) in
      if w = [] then None
      else case rx_search dcbx_rx w of
        Some m \<Rightarrow> Some (cap_text 1 m)
      | None \<Rightarrow> find (\<lambda>mode. rx_search (seqs [WordBound, Txt mode, WordBound]) w \<noteq> None) dcbx_modes)"

text \<open>
  Patterns between the anchors of a line (\<^verbatim>\<open>re.M\<close>): a match begins at the start of a line and
  ends before a line feed or at the end of the text.
\<close>

definition line_matches :: "rx \<Rightarrow> string \<Rightarrow> string \<Rightarrow> spot list" where
  "line_matches r p s =
     (if p = [] \<or> hd p = CHR 0x0A
      then filter (\<lambda>m. ahead m = [] \<or> hd (ahead m) = CHR 0x0A) (results r (At p s [])) else [])"

fun line_find :: "nat \<Rightarrow> rx \<Rightarrow> string \<Rightarrow> string \<Rightarrow> spot list" where
  "line_find 0 r p s = []"
| "line_find (Suc n) r p s =
     (case line_matches r p s of
        m # _ \<Rightarrow> m # line_find n r (passed m) (ahead m)
      | [] \<Rightarrow> (case s of [] \<Rightarrow> [] | c # cs \<Rightarrow> line_find n r (c # p) cs))"

definition line_find_all :: "rx \<Rightarrow> string \<Rightarrow> spot list" where
  "line_find_all r s = line_find (Suc (length s)) r [] s"

definition pause_rx :: rx where
  "pause_rx = seqs [Star ws, Grp 1 (Alt (any_case ''rx'') (any_case ''tx'')), Star ws, Txt '':'', Star ws,
     Grp 2 (Alt (any_case ''on'') (any_case ''off'')), Star ws]"

definition parse_pause :: "string \<Rightarrow> (bool \<times> bool) option" where
  "parse_pause s =
     (let d = foldl (\<lambda>d m. dict_update (py_lower (cap_text 1 m)) (py_lower (cap_text 2 m) = ''on'') d) [] (line_find_all pause_rx s) in
      case (map_of d ''rx'', map_of d ''tx'') of (Some r, Some x) \<Rightarrow> Some (r, x) | _ \<Rightarrow> None)"

definition fec_rx :: "string \<Rightarrow> bool \<Rightarrow> rx" where
  "fec_rx label plural = seqs [Star ws, any_case label, (if plural then opt (any_case ''s'') else seqs []), Star ws, Txt '':'', Star ws,
     Grp 1 (Seq any_char (Lazy any_char)), Star ws]"

text \<open>The active and the configured encoding; the result is nothing when neither is there.\<close>

definition parse_fec :: "string \<Rightarrow> (string option \<times> string option) option" where
  "parse_fec s =
     (let value = (\<lambda>r. case line_find_all r s of [] \<Rightarrow> None | m # _ \<Rightarrow> Some (py_lower (py_strip (cap_text 1 m))));
          active = value (fec_rx ''active fec encoding'' False); configured = value (fec_rx ''configured fec encoding'' True) in
      if active = None \<and> configured = None then None else Some (active, configured))"

section \<open>Samples\<close>

lemma sample_parses:
  "parse_pfc ''prio-pfc 0:off 1:off 2:off 3:on 4:off 5:off 6:off 7:off'' = ([3], True, True)"
  "parse_pfc ''prio-pfc 0:off 1:off 2:off 3:on 3:on 5:off 6:off 7:off'' = ([3], True, False)"
  "parse_app_mappings ''dscp-prio 24:3 0x1a:3 foo-prio 1:2'' = ([(''dscp-prio'', [(24, 3), (26, 3)])], [''foo-prio 1:2''])"
  "parse_dcbx ''DCBX mode IEEE'' = Some ''ieee''"
  "parse_pause (''Pause parameters'' @ [CHR 0x0A] @ ''RX:  on'' @ [CHR 0x0A] @ ''TX:off'') = Some (True, False)"
  "parse_fec (''FEC parameters'' @ [CHR 0x0A] @ ''Active FEC encoding: RS '') = Some (Some ''rs'', None)"
  "link_state (JvText ''4: ACTIVE'') = ''ACTIVE''"
  by code_simp+

end
