(* ===== verification/RoceHealth.thy ===== *)
theory RoceHealth
  imports RocePolicy
begin

text \<open>
  The RoCE check (\<^verbatim>\<open>roce_health.py\<close>), second part: the evaluation of the collected
  configuration of one node against a policy, check by check in the order of the code.  A check is
  its identifier, status and reason; messages and copied evidence are left out.  Where the code
  iterates over a value that should be a list, a number or null raises TypeError there and is read
  as an empty list here.
\<close>

section \<open>Statuses\<close>

datatype roce_status = RPass | RUnvalidated | RUnknown | RFail

type_synonym roce_check = "string \<times> roce_status \<times> string"

definition status_order :: "roce_status \<Rightarrow> nat" where
  "status_order s = (case s of RPass \<Rightarrow> 0 | RUnvalidated \<Rightarrow> 1 | RUnknown \<Rightarrow> 2 | RFail \<Rightarrow> 3)"

definition overall :: "roce_status list \<Rightarrow> roce_status" where
  "overall l = foldl (\<lambda>a s. if status_order a < status_order s then s else a) RPass l"

section \<open>Documents\<close>

definition elements :: "jval \<Rightarrow> jval list" where
  "elements v = (case v of JvList l \<Rightarrow> l | JvObj d \<Rightarrow> map (JvText \<circ> fst) d | JvText s \<Rightarrow> map (\<lambda>c. JvText [c]) s | _ \<Rightarrow> [])"

definition field_of :: "fields \<Rightarrow> string \<Rightarrow> jval" where
  "field_of d key = get_field d key JvNull"

definition objects :: "jval \<Rightarrow> fields list" where
  "objects v = List.map_filter as_fields (elements v)"

definition object_of :: "jval \<Rightarrow> fields" where
  "object_of v = (case v of JvObj d \<Rightarrow> d | _ \<Rightarrow> [])"

definition or_value :: "jval \<Rightarrow> jval \<Rightarrow> jval" where
  "or_value a b = (if py_true a then a else b)"

type_synonym interfaces = "(string \<times> fields) list"

definition interfaces_of :: "fields \<Rightarrow> interfaces" where
  "interfaces_of network =
     foldl (\<lambda>d i. if py_true (field_of i ''name'') then dict_update (py_str (field_of i ''name'')) i d else d) []
       (objects (field_of network ''interfaces''))"

definition configuration_of :: "fields \<Rightarrow> fields" where
  "configuration_of i = object_of (field_of i ''roce_configuration'')"

section \<open>The layers of an interface\<close>

definition children :: "fields \<Rightarrow> string list" where
  "children i = sorted_set (map py_str (filter py_true (elements (field_of i ''bond_slaves'') @ elements (field_of i ''lower_interfaces''))))"

datatype walk_end = EndLeaf | EndCycle "string list" | EndMissing

function walk :: "interfaces \<Rightarrow> string \<Rightarrow> string list \<Rightarrow> (string list \<times> walk_end) list" where
  "walk ifs current path =
     (if current \<in> set path then [(path @ [current], EndCycle (dropWhile (\<lambda>n. n \<noteq> current) path @ [current]))]
      else case map_of ifs current of
        None \<Rightarrow> [(path @ [current], EndMissing)]
      | Some i \<Rightarrow>
          if children i = [] then [(path @ [current], EndLeaf)]
          else concat (map (\<lambda>child. walk ifs child (path @ [current])) (children i)))"
  by pat_completeness auto
termination
proof (relation "measure (\<lambda>(ifs, current, path). card (fst ` set ifs - set path))")
  fix ifs current path i child
  assume a: "current \<notin> set path" "map_of ifs current = Some i"
  then have "current \<in> fst ` set ifs - set path" by (force dest: map_of_SomeD)
  then have "fst ` set ifs - set (path @ [current]) \<subset> fst ` set ifs - set path" by auto
  then have "card (fst ` set ifs - set (path @ [current])) < card (fst ` set ifs - set path)" by (rule psubset_card_mono [rotated]) simp
  then show "((ifs, child, path @ [current]), ifs, current, path) \<in> measure (\<lambda>(ifs, current, path). card (fst ` set ifs - set path))" by simp
qed simp

declare walk.simps [simp del]

record roce_topology =
  tp_paths :: "string list list"
  tp_leaves :: "string list"
  tp_missing :: "string list"
  tp_cycles :: "string list list"
  tp_states :: "(string \<times> jval) list"
  tp_mtus :: "(string \<times> jval) list"
  tp_collected :: bool

definition fields_at :: "interfaces \<Rightarrow> string \<Rightarrow> fields" where
  "fields_at ifs name = (case map_of ifs name of None \<Rightarrow> [] | Some i \<Rightarrow> i)"

definition roce_topology_of :: "string \<Rightarrow> interfaces \<Rightarrow> roce_topology" where
  "roce_topology_of name ifs =
     (let ends = walk ifs name []; leaves = sorted_set (map (last \<circ> fst) ends);
          collected = object_of (field_of (configuration_of (fields_at ifs name)) ''topology'');
          seen = (\<lambda>leaf. object_of (field_of (object_of (field_of collected ''leaf_evidence'')) leaf)) in
      \<lparr>tp_paths = map fst ends, tp_leaves = leaves,
       tp_missing = sorted_set (map (last \<circ> fst) (filter (\<lambda>e. snd e = EndMissing) ends)),
       tp_cycles = concat (map (\<lambda>e. case snd e of EndCycle c \<Rightarrow> [c] | _ \<Rightarrow> []) ends),
       tp_states = map (\<lambda>leaf. (leaf, or_value (field_of (fields_at ifs leaf) ''local_link_status'')
          (or_value (field_of (seen leaf) ''local_link_status'') (JvText ''UNKNOWN'')))) leaves,
       tp_mtus = map (\<lambda>leaf. (leaf, or_value (field_of (fields_at ifs leaf) ''mtu'') (field_of (seen leaf) ''mtu''))) leaves,
       tp_collected = (collected \<noteq> [])\<rparr>)"

section \<open>Bindings\<close>

record gid_binding =
  gb_device :: string
  gb_port :: string
  gb_index :: jval
  gb_gid :: ip_addr
  gb_version :: string
  gb_netdev :: "string option"
  gb_up :: bool
  gb_rate :: "real option"
  gb_complete :: bool

record gid_scan =
  gs_bindings :: "gid_binding list"
  gs_ports :: nat
  gs_incomplete :: bool
  gs_unbound :: nat

definition port_complete :: "fields \<Rightarrow> bool" where
  "port_complete port =
     (let dflt = (case field_of port ''gids'' of JvList l \<Rightarrow> ''COMPLETE'' | _ \<Rightarrow> ''UNAVAILABLE'') in
      list_all (\<lambda>name. py_upper (py_str (or_value (field_of port name) (JvText dflt))) = ''COMPLETE'')
        [''gid_collection_status'', ''gid_type_collection_status'', ''gid_ndev_collection_status''])"

definition gid_entry :: "fields \<Rightarrow> fields \<Rightarrow> fields \<Rightarrow> gid_binding option" where
  "gid_entry device port entry =
     (case (gid_of (field_of entry ''gid''), gid_version (field_of entry ''type'')) of
        (Some gid, Some version) \<Rightarrow>
          (let netdev = py_strip (or_blank (field_of entry ''netdev'')) in
           Some \<lparr>gb_device = py_str (or_value (field_of device ''name'') (JvText ''UNKNOWN'')),
                 gb_port = py_str (or_value (field_of port ''port'') (JvText ''UNKNOWN'')),
                 gb_index = field_of entry ''index'', gb_gid = gid, gb_version = version,
                 gb_netdev = (if netdev = [] then None else Some netdev),
                 gb_up = (link_state (field_of port ''state'') = ''ACTIVE'' \<and> link_state (field_of port ''phys_state'') = ''LINKUP''),
                 gb_rate = rate_mbps (field_of port ''rate''), gb_complete = port_complete port\<rparr>)
      | _ \<Rightarrow> None)"

definition port_bindings :: "fields \<Rightarrow> fields \<Rightarrow> gid_binding list" where
  "port_bindings device port = List.map_filter (gid_entry device port) (objects (field_of port ''gids''))"

definition scan_port :: "fields \<Rightarrow> gid_scan \<Rightarrow> fields \<Rightarrow> gid_scan" where
  "scan_port device s port =
     (if link_layer (field_of port ''link_layer'') \<noteq> ''ETHERNET'' then s
      else (let bs = port_bindings device port in
        \<lparr>gs_bindings = gs_bindings s @ bs, gs_ports = Suc (gs_ports s), gs_incomplete = gs_incomplete s \<or> \<not> port_complete port,
         gs_unbound = gs_unbound s + (if port_complete port \<and> bs = [] then 1 else 0)\<rparr>))"

definition scan_gids :: "fields \<Rightarrow> gid_scan" where
  "scan_gids network =
     foldl (\<lambda>s device. foldl (scan_port device) s (objects (field_of device ''ports'')))
       \<lparr>gs_bindings = [], gs_ports = 0, gs_incomplete = False, gs_unbound = 0\<rparr> (objects (field_of network ''rdma_devices''))"

definition mapped_netdevs :: "gid_binding list \<Rightarrow> string list" where
  "mapped_netdevs bs = sorted_set (List.map_filter gb_netdev bs)"

section \<open>Protocol, versions, bindings\<close>

definition protocol_checks :: "roce_policy \<Rightarrow> gid_scan \<Rightarrow> roce_check list" where
  "protocol_checks pol s =
     [if gs_ports s = 0 then
        (''ROCE_PROTOCOL'', if rp_protocol pol \<noteq> None then RFail else RUnvalidated, ''ROCE_ETHERNET_PORT_NOT_FOUND'')
      else if gs_incomplete s then (''ROCE_PROTOCOL'', RUnknown, ''ROCE_GID_EVIDENCE_MISSING'')
      else if 0 < gs_unbound s \<or> gs_bindings s = [] then (''ROCE_PROTOCOL'', RFail, ''ROCE_GID_NOT_CONFIGURED'')
      else (''ROCE_PROTOCOL'', RPass, ''ROCE_PROTOCOL_CONFIRMED''),
      case rp_protocol pol of
        None \<Rightarrow> (''ROCE_POLICY_PROTOCOL'', RUnvalidated, ''ROCE_PROTOCOL_POLICY_NOT_PROVIDED'')
      | Some p \<Rightarrow>
          if gs_incomplete s \<and> gs_bindings s = [] then (''ROCE_POLICY_PROTOCOL'', RUnknown, ''ROCE_GID_EVIDENCE_MISSING'')
          else (let versions = map gb_version (gs_bindings s);
                    missed = (p = ''roce-v1'' \<and> ''v1'' \<notin> set versions \<or> p = ''roce-v2'' \<and> ''v2'' \<notin> set versions) in
            if missed then (''ROCE_POLICY_PROTOCOL'', RFail, ''ROCE_PROTOCOL_VERSION_MISMATCH'')
            else (''ROCE_POLICY_PROTOCOL'', RPass, ''ROCE_PROTOCOL_POLICY_MATCH''))]"

definition version_check :: "roce_policy \<Rightarrow> gid_scan \<Rightarrow> roce_check" where
  "version_check pol s =
     (let versions = set (map gb_version (gs_bindings s)) in
      case rp_versions pol of
        None \<Rightarrow> (''ROCE_VERSIONS'', RUnvalidated, ''ROCE_VERSION_POLICY_NOT_PROVIDED'')
      | Some allowed \<Rightarrow>
          if gs_bindings s = [] \<and> gs_incomplete s then (''ROCE_VERSIONS'', RUnknown, ''ROCE_GID_EVIDENCE_MISSING'')
          else if \<not> versions \<subseteq> set allowed \<or> versions \<inter> set allowed = {} then (''ROCE_VERSIONS'', RFail, ''ROCE_VERSION_POLICY_MISMATCH'')
          else (''ROCE_VERSIONS'', RPass, ''ROCE_VERSION_POLICY_MATCH''))"

definition netdev_checks :: "interfaces \<Rightarrow> gid_binding list \<Rightarrow> roce_check list" where
  "netdev_checks ifs bs =
     (let unmapped = filter (\<lambda>b. gb_netdev b = None) bs in
      if unmapped \<noteq> [] then
        [(''ROCE_GID_NETDEV_BINDINGS'', if list_all gb_complete unmapped then RFail else RUnknown, ''ROCE_GID_NETDEV_BINDING_MISSING'')]
      else if list_ex (\<lambda>n. map_of ifs n = None) (mapped_netdevs bs) then
        [(''ROCE_GID_NETDEV_BINDINGS'', RUnknown, ''ROCE_NETDEV_INVENTORY_MISSING'')]
      else if bs \<noteq> [] then [(''ROCE_GID_NETDEV_BINDINGS'', RPass, ''ROCE_GID_NETDEV_BINDINGS_VALID'')]
      else [])"

section \<open>Interfaces\<close>

record roce_interface =
  ri_name :: string
  ri_link :: string
  ri_mtu :: "int option"
  ri_rate :: "real option"
  ri_addresses :: "ip_addr list"
  ri_address_status :: string
  ri_vlan :: "int option \<times> string"
  ri_topology :: roce_topology

definition interface_vlan :: "fields \<Rightarrow> int option \<times> string" where
  "interface_vlan i =
     (let c = configuration_of i;
          candidates = [field_of i ''vlan_id'', field_of c ''vlan_id'', field_of (object_of (field_of i ''vlan'')) ''id''];
          valid = filter (\<lambda>n. 0 \<le> n \<and> n \<le> 4094) (List.map_filter as_int candidates) in
      case valid of
        n # _ \<Rightarrow> (Some n, ''COMPLETE'')
      | [] \<Rightarrow> (None, py_upper (py_str (or_value (field_of c ''vlan_collection_status'')
          (or_value (field_of i ''vlan_collection_status'') (JvText ''NOT_COLLECTED''))))))"

definition address_records :: "fields \<Rightarrow> ip_addr list \<times> string" where
  "address_records i =
     (let c = configuration_of i; raw = field_of c ''ip_addresses'';
          dflt = (case raw of JvList (v # vs) \<Rightarrow> ''COMPLETE'' | _ \<Rightarrow> ''NOT_RECORDED'') in
      (List.map_filter (\<lambda>d. ip_of (or_blank (field_of d ''local''))) (objects raw),
       py_upper (py_str (or_value (field_of c ''ip_address_collection_status'') (JvText dflt)))))"

definition interface_rate :: "gid_binding list \<Rightarrow> string \<Rightarrow> fields \<Rightarrow> real option" where
  "interface_rate bs name i =
     (let rates = List.map_filter gb_rate (filter (\<lambda>b. gb_netdev b = Some name) bs);
          other = (if rates = [] then None else Some (Min (set rates))) in
      case rate_mbps (field_of i ''speed_mbps'') of None \<Rightarrow> other | Some x \<Rightarrow> if x = 0 then other else Some x)"

definition interface_of :: "interfaces \<Rightarrow> gid_binding list \<Rightarrow> string \<Rightarrow> roce_interface option" where
  "interface_of ifs bs name =
     map_option (\<lambda>i.
       \<lparr>ri_name = name, ri_link = py_upper (py_str (or_value (field_of i ''local_link_status'') (JvText ''UNKNOWN''))),
        ri_mtu = mtu_of (field_of i ''mtu''), ri_rate = interface_rate bs name i, ri_addresses = fst (address_records i),
        ri_address_status = snd (address_records i), ri_vlan = interface_vlan i, ri_topology = roce_topology_of name ifs\<rparr>)
       (map_of ifs name)"

definition named :: "string \<Rightarrow> string \<Rightarrow> string" where
  "named kind name = kind @ '':'' @ name"

definition link_checks :: "roce_interface \<Rightarrow> roce_check list" where
  "link_checks r =
     (let tp = ri_topology r; states = map (py_upper \<circ> py_str \<circ> snd) (tp_states tp); cid = named ''ROCE_LEAVES'' (ri_name r) in
      [(named ''ROCE_LINK'' (ri_name r), if ri_link r = ''DOWN'' then RFail else if ri_link r \<noteq> ''UP'' then RUnknown else RPass,
          if ri_link r = ''DOWN'' then ''ROCE_NETDEV_LINK_DOWN'' else if ri_link r \<noteq> ''UP'' then ''ROCE_NETDEV_LINK_EVIDENCE_MISSING''
          else ''ROCE_NETDEV_LINK_UP''),
       if tp_cycles tp \<noteq> [] then (cid, RFail, ''ROCE_INTERFACE_TOPOLOGY_CYCLE'')
       else if tp_missing tp \<noteq> [] \<or> list_ex (\<lambda>st. st \<notin> {''UP'', ''DOWN''}) states then (cid, RUnknown, ''ROCE_LEAF_LINK_EVIDENCE_MISSING'')
       else if ''DOWN'' \<in> set states then (cid, RFail, ''ROCE_LEAF_LINK_DOWN'')
       else (cid, RPass, ''ROCE_LEAF_LINKS_UP'')])"

definition at_least :: "string \<Rightarrow> string \<Rightarrow> string \<Rightarrow> string \<Rightarrow> string \<Rightarrow> real option \<Rightarrow> real option \<Rightarrow> roce_check" where
  "at_least cid missing unset low good minimum v =
     (case v of None \<Rightarrow> (cid, RUnknown, missing)
      | Some x \<Rightarrow> (case minimum of None \<Rightarrow> (cid, RUnvalidated, unset)
          | Some m \<Rightarrow> if x < m then (cid, RFail, low) else (cid, RPass, good)))"

definition mtu_checks :: "roce_policy \<Rightarrow> roce_interface \<Rightarrow> roce_check list" where
  "mtu_checks pol r =
     (let tp = ri_topology r; mtus = map (mtu_of \<circ> snd) (tp_mtus tp); cid = named ''ROCE_LEAF_MTU'' (ri_name r) in
      (if \<not> tp_collected tp then []
       else if mtus = [] \<or> None \<in> set mtus then [(cid, RUnknown, ''ROCE_LEAF_MTU_EVIDENCE_MISSING'')]
       else (case rp_mtu pol of
            None \<Rightarrow> [(cid, RUnvalidated, ''ROCE_MINIMUM_MTU_NOT_PROVIDED'')]
          | Some m \<Rightarrow> if list_ex (\<lambda>v. the v < m) mtus then [(cid, RFail, ''ROCE_LEAF_MTU_BELOW_POLICY'')]
              else [(cid, RPass, ''ROCE_LEAF_MTU_POLICY_MATCH'')]))
      @ [at_least (named ''ROCE_MTU'' (ri_name r)) ''ROCE_MTU_EVIDENCE_MISSING'' ''ROCE_MINIMUM_MTU_NOT_PROVIDED''
           ''ROCE_MTU_BELOW_POLICY'' ''ROCE_MTU_POLICY_MATCH'' (map_option real_of_int (rp_mtu pol)) (map_option real_of_int (ri_mtu r)),
         at_least (named ''ROCE_RATE'' (ri_name r)) ''ROCE_RATE_EVIDENCE_MISSING'' ''ROCE_MINIMUM_RATE_NOT_PROVIDED''
           ''ROCE_RATE_BELOW_POLICY'' ''ROCE_RATE_POLICY_MATCH'' (map_option real_of_int (rp_rate pol)) (ri_rate r)])"

definition interface_checks :: "roce_policy \<Rightarrow> roce_interface list \<Rightarrow> roce_check list" where
  "interface_checks pol rs = concat (map (\<lambda>r. link_checks r @ mtu_checks pol r) rs)"

section \<open>Addresses and VLANs\<close>

text \<open>The whole of what the later checks look at.\<close>

record roce_view =
  rv_policy :: roce_policy
  rv_given :: bool
  rv_scan :: gid_scan
  rv_interfaces :: interfaces
  rv_results :: "roce_interface list"

definition no_binding_known :: "roce_view \<Rightarrow> bool" where
  "no_binding_known v = (gs_incomplete (rv_scan v) \<and> gs_bindings (rv_scan v) = [])"

definition netdevs :: "roce_view \<Rightarrow> string list" where
  "netdevs v = mapped_netdevs (gs_bindings (rv_scan v))"

definition all_addresses :: "roce_view \<Rightarrow> ip_addr list" where
  "all_addresses v = concat (map ri_addresses (rv_results v))"

definition addresses_incomplete :: "roce_view \<Rightarrow> bool" where
  "addresses_incomplete v = list_ex (\<lambda>r. ri_address_status r \<noteq> ''COMPLETE'') (rv_results v)"

definition address_checks :: "roce_view \<Rightarrow> roce_check list" where
  "address_checks v =
     (let s = rv_scan v; absent = (0 < gs_ports s \<and> gs_bindings s = [] \<and> \<not> gs_incomplete s) in
      [if netdevs v = [] \<and> no_binding_known v then (''ROCE_ADDRESSES'', RUnknown, ''ROCE_ADDRESS_BINDING_EVIDENCE_MISSING'')
       else if netdevs v = [] \<and> absent then (''ROCE_ADDRESSES'', RFail, ''ROCE_ADDRESS_BINDING_NOT_CONFIGURED'')
       else if netdevs v = [] \<and> gs_ports s = 0 then
         (''ROCE_ADDRESSES'', if rv_given v then RFail else RUnvalidated, ''ROCE_ADDRESS_NOT_APPLICABLE'')
       else if all_addresses v = [] \<and> addresses_incomplete v then (''ROCE_ADDRESSES'', RUnknown, ''ROCE_ADDRESS_EVIDENCE_MISSING'')
       else if all_addresses v = [] then (''ROCE_ADDRESSES'', RFail, ''ROCE_ADDRESS_NOT_CONFIGURED'')
       else (''ROCE_ADDRESSES'', RPass, ''ROCE_ADDRESS_PRESENT'')])"

definition gid_address :: "ip_addr \<Rightarrow> ip_addr" where
  "gid_address g = (case ipv4_mapped g of Some a \<Rightarrow> a | None \<Rightarrow> g)"

definition result_for :: "roce_view \<Rightarrow> string option \<Rightarrow> roce_interface option" where
  "result_for v netdev = (case netdev of None \<Rightarrow> None | Some n \<Rightarrow> find (\<lambda>r. ri_name r = n) (rv_results v))"

definition gid_check :: "roce_view \<Rightarrow> gid_binding \<Rightarrow> roce_check" where
  "gid_check v b =
     (let cid = named ''ROCE_GID_ADDRESS_BINDING'' (gb_device b @ '':'' @ gb_port b @ '':'' @ py_str (gb_index b)) in
      if gb_version b = ''v1'' then (cid, RPass, ''ROCE_V1_LAYER2_BINDING'')
      else case result_for v (gb_netdev b) of
        None \<Rightarrow> (cid, RUnknown, ''ROCE_GID_ADDRESS_EVIDENCE_MISSING'')
      | Some r \<Rightarrow>
          if ri_addresses r = [] \<and> ri_address_status r \<noteq> ''COMPLETE'' then (cid, RUnknown, ''ROCE_GID_ADDRESS_EVIDENCE_MISSING'')
          else if gid_address (gb_gid b) \<in> set (ri_addresses r) then (cid, RPass, ''ROCE_GID_ADDRESS_BINDING_MATCH'')
          else (cid, RFail, ''ROCE_GID_ADDRESS_BINDING_MISMATCH''))"

definition family_of :: "ip_addr \<Rightarrow> string" where
  "family_of a = (if ip_v6 a then ''ipv6'' else ''ipv4'')"

definition family_checks :: "roce_view \<Rightarrow> roce_check list" where
  "family_checks v =
     (let addrs = all_addresses v; unknown = ((addresses_incomplete v \<or> no_binding_known v) \<and> addrs = []) in
      [case rp_families (rv_policy v) of
         None \<Rightarrow> (''ROCE_ADDRESS_FAMILIES'', RUnvalidated, ''ROCE_ADDRESS_FAMILY_POLICY_NOT_PROVIDED'')
       | Some required \<Rightarrow>
           if unknown then (''ROCE_ADDRESS_FAMILIES'', RUnknown, ''ROCE_ADDRESS_EVIDENCE_MISSING'')
           else if set required \<subseteq> set (map family_of addrs) then (''ROCE_ADDRESS_FAMILIES'', RPass, ''ROCE_ADDRESS_FAMILY_POLICY_MATCH'')
           else (''ROCE_ADDRESS_FAMILIES'', RFail, ''ROCE_ADDRESS_FAMILY_MISSING''),
       case rp_prefixes (rv_policy v) of
         None \<Rightarrow> (''ROCE_ADDRESS_PREFIXES'', RUnvalidated, ''ROCE_PREFIX_POLICY_NOT_PROVIDED'')
       | Some nets \<Rightarrow>
           if unknown then (''ROCE_ADDRESS_PREFIXES'', RUnknown, ''ROCE_ADDRESS_EVIDENCE_MISSING'')
           else if addrs \<noteq> [] \<and> list_all (\<lambda>a. list_ex (in_net a) nets) addrs then (''ROCE_ADDRESS_PREFIXES'', RPass, ''ROCE_ADDRESS_PREFIX_POLICY_MATCH'')
           else (''ROCE_ADDRESS_PREFIXES'', RFail, ''ROCE_ADDRESS_PREFIX_MISMATCH'')])"

definition vlan_check :: "roce_view \<Rightarrow> roce_check" where
  "vlan_check v =
     (let vlans = map ri_vlan (rv_results v) in
      case rp_vlans (rv_policy v) of
        None \<Rightarrow> (''ROCE_VLAN'', RUnvalidated, ''ROCE_VLAN_POLICY_NOT_PROVIDED'')
      | Some allowed \<Rightarrow>
          if vlans = [] \<and> no_binding_known v then (''ROCE_VLAN'', RUnknown, ''ROCE_VLAN_BINDING_EVIDENCE_MISSING'')
          else if vlans = [] then (''ROCE_VLAN'', RFail, ''ROCE_VLAN_BINDING_NOT_CONFIGURED'')
          else if list_ex (\<lambda>x. fst x = None \<and> snd x \<noteq> ''COMPLETE'') vlans then (''ROCE_VLAN'', RUnknown, ''ROCE_VLAN_EVIDENCE_MISSING'')
          else if set (map (\<lambda>x. case fst x of None \<Rightarrow> 0 | Some n \<Rightarrow> n) vlans) \<subseteq> set allowed then (''ROCE_VLAN'', RPass, ''ROCE_VLAN_POLICY_MATCH'')
          else (''ROCE_VLAN'', RFail, ''ROCE_VLAN_POLICY_MISMATCH''))"

section \<open>Data center bridging\<close>

record dcb_evidence =
  de_pfc :: "evidence \<times> string"
  de_ets :: "evidence \<times> string"
  de_app :: "evidence \<times> string"
  de_buffer :: "evidence \<times> string"
  de_dcbx :: "evidence \<times> string"

definition dcb_evidence_of :: "jval \<Rightarrow> dcb_evidence" where
  "dcb_evidence_of v =
     (let d = object_of v; section_of = (\<lambda>key. command_evidence (field_of d key)) in
      \<lparr>de_pfc = section_of ''pfc'', de_ets = section_of ''ets'', de_app = section_of ''app'', de_buffer = section_of ''buffer'',
       de_dcbx = section_of ''dcbx''\<rparr>)"

definition pfc_table :: "dcb_evidence \<Rightarrow> nat list \<times> bool \<times> bool" where
  "pfc_table e = parse_pfc (snd (de_pfc e))"

definition ets_table :: "dcb_evidence \<Rightarrow> (nat \<times> nat) list \<times> bool \<times> bool" where
  "ets_table e = parse_pairs (snd (de_ets e)) ''prio-tc'' 7"

definition lossless_set :: "dcb_evidence \<Rightarrow> int set" where
  "lossless_set e = int ` set (fst (pfc_table e))"

definition truncated_or :: "evidence \<Rightarrow> string \<Rightarrow> string \<Rightarrow> string" where
  "truncated_or ev a b = (if ev = TruncatedEv then a else b)"

definition evidence_check :: "string \<Rightarrow> dcb_evidence \<Rightarrow> roce_check" where
  "evidence_check target e =
     (let cid = named ''ROCE_DCB_EVIDENCE'' target;
          open_ones = filter (\<lambda>ev. ev \<noteq> CompleteEv) (map fst [de_pfc e, de_ets e, de_app e, de_buffer e, de_dcbx e]) in
      if open_ones \<noteq> [] then
        (cid, RUnknown, if TruncatedEv \<in> set open_ones then ''ROCE_DCB_EVIDENCE_TRUNCATED'' else ''ROCE_DCB_EVIDENCE_MISSING'')
      else if \<not> snd (snd (pfc_table e)) \<or> \<not> snd (snd (ets_table e)) then (cid, RUnknown, ''ROCE_DCB_EVIDENCE_PARSE_INCOMPLETE'')
      else (cid, RPass, ''ROCE_DCB_EVIDENCE_COMPLETE''))"

definition pfc_check :: "roce_policy \<Rightarrow> string \<Rightarrow> dcb_evidence \<Rightarrow> roce_check" where
  "pfc_check pol target e =
     (let cid = named ''ROCE_LOSSLESS_PRIORITIES'' target in
      if fst (de_pfc e) \<noteq> CompleteEv then
        (cid, RUnknown, truncated_or (fst (de_pfc e)) ''ROCE_PFC_EVIDENCE_TRUNCATED'' ''ROCE_PFC_EVIDENCE_MISSING'')
      else if \<not> fst (snd (pfc_table e)) then (cid, RUnknown, ''ROCE_PFC_PARSE_FAILED'')
      else if \<not> snd (snd (pfc_table e)) then (cid, RUnknown, ''ROCE_PFC_PARSE_INCOMPLETE'')
      else case rp_lossless pol of
        None \<Rightarrow> (cid, RUnvalidated, ''ROCE_PFC_POLICY_MISMATCH_POLICY_NOT_PROVIDED'')
      | Some wanted \<Rightarrow>
          if lossless_set e = set wanted then (cid, RPass, ''LOSSLESS_PRIORITIES_POLICY_MATCH'') else (cid, RFail, ''ROCE_PFC_POLICY_MISMATCH''))"

definition same_apps :: "app_map \<Rightarrow> app_map \<Rightarrow> bool" where
  "same_apps a b =
     (fst ` set a = fst ` set b
      \<and> list_all (\<lambda>(selector, d). case map_of b selector of None \<Rightarrow> False | Some d' \<Rightarrow> same_map d d') a)"

definition app_checks :: "roce_policy \<Rightarrow> string \<Rightarrow> dcb_evidence \<Rightarrow> roce_check list" where
  "app_checks pol target e =
     (case parse_app_mappings (snd (de_app e)) of
        (apps, unparsed) \<Rightarrow>
          (let complete = (fst (de_app e) = CompleteEv); dscp_id = named ''ROCE_DSCP_TO_PRIORITY'' target;
               app_id = named ''ROCE_APP_MAPPINGS'' target;
               lost = truncated_or (fst (de_app e)) ''ROCE_APP_EVIDENCE_TRUNCATED'' ''ROCE_APP_EVIDENCE_MISSING'' in
           (case rp_dscp pol of
              Some wanted \<Rightarrow>
                [if \<not> complete then (dscp_id, RUnknown, lost)
                 else if \<not> same_map (dscp_of apps) wanted then (dscp_id, RFail, ''ROCE_APP_POLICY_MISMATCH'')
                 else if unparsed \<noteq> [] \<or> \<not> fst ` set apps \<subseteq> {''dscp-prio''} then (dscp_id, RUnknown, ''ROCE_APP_POLICY_SCOPE_INCOMPLETE'')
                 else (dscp_id, RPass, ''DSCP_TO_PRIORITY_POLICY_MATCH'')]
            | None \<Rightarrow> if rp_app pol = None then [(dscp_id, RUnvalidated, ''ROCE_APP_POLICY_MISMATCH_POLICY_NOT_PROVIDED'')] else [])
           @ (case rp_app pol of
                None \<Rightarrow> []
              | Some wanted \<Rightarrow>
                  [if \<not> complete then (app_id, RUnknown, lost)
                   else if \<not> same_apps apps wanted then (app_id, RFail, ''ROCE_APP_EXACT_POLICY_MISMATCH'')
                   else if unparsed \<noteq> [] then (app_id, RUnknown, ''ROCE_APP_SELECTOR_UNPARSED'')
                   else (app_id, RPass, ''ROCE_APP_EXACT_POLICY_MATCH'')])))"

definition ets_check :: "roce_policy \<Rightarrow> string \<Rightarrow> dcb_evidence \<Rightarrow> roce_check" where
  "ets_check pol target e =
     (let cid = named ''ROCE_PRIORITY_TO_TC'' target in
      if fst (de_ets e) \<noteq> CompleteEv then
        (cid, RUnknown, truncated_or (fst (de_ets e)) ''ROCE_ETS_EVIDENCE_TRUNCATED'' ''ROCE_ETS_EVIDENCE_MISSING'')
      else if \<not> fst (snd (ets_table e)) then (cid, RUnknown, ''ROCE_ETS_PARSE_FAILED'')
      else if \<not> snd (snd (ets_table e)) then (cid, RUnknown, ''ROCE_ETS_PARSE_INCOMPLETE'')
      else case rp_tc pol of
        None \<Rightarrow> (cid, RUnvalidated, ''ROCE_ETS_POLICY_MISMATCH_POLICY_NOT_PROVIDED'')
      | Some wanted \<Rightarrow>
          if list_all (\<lambda>(k, tc). map_of (map (\<lambda>(p, c). (int p, int c)) (fst (ets_table e))) k = Some tc) wanted
          then (cid, RPass, ''PRIORITY_TO_TC_POLICY_MATCH'') else (cid, RFail, ''ROCE_ETS_POLICY_MISMATCH''))"

definition internal_check :: "string \<Rightarrow> dcb_evidence \<Rightarrow> roce_check" where
  "internal_check target e =
     (case parse_app_mappings (snd (de_app e)) of
        (apps, unparsed) \<Rightarrow>
          (let cid = named ''ROCE_DCB_INTERNAL'' target; prios = concat (map (map snd \<circ> snd) apps) in
           if fst (de_pfc e) = CompleteEv \<and> snd (snd (pfc_table e)) \<and> fst (de_app e) = CompleteEv \<and> list_ex (\<lambda>a. snd a \<noteq> []) apps then
             (if \<not> set prios \<subseteq> lossless_set e then (cid, RFail, ''ROCE_APP_PRIORITY_NOT_LOSSLESS'')
              else if \<not> (fst (de_ets e) = CompleteEv \<and> snd (snd (ets_table e))) then (cid, RUnknown, ''ROCE_ETS_EVIDENCE_INCOMPLETE'')
              else if \<not> set prios \<subseteq> int ` fst ` set (fst (ets_table e)) then (cid, RFail, ''ROCE_APP_PRIORITY_WITHOUT_ETS_TC'')
              else if unparsed \<noteq> [] then (cid, RUnknown, ''ROCE_APP_SELECTOR_UNPARSED'')
              else (cid, RPass, ''ROCE_DCB_INTERNAL_CONSISTENT''))
           else (cid, RUnknown, ''ROCE_DCB_RELATIONSHIP_EVIDENCE_MISSING'')))"

definition dcbx_check :: "roce_policy \<Rightarrow> string \<Rightarrow> dcb_evidence \<Rightarrow> roce_check" where
  "dcbx_check pol target e =
     (let cid = named ''ROCE_DCBX'' target; mode = parse_dcbx (snd (de_dcbx e)) in
      if fst (de_dcbx e) \<noteq> CompleteEv \<or> mode = None then
        (cid, RUnknown, truncated_or (fst (de_dcbx e)) ''ROCE_DCBX_EVIDENCE_TRUNCATED'' ''ROCE_DCBX_EVIDENCE_MISSING'')
      else case rp_dcbx pol of
        None \<Rightarrow> (cid, RUnvalidated, ''ROCE_DCBX_POLICY_NOT_PROVIDED'')
      | Some modes \<Rightarrow> if the mode \<in> set modes then (cid, RPass, ''ROCE_DCBX_POLICY_MATCH'') else (cid, RFail, ''ROCE_DCBX_POLICY_MISMATCH''))"

definition target_checks :: "roce_policy \<Rightarrow> string \<times> jval \<Rightarrow> roce_check list" where
  "target_checks pol entry =
     (let target = fst entry; e = dcb_evidence_of (snd entry) in
      [evidence_check target e, pfc_check pol target e] @ app_checks pol target e
      @ [ets_check pol target e, internal_check target e, dcbx_check pol target e])"

definition dcb_targets :: "interfaces \<Rightarrow> string \<Rightarrow> (string \<times> jval) list" where
  "dcb_targets ifs name =
     (let c = configuration_of (fields_at ifs name) in
      case field_of c ''dcb_targets'' of
        JvObj (x # xs) \<Rightarrow> x # xs
      | _ \<Rightarrow> (case field_of c ''dcb_commands'' of JvObj d \<Rightarrow> [(name, JvObj d)] | _ \<Rightarrow> []))"

definition dcb_checks :: "roce_view \<Rightarrow> roce_check list" where
  "dcb_checks v = concat (map (\<lambda>name. concat (map (target_checks (rv_policy v)) (dcb_targets (rv_interfaces v) name))) (netdevs v))"

definition coverage_check :: "roce_view \<Rightarrow> string \<Rightarrow> roce_check list" where
  "coverage_check v name =
     (let cid = named ''ROCE_DCB_TARGETS'' name; tp = map_option ri_topology (result_for v (Some name));
          wanted = (case tp of None \<Rightarrow> {} | Some t \<Rightarrow> set (tp_leaves t)); found = set (map fst (dcb_targets (rv_interfaces v) name)) in
      if (case tp of None \<Rightarrow> False | Some t \<Rightarrow> tp_cycles t \<noteq> []) then []
      else if (case tp of None \<Rightarrow> False | Some t \<Rightarrow> tp_missing t \<noteq> []) then [(cid, RUnknown, ''ROCE_DCB_TARGET_TOPOLOGY_EVIDENCE_MISSING'')]
      else if found = {} then [(cid, RUnknown, ''ROCE_DCB_TARGET_EVIDENCE_MISSING'')]
      else if found \<noteq> wanted then
        (if found \<subseteq> wanted then [(cid, RUnknown, ''ROCE_DCB_TARGET_EVIDENCE_MISSING'')] else [(cid, RFail, ''ROCE_DCB_TARGET_MISMATCH'')])
      else [(cid, RPass, ''ROCE_DCB_TARGETS_MATCH_LEAVES'')])"

definition coverage_checks :: "roce_view \<Rightarrow> roce_check list" where
  "coverage_checks v =
     concat (map (coverage_check v) (netdevs v))
     @ (if netdevs v \<noteq> [] \<and> list_all (\<lambda>name. dcb_targets (rv_interfaces v) name = []) (netdevs v)
        then [(''ROCE_DCB_EVIDENCE'', RUnknown, ''ROCE_DCB_EVIDENCE_MISSING'')]
        else if netdevs v = [] \<and> no_binding_known v then [(''ROCE_DCB_EVIDENCE'', RUnknown, ''ROCE_DCB_BINDING_EVIDENCE_MISSING'')]
        else [])"

section \<open>Pause and forward error correction\<close>

definition leaf_targets :: "roce_view \<Rightarrow> string \<Rightarrow> string set" where
  "leaf_targets v name =
     (case result_for v (Some name) of
        None \<Rightarrow> {name}
      | Some r \<Rightarrow> if tp_leaves (ri_topology r) = [] then {name} else set (tp_leaves (ri_topology r)))"

text \<open>The commands of a setting: by target, or one for the interface.\<close>

definition setting_commands :: "roce_view \<Rightarrow> string \<Rightarrow> string \<Rightarrow> string \<Rightarrow> bool \<times> (string \<times> jval) list" where
  "setting_commands v name targeted single =
     (let c = configuration_of (fields_at (rv_interfaces v) name) in
      case field_of c targeted of JvObj d \<Rightarrow> (True, sort_key fst d) | _ \<Rightarrow> (False, [(name, field_of c single)]))"

definition setting_targets :: "roce_view \<Rightarrow> string \<Rightarrow> string \<Rightarrow> bool \<times> (string \<times> jval) list \<Rightarrow> roce_check list" where
  "setting_targets v name kind cmds =
     (let cid = named (''ROCE_'' @ kind @ ''_TARGETS'') name; found = set (map fst (snd cmds)); wanted = leaf_targets v name in
      if \<not> fst cmds then []
      else if found \<noteq> wanted then
        (if found \<subseteq> wanted then [(cid, RUnknown, ''ROCE_'' @ kind @ ''_TARGET_EVIDENCE_MISSING'')]
         else [(cid, RFail, ''ROCE_'' @ kind @ ''_TARGET_MISMATCH'')])
      else [(cid, RPass, ''ROCE_'' @ kind @ ''_TARGETS_MATCH_LEAVES'')])"

definition pause_check :: "roce_policy \<Rightarrow> string \<times> jval \<Rightarrow> roce_check" where
  "pause_check pol cmd =
     (let cid = named ''ROCE_GLOBAL_PAUSE'' (fst cmd); ev = command_evidence (snd cmd) in
      case (fst ev = CompleteEv, parse_pause (snd ev)) of
        (True, Some pause) \<Rightarrow>
          (case rp_pause pol of
             None \<Rightarrow> (cid, RUnvalidated, ''ROCE_GLOBAL_PAUSE_POLICY_NOT_PROVIDED'')
           | Some wanted \<Rightarrow>
               if pause = wanted then (cid, RPass, ''ROCE_GLOBAL_PAUSE_POLICY_MATCH'') else (cid, RFail, ''ROCE_GLOBAL_PAUSE_POLICY_MISMATCH''))
      | _ \<Rightarrow> (cid, RUnknown, truncated_or (fst ev) ''ROCE_GLOBAL_PAUSE_EVIDENCE_TRUNCATED'' ''ROCE_GLOBAL_PAUSE_EVIDENCE_MISSING''))"

definition fec_check :: "roce_policy \<Rightarrow> string \<times> jval \<Rightarrow> roce_check" where
  "fec_check pol cmd =
     (let cid = named ''ROCE_FEC'' (fst cmd); ev = command_evidence (snd cmd) in
      case (fst ev = CompleteEv, parse_fec (snd ev)) of
        (True, Some (Some active, configured)) \<Rightarrow>
          (case rp_fec pol of
             None \<Rightarrow> (cid, RUnvalidated, ''ROCE_FEC_POLICY_NOT_PROVIDED'')
           | Some modes \<Rightarrow>
               if list_ex (\<lambda>mode. mode = active \<or> mode \<in> set (py_words active)) modes then (cid, RPass, ''ROCE_FEC_POLICY_MATCH'')
               else (cid, RFail, ''ROCE_FEC_POLICY_MISMATCH''))
      | _ \<Rightarrow> (cid, RUnknown, truncated_or (fst ev) ''ROCE_FEC_EVIDENCE_TRUNCATED'' ''ROCE_FEC_EVIDENCE_MISSING''))"

definition setting_checks :: "roce_view \<Rightarrow> string \<Rightarrow> roce_check list" where
  "setting_checks v name =
     (let pause = setting_commands v name ''pause_targets'' ''pause''; fec = setting_commands v name ''fec_targets'' ''fec'' in
      setting_targets v name ''PAUSE'' pause @ map (pause_check (rv_policy v)) (snd pause)
      @ setting_targets v name ''FEC'' fec @ map (fec_check (rv_policy v)) (snd fec))"

section \<open>The evaluation\<close>

record roce_report =
  rr_status :: roce_status
  rr_checks :: "roce_check list"
  rr_bindings :: "gid_binding list"

definition view_of :: "fields \<Rightarrow> bool \<Rightarrow> roce_policy \<Rightarrow> roce_view" where
  "view_of network given pol =
     (let s = scan_gids network; ifs = interfaces_of network in
      \<lparr>rv_policy = pol, rv_given = given, rv_scan = s, rv_interfaces = ifs,
       rv_results = List.map_filter (interface_of ifs (gs_bindings s)) (mapped_netdevs (gs_bindings s))\<rparr>)"

definition all_checks :: "roce_view \<Rightarrow> roce_check list" where
  "all_checks v =
     (let pol = rv_policy v; s = rv_scan v; bs = gs_bindings s in
      protocol_checks pol s @ [version_check pol s] @ netdev_checks (rv_interfaces v) bs @ interface_checks pol (rv_results v)
      @ address_checks v @ map (gid_check v) bs @ family_checks v @ [vlan_check v] @ dcb_checks v @ coverage_checks v
      @ concat (map (setting_checks v) (netdevs v)))"

text \<open>\<open>evaluate_roce_health\<close>; None is the ValueError of a damaged policy.\<close>

definition evaluate_roce_health :: "fields \<Rightarrow> jval option \<Rightarrow> roce_report option" where
  "evaluate_roce_health network policy =
     map_option (\<lambda>pol.
       let v = view_of network (policy \<notin> {None, Some (JvObj [])}) pol; checks = all_checks v in
       \<lparr>rr_status = overall (map (fst \<circ> snd) checks), rr_checks = checks, rr_bindings = gs_bindings (rv_scan v)\<rparr>)
     (normalize_roce_policy policy)"

section \<open>When everything passes\<close>

lemma roce_overall_pass: "overall l = RPass \<longleftrightarrow> set l \<subseteq> {RPass}"
proof -
  have "foldl (\<lambda>a s. if status_order a < status_order s then s else a) a l = RPass \<longleftrightarrow> a = RPass \<and> set l \<subseteq> {RPass}" for a
    by (induction l arbitrary: a) (auto simp: status_order_def split: roce_status.splits)
  then show ?thesis by (simp add: overall_def)
qed

abbreviation passes :: "roce_check \<Rightarrow> bool" where
  "passes c \<equiv> fst (snd c) = RPass"

text \<open>What the policy asks of the ports and addresses, of the bridging of a target, and of pause and FEC.\<close>

definition fabric_as_required :: "roce_policy \<Rightarrow> roce_view \<Rightarrow> bool" where
  "fabric_as_required pol v \<longleftrightarrow>
     \<not> gs_incomplete (rv_scan v) \<and> gs_unbound (rv_scan v) = 0
     \<and> (\<exists>p. rp_protocol pol = Some p \<and> (\<forall>x\<in>{''v1'', ''v2''}. p = ''roce-'' @ x \<longrightarrow> x \<in> gb_version ` set (gs_bindings (rv_scan v))))
     \<and> (\<exists>families. rp_families pol = Some families \<and> set families \<subseteq> family_of ` set (all_addresses v))
     \<and> (\<exists>vlans. rp_vlans pol = Some vlans
          \<and> (\<forall>r\<in>set (rv_results v). (case fst (ri_vlan r) of None \<Rightarrow> 0 | Some n \<Rightarrow> n) \<in> set vlans))"

definition bridging_as_required :: "roce_policy \<Rightarrow> dcb_evidence \<Rightarrow> bool" where
  "bridging_as_required pol e \<longleftrightarrow>
     (let apps = fst (parse_app_mappings (snd (de_app e))) in
      (\<exists>wanted. rp_lossless pol = Some wanted \<and> lossless_set e = set wanted
         \<and> (\<forall>(selector, d)\<in>set apps. \<forall>(key, p)\<in>set d. p \<in> set wanted))
      \<and> (\<exists>wanted. rp_tc pol = Some wanted
           \<and> (\<forall>(k, tc)\<in>set wanted. map_of (map (\<lambda>(p, c). (int p, int c)) (fst (ets_table e))) k = Some tc))
      \<and> (\<exists>mode modes. parse_dcbx (snd (de_dcbx e)) = Some mode \<and> rp_dcbx pol = Some modes \<and> mode \<in> set modes)
      \<and> (rp_dscp pol \<noteq> None \<or> rp_app pol \<noteq> None)
      \<and> (\<forall>wanted. rp_dscp pol = Some wanted \<longrightarrow> same_map (dscp_of apps) wanted)
      \<and> (\<forall>wanted. rp_app pol = Some wanted \<longrightarrow> same_apps apps wanted))"

definition settings_as_required :: "roce_policy \<Rightarrow> roce_view \<Rightarrow> string \<Rightarrow> bool" where
  "settings_as_required pol v name \<longleftrightarrow>
     (\<forall>(target, cmd)\<in>set (snd (setting_commands v name ''pause_targets'' ''pause'')). \<exists>out pause.
        command_evidence cmd = (CompleteEv, out) \<and> parse_pause out = Some pause \<and> rp_pause pol = Some pause)
     \<and> (\<forall>(target, cmd)\<in>set (snd (setting_commands v name ''fec_targets'' ''fec'')). \<exists>out active configured modes.
        command_evidence cmd = (CompleteEv, out) \<and> parse_fec out = Some (Some active, configured)
        \<and> rp_fec pol = Some modes \<and> (\<exists>mode\<in>set modes. mode = active \<or> mode \<in> set (py_words active)))"

lemma protocol_pass:
  assumes "list_all passes (protocol_checks pol s)"
  shows "gs_bindings s \<noteq> [] \<and> \<not> gs_incomplete s \<and> gs_unbound s = 0"
    "\<exists>p. rp_protocol pol = Some p \<and> (\<forall>x\<in>{''v1'', ''v2''}. p = ''roce-'' @ x \<longrightarrow> x \<in> gb_version ` set (gs_bindings s))"
  using assms by (auto simp: protocol_checks_def Let_def split: if_splits option.splits)

lemma vlan_pass:
  "passes (vlan_check v) \<Longrightarrow> \<exists>vlans. rp_vlans (rv_policy v) = Some vlans
     \<and> (\<forall>r\<in>set (rv_results v). (case fst (ri_vlan r) of None \<Rightarrow> 0 | Some n \<Rightarrow> n) \<in> set vlans)"
  by (auto simp: vlan_check_def Let_def subset_iff split: if_splits option.splits)

lemma required_families_pass:
  "list_all passes (family_checks v) \<Longrightarrow>
     \<exists>families. rp_families (rv_policy v) = Some families \<and> set families \<subseteq> family_of ` set (all_addresses v)"
  by (auto simp: family_checks_def Let_def split: if_splits option.splits)

lemma ets_pass:
  "passes (ets_check pol target e) \<Longrightarrow> \<exists>wanted. rp_tc pol = Some wanted
     \<and> (\<forall>(k, tc)\<in>set wanted. map_of (map (\<lambda>(p, c). (int p, int c)) (fst (ets_table e))) k = Some tc)"
  by (auto simp: ets_check_def Let_def list_all_iff split: if_splits option.splits)

lemma dcbx_pass:
  "passes (dcbx_check pol target e) \<Longrightarrow>
     \<exists>mode modes. parse_dcbx (snd (de_dcbx e)) = Some mode \<and> rp_dcbx pol = Some modes \<and> mode \<in> set modes"
  by (auto simp: dcbx_check_def Let_def split: if_splits option.splits)

lemma app_pass:
  assumes "list_all passes (app_checks pol target e)"
  shows "rp_dscp pol \<noteq> None \<or> rp_app pol \<noteq> None"
    "rp_dscp pol = Some wanted \<Longrightarrow> same_map (dscp_of (fst (parse_app_mappings (snd (de_app e))))) wanted"
    "rp_app pol = Some wanted' \<Longrightarrow> same_apps (fst (parse_app_mappings (snd (de_app e)))) wanted'"
  using assms by (auto simp: app_checks_def Let_def split: if_splits option.splits prod.splits)

lemma pause_pass:
  "passes (pause_check pol cmd) \<Longrightarrow> \<exists>out pause. command_evidence (snd cmd) = (CompleteEv, out) \<and> parse_pause out = Some pause \<and> rp_pause pol = Some pause"
  by (cases "command_evidence (snd cmd)") (auto simp: pause_check_def Let_def split: if_splits option.splits bool.splits)

lemma fec_pass:
  "passes (fec_check pol cmd) \<Longrightarrow> \<exists>out active configured modes.
     command_evidence (snd cmd) = (CompleteEv, out) \<and> parse_fec out = Some (Some active, configured)
     \<and> rp_fec pol = Some modes \<and> (\<exists>mode\<in>set modes. mode = active \<or> mode \<in> set (py_words active))"
  by (cases "command_evidence (snd cmd)") (auto simp: fec_check_def Let_def list_ex_iff split: if_splits option.splits bool.splits prod.splits)

lemma setting_pass:
  assumes "list_all passes (setting_checks v name)"
  shows "settings_as_required (rv_policy v) v name"
proof -
  have p: "\<forall>c\<in>set (snd (setting_commands v name ''pause_targets'' ''pause'')). passes (pause_check (rv_policy v) c)"
    "\<forall>c\<in>set (snd (setting_commands v name ''fec_targets'' ''fec'')). passes (fec_check (rv_policy v) c)"
    using assms unfolding setting_checks_def Let_def list_all_append list.pred_map by (simp_all add: list_all_iff)
  show ?thesis unfolding settings_as_required_def
    using pause_pass [OF bspec [OF p(1)]] fec_pass [OF bspec [OF p(2)]] by (intro conjI ballI) (simp_all only: split_beta)
qed

lemma version_pass:
  "passes (version_check pol s) \<Longrightarrow> \<exists>allowed. rp_versions pol = Some allowed \<and> gb_version ` set (gs_bindings s) \<subseteq> set allowed"
  by (auto simp: version_check_def Let_def split: if_splits option.splits)

lemma netdev_pass:
  "list_all passes (netdev_checks ifs bs) \<Longrightarrow>
     (\<forall>b\<in>set bs. gb_netdev b \<noteq> None) \<and> (\<forall>n\<in>set (mapped_netdevs bs). map_of ifs n \<noteq> None)"
  by (auto simp: netdev_checks_def Let_def filter_empty_conv list_ex_iff split: if_splits)

lemma link_pass:
  "list_all passes (link_checks r) \<Longrightarrow> ri_link r = ''UP'' \<and> tp_cycles (ri_topology r) = [] \<and> tp_missing (ri_topology r) = []"
  by (auto simp: link_checks_def Let_def split: if_splits)

lemma at_least_pass: "passes (at_least cid a b c d minimum v) \<Longrightarrow> \<exists>m x. minimum = Some m \<and> v = Some x \<and> m \<le> x"
  by (auto simp: at_least_def split: option.splits if_splits)

lemma mtu_pass:
  assumes "list_all passes (mtu_checks pol r)"
  shows "\<exists>m x. rp_mtu pol = Some m \<and> ri_mtu r = Some x \<and> m \<le> x" "\<exists>m x. rp_rate pol = Some m \<and> ri_rate r = Some x \<and> m \<le> x"
  using assms by (auto simp: mtu_checks_def Let_def dest!: at_least_pass)

lemma gid_pass:
  "passes (gid_check v b) \<Longrightarrow> gb_version b \<noteq> ''v1'' \<Longrightarrow>
     \<exists>r. result_for v (gb_netdev b) = Some r \<and> gid_address (gb_gid b) \<in> set (ri_addresses r)"
  by (auto simp: gid_check_def Let_def split: if_splits option.splits)

lemma family_pass:
  "list_all passes (family_checks v) \<Longrightarrow>
     \<exists>nets. rp_prefixes (rv_policy v) = Some nets \<and> all_addresses v \<noteq> [] \<and> (\<forall>a\<in>set (all_addresses v). \<exists>n\<in>set nets. in_net a n)"
  by (auto simp: family_checks_def Let_def list_all_iff list_ex_iff split: if_splits option.splits)

lemma pfc_pass:
  "passes (pfc_check pol target e) \<Longrightarrow> \<exists>wanted. rp_lossless pol = Some wanted \<and> lossless_set e = set wanted"
  by (auto simp: pfc_check_def Let_def split: if_splits option.splits)

lemma internal_pass:
  assumes "passes (internal_check target e)"
  shows "\<forall>(selector, d)\<in>set (fst (parse_app_mappings (snd (de_app e)))). \<forall>(key, p)\<in>set d. p \<in> lossless_set e"
proof -
  obtain apps unparsed where a: "parse_app_mappings (snd (de_app e)) = (apps, unparsed)" by fastforce
  then have "set (concat (map (map snd \<circ> snd) apps)) \<subseteq> lossless_set e"
    using assms by (simp add: internal_check_def Let_def split: if_splits)
  then show ?thesis unfolding a by (auto simp: subset_iff) (metis image_eqI snd_conv)
qed

lemma coverage_pass:
  "list_all passes (coverage_check v name) \<Longrightarrow> result_for v (Some name) = Some r \<Longrightarrow> tp_cycles (ri_topology r) = [] \<Longrightarrow>
     set (map fst (dcb_targets (rv_interfaces v) name)) = set (tp_leaves (ri_topology r))"
  by (auto simp: coverage_check_def Let_def split: if_splits)

lemma view_results:
  assumes "v = view_of network given pol" "n \<in> set (netdevs v)" "map_of (rv_interfaces v) n \<noteq> None"
  shows "\<exists>r\<in>set (rv_results v). result_for v (Some n) = Some r \<and> ri_name r = n"
proof -
  let ?f = "interface_of (rv_interfaces v) (gs_bindings (rv_scan v))"
  have rs: "rv_results v = List.map_filter ?f (netdevs v)" unfolding assms(1) netdevs_def by (simp add: view_of_def Let_def)
  have nm: "?f x = Some r \<Longrightarrow> ri_name r = x" for x r by (auto simp: interface_of_def)
  obtain r where r: "?f n = Some r" using assms(3) by (auto simp: interface_of_def)
  have uniq: "q = r" if "q \<in> set (rv_results v)" "ri_name q = n" for q
    using that r nm unfolding rs by (auto simp: List.map_filter_def)
  have m: "r \<in> set (rv_results v)" using r assms(2) unfolding rs by (force simp: List.map_filter_def)
  have "find (\<lambda>q. ri_name q = n) (rv_results v) = Some r"
  proof (cases "find (\<lambda>q. ri_name q = n) (rv_results v)")
    case None
    then show ?thesis using m nm [OF r] by (auto simp: find_None_iff)
  next
    case (Some q)
    then have "q \<in> set (rv_results v)" "ri_name q = n" by (auto simp: find_Some_iff)
    then show ?thesis using uniq Some by simp
  qed
  then show ?thesis using m nm [OF r] by (auto simp: result_for_def)
qed

lemma overall_checks: "overall (map (fst \<circ> snd) cs) = RPass \<Longrightarrow> list_all passes cs"
  unfolding roce_overall_pass list_all_iff set_map by (metis (no_types, lifting) comp_apply image_subset_iff singletonD)

lemma list_all_concat_map: "list_all P (concat (map f xs)) \<longleftrightarrow> (\<forall>x\<in>set xs. list_all P (f x))"
  by (induction xs) simp_all

lemma list_all_mem: "list_all P xs \<Longrightarrow> x \<in> set xs \<Longrightarrow> P x"
  by (simp add: list_all_iff)

lemma all_checks_parts:
  assumes "list_all passes (all_checks v)"
  shows "list_all passes (protocol_checks (rv_policy v) (rv_scan v))" "passes (version_check (rv_policy v) (rv_scan v))"
    "list_all passes (netdev_checks (rv_interfaces v) (gs_bindings (rv_scan v)))"
    "\<forall>r\<in>set (rv_results v). list_all passes (link_checks r) \<and> list_all passes (mtu_checks (rv_policy v) r)"
    "\<forall>b\<in>set (gs_bindings (rv_scan v)). passes (gid_check v b)" "list_all passes (family_checks v)"
    "\<forall>n\<in>set (netdevs v). \<forall>c\<in>set (dcb_targets (rv_interfaces v) n). list_all passes (target_checks (rv_policy v) c)"
    "\<forall>n\<in>set (netdevs v). list_all passes (coverage_check v n)"
    "passes (vlan_check v)" "\<forall>n\<in>set (netdevs v). list_all passes (setting_checks v n)"
proof -
  have parts: "list_all passes (protocol_checks (rv_policy v) (rv_scan v))" "passes (version_check (rv_policy v) (rv_scan v))"
    "list_all passes (netdev_checks (rv_interfaces v) (gs_bindings (rv_scan v)))" "list_all passes (interface_checks (rv_policy v) (rv_results v))"
    "list_all passes (map (gid_check v) (gs_bindings (rv_scan v)))" "list_all passes (family_checks v)"
    "list_all passes (dcb_checks v)" "list_all passes (coverage_checks v)" "passes (vlan_check v)"
    "list_all passes (concat (map (setting_checks v) (netdevs v)))"
    using assms unfolding all_checks_def Let_def list_all_append by (simp_all only: list.pred_inject simp_thms)
  show "list_all passes (protocol_checks (rv_policy v) (rv_scan v))" "passes (version_check (rv_policy v) (rv_scan v))"
    "list_all passes (netdev_checks (rv_interfaces v) (gs_bindings (rv_scan v)))" "list_all passes (family_checks v)" "passes (vlan_check v)"
    by (fact parts)+
  show "\<forall>n\<in>set (netdevs v). list_all passes (setting_checks v n)"
    using parts(10) unfolding list_all_concat_map .
  show "\<forall>r\<in>set (rv_results v). list_all passes (link_checks r) \<and> list_all passes (mtu_checks (rv_policy v) r)"
    using parts(4) unfolding interface_checks_def list_all_append list_all_concat_map by blast
  show "\<forall>b\<in>set (gs_bindings (rv_scan v)). passes (gid_check v b)"
    using parts(5) by (simp add: list.pred_map list_all_iff)
  show "\<forall>n\<in>set (netdevs v). \<forall>c\<in>set (dcb_targets (rv_interfaces v) n). list_all passes (target_checks (rv_policy v) c)"
    using parts(7) unfolding dcb_checks_def list_all_concat_map .
  show "\<forall>n\<in>set (netdevs v). list_all passes (coverage_check v n)"
    using parts(8) unfolding coverage_checks_def list_all_append list_all_concat_map by blast
qed

lemma target_pass:
  assumes "list_all passes (target_checks pol c)"
  shows "bridging_as_required pol (dcb_evidence_of (snd c))"
proof -
  let ?e = "dcb_evidence_of (snd c)"
  have p: "passes (pfc_check pol (fst c) ?e)" "passes (internal_check (fst c) ?e)" "passes (ets_check pol (fst c) ?e)"
    "passes (dcbx_check pol (fst c) ?e)" "list_all passes (app_checks pol (fst c) ?e)"
    using assms by (simp_all add: target_checks_def Let_def)
  obtain wanted where w: "rp_lossless pol = Some wanted" "lossless_set ?e = set wanted" using pfc_pass [OF p(1)] by blast
  show ?thesis
    unfolding bridging_as_required_def Let_def
    by (intro conjI allI impI exI [of _ wanted] w internal_pass [OF p(2), unfolded w(2)] ets_pass [OF p(3)] dcbx_pass [OF p(4)] app_pass [OF p(5)])
qed

lemma fabric_ready:
  assumes "list_all passes (all_checks v)"
  shows "fabric_as_required (rv_policy v) v"
proof -
  note p = all_checks_parts [OF assms]
  show ?thesis unfolding fabric_as_required_def
    using protocol_pass [OF p(1)] required_families_pass [OF p(6)] vlan_pass [OF p(9)] by blast
qed

lemma mapped_netdev: "b \<in> set (gs_bindings (rv_scan v)) \<Longrightarrow> gb_netdev b = Some n \<Longrightarrow> n \<in> set (netdevs v)"
  by (force simp: netdevs_def mapped_netdevs_def List.map_filter_def)

lemma netdev_ready:
  assumes "v = view_of network given pol" "list_all passes (all_checks v)" "n \<in> set (netdevs v)"
  shows "\<exists>r\<in>set (rv_results v). result_for v (Some n) = Some r \<and> ri_name r = n \<and> ri_link r = ''UP''
    \<and> fst ` set (dcb_targets (rv_interfaces v) n) = set (tp_leaves (ri_topology r))"
proof -
  note p = all_checks_parts [OF assms(2)]
  have "map_of (rv_interfaces v) n \<noteq> None" using netdev_pass [OF p(3)] assms(3) by (simp add: netdevs_def)
  then obtain r where r: "r \<in> set (rv_results v)" "result_for v (Some n) = Some r" "ri_name r = n"
    using view_results [OF assms(1,3)] by blast
  have l: "ri_link r = ''UP''" "tp_cycles (ri_topology r) = []" using link_pass p(4) r(1) by blast+
  have "set (map fst (dcb_targets (rv_interfaces v) n)) = set (tp_leaves (ri_topology r))"
    using coverage_pass [OF bspec [OF p(8) assms(3)] r(2) l(2)] .
  then show ?thesis using r l(1) by auto
qed

lemma binding_ready:
  assumes "v = view_of network given pol" "list_all passes (all_checks v)" "b \<in> set (gs_bindings (rv_scan v))"
  shows "\<exists>n r. gb_netdev b = Some n \<and> r \<in> set (rv_results v) \<and> ri_name r = n
      \<and> ri_link r = ''UP'' \<and> (gb_version b \<noteq> ''v1'' \<longrightarrow> gid_address (gb_gid b) \<in> set (ri_addresses r))"
proof -
  note p = all_checks_parts [OF assms(2)]
  obtain n where n: "gb_netdev b = Some n" using netdev_pass [OF p(3)] assms(3) by blast
  obtain r where r: "r \<in> set (rv_results v)" "result_for v (Some n) = Some r" "ri_name r = n" "ri_link r = ''UP''"
    using netdev_ready [OF assms(1,2) mapped_netdev [OF assms(3) n]] by blast
  have "gid_address (gb_gid b) \<in> set (ri_addresses r)" if "gb_version b \<noteq> ''v1''"
    using gid_pass [OF bspec [OF p(5) assms(3)] that] n r(2) by auto
  then show ?thesis using n r by blast
qed

lemma targets_ready:
  assumes "list_all passes (all_checks v)" "n \<in> set (netdevs v)"
  shows "(\<forall>(target, cmds)\<in>set (dcb_targets (rv_interfaces v) n). bridging_as_required (rv_policy v) (dcb_evidence_of cmds))
    \<and> settings_as_required (rv_policy v) v n"
proof -
  note p = all_checks_parts [OF assms(1)]
  have "bridging_as_required (rv_policy v) (dcb_evidence_of (snd x))" if "x \<in> set (dcb_targets (rv_interfaces v) n)" for x
    using target_pass p(7) assms(2) that by blast
  then show ?thesis using setting_pass p(10) assms(2) by fastforce
qed

text \<open>
  C30: a RoCE PASS is earned.  If the evaluation of a node passes, then no evidence about its ports
  is missing, there are bindings, each of an allowed version and on an interface that is up, and the
  address of every version 2 GID is configured on that interface; the protocol, the address families
  and the VLANs are as the policy says.  Every mapped interface has at least the required MTU and
  rate and only addresses of allowed networks; its bridging settings were collected for exactly its
  leaf interfaces, and there the lossless priorities, the traffic classes, the application priorities
  (lossless themselves) and the DCBX mode are as required, and so are pause and FEC on every target
  collected for them.  An item the policy leaves out never passes.
\<close>

theorem roce_pass_is_earned:
  assumes "evaluate_roce_health network policy = Some report" "rr_status report = RPass"
  shows "\<exists>pol v allowed nets m rate. normalize_roce_policy policy = Some pol
    \<and> v = view_of network (policy \<notin> {None, Some (JvObj [])}) pol
    \<and> gs_bindings (rv_scan v) \<noteq> [] \<and> fabric_as_required pol v \<and> rp_versions pol = Some allowed \<and> rp_prefixes pol = Some nets \<and> rp_mtu pol = Some m \<and> rp_rate pol = Some rate
    \<and> (\<forall>b\<in>set (gs_bindings (rv_scan v)). gb_version b \<in> set allowed \<and> (\<exists>n r. gb_netdev b = Some n \<and> r \<in> set (rv_results v) \<and> ri_name r = n
         \<and> ri_link r = ''UP'' \<and> (gb_version b \<noteq> ''v1'' \<longrightarrow> gid_address (gb_gid b) \<in> set (ri_addresses r))))
    \<and> (\<forall>n\<in>set (netdevs v). \<exists>r\<in>set (rv_results v). ri_name r = n
         \<and> (\<exists>x y. ri_mtu r = Some x \<and> m \<le> x \<and> ri_rate r = Some y \<and> real_of_int rate \<le> y)
         \<and> (\<forall>a\<in>set (ri_addresses r). \<exists>net\<in>set nets. in_net a net)
         \<and> fst ` set (dcb_targets (rv_interfaces v) n) = set (tp_leaves (ri_topology r))
         \<and> (\<forall>(target, cmds)\<in>set (dcb_targets (rv_interfaces v) n). bridging_as_required pol (dcb_evidence_of cmds))
         \<and> settings_as_required pol v n)"
proof -
  let ?given = "policy \<notin> {None, Some (JvObj [])}"
  obtain pol where pol: "normalize_roce_policy policy = Some pol" using assms(1) by (auto simp: evaluate_roce_health_def)
  define v where v: "v = view_of network ?given pol"
  have rp: "rv_policy v = pol" unfolding v by (simp add: view_of_def Let_def)
  have c: "list_all passes (all_checks v)"
    using assms pol unfolding v by (intro overall_checks) (auto simp: evaluate_roce_health_def Let_def)
  note p = all_checks_parts [OF c, unfolded rp]
  obtain allowed where al: "rp_versions pol = Some allowed" "gb_version ` set (gs_bindings (rv_scan v)) \<subseteq> set allowed"
    using version_pass [OF p(2)] by blast
  obtain nets where nets: "rp_prefixes pol = Some nets" "\<forall>a\<in>set (all_addresses v). \<exists>n\<in>set nets. in_net a n"
    using family_pass [OF p(6)] unfolding rp by blast
  have bs: "gs_bindings (rv_scan v) \<noteq> []" using protocol_pass [OF p(1)] by blast
  obtain b0 n0 where "b0 \<in> set (gs_bindings (rv_scan v))" "gb_netdev b0 = Some n0"
    using netdev_pass [OF p(3)] bs by (metis hd_in_set option.exhaust)
  then obtain r0 where r0: "r0 \<in> set (rv_results v)" using netdev_ready [OF v c mapped_netdev] by blast
  obtain m rate where m: "rp_mtu pol = Some m" "rp_rate pol = Some rate"
    using mtu_pass p(4) r0 by blast
  have addr: "\<forall>a\<in>set (ri_addresses r). \<exists>net\<in>set nets. in_net a net" if "r \<in> set (rv_results v)" for r
    using nets(2) that by (auto simp: all_addresses_def)
  have size: "\<exists>x y. ri_mtu r = Some x \<and> m \<le> x \<and> ri_rate r = Some y \<and> real_of_int rate \<le> y" if "r \<in> set (rv_results v)" for r
    using mtu_pass [OF conjunct2 [OF bspec [OF p(4) that]]] m by auto
  have bind: "gb_version b \<in> set allowed \<and> (\<exists>n r. gb_netdev b = Some n \<and> r \<in> set (rv_results v) \<and> ri_name r = n
      \<and> ri_link r = ''UP'' \<and> (gb_version b \<noteq> ''v1'' \<longrightarrow> gid_address (gb_gid b) \<in> set (ri_addresses r)))"
    if "b \<in> set (gs_bindings (rv_scan v))" for b
    using binding_ready [OF v c that] al(2) that by blast
  have dev: "\<exists>r\<in>set (rv_results v). ri_name r = n
         \<and> (\<exists>x y. ri_mtu r = Some x \<and> m \<le> x \<and> ri_rate r = Some y \<and> real_of_int rate \<le> y)
         \<and> (\<forall>a\<in>set (ri_addresses r). \<exists>net\<in>set nets. in_net a net)
         \<and> fst ` set (dcb_targets (rv_interfaces v) n) = set (tp_leaves (ri_topology r))
         \<and> (\<forall>(target, cmds)\<in>set (dcb_targets (rv_interfaces v) n). bridging_as_required pol (dcb_evidence_of cmds))
         \<and> settings_as_required pol v n"
    if n: "n \<in> set (netdevs v)" for n
  proof -
    obtain r where r: "r \<in> set (rv_results v)" "ri_name r = n" "fst ` set (dcb_targets (rv_interfaces v) n) = set (tp_leaves (ri_topology r))"
      using netdev_ready [OF v c n] by blast
    show ?thesis
      by (intro bexI [OF _ r(1)] conjI)
        (rule r(2) size [OF r(1)] addr [OF r(1)] r(3) conjunct1 [OF targets_ready [OF c n, unfolded rp]]
          conjunct2 [OF targets_ready [OF c n, unfolded rp]])+
  qed
  show ?thesis
    by (rule exI [of _ pol], rule exI [of _ v], rule exI [of _ allowed], rule exI [of _ nets], rule exI [of _ m], rule exI [of _ rate],
        intro conjI) (rule pol v bs fabric_ready [OF c, unfolded rp] al(1) nets(1) m ballI [OF bind] ballI [OF dev], (assumption)?)+
qed

section \<open>A sample node\<close>

definition done_cmd :: "string \<Rightarrow> jval" where
  "done_cmd out = JvObj [(''rc'', JvNum 0), (''stdout'', JvText out)]"

definition sample_gid :: "string \<Rightarrow> string \<Rightarrow> jval" where
  "sample_gid gid version = JvObj [(''index'', JvNum 3), (''gid'', JvText gid), (''type'', JvText version), (''netdev'', JvText ''eth0'')]"

definition sample_port :: "jval list \<Rightarrow> jval" where
  "sample_port gids = JvObj [(''port'', JvNum 1), (''link_layer'', JvText ''Ethernet''), (''gids'', JvList gids)]"

definition sample_nic :: fields where
  "sample_nic =
     [(''name'', JvText ''eth0''), (''local_link_status'', JvText ''UP''), (''mtu'', JvNum 9000),
        (''speed_mbps'', JvNum 100000), (''roce_configuration'', JvObj [(''vlan_id'', JvNum 0),
          (''ip_addresses'', JvList [JvObj [(''local'', JvText ''10.0.0.7''), (''prefixlen'', JvNum 24)]]),
          (''dcb_targets'', JvObj [(''eth0'', JvObj [
             (''pfc'', done_cmd ''prio-pfc 0:off 1:off 2:off 3:on 4:off 5:off 6:off 7:off''),
             (''ets'', done_cmd ''prio-tc 0:0 1:1 2:2 3:3 4:4 5:5 6:6 7:7''), (''app'', done_cmd ''dscp-prio 26:3''),
             (''buffer'', done_cmd ''buffer ok''), (''dcbx'', done_cmd ''dcbx host'')])]),
          (''pause'', done_cmd (''RX: off'' @ [CHR 0x0A] @ ''TX: off'')), (''fec'', done_cmd ''Active FEC encoding: rs'')])]"

definition sample_network :: "jval list \<Rightarrow> fields" where
  "sample_network ports =
     [(''rdma_devices'', JvList [JvObj [(''name'', JvText ''mlx5_0''), (''ports'', JvList ports)]]),
      (''interfaces'', JvList [JvObj sample_nic])]"

definition sample_policy :: jval where
  "sample_policy = JvObj [(''protocol'', JvText ''roce-v2''), (''versions'', JvText ''v2''), (''address_families'', JvText ''ipv4''),
     (''allowed_prefixes'', JvText ''10.0.0.0/8''), (''vlan_ids'', JvList [JvNum 0]), (''minimum_mtu'', JvNum 4200),
     (''minimum_rate_mbps'', JvNum 100000), (''lossless_priorities'', JvList [JvNum 3]), (''dscp_to_priority'', JvObj [(''26'', JvNum 3)]),
     (''priority_to_tc'', JvObj [(''3'', JvNum 3)]), (''dcbx_mode'', JvText ''host''), (''global_pause'', JvText ''off''), (''fec_mode'', JvText ''rs'')]"

definition sample_roce_policy :: roce_policy where
  "sample_roce_policy =
     \<lparr>rp_protocol = Some ''roce-v2'', rp_versions = Some [''v2''], rp_families = Some [''ipv4''],
      rp_prefixes = Some [\<lparr>nw_v6 = False, nw_value = 167772160, nw_length = 8\<rparr>], rp_vlans = Some [0], rp_mtu = Some 4200,
      rp_rate = Some 100000, rp_lossless = Some [3], rp_dscp = Some [(26, 3)], rp_app = None, rp_tc = Some [(3, 3)],
      rp_dcbx = Some [''host''], rp_pause = Some (False, False), rp_fec = Some [''rs'']\<rparr>"

definition sample_binding :: "string \<Rightarrow> gid_binding" where
  "sample_binding version =
     \<lparr>gb_device = ''mlx5_0'', gb_port = ''1'', gb_index = JvNum 3, gb_gid = \<lparr>ip_v6 = True, ip_value = 281470849515527, ip_scope = None\<rparr>,
      gb_version = version, gb_netdev = Some ''eth0'', gb_up = False, gb_rate = None, gb_complete = True\<rparr>"

definition sample_interface :: roce_interface where
  "sample_interface =
     \<lparr>ri_name = ''eth0'', ri_link = ''UP'', ri_mtu = Some 9000, ri_rate = Some 100000,
      ri_addresses = [\<lparr>ip_v6 = False, ip_value = 167772167, ip_scope = None\<rparr>], ri_address_status = ''COMPLETE'', ri_vlan = (Some 0, ''COMPLETE''),
      ri_topology = \<lparr>tp_paths = [[''eth0'']], tp_leaves = [''eth0''], tp_missing = [], tp_cycles = [],
        tp_states = [(''eth0'', JvText ''UP'')], tp_mtus = [(''eth0'', JvNum 9000)], tp_collected = False\<rparr>\<rparr>"

lemma sample_speed: "rate_mbps (JvNum 100000) = Some 100000"
proof -
  have "or_blank (JvNum 100000) = ''100000''" "py_strip ''100000'' = ''100000''" "rx_fullmatch decimal_rx ''100000'' \<noteq> None" by code_simp+
  moreover have "real_of_text ''100000'' = Some 100000"
    by (simp add: real_of_text_def py_float_of_def py_strip_def sign_split_def mantissa_def is_ws_def py_lower_def lower_char_def
      is_upper_def is_digit_def less_eq_char_def is_exp_mark_def nat_of_digits_def digit_val_def ten_to_def round_double_def)
  ultimately show ?thesis unfolding rate_mbps_def Let_def by simp
qed

lemma sample_interfaces: "interfaces_of (sample_network ports) = [(''eth0'', sample_nic)]"
proof -
  have "field_of (sample_network ports) ''interfaces'' = JvList [JvObj sample_nic]"
    by (simp add: sample_network_def field_of_def get_field_def)
  moreover have "py_true (field_of sample_nic ''name'')" "py_str (field_of sample_nic ''name'') = ''eth0''" by code_simp+
  ultimately show ?thesis by (simp add: interfaces_of_def objects_def elements_def as_fields_def List.map_filter_def)
qed

lemma sample_normal: "normalize_roce_policy (Some sample_policy) = Some sample_roce_policy" by code_simp

lemma sample_scan:
  "scan_gids (sample_network [sample_port [sample_gid ''::ffff:10.0.0.7'' ''RoCE v2'']])
     = \<lparr>gs_bindings = [sample_binding ''v2''], gs_ports = 1, gs_incomplete = False, gs_unbound = 0\<rparr>"
  by code_simp
definition sample_view :: roce_view where
  "sample_view = \<lparr>rv_policy = sample_roce_policy, rv_given = True,
     rv_scan = \<lparr>gs_bindings = [sample_binding ''v2''], gs_ports = 1, gs_incomplete = False, gs_unbound = 0\<rparr>,
     rv_interfaces = [(''eth0'', sample_nic)], rv_results = [sample_interface]\<rparr>"
text \<open>Every check of the sample, the comparisons of real numbers apart, is evaluated.\<close>

lemma sample_rates: "list_all passes (mtu_checks sample_roce_policy sample_interface)"
  by (simp add: mtu_checks_def at_least_def sample_interface_def sample_roce_policy_def)

lemma sample_protocol:
  "list_all passes (protocol_checks sample_roce_policy (rv_scan sample_view))" "passes (version_check sample_roce_policy (rv_scan sample_view))"
  "list_all passes (netdev_checks (rv_interfaces sample_view) (gs_bindings (rv_scan sample_view)))"
  "list_all passes (link_checks sample_interface)" "list_all passes (address_checks sample_view)"
  "list_all passes (map (gid_check sample_view) (gs_bindings (rv_scan sample_view)))"
  "list_all passes (family_checks sample_view)" "passes (vlan_check sample_view)"
  by code_simp+

lemma sample_bridging:
  "list_all passes (dcb_checks sample_view)" "list_all passes (coverage_checks sample_view)"
  "list_all passes (concat (map (setting_checks sample_view) (netdevs sample_view)))"
  by code_simp+

lemma sample_interface_ok: "interface_of [(''eth0'', sample_nic)] [sample_binding ''v2''] ''eth0'' = Some sample_interface"
proof -
  have m: "map_of [(''eth0'', sample_nic)] ''eth0'' = Some sample_nic" by simp
  have r: "interface_rate [sample_binding ''v2''] ''eth0'' sample_nic = Some 100000"
  proof -
    have "field_of sample_nic ''speed_mbps'' = JvNum 100000" by code_simp
    then show ?thesis by (simp only: interface_rate_def sample_speed Let_def) simp
  qed
  have f: "py_upper (py_str (or_value (field_of sample_nic ''local_link_status'') (JvText ''UNKNOWN''))) = ''UP''"
    "mtu_of (field_of sample_nic ''mtu'') = Some 9000"
    "address_records sample_nic = ([\<lparr>ip_v6 = False, ip_value = 167772167, ip_scope = None\<rparr>], ''COMPLETE'')"
    "interface_vlan sample_nic = (Some 0, ''COMPLETE'')"
    "roce_topology_of ''eth0'' [(''eth0'', sample_nic)] = ri_topology sample_interface"
    by code_simp+
  show ?thesis unfolding interface_of_def m option.map(2) r f by (simp add: sample_interface_def)
qed

lemma sample_view_of:
  "view_of (sample_network [sample_port [sample_gid ''::ffff:10.0.0.7'' ''RoCE v2'']]) True sample_roce_policy = sample_view"
proof -
  have "mapped_netdevs [sample_binding ''v2''] = [''eth0'']" by code_simp
  then show ?thesis unfolding view_of_def Let_def sample_scan sample_interfaces sample_view_def
    using sample_interface_ok by (simp add: List.map_filter_def)
qed

lemma sample_passes: "list_all passes (all_checks sample_view)"
  unfolding all_checks_def Let_def list_all_append interface_checks_def using sample_protocol sample_rates sample_bridging
  by (simp add: sample_view_def)

theorem roce_pass_is_earned_witness:
  "\<exists>pol. normalize_roce_policy (Some sample_policy) = Some pol \<and> gs_bindings (rv_scan (view_of
      (sample_network [sample_port [sample_gid ''::ffff:10.0.0.7'' ''RoCE v2'']]) True pol)) \<noteq> [] \<and> rp_versions pol \<noteq> None"
proof -
  let ?net = "sample_network [sample_port [sample_gid ''::ffff:10.0.0.7'' ''RoCE v2'']]"
  have g: "(Some sample_policy \<notin> {None, Some (JvObj [])}) = True" by (simp add: sample_policy_def)
  obtain report where r: "evaluate_roce_health ?net (Some sample_policy) = Some report" "rr_status report = RPass"
  proof -
    have o: "overall (map (fst \<circ> snd) (all_checks sample_view)) = RPass"
      unfolding roce_overall_pass using sample_passes by (auto simp: list_all_iff)
    have e: "evaluate_roce_health ?net (Some sample_policy) = Some \<lparr>rr_status = overall (map (fst \<circ> snd) (all_checks sample_view)),
        rr_checks = all_checks sample_view, rr_bindings = gs_bindings (rv_scan sample_view)\<rparr>"
      by (simp only: evaluate_roce_health_def sample_normal option.map(2) g Let_def sample_view_of)
    show thesis by (rule that [OF e]) (simp only: roce_report.simps o)
  qed
  from roce_pass_is_earned [OF r] obtain pol v allowed where p: "normalize_roce_policy (Some sample_policy) = Some pol"
    "v = view_of ?net (Some sample_policy \<notin> {None, Some (JvObj [])}) pol" "gs_bindings (rv_scan v) \<noteq> []" "rp_versions pol = Some allowed"
    by (elim exE conjE) (rule that)
  show ?thesis by (rule exI [of _ pol]) (intro conjI p(1) p(3) [unfolded p(2) g], simp add: p(4))
qed

section \<open>Where the verdict differs from what the module says\<close>

text \<open>
  The module says that a failed collection never becomes a failed configuration; with the bindings
  of one port and none of another, whose collection failed, the protocol of the policy is judged, and
  fails, on the port that was read.
\<close>

lemma partial_evidence_fails_the_policy:
  assumes "gs_incomplete s" "gs_bindings s \<noteq> []" "rp_protocol pol = Some ''roce-v2''" "''v2'' \<notin> gb_version ` set (gs_bindings s)"
  shows "(''ROCE_POLICY_PROTOCOL'', RFail, ''ROCE_PROTOCOL_VERSION_MISMATCH'') \<in> set (protocol_checks pol s)"
  using assms by (simp add: protocol_checks_def)

text \<open>A rate without a prefix counts like one in kilobits.\<close>

lemma bits_count_as_kilobits: "unit_factor None = unit_factor (Some ''k'')"
  by (simp add: unit_factor_def py_lower_def lower_char_def is_upper_def less_eq_char_def)

text \<open>The state of the port is recorded with a binding; the checks of the bindings do not look at it.\<close>

definition without_state :: "gid_binding \<Rightarrow> gid_binding" where
  "without_state b = b\<lparr>gb_up := False\<rparr>"

lemma port_state_is_ignored:
  "protocol_checks pol (s\<lparr>gs_bindings := map without_state (gs_bindings s)\<rparr>) = protocol_checks pol s"
  "version_check pol (s\<lparr>gs_bindings := map without_state (gs_bindings s)\<rparr>) = version_check pol s"
  "gid_check v (without_state b) = gid_check v b"
  "interface_rate (map without_state bs) name i = interface_rate bs name i"
  by (auto simp: protocol_checks_def version_check_def gid_check_def interface_rate_def without_state_def Let_def comp_def
      filter_map List.map_filter_def image_image split: option.split)

end
