(* ===== verification/Spec2Isabelle.thy ===== *)
theory Spec2Isabelle
  imports NodePool TaintRecovery JobState HostExpr StackAnalysis RankLayout ProcessTree ProxyAlloc LogMonitor NetTopology LogSink Webhook HealthAgent EnvSnapshot EnvRerun FaultProbe NhcMonitor ClusterChecks RoceHealth
begin

text \<open>
  \<^bold>\<open>What the program is.\<close>  The repository keeps training jobs on clusters of accelerator cards
  alive.  Four packages carry its logic:

    \<^item> \<^verbatim>\<open>hcu-training-reliability/cluster_manager\<close> runs beside a job: a node pool with a blacklist
      of faulty nodes, the state machine and command loop that stop, repair and start the run,
      the allocation loop that finds spare nodes, and a log monitor that turns training logs into
      fault events.
    \<^item> \<^verbatim>\<open>hygon-ft-k8s/hygon_ft\<close> does the same on Kubernetes: an admission webhook puts a launcher in
      front of every training container, a health agent and the launchers report faults, the
      operator aggregates the reports of a job, taints nodes and deletes pods, and a recovery job
      removes the taint of a node that passes its checks.
    \<^item> \<^verbatim>\<open>stack-analyzer\<close> compares the stacks of all ranks of a hanging job, clusters them along the
      parallel groups and names the suspect ranks.
    \<^item> \<^verbatim>\<open>hcu-envcheck\<close> checks a cluster before training: its reporting half turns the files of a run
      (control records, task rows, logs) into verdicts, an overall status, and exported lists that
      can be run again; its checks judge the InfiniBand links across the cluster and the RoCE
      configuration of a node.

  The parts meet where the theorems that span theories are: the log monitor's event becomes the
  fault report of the operator (\<^verbatim>\<open>LogSink\<close>) and the rank fault of the job (\<^verbatim>\<open>JobState\<close>); a rank
  fault isolates nodes of the pool (\<^verbatim>\<open>NodePool\<close>) and bans them (\<^verbatim>\<open>Blacklist\<close>), and the pool asks
  the blacklist back through the locale \<^verbatim>\<open>node_allocator\<close>; the allocation loop (\<^verbatim>\<open>ProxyAlloc\<close>)
  grants nodes from the pool; the periodic check (\<^verbatim>\<open>NhcMonitor\<close>) moves nodes of the pool as the
  probes of \<^verbatim>\<open>FaultProbe\<close> report; the topology validator (\<^verbatim>\<open>NetTopology\<close>) and the stack analyzer
  (\<^verbatim>\<open>RankLayout\<close>) compute the same parallel groups; the taint recovery (\<^verbatim>\<open>TaintRecovery\<close>) removes
  exactly the taint the operator (\<^verbatim>\<open>Operator\<close>) writes.

  \<^bold>\<open>Theories and what they model.\<close>  Paths are under \<^verbatim>\<open>src/\<close>; \<^verbatim>\<open>CM\<close> is
  \<^verbatim>\<open>hcu-training-reliability/cluster_manager\<close>, \<^verbatim>\<open>FT\<close> is \<^verbatim>\<open>hygon-ft-k8s/hygon_ft\<close>, \<^verbatim>\<open>SA\<close> is
  \<^verbatim>\<open>stack-analyzer/stack_analyzer\<close>, \<^verbatim>\<open>EC\<close> is \<^verbatim>\<open>hcu-envcheck/hcu_envcheck\<close>.

    \<^item> \<^verbatim>\<open>Prelude\<close>: Python's exceptions, strings, lists and dictionaries as the sources use them.
      \<^verbatim>\<open>RegexMatch\<close>: a backtracking matcher for the part of \<^verbatim>\<open>re\<close> that occurs; the result is the
      first match in the order of Python's engine.  \<^verbatim>\<open>JsonTree\<close>: decoded JSON values.
    \<^item> \<^verbatim>\<open>Allocation\<close>: the interface between pool and blacklist (locale \<^verbatim>\<open>node_allocator\<close>).
      \<^verbatim>\<open>Blacklist\<close>: \<^verbatim>\<open>CM/node_management/node_blacklist_manager.py\<close>, the class \<^verbatim>\<open>BlacklistManager\<close>
      as the record \<^verbatim>\<open>manager\<close>; fault scores decay, bans are soft or fatal.  \<^verbatim>\<open>NodePool\<close>:
      \<^verbatim>\<open>CM/node_management/node_pool.py\<close>, the class as the record \<^verbatim>\<open>node_pool\<close>; one function per
      method, reachability as \<^verbatim>\<open>pool_step\<close> and \<^verbatim>\<open>pool_reachable\<close>.
    \<^item> \<^verbatim>\<open>JobState\<close>: the fault entry points of the pool proxy (\<^verbatim>\<open>CM/monitor/nhc_monitor.py\<close>),
      \<^verbatim>\<open>CM/runtime/\<close> (context, state machine, persisted state) and the command loop of
      \<^verbatim>\<open>CM/controller/distributed_job_manager.py\<close>; the record \<^verbatim>\<open>job\<close> and \<^verbatim>\<open>job_reachable\<close>.
      \<^verbatim>\<open>ProxyAlloc\<close>: the loop \<^verbatim>\<open>apply_node_num_resources\<close> with its helpers in
      \<^verbatim>\<open>CM/utils/file_utils.py\<close>.  \<^verbatim>\<open>HostExpr\<close>: \<^verbatim>\<open>CM/utils/string_utils.py\<close> and
      \<^verbatim>\<open>CM/executor/cmd_executor.py\<close>.  \<^verbatim>\<open>FaultProbe\<close>: \<^verbatim>\<open>CM/launcher/fault_detection.py\<close>, the
      health verdicts, listings and the card watch.  \<^verbatim>\<open>NhcMonitor\<close>: the thread \<^verbatim>\<open>NHCMonitor\<close> of
      \<^verbatim>\<open>CM/monitor/nhc_monitor.py\<close>, one pass as a function on the record of the thread and the pool.
    \<^item> \<^verbatim>\<open>LogParser\<close>, \<^verbatim>\<open>LogFaults\<close>, \<^verbatim>\<open>LogMetrics\<close>, \<^verbatim>\<open>LogMonitor\<close>, \<^verbatim>\<open>LogSink\<close>: the log monitor of
      \<^verbatim>\<open>CM/monitor/\<close>, from the pattern tables to the delayed fault report, the tail loop with its
      saved offsets, hang detection, and the report to the operator.  \<^verbatim>\<open>NetTopology\<close>:
      \<^verbatim>\<open>CM/parallel/net_topology_validator.py\<close>.
    \<^item> \<^verbatim>\<open>Kube\<close>: the answers of the API server.  \<^verbatim>\<open>FaultPolicy\<close> and \<^verbatim>\<open>Operator\<close>:
      \<^verbatim>\<open>FT/operator/controller.py\<close>, its pure decisions and the class \<^verbatim>\<open>FaultController\<close> as \<^verbatim>\<open>op_state\<close>
      with the relation \<^verbatim>\<open>op_step\<close>.  \<^verbatim>\<open>TaintRecovery\<close> and \<^verbatim>\<open>HealthAgent\<close>: \<^verbatim>\<open>FT/nodehealth/\<close>.
      \<^verbatim>\<open>Webhook\<close>: \<^verbatim>\<open>FT/webhook/server.py\<close>, objects and patches as JSON trees.
    \<^item> \<^verbatim>\<open>StackModel\<close>, \<^verbatim>\<open>StackTrie\<close>, \<^verbatim>\<open>StackAnalysis\<close>, \<^verbatim>\<open>RankLayout\<close>, \<^verbatim>\<open>ProcessTree\<close>: \<^verbatim>\<open>SA/models.py\<close>,
      \<^verbatim>\<open>snapshot_prep.py\<close>, \<^verbatim>\<open>stack_trie.py\<close>, the two aggregators and the verdict, the rank layout
      (\<^verbatim>\<open>megatron_topology.py\<close>, \<^verbatim>\<open>hostfile.py\<close>) and the discovery of training processes.
    \<^item> \<^verbatim>\<open>EnvResult\<close> and \<^verbatim>\<open>EnvSnapshot\<close>: \<^verbatim>\<open>EC/reporting/model.py\<close>, \<^verbatim>\<open>parsers.py\<close>, \<^verbatim>\<open>aggregate.py\<close> and
      \<^verbatim>\<open>__main__.py\<close>; from the record of a stage to the conclusion of a task and the overall status.
      \<^verbatim>\<open>EnvRerun\<close>: \<^verbatim>\<open>EC/reporting/export.py\<close>, \<^verbatim>\<open>EC/reporting/scale.py\<close> and
      \<^verbatim>\<open>hcu-envcheck/cluster_run/rerun_plan.py\<close>, the exported lists and their validation.
    \<^item> \<^verbatim>\<open>ClusterChecks\<close>: \<^verbatim>\<open>EC/cluster_checks.py\<close> and \<^verbatim>\<open>EC/verbs.py\<close>, the InfiniBand state and
      bandwidth tests.  \<^verbatim>\<open>IpAddr\<close>: what \<^verbatim>\<open>ipaddress\<close> and \<^verbatim>\<open>int\<close> of Python accept.
      \<^verbatim>\<open>RocePolicy\<close> and \<^verbatim>\<open>RoceHealth\<close>: \<^verbatim>\<open>EC/roce_health.py\<close>, its policy and the output of its commands,
      then the checks and the verdict (\<^verbatim>\<open>evaluate_roce_health\<close>).

  \<^bold>\<open>Correspondence.\<close>  A class is a record of its fields and a method a function from the state to the
  state; a method that can raise returns an outcome or a sum, so every early return and exception
  is a branch.  Dictionaries whose order is observable are association lists in insertion order,
  others are maps or sets.  Python integers are \<open>int\<close> or \<open>nat\<close>, floats are real numbers (with the
  special values where the code tests for them).  Clocks, files, the API server, schedulers, probes
  and other processes answer through arguments: a value per call, or an arbitrary function of the
  requests made so far.  Nothing is assumed about them except in the hypotheses of a theorem.

  \<^bold>\<open>What the theorems show.\<close>

    \<^item> Invariants over all reachable states: the pool stays partitioned, also after every pass of the
      periodic check; a job stays live with a matching command; a group of faults has exactly one
      timer.
    \<^item> Safety of isolation and repair: a located fault isolates and bans its node; a permanent ban is
      deserved by the faults accepted since the last clearing, is never lifted by a report, and keeps
      its node from being allocated; a grant hands out, and writes to the slots file, exactly the
      probed nodes; a taint is removed only by a patch made from the last reading of the node after
      consecutive passed rounds of this run; the tail loop hands over every line of the log in
      order and skips none; a cleared fault cache voids its old timers; a report or a RoCE verdict says PASS, and a bandwidth
      test passes, only with the evidence for it.
    \<^item> Functional behaviour: allocation, group resolution, root fault choice, reported fault, the
      rank the operator gives to a fault of the monitor (the order is kept above priority 150
      and inverted below), an accepted task, failures and their rows, an accepted
      rerun list, hang reports, passed nodes, readiness of a node.
    \<^item> Equivalences and refinements: expansion against a product, topology against the stride
      layout, the validator against the analyzer, the trie against a map, the ban flag against the
      history of a node, the bandwidth report against the order in which tests end.
    \<^item> Round trips: host expressions, JSON patches, exported failures run again.  Termination and
      liveness: process discovery, recovery of a job, the communication benchmark.
    \<^item> Defects shown as theorems or lemmas: a failed query starves a request, a hang is reported once
      per monitor, an Xid fault ends the pass of the periodic check, an epoch line blocks the log, a
      line read while it is written is handled in parts, a traceback hides a node fault, a NaN loss is
      recorded as zero, the memory window of the card watch is doubled, an unread port fails a RoCE
      policy.

  \<^bold>\<open>Bounds.\<close>  Recursion is structural or has a measure, with these exceptions.  The
  ladder of message sizes (\<^verbatim>\<open>ladder\<close> in \<^verbatim>\<open>EnvResult\<close>) runs 128 steps because the code itself
  stops after 128.  The repetition of the regular expression matcher counts the characters of
  its input, and each round that goes on consumes one; the searches for all matches
  (\<^verbatim>\<open>find_from\<close>, \<^verbatim>\<open>line_find\<close>) count positions of the text and take one more than its length.
  The polling of the taint recovery (\<^verbatim>\<open>wait_loop\<close>) takes its number of rounds from the environment,
  and the theorems hold for every number.  The tail loop and the allocation loop
  do not end in the code; a round is a function and statements range over lists of rounds.

  \<^bold>\<open>Not modelled.\<close>  Code whose work is to run commands on machines and print what they
  answer: the launchers and container access, Slurm submission, the node collectors and the
  cluster runner's remote execution in \<^verbatim>\<open>hcu-envcheck\<close> (\<^verbatim>\<open>rdma.py\<close>, \<^verbatim>\<open>pod_probe.py\<close> and others),
  the collectors of the stack analyzer, rendering and plotting, stand-alone extraction and
  notification scripts.  Their answers are arguments where modelled code uses them.  Threads and locks are not
  modelled: handlers are atomic between two events.  The monkey patching of \<^verbatim>\<open>hcu_resiliency_ext\<close>
  concerns a third-party package, and the runtime's topology validator returns constants.
\<close>

end
